(* ===== verification/Prelude.thy ===== *)
theory Prelude imports Main "HOL-Library.Word" "HOL-Library.Monad_Syntax" "HOL-Library.Multiset" begin

text \<open>
  What the components share: names for the machine types of the C++ sources, the model of an
  operation that may run into undefined behaviour, the searching algorithms of the C++ standard
  library the sources use on vectors, and the theory of doubly linked chains that both kinds of
  intrusive lists of the kernel rest on.
\<close>

section \<open>Machine types\<close>

type_synonym u8 = "8 word"
type_synonym u16 = "16 word"
type_synonym u32 = "32 word"
type_synonym u64 = "64 word"

text \<open>
  A C++ operation that dereferences a null pointer, pops an empty container, reads an array out of
  its bounds or violates an \<open>assert\<close> has no defined result: its model returns \<^const>\<open>None\<close>.
  An operation that cannot do so is a plain function.
\<close>

type_synonym 'a undef = "'a option"

definition guard :: "bool \<Rightarrow> unit undef" where
  "guard b = (if b then Some () else None)"

lemma guard_simps [simp]: "guard True = Some ()" "guard False = None"
  by (simp_all add: guard_def)

lemma guard_eq_Some [simp]: "guard b = Some u \<longleftrightarrow> b"
  by (cases b) simp_all

section \<open>Searching vectors\<close>

text \<open>\<open>std::find_if\<close>: the index of the first element that satisfies the predicate.\<close>

fun find_index :: "('a \<Rightarrow> bool) \<Rightarrow> 'a list \<Rightarrow> nat option" where
  "find_index P [] = None"
| "find_index P (x # xs) = (if P x then Some 0 else map_option Suc (find_index P xs))"

text \<open>\<open>std::vector::erase\<close> of one element.\<close>

definition erase_at :: "nat \<Rightarrow> 'a list \<Rightarrow> 'a list" where
  "erase_at i xs = take i xs @ drop (Suc i) xs"

lemma erase_at_Cons_simps [simp]:
  "erase_at 0 (x # xs) = xs"
  "erase_at (Suc i) (x # xs) = x # erase_at i xs"
  by (simp_all add: erase_at_def)

lemma length_erase_at [simp]: "i < length xs \<Longrightarrow> length (erase_at i xs) = length xs - 1"
  by (simp add: erase_at_def)

lemma find_index_Some_iff:
  "find_index P xs = Some i \<longleftrightarrow> i < length xs \<and> P (xs ! i) \<and> (\<forall>j<i. \<not> P (xs ! j))"
proof (induction xs arbitrary: i)
  case Nil
  then show ?case by simp
next
  case (Cons x xs)
  show ?case
  proof (cases i)
    case 0
    then show ?thesis by auto
  next
    case (Suc k)
    then show ?thesis using Cons.IH [of k]
      by (auto simp: less_Suc_eq_0_disj)
  qed
qed

lemma find_index_None_iff: "find_index P xs = None \<longleftrightarrow> (\<forall>x \<in> set xs. \<not> P x)"
  by (induction xs) auto

lemma find_index_SomeD:
  assumes "find_index P xs = Some i"
  shows "i < length xs" "P (xs ! i)" "xs ! i \<in> set xs"
  using assms by (auto simp: find_index_Some_iff)

lemma erase_at_find_index:
  "find_index P xs = Some i \<Longrightarrow> erase_at i xs = takeWhile (\<lambda>x. \<not> P x) xs @ tl (dropWhile (\<lambda>x. \<not> P x) xs)"
  by (induction xs arbitrary: i) (auto split: if_splits)

lemma erase_at_find_index_eq:
  "find_index ((=) x) xs = Some i \<Longrightarrow> erase_at i xs = remove1 x xs"
  by (induction xs arbitrary: i) (auto split: if_splits)

lemma set_erase_at_subset: "set (erase_at i xs) \<subseteq> set xs"
  by (auto simp: erase_at_def dest: in_set_takeD in_set_dropD)

lemma mset_erase_at: "i < length xs \<Longrightarrow> mset (erase_at i xs) = mset xs - {#xs ! i#}"
proof -
  assume i: "i < length xs"
  then have "mset xs = mset (take i xs @ xs ! i # drop (Suc i) xs)"
    by (simp add: id_take_nth_drop [symmetric])
  then show ?thesis by (simp add: erase_at_def)
qed

lemma find_hd_filter: "filter P xs \<noteq> [] \<Longrightarrow> find P xs = Some (hd (filter P xs))"
  by (induction xs) auto

section \<open>Doubly linked chains\<close>

text \<open>
  \<open>chain nx pv xs\<close>: every element of \<open>xs\<close> points with \<open>nx\<close> to the one after it, which points back
  to it with \<open>pv\<close>. The ring of the ready queue and the sentinel list of \<open>common::roundabout\<close> are
  both chains whose last element is the first one again.
\<close>

fun chain :: "('a \<Rightarrow> 'a option) \<Rightarrow> ('a \<Rightarrow> 'a option) \<Rightarrow> 'a list \<Rightarrow> bool" where
  "chain nx pv (a # b # r) \<longleftrightarrow> nx a = Some b \<and> pv b = Some a \<and> chain nx pv (b # r)"
| "chain nx pv _ \<longleftrightarrow> True"

lemma chain_append:
  "chain nx pv (xs @ y # ys) \<longleftrightarrow> chain nx pv (xs @ [y]) \<and> chain nx pv (y # ys)"
proof (induction xs)
  case Nil
  then show ?case by simp
next
  case (Cons x xs)
  then show ?case by (cases xs) auto
qed

lemma chain_append2:
  "chain nx pv (xs @ y # z # ys)
    \<longleftrightarrow> chain nx pv (xs @ [y]) \<and> nx y = Some z \<and> pv z = Some y \<and> chain nx pv (z # ys)"
  using chain_append [of nx pv xs y "z # ys"] by auto

lemma chain_appendD:
  assumes "chain nx pv (xs @ y # ys)"
  shows "chain nx pv (xs @ [y])" "chain nx pv (y # ys)"
  using assms chain_append [of nx pv xs y ys] by blast+

lemma chain_append2I:
  assumes "chain nx pv (xs @ [y])" "nx y = Some z" "pv z = Some y" "chain nx pv (z # ys)"
  shows "chain nx pv (xs @ y # z # ys)"
  using assms chain_append2 [of nx pv xs y z ys] by blast

lemma chain_append2D:
  assumes "chain nx pv (xs @ y # z # ys)"
  shows "chain nx pv (xs @ [y])" "nx y = Some z" "pv z = Some y" "chain nx pv (z # ys)"
  using assms chain_append2 [of nx pv xs y z ys] by blast+

lemma chain_cong:
  assumes "\<forall>a \<in> set (butlast xs). nx a = nx' a" and "\<forall>b \<in> set (tl xs). pv b = pv' b"
  shows "chain nx pv xs = chain nx' pv' xs"
  using assms
proof (induction nx pv xs rule: chain.induct)
  case (1 nx pv a b r)
  then show ?case by (cases r) auto
qed simp_all

lemma chain_upd_next [simp]:
  "a \<notin> set (butlast xs) \<Longrightarrow> chain (nx(a := v)) pv xs = chain nx pv xs"
  by (rule chain_cong) auto

lemma chain_upd_prev [simp]:
  "b \<notin> set (tl xs) \<Longrightarrow> chain nx (pv(b := v)) xs = chain nx pv xs"
  by (rule chain_cong) auto

lemma chain_next_in:
  assumes "chain nx pv xs" and "a \<in> set (butlast xs)"
  obtains b where "nx a = Some b" "b \<in> set (tl xs)"
proof -
  have "\<exists>b. nx a = Some b \<and> b \<in> set (tl xs)"
    using assms by (induction nx pv xs rule: chain.induct) (auto split: if_splits)
  with that show thesis by blast
qed

end
