(* ===== verification/Linked.thy ===== *)
theory Linked imports Prelude begin

text \<open>
  The intrusive double-linked queue of \<open>common/linked.h\<close>, pointer by pointer. Elements are
  addresses \<open>'e\<close>; the heap holds the \<open>next\<close> and \<open>previous\<close> pointer of each, \<^const>\<open>None\<close> being
  \<open>nullptr\<close>. A \<open>roundabout\<close> is named by the address of its sentinel \<open>elem_\<close>.
  The predicate \<open>roundabout_list\<close> relates the pointers to the list of queued elements; every
  operation is shown to act on that list, and the interface is the locale \<open>intrusive_queue\<close>.
\<close>

record 'e link_heap =
  nxt :: "'e \<Rightarrow> 'e option"
  prv :: "'e \<Rightarrow> 'e option"

definition set_nxt :: "'e \<Rightarrow> 'e option \<Rightarrow> 'e link_heap \<Rightarrow> 'e link_heap" where
  "set_nxt a v h = h\<lparr>nxt := (nxt h)(a := v)\<rparr>"

definition set_prv :: "'e \<Rightarrow> 'e option \<Rightarrow> 'e link_heap \<Rightarrow> 'e link_heap" where
  "set_prv a v h = h\<lparr>prv := (prv h)(a := v)\<rparr>"

lemma link_heap_upd_simps [simp]:
  "nxt (set_nxt a v h) = (nxt h)(a := v)" "prv (set_nxt a v h) = prv h"
  "prv (set_prv a v h) = (prv h)(a := v)" "nxt (set_prv a v h) = nxt h"
  by (simp_all add: set_nxt_def set_prv_def)

section \<open>The operations\<close>

text \<open>\<open>double_linked_queue_element::insert_before\<close> and \<open>insert_after\<close>: the neighbour of
  \<open>this_guy\<close> is dereferenced, so it must not be null. The right-hand sides are read in the heap as
  the preceding assignments left it.\<close>

definition insert_before :: "'e \<Rightarrow> 'e \<Rightarrow> 'e link_heap \<Rightarrow> 'e link_heap undef" where
  "insert_before this this_guy h = (
     let h = set_prv this (prv h this_guy) h;
         h = set_nxt this (Some this_guy) h
     in do {
       p \<leftarrow> prv h this_guy;
       let h = set_nxt p (Some this) h;
       Some (set_prv this_guy (Some this) h)
     })"

definition insert_after :: "'e \<Rightarrow> 'e \<Rightarrow> 'e link_heap \<Rightarrow> 'e link_heap undef" where
  "insert_after this this_guy h = (
     let h = set_prv this (Some this_guy) h;
         h = set_nxt this (nxt h this_guy) h
     in do {
       n \<leftarrow> nxt h this_guy;
       let h = set_prv n (Some this) h;
       Some (set_nxt this_guy (Some this) h)
     })"

definition deque :: "'e \<Rightarrow> 'e link_heap \<Rightarrow> 'e link_heap" where
  "deque this h = (
     let h = (case nxt h this of Some n \<Rightarrow> set_prv n (prv h this) h | None \<Rightarrow> h);
         h = (case prv h this of Some p \<Rightarrow> set_nxt p (nxt h this) h | None \<Rightarrow> h);
         h = set_nxt this None h
     in set_prv this None h)"

definition alone :: "'e \<Rightarrow> 'e link_heap \<Rightarrow> bool" where
  "alone this h \<longleftrightarrow> nxt h this = prv h this"

text \<open>The constructor of \<open>roundabout\<close> points the sentinel at itself.\<close>

definition roundabout_init :: "'e \<Rightarrow> 'e link_heap \<Rightarrow> 'e link_heap" where
  "roundabout_init elem h = set_prv elem (Some elem) (set_nxt elem (Some elem) h)"

definition roundabout_empty :: "'e \<Rightarrow> 'e link_heap \<Rightarrow> bool" where
  "roundabout_empty elem h \<longleftrightarrow> nxt h elem = Some elem"

definition roundabout_first :: "'e \<Rightarrow> 'e link_heap \<Rightarrow> 'e option" where
  "roundabout_first elem h = (if roundabout_empty elem h then None else nxt h elem)"

definition roundabout_last :: "'e \<Rightarrow> 'e link_heap \<Rightarrow> 'e option" where
  "roundabout_last elem h = (if roundabout_empty elem h then None else prv h elem)"

definition roundabout_end :: "'e \<Rightarrow> 'e link_heap \<Rightarrow> 'e option" where
  "roundabout_end elem h = (if roundabout_empty elem h then None else Some elem)"

definition roundabout_push :: "'e \<Rightarrow> 'e \<Rightarrow> 'e link_heap \<Rightarrow> 'e link_heap undef" where
  "roundabout_push elem new_elem h = (
     let h = set_prv new_elem (prv h elem) h;
         h = set_nxt new_elem (Some elem) h
     in do {
       p \<leftarrow> prv h elem;
       let h = set_nxt p (Some new_elem) h;
       Some (set_prv elem (Some new_elem) h)
     })"

section \<open>The list a roundabout stands for\<close>

definition roundabout_list :: "'e \<Rightarrow> 'e list \<Rightarrow> 'e link_heap \<Rightarrow> bool" where
  "roundabout_list elem xs h \<longleftrightarrow> distinct (elem # xs) \<and> chain (nxt h) (prv h) (elem # xs @ [elem])"

definition unlinked :: "'e \<Rightarrow> 'e link_heap \<Rightarrow> bool" where
  "unlinked e h \<longleftrightarrow> nxt h e = None \<and> prv h e = None"

lemma roundabout_init_list: "roundabout_list elem [] (roundabout_init elem h)"
  by (simp add: roundabout_list_def roundabout_init_def)

lemma roundabout_listD:
  assumes "roundabout_list elem xs h"
  shows "nxt h elem = Some (hd (xs @ [elem]))" "prv h elem = Some (last (elem # xs))"
proof -
  show "nxt h elem = Some (hd (xs @ [elem]))"
    using assms by (cases xs) (auto simp: roundabout_list_def)
  show "prv h elem = Some (last (elem # xs))"
  proof (cases xs rule: rev_cases)
    case Nil
    then show ?thesis using assms by (simp add: roundabout_list_def)
  next
    case (snoc ys y)
    then have "chain (nxt h) (prv h) ((elem # ys) @ y # elem # [])"
      using assms by (simp add: roundabout_list_def)
    then have "prv h elem = Some y" by (rule chain_append2D)
    with snoc show ?thesis by simp
  qed
qed

lemma roundabout_empty_iff:
  "roundabout_list elem xs h \<Longrightarrow> roundabout_empty elem h \<longleftrightarrow> xs = []"
  using roundabout_listD(1) [of elem xs h]
  by (cases xs) (auto simp: roundabout_empty_def roundabout_list_def)

lemma roundabout_first_list:
  "roundabout_list elem xs h \<Longrightarrow> roundabout_first elem h = (if xs = [] then None else Some (hd xs))"
  using roundabout_listD(1) [of elem xs h] roundabout_empty_iff [of elem xs h]
  by (cases xs) (auto simp: roundabout_first_def)

lemma roundabout_last_list:
  "roundabout_list elem xs h \<Longrightarrow> roundabout_last elem h = (if xs = [] then None else Some (last xs))"
  using roundabout_listD(2) [of elem xs h] roundabout_empty_iff [of elem xs h]
  by (auto simp: roundabout_last_def)

lemma roundabout_push_list:
  assumes r: "roundabout_list elem xs h" and new: "e \<notin> set xs" "e \<noteq> elem"
  obtains h' where "roundabout_push elem e h = Some h'" "roundabout_list elem (xs @ [e]) h'"
proof -
  define q where "q = last (elem # xs)"
  have pv: "prv h elem = Some q"
    using roundabout_listD(2) [OF r] by (simp add: q_def)
  have qe: "q \<noteq> e" using new by (auto simp: q_def)
  let ?h = "set_prv elem (Some e) (set_nxt q (Some e) (set_nxt e (Some elem) (set_prv e (Some q) h)))"
  have push: "roundabout_push elem e h = Some ?h"
    using new by (simp add: roundabout_push_def pv Let_def)
  have split: "elem # xs = butlast (elem # xs) @ [q]" by (simp add: q_def)
  have d: "distinct (elem # xs)" and c: "chain (nxt h) (prv h) (elem # xs @ [elem])"
    using r by (simp_all add: roundabout_list_def)
  have "elem # xs @ [elem] = butlast (elem # xs) @ q # [elem]"
    using split by (metis append.assoc append_Cons append_Nil)
  then have c1: "chain (nxt h) (prv h) (butlast (elem # xs) @ [q])"
    using c chain_append [of "nxt h" "prv h" "butlast (elem # xs)" q "[elem]"] by metis
  have c2: "chain (nxt ?h) (prv ?h) (butlast (elem # xs) @ [q])"
  proof -
    have "distinct (butlast (elem # xs) @ [q])" using d unfolding split [symmetric] .
    then have nb: "q \<notin> set (butlast (elem # xs))" "e \<notin> set (butlast (elem # xs))"
      using new by (auto dest: in_set_butlastD split: if_splits)
    have bl: "butlast (butlast (elem # xs) @ [q]) = butlast (elem # xs)" by simp
    have tl: "tl (butlast (elem # xs) @ [q]) = xs"
      using split by (metis list.sel(3))
    show ?thesis using c1
      by (rule iffD1 [OF chain_cong, rotated 2]) (use nb new d tl in \<open>auto simp: bl\<close>)
  qed
  have "elem # (xs @ [e]) @ [elem] = butlast (elem # xs) @ q # e # [elem]"
    using split by (metis append.assoc append_Cons append_Nil)
  moreover have "chain (nxt ?h) (prv ?h) (butlast (elem # xs) @ q # e # [elem])"
    using c2 by (rule chain_append2I) (use qe new in auto)
  ultimately have "chain (nxt ?h) (prv ?h) (elem # (xs @ [e]) @ [elem])"
    by (simp only:)
  then have "roundabout_list elem (xs @ [e]) ?h"
    using d new by (simp add: roundabout_list_def del: chain.simps)
  with push that show thesis by blast
qed

lemma roundabout_neighbours:
  assumes r: "roundabout_list elem (as @ x # bs) h"
  shows "prv h x = Some (last (elem # as))" "nxt h x = Some (hd (bs @ [elem]))"
    "nxt h (last (elem # as)) = Some x" "prv h (hd (bs @ [elem])) = Some x"
proof -
  have c: "chain (nxt h) (prv h) ((elem # as) @ x # (bs @ [elem]))"
    using r by (simp add: roundabout_list_def)
  then have c1: "chain (nxt h) (prv h) ((elem # as) @ [x])" and c2: "chain (nxt h) (prv h) (x # bs @ [elem])"
    by (rule chain_appendD)+
  have "(elem # as) @ [x] = (butlast (elem # as) @ [last (elem # as)]) @ [x]"
    by (simp only: append_butlast_last_id list.distinct(2) not_False_eq_True)
  then have "chain (nxt h) (prv h) (butlast (elem # as) @ last (elem # as) # x # [])"
    using c1 by simp
  then show "prv h x = Some (last (elem # as))" "nxt h (last (elem # as)) = Some x"
    by (rule chain_append2D)+
  show "nxt h x = Some (hd (bs @ [elem]))" "prv h (hd (bs @ [elem])) = Some x"
    using c2 by (cases bs; simp)+
qed

lemma roundabout_deque_list:
  assumes r: "roundabout_list elem (as @ x # bs) h"
  shows "roundabout_list elem (as @ bs) (deque x h)" "unlinked x (deque x h)"
proof -
  define p n where "p = last (elem # as)" and "n = hd (bs @ [elem])"
  note nb = roundabout_neighbours [OF r, folded p_def n_def]
  have d: "distinct (elem # as @ x # bs)" and c: "chain (nxt h) (prv h) ((elem # as) @ x # (bs @ [elem]))"
    using r by (simp_all add: roundabout_list_def)
  have p: "elem # as = butlast (elem # as) @ [p]" by (simp add: p_def)
  have n: "bs @ [elem] = n # tl (bs @ [elem])" by (simp add: n_def)
  have px: "p \<noteq> x" and nx: "n \<noteq> x"
    using d p n by (auto simp: p_def n_def hd_append split: if_splits dest: hd_in_set)
  have deq: "deque x h = set_prv x None (set_nxt x None (set_nxt p (Some n) (set_prv n (Some p) h)))"
    using nb px nx by (simp add: deque_def Let_def)
  show "unlinked x (deque x h)" by (simp add: deq unlinked_def)
  have "chain (nxt h) (prv h) (butlast (elem # as) @ p # x # (bs @ [elem]))"
    using c by (subst (asm) p) simp
  then have c1: "chain (nxt h) (prv h) (butlast (elem # as) @ [p])"
    and "chain (nxt h) (prv h) (x # (bs @ [elem]))"
    by (rule chain_append2D)+
  then have c2: "chain (nxt h) (prv h) (n # tl (bs @ [elem]))"
    by (subst (asm) n) simp
  let ?h = "deque x h"
  have "distinct (butlast (elem # as) @ [p])" using d unfolding p [symmetric] by auto
  then have pb: "p \<notin> set (butlast (elem # as))" "x \<notin> set (elem # as)"
    using d by auto
  have 1: "chain (nxt ?h) (prv ?h) (butlast (elem # as) @ [p])"
  proof (rule iffD1 [OF chain_cong c1])
    show "\<forall>a\<in>set (butlast (butlast (elem # as) @ [p])). nxt h a = nxt ?h a"
      using pb by (auto simp: deq dest: in_set_butlastD)
    have "n \<notin> set as"
      using d by (cases bs) (auto simp: n_def)
    then show "\<forall>b\<in>set (tl (butlast (elem # as) @ [p])). prv h b = prv ?h b"
      using pb(2) unfolding p [symmetric] by (auto simp: deq)
  qed
  have 2: "chain (nxt ?h) (prv ?h) (n # tl (bs @ [elem]))"
  proof (rule iffD1 [OF chain_cong c2])
    have bl: "set (butlast (n # tl (bs @ [elem]))) = set bs"
      unfolding n [symmetric] by simp
    have "p \<in> set (elem # as)" by (simp only: p_def last_in_set list.distinct(2) not_False_eq_True)
    then have "p \<notin> set bs" using d by auto
    then show "\<forall>a\<in>set (butlast (n # tl (bs @ [elem]))). nxt h a = nxt ?h a"
      unfolding bl using d by (auto simp: deq)
    show "\<forall>b\<in>set (tl (n # tl (bs @ [elem]))). prv h b = prv ?h b"
      using d by (cases bs) (auto simp: deq n_def)
  qed
  have "elem # (as @ bs) @ [elem] = butlast (elem # as) @ p # n # tl (bs @ [elem])"
    using p n by (metis append.assoc append_Cons append_Nil)
  moreover have "chain (nxt ?h) (prv ?h) (butlast (elem # as) @ p # n # tl (bs @ [elem]))"
    using 1 by (rule chain_append2I) (use 2 px nx in \<open>auto simp: deq\<close>)
  ultimately have "chain (nxt ?h) (prv ?h) (elem # (as @ bs) @ [elem])"
    by (simp only:)
  then show "roundabout_list elem (as @ bs) ?h"
    using d by (simp add: roundabout_list_def del: chain.simps)
qed

text \<open>
  What \<open>alone\<close> tests: an element that is queued is reported as alone when it is the only element
  of its roundabout, because then both its pointers hold the sentinel. The kernel uses the test to
  find out whether a thread is queued at all.
\<close>

lemma alone_queued_iff:
  assumes r: "roundabout_list elem xs h" and x: "x \<in> set xs"
  shows "alone x h \<longleftrightarrow> xs = [x]"
proof -
  obtain as bs where xs: "xs = as @ x # bs" using x by (meson split_list)
  note nb = roundabout_neighbours [OF r [unfolded xs]]
  have d: "distinct (elem # as @ x # bs)" using r xs by (simp add: roundabout_list_def)
  have "alone x h \<longleftrightarrow> hd (bs @ [elem]) = last (elem # as)"
    using nb by (simp add: alone_def)
  also have "\<dots> \<longleftrightarrow> as = [] \<and> bs = []"
    using d by (cases bs; cases as rule: rev_cases) auto
  finally show ?thesis using xs d by (auto simp: append_eq_Cons_conv)
qed

lemma alone_unlinked: "unlinked x h \<Longrightarrow> alone x h"
  by (simp add: unlinked_def alone_def)

text \<open>Pushing to or removing from one roundabout leaves the links of every other element alone.\<close>

lemma roundabout_list_cong:
  assumes "\<forall>a \<in> set (elem # xs). nxt h a = nxt h' a \<and> prv h a = prv h' a"
  shows "roundabout_list elem xs h = roundabout_list elem xs h'"
proof -
  have "chain (nxt h) (prv h) (elem # xs @ [elem]) = chain (nxt h') (prv h') (elem # xs @ [elem])"
    using assms by (intro chain_cong) (auto dest: in_set_butlastD)
  then show ?thesis by (simp add: roundabout_list_def)
qed

lemma roundabout_push_frame:
  assumes "roundabout_list elem xs h" "roundabout_push elem e h = Some h'" "a \<notin> set (elem # e # xs)"
  shows "nxt h' a = nxt h a \<and> prv h' a = prv h a"
proof -
  have "last (elem # xs) \<in> set (elem # xs)" by (rule last_in_set) simp
  then have "a \<noteq> last (elem # xs)" using assms(3) by auto
  then show ?thesis
    using roundabout_listD(2) [OF assms(1)] assms(2,3)
    by (auto simp: roundabout_push_def Let_def split: if_splits bind_splits)
qed

lemma deque_frame:
  assumes "roundabout_list elem xs h" "x \<in> set xs" "a \<notin> set (elem # xs)"
  shows "nxt (deque x h) a = nxt h a \<and> prv (deque x h) a = prv h a"
proof -
  obtain as bs where xs: "xs = as @ x # bs" using assms(2) by (meson split_list)
  note nb = roundabout_neighbours [OF assms(1) [unfolded xs]]
  have "last (elem # as) \<in> set (elem # as)" "hd (bs @ [elem]) \<in> set (bs @ [elem])"
    by (rule last_in_set hd_in_set; simp)+
  then have "a \<noteq> last (elem # as)" "a \<noteq> hd (bs @ [elem])" "a \<noteq> x"
    using assms(3) xs by auto
  then show ?thesis using nb by (simp add: deque_def Let_def)
qed

lemma roundabout_rotate:
  assumes "roundabout_list elem (x # xs) h"
  shows "roundabout_list x (xs @ [elem]) h"
proof -
  have "chain (nxt h) (prv h) ([elem] @ x # (xs @ [elem]))" using assms by (simp add: roundabout_list_def)
  then have 1: "chain (nxt h) (prv h) ((x # xs) @ [elem])" and 2: "chain (nxt h) (prv h) ([elem] @ [x])"
    by (auto dest: chain_appendD)
  from 1 have "chain (nxt h) (prv h) ((x # xs) @ elem # x # [])"
    by (rule chain_append2I) (use 2 in auto)
  then show ?thesis using assms by (auto simp: roundabout_list_def)
qed

section \<open>The interface of an intrusive queue\<close>

text \<open>
  The clients of a roundabout push at its end and take elements from its front, in loops of the
  form \<open>while (!queue.empty()) { ... queue.first()->deque() ... }\<close>. \<open>push_all\<close> and \<open>drain\<close> are such
  sequences over any implementation of the operations; \<open>drain\<close> is bounded by the number of
  elements it may take.
\<close>

fun push_all :: "('e \<Rightarrow> 'h \<Rightarrow> 'h undef) \<Rightarrow> 'e list \<Rightarrow> 'h \<Rightarrow> 'h undef" where
  "push_all push [] h = Some h"
| "push_all push (e # es) h = Option.bind (push e h) (push_all push es)"

fun drain :: "('h \<Rightarrow> 'e option) \<Rightarrow> ('e \<Rightarrow> 'h \<Rightarrow> 'h) \<Rightarrow> nat \<Rightarrow> 'h \<Rightarrow> 'e list \<times> 'h" where
  "drain first deq 0 h = ([], h)"
| "drain first deq (Suc n) h =
     (case first h of
        None \<Rightarrow> ([], h)
      | Some e \<Rightarrow> (let (es, h') = drain first deq n (deq e h) in (e # es, h')))"

locale intrusive_queue =
  fixes push :: "'e \<Rightarrow> 'h \<Rightarrow> 'h undef"
    and deq :: "'e \<Rightarrow> 'h \<Rightarrow> 'h"
    and first :: "'h \<Rightarrow> 'e option"
    and queued :: "'e list \<Rightarrow> 'h \<Rightarrow> bool"
    and pushable :: "'e \<Rightarrow> bool"
  assumes push_queued: "queued xs h \<Longrightarrow> pushable e \<Longrightarrow> e \<notin> set xs \<Longrightarrow> \<exists>h'. push e h = Some h' \<and> queued (xs @ [e]) h'"
    and deq_queued: "queued (as @ x # bs) h \<Longrightarrow> queued (as @ bs) (deq x h)"
    and first_queued: "queued xs h \<Longrightarrow> first h = (if xs = [] then None else Some (hd xs))"
begin

lemma push_all_queued:
  "queued xs h \<Longrightarrow> \<forall>e \<in> set es. pushable e \<Longrightarrow> distinct (xs @ es) \<Longrightarrow>
    \<exists>h'. push_all push es h = Some h' \<and> queued (xs @ es) h'"
proof (induction es arbitrary: xs h)
  case Nil
  then show ?case by simp
next
  case (Cons e es)
  then obtain h1 where h1: "push e h = Some h1" "queued (xs @ [e]) h1"
    using push_queued by (metis distinct_append list.set_intros(1) disjoint_iff)
  with Cons.IH [of "xs @ [e]" h1] Cons.prems show ?case by simp
qed

lemma drain_queued:
  "queued xs h \<Longrightarrow> length xs \<le> n \<Longrightarrow> \<exists>h'. drain first deq n h = (xs, h') \<and> queued [] h'"
proof (induction n arbitrary: xs h)
  case 0
  then show ?case by simp
next
  case (Suc n)
  show ?case
  proof (cases xs)
    case Nil
    with Suc.prems show ?thesis by (auto simp: first_queued)
  next
    case (Cons y ys)
    with Suc.prems(1) have "queued ys (deq y h)" using deq_queued [of "[]" y ys h] by simp
    with Suc.IH [of ys "deq y h"] Suc.prems Cons show ?thesis
      by (auto simp: first_queued split: prod.splits)
  qed
qed

end

interpretation ring: intrusive_queue "roundabout_push elem" deque "roundabout_first elem"
    "roundabout_list elem" "\<lambda>e. e \<noteq> elem" for elem :: "'e"
proof unfold_locales
  fix xs :: "'e list" and h e
  assume "roundabout_list elem xs h" "e \<noteq> elem" "e \<notin> set xs"
  then show "\<exists>h'. roundabout_push elem e h = Some h' \<and> roundabout_list elem (xs @ [e]) h'"
    by (blast elim: roundabout_push_list)
qed (auto simp: roundabout_first_list intro: roundabout_deque_list)

section \<open>Properties\<close>

text \<open>C11. A roundabout is a first-in first-out queue: after its constructor, pushing any distinct
  elements and then emptying it the way the kernel's loops do (\<open>first()->deque()\<close> until it is empty)
  takes the elements out in the order they were pushed, never meets a null pointer, and leaves the
  roundabout empty.\<close>

theorem roundabout_fifo:
  assumes "distinct es" "elem \<notin> set es"
  shows "\<exists>h h'. push_all (roundabout_push elem) es (roundabout_init elem h0) = Some h
    \<and> drain (roundabout_first elem) deque (length es) h = (es, h') \<and> roundabout_empty elem h'"
proof -
  obtain h where h: "push_all (roundabout_push elem) es (roundabout_init elem h0) = Some h"
      "roundabout_list elem es h"
    using ring.push_all_queued [of elem "[]" "roundabout_init elem h0" es] assms
    by (auto simp: roundabout_init_list)
  obtain h' where "drain (roundabout_first elem) deque (length es) h = (es, h')" "roundabout_list elem [] h'"
    using ring.drain_queued [OF h(2), of "length es"] by blast
  with h(1) show ?thesis by (auto simp: roundabout_empty_iff)
qed

theorem roundabout_fifo_witness:
  "\<exists>h h'. push_all (roundabout_push 0) [1, 2, 3 :: nat]
      (roundabout_init 0 \<lparr>nxt = (\<lambda>_. None), prv = (\<lambda>_. None)\<rparr>) = Some h
    \<and> drain (roundabout_first 0) deque 3 h = ([1, 2, 3], h') \<and> roundabout_empty 0 h'"
  using roundabout_fifo [of "[1, 2, 3 :: nat]" 0 "\<lparr>nxt = (\<lambda>_. None), prv = (\<lambda>_. None)\<rparr>"]
  by (simp add: numeral_3_eq_3)

text \<open>\<open>alone()\<close> does not tell whether an element is queued: of the elements of a well-formed
  roundabout it holds exactly for the element that is the only one, so a thread that is the sole
  entry of a mutex's pending or suspended list is taken for one that is not in the list.\<close>

theorem alone_iff_sole_element:
  assumes "roundabout_list elem xs h" and "x \<in> set xs"
  shows "alone x h \<longleftrightarrow> xs = [x]"
  using assms by (rule alone_queued_iff)

theorem alone_iff_sole_element_witness:
  "roundabout_list 0 [1 :: nat] \<lparr>nxt = [0 \<mapsto> 1, 1 \<mapsto> 0], prv = [0 \<mapsto> 1, 1 \<mapsto> 0]\<rparr>
    \<and> alone 1 \<lparr>nxt = [0 \<mapsto> 1, 1 \<mapsto> (0 :: nat)], prv = [0 \<mapsto> 1, 1 \<mapsto> 0]\<rparr>"
proof -
  have r: "roundabout_list 0 [1 :: nat] \<lparr>nxt = [0 \<mapsto> 1, 1 \<mapsto> 0], prv = [0 \<mapsto> 1, 1 \<mapsto> 0]\<rparr>"
    by (simp add: roundabout_list_def)
  with alone_iff_sole_element [OF r, of 1] show ?thesis by simp
qed

end
