(* ===== verification/Prio_Queue.thy ===== *)
theory Prio_Queue imports Prelude begin

text \<open>
  \<open>eka2l1::cp_queue\<close> of \<open>common/queue.h\<close>: a \<open>std::priority_queue\<close> over a vector, extended with
  \<open>remove\<close>, \<open>resort\<close> and iteration. The container is the list \<open>c\<close>, ordered as the heap algorithms of
  the C++ standard library keep it (the parent of index \<open>i\<close> is \<open>(i - 1) / 2\<close>); \<open>key\<close> is what the
  comparator reads of an element, for the kernel's wait queues the real priority of a thread. The
  standard leaves the order of elements with equal keys open; here they are placed by the textbook
  sifting, and no property below depends on it.
  The interface the kernel relies on is the locale \<open>priority_queue\<close>.
\<close>

section \<open>Heap algorithms\<close>

definition swap_at :: "nat \<Rightarrow> nat \<Rightarrow> 'a list \<Rightarrow> 'a list" where
  "swap_at i j xs = xs[i := xs ! j, j := xs ! i]"

abbreviation parent :: "nat \<Rightarrow> nat" where
  "parent i \<equiv> (i - 1) div 2"

lemma parent_eq_iff: "0 < j \<Longrightarrow> parent j = i \<longleftrightarrow> j = 2 * i + 1 \<or> j = 2 * i + 2"
  by auto

lemma length_swap_at [simp]: "length (swap_at i j xs) = length xs"
  by (simp add: swap_at_def)

lemma nth_swap_at:
  "i < length xs \<Longrightarrow> j < length xs \<Longrightarrow> k < length xs \<Longrightarrow>
    swap_at i j xs ! k = (if k = j then xs ! i else if k = i then xs ! j else xs ! k)"
  by (auto simp: swap_at_def nth_list_update)

lemma mset_swap_at [simp]: "i < length xs \<Longrightarrow> j < length xs \<Longrightarrow> mset (swap_at i j xs) = mset xs"
  by (simp add: swap_at_def mset_swap)

function sift_up :: "('a \<Rightarrow> int) \<Rightarrow> nat \<Rightarrow> 'a list \<Rightarrow> 'a list" where
  "sift_up key i xs =
     (if 0 < i \<and> key (xs ! parent i) < key (xs ! i) then sift_up key (parent i) (swap_at i (parent i) xs)
      else xs)"
  by pat_completeness auto
termination
  by (relation "measure (\<lambda>(key, i, xs). i)") auto

declare sift_up.simps [simp del]

definition larger_child :: "('a \<Rightarrow> int) \<Rightarrow> nat \<Rightarrow> 'a list \<Rightarrow> nat" where
  "larger_child key i xs =
     (if 2 * i + 2 < length xs \<and> key (xs ! (2 * i + 1)) < key (xs ! (2 * i + 2)) then 2 * i + 2
      else 2 * i + 1)"

function sift_down :: "('a \<Rightarrow> int) \<Rightarrow> nat \<Rightarrow> 'a list \<Rightarrow> 'a list" where
  "sift_down key i xs =
     (if 2 * i + 1 < length xs \<and> key (xs ! i) < key (xs ! larger_child key i xs)
      then sift_down key (larger_child key i xs) (swap_at i (larger_child key i xs) xs)
      else xs)"
  by pat_completeness auto
termination
  by (relation "measure (\<lambda>(key, i, xs). length xs - i)") (auto simp: larger_child_def)

declare sift_down.simps [simp del]

text \<open>\<open>std::push_heap\<close> after \<open>push_back\<close>, \<open>std::pop_heap\<close> with \<open>pop_back\<close>, \<open>std::make_heap\<close>.\<close>

definition push_heap :: "('a \<Rightarrow> int) \<Rightarrow> 'a \<Rightarrow> 'a list \<Rightarrow> 'a list" where
  "push_heap key x xs = sift_up key (length xs) (xs @ [x])"

definition pop_heap :: "('a \<Rightarrow> int) \<Rightarrow> 'a list \<Rightarrow> 'a list" where
  "pop_heap key xs =
     (if length xs \<le> 1 then [] else sift_down key 0 (last xs # tl (butlast xs)))"

fun make_heap_from :: "('a \<Rightarrow> int) \<Rightarrow> nat \<Rightarrow> 'a list \<Rightarrow> 'a list" where
  "make_heap_from key 0 xs = xs"
| "make_heap_from key (Suc k) xs = make_heap_from key k (sift_down key k xs)"

definition make_heap :: "('a \<Rightarrow> int) \<Rightarrow> 'a list \<Rightarrow> 'a list" where
  "make_heap key xs = make_heap_from key (length xs div 2) xs"

section \<open>The queue\<close>

definition cp_push :: "('a \<Rightarrow> int) \<Rightarrow> 'a \<Rightarrow> 'a list \<Rightarrow> 'a list" where
  "cp_push key x c = push_heap key x c"

text \<open>\<open>top()\<close> and \<open>pop()\<close> of an empty queue are undefined.\<close>

definition cp_top :: "'a list \<Rightarrow> 'a undef" where
  "cp_top c = (case c of [] \<Rightarrow> None | x # _ \<Rightarrow> Some x)"

definition cp_pop :: "('a \<Rightarrow> int) \<Rightarrow> 'a list \<Rightarrow> 'a list undef" where
  "cp_pop key c = (if c = [] then None else Some (pop_heap key c))"

definition cp_remove :: "('a \<Rightarrow> int) \<Rightarrow> 'a \<Rightarrow> 'a list \<Rightarrow> bool \<times> 'a list" where
  "cp_remove key val c =
     (case find_index ((=) val) c of
        Some it \<Rightarrow> (True, make_heap key (erase_at it c))
      | None \<Rightarrow> (False, c))"

definition cp_resort :: "('a \<Rightarrow> int) \<Rightarrow> 'a list \<Rightarrow> 'a list" where
  "cp_resort key c = make_heap key c"

definition cp_empty :: "'a list \<Rightarrow> bool" where
  "cp_empty c \<longleftrightarrow> c = []"

section \<open>Correctness of the heap algorithms\<close>

definition is_heap :: "('a \<Rightarrow> int) \<Rightarrow> 'a list \<Rightarrow> bool" where
  "is_heap key xs \<longleftrightarrow> (\<forall>j. 0 < j \<longrightarrow> j < length xs \<longrightarrow> key (xs ! j) \<le> key (xs ! parent j))"

lemma length_sift_up [simp]: "i < length xs \<Longrightarrow> length (sift_up key i xs) = length xs"
  by (induction key i xs rule: sift_up.induct) (subst sift_up.simps, auto)

lemma mset_sift_up [simp]: "i < length xs \<Longrightarrow> mset (sift_up key i xs) = mset xs"
  by (induction key i xs rule: sift_up.induct) (subst sift_up.simps, auto)

lemma sift_up_heap:
  assumes "i < length xs"
    and "\<forall>j. 0 < j \<longrightarrow> j < length xs \<longrightarrow> j \<noteq> i \<longrightarrow> key (xs ! j) \<le> key (xs ! parent j)"
    and "\<forall>j. 0 < j \<longrightarrow> j < length xs \<longrightarrow> parent j = i \<longrightarrow> 0 < i \<longrightarrow> key (xs ! j) \<le> key (xs ! parent i)"
  shows "is_heap key (sift_up key i xs)"
  using assms
proof (induction key i xs rule: sift_up.induct)
  case (1 key i xs)
  note prems = 1
  show ?case
  proof (cases "0 < i \<and> key (xs ! parent i) < key (xs ! i)")
    case False
    have "key (xs ! j) \<le> key (xs ! parent j)" if "0 < j" "j < length xs" for j
      using False 1(3) that by (cases "j = i") auto
    then show ?thesis using False by (subst sift_up.simps) (auto simp: is_heap_def)
  next
    case True
    let ?p = "parent i" and ?ys = "swap_at i (parent i) xs"
    have p: "?p < i" "?p < length xs" using True 1(2) by auto
    have nth: "?ys ! k = (if k = ?p then xs ! i else if k = i then xs ! ?p else xs ! k)"
      if "k < length xs" for k
      using that p 1(2) by (subst nth_swap_at) auto
    have "is_heap key (sift_up key ?p ?ys)"
    proof (rule 1(1) [OF True])
      show "?p < length ?ys" using p by simp
      show "\<forall>j. 0 < j \<longrightarrow> j < length ?ys \<longrightarrow> j \<noteq> ?p \<longrightarrow> key (?ys ! j) \<le> key (?ys ! parent j)"
      proof (intro allI impI)
        fix j assume j: "0 < j" "j < length ?ys" "j \<noteq> ?p"
        define q where "q = parent j"
        have q: "q < length xs" "q < j" using j by (auto simp: q_def)
        consider "j = i" | "j \<noteq> i" "q = i" | "j \<noteq> i" "q \<noteq> i" by blast
        then have "key (?ys ! j) \<le> key (?ys ! q)"
        proof cases
          case 1
          then show ?thesis using True j q nth [of j] nth [of q] by (simp add: q_def)
        next
          case 2
          then have "key (xs ! j) \<le> key (xs ! ?p)" using prems(4) j True by (simp add: q_def)
          then show ?thesis using 2 j q p nth [of j] nth [of q] by simp
        next
          case 3
          then have "key (xs ! j) \<le> key (xs ! q)" using prems(3) j by (simp add: q_def)
          then show ?thesis using 3 True j q nth [of j] nth [of q] by (cases "q = ?p") auto
        qed
        then show "key (?ys ! j) \<le> key (?ys ! parent j)" by (simp only: q_def)
      qed
      show "\<forall>j. 0 < j \<longrightarrow> j < length ?ys \<longrightarrow> parent j = ?p \<longrightarrow> 0 < ?p \<longrightarrow> key (?ys ! j) \<le> key (?ys ! parent ?p)"
      proof (intro allI impI)
        fix j assume j: "0 < j" "j < length ?ys" "parent j = ?p" "0 < ?p"
        define r where "r = parent ?p"
        have r: "r < ?p" using j(4) unfolding r_def by linarith
        have 1: "key (xs ! ?p) \<le> key (xs ! r)" using prems(3) [rule_format, of ?p] j(4) p by (simp add: r_def)
        have 2: "j \<noteq> ?p" using j(1,3) by linarith
        have 3: "key (xs ! j) \<le> key (xs ! ?p)" if "j \<noteq> i"
          using prems(3) [rule_format, of j] j that by simp
        have "key (?ys ! j) \<le> key (?ys ! r)"
          using 1 2 3 j r p nth [of j] nth [of r] by (cases "j = i") auto
        then show "key (?ys ! j) \<le> key (?ys ! parent ?p)" by (simp only: r_def)
      qed
    qed
    then show ?thesis using True by (subst sift_up.simps) simp
  qed
qed

lemma push_heap_heap: "is_heap key xs \<Longrightarrow> is_heap key (push_heap key x xs)"
  unfolding push_heap_def
  by (rule sift_up_heap) (auto simp: is_heap_def nth_append)

lemma mset_push_heap [simp]: "mset (push_heap key x xs) = add_mset x (mset xs)"
  by (simp add: push_heap_def)

lemma larger_child_props:
  assumes "2 * i + 1 < length xs"
  shows "larger_child key i xs < length xs" "i < larger_child key i xs" "parent (larger_child key i xs) = i"
    "2 * i + 2 < length xs \<Longrightarrow> key (xs ! (2 * i + 2)) \<le> key (xs ! larger_child key i xs)"
    "key (xs ! (2 * i + 1)) \<le> key (xs ! larger_child key i xs)"
  using assms by (auto simp: larger_child_def)

lemma length_sift_down [simp]: "length (sift_down key i xs) = length xs"
  by (induction key i xs rule: sift_down.induct) (subst sift_down.simps, auto)

lemma mset_sift_down [simp]: "mset (sift_down key i xs) = mset xs"
proof (induction key i xs rule: sift_down.induct)
  case (1 key i xs)
  then show ?case
    by (subst sift_down.simps) (use larger_child_props [of i xs key] in auto)
qed

text \<open>The heap order at the indices whose parent is at least \<open>k\<close>.\<close>

definition heap_from :: "('a \<Rightarrow> int) \<Rightarrow> nat \<Rightarrow> 'a list \<Rightarrow> bool" where
  "heap_from key k xs \<longleftrightarrow>
     (\<forall>j. 0 < j \<longrightarrow> j < length xs \<longrightarrow> k \<le> parent j \<longrightarrow> key (xs ! j) \<le> key (xs ! parent j))"

lemma sift_down_heap_from:
  assumes "k \<le> i"
    and "\<forall>j. 0 < j \<longrightarrow> j < length xs \<longrightarrow> k \<le> parent j \<longrightarrow> parent j \<noteq> i \<longrightarrow> key (xs ! j) \<le> key (xs ! parent j)"
    and "\<forall>j. 0 < j \<longrightarrow> j < length xs \<longrightarrow> parent j = i \<longrightarrow> 0 < i \<longrightarrow> k \<le> parent i \<longrightarrow> key (xs ! j) \<le> key (xs ! parent i)"
  shows "heap_from key k (sift_down key i xs)"
  using assms
proof (induction key i xs rule: sift_down.induct)
  case (1 key i xs)
  note prems = 1
  let ?c = "larger_child key i xs" and ?ys = "swap_at i (larger_child key i xs) xs"
  show ?case
  proof (cases "2 * i + 1 < length xs \<and> key (xs ! i) < key (xs ! ?c)")
    case False
    have "key (xs ! j) \<le> key (xs ! parent j)" if j: "0 < j" "j < length xs" "k \<le> parent j" for j
    proof (cases "parent j = i")
      case True
      then have "j = 2 * i + 1 \<or> j = 2 * i + 2" using j(1) parent_eq_iff by blast
      with j(2) False larger_child_props(4,5) [of i xs key] True show ?thesis by fastforce
    qed (use 1(3) j in auto)
    then show ?thesis using False by (subst sift_down.simps) (auto simp: heap_from_def)
  next
    case True
    note lc = larger_child_props [of i xs key, OF conjunct1 [OF True]]
    have nth: "?ys ! l = (if l = ?c then xs ! i else if l = i then xs ! ?c else xs ! l)" if "l < length xs" for l
      using that lc by (subst nth_swap_at) auto
    have kids: "key (xs ! j) \<le> key (xs ! ?c)" if "0 < j" "j < length xs" "parent j = i" for j
      using that lc(4,5) parent_eq_iff [of j i] by auto
    have "heap_from key k (sift_down key ?c ?ys)"
    proof (rule 1(1) [OF True])
      show "k \<le> ?c" using 1(2) lc(2) by simp
      show "\<forall>j. 0 < j \<longrightarrow> j < length ?ys \<longrightarrow> k \<le> parent j \<longrightarrow> parent j \<noteq> ?c \<longrightarrow> key (?ys ! j) \<le> key (?ys ! parent j)"
      proof (intro allI impI)
        fix j assume j: "0 < j" "j < length ?ys" "k \<le> parent j" "parent j \<noteq> ?c"
        define q where "q = parent j"
        have q: "q < length xs" "q < j" "q \<noteq> ?c" using j by (auto simp: q_def)
        have jc: "q \<noteq> i \<Longrightarrow> j \<noteq> ?c" using lc(3) by (auto simp: q_def)
        consider "q = i" | "q \<noteq> i" "j = i" | "q \<noteq> i" "j \<noteq> i" by blast
        then have "key (?ys ! j) \<le> key (?ys ! q)"
        proof cases
          case 1
          then show ?thesis using True j q lc kids [of j] nth [of j] nth [of q] by (auto simp: q_def)
        next
          case 2
          then have "key (xs ! ?c) \<le> key (xs ! q)"
            using prems(4) [rule_format, of ?c] j lc by (simp add: q_def)
          then show ?thesis using 2 j q jc nth [of j] nth [of q] by simp
        next
          case 3
          then have "key (xs ! j) \<le> key (xs ! q)" using prems(3) [rule_format, of j] j by (simp add: q_def)
          then show ?thesis using 3 j q jc nth [of j] nth [of q] by simp
        qed
        then show "key (?ys ! j) \<le> key (?ys ! parent j)" by (simp only: q_def)
      qed
      show "\<forall>j. 0 < j \<longrightarrow> j < length ?ys \<longrightarrow> parent j = ?c \<longrightarrow> 0 < ?c \<longrightarrow> k \<le> parent ?c \<longrightarrow> key (?ys ! j) \<le> key (?ys ! parent ?c)"
      proof (intro allI impI)
        fix j assume j: "0 < j" "j < length ?ys" "parent j = ?c" "0 < ?c" "k \<le> parent ?c"
        then have ji: "j \<noteq> ?c" "j \<noteq> i" using lc(2) by linarith+
        have "key (xs ! j) \<le> key (xs ! ?c)" using prems(3) [rule_format, of j] j lc by simp
        then show "key (?ys ! j) \<le> key (?ys ! parent ?c)"
          using j ji lc nth [of j] nth [of i] by simp
      qed
    qed
    then show ?thesis using True by (subst sift_down.simps) simp
  qed
qed

lemma heap_from_0: "heap_from key 0 xs = is_heap key xs"
  by (simp add: heap_from_def is_heap_def)

lemma pop_heap_heap:
  assumes "is_heap key xs"
  shows "is_heap key (pop_heap key xs)"
proof (cases "length xs \<le> 1")
  case True
  then show ?thesis by (simp add: pop_heap_def is_heap_def)
next
  case False
  let ?ys = "last xs # tl (butlast xs)"
  have ys: "?ys ! j = xs ! j" if "0 < j" "j < length ?ys" for j
  proof -
    have "?ys ! j = tl (butlast xs) ! (j - 1)" using that by (simp add: nth_Cons')
    also have "\<dots> = butlast xs ! j" using that by (subst nth_tl) auto
    also have "\<dots> = xs ! j" using that False by (intro nth_butlast) auto
    finally show ?thesis .
  qed
  have "heap_from key 0 (sift_down key 0 ?ys)"
  proof (rule sift_down_heap_from)
    show "\<forall>j. 0 < j \<longrightarrow> j < length ?ys \<longrightarrow> 0 \<le> parent j \<longrightarrow> parent j \<noteq> 0 \<longrightarrow> key (?ys ! j) \<le> key (?ys ! parent j)"
    proof (intro allI impI)
      fix j assume j: "0 < j" "j < length ?ys" "parent j \<noteq> 0"
      have "parent j < j" using j(1) by linarith
      then have "?ys ! j = xs ! j" "?ys ! parent j = xs ! parent j"
        using ys [of j] ys [of "parent j"] j by linarith+
      then show "key (?ys ! j) \<le> key (?ys ! parent j)"
        using assms j False by (simp add: is_heap_def)
    qed
  qed simp_all
  with False show ?thesis by (simp add: pop_heap_def heap_from_0)
qed

lemma mset_pop_heap: "xs \<noteq> [] \<Longrightarrow> mset (pop_heap key xs) = mset xs - {#hd xs#}"
proof -
  assume "xs \<noteq> []"
  then obtain x ys where xs: "xs = x # ys" by (cases xs) auto
  show ?thesis
  proof (cases ys rule: rev_cases)
    case Nil
    with xs show ?thesis by (simp add: pop_heap_def)
  next
    case (snoc zs z)
    with xs show ?thesis by (simp add: pop_heap_def)
  qed
qed

lemma make_heap_from_heap:
  "heap_from key k xs \<Longrightarrow> heap_from key 0 (make_heap_from key k xs)"
proof (induction key k xs rule: make_heap_from.induct)
  case (2 key k xs)
  have "heap_from key k (sift_down key k xs)"
  proof (rule sift_down_heap_from)
    show "\<forall>j. 0 < j \<longrightarrow> j < length xs \<longrightarrow> k \<le> parent j \<longrightarrow> parent j \<noteq> k \<longrightarrow> key (xs ! j) \<le> key (xs ! parent j)"
      using "2.prems" by (auto simp: heap_from_def)
    show "\<forall>j. 0 < j \<longrightarrow> j < length xs \<longrightarrow> parent j = k \<longrightarrow> 0 < k \<longrightarrow> k \<le> parent k \<longrightarrow> key (xs ! j) \<le> key (xs ! parent k)"
      by auto
  qed simp
  then show ?case using "2.IH" by simp
qed simp

lemma make_heap_heap: "is_heap key (make_heap key xs)"
proof -
  have "heap_from key (length xs div 2) xs" by (auto simp: heap_from_def)
  then show ?thesis unfolding make_heap_def heap_from_0 [symmetric] by (rule make_heap_from_heap)
qed

lemma mset_make_heap [simp]: "mset (make_heap key xs) = mset xs"
proof -
  have "mset (make_heap_from key k xs) = mset xs" for k
    by (induction key k xs rule: make_heap_from.induct) simp_all
  then show ?thesis by (simp add: make_heap_def)
qed

lemma heap_max:
  assumes "is_heap key xs" "j < length xs"
  shows "key (xs ! j) \<le> key (xs ! 0)"
  using assms(2)
proof (induction j rule: less_induct)
  case (less j)
  show ?case
  proof (cases "j = 0")
    case False
    then have "key (xs ! j) \<le> key (xs ! parent j)" using assms(1) less.prems by (simp add: is_heap_def)
    also have "\<dots> \<le> key (xs ! 0)" by (rule less.IH) (use False less.prems in auto)
    finally show ?thesis .
  qed simp
qed

section \<open>The interface of the wait queues\<close>

text \<open>A consumer that takes the top element as long as there is one.\<close>

fun pop_all :: "('q \<Rightarrow> 'a undef) \<Rightarrow> ('q \<Rightarrow> 'q undef) \<Rightarrow> nat \<Rightarrow> 'q \<Rightarrow> 'a list undef" where
  "pop_all peek pop 0 q = Some []"
| "pop_all peek pop (Suc n) q = do { x \<leftarrow> peek q; q' \<leftarrow> pop q; xs \<leftarrow> pop_all peek pop n q'; Some (x # xs) }"

text \<open>
  \<open>key\<close> is an argument of every operation because the priorities of queued threads change; a queue
  is well formed for the keys it was last ordered by.
\<close>

locale priority_queue =
  fixes push :: "('a \<Rightarrow> int) \<Rightarrow> 'a \<Rightarrow> 'q \<Rightarrow> 'q"
    and peek :: "'q \<Rightarrow> 'a undef"
    and pop :: "('a \<Rightarrow> int) \<Rightarrow> 'q \<Rightarrow> 'q undef"
    and remove :: "('a \<Rightarrow> int) \<Rightarrow> 'a \<Rightarrow> 'q \<Rightarrow> bool \<times> 'q"
    and resort :: "('a \<Rightarrow> int) \<Rightarrow> 'q \<Rightarrow> 'q"
    and elems :: "'q \<Rightarrow> 'a multiset"
    and ordered :: "('a \<Rightarrow> int) \<Rightarrow> 'q \<Rightarrow> bool"
  assumes push_ordered: "ordered key q \<Longrightarrow> ordered key (push key x q)"
    and push_elems: "elems (push key x q) = add_mset x (elems q)"
    and top_pop: "ordered key q \<Longrightarrow> elems q \<noteq> {#} \<Longrightarrow> \<exists>x q'. peek q = Some x \<and> pop key q = Some q' \<and> x \<in># elems q
        \<and> (\<forall>y. y \<in># elems q \<longrightarrow> key y \<le> key x) \<and> elems q' = elems q - {#x#} \<and> ordered key q'"
    and remove_ordered: "ordered key q \<Longrightarrow> ordered key (snd (remove key x q))"
    and remove_elems: "elems (snd (remove key x q)) = elems q - {#x#}"
    and remove_found: "fst (remove key x q) \<longleftrightarrow> x \<in># elems q"
    and resort_ordered: "ordered key (resort key q)"
    and resort_elems: "elems (resort key q) = elems q"
begin

lemma top_max:
  assumes "ordered key q" "peek q = Some x" "elems q \<noteq> {#}"
  shows "x \<in># elems q" "y \<in># elems q \<Longrightarrow> key y \<le> key x"
  using top_pop [OF assms(1,3)] assms(2) by auto

lemma push_all_fold:
  "ordered key q \<Longrightarrow> ordered key (fold (push key) xs q) \<and> elems (fold (push key) xs q) = mset xs + elems q"
  by (induction xs arbitrary: q) (simp_all add: push_ordered push_elems)

lemma pop_all_sorted:
  "ordered key q \<Longrightarrow> size (elems q) = n \<Longrightarrow>
    \<exists>xs. pop_all peek (pop key) n q = Some xs \<and> mset xs = elems q \<and> sorted_wrt (\<lambda>x y. key y \<le> key x) xs"
proof (induction n arbitrary: q)
  case 0
  then show ?case by simp
next
  case (Suc n)
  then obtain x q' where x: "peek q = Some x" "pop key q = Some q'" "x \<in># elems q"
    "\<forall>y. y \<in># elems q \<longrightarrow> key y \<le> key x" "elems q' = elems q - {#x#}" "ordered key q'"
    using top_pop [of key q] by (metis Suc_not_Zero size_empty)
  then have "size (elems q') = n" using Suc.prems(2) by (simp add: size_Diff_singleton)
  from Suc.IH [OF x(6) this] obtain xs where
    "pop_all peek (pop key) n q' = Some xs" "mset xs = elems q'" "sorted_wrt (\<lambda>x y. key y \<le> key x) xs"
    by blast
  moreover from this have "y \<in> set xs \<Longrightarrow> key y \<le> key x" for y
    using x(4,5) by (metis in_diffD set_mset_mset)
  ultimately show ?case using x by auto
qed

end

lemma cp_top_pop:
  assumes "is_heap key q" "mset q \<noteq> {#}"
  shows "\<exists>x q'. cp_top q = Some x \<and> cp_pop key q = Some q' \<and> x \<in># mset q
    \<and> (\<forall>y. y \<in># mset q \<longrightarrow> key y \<le> key x) \<and> mset q' = mset q - {#x#} \<and> is_heap key q'"
proof -
  obtain x r where q: "q = x # r" using assms(2) by (cases q) auto
  have "key y \<le> key x" if y: "y \<in># mset q" for y
  proof -
    obtain j where "j < length q" "q ! j = y" using y by (auto simp: in_set_conv_nth)
    with heap_max [OF assms(1), of j] q show ?thesis by simp
  qed
  then show ?thesis
    using assms(1) q mset_pop_heap [of q key] pop_heap_heap [of key q]
    by (simp add: cp_top_def cp_pop_def)
qed

lemma cp_remove_props:
  shows "is_heap key q \<Longrightarrow> is_heap key (snd (cp_remove key x q))"
    and "mset (snd (cp_remove key x q)) = mset q - {#x#}"
    and "fst (cp_remove key x q) \<longleftrightarrow> x \<in># mset q"
proof -
  show "is_heap key q \<Longrightarrow> is_heap key (snd (cp_remove key x q))"
    by (simp add: cp_remove_def make_heap_heap split: option.split)
  show "mset (snd (cp_remove key x q)) = mset q - {#x#}" "fst (cp_remove key x q) \<longleftrightarrow> x \<in># mset q"
    by (auto simp: cp_remove_def find_index_None_iff mset_erase_at find_index_Some_iff diff_single_trivial
        split: option.split)
qed

interpretation cpq: priority_queue cp_push cp_top cp_pop cp_remove cp_resort mset is_heap
proof unfold_locales
  fix key :: "'a \<Rightarrow> int" and q
  assume "is_heap key q" "mset q \<noteq> {#}"
  then show "\<exists>x q'. cp_top q = Some x \<and> cp_pop key q = Some q' \<and> x \<in># mset q
    \<and> (\<forall>y. y \<in># mset q \<longrightarrow> key y \<le> key x) \<and> mset q' = mset q - {#x#} \<and> is_heap key q'"
    by (rule cp_top_pop)
qed (simp_all add: cp_push_def push_heap_heap cp_resort_def make_heap_heap cp_remove_props)

lemmas wait_queue_simps = cpq.push_elems cpq.remove_elems cpq.remove_found cpq.resort_elems

lemma set_cp_push [simp]: "set (cp_push key x q) = insert x (set q)"
  by (metis cpq.push_elems set_mset_add_mset_insert set_mset_mset)

lemma set_cp_resort [simp]: "set (cp_resort key q) = set q"
  by (metis cpq.resort_elems set_mset_mset)

lemma distinct_by_mset: "mset xs = mset ys \<Longrightarrow> distinct xs = distinct ys"
  by (rule mset_eq_imp_distinct_iff)

lemma distinct_cp_push [simp]: "distinct (cp_push key x q) \<longleftrightarrow> x \<notin> set q \<and> distinct q"
proof -
  have "mset (cp_push key x q) = mset (x # q)" by (simp add: cpq.push_elems)
  then have "distinct (cp_push key x q) = distinct (x # q)" by (rule distinct_by_mset)
  then show ?thesis by simp
qed

lemma distinct_cp_resort [simp]: "distinct (cp_resort key q) = distinct q"
  by (rule distinct_by_mset) (simp add: cpq.resort_elems)

lemma cp_remove_set:
  assumes "distinct q"
  shows "set (snd (cp_remove key x q)) = set q - {x}" "distinct (snd (cp_remove key x q))"
proof -
  have m: "mset (snd (cp_remove key x q)) = mset (remove1 x q)"
    by (simp add: cpq.remove_elems)
  then have "set (snd (cp_remove key x q)) = set (remove1 x q)"
    by (metis set_mset_mset)
  then show "set (snd (cp_remove key x q)) = set q - {x}" using assms by simp
  show "distinct (snd (cp_remove key x q))"
    using distinct_by_mset [OF m] assms by simp
qed

lemma cp_pop_set:
  assumes "distinct q" "cp_top q = Some x" "cp_pop key q = Some q'"
  shows "set q' = set q - {x}" "distinct q'"
proof -
  obtain r where q: "q = x # r" using assms(2) by (cases q) (auto simp: cp_top_def)
  then have m: "mset q' = mset r" using assms(3) mset_pop_heap [of q key] by (auto simp: cp_pop_def)
  then have "set q' = set r" by (metis set_mset_mset)
  then show "set q' = set q - {x}" using q assms(1) by auto
  show "distinct q'" using distinct_by_mset [OF m] q assms(1) by simp
qed

section \<open>Properties\<close>

text \<open>The wait queue of a kernel object serves by priority: elements pushed into an empty queue
  in any order come out by repeated \<open>top()\<close> and \<open>pop()\<close> in non-increasing order of priority, each
  exactly once, and no \<open>top()\<close> of an empty container happens on the way.\<close>

theorem wait_queue_serves_by_priority:
  "\<exists>ys. pop_all cp_top (cp_pop key) (length xs) (fold (cp_push key) xs []) = Some ys
    \<and> mset ys = mset xs \<and> sorted_wrt (\<lambda>x y. key y \<le> key x) ys"
proof -
  have "is_heap key []" by (simp add: is_heap_def)
  from cpq.push_all_fold [OF this, of xs] show ?thesis
    using cpq.pop_all_sorted [of key "fold (cp_push key) xs []" "length xs"] by simp
qed

text \<open>\<open>resort()\<close> repairs the queue after the priorities of queued threads have changed in any way:
  whatever the container looked like, after it the elements are the same and come out in
  non-increasing order of the new priorities.\<close>

theorem resort_restores_order:
  "\<exists>ys. pop_all cp_top (cp_pop key) (length c) (cp_resort key c) = Some ys
    \<and> mset ys = mset c \<and> sorted_wrt (\<lambda>x y. key y \<le> key x) ys"
  using cpq.pop_all_sorted [OF cpq.resort_ordered [of key c], of "length c"]
  by (simp add: cpq.resort_elems)

end
