(* ===== verification/NTimer.thy ===== *)
theory NTimer imports Prelude begin

text \<open>
  The nanokernel timer: the class \<open>ntimer\<close> of \<open>kernel/timing.cpp\<close> and the \<open>teletimer\<close> of
  \<open>common/time.cpp\<close> it reads the time from. The wall clock of the host is the field \<open>wall_clock\<close>;
  the lock and the condition variable, which order the timer thread against the others, are not
  modelled: every operation below is one critical section. The type \<open>'c\<close> stands for the
  \<open>std::function\<close> stored in an event type.
\<close>

section \<open>The telemetric timer\<close>

record teletimer =
  tt_start :: u64
  tt_end :: u64
  target_freq :: u32

definition teletimer_start :: "u64 \<Rightarrow> teletimer \<Rightarrow> teletimer" where
  "teletimer_start wall t = t\<lparr>tt_start := wall, tt_end := 0\<rparr>"

definition teletimer_stop :: "u64 \<Rightarrow> teletimer \<Rightarrow> teletimer" where
  "teletimer_stop wall t = t\<lparr>tt_end := wall\<rparr>"

definition set_target_frequency :: "u32 \<Rightarrow> teletimer \<Rightarrow> bool \<times> teletimer" where
  "set_target_frequency freq t = (True, t\<lparr>target_freq := freq\<rparr>)"

definition teletimer_microseconds :: "u64 \<Rightarrow> teletimer \<Rightarrow> u64" where
  "teletimer_microseconds wall t = (if tt_end t = 0 then wall - tt_start t else tt_end t - tt_start t)"

text \<open>\<open>common::multiply_and_divide_qwords\<close> on a 64-bit host: the product is taken in 128 bits, the
  quotient is cut to 64. A zero divisor is undefined.\<close>

definition multiply_and_divide_qwords :: "u64 \<Rightarrow> u64 \<Rightarrow> u64 \<Rightarrow> u64 undef" where
  "multiply_and_divide_qwords m1 m2 d1 =
     (if d1 = 0 then None else Some (of_nat (unat m1 * unat m2 div unat d1)))"

definition teletimer_ticks :: "u64 \<Rightarrow> teletimer \<Rightarrow> u64 undef" where
  "teletimer_ticks wall t =
     multiply_and_divide_qwords (teletimer_microseconds wall t) (ucast (target_freq t)) 1000000"

section \<open>State\<close>

record event =
  ev_type :: int
  ev_time :: u64
  ev_data :: u64

record 'c event_type =
  callback :: "'c option"
  ev_name :: string

record 'c ntimer =
  events :: "event list"
  event_types :: "'c event_type list"
  cpu_hz :: u32
  tele :: teletimer
  wall_clock :: u64
  should_paused :: bool

definition ntimer_microseconds :: "'c ntimer \<Rightarrow> u64" where
  "ntimer_microseconds t = teletimer_microseconds (wall_clock t) (tele t)"

definition ntimer_ticks :: "'c ntimer \<Rightarrow> u64 undef" where
  "ntimer_ticks t = teletimer_ticks (wall_clock t) (tele t)"

text \<open>\<open>std::stable_sort\<close> with the comparator \<open>lhs.event_time > rhs.event_time\<close>.\<close>

definition sort_events :: "event list \<Rightarrow> event list" where
  "sort_events es = sort_key (\<lambda>e. - uint (ev_time e)) es"

section \<open>Operations\<close>

text \<open>\<open>us_into_future\<close> is a signed 64-bit number added to an unsigned one: the sum of the words.
  The second result is whether the timer thread is notified.\<close>

definition schedule_event :: "u64 \<Rightarrow> int \<Rightarrow> u64 \<Rightarrow> 'c ntimer \<Rightarrow> 'c ntimer \<times> bool" where
  "schedule_event us_into_future type userdata t = (
     let evt = \<lparr>ev_type = type, ev_time = ntimer_microseconds t + us_into_future, ev_data = userdata\<rparr>;
         should_nof = (events t = [] \<or> ev_time (last (events t)) > ev_time evt)
     in (t\<lparr>events := sort_events (events t @ [evt])\<rparr>, should_nof))"

definition unschedule_event :: "int \<Rightarrow> u64 \<Rightarrow> 'c ntimer \<Rightarrow> bool \<times> 'c ntimer" where
  "unschedule_event type userdata t =
     (case find_index (\<lambda>evt. ev_type evt = type \<and> ev_data evt = userdata) (events t) of
        Some res \<Rightarrow> (True, t\<lparr>events := sort_events (erase_at res (events t))\<rparr>)
      | None \<Rightarrow> (False, t))"

definition register_event :: "string \<Rightarrow> 'c \<Rightarrow> 'c ntimer \<Rightarrow> int \<times> 'c ntimer" where
  "register_event name cb t = (
     let evtype = \<lparr>callback = Some cb, ev_name = name\<rparr>
     in case find_index (\<lambda>et. callback et = None) (event_types t) of
          Some i \<Rightarrow> (int i, t\<lparr>event_types := (event_types t)[i := evtype]\<rparr>)
        | None \<Rightarrow> (int (length (event_types t)), t\<lparr>event_types := event_types t @ [evtype]\<rparr>))"

text \<open>The comparison \<open>event_types_.size() <= event_type\<close> is unsigned: a negative type returns.\<close>

definition remove_event :: "int \<Rightarrow> 'c ntimer \<Rightarrow> 'c ntimer" where
  "remove_event type t =
     (if type < 0 \<or> length (event_types t) \<le> nat type then t
      else t\<lparr>event_types := (event_types t)[nat type := (event_types t ! nat type)\<lparr>callback := None\<rparr>]\<rparr>)"

definition get_register_event :: "string \<Rightarrow> 'c ntimer \<Rightarrow> int" where
  "get_register_event name t =
     (case find_index (\<lambda>et. ev_name et = name) (event_types t) of Some i \<Rightarrow> int i | None \<Rightarrow> -1)"

definition unregister_all_events :: "'c ntimer \<Rightarrow> 'c ntimer" where
  "unregister_all_events t = t\<lparr>event_types := []\<rparr>"

definition set_clock_frequency_mhz :: "u32 \<Rightarrow> 'c ntimer \<Rightarrow> bool \<times> 'c ntimer" where
  "set_clock_frequency_mhz cpu_mhz t = (
     let (ok, tl) = set_target_frequency (cpu_mhz * 10000000) (tele t);
         t' = t\<lparr>tele := tl\<rparr>
     in if ok then (True, t'\<lparr>cpu_hz := cpu_mhz * 10000000\<rparr>) else (False, t'))"

definition get_clock_frequency_mhz :: "'c ntimer \<Rightarrow> u32" where
  "get_clock_frequency_mhz t = cpu_hz t div 1000000"

text \<open>
  The callback of a popped event: the type indexes the vector unchecked, and calling an empty
  \<open>std::function\<close> throws; both are undefined here.
\<close>

definition event_callback :: "'c ntimer \<Rightarrow> event \<Rightarrow> 'c undef" where
  "event_callback t evt =
     (if 0 \<le> ev_type evt \<and> nat (ev_type evt) < length (event_types t)
      then callback (event_types t ! nat (ev_type evt)) else None)"

text \<open>
  \<open>ntimer::advance\<close>. The loop compares with the time read before it, \<open>global\<close>. The callback runs
  with the lock released and may schedule or unschedule events, so its effect \<open>run\<close> is an argument:
  it takes the user data and the microseconds it is late (cast to 32 bits) and may change the timer.
  Events it schedules can be due at once, so the loop is bounded by \<open>fuel\<close>; \<open>advance_loop_due\<close> shows
  how much is enough. The events run are returned in order.
\<close>

fun advance_loop :: "('c \<Rightarrow> u64 \<Rightarrow> u32 \<Rightarrow> 'c ntimer \<Rightarrow> 'c ntimer) \<Rightarrow> u64 \<Rightarrow> nat \<Rightarrow> 'c ntimer
    \<Rightarrow> (event list \<times> 'c ntimer) undef" where
  "advance_loop run global 0 t = None"
| "advance_loop run global (Suc fuel) t =
     (if events t \<noteq> [] \<and> ev_time (last (events t)) \<le> global
      then do {
        let evt = last (events t);
        let t = t\<lparr>events := sort_events (butlast (events t))\<rparr>;
        cb \<leftarrow> event_callback t evt;
        let t = run cb (ev_data evt) (ucast (global - ev_time evt)) t;
        (fired, t) \<leftarrow> advance_loop run global fuel t;
        Some (evt # fired, t)
      }
      else Some ([], t))"

definition advance :: "('c \<Rightarrow> u64 \<Rightarrow> u32 \<Rightarrow> 'c ntimer \<Rightarrow> 'c ntimer) \<Rightarrow> nat \<Rightarrow> 'c ntimer
    \<Rightarrow> (u64 option \<times> event list \<times> 'c ntimer) undef" where
  "advance run fuel t = (
     let global_timer = ntimer_microseconds t
     in do {
       (fired, t) \<leftarrow> advance_loop run global_timer fuel t;
       Some (if events t \<noteq> [] then Some (ev_time (last (events t)) - global_timer) else None, fired, t)
     })"

section \<open>The order of pending events\<close>

definition events_sorted :: "event list \<Rightarrow> bool" where
  "events_sorted es \<longleftrightarrow> sorted_wrt (\<lambda>x y. ev_time y \<le> ev_time x) es"

lemma events_sorted_iff: "events_sorted es \<longleftrightarrow> sorted (map (\<lambda>e. - uint (ev_time e)) es)"
  by (simp add: events_sorted_def sorted_map word_le_def)

lemma events_sorted_sort_events [simp]: "events_sorted (sort_events es)"
  by (simp add: events_sorted_iff sort_events_def)

lemma mset_sort_events [simp]: "mset (sort_events es) = mset es"
  by (simp add: sort_events_def)

lemma sort_events_id: "events_sorted es \<Longrightarrow> sort_events es = es"
  by (simp add: events_sorted_iff sort_events_def sort_key_id_if_sorted)

lemma events_sorted_Nil [simp]: "events_sorted []"
  by (simp add: events_sorted_def)

lemma events_sorted_Cons: "events_sorted (x # es) \<longleftrightarrow> (\<forall>y \<in> set es. ev_time y \<le> ev_time x) \<and> events_sorted es"
  by (simp add: events_sorted_def)

lemma events_sorted_snoc: "events_sorted (es @ [x]) \<longleftrightarrow> events_sorted es \<and> (\<forall>y \<in> set es. ev_time x \<le> ev_time y)"
  by (auto simp: events_sorted_def sorted_wrt_append)

lemma events_sorted_last: "events_sorted es \<Longrightarrow> e \<in> set es \<Longrightarrow> ev_time (last es) \<le> ev_time e"
  by (cases es rule: rev_cases) (auto simp: events_sorted_snoc)

lemma events_sorted_butlast: "events_sorted es \<Longrightarrow> events_sorted (butlast es)"
  by (cases es rule: rev_cases) (auto simp: events_sorted_snoc)

lemma events_sorted_erase_at: "events_sorted es \<Longrightarrow> events_sorted (erase_at i es)"
proof (induction es arbitrary: i)
  case Nil
  then show ?case by (simp add: erase_at_def)
next
  case (Cons x es)
  then show ?case
    by (cases i) (auto simp: events_sorted_Cons dest: set_erase_at_subset [THEN subsetD])
qed

lemmas sort_erased = sort_events_id [OF events_sorted_erase_at]
lemmas sort_popped = sort_events_id [OF events_sorted_butlast]

text \<open>A scheduled event goes behind every event that is due no earlier, so among equals it is run first.\<close>

lemma sort_events_snoc:
  "events_sorted es \<Longrightarrow>
    sort_events (es @ [e]) = filter (\<lambda>x. ev_time e \<le> ev_time x) es @ e # filter (\<lambda>x. ev_time x < ev_time e) es"
proof (induction es)
  case Nil
  then show ?case by (simp add: sort_events_def)
next
  case (Cons x es)
  let ?k = "\<lambda>e. - uint (ev_time e)"
  have s: "events_sorted es" and x: "\<forall>y \<in> set es. ev_time y \<le> ev_time x"
    using Cons.prems by (auto simp: events_sorted_Cons)
  have ih: "sort_events ((x # es) @ [e]) =
      insort_key ?k x (filter (\<lambda>x. ev_time e \<le> ev_time x) es @ e # filter (\<lambda>x. ev_time x < ev_time e) es)"
    using Cons.IH [OF s] by (simp add: sort_events_def)
  show ?case
  proof (cases "ev_time e \<le> ev_time x")
    case True
    have ins: "insort_key ?k x l = x # l" if "\<forall>y \<in> set l. ev_time y \<le> ev_time x" for l
      using that by (intro insort_is_Cons) (simp add: word_le_def)
    have "sort_events ((x # es) @ [e]) =
        x # filter (\<lambda>x. ev_time e \<le> ev_time x) es @ e # filter (\<lambda>x. ev_time x < ev_time e) es"
      unfolding ih by (rule ins) (use True x in auto)
    then show ?thesis using True by (simp add: not_less)
  next
    case False
    have small: "\<forall>y \<in> set es. ev_time y < ev_time e" using False x by auto
    then have 1: "filter (\<lambda>x. ev_time e \<le> ev_time x) es = []"
      and 2: "filter (\<lambda>x. ev_time x < ev_time e) es = es"
      by (auto simp: filter_empty_conv not_le intro: filter_True)
    have "insort_key ?k x es = x # es"
      using x by (intro insort_is_Cons) (simp add: word_le_def)
    moreover have "\<not> ?k x \<le> ?k e" using False by (simp add: word_le_def)
    ultimately have "sort_events ((x # es) @ [e]) = e # x # es" unfolding ih 1 2 by simp
    then show ?thesis using False 1 2 by simp
  qed
qed

section \<open>Advancing\<close>

text \<open>The callbacks of a timer that leave the timer alone, and those that keep its events in order.\<close>

definition quiet :: "('c \<Rightarrow> u64 \<Rightarrow> u32 \<Rightarrow> 'c ntimer \<Rightarrow> 'c ntimer) \<Rightarrow> bool" where
  "quiet run \<longleftrightarrow> (\<forall>cb d late t. events (run cb d late t) = events t \<and> event_types (run cb d late t) = event_types t)"

definition keeps_order :: "('c \<Rightarrow> u64 \<Rightarrow> u32 \<Rightarrow> 'c ntimer \<Rightarrow> 'c ntimer) \<Rightarrow> bool" where
  "keeps_order run \<longleftrightarrow> (\<forall>cb d late t. events_sorted (events t) \<longrightarrow> events_sorted (events (run cb d late t)))"

definition registered :: "'c ntimer \<Rightarrow> event \<Rightarrow> bool" where
  "registered t evt \<longleftrightarrow> event_callback t evt \<noteq> None"

lemma event_callback_cong: "event_types t = event_types t' \<Longrightarrow> event_callback t evt = event_callback t' evt"
  by (simp add: event_callback_def)

lemma advance_loop_due:
  assumes "quiet run" and "events_sorted (events t)" and "\<forall>evt \<in> set (events t). registered t evt"
    and "length (events t) < fuel"
  shows "\<exists>t'. advance_loop run g fuel t = Some (rev (filter (\<lambda>e. ev_time e \<le> g) (events t)), t')
    \<and> events t' = filter (\<lambda>e. g < ev_time e) (events t) \<and> event_types t' = event_types t"
  using assms(2-)
proof (induction "events t" arbitrary: t fuel rule: rev_induct)
  case Nil
  then show ?case by (cases fuel) auto
next
  case (snoc evt es)
  obtain f where fuel: "fuel = Suc f" using snoc.prems by (cases fuel) auto
  note ev = snoc.hyps(2) [symmetric]
  have s: "events_sorted es" and le: "\<forall>y \<in> set es. ev_time evt \<le> ev_time y"
    using snoc.prems(1) ev by (auto simp: events_sorted_snoc)
  show ?case
  proof (cases "ev_time evt \<le> g")
    case False
    then have all: "\<forall>y \<in> set es. g < ev_time y" using le by auto
    then have "filter (\<lambda>e. ev_time e \<le> g) es = []" "filter (\<lambda>e. g < ev_time e) es = es"
      by (auto simp: filter_empty_conv not_le intro: filter_True)
    then show ?thesis using False fuel ev by simp
  next
    case True
    let ?t1 = "t\<lparr>events := es\<rparr>"
    obtain cb where cb: "event_callback ?t1 evt = Some cb"
      using snoc.prems(2) ev event_callback_cong [of ?t1 t evt] by (auto simp: registered_def)
    let ?t2 = "run cb (ev_data evt) (ucast (g - ev_time evt)) ?t1"
    have t2: "events ?t2 = es" "event_types ?t2 = event_types t"
      using assms(1) by (simp_all add: quiet_def)
    have "\<forall>e \<in> set (events ?t2). registered ?t2 e"
      using snoc.prems(2) ev t2 event_callback_cong [of ?t2 t] by (simp add: registered_def)
    then obtain t' where t': "advance_loop run g f ?t2 = Some (rev (filter (\<lambda>e. ev_time e \<le> g) es), t')"
      "events t' = filter (\<lambda>e. g < ev_time e) es" "event_types t' = event_types t"
      using snoc.hyps(1) [of ?t2 f] s snoc.prems(3) ev fuel t2 by auto
    show ?thesis
      using True fuel ev cb t' by (auto simp: sort_events_id [OF s] not_less)
  qed
qed

lemma advance_loop_order:
  assumes "keeps_order run"
  shows "advance_loop run g fuel t = Some (fired, t') \<Longrightarrow> events_sorted (events t) \<Longrightarrow>
    events_sorted (events t') \<and> (\<forall>e \<in> set (events t'). g < ev_time e) \<and> (\<forall>e \<in> set fired. ev_time e \<le> g)"
proof (induction fuel arbitrary: t fired)
  case 0
  then show ?case by simp
next
  case (Suc fuel)
  show ?case
  proof (cases "events t \<noteq> [] \<and> ev_time (last (events t)) \<le> g")
    case False
    moreover have "g < ev_time e" if "e \<in> set (events t)" for e
      using that False Suc.prems(2) by (cases "events t" rule: rev_cases) (auto simp: events_sorted_snoc)
    ultimately show ?thesis using Suc.prems by auto
  next
    case True
    define t1 where "t1 = t\<lparr>events := sort_events (butlast (events t))\<rparr>"
    define evt where "evt = last (events t)"
    obtain cb rest where cb: "event_callback t1 evt = Some cb"
      and rec: "advance_loop run g fuel (run cb (ev_data evt) (ucast (g - ev_time evt)) t1) = Some (rest, t')"
      and fired: "fired = evt # rest"
      using Suc.prems(1) True by (auto simp: t1_def evt_def Let_def split: bind_splits)
    have "events_sorted (events t1)" by (simp add: t1_def)
    then have "events_sorted (events (run cb (ev_data evt) (ucast (g - ev_time evt)) t1))"
      using assms unfolding keeps_order_def by blast
    from Suc.IH [OF rec this] show ?thesis using True fired by (simp add: evt_def)
  qed
qed

section \<open>Properties\<close>

text \<open>Scheduling an event keeps the pending events in descending order of time, places the new
  event behind exactly the events that are due no earlier (so that of events due at the same time
  the one scheduled last runs first), loses none, and wakes the timer thread exactly when the new
  event is due strictly before every pending one.\<close>

theorem schedule_event_ordered:
  assumes "events_sorted (events t)"
  shows "\<exists>evt. ev_type evt = type \<and> ev_data evt = data \<and> ev_time evt = ntimer_microseconds t + delay
    \<and> events (fst (schedule_event delay type data t)) =
        filter (\<lambda>e. ev_time evt \<le> ev_time e) (events t) @ evt # filter (\<lambda>e. ev_time e < ev_time evt) (events t)
    \<and> events_sorted (events (fst (schedule_event delay type data t)))
    \<and> (snd (schedule_event delay type data t) \<longleftrightarrow> filter (\<lambda>e. ev_time e \<le> ev_time evt) (events t) = [])"
proof -
  let ?e = "\<lparr>ev_type = type, ev_time = ntimer_microseconds t + delay, ev_data = data\<rparr>"
  have "(events t = [] \<or> ev_time ?e < ev_time (last (events t)))
      \<longleftrightarrow> filter (\<lambda>e. ev_time e \<le> ev_time ?e) (events t) = []"
    using assms by (cases "events t" rule: rev_cases) (force simp: events_sorted_snoc filter_empty_conv not_le)+
  then show ?thesis
    using sort_events_snoc [OF assms, of ?e] events_sorted_sort_events [of "events t @ [?e]"]
    by (intro exI [of _ ?e]) (simp add: schedule_event_def Let_def)
qed

definition timer_ex :: "nat ntimer" where
  "timer_ex = \<lparr>events = [\<lparr>ev_type = 0, ev_time = 20, ev_data = 7\<rparr>, \<lparr>ev_type = 1, ev_time = 10, ev_data = 8\<rparr>],
     event_types = [\<lparr>callback = Some 0, ev_name = ''a''\<rparr>, \<lparr>callback = Some 1, ev_name = ''b''\<rparr>],
     cpu_hz = 1000000, tele = \<lparr>tt_start = 0, tt_end = 0, target_freq = 1000000\<rparr>,
     wall_clock = 10, should_paused = False\<rparr>"

lemma timer_ex_simps [simp]: "events_sorted (events timer_ex)" "\<forall>e \<in> set (events timer_ex). registered timer_ex e"
  "ntimer_microseconds timer_ex = 10"
  by (simp_all add: timer_ex_def events_sorted_def registered_def event_callback_def
      ntimer_microseconds_def teletimer_microseconds_def)

theorem schedule_event_ordered_witness:
  "\<exists>evt. ev_type evt = 5 \<and> ev_data evt = 9 \<and> ev_time evt = ntimer_microseconds timer_ex + 3
    \<and> events (fst (schedule_event 3 5 9 timer_ex)) =
        filter (\<lambda>e. ev_time evt \<le> ev_time e) (events timer_ex) @ evt # filter (\<lambda>e. ev_time e < ev_time evt) (events timer_ex)
    \<and> events_sorted (events (fst (schedule_event 3 5 9 timer_ex)))
    \<and> (snd (schedule_event 3 5 9 timer_ex) \<longleftrightarrow> filter (\<lambda>e. ev_time e \<le> ev_time evt) (events timer_ex) = [])"
  by (rule schedule_event_ordered) simp

text \<open>Unscheduling an event that is pending removes exactly the first one of its type and user
  data and reports it; when there is none it reports that and changes nothing.\<close>

theorem unschedule_event_removes_first:
  assumes "events_sorted (events t)"
  shows "unschedule_event type data t =
    (let same = (\<lambda>e. ev_type e = type \<and> ev_data e = data)
     in (filter same (events t) \<noteq> [],
         t\<lparr>events := takeWhile (\<lambda>e. \<not> same e) (events t) @ tl (dropWhile (\<lambda>e. \<not> same e) (events t))\<rparr>))"
proof (cases "find_index (\<lambda>evt. ev_type evt = type \<and> ev_data evt = data) (events t)")
  case None
  then have "\<forall>e \<in> set (events t). \<not> (ev_type e = type \<and> ev_data e = data)"
    by (simp add: find_index_None_iff)
  then have "takeWhile (\<lambda>e. \<not> (ev_type e = type \<and> ev_data e = data)) (events t) = events t"
    "dropWhile (\<lambda>e. \<not> (ev_type e = type \<and> ev_data e = data)) (events t) = []"
    "filter (\<lambda>e. ev_type e = type \<and> ev_data e = data) (events t) = []"
    by (simp_all only: takeWhile_eq_all_conv dropWhile_eq_Nil_conv filter_empty_conv)
  then show ?thesis using None by (simp only: unschedule_event_def Let_def) simp
next
  case (Some i)
  then show ?thesis
    using find_index_SomeD [OF Some] erase_at_find_index [OF Some] sort_erased [OF assms, of i]
    by (auto simp: unschedule_event_def filter_empty_conv)
qed

theorem unschedule_event_removes_first_witness:
  "unschedule_event 0 7 timer_ex =
    (let same = (\<lambda>e. ev_type e = 0 \<and> ev_data e = 7)
     in (filter same (events timer_ex) \<noteq> [],
         timer_ex\<lparr>events := takeWhile (\<lambda>e. \<not> same e) (events timer_ex) @ tl (dropWhile (\<lambda>e. \<not> same e) (events timer_ex))\<rparr>))"
  by (rule unschedule_event_removes_first) simp

text \<open>C6. Advancing the timer runs every event that is due, once, in the order of their times, leaves
  exactly the events of the future pending, and returns the microseconds (not the nanoseconds that the comment
  of its declaration names) until the first of them; a
  fuel of one more than the number of pending events is enough. The pending events are
  in the order the timer keeps and of registered types; the callbacks are any that leave the timer alone.\<close>

theorem advance_runs_due_events:
  assumes "events_sorted (events t)" and "\<forall>evt \<in> set (events t). registered t evt" and "quiet run"
    and "length (events t) < fuel"
  shows "\<exists>t' fired delay. advance run fuel t = Some (delay, fired, t')
    \<and> fired = rev (filter (\<lambda>e. ev_time e \<le> ntimer_microseconds t) (events t))
    \<and> sorted_wrt (\<lambda>x y. ev_time x \<le> ev_time y) fired
    \<and> events t' = filter (\<lambda>e. ntimer_microseconds t < ev_time e) (events t)
    \<and> (delay = None \<longleftrightarrow> events t' = [])
    \<and> (\<forall>d. delay = Some d \<longrightarrow> unat (ntimer_microseconds t) + unat d = Min (set (map (\<lambda>e. unat (ev_time e)) (events t'))))"
proof -
  let ?g = "ntimer_microseconds t"
  obtain t' where t': "advance_loop run ?g fuel t = Some (rev (filter (\<lambda>e. ev_time e \<le> ?g) (events t)), t')"
    "events t' = filter (\<lambda>e. ?g < ev_time e) (events t)"
    using advance_loop_due [OF assms(3,1,2,4), of ?g] by blast
  have s: "events_sorted (events t')"
    using assms(1) t'(2) by (simp add: events_sorted_def sorted_wrt_filter)
  have delay: "unat ?g + unat (ev_time (last (events t')) - ?g) = Min (set (map (\<lambda>e. unat (ev_time e)) (events t')))"
    if "events t' \<noteq> []"
  proof -
    let ?l = "last (events t')"
    have l: "?l \<in> set (events t')" using that by simp
    then have "?g < ev_time ?l" using t'(2) by auto
    then have "unat ?g + unat (ev_time ?l - ?g) = unat (ev_time ?l)"
      by (simp add: unat_sub word_less_nat_alt word_le_nat_alt)
    also have "\<dots> = Min (set (map (\<lambda>e. unat (ev_time e)) (events t')))"
      using events_sorted_last [OF s] l by (intro Min_eqI [symmetric]) (auto simp: word_le_nat_alt)
    finally show ?thesis .
  qed
  have order: "sorted_wrt (\<lambda>x y. ev_time x \<le> ev_time y) (rev (filter (\<lambda>e. ev_time e \<le> ?g) (events t)))"
    using assms(1) by (simp add: events_sorted_def sorted_wrt_rev sorted_wrt_filter)
  let ?d = "if events t' \<noteq> [] then Some (ev_time (last (events t')) - ?g) else None"
  have "advance run fuel t = Some (?d, rev (filter (\<lambda>e. ev_time e \<le> ?g) (events t)), t')"
    by (simp add: advance_def Let_def t'(1))
  moreover have "?d = None \<longleftrightarrow> events t' = []"
    "\<forall>d. ?d = Some d \<longrightarrow> unat ?g + unat d = Min (set (map (\<lambda>e. unat (ev_time e)) (events t')))"
    using delay by (simp_all del: set_map)
  ultimately show ?thesis using order t'(2) by (intro exI conjI) (assumption | rule refl)+
qed

theorem advance_runs_due_events_witness:
  "\<exists>t' fired delay. advance (\<lambda>_ _ _ t. t) 3 timer_ex = Some (delay, fired, t')
    \<and> fired = rev (filter (\<lambda>e. ev_time e \<le> ntimer_microseconds timer_ex) (events timer_ex))
    \<and> sorted_wrt (\<lambda>x y. ev_time x \<le> ev_time y) fired
    \<and> events t' = filter (\<lambda>e. ntimer_microseconds timer_ex < ev_time e) (events timer_ex)
    \<and> (delay = None \<longleftrightarrow> events t' = [])
    \<and> (\<forall>d. delay = Some d \<longrightarrow>
        unat (ntimer_microseconds timer_ex) + unat d = Min (set (map (\<lambda>e. unat (ev_time e)) (events t'))))"
  by (rule advance_runs_due_events) (simp_all add: quiet_def, simp add: timer_ex_def)

text \<open>The clock frequency that is read back is ten times the one that was set: the setter takes a
  megahertz for ten million hertz, the getter for one million.\<close>

theorem clock_frequency_tenfold:
  assumes "unat mhz \<le> 429"
  shows "get_clock_frequency_mhz (snd (set_clock_frequency_mhz mhz t)) = 10 * mhz"
proof -
  have m: "unat (mhz * 10000000) = unat mhz * 10000000"
    using assms by (simp add: unat_mult_lem [THEN iffD1] unat_word_ariths)
  have "unat (mhz * 10000000 div 1000000) = unat (10 * mhz)"
    using assms by (simp add: unat_div m unat_word_ariths)
  then have "mhz * 10000000 div 1000000 = 10 * mhz" by (simp only: word_unat_eq_iff)
  then show ?thesis
    by (simp add: get_clock_frequency_mhz_def set_clock_frequency_mhz_def set_target_frequency_def Let_def)
qed

theorem clock_frequency_tenfold_witness:
  "get_clock_frequency_mhz (snd (set_clock_frequency_mhz 100 timer_ex)) = 10 * 100"
  by (rule clock_frequency_tenfold) simp

end
