(* ===== verification/Common_Algorithm.thy ===== *)
theory Common_Algorithm imports Prelude begin

text \<open>
  The algorithms of \<open>common/algorithm.h\<close> and \<open>common/algorithm.cpp\<close> the kernel and the memory
  system use: bit scanning, powers of two and alignment, and the comparison and merging of containers.
\<close>

section \<open>Bits\<close>

text \<open>\<open>count_leading_zero\<close> is the compiler's builtin; the position after the highest set bit is found
  by scanning down. It is 0 exactly for 0.\<close>

fun highest_bit_below :: "nat \<Rightarrow> u32 \<Rightarrow> nat" where
  "highest_bit_below 0 v = 0"
| "highest_bit_below (Suc n) v = (if bit v n then Suc n else highest_bit_below n v)"

definition find_most_significant_bit_one :: "u32 \<Rightarrow> nat" where
  "find_most_significant_bit_one v = highest_bit_below 32 v"

lemma highest_bit_below_Suc_iff:
  "highest_bit_below n v = Suc i \<longleftrightarrow> i < n \<and> bit v i \<and> (\<forall>j. i < j \<longrightarrow> j < n \<longrightarrow> \<not> bit v j)"
  by (induction n) (auto simp: less_Suc_eq)

lemma highest_bit_below_0_iff: "highest_bit_below n v = 0 \<longleftrightarrow> (\<forall>j<n. \<not> bit v j)"
  by (induction n) (auto simp: less_Suc_eq)

lemma bit_u32_less: "bit (v :: u32) i \<Longrightarrow> i < 32"
  using bit_imp_le_length by force

lemma msb_Suc_iff:
  "find_most_significant_bit_one v = Suc i \<longleftrightarrow> bit v i \<and> (\<forall>j>i. \<not> bit v j)"
  unfolding find_most_significant_bit_one_def highest_bit_below_Suc_iff using bit_u32_less by blast

lemma msb_0_iff: "find_most_significant_bit_one v = 0 \<longleftrightarrow> v = 0"
  unfolding find_most_significant_bit_one_def highest_bit_below_0_iff
  by (auto simp: bit_eq_iff dest: bit_u32_less)

section \<open>Powers of two and alignment\<close>

text \<open>For 32-bit values the extended-precision logarithm is exact after truncation: \<open>log2_floor\<close>. It is
  minus infinity for 0, where the conversion to an integer is undefined.\<close>

definition log2_floor :: "u32 \<Rightarrow> nat" where
  "log2_floor v = find_most_significant_bit_one v - 1"

definition next_power_of_two :: "u32 \<Rightarrow> u32 undef" where
  "next_power_of_two target =
     (if target = 0 then None else Some (ucast (push_bit (log2_floor target + 1) (1 :: u64))))"

definition is_power_of_two :: "u32 \<Rightarrow> bool undef" where
  "is_power_of_two target =
     (if target = 0 then None
      else Some (and target (sum_list (map (\<lambda>i. push_bit i 1) [0..<log2_floor target])) = 0))"

text \<open>\<open>align\<close> to a multiple of \<open>alignment\<close>, or of the next power of two when it is none. For
  alignments above \<open>2^31\<close> that power does not fit and the remainder divides by zero.\<close>

definition align :: "'a :: len word \<Rightarrow> u32 \<Rightarrow> int \<Rightarrow> 'a word undef" where
  "align target alignment mode =
     (if alignment = 0 then Some target
      else do {
        p \<leftarrow> is_power_of_two alignment;
        new_alignment \<leftarrow> (if p then Some alignment else next_power_of_two alignment);
        let a = ucast new_alignment;
        guard (a \<noteq> 0);
        Some (if target mod a = 0 then target
              else if mode = 0 then target - target mod a
              else target + a - target mod a)
      })"

lemma sum_push_bit: "sum_list (map (\<lambda>i. push_bit i 1) [0..<n]) = (mask n :: u32)"
  by (induction n) (simp_all add: mask_eq_exp_minus_1)

lemma is_power_of_two_iff:
  assumes "v \<noteq> 0"
  shows "is_power_of_two v = Some (v = 2 ^ log2_floor v)"
proof -
  obtain i where i: "find_most_significant_bit_one v = Suc i"
    using assms msb_0_iff [of v] not0_implies_Suc by blast
  then have b: "bit v i" "\<forall>j>i. \<not> bit v j" "i < 32" by (auto simp: msb_Suc_iff dest: bit_u32_less)
  have l: "log2_floor v = i" using i by (simp add: log2_floor_def)
  have "and v (mask i) = 0 \<longleftrightarrow> v = 2 ^ i"
  proof
    assume z: "and v (mask i) = 0"
    have "\<not> bit v j" if "j < i" for j
      using arg_cong [OF z, of "\<lambda>w. bit w j"] that b(3) by (simp add: bit_simps)
    then have "bit v j \<longleftrightarrow> j = i" for j using b by (metis linorder_neqE_nat)
    then show "v = 2 ^ i" using b(3) by (intro bit_word_eqI) (auto simp: bit_simps)
  next
    assume "v = 2 ^ i"
    then show "and v (mask i) = 0" 
      by (simp add: flip: take_bit_eq_mask) (simp add: take_bit_eq_0_iff)
  qed
  then show ?thesis using assms l by (simp only: is_power_of_two_def sum_push_bit if_False)
qed

text \<open>The largest power of two that does not exceed a number.\<close>

lemma log2_floor_bounds:
  assumes "v \<noteq> 0"
  shows "2 ^ log2_floor v \<le> unat v" "unat v < 2 ^ Suc (log2_floor v)" "log2_floor v < 32"
proof -
  obtain i where i: "find_most_significant_bit_one v = Suc i"
    using assms msb_0_iff [of v] not0_implies_Suc by blast
  then have b: "bit v i" "\<forall>j>i. \<not> bit v j" "i < 32" by (auto simp: msb_Suc_iff dest: bit_u32_less)
  have l: "log2_floor v = i" using i by (simp add: log2_floor_def)
  have "bit (unat v) i" using b(1,3) by (simp add: bit_simps)
  then have "unat v div 2 ^ i \<noteq> 0" by (auto simp: bit_iff_odd dest!: odd_pos)
  then show "2 ^ log2_floor v \<le> unat v" using l by (simp add: div_eq_0_iff not_less)
  have "take_bit (Suc i) v = v"
    using b(2) by (intro bit_word_eqI) (auto simp: bit_simps less_Suc_eq_le not_less [symmetric])
  then have "take_bit (Suc i) (unat v) = unat v" by (metis unsigned_take_bit_eq)
  then show "unat v < 2 ^ Suc (log2_floor v)" using l by (metis take_bit_nat_less_exp)
  show "log2_floor v < 32" using l b(3) by simp
qed

section \<open>Comparing and merging containers\<close>

definition default_compare_func :: "'a :: linorder \<Rightarrow> 'a \<Rightarrow> int" where
  "default_compare_func lhs rhs = (if lhs < rhs then -1 else if lhs = rhs then 0 else 1)"

datatype change = Added nat | Removed nat

text \<open>
  The loop of \<open>detect_changes\<close> at the indices \<open>i\<close> and \<open>j\<close>, where the rest of the old and the new
  object are the lists; the callbacks are recorded in the order they are called.\<close>

fun detect_changes_from :: "('a \<Rightarrow> 'a \<Rightarrow> int) \<Rightarrow> nat \<Rightarrow> nat \<Rightarrow> 'a list \<Rightarrow> 'a list \<Rightarrow> change list" where
  "detect_changes_from compare i j [] [] = []"
| "detect_changes_from compare i j [] (y # ys) = Added j # detect_changes_from compare i (Suc j) [] ys"
| "detect_changes_from compare i j (x # xs) [] = Removed i # detect_changes_from compare (Suc i) j xs []"
| "detect_changes_from compare i j (x # xs) (y # ys) = (
     let comp_result = compare x y in
     if comp_result = 0 then detect_changes_from compare (Suc i) (Suc j) xs ys
     else if comp_result = -1 then Removed i # detect_changes_from compare (Suc i) j xs (y # ys)
     else Added j # detect_changes_from compare i (Suc j) (x # xs) ys)"

definition detect_changes :: "('a \<Rightarrow> 'a \<Rightarrow> int) \<Rightarrow> 'a list \<Rightarrow> 'a list \<Rightarrow> change list" where
  "detect_changes compare old new = detect_changes_from compare 0 0 old new"

definition erase_elements :: "('a \<Rightarrow> bool) \<Rightarrow> 'a list \<Rightarrow> 'a list" where
  "erase_elements condition target = filter (\<lambda>x. \<not> condition x) target"

definition merge_and_replace :: "('a \<Rightarrow> 'a \<Rightarrow> bool) \<Rightarrow> 'a list \<Rightarrow> 'a list \<Rightarrow> 'a list" where
  "merge_and_replace comparator to_append target =
     fold (\<lambda>i. erase_elements (comparator i)) to_append target @ to_append"

text \<open>The indices a list of callbacks names, as elements.\<close>

fun added :: "'a list \<Rightarrow> change list \<Rightarrow> 'a list" where
  "added new [] = []"
| "added new (Added j # cs) = new ! j # added new cs"
| "added new (Removed i # cs) = added new cs"

fun removed :: "'a list \<Rightarrow> change list \<Rightarrow> 'a list" where
  "removed old [] = []"
| "removed old (Added j # cs) = removed old cs"
| "removed old (Removed i # cs) = old ! i # removed old cs"

lemma detect_changes_from_diff:
  assumes "sorted xs" "sorted ys" "drop i old = xs" "drop j new = ys"
  defines "cs \<equiv> detect_changes_from default_compare_func i j xs ys"
  shows "mset (added new cs) = mset ys - mset xs \<and> mset (removed old cs) = mset xs - mset ys"
  using assms(1-4) unfolding cs_def
proof (induction "default_compare_func :: 'a \<Rightarrow> 'a \<Rightarrow> int" i j xs ys rule: detect_changes_from.induct)
  case (1 i j)
  then show ?case by simp
next
  case (2 i j y ys)
  then have "new ! j = y" "drop (Suc j) new = ys" by (metis nth_via_drop, metis drop_Suc list.sel(3) tl_drop)
  with 2 show ?case by simp
next
  case (3 i j x xs)
  then have "old ! i = x" "drop (Suc i) old = xs" by (metis nth_via_drop, metis drop_Suc list.sel(3) tl_drop)
  with 3 show ?case by simp
next
  case (4 i j x xs y ys)
  then have x: "old ! i = x" "drop (Suc i) old = xs" and y: "new ! j = y" "drop (Suc j) new = ys"
    by (metis nth_via_drop drop_Suc list.sel(3) tl_drop)+
  consider "x = y" | "x < y" | "y < x" by fastforce
  then show ?case
  proof cases
    case 1
    then show ?thesis using 4 x y by (simp add: default_compare_func_def)
  next
    case 2
    then have "x \<notin> set (y # ys)" using 4(5) by auto
    then have c: "count (mset ys) x = 0" "x \<noteq> y" by (auto simp: count_mset_0_iff)
    have "mset (x # xs) - mset (y # ys) = add_mset x (mset xs - mset (y # ys))"
      "mset (y # ys) - mset (x # xs) = mset (y # ys) - mset xs"
      by (rule multiset_eqI; use c in auto)+
    then show ?thesis using 2 4 x y by (simp add: default_compare_func_def)
  next
    case 3
    then have "y \<notin> set (x # xs)" using 4(4) by auto
    then have c: "count (mset xs) y = 0" "x \<noteq> y" by (auto simp: count_mset_0_iff)
    have "mset (y # ys) - mset (x # xs) = add_mset y (mset ys - mset (x # xs))"
      "mset (x # xs) - mset (y # ys) = mset (x # xs) - mset ys"
      by (rule multiset_eqI; use c in auto)+
    then show ?thesis using 3 4 x y by (simp add: default_compare_func_def)
  qed
qed

section \<open>Properties\<close>

text \<open>For two sorted containers with any duplicates, \<open>detect_changes\<close> calls the addition callback
  exactly for the elements of the new one that the old one does not match, the removal callback
  exactly for the elements of the old one that the new one does not match, each as often as its
  multiplicity exceeds the other's.\<close>

theorem detect_changes_is_difference:
  assumes "sorted old" and "sorted new"
  shows "mset (added new (detect_changes default_compare_func old new)) = mset new - mset old
    \<and> mset (removed old (detect_changes default_compare_func old new)) = mset old - mset new"
  unfolding detect_changes_def using assms by (intro detect_changes_from_diff) simp_all

theorem detect_changes_is_difference_witness:
  "mset (added [2, 3, 3 :: nat] (detect_changes default_compare_func [1, 2, 3] [2, 3, 3 :: nat])) = mset [2, 3, 3] - mset [1, 2, 3 :: nat]
    \<and> mset (removed [1, 2, 3 :: nat] (detect_changes default_compare_func [1, 2, 3] [2, 3, 3 :: nat])) = mset [1, 2, 3] - mset [2, 3, 3 :: nat]"
  by (rule detect_changes_is_difference) simp_all

lemma unat_pow2: "n < LENGTH('a) \<Longrightarrow> unat (2 ^ n :: 'a :: len word) = 2 ^ n"
  by transfer (simp add: take_bit_eq_mod nat_mod_as_int nat_power_eq power_strict_increasing)

lemma align_power:
  fixes target :: u64
  assumes "n < 32" and "unat target + 2 ^ n \<le> 2 ^ 64 - 1"
  defines "a \<equiv> (ucast (2 ^ n :: u32) :: u64)"
  defines "r \<equiv> (if target mod a = 0 then target else target + a - target mod a)"
  shows "2 ^ n dvd unat r \<and> unat target \<le> unat r \<and> unat r < unat target + 2 ^ n" "a \<noteq> 0"
proof -
  have a: "a = 2 ^ n" unfolding a_def using assms(1) by (intro bit_word_eqI) (auto simp: bit_simps)
  have ua: "unat a = 2 ^ n" unfolding a using assms(1) by (simp add: unat_pow2)
  then show "a \<noteq> 0" by auto
  define m where "m = unat target mod 2 ^ n"
  have um: "unat (target mod a) = m" by (simp add: unat_mod ua m_def)
  have ml: "m < 2 ^ n" "m \<le> unat target" by (simp_all add: m_def)
  show "2 ^ n dvd unat r \<and> unat target \<le> unat r \<and> unat r < unat target + 2 ^ n"
  proof (cases "m = 0")
    case True
    then have "target mod a = 0" using um by (metis unat_0 word_unat_eq_iff)
    then show ?thesis using True by (simp add: r_def m_def mod_eq_0_iff_dvd)
  next
    case False
    then have "target mod a \<noteq> 0" using um by (metis unat_0)
    moreover have ta: "unat (target + a) = unat target + 2 ^ n"
      using assms(2) ua by (subst unat_add_lem [THEN iffD1]) auto
    moreover have "target mod a \<le> target + a" using um ml ta by (simp add: word_le_nat_alt)
    ultimately have r: "unat r = unat target + 2 ^ n - m"
      by (simp add: r_def unat_sub um)
    have "unat r = (unat target - m) + 2 ^ n" using r ml by simp
    moreover have "2 ^ n dvd unat target - m" by (simp add: m_def dvd_minus_mod)
    ultimately have "2 ^ n dvd unat r" by simp
    then show ?thesis using r ml False by auto
  qed
qed

lemma align_eval:
  assumes "al \<noteq> 0" "is_power_of_two al = Some p" "(if p then Some al else next_power_of_two al) = Some na"
    and "(ucast na :: 'a :: len word) \<noteq> 0"
  shows "align (target :: 'a word) al 1 = Some (if target mod ucast na = 0 then target
    else target + ucast na - target mod ucast na)"
  using assms by (simp add: align_def Let_def)

text \<open>Rounding a 64-bit value up to an alignment that is not zero and at most \<open>2^31\<close> gives the
  least multiple of the alignment, or of the next power of two when it is no power of two, that is
  not below the value, if there is room for it.\<close>

theorem align_up:
  fixes target :: u64
  assumes "al \<noteq> 0" and "al \<le> 2 ^ 31" and "unat target < 2 ^ 64 - 2 ^ 32"
  shows "\<exists>n r. align target al 1 = Some r \<and> unat al \<le> 2 ^ n \<and> 2 ^ n < 2 * unat al
    \<and> 2 ^ n dvd unat r \<and> unat target \<le> unat r \<and> unat r < unat target + 2 ^ n"
proof -
  let ?l = "log2_floor al"
  note b = log2_floor_bounds [OF assms(1)]
  have u31: "unat (2 ^ 31 :: u32) = 2 ^ 31" by simp
  show ?thesis
  proof (cases "al = 2 ^ ?l")
    case True
    have ual: "unat al = 2 ^ ?l" using b(3) by (subst True) (simp add: unat_pow2)
    have "2 ^ ?l \<le> (2 ^ 31 :: nat)" using b(3) by (intro power_increasing) auto
    then have "unat target + 2 ^ ?l \<le> 2 ^ 64 - 1" using assms(3) by simp
    note ap = align_power [OF b(3) this, unfolded True [symmetric]]
    have "is_power_of_two al = Some True" using is_power_of_two_iff [OF assms(1)] True by simp
    then have "align target al 1 = Some (if target mod ucast al = 0 then target
        else target + ucast al - target mod ucast al)"
      using ap(2) by (intro align_eval [OF assms(1), of True]) simp_all
    moreover have "unat al \<le> 2 ^ ?l" "2 ^ ?l < 2 * unat al" using ual by simp_all
    ultimately show ?thesis using ap(1) by blast
  next
    case False
    have l: "Suc ?l < 32"
    proof (rule ccontr)
      assume "\<not> Suc ?l < 32"
      then have "?l = 31" using b(3) by simp
      then have "unat al = 2 ^ 31" using b(1) assms(2) u31 by (simp add: word_le_nat_alt)
      then have "al = 2 ^ 31" by (metis u31 word_unat_eq_iff)
      with False \<open>?l = 31\<close> show False by simp
    qed
    have np: "next_power_of_two al = Some (2 ^ Suc ?l)"
      using assms(1) l by (simp add: next_power_of_two_def del: power_Suc) (intro bit_word_eqI, auto simp: bit_simps)
    have "2 ^ Suc ?l \<le> (2 ^ 31 :: nat)" using l by (intro power_increasing) auto
    then have "unat target + 2 ^ Suc ?l \<le> 2 ^ 64 - 1" using assms(3) by simp
    note ap = align_power [OF l this]
    have "2 ^ Suc ?l < 2 * unat al"
    proof -
      have "unat (2 ^ ?l :: u32) = 2 ^ ?l" using b(3) by (simp add: unat_pow2)
      then have "unat al \<noteq> 2 ^ ?l" using False by (metis word_unat_eq_iff)
      with b(1) show ?thesis by simp
    qed
    moreover have "is_power_of_two al = Some False" using is_power_of_two_iff [OF assms(1)] False by simp
    then have "align target al 1 = Some (if target mod ucast (2 ^ Suc ?l :: u32) = 0 then target
        else target + ucast (2 ^ Suc ?l :: u32) - target mod ucast (2 ^ Suc ?l :: u32))"
      using ap(2) np by (intro align_eval [OF assms(1), of False]) simp_all
    moreover have "unat al \<le> 2 ^ Suc ?l" using b(2) by simp
    ultimately show ?thesis using ap(1) by blast
  qed
qed

theorem align_up_witness:
  "\<exists>n r. align (4097 :: u64) 4096 1 = Some r \<and> unat (4096 :: u32) \<le> 2 ^ n \<and> 2 ^ n < 2 * unat (4096 :: u32)
    \<and> 2 ^ n dvd unat r \<and> unat (4097 :: u64) \<le> unat r \<and> unat r < unat (4097 :: u64) + 2 ^ n"
  by (rule align_up) simp_all

end
