(* ===== verification/Kernel_State.thy ===== *)
theory Kernel_State imports Linked Prio_Queue NTimer begin

text \<open>
  The state the kernel objects share: threads, processes, semaphores and mutexes as records, and the
  record \<open>kern\<close> that holds them together with the scheduler, the CPU context and the nanokernel timer.

  A kernel object is named by its unique id, which also stands for its address: the stores below
  are total functions from ids. The links embedded in threads are kept in one \<^typ>\<open>'e link_heap\<close> per
  kind (\<open>scheduler_link\<close>, \<open>pending_link\<close>, \<open>suspend_link\<close>), so that the pointer operations of
  \<open>common/linked.h\<close> apply to them as they stand; the element \<open>Link t\<close> is the link inside thread
  \<open>t\<close> (\<open>E_LOFF\<close> goes back from it), the other elements are the sentinels of the roundabouts.
\<close>

type_synonym tid = u64
type_synonym pid = u64
type_synonym sid = u64
type_synonym mid = u64
type_synonym address = u32

section \<open>Threads\<close>

datatype thread_state = TS_create | TS_run | TS_wait | TS_ready | TS_stop | TS_wait_fast_sema
  | TS_wait_mutex | TS_wait_mutex_suspend | TS_wait_fast_sema_suspend | TS_hold_mutex_pending
  | TS_wait_dfc | TS_wait_hle

datatype thread_priority = Priority_null | Priority_much_less | Priority_less | Priority_normal
  | Priority_more | Priority_much_more | Priority_real_time | Priority_absolute_very_low
  | Priority_absolute_low | Priority_absolute_background_normal | Priority_absolute_background
  | Priority_absolute_foreground_normal | Priority_absolute_foreground | Priority_absolute_high
  | Priority_other

datatype exit_type = Exit_kill | Exit_terminate | Exit_panic | Exit_pending

text \<open>The CPU context \<open>arm::core::thread_context\<close>.\<close>

record thread_context =
  cpu_registers :: "u32 list"
  sp :: u32
  pc :: u32
  lr :: u32
  cpsr :: u32
  fpu_registers :: "u64 list"
  fpscr :: u32
  wrwr :: u32

text \<open>\<open>epoc::request_status\<close> lives in the memory of a process; \<open>0x80000001\<close> is the code of a pending
  request.\<close>

record request_status =
  status :: int
  flags :: u32

definition sts_pending :: int where
  "sts_pending = -2147483647"

definition assign_status :: "int \<Rightarrow> request_status \<Rightarrow> request_status" where
  "assign_status sts r =
     (if sts = sts_pending then r\<lparr>flags := or (flags r) 2, status := sts\<rparr>
      else r\<lparr>flags := and (flags r) (not 2), status := sts\<rparr>)"

record notify_info =
  sts :: address
  requester :: "tid option"

text \<open>The part of a trap frame (\<open>kernel::trap\<close>), also in the memory of a process, the kernel touches.\<close>

record trap_frame =
  next_trap :: address
  saved_handler :: address

record tls_slot =
  tls_handle :: u32
  tls_uid :: u32
  tls_pointer :: address

datatype wait_object = Wait_mutex mid | Wait_sema sid

text \<open>\<open>real_priority\<close> and \<open>last_priority\<close> are computed from a table of unsigned numbers and are indices
  of the ready queues; they are naturals here.\<close>

record thread =
  state :: thread_state
  ctx :: thread_context
  priority :: thread_priority
  last_priority :: nat
  real_priority :: nat
  lrt :: u64
  time :: int
  timeslice :: int
  wait_obj :: "wait_object option"
  owner :: pid
  request_sema :: sid
  exit_reason :: int
  exit_type :: exit_type
  exit_category :: string
  logon_requests :: "notify_info list"
  rendezvous_requests :: "notify_info list"
  sleep_nof_sts :: address
  trap_stack :: address
  trap_handler :: address
  tls_slots :: "tls_slot list"

section \<open>Processes, semaphores, mutexes\<close>

datatype process_priority = PP_low | PP_background | PP_foreground | PP_high | PP_window_svr
  | PP_file_svr | PP_real_time_svr | PP_supervisor | PP_other

record pass_arg =
  used :: bool
  arg_data :: "u8 list"

record process =
  proc_priority :: process_priority
  thread_count :: u32
  thread_list :: "tid list"
  proc_exit_reason :: int
  proc_exit_type :: exit_type
  proc_logon_requests :: "notify_info list"
  proc_rendezvous_requests :: "notify_info list"
  proc_args :: "pass_arg list"
  primary_thread :: tid
  address_space_id :: nat
  dll_lock :: mid

record semaphore =
  avail_count :: int
  sema_waits :: "tid list"

record mutex =
  lock_count :: int
  holding :: "tid option"
  mutex_waits :: "tid list"
  mutex_event_type :: int

section \<open>The kernel\<close>

datatype link_addr = Link tid | Mutex_ring mid | Sema_ring sid

text \<open>The callbacks the kernel registers with the timer: \<open>SchedulerWakeUpThread\<close>, one
  \<open>MutexWaking\<close> per mutex, and \<open>timer_callback\<close> for every timer object.\<close>

datatype timed_callback = Wake_up_thread | Mutex_waking mid | Timer_expired

record kern =
  thr :: "tid \<Rightarrow> thread"
  prc :: "pid \<Rightarrow> process"
  sema :: "sid \<Rightarrow> semaphore"
  mtx :: "mid \<Rightarrow> mutex"
  scheduler_links :: "tid link_heap"
  pending_links :: "link_addr link_heap"
  suspend_links :: "link_addr link_heap"
  readys :: "nat \<Rightarrow> tid option"
  ready_mask :: "nat \<Rightarrow> u32"
  crr_thread :: "tid option"
  crr_process :: "pid option"
  wakeup_evt :: int
  timing :: "timed_callback ntimer"
  core_ctx :: thread_context
  current_addr_space :: nat
  cpu_mapped :: "pid list"
  process_switches :: "(pid option \<times> pid) list"
  user_mem :: "pid \<Rightarrow> address \<Rightarrow> request_status option"
  user_traps :: "pid \<Rightarrow> address \<Rightarrow> trap_frame option"
  kill_callbacks :: "(tid \<times> string \<times> int) list"
  resched_pending :: bool

text \<open>Updating one object.\<close>

definition upd_thr :: "tid \<Rightarrow> (thread \<Rightarrow> thread) \<Rightarrow> kern \<Rightarrow> kern" where
  "upd_thr t f k = k\<lparr>thr := (thr k)(t := f (thr k t))\<rparr>"

definition upd_prc :: "pid \<Rightarrow> (process \<Rightarrow> process) \<Rightarrow> kern \<Rightarrow> kern" where
  "upd_prc p f k = k\<lparr>prc := (prc k)(p := f (prc k p))\<rparr>"

definition upd_sema :: "sid \<Rightarrow> (semaphore \<Rightarrow> semaphore) \<Rightarrow> kern \<Rightarrow> kern" where
  "upd_sema s f k = k\<lparr>sema := (sema k)(s := f (sema k s))\<rparr>"

definition upd_mtx :: "mid \<Rightarrow> (mutex \<Rightarrow> mutex) \<Rightarrow> kern \<Rightarrow> kern" where
  "upd_mtx m f k = k\<lparr>mtx := (mtx k)(m := f (mtx k m))\<rparr>"

definition set_state :: "tid \<Rightarrow> thread_state \<Rightarrow> kern \<Rightarrow> kern" where
  "set_state t s k = upd_thr t (\<lambda>x. x\<lparr>state := s\<rparr>) k"

definition set_wait_obj :: "tid \<Rightarrow> wait_object option \<Rightarrow> kern \<Rightarrow> kern" where
  "set_wait_obj t w k = upd_thr t (\<lambda>x. x\<lparr>wait_obj := w\<rparr>) k"

text \<open>The comparator \<open>thread_priority_less_comparator\<close> of the wait queues.\<close>

definition pri_key :: "kern \<Rightarrow> tid \<Rightarrow> int" where
  "pri_key k t = int (real_priority (thr k t))"

text \<open>\<open>kernel_system::prepare_reschedule\<close> asks the system to reschedule before the CPU runs on.\<close>

definition prepare_reschedule :: "kern \<Rightarrow> kern" where
  "prepare_reschedule k = k\<lparr>resched_pending := True\<rparr>"

text \<open>Writing a request status through a pointer into a process's memory. An address that is not
  mapped gives a null pointer, which is dereferenced.\<close>

definition write_status :: "pid \<Rightarrow> address \<Rightarrow> int \<Rightarrow> kern \<Rightarrow> kern undef" where
  "write_status p a v k =
     (case user_mem k p a of
        None \<Rightarrow> None
      | Some r \<Rightarrow> Some (k\<lparr>user_mem := (user_mem k)(p := (user_mem k p)(a \<mapsto> assign_status v r))\<rparr>))"


lemmas upd_defs = upd_thr_def upd_prc_def upd_sema_def upd_mtx_def set_state_def set_wait_obj_def
  prepare_reschedule_def

lemma upd_thr_simps [simp]:
  "thr (upd_thr t f k) = (thr k)(t := f (thr k t))" "prc (upd_thr t f k) = prc k"
  "sema (upd_thr t f k) = sema k" "mtx (upd_thr t f k) = mtx k"
  "scheduler_links (upd_thr t f k) = scheduler_links k" "pending_links (upd_thr t f k) = pending_links k"
  "suspend_links (upd_thr t f k) = suspend_links k" "readys (upd_thr t f k) = readys k"
  "ready_mask (upd_thr t f k) = ready_mask k" "crr_thread (upd_thr t f k) = crr_thread k"
  "crr_process (upd_thr t f k) = crr_process k" "timing (upd_thr t f k) = timing k"
  "core_ctx (upd_thr t f k) = core_ctx k" "wakeup_evt (upd_thr t f k) = wakeup_evt k"
  "user_mem (upd_thr t f k) = user_mem k" "user_traps (upd_thr t f k) = user_traps k" "resched_pending (upd_thr t f k) = resched_pending k"
  by (simp_all add: upd_thr_def)

lemma set_state_simps [simp]:
  "thr (set_state t s k) = (thr k)(t := (thr k t)\<lparr>state := s\<rparr>)" "prc (set_state t s k) = prc k"
  "sema (set_state t s k) = sema k" "mtx (set_state t s k) = mtx k"
  "scheduler_links (set_state t s k) = scheduler_links k" "pending_links (set_state t s k) = pending_links k"
  "suspend_links (set_state t s k) = suspend_links k" "readys (set_state t s k) = readys k"
  "ready_mask (set_state t s k) = ready_mask k" "crr_thread (set_state t s k) = crr_thread k"
  "crr_process (set_state t s k) = crr_process k" "timing (set_state t s k) = timing k"
  "core_ctx (set_state t s k) = core_ctx k" "wakeup_evt (set_state t s k) = wakeup_evt k"
  "resched_pending (set_state t s k) = resched_pending k"
  "user_mem (set_state t s k) = user_mem k"
  by (simp_all add: set_state_def)

lemma set_wait_obj_simps [simp]:
  "thr (set_wait_obj t w k) = (thr k)(t := (thr k t)\<lparr>wait_obj := w\<rparr>)" "prc (set_wait_obj t w k) = prc k"
  "sema (set_wait_obj t w k) = sema k" "mtx (set_wait_obj t w k) = mtx k"
  "scheduler_links (set_wait_obj t w k) = scheduler_links k"
  "pending_links (set_wait_obj t w k) = pending_links k"
  "suspend_links (set_wait_obj t w k) = suspend_links k" "readys (set_wait_obj t w k) = readys k"
  "ready_mask (set_wait_obj t w k) = ready_mask k" "crr_thread (set_wait_obj t w k) = crr_thread k"
  "crr_process (set_wait_obj t w k) = crr_process k" "timing (set_wait_obj t w k) = timing k"
  "resched_pending (set_wait_obj t w k) = resched_pending k"
  "user_mem (set_wait_obj t w k) = user_mem k" "wakeup_evt (set_wait_obj t w k) = wakeup_evt k"
  by (simp_all add: set_wait_obj_def)

lemma prepare_reschedule_simps [simp]:
  "thr (prepare_reschedule k) = thr k" "prc (prepare_reschedule k) = prc k"
  "sema (prepare_reschedule k) = sema k" "mtx (prepare_reschedule k) = mtx k"
  "scheduler_links (prepare_reschedule k) = scheduler_links k"
  "pending_links (prepare_reschedule k) = pending_links k"
  "suspend_links (prepare_reschedule k) = suspend_links k" "readys (prepare_reschedule k) = readys k"
  "ready_mask (prepare_reschedule k) = ready_mask k" "crr_thread (prepare_reschedule k) = crr_thread k"
  "crr_process (prepare_reschedule k) = crr_process k" "timing (prepare_reschedule k) = timing k"
  "user_mem (prepare_reschedule k) = user_mem k" "wakeup_evt (prepare_reschedule k) = wakeup_evt k"
  "resched_pending (prepare_reschedule k)"
  by (simp_all add: prepare_reschedule_def)

lemma upd_sema_simps [simp]:
  "thr (upd_sema s f k) = thr k" "prc (upd_sema s f k) = prc k"
  "sema (upd_sema s f k) = (sema k)(s := f (sema k s))" "mtx (upd_sema s f k) = mtx k"
  "scheduler_links (upd_sema s f k) = scheduler_links k" "pending_links (upd_sema s f k) = pending_links k"
  "suspend_links (upd_sema s f k) = suspend_links k" "readys (upd_sema s f k) = readys k"
  "ready_mask (upd_sema s f k) = ready_mask k" "crr_thread (upd_sema s f k) = crr_thread k"
  "crr_process (upd_sema s f k) = crr_process k" "timing (upd_sema s f k) = timing k"
  "user_mem (upd_sema s f k) = user_mem k" "wakeup_evt (upd_sema s f k) = wakeup_evt k"
  by (simp_all add: upd_sema_def)

lemma upd_mtx_simps [simp]:
  "thr (upd_mtx m f k) = thr k" "prc (upd_mtx m f k) = prc k"
  "mtx (upd_mtx m f k) = (mtx k)(m := f (mtx k m))" "sema (upd_mtx m f k) = sema k"
  "scheduler_links (upd_mtx m f k) = scheduler_links k" "pending_links (upd_mtx m f k) = pending_links k"
  "suspend_links (upd_mtx m f k) = suspend_links k" "readys (upd_mtx m f k) = readys k"
  "ready_mask (upd_mtx m f k) = ready_mask k" "crr_thread (upd_mtx m f k) = crr_thread k"
  "crr_process (upd_mtx m f k) = crr_process k" "timing (upd_mtx m f k) = timing k"
  "user_mem (upd_mtx m f k) = user_mem k" "wakeup_evt (upd_mtx m f k) = wakeup_evt k"
  by (simp_all add: upd_mtx_def)

lemma upd_prc_simps [simp]:
  "thr (upd_prc p f k) = thr k" "prc (upd_prc p f k) = (prc k)(p := f (prc k p))"
  "mtx (upd_prc p f k) = mtx k" "sema (upd_prc p f k) = sema k"
  "scheduler_links (upd_prc p f k) = scheduler_links k" "pending_links (upd_prc p f k) = pending_links k"
  "suspend_links (upd_prc p f k) = suspend_links k" "readys (upd_prc p f k) = readys k"
  "ready_mask (upd_prc p f k) = ready_mask k" "crr_thread (upd_prc p f k) = crr_thread k"
  "crr_process (upd_prc p f k) = crr_process k" "timing (upd_prc p f k) = timing k"
  "user_mem (upd_prc p f k) = user_mem k" "wakeup_evt (upd_prc p f k) = wakeup_evt k"
  by (simp_all add: upd_prc_def)

text \<open>Only real priorities matter to the wait queues.\<close>

lemma pri_key_cong: "(\<And>t. real_priority (thr k t) = real_priority (thr k' t)) \<Longrightarrow> pri_key k = pri_key k'"
  by (simp add: pri_key_def fun_eq_iff)

lemma pri_key_simps [simp]:
  "pri_key (set_state t s k) = pri_key k" "pri_key (set_wait_obj t w k) = pri_key k"
  "pri_key (prepare_reschedule k) = pri_key k" "pri_key (upd_sema sm fs k) = pri_key k"
  "pri_key (upd_mtx m fm k) = pri_key k" "pri_key (upd_prc p fp k) = pri_key k"
  by (rule pri_key_cong; simp)+

section \<open>A fresh kernel\<close>

text \<open>A kernel as its constructors leave it, without any thread queued or current, over a given store of
  threads; it serves as a starting point for concrete executions.\<close>

definition fresh_context :: thread_context where
  "fresh_context = \<lparr>cpu_registers = replicate 31 0, sp = 0, pc = 0, lr = 0, cpsr = 0,
     fpu_registers = replicate 32 0, fpscr = 0, wrwr = 0\<rparr>"

definition fresh_thread :: "nat \<Rightarrow> thread" where
  "fresh_thread pri = \<lparr>state = TS_create, ctx = fresh_context, priority = Priority_normal,
     last_priority = pri, real_priority = pri, lrt = 0, time = 20000, timeslice = 20000,
     wait_obj = None, owner = 0, request_sema = 0, exit_reason = 0, exit_type = Exit_pending,
     exit_category = [], logon_requests = [], rendezvous_requests = [], sleep_nof_sts = 0,
     trap_stack = 0, trap_handler = 0,
     tls_slots = replicate 50 \<lparr>tls_handle = -1, tls_uid = -1, tls_pointer = 0\<rparr>\<rparr>"

definition fresh_process :: process where
  "fresh_process = \<lparr>proc_priority = PP_foreground, thread_count = 0, thread_list = [],
     proc_exit_reason = 0, proc_exit_type = Exit_pending, proc_logon_requests = [],
     proc_rendezvous_requests = [], proc_args = replicate 16 \<lparr>used = False, arg_data = []\<rparr>,
     primary_thread = 0, address_space_id = 0, dll_lock = 0\<rparr>"

definition fresh_timer :: "timed_callback ntimer" where
  "fresh_timer = \<lparr>events = [], event_types = [\<lparr>callback = Some Wake_up_thread, ev_name = ''SchedulerWakeUpThread''\<rparr>],
     cpu_hz = 0, tele = \<lparr>tt_start = 0, tt_end = 0, target_freq = 0\<rparr>, wall_clock = 0, should_paused = False\<rparr>"

definition fresh_kern :: "(tid \<Rightarrow> thread) \<Rightarrow> kern" where
  "fresh_kern threads = \<lparr>thr = threads, prc = (\<lambda>_. fresh_process),
     sema = (\<lambda>_. \<lparr>avail_count = 0, sema_waits = []\<rparr>),
     mtx = (\<lambda>_. \<lparr>lock_count = 0, holding = None, mutex_waits = [], mutex_event_type = 1\<rparr>),
     scheduler_links = \<lparr>nxt = (\<lambda>_. None), prv = (\<lambda>_. None)\<rparr>,
     pending_links = \<lparr>nxt = (\<lambda>e. case e of Link _ \<Rightarrow> None | _ \<Rightarrow> Some e), prv = (\<lambda>e. case e of Link _ \<Rightarrow> None | _ \<Rightarrow> Some e)\<rparr>,
     suspend_links = \<lparr>nxt = (\<lambda>e. case e of Link _ \<Rightarrow> None | _ \<Rightarrow> Some e), prv = (\<lambda>e. case e of Link _ \<Rightarrow> None | _ \<Rightarrow> Some e)\<rparr>,
     readys = (\<lambda>_. None), ready_mask = (\<lambda>_. 0), crr_thread = None, crr_process = None, wakeup_evt = 0,
     timing = fresh_timer, core_ctx = fresh_context, current_addr_space = 0, cpu_mapped = [],
     process_switches = [], user_mem = (\<lambda>_ _. None),
     user_traps = (\<lambda>_ _. None), kill_callbacks = [], resched_pending = False\<rparr>"

lemma fresh_kern_simps [simp]:
  "thr (fresh_kern th) = th" "scheduler_links (fresh_kern th) = \<lparr>nxt = (\<lambda>_. None), prv = (\<lambda>_. None)\<rparr>"
  "readys (fresh_kern th) p = None" "ready_mask (fresh_kern th) p = 0" "crr_thread (fresh_kern th) = None"
  "crr_process (fresh_kern th) = None" "cpu_mapped (fresh_kern th) = []"
  "sema (fresh_kern th) s = \<lparr>avail_count = 0, sema_waits = []\<rparr>"
  "mtx (fresh_kern th) m = \<lparr>lock_count = 0, holding = None, mutex_waits = [], mutex_event_type = 1\<rparr>"
  "prc (fresh_kern th) q = fresh_process" "timing (fresh_kern th) = fresh_timer"
  by (simp_all add: fresh_kern_def)

lemma fresh_thread_simps [simp]:
  "state (fresh_thread p) = TS_create" "real_priority (fresh_thread p) = p" "last_priority (fresh_thread p) = p"
  "wait_obj (fresh_thread p) = None" "time (fresh_thread p) = 20000" "timeslice (fresh_thread p) = 20000"
  "owner (fresh_thread p) = 0" "request_sema (fresh_thread p) = 0"
  by (simp_all add: fresh_thread_def)

end
