(* ===== verification/Scheduler.thy ===== *)
theory Scheduler imports Kernel_State Common_Algorithm begin

text \<open>
  The thread scheduler of \<open>kernel/scheduler.cpp\<close>: 64 ready queues, one per real priority, each a ring
  through the \<open>scheduler_link\<close>s of its threads, and two words of mask bits that say which queues are
  not empty. The ring is entered at \<open>readys[p]\<close>; its last thread is the \<open>previous\<close> of the first.
  \<open>sched_rep\<close> relates the pointers to a list of threads per priority, and every operation is shown to
  refine an operation on those lists.
\<close>

section \<open>Ready queues\<close>

definition mask_bit :: "kern \<Rightarrow> nat \<Rightarrow> bool" where
  "mask_bit k p \<longleftrightarrow> bit (ready_mask k (p div 32)) (p mod 32)"

definition set_mask_bit :: "nat \<Rightarrow> kern \<Rightarrow> kern" where
  "set_mask_bit p k = k\<lparr>ready_mask := (ready_mask k)(p div 32 :=
     or (ready_mask k (p div 32)) (push_bit (p mod 32) 1))\<rparr>"

definition clear_mask_bit :: "nat \<Rightarrow> kern \<Rightarrow> kern" where
  "clear_mask_bit p k = k\<lparr>ready_mask := (ready_mask k)(p div 32 :=
     and (ready_mask k (p div 32)) (not (push_bit (p mod 32) 1)))\<rparr>"

definition set_ready :: "nat \<Rightarrow> tid option \<Rightarrow> kern \<Rightarrow> kern" where
  "set_ready p v k = k\<lparr>readys := (readys k)(p := v)\<rparr>"

definition set_links :: "tid link_heap \<Rightarrow> kern \<Rightarrow> kern" where
  "set_links h k = k\<lparr>scheduler_links := h\<rparr>"

definition queue_thread_ready :: "tid \<Rightarrow> kern \<Rightarrow> kern undef" where
  "queue_thread_ready t k = (
     let p = real_priority (thr k t); h = scheduler_links k in
     case readys k p of
       None \<Rightarrow>
         let k = set_mask_bit p (set_ready p (Some t) k)
         in Some (set_links (set_prv t (Some t) (set_nxt t (Some t) h)) k)
     | Some first \<Rightarrow>
         let h = set_prv t (prv h first) h;
             h = set_nxt t (Some first) h
         in do {
           last \<leftarrow> prv h t;
           let h = set_nxt last (Some t) h;
           Some (set_links (set_prv first (Some t) h) k)
         })"

definition dequeue_thread_from_ready :: "tid \<Rightarrow> kern \<Rightarrow> kern undef" where
  "dequeue_thread_from_ready t k = (
     let p = real_priority (thr k t); h = scheduler_links k in
     if \<not> mask_bit k p then Some k
     else if nxt h t = Some t \<and> prv h t = Some t then
       let h = set_prv t None (set_nxt t None h)
       in Some (clear_mask_bit p (set_ready p None (set_links h k)))
     else do {
       n \<leftarrow> nxt h t;
       let h = set_prv n (prv h t) h;
       pr \<leftarrow> prv h t;
       let h = set_nxt pr (nxt h t) h;
       let k = (if Some t = readys k p then set_ready p (nxt h t) k else k);
       Some (set_links (set_prv t None (set_nxt t None h)) k)
     })"

definition next_ready_thread :: "kern \<Rightarrow> tid option" where
  "next_ready_thread k = (
     let non_empty = find_most_significant_bit_one (ready_mask k 0) in
     if ready_mask k 0 \<noteq> 0 \<and> 0 < non_empty then readys k (non_empty - 1)
     else if ready_mask k 1 = 0 then None
     else let non_empty = find_most_significant_bit_one (ready_mask k 1) in
       if 0 < non_empty then readys k (non_empty + 31) else None)"

section \<open>Switching\<close>

text \<open>\<open>timing->ticks()\<close> is the only part that can be undefined (a zero divisor): the divisor is a
  million. The memory model of a process and the process switch callbacks are recorded.\<close>

definition unmap_from_cpu :: "pid \<Rightarrow> kern \<Rightarrow> kern" where
  "unmap_from_cpu p k = k\<lparr>cpu_mapped := removeAll p (cpu_mapped k)\<rparr>"

definition remap_to_cpu :: "pid \<Rightarrow> kern \<Rightarrow> kern" where
  "remap_to_cpu p k = k\<lparr>cpu_mapped := p # cpu_mapped k\<rparr>"

definition switch_process :: "pid \<Rightarrow> kern \<Rightarrow> kern" where
  "switch_process np k =
     (if crr_process k \<noteq> Some np then
        let k = (case crr_process k of Some op \<Rightarrow> unmap_from_cpu op k | None \<Rightarrow> k);
            k = k\<lparr>process_switches := process_switches k @ [(crr_process k, np)]\<rparr>;
            k = k\<lparr>crr_process := Some np\<rparr>;
            k = k\<lparr>current_addr_space := address_space_id (prc k np)\<rparr>
        in remap_to_cpu np k
      else k)"

definition switch_context :: "tid option \<Rightarrow> tid option \<Rightarrow> kern \<Rightarrow> kern undef" where
  "switch_context oldt newt k = do {
     k \<leftarrow> (case oldt of
        Some t \<Rightarrow> do {
          now \<leftarrow> ntimer_ticks (timing k);
          let k = upd_thr t (\<lambda>x. x\<lparr>lrt := now, ctx := core_ctx k\<rparr>) k;
          Some (if state (thr k t) = TS_run then set_state t TS_ready k else k)
        }
      | None \<Rightarrow> Some k);
     Some (case newt of
        Some t \<Rightarrow>
          let k = set_state t TS_run (k\<lparr>crr_thread := Some t\<rparr>);
              k = switch_process (owner (thr k t)) k
          in k\<lparr>core_ctx := ctx (thr k t)\<rparr>
      | None \<Rightarrow> k\<lparr>crr_thread := None\<rparr>)
   }"

text \<open>\<open>reschedule\<close>: a thread that has used up its time slice gets a new one and goes to the end of its
  queue; when it is alone there, the next lower queue is served once.\<close>

definition reschedule :: "kern \<Rightarrow> kern undef" where
  "reschedule k = (
     let crr = crr_thread k; next = next_ready_thread k in do {
       (next, k) \<leftarrow> (case next of
          None \<Rightarrow> Some (None, k)
        | Some t \<Rightarrow>
            if time (thr k t) = 0 then
              let k = upd_thr t (\<lambda>x. x\<lparr>time := timeslice x\<rparr>) k;
                  h = scheduler_links k
              in if nxt h t \<noteq> Some t \<or> prv h t \<noteq> Some t then
                   Some (nxt h t, set_ready (real_priority (thr k t)) (nxt h t) k)
                 else do {
                   k \<leftarrow> dequeue_thread_from_ready t k;
                   let next = next_ready_thread k;
                   k \<leftarrow> queue_thread_ready t k;
                   Some (next, k)
                 }
            else Some (next, k));
       switch_context crr next k
     })"

section \<open>Thread states\<close>

definition schedule :: "tid \<Rightarrow> kern \<Rightarrow> (bool \<times> kern) undef" where
  "schedule t k =
     (if state (thr k t) \<in> {TS_run, TS_ready, TS_hold_mutex_pending} then Some (False, k)
      else do {
        k \<leftarrow> queue_thread_ready t (set_state t TS_ready k);
        Some (True, k)
      })"

definition sched_sleep :: "tid \<Rightarrow> u32 \<Rightarrow> bool \<Rightarrow> kern \<Rightarrow> (bool \<times> kern) undef" where
  "sched_sleep t sl_time dq k =
     (if crr_thread k \<noteq> Some t then Some (False, k)
      else if dq \<and> state (thr k t) \<in> {TS_wait, TS_ready} then Some (False, k)
      else do {
        k \<leftarrow> (if dq then dequeue_thread_from_ready t (set_state t TS_wait k) else Some k);
        Some (True, k\<lparr>timing := fst (schedule_event (ucast sl_time) (wakeup_evt k) t (timing k))\<rparr>)
      })"

definition unschedule_wakeup :: "kern \<Rightarrow> kern undef" where
  "unschedule_wakeup k = do {
     t \<leftarrow> crr_thread k;
     Some (k\<lparr>timing := snd (unschedule_event (wakeup_evt k) t (timing k))\<rparr>)
   }"

definition sched_wait :: "tid \<Rightarrow> kern \<Rightarrow> (bool \<times> kern) undef" where
  "sched_wait t k =
     (if state (thr k t) \<in> {TS_wait, TS_ready, TS_wait_fast_sema, TS_wait_mutex} then Some (False, k)
      else do {
        k \<leftarrow> dequeue_thread_from_ready t k;
        Some (True, prepare_reschedule k)
      })"

definition sched_resume :: "tid \<Rightarrow> kern \<Rightarrow> (bool \<times> kern) undef" where
  "sched_resume t k =
     (if nxt (scheduler_links k) t \<noteq> None \<or> prv (scheduler_links k) t \<noteq> None then Some (False, k)
      else if state (thr k t) \<in> {TS_ready, TS_run, TS_stop} then Some (False, k)
      else do {
        k \<leftarrow> queue_thread_ready t (set_state t TS_ready k);
        Some (True, prepare_reschedule k)
      })"

definition sched_unschedule :: "tid \<Rightarrow> kern \<Rightarrow> kern undef" where
  "sched_unschedule t k =
     (if nxt (scheduler_links k) t = None \<and> prv (scheduler_links k) t = None then Some k
      else dequeue_thread_from_ready t k)"

text \<open>\<open>stop\<close> ends with the bookkeeping of the process, whose \<open>finish_logons\<close> signals other threads; it
  is the argument \<open>thread_gone\<close>, given in the theory of threads.\<close>

definition sched_stop :: "(tid \<Rightarrow> kern \<Rightarrow> kern undef) \<Rightarrow> tid \<Rightarrow> kern \<Rightarrow> (bool \<times> kern) undef" where
  "sched_stop thread_gone t k = (
     let k = k\<lparr>timing := snd (unschedule_event (wakeup_evt k) t (timing k))\<rparr>;
         s = state (thr k t);
         h = scheduler_links k
     in if s \<in> {TS_wait, TS_wait_fast_sema} \<and> nxt h t = None \<and> prv h t = None then Some (False, k)
        else do {
          k \<leftarrow> (if s = TS_ready then sched_unschedule t k
               else if s = TS_run \<or> s \<in> {TS_wait, TS_wait_fast_sema} then dequeue_thread_from_ready t k
               else Some k);
          k \<leftarrow> thread_gone t (set_state t TS_stop k);
          Some (True, k)
        })"

section \<open>The lists the rings stand for\<close>

definition ready_ring :: "tid list \<Rightarrow> tid link_heap \<Rightarrow> bool" where
  "ready_ring xs h \<longleftrightarrow> (case xs of [] \<Rightarrow> True | a # as \<Rightarrow> roundabout_list a as h)"

lemma ready_ring_simps [simp]: "ready_ring [] h" "ready_ring (a # as) h = roundabout_list a as h"
  by (simp_all add: ready_ring_def)

lemma ready_ring_distinct: "ready_ring xs h \<Longrightarrow> distinct xs"
  by (cases xs) (auto simp: roundabout_list_def)

definition sched_rep :: "kern \<Rightarrow> (nat \<Rightarrow> tid list) \<Rightarrow> bool" where
  "sched_rep k R \<longleftrightarrow>
     (\<forall>p. ready_ring (R p) (scheduler_links k)) \<and>
     (\<forall>p. readys k p = (if R p = [] then None else Some (hd (R p)))) \<and>
     (\<forall>p<64. mask_bit k p \<longleftrightarrow> R p \<noteq> []) \<and>
     (\<forall>p. \<forall>t \<in> set (R p). real_priority (thr k t) = p \<and> p < 64) \<and>
     (\<forall>t. (\<forall>p. t \<notin> set (R p)) \<longrightarrow> unlinked t (scheduler_links k))"

text \<open>What a queue operation leaves alone.\<close>

definition sched_frame :: "kern \<Rightarrow> kern \<Rightarrow> bool" where
  "sched_frame k k' \<longleftrightarrow> (\<exists>h r m. k' = k\<lparr>scheduler_links := h, readys := r, ready_mask := m\<rparr>)"

lemma bit_or_one: "j < 32 \<Longrightarrow> bit (or (w :: u32) (push_bit i 1)) j \<longleftrightarrow> j = i \<or> bit w j"
  and bit_and_not_one: "j < 32 \<Longrightarrow> bit (and (w :: u32) (not (push_bit i 1))) j \<longleftrightarrow> j \<noteq> i \<and> bit w j"
  by (auto simp: bit_or_iff bit_and_iff bit_not_iff bit_simps)

lemma mask_bit_upd [simp]:
  "mask_bit (set_mask_bit p k) q \<longleftrightarrow> q = p \<or> mask_bit k q"
  "mask_bit (clear_mask_bit p k) q \<longleftrightarrow> q \<noteq> p \<and> mask_bit k q"
proof -
  obtain d m d' m' where e: "p div 32 = d" "p mod 32 = m" "q div 32 = d'" "q mod 32 = m'" by blast
  have m: "m' < 32" using e(4) by auto
  have eq: "q = p \<longleftrightarrow> d' = d \<and> m' = m"
    unfolding e [symmetric] by (metis div_mult_mod_eq)
  show "mask_bit (set_mask_bit p k) q \<longleftrightarrow> q = p \<or> mask_bit k q"
    unfolding eq mask_bit_def set_mask_bit_def e using bit_or_one [OF m] by auto
  show "mask_bit (clear_mask_bit p k) q \<longleftrightarrow> q \<noteq> p \<and> mask_bit k q"
    unfolding eq mask_bit_def clear_mask_bit_def e using bit_and_not_one [OF m] by auto
qed

lemma set_ready_simps [simp]:
  "readys (set_ready p v k) = (readys k)(p := v)" "thr (set_ready p v k) = thr k"
  "scheduler_links (set_ready p v k) = scheduler_links k" "mask_bit (set_ready p v k) = mask_bit k"
  "readys (set_links h k) = readys k" "thr (set_links h k) = thr k"
  "scheduler_links (set_links h k) = h" "mask_bit (set_links h k) = mask_bit k"
  "readys (set_mask_bit p k) = readys k" "thr (set_mask_bit p k) = thr k"
  "scheduler_links (set_mask_bit p k) = scheduler_links k"
  "readys (clear_mask_bit p k) = readys k" "thr (clear_mask_bit p k) = thr k"
  "scheduler_links (clear_mask_bit p k) = scheduler_links k"
  by (simp_all add: set_ready_def set_links_def set_mask_bit_def clear_mask_bit_def mask_bit_def fun_eq_iff)

lemma sched_frame_intros [simp]:
  "sched_frame k k" "sched_frame k (set_ready p v k)" "sched_frame k (set_links h k)"
  "sched_frame k (set_mask_bit p k)" "sched_frame k (clear_mask_bit p k)"
  unfolding sched_frame_def set_ready_def set_links_def set_mask_bit_def clear_mask_bit_def
  by (rule exI [of _ "scheduler_links k"] exI, rule exI [of _ "readys k"] exI, rule exI [of _ "ready_mask k"] exI,
      (rule kern.equality refl; simp))+

lemma sched_frame_trans [trans]: "sched_frame k k' \<Longrightarrow> sched_frame k' k'' \<Longrightarrow> sched_frame k k''"
  unfolding sched_frame_def by (elim exE, intro exI) simp

lemma sched_frameD:
  assumes "sched_frame k k'"
  shows "thr k' = thr k" "prc k' = prc k" "sema k' = sema k" "mtx k' = mtx k"
    "pending_links k' = pending_links k" "suspend_links k' = suspend_links k"
    "crr_thread k' = crr_thread k" "crr_process k' = crr_process k" "timing k' = timing k"
    "wakeup_evt k' = wakeup_evt k" "user_mem k' = user_mem k" "core_ctx k' = core_ctx k"
    "pri_key k' = pri_key k" "cpu_mapped k' = cpu_mapped k" "current_addr_space k' = current_addr_space k"
    "resched_pending k' = resched_pending k"
  using assms by (auto simp: sched_frame_def pri_key_def fun_eq_iff)

section \<open>Refinement of the queue operations\<close>

lemma sched_repD:
  assumes "sched_rep k R"
  shows "ready_ring (R p) (scheduler_links k)" "readys k p = (if R p = [] then None else Some (hd (R p)))"
    "p < 64 \<Longrightarrow> mask_bit k p \<longleftrightarrow> R p \<noteq> []" "t \<in> set (R p) \<Longrightarrow> real_priority (thr k t) = p"
    "t \<in> set (R p) \<Longrightarrow> p < 64" "(\<And>p. t \<notin> set (R p)) \<Longrightarrow> unlinked t (scheduler_links k)"
  using assms by (auto simp: sched_rep_def)

lemma sched_rep_cong:
  assumes "sched_frame k k'" "scheduler_links k' = scheduler_links k" "readys k' = readys k"
    "\<And>p. p < 64 \<Longrightarrow> mask_bit k' p = mask_bit k p"
  shows "sched_rep k' R = sched_rep k R"
  using assms(2-4) sched_frameD(1) [OF assms(1)] by (simp add: sched_rep_def)

lemma ready_ring_cong:
  assumes "\<forall>a \<in> set xs. nxt h a = nxt h' a \<and> prv h a = prv h' a"
  shows "ready_ring xs h = ready_ring xs h'"
  using assms by (cases xs) (auto intro!: roundabout_list_cong)

text \<open>Replacing one queue: the rest is untouched when the links of the other threads are.\<close>

lemma sched_rep_update:
  assumes rep: "sched_rep k R" and p: "p < 64"
    and th: "\<And>t. real_priority (thr k' t) = real_priority (thr k t)"
    and ring: "ready_ring xs (scheduler_links k')"
    and rd: "readys k' = (readys k)(p := if xs = [] then None else Some (hd xs))"
    and mask: "\<And>q. q < 64 \<Longrightarrow> mask_bit k' q \<longleftrightarrow> (if q = p then xs \<noteq> [] else mask_bit k q)"
    and pri: "\<forall>t \<in> set xs. real_priority (thr k t) = p"
    and frame: "\<And>a. a \<notin> set xs \<Longrightarrow> a \<notin> set (R p) \<Longrightarrow>
      nxt (scheduler_links k') a = nxt (scheduler_links k) a \<and> prv (scheduler_links k') a = prv (scheduler_links k) a"
    and out: "\<forall>t \<in> set (R p) - set xs. unlinked t (scheduler_links k')"
  shows "sched_rep k' (R(p := xs))"
proof -
  have other: "ready_ring (R q) (scheduler_links k')" if "q \<noteq> p" for q
  proof -
    have "a \<notin> set xs \<and> a \<notin> set (R p)" if "a \<in> set (R q)" for a
      using sched_repD(4) [OF rep] pri that \<open>q \<noteq> p\<close> by metis
    then have "ready_ring (R q) (scheduler_links k) = ready_ring (R q) (scheduler_links k')"
      using frame by (intro ready_ring_cong) metis
    then show ?thesis using sched_repD(1) [OF rep, of q] by simp
  qed
  have "unlinked t (scheduler_links k')" if t: "\<forall>q. t \<notin> set ((R(p := xs)) q)" for t
  proof (cases "t \<in> set (R p)")
    case True
    have "t \<notin> set xs" using t by (metis fun_upd_same)
    then show ?thesis using True out by blast
  next
    case False
    have "t \<notin> set xs" using t by (metis fun_upd_same)
    moreover have "t \<notin> set (R q)" for q using t False by (metis fun_upd_other)
    then have "unlinked t (scheduler_links k)" by (rule sched_repD(6) [OF rep])
    ultimately show ?thesis using frame [of t] False by (simp add: unlinked_def)
  qed
  then show ?thesis
    using other ring rd mask pri p th sched_repD(2-5) [OF rep] unfolding sched_rep_def
    by (auto split: if_splits)
qed

lemma queue_thread_ready_refines:
  assumes rep: "sched_rep k R" and t: "t \<notin> set (R p)" and p: "real_priority (thr k t) = p" "p < 64"
  obtains k' where "queue_thread_ready t k = Some k'" "sched_rep k' (R(p := R p @ [t]))" "sched_frame k k'"
proof (cases "R p")
  case Nil
  let ?h = "set_prv t (Some t) (set_nxt t (Some t) (scheduler_links k))"
  let ?k = "set_links ?h (set_mask_bit p (set_ready p (Some t) k))"
  have q: "queue_thread_ready t k = Some ?k"
    using Nil p sched_repD(2) [OF rep, of p] by (simp add: queue_thread_ready_def Let_def)
  have "sched_rep ?k (R(p := [t]))"
    by (rule sched_rep_update [OF rep p(2)])
      (use p Nil in \<open>auto simp: roundabout_list_def split: if_splits\<close>)
  moreover have "sched_frame k ?k" 
    by (rule sched_frame_trans [OF sched_frame_trans [OF sched_frame_intros(2) sched_frame_intros(4)]
          sched_frame_intros(3)])
  ultimately show thesis using that q Nil by simp
next
  case (Cons a as)
  have r: "roundabout_list a as (scheduler_links k)" using sched_repD(1) [OF rep, of p] Cons by simp
  obtain h' where h': "roundabout_push a t (scheduler_links k) = Some h'" "roundabout_list a (as @ [t]) h'"
    using roundabout_push_list [OF r, of t] t Cons by auto
  have q: "queue_thread_ready t k = Some (set_links h' k)"
    using h'(1) Cons p sched_repD(2) [OF rep, of p]
    by (auto simp: queue_thread_ready_def roundabout_push_def Let_def split: bind_splits)
  have "sched_rep (set_links h' k) (R(p := R p @ [t]))"
  proof (rule sched_rep_update [OF rep p(2)])
    show "ready_ring (R p @ [t]) (scheduler_links (set_links h' k))" using h'(2) Cons by simp
    show "readys (set_links h' k) = (readys k)(p := if R p @ [t] = [] then None else Some (hd (R p @ [t])))"
      using sched_repD(2) [OF rep, of p] Cons by (simp add: fun_eq_iff)
    show "\<And>q. q < 64 \<Longrightarrow> mask_bit (set_links h' k) q = (if q = p then R p @ [t] \<noteq> [] else mask_bit k q)"
      using sched_repD(3) [OF rep p(2)] Cons by simp
    show "\<forall>t\<in>set (R p @ [t]). real_priority (thr k t) = p" using sched_repD(4) [OF rep] p by auto
    show "nxt (scheduler_links (set_links h' k)) b = nxt (scheduler_links k) b \<and>
        prv (scheduler_links (set_links h' k)) b = prv (scheduler_links k) b"
      if "b \<notin> set (R p @ [t])" for b
      using roundabout_push_frame [OF r h'(1), of b] that Cons by simp
  qed auto
  moreover have "sched_frame k (set_links h' k)" by simp
  ultimately show thesis using that q by blast
qed

lemma dequeue_eval:
  assumes "mask_bit k p" "real_priority (thr k t) = p" "nxt (scheduler_links k) t = Some n"
    "prv (scheduler_links k) t = Some q" "n \<noteq> t" "q \<noteq> t"
  shows "dequeue_thread_from_ready t k = Some (set_links (deque t (scheduler_links k))
    (if Some t = readys k p then set_ready p (Some n) k else k))"
  using assms by (simp add: dequeue_thread_from_ready_def deque_def Let_def)

text \<open>The ring without one of its threads, and the thread it starts with then.\<close>

lemma ready_ring_remove:
  assumes r: "ready_ring xs h" and t: "t \<in> set xs" and ne: "xs \<noteq> [t]"
  obtains n q where "nxt h t = Some n" "prv h t = Some q" "n \<noteq> t" "q \<noteq> t"
    "ready_ring (remove1 t xs) (deque t h)" "unlinked t (deque t h)" "remove1 t xs \<noteq> []"
    "hd (remove1 t xs) = (if t = hd xs then n else hd xs)"
    "\<And>b. b \<notin> set xs \<Longrightarrow> nxt (deque t h) b = nxt h b \<and> prv (deque t h) b = prv h b"
proof -
  obtain a as where xs: "xs = a # as" using t by (cases xs) auto
  have ra: "roundabout_list a as h" using r xs by simp
  have d: "distinct (a # as)" using ready_ring_distinct [OF r] xs by simp
  show thesis
  proof (cases "t = a")
    case True
    then obtain b bs where as: "as = b # bs" using ne xs by (cases as) auto
    have rb: "roundabout_list b (bs @ t # []) h" using roundabout_rotate ra as True by simp
    note nb = roundabout_neighbours [OF rb] and dq = roundabout_deque_list [OF rb]
    have "last (b # bs) \<noteq> t" using d as True last_in_set [of "b # bs"] by auto
    with that [of b "last (b # bs)"] nb dq d deque_frame [OF rb, of t] True as xs show thesis
      by auto
  next
    case False
    then obtain ys zs where as: "as = ys @ t # zs" using t xs by (meson set_ConsD split_list)
    note rb = ra [unfolded as]
    note nb = roundabout_neighbours [OF rb] and dq = roundabout_deque_list [OF rb]
    have 1: "hd (zs @ [a]) \<noteq> t" using d as False by (cases zs) auto
    have 2: "last (a # ys) \<noteq> t" using d as False by (cases ys rule: rev_cases) auto
    have 3: "remove1 t xs = a # ys @ zs" using xs as d False by (simp add: remove1_append)
    show thesis
      by (rule that [of "hd (zs @ [a])" "last (a # ys)"])
        (use nb dq 1 2 3 False xs deque_frame [OF rb, of t] as in auto)
  qed
qed

lemma dequeue_refines:
  assumes rep: "sched_rep k R" and t: "t \<in> set (R p)"
  obtains k' where "dequeue_thread_from_ready t k = Some k'" "sched_rep k' (R(p := remove1 t (R p)))"
    "sched_frame k k'"
proof -
  have p: "real_priority (thr k t) = p" "p < 64" using sched_repD(4,5) [OF rep t] by auto
  have m: "mask_bit k p" using sched_repD(3) [OF rep p(2)] t by auto
  show thesis
  proof (cases "R p = [t]")
    case True
    then have "roundabout_list t [] (scheduler_links k)" using sched_repD(1) [OF rep, of p] by simp
    then have self: "nxt (scheduler_links k) t = Some t" "prv (scheduler_links k) t = Some t"
      by (simp_all add: roundabout_list_def)
    let ?k = "clear_mask_bit p (set_ready p None (set_links (set_prv t None (set_nxt t None (scheduler_links k))) k))"
    have q: "dequeue_thread_from_ready t k = Some ?k"
      using m p self by (simp add: dequeue_thread_from_ready_def Let_def)
    have "sched_rep ?k (R(p := []))"
      by (rule sched_rep_update [OF rep p(2)]) (use True in \<open>auto simp: unlinked_def\<close>)
    moreover have "sched_frame k ?k"
      by (rule sched_frame_trans [OF sched_frame_trans [OF sched_frame_intros(3) sched_frame_intros(2)]
            sched_frame_intros(5)])
    ultimately show thesis using that q True by simp
  next
    case False
    obtain n q where nq: "nxt (scheduler_links k) t = Some n" "prv (scheduler_links k) t = Some q" "n \<noteq> t" "q \<noteq> t"
      and ring: "ready_ring (remove1 t (R p)) (deque t (scheduler_links k))" "unlinked t (deque t (scheduler_links k))"
        "remove1 t (R p) \<noteq> []" "hd (remove1 t (R p)) = (if t = hd (R p) then n else hd (R p))"
      and fr: "\<And>b. b \<notin> set (R p) \<Longrightarrow> nxt (deque t (scheduler_links k)) b = nxt (scheduler_links k) b \<and>
        prv (deque t (scheduler_links k)) b = prv (scheduler_links k) b"
      using ready_ring_remove [OF sched_repD(1) [OF rep, of p] t False] by blast
    let ?k = "set_links (deque t (scheduler_links k)) (if Some t = readys k p then set_ready p (Some n) k else k)"
    have q: "dequeue_thread_from_ready t k = Some ?k" by (rule dequeue_eval [OF m p(1) nq])
    have rd: "readys k p = Some (hd (R p))" using sched_repD(2) [OF rep, of p] t by auto
    have "sched_rep ?k (R(p := remove1 t (R p)))"
    proof (rule sched_rep_update [OF rep p(2)])
      show "readys ?k = (readys k)(p := if remove1 t (R p) = [] then None else Some (hd (remove1 t (R p))))"
        using ring(3,4) rd by (auto simp: fun_eq_iff)
      show "\<And>q. q < 64 \<Longrightarrow> mask_bit ?k q = (if q = p then remove1 t (R p) \<noteq> [] else mask_bit k q)"
        using ring(3) m by simp
      show "\<forall>t\<in>set (remove1 t (R p)). real_priority (thr k t) = p"
        using sched_repD(4) [OF rep] by (auto dest: notin_set_remove1)
      show "\<forall>b\<in>set (R p) - set (remove1 t (R p)). unlinked b (scheduler_links ?k)"
        using ring(2) ready_ring_distinct [OF sched_repD(1) [OF rep, of p]] by auto
    qed (use ring fr in auto)
    moreover have "sched_frame k ?k"
      by (cases "Some t = readys k p")
        (simp_all add: sched_frame_trans [OF sched_frame_intros(2) sched_frame_intros(3)])
    ultimately show thesis using that q by blast
  qed
qed

text \<open>A thread of a non-empty priority that is not queued itself has null links, which
  \<open>dequeue_thread_from_ready\<close> follows.\<close>

lemma dequeue_unqueued:
  assumes rep: "sched_rep k R" and t: "\<And>p. t \<notin> set (R p)" and p: "real_priority (thr k t) < 64"
  shows "dequeue_thread_from_ready t k = (if R (real_priority (thr k t)) = [] then Some k else None)"
  using sched_repD(6) [OF rep t] sched_repD(3) [OF rep p]
  by (simp add: dequeue_thread_from_ready_def unlinked_def)

section \<open>The next thread\<close>

lemma mask_bit_word:
  "mask_bit k p \<longleftrightarrow> bit (ready_mask k 0) p" if "p < 32"
  using that by (simp add: mask_bit_def)

lemma next_ready_highest:
  assumes rep: "sched_rep k R" and low: "\<And>p. 32 \<le> p \<Longrightarrow> R p = []"
  shows "next_ready_thread k = (if \<forall>p. R p = [] then None else Some (hd (R (Max {p. R p \<noteq> []}))))"
proof -
  have m: "bit (ready_mask k 0) p \<longleftrightarrow> R p \<noteq> []" if "p < 32" for p
    using sched_repD(3) [OF rep, of p] that mask_bit_word [of p k] by simp
  have m1: "ready_mask k 1 = 0"
  proof (rule bit_eqI)
    fix n :: nat
    have "n < 32 \<Longrightarrow> (n + 32) div 32 = 1" by simp
    then show "bit (ready_mask k 1) n = bit (0 :: u32) n"
      using sched_repD(3) [OF rep, of "n + 32"] low [of "n + 32"]
      by (cases "n < 32") (auto simp: mask_bit_def dest: bit_u32_less)
  qed
  show ?thesis
  proof (cases "find_most_significant_bit_one (ready_mask k 0)")
    case 0
    then have "ready_mask k 0 = 0" by (simp add: msb_0_iff)
    then have "R p = []" for p using m [of p] low [of p] by (cases "p < 32") auto
    then show ?thesis using m1 \<open>ready_mask k 0 = 0\<close> by (simp add: next_ready_thread_def)
  next
    case (Suc i)
    then have b: "bit (ready_mask k 0) i" "\<forall>j>i. \<not> bit (ready_mask k 0) j" by (simp_all add: msb_Suc_iff)
    have ri: "R i \<noteq> []" using m b(1) bit_u32_less by blast
    have "p \<le> i" if "R p \<noteq> []" for p
      using that low [of p] m [of p] b(2) by (metis leI)
    then have "Max {p. R p \<noteq> []} = i" using ri by (intro Max_eqI) (auto intro: finite_subset [of _ "{..i}"])
    moreover have "ready_mask k 0 \<noteq> 0" using b(1) by auto
    ultimately show ?thesis using Suc ri sched_repD(2) [OF rep, of i]
      by (auto simp: next_ready_thread_def Let_def)
  qed
qed

section \<open>The interface of the ready queues\<close>

text \<open>
  What the rest of the kernel relies on: threads are queued at the end of the queue of their
  priority, taken from anywhere, and the next thread is the first of the highest priority. \<open>R\<close> is
  the content of the queues, \<open>prio\<close> the priority of a thread, which neither operation changes.\<close>

fun enqueue_all :: "('t \<Rightarrow> 'k \<Rightarrow> 'k undef) \<Rightarrow> 't list \<Rightarrow> 'k \<Rightarrow> 'k undef" where
  "enqueue_all enq [] k = Some k"
| "enqueue_all enq (t # ts) k = Option.bind (enq t k) (enqueue_all enq ts)"

locale ready_queues =
  fixes enq :: "'t \<Rightarrow> 'k \<Rightarrow> 'k undef"
    and deq :: "'t \<Rightarrow> 'k \<Rightarrow> 'k undef"
    and pick :: "'k \<Rightarrow> 't option"
    and prio :: "'k \<Rightarrow> 't \<Rightarrow> nat"
    and rep :: "'k \<Rightarrow> (nat \<Rightarrow> 't list) \<Rightarrow> bool"
    and levels :: nat
  assumes enq_rep: "rep k R \<Longrightarrow> t \<notin> set (R (prio k t)) \<Longrightarrow> prio k t < levels \<Longrightarrow>
      \<exists>k'. enq t k = Some k' \<and> rep k' (R(prio k t := R (prio k t) @ [t])) \<and> prio k' = prio k"
    and deq_rep: "rep k R \<Longrightarrow> t \<in> set (R p) \<Longrightarrow>
      \<exists>k'. deq t k = Some k' \<and> rep k' (R(p := remove1 t (R p))) \<and> prio k' = prio k"
    and pick_rep: "rep k R \<Longrightarrow> (\<And>p. levels \<le> p \<Longrightarrow> R p = []) \<Longrightarrow>
      pick k = (if \<forall>p. R p = [] then None else Some (hd (R (Max {p. R p \<noteq> []}))))"
begin

lemma enq_deq:
  assumes "rep k R" "t \<notin> set (R (prio k t))" "prio k t < levels"
  obtains k1 k2 where "enq t k = Some k1" "deq t k1 = Some k2" "rep k2 R"
proof -
  obtain k1 where k1: "enq t k = Some k1" "rep k1 (R(prio k t := R (prio k t) @ [t]))"
    using enq_rep assms by blast
  then obtain k2 where "deq t k1 = Some k2" "rep k2 ((R(prio k t := R (prio k t) @ [t]))(prio k t := remove1 t (R (prio k t) @ [t])))"
    using deq_rep [OF k1(2), of t "prio k t"] by auto
  moreover have "remove1 t (R (prio k t) @ [t]) = R (prio k t)"
    using assms(2) by (simp add: remove1_append)
  ultimately show thesis using that k1(1) by simp
qed

lemma enqueue_all_rep:
  "rep k R \<Longrightarrow> distinct ts \<Longrightarrow> \<forall>t \<in> set ts. (\<forall>p. t \<notin> set (R p)) \<and> prio k t < levels \<Longrightarrow>
    \<exists>k'. enqueue_all enq ts k = Some k' \<and> rep k' (\<lambda>p. R p @ filter (\<lambda>t. prio k t = p) ts) \<and> prio k' = prio k"
proof (induction ts arbitrary: k R)
  case Nil
  then show ?case by simp
next
  case (Cons t ts)
  let ?R = "R(prio k t := R (prio k t) @ [t])"
  obtain k1 where k1: "enq t k = Some k1" "rep k1 ?R" "prio k1 = prio k"
    using enq_rep [OF Cons.prems(1), of t] Cons.prems(3) by auto
  have "\<forall>u \<in> set ts. (\<forall>p. u \<notin> set (?R p)) \<and> prio k1 u < levels"
    using Cons.prems(2,3) k1(3) by auto
  then obtain k2 where k2: "enqueue_all enq ts k1 = Some k2"
    "rep k2 (\<lambda>p. ?R p @ filter (\<lambda>t. prio k1 t = p) ts)" "prio k2 = prio k1"
    using Cons.IH [OF k1(2)] Cons.prems(2) by auto
  have "(\<lambda>p. ?R p @ filter (\<lambda>t. prio k1 t = p) ts) = (\<lambda>p. R p @ filter (\<lambda>t. prio k t = p) (t # ts))"
    using k1(3) by (auto simp: fun_eq_iff)
  then show ?case using k1 k2 by (simp del: filter.simps)
qed

lemma enqueue_all_next:
  assumes "rep k (\<lambda>_. [])" "distinct ts" "ts \<noteq> []" "\<forall>t \<in> set ts. prio k t < levels"
  obtains k' where "enqueue_all enq ts k = Some k'"
    "pick k' = find (\<lambda>t. prio k t = Max (prio k ` set ts)) ts"
proof -
  let ?R = "\<lambda>p. filter (\<lambda>t. prio k t = p) ts"
  obtain k' where k': "enqueue_all enq ts k = Some k'" "rep k' ?R"
    using enqueue_all_rep [OF assms(1,2)] assms(4) by auto
  have "?R p = []" if "levels \<le> p" for p using assms(4) that by (auto simp: filter_empty_conv)
  note n = pick_rep [OF k'(2) this]
  have "{p. ?R p \<noteq> []} = prio k ` set ts" by (auto simp: filter_empty_conv)
  moreover have "\<not> (\<forall>p. ?R p = [])"
    using hd_in_set [OF assms(3)] by (auto simp: filter_empty_conv)
  ultimately have pick: "pick k' = Some (hd (?R (Max (prio k ` set ts))))" using n by simp
  have "Max (prio k ` set ts) \<in> prio k ` set ts" using assms(3) by (intro Max_in) auto
  then have "?R (Max (prio k ` set ts)) \<noteq> []" by (auto simp: filter_empty_conv)
  then have "find (\<lambda>t. prio k t = Max (prio k ` set ts)) ts = Some (hd (?R (Max (prio k ` set ts))))"
    by (rule find_hd_filter)
  then show thesis using that k'(1) pick by simp
qed

end

interpretation rq: ready_queues queue_thread_ready dequeue_thread_from_ready next_ready_thread
    "\<lambda>k t. real_priority (thr k t)" sched_rep 32
proof unfold_locales
  fix k R t
  assume a: "sched_rep k R" "t \<notin> set (R (real_priority (thr k t)))" "real_priority (thr k t) < 32"
  then have "real_priority (thr k t) < 64" by simp
  from queue_thread_ready_refines [OF a(1,2) refl this] obtain k'
    where "queue_thread_ready t k = Some k'" "sched_frame k k'"
      "sched_rep k' (R(real_priority (thr k t) := R (real_priority (thr k t)) @ [t]))" .
  then show "\<exists>k'. queue_thread_ready t k = Some k' \<and>
      sched_rep k' (R(real_priority (thr k t) := R (real_priority (thr k t)) @ [t])) \<and>
      (\<lambda>t. real_priority (thr k' t)) = (\<lambda>t. real_priority (thr k t))"
    by (intro exI [of _ k']) (simp add: sched_frameD(1))
next
  fix k R t p
  assume "sched_rep k R" "t \<in> set (R p)"
  from dequeue_refines [OF this] obtain k'
    where "dequeue_thread_from_ready t k = Some k'" "sched_rep k' (R(p := remove1 t (R p)))" "sched_frame k k'" .
  then show "\<exists>k'. dequeue_thread_from_ready t k = Some k' \<and> sched_rep k' (R(p := remove1 t (R p))) \<and>
      (\<lambda>t. real_priority (thr k' t)) = (\<lambda>t. real_priority (thr k t))"
    by (intro exI [of _ k']) (simp add: sched_frameD(1))
qed (rule next_ready_highest)

section \<open>Rescheduling\<close>

lemma sched_rep_same:
  assumes "scheduler_links k' = scheduler_links k" "readys k' = readys k" "ready_mask k' = ready_mask k"
    "\<And>t. real_priority (thr k' t) = real_priority (thr k t)"
  shows "sched_rep k' R = sched_rep k R"
  using assms by (simp add: sched_rep_def mask_bit_def)

lemma sched_rep_upd [simp]:
  "sched_rep (set_state t s k) R = sched_rep k R" "sched_rep (set_wait_obj t w k) R = sched_rep k R"
  "sched_rep (prepare_reschedule k) R = sched_rep k R" "sched_rep (upd_sema sm fs k) R = sched_rep k R"
  "sched_rep (upd_mtx m fm k) R = sched_rep k R" "sched_rep (upd_prc p fp k) R = sched_rep k R"
  "sched_rep (k\<lparr>timing := tm\<rparr>) R = sched_rep k R"
  "sched_rep (k\<lparr>pending_links := h\<rparr>) R = sched_rep k R" "sched_rep (k\<lparr>suspend_links := h\<rparr>) R = sched_rep k R"
  by (rule sched_rep_same; simp)+

lemma ntimer_ticks_defined: "\<exists>v. ntimer_ticks tm = Some v"
  by (simp add: ntimer_ticks_def teletimer_ticks_def multiply_and_divide_qwords_def)

lemma switch_process_simps [simp]:
  "thr (switch_process p k) = thr k" "scheduler_links (switch_process p k) = scheduler_links k"
  "readys (switch_process p k) = readys k" "ready_mask (switch_process p k) = ready_mask k"
  "crr_thread (switch_process p k) = crr_thread k" "crr_process (switch_process p k) = Some p"
  "prc (switch_process p k) = prc k"
  by (simp_all add: switch_process_def unmap_from_cpu_def remap_to_cpu_def Let_def split: option.splits)

text \<open>The current process is the one whose address space is selected and mapped.\<close>

definition mapped_ok :: "kern \<Rightarrow> bool" where
  "mapped_ok k \<longleftrightarrow> (case crr_process k of
      None \<Rightarrow> cpu_mapped k = []
    | Some p \<Rightarrow> cpu_mapped k = [p] \<and> current_addr_space k = address_space_id (prc k p))"

lemma mapped_ok_switch_process: "mapped_ok k \<Longrightarrow> mapped_ok (switch_process p k)"
  by (auto simp: mapped_ok_def switch_process_def unmap_from_cpu_def remap_to_cpu_def Let_def split: option.splits)

lemma switch_context_spec:
  obtains k' where "switch_context oldt newt k = Some k'"
    "scheduler_links k' = scheduler_links k" "readys k' = readys k" "ready_mask k' = ready_mask k"
    "\<And>t. real_priority (thr k' t) = real_priority (thr k t)" "\<And>t. time (thr k' t) = time (thr k t)"
    "\<And>t. owner (thr k' t) = owner (thr k t)" "prc k' = prc k" "crr_thread k' = newt"
    "\<And>t. ctx (thr k' t) = (if oldt = Some t then core_ctx k else ctx (thr k t))"
    "\<And>t. state (thr k' t) = (if newt = Some t then TS_run
       else if oldt = Some t \<and> state (thr k t) = TS_run then TS_ready else state (thr k t))"
    "\<And>t. newt = Some t \<Longrightarrow> core_ctx k' = ctx (thr k' t) \<and> crr_process k' = Some (owner (thr k t))"
    "newt = None \<Longrightarrow> crr_process k' = crr_process k \<and> core_ctx k' = core_ctx k"
    "mapped_ok k \<Longrightarrow> mapped_ok k'"
proof -
  obtain now where now: "ntimer_ticks (timing k) = Some now" using ntimer_ticks_defined by blast
  define k1 where "k1 = (case oldt of None \<Rightarrow> k
     | Some t \<Rightarrow> let k = upd_thr t (\<lambda>x. x\<lparr>lrt := now, ctx := core_ctx k\<rparr>) k in
        if state (thr k t) = TS_run then set_state t TS_ready k else k)"
  define k2 where "k2 = (case newt of None \<Rightarrow> k1\<lparr>crr_thread := None\<rparr>
     | Some t \<Rightarrow> let k = switch_process (owner (thr k1 t)) (set_state t TS_run (k1\<lparr>crr_thread := Some t\<rparr>))
        in k\<lparr>core_ctx := ctx (thr k t)\<rparr>)"
  have 1: "switch_context oldt newt k = Some k2"
    unfolding switch_context_def k2_def k1_def
    by (cases oldt; cases newt) (simp_all add: now Let_def)
  have same1: "scheduler_links k1 = scheduler_links k" "readys k1 = readys k" "ready_mask k1 = ready_mask k"
    "real_priority (thr k1 t) = real_priority (thr k t)" "time (thr k1 t) = time (thr k t)"
    "owner (thr k1 t) = owner (thr k t)" "prc k1 = prc k" "core_ctx k1 = core_ctx k"
    "crr_process k1 = crr_process k" "cpu_mapped k1 = cpu_mapped k" "current_addr_space k1 = current_addr_space k"
    "ctx (thr k1 t) = (if oldt = Some t then core_ctx k else ctx (thr k t))"
    "state (thr k1 t) = (if oldt = Some t \<and> state (thr k t) = TS_run then TS_ready else state (thr k t))" for t
    by (auto simp: k1_def Let_def set_state_def upd_thr_def split: option.split)
  have ok1: "mapped_ok k \<Longrightarrow> mapped_ok k1"
    by (simp add: mapped_ok_def same1 split: option.splits)
  have ok2: "mapped_ok k2" if "mapped_ok k"
  proof (cases newt)
    case None
    then show ?thesis using ok1 [OF that] by (simp add: k2_def mapped_ok_def split: option.splits)
  next
    case (Some t)
    have "mapped_ok (set_state t TS_run (k1\<lparr>crr_thread := Some t\<rparr>))"
      using ok1 [OF that] by (simp add: mapped_ok_def set_state_def upd_thr_def split: option.splits)
    note m = mapped_ok_switch_process [OF this, of "owner (thr k1 t)"]
    have "mapped_ok (j\<lparr>core_ctx := c\<rparr>) = mapped_ok j" for j c
      by (simp add: mapped_ok_def split: option.splits)
    then show ?thesis using m Some by (simp add: k2_def Let_def)
  qed
  show thesis
    by (rule that [OF 1 _ _ _ _ _ _ _ _ _ _ _ _ ok2])
      (auto simp: k2_def Let_def same1 split: option.split)
qed

text \<open>
  What rescheduling means for the queues: the first thread of the highest queue runs, unless its time
  slice is used up; then the next of its queue does and it goes to the end, and when it is alone in
  its queue the queues below it are served this time.\<close>

definition highest :: "(nat \<Rightarrow> tid list) \<Rightarrow> nat option" where
  "highest R = (if \<forall>p. R p = [] then None else Some (Max {p. R p \<noteq> []}))"

definition serve :: "(tid \<Rightarrow> bool) \<Rightarrow> (nat \<Rightarrow> tid list) \<Rightarrow> tid option \<times> (nat \<Rightarrow> tid list)" where
  "serve expired R = (case highest R of
     None \<Rightarrow> (None, R)
   | Some p \<Rightarrow> (let t = hd (R p); us = tl (R p) in
       if \<not> expired t then (Some t, R)
       else if us \<noteq> [] then (Some (hd us), R(p := us @ [t]))
       else (map_option (\<lambda>q. hd (R q)) (highest (R(p := []))), R)))"

lemma next_ready_highest':
  assumes "sched_rep k R" "\<And>p. 32 \<le> p \<Longrightarrow> R p = []"
  shows "next_ready_thread k = map_option (\<lambda>p. hd (R p)) (highest R)"
  using next_ready_highest [OF assms] by (simp add: highest_def)

lemma highest_SomeD:
  assumes "highest R = Some p" "\<And>p. 32 \<le> p \<Longrightarrow> R p = []"
  shows "R p \<noteq> []" "p < 32" "\<And>q. R q \<noteq> [] \<Longrightarrow> q \<le> p"
proof -
  have fin: "finite {p. R p \<noteq> []}" using assms(2)
    by (intro finite_subset [of "{p. R p \<noteq> []}" "{..<32}"]) (auto intro: ccontr simp: not_less)
  have ne: "{p. R p \<noteq> []} \<noteq> {}" and p: "p = Max {p. R p \<noteq> []}"
    using assms(1) by (auto simp: highest_def split: if_splits)
  show "R p \<noteq> []" using Max_in [OF fin ne] p by simp
  then show "p < 32" using assms(2) by (metis not_less)
  show "\<And>q. R q \<noteq> [] \<Longrightarrow> q \<le> p" using fin p by simp
qed

text \<open>The choice of the next thread, before the switch.\<close>

lemma rotate_ready:
  assumes rep: "sched_rep k R" and R: "R p = t # u # us" and p: "p < 64"
  shows "sched_rep (set_ready p (Some u) k) (R(p := u # us @ [t]))"
proof (rule sched_rep_update [OF rep p])
  have "roundabout_list t (u # us) (scheduler_links k)" using sched_repD(1) [OF rep, of p] R by simp
  then show "ready_ring (u # us @ [t]) (scheduler_links (set_ready p (Some u) k))"
    using roundabout_rotate by fastforce
  show "\<forall>x\<in>set (u # us @ [t]). real_priority (thr k x) = p"
    using sched_repD(4) [OF rep] R by auto
  show "\<And>q. q < 64 \<Longrightarrow> mask_bit (set_ready p (Some u) k) q = (if q = p then u # us @ [t] \<noteq> [] else mask_bit k q)"
    using sched_repD(3) [OF rep p] R by simp
qed (use R in auto)

definition choose_next :: "kern \<Rightarrow> (tid option \<times> kern) undef" where
  "choose_next k = (case next_ready_thread k of
          None \<Rightarrow> Some (None, k)
        | Some t \<Rightarrow>
            if time (thr k t) = 0 then
              let k = upd_thr t (\<lambda>x. x\<lparr>time := timeslice x\<rparr>) k;
                  h = scheduler_links k
              in if nxt h t \<noteq> Some t \<or> prv h t \<noteq> Some t then
                   Some (nxt h t, set_ready (real_priority (thr k t)) (nxt h t) k)
                 else do {
                   k \<leftarrow> dequeue_thread_from_ready t k;
                   let next = next_ready_thread k;
                   k \<leftarrow> queue_thread_ready t k;
                   Some (next, k)
                 }
            else Some (Some t, k))"

lemma reschedule_choose: "reschedule k = Option.bind (choose_next k) (\<lambda>(next, k'). switch_context (crr_thread k) next k')"
  unfolding reschedule_def choose_next_def Let_def
  by (cases "next_ready_thread k") (simp_all cong: if_cong)

lemma choose_next_refines:
  assumes rep: "sched_rep k R" and low: "\<And>p. 32 \<le> p \<Longrightarrow> R p = []"
  defines "s \<equiv> serve (\<lambda>t. time (thr k t) = 0) R"
  obtains k' where "choose_next k = Some (fst s, k')" "sched_rep k' (snd s)"
    "sched_frame (k\<lparr>thr := thr k'\<rparr>) k'"
    "thr k' = (case highest R of Some p \<Rightarrow> if time (thr k (hd (R p))) = 0
       then (thr k)(hd (R p) := (thr k (hd (R p)))\<lparr>time := timeslice (thr k (hd (R p)))\<rparr>) else thr k | None \<Rightarrow> thr k)"
proof (cases "highest R")
  case None
  then show thesis
    using that [of k] next_ready_highest' [OF rep low] rep by (simp add: s_def serve_def choose_next_def)
next
  case (Some p)
  note hi = highest_SomeD [OF Some low]
  obtain t us where R: "R p = t # us" using hi(1) by (cases "R p") auto
  have nx: "next_ready_thread k = Some t" using next_ready_highest' [OF rep low] Some R by simp
  have p64: "p < 64" using hi(2) by simp
  show thesis
  proof (cases "time (thr k t) = 0")
    case False
    then show thesis using that [of k] Some R nx rep by (simp add: s_def serve_def choose_next_def)
  next
    case True
    let ?k = "upd_thr t (\<lambda>x. x\<lparr>time := timeslice x\<rparr>) k"
    have rep1: "sched_rep ?k R" using rep by (subst sched_rep_same) simp_all
    have pt: "real_priority (thr ?k t) = p" using sched_repD(4) [OF rep1, of t p] R by simp
    have ring: "roundabout_list t us (scheduler_links k)" using sched_repD(1) [OF rep, of p] R by simp
    have kk: "k\<lparr>thr := thr ?k\<rparr> = ?k" by (simp add: upd_thr_def)
    show thesis
    proof (cases us)
      case (Cons u vs)
      have n: "nxt (scheduler_links k) t = Some u" "u \<noteq> t"
        using roundabout_listD(1) [OF ring] ring Cons by (auto simp: roundabout_list_def)
      have "choose_next k = Some (Some u, set_ready p (Some u) ?k)"
        using True nx n pt by (simp add: choose_next_def Let_def)
      moreover have "sched_rep (set_ready p (Some u) ?k) (R(p := u # vs @ [t]))"
        using rotate_ready [OF rep1 _ p64] R Cons by simp
      moreover have "s = (Some u, R(p := u # vs @ [t]))"
        using Some R Cons True by (simp add: s_def serve_def)
      ultimately show thesis using that [of "set_ready p (Some u) ?k"] Some R True kk by simp
    next
      case Nil
      then have self: "nxt (scheduler_links k) t = Some t" "prv (scheduler_links k) t = Some t"
        using roundabout_listD [OF ring] by simp_all
      obtain k2 where k2: "dequeue_thread_from_ready t ?k = Some k2" "sched_rep k2 (R(p := []))" "sched_frame ?k k2"
        using dequeue_refines [OF rep1, of t p] R Nil by auto
      have "real_priority (thr k2 t) = p" using sched_frameD(1) [OF k2(3)] pt by simp
      then obtain k3 where k3: "queue_thread_ready t k2 = Some k3" "sched_rep k3 (R(p := [t]))" "sched_frame k2 k3"
        using queue_thread_ready_refines [OF k2(2), of t p] p64 by auto
      have "next_ready_thread k2 = map_option (\<lambda>q. hd ((R(p := [])) q)) (highest (R(p := [])))"
        by (rule next_ready_highest' [OF k2(2)]) (use low in simp)
      also have "\<dots> = map_option (\<lambda>q. hd (R q)) (highest (R(p := [])))"
      proof (cases "highest (R(p := []))")
        case (Some q)
        have "(R(p := [])) q \<noteq> []" by (rule highest_SomeD [OF Some]) (use low in simp)
        then show ?thesis using Some by (auto split: if_splits)
      qed simp
      finally have nx2: "next_ready_thread k2 = map_option (\<lambda>q. hd (R q)) (highest (R(p := [])))" .
      have "choose_next k = Some (next_ready_thread k2, k3)"
        using True nx self k2(1) k3(1) by (simp add: choose_next_def Let_def)
      moreover have "s = (next_ready_thread k2, R)"
        using Some R Nil True nx2 by (simp add: s_def serve_def)
      moreover have "R(p := [t]) = R" using R Nil by auto
      moreover have "sched_frame ?k k3" using k2(3) k3(3) by (rule sched_frame_trans)
      moreover have "thr k3 = thr ?k" using sched_frameD(1) [OF \<open>sched_frame ?k k3\<close>] .
      ultimately show thesis using that [of k3] k3(2) Some R True kk by simp
    qed
  qed
qed

section \<open>Suspending and resuming\<close>

definition in_ready :: "(nat \<Rightarrow> tid list) \<Rightarrow> tid \<Rightarrow> bool" where
  "in_ready R t \<longleftrightarrow> (\<exists>p. t \<in> set (R p))"

lemma ready_ring_linked:
  assumes "ready_ring xs h" "t \<in> set xs"
  shows "nxt h t \<noteq> None" "prv h t \<noteq> None"
proof -
  obtain a as where xs: "xs = a # as" using assms(2) by (cases xs) auto
  have r: "roundabout_list a as h" using assms(1) xs by simp
  have "nxt h t \<noteq> None \<and> prv h t \<noteq> None"
  proof (cases "t = a")
    case True
    then show ?thesis using roundabout_listD [OF r] by simp
  next
    case False
    then obtain ys zs where "as = ys @ t # zs" using assms(2) xs by (meson set_ConsD split_list)
    then show ?thesis using roundabout_neighbours [OF r [unfolded \<open>as = _\<close>]] by simp
  qed
  then show "nxt h t \<noteq> None" "prv h t \<noteq> None" by blast+
qed

lemma linked_iff_in_ready:
  assumes "sched_rep k R"
  shows "nxt (scheduler_links k) t = None \<longleftrightarrow> \<not> in_ready R t" "prv (scheduler_links k) t = None \<longleftrightarrow> \<not> in_ready R t"
proof -
  have "nxt (scheduler_links k) t \<noteq> None \<and> prv (scheduler_links k) t \<noteq> None" if "in_ready R t"
    using that ready_ring_linked [OF sched_repD(1) [OF assms]] unfolding in_ready_def by blast
  moreover have "nxt (scheduler_links k) t = None \<and> prv (scheduler_links k) t = None" if "\<not> in_ready R t"
    using that sched_repD(6) [OF assms, of t] by (simp add: in_ready_def unlinked_def)
  ultimately show "nxt (scheduler_links k) t = None \<longleftrightarrow> \<not> in_ready R t"
    "prv (scheduler_links k) t = None \<longleftrightarrow> \<not> in_ready R t" by blast+
qed

lemma in_ready_priority: "sched_rep k R \<Longrightarrow> in_ready R t \<longleftrightarrow> t \<in> set (R (real_priority (thr k t)))"
  using sched_repD(4) by (fastforce simp: in_ready_def)

lemma sched_frame_prepare: "sched_frame k k' \<Longrightarrow> sched_frame (prepare_reschedule k) (prepare_reschedule k')"
proof -
  assume "sched_frame k k'"
  then obtain h r m where "k' = k\<lparr>scheduler_links := h, readys := r, ready_mask := m\<rparr>"
    unfolding sched_frame_def by blast
  then have "prepare_reschedule k' = (prepare_reschedule k)\<lparr>scheduler_links := h, readys := r, ready_mask := m\<rparr>"
    by (simp add: prepare_reschedule_def)
  then show ?thesis unfolding sched_frame_def by blast
qed

lemma sched_resume_spec:
  assumes rep: "sched_rep k R" and p: "real_priority (thr k t) < 64"
  defines "p \<equiv> real_priority (thr k t)"
  shows "in_ready R t \<or> state (thr k t) \<in> {TS_ready, TS_run, TS_stop} \<Longrightarrow> sched_resume t k = Some (False, k)"
    "\<not> in_ready R t \<Longrightarrow> state (thr k t) \<notin> {TS_ready, TS_run, TS_stop} \<Longrightarrow>
      \<exists>k'. sched_resume t k = Some (True, k') \<and> sched_rep k' (R(p := R p @ [t])) \<and>
        sched_frame (prepare_reschedule (set_state t TS_ready k)) k'"
proof -
  show "in_ready R t \<or> state (thr k t) \<in> {TS_ready, TS_run, TS_stop} \<Longrightarrow> sched_resume t k = Some (False, k)"
    using linked_iff_in_ready [OF rep, of t] by (auto simp: sched_resume_def)
  assume a: "\<not> in_ready R t" "state (thr k t) \<notin> {TS_ready, TS_run, TS_stop}"
  let ?k = "set_state t TS_ready k"
  have "sched_rep ?k R" using rep by simp
  moreover have "t \<notin> set (R p)" using a(1) by (auto simp: in_ready_def)
  ultimately obtain k1 where k1: "queue_thread_ready t ?k = Some k1" "sched_rep k1 (R(p := R p @ [t]))" "sched_frame ?k k1"
    using queue_thread_ready_refines [of ?k R t p] p unfolding p_def by auto
  have "sched_resume t k = Some (True, prepare_reschedule k1)"
    using a linked_iff_in_ready [OF rep, of t] k1(1) by (simp add: sched_resume_def)
  then show "\<exists>k'. sched_resume t k = Some (True, k') \<and> sched_rep k' (R(p := R p @ [t])) \<and>
        sched_frame (prepare_reschedule (set_state t TS_ready k)) k'"
    using k1(2) sched_frame_prepare [OF k1(3)] by simp
qed

lemma sched_wait_spec:
  assumes rep: "sched_rep k R" and t: "t \<in> set (R p)"
  shows "state (thr k t) \<in> {TS_wait, TS_ready, TS_wait_fast_sema, TS_wait_mutex} \<Longrightarrow> sched_wait t k = Some (False, k)"
    "state (thr k t) \<notin> {TS_wait, TS_ready, TS_wait_fast_sema, TS_wait_mutex} \<Longrightarrow>
      \<exists>k'. sched_wait t k = Some (True, k') \<and> sched_rep k' (R(p := remove1 t (R p))) \<and> sched_frame (prepare_reschedule k) k'"
proof -
  show "state (thr k t) \<in> {TS_wait, TS_ready, TS_wait_fast_sema, TS_wait_mutex} \<Longrightarrow> sched_wait t k = Some (False, k)"
    by (simp add: sched_wait_def)
  assume "state (thr k t) \<notin> {TS_wait, TS_ready, TS_wait_fast_sema, TS_wait_mutex}"
  moreover obtain k1 where "dequeue_thread_from_ready t k = Some k1" "sched_rep k1 (R(p := remove1 t (R p)))" "sched_frame k k1"
    using dequeue_refines [OF rep t] .
  ultimately show "\<exists>k'. sched_wait t k = Some (True, k') \<and> sched_rep k' (R(p := remove1 t (R p))) \<and> sched_frame (prepare_reschedule k) k'"
    by (intro exI [of _ "prepare_reschedule k1"]) (simp add: sched_wait_def sched_frame_prepare)
qed

section \<open>Time slices\<close>

text \<open>The end of a time slice: the ticks of the current thread run out and the scheduler is called.\<close>

definition slice_end :: "kern \<Rightarrow> kern undef" where
  "slice_end k = map_option
     (\<lambda>k'. case crr_thread k' of Some t \<Rightarrow> upd_thr t (\<lambda>x. x\<lparr>time := 0\<rparr>) k' | None \<Rightarrow> k') (reschedule k)"

fun slices :: "nat \<Rightarrow> kern \<Rightarrow> kern undef" where
  "slices 0 k = Some k"
| "slices (Suc n) k = Option.bind (slices n k) slice_end"


lemma highest_cong: "(\<And>q. R q = [] \<longleftrightarrow> R' q = []) \<Longrightarrow> highest R = highest R'"
  by (simp add: highest_def)

lemma slice_end_rotates:
  assumes rep: "sched_rep k R" and low: "\<And>p. 32 \<le> p \<Longrightarrow> R p = []" and hi: "highest R = Some p"
    and R: "R p = t # u # us" and t: "time (thr k t) = 0"
  shows "\<exists>k'. slice_end k = Some k' \<and> sched_rep k' (R(p := u # us @ [t])) \<and> time (thr k' u) = 0 \<and> crr_thread k' = Some u"
proof -
  have s: "serve (\<lambda>t. time (thr k t) = 0) R = (Some u, R(p := u # us @ [t]))"
    using hi R t by (simp add: serve_def)
  obtain k1 where k1: "choose_next k = Some (Some u, k1)" "sched_rep k1 (R(p := u # us @ [t]))"
    by (rule choose_next_refines [OF rep low, unfolded s fst_conv snd_conv])
  obtain k2 where k2: "switch_context (crr_thread k) (Some u) k1 = Some k2"
    "scheduler_links k2 = scheduler_links k1" "readys k2 = readys k1" "ready_mask k2 = ready_mask k1"
    "\<And>t. real_priority (thr k2 t) = real_priority (thr k1 t)" "crr_thread k2 = Some u"
    by (rule switch_context_spec [of "crr_thread k" "Some u" k1]) blast
  have "reschedule k = Some k2" using k1(1) k2(1) by (simp add: reschedule_choose)
  then have "slice_end k = Some (upd_thr u (\<lambda>x. x\<lparr>time := 0\<rparr>) k2)"
    using k2(6) by (simp add: slice_end_def)
  moreover have "sched_rep (upd_thr u (\<lambda>x. x\<lparr>time := 0\<rparr>) k2) (R(p := u # us @ [t]))"
    using k1(2) by (subst sched_rep_same [of _ k1]) (simp_all add: k2)
  ultimately show ?thesis using k2(6) by simp
qed

lemma slices_rotate:
  assumes rep: "sched_rep k R" and low: "\<And>p. 32 \<le> p \<Longrightarrow> R p = []" and hi: "highest R = Some p"
    and two: "2 \<le> length (R p)" and t: "time (thr k (hd (R p))) = 0"
  shows "\<exists>k'. slices i k = Some k' \<and> sched_rep k' (R(p := rotate i (R p)))
    \<and> time (thr k' (hd (rotate i (R p)))) = 0 \<and> (0 < i \<longrightarrow> crr_thread k' = Some (hd (rotate i (R p))))"
proof (induction i)
  case 0
  then show ?case using rep t by simp
next
  case (Suc i)
  then obtain k' where k': "slices i k = Some k'" "sched_rep k' (R(p := rotate i (R p)))"
    "time (thr k' (hd (rotate i (R p)))) = 0" by blast
  obtain x y zs where xs: "rotate i (R p) = x # y # zs"
    using two by (metis (no_types) length_rotate Suc_le_length_iff numeral_2_eq_2)
  have ne: "R p \<noteq> []" using two by auto
  have h: "highest (R(p := rotate i (R p))) = Some p"
    using hi ne by (subst highest_cong [of _ R]) auto
  have low': "(R(p := rotate i (R p))) q = []" if "32 \<le> q" for q
    using low [OF that] highest_SomeD(2) [OF hi low] that by auto
  from slice_end_rotates [OF k'(2) low' h, of x y zs] k'(3) xs
  have "\<exists>k2. slice_end k' = Some k2 \<and> sched_rep k2 (R(p := y # zs @ [x])) \<and> time (thr k2 y) = 0 \<and> crr_thread k2 = Some y"
    by (simp del: fun_upd_apply add: fun_upd_same)
  then obtain k2 where "slice_end k' = Some k2" "sched_rep k2 (R(p := y # zs @ [x]))" "time (thr k2 y) = 0" "crr_thread k2 = Some y"
    by blast
  then show ?case using k'(1) xs by (simp del: fun_upd_apply)
qed

section \<open>Properties\<close>

text \<open>C1. The ready queues implement strict priorities with first-in first-out order among equals:
  after any distinct threads with priorities below 32 are queued into the empty scheduler, in any
  order, the thread chosen to run is the one queued first among those of the highest priority, and
  no step follows a null pointer.\<close>

theorem ready_queues_serve_by_priority:
  assumes "sched_rep k (\<lambda>_. [])" and "distinct ts" and "ts \<noteq> []" and "\<forall>t \<in> set ts. real_priority (thr k t) < 32"
  shows "\<exists>k'. enqueue_all queue_thread_ready ts k = Some k'
    \<and> next_ready_thread k' = find (\<lambda>t. real_priority (thr k t) = Max ((\<lambda>t. real_priority (thr k t)) ` set ts)) ts"
  using rq.enqueue_all_next [OF assms] by metis

text \<open>C2. Rescheduling never fails and implements the choice of \<^const>\<open>serve\<close>: the first thread of the
  highest non-empty queue, or after its slice is used up the next one in turn. The chosen thread is
  made the current one in state run, the CPU has its context, its process is the current one and the
  only one mapped; the context of the thread that ran before is saved in it.\<close>

theorem reschedule_runs_chosen:
  assumes "sched_rep k R" and "\<And>p. 32 \<le> p \<Longrightarrow> R p = []" and "mapped_ok k"
  defines "s \<equiv> serve (\<lambda>t. time (thr k t) = 0) R"
  shows "\<exists>k'. reschedule k = Some k' \<and> sched_rep k' (snd s) \<and> crr_thread k' = fst s \<and> mapped_ok k'
    \<and> (\<forall>t. fst s = Some t \<longrightarrow> state (thr k' t) = TS_run \<and> core_ctx k' = ctx (thr k' t)
          \<and> crr_process k' = Some (owner (thr k t)))
    \<and> (\<forall>t. ctx (thr k' t) = (if crr_thread k = Some t then core_ctx k else ctx (thr k t)))"
proof -
  obtain k1 where k1: "choose_next k = Some (fst s, k1)" "sched_rep k1 (snd s)" "sched_frame (k\<lparr>thr := thr k1\<rparr>) k1"
    and th: "thr k1 = (case highest R of Some p \<Rightarrow> if time (thr k (hd (R p))) = 0
       then (thr k)(hd (R p) := (thr k (hd (R p)))\<lparr>time := timeslice (thr k (hd (R p)))\<rparr>) else thr k | None \<Rightarrow> thr k)"
    using choose_next_refines [OF assms(1,2)] unfolding s_def by blast
  have same: "core_ctx k1 = core_ctx k" "ctx (thr k1 t) = ctx (thr k t)" "owner (thr k1 t) = owner (thr k t)" for t
    using sched_frameD(12) [OF k1(3)] by (auto simp: th split: option.split)
  have m1: "mapped_ok k1"
    using assms(3) sched_frameD [OF k1(3)] by (simp add: mapped_ok_def split: option.splits)
  obtain k2 where k2: "switch_context (crr_thread k) (fst s) k1 = Some k2"
    "scheduler_links k2 = scheduler_links k1" "readys k2 = readys k1" "ready_mask k2 = ready_mask k1"
    "\<And>t. real_priority (thr k2 t) = real_priority (thr k1 t)" "crr_thread k2 = fst s" "mapped_ok k2"
    "\<And>t. ctx (thr k2 t) = (if crr_thread k = Some t then core_ctx k1 else ctx (thr k1 t))"
    "\<And>t. state (thr k2 t) = (if fst s = Some t then TS_run
       else if crr_thread k = Some t \<and> state (thr k1 t) = TS_run then TS_ready else state (thr k1 t))"
    "\<And>t. fst s = Some t \<Longrightarrow> core_ctx k2 = ctx (thr k2 t) \<and> crr_process k2 = Some (owner (thr k1 t))"
    by (rule switch_context_spec [of "crr_thread k" "fst s" k1]) (use m1 in blast)
  have "reschedule k = Some k2" using k1(1) k2(1) by (simp add: reschedule_choose)
  moreover have "sched_rep k2 (snd s)" using sched_rep_same [OF k2(2-5)] k1(2) by simp
  ultimately show ?thesis using k2(6-) same by simp
qed

text \<open>A context switch and the switch back restore the machine: whatever the CPU does while the
  other thread runs, the first thread gets back the context it had, with its process mapped again,
  and the other thread keeps the context it left.\<close>

theorem context_switch_roundtrip:
  assumes "a \<noteq> b" and "mapped_ok k"
  shows "\<exists>k1 k2. switch_context (Some a) (Some b) k = Some k1
    \<and> switch_context (Some b) (Some a) (k1\<lparr>core_ctx := c\<rparr>) = Some k2
    \<and> core_ctx k2 = core_ctx k \<and> ctx (thr k2 b) = c
    \<and> crr_thread k2 = Some a \<and> crr_process k2 = Some (owner (thr k a)) \<and> mapped_ok k2"
proof -
  obtain k1 where k1: "switch_context (Some a) (Some b) k = Some k1" "\<And>t. owner (thr k1 t) = owner (thr k t)"
    "mapped_ok k1" "\<And>t. ctx (thr k1 t) = (if Some a = Some t then core_ctx k else ctx (thr k t))"
    by (rule switch_context_spec [of "Some a" "Some b" k]) (use assms(2) in blast)
  let ?k = "k1\<lparr>core_ctx := c\<rparr>"
  have m: "mapped_ok ?k" using k1(3) by (simp add: mapped_ok_def split: option.splits)
  obtain k2 where k2: "switch_context (Some b) (Some a) ?k = Some k2" "crr_thread k2 = Some a" "mapped_ok k2"
    "\<And>t. ctx (thr k2 t) = (if Some b = Some t then core_ctx ?k else ctx (thr ?k t))"
    "\<And>t. Some a = Some t \<Longrightarrow> core_ctx k2 = ctx (thr k2 t) \<and> crr_process k2 = Some (owner (thr ?k t))"
    by (rule switch_context_spec [of "Some b" "Some a" ?k]) (use m in blast)
  show ?thesis using k1 k2 assms(1) by (intro exI [of _ k1] exI [of _ k2]) simp
qed

text \<open>C3. Round robin among at least two threads: let the highest nonempty ready queue hold two or more
  threads, the one at its head have used up its slice, and every queue from index 32 on be empty. When every
  thread then runs until its slice is used up, the threads of that queue run in turn, in the order of the
  queue: the first slice goes to the second of them, and each gets the CPU within as many slices as the queue
  has threads. (A queue of one thread is not covered: its thread gives a slice to a lower queue that is not empty.)\<close>

theorem round_robin_serves_all:
  assumes "sched_rep k R" and "\<And>p. 32 \<le> p \<Longrightarrow> R p = []" and "highest R = Some p"
    and "2 \<le> length (R p)" and "time (thr k (hd (R p))) = 0"
  shows "\<exists>k'. slices (Suc i) k = Some k' \<and> crr_thread k' = Some (R p ! (Suc i mod length (R p)))"
proof -
  obtain k' where "slices (Suc i) k = Some k'" "crr_thread k' = Some (hd (rotate (Suc i) (R p)))"
    using slices_rotate [OF assms, of "Suc i"] by blast
  moreover have "R p \<noteq> []" using assms(4) by auto
  ultimately show ?thesis by (simp add: hd_rotate_conv_nth del: slices.simps rotate_Suc)
qed

section \<open>Concrete executions\<close>

text \<open>Three threads of the priorities 5, 7 and 7; \<open>two_queued\<close> has the last two queued.\<close>

definition three_threads :: "tid \<Rightarrow> thread" where
  "three_threads t = (fresh_thread (if t = 1 then 5 else 7))\<lparr>time := 0\<rparr>"

lemma three_threads_simps [simp]: "real_priority (three_threads t) = (if t = 1 then 5 else 7)"
  "time (three_threads t) = 0" "owner (three_threads t) = 0"
  by (simp_all add: three_threads_def)

lemma fresh_kern_rep [simp]: "sched_rep (fresh_kern th) (\<lambda>_. [])"
  by (simp add: sched_rep_def mask_bit_def unlinked_def)

lemma fresh_kern_mapped [simp]: "mapped_ok (fresh_kern th)"
  by (simp add: mapped_ok_def)

theorem ready_queues_serve_by_priority_witness:
  "\<exists>k'. enqueue_all queue_thread_ready [1, 2, 3] (fresh_kern three_threads) = Some k' \<and> next_ready_thread k' = Some 2"
  using ready_queues_serve_by_priority [OF fresh_kern_rep [of three_threads], of "[1, 2, 3]"] by simp

theorem context_switch_roundtrip_witness:
  "\<exists>k1 k2. switch_context (Some 1) (Some 2) (fresh_kern three_threads) = Some k1
    \<and> switch_context (Some 2) (Some 1) (k1\<lparr>core_ctx := fresh_context\<lparr>pc := 8\<rparr>\<rparr>) = Some k2
    \<and> core_ctx k2 = core_ctx (fresh_kern three_threads) \<and> ctx (thr k2 2) = fresh_context\<lparr>pc := 8\<rparr>
    \<and> crr_thread k2 = Some 1 \<and> crr_process k2 = Some (owner (thr (fresh_kern three_threads) 1)) \<and> mapped_ok k2"
  by (rule context_switch_roundtrip) simp_all

definition two_queued :: kern where
  "two_queued = the (enqueue_all queue_thread_ready [2, 3] (fresh_kern three_threads))"

abbreviation two_lists :: "nat \<Rightarrow> tid list" where
  "two_lists \<equiv> (\<lambda>_. [])(7 := [2, 3])"

lemma two_queued_rep: "sched_rep two_queued two_lists" "sched_frame (fresh_kern three_threads) two_queued"
proof -
  let ?k = "fresh_kern three_threads"
  obtain k1 where k1: "queue_thread_ready 2 ?k = Some k1" "sched_rep k1 ((\<lambda>_. [])(7 := [] @ [2]))" "sched_frame ?k k1"
    by (rule queue_thread_ready_refines [where k = ?k and t = 2 and p = 7, OF fresh_kern_rep]) simp_all
  obtain k2 where k2: "queue_thread_ready 3 k1 = Some k2"
    "sched_rep k2 (((\<lambda>_. [])(7 := [] @ [2]))(7 := ((\<lambda>_. [])(7 := [] @ [2])) 7 @ [3]))" "sched_frame k1 k2"
    by (rule queue_thread_ready_refines [where t = 3 and p = 7, OF k1(2)]) (simp_all add: sched_frameD(1) [OF k1(3)])
  have "two_queued = k2" using k1(1) k2(1) by (simp add: two_queued_def)
  then show "sched_rep two_queued two_lists" "sched_frame ?k two_queued"
    using k2(2) sched_frame_trans [OF k1(3) k2(3)] by (simp_all del: fun_upd_apply add: fun_upd_same)
qed

lemma two_lists_highest: "highest two_lists = Some 7"
proof -
  have "{p. two_lists p \<noteq> []} = {7}" by auto
  moreover have "\<not> (\<forall>p. two_lists p = [])" by auto
  ultimately show ?thesis unfolding highest_def by simp
qed

lemma two_queued_thr [simp]: "thr two_queued = three_threads" "crr_thread two_queued = None" "mapped_ok two_queued"
  using sched_frameD [OF two_queued_rep(2)] by (simp_all add: mapped_ok_def)

theorem reschedule_runs_chosen_witness:
  "\<exists>k'. reschedule two_queued = Some k' \<and> sched_rep k' ((\<lambda>_. [])(7 := [3, 2])) \<and> crr_thread k' = Some 3 \<and> state (thr k' 3) = TS_run"
proof -
  have "serve (\<lambda>t. time (thr two_queued t) = 0) two_lists = (Some 3, (\<lambda>_. [])(7 := [3, 2]))"
    unfolding serve_def two_lists_highest by simp
  then show ?thesis
    using reschedule_runs_chosen [OF two_queued_rep(1)] by fastforce
qed

theorem round_robin_serves_all_witness:
  "\<exists>k'. slices (Suc 4) two_queued = Some k' \<and> crr_thread k' = Some (two_lists 7 ! (Suc 4 mod length (two_lists 7)))"
  by (rule round_robin_serves_all [OF two_queued_rep(1) _ two_lists_highest]) simp_all

end
