(* ===== verification/Semaphore.thy ===== *)
theory Semaphore imports Scheduler begin

text \<open>
  The counting semaphore of \<open>kernel/sema.cpp\<close>. A negative count is the number of waiting threads, kept
  in a wait queue ordered by real priority; a thread that is suspended while it waits moves from the
  wait queue to the roundabout \<open>suspended\<close>, whose sentinel is \<open>Sema_ring s\<close>.
\<close>

section \<open>Operations\<close>

text \<open>One iteration of \<open>signal\<close>; the increment of the largest count overflows.\<close>

definition signal_once :: "sid \<Rightarrow> kern \<Rightarrow> kern undef" where
  "signal_once s k = (
     let c = avail_count (sema k s) in do {
       guard (c < 2 ^ 31 - 1);
       let k = upd_sema s (\<lambda>x. x\<lparr>avail_count := c + 1\<rparr>) k;
       if c < 0 \<and> sema_waits (sema k s) \<noteq> [] then do {
         ready_thread \<leftarrow> cp_top (sema_waits (sema k s));
         ws \<leftarrow> cp_pop (pri_key k) (sema_waits (sema k s));
         let k = upd_sema s (\<lambda>x. x\<lparr>sema_waits := ws\<rparr>) k;
         guard (wait_obj (thr k ready_thread) = Some (Wait_sema s));
         (_, k) \<leftarrow> sched_resume ready_thread k;
         Some (set_wait_obj ready_thread None k)
       } else Some k
     })"

fun signal_loop :: "nat \<Rightarrow> sid \<Rightarrow> kern \<Rightarrow> kern undef" where
  "signal_loop 0 s k = Some k"
| "signal_loop (Suc n) s k = Option.bind (signal_once s k) (signal_loop n s)"

text \<open>The loop counter is a \<open>size_t\<close> compared with the signed count: the count is converted to an
  unsigned 64-bit number first.\<close>

definition sema_signal :: "sid \<Rightarrow> int \<Rightarrow> kern \<Rightarrow> kern undef" where
  "sema_signal s signal_count k = signal_loop (nat (signal_count mod 2 ^ 64)) s k"

definition sema_wait :: "sid \<Rightarrow> kern \<Rightarrow> kern undef" where
  "sema_wait s k = (
     let c = avail_count (sema k s) - 1 in do {
       guard (- (2 ^ 31) \<le> c);
       let k = upd_sema s (\<lambda>x. x\<lparr>avail_count := c\<rparr>) k;
       if c < 0 then do {
         calling_thr \<leftarrow> crr_thread k;
         guard (wait_obj (thr k calling_thr) = None);
         let k = upd_sema s (\<lambda>x. x\<lparr>sema_waits := cp_push (pri_key k) calling_thr (sema_waits x)\<rparr>) k;
         (_, k) \<leftarrow> sched_wait calling_thr k;
         let k = set_state calling_thr TS_wait_fast_sema k;
         Some (set_wait_obj calling_thr (Some (Wait_sema s)) k)
       } else Some k
     })"

definition sema_priority_change :: "sid \<Rightarrow> kern \<Rightarrow> kern" where
  "sema_priority_change s k = upd_sema s (\<lambda>x. x\<lparr>sema_waits := cp_resort (pri_key k) (sema_waits x)\<rparr>) k"

definition suspend_waiting_thread :: "sid \<Rightarrow> tid \<Rightarrow> kern \<Rightarrow> (bool \<times> kern) undef" where
  "suspend_waiting_thread s t k =
     (if state (thr k t) \<noteq> TS_wait_fast_sema then Some (False, k)
      else if t \<notin> set (sema_waits (sema k s)) then Some (False, k)
      else do {
        let k = upd_sema s (\<lambda>x. x\<lparr>sema_waits := snd (cp_remove (pri_key k) t (sema_waits x))\<rparr>) k;
        h \<leftarrow> roundabout_push (Sema_ring s) (Link t) (suspend_links k);
        let k = k\<lparr>suspend_links := h\<rparr>;
        Some (True, set_state t TS_wait_fast_sema_suspend k)
      })"

definition unsuspend_waiting_thread :: "sid \<Rightarrow> tid \<Rightarrow> kern \<Rightarrow> bool \<times> kern" where
  "unsuspend_waiting_thread s t k =
     (if state (thr k t) \<noteq> TS_wait_fast_sema_suspend then (False, k)
      else if alone (Link t) (suspend_links k) then (False, k)
      else let k = k\<lparr>suspend_links := deque (Link t) (suspend_links k)\<rparr>;
               k = upd_sema s (\<lambda>x. x\<lparr>sema_waits := cp_push (pri_key k) t (sema_waits x)\<rparr>) k
           in (True, set_state t TS_wait_fast_sema k))"

section \<open>The invariant\<close>

definition sema_ok :: "sid \<Rightarrow> kern \<Rightarrow> (nat \<Rightarrow> tid list) \<Rightarrow> bool" where
  "sema_ok s k R \<longleftrightarrow> (let w = sema_waits (sema k s) in
     distinct w \<and> is_heap (pri_key k) w \<and> int (length w) = max 0 (- avail_count (sema k s)) \<and>
     (\<forall>t \<in> set w. wait_obj (thr k t) = Some (Wait_sema s) \<and> state (thr k t) = TS_wait_fast_sema
        \<and> real_priority (thr k t) < 64 \<and> \<not> in_ready R t))"

lemma sema_okD:
  assumes "sema_ok s k R"
  shows "distinct (sema_waits (sema k s))" "is_heap (pri_key k) (sema_waits (sema k s))"
    "int (length (sema_waits (sema k s))) = max 0 (- avail_count (sema k s))"
    "t \<in> set (sema_waits (sema k s)) \<Longrightarrow> wait_obj (thr k t) = Some (Wait_sema s)"
    "t \<in> set (sema_waits (sema k s)) \<Longrightarrow> state (thr k t) = TS_wait_fast_sema"
    "t \<in> set (sema_waits (sema k s)) \<Longrightarrow> real_priority (thr k t) < 64"
    "t \<in> set (sema_waits (sema k s)) \<Longrightarrow> \<not> in_ready R t"
  using assms by (auto simp: sema_ok_def Let_def)

lemma in_ready_append: "in_ready (R(p := R p @ [t])) u \<longleftrightarrow> in_ready R u \<or> u = t"
  by (auto simp: in_ready_def)

lemma in_ready_remove1:
  assumes "sched_rep k R" "t \<in> set (R p)"
  shows "in_ready (R(p := remove1 t (R p))) u \<longleftrightarrow> in_ready R u \<and> u \<noteq> t"
proof -
  have d: "distinct (R p)" using ready_ring_distinct [OF sched_repD(1) [OF assms(1)]] .
  have "t \<notin> set (R q)" if "q \<noteq> p" for q
    using sched_repD(4) [OF assms(1)] assms(2) that by metis
  show ?thesis
  proof (cases "u = t")
    case True
    then show ?thesis using d \<open>\<And>q. q \<noteq> p \<Longrightarrow> t \<notin> set (R q)\<close> by (auto simp: in_ready_def)
  next
    case False
    then have "u \<in> set ((R(p := remove1 t (R p))) q) \<longleftrightarrow> u \<in> set (R q)" for q by simp
    then show ?thesis using False by (simp only: in_ready_def simp_thms)
  qed
qed

lemma signal_once_free:
  assumes "sema_ok s k R" "0 \<le> avail_count (sema k s)" "avail_count (sema k s) < 2 ^ 31 - 1"
  obtains k' where "signal_once s k = Some k'" "k' = upd_sema s (\<lambda>x. x\<lparr>avail_count := avail_count (sema k s) + 1\<rparr>) k"
    "sema_ok s k' R"
proof -
  let ?k = "upd_sema s (\<lambda>x. x\<lparr>avail_count := avail_count (sema k s) + 1\<rparr>) k"
  have "signal_once s k = Some ?k" using assms(2,3) by (simp add: signal_once_def)
  moreover have "sema_waits (sema k s) = []" using sema_okD(3) [OF assms(1)] assms(2) by simp
  then have "sema_ok s ?k R" using assms(2) by (simp add: sema_ok_def is_heap_def)
  ultimately show thesis using that by blast
qed

lemma signal_once_wakes:
  assumes rep: "sched_rep k R" and ok: "sema_ok s k R" and neg: "avail_count (sema k s) < 0"
  defines "W \<equiv> sema_waits (sema k s)"
  obtains k' t where "signal_once s k = Some k'" "t \<in> set W" "\<forall>u \<in> set W. real_priority (thr k u) \<le> real_priority (thr k t)"
    "sched_rep k' (R(real_priority (thr k t) := R (real_priority (thr k t)) @ [t]))"
    "sema_ok s k' (R(real_priority (thr k t) := R (real_priority (thr k t)) @ [t]))"
    "set (sema_waits (sema k' s)) = set W - {t}" "avail_count (sema k' s) = avail_count (sema k s) + 1"
    "thr k' = (thr k)(t := (thr k t)\<lparr>state := TS_ready, wait_obj := None\<rparr>)"
proof -
  note okd = sema_okD [OF ok, folded W_def]
  have ne: "W \<noteq> []" using okd(3) neg by auto
  define k1 where "k1 = upd_sema s (\<lambda>x. x\<lparr>avail_count := avail_count (sema k s) + 1\<rparr>) k"
  have pk: "pri_key k1 = pri_key k" by (simp add: k1_def)
  obtain t ws where top: "cp_top W = Some t" "cp_pop (pri_key k) W = Some ws" "t \<in># mset W"
    "\<forall>u. u \<in># mset W \<longrightarrow> pri_key k u \<le> pri_key k t" "mset ws = mset W - {#t#}" "is_heap (pri_key k) ws"
    using cp_top_pop [OF okd(2)] ne by auto
  note ws = cp_pop_set [OF okd(1) top(1,2)]
  have t: "t \<in> set W" using top(3) by simp
  define k2 where "k2 = upd_sema s (\<lambda>x. x\<lparr>sema_waits := ws\<rparr>) k1"
  have thr2: "thr k2 = thr k" by (simp add: k1_def k2_def)
  have rep2: "sched_rep k2 R" using rep by (simp add: k1_def k2_def)
  define p where "p = real_priority (thr k t)"
  have p64: "real_priority (thr k2 t) < 64" using okd(6) [OF t] by (simp add: thr2)
  obtain k3 where k3: "sched_resume t k2 = Some (True, k3)" "sched_rep k3 (R(p := R p @ [t]))"
    "sched_frame (prepare_reschedule (set_state t TS_ready k2)) k3"
    using sched_resume_spec(2) [OF rep2 p64] okd(5,7) [OF t] by (auto simp: thr2 p_def)
  let ?k = "set_wait_obj t None k3"
  have sig: "signal_once s k = Some ?k"
    using neg ne top(1,2) k3(1) okd(4) [OF t] pk thr2
    by (simp add: signal_once_def k2_def k1_def W_def Let_def)
  have thr3: "thr ?k = (thr k)(t := (thr k t)\<lparr>state := TS_ready, wait_obj := None\<rparr>)"
    using sched_frameD(1) [OF k3(3)] thr2 by simp
  have sema3: "sema ?k s = \<lparr>avail_count = avail_count (sema k s) + 1, sema_waits = ws\<rparr>"
    using sched_frameD(3) [OF k3(3)] by (simp add: k2_def k1_def)
  have key3: "pri_key ?k = pri_key k"
    using sched_frameD(13) [OF k3(3)] by (simp add: k2_def k1_def)
  have "length ws = length W - 1"
    using top(5) t by (metis size_Diff_singleton size_mset set_mset_mset)
  then have len: "int (length ws) = max 0 (- avail_count (sema ?k s))"
    using okd(3) ne neg sema3 by (simp add: W_def length_greater_0_conv [symmetric] del: length_greater_0_conv)
  have "sema_ok s ?k (R(p := R p @ [t]))"
    unfolding sema_ok_def Let_def
    using len ws top(6) key3 thr3 okd(4-7) sema3 by (auto simp: in_ready_append)
  moreover have "\<forall>u \<in> set W. real_priority (thr k u) \<le> real_priority (thr k t)"
    using top(4) by (simp add: pri_key_def)
  ultimately show thesis
    using that [OF sig t] k3(2) ws(1) sema3 thr3 by (simp add: p_def)
qed

lemma signal_loop_wakes:
  assumes rep: "sched_rep k R" and ok: "sema_ok s k R" and bound: "avail_count (sema k s) + int n < 2 ^ 31"
  defines "W \<equiv> sema_waits (sema k s)"
  shows "\<exists>woken k'. signal_loop n s k = Some k' \<and> distinct woken \<and> length woken = min n (length W)
    \<and> set woken \<subseteq> set W \<and> set (sema_waits (sema k' s)) = set W - set woken
    \<and> sorted_wrt (\<lambda>t u. real_priority (thr k u) \<le> real_priority (thr k t)) woken
    \<and> (\<forall>t \<in> set woken. \<forall>u \<in> set W - set woken. real_priority (thr k u) \<le> real_priority (thr k t))
    \<and> sched_rep k' (\<lambda>p. R p @ filter (\<lambda>t. real_priority (thr k t) = p) woken)
    \<and> sema_ok s k' (\<lambda>p. R p @ filter (\<lambda>t. real_priority (thr k t) = p) woken)
    \<and> avail_count (sema k' s) = avail_count (sema k s) + int n
    \<and> thr k' = (\<lambda>t. if t \<in> set woken then (thr k t)\<lparr>state := TS_ready, wait_obj := None\<rparr> else thr k t)"
  using rep ok bound unfolding W_def
proof (induction n arbitrary: k R)
  case 0
  then show ?case by (intro exI [of _ "[]"]) simp
next
  case (Suc n)
  let ?c = "avail_count (sema k s)" and ?W = "sema_waits (sema k s)"
  show ?case
  proof (cases "?c < 0")
    case False
    obtain k1 where k1: "signal_once s k = Some k1" "k1 = upd_sema s (\<lambda>x. x\<lparr>avail_count := ?c + 1\<rparr>) k" "sema_ok s k1 R"
      by (rule signal_once_free [OF Suc.prems(2)]) (use False Suc.prems(3) in auto)
    have W: "?W = []" using sema_okD(3) [OF Suc.prems(2)] False by simp
    have "sched_rep k1 R" "avail_count (sema k1 s) + int n < 2 ^ 31"
      using Suc.prems(1,3) k1(2) by simp_all
    from Suc.IH [OF this(1) k1(3) this(2)] show ?thesis using k1(1,2) W by (simp add: add.assoc)
  next
    case True
    obtain k1 t where k1: "signal_once s k = Some k1" and t: "t \<in> set ?W"
      "\<forall>u \<in> set ?W. real_priority (thr k u) \<le> real_priority (thr k t)"
      and rep1: "sched_rep k1 (R(real_priority (thr k t) := R (real_priority (thr k t)) @ [t]))"
      and ok1: "sema_ok s k1 (R(real_priority (thr k t) := R (real_priority (thr k t)) @ [t]))" and W1: "set (sema_waits (sema k1 s)) = set ?W - {t}"
      and c1: "avail_count (sema k1 s) = ?c + 1"
      and th: "thr k1 = (thr k)(t := (thr k t)\<lparr>state := TS_ready, wait_obj := None\<rparr>)"
      by (rule signal_once_wakes [OF Suc.prems(1,2) True])
    let ?R = "R(real_priority (thr k t) := R (real_priority (thr k t)) @ [t])"
    have "avail_count (sema k1 s) + int n < 2 ^ 31" using c1 Suc.prems(3) by simp
    from Suc.IH [OF rep1 ok1 this] obtain woken k' where IH: "signal_loop n s k1 = Some k'" "distinct woken"
      "length woken = min n (length (sema_waits (sema k1 s)))" "set woken \<subseteq> set ?W - {t}"
      "set (sema_waits (sema k' s)) = set ?W - {t} - set woken"
      "sorted_wrt (\<lambda>t u. real_priority (thr k1 u) \<le> real_priority (thr k1 t)) woken"
      "\<forall>t' \<in> set woken. \<forall>u \<in> set ?W - {t} - set woken. real_priority (thr k1 u) \<le> real_priority (thr k1 t')"
      "sched_rep k' (\<lambda>p. ?R p @ filter (\<lambda>t. real_priority (thr k1 t) = p) woken)"
      "sema_ok s k' (\<lambda>p. ?R p @ filter (\<lambda>t. real_priority (thr k1 t) = p) woken)"
      "avail_count (sema k' s) = avail_count (sema k1 s) + int n"
      "thr k' = (\<lambda>t. if t \<in> set woken then (thr k1 t)\<lparr>state := TS_ready, wait_obj := None\<rparr> else thr k1 t)"
      unfolding W1 by blast
    have rp: "real_priority (thr k1 u) = real_priority (thr k u)" for u using th by simp
    have queues: "(\<lambda>p. ?R p @ filter (\<lambda>t. real_priority (thr k1 t) = p) woken)
        = (\<lambda>p. R p @ filter (\<lambda>t. real_priority (thr k t) = p) (t # woken))"
      by (auto simp: rp fun_eq_iff)
    have tw: "t \<notin> set woken" using IH(4) by auto
    have "length (sema_waits (sema k1 s)) = length ?W - 1"
      using W1 t(1) sema_okD(1) [OF ok1] sema_okD(1) [OF Suc.prems(2)]
      by (metis card_Diff_singleton distinct_card)
    moreover have "?W \<noteq> []" using t(1) by auto
    ultimately have len: "length (t # woken) = min (Suc n) (length ?W)"
      using IH(3) by (cases ?W) auto
    have sorted: "sorted_wrt (\<lambda>t u. real_priority (thr k u) \<le> real_priority (thr k t)) (t # woken)"
      using IH(4,6) t(2) by (auto simp: rp)
    have best: "\<forall>t' \<in> set (t # woken). \<forall>u \<in> set ?W - set (t # woken). real_priority (thr k u) \<le> real_priority (thr k t')"
      using IH(7) t(2) by (auto simp: rp)
    have thr': "thr k' = (\<lambda>u. if u \<in> set (t # woken) then (thr k u)\<lparr>state := TS_ready, wait_obj := None\<rparr> else thr k u)"
      using IH(11) th tw by (auto simp: fun_eq_iff)
    have rest: "set (sema_waits (sema k' s)) = set ?W - set (t # woken)" using IH(5) by auto
    show ?thesis
      using IH(1,2,4,8,9,10) k1 t(1) tw len sorted best thr' rest c1 unfolding queues
      by (intro exI [of _ "t # woken"] exI [of _ k']) auto
  qed
qed

lemma sema_wait_spec:
  assumes rep: "sched_rep k R" and ok: "sema_ok s k R" and crr: "crr_thread k = Some t" "t \<in> set (R p)"
    and st: "state (thr k t) = TS_run" "wait_obj (thr k t) = None"
    and c: "- (2 ^ 31) < avail_count (sema k s)" "avail_count (sema k s) \<le> 0"
  shows "\<exists>k'. sema_wait s k = Some k' \<and> sched_rep k' (R(p := remove1 t (R p)))
    \<and> sema_ok s k' (R(p := remove1 t (R p))) \<and> set (sema_waits (sema k' s)) = insert t (set (sema_waits (sema k s)))
    \<and> avail_count (sema k' s) = avail_count (sema k s) - 1 \<and> resched_pending k'
    \<and> thr k' = (thr k)(t := (thr k t)\<lparr>state := TS_wait_fast_sema, wait_obj := Some (Wait_sema s)\<rparr>)"
proof -
  let ?W = "sema_waits (sema k s)" and ?c = "avail_count (sema k s) - 1"
  define R' where "R' = R(p := remove1 t (R p))"
  note okd = sema_okD [OF ok]
  define k1 where "k1 = upd_sema s (\<lambda>x. x\<lparr>avail_count := ?c\<rparr>) k"
  define k2 where "k2 = upd_sema s (\<lambda>x. x\<lparr>sema_waits := cp_push (pri_key k1) t (sema_waits x)\<rparr>) k1"
  have thr2: "thr k2 = thr k" by (simp add: k1_def k2_def)
  have rep2: "sched_rep k2 R" using rep by (simp add: k1_def k2_def)
  obtain k3 where k3: "sched_wait t k2 = Some (True, k3)" "sched_rep k3 R'" "sched_frame (prepare_reschedule k2) k3"
    using sched_wait_spec(2) [OF rep2 crr(2)] st by (auto simp: thr2 R'_def)
  let ?k = "set_wait_obj t (Some (Wait_sema s)) (set_state t TS_wait_fast_sema k3)"
  have run: "sema_wait s k = Some ?k"
    using c crr(1) st k3(1) by (simp add: sema_wait_def k2_def k1_def Let_def)
  have thr3: "thr ?k = (thr k)(t := (thr k t)\<lparr>state := TS_wait_fast_sema, wait_obj := Some (Wait_sema s)\<rparr>)"
    using sched_frameD(1) [OF k3(3)] thr2 by simp
  have sema3: "sema ?k s = \<lparr>avail_count = ?c, sema_waits = cp_push (pri_key k) t ?W\<rparr>"
    using sched_frameD(3) [OF k3(3)] by (simp add: k2_def k1_def)
  have key3: "pri_key ?k = pri_key k"
    using sched_frameD(13) [OF k3(3)] by (simp add: k2_def k1_def)
  have notin: "t \<notin> set ?W" using okd(5) st(1) by fastforce
  have "length (cp_push (pri_key k) t ?W) = Suc (length ?W)"
    by (metis cpq.push_elems size_add_mset size_mset)
  then have len: "int (length (cp_push (pri_key k) t ?W)) = max 0 (- ?c)" using okd(3) c(2) by simp
  have rd: "in_ready R' u \<longleftrightarrow> in_ready R u \<and> u \<noteq> t" for u
    unfolding R'_def by (rule in_ready_remove1 [OF rep crr(2)])
  have p64: "real_priority (thr k t) < 64" using sched_repD(4,5) [OF rep crr(2)] by simp
  have "sema_ok s ?k R'"
    unfolding sema_ok_def Let_def sema3 key3 thr3
    using len notin okd(1,2,4-7) rd p64 by (auto simp: cpq.push_ordered)
  then show ?thesis
    unfolding R'_def [symmetric] using run k3(2) thr3 sema3 sched_frameD(16) [OF k3(3)]
    by (intro exI [of _ ?k]) simp
qed

section \<open>Properties\<close>

text \<open>C5. Signalling a semaphore \<open>n\<close> times wakes exactly the \<open>n\<close> waiting threads of highest priority, or
  all of them if fewer wait, in order of priority: each of them leaves the wait queue, loses its wait
  object, becomes ready and is queued behind the threads of its priority. No other thread changes, the
  count grows by \<open>n\<close>, and the invariants of the semaphore and the ready queues are kept.\<close>

theorem sema_signal_wakes_highest:
  assumes "sched_rep k R" and "sema_ok s k R" and "avail_count (sema k s) + int n < 2 ^ 31" and "n < 2 ^ 31"
  shows "\<exists>woken k'. sema_signal s (int n) k = Some k' \<and> distinct woken
    \<and> length woken = min n (length (sema_waits (sema k s)))
    \<and> set woken \<subseteq> set (sema_waits (sema k s))
    \<and> set (sema_waits (sema k' s)) = set (sema_waits (sema k s)) - set woken
    \<and> sorted_wrt (\<lambda>t u. real_priority (thr k u) \<le> real_priority (thr k t)) woken
    \<and> (\<forall>t \<in> set woken. \<forall>u \<in> set (sema_waits (sema k s)) - set woken. real_priority (thr k u) \<le> real_priority (thr k t))
    \<and> sched_rep k' (\<lambda>p. R p @ filter (\<lambda>t. real_priority (thr k t) = p) woken)
    \<and> sema_ok s k' (\<lambda>p. R p @ filter (\<lambda>t. real_priority (thr k t) = p) woken)
    \<and> avail_count (sema k' s) = avail_count (sema k s) + int n
    \<and> thr k' = (\<lambda>t. if t \<in> set woken then (thr k t)\<lparr>state := TS_ready, wait_obj := None\<rparr> else thr k t)"
proof -
  have "nat (int n mod 2 ^ 64) = n" using assms(4) by simp
  then show ?thesis
    using signal_loop_wakes [OF assms(1-3)] by (simp add: sema_signal_def)
qed

text \<open>Waiting on a semaphore whose count is not positive blocks the running thread: it leaves the
  ready queue for the wait queue, a reschedule is requested, and the invariants are kept; when the
  count is positive it only goes down by one.\<close>

theorem sema_wait_blocks:
  assumes "sched_rep k R" and "sema_ok s k R" and "crr_thread k = Some t" and "t \<in> set (R p)"
    and "state (thr k t) = TS_run" and "wait_obj (thr k t) = None" and "- (2 ^ 31) < avail_count (sema k s)"
  shows "if 0 < avail_count (sema k s)
    then sema_wait s k = Some (upd_sema s (\<lambda>x. x\<lparr>avail_count := avail_count (sema k s) - 1\<rparr>) k)
    else \<exists>k'. sema_wait s k = Some k' \<and> sched_rep k' (R(p := remove1 t (R p)))
      \<and> sema_ok s k' (R(p := remove1 t (R p))) \<and> set (sema_waits (sema k' s)) = insert t (set (sema_waits (sema k s)))
      \<and> avail_count (sema k' s) = avail_count (sema k s) - 1 \<and> resched_pending k'
      \<and> thr k' = (thr k)(t := (thr k t)\<lparr>state := TS_wait_fast_sema, wait_obj := Some (Wait_sema s)\<rparr>)"
proof (cases "0 < avail_count (sema k s)")
  case True
  then show ?thesis by (simp add: sema_wait_def Let_def)
next
  case False
  then show ?thesis using sema_wait_spec [OF assms(1-7)] by simp
qed

text \<open>A thread that is suspended while it waits on a semaphore with no other suspended thread
  can never be taken back: unsuspending it reports failure and changes nothing, because \<open>alone()\<close>
  takes the only element of the suspended list for one that is not in it.\<close>

theorem sole_suspended_waiter_is_stuck:
  assumes "roundabout_list (Sema_ring s) [] (suspend_links k)" and "state (thr k t) = TS_wait_fast_sema"
    and "t \<in> set (sema_waits (sema k s))"
  shows "\<exists>k'. suspend_waiting_thread s t k = Some (True, k') \<and> state (thr k' t) = TS_wait_fast_sema_suspend
    \<and> unsuspend_waiting_thread s t k' = (False, k')"
proof -
  obtain h where h: "roundabout_push (Sema_ring s) (Link t) (suspend_links k) = Some h"
      "roundabout_list (Sema_ring s) [Link t] h"
    using roundabout_push_list [OF assms(1), of "Link t"] by auto
  have "alone (Link t) h" using alone_queued_iff [OF h(2), of "Link t"] by simp
  then show ?thesis
    using assms(2,3) h(1) by (simp add: suspend_waiting_thread_def unsuspend_waiting_thread_def Let_def)
qed

section \<open>Concrete executions\<close>

definition running_kern :: kern where
  "running_kern = set_state 2 TS_run (two_queued\<lparr>crr_thread := Some 2\<rparr>)"

lemma running_kern_rep: "sched_rep running_kern two_lists"
  unfolding running_kern_def
  by (subst sched_rep_upd, subst sched_rep_same [of _ two_queued]) (simp_all add: two_queued_rep)

lemma running_kern_simps [simp]:
  "thr running_kern = three_threads(2 := (three_threads 2)\<lparr>state := TS_run\<rparr>)"
  "crr_thread running_kern = Some 2" "sema running_kern = sema (fresh_kern three_threads)"
  "mtx running_kern = mtx (fresh_kern three_threads)"
  using sched_frameD [OF two_queued_rep(2)] by (simp_all add: running_kern_def)

lemma running_kern_sema: "sema_ok s running_kern two_lists"
  by (simp add: sema_ok_def is_heap_def)

lemma running_kern_wait:
  "\<exists>k'. sema_wait 9 running_kern = Some k' \<and> sched_rep k' (two_lists(7 := remove1 2 (two_lists 7)))
    \<and> sema_ok 9 k' (two_lists(7 := remove1 2 (two_lists 7)))
    \<and> set (sema_waits (sema k' 9)) = {2} \<and> avail_count (sema k' 9) = -1"
proof -
  have p: "crr_thread running_kern = Some 2" "2 \<in> set (two_lists 7)" "state (thr running_kern 2) = TS_run"
    "wait_obj (thr running_kern 2) = None" "- (2 ^ 31) < avail_count (sema running_kern 9)"
    "avail_count (sema running_kern 9) \<le> 0" by (simp_all add: three_threads_def)
  have "insert 2 (set (sema_waits (sema running_kern 9))) = {2}" "avail_count (sema running_kern 9) - 1 = -1" by simp_all
  with sema_wait_spec [OF running_kern_rep running_kern_sema p] show ?thesis by metis
qed

theorem sema_wait_blocks_witness:
  "if 0 < avail_count (sema running_kern 9) then False
    else \<exists>k'. sema_wait 9 running_kern = Some k' \<and> avail_count (sema k' 9) = -1 \<and> resched_pending k'"
proof -
  have p: "crr_thread running_kern = Some 2" "2 \<in> set (two_lists 7)" "state (thr running_kern 2) = TS_run"
    "wait_obj (thr running_kern 2) = None" "- (2 ^ 31) < avail_count (sema running_kern 9)"
    by (simp_all add: three_threads_def)
  have "avail_count (sema running_kern 9) = 0" by simp
  with sema_wait_blocks [OF running_kern_rep running_kern_sema p] show ?thesis by auto
qed

theorem sema_signal_wakes_highest_witness:
  "\<exists>k k'. sema_wait 9 running_kern = Some k \<and> sema_signal 9 (int 1) k = Some k'
    \<and> state (thr k' 2) = TS_ready \<and> avail_count (sema k' 9) = 0"
proof -
  obtain k where k: "sema_wait 9 running_kern = Some k" "sched_rep k (two_lists(7 := remove1 2 (two_lists 7)))"
    "sema_ok 9 k (two_lists(7 := remove1 2 (two_lists 7)))" "set (sema_waits (sema k 9)) = {2}"
    "avail_count (sema k 9) = -1"
    using running_kern_wait by blast
  have "length (sema_waits (sema k 9)) = 1" using sema_okD(3) [OF k(3)] k(5) by simp
  with sema_signal_wakes_highest [OF k(2,3), of 1] k(4,5) obtain woken k' where
    "sema_signal 9 (int 1) k = Some k'" "length woken = 1" "set woken \<subseteq> {2}" "avail_count (sema k' 9) = 0"
    "thr k' = (\<lambda>t. if t \<in> set woken then (thr k t)\<lparr>state := TS_ready, wait_obj := None\<rparr> else thr k t)"
    by auto
  moreover from this have "2 \<in> set woken" by (cases woken) auto
  ultimately show ?thesis using k(1) by (intro exI [of _ k] exI [of _ k']) simp
qed

theorem sole_suspended_waiter_is_stuck_witness:
  "\<exists>k. sema_wait 9 running_kern = Some k
    \<and> (\<exists>k'. suspend_waiting_thread 9 2 k = Some (True, k') \<and> state (thr k' 2) = TS_wait_fast_sema_suspend
      \<and> unsuspend_waiting_thread 9 2 k' = (False, k'))"
proof -
  obtain k where k: "sema_wait 9 running_kern = Some k"
    "sema_ok 9 k (two_lists(7 := remove1 2 (two_lists 7)))" "set (sema_waits (sema k 9)) = {2}"
    using running_kern_wait by blast
  have "suspend_links k = suspend_links (fresh_kern three_threads)"
    using k(1) sched_frameD(6) [OF two_queued_rep(2)]
    by (auto simp: sema_wait_def sched_wait_def Let_def running_kern_def dequeue_thread_from_ready_def
        set_links_def set_ready_def clear_mask_bit_def split: if_splits bind_splits)
  then have "roundabout_list (Sema_ring 9) [] (suspend_links k)"
    by (simp add: roundabout_list_def fresh_kern_def)
  with sole_suspended_waiter_is_stuck [of 9 k 2] k sema_okD(5) [OF k(2), of 2] show ?thesis by auto
qed

end
