(* ===== verification/Mutex.thy ===== *)
theory Mutex imports Semaphore begin

text \<open>
  The recursive mutex of \<open>kernel/mutex.cpp\<close>. Threads that wait for it are in a wait queue by priority
  or, one step closer to holding it, in the roundabout \<open>pendings\<close> (sentinel \<open>Mutex_ring m\<close> in
  \<^const>\<open>pending_links\<close>); a suspended one is in the roundabout \<open>suspended\<close>. The address of a thread that
  is passed to the timer as user data is its id.
\<close>

section \<open>Waiting\<close>

text \<open>Claiming a mutex that nobody holds, the common first step of \<open>wait\<close> and \<open>try_wait\<close>.\<close>

definition claim :: "mid \<Rightarrow> kern \<Rightarrow> kern undef" where
  "claim m k = (case holding (mtx k m) of
     None \<Rightarrow> do {
       t \<leftarrow> crr_thread k;
       let k = upd_mtx m (\<lambda>x. x\<lparr>holding := Some t\<rparr>) k;
       Some (if state (thr k t) = TS_hold_mutex_pending then
               let k = set_wait_obj t None (set_state t TS_ready k)
               in k\<lparr>pending_links := deque (Link t) (pending_links k)\<rparr>
             else k)
     }
   | Some _ \<Rightarrow> Some k)"

text \<open>The lock count is a 32-bit integer whose overflow is undefined.\<close>

definition count_lock :: "mid \<Rightarrow> kern \<Rightarrow> kern undef" where
  "count_lock m k = do {
     guard (lock_count (mtx k m) < 2 ^ 31 - 1);
     Some (upd_mtx m (\<lambda>x. x\<lparr>lock_count := lock_count x + 1\<rparr>) k)
   }"

definition mutex_wait :: "mid \<Rightarrow> kern \<Rightarrow> kern undef" where
  "mutex_wait m k = do {
     k \<leftarrow> claim m k;
     holder \<leftarrow> holding (mtx k m);
     if Some holder = crr_thread k then count_lock m k
     else do {
       guard (wait_obj (thr k holder) = None);
       calm_down \<leftarrow> crr_thread k;
       let k = upd_mtx m (\<lambda>x. x\<lparr>mutex_waits := cp_push (pri_key k) calm_down (mutex_waits x)\<rparr>) k;
       (_, k) \<leftarrow> sched_wait calm_down k;
       let k = set_state calm_down TS_wait_mutex k;
       Some (set_wait_obj calm_down (Some (Wait_mutex m)) k)
     }
   }"

definition mutex_try_wait :: "mid \<Rightarrow> kern \<Rightarrow> kern undef" where
  "mutex_try_wait m k = do {
     k \<leftarrow> claim m k;
     if holding (mtx k m) = crr_thread k then count_lock m k else Some k
   }"

text \<open>The microseconds are a signed 32-bit number, extended to 64 bits.\<close>

definition mutex_wait_for :: "mid \<Rightarrow> int \<Rightarrow> kern \<Rightarrow> kern undef" where
  "mutex_wait_for m usecs k = do {
     k \<leftarrow> mutex_wait m k;
     let data = (case crr_thread k of Some t \<Rightarrow> t | None \<Rightarrow> 0);
     Some (k\<lparr>timing := fst (schedule_event (word_of_int usecs) (mutex_event_type (mtx k m)) data (timing k))\<rparr>)
   }"

section \<open>Signalling\<close>

definition put_top_wait_to_pending :: "mid \<Rightarrow> kern \<Rightarrow> kern undef" where
  "put_top_wait_to_pending m k = do {
     top_wait \<leftarrow> cp_top (mutex_waits (mtx k m));
     ws \<leftarrow> cp_pop (pri_key k) (mutex_waits (mtx k m));
     let k = upd_mtx m (\<lambda>x. x\<lparr>mutex_waits := ws\<rparr>) k;
     h \<leftarrow> roundabout_push (Mutex_ring m) (Link top_wait) (pending_links k);
     let k = k\<lparr>pending_links := h\<rparr>;
     guard (wait_obj (thr k top_wait) = Some (Wait_mutex m));
     let k = k\<lparr>timing := snd (unschedule_event (mutex_event_type (mtx k m)) top_wait (timing k))\<rparr>;
     Some (set_state top_wait TS_hold_mutex_pending k)
   }"

definition make_holder :: "mid \<Rightarrow> tid \<Rightarrow> kern \<Rightarrow> kern undef" where
  "make_holder m t k = do {
     (_, k) \<leftarrow> sched_resume t k;
     let k = set_wait_obj t None (set_state t TS_ready k);
     Some (upd_mtx m (\<lambda>x. x\<lparr>holding := Some t\<rparr>) k)
   }"

fun link_thread :: "link_addr \<Rightarrow> tid undef" where
  "link_thread (Link t) = Some t"
| "link_thread _ = None"

definition mutex_signal :: "mid \<Rightarrow> tid \<Rightarrow> kern \<Rightarrow> (bool \<times> kern) undef" where
  "mutex_signal m callee k = (case holding (mtx k m) of
     None \<Rightarrow> Some (False, k)
   | Some h \<Rightarrow>
     if h \<noteq> callee then Some (False, k)
     else let k = upd_mtx m (\<lambda>x. x\<lparr>lock_count := lock_count x - 1\<rparr>) k in
     if lock_count (mtx k m) \<le> 0 then
       if \<not> roundabout_empty (Mutex_ring m) (pending_links k) then do {
         elem \<leftarrow> roundabout_first (Mutex_ring m) (pending_links k);
         let k = k\<lparr>pending_links := deque elem (pending_links k)\<rparr>;
         t \<leftarrow> link_thread elem;
         k \<leftarrow> make_holder m t k;
         k \<leftarrow> (if roundabout_empty (Mutex_ring m) (pending_links k) then put_top_wait_to_pending m k else Some k);
         Some (True, k)
       }
       else if cp_empty (mutex_waits (mtx k m)) then
         Some (True, upd_mtx m (\<lambda>x. x\<lparr>holding := None\<rparr>) k)
       else do {
         ready_thread \<leftarrow> cp_top (mutex_waits (mtx k m));
         ws \<leftarrow> cp_pop (pri_key k) (mutex_waits (mtx k m));
         let k = upd_mtx m (\<lambda>x. x\<lparr>mutex_waits := ws\<rparr>) k;
         k \<leftarrow> make_holder m ready_thread k;
         k \<leftarrow> (if \<not> cp_empty (mutex_waits (mtx k m)) then put_top_wait_to_pending m k else Some k);
         Some (True, k)
       }
     else Some (True, k))"

section \<open>Priorities and suspension\<close>

definition wake_next_thread :: "mid \<Rightarrow> kern \<Rightarrow> kern undef" where
  "wake_next_thread m k = do {
     t \<leftarrow> cp_top (mutex_waits (mtx k m));
     ws \<leftarrow> cp_pop (pri_key k) (mutex_waits (mtx k m));
     let k = upd_mtx m (\<lambda>x. x\<lparr>mutex_waits := ws\<rparr>) k;
     h \<leftarrow> roundabout_push (Mutex_ring m) (Link t) (pending_links k);
     let k = k\<lparr>pending_links := h\<rparr>;
     (_, k) \<leftarrow> sched_resume t k;
     Some (set_state t TS_hold_mutex_pending k)
   }"

definition mutex_priority_change :: "mid \<Rightarrow> tid \<Rightarrow> kern \<Rightarrow> kern undef" where
  "mutex_priority_change m t k = (case state (thr k t) of
     TS_hold_mutex_pending \<Rightarrow>
       if alone (Link t) (pending_links k) then Some k
       else do {
         best \<leftarrow> cp_top (mutex_waits (mtx k m));
         if real_priority (thr k t) < real_priority (thr k best) then do {
           let k = k\<lparr>pending_links := deque (Link t) (pending_links k)\<rparr>;
           let k = upd_mtx m (\<lambda>x. x\<lparr>mutex_waits := cp_resort (pri_key k) (cp_push (pri_key k) t (mutex_waits x))\<rparr>) k;
           (_, k) \<leftarrow> sched_wait t k;
           Some (set_state t TS_wait_mutex k)
         } else Some k
       }
   | TS_wait_mutex \<Rightarrow>
       let k = upd_mtx m (\<lambda>x. x\<lparr>mutex_waits := cp_resort (pri_key k) (mutex_waits x)\<rparr>) k
       in if last_priority (thr k t) < real_priority (thr k t) \<and> t \<in> set (mutex_waits (mtx k m)) then do {
            let k = upd_mtx m (\<lambda>x. x\<lparr>mutex_waits := snd (cp_remove (pri_key k) t (mutex_waits x))\<rparr>) k;
            h \<leftarrow> roundabout_push (Mutex_ring m) (Link t) (pending_links k);
            let k = k\<lparr>pending_links := h\<rparr>;
            (_, k) \<leftarrow> sched_resume t k;
            Some (set_state t TS_hold_mutex_pending k)
          } else Some k
   | _ \<Rightarrow> Some k)"

definition mutex_suspend_thread :: "mid \<Rightarrow> tid \<Rightarrow> kern \<Rightarrow> (bool \<times> kern) undef" where
  "mutex_suspend_thread m t k = (case state (thr k t) of
     TS_wait_mutex \<Rightarrow>
       if t \<notin> set (mutex_waits (mtx k m)) then Some (False, k)
       else do {
         let k = upd_mtx m (\<lambda>x. x\<lparr>mutex_waits := snd (cp_remove (pri_key k) t (mutex_waits x))\<rparr>) k;
         h \<leftarrow> roundabout_push (Mutex_ring m) (Link t) (suspend_links k);
         let k = k\<lparr>suspend_links := h\<rparr>;
         Some (True, set_state t TS_wait_mutex_suspend k)
       }
   | TS_hold_mutex_pending \<Rightarrow> do { k \<leftarrow> wake_next_thread m k; Some (False, k) }
   | _ \<Rightarrow> Some (False, k))"

definition mutex_unsuspend_thread :: "mid \<Rightarrow> tid \<Rightarrow> kern \<Rightarrow> bool \<times> kern" where
  "mutex_unsuspend_thread m t k =
     (if state (thr k t) \<noteq> TS_wait_mutex_suspend then (False, k)
      else if alone (Link t) (suspend_links k) then (False, k)
      else let k = k\<lparr>suspend_links := deque (Link t) (suspend_links k)\<rparr>;
               k = upd_mtx m (\<lambda>x. x\<lparr>mutex_waits := cp_push (pri_key k) t (mutex_waits x)\<rparr>) k
           in (True, set_state t TS_wait_mutex k))"

text \<open>\<open>thread::suspend\<close> and \<open>thread::resume\<close>, which end in the wait object. The state is overwritten
  before the wait object looks at it.\<close>

definition thread_suspend :: "tid \<Rightarrow> kern \<Rightarrow> (bool \<times> kern) undef" where
  "thread_suspend t k = do {
     (res, k) \<leftarrow> sched_wait t k;
     if \<not> res then Some (False, k)
     else let k = set_state t TS_wait k in
       case wait_obj (thr k t) of
         Some (Wait_mutex m) \<Rightarrow> mutex_suspend_thread m t k
       | Some (Wait_sema s) \<Rightarrow> suspend_waiting_thread s t k
       | None \<Rightarrow> Some (False, k)
   }"

definition thread_resume :: "tid \<Rightarrow> kern \<Rightarrow> (bool \<times> kern) undef" where
  "thread_resume t k = do {
     (res, k) \<leftarrow> sched_resume t k;
     if \<not> res then Some (False, k)
     else let k = set_state t TS_ready k in
       Some (case wait_obj (thr k t) of
         Some (Wait_mutex m) \<Rightarrow> mutex_unsuspend_thread m t k
       | Some (Wait_sema s) \<Rightarrow> unsuspend_waiting_thread s t k
       | None \<Rightarrow> (False, k))
   }"

text \<open>The timer callback of \<open>wait_for\<close>; the user data is taken to be the address of a thread.\<close>

definition waking_up_from_suspension :: "mid \<Rightarrow> tid \<Rightarrow> kern \<Rightarrow> kern undef" where
  "waking_up_from_suspension m t k = (case state (thr k t) of
     TS_hold_mutex_pending \<Rightarrow>
       if alone (Link t) (pending_links k) then Some k
       else map_option snd (thread_resume t (k\<lparr>pending_links := deque (Link t) (pending_links k)\<rparr>))
   | TS_wait_mutex \<Rightarrow>
       if t \<notin> set (mutex_waits (mtx k m)) then Some k
       else map_option snd (thread_resume t
         (upd_mtx m (\<lambda>x. x\<lparr>mutex_waits := snd (cp_remove (pri_key k) t (mutex_waits x))\<rparr>) k))
   | _ \<Rightarrow> Some k)"

text \<open>\<open>destroy\<close> empties both lists; each loop is bounded by the length of its list.\<close>

fun destroy_pendings :: "nat \<Rightarrow> mid \<Rightarrow> kern \<Rightarrow> kern undef" where
  "destroy_pendings 0 m k = None"
| "destroy_pendings (Suc n) m k =
     (if roundabout_empty (Mutex_ring m) (pending_links k) then Some k
      else do {
        elem \<leftarrow> roundabout_first (Mutex_ring m) (pending_links k);
        let k = k\<lparr>pending_links := deque elem (pending_links k)\<rparr>;
        t \<leftarrow> link_thread elem;
        destroy_pendings n m (set_wait_obj t None (set_state t TS_ready k))
      })"

fun destroy_suspended :: "nat \<Rightarrow> mid \<Rightarrow> kern \<Rightarrow> kern undef" where
  "destroy_suspended 0 m k = None"
| "destroy_suspended (Suc n) m k =
     (if roundabout_empty (Mutex_ring m) (suspend_links k) then Some k
      else do {
        elem \<leftarrow> roundabout_first (Mutex_ring m) (suspend_links k);
        let k = k\<lparr>suspend_links := deque elem (suspend_links k)\<rparr>;
        t \<leftarrow> link_thread elem;
        (_, k) \<leftarrow> sched_resume t (set_wait_obj t None k);
        destroy_suspended n m k
      })"

definition mutex_destroy :: "nat \<Rightarrow> mid \<Rightarrow> kern \<Rightarrow> kern undef" where
  "mutex_destroy fuel m k = do { k \<leftarrow> destroy_pendings fuel m k; destroy_suspended fuel m k }"

section \<open>Handing the mutex over\<close>

text \<open>The threads that wait for a mutex, and its pending list.\<close>

definition mutex_ok :: "mid \<Rightarrow> kern \<Rightarrow> (nat \<Rightarrow> tid list) \<Rightarrow> tid list \<Rightarrow> bool" where
  "mutex_ok m k R ps \<longleftrightarrow> (let w = mutex_waits (mtx k m) in
     distinct w \<and> is_heap (pri_key k) w \<and> roundabout_list (Mutex_ring m) (map Link ps) (pending_links k) \<and>
     set ps \<inter> set w = {} \<and>
     (\<forall>t \<in> set w. wait_obj (thr k t) = Some (Wait_mutex m) \<and> state (thr k t) = TS_wait_mutex) \<and>
     (\<forall>t \<in> set ps. wait_obj (thr k t) = Some (Wait_mutex m) \<and> state (thr k t) = TS_hold_mutex_pending) \<and>
     (\<forall>t \<in> set w \<union> set ps. real_priority (thr k t) < 64 \<and> \<not> in_ready R t))"

lemma mutex_okD:
  assumes "mutex_ok m k R ps"
  shows "distinct (mutex_waits (mtx k m))" "is_heap (pri_key k) (mutex_waits (mtx k m))"
    "roundabout_list (Mutex_ring m) (map Link ps) (pending_links k)"
    "t \<in> set ps \<Longrightarrow> t \<notin> set (mutex_waits (mtx k m))"
    "t \<in> set (mutex_waits (mtx k m)) \<Longrightarrow> wait_obj (thr k t) = Some (Wait_mutex m) \<and> state (thr k t) = TS_wait_mutex"
    "t \<in> set ps \<Longrightarrow> wait_obj (thr k t) = Some (Wait_mutex m) \<and> state (thr k t) = TS_hold_mutex_pending"
    "t \<in> set (mutex_waits (mtx k m)) \<union> set ps \<Longrightarrow> real_priority (thr k t) < 64 \<and> \<not> in_ready R t"
    "distinct ps"
proof -
  show "distinct ps"
    using assms by (auto simp: mutex_ok_def Let_def roundabout_list_def distinct_map)
qed (use assms in \<open>auto simp: mutex_ok_def Let_def\<close>)

lemma pri_key_links [simp]:
  "pri_key (k\<lparr>pending_links := h\<rparr>) = pri_key k" "pri_key (k\<lparr>suspend_links := h\<rparr>) = pri_key k"
  "pri_key (k\<lparr>timing := tm\<rparr>) = pri_key k"
  by (simp_all add: pri_key_def fun_eq_iff)

lemma link_inj_map [simp]: "inj_on Link A"
  by (simp add: inj_on_def)

lemma put_top_spec:
  assumes ok: "mutex_ok m k R ps" and ne: "mutex_waits (mtx k m) \<noteq> []"
  defines "W \<equiv> mutex_waits (mtx k m)"
  obtains k' q where "put_top_wait_to_pending m k = Some k'" "q \<in> set W"
    "\<forall>u \<in> set W. real_priority (thr k u) \<le> real_priority (thr k q)"
    "mutex_ok m k' R (ps @ [q])" "set (mutex_waits (mtx k' m)) = set W - {q}"
    "thr k' = (thr k)(q := (thr k q)\<lparr>state := TS_hold_mutex_pending\<rparr>)"
    "holding (mtx k' m) = holding (mtx k m)" "lock_count (mtx k' m) = lock_count (mtx k m)"
    "\<And>R. sched_rep k' R = sched_rep k R"
proof -
  note okd = mutex_okD [OF ok, folded W_def]
  obtain q ws where top: "cp_top W = Some q" "cp_pop (pri_key k) W = Some ws" "q \<in># mset W"
    "\<forall>u. u \<in># mset W \<longrightarrow> pri_key k u \<le> pri_key k q" "mset ws = mset W - {#q#}" "is_heap (pri_key k) ws"
    using cp_top_pop [OF okd(2)] ne by (auto simp: W_def)
  note ws = cp_pop_set [OF okd(1) top(1,2)]
  have q: "q \<in> set W" using top(3) by simp
  have qps: "Link q \<notin> set (map Link ps)" using okd(4) q by auto
  obtain h where h: "roundabout_push (Mutex_ring m) (Link q) (pending_links k) = Some h"
      "roundabout_list (Mutex_ring m) (map Link ps @ [Link q]) h"
    using roundabout_push_list [OF okd(3) qps] by auto
  let ?tm = "snd (unschedule_event (mutex_event_type (mtx k m)) q (timing k))"
  let ?k = "set_state q TS_hold_mutex_pending
    ((upd_mtx m (\<lambda>x. x\<lparr>mutex_waits := ws\<rparr>) k)\<lparr>pending_links := h, timing := ?tm\<rparr>)"
  have run: "put_top_wait_to_pending m k = Some ?k"
    using top(1,2) h(1) okd(5) [OF q] by (simp add: put_top_wait_to_pending_def W_def Let_def)
  have thr': "thr ?k = (thr k)(q := (thr k q)\<lparr>state := TS_hold_mutex_pending\<rparr>)" by simp
  have w': "mutex_waits (mtx ?k m) = ws" by simp
  have key: "pri_key ?k = pri_key k" by (rule pri_key_cong) simp
  have "mutex_ok m ?k R (ps @ [q])"
    unfolding mutex_ok_def Let_def w' key
    using ws top(6) h(2) okd(4-7) q by (auto simp: thr')
  moreover have "sched_rep ?k R = sched_rep k R" for R by (subst sched_rep_same) auto
  moreover have "\<forall>u \<in> set W. real_priority (thr k u) \<le> real_priority (thr k q)"
    using top(4) by (simp add: pri_key_def)
  ultimately show thesis using that [OF run q] ws(1) by simp
qed

lemma make_holder_spec:
  assumes rep: "sched_rep k R" and t: "real_priority (thr k t) < 64" "\<not> in_ready R t"
    "state (thr k t) \<notin> {TS_ready, TS_run, TS_stop}"
  defines "p \<equiv> real_priority (thr k t)"
  obtains k' where "make_holder m t k = Some k'" "sched_rep k' (R(p := R p @ [t]))"
    "thr k' = (thr k)(t := (thr k t)\<lparr>state := TS_ready, wait_obj := None\<rparr>)"
    "mtx k' = (mtx k)(m := (mtx k m)\<lparr>holding := Some t\<rparr>)" "pending_links k' = pending_links k"
    "pri_key k' = pri_key k"
proof -
  obtain k1 where k1: "sched_resume t k = Some (True, k1)" "sched_rep k1 (R(p := R p @ [t]))"
    "sched_frame (prepare_reschedule (set_state t TS_ready k)) k1"
    using sched_resume_spec(2) [OF rep t(1,2,3)] unfolding p_def by blast
  let ?k = "upd_mtx m (\<lambda>x. x\<lparr>holding := Some t\<rparr>) (set_wait_obj t None (set_state t TS_ready k1))"
  have "make_holder m t k = Some ?k" using k1(1) by (simp add: make_holder_def)
  then show thesis
    by (rule that) (use k1(2) sched_frameD [OF k1(3)] in auto)
qed

text \<open>The last unlock with waiting threads and nobody pending.\<close>

lemma signal_handover:
  assumes rep: "sched_rep k R" and ok: "mutex_ok m k R []" and h: "holding (mtx k m) = Some h"
    and c: "lock_count (mtx k m) \<le> 1" and ne: "mutex_waits (mtx k m) \<noteq> []"
  defines "W \<equiv> mutex_waits (mtx k m)"
  obtains k' t where "t \<in> set W" "\<forall>u \<in> set W. real_priority (thr k u) \<le> real_priority (thr k t)"
    "mutex_signal m h k = Some (True, k')" "holding (mtx k' m) = Some t" "lock_count (mtx k' m) = lock_count (mtx k m) - 1"
    "sched_rep k' (R(real_priority (thr k t) := R (real_priority (thr k t)) @ [t]))"
    "state (thr k' t) = TS_ready" "wait_obj (thr k' t) = None"
    "\<exists>ps. mutex_ok m k' (R(real_priority (thr k t) := R (real_priority (thr k t)) @ [t])) ps
      \<and> set ps \<union> set (mutex_waits (mtx k' m)) = set W - {t} \<and> length ps = (if W = [t] then 0 else 1)
      \<and> (\<forall>q \<in> set ps. \<forall>u \<in> set W - {t}. real_priority (thr k u) \<le> real_priority (thr k q))"
proof -
  note okd = mutex_okD [OF ok, folded W_def]
  obtain t ws where top: "cp_top W = Some t" "cp_pop (pri_key k) W = Some ws" "t \<in># mset W"
    "\<forall>u. u \<in># mset W \<longrightarrow> pri_key k u \<le> pri_key k t" "mset ws = mset W - {#t#}" "is_heap (pri_key k) ws"
    using cp_top_pop [OF okd(2)] ne by (auto simp: W_def)
  note ws = cp_pop_set [OF okd(1) top(1,2)]
  have t: "t \<in> set W" using top(3) by simp
  define p where "p = real_priority (thr k t)"
  define R' where "R' = R(p := R p @ [t])"
  define k1 where "k1 = upd_mtx m (\<lambda>x. x\<lparr>lock_count := lock_count x - 1\<rparr>) k"
  define k2 where "k2 = upd_mtx m (\<lambda>x. x\<lparr>mutex_waits := ws\<rparr>) k1"
  have thr2: "thr k2 = thr k" by (simp add: k1_def k2_def)
  have rep2: "sched_rep k2 R" using rep by (simp add: k1_def k2_def)
  have tst: "real_priority (thr k2 t) < 64" "\<not> in_ready R t" "state (thr k2 t) \<notin> {TS_ready, TS_run, TS_stop}"
    using okd(5,7) [of t] t by (auto simp: thr2)
  obtain k3 where k3: "make_holder m t k2 = Some k3" "sched_rep k3 R'"
    "thr k3 = (thr k)(t := (thr k t)\<lparr>state := TS_ready, wait_obj := None\<rparr>)"
    "mtx k3 = (mtx k2)(m := (mtx k2 m)\<lparr>holding := Some t\<rparr>)" "pending_links k3 = pending_links k2"
    "pri_key k3 = pri_key k2"
    using make_holder_spec [OF rep2 tst, of m] unfolding thr2 p_def [symmetric] R'_def by blast
  have m3: "mtx k3 m = \<lparr>lock_count = lock_count (mtx k m) - 1, holding = Some t, mutex_waits = ws,
      mutex_event_type = mutex_event_type (mtx k m)\<rparr>"
    by (simp add: k3(4) k2_def k1_def)
  have key3: "pri_key k3 = pri_key k" by (simp add: k3(6) k2_def k1_def)
  have pl3: "pending_links k3 = pending_links k" by (simp add: k3(5) k2_def k1_def)
  have ok3: "mutex_ok m k3 R' []"
    unfolding mutex_ok_def Let_def m3 key3 pl3
    using ws top(6) okd(3,5,7) by (auto simp: k3(3) R'_def in_ready_append)
  have empty: "roundabout_empty (Mutex_ring m) (pending_links k)"
    using roundabout_empty_iff [OF okd(3)] by simp
  have max: "\<forall>u \<in> set W. real_priority (thr k u) \<le> real_priority (thr k t)"
    using top(4) by (simp add: pri_key_def)
  have step: "mutex_signal m h k = Option.bind (if ws \<noteq> [] then put_top_wait_to_pending m k3 else Some k3) (\<lambda>k. Some (True, k))"
    using h c empty ne top(1,2) k3(1) m3
    by (simp add: mutex_signal_def k2_def k1_def W_def Let_def cp_empty_def)
  have wt: "ws = [] \<longleftrightarrow> W = [t]"
  proof
    assume "ws = []"
    then have "set W \<subseteq> {t}" using ws(1) by auto
    then show "W = [t]" using t okd(1) by (cases W; cases "tl W") auto
  next
    assume "W = [t]"
    then have "set ws = {}" using ws(1) by simp
    then show "ws = []" by simp
  qed
  show thesis
  proof (cases "ws = []")
    case True
    show thesis
      by (rule that [OF t max, of k3])
        (use step True m3 k3(2,3) ok3 wt ws in \<open>auto simp: R'_def p_def intro!: exI [of _ "[]"]\<close>)
  next
    case False
    then have "mutex_waits (mtx k3 m) \<noteq> []" by (simp add: m3)
    from put_top_spec [OF ok3 this] obtain k4 q where k4: "put_top_wait_to_pending m k3 = Some k4"
      "q \<in> set ws" "\<forall>u \<in> set ws. real_priority (thr k3 u) \<le> real_priority (thr k3 q)"
      "mutex_ok m k4 R' ([] @ [q])" "set (mutex_waits (mtx k4 m)) = set ws - {q}"
      "thr k4 = (thr k3)(q := (thr k3 q)\<lparr>state := TS_hold_mutex_pending\<rparr>)"
      "holding (mtx k4 m) = Some t" "lock_count (mtx k4 m) = lock_count (mtx k m) - 1"
      "\<And>R. sched_rep k4 R = sched_rep k3 R"
      by (simp add: m3) blast
    have "t \<noteq> q" using ws(1) k4(2) by auto
    then have tr: "state (thr k4 t) = TS_ready" "wait_obj (thr k4 t) = None" by (simp_all add: k4(6) k3(3))
    have "\<exists>ps. mutex_ok m k4 R' ps \<and> set ps \<union> set (mutex_waits (mtx k4 m)) = set W - {t}
      \<and> length ps = (if W = [t] then 0 else 1)
      \<and> (\<forall>q \<in> set ps. \<forall>u \<in> set W - {t}. real_priority (thr k u) \<le> real_priority (thr k q))"
      using k4(2-5) wt False ws(1) by (intro exI [of _ "[q]"]) (auto simp: k3(3) split: if_splits)
    then show thesis
      using that [OF t max, of k4] step False k4(1,7,8) k4(9) k3(2) tr by (simp add: R'_def p_def)
  qed
qed

section \<open>Properties\<close>

text \<open>Only the holder can release a mutex: a signal by another thread, or of a mutex that is not
  held, reports failure and changes nothing.\<close>

theorem signal_needs_holder:
  assumes "holding (mtx k m) \<noteq> Some callee"
  shows "mutex_signal m callee k = Some (False, k)"
  using assms by (cases "holding (mtx k m)") (simp_all add: mutex_signal_def)

theorem signal_needs_holder_witness: "mutex_signal 3 1 (fresh_kern three_threads) = Some (False, fresh_kern three_threads)"
  by (rule signal_needs_holder) simp

text \<open>C4. The last unlock of a mutex, its lock count at most one, that threads wait for and for
  which no thread is pending hands it over, where the invariants of the mutex and of the ready queues
  hold: the new holder is a waiting thread of highest priority, which becomes ready, is queued behind
  its peers and waits for nothing any more; of the remaining threads one of highest priority becomes
  pending, and no thread is lost. The lock count goes down with the unlock and is not raised for the new
  holder. (With a thread pending it is otherwise: that thread becomes the holder whatever its priority,
  and where no thread waits behind it the unlock is undefined.)\<close>

theorem mutex_handover:
  assumes "sched_rep k R" and "mutex_ok m k R []" and "holding (mtx k m) = Some h"
    and "lock_count (mtx k m) \<le> 1" and "mutex_waits (mtx k m) \<noteq> []"
  shows "\<exists>t k' ps. mutex_signal m h k = Some (True, k') \<and> t \<in> set (mutex_waits (mtx k m))
    \<and> (\<forall>u \<in> set (mutex_waits (mtx k m)). real_priority (thr k u) \<le> real_priority (thr k t))
    \<and> holding (mtx k' m) = Some t \<and> lock_count (mtx k' m) = lock_count (mtx k m) - 1
    \<and> sched_rep k' (R(real_priority (thr k t) := R (real_priority (thr k t)) @ [t]))
    \<and> state (thr k' t) = TS_ready \<and> wait_obj (thr k' t) = None
    \<and> mutex_ok m k' (R(real_priority (thr k t) := R (real_priority (thr k t)) @ [t])) ps
    \<and> set ps \<union> set (mutex_waits (mtx k' m)) = set (mutex_waits (mtx k m)) - {t}
    \<and> length ps = (if mutex_waits (mtx k m) = [t] then 0 else 1)
    \<and> (\<forall>q \<in> set ps. \<forall>u \<in> set (mutex_waits (mtx k m)) - {t}. real_priority (thr k u) \<le> real_priority (thr k q))"
  by (rule signal_handover [OF assms]) blast

text \<open>The unlock that makes the last pending thread the holder, when no other thread waits,
  takes the top of the empty wait queue: with three contenders the second unlock is undefined.\<close>

theorem signal_last_pending_undefined:
  assumes "sched_rep k R" and "mutex_ok m k R [q]" and "holding (mtx k m) = Some h"
    and "lock_count (mtx k m) \<le> 1" and "mutex_waits (mtx k m) = []"
  shows "mutex_signal m h k = None"
proof -
  note okd = mutex_okD [OF assms(2)]
  have ne: "\<not> roundabout_empty (Mutex_ring m) (pending_links k)"
    "roundabout_first (Mutex_ring m) (pending_links k) = Some (Link q)"
    using roundabout_empty_iff [OF okd(3)] roundabout_first_list [OF okd(3)] by simp_all
  have dq: "roundabout_list (Mutex_ring m) [] (deque (Link q) (pending_links k))"
    using roundabout_deque_list(1) [of "Mutex_ring m" "[]" "Link q" "[]"] okd(3) by simp
  define k2 where "k2 = (upd_mtx m (\<lambda>x. x\<lparr>lock_count := lock_count x - 1\<rparr>) k)
    \<lparr>pending_links := deque (Link q) (pending_links k)\<rparr>"
  have thr2: "thr k2 = thr k" by (simp add: k2_def)
  have rep2: "sched_rep k2 R" using assms(1) by (simp add: k2_def)
  have qst: "real_priority (thr k2 q) < 64" "\<not> in_ready R q" "state (thr k2 q) \<notin> {TS_ready, TS_run, TS_stop}"
    using okd(6,7) [of q] by (auto simp: thr2)
  obtain k3 where k3: "make_holder m q k2 = Some k3" "mtx k3 = (mtx k2)(m := (mtx k2 m)\<lparr>holding := Some q\<rparr>)"
    "pending_links k3 = pending_links k2"
    using make_holder_spec [OF rep2 qst, of m] by blast
  have "mutex_waits (mtx k3 m) = []" using assms(5) by (simp add: k3(2) k2_def)
  then have "put_top_wait_to_pending m k3 = None" by (simp add: put_top_wait_to_pending_def cp_top_def)
  moreover have "roundabout_empty (Mutex_ring m) (pending_links k3)"
    using roundabout_empty_iff [OF dq] by (simp add: k3(3) k2_def)
  ultimately show ?thesis
    using assms(3,4) ne k3(1) by (simp add: mutex_signal_def Let_def k2_def)
qed

section \<open>Recursive locking\<close>

fun nest :: "nat \<Rightarrow> (kern \<Rightarrow> kern undef) \<Rightarrow> kern \<Rightarrow> kern undef" where
  "nest 0 f k = Some k"
| "nest (Suc n) f k = Option.bind (nest n f k) f"

abbreviation unlock :: "mid \<Rightarrow> tid \<Rightarrow> kern \<Rightarrow> kern undef" where
  "unlock m t k \<equiv> map_option snd (mutex_signal m t k)"

definition lock_state :: "mid \<Rightarrow> tid option \<Rightarrow> int \<Rightarrow> kern \<Rightarrow> kern" where
  "lock_state m h c k = upd_mtx m (\<lambda>x. x\<lparr>holding := h, lock_count := c\<rparr>) k"

lemma lock_state_simps [simp]:
  "holding (mtx (lock_state m h c k) m) = h" "lock_count (mtx (lock_state m h c k) m) = c"
  "mutex_waits (mtx (lock_state m h c k) m) = mutex_waits (mtx k m)"
  "pending_links (lock_state m h c k) = pending_links k" "crr_thread (lock_state m h c k) = crr_thread k"
  "thr (lock_state m h c k) = thr k"
  by (simp_all add: lock_state_def)

lemma lock_state_upd:
  "upd_mtx m (\<lambda>x. x\<lparr>lock_count := d\<rparr>) (lock_state m h c k) = lock_state m h d k"
  "upd_mtx m (\<lambda>x. x\<lparr>lock_count := lock_count x + 1\<rparr>) (lock_state m h c k) = lock_state m h (c + 1) k"
  "upd_mtx m (\<lambda>x. x\<lparr>lock_count := lock_count x - 1\<rparr>) (lock_state m h c k) = lock_state m h (c - 1) k"
  "upd_mtx m (\<lambda>x. x\<lparr>holding := h'\<rparr>) (lock_state m h c k) = lock_state m h' c k"
  by (cases "mtx k m"; simp add: lock_state_def upd_mtx_def)+

lemma lock_free:
  assumes "crr_thread k = Some t" "state (thr k t) \<noteq> TS_hold_mutex_pending" "c < 2 ^ 31 - 1"
  shows "mutex_wait m (lock_state m None c k) = Some (lock_state m (Some t) (c + 1) k)"
  using assms by (simp add: mutex_wait_def claim_def count_lock_def lock_state_upd)

lemma lock_held:
  assumes "crr_thread k = Some t" "c < 2 ^ 31 - 1"
  shows "mutex_wait m (lock_state m (Some t) c k) = Some (lock_state m (Some t) (c + 1) k)"
  using assms by (simp add: mutex_wait_def claim_def count_lock_def lock_state_upd)

lemma unlock_held:
  assumes "roundabout_empty (Mutex_ring m) (pending_links k)" "mutex_waits (mtx k m) = []"
  shows "unlock m t (lock_state m (Some t) c k) = Some (lock_state m (if 1 < c then Some t else None) (c - 1) k)"
  using assms by (cases "1 < c") (simp_all add: mutex_signal_def lock_state_upd Let_def cp_empty_def)

lemma nest_lock:
  assumes "crr_thread k = Some t" "c + int n < 2 ^ 31"
  shows "nest n (mutex_wait m) (lock_state m (Some t) c k) = Some (lock_state m (Some t) (c + int n) k)"
  using assms(2) by (induction n) (simp_all add: lock_held [OF assms(1)] algebra_simps)

lemma nest_lock_free:
  assumes "crr_thread k = Some t" "state (thr k t) \<noteq> TS_hold_mutex_pending" "c + int (Suc n) < 2 ^ 31"
  shows "nest (Suc n) (mutex_wait m) (lock_state m None c k) = Some (lock_state m (Some t) (c + int (Suc n)) k)"
  using assms(3)
proof (induction n)
  case 0
  then show ?case using lock_free [OF assms(1,2)] by simp
next
  case (Suc n)
  then have "nest (Suc n) (mutex_wait m) (lock_state m None c k) = Some (lock_state m (Some t) (c + int (Suc n)) k)" by simp
  moreover have "mutex_wait m (lock_state m (Some t) (c + int (Suc n)) k)
      = Some (lock_state m (Some t) (c + int (Suc n) + 1) k)"
    by (rule lock_held [OF assms(1)]) (use Suc.prems in simp)
  ultimately show ?case by (simp del: of_nat_Suc add: add.assoc) simp
qed

lemma nest_unlock:
  assumes "roundabout_empty (Mutex_ring m) (pending_links k)" "mutex_waits (mtx k m) = []" "int n < c"
  shows "nest n (unlock m t) (lock_state m (Some t) c k) = Some (lock_state m (Some t) (c - int n) k)"
  using assms(3) by (induction n) (simp_all add: unlock_held [OF assms(1,2)] algebra_simps)

text \<open>Recursive locking works while the lock count starts at zero: a running thread that locks a
  free, uncontended mutex \<open>n\<close> times holds it until the last of \<open>n\<close> unlocks, which leaves the kernel as
  it was.\<close>

theorem recursive_lock_roundtrip:
  assumes "holding (mtx k m) = None" and "lock_count (mtx k m) = 0" and "mutex_waits (mtx k m) = []"
    and "roundabout_empty (Mutex_ring m) (pending_links k)"
    and "crr_thread k = Some t" and "state (thr k t) \<noteq> TS_hold_mutex_pending" and "0 < n" and "n < 2 ^ 31"
  shows "\<exists>k1. nest n (mutex_wait m) k = Some k1 \<and> lock_count (mtx k1 m) = int n
    \<and> (\<forall>i < n. \<exists>k2. nest i (unlock m t) k1 = Some k2 \<and> holding (mtx k2 m) = Some t)
    \<and> nest n (unlock m t) k1 = Some k"
proof -
  obtain l where n: "n = Suc l" using assms(7) by (cases n) auto
  have k: "lock_state m None 0 k = k"
    using assms(1,2) by (simp add: lock_state_def upd_mtx_def fun_upd_idem)
  define k1 where "k1 = lock_state m (Some t) (int n) k"
  have lock: "nest n (mutex_wait m) k = Some k1"
    using nest_lock_free [OF assms(5,6), of 0 l m] assms(8) by (simp add: k n k1_def del: nest.simps)
  have un: "nest i (unlock m t) k1 = Some (lock_state m (Some t) (int n - int i) k)" if "i < n" for i
    unfolding k1_def by (rule nest_unlock [OF assms(4,3)]) (use that in simp)
  have "nest n (unlock m t) k1 = unlock m t (lock_state m (Some t) 1 k)"
    using un [of l] by (simp add: n)
  also have "\<dots> = Some k" using unlock_held [OF assms(4,3), of t 1] k by simp
  finally show ?thesis using lock un by (intro exI [of _ k1]) (auto simp: k1_def)
qed

text \<open>After a hand-over the lock count is one too low, since the new holder is not counted, so that
  it is -1 when the mutex is free again (\<open>mutex_handover\<close>); from then on a thread that locks it twice
  loses it with the first of its unlocks.\<close>

theorem recursive_lock_lost_after_handover:
  assumes "holding (mtx k m) = None" and "lock_count (mtx k m) = -1" and "mutex_waits (mtx k m) = []"
    and "roundabout_empty (Mutex_ring m) (pending_links k)"
    and "crr_thread k = Some t" and "state (thr k t) \<noteq> TS_hold_mutex_pending"
  shows "\<exists>k1 k2. nest 2 (mutex_wait m) k = Some k1 \<and> holding (mtx k1 m) = Some t
    \<and> mutex_signal m t k1 = Some (True, k2) \<and> holding (mtx k2 m) = None"
proof -
  have k: "lock_state m None (-1) k = k"
    using assms(1,2) by (simp add: lock_state_def upd_mtx_def fun_upd_idem)
  have lock: "nest 2 (mutex_wait m) k = Some (lock_state m (Some t) 1 k)"
    using nest_lock_free [OF assms(5,6), of "-1" 1 m] k by (simp add: numeral_2_eq_2)
  have "mutex_signal m t (lock_state m (Some t) 1 k) = Some (True, lock_state m None 0 k)"
    using assms(3,4) by (simp add: mutex_signal_def lock_state_upd Let_def cp_empty_def)
  then show ?thesis using lock by simp
qed

section \<open>Concrete executions\<close>

lemma running_kern_pending: "roundabout_list (Mutex_ring m) [] (pending_links running_kern)"
  using sched_frameD(5) [OF two_queued_rep(2)]
  by (simp add: running_kern_def roundabout_list_def fresh_kern_def)

lemma running_kern_empty [simp]: "roundabout_empty (Mutex_ring m) (pending_links running_kern)"
  using roundabout_empty_iff [OF running_kern_pending] by simp

theorem recursive_lock_roundtrip_witness:
  "\<exists>k1. nest 3 (mutex_wait 8) running_kern = Some k1 \<and> lock_count (mtx k1 8) = int 3
    \<and> (\<forall>i < 3. \<exists>k2. nest i (unlock 8 2) k1 = Some k2 \<and> holding (mtx k2 8) = Some 2)
    \<and> nest 3 (unlock 8 2) k1 = Some running_kern"
  by (rule recursive_lock_roundtrip) simp_all

theorem recursive_lock_lost_after_handover_witness:
  "\<exists>k1 k2. nest 2 (mutex_wait 8) (lock_state 8 None (-1) running_kern) = Some k1 \<and> holding (mtx k1 8) = Some 2
    \<and> mutex_signal 8 2 k1 = Some (True, k2) \<and> holding (mtx k2 8) = None"
  by (rule recursive_lock_lost_after_handover) simp_all

text \<open>Thread 1 holds the mutex, thread 2 waits for it or is pending.\<close>

definition contended :: "thread_state \<Rightarrow> tid list \<Rightarrow> link_addr link_heap \<Rightarrow> kern" where
  "contended st ws h = (set_wait_obj 2 (Some (Wait_mutex 8)) (set_state 2 st
     (upd_mtx 8 (\<lambda>x. x\<lparr>holding := Some 1, lock_count := 1, mutex_waits := ws\<rparr>)
       (fresh_kern three_threads))))\<lparr>pending_links := h\<rparr>"

lemma contended_rep: "sched_rep (contended st ws h) (\<lambda>_. [])"
  by (simp add: contended_def)

lemma contended_simps [simp]:
  "mtx (contended st ws h) 8 = \<lparr>lock_count = 1, holding = Some 1, mutex_waits = ws, mutex_event_type = 1\<rparr>"
  "thr (contended st ws h) = three_threads(2 := (three_threads 2)\<lparr>state := st, wait_obj := Some (Wait_mutex 8)\<rparr>)"
  "pending_links (contended st ws h) = h"
  by (simp_all add: contended_def)

theorem mutex_handover_witness:
  "\<exists>k'. mutex_signal 8 1 (contended TS_wait_mutex [2] (pending_links (fresh_kern three_threads))) = Some (True, k')
    \<and> holding (mtx k' 8) = Some 2 \<and> lock_count (mtx k' 8) = 0"
proof -
  have "mutex_ok 8 (contended TS_wait_mutex [2] (pending_links (fresh_kern three_threads))) (\<lambda>_. []) []"
    by (simp add: mutex_ok_def is_heap_def in_ready_def roundabout_list_def) (simp add: fresh_kern_def)
  from mutex_handover [OF contended_rep this, of 1] show ?thesis by fastforce
qed

theorem signal_last_pending_undefined_witness:
  "mutex_signal 8 1 (contended TS_hold_mutex_pending [] \<lparr>nxt = [Mutex_ring 8 \<mapsto> Link 2, Link 2 \<mapsto> Mutex_ring 8],
    prv = [Mutex_ring 8 \<mapsto> Link 2, Link 2 \<mapsto> Mutex_ring 8]\<rparr>) = None"
proof (rule signal_last_pending_undefined [OF contended_rep])
  show "mutex_ok 8 (contended TS_hold_mutex_pending [] \<lparr>nxt = [Mutex_ring 8 \<mapsto> Link 2, Link 2 \<mapsto> Mutex_ring 8],
    prv = [Mutex_ring 8 \<mapsto> Link 2, Link 2 \<mapsto> Mutex_ring 8]\<rparr>) (\<lambda>_. []) [2]"
    by (simp add: mutex_ok_def is_heap_def in_ready_def roundabout_list_def)
qed simp_all

end
