(* ===== verification/Thread_Process.thy ===== *)
theory Thread_Process imports Mutex begin

text \<open>
  Threads and processes: the operations of \<open>kernel/thread.cpp\<close> and \<open>kernel/process.cpp\<close> on
  priorities, sleeping, stopping and killing, logons and rendezvous, trap frames, thread local storage
  and process arguments. The roundabout \<open>thread_list\<close> of a process is the list it stands for.
\<close>

section \<open>Priorities\<close>

fun map_thread_priority_to_calc :: "thread_priority \<Rightarrow> int" where
  "map_thread_priority_to_calc Priority_much_less = -7"
| "map_thread_priority_to_calc Priority_less = -6"
| "map_thread_priority_to_calc Priority_normal = -5"
| "map_thread_priority_to_calc Priority_more = -4"
| "map_thread_priority_to_calc Priority_much_more = -3"
| "map_thread_priority_to_calc Priority_real_time = -2"
| "map_thread_priority_to_calc Priority_null = 0"
| "map_thread_priority_to_calc Priority_absolute_very_low = 1"
| "map_thread_priority_to_calc Priority_absolute_low = 5"
| "map_thread_priority_to_calc Priority_absolute_background_normal = 7"
| "map_thread_priority_to_calc Priority_absolute_background = 10"
| "map_thread_priority_to_calc Priority_absolute_foreground_normal = 12"
| "map_thread_priority_to_calc Priority_absolute_foreground = 15"
| "map_thread_priority_to_calc Priority_absolute_high = 23"
| "map_thread_priority_to_calc Priority_other = 1"

fun map_process_pri_calc :: "process_priority \<Rightarrow> nat" where
  "map_process_pri_calc PP_low = 0"
| "map_process_pri_calc PP_background = 1"
| "map_process_pri_calc PP_foreground = 2"
| "map_process_pri_calc PP_high = 3"
| "map_process_pri_calc PP_window_svr = 4"
| "map_process_pri_calc PP_file_svr = 5"
| "map_process_pri_calc PP_supervisor = 6"
| "map_process_pri_calc PP_real_time_svr = 7"
| "map_process_pri_calc PP_other = 0"

definition pris :: "nat list" where
  "pris = [
     1, 1, 2, 3, 4, 5, 22, 0,
     3, 5, 6, 7, 8, 9, 22, 0,
     3, 10, 11, 12, 13, 14, 22, 0,
     3, 17, 18, 19, 20, 22, 23, 0,
     9, 15, 16, 21, 24, 25, 28, 0,
     9, 15, 16, 21, 24, 25, 28, 0,
     9, 15, 16, 21, 24, 25, 28, 0,
     18, 26, 27, 28, 29, 30, 31, 0]"

definition calculate_thread_priority :: "process_priority \<Rightarrow> thread_priority \<Rightarrow> nat" where
  "calculate_thread_priority pr pri = (
     let tp = map_thread_priority_to_calc pri in
     if 0 \<le> tp then (if tp < 64 then nat tp else 63)
     else let prinew = (if tp + 8 < 0 then 0 else tp + 8);
              idx = map_process_pri_calc pr * 8 + nat prinew
          in pris ! idx)"

definition update_priority :: "tid \<Rightarrow> kern \<Rightarrow> kern undef" where
  "update_priority t k = (
     let k = upd_thr t (\<lambda>x. x\<lparr>last_priority := real_priority x\<rparr>) k;
         queued = (nxt (scheduler_links k) t \<noteq> None \<and> prv (scheduler_links k) t \<noteq> None)
     in do {
       k \<leftarrow> (if queued then dequeue_thread_from_ready t k else Some k);
       let k = upd_thr t (\<lambda>x. x\<lparr>real_priority :=
                  calculate_thread_priority (proc_priority (prc k (owner x))) (priority x)\<rparr>) k;
       k \<leftarrow> (if queued then queue_thread_ready t k else Some k);
       case wait_obj (thr k t) of
         Some (Wait_mutex m) \<Rightarrow> mutex_priority_change m t k
       | Some (Wait_sema s) \<Rightarrow> Some (sema_priority_change s k)
       | None \<Rightarrow> Some k
     })"

definition thread_set_priority :: "tid \<Rightarrow> thread_priority \<Rightarrow> kern \<Rightarrow> kern undef" where
  "thread_set_priority t new_pri k =
     map_option prepare_reschedule (update_priority t (upd_thr t (\<lambda>x. x\<lparr>priority := new_pri\<rparr>) k))"

fun update_priorities :: "tid list \<Rightarrow> kern \<Rightarrow> kern undef" where
  "update_priorities [] k = Some k"
| "update_priorities (t # ts) k = Option.bind (update_priority t k) (update_priorities ts)"

definition process_set_priority :: "pid \<Rightarrow> process_priority \<Rightarrow> kern \<Rightarrow> kern undef" where
  "process_set_priority p new_pri k = (
     let k = upd_prc p (\<lambda>x. x\<lparr>proc_priority := new_pri\<rparr>) k
     in update_priorities (thread_list (prc k p)) k)"

section \<open>Requests\<close>

definition signal_request :: "tid \<Rightarrow> int \<Rightarrow> kern \<Rightarrow> kern undef" where
  "signal_request t n k = sema_signal (request_sema (thr k t)) n k"

definition wait_for_any_request :: "tid \<Rightarrow> kern \<Rightarrow> kern undef" where
  "wait_for_any_request t k = sema_wait (request_sema (thr k t)) k"

text \<open>\<open>notify_info::complete\<close>; every caller drops the request afterwards, so that its \<open>sts\<close> is reset is
  not visible.\<close>

definition complete :: "int \<Rightarrow> notify_info \<Rightarrow> kern \<Rightarrow> kern undef" where
  "complete err_code info k =
     (if sts info = 0 then Some k
      else do {
        req \<leftarrow> requester info;
        k \<leftarrow> write_status (owner (thr k req)) (sts info) err_code k;
        signal_request req 1 k
      })"

fun complete_all :: "int \<Rightarrow> notify_info list \<Rightarrow> kern \<Rightarrow> kern undef" where
  "complete_all err_code [] k = Some k"
| "complete_all err_code (i # is) k = Option.bind (complete err_code i k) (complete_all err_code is)"

text \<open>What a completion does when the thread to signal is not waiting: \<open>status_written\<close> and
  \<open>notified\<close> are the two effects.\<close>

definition status_written :: "pid \<Rightarrow> address \<Rightarrow> int \<Rightarrow> kern \<Rightarrow> kern" where
  "status_written p a v k = k\<lparr>user_mem := (user_mem k)(p := (user_mem k p)(a \<mapsto> assign_status v (the (user_mem k p a))))\<rparr>"

definition notified :: "tid \<Rightarrow> kern \<Rightarrow> kern" where
  "notified t k = upd_sema (request_sema (thr k t)) (\<lambda>x. x\<lparr>avail_count := avail_count x + 1\<rparr>) k"

definition can_notify :: "tid \<Rightarrow> kern \<Rightarrow> bool" where
  "can_notify t k \<longleftrightarrow> 0 \<le> avail_count (sema k (request_sema (thr k t)))
     \<and> avail_count (sema k (request_sema (thr k t))) < 2 ^ 31 - 2"

lemma signal_request_idle: "can_notify t k \<Longrightarrow> signal_request t 1 k = Some (notified t k)"
  by (simp add: can_notify_def signal_request_def sema_signal_def signal_once_def notified_def upd_sema_def)

lemma write_and_signal:
  assumes "user_mem k p a \<noteq> None" and "can_notify t k"
  shows "write_status p a v k = Some (status_written p a v k)"
    "signal_request t 1 (status_written p a v k) = Some (notified t (status_written p a v k))"
proof -
  show "write_status p a v k = Some (status_written p a v k)"
    using assms(1) by (auto simp: write_status_def status_written_def)
  have "can_notify t (status_written p a v k)"
    using assms(2) by (simp add: can_notify_def status_written_def)
  then show "signal_request t 1 (status_written p a v k) = Some (notified t (status_written p a v k))"
    by (rule signal_request_idle)
qed

lemma notified_simps [simp]:
  "user_mem (status_written p a v k) = (user_mem k)(p := (user_mem k p)(a \<mapsto> assign_status v (the (user_mem k p a))))"
  "thr (notified t (status_written p a v k)) = thr k" "crr_thread (notified t (status_written p a v k)) = crr_thread k"
  "user_mem (notified t (status_written p a v k)) = (user_mem k)(p := (user_mem k p)(a \<mapsto> assign_status v (the (user_mem k p a))))"
  "avail_count (sema (notified t (status_written p a v k)) q)
    = (if q = request_sema (thr k t) then avail_count (sema k q) + 1 else avail_count (sema k q))"
  by (simp_all add: notified_def status_written_def)

section \<open>Logons\<close>

definition thread_logon :: "tid \<Rightarrow> address \<Rightarrow> bool \<Rightarrow> kern \<Rightarrow> kern undef" where
  "thread_logon t logon_request rendezvous k =
     (if state (thr k t) = TS_stop then do {
        p \<leftarrow> crr_process k;
        write_status p logon_request (exit_reason (thr k t)) k
      }
      else let info = \<lparr>sts = logon_request, requester = crr_thread k\<rparr> in
        Some (if rendezvous then upd_thr t (\<lambda>x. x\<lparr>rendezvous_requests := rendezvous_requests x @ [info]\<rparr>) k
              else upd_thr t (\<lambda>x. x\<lparr>logon_requests := logon_requests x @ [info]\<rparr>) k))"

definition thread_logon_cancel :: "tid \<Rightarrow> address \<Rightarrow> bool \<Rightarrow> kern \<Rightarrow> (bool \<times> kern) undef" where
  "thread_logon_cancel t logon_request rendezvous k = (
     let reqs = (if rendezvous then rendezvous_requests (thr k t) else logon_requests (thr k t))
     in case find_index (\<lambda>form. sts form = logon_request) reqs of
          None \<Rightarrow> Some (False, k)
        | Some i \<Rightarrow> do {
            k \<leftarrow> complete (-3) (reqs ! i) k;
            Some (True, if rendezvous then upd_thr t (\<lambda>x. x\<lparr>rendezvous_requests := erase_at i (rendezvous_requests x)\<rparr>) k
                        else upd_thr t (\<lambda>x. x\<lparr>logon_requests := erase_at i (logon_requests x)\<rparr>) k)
          })"

definition thread_rendezvous :: "tid \<Rightarrow> int \<Rightarrow> kern \<Rightarrow> kern undef" where
  "thread_rendezvous t reason k = do {
     k \<leftarrow> complete_all reason (rendezvous_requests (thr k t)) k;
     Some (upd_thr t (\<lambda>x. x\<lparr>rendezvous_requests := []\<rparr>) k)
   }"

definition thread_finish_logons :: "tid \<Rightarrow> kern \<Rightarrow> kern undef" where
  "thread_finish_logons t k = do {
     k \<leftarrow> complete_all (exit_reason (thr k t)) (logon_requests (thr k t)) k;
     k \<leftarrow> complete_all (exit_reason (thr k t)) (rendezvous_requests (thr k t)) k;
     Some (upd_thr t (\<lambda>x. x\<lparr>logon_requests := [], rendezvous_requests := []\<rparr>) k)
   }"

definition process_logon :: "pid \<Rightarrow> address \<Rightarrow> bool \<Rightarrow> kern \<Rightarrow> kern undef" where
  "process_logon p logon_request rendezvous k =
     (if thread_count (prc k p) = 0 then do {
        c \<leftarrow> crr_process k;
        write_status c logon_request (proc_exit_reason (prc k p)) k
      }
      else let info = \<lparr>sts = logon_request, requester = crr_thread k\<rparr> in
        Some (if rendezvous then upd_prc p (\<lambda>x. x\<lparr>proc_rendezvous_requests := proc_rendezvous_requests x @ [info]\<rparr>) k
              else upd_prc p (\<lambda>x. x\<lparr>proc_logon_requests := proc_logon_requests x @ [info]\<rparr>) k))"

definition process_logon_cancel :: "pid \<Rightarrow> address \<Rightarrow> bool \<Rightarrow> kern \<Rightarrow> (bool \<times> kern) undef" where
  "process_logon_cancel p logon_request rendezvous k = (
     let reqs = (if rendezvous then proc_rendezvous_requests (prc k p) else proc_logon_requests (prc k p))
     in case find_index ((=) \<lparr>sts = logon_request, requester = crr_thread k\<rparr>) reqs of
          None \<Rightarrow> Some (False, k)
        | Some i \<Rightarrow> do {
            k \<leftarrow> complete (-3) (reqs ! i) k;
            Some (True, if rendezvous then upd_prc p (\<lambda>x. x\<lparr>proc_rendezvous_requests := erase_at i (proc_rendezvous_requests x)\<rparr>) k
                        else upd_prc p (\<lambda>x. x\<lparr>proc_logon_requests := erase_at i (proc_logon_requests x)\<rparr>) k)
          })"

definition process_rendezvous :: "pid \<Rightarrow> int \<Rightarrow> kern \<Rightarrow> kern undef" where
  "process_rendezvous p reason k = (
     let k = upd_prc p (\<lambda>x. x\<lparr>proc_exit_reason := reason, proc_exit_type := Exit_pending\<rparr>) k in do {
       k \<leftarrow> complete_all reason (proc_rendezvous_requests (prc k p)) k;
       Some (upd_prc p (\<lambda>x. x\<lparr>proc_rendezvous_requests := []\<rparr>) k)
     })"

definition process_finish_logons :: "pid \<Rightarrow> kern \<Rightarrow> kern undef" where
  "process_finish_logons p k = do {
     k \<leftarrow> complete_all (proc_exit_reason (prc k p)) (proc_logon_requests (prc k p)) k;
     k \<leftarrow> complete_all (proc_exit_reason (prc k p)) (proc_rendezvous_requests (prc k p)) k;
     Some (upd_prc p (\<lambda>x. x\<lparr>proc_logon_requests := [], proc_rendezvous_requests := []\<rparr>) k)
   }"

section \<open>Stopping and killing\<close>

text \<open>The end of \<open>thread_scheduler::stop\<close>; the count is unsigned.\<close>

definition decrease_thread_count :: "pid \<Rightarrow> kern \<Rightarrow> kern" where
  "decrease_thread_count p k = upd_prc p (\<lambda>x. x\<lparr>thread_count := thread_count x - 1\<rparr>) k"

definition increase_thread_count :: "pid \<Rightarrow> kern \<Rightarrow> kern" where
  "increase_thread_count p k = upd_prc p (\<lambda>x. x\<lparr>thread_count := thread_count x + 1\<rparr>) k"

definition thread_gone :: "tid \<Rightarrow> kern \<Rightarrow> kern undef" where
  "thread_gone t k = (
     let p = owner (thr k t); k = decrease_thread_count p k in
     if thread_count (prc k p) = 0 then
       process_finish_logons p (upd_prc p (\<lambda>x. x\<lparr>proc_exit_reason := exit_reason (thr k t)\<rparr>) k)
     else Some k)"

definition thread_stop :: "tid \<Rightarrow> kern \<Rightarrow> (bool \<times> kern) undef" where
  "thread_stop t k = sched_stop thread_gone t k"

text \<open>\<open>kill\<close> without its log messages.\<close>

definition thread_kill :: "tid \<Rightarrow> exit_type \<Rightarrow> string \<Rightarrow> int \<Rightarrow> kern \<Rightarrow> (bool \<times> kern) undef" where
  "thread_kill t the_exit_type category reason k =
     (if state (thr k t) = TS_stop then Some (False, k)
      else do {
        (_, k) \<leftarrow> thread_stop t k;
        let k = upd_thr t (\<lambda>x. x\<lparr>exit_reason := reason, exit_type := the_exit_type, exit_category := category\<rparr>) k;
        let p = owner (thr k t);
        let k = decrease_thread_count p k;
        let k = (if thread_count (prc k p) = 0
                 then upd_prc p (\<lambda>x. x\<lparr>proc_exit_type := exit_type (thr k t)\<rparr>) k else k);
        let k = k\<lparr>kill_callbacks := kill_callbacks k @ [(t, category, reason)]\<rparr>;
        Some (True, prepare_reschedule k)
      })"

definition thread_destroy :: "tid \<Rightarrow> kern \<Rightarrow> kern" where
  "thread_destroy t k = (
     let p = owner (thr k t)
     in decrease_thread_count p (upd_prc p (\<lambda>x. x\<lparr>thread_list := remove1 t (thread_list x)\<rparr>) k))"

section \<open>Sleeping\<close>

definition thread_sleep_nof :: "tid \<Rightarrow> address \<Rightarrow> u32 \<Rightarrow> kern \<Rightarrow> (bool \<times> kern) undef" where
  "thread_sleep_nof t stsp mssecs k = do {
     guard (sleep_nof_sts (thr k t) = 0);
     sched_sleep t mssecs False (upd_thr t (\<lambda>x. x\<lparr>sleep_nof_sts := stsp\<rparr>) k)
   }"

definition notify_sleep :: "tid \<Rightarrow> int \<Rightarrow> kern \<Rightarrow> kern undef" where
  "notify_sleep t errcode k = do {
     k \<leftarrow> (if sleep_nof_sts (thr k t) \<noteq> 0 then do {
            k \<leftarrow> write_status (owner (thr k t)) (sleep_nof_sts (thr k t)) errcode k;
            let k = upd_thr t (\<lambda>x. x\<lparr>sleep_nof_sts := 0\<rparr>) k;
            signal_request t 1 k
          } else Some k);
     Some (upd_thr t (\<lambda>x. x\<lparr>sleep_nof_sts := 0\<rparr>) k)
   }"

text \<open>\<open>add_ticks\<close>: the rest of the slice, not below 0.\<close>

definition add_ticks :: "tid \<Rightarrow> int \<Rightarrow> kern \<Rightarrow> kern" where
  "add_ticks t num k = upd_thr t (\<lambda>x. x\<lparr>time := (if 0 > time x - num then 0 else time x - num)\<rparr>) k"

section \<open>Trap frames and thread local storage\<close>

definition push_trap_frame :: "tid \<Rightarrow> address \<Rightarrow> kern \<Rightarrow> address \<times> kern" where
  "push_trap_frame t new_trap k = (
     let p = owner (thr k t) in
     case user_traps k p new_trap of
       None \<Rightarrow> (0, k)
     | Some the_trap \<Rightarrow>
         let the_trap = \<lparr>next_trap = trap_stack (thr k t), saved_handler = trap_handler (thr k t)\<rparr>;
             k = k\<lparr>user_traps := (user_traps k)(p := (user_traps k p)(new_trap \<mapsto> the_trap))\<rparr>
         in (trap_handler (thr k t), upd_thr t (\<lambda>x. x\<lparr>trap_stack := new_trap\<rparr>) k))"

definition pop_trap_frame :: "tid \<Rightarrow> kern \<Rightarrow> (address \<times> kern) undef" where
  "pop_trap_frame t k =
     (if trap_stack (thr k t) = 0 then Some (0, k)
      else do {
        the_trap \<leftarrow> user_traps k (owner (thr k t)) (trap_stack (thr k t));
        let trap_popped = trap_stack (thr k t);
        Some (trap_popped, upd_thr t (\<lambda>x. x\<lparr>trap_stack := next_trap the_trap\<rparr>) k)
      })"

text \<open>The slot of a handle, by index; a free slot has the handle -1.\<close>

definition get_tls_slot :: "tid \<Rightarrow> u32 \<Rightarrow> u32 \<Rightarrow> kern \<Rightarrow> nat option \<times> kern" where
  "get_tls_slot t h dll_uid k = (
     let slots = tls_slots (thr k t) in
     case find_index (\<lambda>s. tls_handle s \<noteq> -1 \<and> tls_handle s = h) slots of
       Some i \<Rightarrow> (Some i, k)
     | None \<Rightarrow> (case find_index (\<lambda>s. tls_handle s = -1) slots of
         Some i \<Rightarrow> (Some i, upd_thr t (\<lambda>x. x\<lparr>tls_slots :=
             (tls_slots x)[i := (tls_slots x ! i)\<lparr>tls_handle := h, tls_uid := dll_uid\<rparr>]\<rparr>) k)
       | None \<Rightarrow> (None, k)))"

definition close_tls_slot :: "tid \<Rightarrow> nat \<Rightarrow> kern \<Rightarrow> kern" where
  "close_tls_slot t i k = upd_thr t (\<lambda>x. x\<lparr>tls_slots := (tls_slots x)[i := (tls_slots x ! i)\<lparr>tls_handle := -1\<rparr>]\<rparr>) k"

section \<open>Process arguments\<close>

definition set_arg_slot :: "pid \<Rightarrow> nat \<Rightarrow> u8 list \<Rightarrow> kern \<Rightarrow> kern" where
  "set_arg_slot p slot data k =
     (if 16 \<le> slot \<or> used (proc_args (prc k p) ! slot) then k
      else upd_prc p (\<lambda>x. x\<lparr>proc_args := (proc_args x)[slot := \<lparr>used = True, arg_data = data\<rparr>]\<rparr>) k)"

definition get_arg_slot :: "pid \<Rightarrow> nat \<Rightarrow> kern \<Rightarrow> pass_arg option" where
  "get_arg_slot p slot k = (if 16 \<le> slot then None else Some (proc_args (prc k p) ! slot))"

definition mark_slot_free :: "pid \<Rightarrow> nat \<Rightarrow> kern \<Rightarrow> kern undef" where
  "mark_slot_free p slot k = do {
     guard (slot < 16);
     Some (upd_prc p (\<lambda>x. x\<lparr>proc_args := (proc_args x)[slot := (proc_args x ! slot)\<lparr>used := False\<rparr>]\<rparr>) k)
   }"

definition process_run :: "pid \<Rightarrow> kern \<Rightarrow> (bool \<times> kern) undef" where
  "process_run p k = schedule (primary_thread (prc k p)) k"

section \<open>Lemmas\<close>

lemma calculate_thread_priority_less: "calculate_thread_priority pp pri < 32"
  by (cases pp; cases pri) (simp_all add: calculate_thread_priority_def pris_def Let_def nth_Cons')

text \<open>The priority of a thread that is in no queue does not matter to the queues.\<close>

lemma sched_rep_unqueued:
  assumes "sched_rep k R" "\<not> in_ready R t"
  shows "sched_rep (upd_thr t f k) R"
  using assms unfolding sched_rep_def in_ready_def by (auto simp: mask_bit_def)

lemma update_priority_requeues:
  assumes rep: "sched_rep k R" and t: "t \<in> set (R p)" and w: "wait_obj (thr k t) = None"
  defines "q \<equiv> calculate_thread_priority (proc_priority (prc k (owner (thr k t)))) (priority (thr k t))"
    and "R1 \<equiv> R(p := remove1 t (R p))"
  obtains k' where "update_priority t k = Some k'" "sched_rep k' (R1(q := R1 q @ [t]))"
    "real_priority (thr k' t) = q" "last_priority (thr k' t) = p"
proof -
  define k1 where "k1 = upd_thr t (\<lambda>x. x\<lparr>last_priority := real_priority x\<rparr>) k"
  have rep1: "sched_rep k1 R" using rep by (subst sched_rep_same [of _ k]) (auto simp: k1_def)
  have rd: "in_ready R t" using t by (auto simp: in_ready_def)
  obtain k2 where k2: "dequeue_thread_from_ready t k1 = Some k2" "sched_rep k2 R1" "sched_frame k1 k2"
    using dequeue_refines [OF rep1 t] unfolding R1_def by blast
  define k3 where "k3 = upd_thr t (\<lambda>x. x\<lparr>real_priority :=
    calculate_thread_priority (proc_priority (prc k2 (owner x))) (priority x)\<rparr>) k2"
  have nr: "\<not> in_ready R1 t" unfolding R1_def by (simp only: in_ready_remove1 [OF rep t]) simp
  have rep3: "sched_rep k3 R1" unfolding k3_def by (rule sched_rep_unqueued [OF k2(2) nr])
  note fr = sched_frameD(1,2) [OF k2(3)]
  have q3: "real_priority (thr k3 t) = q" by (simp add: k3_def fr k1_def q_def)
  have "t \<notin> set (R1 q)" using nr by (auto simp: in_ready_def)
  moreover have "q < 64" 
    unfolding q_def by (rule less_trans [OF calculate_thread_priority_less]) simp
  ultimately obtain k4 where k4: "queue_thread_ready t k3 = Some k4" "sched_rep k4 (R1(q := R1 q @ [t]))" "sched_frame k3 k4"
    using queue_thread_ready_refines [OF rep3 _ q3] by blast
  have th4: "thr k4 = thr k3" by (rule sched_frameD(1) [OF k4(3)])
  have links: "nxt (scheduler_links k) t \<noteq> None" "prv (scheduler_links k) t \<noteq> None"
    using linked_iff_in_ready [OF rep, of t] rd by simp_all
  have w4: "wait_obj (thr k4 t) = None" using w by (simp add: th4 k3_def fr k1_def)
  have links1: "nxt (scheduler_links k1) t \<noteq> None" "prv (scheduler_links k1) t \<noteq> None"
    using links by (simp_all add: k1_def)
  have "update_priority t k = Some k4"
    using k2(1) k4(1) links1 w4
    unfolding update_priority_def Let_def k1_def [symmetric] by (simp add: k3_def)
  moreover have "last_priority (thr k4 t) = p"
    using sched_repD(4) [OF rep t] by (simp add: th4 k3_def fr k1_def)
  ultimately show thesis using that k4(2) q3 by (simp add: th4)
qed

lemma sema_ok_cong:
  assumes "sema_ok s k R" "sema k' s = sema k s" "\<And>t. real_priority (thr k' t) = real_priority (thr k t)"
    "\<And>t. wait_obj (thr k' t) = wait_obj (thr k t)" "\<And>t. state (thr k' t) = state (thr k t)"
  shows "sema_ok s k' R"
  using assms pri_key_cong [of k' k] by (simp add: sema_ok_def)

text \<open>A thread in the wait queue of a semaphore is in no ready queue, so a change of its priority only orders that queue anew.\<close>

lemma update_priority_of_waiter:
  assumes rep: "sched_rep k R" and ok: "sema_ok s k R" and t: "t \<in> set (sema_waits (sema k s))"
  defines "q \<equiv> calculate_thread_priority (proc_priority (prc k (owner (thr k t)))) (priority (thr k t))"
  obtains k' where "update_priority t k = Some k'" "sched_rep k' R" "sema_ok s k' R"
    "mset (sema_waits (sema k' s)) = mset (sema_waits (sema k s))" "avail_count (sema k' s) = avail_count (sema k s)"
    "thr k' = (thr k)(t := (thr k t)\<lparr>last_priority := real_priority (thr k t), real_priority := q\<rparr>)"
proof -
  note okd = sema_okD [OF ok]
  define k1 where "k1 = upd_thr t (\<lambda>x. x\<lparr>last_priority := real_priority x\<rparr>) k"
  define k2 where "k2 = upd_thr t (\<lambda>x. x\<lparr>real_priority := calculate_thread_priority (proc_priority (prc k1 (owner x))) (priority x)\<rparr>) k1"
  let ?k = "sema_priority_change s k2"
  have th: "thr ?k = (thr k)(t := (thr k t)\<lparr>last_priority := real_priority (thr k t), real_priority := q\<rparr>)"
    by (simp add: sema_priority_change_def k2_def k1_def q_def)
  have "update_priority t k = Some ?k"
    using okd(4) [OF t] linked_iff_in_ready [OF rep, of t] okd(7) [OF t]
    unfolding update_priority_def Let_def k1_def [symmetric] by (simp add: k2_def k1_def)
  moreover have "sched_rep k2 R"
    unfolding k2_def k1_def using sched_rep_unqueued [OF sched_rep_unqueued [OF rep okd(7) [OF t]] okd(7) [OF t]] .
  then have "sched_rep ?k R" by (simp add: sema_priority_change_def)
  moreover have w: "sema_waits (sema ?k s) = cp_resort (pri_key ?k) (sema_waits (sema k s))"
    by (simp add: sema_priority_change_def k2_def k1_def)
  moreover have c: "avail_count (sema ?k s) = avail_count (sema k s)"
    by (simp add: sema_priority_change_def k2_def k1_def)
  moreover have "sema_ok s ?k R"
  proof -
    have "q < 64" unfolding q_def by (rule less_trans [OF calculate_thread_priority_less]) simp
    moreover have "length (cp_resort (pri_key ?k) (sema_waits (sema k s))) = length (sema_waits (sema k s))"
      by (metis cpq.resort_elems size_mset)
    ultimately show ?thesis using okd unfolding sema_ok_def Let_def w c th by (simp add: cpq.resort_ordered)
  qed
  ultimately show thesis using that th by (metis cpq.resort_elems)
qed

lemma thread_gone_no_logons:
  "thread_count (prc k (owner (thr k t))) \<noteq> 1 \<Longrightarrow> thread_gone t k = Some (decrease_thread_count (owner (thr k t)) k)"
  by (simp add: thread_gone_def decrease_thread_count_def Let_def)

section \<open>Properties\<close>

text \<open>C9. Every real priority the kernel computes is below 32, the range in which the scheduler's
  search for the highest queue is right; and within a process the relative priorities are ordered as
  their names say.\<close>

theorem thread_priority_bounds:
  "calculate_thread_priority pp pri < 32
    \<and> sorted (map (calculate_thread_priority pp) [Priority_much_less, Priority_less, Priority_normal,
        Priority_more, Priority_much_more, Priority_real_time])"
proof
  show "sorted (map (calculate_thread_priority pp) [Priority_much_less, Priority_less, Priority_normal,
        Priority_more, Priority_much_more, Priority_real_time])"
    by (cases pp) (simp_all add: calculate_thread_priority_def pris_def Let_def nth_Cons')
qed (rule calculate_thread_priority_less)

text \<open>C10. Changing the priority of a thread that is in a ready queue and has no wait object (it is not pending on a
  mutex) moves it from its ready queue to the end of the
  queue of its new real priority, computed from the priority of its process, keeps every other thread
  in its place and requests a reschedule.\<close>

theorem set_priority_requeues:
  fixes new_pri :: thread_priority
  assumes "sched_rep k R" and "t \<in> set (R p)" and "wait_obj (thr k t) = None"
  defines "q \<equiv> calculate_thread_priority (proc_priority (prc k (owner (thr k t)))) new_pri"
    and "R1 \<equiv> R(p := remove1 t (R p))"
  shows "\<exists>k'. thread_set_priority t new_pri k = Some k' \<and> sched_rep k' (R1(q := R1 q @ [t]))
    \<and> real_priority (thr k' t) = q \<and> resched_pending k'"
proof -
  let ?k = "upd_thr t (\<lambda>x. x\<lparr>priority := new_pri\<rparr>) k"
  have "sched_rep ?k R" using assms(1) by (subst sched_rep_same [of _ k]) auto
  from update_priority_requeues [OF this assms(2)] assms(3)
  obtain k' where "update_priority t ?k = Some k'" "sched_rep k' (R1(q := R1 q @ [t]))" "real_priority (thr k' t) = q"
    unfolding q_def R1_def by auto
  then show ?thesis by (simp add: thread_set_priority_def)
qed

text \<open>C12. Changing the priority of a thread that waits on a semaphore takes effect in its wait queue at once, whether the
  thread goes up or down: it stays in the wait queue with its new real priority, no other thread, no other member of the
  queue and no ready queue changes, the invariants of the semaphore and of the ready queues are kept and a reschedule is
  requested; and the next signal wakes a waiting thread that is highest by the new priorities.\<close>

theorem set_priority_of_waiter_takes_effect:
  fixes new_pri :: thread_priority
  assumes "sched_rep k R" and "sema_ok s k R" and "t \<in> set (sema_waits (sema k s))"
  defines "W \<equiv> set (sema_waits (sema k s))"
    and "q \<equiv> calculate_thread_priority (proc_priority (prc k (owner (thr k t)))) new_pri"
  shows "\<exists>k1 k2 u. thread_set_priority t new_pri k = Some k1 \<and> resched_pending k1 \<and> sched_rep k1 R \<and> sema_ok s k1 R
    \<and> thr k1 = (thr k)(t := (thr k t)\<lparr>priority := new_pri, last_priority := real_priority (thr k t), real_priority := q\<rparr>)
    \<and> set (sema_waits (sema k1 s)) = W \<and> avail_count (sema k1 s) = avail_count (sema k s)
    \<and> sema_signal s 1 k1 = Some k2 \<and> u \<in> W \<and> state (thr k2 u) = TS_ready \<and> set (sema_waits (sema k2 s)) = W - {u}
    \<and> (\<forall>w \<in> W. real_priority (thr k1 w) \<le> real_priority (thr k1 u))"
proof -
  let ?k = "upd_thr t (\<lambda>x. x\<lparr>priority := new_pri\<rparr>) k"
  have "sched_rep ?k R" using assms(1) by (subst sched_rep_same [of _ k]) auto
  moreover have "sema_ok s ?k R" using assms(2) by (rule sema_ok_cong) simp_all
  ultimately obtain k1 where k1: "update_priority t ?k = Some k1" "sched_rep k1 R" "sema_ok s k1 R"
    "mset (sema_waits (sema k1 s)) = mset (sema_waits (sema k s))" "avail_count (sema k1 s) = avail_count (sema k s)"
    "thr k1 = (thr k)(t := (thr k t)\<lparr>priority := new_pri, last_priority := real_priority (thr k t), real_priority := q\<rparr>)"
    using update_priority_of_waiter [of ?k R s t] assms(3) by (auto simp: q_def)
  let ?k1 = "prepare_reschedule k1"
  have W: "set (sema_waits (sema ?k1 s)) = W" using mset_eq_setD [OF k1(4)] by (simp add: W_def)
  then have "0 < length (sema_waits (sema ?k1 s))" using assms(3) by (auto simp: W_def)
  moreover have "int (length (sema_waits (sema ?k1 s))) = max 0 (- avail_count (sema ?k1 s))" using sema_okD(3) [OF k1(3)] by simp
  ultimately have neg: "avail_count (sema ?k1 s) < 0" by linarith
  have rep: "sched_rep ?k1 R" using k1(2) by simp
  have ok: "sema_ok s ?k1 R" using k1(3) by (rule sema_ok_cong) simp_all
  obtain k2 u where k2: "signal_once s ?k1 = Some k2" "u \<in> W" "\<forall>w \<in> W. real_priority (thr ?k1 w) \<le> real_priority (thr ?k1 u)"
    "set (sema_waits (sema k2 s)) = W - {u}" "thr k2 = (thr ?k1)(u := (thr ?k1 u)\<lparr>state := TS_ready, wait_obj := None\<rparr>)"
    by (rule signal_once_wakes [OF rep ok neg, unfolded W], rule that) assumption+
  have "thread_set_priority t new_pri k = Some ?k1" using k1(1) by (simp add: thread_set_priority_def)
  moreover have "resched_pending ?k1" "avail_count (sema ?k1 s) = avail_count (sema k s)"
    "thr ?k1 = (thr k)(t := (thr k t)\<lparr>priority := new_pri, last_priority := real_priority (thr k t), real_priority := q\<rparr>)"
    using k1(5,6) by simp_all
  moreover have "sema_signal s 1 ?k1 = Some k2" using k2(1) by (simp add: sema_signal_def)
  moreover have "state (thr k2 u) = TS_ready" by (simp add: k2(5))
  ultimately show ?thesis using rep ok W k2(2-4) by blast
qed

text \<open>Killing a thread that waits on a semaphore does not stop it: the scheduler gives up because
  the thread is in no ready queue, the thread keeps its state and its place in the wait queue, and the
  next signals of the semaphore make it ready to run again, though it has been reported as killed.\<close>

theorem killed_waiter_runs_again:
  assumes "sched_rep k R" and "sema_ok s k R" and "t \<in> set (sema_waits (sema k s))"
    and "- (2 ^ 31) \<le> avail_count (sema k s)"
  shows "\<exists>k1 k2. thread_kill t et cat reason k = Some (True, k1)
    \<and> state (thr k1 t) = TS_wait_fast_sema \<and> kill_callbacks k1 = kill_callbacks k @ [(t, cat, reason)]
    \<and> sema_signal s (- avail_count (sema k1 s)) k1 = Some k2 \<and> state (thr k2 t) = TS_ready"
proof -
  note okd = sema_okD [OF assms(2)]
  have nl: "nxt (scheduler_links k) t = None" "prv (scheduler_links k) t = None"
    using linked_iff_in_ready [OF assms(1), of t] okd(7) [OF assms(3)] by simp_all
  let ?tm = "snd (unschedule_event (wakeup_evt k) t (timing k))"
  have stop: "thread_stop t k = Some (False, k\<lparr>timing := ?tm\<rparr>)"
    using nl okd(5) [OF assms(3)] by (simp add: thread_stop_def sched_stop_def)
  define k1 where "k1 = snd (the (thread_kill t et cat reason k))"
  have run: "thread_kill t et cat reason k = Some (True, k1)"
    using okd(5) [OF assms(3)] stop by (simp add: k1_def thread_kill_def Let_def)
  have k1: "thr k1 = (thr k)(t := (thr k t)\<lparr>exit_reason := reason, exit_type := et, exit_category := cat\<rparr>)"
    "sema k1 = sema k" "kill_callbacks k1 = kill_callbacks k @ [(t, cat, reason)]"
    "scheduler_links k1 = scheduler_links k" "readys k1 = readys k" "ready_mask k1 = ready_mask k"
    using okd(5) [OF assms(3)] stop
    by (auto simp: k1_def thread_kill_def Let_def decrease_thread_count_def upd_prc_def upd_thr_def prepare_reschedule_def)
  have rep1: "sched_rep k1 R" using assms(1) by (subst sched_rep_same [of _ k]) (auto simp: k1)
  have ok1: "sema_ok s k1 R" by (rule sema_ok_cong [OF assms(2)]) (auto simp: k1)
  let ?n = "length (sema_waits (sema k s))"
  have ne: "0 < ?n" using assms(3) by (rule length_pos_if_in_set)
  then have c: "avail_count (sema k s) = - int ?n" using okd(3) by linarith
  have "avail_count (sema k1 s) + int ?n < 2 ^ 31" by (simp add: k1 c)
  from signal_loop_wakes [OF rep1 ok1 this] obtain woken k2 where w: "signal_loop ?n s k1 = Some k2"
    "distinct woken" "length woken = ?n" "set woken \<subseteq> set (sema_waits (sema k s))"
    "thr k2 = (\<lambda>t. if t \<in> set woken then (thr k1 t)\<lparr>state := TS_ready, wait_obj := None\<rparr> else thr k1 t)"
    unfolding k1(2) by auto
  have "set woken = set (sema_waits (sema k s))"
    using w(2-4) okd(1) by (intro card_subset_eq) (simp_all add: distinct_card)
  then have "state (thr k2 t) = TS_ready" using w(5) assms(3) by simp
  moreover have "nat (int ?n mod 2 ^ 64) = ?n" using assms(4) c by simp
  then have "sema_signal s (- avail_count (sema k1 s)) k1 = Some k2"
    using w(1) by (simp add: sema_signal_def k1(2) c)
  moreover have "state (thr k1 t) = TS_wait_fast_sema" using okd(5) [OF assms(3)] by (simp add: k1)
  ultimately show ?thesis using run k1(3) by blast
qed

text \<open>Killing a running thread counts it out of its process twice: once when the scheduler stops it
  and once in the kill itself, so that a process with one other thread left has the count 0 and gets
  the exit type of the killed thread, though its logon requests are not answered.\<close>

theorem kill_counts_twice:
  assumes "sched_rep k R" and "t \<in> set (R p)" and "state (thr k t) = TS_run"
    and "thread_count (prc k (owner (thr k t))) = 2"
  shows "\<exists>k'. thread_kill t et cat reason k = Some (True, k') \<and> state (thr k' t) = TS_stop
    \<and> thread_count (prc k' (owner (thr k t))) = 0 \<and> proc_exit_type (prc k' (owner (thr k t))) = et
    \<and> proc_logon_requests (prc k' (owner (thr k t))) = proc_logon_requests (prc k (owner (thr k t)))"
proof -
  define k1 where "k1 = k\<lparr>timing := snd (unschedule_event (wakeup_evt k) t (timing k))\<rparr>"
  have rep1: "sched_rep k1 R" using assms(1) by (simp add: k1_def)
  obtain k2 where k2: "dequeue_thread_from_ready t k1 = Some k2" "sched_frame k1 k2"
    using dequeue_refines [OF rep1 assms(2)] by blast
  note fr = sched_frameD(1,2) [OF k2(2)]
  have gone: "thread_gone t (set_state t TS_stop k2) = Some (decrease_thread_count (owner (thr k t)) (set_state t TS_stop k2))"
    using thread_gone_no_logons [of "set_state t TS_stop k2" t] assms(4) by (simp add: fr k1_def)
  have "thread_stop t k = Some (True, decrease_thread_count (owner (thr k t)) (set_state t TS_stop k2))"
    using assms(3) k2(1) gone by (simp add: thread_stop_def sched_stop_def k1_def Let_def)
  then show ?thesis
    using assms(3,4) fr
    by (simp add: thread_kill_def Let_def decrease_thread_count_def k1_def prepare_reschedule_def upd_thr_def)
qed

text \<open>Suspending a thread that was never queued, when other threads of its real priority are ready,
  follows its null scheduler links.\<close>

theorem suspend_unqueued_undefined:
  assumes "sched_rep k R" and "\<not> in_ready R t" and "state (thr k t) = TS_create"
    and "real_priority (thr k t) < 64" and "R (real_priority (thr k t)) \<noteq> []"
  shows "thread_suspend t k = None"
proof -
  have "dequeue_thread_from_ready t k = None"
    using dequeue_unqueued [OF assms(1) _ assms(4)] assms(2,5) by (simp add: in_ready_def)
  then show ?thesis using assms(3) by (simp add: thread_suspend_def sched_wait_def)
qed

text \<open>Trap frames form a stack: after two frames at mapped, non-null addresses are pushed, they come
  back in reverse order and the thread's trap stack is what it was.\<close>

theorem trap_frames_lifo:
  assumes "user_traps k (owner (thr k t)) a \<noteq> None" and "user_traps k (owner (thr k t)) b \<noteq> None"
    and "a \<noteq> 0" and "b \<noteq> 0" and "a \<noteq> b"
  shows "\<exists>k1 k2. pop_trap_frame t (snd (push_trap_frame t b (snd (push_trap_frame t a k)))) = Some (b, k1)
    \<and> pop_trap_frame t k1 = Some (a, k2) \<and> trap_stack (thr k2 t) = trap_stack (thr k t)"
proof -
  obtain fa fb where f: "user_traps k (owner (thr k t)) a = Some fa" "user_traps k (owner (thr k t)) b = Some fb"
    using assms(1,2) by blast
  define k1 where "k1 = snd (push_trap_frame t a k)"
  have k1: "trap_stack (thr k1 t) = a" "owner (thr k1 t) = owner (thr k t)"
    "user_traps k1 (owner (thr k t)) b = Some fb"
    "user_traps k1 (owner (thr k t)) a = Some \<lparr>next_trap = trap_stack (thr k t), saved_handler = trap_handler (thr k t)\<rparr>"
    using f assms(5) by (simp_all add: k1_def push_trap_frame_def Let_def)
  define k2 where "k2 = snd (push_trap_frame t b k1)"
  have k2: "trap_stack (thr k2 t) = b" "owner (thr k2 t) = owner (thr k t)"
    "user_traps k2 (owner (thr k t)) a = user_traps k1 (owner (thr k t)) a"
    "\<exists>h. user_traps k2 (owner (thr k t)) b = Some \<lparr>next_trap = a, saved_handler = h\<rparr>"
    using k1 assms(5) by (simp_all add: k2_def push_trap_frame_def Let_def)
  define k3 where "k3 = upd_thr t (\<lambda>x. x\<lparr>trap_stack := a\<rparr>) k2"
  have p1: "pop_trap_frame t k2 = Some (b, k3)"
    using k2(1,2,4) assms(4) by (auto simp: pop_trap_frame_def k3_def)
  have "trap_stack (thr k3 t) = a" "user_traps k3 (owner (thr k3 t)) a =
      Some \<lparr>next_trap = trap_stack (thr k t), saved_handler = trap_handler (thr k t)\<rparr>"
    using k2(2,3) k1(4) by (simp_all add: k3_def)
  then have "pop_trap_frame t k3 = Some (a, upd_thr t (\<lambda>x. x\<lparr>trap_stack := trap_stack (thr k t)\<rparr>) k3)"
    using assms(3) by (simp add: pop_trap_frame_def)
  then show ?thesis using p1 unfolding k1_def [symmetric] k2_def [symmetric] by simp
qed

text \<open>A logon that is cancelled: the request is completed with -3, its requester is signalled, and
  the list of requests is as before the logon.\<close>

theorem logon_cancel_roundtrip:
  assumes "state (thr k t) \<noteq> TS_stop" and "crr_thread k = Some c" and "a \<noteq> 0"
    and "\<forall>i \<in> set (logon_requests (thr k t)). sts i \<noteq> a"
    and "user_mem k (owner (thr k c)) a = Some r"
    and "0 \<le> avail_count (sema k (request_sema (thr k c)))" and "avail_count (sema k (request_sema (thr k c))) < 2 ^ 31 - 1"
  shows "\<exists>k1 k2. thread_logon t a False k = Some k1 \<and> thread_logon_cancel t a False k1 = Some (True, k2)
    \<and> logon_requests (thr k2 t) = logon_requests (thr k t)
    \<and> map_option status (user_mem k2 (owner (thr k c)) a) = Some (-3)
    \<and> avail_count (sema k2 (request_sema (thr k c))) = avail_count (sema k (request_sema (thr k c))) + 1"
proof -
  let ?i = "\<lparr>sts = a, requester = Some c\<rparr>" and ?s = "request_sema (thr k c)"
  define k1 where "k1 = upd_thr t (\<lambda>x. x\<lparr>logon_requests := logon_requests x @ [?i]\<rparr>) k"
  have logon: "thread_logon t a False k = Some k1"
    using assms(1,2) by (simp add: thread_logon_def k1_def)
  have find: "find_index (\<lambda>form. sts form = a) (logon_requests (thr k t) @ [?i]) = Some (length (logon_requests (thr k t)))"
    using assms(4) by (auto simp: find_index_Some_iff nth_append)
  define k2 where "k2 = k1\<lparr>user_mem := (user_mem k1)(owner (thr k c) := (user_mem k1 (owner (thr k c)))(a \<mapsto> assign_status (-3) r))\<rparr>"
  define k3 where "k3 = upd_sema ?s (\<lambda>x. x\<lparr>avail_count := avail_count (sema k ?s) + 1\<rparr>) k2"
  have own: "owner (thr k1 c) = owner (thr k c)" "request_sema (thr k1 c) = ?s" by (simp_all add: k1_def)
  have w: "write_status (owner (thr k c)) a (-3) k1 = Some k2"
    using assms(5) by (simp add: write_status_def k1_def k2_def)
  have "signal_once ?s k2 = Some k3"
    using assms(6,7) by (simp add: signal_once_def k3_def k2_def k1_def)
  then have "signal_request c 1 k2 = Some k3"
    using own by (simp add: signal_request_def sema_signal_def k2_def)
  then have "complete (-3) ?i k1 = Some k3"
    using assms(3) w own by (simp add: complete_def)
  then have "thread_logon_cancel t a False k1 = Some (True, upd_thr t (\<lambda>x. x\<lparr>logon_requests :=
      erase_at (length (logon_requests (thr k t))) (logon_requests x)\<rparr>) k3)"
    using find by (simp add: thread_logon_cancel_def k1_def)
  then show ?thesis
    using logon by (simp add: k3_def k2_def k1_def erase_at_def assign_status_def sts_pending_def)
qed

section \<open>Concrete executions\<close>

theorem set_priority_requeues_witness:
  "\<exists>k'. thread_set_priority 2 Priority_absolute_high two_queued = Some k' \<and> real_priority (thr k' 2) = 23"
proof -
  have "2 \<in> set (two_lists 7)" "wait_obj (thr two_queued 2) = None" by (simp_all add: three_threads_def)
  from set_priority_requeues [OF two_queued_rep(1) this, of Priority_absolute_high] show ?thesis
    by (auto simp: calculate_thread_priority_def)
qed

theorem set_priority_of_waiter_takes_effect_witness:
  "\<exists>k k1 k2. sema_wait 9 running_kern = Some k \<and> thread_set_priority 2 Priority_absolute_high k = Some k1
    \<and> real_priority (thr k1 2) = 23 \<and> sema_signal 9 1 k1 = Some k2 \<and> state (thr k2 2) = TS_ready"
proof -
  obtain k where k: "sema_wait 9 running_kern = Some k" "sched_rep k (two_lists(7 := remove1 2 (two_lists 7)))"
    "sema_ok 9 k (two_lists(7 := remove1 2 (two_lists 7)))" "set (sema_waits (sema k 9)) = {2}"
    using running_kern_wait by blast
  have "2 \<in> set (sema_waits (sema k 9))" using k(4) by simp
  from set_priority_of_waiter_takes_effect [OF k(2,3) this, of Priority_absolute_high] k(1,4) show ?thesis
    by (auto simp: calculate_thread_priority_def)
qed
theorem killed_waiter_runs_again_witness:
  "\<exists>k k1 k2. sema_wait 9 running_kern = Some k \<and> thread_kill 2 Exit_kill ''None'' 5 k = Some (True, k1)
    \<and> sema_signal 9 (- avail_count (sema k1 9)) k1 = Some k2 \<and> state (thr k2 2) = TS_ready"
proof -
  obtain k where k: "sema_wait 9 running_kern = Some k" "sched_rep k (two_lists(7 := remove1 2 (two_lists 7)))"
    "sema_ok 9 k (two_lists(7 := remove1 2 (two_lists 7)))" "set (sema_waits (sema k 9)) = {2}"
    "avail_count (sema k 9) = -1"
    using running_kern_wait by blast
  have "2 \<in> set (sema_waits (sema k 9))" "- (2 ^ 31) \<le> avail_count (sema k 9)" using k(4,5) by simp_all
  from killed_waiter_runs_again [OF k(2,3) this, of Exit_kill "''None''" 5] k(1) show ?thesis by blast
qed

theorem kill_counts_twice_witness:
  "\<exists>k'. thread_kill 2 Exit_kill ''None'' 5 (upd_prc 0 (\<lambda>x. x\<lparr>thread_count := 2\<rparr>) running_kern) = Some (True, k')
    \<and> thread_count (prc k' 0) = 0 \<and> proc_exit_type (prc k' 0) = Exit_kill"
proof -
  let ?k = "upd_prc 0 (\<lambda>x. x\<lparr>thread_count := 2\<rparr>) running_kern"
  have "sched_rep ?k two_lists" using running_kern_rep by simp
  moreover have "2 \<in> set (two_lists 7)" "state (thr ?k 2) = TS_run" "thread_count (prc ?k (owner (thr ?k 2))) = 2"
    by simp_all
  ultimately have "\<exists>k'. thread_kill 2 Exit_kill ''None'' 5 ?k = Some (True, k') \<and> state (thr k' 2) = TS_stop
    \<and> thread_count (prc k' (owner (thr ?k 2))) = 0 \<and> proc_exit_type (prc k' (owner (thr ?k 2))) = Exit_kill
    \<and> proc_logon_requests (prc k' (owner (thr ?k 2))) = proc_logon_requests (prc ?k (owner (thr ?k 2)))"
    by (rule kill_counts_twice)
  then show ?thesis by auto
qed

theorem suspend_unqueued_undefined_witness: "thread_suspend 4 two_queued = None"
  by (rule suspend_unqueued_undefined [OF two_queued_rep(1)]) (simp_all add: in_ready_def three_threads_def)

definition trap_kern :: kern where
  "trap_kern = (fresh_kern three_threads)\<lparr>user_traps := (\<lambda>p. [64 \<mapsto> \<lparr>next_trap = 0, saved_handler = 0\<rparr>,
     128 \<mapsto> \<lparr>next_trap = 0, saved_handler = 0\<rparr>]),
     user_mem := (\<lambda>p. [256 \<mapsto> \<lparr>status = sts_pending, flags = 2\<rparr>]), crr_thread := Some 1\<rparr>"

theorem trap_frames_lifo_witness:
  "\<exists>k1 k2. pop_trap_frame 1 (snd (push_trap_frame 1 128 (snd (push_trap_frame 1 64 trap_kern)))) = Some (128, k1)
    \<and> pop_trap_frame 1 k1 = Some (64, k2) \<and> trap_stack (thr k2 1) = trap_stack (thr trap_kern 1)"
  by (rule trap_frames_lifo) (simp_all add: trap_kern_def)

theorem logon_cancel_roundtrip_witness:
  "\<exists>k1 k2. thread_logon 2 256 False trap_kern = Some k1 \<and> thread_logon_cancel 2 256 False k1 = Some (True, k2)
    \<and> map_option status (user_mem k2 0 256) = Some (-3)"
proof -
  have "state (thr trap_kern 2) \<noteq> TS_stop" "crr_thread trap_kern = Some 1" "(256 :: u32) \<noteq> 0"
    "\<forall>i \<in> set (logon_requests (thr trap_kern 2)). sts i \<noteq> 256"
    "user_mem trap_kern (owner (thr trap_kern 1)) 256 = Some \<lparr>status = sts_pending, flags = 2\<rparr>"
    "0 \<le> avail_count (sema trap_kern (request_sema (thr trap_kern 1)))"
    "avail_count (sema trap_kern (request_sema (thr trap_kern 1))) < 2 ^ 31 - 1"
    by (simp_all add: trap_kern_def three_threads_def fresh_thread_def fresh_kern_def)
  from logon_cancel_roundtrip [OF this] show ?thesis by (auto simp: trap_kern_def)
qed

end
