(* ===== verification/Object_Ix.thy ===== *)
theory Object_Ix imports Prelude begin

text \<open>
  Handles: the table \<open>object_ix\<close> of \<open>kernel/object_ix.cpp\<close> that maps handles to kernel objects, the
  attributes of a kernel object (\<open>kernel/kernel_obj.cpp\<close>), and the functions of \<open>kernel/kernel.cpp\<close>
  that route a handle to one of the tables and look objects up by id.
\<close>

section \<open>Kernel objects\<close>

type_synonym oid = u64

datatype object_type = OT_thread | OT_process | OT_chunk | OT_library | OT_sema | OT_mutex | OT_timer
  | OT_server | OT_session | OT_logical_device | OT_physical_device | OT_logical_channel
  | OT_change_notifier | OT_undertaker | OT_msg_queue | OT_prop_ref | OT_codeseg | OT_prop | OT_unk

record kernel_obj =
  obj_name :: string
  obj_owner :: "oid option"
  global_access :: bool
  obj_type :: object_type
  access_count :: int
  is_chunk_heap :: bool

text \<open>The constructor drops one trailing null character of the name.\<close>

definition obj_name_of :: "string \<Rightarrow> string" where
  "obj_name_of s = (if s \<noteq> [] \<and> last s = CHR 0x00 then butlast s else s)"

text \<open>\<open>full_name\<close> follows the owners; the recursion is bounded, an owner cycle would not end.\<close>

fun full_name :: "nat \<Rightarrow> (oid \<Rightarrow> kernel_obj) \<Rightarrow> oid \<Rightarrow> string \<Rightarrow> string undef" where
  "full_name 0 objs ob acc = None"
| "full_name (Suc n) objs ob acc =
     (case obj_owner (objs ob) of
        Some p \<Rightarrow>
          if \<not> global_access (objs ob) then do {
            acc \<leftarrow> full_name n objs p acc;
            Some (acc @ ''::'' @ obj_name (objs ob))
          } else Some (acc @ obj_name (objs ob))
      | None \<Rightarrow> Some (acc @ obj_name (objs ob)))"

section \<open>Inspecting a handle\<close>

record handle_inspect_info =
  handle_array_local :: bool
  handle_array_kernel :: bool
  object_ix_index :: nat
  object_ix_next_instance :: nat
  no_close :: bool
  special :: bool

definition inspect_handle :: "u32 \<Rightarrow> handle_inspect_info" where
  "inspect_handle h = \<lparr>
     handle_array_local = (and (drop_bit 30 h) 0xf = 1),
     handle_array_kernel = (and h (push_bit 29 1) \<noteq> 0),
     object_ix_index = unat (and h 0x7FFF),
     object_ix_next_instance = unat (and (drop_bit 16 h) 0x1FFF),
     no_close = (and h 0x8000 \<noteq> 0),
     special = (drop_bit 31 h = 1)\<rparr>"

section \<open>The table\<close>

datatype handle_array_owner = By_thread | By_process | By_kernel

record object_ix_record =
  object :: "oid option"
  associated_handle :: u32
  slot_free :: bool

record object_ix =
  next_instance :: u64
  objects :: "object_ix_record list"
  handles :: "u32 list"
  ix_owner :: handle_array_owner
  totals :: u64

definition INVALID_HANDLE :: u32 where
  "INVALID_HANDLE = 0xFFFFFFFF"

definition empty_record :: object_ix_record where
  "empty_record = \<lparr>object = None, associated_handle = 0, slot_free = True\<rparr>"

definition new_object_ix :: "handle_array_owner \<Rightarrow> object_ix" where
  "new_object_ix ow = \<lparr>next_instance = 0, objects = replicate 0x100 empty_record, handles = [],
     ix_owner = ow, totals = 0\<rparr>"

definition make_handle :: "nat \<Rightarrow> object_ix \<Rightarrow> u32 \<times> object_ix" where
  "make_handle index ix = (
     let h = push_bit 16 (ucast (and (next_instance ix) 0xFFFF));
         h = or h (of_nat index);
         h = (if ix_owner ix = By_thread then or h 0x40000000 else h);
         h = (if ix_owner ix = By_kernel then or h (push_bit 29 1) else h)
     in (h, ix\<lparr>handles := handles ix @ [h]\<rparr>))"

type_synonym obj_store = "oid \<Rightarrow> kernel_obj"

definition add_access :: "int \<Rightarrow> oid \<Rightarrow> obj_store \<Rightarrow> obj_store" where
  "add_access d ob objs = objs(ob := (objs ob)\<lparr>access_count := access_count (objs ob) + d\<rparr>)"

definition add_object :: "oid \<Rightarrow> object_ix \<times> obj_store \<Rightarrow> u32 \<times> object_ix \<times> obj_store" where
  "add_object ob s = (case s of (ix, objs) \<Rightarrow>
     (case find_index slot_free (objects ix) of
        Some slot \<Rightarrow>
          let ix = ix\<lparr>next_instance := next_instance ix + 1\<rparr>;
              (ret_handle, ix) = make_handle slot ix;
              rec = \<lparr>object = Some ob, associated_handle = ret_handle, slot_free = False\<rparr>;
              ix = ix\<lparr>objects := (objects ix)[slot := rec]\<rparr>;
              objs = add_access 1 ob objs
          in (ret_handle, ix\<lparr>totals := totals ix + 1\<rparr>, objs)
      | None \<Rightarrow> (INVALID_HANDLE, ix, objs)))"

definition last_handle :: "object_ix \<Rightarrow> u32 \<times> object_ix" where
  "last_handle ix = (if handles ix = [] then (0, ix)
     else (last (handles ix), ix\<lparr>handles := butlast (handles ix)\<rparr>))"

definition get_object :: "u32 \<Rightarrow> object_ix \<Rightarrow> oid option" where
  "get_object h ix = (
     let i = object_ix_index (inspect_handle h) in
     if i < length (objects ix) then
       if slot_free (objects ix ! i) then None else object (objects ix ! i)
     else None)"

definition duplicate :: "u32 \<Rightarrow> object_ix \<times> obj_store \<Rightarrow> u32 \<times> object_ix \<times> obj_store" where
  "duplicate h s =
     (if \<not> handle_array_local (inspect_handle h) \<and> ix_owner (fst s) = By_process then (INVALID_HANDLE, s)
      else case get_object h (fst s) of
             None \<Rightarrow> (INVALID_HANDLE, s)
           | Some ob \<Rightarrow> add_object ob s)"

text \<open>\<open>close\<close>: the third result is the object the kernel destroys, if any; the virtual \<open>close()\<close> of the
  object is empty for every class of the kernel.\<close>

definition close_handle :: "u32 \<Rightarrow> object_ix \<times> obj_store \<Rightarrow> int \<times> oid option \<times> object_ix \<times> obj_store" where
  "close_handle h s = (case s of (ix, objs) \<Rightarrow>
     let i = object_ix_index (inspect_handle h) in
     if i < length (objects ix) then
       (case object (objects ix ! i) of
          None \<Rightarrow> (-1, None, ix, objs)
        | Some ob \<Rightarrow>
            let objs = add_access (-1) ob objs;
                ix = ix\<lparr>totals := totals ix - 1\<rparr>;
                dead = (access_count (objs ob) \<le> 0 \<and> obj_type (objs ob) \<noteq> OT_process
                        \<and> obj_type (objs ob) \<noteq> OT_thread);
                ret_value = (if dead \<and> obj_type (objs ob) = OT_chunk \<and> is_chunk_heap (objs ob) then 1 else 0);
                ix = ix\<lparr>objects := (objects ix)[i := (objects ix ! i)\<lparr>slot_free := True, object := None\<rparr>]\<rparr>
            in (ret_value, if dead then Some ob else None, ix, objs))
     else (-1, None, ix, objs))"

definition ix_has :: "oid option \<Rightarrow> object_ix \<Rightarrow> bool" where
  "ix_has ob ix = list_ex (\<lambda>r. object r = ob \<and> \<not> slot_free r) (objects ix)"

definition ix_count :: "oid option \<Rightarrow> object_ix \<Rightarrow> nat" where
  "ix_count ob ix = length (filter (\<lambda>r. \<not> slot_free r \<and> object r = ob) (objects ix))"

section \<open>Routing\<close>

text \<open>The three tables a handle can belong to, seen from the running thread.\<close>

datatype table = Kernel_table | Thread_table | Process_table

definition route :: "u32 \<Rightarrow> table" where
  "route h = (if handle_array_local (inspect_handle h) then Thread_table
     else if handle_array_kernel (inspect_handle h) then Kernel_table else Process_table)"

datatype raw_object = Current_process | Current_thread | From_table "oid option"

definition get_kernel_obj_raw :: "(table \<Rightarrow> object_ix) \<Rightarrow> u32 \<Rightarrow> raw_object" where
  "get_kernel_obj_raw tables h =
     (if and h (not 0x8000) = 0xFFFF0000 then Current_process
      else if and h (not 0x8000) = 0xFFFF0001 then Current_thread
      else From_table (get_object h (tables (route h))))"

definition kernel_close :: "u32 \<Rightarrow> (table \<Rightarrow> object_ix) \<times> obj_store \<Rightarrow> int \<times> oid option \<times> (table \<Rightarrow> object_ix) \<times> obj_store" where
  "kernel_close h s =
     (if no_close (inspect_handle h) then (-1, None, s)
      else let tb = route h;
               (r, dead, ix, objs) = close_handle h (fst s tb, snd s)
           in (r, dead, (fst s)(tb := ix), objs))"

definition open_handle :: "table \<Rightarrow> oid \<Rightarrow> (table \<Rightarrow> object_ix) \<times> obj_store \<Rightarrow> u32 \<times> (table \<Rightarrow> object_ix) \<times> obj_store" where
  "open_handle tb ob s = (let (h, ix, objs) = add_object ob (fst s tb, snd s) in (h, (fst s)(tb := ix), objs))"

section \<open>Objects by id\<close>

text \<open>The objects of a type are kept in the order of their ids; \<open>get_by_id\<close> takes the first one that is
  not below the id asked for.\<close>

definition get_by_id :: "oid \<Rightarrow> oid list \<Rightarrow> oid option" where
  "get_by_id uid obj_map = (case dropWhile (\<lambda>x. x < uid) obj_map of [] \<Rightarrow> None | x # _ \<Rightarrow> Some x)"

definition kernel_destroy :: "oid \<Rightarrow> oid list \<Rightarrow> bool \<times> oid list" where
  "kernel_destroy uid obj_map = (case dropWhile (\<lambda>x. x < uid) obj_map of
     [] \<Rightarrow> (False, obj_map)
   | x # rest \<Rightarrow> (True, takeWhile (\<lambda>x. x < uid) obj_map @ rest))"

section \<open>Lemmas\<close>

definition ix_ok :: "object_ix \<Rightarrow> bool" where
  "ix_ok ix \<longleftrightarrow> length (objects ix) = 0x100 \<and> (\<forall>r \<in> set (objects ix). slot_free r \<longleftrightarrow> object r = None)"

lemma ix_okD:
  assumes "ix_ok ix"
  shows "length (objects ix) = 0x100" "i < 0x100 \<Longrightarrow> slot_free (objects ix ! i) \<longleftrightarrow> object (objects ix ! i) = None"
  using assms by (auto simp: ix_ok_def)

lemma ix_ok_update:
  assumes "ix_ok ix" "slot_free r \<longleftrightarrow> object r = None"
  shows "ix_ok (ix\<lparr>objects := (objects ix)[i := r]\<rparr>)"
  using assms set_update_subset_insert [of "objects ix" i r] by (auto simp: ix_ok_def)

lemma mask15: "and (h :: u32) 0x7FFF = take_bit 15 h"
  by (simp add: take_bit_eq_mask mask_eq_exp_minus_1)

lemma make_handle_index:
  assumes "index < 0x100"
  shows "object_ix_index (inspect_handle (fst (make_handle index ix))) = index"
proof -
  have i: "take_bit 15 (of_nat index :: u32) = of_nat index"
    using assms by (subst of_nat_take_bit [symmetric]) (simp add: take_bit_nat_eq_self)
  have p: "take_bit 15 (push_bit 16 w) = (0 :: u32)" for w :: u32
    by (rule bit_word_eqI) (auto simp: bit_simps)
  have "and (fst (make_handle index ix)) 0x7FFF = of_nat index"
    unfolding mask15 by (simp add: make_handle_def Let_def take_bit_or p i)
  moreover have "unat (of_nat index :: u32) = index"
    using assms by (simp add: unat_of_nat)
  ultimately show ?thesis by (simp add: inspect_handle_def)
qed

lemma make_handle_objects [simp]: "objects (snd (make_handle i ix)) = objects ix" "totals (snd (make_handle i ix)) = totals ix"
  "ix_owner (snd (make_handle i ix)) = ix_owner ix"
  by (simp_all add: make_handle_def Let_def)

lemma get_object_eq:
  "ix_ok ix \<Longrightarrow> get_object h ix = (if object_ix_index (inspect_handle h) < 0x100
     then object (objects ix ! object_ix_index (inspect_handle h)) else None)"
  using ix_okD [of ix] by (auto simp: get_object_def Let_def)

lemma add_object_slot:
  assumes ok: "ix_ok ix" and slot: "find_index slot_free (objects ix) = Some i"
  obtains h ix' where "add_object ob (ix, objs) = (h, ix', add_access 1 ob objs)" "ix_ok ix'"
    "object_ix_index (inspect_handle h) = i" "i < 0x100" "totals ix' = totals ix + 1"
    "objects ix' = (objects ix)[i := \<lparr>object = Some ob, associated_handle = h, slot_free = False\<rparr>]"
    "get_object h ix = None" "ix_owner ix' = ix_owner ix"
proof -
  have i: "i < 0x100" "slot_free (objects ix ! i)"
    using find_index_SomeD [OF slot] ix_okD(1) [OF ok] by simp_all
  define ix1 where "ix1 = ix\<lparr>next_instance := next_instance ix + 1\<rparr>"
  define h where "h = fst (make_handle i ix1)"
  define ix2 where "ix2 = (snd (make_handle i ix1))\<lparr>objects :=
    (objects ix)[i := \<lparr>object = Some ob, associated_handle = h, slot_free = False\<rparr>]\<rparr>"
  have o1: "objects (snd (make_handle i ix1)) = objects ix" "totals (snd (make_handle i ix1)) = totals ix"
    by (simp_all add: ix1_def)
  have add: "add_object ob (ix, objs) = (h, ix2\<lparr>totals := totals ix2 + 1\<rparr>, add_access 1 ob objs)"
  proof -
    obtain g ixg where g: "make_handle i ix1 = (g, ixg)" by fastforce
    then have "objects ixg = objects ix" using o1(1) by simp
    then show ?thesis using g by (simp add: add_object_def h_def ix2_def slot Let_def flip: ix1_def)
  qed
  have idx: "object_ix_index (inspect_handle h) = i" unfolding h_def by (rule make_handle_index [OF i(1)])
  have "ix_ok (ix2\<lparr>totals := totals ix2 + 1\<rparr>)"
    using ok set_update_subset_insert [of "objects ix" i] by (force simp: ix_ok_def ix2_def)
  moreover have "get_object h ix = None"
    using i ok by (simp add: get_object_def idx ix_okD(1) [OF ok])
  ultimately show thesis
    using that [OF add] idx i(1) o1(2) by (simp add: ix2_def ix1_def)
qed

lemma close_handle_slot:
  assumes ok: "ix_ok ix" and h: "get_object h ix = Some ob"
  defines "i \<equiv> object_ix_index (inspect_handle h)"
  shows "\<exists>ret dead ix'. close_handle h (ix, objs) = (ret, dead, ix', add_access (-1) ob objs) \<and> ix_ok ix'
    \<and> objects ix' = (objects ix)[i := (objects ix ! i)\<lparr>slot_free := True, object := None\<rparr>]
    \<and> totals ix' = totals ix - 1 \<and> ix_owner ix' = ix_owner ix
    \<and> (dead = (if access_count (objs ob) \<le> 1 \<and> obj_type (objs ob) \<notin> {OT_process, OT_thread} then Some ob else None))"
proof -
  have i: "i < 0x100" "object (objects ix ! i) = Some ob"
    using h get_object_eq [OF ok, of h] by (auto simp: i_def split: if_splits)
  let ?ix = "ix\<lparr>totals := totals ix - 1, objects := (objects ix)[i := (objects ix ! i)\<lparr>slot_free := True, object := None\<rparr>]\<rparr>"
  have "ix_ok ?ix"
    using ok set_update_subset_insert [of "objects ix" i] by (force simp: ix_ok_def)
  then show ?thesis
    using i ix_okD(1) [OF ok]
    by (simp add: close_handle_def i_def [symmetric] Let_def) (auto simp: add_access_def)
qed

section \<open>The interface of a handle table\<close>

text \<open>The clients of a table open an object, look it up and close the handle; \<open>same\<close> says that two
  handles name the same slot.\<close>

locale handle_table =
  fixes add :: "'o \<Rightarrow> 's \<Rightarrow> 'h \<times> 's"
    and get :: "'h \<Rightarrow> 's \<Rightarrow> 'o option"
    and close :: "'h \<Rightarrow> 's \<Rightarrow> 's"
    and same :: "'h \<Rightarrow> 'h \<Rightarrow> bool"
    and ok :: "'s \<Rightarrow> bool"
    and room :: "'s \<Rightarrow> bool"
  assumes add_law: "ok s \<Longrightarrow> room s \<Longrightarrow> add ob s = (h, s') \<Longrightarrow>
      ok s' \<and> get h s = None \<and> get h s' = Some ob \<and> (\<forall>g. \<not> same g h \<longrightarrow> get g s' = get g s)"
    and close_law: "ok s \<Longrightarrow> get h s \<noteq> None \<Longrightarrow>
      ok (close h s) \<and> get h (close h s) = None \<and> (\<forall>g. \<not> same g h \<longrightarrow> get g (close h s) = get g s)"
    and same_get: "ok s \<Longrightarrow> same g h \<Longrightarrow> get g s = get h s"
begin

lemma add_close:
  assumes "ok s" "room s" "add ob s = (h, s')"
  shows "ok (close h s') \<and> get g (close h s') = get g s"
proof -
  note a = add_law [OF assms]
  then have c: "ok (close h s')" "get h (close h s') = None" "\<forall>g. \<not> same g h \<longrightarrow> get g (close h s') = get g s'"
    using close_law [of s' h] by simp_all
  show ?thesis
  proof (cases "same g h")
    case True
    then show ?thesis using same_get [OF c(1) True] same_get [OF assms(1) True] c a by simp
  next
    case False
    then show ?thesis using c a by simp
  qed
qed

lemma add_fresh:
  assumes "ok s" "room s" "add ob s = (h, s')" "get g s = Some ob'"
  shows "g \<noteq> h \<and> get g s' = Some ob'"
proof -
  note a = add_law [OF assms(1-3)]
  have "\<not> same g h" using same_get [OF assms(1), of g h] a assms(4) by auto
  then show ?thesis using a assms(4) by auto
qed

end

definition table_room :: "object_ix \<times> obj_store \<Rightarrow> bool" where
  "table_room s \<longleftrightarrow> (\<exists>r \<in> set (objects (fst s)). slot_free r)"

definition close_table :: "u32 \<Rightarrow> object_ix \<times> obj_store \<Rightarrow> object_ix \<times> obj_store" where
  "close_table h s = snd (snd (close_handle h s))"

lemma table_add_law:
  assumes "ix_ok (fst s)" "table_room s" "add_object ob s = (h, s')"
  shows "ix_ok (fst s') \<and> get_object h (fst s) = None \<and> get_object h (fst s') = Some ob
    \<and> (\<forall>g. object_ix_index (inspect_handle g) \<noteq> object_ix_index (inspect_handle h)
        \<longrightarrow> get_object g (fst s') = get_object g (fst s))"
proof -
  obtain ix objs where s: "s = (ix, objs)" by fastforce
  obtain i where i: "find_index slot_free (objects ix) = Some i"
    using assms(2) find_index_None_iff [of slot_free "objects ix"] s
    by (cases "find_index slot_free (objects ix)") (auto simp: table_room_def)
  have ok: "ix_ok ix" using assms(1) s by simp
  obtain g ix' where a: "add_object ob (ix, objs) = (g, ix', add_access 1 ob objs)" "ix_ok ix'"
    "object_ix_index (inspect_handle g) = i" "i < 0x100"
    "objects ix' = (objects ix)[i := \<lparr>object = Some ob, associated_handle = g, slot_free = False\<rparr>]"
    "get_object g ix = None"
    by (rule add_object_slot [OF ok i])
  have hs: "g = h" "s' = (ix', add_access 1 ob objs)" using a(1) assms(3) s by auto
  show ?thesis
    using a ok s unfolding hs by (auto simp: get_object_eq ix_okD(1) nth_list_update)
qed

lemma table_close_law:
  assumes "ix_ok (fst s)" "get_object h (fst s) \<noteq> None"
  shows "ix_ok (fst (close_table h s)) \<and> get_object h (fst (close_table h s)) = None
    \<and> (\<forall>g. object_ix_index (inspect_handle g) \<noteq> object_ix_index (inspect_handle h)
        \<longrightarrow> get_object g (fst (close_table h s)) = get_object g (fst s))"
proof -
  obtain ix objs where s: "s = (ix, objs)" by fastforce
  obtain ob where ob: "get_object h ix = Some ob" using assms(2) s by auto
  have ok: "ix_ok ix" using assms(1) s by simp
  then have i: "object_ix_index (inspect_handle h) < 0x100"
    using ob by (simp add: get_object_eq split: if_splits)
  from close_handle_slot [OF ok ob, of objs] obtain ret dead ix' where
    c: "close_handle h (ix, objs) = (ret, dead, ix', add_access (-1) ob objs)" "ix_ok ix'"
      "objects ix' = (objects ix)[object_ix_index (inspect_handle h) :=
        (objects ix ! object_ix_index (inspect_handle h))\<lparr>slot_free := True, object := None\<rparr>]"
    by auto
  show ?thesis
    using c ok s i by (auto simp: close_table_def get_object_eq ix_okD(1) nth_list_update)
qed

interpretation ht: handle_table add_object "\<lambda>h s. get_object h (fst s)" close_table
    "\<lambda>g h. object_ix_index (inspect_handle g) = object_ix_index (inspect_handle h)" "\<lambda>s. ix_ok (fst s)" table_room
proof unfold_locales
  fix s :: "object_ix \<times> obj_store" and ob h s'
  assume "ix_ok (fst s)" "table_room s" "add_object ob s = (h, s')"
  then show "ix_ok (fst s') \<and> get_object h (fst s) = None \<and> get_object h (fst s') = Some ob
    \<and> (\<forall>g. object_ix_index (inspect_handle g) \<noteq> object_ix_index (inspect_handle h)
        \<longrightarrow> get_object g (fst s') = get_object g (fst s))"
    by (rule table_add_law)
next
  fix s :: "object_ix \<times> obj_store" and h
  assume "ix_ok (fst s)" "get_object h (fst s) \<noteq> None"
  then show "ix_ok (fst (close_table h s)) \<and> get_object h (fst (close_table h s)) = None
    \<and> (\<forall>g. object_ix_index (inspect_handle g) \<noteq> object_ix_index (inspect_handle h)
        \<longrightarrow> get_object g (fst (close_table h s)) = get_object g (fst s))"
    by (rule table_close_law)
qed (simp add: get_object_eq)

section \<open>Properties\<close>

text \<open>C7. Opening an object and closing the handle again leaves the table as it was for every handle,
  and the object with its old access count; in between the handle yields the object, is a new one, and
  every handle that yielded an object still yields the same one. The object is destroyed with the
  handle exactly when nothing else uses it and it is neither a process nor a thread.\<close>

theorem handle_open_close:
  assumes "ix_ok ix" and "table_room (ix, objs)" and "add_object ob (ix, objs) = (h, s1)"
    and "close_handle h s1 = (ret, dead, s2)"
  shows "get_object h (fst s1) = Some ob \<and> (\<forall>g ob'. get_object g ix = Some ob' \<longrightarrow> g \<noteq> h \<and> get_object g (fst s1) = Some ob')
    \<and> ix_ok (fst s2) \<and> (\<forall>g. get_object g (fst s2) = get_object g ix) \<and> access_count (snd s2 ob) = access_count (objs ob)
    \<and> (dead = (if access_count (objs ob) \<le> 0 \<and> obj_type (objs ob) \<notin> {OT_process, OT_thread} then Some ob else None))"
proof -
  have ok: "ix_ok (fst (ix, objs))" using assms(1) by simp
  note a = ht.add_law [OF ok assms(2,3)]
  have s2: "s2 = close_table h s1" using assms(4) by (simp add: close_table_def)
  note c = ht.add_close [OF ok assms(2,3), folded s2]
  have o1: "snd s1 = add_access 1 ob objs"
  proof -
    obtain i where i: "find_index slot_free (objects ix) = Some i"
      using assms(2) find_index_None_iff [of slot_free "objects ix"]
      by (cases "find_index slot_free (objects ix)") (auto simp: table_room_def)
    show ?thesis by (rule add_object_slot [OF assms(1) i, of ob objs]) (use assms(3) in auto)
  qed
  obtain ix1 where s1: "s1 = (ix1, add_access 1 ob objs)" using o1 by (cases s1) auto
  have "ix_ok ix1" "get_object h ix1 = Some ob" using a s1 by auto
  from close_handle_slot [OF this, of "add_access 1 ob objs"] assms(4) s1
  have "dead = (if access_count (objs ob) \<le> 0 \<and> obj_type (objs ob) \<notin> {OT_process, OT_thread} then Some ob else None)"
    "snd s2 = add_access (-1) ob (add_access 1 ob objs)"
    by (auto simp: add_access_def)
  then show ?thesis
    using a c ht.add_fresh [OF ok assms(2,3)] by (auto simp: add_access_def)
qed

text \<open>C8. The instance number of a handle runs into the bits that say which table the handle belongs
  to: below 8192 the handles of a process are looked up in the table of the process, from then on, up
  to 16383, in that of the kernel.\<close>

theorem process_handle_routing:
  assumes "ix_ok ix" and "table_room (ix, objs)" and "ix_owner ix = By_process"
    and "unat (next_instance ix) + 1 < 0x4000"
  shows "route (fst (add_object ob (ix, objs)))
    = (if unat (next_instance ix) + 1 < 0x2000 then Process_table else Kernel_table)"
proof -
  obtain i where i: "find_index slot_free (objects ix) = Some i"
    using assms(2) find_index_None_iff [of slot_free "objects ix"]
    by (cases "find_index slot_free (objects ix)") (auto simp: table_room_def)
  have i256: "i < 0x100" using find_index_SomeD(1) [OF i] ix_okD(1) [OF assms(1)] by simp
  define n where "n = next_instance ix + 1"
  have un: "unat n = unat (next_instance ix) + 1"
    using assms(4) by (subst n_def, subst unat_add_lem [THEN iffD1]) auto
  define h where "h = or (push_bit 16 (ucast (and n 0xFFFF))) (of_nat i :: u32)"
  have h: "fst (add_object ob (ix, objs)) = h"
    using i assms(3) by (simp add: add_object_def make_handle_def Let_def h_def n_def)
  have bn: "bit n j \<longleftrightarrow> bit (unat n) j" for j
    by (simp add: bit_simps)
  have high: "\<not> bit n j" if "14 \<le> j" for j
  proof -
    have "unat n < 2 ^ j" using assms(4) un power_increasing [OF that, of "2 :: nat"] by simp
    then have "\<not> bit (unat n) j" by (simp only: bit_iff_odd div_less) simp
    then show ?thesis by (simp only: bn not_False_eq_True)
  qed
  have b13: "bit n 13 \<longleftrightarrow> \<not> unat n < 0x2000"
  proof (cases "unat n < 0x2000")
    case True
    then have "unat n div 2 ^ 13 = 0" by simp
    then have "\<not> bit (unat n) 13" by (simp only: bit_iff_odd) simp
    then show ?thesis using True by (simp only: bn simp_thms)
  next
    case False
    then have "unat n div 2 ^ 13 = 1" using assms(4) un by (intro div_nat_eqI) auto
    then have "bit (unat n) 13" by (simp only: bit_iff_odd) simp
    then show ?thesis using False by (simp only: bn simp_thms)
  qed
  have bi: "\<not> bit i j" if "8 \<le> j" for j
  proof -
    have "i < 2 ^ j" using i256 power_increasing [OF that, of "2 :: nat"] by simp
    then show ?thesis by (simp add: bit_iff_odd)
  qed
  have bit_h: "bit h j \<longleftrightarrow> bit n (j - 16)" if "16 \<le> j" "j < 32" for j
  proof -
    have m: "(0xFFFF :: u64) = mask 16" by (simp add: mask_eq_exp_minus_1)
    have "bit (of_nat i :: u32) j \<longleftrightarrow> False" using bi [of j] that by (simp add: bit_simps)
    then show ?thesis using that high [of "j - 16"]
      by (simp only: h_def m bit_or_iff bit_push_bit_iff bit_ucast_iff bit_and_iff bit_mask_iff) auto
  qed
  have hh: "\<not> bit h (30 + k)" for k
    by (cases "30 + k < 32") (use bit_h [of "30 + k"] high [of "14 + k"] in \<open>auto dest: bit_imp_le_length\<close>)
  have "drop_bit 30 h = 0"
    by (rule bit_word_eqI) (use hh in \<open>simp add: bit_simps\<close>)
  then have l: "\<not> handle_array_local (inspect_handle h)" by (simp add: inspect_handle_def)
  have "handle_array_kernel (inspect_handle h) \<longleftrightarrow> bit h 29"
    by (simp add: inspect_handle_def bit_iff_and_push_bit_not_eq_0)
  then show ?thesis using l bit_h [of 29] b13 un by (simp add: h route_def)
qed

text \<open>The instance number is never compared: when the object of a handle has been closed and another
  object opened, the old handle yields the new object.\<close>

theorem stale_handle_aliases:
  assumes "ix_ok ix" and "table_room (ix, objs)" and "add_object ob (ix, objs) = (h, s1)"
    and "add_object ob' (close_table h s1) = (h', s2)"
  shows "get_object h (fst s2) = Some ob'"
proof -
  obtain i where i: "find_index slot_free (objects ix) = Some i"
    using assms(2) find_index_None_iff [of slot_free "objects ix"]
    by (cases "find_index slot_free (objects ix)") (auto simp: table_room_def)
  obtain ix1 where a: "s1 = (ix1, add_access 1 ob objs)" "ix_ok ix1" "object_ix_index (inspect_handle h) = i"
    "i < 0x100" "objects ix1 = (objects ix)[i := \<lparr>object = Some ob, associated_handle = h, slot_free = False\<rparr>]"
    by (rule add_object_slot [OF assms(1) i, of ob objs]) (use assms(3) in auto)
  have "get_object h ix1 = Some ob" using a ix_okD(1) [OF assms(1)] by (simp add: get_object_eq)
  from close_handle_slot [OF a(2) this, of "add_access 1 ob objs"] obtain ix2 objs2 where
    c: "close_table h s1 = (ix2, objs2)" "ix_ok ix2"
      "objects ix2 = (objects ix1)[i := (objects ix1 ! i)\<lparr>slot_free := True, object := None\<rparr>]"
    using a(1,3) by (auto simp: close_table_def)
  have "find_index slot_free (objects ix2) = Some i"
    using i a(4,5) c(3) ix_okD(1) [OF assms(1)] by (auto simp: find_index_Some_iff nth_list_update)
  then obtain ix3 where d: "s2 = (ix3, add_access 1 ob' objs2)" "ix_ok ix3" "object_ix_index (inspect_handle h') = i"
    "objects ix3 = (objects ix2)[i := \<lparr>object = Some ob', associated_handle = h', slot_free = False\<rparr>]"
    using add_object_slot [OF c(2), of i ob' objs2] assms(4) c(1) by (metis prod.inject)
  then show ?thesis using a(3,4) ix_okD(1) [OF c(2)] by (simp add: get_object_eq)
qed

text \<open>Looking an object up by id yields the object of that id if it exists, but otherwise the next
  younger object instead of none, if there is one.\<close>

theorem get_by_id_least_not_below:
  assumes "sorted obj_map" and "distinct obj_map"
  shows "get_by_id uid obj_map = (if uid \<in> set obj_map then Some uid
    else if \<exists>x \<in> set obj_map. uid < x then Some (Min {x \<in> set obj_map. uid < x}) else None)"
  using assms
proof (induction obj_map)
  case Nil
  then show ?case by (simp add: get_by_id_def)
next
  case (Cons y ys)
  show ?case
  proof (cases "y < uid")
    case True
    then have "{x \<in> set (y # ys). uid < x} = {x \<in> set ys. uid < x}" by auto
    moreover have "get_by_id uid (y # ys) = get_by_id uid ys" using True by (simp add: get_by_id_def)
    ultimately show ?thesis using Cons True by auto
  next
    case False
    have "get_by_id uid (y # ys) = Some y" using False by (simp add: get_by_id_def)
    moreover have "Min {x \<in> set (y # ys). uid < x} = y" if "uid < y"
      using that Cons.prems(1) by (intro Min_eqI) auto
    moreover have "uid \<notin> set ys" if "uid < y" using that Cons.prems(1) by auto
    ultimately show ?thesis using False by (cases "uid = y") auto
  qed
qed

section \<open>Concrete executions\<close>

definition store_ex :: obj_store where
  "store_ex = (\<lambda>_. \<lparr>obj_name = ''x'', obj_owner = None, global_access = True, obj_type = OT_sema,
     access_count = 0, is_chunk_heap = False\<rparr>)"

lemma new_object_ix_ok: "ix_ok (new_object_ix ow)"
  by (simp add: ix_ok_def new_object_ix_def empty_record_def)

lemma new_object_ix_room: "table_room (new_object_ix ow, objs)"
  by (simp add: table_room_def new_object_ix_def empty_record_def)

theorem handle_open_close_witness:
  "\<exists>h s1 r s2. add_object 7 (new_object_ix By_process, store_ex) = (h, s1) \<and> close_handle h s1 = (r, Some 7, s2)
    \<and> get_object h (fst s1) = Some 7 \<and> (\<forall>g. get_object g (fst s2) = get_object g (new_object_ix By_process))"
proof -
  obtain h s1 where a: "add_object 7 (new_object_ix By_process, store_ex) = (h, s1)" by (rule prod.exhaust)
  obtain ret dead s2 where c: "close_handle h s1 = (ret, dead, s2)" by (rule prod_cases3)
  note r = handle_open_close [OF new_object_ix_ok new_object_ix_room a c]
  have "dead = Some 7" using r by (simp add: store_ex_def)
  then show ?thesis using a c r by blast
qed

theorem process_handle_routing_witness:
  "route (fst (add_object 7 ((new_object_ix By_process)\<lparr>next_instance := 8191\<rparr>, store_ex))) = Kernel_table"
  using process_handle_routing [of "(new_object_ix By_process)\<lparr>next_instance := 8191\<rparr>" store_ex 7]
    new_object_ix_ok [of By_process] new_object_ix_room [of By_process store_ex]
  by (simp add: ix_ok_def table_room_def new_object_ix_def)

theorem stale_handle_aliases_witness:
  "\<exists>h s1 s2 h'. add_object 7 (new_object_ix By_process, store_ex) = (h, s1)
    \<and> add_object 8 (close_table h s1) = (h', s2) \<and> get_object h (fst s2) = Some 8"
proof -
  obtain h s1 where a: "add_object 7 (new_object_ix By_process, store_ex) = (h, s1)" by (rule prod.exhaust)
  obtain h' s2 where b: "add_object 8 (close_table h s1) = (h', s2)" by (rule prod.exhaust)
  from stale_handle_aliases [OF new_object_ix_ok new_object_ix_room a b] show ?thesis using a b by blast
qed

theorem get_by_id_least_not_below_witness: "get_by_id 4 [2, 5, 9] = Some 5"
  using get_by_id_least_not_below [of "[2, 5, 9]" 4]
  by (simp add: get_by_id_def)

end
