(* ===== verification/Ipc.thy ===== *)
theory Ipc imports Thread_Process Object_Ix begin

text \<open>
  Client-server communication: the message table of the kernel (\<open>kernel.cpp\<close>), sessions
  (\<open>session.cpp\<close>), servers (\<open>server.cpp\<close>) and the supervisor call that completes a message
  (\<open>svc.cpp\<close>).

  Messages are shared objects (\<open>std::shared_ptr<ipc_msg>\<close>): they live in a heap and are named by
  references; a null pointer is \<^const>\<open>None\<close>. The kernel's table has 4096 slots, each empty or holding a
  message that is either live or free for reuse.
\<close>

section \<open>Arguments and messages\<close>

datatype ipc_arg_type = Ty_unspecified | Ty_handle | Ty_des8 | Ty_des16 | Ty_desc8 | Ty_desc16 | Ty_const_only nat

record ipc_arg =
  args :: "u32 list"
  flag :: u32

definition get_arg_type :: "nat \<Rightarrow> ipc_arg \<Rightarrow> ipc_arg_type" where
  "get_arg_type slot a = (
     let v = and (drop_bit (slot * 3) (flag a)) 7 in
     if v = 0 then Ty_unspecified else if v = 1 then Ty_handle
     else if v = 4 then Ty_des8 else if v = 5 then Ty_des16
     else if v = 6 then Ty_desc8 else if v = 7 then Ty_desc16 else Ty_const_only (unat v))"

datatype ipc_message_status = Msg_delivered | Msg_accepted | Msg_completed

type_synonym mref = nat
type_synonym session_id = nat
type_synonym server_id = nat

record ipc_msg =
  own_thr :: "tid option"
  msg_function :: u32
  msg_args :: ipc_arg
  msg_session :: "session_id option"
  session_ptr_lle :: address
  request_sts :: address
  msg_status :: ipc_message_status
  msg_id :: nat
  msg_locked :: bool
  msg_free :: bool

record server_msg =
  real_msg :: mref
  dest_msg :: "mref option"

text \<open>The two layouts in which a request is handed to a server's process; \<open>spare1\<close> and \<open>spare3\<close> are
  not written.\<close>

record message1 =
  m1_function :: u32
  m1_args :: "u32 list"
  client_thread_handle :: u32
  m1_session_ptr :: address
  m1_msg_handle :: nat

record message2 =
  ipc_msg_handle :: nat
  m2_function :: u32
  m2_args :: "u32 list"
  spare1 :: u32
  session_ptr :: address
  m2_flags :: u32
  spare3 :: u32

record session =
  svr :: server_id
  msgs_pool :: "(bool \<times> mref option) list"
  cookie_address :: address

text \<open>\<open>request_own_thread\<close> and \<open>request_msg\<close> belong to the outstanding receive request, if any.\<close>

record server =
  sessions :: "session_id list"
  delivered_msgs :: "server_msg list"
  process_msg :: "mref option"
  request_status_ptr :: address
  request_data :: address
  request_own_thread :: "tid option"
  request_msg :: "mref option"

record ipc =
  base :: kern
  is_eka1 :: bool
  msg_slots :: "mref option list"
  msg_heap :: "mref \<Rightarrow> ipc_msg"
  next_ref :: mref
  sess :: "session_id \<Rightarrow> session"
  servers :: "server_id \<Rightarrow> server"
  sync_msg :: "tid \<Rightarrow> mref option"
  mem1 :: "pid \<Rightarrow> address \<Rightarrow> message1 option"
  mem2 :: "pid \<Rightarrow> address \<Rightarrow> message2 option"
  thread_handles :: "tid \<Rightarrow> object_ix"
  objs :: obj_store

definition upd_msg :: "mref \<Rightarrow> (ipc_msg \<Rightarrow> ipc_msg) \<Rightarrow> ipc \<Rightarrow> ipc" where
  "upd_msg r f s = s\<lparr>msg_heap := (msg_heap s)(r := f (msg_heap s r))\<rparr>"

definition upd_sess :: "session_id \<Rightarrow> (session \<Rightarrow> session) \<Rightarrow> ipc \<Rightarrow> ipc" where
  "upd_sess i f s = s\<lparr>sess := (sess s)(i := f (sess s i))\<rparr>"

definition upd_srv :: "server_id \<Rightarrow> (server \<Rightarrow> server) \<Rightarrow> ipc \<Rightarrow> ipc" where
  "upd_srv i f s = s\<lparr>servers := (servers s)(i := f (servers s i))\<rparr>"

lemma upd_msg_simps [simp]:
  "base (upd_msg r f s) = base s" "is_eka1 (upd_msg r f s) = is_eka1 s" "msg_slots (upd_msg r f s) = msg_slots s"
  "msg_heap (upd_msg r f s) = (msg_heap s)(r := f (msg_heap s r))" "next_ref (upd_msg r f s) = next_ref s"
  "sess (upd_msg r f s) = sess s" "servers (upd_msg r f s) = servers s" "sync_msg (upd_msg r f s) = sync_msg s"
  "mem1 (upd_msg r f s) = mem1 s" "mem2 (upd_msg r f s) = mem2 s"
  "thread_handles (upd_msg r f s) = thread_handles s" "objs (upd_msg r f s) = objs s"
  by (simp_all add: upd_msg_def)

lemma upd_sess_simps [simp]:
  "base (upd_sess i g s) = base s" "is_eka1 (upd_sess i g s) = is_eka1 s" "msg_slots (upd_sess i g s) = msg_slots s"
  "msg_heap (upd_sess i g s) = msg_heap s" "next_ref (upd_sess i g s) = next_ref s"
  "sess (upd_sess i g s) = (sess s)(i := g (sess s i))" "servers (upd_sess i g s) = servers s"
  "sync_msg (upd_sess i g s) = sync_msg s" "mem1 (upd_sess i g s) = mem1 s" "mem2 (upd_sess i g s) = mem2 s"
  "thread_handles (upd_sess i g s) = thread_handles s" "objs (upd_sess i g s) = objs s"
  by (simp_all add: upd_sess_def)

lemma upd_srv_simps [simp]:
  "base (upd_srv i h s) = base s" "is_eka1 (upd_srv i h s) = is_eka1 s" "msg_slots (upd_srv i h s) = msg_slots s"
  "msg_heap (upd_srv i h s) = msg_heap s" "next_ref (upd_srv i h s) = next_ref s"
  "sess (upd_srv i h s) = sess s" "servers (upd_srv i h s) = (servers s)(i := h (servers s i))"
  "sync_msg (upd_srv i h s) = sync_msg s" "mem1 (upd_srv i h s) = mem1 s" "mem2 (upd_srv i h s) = mem2 s"
  "thread_handles (upd_srv i h s) = thread_handles s" "objs (upd_srv i h s) = objs s"
  by (simp_all add: upd_srv_def)

section \<open>The message table\<close>

text \<open>A new message owned by the running thread. The constructor leaves the other fields indeterminate;
  no operation reads them before they are set, and zeros stand for them.\<close>

definition new_msg :: "tid option \<Rightarrow> ipc_msg" where
  "new_msg own = \<lparr>own_thr = own, msg_function = 0, msg_args = \<lparr>args = replicate 4 0, flag = 0\<rparr>,
     msg_session = None, session_ptr_lle = 0, request_sts = 0, msg_status = Msg_delivered, msg_id = 0,
     msg_locked = False, msg_free = False\<rparr>"

definition slot_available :: "ipc \<Rightarrow> mref option \<Rightarrow> bool" where
  "slot_available s slot = (case slot of None \<Rightarrow> True | Some r \<Rightarrow> msg_free (msg_heap s r))"

definition create_msg :: "ipc \<Rightarrow> mref option \<times> ipc" where
  "create_msg s = (case find_index (slot_available s) (msg_slots s) of
     None \<Rightarrow> (None, s)
   | Some i \<Rightarrow>
       let (r, s) = (case msg_slots s ! i of
             None \<Rightarrow> (next_ref s, s\<lparr>msg_slots := (msg_slots s)[i := Some (next_ref s)],
                                    msg_heap := (msg_heap s)(next_ref s := new_msg (crr_thread (base s))),
                                    next_ref := next_ref s + 1\<rparr>)
           | Some r \<Rightarrow> (r, s))
       in (Some r, upd_msg r (\<lambda>m. m\<lparr>own_thr := crr_thread (base s), msg_free := False, msg_id := i\<rparr>) s))"

text \<open>The index is a signed number compared with an unsigned size: a negative one is out of range.\<close>

definition get_msg :: "int \<Rightarrow> ipc \<Rightarrow> mref option" where
  "get_msg handle s =
     (if handle < 0 \<or> int (length (msg_slots s)) \<le> handle then None else msg_slots s ! nat handle)"

definition free_msg :: "mref option \<Rightarrow> ipc \<Rightarrow> ipc undef" where
  "free_msg msg s = do {
     r \<leftarrow> msg;
     Some (if msg_locked (msg_heap s r) then s else upd_msg r (\<lambda>m. m\<lparr>msg_free := True\<rparr>) s)
   }"

definition destroy_msg :: "mref \<Rightarrow> ipc \<Rightarrow> ipc" where
  "destroy_msg r s = s\<lparr>msg_slots := (msg_slots s)[msg_id (msg_heap s r) := None]\<rparr>"

section \<open>Sessions: the client's side\<close>

definition get_free_msg :: "session_id \<Rightarrow> ipc \<Rightarrow> mref option \<times> ipc" where
  "get_free_msg ss s =
     (if msgs_pool (sess s ss) = [] then create_msg s
      else case find_index fst (msgs_pool (sess s ss)) of
             Some i \<Rightarrow> (snd (msgs_pool (sess s ss) ! i),
                        upd_sess ss (\<lambda>x. x\<lparr>msgs_pool := (msgs_pool x)[i := (False, snd (msgs_pool x ! i))]\<rparr>) s)
           | None \<Rightarrow> (None, s))"

definition set_slot_free :: "session_id \<Rightarrow> mref \<Rightarrow> ipc \<Rightarrow> ipc undef" where
  "set_slot_free ss msg s =
     (if msgs_pool (sess s ss) = [] then free_msg (Some msg) s
      else case find_index (\<lambda>wrap_msg. snd wrap_msg = Some msg) (msgs_pool (sess s ss)) of
             Some i \<Rightarrow> Some (upd_sess ss (\<lambda>x. x\<lparr>msgs_pool := (msgs_pool x)[i := (True, snd (msgs_pool x ! i))]\<rparr>) s)
           | None \<Rightarrow> Some s)"

fun fill_pool :: "nat \<Rightarrow> ipc \<Rightarrow> (bool \<times> mref option) list \<times> ipc" where
  "fill_pool 0 s = ([], s)"
| "fill_pool (Suc n) s = (let (m, s) = create_msg s; (pool, s) = fill_pool n s in ((True, m) # pool, s))"

definition session_open :: "session_id \<Rightarrow> server_id \<Rightarrow> int \<Rightarrow> ipc \<Rightarrow> ipc" where
  "session_open ss sv async_slot_count s = (
     let s = upd_sess ss (\<lambda>_. \<lparr>svr = sv, msgs_pool = [], cookie_address = 0\<rparr>) s;
         s = upd_srv sv (\<lambda>v. v\<lparr>sessions := sessions v @ [ss]\<rparr>) s
     in if 0 < async_slot_count then
          let (pool, s) = fill_pool (nat async_slot_count) s in upd_sess ss (\<lambda>x. x\<lparr>msgs_pool := pool\<rparr>) s
        else s)"

fun free_all :: "mref option list \<Rightarrow> ipc \<Rightarrow> ipc undef" where
  "free_all [] s = Some s"
| "free_all (m # ms) s = Option.bind (free_msg m s) (free_all ms)"

definition prepare_destroy :: "session_id \<Rightarrow> ipc \<Rightarrow> ipc undef" where
  "prepare_destroy ss s = free_all (map snd (msgs_pool (sess s ss))) s"

section \<open>Servers\<close>

definition ready :: "server \<Rightarrow> bool" where
  "ready v \<longleftrightarrow> request_status_ptr v \<noteq> 0 \<and> request_data v \<noteq> 0"

definition is_msg_delivered :: "server_id \<Rightarrow> mref \<Rightarrow> ipc \<Rightarrow> bool" where
  "is_msg_delivered sv msg s \<longleftrightarrow>
     list_ex (\<lambda>m. msg_id (msg_heap s (real_msg m)) = msg_id (msg_heap s msg)) (delivered_msgs (servers s sv))"

definition copy_msg :: "ipc_msg \<Rightarrow> ipc_msg \<Rightarrow> ipc_msg" where
  "copy_msg real dest = dest\<lparr>msg_args := msg_args real, msg_function := msg_function real,
     request_sts := request_sts real, own_thr := own_thr real, session_ptr_lle := session_ptr_lle real,
     msg_session := msg_session real\<rparr>"

definition accept :: "server_msg \<Rightarrow> ipc \<Rightarrow> ipc undef" where
  "accept msg s = do {
     dest \<leftarrow> dest_msg msg;
     let s = upd_msg dest (\<lambda>m. m\<lparr>msg_status := Msg_accepted\<rparr>) s;
     let s = upd_msg (real_msg msg) (\<lambda>m. m\<lparr>msg_status := Msg_accepted\<rparr>) s;
     let s = upd_msg dest (copy_msg (msg_heap s (real_msg msg))) s;
     ss \<leftarrow> msg_session (msg_heap s (real_msg msg));
     set_slot_free ss (real_msg msg) s
   }"

definition receive :: "server_id \<Rightarrow> mref \<Rightarrow> ipc \<Rightarrow> (int \<times> ipc) undef" where
  "receive sv msg s =
     (if delivered_msgs (servers s sv) \<noteq> [] then do {
        s \<leftarrow> accept ((last (delivered_msgs (servers s sv)))\<lparr>dest_msg := Some msg\<rparr>) s;
        Some (0, upd_srv sv (\<lambda>v. v\<lparr>delivered_msgs := butlast (delivered_msgs v)\<rparr>) s)
      }
      else Some (-1, s))"

text \<open>The request block is written into the memory of the process of the thread that waits for a
  request, then the request status, and the thread is signalled.\<close>

definition write_block :: "pid \<Rightarrow> tid \<Rightarrow> address \<Rightarrow> ipc_msg \<Rightarrow> ipc \<Rightarrow> ipc undef" where
  "write_block p t data msg s =
     (if is_eka1 s then do {
        dat_hle \<leftarrow> mem1 s p data;
        client \<leftarrow> own_thr msg;
        let (h, ix, ob) = add_object client (thread_handles s t, objs s);
        let dat = dat_hle\<lparr>m1_msg_handle := msg_id msg, m1_function := msg_function msg,
              m1_session_ptr := session_ptr_lle msg, client_thread_handle := h, m1_args := args (msg_args msg)\<rparr>;
        Some (s\<lparr>thread_handles := (thread_handles s)(t := ix), objs := ob,
                mem1 := (mem1 s)(p := (mem1 s p)(data \<mapsto> dat))\<rparr>)
      }
      else do {
        dat_hle \<leftarrow> mem2 s p data;
        let dat = dat_hle\<lparr>ipc_msg_handle := msg_id msg, m2_flags := flag (msg_args msg),
              m2_function := msg_function msg, session_ptr := session_ptr_lle msg, m2_args := args (msg_args msg)\<rparr>;
        Some (s\<lparr>mem2 := (mem2 s)(p := (mem2 s p)(data \<mapsto> dat))\<rparr>)
      })"

definition finish_request_lle :: "server_id \<Rightarrow> mref \<Rightarrow> bool \<Rightarrow> ipc \<Rightarrow> ipc undef" where
  "finish_request_lle sv msg notify_owner s = (let v = servers s sv in do {
     t \<leftarrow> request_own_thread v;
     let p = owner (thr (base s) t);
     s \<leftarrow> write_block p t (request_data v) (msg_heap s msg) s;
     k \<leftarrow> write_status p (request_status_ptr v) 0 (base s);
     k \<leftarrow> (if notify_owner then signal_request t 1 k else Some k);
     Some (upd_srv sv (\<lambda>v. v\<lparr>request_own_thread := None, request_status_ptr := 0, request_data := 0\<rparr>)
             (s\<lparr>base := k\<rparr>))
   })"

definition deliver :: "server_id \<Rightarrow> server_msg \<Rightarrow> ipc \<Rightarrow> ipc undef" where
  "deliver sv msg s = (let v = servers s sv in
     if ready v then do {
       s \<leftarrow> accept (msg\<lparr>dest_msg := request_msg v\<rparr>) s;
       dest \<leftarrow> request_msg v;
       finish_request_lle sv dest True s
     }
     else Some (upd_srv sv (\<lambda>v. v\<lparr>delivered_msgs := delivered_msgs v @ [msg]\<rparr>) s))"

definition server_cancel :: "server_id \<Rightarrow> ipc \<Rightarrow> ipc undef" where
  "server_cancel sv s = do {
     guard (delivered_msgs (servers s sv) \<noteq> []);
     Some (upd_srv sv (\<lambda>v. v\<lparr>delivered_msgs := butlast (delivered_msgs v)\<rparr>) s)
   }"

definition server_destroy :: "server_id \<Rightarrow> ipc \<Rightarrow> ipc undef" where
  "server_destroy sv s = free_msg (process_msg (servers s sv)) s"

definition receive_async_lle :: "server_id \<Rightarrow> address \<Rightarrow> address \<Rightarrow> ipc \<Rightarrow> ipc undef" where
  "receive_async_lle sv msg_request_status data s = (
     let (msg, s) = create_msg s in do {
       msg \<leftarrow> msg;
       let s = upd_msg msg (\<lambda>m. m\<lparr>msg_free := False\<rparr>) s;
       (res, s) \<leftarrow> receive sv msg s;
       let s = upd_srv sv (\<lambda>v. v\<lparr>request_status_ptr := msg_request_status,
                 request_own_thread := crr_thread (base s), request_data := data\<rparr>) s;
       if res = -1 then Some (upd_srv sv (\<lambda>v. v\<lparr>request_msg := Some msg\<rparr>) s)
       else finish_request_lle sv msg True s
     })"

definition cancel_async_lle :: "server_id \<Rightarrow> ipc \<Rightarrow> ipc undef" where
  "cancel_async_lle sv s = (let v = servers s sv in
     if request_status_ptr v = 0 then do {
       t \<leftarrow> request_own_thread v;
       k \<leftarrow> signal_request t 1 (base s);
       Some (s\<lparr>base := k\<rparr>)
     }
     else do {
       t \<leftarrow> request_own_thread v;
       k \<leftarrow> write_status (owner (thr (base s) t)) (request_status_ptr v) (-3) (base s);
       k \<leftarrow> signal_request t 1 k;
       Some (upd_srv sv (\<lambda>v. v\<lparr>request_own_thread := None, request_status_ptr := 0, request_data := 0,
               request_msg := None\<rparr>) (s\<lparr>base := k\<rparr>))
     })"

section \<open>Sending and completing\<close>

definition send :: "session_id \<Rightarrow> mref \<Rightarrow> ipc \<Rightarrow> ipc undef" where
  "send ss msg s = (
     let s = upd_msg msg (\<lambda>m. m\<lparr>msg_status := Msg_delivered, msg_session := Some ss,
               session_ptr_lle := cookie_address (sess s ss)\<rparr>) s
     in deliver (svr (sess s ss)) \<lparr>real_msg = msg, dest_msg = None\<rparr> s)"

definition fill_msg :: "u32 \<Rightarrow> ipc_arg \<Rightarrow> tid option \<Rightarrow> address \<Rightarrow> ipc_msg \<Rightarrow> ipc_msg" where
  "fill_msg function arg own req_sts m = m\<lparr>msg_function := function, msg_args := arg, own_thr := own, request_sts := req_sts\<rparr>"

definition send_receive_sync :: "session_id \<Rightarrow> u32 \<Rightarrow> ipc_arg \<Rightarrow> address \<Rightarrow> ipc \<Rightarrow> (int \<times> ipc) undef" where
  "send_receive_sync ss function arg req_sts s = do {
     t \<leftarrow> crr_thread (base s);
     case sync_msg s t of
       None \<Rightarrow> Some (-1, s)
     | Some msg \<Rightarrow> do {
         s \<leftarrow> send ss msg (upd_msg msg (fill_msg function arg (crr_thread (base s)) req_sts) s);
         Some (0, s)
       }
   }"

definition send_receive :: "session_id \<Rightarrow> u32 \<Rightarrow> ipc_arg \<Rightarrow> address \<Rightarrow> ipc \<Rightarrow> (int \<times> ipc) undef" where
  "send_receive ss function arg req_sts s = (
     let (msg, s) = get_free_msg ss s in
     case msg of
       None \<Rightarrow> Some (-1, s)
     | Some msg \<Rightarrow> do {
         s \<leftarrow> send ss msg (upd_msg msg (fill_msg function arg (crr_thread (base s)) req_sts) s);
         Some (0, s)
       })"

text \<open>The supervisor call \<open>message_complete\<close>; the callbacks it runs only observe.\<close>

definition message_complete :: "int \<Rightarrow> int \<Rightarrow> ipc \<Rightarrow> ipc undef" where
  "message_complete msg_handle val s = do {
     msg \<leftarrow> get_msg msg_handle s;
     let m = msg_heap s msg;
     s \<leftarrow> (if request_sts m \<noteq> 0 then do {
              t \<leftarrow> own_thr m;
              k \<leftarrow> write_status (owner (thr (base s) t)) (request_sts m) val (base s);
              k \<leftarrow> signal_request t 1 k;
              Some (s\<lparr>base := k\<rparr>)
            } else Some s);
     t \<leftarrow> own_thr m;
     Some (upd_msg msg (\<lambda>m. m\<lparr>msg_free := True\<rparr>) s)
   }"

section \<open>The table\<close>

definition avail :: "ipc \<Rightarrow> bool list" where
  "avail s = map (slot_available s) (msg_slots s)"

definition msgs_ok :: "ipc \<Rightarrow> bool" where
  "msgs_ok s \<longleftrightarrow> (\<forall>i < length (msg_slots s). \<forall>r. msg_slots s ! i = Some r \<longrightarrow>
     r < next_ref s \<and> msg_id (msg_heap s r) = i \<and> (msg_free (msg_heap s r) \<longrightarrow> \<not> msg_locked (msg_heap s r)))"

lemma msgs_okD:
  assumes "msgs_ok s" "i < length (msg_slots s)" "msg_slots s ! i = Some r"
  shows "r < next_ref s" "msg_id (msg_heap s r) = i" "msg_free (msg_heap s r) \<Longrightarrow> \<not> msg_locked (msg_heap s r)"
  using assms by (auto simp: msgs_ok_def)

lemma length_avail [simp]: "length (avail s) = length (msg_slots s)"
  by (simp add: avail_def)

lemma avail_nth: "i < length (msg_slots s) \<Longrightarrow> avail s ! i = slot_available s (msg_slots s ! i)"
  by (simp add: avail_def)

lemma find_index_map: "find_index P (map f xs) = find_index (P \<circ> f) xs"
  by (induction xs) auto

lemma create_msg_spec:
  assumes "msgs_ok s" and "find_index (\<lambda>b. b) (avail s) = Some i"
  obtains r n m where "create_msg s = (Some r, s\<lparr>msg_slots := (msg_slots s)[i := Some r],
      msg_heap := (msg_heap s)(r := m), next_ref := n\<rparr>)"
    "msgs_ok (s\<lparr>msg_slots := (msg_slots s)[i := Some r], msg_heap := (msg_heap s)(r := m), next_ref := n\<rparr>)"
    "avail (s\<lparr>msg_slots := (msg_slots s)[i := Some r], msg_heap := (msg_heap s)(r := m), next_ref := n\<rparr>) = (avail s)[i := False]"
    "own_thr m = crr_thread (base s)" "msg_id m = i" "\<not> msg_free m" "\<not> msg_locked m"
    "\<And>j. j < length (msg_slots s) \<Longrightarrow> j \<noteq> i \<Longrightarrow> msg_slots s ! j \<noteq> Some r"
    "msg_slots s ! i = None \<or> msg_slots s ! i = Some r"
proof -
  have i: "i < length (msg_slots s)" "slot_available s (msg_slots s ! i)"
    using find_index_SomeD(1,2) [OF assms(2)] by (simp_all add: avail_nth)
  have fi: "find_index (slot_available s) (msg_slots s) = Some i"
    using assms(2) by (simp add: avail_def find_index_map comp_def)
  define r where "r = (case msg_slots s ! i of None \<Rightarrow> next_ref s | Some r \<Rightarrow> r)"
  define m where "m = (case msg_slots s ! i of None \<Rightarrow> new_msg (crr_thread (base s)) | Some r \<Rightarrow> msg_heap s r)
    \<lparr>own_thr := crr_thread (base s), msg_free := False, msg_id := i\<rparr>"
  define n where "n = (case msg_slots s ! i of None \<Rightarrow> next_ref s + 1 | Some r \<Rightarrow> next_ref s)"
  let ?s = "s\<lparr>msg_slots := (msg_slots s)[i := Some r], msg_heap := (msg_heap s)(r := m), next_ref := n\<rparr>"
  have c: "create_msg s = (Some r, ?s)"
  proof (cases "msg_slots s ! i")
    case None
    then show ?thesis using fi by (simp add: create_msg_def r_def m_def n_def upd_msg_def Let_def)
  next
    case (Some x)
    then have "(msg_slots s)[i := Some x] = msg_slots s" by (metis list_update_id)
    then show ?thesis using Some fi by (simp add: create_msg_def r_def m_def n_def upd_msg_def Let_def)
  qed
  have lk: "\<not> msg_locked m"
    using i msgs_okD(3) [OF assms(1) i(1)]
    by (auto simp: m_def new_msg_def slot_available_def split: option.splits)
  have oth: "msg_slots s ! j \<noteq> Some r" if "j < length (msg_slots s)" "j \<noteq> i" for j
  proof (cases "msg_slots s ! i")
    case None
    then show ?thesis using that(1) msgs_okD(1) [OF assms(1), of j r] by (auto simp: r_def)
  next
    case (Some x)
    then show ?thesis using that i(1) msgs_okD(2) [OF assms(1), of j x] msgs_okD(2) [OF assms(1), of i x] by (auto simp: r_def)
  qed
  have n: "next_ref s \<le> n" "r < n"
    using msgs_okD(1) [OF assms(1) i(1)] by (auto simp: n_def r_def split: option.splits)
  have ok: "msgs_ok ?s"
    unfolding msgs_ok_def
  proof (intro allI impI)
    fix j r' assume "j < length (msg_slots ?s)" "msg_slots ?s ! j = Some r'"
    then show "r' < next_ref ?s \<and> msg_id (msg_heap ?s r') = j \<and> (msg_free (msg_heap ?s r') \<longrightarrow> \<not> msg_locked (msg_heap ?s r'))"
      using msgs_okD [OF assms(1), of j r'] oth [of j] n lk
      by (cases "j = i") (auto simp: m_def nth_list_update)
  qed
  have av: "avail ?s = (avail s)[i := False]"
  proof (rule nth_equalityI)
    fix j assume "j < length (avail ?s)"
    then show "avail ?s ! j = (avail s)[i := False] ! j"
      using oth [of j] by (cases "j = i") (auto simp: avail_nth slot_available_def m_def split: option.splits)
  qed simp
  show thesis
    by (rule that [OF c ok av]) (use lk oth in \<open>auto simp: m_def r_def split: option.splits\<close>)
qed

lemma upd_msg_avail:
  assumes "\<And>m. msg_free (f m) = msg_free m"
  shows "avail (upd_msg r f s) = avail s"
  using assms by (auto simp: avail_def slot_available_def split: option.splits)

lemma upd_msg_ok:
  assumes "msgs_ok s" "\<And>m. msg_free (f m) = msg_free m" "\<And>m. msg_id (f m) = msg_id m" "\<And>m. msg_locked (f m) = msg_locked m"
  shows "msgs_ok (upd_msg r f s)"
  using assms by (auto simp: msgs_ok_def)

lemma free_msg_avail:
  assumes "msgs_ok s" "i < length (msg_slots s)" "msg_slots s ! i = Some r" "\<not> msg_locked (msg_heap s r)"
  shows "free_msg (Some r) s = Some (upd_msg r (\<lambda>m. m\<lparr>msg_free := True\<rparr>) s)"
    "avail (upd_msg r (\<lambda>m. m\<lparr>msg_free := True\<rparr>) s) = (avail s)[i := True]"
    "msgs_ok (upd_msg r (\<lambda>m. m\<lparr>msg_free := True\<rparr>) s)"
proof -
  show "free_msg (Some r) s = Some (upd_msg r (\<lambda>m. m\<lparr>msg_free := True\<rparr>) s)"
    using assms(4) by (simp add: free_msg_def)
  show "msgs_ok (upd_msg r (\<lambda>m. m\<lparr>msg_free := True\<rparr>) s)"
    using assms by (auto simp: msgs_ok_def)
  show "avail (upd_msg r (\<lambda>m. m\<lparr>msg_free := True\<rparr>) s) = (avail s)[i := True]"
  proof (rule nth_equalityI)
    fix j assume j: "j < length (avail (upd_msg r (\<lambda>m. m\<lparr>msg_free := True\<rparr>) s))"
    have "msg_slots s ! j \<noteq> Some r" if "j \<noteq> i"
      using that j msgs_okD(2) [OF assms(1,2,3)] msgs_okD(2) [OF assms(1), of j r] by auto
    then show "avail (upd_msg r (\<lambda>m. m\<lparr>msg_free := True\<rparr>) s) ! j = (avail s)[i := True] ! j"
      using j assms(3) by (cases "j = i") (auto simp: avail_nth slot_available_def split: option.splits)
  qed simp
qed

lemma filter_list_update_False:
  "i < length bs \<Longrightarrow> bs ! i \<Longrightarrow> Suc (length (filter (\<lambda>b. b) (bs[i := False]))) = length (filter (\<lambda>b. b) bs)"
  by (induction bs arbitrary: i) (auto split: nat.splits simp: nth_Cons)

definition n_free :: "ipc \<Rightarrow> nat" where
  "n_free s = length (filter (\<lambda>b. b) (avail s))"

lemma n_free_find:
  assumes "0 < n_free s"
  obtains i where "find_index (\<lambda>b. b) (avail s) = Some i" "i < length (msg_slots s)" "avail s ! i"
    "\<And>s'. avail s' = (avail s)[i := False] \<Longrightarrow> Suc (n_free s') = n_free s"
proof -
  obtain i where i: "find_index (\<lambda>b. b) (avail s) = Some i"
    using assms find_index_None_iff [of "\<lambda>b. b" "avail s"]
    by (cases "find_index (\<lambda>b. b) (avail s)") (auto simp: n_free_def filter_empty_conv)
  then have b: "i < length (avail s)" "avail s ! i" using find_index_SomeD by metis+
  show thesis
    by (rule that [OF i]) (use b filter_list_update_False [OF b] in \<open>auto simp: n_free_def\<close>)
qed

section \<open>Accepting and finishing a request\<close>

definition accepted :: "mref \<Rightarrow> mref \<Rightarrow> ipc \<Rightarrow> ipc" where
  "accepted r d s = s\<lparr>msg_heap := (msg_heap s)
     (d := copy_msg (msg_heap s r) ((msg_heap s d)\<lparr>msg_status := Msg_accepted\<rparr>),
      r := (msg_heap s r)\<lparr>msg_status := Msg_accepted, msg_free := True\<rparr>)\<rparr>"

lemma accept_spec:
  assumes "msgs_ok s" and "i < length (msg_slots s)" and "msg_slots s ! i = Some r" and "r \<noteq> d"
    and "\<not> msg_locked (msg_heap s r)" and "msg_session (msg_heap s r) = Some ss" and "msgs_pool (sess s ss) = []"
  shows "accept \<lparr>real_msg = r, dest_msg = Some d\<rparr> s = Some (accepted r d s)"
    "avail (accepted r d s) = (avail s)[i := True]" "msgs_ok (accepted r d s)"
proof -
  define s3 where "s3 = upd_msg d (copy_msg ((msg_heap s r)\<lparr>msg_status := Msg_accepted\<rparr>))
    (upd_msg r (\<lambda>m. m\<lparr>msg_status := Msg_accepted\<rparr>) (upd_msg d (\<lambda>m. m\<lparr>msg_status := Msg_accepted\<rparr>) s))"
  have cp: "copy_msg (m\<lparr>msg_status := x\<rparr>) = copy_msg m" for m x by (simp add: copy_msg_def fun_eq_iff)
  have ok: "msgs_ok s3" and av: "avail s3 = avail s"
    unfolding s3_def using assms(1) by (auto intro!: upd_msg_ok simp: upd_msg_avail copy_msg_def)
  have sl: "msg_slots s3 = msg_slots s" and hr: "msg_heap s3 r = (msg_heap s r)\<lparr>msg_status := Msg_accepted\<rparr>"
    using assms(4) by (simp_all add: s3_def)
  note fr = free_msg_avail [OF ok, unfolded sl, OF assms(2,3)]
  have acc: "accepted r d s = upd_msg r (\<lambda>m. m\<lparr>msg_free := True\<rparr>) s3"
    using assms(4) by (simp add: accepted_def s3_def upd_msg_def cp fun_upd_twist)
  have lk: "\<not> msg_locked (msg_heap s3 r)" using assms(5) by (simp add: hr)
  show "avail (accepted r d s) = (avail s)[i := True]" "msgs_ok (accepted r d s)"
    using fr lk by (simp_all add: acc av)
  have "accept \<lparr>real_msg = r, dest_msg = Some d\<rparr> s = set_slot_free ss r s3"
    using assms(4,6) by (simp add: accept_def s3_def Let_def)
  also have "\<dots> = Some (accepted r d s)"
    using assms(7) fr(1) lk by (simp add: set_slot_free_def acc s3_def)
  finally show "accept \<lparr>real_msg = r, dest_msg = Some d\<rparr> s = Some (accepted r d s)" .
qed

lemma accepted_simps [simp]:
  "base (accepted r d s) = base s" "is_eka1 (accepted r d s) = is_eka1 s" "msg_slots (accepted r d s) = msg_slots s"
  "next_ref (accepted r d s) = next_ref s" "sess (accepted r d s) = sess s" "servers (accepted r d s) = servers s"
  "mem2 (accepted r d s) = mem2 s"
  by (simp_all add: accepted_def)

definition block_of :: "ipc_msg \<Rightarrow> message2 \<Rightarrow> message2" where
  "block_of m dat = dat\<lparr>ipc_msg_handle := msg_id m, m2_flags := flag (msg_args m),
     m2_function := msg_function m, session_ptr := session_ptr_lle m, m2_args := args (msg_args m)\<rparr>"

lemma finish_request_spec:
  assumes "\<not> is_eka1 s" and "request_own_thread (servers s sv) = Some t"
    and "p = owner (thr (base s) t)" and "mem2 s p (request_data (servers s sv)) = Some dat"
    and "user_mem (base s) p (request_status_ptr (servers s sv)) \<noteq> None" and "can_notify t (base s)"
  shows "finish_request_lle sv d True s = Some (upd_srv sv
      (\<lambda>v. v\<lparr>request_own_thread := None, request_status_ptr := 0, request_data := 0\<rparr>)
      (s\<lparr>mem2 := (mem2 s)(p := (mem2 s p)(request_data (servers s sv) \<mapsto> block_of (msg_heap s d) dat)),
         base := notified t (status_written p (request_status_ptr (servers s sv)) 0 (base s))\<rparr>))"
  using assms write_and_signal [OF assms(5,6)]
  by (cases s) (simp add: finish_request_lle_def write_block_def block_of_def Let_def)

section \<open>A request and its reply\<close>

text \<open>The system with another thread running.\<close>

definition as_thread :: "tid \<Rightarrow> ipc \<Rightarrow> ipc" where
  "as_thread t s = s\<lparr>base := (base s)\<lparr>crr_thread := Some t\<rparr>\<rparr>"

text \<open>A client thread \<open>c\<close> with a session on an idle server, whose thread \<open>t\<close> can receive: the memory the
  two threads name is mapped, neither waits for a request, and two messages can be created.\<close>

definition connected :: "tid \<Rightarrow> address \<Rightarrow> session_id \<Rightarrow> server_id \<Rightarrow> tid \<Rightarrow> address \<Rightarrow> address \<Rightarrow> ipc \<Rightarrow> bool" where
  "connected c csts ss sv t ssts data s \<longleftrightarrow> msgs_ok s \<and> \<not> is_eka1 s \<and> 2 \<le> n_free s
     \<and> svr (sess s ss) = sv \<and> msgs_pool (sess s ss) = []
     \<and> delivered_msgs (servers s sv) = [] \<and> request_status_ptr (servers s sv) = 0
     \<and> csts \<noteq> 0 \<and> ssts \<noteq> 0 \<and> data \<noteq> 0
     \<and> mem2 s (owner (thr (base s) t)) data \<noteq> None
     \<and> user_mem (base s) (owner (thr (base s) t)) ssts \<noteq> None
     \<and> user_mem (base s) (owner (thr (base s) c)) csts \<noteq> None
     \<and> can_notify t (base s) \<and> can_notify c (base s)"

text \<open>The request has arrived in the memory of the server's thread, as message \<open>h\<close>, and no other message
  was used up.\<close>

definition request_arrived :: "tid \<Rightarrow> u32 \<Rightarrow> ipc_arg \<Rightarrow> address \<Rightarrow> session_id \<Rightarrow> server_id \<Rightarrow> tid \<Rightarrow> address \<Rightarrow> address
    \<Rightarrow> nat \<Rightarrow> ipc \<Rightarrow> ipc \<Rightarrow> bool" where
  "request_arrived c f a csts ss sv t ssts data h s s' \<longleftrightarrow>
     h < length (msg_slots s') \<and> avail s ! h \<and> avail s' = (avail s)[h := False] \<and> msgs_ok s'
     \<and> (\<exists>d. msg_slots s' ! h = Some d \<and> own_thr (msg_heap s' d) = Some c \<and> request_sts (msg_heap s' d) = csts
          \<and> msg_session (msg_heap s' d) = Some ss \<and> \<not> msg_locked (msg_heap s' d))
     \<and> map_option (\<lambda>m. (ipc_msg_handle m, m2_function m, m2_args m, m2_flags m, session_ptr m))
          (mem2 s' (owner (thr (base s) t)) data) = Some (h, f, args a, flag a, cookie_address (sess s ss))
     \<and> thr (base s') = thr (base s)
     \<and> user_mem (base s') = user_mem (status_written (owner (thr (base s) t)) ssts 0 (base s))
     \<and> (\<forall>q. avail_count (sema (base s') q) = avail_count (sema (base s) q) + (if q = request_sema (thr (base s) t) then 1 else 0))
     \<and> delivered_msgs (servers s' sv) = [] \<and> \<not> ready (servers s' sv)"

lemma as_thread_simps [simp]:
  "is_eka1 (as_thread t s) = is_eka1 s" "msg_slots (as_thread t s) = msg_slots s"
  "msg_heap (as_thread t s) = msg_heap s" "next_ref (as_thread t s) = next_ref s"
  "sess (as_thread t s) = sess s" "servers (as_thread t s) = servers s" "mem2 (as_thread t s) = mem2 s"
  "thr (base (as_thread t s)) = thr (base s)" "user_mem (base (as_thread t s)) = user_mem (base s)"
  "sema (base (as_thread t s)) = sema (base s)" "crr_thread (base (as_thread t s)) = Some t"
  "avail (as_thread t s) = avail s" "msgs_ok (as_thread t s) = msgs_ok s" "n_free (as_thread t s) = n_free s"
  "can_notify u (base (as_thread t s)) = can_notify u (base s)"
  by (simp_all add: as_thread_def avail_def slot_available_def [abs_def] msgs_ok_def n_free_def can_notify_def)

lemma connectedD:
  assumes "connected c csts ss sv t ssts data s"
  shows "msgs_ok s" "\<not> is_eka1 s" "2 \<le> n_free s" "svr (sess s ss) = sv" "msgs_pool (sess s ss) = []"
    "delivered_msgs (servers s sv) = []" "request_status_ptr (servers s sv) = 0" "csts \<noteq> 0" "ssts \<noteq> 0" "data \<noteq> 0"
    "mem2 s (owner (thr (base s) t)) data \<noteq> None" "user_mem (base s) (owner (thr (base s) t)) ssts \<noteq> None"
    "user_mem (base s) (owner (thr (base s) c)) csts \<noteq> None" "can_notify t (base s)" "can_notify c (base s)"
  using assms by (simp_all add: connected_def)

lemma send_queues:
  assumes "connected c csts ss sv t ssts data s"
  obtains i r m s1 where "send_receive ss f a csts (as_thread c s) = Some (0, s1)"
    "i < length (msg_slots s)" "avail s ! i" "avail s1 = (avail s)[i := False]" "msgs_ok s1"
    "Suc (n_free s1) = n_free s" "msg_slots s1 = (msg_slots s)[i := Some r]" "msg_heap s1 r = m"
    "own_thr m = Some c" "msg_function m = f" "msg_args m = a" "request_sts m = csts" "msg_session m = Some ss"
    "session_ptr_lle m = cookie_address (sess s ss)" "\<not> msg_locked m" "\<not> msg_free m"
    "base s1 = base (as_thread c s)" "sess s1 = sess s" "mem2 s1 = mem2 s" "is_eka1 s1 = is_eka1 s"
    "servers s1 = (servers s)(sv := (servers s sv)\<lparr>delivered_msgs := [\<lparr>real_msg = r, dest_msg = None\<rparr>]\<rparr>)"
proof -
  note c = connectedD [OF assms]
  obtain i where i: "find_index (\<lambda>b. b) (avail (as_thread c s)) = Some i" "i < length (msg_slots s)" "avail s ! i"
    "\<And>s'. avail s' = (avail s)[i := False] \<Longrightarrow> Suc (n_free s') = n_free s"
    using n_free_find [of s] c(3) by auto
  from c(1) have "msgs_ok (as_thread c s)" by simp
  then obtain r n m0 where r: "create_msg (as_thread c s) = (Some r, (as_thread c s)\<lparr>msg_slots := (msg_slots s)[i := Some r],
      msg_heap := (msg_heap s)(r := m0), next_ref := n\<rparr>)"
    "msgs_ok ((as_thread c s)\<lparr>msg_slots := (msg_slots s)[i := Some r], msg_heap := (msg_heap s)(r := m0), next_ref := n\<rparr>)"
    "avail ((as_thread c s)\<lparr>msg_slots := (msg_slots s)[i := Some r], msg_heap := (msg_heap s)(r := m0), next_ref := n\<rparr>) = (avail s)[i := False]"
    "\<not> msg_free m0" "\<not> msg_locked m0"
    by (rule create_msg_spec [OF _ i(1)]) auto
  define s0 where "s0 = (as_thread c s)\<lparr>msg_slots := (msg_slots s)[i := Some r], msg_heap := (msg_heap s)(r := m0), next_ref := n\<rparr>"
  define s2 where "s2 = upd_msg r (\<lambda>m. m\<lparr>msg_status := Msg_delivered, msg_session := Some ss,
      session_ptr_lle := cookie_address (sess s ss)\<rparr>) (upd_msg r (fill_msg f a (Some c) csts) s0)"
  define s1 where "s1 = upd_srv sv (\<lambda>v. v\<lparr>delivered_msgs := delivered_msgs v @ [\<lparr>real_msg = r, dest_msg = None\<rparr>]\<rparr>) s2"
  have s0: "sess s0 = sess s" "servers s0 = servers s" "base s0 = base (as_thread c s)" "mem2 s0 = mem2 s"
    "is_eka1 s0 = is_eka1 s" "msg_slots s0 = (msg_slots s)[i := Some r]" "msg_heap s0 r = m0" by (simp_all add: s0_def)
  have g: "get_free_msg ss (as_thread c s) = (Some r, s0)"
    using r(1) c(5) by (simp add: get_free_msg_def s0_def)
  have "send_receive ss f a csts (as_thread c s) = Some (0, s1)"
    using g c(4,7) by (simp add: send_receive_def send_def deliver_def ready_def s1_def s2_def s0 Let_def)
  moreover have "avail s1 = avail s2" "msgs_ok s1 = msgs_ok s2"
    by (simp_all add: s1_def avail_def slot_available_def [abs_def] msgs_ok_def)
  moreover have "avail s2 = avail s0" "msgs_ok s2"
    using r(2) unfolding s2_def s0_def [symmetric]
    by (auto intro!: upd_msg_ok simp: upd_msg_avail fill_msg_def)
  ultimately show thesis using i r(3-5) c(6)
    by (intro that [of s1 i r "msg_heap s1 r"])
       (simp_all add: s1_def s2_def s0 fill_msg_def s0_def [symmetric])
qed


text \<open>Creating a message and marking it live.\<close>

lemma created_msg:
  assumes "msgs_ok s" and "0 < n_free s"
  obtains i d s1 where "create_msg s = (Some d, s1)" "i < length (msg_slots s)" "avail s ! i"
    "avail s1 = (avail s)[i := False]" "msgs_ok s1" "Suc (n_free s1) = n_free s"
    "upd_msg d (\<lambda>m. m\<lparr>msg_free := False\<rparr>) s1 = s1"
    "msg_slots s1 = (msg_slots s)[i := Some d]" "\<And>r. r \<noteq> d \<Longrightarrow> msg_heap s1 r = msg_heap s r"
    "msg_id (msg_heap s1 d) = i" "\<not> msg_free (msg_heap s1 d)" "\<not> msg_locked (msg_heap s1 d)"
    "base s1 = base s" "sess s1 = sess s" "mem2 s1 = mem2 s" "is_eka1 s1 = is_eka1 s" "servers s1 = servers s"
    "\<And>j. j < length (msg_slots s) \<Longrightarrow> j \<noteq> i \<Longrightarrow> msg_slots s ! j \<noteq> Some d"
proof -
  obtain i where i: "find_index (\<lambda>b. b) (avail s) = Some i" "i < length (msg_slots s)" "avail s ! i"
    "\<And>s'. avail s' = (avail s)[i := False] \<Longrightarrow> Suc (n_free s') = n_free s"
    using n_free_find [OF assms(2)] by auto
  obtain d n m0 where d: "create_msg s = (Some d, s\<lparr>msg_slots := (msg_slots s)[i := Some d],
      msg_heap := (msg_heap s)(d := m0), next_ref := n\<rparr>)"
    "msgs_ok (s\<lparr>msg_slots := (msg_slots s)[i := Some d], msg_heap := (msg_heap s)(d := m0), next_ref := n\<rparr>)"
    "avail (s\<lparr>msg_slots := (msg_slots s)[i := Some d], msg_heap := (msg_heap s)(d := m0), next_ref := n\<rparr>) = (avail s)[i := False]"
    "msg_id m0 = i" "\<not> msg_free m0" "\<not> msg_locked m0"
    "\<And>j. j < length (msg_slots s) \<Longrightarrow> j \<noteq> i \<Longrightarrow> msg_slots s ! j \<noteq> Some d"
    by (rule create_msg_spec [OF assms(1) i(1)]) auto
  let ?s = "s\<lparr>msg_slots := (msg_slots s)[i := Some d], msg_heap := (msg_heap s)(d := m0), next_ref := n\<rparr>"
  have "m0\<lparr>msg_free := False\<rparr> = m0" using d(5) by (cases m0) simp
  then have "upd_msg d (\<lambda>m. m\<lparr>msg_free := False\<rparr>) ?s = ?s"
    by (cases s) (simp add: upd_msg_def)
  then show thesis
    by (intro that [OF d(1) i(2,3) d(3,2) i(4) [OF d(3)]]) (use d in auto)
qed

lemma avail_swap: "i \<noteq> j \<Longrightarrow> bs ! i \<Longrightarrow> bs[i := False, j := False, i := True] = bs[j := False]"
proof (rule nth_equalityI)
  fix k assume "i \<noteq> j" "bs ! i" "k < length (bs[i := False, j := False, i := True])"
  then show "bs[i := False, j := False, i := True] ! k = bs[j := False] ! k" by (cases "k = i"; cases "k = j"; simp)
qed simp

lemma receive_takes_queued:
  assumes "connected c csts ss sv t ssts data s"
    and "send_receive ss f a csts (as_thread c s) = Some (0, s1)"
  shows "\<exists>h s2. receive_async_lle sv ssts data (as_thread t s1) = Some s2
    \<and> request_arrived c f a csts ss sv t ssts data h s s2"
proof -
  note c = connectedD [OF assms(1)]
  obtain i r m where q: "i < length (msg_slots s)" "avail s ! i" "avail s1 = (avail s)[i := False]" "msgs_ok s1"
    "Suc (n_free s1) = n_free s" "msg_slots s1 = (msg_slots s)[i := Some r]" "msg_heap s1 r = m"
    "own_thr m = Some c" "msg_function m = f" "msg_args m = a" "request_sts m = csts" "msg_session m = Some ss"
    "session_ptr_lle m = cookie_address (sess s ss)" "\<not> msg_locked m" "\<not> msg_free m"
    "base s1 = base (as_thread c s)" "sess s1 = sess s" "mem2 s1 = mem2 s" "is_eka1 s1 = is_eka1 s"
    "servers s1 = (servers s)(sv := (servers s sv)\<lparr>delivered_msgs := [\<lparr>real_msg = r, dest_msg = None\<rparr>]\<rparr>)"
    by (rule send_queues [OF assms(1), of f a]) (use assms(2) in auto)
  have "msgs_ok (as_thread t s1)" "0 < n_free (as_thread t s1)" using q c(3) by simp_all
  then obtain j d s2 where d: "create_msg (as_thread t s1) = (Some d, s2)" "j < length (msg_slots s)" "avail s1 ! j"
    "avail s2 = (avail s1)[j := False]" "msgs_ok s2" "upd_msg d (\<lambda>m. m\<lparr>msg_free := False\<rparr>) s2 = s2"
    "msg_slots s2 = (msg_slots s1)[j := Some d]" "\<And>r. r \<noteq> d \<Longrightarrow> msg_heap s2 r = msg_heap s1 r"
    "msg_id (msg_heap s2 d) = j" "\<not> msg_locked (msg_heap s2 d)" "base s2 = base (as_thread t s1)"
    "sess s2 = sess s" "mem2 s2 = mem2 s" "is_eka1 s2 = is_eka1 s" "servers s2 = servers s1"
    "\<And>k. k < length (msg_slots s1) \<Longrightarrow> k \<noteq> j \<Longrightarrow> msg_slots s1 ! k \<noteq> Some d"
    by (rule created_msg) (simp add: q(3,6,16-19))
  have ij: "i \<noteq> j" using d(2,3) q(1,3) by auto
  then have rd: "r \<noteq> d" using d(16) [of i] q(1,6) by force
  have r2: "msg_heap s2 r = m" "msg_slots s2 ! i = Some r" "i < length (msg_slots s2)"
    using d(7,8) rd ij q(1,6,7) by simp_all
  have acc: "accept \<lparr>real_msg = r, dest_msg = Some d\<rparr> s2 = Some (accepted r d s2)"
    "avail (accepted r d s2) = (avail s2)[i := True]" "msgs_ok (accepted r d s2)"
    using accept_spec [OF d(5) r2(3,2) rd] r2(1) q(12,14) d(12) c(5) by simp_all
  define s3 where "s3 = upd_srv sv (\<lambda>v. v\<lparr>request_status_ptr := ssts, request_own_thread := Some t, request_data := data\<rparr>)
    (upd_srv sv (\<lambda>v. v\<lparr>delivered_msgs := butlast (delivered_msgs v)\<rparr>) (accepted r d s2))"
  have s3: "servers s3 sv = (servers s sv)\<lparr>delivered_msgs := [], request_status_ptr := ssts, request_own_thread := Some t, request_data := data\<rparr>"
    "base s3 = base (as_thread t s1)" "mem2 s3 = mem2 s" "is_eka1 s3 = is_eka1 s" "msg_slots s3 = msg_slots s2"
    "msg_heap s3 = msg_heap (accepted r d s2)" "avail s3 = avail (accepted r d s2)" "msgs_ok s3 = msgs_ok (accepted r d s2)"
    using q(20) d(11,13,14,15)
    by (simp_all add: s3_def avail_def slot_available_def [abs_def] msgs_ok_def)
  have m3: "msg_heap s3 d = copy_msg m ((msg_heap s2 d)\<lparr>msg_status := Msg_accepted\<rparr>)"
    using rd r2(1) by (simp add: s3 accepted_def)
  obtain dat where dat: "mem2 s (owner (thr (base s) t)) data = Some dat" using c(11) by blast
  let ?p = "owner (thr (base s) t)"
  have b3: "thr (base s3) = thr (base s)" "user_mem (base s3) = user_mem (base s)" "sema (base s3) = sema (base s)"
    "can_notify t (base s3)"
    using c(14) by (simp_all add: s3(2) q(16) as_thread_def can_notify_def)
  define s4 where "s4 = upd_srv sv (\<lambda>v. v\<lparr>request_own_thread := None, request_status_ptr := 0, request_data := 0\<rparr>)
      (s3\<lparr>mem2 := (mem2 s3)(?p := (mem2 s3 ?p)(data \<mapsto> block_of (msg_heap s3 d) dat)),
         base := notified t (status_written ?p ssts 0 (base s3))\<rparr>)"
  have "finish_request_lle sv d True s3 = Some s4"
    using finish_request_spec [of s3 sv t ?p dat d] b3 s3(1,3,4) c(2,12) dat by (simp add: s4_def)
  moreover have "receive_async_lle sv ssts data (as_thread t s1) = finish_request_lle sv d True s3"
    using d(1,6,11,15) acc(1) q(20) by (simp add: receive_async_lle_def receive_def s3_def Let_def)
  moreover have "request_arrived c f a csts ss sv t ssts data j s s4"
  proof -
    have "avail s4 = (avail s)[j := False]"
    proof -
      have "avail s4 = avail s3" by (simp add: s4_def avail_def slot_available_def [abs_def])
      also have "\<dots> = (avail s)[i := False, j := False, i := True]" using acc(2) s3(7) d(4) q(3) by simp
      also have "\<dots> = (avail s)[j := False]" using ij q(2) by (rule avail_swap)
      finally show ?thesis .
    qed
    moreover have "avail s ! j" using d(2,3) q(3) ij by simp
    moreover have "msgs_ok s4" using acc(3) s3(8) by (simp add: s4_def msgs_ok_def)
    moreover have "msg_slots s4 ! j = Some d" "j < length (msg_slots s4)" using d(2,7) q(6) by (simp_all add: s4_def s3(5))
    ultimately show ?thesis
      using m3 d(9,10) q(8-14) b3 dat
      by (auto simp: request_arrived_def s4_def s3 ready_def block_of_def copy_msg_def)
  qed
  ultimately show ?thesis by auto
qed

lemma send_reaches_waiting:
  assumes "connected c csts ss sv t ssts data s"
  shows "\<exists>h s1 s2. receive_async_lle sv ssts data (as_thread t s) = Some s1
    \<and> send_receive ss f a csts (as_thread c s1) = Some (0, s2)
    \<and> request_arrived c f a csts ss sv t ssts data h s s2"
proof -
  note c = connectedD [OF assms]
  let ?p = "owner (thr (base s) t)"
  have "msgs_ok (as_thread t s)" "0 < n_free (as_thread t s)" using c(1,3) by simp_all
  then obtain i d s1 where d: "create_msg (as_thread t s) = (Some d, s1)" "i < length (msg_slots s)" "avail s ! i"
    "avail s1 = (avail s)[i := False]" "msgs_ok s1" "Suc (n_free s1) = n_free s"
    "upd_msg d (\<lambda>m. m\<lparr>msg_free := False\<rparr>) s1 = s1"
    "msg_slots s1 = (msg_slots s)[i := Some d]"
    "msg_id (msg_heap s1 d) = i" "\<not> msg_free (msg_heap s1 d)" "\<not> msg_locked (msg_heap s1 d)"
    "base s1 = base (as_thread t s)" "sess s1 = sess s" "mem2 s1 = mem2 s" "is_eka1 s1 = is_eka1 s" "servers s1 = servers s"
    by (rule created_msg) simp
  define s2 where "s2 = upd_srv sv (\<lambda>v. v\<lparr>request_msg := Some d\<rparr>)
    (upd_srv sv (\<lambda>v. v\<lparr>request_status_ptr := ssts, request_own_thread := Some t, request_data := data\<rparr>) s1)"
  have rcv: "receive_async_lle sv ssts data (as_thread t s) = Some s2"
    using d(1,7,12,16) c(6) by (simp add: receive_async_lle_def receive_def s2_def Let_def)
  have s2: "avail s2 = avail s1" "msgs_ok s2 = msgs_ok s1" "n_free s2 = n_free s1" "msg_slots s2 = msg_slots s1"
    "sess s2 = sess s" "mem2 s2 = mem2 s" "is_eka1 s2 = is_eka1 s" "msg_heap s2 = msg_heap s1"
    "base s2 = base (as_thread t s)"
    by (simp_all add: s2_def n_free_def avail_def slot_available_def [abs_def] msgs_ok_def d)
  have "msgs_ok (as_thread c s2)" "0 < n_free (as_thread c s2)" using c(3) d(5,6) s2 by simp_all
  then obtain j r s3 where r: "create_msg (as_thread c s2) = (Some r, s3)" "j < length (msg_slots s)" "avail s1 ! j"
    "avail s3 = (avail s1)[j := False]" "msgs_ok s3" "msg_slots s3 = (msg_slots s1)[j := Some r]"
    "\<And>x. x \<noteq> r \<Longrightarrow> msg_heap s3 x = msg_heap s1 x" "\<not> msg_locked (msg_heap s3 r)" "\<not> msg_free (msg_heap s3 r)"
    "base s3 = base (as_thread c s2)" "sess s3 = sess s" "mem2 s3 = mem2 s" "is_eka1 s3 = is_eka1 s"
    "servers s3 = servers s2" "\<And>k. k < length (msg_slots s1) \<Longrightarrow> k \<noteq> j \<Longrightarrow> msg_slots s1 ! k \<noteq> Some r"
    by (rule created_msg) (simp add: d(8) s2)
  have ij: "j \<noteq> i" using r(2,3) d(4) by auto
  then have rd: "r \<noteq> d" using r(15) [of i] d(2,8) by force
  define s4 where "s4 = upd_msg r (\<lambda>m. m\<lparr>msg_status := Msg_delivered, msg_session := Some ss,
      session_ptr_lle := cookie_address (sess s ss)\<rparr>) (upd_msg r (fill_msg f a (Some c) csts) s3)"
  define m where "m = msg_heap s4 r"
  have m: "own_thr m = Some c" "msg_function m = f" "msg_args m = a" "request_sts m = csts" "msg_session m = Some ss"
    "session_ptr_lle m = cookie_address (sess s ss)" "\<not> msg_locked m"
    using r(8) by (simp_all add: m_def s4_def fill_msg_def)
  have s4: "avail s4 = avail s3" "msgs_ok s4" "msg_slots s4 = msg_slots s3" "sess s4 = sess s" "mem2 s4 = mem2 s"
    "is_eka1 s4 = is_eka1 s" "msg_heap s4 d = msg_heap s1 d" "base s4 = base (as_thread c s2)" "servers s4 = servers s2"
    using r(5,7-14) rd unfolding s4_def
    by (auto intro!: upd_msg_ok simp: upd_msg_avail fill_msg_def)
  have r4: "j < length (msg_slots s4)" "msg_slots s4 ! j = Some r" using r(2,6) d(8) by (simp_all add: s4(3))
  have acc: "accept \<lparr>real_msg = r, dest_msg = Some d\<rparr> s4 = Some (accepted r d s4)"
    "avail (accepted r d s4) = (avail s4)[j := True]" "msgs_ok (accepted r d s4)"
    using accept_spec [OF s4(2) r4 rd] m(5,7) c(5) by (simp_all add: m_def [symmetric] s4(4))
  define s5 where "s5 = accepted r d s4"
  have v5: "servers s5 sv = (servers s sv)\<lparr>request_status_ptr := ssts, request_own_thread := Some t, request_data := data, request_msg := Some d\<rparr>"
    by (simp add: s5_def s4(9) s2_def d(16))
  have b5: "thr (base s5) = thr (base s)" "user_mem (base s5) = user_mem (base s)" "sema (base s5) = sema (base s)"
    "can_notify t (base s5)" "mem2 s5 = mem2 s" "is_eka1 s5 = is_eka1 s"
    using c(14) by (simp_all add: s5_def s4(5,6,8) s2(9) as_thread_def can_notify_def)
  obtain dat where dat: "mem2 s ?p data = Some dat" using c(11) by blast
  define s6 where "s6 = upd_srv sv (\<lambda>v. v\<lparr>request_own_thread := None, request_status_ptr := 0, request_data := 0\<rparr>)
      (s5\<lparr>mem2 := (mem2 s5)(?p := (mem2 s5 ?p)(data \<mapsto> block_of (msg_heap s5 d) dat)),
         base := notified t (status_written ?p ssts 0 (base s5))\<rparr>)"
  have fin: "finish_request_lle sv d True s5 = Some s6"
    using finish_request_spec [of s5 sv t ?p dat d] b5 v5 c(2,12) dat by (simp add: s6_def)
  have v2: "request_status_ptr (servers s4 sv) = ssts" "request_data (servers s4 sv) = data" "request_msg (servers s4 sv) = Some d"
    by (simp_all add: s4(9) s2_def)
  have "send ss r (upd_msg r (fill_msg f a (Some c) csts) s3) = deliver sv \<lparr>real_msg = r, dest_msg = None\<rparr> s4"
    by (simp add: send_def s4_def r(11) c(4) Let_def)
  also have "\<dots> = Some s6"
    using acc(1) fin v2 c(9,10) by (simp add: deliver_def ready_def Let_def s5_def)
  finally have snd: "send_receive ss f a csts (as_thread c s2) = Some (0, s6)"
    using r(1,10) c(5) by (simp add: send_receive_def get_free_msg_def s2(5) Let_def)
  have m5: "msg_heap s5 d = copy_msg m ((msg_heap s1 d)\<lparr>msg_status := Msg_accepted\<rparr>)"
    using rd by (simp add: s5_def accepted_def m_def s4(7))
  have "request_arrived c f a csts ss sv t ssts data i s s6"
  proof -
    have "avail s6 = (avail s)[i := False]"
    proof -
      have "avail s6 = avail s5" by (simp add: s6_def avail_def slot_available_def [abs_def])
      also have "\<dots> = (avail s1)[j := False, j := True]" using acc(2) s4(1) r(4) by (simp add: s5_def)
      also have "\<dots> = avail s1" using r(3) by (metis (full_types) list_update_id list_update_overwrite)
      finally show ?thesis using d(4) by simp
    qed
    moreover have "msgs_ok s6" using acc(3) by (simp add: s6_def s5_def msgs_ok_def)
    moreover have "msg_slots s6 ! i = Some d" "i < length (msg_slots s6)"
      using d(2,8) r(6) ij by (simp_all add: s6_def s5_def s4(3))
    ultimately show ?thesis
      using m5 d(3,9,11) m b5 dat v5 c(6)
      by (auto simp: request_arrived_def s6_def ready_def block_of_def copy_msg_def)
  qed
  with rcv snd show ?thesis by blast
qed

lemma message_complete_spec:
  assumes "request_arrived c f a csts ss sv t ssts data h s s2" and "csts \<noteq> 0"
    and "user_mem (base s) (owner (thr (base s) c)) csts \<noteq> None" and "can_notify c (base s)"
  shows "\<exists>s3. message_complete (int h) val s2 = Some s3 \<and> avail s3 = avail s \<and> msgs_ok s3
    \<and> map_option status (user_mem (base s3) (owner (thr (base s) c)) csts) = Some val
    \<and> avail_count (sema (base s3) (request_sema (thr (base s) c)))
      = avail_count (sema (base s2) (request_sema (thr (base s) c))) + 1"
proof -
  obtain d where d: "h < length (msg_slots s2)" "avail s ! h" "avail s2 = (avail s)[h := False]" "msgs_ok s2"
    "msg_slots s2 ! h = Some d" "own_thr (msg_heap s2 d) = Some c" "request_sts (msg_heap s2 d) = csts"
    "\<not> msg_locked (msg_heap s2 d)" "thr (base s2) = thr (base s)"
    "user_mem (base s2) = user_mem (status_written (owner (thr (base s) t)) ssts 0 (base s))"
    "\<And>q. avail_count (sema (base s2) q) = avail_count (sema (base s) q) + (if q = request_sema (thr (base s) t) then 1 else 0)"
    using assms(1) by (auto simp: request_arrived_def)
  let ?p = "owner (thr (base s) c)"
  have u: "user_mem (base s2) ?p csts \<noteq> None"
    using assms(3) by (cases "?p = owner (thr (base s) t)") (auto simp: d(10))
  define k where "k = status_written ?p csts val (base s2)"
  have w: "write_status ?p csts val (base s2) = Some k" using u by (auto simp: write_status_def k_def status_written_def)
  have tk: "request_sema (thr k c) = request_sema (thr (base s) c)" "sema k = sema (base s2)"
    by (simp_all add: k_def status_written_def d(9))
  have "0 \<le> avail_count (sema k (request_sema (thr k c)))" "avail_count (sema k (request_sema (thr k c))) < 2 ^ 31 - 1"
    using assms(4) by (auto simp: can_notify_def tk d(11))
  then have sg: "signal_request c 1 k = Some (notified c k)"
    by (simp add: signal_request_def sema_signal_def signal_once_def notified_def upd_sema_def)
  define s3 where "s3 = s2\<lparr>base := notified c k\<rparr>"
  have s3: "msgs_ok s3" "msg_slots s3 ! h = Some d" "h < length (msg_slots s3)" "\<not> msg_locked (msg_heap s3 d)" "avail s3 = avail s2"
    using d by (simp_all add: s3_def msgs_ok_def avail_def slot_available_def [abs_def])
  note fr = free_msg_avail [OF s3(1,3,2,4)]
  have "message_complete (int h) val s2 = Some (upd_msg d (\<lambda>m. m\<lparr>msg_free := True\<rparr>) s3)"
    using d(1,5-7,9) assms(2) w sg by (simp add: message_complete_def get_msg_def s3_def)
  moreover have "avail (upd_msg d (\<lambda>m. m\<lparr>msg_free := True\<rparr>) s3) = avail s"
    using fr(2) s3(5) d(2,3) by (metis (full_types) list_update_id list_update_overwrite)
  moreover have "map_option status (user_mem (notified c k) ?p csts) = Some val"
    using u by (auto simp: k_def assign_status_def)
  moreover have "avail_count (sema (notified c k) (request_sema (thr (base s) c))) = avail_count (sema (base s2) (request_sema (thr (base s) c))) + 1"
    by (simp add: k_def d(9))
  ultimately show ?thesis using fr(3) by (auto simp: s3_def)
qed

text \<open>C13. A request is served whether the client sends before the server asks or after: either way the
  server's thread finds the function, the arguments and the session's cookie in its memory and is
  signalled; completing the message then delivers the result to the client, signals it, and leaves the
  message table with exactly the free slots it had.\<close>

theorem request_reply_roundtrip:
  assumes "connected c csts ss sv t ssts data s"
  shows "(\<exists>s1 s2 h s3. send_receive ss f a csts (as_thread c s) = Some (0, s1)
      \<and> receive_async_lle sv ssts data (as_thread t s1) = Some s2
      \<and> request_arrived c f a csts ss sv t ssts data h s s2
      \<and> message_complete (int h) val s2 = Some s3 \<and> avail s3 = avail s
      \<and> map_option status (user_mem (base s3) (owner (thr (base s) c)) csts) = Some val
      \<and> avail_count (sema (base s3) (request_sema (thr (base s) c)))
        = avail_count (sema (base s2) (request_sema (thr (base s) c))) + 1)
    \<and> (\<exists>s1 s2 h s3. receive_async_lle sv ssts data (as_thread t s) = Some s1
      \<and> send_receive ss f a csts (as_thread c s1) = Some (0, s2)
      \<and> request_arrived c f a csts ss sv t ssts data h s s2
      \<and> message_complete (int h) val s2 = Some s3 \<and> avail s3 = avail s
      \<and> map_option status (user_mem (base s3) (owner (thr (base s) c)) csts) = Some val
      \<and> avail_count (sema (base s3) (request_sema (thr (base s) c)))
        = avail_count (sema (base s2) (request_sema (thr (base s) c))) + 1)"
proof -
  note c = connectedD [OF assms]
  note reply = message_complete_spec [OF _ c(8,13,15), of f a ss sv t ssts data _ _ val]
  obtain s1 where s1: "send_receive ss f a csts (as_thread c s) = Some (0, s1)"
    using send_queues [OF assms] by metis
  from receive_takes_queued [OF assms s1] obtain h s2 where
    a: "receive_async_lle sv ssts data (as_thread t s1) = Some s2" "request_arrived c f a csts ss sv t ssts data h s s2"
    by blast
  obtain h' s1' s2' where
    b: "receive_async_lle sv ssts data (as_thread t s) = Some s1'" "send_receive ss f a csts (as_thread c s1') = Some (0, s2')"
      "request_arrived c f a csts ss sv t ssts data h' s s2'"
    using send_reaches_waiting [OF assms] by blast
  show ?thesis using s1 a b reply [OF a(2)] reply [OF b(3)] by blast
qed

section \<open>Cancelled requests\<close>

text \<open>A server that asks for requests and cancels, \<open>n\<close> times over.\<close>

fun receive_cancel :: "nat \<Rightarrow> server_id \<Rightarrow> address \<Rightarrow> address \<Rightarrow> ipc \<Rightarrow> ipc undef" where
  "receive_cancel 0 sv ssts data s = Some s"
| "receive_cancel (Suc n) sv ssts data s = do {
     s \<leftarrow> receive_async_lle sv ssts data s;
     s \<leftarrow> cancel_async_lle sv s;
     receive_cancel n sv ssts data s
   }"

lemma receive_cancel_once:
  assumes "msgs_ok s" and "0 < n_free s" and "delivered_msgs (servers s sv) = []" and "crr_thread (base s) = Some t"
    and "ssts \<noteq> 0" and "user_mem (base s) (owner (thr (base s) t)) ssts \<noteq> None" and "can_notify t (base s)"
  shows "\<exists>s1 s2. receive_async_lle sv ssts data s = Some s1 \<and> cancel_async_lle sv s1 = Some s2
    \<and> msgs_ok s2 \<and> Suc (n_free s2) = n_free s \<and> delivered_msgs (servers s2 sv) = []
    \<and> crr_thread (base s2) = Some t \<and> thr (base s2) = thr (base s)
    \<and> user_mem (base s2) (owner (thr (base s) t)) ssts \<noteq> None
    \<and> avail_count (sema (base s2) (request_sema (thr (base s) t))) = avail_count (sema (base s) (request_sema (thr (base s) t))) + 1"
proof -
  obtain i d s0 where d: "create_msg s = (Some d, s0)" "msgs_ok s0" "Suc (n_free s0) = n_free s"
    "upd_msg d (\<lambda>m. m\<lparr>msg_free := False\<rparr>) s0 = s0" "base s0 = base s" "servers s0 = servers s"
    by (rule created_msg [OF assms(1,2)]) simp
  define s1 where "s1 = upd_srv sv (\<lambda>v. v\<lparr>request_msg := Some d\<rparr>)
    (upd_srv sv (\<lambda>v. v\<lparr>request_status_ptr := ssts, request_own_thread := Some t, request_data := data\<rparr>) s0)"
  have rcv: "receive_async_lle sv ssts data s = Some s1"
    using d(1,4,5,6) assms(3,4) by (simp add: receive_async_lle_def receive_def s1_def Let_def)
  let ?p = "owner (thr (base s) t)"
  define s2 where "s2 = upd_srv sv (\<lambda>v. v\<lparr>request_own_thread := None, request_status_ptr := 0, request_data := 0,
      request_msg := None\<rparr>) (s1\<lparr>base := notified t (status_written ?p ssts (-3) (base s))\<rparr>)"
  have "cancel_async_lle sv s1 = Some s2"
    using write_and_signal [OF assms(6,7)] assms(5) d(5)
    by (simp add: cancel_async_lle_def s1_def s2_def Let_def)
  moreover have "n_free s2 = n_free s0" "msgs_ok s2 = msgs_ok s0"
    by (simp_all add: s2_def s1_def n_free_def avail_def slot_available_def [abs_def] msgs_ok_def)
  moreover have "delivered_msgs (servers s2 sv) = []" using assms(3) d(6) by (simp add: s2_def s1_def)
  ultimately show ?thesis
    using rcv d(2,3) assms(4,6) by (auto simp: s2_def)
qed

text \<open>Every cancelled receive request costs a message: the one created for it is never freed. A server
  that asks and cancels as often as there are free messages leaves the kernel without any, and the
  next request dereferences a null message.\<close>

theorem cancelled_receives_exhaust_messages:
  assumes "msgs_ok s" and "n_free s = n" and "delivered_msgs (servers s sv) = []" and "crr_thread (base s) = Some t"
    and "ssts \<noteq> 0" and "user_mem (base s) (owner (thr (base s) t)) ssts \<noteq> None"
    and "0 \<le> avail_count (sema (base s) (request_sema (thr (base s) t)))"
    and "avail_count (sema (base s) (request_sema (thr (base s) t))) + int n < 2 ^ 31 - 2"
  shows "\<exists>s'. receive_cancel n sv ssts data s = Some s' \<and> fst (create_msg s') = None
    \<and> receive_async_lle sv ssts data s' = None"
  using assms
proof (induction n arbitrary: s)
  case 0
  then have "find_index (slot_available s) (msg_slots s) = None"
    by (auto simp: n_free_def avail_def filter_empty_conv find_index_None_iff)
  then have "create_msg s = (None, s)" by (simp add: create_msg_def)
  then show ?case by (simp add: receive_async_lle_def)
next
  case (Suc n)
  then have "0 < n_free s" "can_notify t (base s)" by (simp_all add: can_notify_def)
  from receive_cancel_once [OF Suc.prems(1) this(1) Suc.prems(3-6) this(2), of data]
  obtain s1 s2 where s2: "receive_async_lle sv ssts data s = Some s1" "cancel_async_lle sv s1 = Some s2"
    "msgs_ok s2" "Suc (n_free s2) = n_free s" "delivered_msgs (servers s2 sv) = []"
    "crr_thread (base s2) = Some t" "thr (base s2) = thr (base s)"
    "user_mem (base s2) (owner (thr (base s) t)) ssts \<noteq> None"
    "avail_count (sema (base s2) (request_sema (thr (base s) t))) = avail_count (sema (base s) (request_sema (thr (base s) t))) + 1"
    by blast
  have "\<exists>s'. receive_cancel n sv ssts data s2 = Some s' \<and> fst (create_msg s') = None
    \<and> receive_async_lle sv ssts data s' = None"
    using Suc.prems s2 by (intro Suc.IH) simp_all
  then show ?case using s2(1,2) by simp
qed

text \<open>Once a receive request has been answered, cancelling it dereferences a null thread.\<close>

theorem cancel_after_answer_undefined:
  assumes "finish_request_lle sv d notify s = Some s'"
  shows "cancel_async_lle sv s' = None"
  using assms by (auto simp: finish_request_lle_def cancel_async_lle_def Let_def split: bind_splits)

section \<open>Concrete executions\<close>

definition boot_ipc :: ipc where
  "boot_ipc = \<lparr>base = (fresh_kern (\<lambda>_. fresh_thread 5))\<lparr>crr_thread := Some 1, user_mem := (\<lambda>_ _. Some \<lparr>status = 0, flags = 0\<rparr>)\<rparr>,
     is_eka1 = False, msg_slots = replicate 0x1000 None, msg_heap = (\<lambda>_. new_msg None), next_ref = 0,
     sess = (\<lambda>_. \<lparr>svr = 0, msgs_pool = [], cookie_address = 77\<rparr>),
     servers = (\<lambda>_. \<lparr>sessions = [], delivered_msgs = [], process_msg = None, request_status_ptr = 0,
       request_data = 0, request_own_thread = None, request_msg = None\<rparr>),
     sync_msg = (\<lambda>_. None), mem1 = (\<lambda>_ _. None),
     mem2 = (\<lambda>_ _. Some \<lparr>ipc_msg_handle = 0, m2_function = 0, m2_args = [], spare1 = 0, session_ptr = 0, m2_flags = 0, spare3 = 0\<rparr>),
     thread_handles = (\<lambda>_. new_object_ix By_thread),
     objs = (\<lambda>_. \<lparr>obj_name = ''x'', obj_owner = None, global_access = True, obj_type = OT_thread, access_count = 0, is_chunk_heap = False\<rparr>)\<rparr>"

lemma boot_ipc_n_free: "n_free boot_ipc = 0x1000"
  by (simp add: n_free_def avail_def boot_ipc_def slot_available_def)

lemma boot_ipc_ok: "msgs_ok boot_ipc"
  by (simp add: msgs_ok_def boot_ipc_def)

lemma boot_ipc_connected: "connected 1 8 0 0 2 16 32 boot_ipc"
  using boot_ipc_n_free boot_ipc_ok
  by (simp add: connected_def can_notify_def boot_ipc_def)

theorem request_reply_roundtrip_witness:
  "\<exists>s1 s2 s3 h. receive_async_lle 0 16 32 (as_thread 2 boot_ipc) = Some s1
    \<and> send_receive 0 5 \<lparr>args = [1, 2, 3, 4], flag = 0\<rparr> 8 (as_thread 1 s1) = Some (0, s2)
    \<and> message_complete (int h) (-4) s2 = Some s3 \<and> avail s3 = avail boot_ipc"
  using request_reply_roundtrip [OF boot_ipc_connected, of 5 "\<lparr>args = [1, 2, 3, 4], flag = 0\<rparr>" "-4"] by blast

theorem cancelled_receives_exhaust_messages_witness:
  "\<exists>s'. receive_cancel 0x1000 0 16 32 boot_ipc = Some s' \<and> receive_async_lle 0 16 32 s' = None"
proof -
  have "delivered_msgs (servers boot_ipc 0) = []" "crr_thread (base boot_ipc) = Some 1" "(16 :: address) \<noteq> 0"
    "user_mem (base boot_ipc) (owner (thr (base boot_ipc) 1)) 16 \<noteq> None"
    "0 \<le> avail_count (sema (base boot_ipc) (request_sema (thr (base boot_ipc) 1)))"
    "avail_count (sema (base boot_ipc) (request_sema (thr (base boot_ipc) 1))) + int 0x1000 < 2 ^ 31 - 2"
    by (simp_all add: boot_ipc_def)
  from cancelled_receives_exhaust_messages [OF boot_ipc_ok boot_ipc_n_free this, of 32] show ?thesis by blast
qed

theorem cancel_after_answer_undefined_witness:
  "\<exists>s'. finish_request_lle 0 3 True (upd_srv 0 (\<lambda>v. v\<lparr>request_own_thread := Some 2, request_status_ptr := 16,
      request_data := 32\<rparr>) boot_ipc) = Some s' \<and> cancel_async_lle 0 s' = None"
proof -
  let ?s = "upd_srv 0 (\<lambda>v. v\<lparr>request_own_thread := Some 2, request_status_ptr := 16, request_data := 32\<rparr>) boot_ipc"
  have "\<exists>s'. finish_request_lle 0 3 True ?s = Some s'"
    using finish_request_spec [of ?s 0 2 "owner (thr (base ?s) 2)" _ 3] connectedD(11,12,14) [OF boot_ipc_connected]
    by (auto simp: boot_ipc_def)
  with cancel_after_answer_undefined show ?thesis by blast
qed

end
