(* ===== verification/Msg_Queue.thy ===== *)
theory Msg_Queue imports Thread_Process begin

text \<open>
  Message queues (\<open>kernel/msgqueue.cpp\<close>) and change notifiers (\<open>kernel/change_notifier.cpp\<close>): the two
  kernel objects whose clients register a request that is completed when something happens.
\<close>

section \<open>Requests that are kept\<close>

text \<open>\<open>notify_info::complete\<close> on a request that stays where it is: its status pointer is reset, which makes
  it an empty request.\<close>

definition complete_kept :: "int \<Rightarrow> notify_info \<Rightarrow> kern \<Rightarrow> (notify_info \<times> kern) undef" where
  "complete_kept err_code info k = do {
     k \<leftarrow> complete err_code info k;
     Some (info\<lparr>sts := 0\<rparr>, k)
   }"

fun complete_each :: "int \<Rightarrow> notify_info list \<Rightarrow> kern \<Rightarrow> (notify_info list \<times> kern) undef" where
  "complete_each err_code [] k = Some ([], k)"
| "complete_each err_code (i # is) k = do {
     (i, k) \<leftarrow> complete_kept err_code i k;
     (is, k) \<leftarrow> complete_each err_code is k;
     Some (i # is, k)
   }"

section \<open>Message queues\<close>

text \<open>\<open>avail_callback\<close> is a host callback with its argument; \<open>fired\<close> records the arguments of the calls.\<close>

record msg_queue =
  max_msg_length :: nat
  max_length :: nat
  msgs :: "u8 list list"
  avail_notifies :: "notify_info list"
  full_notifies :: "notify_info list"
  avail_callback :: "nat option"
  fired :: "nat list"

definition new_msg_queue :: "nat \<Rightarrow> nat \<Rightarrow> msg_queue" where
  "new_msg_queue max_message_size max_len = \<lparr>max_msg_length = max_message_size, max_length = max_len,
     msgs = [], avail_notifies = [], full_notifies = [], avail_callback = None, fired = []\<rparr>"

definition set_available_callback :: "nat \<Rightarrow> msg_queue \<Rightarrow> msg_queue" where
  "set_available_callback userdata q = (
     let q = q\<lparr>avail_callback := Some userdata\<rparr>
     in if msgs q \<noteq> [] then q\<lparr>fired := fired q @ [userdata]\<rparr> else q)"

definition clear_available_callback :: "msg_queue \<Rightarrow> msg_queue" where
  "clear_available_callback q = q\<lparr>avail_callback := None\<rparr>"

definition cancel_data_available :: "tid option \<Rightarrow> msg_queue \<times> kern \<Rightarrow> (msg_queue \<times> kern) undef" where
  "cancel_data_available req s = (case s of (q, k) \<Rightarrow>
     (case find_index (\<lambda>i. requester i = req) (avail_notifies q) of
        None \<Rightarrow> Some (q, k)
      | Some i \<Rightarrow> do {
          (_, k) \<leftarrow> complete_kept (-3) (avail_notifies q ! i) k;
          Some (q\<lparr>avail_notifies := erase_at i (avail_notifies q)\<rparr>, k)
        }))"

text \<open>The caller's request is passed by reference; the second result is what becomes of it.\<close>

definition notify_available :: "notify_info \<Rightarrow> msg_queue \<times> kern \<Rightarrow> (bool \<times> notify_info \<times> msg_queue \<times> kern) undef" where
  "notify_available info s = (case s of (q, k) \<Rightarrow>
     if msgs q \<noteq> [] then do {
       (info, k) \<leftarrow> complete_kept 0 info k;
       Some (True, info, q, k)
     }
     else if find_index (\<lambda>i. requester i = requester info) (avail_notifies q) = None
     then Some (True, info, q\<lparr>avail_notifies := avail_notifies q @ [info]\<rparr>, k)
     else Some (False, info, q, k))"

definition notify_full :: "notify_info \<Rightarrow> msg_queue \<times> kern \<Rightarrow> (bool \<times> notify_info \<times> msg_queue \<times> kern) undef" where
  "notify_full info s = (case s of (q, k) \<Rightarrow>
     if length (msgs q) = max_length q then do {
       (info, k) \<leftarrow> complete_kept 0 info k;
       Some (True, info, q, k)
     }
     else if find_index (\<lambda>i. requester i = requester info) (full_notifies q) = None
     then Some (True, info, q\<lparr>full_notifies := full_notifies q @ [info]\<rparr>, k)
     else Some (False, info, q, k))"

text \<open>\<open>receive\<close> gives the bytes it copies to the buffer.\<close>

definition queue_receive :: "nat \<Rightarrow> msg_queue \<Rightarrow> u8 list option \<times> msg_queue" where
  "queue_receive buffer_size q =
     (if buffer_size \<noteq> max_msg_length q then (None, q)
      else case msgs q of
             [] \<Rightarrow> (None, q)
           | data # rest \<Rightarrow> (Some data, q\<lparr>msgs := rest\<rparr>))"

text \<open>The new message has the length of the longest one: the rest is zero. Taking the address of the
  first byte of an empty message is undefined.\<close>

definition queue_send :: "u8 list \<Rightarrow> msg_queue \<times> kern \<Rightarrow> (bool \<times> msg_queue \<times> kern) undef" where
  "queue_send data s = (case s of (q, k) \<Rightarrow>
     if length data > max_msg_length q then Some (False, q, k)
     else if length (msgs q) = max_length q then Some (False, q, k)
     else do {
       (q, k) \<leftarrow> (if msgs q = [] then do {
                    (ns, k) \<leftarrow> complete_each 0 (avail_notifies q) k;
                    let q = q\<lparr>avail_notifies := ns\<rparr>;
                    Some (case avail_callback q of
                            None \<Rightarrow> q
                          | Some u \<Rightarrow> q\<lparr>fired := fired q @ [u]\<rparr>, k)
                  } else Some (q, k));
       guard (max_msg_length q \<noteq> 0);
       let q = q\<lparr>msgs := msgs q @ [data @ replicate (max_msg_length q - length data) 0]\<rparr>;
       (q, k) \<leftarrow> (if length (msgs q) = max_length q then do {
                    (ns, k) \<leftarrow> complete_each 0 (full_notifies q) k;
                    Some (q\<lparr>full_notifies := ns\<rparr>, k)
                  } else Some (q, k));
       Some (True, q, k)
     })"

section \<open>Change notifiers\<close>

definition change_logon :: "address \<Rightarrow> notify_info \<times> kern \<Rightarrow> bool \<times> notify_info \<times> kern" where
  "change_logon req_sts s = (case s of (info, k) \<Rightarrow>
     if sts info \<noteq> 0 then (False, info, k)
     else (True, info\<lparr>requester := crr_thread k, sts := req_sts\<rparr>, k))"

definition change_logon_cancel :: "notify_info \<times> kern \<Rightarrow> (bool \<times> notify_info \<times> kern) undef" where
  "change_logon_cancel s = (case s of (info, k) \<Rightarrow>
     if sts info = 0 then Some (False, info, k)
     else do {
       (info, k) \<leftarrow> complete_kept (-3) info k;
       Some (True, info, k)
     })"

definition notify_change_requester :: "notify_info \<times> kern \<Rightarrow> (notify_info \<times> kern) undef" where
  "notify_change_requester s = (case s of (info, k) \<Rightarrow> complete_kept 0 info k)"

section \<open>First in, first out\<close>

fun send_all :: "u8 list list \<Rightarrow> msg_queue \<times> kern \<Rightarrow> (msg_queue \<times> kern) undef" where
  "send_all [] s = Some s"
| "send_all (d # ds) s = do { (ok, s) \<leftarrow> queue_send d s; guard ok; send_all ds s }"

fun receive_all :: "nat \<Rightarrow> msg_queue \<Rightarrow> u8 list option list \<times> msg_queue" where
  "receive_all 0 q = ([], q)"
| "receive_all (Suc n) q = (let (d, q) = queue_receive (max_msg_length q) q; (ds, q) = receive_all n q in (d # ds, q))"

definition padded :: "nat \<Rightarrow> u8 list \<Rightarrow> u8 list" where
  "padded n d = d @ replicate (n - length d) 0"

text \<open>Requests that are empty complete without any effect.\<close>

lemma complete_each_empty:
  assumes "\<forall>i \<in> set is. sts i = 0"
  shows "complete_each e is k = Some (is, k)"
  using assms by (induction "is") (auto simp: complete_kept_def complete_def)

lemma queue_send_ok:
  assumes "length d \<le> max_msg_length q" and "max_msg_length q \<noteq> 0" and "length (msgs q) < max_length q"
    and "\<forall>i \<in> set (avail_notifies q) \<union> set (full_notifies q). sts i = 0" and "avail_callback q = None"
  shows "queue_send d (q, k) = Some (True, q\<lparr>msgs := msgs q @ [padded (max_msg_length q) d]\<rparr>, k)"
  using assms complete_each_empty [of "avail_notifies q"] complete_each_empty [of "full_notifies q"]
  by (cases q) (auto simp: queue_send_def padded_def Let_def)

lemma send_all_ok:
  assumes "\<forall>d \<in> set ds. length d \<le> max_msg_length q" and "max_msg_length q \<noteq> 0"
    and "length (msgs q) + length ds \<le> max_length q"
    and "\<forall>i \<in> set (avail_notifies q) \<union> set (full_notifies q). sts i = 0" and "avail_callback q = None"
  shows "send_all ds (q, k) = Some (q\<lparr>msgs := msgs q @ map (padded (max_msg_length q)) ds\<rparr>, k)"
  using assms
proof (induction ds arbitrary: q)
  case Nil
  then show ?case by simp
next
  case (Cons d ds)
  then have "queue_send d (q, k) = Some (True, q\<lparr>msgs := msgs q @ [padded (max_msg_length q) d]\<rparr>, k)"
    by (intro queue_send_ok) auto
  with Cons show ?case by simp
qed

lemma receive_all_ok:
  "receive_all (length ds) (q\<lparr>msgs := ds @ rest\<rparr>) = (map Some ds, q\<lparr>msgs := rest\<rparr>)"
  by (induction ds) (simp_all add: queue_receive_def)

text \<open>C21. A message queue delivers what is sent, in order: up to its capacity every message is accepted
  and comes back once, padded with zeros to the message length of the queue; one more is refused.\<close>

theorem msg_queue_fifo:
  assumes "max_size \<noteq> 0" and "length ds = cap" and "\<forall>d \<in> set ds. length d \<le> max_size" and "length d' \<le> max_size"
  shows "\<exists>q. send_all ds (new_msg_queue max_size cap, k) = Some (q, k)
    \<and> queue_send d' (q, k) = Some (False, q, k)
    \<and> receive_all cap q = (map (\<lambda>d. Some (padded max_size d)) ds, new_msg_queue max_size cap)"
proof -
  let ?n = "new_msg_queue max_size cap"
  define q where "q = ?n\<lparr>msgs := map (padded max_size) ds\<rparr>"
  have "send_all ds (?n, k) = Some (q, k)"
    using send_all_ok [of ds ?n k] assms by (simp add: new_msg_queue_def q_def)
  moreover have "queue_send d' (q, k) = Some (False, q, k)"
    using assms(2,4) by (simp add: queue_send_def q_def new_msg_queue_def)
  moreover have "receive_all cap q = (map (\<lambda>d. Some (padded max_size d)) ds, ?n)"
    using receive_all_ok [of "map (padded max_size) ds" "[]" ?n] assms(2)
    by (simp add: q_def comp_def) (simp add: new_msg_queue_def)
  ultimately show ?thesis by blast
qed

text \<open>A notification works once per thread: after a request of a thread has been completed by a
  message, its emptied entry stays in the queue's list, and when the queue is empty again the next
  request of the thread is refused.\<close>

theorem second_notification_refused:
  assumes "msgs q = []" and "avail_notifies q = []" and "full_notifies q = []" and "avail_callback q = None"
    and "1 < max_length q" and "max_msg_length q \<noteq> 0" and "length d \<le> max_msg_length q"
    and "requester info = Some t" and "complete 0 info k = Some k'" and "requester info' = Some t"
  shows "\<exists>q1 q2. notify_available info (q, k) = Some (True, info, q1, k)
    \<and> queue_send d (q1, k) = Some (True, q2, k')
    \<and> (let q3 = snd (queue_receive (max_msg_length q) q2) in msgs q3 = []
        \<and> notify_available info' (q3, k') = Some (False, info', q3, k'))"
proof -
  define q1 where "q1 = q\<lparr>avail_notifies := [info]\<rparr>"
  define q2 where "q2 = q\<lparr>avail_notifies := [info\<lparr>sts := 0\<rparr>], msgs := [padded (max_msg_length q) d]\<rparr>"
  have "notify_available info (q, k) = Some (True, info, q1, k)"
    using assms(1,2) by (simp add: notify_available_def q1_def)
  moreover have "queue_send d (q1, k) = Some (True, q2, k')"
    using assms(1-7,9) by (cases q) (auto simp: queue_send_def q1_def q2_def complete_kept_def padded_def)
  moreover have "snd (queue_receive (max_msg_length q) q2) = q2\<lparr>msgs := []\<rparr>"
    by (simp add: queue_receive_def q2_def)
  moreover have "notify_available info' (q2\<lparr>msgs := []\<rparr>, k') = Some (False, info', q2\<lparr>msgs := []\<rparr>, k')"
    using assms(8,10) by (simp add: notify_available_def q2_def)
  ultimately show ?thesis by (auto simp: Let_def)
qed

section \<open>Concrete executions\<close>

theorem msg_queue_fifo_witness:
  "\<exists>q. send_all [[1, 2], [3]] (new_msg_queue 3 2, fresh_kern three_threads) = Some (q, fresh_kern three_threads)
    \<and> receive_all 2 q = ([Some [1, 2, 0], Some [3, 0, 0]], new_msg_queue 3 2)"
proof -
  have p: "(3 :: nat) \<noteq> 0" "length [[1, 2], [3 :: u8]] = 2" "\<forall>d \<in> set [[1, 2], [3 :: u8]]. length d \<le> 3"
    "length ([] :: u8 list) \<le> 3" by simp_all
  from msg_queue_fifo [OF p, of "fresh_kern three_threads"] show ?thesis
    by (auto simp: padded_def numeral_2_eq_2 numeral_3_eq_3)
qed

theorem second_notification_refused_witness:
  "\<exists>q1 q2 k'. notify_available \<lparr>sts = 8, requester = Some 1\<rparr>
      (new_msg_queue 4 2, (fresh_kern three_threads)\<lparr>user_mem := (\<lambda>_ _. Some \<lparr>status = 0, flags = 0\<rparr>)\<rparr>)
        = Some (True, \<lparr>sts = 8, requester = Some 1\<rparr>, q1, (fresh_kern three_threads)\<lparr>user_mem := (\<lambda>_ _. Some \<lparr>status = 0, flags = 0\<rparr>)\<rparr>)
    \<and> queue_send [7] (q1, (fresh_kern three_threads)\<lparr>user_mem := (\<lambda>_ _. Some \<lparr>status = 0, flags = 0\<rparr>)\<rparr>) = Some (True, q2, k')"
proof -
  let ?k = "(fresh_kern three_threads)\<lparr>user_mem := (\<lambda>_ _. Some \<lparr>status = 0, flags = 0\<rparr>)\<rparr>"
  let ?q = "new_msg_queue 4 2" and ?i = "\<lparr>sts = 8, requester = Some 1\<rparr>"
  have q: "msgs ?q = []" "avail_notifies ?q = []" "full_notifies ?q = []" "avail_callback ?q = None"
    "1 < max_length ?q" "max_msg_length ?q \<noteq> 0" "length [7 :: u8] \<le> max_msg_length ?q"
    by (simp_all add: new_msg_queue_def)
  obtain k' where "complete 0 ?i ?k = Some k'"
    by (auto simp: complete_def write_status_def signal_request_def sema_signal_def signal_once_def)
  from second_notification_refused [OF q _ this, of 1 ?i] show ?thesis by auto
qed

end
