(* ===== verification/Property.thy ===== *)
theory Property imports Msg_Queue begin

text \<open>
  Publish and subscribe: properties and property references (\<open>kernel/property.cpp\<close>), and the kernel's
  list of properties (\<open>kernel.cpp\<close>). A property keeps pointers to the requests of the references
  subscribed to it: a subscription is the number of a reference.
\<close>

datatype property_type = Int_data | Bin_data | Unk

text \<open>\<open>bin_mem\<close> is the allocation behind the vector \<open>bindata\<close>, of which \<open>bin_size\<close> bytes are in use; 512 are
  reserved from the start. The code copies to and from \<open>bindata.data()\<close> without looking at the size.\<close>

record property =
  prop_first :: int
  prop_second :: int
  ndata :: int
  bin_mem :: "u8 list"
  bin_size :: nat
  data_len :: nat
  data_type :: property_type
  subscription_queue :: "nat list"
  data_change_callbacks :: "nat list"
  callbacks_run :: "nat list"

record prop_state =
  prop_kern :: kern
  obj :: property
  nofs :: "nat \<Rightarrow> notify_info"

definition new_property :: property where
  "new_property = \<lparr>prop_first = 0, prop_second = 0, ndata = 0, bin_mem = replicate 512 0, bin_size = 0,
     data_len = 0, data_type = Unk, subscription_queue = [], data_change_callbacks = [], callbacks_run = []\<rparr>"

definition is_defined :: "property \<Rightarrow> bool" where
  "is_defined p \<longleftrightarrow> data_type p \<noteq> Unk"

definition add_data_change_callback :: "nat \<Rightarrow> property \<Rightarrow> property" where
  "add_data_change_callback c p = p\<lparr>data_change_callbacks := data_change_callbacks p @ [c]\<rparr>"

definition fire_data_change_callbacks :: "property \<Rightarrow> property" where
  "fire_data_change_callbacks p =
     p\<lparr>callbacks_run := callbacks_run p @ data_change_callbacks p, data_change_callbacks := []\<rparr>"

definition define_property :: "property_type \<Rightarrow> nat \<Rightarrow> property \<Rightarrow> property" where
  "define_property pt pre_allocated p =
     p\<lparr>data_type := pt, data_len := (if pre_allocated > 512 then 512 else pre_allocated)\<rparr>"

text \<open>\<open>std::vector::resize\<close> and \<open>memcpy\<close> into the allocation.\<close>

definition bin_resize :: "nat \<Rightarrow> property \<Rightarrow> property" where
  "bin_resize n p =
     (if n \<le> bin_size p then p\<lparr>bin_size := n\<rparr>
      else p\<lparr>bin_mem := take (bin_size p) (bin_mem p) @ replicate (n - bin_size p) 0 @ drop n (bin_mem p), bin_size := n\<rparr>)"

definition copy_in :: "u8 list \<Rightarrow> property \<Rightarrow> property undef" where
  "copy_in bs p = do {
     guard (length bs \<le> length (bin_mem p));
     Some (p\<lparr>bin_mem := bs @ drop (length bs) (bin_mem p)\<rparr>)
   }"

text \<open>\<open>notify_request\<close> takes the pointers out of the queue one by one and completes what they point to.\<close>

fun notify_subscriptions :: "int \<Rightarrow> nat list \<Rightarrow> (nat \<Rightarrow> notify_info) \<Rightarrow> kern \<Rightarrow> ((nat \<Rightarrow> notify_info) \<times> kern) undef" where
  "notify_subscriptions err [] ns k = Some (ns, k)"
| "notify_subscriptions err (r # rs) ns k = do {
     (i, k) \<leftarrow> complete_kept err (ns r) k;
     notify_subscriptions err rs (ns(r := i)) k
   }"

definition notify_request :: "int \<Rightarrow> prop_state \<Rightarrow> prop_state undef" where
  "notify_request err s = do {
     (ns, k) \<leftarrow> notify_subscriptions err (subscription_queue (obj s)) (nofs s) (prop_kern s);
     Some (s\<lparr>obj := (obj s)\<lparr>subscription_queue := []\<rparr>, nofs := ns, prop_kern := k\<rparr>)
   }"

definition set_int :: "int \<Rightarrow> prop_state \<Rightarrow> (bool \<times> prop_state) undef" where
  "set_int val s =
     (if data_type (obj s) = Int_data then do {
        s \<leftarrow> notify_request 0 (s\<lparr>obj := (obj s)\<lparr>ndata := val\<rparr>\<rparr>);
        Some (True, s\<lparr>obj := fire_data_change_callbacks (obj s)\<rparr>)
      }
      else Some (False, s))"

definition set_bin :: "u8 list \<Rightarrow> prop_state \<Rightarrow> (bool \<times> prop_state) undef" where
  "set_bin bdata s = do {
     let p = (if length bdata > data_len (obj s) then bin_resize (length bdata) (obj s) else obj s);
     p \<leftarrow> copy_in bdata p;
     s \<leftarrow> notify_request 0 (s\<lparr>obj := p\<lparr>data_len := length bdata\<rparr>\<rparr>);
     Some (True, s\<lparr>obj := fire_data_change_callbacks (obj s)\<rparr>)
   }"

definition get_int :: "property \<Rightarrow> int" where
  "get_int p = (if data_type p \<noteq> Int_data then -1 else ndata p)"

definition get_bin :: "property \<Rightarrow> u8 list undef" where
  "get_bin p = do {
     guard (data_len p \<le> length (bin_mem p));
     Some (take (data_len p) (bin_mem p))
   }"

definition prop_subscribe :: "nat \<Rightarrow> property \<Rightarrow> property" where
  "prop_subscribe r p = p\<lparr>subscription_queue := subscription_queue p @ [r]\<rparr>"

definition prop_cancel :: "nat \<Rightarrow> prop_state \<Rightarrow> (bool \<times> prop_state) undef" where
  "prop_cancel r s =
     (if r \<in> set (subscription_queue (obj s)) then do {
        (i, k) \<leftarrow> complete_kept (-3) (nofs s r) (prop_kern s);
        Some (True, s\<lparr>nofs := (nofs s)(r := i), prop_kern := k\<rparr>)
      }
      else Some (False, s))"

section \<open>Property references\<close>

definition ref_subscribe :: "nat \<Rightarrow> notify_info \<Rightarrow> prop_state \<Rightarrow> bool \<times> prop_state" where
  "ref_subscribe r info s =
     (if sts (nofs s r) \<noteq> 0 then (False, s)
      else (True, s\<lparr>nofs := (nofs s)(r := info), obj := prop_subscribe r (obj s)\<rparr>))"

definition ref_cancel :: "nat \<Rightarrow> prop_state \<Rightarrow> (bool \<times> prop_state) undef" where
  "ref_cancel r s = prop_cancel r s"

section \<open>The kernel's properties\<close>

definition get_prop :: "int \<Rightarrow> int \<Rightarrow> property list \<Rightarrow> property option" where
  "get_prop category key props =
     map_option (\<lambda>i. props ! i) (find_index (\<lambda>p. prop_first p = category \<and> prop_second p = key) props)"

definition delete_prop :: "int \<Rightarrow> int \<Rightarrow> property list \<Rightarrow> property option \<times> property list" where
  "delete_prop category key props =
     (case find_index (\<lambda>p. prop_first p = category \<and> prop_second p = key) props of
        None \<Rightarrow> (None, props)
      | Some i \<Rightarrow> (Some (props ! i), erase_at i props))"

section \<open>Properties\<close>

text \<open>The buffer always has the reserved bytes and those in use.\<close>

definition prop_ok :: "property \<Rightarrow> bool" where
  "prop_ok p \<longleftrightarrow> 512 \<le> length (bin_mem p) \<and> data_len p \<le> length (bin_mem p) \<and> bin_size p \<le> length (bin_mem p)"

lemma new_property_ok: "prop_ok (define_property pt n new_property)"
  by (simp add: prop_ok_def define_property_def new_property_def)

lemma notify_subscriptions_empties:
  assumes "notify_subscriptions e rs ns k = Some (ns', k')"
  shows "r \<in> set rs \<Longrightarrow> sts (ns' r) = 0" "r \<notin> set rs \<Longrightarrow> ns' r = ns r" "sts (ns r) = 0 \<Longrightarrow> sts (ns' r) = 0"
  using assms
proof (induction rs arbitrary: ns k)
  case Nil
  { case 1 then show ?case by simp }
  { case 2 then show ?case by simp }
  { case 3 then show ?case by simp }
next
  case (Cons q rs)
  {
    case 1
    then obtain i k1 where i: "complete_kept e (ns q) k = Some (i, k1)" "notify_subscriptions e rs (ns(q := i)) k1 = Some (ns', k')"
      by (auto split: bind_splits)
    have "sts i = 0" using i(1) by (auto simp: complete_kept_def split: bind_splits)
    then show ?case using 1(1) Cons.IH(1,3) [OF _ i(2)] by (cases "r \<in> set rs") auto
  }
  {
    case 2
    then show ?case using Cons.IH(2) by (fastforce split: bind_splits)
  }
  {
    case 3
    then obtain i k1 where i: "complete_kept e (ns q) k = Some (i, k1)" "notify_subscriptions e rs (ns(q := i)) k1 = Some (ns', k')"
      by (auto split: bind_splits)
    have "sts i = 0" using i(1) by (auto simp: complete_kept_def split: bind_splits)
    then show ?case using 3(1) Cons.IH(3) [OF _ i(2)] by (cases "r = q") auto
  }
qed

text \<open>C22. Setting binary data of any length stores it, whatever the type and the declared length of the
  property: it is read back unchanged, every subscriber's request has been completed and every
  callback run, once, and none is left.\<close>

theorem set_bin_publishes:
  assumes "prop_ok (obj s)" and "notify_subscriptions 0 (subscription_queue (obj s)) (nofs s) (prop_kern s) = Some (ns, k)"
  shows "\<exists>s'. set_bin bs s = Some (True, s') \<and> get_bin (obj s') = Some bs \<and> prop_ok (obj s')
    \<and> prop_kern s' = k \<and> subscription_queue (obj s') = []
    \<and> (\<forall>r \<in> set (subscription_queue (obj s)). sts (nofs s' r) = 0)
    \<and> callbacks_run (obj s') = callbacks_run (obj s) @ data_change_callbacks (obj s)
    \<and> data_change_callbacks (obj s') = []"
proof -
  define p where "p = (if length bs > data_len (obj s) then bin_resize (length bs) (obj s) else obj s)"
  have p: "length bs \<le> length (bin_mem p)" "512 \<le> length (bin_mem p)" "bin_size p \<le> length (bin_mem p)"
    "subscription_queue p = subscription_queue (obj s)" "callbacks_run p = callbacks_run (obj s)"
    "data_change_callbacks p = data_change_callbacks (obj s)"
    using assms(1) by (auto simp: p_def bin_resize_def prop_ok_def)
  have "copy_in bs p = Some (p\<lparr>bin_mem := bs @ drop (length bs) (bin_mem p)\<rparr>)" using p(1) by (simp add: copy_in_def)
  then have "set_bin bs s = Some (True, s\<lparr>obj := fire_data_change_callbacks (p\<lparr>bin_mem := bs @ drop (length bs) (bin_mem p),
      data_len := length bs, subscription_queue := []\<rparr>), nofs := ns, prop_kern := k\<rparr>)"
    using assms(2) p(4) unfolding set_bin_def p_def [symmetric] Let_def
    by (cases s) (simp add: notify_request_def)
  then show ?thesis
    using p notify_subscriptions_empties(1) [OF assms(2)]
    by (auto simp: get_bin_def prop_ok_def fire_data_change_callbacks_def)
qed

section \<open>Concrete executions\<close>

theorem set_bin_publishes_witness:
  "\<exists>s'. set_bin [1, 2, 3] \<lparr>prop_kern = fresh_kern three_threads, obj = define_property Int_data 1 new_property,
      nofs = (\<lambda>_. \<lparr>sts = 0, requester = None\<rparr>)\<rparr> = Some (True, s') \<and> get_bin (obj s') = Some [1, 2, 3]"
proof -
  let ?s = "\<lparr>prop_kern = fresh_kern three_threads, obj = define_property Int_data 1 new_property,
      nofs = (\<lambda>_. \<lparr>sts = 0, requester = None\<rparr>)\<rparr>"
  have "prop_ok (obj ?s)" using new_property_ok by simp
  moreover have "notify_subscriptions 0 (subscription_queue (obj ?s)) (nofs ?s) (prop_kern ?s) = Some (nofs ?s, prop_kern ?s)"
    by (simp add: define_property_def new_property_def)
  ultimately have "\<exists>s'. set_bin [1, 2, 3] ?s = Some (True, s') \<and> get_bin (obj s') = Some [1, 2, 3] \<and> prop_ok (obj s')
    \<and> prop_kern s' = prop_kern ?s \<and> subscription_queue (obj s') = []
    \<and> (\<forall>r \<in> set (subscription_queue (obj ?s)). sts (nofs s' r) = 0)
    \<and> callbacks_run (obj s') = callbacks_run (obj ?s) @ data_change_callbacks (obj ?s) \<and> data_change_callbacks (obj s') = []"
    by (rule set_bin_publishes)
  then show ?thesis by blast
qed

end
