(* ===== verification/Timer_Obj.thy ===== *)
theory Timer_Obj imports Thread_Process begin

text \<open>
  The timer objects of \<open>kernel/timer.cpp\<close>, over the nanokernel timer. The pointer to a timer's
  \<open>signal_info\<close>, which travels through the timer events as their user data, is the timer's id.
\<close>

record ktimer =
  callback_type :: int
  own_thread :: tid
  req_status :: "pid \<times> address"
  outstanding :: bool

record timer_state =
  tkern :: kern
  timers :: "u64 \<Rightarrow> ktimer"

definition upd_timer :: "u64 \<Rightarrow> (ktimer \<Rightarrow> ktimer) \<Rightarrow> timer_state \<Rightarrow> timer_state" where
  "upd_timer i f s = s\<lparr>timers := (timers s)(i := f (timers s i))\<rparr>"

text \<open>Decimal numbers, as \<open>common::to_string\<close> writes them.\<close>

fun decimal :: "nat \<Rightarrow> string" where
  "decimal n = (if n < 10 then [char_of (n + 48)] else decimal (n div 10) @ [char_of (n mod 10 + 48)])"

definition timer_new :: "u64 \<Rightarrow> timer_state \<Rightarrow> timer_state" where
  "timer_new i s = (
     let name = ''TimerCallback'' @ decimal (unat i);
         ty = get_register_event name (timing (tkern s));
         (ty, t) = (if ty = -1 then register_event name Timer_expired (timing (tkern s)) else (ty, timing (tkern s)))
     in upd_timer i (\<lambda>x. x\<lparr>callback_type := ty, outstanding := False\<rparr>) (s\<lparr>tkern := (tkern s)\<lparr>timing := t\<rparr>\<rparr>))"

definition timer_after :: "u64 \<Rightarrow> tid \<Rightarrow> pid \<times> address \<Rightarrow> u64 \<Rightarrow> timer_state \<Rightarrow> (bool \<times> timer_state) undef" where
  "timer_after i req status_ptr us_signal s =
     (if outstanding (timers s i) then Some (False, s)
      else if us_signal = 0 then do {
        k \<leftarrow> write_status (fst status_ptr) (snd status_ptr) 0 (tkern s);
        k \<leftarrow> signal_request req 1 k;
        Some (True, s\<lparr>tkern := k\<rparr>)
      }
      else let s = upd_timer i (\<lambda>x. x\<lparr>outstanding := True, req_status := status_ptr, own_thread := req\<rparr>) s;
               (t, _) = schedule_event us_signal (callback_type (timers s i)) i (timing (tkern s))
           in Some (False, s\<lparr>tkern := (tkern s)\<lparr>timing := t\<rparr>\<rparr>))"

definition request_finish :: "u64 \<Rightarrow> timer_state \<Rightarrow> bool \<times> timer_state" where
  "request_finish i s =
     (if \<not> outstanding (timers s i) then (False, s)
      else (True, upd_timer i (\<lambda>x. x\<lparr>outstanding := False\<rparr>) s))"

definition cancel_request :: "u64 \<Rightarrow> timer_state \<Rightarrow> (bool \<times> timer_state) undef" where
  "cancel_request i s =
     (if \<not> outstanding (timers s i) then Some (False, s)
      else do {
        k \<leftarrow> write_status (fst (req_status (timers s i))) (snd (req_status (timers s i))) (-3) (tkern s);
        k \<leftarrow> signal_request (own_thread (timers s i)) 1 k;
        let k = (if outstanding (timers s i)
                 then k\<lparr>timing := snd (unschedule_event (callback_type (timers s i)) i (timing k))\<rparr> else k);
        Some (request_finish i (s\<lparr>tkern := k\<rparr>))
      })"

definition timer_callback :: "u64 \<Rightarrow> timer_state \<Rightarrow> timer_state undef" where
  "timer_callback user s =
     (if user = 0 then Some s
      else do {
        k \<leftarrow> write_status (fst (req_status (timers s user))) (snd (req_status (timers s user))) 0 (tkern s);
        k \<leftarrow> signal_request (own_thread (timers s user)) 1 k;
        Some (snd (request_finish user (s\<lparr>tkern := k\<rparr>)))
      })"

section \<open>Requests\<close>

lemma erase_only_match:
  "find_index P xs = Some i \<Longrightarrow> filter P xs = [x] \<Longrightarrow> erase_at i xs = filter (\<lambda>x. \<not> P x) xs"
proof (induction xs arbitrary: i)
  case Nil
  then show ?case by simp
next
  case (Cons y ys)
  show ?case
  proof (cases "P y")
    case True
    then have "filter P ys = []" using Cons.prems(2) by simp
    then have "filter (\<lambda>x. \<not> P x) ys = ys" by (simp add: filter_empty_conv filter_id_conv)
    then show ?thesis using True Cons.prems(1) by auto
  next
    case False
    then show ?thesis using Cons by auto
  qed
qed

lemma unschedule_scheduled:
  assumes "events_sorted (events t)" and "\<forall>e \<in> set (events t). \<not> (ev_type e = ty \<and> ev_data e = d)"
  shows "snd (unschedule_event ty d (fst (schedule_event us ty d t))) = t"
proof -
  let ?P = "\<lambda>e. ev_type e = ty \<and> ev_data e = d"
  let ?e = "\<lparr>ev_type = ty, ev_time = ntimer_microseconds t + us, ev_data = d\<rparr>"
  let ?es = "sort_events (events t @ [?e])"
  have f: "filter ?P ?es = [?e]" "filter (\<lambda>e. \<not> ?P e) ?es = events t"
    using assms by (simp_all add: sort_events_def filter_sort filter_empty_conv filter_id_conv)
      (metis sort_events_def sort_events_id)
  then obtain i where i: "find_index ?P ?es = Some i"
    using find_index_None_iff [of ?P ?es] by (cases "find_index ?P ?es") (auto simp: filter_empty_conv)
  have "erase_at i ?es = events t" using erase_only_match [OF i f(1)] f(2) by simp
  then show ?thesis
    using i sort_events_id [OF assms(1)] by (simp add: schedule_event_def unschedule_event_def Let_def)
qed

text \<open>C23. A timer request is completed exactly once. If it is cancelled, its thread finds the status -3 and
  is signalled, and the nanokernel timer has exactly the events it had before; if it expires, its
  thread finds the status 0 and is signalled. Either way the timer accepts a new request, and a
  cancel that comes later does nothing.\<close>

theorem timer_request_completes_once:
  assumes "\<not> outstanding (timers s i)" and "us \<noteq> 0" and "i \<noteq> 0"
    and "events_sorted (events (timing (tkern s)))"
    and "\<forall>e \<in> set (events (timing (tkern s))). \<not> (ev_type e = callback_type (timers s i) \<and> ev_data e = i)"
    and "user_mem (tkern s) p a \<noteq> None" and "can_notify t (tkern s)"
  shows "\<exists>s1 s2 s3. timer_after i t (p, a) us s = Some (False, s1)
    \<and> cancel_request i s1 = Some (True, s2) \<and> timer_callback i s1 = Some s3
    \<and> map_option status (user_mem (tkern s2) p a) = Some (-3) \<and> map_option status (user_mem (tkern s3) p a) = Some 0
    \<and> timing (tkern s2) = timing (tkern s)
    \<and> (\<forall>s' \<in> {s2, s3}. \<not> outstanding (timers s' i) \<and> cancel_request i s' = Some (False, s')
        \<and> avail_count (sema (tkern s') (request_sema (thr (tkern s) t)))
          = avail_count (sema (tkern s) (request_sema (thr (tkern s) t))) + 1)"
proof -
  let ?ty = "callback_type (timers s i)"
  define t1 where "t1 = fst (schedule_event us ?ty i (timing (tkern s)))"
  define k1 where "k1 = (tkern s)\<lparr>timing := t1\<rparr>"
  define x1 where "x1 = (timers s i)\<lparr>outstanding := True, req_status := (p, a), own_thread := t\<rparr>"
  define s1 where "s1 = s\<lparr>timers := (timers s)(i := x1), tkern := k1\<rparr>"
  have s1: "timer_after i t (p, a) us s = Some (False, s1)"
    using assms(1,2) by (cases s) (simp add: timer_after_def upd_timer_def s1_def k1_def x1_def t1_def split_beta Let_def)
  have k1: "user_mem k1 p a \<noteq> None" "can_notify t k1" "thr k1 = thr (tkern s)" "sema k1 = sema (tkern s)"
    using assms(6,7) by (simp_all add: k1_def can_notify_def)
  have x1: "outstanding x1" "req_status x1 = (p, a)" "own_thread x1 = t" "callback_type x1 = ?ty" by (simp_all add: x1_def)
  define k2 where "k2 = notified t (status_written p a (-3) k1)"
  define k3 where "k3 = notified t (status_written p a 0 k1)"
  note ws = write_and_signal [OF k1(1,2)]
  have tm: "timing k2 = t1" by (simp add: k2_def notified_def status_written_def k1_def)
  have t0: "snd (unschedule_event ?ty i t1) = timing (tkern s)"
    unfolding t1_def by (rule unschedule_scheduled [OF assms(4,5)])
  define s2 where "s2 = s\<lparr>timers := (timers s)(i := x1\<lparr>outstanding := False\<rparr>), tkern := k2\<lparr>timing := timing (tkern s)\<rparr>\<rparr>"
  define s3 where "s3 = s\<lparr>timers := (timers s)(i := x1\<lparr>outstanding := False\<rparr>), tkern := k3\<rparr>"
  have "cancel_request i s1 = Some (True, s2)"
    using ws(1,2) [of "-3"] x1 tm t0
    by (cases s) (simp add: cancel_request_def s1_def request_finish_def upd_timer_def k2_def [symmetric] s2_def Let_def)
  moreover have "timer_callback i s1 = Some s3"
    using ws(1,2) [of 0] x1 assms(3)
    by (cases s) (simp add: timer_callback_def s1_def request_finish_def upd_timer_def k3_def [symmetric] s3_def)
  moreover have "map_option status (user_mem k2 p a) = Some (-3)" "map_option status (user_mem k3 p a) = Some 0"
    by (simp_all add: k2_def k3_def assign_status_def sts_pending_def)
  moreover have "\<forall>s' \<in> {s2, s3}. \<not> outstanding (timers s' i) \<and> cancel_request i s' = Some (False, s')"
    by (simp add: s2_def s3_def cancel_request_def)
  moreover have "\<forall>k \<in> {k2, k3}. avail_count (sema k (request_sema (thr (tkern s) t)))
      = avail_count (sema (tkern s) (request_sema (thr (tkern s) t))) + 1"
    by (simp add: k2_def k3_def k1(3,4))
  ultimately show ?thesis using s1 by (auto simp: s2_def s3_def)
qed

section \<open>Concrete executions\<close>

theorem timer_request_completes_once_witness:
  "\<exists>s1 s2. timer_after 5 1 (0, 8) 1000 \<lparr>tkern = (fresh_kern three_threads)\<lparr>user_mem := (\<lambda>_ _. Some \<lparr>status = 0, flags = 0\<rparr>)\<rparr>,
      timers = (\<lambda>_. \<lparr>callback_type = 1, own_thread = 0, req_status = (0, 0), outstanding = False\<rparr>)\<rparr> = Some (False, s1)
    \<and> cancel_request 5 s1 = Some (True, s2) \<and> timing (tkern s2) = fresh_timer"
proof -
  let ?s = "\<lparr>tkern = (fresh_kern three_threads)\<lparr>user_mem := (\<lambda>_ _. Some \<lparr>status = 0, flags = 0\<rparr>)\<rparr>,
      timers = (\<lambda>_. \<lparr>callback_type = 1, own_thread = 0, req_status = (0, 0), outstanding = False\<rparr>)\<rparr>"
  have p: "\<not> outstanding (timers ?s 5)" "(1000 :: u64) \<noteq> 0" "(5 :: u64) \<noteq> 0" "events_sorted (events (timing (tkern ?s)))"
    "\<forall>e \<in> set (events (timing (tkern ?s))). \<not> (ev_type e = callback_type (timers ?s 5) \<and> ev_data e = 5)"
    "user_mem (tkern ?s) 0 8 \<noteq> None" "can_notify 1 (tkern ?s)"
    by (simp_all add: fresh_timer_def can_notify_def)
  from timer_request_completes_once [OF p] show ?thesis by auto
qed

end
