(* ===== verification/Allocator.thy ===== *)
theory Allocator imports Prelude begin

text \<open>
  The two allocators of \<open>common/allocator.cpp\<close>: \<open>block_allocator\<close> hands out blocks of a memory space,
  \<open>bitmap_allocator\<close> cells of a bitmap, in which a set bit is a free cell and the cells of a word are
  counted from its most significant bit.
\<close>

section \<open>The block allocator\<close>

record block_info =
  blk_offset :: nat
  blk_size :: nat
  active :: bool

record block_allocator =
  blk_ptr :: nat
  max_size :: nat
  blocks :: "block_info list"

text \<open>\<open>next_power_of_two\<close> for sizes: the logarithm, cut to an integer, is exact for every size that fits
  into memory; it is minus infinity for 0, whose conversion is undefined.\<close>

fun floor_log2 :: "nat \<Rightarrow> nat" where
  "floor_log2 n = (if n \<le> 1 then 0 else Suc (floor_log2 (n div 2)))"

declare floor_log2.simps [simp del]

definition rounded_size :: "nat \<Rightarrow> nat undef" where
  "rounded_size bytes = (if bytes = 0 then None else Some (2 ^ (floor_log2 bytes + 1)))"

definition blk_end :: "block_info \<Rightarrow> nat" where
  "blk_end b = blk_offset b + blk_size b"

text \<open>\<open>expand\<close> is the virtual function of the subclass. The constructor throws when the space cannot be
  expanded to align its start.\<close>

definition block_init :: "(nat \<Rightarrow> bool) \<Rightarrow> nat \<Rightarrow> nat \<Rightarrow> block_allocator option" where
  "block_init expand sptr initial_max_size = (
     let alignment_needed = (4 - sptr mod 4) mod 4 in
     if alignment_needed > initial_max_size \<and> \<not> expand alignment_needed then None
     else Some \<lparr>blk_ptr = sptr + alignment_needed, max_size = initial_max_size, blocks = []\<rparr>)"

text \<open>The result is the pointer returned, \<^const>\<open>None\<close> for null.\<close>

definition block_allocate :: "(nat \<Rightarrow> bool) \<Rightarrow> nat \<Rightarrow> block_allocator \<Rightarrow> (nat option \<times> block_allocator) undef" where
  "block_allocate expand bytes a = do {
     rounded \<leftarrow> rounded_size bytes;
     case find_index (\<lambda>b. \<not> active b \<and> blk_size b \<ge> rounded) (blocks a) of
       Some i \<Rightarrow>
         let b = blocks a ! i in
         if blk_size b = rounded
         then Some (Some (blk_offset b + blk_ptr a), a\<lparr>blocks := (blocks a)[i := b\<lparr>active := True\<rparr>]\<rparr>)
         else let new_block = \<lparr>blk_offset = blk_offset b, blk_size = rounded, active = True\<rparr>;
                  old_block = b\<lparr>blk_size := blk_size b - rounded, blk_offset := blk_offset b + rounded\<rparr>
              in Some (Some (blk_ptr a + blk_offset b), a\<lparr>blocks := (blocks a)[i := old_block] @ [new_block]\<rparr>)
     | None \<Rightarrow>
         let farthest_end_offset = fold (\<lambda>b m. max m (blk_end b)) (blocks a) 0;
             target = max (max_size a * 2) (max_size a + rounded);
             too_small = farthest_end_offset + bytes > max_size a
         in if too_small \<and> \<not> expand target then Some (None, a)
            else let a = (if too_small then a\<lparr>max_size := target\<rparr> else a);
                     new_block = \<lparr>blk_offset = farthest_end_offset, blk_size = rounded, active = True\<rparr>
                 in Some (Some (farthest_end_offset + blk_ptr a), a\<lparr>blocks := blocks a @ [new_block]\<rparr>)
   }"

text \<open>A pointer below the start of the space gives a difference that wraps around and is the offset of
  no block.\<close>

definition block_free :: "nat \<Rightarrow> block_allocator \<Rightarrow> bool \<times> block_allocator" where
  "block_free tptr a =
     (case find_index (\<lambda>b. active b \<and> int (blk_offset b) = int tptr - int (blk_ptr a)) (blocks a) of
        None \<Rightarrow> (False, a)
      | Some i \<Rightarrow> (True, a\<lparr>blocks := (blocks a)[i := (blocks a ! i)\<lparr>active := False\<rparr>]\<rparr>))"

section \<open>The bitmap allocator\<close>

definition words_for :: "nat \<Rightarrow> nat" where
  "words_for total_bits = total_bits div 32 + (if total_bits mod 32 \<noteq> 0 then 1 else 0)"

definition bitmap_init :: "nat \<Rightarrow> u32 list" where
  "bitmap_init total_bits = replicate (words_for total_bits) 0xFFFFFFFF"

definition set_maximum :: "nat \<Rightarrow> u32 list \<Rightarrow> u32 list" where
  "set_maximum total_bits ws = (
     let total_after = words_for total_bits in
     take total_after ws @ replicate (total_after - length ws) 0xFFFFFFFF)"

definition apply_mask :: "bool \<Rightarrow> u32 \<Rightarrow> u32 \<Rightarrow> u32" where
  "apply_mask or_mode msk wval = (if or_mode then or wval msk else and wval (not msk))"

text \<open>The loop over the words from \<open>i\<close> on. After the last word the code computes one more mask, by a
  shift with a negative amount, and does not use it; here that mask is some value.\<close>

function fill_words :: "bool \<Rightarrow> u32 \<Rightarrow> int \<Rightarrow> nat \<Rightarrow> u32 list \<Rightarrow> u32 list" where
  "fill_words or_mode msk end_bit i ws =
     (if 0 < end_bit \<and> i < length ws
      then let ws = ws[i := apply_mask or_mode msk (ws ! i)];
               end_bit = end_bit - 32;
               msk = (if end_bit < 32 then not (drop_bit (nat end_bit) 0xFFFFFFFF) else 0xFFFFFFFF)
           in fill_words or_mode msk end_bit (Suc i) ws
      else ws)"
  by pat_completeness auto
termination by (relation "measure (\<lambda>(om, m, e, i, ws). length ws - i)") auto

declare fill_words.simps [simp del]

text \<open>\<open>force_fill\<close> returns the size it claims to have filled. An offset behind the last word is read out
  of bounds, a negative size is an undefined shift.\<close>

definition force_fill :: "nat \<Rightarrow> int \<Rightarrow> bool \<Rightarrow> u32 list \<Rightarrow> (int \<times> u32 list) undef" where
  "force_fill offset sz or_mode ws = do {
     guard (offset div 32 < length ws \<and> 0 \<le> sz);
     let sbit = offset mod 32;
     let end_bit = int sbit + sz;
     let filled = min sz (int (32 * length ws) - int sbit);
     Some (filled,
       if end_bit < 32
       then ws[offset div 32 := apply_mask or_mode (drop_bit sbit (not (drop_bit (nat sz) 0xFFFFFFFF))) (ws ! (offset div 32))]
       else fill_words or_mode (drop_bit sbit 0xFFFFFFFF) end_bit (offset div 32) ws)
   }"

definition bitmap_free :: "nat \<Rightarrow> int \<Rightarrow> u32 list \<Rightarrow> u32 list undef" where
  "bitmap_free offset sz ws = map_option snd (force_fill offset sz True ws)"

text \<open>The run of set bits from a cursor on, across words: the word and cursor where it stops and its
  length.\<close>

function run_from :: "u32 list \<Rightarrow> nat \<Rightarrow> int \<Rightarrow> nat \<Rightarrow> nat \<times> int \<times> nat" where
  "run_from ws w cursor bflen =
     (if 0 \<le> cursor \<and> bit (ws ! w) (nat cursor)
      then if cursor - 1 < 0 \<and> w + 1 < length ws then run_from ws (w + 1) 31 (bflen + 1)
           else run_from ws w (cursor - 1) (bflen + 1)
      else (w, cursor, bflen))"
  by pat_completeness auto
termination
  by (relation "measure (\<lambda>(ws, w, c, b). (length ws - w) * 33 + nat (c + 1))") auto

declare run_from.simps [simp del]

lemma run_from_le:
  "run_from ws w c b = (w', c', b') \<Longrightarrow>
    (w' = w \<and> c' \<le> c \<and> (0 \<le> c \<and> bit (ws ! w) (nat c) \<longrightarrow> c' < c)) \<or> (w < w' \<and> w' < length ws \<and> c' \<le> 31)"
proof (induction ws w c b rule: run_from.induct)
  case (1 ws w c b)
  show ?case
  proof (cases "0 \<le> c \<and> bit (ws ! w) (nat c)")
    case t: True
    show ?thesis
    proof (cases "c - 1 < 0 \<and> w + 1 < length ws")
      case True
      then have "run_from ws (w + 1) 31 (b + 1) = (w', c', b')"
        using t 1(3) run_from.simps [of ws w c b] by (simp split: if_splits)
      from 1(1) [OF t True this] show ?thesis using True by auto
    next
      case False
      then have "run_from ws w (c - 1) (b + 1) = (w', c', b')"
        using t 1(3) run_from.simps [of ws w c b] by (simp split: if_splits)
      from 1(2) [OF t False this] show ?thesis by auto
    qed
  next
    case False
    then show ?thesis using 1(3) run_from.simps [of ws w c b] by (auto split: if_splits)
  qed
qed

text \<open>The best run found so far: its length, the cursor and the word it starts at.\<close>

record best_run =
  bflmin :: nat
  bofmin :: int
  wordmin :: "nat option"

definition cell_offset :: "nat \<Rightarrow> int \<Rightarrow> nat" where
  "cell_offset w cursor = nat (31 - cursor) + 32 * w"

text \<open>The loop over the cursor in one word: it stops with the offset of a run that is long enough, or
  with the word it has come to. The run at the lowest bit alone is not looked at.\<close>

function scan_word :: "u32 list \<Rightarrow> nat \<Rightarrow> bool \<Rightarrow> nat \<Rightarrow> int \<Rightarrow> best_run \<Rightarrow> nat + nat \<times> best_run" where
  "scan_word ws sz best w cursor m =
     (if 0 < cursor
      then if bit (ws ! w) (nat cursor)
           then case run_from ws w cursor 0 of (w', cursor', bflen) \<Rightarrow>
                  if sz \<le> bflen
                  then if \<not> best then Inl (cell_offset w cursor)
                       else scan_word ws sz best w' (cursor' - 1)
                              (if bflen < bflmin m then \<lparr>bflmin = bflen, bofmin = cursor, wordmin = Some w\<rparr> else m)
                  else scan_word ws sz best w' (cursor' - 1) m
           else scan_word ws sz best w (cursor - 1) m
      else Inr (w, m))"
  by pat_completeness auto
termination
  by (relation "measure (\<lambda>(ws, sz, b, w, c, m). (length ws - w) * 33 + nat (c + 1))")
    (auto dest!: run_from_le [OF sym])

declare scan_word.simps [simp del]

lemma scan_word_le: "scan_word ws sz best w c m = Inr (w', m') \<Longrightarrow> w \<le> w'"
proof (induction ws sz best w c m rule: scan_word.induct)
  case (1 ws sz best w c m)
  obtain v d l where r: "run_from ws w c 0 = (v, d, l)" by (rule prod_cases3)
  then have v: "w \<le> v" using run_from_le [OF r] by auto
  show ?case
  proof (cases "0 < c")
    case c: True
    show ?thesis
    proof (cases "bit (ws ! w) (nat c)")
      case b: True
      let ?m = "if l < bflmin m then \<lparr>bflmin = l, bofmin = c, wordmin = Some w\<rparr> else m"
      have e: "scan_word ws sz best w c m = (if sz \<le> l then if \<not> best then Inl (cell_offset w c)
          else scan_word ws sz best v (d - 1) ?m else scan_word ws sz best v (d - 1) m)"
        using c b r by (subst scan_word.simps) simp
      consider "sz \<le> l" "\<not> best" | "sz \<le> l" "best" | "\<not> sz \<le> l" by blast
      then show ?thesis
      proof cases
        case 1
        then show ?thesis using e "1.prems" by simp
      next
        case 2
        then show ?thesis using e "1.prems" "1.IH"(1) [OF c b r [symmetric] refl] v by auto
      next
        case 3
        then show ?thesis using e "1.prems" "1.IH"(2) [OF c b r [symmetric] refl] v by auto
      qed
    next
      case False
      then show ?thesis using 1(3,4) c scan_word.simps [of ws sz best w c m] by auto
    qed
  next
    case False
    then show ?thesis using 1(4) scan_word.simps [of ws sz best w c m] by auto
  qed
qed

function scan_words :: "u32 list \<Rightarrow> nat \<Rightarrow> bool \<Rightarrow> nat \<Rightarrow> best_run \<Rightarrow> nat + best_run" where
  "scan_words ws sz best w m =
     (if w < length ws
      then if ws ! w \<noteq> 0
           then case scan_word ws sz best w 31 m of
                  Inl off \<Rightarrow> Inl off
                | Inr (w', m) \<Rightarrow> scan_words ws sz best (w' + 1) m
           else scan_words ws sz best (w + 1) m
      else Inr m)"
  by pat_completeness auto
termination
  by (relation "measure (\<lambda>(ws, sz, b, w, m). length ws - w)") (auto dest!: scan_word_le)

declare scan_words.simps [simp del]

text \<open>\<open>allocate_from\<close> returns the offset, or -1, and overwrites the size. The first word is found by
  shifting the start offset to the left, where the offset of a word is its index times 32. When the
  best fit is asked for, the end is taken for a success whether a run was found or not: without one, the
  difference of the null pointer and the bitmap is undefined.\<close>

definition allocate_from :: "nat \<Rightarrow> nat \<Rightarrow> bool \<Rightarrow> u32 list \<Rightarrow> (int \<times> int \<times> u32 list) undef" where
  "allocate_from start_offset sz best ws =
     (case scan_words ws sz best (start_offset * 32) \<lparr>bflmin = 0xFFFFFF, bofmin = -1, wordmin = None\<rparr> of
        Inl offset \<Rightarrow> do {
          (filled, ws) \<leftarrow> force_fill offset (int sz) False ws;
          Some (int offset, filled, ws)
        }
      | Inr m \<Rightarrow>
          if best \<and> bofmin m \<noteq> 0 then do {
            w \<leftarrow> wordmin m;
            let offset = cell_offset w (bofmin m);
            (filled, ws) \<leftarrow> force_fill offset (int sz) False ws;
            Some (int offset, filled, ws)
          }
          else Some (-1, int sz, ws))"

definition set_word :: "nat \<Rightarrow> u32 \<Rightarrow> u32 list \<Rightarrow> bool \<times> u32 list" where
  "set_word off val ws = (if off \<ge> length ws then (False, ws) else (True, ws[off := val]))"

definition get_word :: "nat \<Rightarrow> u32 list \<Rightarrow> u32" where
  "get_word off ws = (if off \<ge> length ws then 0 else ws ! off)"

definition number_of_set_bits :: "u32 \<Rightarrow> nat" where
  "number_of_set_bits v = (
     let v = v - and (drop_bit 1 v) 0x55555555;
         v = and v 0x33333333 + and (drop_bit 2 v) 0x33333333
     in unat (drop_bit 24 (and (v + drop_bit 4 v) 0x0F0F0F0F * 0x01010101)))"

text \<open>The shift amount \<open>31 - (next_end_bit - 1) & 31\<close> is \<open>(31 - (next_end_bit - 1)) & 31\<close>, in unsigned
  numbers.\<close>

function count_bits :: "u32 list \<Rightarrow> nat \<Rightarrow> nat \<Rightarrow> nat" where
  "count_bits ws start_bit end_bit =
     (if start_bit < end_bit
      then let next_end_bit = min ((start_bit + 32) div 32 * 32) end_bit;
               word_to_scan = push_bit (nat ((31 - (int next_end_bit - 1)) mod 32))
                 (drop_bit (start_bit mod 32) (ws ! (start_bit div 32)))
           in number_of_set_bits word_to_scan + count_bits ws next_end_bit end_bit
      else 0)"
  by pat_completeness auto
termination
proof (relation "measure (\<lambda>(ws, s, e). e - s)")
  fix ws :: "u32 list" and s e x :: nat and xa :: u32
  assume "s < e" "x = min ((s + 32) div 32 * 32) e"
  then have "s < x" by auto
  then show "((ws, x, e), ws, s, e) \<in> measure (\<lambda>(ws, s, e). e - s)" using \<open>s < e\<close> by simp
qed simp

declare count_bits.simps [simp del]

definition allocated_count :: "nat \<Rightarrow> nat \<Rightarrow> u32 list \<Rightarrow> int" where
  "allocated_count offset offset_end ws =
     (if offset > offset_end then -1
      else if offset div 32 \<ge> length ws \<or> offset_end div 32 \<ge> length ws then -1
      else int (count_bits ws offset offset_end))"

section \<open>The repository's tests\<close>

text \<open>The assertions of \<open>tests/common/allocator.cpp\<close>, evaluated.\<close>

lemmas scan_evals = allocate_from_def scan_words.simps scan_word.simps run_from.simps force_fill_def
  fill_words.simps cell_offset_def apply_mask_def bit_iff_odd_drop_bit

lemma test_no_best_fit_multiple_fit:
  "allocate_from 0 3 False [0x87915139] = Some (5, 3, [0x80915139])"
  by (simp add: scan_evals)

lemma test_no_best_fit_only_one_fit:
  "allocate_from 0 3 False [0x85115139] = Some (26, 3, [0x85115101])"
  by (simp add: scan_evals)

lemma test_alloc_across:
  "allocate_from 0 5 False [7, 0xE0000000] = Some (29, 5, [0, 0x20000000])"
  by (simp add: scan_evals)

lemma test_best_fit:
  "allocate_from 0 3 True [0x87915139] = Some (26, 3, [0x87915101])"
  by (simp add: scan_evals)

lemma test_count_aligned: "allocated_count 0 95 [0xFFFFFFFF, 0xF00F00F0, 0x00F00F00] = 52"
  by (simp add: allocated_count_def count_bits.simps number_of_set_bits_def)

lemma test_count_unaligned_start: "allocated_count 2 93 [0xCC3, 0xF00F00F0, 0x00F00F00] = 24"
  by (simp add: allocated_count_def count_bits.simps number_of_set_bits_def)

lemma test_count_unaligned: "allocated_count 2 70 [0xCC3, 0xF00F00F0, 0x2B8F] = 20"
  by (simp add: allocated_count_def count_bits.simps number_of_set_bits_def)

section \<open>Blocks never overlap\<close>

definition apart :: "block_info \<Rightarrow> block_info \<Rightarrow> bool" where
  "apart b c \<longleftrightarrow> blk_end b \<le> blk_offset c \<or> blk_end c \<le> blk_offset b"

definition blocks_ok :: "block_allocator \<Rightarrow> bool" where
  "blocks_ok a \<longleftrightarrow> (\<forall>i < length (blocks a). \<forall>j < length (blocks a). i \<noteq> j \<longrightarrow> apart (blocks a ! i) (blocks a ! j))
    \<and> (\<forall>b \<in> set (blocks a). 0 < blk_size b)"

lemma apart_sym: "apart b c \<longleftrightarrow> apart c b"
  by (auto simp: apart_def)

lemma floor_log2_bounds: "0 < n \<Longrightarrow> 2 ^ floor_log2 n \<le> n \<and> n < 2 ^ (floor_log2 n + 1)"
proof (induction n rule: floor_log2.induct)
  case (1 n)
  show ?case
  proof (cases "n \<le> 1")
    case True
    then show ?thesis using 1(2) by (simp add: floor_log2.simps [of n])
  next
    case False
    then have h: "2 ^ floor_log2 (n div 2) \<le> n div 2" "n div 2 < 2 ^ (floor_log2 (n div 2) + 1)"
      using 1(1) by (auto simp: div_greater_zero_iff)
    have e: "floor_log2 n = Suc (floor_log2 (n div 2))" using False by (simp add: floor_log2.simps [of n])
    have "2 * 2 ^ floor_log2 (n div 2) \<le> n" using h(1) by linarith
    moreover have "n < 2 * 2 ^ (floor_log2 (n div 2) + 1)" using h(2) by linarith
    ultimately show ?thesis by (simp add: e)
  qed
qed

lemma rounded_size_bounds: "rounded_size n = Some r \<Longrightarrow> n < r \<and> r \<le> 2 * n"
  using floor_log2_bounds [of n] by (auto simp: rounded_size_def split: if_splits)

lemma fold_max_ge: "m \<le> fold (\<lambda>b m. max m (blk_end b)) bs (m :: nat)"
proof (induction bs arbitrary: m)
  case (Cons b bs)
  from Cons [of "max m (blk_end b)"] show ?case by simp
qed simp

lemma fold_max_end: "b \<in> set bs \<Longrightarrow> blk_end b \<le> fold (\<lambda>b m. max m (blk_end b)) bs m"
proof (induction bs arbitrary: m)
  case (Cons c bs)
  then show ?case using fold_max_ge [of "max m (blk_end c)" bs] by (auto intro: order_trans [rotated])
qed simp

text \<open>Replacing a block by one within it and appending one within it that is apart from that, or one apart
  from all blocks, keeps the blocks apart.\<close>

lemma apart_inside: "blk_offset b \<le> blk_offset b' \<Longrightarrow> blk_end b' \<le> blk_end b \<Longrightarrow> apart b c \<Longrightarrow> apart b' c"
  by (auto simp: apart_def)

lemma blocks_ok_update:
  assumes "blocks_ok a" and "i < length (blocks a)" and "blk_offset (blocks a ! i) \<le> blk_offset b"
    and "blk_end b \<le> blk_end (blocks a ! i)" and "0 < blk_size b"
  shows "blocks_ok (a\<lparr>blocks := (blocks a)[i := b]\<rparr>)"
proof -
  have l: "apart b c" "apart c b" if "apart (blocks a ! i) c" for c
    using apart_inside [OF assms(3,4) that] apart_sym by blast+
  have "apart ((blocks a)[i := b] ! j) ((blocks a)[i := b] ! k)"
    if "j < length (blocks a)" "k < length (blocks a)" "j \<noteq> k" for j k
    using assms(1,2) that l
    unfolding blocks_ok_def by (cases "j = i"; cases "k = i") (simp_all add: nth_list_update)
  then show ?thesis using assms(1,5) set_update_subset_insert [of "blocks a" i b]
    by (auto simp: blocks_ok_def)
qed

lemma blocks_ok_append:
  assumes "blocks_ok a" and "\<forall>c \<in> set (blocks a). apart c b" and "0 < blk_size b"
  shows "blocks_ok (a\<lparr>blocks := blocks a @ [b]\<rparr>)"
proof -
  have "apart ((blocks a @ [b]) ! j) ((blocks a @ [b]) ! k)"
    if "j < Suc (length (blocks a))" "k < Suc (length (blocks a))" "j \<noteq> k" for j k
    using assms that apart_sym unfolding blocks_ok_def by (auto simp: nth_append less_Suc_eq)
  then show ?thesis using assms by (auto simp: blocks_ok_def)
qed

lemma in_update_other: "x \<in> set xs \<Longrightarrow> x \<noteq> xs ! i \<Longrightarrow> x \<in> set (xs[i := y])"
  by (metis in_set_conv_nth length_list_update nth_list_update_neq)

text \<open>C24. The memory the block allocator hands out overlaps no block in use: an allocation that does not
  fail gives a pointer to a new block in use, large enough, apart from every block in use before, each of
  which is kept; and the blocks stay apart, so the same holds of every allocation that follows.\<close>

theorem block_allocate_disjoint:
  assumes "blocks_ok a" and "block_allocate expand bytes a = Some (Some p, a')"
  shows "blocks_ok a' \<and> (\<exists>b \<in> set (blocks a'). active b \<and> p = blk_ptr a + blk_offset b \<and> bytes < blk_size b
    \<and> (\<forall>c \<in> set (blocks a). active c \<longrightarrow> c \<in> set (blocks a') \<and> apart c b))"
proof -
  obtain r where r: "rounded_size bytes = Some r" using assms(2) by (auto simp: block_allocate_def split: bind_splits)
  have br: "bytes < r" using rounded_size_bounds [OF r] by simp
  then have r0: "0 < r" by simp
  have pos: "0 < blk_size c" if "c \<in> set (blocks a)" for c using assms(1) that by (simp add: blocks_ok_def)
  show ?thesis
  proof (cases "find_index (\<lambda>b. \<not> active b \<and> blk_size b \<ge> r) (blocks a)")
    case (Some i)
    define b where "b = blocks a ! i"
    have i: "i < length (blocks a)" "\<not> active b" "r \<le> blk_size b"
      using Some by (auto simp: find_index_Some_iff b_def)
    have oth: "apart c b" if "c \<in> set (blocks a)" "active c" for c
    proof -
      obtain j where "j < length (blocks a)" "blocks a ! j = c" using \<open>c \<in> set (blocks a)\<close> by (auto simp: in_set_conv_nth)
      then show ?thesis using assms(1) i that(2) by (auto simp: blocks_ok_def b_def)
    qed
    have keep: "c \<in> set ((blocks a)[i := x])" if "c \<in> set (blocks a)" "active c" for c x
      using in_update_other [of c "blocks a" i x] that i(2) by (auto simp: b_def)
    show ?thesis
    proof (cases "blk_size b = r")
      case True
      let ?b = "b\<lparr>active := True\<rparr>"
      have a': "a' = a\<lparr>blocks := (blocks a)[i := ?b]\<rparr>" "p = blk_ptr a + blk_offset b"
        using assms(2) r Some True by (auto simp: block_allocate_def b_def Let_def)
      have "blocks_ok a'" unfolding a' by (rule blocks_ok_update [OF assms(1) i(1)]) (use True r0 in \<open>auto simp: b_def blk_end_def\<close>)
      moreover have "?b \<in> set (blocks a')" using i(1) by (simp add: a' set_update_memI)
      moreover have "apart c ?b" if "apart c b" for c using that by (simp add: apart_def blk_end_def)
      ultimately show ?thesis using True br oth keep by (intro conjI bexI [of _ ?b]) (auto simp: a')
    next
      case False
      let ?n = "\<lparr>blk_offset = blk_offset b, blk_size = r, active = True\<rparr>"
      let ?o = "b\<lparr>blk_size := blk_size b - r, blk_offset := blk_offset b + r\<rparr>"
      have a': "a' = a\<lparr>blocks := (blocks a)[i := ?o] @ [?n]\<rparr>" "p = blk_ptr a + blk_offset b"
        using assms(2) r Some False by (auto simp: block_allocate_def b_def Let_def)
      have ok: "blocks_ok (a\<lparr>blocks := (blocks a)[i := ?o]\<rparr>)"
        by (rule blocks_ok_update [OF assms(1) i(1)]) (use False i(3) in \<open>auto simp: b_def blk_end_def\<close>)
      have no: "apart c ?n" if c: "c \<in> set ((blocks a)[i := ?o])" for c
      proof -
        obtain j where j: "j < length (blocks a)" "c = (blocks a)[i := ?o] ! j" using c by (auto simp: in_set_conv_nth)
        show ?thesis
        proof (cases "j = i")
          case True
          then show ?thesis using j i(1) by (simp add: apart_def blk_end_def)
        next
          case False
          then have "apart c b" using j i(1) assms(1) by (auto simp: blocks_ok_def b_def)
          then show ?thesis using i(3) by (auto simp: apart_def blk_end_def)
        qed
      qed
      have "blocks_ok a'" using blocks_ok_append [OF ok, of ?n] no r0 by (simp add: a')
      moreover have "apart c ?n" if "apart c b" for c using that i(3) by (auto simp: apart_def blk_end_def)
      ultimately show ?thesis using br oth keep by (intro conjI bexI [of _ ?n]) (auto simp: a')
    qed
  next
    case None
    define far where "far = fold (\<lambda>b m. max m (blk_end b)) (blocks a) 0"
    let ?n = "\<lparr>blk_offset = far, blk_size = r, active = True\<rparr>"
    have a': "blocks a' = blocks a @ [?n]" "p = blk_ptr a + far"
      using assms(2) r None by (auto simp: block_allocate_def far_def Let_def split: if_splits)
    have ap: "apart c ?n" if "c \<in> set (blocks a)" for c
      using fold_max_end [OF that, of 0] by (simp add: apart_def blk_end_def far_def)
    have "blocks_ok (a\<lparr>blocks := blocks a @ [?n]\<rparr>)" using blocks_ok_append [OF assms(1)] ap r0 by simp
    then have "blocks_ok a'" by (simp add: blocks_ok_def a')
    then show ?thesis using ap br by (intro conjI bexI [of _ ?n]) (auto simp: a')
  qed
qed

text \<open>The bound is checked with the size asked for, the block made with the size rounded up: in an
  empty space that holds the request but not the rounded size, a block longer than the space is made,
  and when it is free again a request longer than the whole space is granted without expanding.\<close>

theorem freed_block_exceeds_space:
  assumes "blocks a = []" and "rounded_size bytes = Some r" and "bytes \<le> max_size a" and "max_size a < r - 1"
    and "rounded_size (r - 1) = Some r"
  shows "\<exists>a1 a2 a3. block_allocate expand bytes a = Some (Some (blk_ptr a), a1)
    \<and> block_free (blk_ptr a) a1 = (True, a2)
    \<and> block_allocate expand (r - 1) a2 = Some (Some (blk_ptr a), a3)
    \<and> max_size a3 = max_size a \<and> max_size a3 < r - 1"
proof -
  define a1 where "a1 = a\<lparr>blocks := [\<lparr>blk_offset = 0, blk_size = r, active = True\<rparr>]\<rparr>"
  define a2 where "a2 = a\<lparr>blocks := [\<lparr>blk_offset = 0, blk_size = r, active = False\<rparr>]\<rparr>"
  have "block_allocate expand bytes a = Some (Some (blk_ptr a), a1)"
    using assms(1-3) by (cases a) (simp add: block_allocate_def a1_def)
  moreover have "block_free (blk_ptr a) a1 = (True, a2)"
    by (cases a) (simp add: block_free_def a1_def a2_def)
  moreover have "block_allocate expand (r - 1) a2 = Some (Some (blk_ptr a), a1)"
    using assms(5) by (cases a) (simp add: block_allocate_def a1_def a2_def Let_def)
  ultimately show ?thesis using assms(4) by (auto simp: a1_def)
qed

theorem block_allocate_disjoint_witness:
  "\<exists>p a1 q a2. block_allocate (\<lambda>_. False) 9 \<lparr>blk_ptr = 100, max_size = 64, blocks = []\<rparr> = Some (Some p, a1)
    \<and> block_allocate (\<lambda>_. False) 9 a1 = Some (Some q, a2) \<and> blocks_ok a2 \<and> p \<noteq> q"
proof -
  have e: "rounded_size 9 = Some 16" by (simp add: rounded_size_def floor_log2.simps)
  define a1 where "a1 = \<lparr>blk_ptr = 100, max_size = 64, blocks = [\<lparr>blk_offset = 0, blk_size = 16, active = True\<rparr>]\<rparr>"
  define a2 where "a2 = a1\<lparr>blocks := blocks a1 @ [\<lparr>blk_offset = 16, blk_size = 16, active = True\<rparr>]\<rparr>"
  have "block_allocate (\<lambda>_. False) 9 \<lparr>blk_ptr = 100, max_size = 64, blocks = []\<rparr> = Some (Some 100, a1)"
    by (simp add: block_allocate_def e a1_def)
  moreover have s: "block_allocate (\<lambda>_. False) 9 a1 = Some (Some 116, a2)"
    by (simp add: block_allocate_def e a1_def a2_def blk_end_def)
  moreover have "blocks_ok a1" by (simp add: blocks_ok_def a1_def)
  moreover note block_allocate_disjoint [OF this s]
  ultimately show ?thesis by (intro exI [of _ 100] exI [of _ a1] exI [of _ 116] exI [of _ a2]) simp
qed

theorem freed_block_exceeds_space_witness:
  "\<exists>a1 a2 a3. block_allocate (\<lambda>_. False) 10 \<lparr>blk_ptr = 100, max_size = 12, blocks = []\<rparr> = Some (Some 100, a1)
    \<and> block_free 100 a1 = (True, a2) \<and> block_allocate (\<lambda>_. False) 15 a2 = Some (Some 100, a3) \<and> max_size a3 = 12"
proof -
  have "rounded_size 10 = Some 16" "rounded_size (16 - 1) = Some 16" by (simp_all add: rounded_size_def floor_log2.simps)
  with freed_block_exceeds_space [of "\<lparr>blk_ptr = 100, max_size = 12, blocks = []\<rparr>" 10 16 "\<lambda>_. False"]
  show ?thesis by auto
qed

section \<open>Filling cells\<close>

text \<open>Whether cell \<open>p\<close> of a bitmap is free.\<close>

definition cell_free :: "u32 list \<Rightarrow> nat \<Rightarrow> bool" where
  "cell_free ws p = bit (ws ! (p div 32)) (31 - p mod 32)"

text \<open>The cells of a word a mask covers.\<close>

definition covers :: "u32 \<Rightarrow> nat \<Rightarrow> int \<Rightarrow> bool" where
  "covers msk s e \<longleftrightarrow> (\<forall>r < 32. bit msk (31 - r) \<longleftrightarrow> s \<le> r \<and> int r < e)"

lemma bit_full: "bit (0xFFFFFFFF :: u32) n \<longleftrightarrow> n < 32"
proof -
  have "(0xFFFFFFFF :: u32) = mask 32" by (simp add: mask_eq_exp_minus_1)
  then show ?thesis by (simp only: bit_mask_iff) auto
qed

lemma covers_from: "s < 32 \<Longrightarrow> 32 \<le> e \<Longrightarrow> covers (drop_bit s 0xFFFFFFFF) s e"
  unfolding covers_def by (simp only: bit_drop_bit_eq comp_def bit_full) auto

lemma covers_upto: "0 < e \<Longrightarrow> covers (if e < 32 then not (drop_bit (nat e) 0xFFFFFFFF) else 0xFFFFFFFF) 0 e"
  unfolding covers_def
  by (simp only: bit_not_iff bit_drop_bit_eq comp_def bit_full if_distrib [of "\<lambda>x. bit x _"]) auto

lemma covers_within:
  assumes "s + n < 32"
  shows "covers (drop_bit s (not (drop_bit n (0xFFFFFFFF :: u32)))) s (int s + int n)"
  unfolding covers_def
proof (intro allI impI)
  fix r :: nat assume "r < 32"
  have "bit (drop_bit s (not (drop_bit n (0xFFFFFFFF :: u32)))) (31 - r) \<longleftrightarrow> s + (31 - r) < 32 \<and> \<not> n + (s + (31 - r)) < 32"
    by (simp only: bit_not_iff bit_drop_bit_eq comp_def bit_full possible_bit_word) auto
  then show "bit (drop_bit s (not (drop_bit n (0xFFFFFFFF :: u32)))) (31 - r) \<longleftrightarrow> s \<le> r \<and> int r < int s + int n"
    using \<open>r < 32\<close> assms by auto
qed

lemma bit_apply_mask: "n < 32 \<Longrightarrow> bit (apply_mask om msk w) n = (if bit msk n then om else bit w n)"
  by (auto simp: apply_mask_def bit_simps)

lemma cell_free_apply:
  assumes "i < length ws" and "covers msk s e"
  shows "cell_free (ws[i := apply_mask om msk (ws ! i)]) p =
    (if p div 32 = i \<and> s \<le> p mod 32 \<and> int (p mod 32) < e then om else cell_free ws p)"
  using assms by (auto simp: cell_free_def bit_apply_mask covers_def nth_list_update)

lemma fill_words_step:
  "fill_words om msk e i ws = (if 0 < e \<and> i < length ws
     then fill_words om (if e - 32 < 32 then not (drop_bit (nat (e - 32)) 0xFFFFFFFF) else 0xFFFFFFFF) (e - 32) (Suc i)
            (ws[i := apply_mask om msk (ws ! i)])
     else ws)"
  by (subst fill_words.simps) (simp add: Let_def)

lemma word_cells:
  fixes p i s :: nat
  assumes "s < 32"
  shows "p div 32 = i \<and> s \<le> p mod 32 \<and> int (p mod 32) < e \<longleftrightarrow> 32 * i + s \<le> p \<and> p < 32 * i + 32 \<and> int p < int (32 * i) + e"
proof -
  have e: "p = 32 * (p div 32) + p mod 32" "p mod 32 < 32" by simp_all
  define q r where "q = p div 32" and "r = p mod 32"
  have p: "p = 32 * q + r" "r < 32" using e unfolding q_def r_def by simp_all
  have "q = i \<and> s \<le> r \<and> int r < e \<longleftrightarrow> 32 * i + s \<le> p \<and> p < 32 * i + 32 \<and> int p < int (32 * i) + e"
    using assms p by (cases "q = i"; cases "q < i") auto
  then show ?thesis by (simp only: q_def r_def)
qed

lemma fill_words_cells:
  assumes "covers msk s e" and "s < 32"
  shows "length (fill_words om msk e i ws) = length ws
    \<and> (\<forall>p < 32 * length ws. cell_free (fill_words om msk e i ws) p =
      (if 32 * i + s \<le> p \<and> int p < int (32 * i) + e then om else cell_free ws p))"
  using assms
proof (induction om msk e i ws arbitrary: s rule: fill_words.induct)
  case (1 om msk e i ws)
  show ?case
  proof (cases "0 < e \<and> i < length ws")
    case t: True
    define ws' where "ws' = ws[i := apply_mask om msk (ws ! i)]"
    define msk' :: u32 where "msk' = (if e - 32 < 32 then not (drop_bit (nat (e - 32)) 0xFFFFFFFF) else 0xFFFFFFFF)"
    have step: "fill_words om msk e i ws = fill_words om msk' (e - 32) (Suc i) ws'"
      using t by (subst fill_words_step) (simp add: ws'_def msk'_def)
    have one: "cell_free ws' p = (if 32 * i + s \<le> p \<and> p < 32 * i + 32 \<and> int p < int (32 * i) + e then om else cell_free ws p)" for p
      unfolding ws'_def using t by (simp only: cell_free_apply [OF _ 1(2)] word_cells [OF 1(3)])
    have l: "length ws' = length ws" by (simp add: ws'_def)
    have "length (fill_words om msk' (e - 32) (Suc i) ws') = length ws' \<and> (\<forall>p < 32 * length ws'.
        cell_free (fill_words om msk' (e - 32) (Suc i) ws') p =
          (if 32 * Suc i \<le> p \<and> int p < int (32 * Suc i) + (e - 32) then om else cell_free ws' p))"
    proof (cases "0 < e - 32")
      case True
      then have "covers msk' 0 (e - 32)" unfolding msk'_def by (rule covers_upto)
      with "1.IH" [OF t refl refl refl, of 0] show ?thesis unfolding ws'_def msk'_def by simp
    next
      case False
      then have "fill_words om msk' (e - 32) (Suc i) ws' = ws'" by (subst fill_words_step) simp
      then show ?thesis using False by auto
    qed
    then show ?thesis using one 1(3) unfolding step l by auto
  next
    case False
    then have "fill_words om msk e i ws = ws" by (subst fill_words_step) (simp only: if_False)
    then show ?thesis using False by auto
  qed
qed

lemma divmod_here:
  fixes p i s :: nat
  assumes "int s + n < 32"
  shows "p div 32 = i \<and> s \<le> p mod 32 \<and> int (p mod 32) < int s + n \<longleftrightarrow> 32 * i + s \<le> p \<and> int p < int (32 * i + s) + n"
proof -
  have e: "p = 32 * (p div 32) + p mod 32" "p mod 32 < 32" by simp_all
  define q r where "q = p div 32" and "r = p mod 32"
  have p: "p = 32 * q + r" "r < 32" using e unfolding q_def r_def by simp_all
  have "q = i \<and> s \<le> r \<and> int r < int s + n \<longleftrightarrow> 32 * i + s \<le> p \<and> int p < int (32 * i + s) + n"
    using assms p by (cases "q = i"; cases "q < i") auto
  then show ?thesis by (simp only: q_def r_def)
qed

text \<open>Filling sets exactly the cells asked for, up to the end of the bitmap.\<close>

lemma force_fill_cells:
  assumes "off div 32 < length ws" and "0 \<le> n"
  obtains filled ws' where "force_fill off n om ws = Some (filled, ws')" "length ws' = length ws"
    "filled = min n (int (32 * length ws) - int (off mod 32))"
    "\<And>p. p < 32 * length ws \<Longrightarrow> cell_free ws' p = (if off \<le> p \<and> int p < int off + n then om else cell_free ws p)"
proof -
  define s where "s = off mod 32"
  define i where "i = off div 32"
  have o: "off = 32 * i + s" "s < 32" "i < length ws" using assms(1) by (simp_all add: s_def i_def)
  show thesis
  proof (cases "int s + n < 32")
    case True
    define ws' where "ws' = ws[i := apply_mask om (drop_bit s (not (drop_bit (nat n) 0xFFFFFFFF))) (ws ! i)]"
    have c: "covers (drop_bit s (not (drop_bit (nat n) (0xFFFFFFFF :: u32)))) s (int s + n)"
      using covers_within [of s "nat n"] True assms(2) by simp
    have "cell_free ws' p = (if off \<le> p \<and> int p < int off + n then om else cell_free ws p)" for p
    proof -
      have "p div 32 = i \<and> s \<le> p mod 32 \<and> int (p mod 32) < int s + n \<longleftrightarrow> off \<le> p \<and> int p < int off + n"
        using o True by (simp only: divmod_here)
      then show ?thesis unfolding ws'_def by (simp only: cell_free_apply [OF o(3) c])
    qed
    then show thesis
      using that [of "min n (int (32 * length ws) - int s)" ws'] assms True
      by (simp add: force_fill_def ws'_def Let_def s_def i_def)
  next
    case False
    then have c: "covers (drop_bit s 0xFFFFFFFF) s (int s + n)" using o(2) by (intro covers_from) auto
    note f = fill_words_cells [OF c o(2), where om = om and i = i and ws = ws]
    have "force_fill off n om ws = Some (min n (int (32 * length ws) - int s), fill_words om (drop_bit s 0xFFFFFFFF) (int s + n) i ws)"
      using assms False by (simp add: force_fill_def Let_def s_def i_def)
    moreover have "cell_free (fill_words om (drop_bit s 0xFFFFFFFF) (int s + n) i ws) p
        = (if off \<le> p \<and> int p < int off + n then om else cell_free ws p)" if "p < 32 * length ws" for p
      using f that by (simp add: o(1) add.assoc)
    ultimately show thesis using f unfolding s_def by (intro that) blast+
  qed
qed

section \<open>Searching runs\<close>

lemma run_from_free:
  assumes "run_from ws w c b = (w', c', b')" and "w < length ws" and "c \<le> 31" and "- 1 \<le> c"
  shows "b \<le> b' \<and> w' < length ws \<and> c' \<le> 31 \<and> - 1 \<le> c' \<and> cell_offset w c + (b' - b) = cell_offset w' c'
    \<and> (\<forall>p. cell_offset w c \<le> p \<and> p < cell_offset w c + (b' - b) \<longrightarrow> cell_free ws p)"
  using assms
proof (induction ws w c b rule: run_from.induct)
  case (1 ws w c b)
  show ?case
  proof (cases "0 \<le> c \<and> bit (ws ! w) (nat c)")
    case t: True
    have "cell_offset w c = (31 - nat c) + 32 * w" using t 1(5) by (auto simp: cell_offset_def nat_diff_distrib)
    then have "cell_offset w c div 32 = w" "cell_offset w c mod 32 = 31 - nat c" by simp_all
    moreover have "31 - (31 - nat c) = nat c" using t 1(5) by auto
    ultimately have f: "cell_free ws (cell_offset w c)" using t by (simp only: cell_free_def)
    obtain v d where step: "run_from ws v d (b + 1) = (w', c', b')" "v < length ws" "d \<le> 31" "- 1 \<le> d"
      "cell_offset v d = cell_offset w c + 1"
      "b + 1 \<le> b' \<and> w' < length ws \<and> c' \<le> 31 \<and> - 1 \<le> c' \<and> cell_offset v d + (b' - (b + 1)) = cell_offset w' c'
        \<and> (\<forall>p. cell_offset v d \<le> p \<and> p < cell_offset v d + (b' - (b + 1)) \<longrightarrow> cell_free ws p)"
    proof (cases "c - 1 < 0 \<and> w + 1 < length ws")
      case True
      then have r: "run_from ws (w + 1) 31 (b + 1) = (w', c', b')"
        using t 1(3) run_from.simps [of ws w c b] by (simp split: if_splits)
      have "c = 0" using True t by simp
      then have "cell_offset (w + 1) 31 = cell_offset w c + 1" by (simp add: cell_offset_def)
      then show thesis using that [OF r] 1(1) [OF t True r] True by auto
    next
      case False
      then have r: "run_from ws w (c - 1) (b + 1) = (w', c', b')"
        using t 1(3) run_from.simps [of ws w c b] by (simp split: if_splits)
      have "cell_offset w (c - 1) = cell_offset w c + 1" using t 1(5) by (simp add: cell_offset_def)
      then show thesis using that [OF r] 1(2) [OF t False r] 1(4,5) t by auto
    qed
    have "\<forall>p. cell_offset w c \<le> p \<and> p < cell_offset w c + (b' - b) \<longrightarrow> cell_free ws p"
    proof (intro allI impI)
      fix p assume p: "cell_offset w c \<le> p \<and> p < cell_offset w c + (b' - b)"
      show "cell_free ws p"
      proof (cases "p = cell_offset w c")
        case True
        then show ?thesis using f by simp
      next
        case False
        then have "cell_offset v d \<le> p \<and> p < cell_offset v d + (b' - (b + 1))" using p step(5) by auto
        then show ?thesis using step(6) by blast
      qed
    qed
    then show ?thesis using step(5,6) by auto
  next
    case False
    then have "w' = w" "c' = c" "b' = b" using 1(3) run_from.simps [of ws w c b] by auto
    then show ?thesis using 1(4-6) by auto
  qed
qed

text \<open>A run of free cells inside the bitmap.\<close>

definition free_run :: "u32 list \<Rightarrow> nat \<Rightarrow> nat \<Rightarrow> bool" where
  "free_run ws off n \<longleftrightarrow> off + n \<le> 32 * length ws \<and> (\<forall>p. off \<le> p \<and> p < off + n \<longrightarrow> cell_free ws p)"

definition best_ok :: "u32 list \<Rightarrow> nat \<Rightarrow> best_run \<Rightarrow> bool" where
  "best_ok ws sz m \<longleftrightarrow> (\<forall>w. wordmin m = Some w \<longrightarrow> free_run ws (cell_offset w (bofmin m)) sz)"

lemma run_from_free_run:
  assumes "run_from ws w c 0 = (w', c', l)" and "w < length ws" and "0 < c" and "c \<le> 31" and "sz \<le> l"
  shows "free_run ws (cell_offset w c) sz"
proof -
  note r = run_from_free [OF assms(1,2,4)]
  have "cell_offset w' c' \<le> 32 * length ws" using r assms(3) by (auto simp: cell_offset_def)
  then show ?thesis using r assms(3,5) by (auto simp: free_run_def)
qed

lemma scan_word_sound:
  assumes "w < length ws" and "c \<le> 31" and "best_ok ws sz m"
  shows "case scan_word ws sz best w c m of
      Inl off \<Rightarrow> free_run ws off sz
    | Inr (w', m') \<Rightarrow> best_ok ws sz m'"
  using assms
proof (induction ws sz best w c m rule: scan_word.induct)
  case (1 ws sz best w c m)
  obtain v d l where r: "run_from ws w c 0 = (v, d, l)" by (rule prod_cases3)
  show ?case
  proof (cases "0 < c")
    case c: True
    note rf = run_from_free [OF r 1(4,5)]
    show ?thesis
    proof (cases "bit (ws ! w) (nat c)")
      case b: True
      let ?m = "if l < bflmin m then \<lparr>bflmin = l, bofmin = c, wordmin = Some w\<rparr> else m"
      have e: "scan_word ws sz best w c m = (if sz \<le> l then if \<not> best then Inl (cell_offset w c)
          else scan_word ws sz best v (d - 1) ?m else scan_word ws sz best v (d - 1) m)"
        using c b r by (subst scan_word.simps) simp
      have run: "free_run ws (cell_offset w c) sz" if "sz \<le> l"
        using run_from_free_run [OF r "1.prems"(1) c "1.prems"(2) that] .
      have m: "best_ok ws sz ?m" if "sz \<le> l" using "1.prems"(3) run [OF that] by (auto simp: best_ok_def)
      have v: "v < length ws" "d - 1 \<le> 31" using rf c by auto
      consider "sz \<le> l" "\<not> best" | "sz \<le> l" "best" | "\<not> sz \<le> l" by blast
      then show ?thesis
      proof cases
        case 1
        then show ?thesis using e run by simp
      next
        case 2
        then show ?thesis using e "1.IH"(1) [OF c b r [symmetric] refl _ _ v m] by simp
      next
        case 3
        then show ?thesis using e "1.IH"(2) [OF c b r [symmetric] refl _ v "1.prems"(3)] by simp
      qed
    next
      case False
      then have "scan_word ws sz best w c m = scan_word ws sz best w (c - 1) m" using c by (subst scan_word.simps) simp
      then show ?thesis using 1(3) [OF c False] "1.prems" by simp
    qed
  next
    case False
    then have "scan_word ws sz best w c m = Inr (w, m)" by (subst scan_word.simps) simp
    then show ?thesis using "1.prems"(3) by simp
  qed
qed

lemma scan_words_sound:
  assumes "best_ok ws sz m"
  shows "case scan_words ws sz best w m of Inl off \<Rightarrow> free_run ws off sz | Inr m' \<Rightarrow> best_ok ws sz m'"
  using assms
proof (induction ws sz best w m rule: scan_words.induct)
  case (1 ws sz best w m)
  show ?case
  proof (cases "w < length ws")
    case w: True
    show ?thesis
    proof (cases "ws ! w = 0")
      case True
      then have "scan_words ws sz best w m = scan_words ws sz best (w + 1) m" using w by (subst scan_words.simps) simp
      then show ?thesis using 1(2) [OF w _ 1(3)] True by simp
    next
      case False
      note s = scan_word_sound [OF w _ 1(3), of 31 best]
      show ?thesis
      proof (cases "scan_word ws sz best w 31 m")
        case (Inl off)
        then have "scan_words ws sz best w m = Inl off" using w False by (subst scan_words.simps) simp
        then show ?thesis using s Inl by simp
      next
        case (Inr r)
        then obtain w' m' where r: "scan_word ws sz best w 31 m = Inr (w', m')" by (cases r) auto
        then have "scan_words ws sz best w m = scan_words ws sz best (w' + 1) m'" using w False by (subst scan_words.simps) simp
        then show ?thesis using 1(1) [OF w False r refl] s r by simp
      qed
    qed
  next
    case False
    then have "scan_words ws sz best w m = Inr m" by (subst scan_words.simps) simp
    then show ?thesis using 1(3) by simp
  qed
qed

lemma allocate_from_sound:
  assumes "allocate_from start sz best ws = Some (off, filled, ws')" and "off \<noteq> -1" and "0 < sz"
  shows "0 \<le> off \<and> nat off + sz \<le> 32 * length ws \<and> filled = int sz \<and> length ws' = length ws
    \<and> (\<forall>p < 32 * length ws. cell_free ws' p = (cell_free ws p \<and> \<not> (nat off \<le> p \<and> p < nat off + sz)))
    \<and> (\<forall>p. nat off \<le> p \<and> p < nat off + sz \<longrightarrow> cell_free ws p)
    \<and> (\<exists>ws''. bitmap_free (nat off) (int sz) ws' = Some ws'' \<and> length ws'' = length ws
        \<and> (\<forall>p < 32 * length ws. cell_free ws'' p = cell_free ws p))"
proof -
  have "best_ok ws sz \<lparr>bflmin = 0xFFFFFF, bofmin = -1, wordmin = None\<rparr>" by (simp add: best_ok_def)
  note s = scan_words_sound [OF this, of best "start * 32"]
  have "\<exists>o'. off = int o' \<and> free_run ws o' sz \<and> force_fill o' (int sz) False ws = Some (filled, ws')"
  proof (cases "scan_words ws sz best (start * 32) \<lparr>bflmin = 0xFFFFFF, bofmin = -1, wordmin = None\<rparr>")
    case (Inl o')
    then show ?thesis using s assms(1) by (auto simp: allocate_from_def split: bind_splits)
  next
    case (Inr m)
    then show ?thesis using s assms(1,2)
      by (auto simp: allocate_from_def best_ok_def Let_def split: bind_splits if_splits)
  qed
  then obtain o' where o: "off = int o'" "o' + sz \<le> 32 * length ws" "\<And>p. o' \<le> p \<Longrightarrow> p < o' + sz \<Longrightarrow> cell_free ws p"
    "force_fill o' (int sz) False ws = Some (filled, ws')" by (auto simp: free_run_def)
  have b: "o' div 32 < length ws" using o(2) assms(3) by auto
  obtain fl ws0 where ff: "force_fill o' (int sz) False ws = Some (fl, ws0)" "length ws0 = length ws"
    "fl = min (int sz) (int (32 * length ws) - int (o' mod 32))"
    "\<And>p. p < 32 * length ws \<Longrightarrow> cell_free ws0 p = (if o' \<le> p \<and> int p < int o' + int sz then False else cell_free ws p)"
    by (rule force_fill_cells [OF b, of "int sz" False]) auto
  have "o' mod 32 \<le> o'" by simp
  then have "int sz \<le> int (32 * length ws) - int (o' mod 32)" using o(2) by linarith
  then have f: "filled = int sz" "length ws' = length ws"
    "\<And>p. p < 32 * length ws \<Longrightarrow> cell_free ws' p = (if o' \<le> p \<and> int p < int o' + int sz then False else cell_free ws p)"
    using ff o(4) by auto
  have b': "o' div 32 < length ws'" using b f(2) by simp
  obtain fl' ws'' where g: "force_fill o' (int sz) True ws' = Some (fl', ws'')" "length ws'' = length ws'"
    "\<And>p. p < 32 * length ws' \<Longrightarrow> cell_free ws'' p = (if o' \<le> p \<and> int p < int o' + int sz then True else cell_free ws' p)"
    by (rule force_fill_cells [OF b', of "int sz" True]) auto
  then have "bitmap_free o' (int sz) ws' = Some ws''" by (simp add: bitmap_free_def)
  moreover have "\<forall>p < 32 * length ws. cell_free ws'' p = cell_free ws p" using g(3) f(2,3) o(3) by auto
  ultimately show ?thesis using o f g(2) by auto
qed

text \<open>C25. An allocation of cells, by first fit or best fit, that does not fail yields as many cells as asked
  for, all inside the bitmap and all free before; afterwards exactly those are taken. Freeing them
  gives the bitmap back as it was.\<close>

theorem bitmap_allocate_sound:
  assumes "allocate_from start sz best ws = Some (off, filled, ws')" and "off \<noteq> -1" and "0 < sz"
  shows "0 \<le> off \<and> nat off + sz \<le> 32 * length ws \<and> filled = int sz \<and> length ws' = length ws
    \<and> (\<forall>p < 32 * length ws. cell_free ws' p = (cell_free ws p \<and> \<not> (nat off \<le> p \<and> p < nat off + sz)))
    \<and> (\<forall>p. nat off \<le> p \<and> p < nat off + sz \<longrightarrow> cell_free ws p)
    \<and> (\<exists>ws''. bitmap_free (nat off) (int sz) ws' = Some ws'' \<and> length ws'' = length ws
        \<and> (\<forall>p < 32 * length ws. cell_free ws'' p = cell_free ws p))"
  by (rule allocate_from_sound [OF assms])

section \<open>Searches that fail\<close>

lemma low_bit_only: "w = 0 \<or> w = (1 :: u32) \<Longrightarrow> 0 < n \<Longrightarrow> \<not> bit w n"
  by (auto simp: bit_1_iff)

lemma scan_word_low:
  assumes "ws ! w = 0 \<or> ws ! w = 1" and "c \<le> 31"
  shows "scan_word ws sz best w c m = Inr (w, m)"
  using assms
proof (induction "nat c" arbitrary: c)
  case 0
  then show ?case by (subst scan_word.simps) simp
next
  case (Suc k)
  have "\<not> bit (ws ! w) (nat c)" using low_bit_only [OF Suc(3), of "nat c"] Suc(2) by simp
  moreover have "scan_word ws sz best w (c - 1) m = Inr (w, m)" using Suc by (intro Suc(1)) auto
  ultimately show ?case using Suc(2) by (subst scan_word.simps) simp
qed

lemma scan_words_low:
  assumes "\<forall>w \<in> set ws. w = 0 \<or> w = 1"
  shows "scan_words ws sz best i m = Inr m"
  using assms
proof (induction ws sz best i m rule: scan_words.induct)
  case (1 ws sz best i m)
  show ?case
  proof (cases "i < length ws")
    case i: True
    then have w: "ws ! i = 0 \<or> ws ! i = 1" using 1(3) nth_mem by blast
    have s: "scan_word ws sz best i 31 m = Inr (i, m)" by (rule scan_word_low [OF w]) simp
    show ?thesis
    proof (cases "ws ! i = 0")
      case True
      then show ?thesis using i 1(2) [OF i _ 1(3)] by (subst scan_words.simps) simp
    next
      case False
      then show ?thesis using i s 1(1) [OF i False s refl 1(3)] by (subst scan_words.simps) simp
    qed
  next
    case False
    then show ?thesis by (subst scan_words.simps) simp
  qed
qed

text \<open>A free cell that is the last one of its word, with no free cell before it in the word, is never
  found: a bitmap in which at most these are free counts as full for any size. There a first fit
  returns -1; a best fit, which the chunks use and test for -1, runs into undefined behaviour.\<close>

theorem full_bitmap_search:
  assumes "\<forall>w \<in> set ws. w = 0 \<or> w = 1"
  shows "allocate_from start sz False ws = Some (-1, int sz, ws) \<and> allocate_from start sz True ws = None"
  using scan_words_low [OF assms] by (simp add: allocate_from_def)

text \<open>Counting takes cells behind the end of the range for cells in it when the range begins inside a
  word.\<close>

lemma count_beyond_end: "allocated_count 2 10 [0xC00] = 2"
  by (simp add: allocated_count_def count_bits.simps number_of_set_bits_def)

theorem full_bitmap_search_witness: "allocate_from 0 1 False [0, 1] = Some (-1, 1, [0, 1]) \<and> allocate_from 0 1 True [0, 1] = None"
  using full_bitmap_search [of "[0, 1]" 0 1] by simp

theorem bitmap_allocate_sound_witness:
  "\<exists>ws''. bitmap_free 29 5 [0, 0x20000000] = Some ws'' \<and> length ws'' = 2"
  using bitmap_allocate_sound [OF test_alloc_across] by auto

end
