(* ===== verification/Mmu.thy ===== *)
theory Mmu imports Prelude begin

text \<open>
  Page tables and page directories (\<open>mem/page.cpp\<close>), the allocator of page tables
  (\<open>mem/allocator/std_page_allocator.cpp\<close>) and the memory management unit of the multiple memory model
  (\<open>mem/model/multiple/mmu.cpp\<close>).

  Addresses are naturals below \<open>2^32\<close>; a host pointer is a natural, 0 the null pointer. A page table is
  named by its id, its index in the allocator.
\<close>

section \<open>Geometry\<close>

text \<open>The constants for 1 MB paging (page size of 20 bits) and 4 KB paging (any other value).\<close>

definition page_bits :: "nat \<Rightarrow> nat" where
  "page_bits b = (if b = 20 then 20 else 12)"

definition pages_per_table :: "nat \<Rightarrow> nat" where
  "pages_per_table b = (if b = 20 then 64 else 256)"

definition tables_per_dir :: "nat \<Rightarrow> nat" where
  "tables_per_dir b = (if b = 20 then 64 else 4096)"

definition table_index_shift :: "nat \<Rightarrow> nat" where
  "table_index_shift b = (if b = 20 then 26 else 20)"

definition page_per_tab_shift :: "nat \<Rightarrow> nat" where
  "page_per_tab_shift b = 8"

definition offset_mask :: "nat \<Rightarrow> nat" where
  "offset_mask b = 2 ^ page_bits b - 1"

section \<open>Page tables and directories\<close>

record page_info =
  host_addr :: nat
  perm :: nat

record page_table =
  pages :: "page_info list"
  pt_id :: nat
  pt_idx :: nat

definition no_index :: nat where
  "no_index = 0xFFFFFFFF"

definition new_page_table :: "nat \<Rightarrow> nat \<Rightarrow> page_table" where
  "new_page_table i b = \<lparr>pages = replicate (pages_per_table b) \<lparr>host_addr = 0, perm = 0\<rparr>, pt_id = i, pt_idx = no_index\<rparr>"

definition page_info_at :: "page_table \<Rightarrow> nat \<Rightarrow> page_info option" where
  "page_info_at t i = (if i \<ge> length (pages t) then None else Some (pages t ! i))"

record page_directory =
  page_tabs :: "nat option list"
  dir_psize :: nat
  dir_id :: int
  occupied :: bool

definition new_page_directory :: "nat \<Rightarrow> int \<Rightarrow> page_directory" where
  "new_page_directory b i = \<lparr>page_tabs = replicate (tables_per_dir b) None, dir_psize = b, dir_id = i, occupied = False\<rparr>"

text \<open>\<open>page_directory::get_pointer\<close>: the table and the page an address selects, in the store of tables.
  The vector of tables is indexed unchecked.\<close>

definition dir_get_pointer :: "page_table list \<Rightarrow> page_directory \<Rightarrow> nat \<Rightarrow> nat undef" where
  "dir_get_pointer tabs d addr = (
     let b = dir_psize d; i = addr div 2 ^ table_index_shift b in do {
       guard (i < length (page_tabs d));
       Some (case page_tabs d ! i of
               None \<Rightarrow> 0
             | Some t \<Rightarrow>
                 (case page_info_at (tabs ! t) (addr div 2 ^ page_bits b mod pages_per_table b) of
                    None \<Rightarrow> 0
                  | Some pi \<Rightarrow> if host_addr pi = 0 then 0 else host_addr pi + addr mod 2 ^ page_bits b))
     })"

definition dir_get_page_info :: "page_table list \<Rightarrow> page_directory \<Rightarrow> nat \<Rightarrow> page_info option undef" where
  "dir_get_page_info tabs d addr = (
     let b = dir_psize d; i = addr div 2 ^ table_index_shift b in do {
       guard (i < length (page_tabs d));
       t \<leftarrow> page_tabs d ! i;
       Some (page_info_at (tabs ! t) (addr div 2 ^ page_bits b mod pages_per_table b))
     })"

definition dir_get_page_table :: "page_directory \<Rightarrow> nat \<Rightarrow> nat option undef" where
  "dir_get_page_table d addr = (
     let i = addr div 2 ^ table_index_shift (dir_psize d) in do {
       guard (i < length (page_tabs d));
       Some (page_tabs d ! i)
     })"

text \<open>The vector of tables grows when the offset is behind its end; the test against the offset mask,
  meant for the number of tables, leaves out the last table of 4 KB paging.\<close>

definition set_page_table :: "nat \<Rightarrow> nat option \<Rightarrow> page_directory \<Rightarrow> page_directory" where
  "set_page_table off tab d =
     (if off = no_index then d
      else if off \<ge> offset_mask (dir_psize d) then d
      else let tabs = page_tabs d @ replicate (off + 1 - length (page_tabs d)) None
           in d\<lparr>page_tabs := tabs[off := tab]\<rparr>)"

section \<open>The allocator of page tables\<close>

definition create_new_table :: "nat \<Rightarrow> page_table list \<Rightarrow> nat \<times> page_table list" where
  "create_new_table b tabs =
     (case find_index (\<lambda>t. pt_idx t = no_index) tabs of
        Some i \<Rightarrow> (i, tabs)
      | None \<Rightarrow> (length tabs, tabs @ [new_page_table (length tabs) b]))"

text \<open>The bound is off by one: the id after the last one is read out of bounds.\<close>

definition table_by_id :: "nat \<Rightarrow> page_table list \<Rightarrow> nat option undef" where
  "table_by_id i tabs =
     (if length tabs < i then Some None
      else do { guard (i < length tabs); Some (Some i) })"

definition free_page_table :: "nat \<Rightarrow> page_table list \<Rightarrow> page_table list undef" where
  "free_page_table i tabs =
     (if length tabs < i then Some tabs
      else do { guard (i < length tabs); Some (tabs[i := (tabs ! i)\<lparr>pt_idx := no_index\<rparr>]) })"

section \<open>The memory management unit\<close>

text \<open>\<open>cur_dir\<close> is the number of the current directory: 0 the global one, \<open>i\<close> the one at index \<open>i - 1\<close>, which
  is the address space \<open>i\<close>. \<open>cpu_events\<close> records what the CPU is told.\<close>

datatype cpu_event = Map_cpu nat nat nat | Unmap_cpu nat nat

record mmu =
  psize :: nat
  tables :: "page_table list"
  dirs :: "page_directory list"
  global_dir :: page_directory
  cur_dir :: nat
  mem_map_old :: bool
  cpu_events :: "cpu_event list"

definition new_mmu :: "nat \<Rightarrow> bool \<Rightarrow> mmu" where
  "new_mmu b old = \<lparr>psize = b, tables = [], dirs = [], global_dir = new_page_directory b 0, cur_dir = 0,
     mem_map_old = old, cpu_events = []\<rparr>"

definition rollover_fresh_addr_space :: "mmu \<Rightarrow> int \<times> mmu" where
  "rollover_fresh_addr_space m =
     (case find_index (\<lambda>d. \<not> occupied d) (dirs m) of
        Some i \<Rightarrow> (dir_id (dirs m ! i), m\<lparr>dirs := (dirs m)[i := (dirs m ! i)\<lparr>occupied := True\<rparr>]\<rparr>)
      | None \<Rightarrow>
          if length (dirs m) = 255 then (-1, m)
          else (int (length (dirs m)) + 1,
                m\<lparr>dirs := dirs m @ [(new_page_directory (psize m) (int (length (dirs m)) + 1))\<lparr>occupied := True\<rparr>]\<rparr>))"

text \<open>The size is unsigned, so a negative id is larger than it.\<close>

definition set_current_addr_space :: "int \<Rightarrow> mmu \<Rightarrow> bool \<times> mmu" where
  "set_current_addr_space i m =
     (if i = 0 then (True, m\<lparr>cur_dir := 0\<rparr>)
      else if i < 0 \<or> int (length (dirs m)) < i then (False, m)
      else (True, m\<lparr>cur_dir := nat i\<rparr>))"

definition the_dir :: "nat \<Rightarrow> mmu \<Rightarrow> page_directory" where
  "the_dir i m = (if i = 0 then global_dir m else dirs m ! (i - 1))"

definition upd_dir :: "nat \<Rightarrow> (page_directory \<Rightarrow> page_directory) \<Rightarrow> mmu \<Rightarrow> mmu" where
  "upd_dir i f m = (if i = 0 then m\<lparr>global_dir := f (global_dir m)\<rparr>
     else m\<lparr>dirs := (dirs m)[i - 1 := f (dirs m ! (i - 1))]\<rparr>)"

definition current_addr_space :: "mmu \<Rightarrow> int" where
  "current_addr_space m = dir_id (the_dir (cur_dir m) m)"

datatype assign_to = Assign_local_global | Assign_global | Assign_current | Assign_list "int list"

definition switch_page_table :: "nat option \<Rightarrow> nat \<Rightarrow> nat \<Rightarrow> page_directory \<Rightarrow> page_directory" where
  "switch_page_table tab last_off pde_off d = (
     let d = (if tab \<noteq> None then set_page_table last_off None d else d)
     in set_page_table pde_off tab d)"

text \<open>An address space of the list that is not below 1 is an index out of bounds.\<close>

fun assign_list :: "(page_directory \<Rightarrow> page_directory) \<Rightarrow> int list \<Rightarrow> mmu \<Rightarrow> mmu undef" where
  "assign_list f [] m = Some m"
| "assign_list f (i # is) m =
     (if 0 \<le> i \<and> i \<le> int (length (dirs m)) then do {
        guard (0 < i);
        assign_list f is (upd_dir (nat i) f m)
      }
      else assign_list f is m)"

definition assign_page_table :: "nat option \<Rightarrow> nat \<Rightarrow> assign_to \<Rightarrow> mmu \<Rightarrow> mmu undef" where
  "assign_page_table tab linear_addr target m = (
     let pde_off = linear_addr div 2 ^ table_index_shift (psize m);
         last_off = (case tab of Some t \<Rightarrow> pt_idx (tables m ! t) | None \<Rightarrow> 0);
         m = (case tab of Some t \<Rightarrow> m\<lparr>tables := (tables m)[t := (tables m ! t)\<lparr>pt_idx := pde_off\<rparr>]\<rparr> | None \<Rightarrow> m);
         f = switch_page_table tab last_off pde_off
     in case target of
          Assign_list is \<Rightarrow> assign_list f is m
        | Assign_local_global \<Rightarrow> Some (m\<lparr>global_dir := f (global_dir m), dirs := map f (dirs m)\<rparr>)
        | Assign_global \<Rightarrow> Some (upd_dir 0 f m)
        | Assign_current \<Rightarrow> Some (upd_dir (cur_dir m) f m))"

text \<open>The addresses that are the same in every address space.\<close>

definition shared_address :: "bool \<Rightarrow> nat \<Rightarrow> bool" where
  "shared_address old addr \<longleftrightarrow>
     (old \<and> ((0x10000000 \<le> addr \<and> addr \<le> 0x60000000) \<or> 0xE0000000 \<le> addr)) \<or> 0x40000000 \<le> addr"

definition get_host_pointer :: "int \<Rightarrow> nat \<Rightarrow> mmu \<Rightarrow> nat undef" where
  "get_host_pointer i addr m =
     (if 0 < i \<and> int (length (dirs m)) < i then Some 0
      else if shared_address (mem_map_old m) addr then dir_get_pointer (tables m) (global_dir m) addr
      else if i = -1 then dir_get_pointer (tables m) (the_dir (cur_dir m) m) addr
      else do {
        guard (0 \<le> i);
        dir_get_pointer (tables m) (the_dir (nat i) m) addr
      })"

definition map_to_cpu :: "nat \<Rightarrow> nat \<Rightarrow> nat \<Rightarrow> mmu \<Rightarrow> mmu" where
  "map_to_cpu addr sz ptr m = m\<lparr>cpu_events := cpu_events m @ [Map_cpu addr sz ptr]\<rparr>"

definition unmap_from_cpu :: "nat \<Rightarrow> nat \<Rightarrow> mmu \<Rightarrow> mmu" where
  "unmap_from_cpu addr sz m = m\<lparr>cpu_events := cpu_events m @ [Unmap_cpu addr sz]\<rparr>"

end
