(* ===== verification/Chunk.thy ===== *)
theory Chunk imports Mmu Allocator begin

text \<open>
  The chunks of the multiple memory model (\<open>mem/model/multiple/chunk.cpp\<close>), with what they inherit from
  \<open>mem/chunk.cpp\<close>, and the chunk object of the kernel (\<open>kernel/chunk.cpp\<close>).

  Offsets and addresses are naturals; the code keeps them in 32 bits, and the invariant of a chunk
  keeps its addresses below \<open>2^32\<close>. Committing and reserving host memory is the operating system's
  affair: whether it succeeds is a parameter.
\<close>

section \<open>State\<close>

text \<open>\<open>own_asid\<close> is the address space of the process a chunk belongs to, if any. \<open>filled\<close> records the ranges
  of host memory set to the clear byte.\<close>

record mchunk =
  ch_base :: nat
  host_base :: nat
  own_asid :: "int option"
  committed :: nat
  max_bytes :: nat
  ch_tabs :: "nat option list"
  page_bma :: "u32 list option"
  is_local :: bool
  is_code :: bool
  is_external_host :: bool
  permission :: nat
  bottom :: nat
  top_page :: nat
  filled :: "(nat \<times> nat) list"

definition page_sz :: "mmu \<Rightarrow> nat" where
  "page_sz m = 2 ^ page_bits (psize m)"

definition chunk_sz :: "mmu \<Rightarrow> nat" where
  "chunk_sz m = 2 ^ table_index_shift (psize m)"

text \<open>The CPU is told of a change only if the chunk is global or its process's address space is the
  current one.\<close>

definition tells_cpu :: "mchunk \<Rightarrow> mmu \<Rightarrow> bool" where
  "tells_cpu c m \<longleftrightarrow> (case own_asid c of None \<Rightarrow> True | Some i \<Rightarrow> i = current_addr_space m)"

text \<open>Marking pages as taken or free in the bitmap of a disconnected chunk.\<close>

definition mark_bma :: "nat \<Rightarrow> nat \<Rightarrow> bool \<Rightarrow> mchunk \<Rightarrow> u32 list option undef" where
  "mark_bma p n om c = (case page_bma c of
     None \<Rightarrow> Some None
   | Some ws \<Rightarrow> map_option (\<lambda>r. Some (snd r)) (force_fill p (int n) om ws))"

section \<open>Committing\<close>

text \<open>The pages just mapped that the CPU has not been told of: their size, the address of the first one
  and its host address.\<close>

record page_run =
  run_size :: nat
  run_start :: nat
  run_host :: nat

definition no_run :: page_run where
  "no_run = \<lparr>run_size = 0, run_start = 0, run_host = 0\<rparr>"

definition flush_mapped :: "page_run \<Rightarrow> mchunk \<times> mmu \<Rightarrow> page_run \<times> mchunk \<times> mmu" where
  "flush_mapped r s = (case s of (c, m) \<Rightarrow>
     if run_size r \<noteq> 0 \<and> tells_cpu c m
     then (no_run, if is_external_host c then c else c\<lparr>filled := filled c @ [(run_host r, run_size r)]\<rparr>,
           map_to_cpu (run_start r) (run_size r) (run_host r) m)
     else (r, c, m))"

fun commit_pages :: "nat list \<Rightarrow> nat \<Rightarrow> nat \<Rightarrow> page_run \<Rightarrow> mchunk \<times> mmu \<Rightarrow> page_run \<times> mchunk \<times> mmu" where
  "commit_pages [] pt_base t r s = (r, s)"
| "commit_pages (poff # ps) pt_base t r (c, m) =
     (if host_addr (pages (tables m ! t) ! poff) = 0
      then let host = host_base c + poff * page_sz m + pt_base;
               pt = tables m ! t;
               pt = pt\<lparr>pages := (pages pt)[poff := \<lparr>host_addr = host, perm = permission c\<rparr>]\<rparr>;
               c' = c\<lparr>committed := committed c + page_sz m\<rparr>;
               r = r\<lparr>run_size := run_size r + page_sz m\<rparr>;
               r = (if run_start r = 0
                    then r\<lparr>run_start := poff * page_sz m + ch_base c + pt_base, run_host := host\<rparr> else r)
           in commit_pages ps pt_base t r (c', m\<lparr>tables := (tables m)[t := pt]\<rparr>)
      else let (r, s) = flush_mapped r (c, m) in commit_pages ps pt_base t r s)"

text \<open>One iteration of the loop over page tables, for \<open>page_num\<close> pages from \<open>running\<close> on; \<^const>\<open>None\<close> as
  the second result when the host refuses the memory. The table vector is indexed unchecked.\<close>

definition commit_table :: "(nat \<Rightarrow> nat \<Rightarrow> bool) \<Rightarrow> nat \<Rightarrow> nat \<Rightarrow> mchunk \<times> mmu \<Rightarrow> (bool \<times> mchunk \<times> mmu) undef" where
  "commit_table os_commit running page_num s = (case s of (c, m) \<Rightarrow>
     let i = running div chunk_sz m in do {
       guard (i < length (ch_tabs c));
       (t, m) \<leftarrow> (case ch_tabs c ! i of
                    None \<Rightarrow> (let (t, ts) = create_new_table (psize m) (tables m) in Some (t, m\<lparr>tables := ts\<rparr>))
                  | Some ptid \<Rightarrow> do {
                      t \<leftarrow> table_by_id ptid (tables m);
                      t \<leftarrow> t;
                      Some (t, m)
                    });
       let ps_off = running div page_sz m mod pages_per_table (psize m);
       let pt_base = i * chunk_sz m;
       if \<not> is_external_host c \<and> \<not> os_commit (host_base c + ps_off * page_sz m + pt_base) (page_num * page_sz m)
       then Some (False, c, m)
       else do {
         let (r, c, m) = commit_pages [ps_off..<ps_off + page_num] pt_base t no_run (c, m);
         let (_, c, m) = flush_mapped r (c, m);
         (c, m) \<leftarrow> (if ch_tabs c ! i = None then do {
                      target \<leftarrow> (if is_local c then map_option (\<lambda>a. Assign_list [a]) (own_asid c)
                                else Some Assign_local_global);
                      m \<leftarrow> assign_page_table (Some t) (ch_base c + pt_base) target m;
                      Some (c\<lparr>ch_tabs := (ch_tabs c)[i := Some (pt_id (tables m ! t))]\<rparr>, m)
                    } else Some (c, m));
         bma \<leftarrow> mark_bma (running div page_sz m) page_num False c;
         Some (True, c\<lparr>page_bma := bma\<rparr>, m)
       }
     })"

text \<open>The loop of \<open>commit\<close>. Less than a page before the end it does not advance; \<^const>\<open>None\<close> is also the result
  of running out of fuel.\<close>

fun commit_loop :: "(nat \<Rightarrow> nat \<Rightarrow> bool) \<Rightarrow> nat \<Rightarrow> nat \<Rightarrow> nat \<Rightarrow> mchunk \<times> mmu \<Rightarrow> (nat \<times> mchunk \<times> mmu) undef" where
  "commit_loop os_commit 0 running end_offset s = None"
| "commit_loop os_commit (Suc fuel) running end_offset (c, m) =
     (if running < end_offset then do {
        let page_num = min ((end_offset - running) div page_sz m) ((chunk_sz m - running mod chunk_sz m) div page_sz m);
        (ok, c, m) \<leftarrow> commit_table os_commit running page_num (c, m);
        if ok then commit_loop os_commit fuel (running + page_num * page_sz m) end_offset (c, m)
        else Some (running, c, m)
      }
      else Some (running, c, m))"

definition commit :: "(nat \<Rightarrow> nat \<Rightarrow> bool) \<Rightarrow> nat \<Rightarrow> nat \<Rightarrow> nat \<Rightarrow> mchunk \<times> mmu \<Rightarrow> (nat \<times> mchunk \<times> mmu) undef" where
  "commit os_commit fuel off sz s = do {
     (running, s) \<leftarrow> commit_loop os_commit fuel off (min (max_bytes (fst s)) (off + sz)) s;
     Some (running - off, s)
   }"

section \<open>Decommitting\<close>

definition flush_unmapped :: "page_run \<Rightarrow> mchunk \<times> mmu \<Rightarrow> page_run \<times> mchunk \<times> mmu" where
  "flush_unmapped r s = (case s of (c, m) \<Rightarrow>
     if run_size r \<noteq> 0 \<and> tells_cpu c m then (no_run, c, unmap_from_cpu (run_start r) (run_size r) m)
     else (r, c, m))"

fun decommit_pages :: "nat list \<Rightarrow> nat \<Rightarrow> nat \<Rightarrow> page_run \<Rightarrow> mchunk \<times> mmu \<Rightarrow> page_run \<times> mchunk \<times> mmu" where
  "decommit_pages [] pt_base t r s = (r, s)"
| "decommit_pages (poff # ps) pt_base t r (c, m) =
     (if host_addr (pages (tables m ! t) ! poff) \<noteq> 0
      then let pt = tables m ! t;
               pt = pt\<lparr>pages := (pages pt)[poff := (pages pt ! poff)\<lparr>host_addr := 0\<rparr>]\<rparr>;
               c' = c\<lparr>committed := committed c - page_sz m\<rparr>;
               r = r\<lparr>run_size := run_size r + page_sz m\<rparr>;
               r = (if run_start r = 0 then r\<lparr>run_start := poff * page_sz m + ch_base c + pt_base\<rparr> else r)
           in decommit_pages ps pt_base t r (c', m\<lparr>tables := (tables m)[t := pt]\<rparr>)
      else let (r, s) = flush_unmapped r (c, m) in decommit_pages ps pt_base t r s)"

text \<open>That the host cannot give the memory back is only logged.\<close>

definition decommit_table :: "nat \<Rightarrow> nat \<Rightarrow> mchunk \<times> mmu \<Rightarrow> (mchunk \<times> mmu) undef" where
  "decommit_table running page_num s = (case s of (c, m) \<Rightarrow>
     let i = running div chunk_sz m in do {
       guard (i < length (ch_tabs c));
       case ch_tabs c ! i of
         None \<Rightarrow> Some (c, m)
       | Some ptid \<Rightarrow> do {
           t \<leftarrow> table_by_id ptid (tables m);
           t \<leftarrow> t;
           let ps_off = running div page_sz m mod pages_per_table (psize m);
           let (r, c, m) = decommit_pages [ps_off..<ps_off + page_num] (i * chunk_sz m) t no_run (c, m);
           let (_, c, m) = flush_unmapped r (c, m);
           bma \<leftarrow> mark_bma (running div page_sz m) page_num True c;
           Some (c\<lparr>page_bma := bma\<rparr>, m)
         }
     })"

fun decommit_loop :: "nat \<Rightarrow> nat \<Rightarrow> nat \<Rightarrow> mchunk \<times> mmu \<Rightarrow> (mchunk \<times> mmu) undef" where
  "decommit_loop 0 running end_offset s = None"
| "decommit_loop (Suc fuel) running end_offset (c, m) =
     (if running < end_offset then do {
        let page_num = min ((end_offset - running) div page_sz m) ((chunk_sz m - running mod chunk_sz m) div page_sz m);
        s \<leftarrow> decommit_table running page_num (c, m);
        decommit_loop fuel (running + page_num * page_sz m) end_offset s
      }
      else Some (c, m))"

definition decommit :: "nat \<Rightarrow> nat \<Rightarrow> nat \<Rightarrow> mchunk \<times> mmu \<Rightarrow> (mchunk \<times> mmu) undef" where
  "decommit fuel off sz s = decommit_loop fuel off (min (off + max_bytes (fst s)) (off + sz)) s"

section \<open>Allocating and adjusting\<close>

definition chunk_allocate :: "(nat \<Rightarrow> nat \<Rightarrow> bool) \<Rightarrow> nat \<Rightarrow> nat \<Rightarrow> mchunk \<times> mmu \<Rightarrow> (bool \<times> mchunk \<times> mmu) undef" where
  "chunk_allocate os_commit fuel sz s = (case s of (c, m) \<Rightarrow>
     case page_bma c of
       None \<Rightarrow> Some (False, c, m)
     | Some ws \<Rightarrow>
         let num_pages = (sz + page_sz m - 1) div page_sz m in do {
           (off, _, ws) \<leftarrow> allocate_from 0 num_pages True ws;
           let c = c\<lparr>page_bma := Some ws\<rparr>;
           if off = -1 then Some (False, c, m)
           else do {
             (n, s) \<leftarrow> commit os_commit fuel (nat off * page_sz m) (num_pages * page_sz m) (c, m);
             Some (n \<noteq> 0, s)
           }
         })"

definition no_bottom :: nat where
  "no_bottom = 0xFFFFFFFF"

definition adjust :: "(nat \<Rightarrow> nat \<Rightarrow> bool) \<Rightarrow> nat \<Rightarrow> nat \<Rightarrow> nat \<Rightarrow> mchunk \<times> mmu \<Rightarrow> (bool \<times> mchunk \<times> mmu) undef" where
  "adjust os_commit fuel lo hi s = (case s of (c, m) \<Rightarrow>
     let S = page_sz m;
         top_page_off = (hi + S - 1) div S;
         bottom_page_off = lo div S in do {
       (c, m) \<leftarrow> (if top_page_off < top_page c then decommit fuel (top_page_off * S) ((top_page c - top_page_off) * S) (c, m)
                  else if top_page_off > top_page c
                  then map_option snd (commit os_commit fuel (top_page c * S) ((top_page_off - top_page c) * S) (c, m))
                  else Some (c, m));
       let c = c\<lparr>top_page := top_page_off\<rparr>;
       if lo \<noteq> no_bottom then do {
         (c, m) \<leftarrow> (if bottom_page_off > bottom c
                    then decommit fuel (bottom c * S) ((bottom_page_off - bottom c) * S) (c, m)
                    else if bottom_page_off < bottom c
                    then map_option snd (commit os_commit fuel (bottom_page_off * S) ((bottom c - bottom_page_off) * S) (c, m))
                    else Some (c, m));
         Some (True, c\<lparr>bottom := bottom_page_off\<rparr>, m)
       }
       else Some (True, c, m)
     })"

end
