(* ===== verification/Chunk_Rep.thy ===== *)
theory Chunk_Rep imports Chunk begin

text \<open>
  What the tables of the memory management unit, the bitmap and the counters of a chunk say about it: a local
  chunk represents a set of committed pages. Committing, decommitting and adjusting change the set
  as they should, and addresses are translated accordingly.
\<close>

section \<open>What a chunk represents\<close>

abbreviation npages :: "mmu \<Rightarrow> nat" where
  "npages m \<equiv> pages_per_table (psize m)"

lemma geometry: "chunk_sz m = npages m * page_sz m" "0 < page_sz m" "0 < npages m" "0 < chunk_sz m"
  by (simp_all add: chunk_sz_def page_sz_def table_index_shift_def pages_per_table_def page_bits_def)

lemma geometry_page: "p * page_sz m div chunk_sz m = p div npages m" "p * page_sz m mod chunk_sz m = p mod npages m * page_sz m"
  "p * page_sz m div page_sz m = p"
proof -
  have S: "page_sz m \<noteq> 0" using geometry(2) [of m] by simp
  show "p * page_sz m div chunk_sz m = p div npages m" unfolding geometry(1) by (rule div_mult_mult2 [OF S])
  show "p * page_sz m mod chunk_sz m = p mod npages m * page_sz m" unfolding geometry(1) by (simp only: mult_mod_left)
  show "p * page_sz m div page_sz m = p" using S by simp
qed

definition tables_ok :: "mmu \<Rightarrow> bool" where
  "tables_ok m \<longleftrightarrow> (\<forall>t < length (tables m). pt_id (tables m ! t) = t \<and> length (pages (tables m ! t)) = npages m
     \<and> (pt_idx (tables m ! t) = no_index \<longrightarrow> (\<forall>k < npages m. host_addr (pages (tables m ! t) ! k) = 0)))"

text \<open>A local chunk of the address space \<open>a\<close> with the set \<open>P\<close> of its pages committed: the directory
  leads to the tables of the chunk, their entries to the host memory of exactly these pages, and the
  bitmap, if there is one, has exactly these pages taken.\<close>

definition dir_of :: "nat \<Rightarrow> mmu \<Rightarrow> page_directory" where
  "dir_of a m = dirs m ! (a - 1)"

definition table_rep :: "mchunk \<Rightarrow> mmu \<Rightarrow> nat set \<Rightarrow> nat \<Rightarrow> nat \<Rightarrow> bool" where
  "table_rep c m P i t \<longleftrightarrow> t < length (tables m) \<and> pt_idx (tables m ! t) \<noteq> no_index
     \<and> (\<forall>k < npages m. host_addr (pages (tables m ! t) ! k)
          = (if i * npages m + k \<in> P then host_base c + (i * npages m + k) * page_sz m else 0))"

definition chunk_shape :: "nat \<Rightarrow> mchunk \<Rightarrow> mmu \<Rightarrow> bool" where
  "chunk_shape a c m \<longleftrightarrow> own_asid c = Some (int a) \<and> is_local c \<and> 1 \<le> a \<and> a \<le> length (dirs m)
     \<and> dir_psize (dir_of a m) = psize m \<and> length (page_tabs (dir_of a m)) = tables_per_dir (psize m)
     \<and> ch_base c mod chunk_sz m = 0 \<and> max_bytes c mod page_sz m = 0
     \<and> (\<forall>x < max_bytes c. \<not> shared_address (mem_map_old m) (ch_base c + x))
     \<and> host_base c \<noteq> 0 \<and> max_bytes c \<le> length (ch_tabs c) * chunk_sz m \<and> tables_ok m"

definition chunk_rep :: "nat \<Rightarrow> mchunk \<Rightarrow> mmu \<Rightarrow> nat set \<Rightarrow> bool" where
  "chunk_rep a c m P \<longleftrightarrow> chunk_shape a c m
     \<and> (\<forall>i < length (ch_tabs c). case ch_tabs c ! i of
          None \<Rightarrow> (\<forall>p \<in> P. p div npages m \<noteq> i)
            \<and> (i * chunk_sz m < max_bytes c \<longrightarrow> page_tabs (dir_of a m) ! (ch_base c div chunk_sz m + i) = None)
        | Some t \<Rightarrow> table_rep c m P i t \<and> page_tabs (dir_of a m) ! (ch_base c div chunk_sz m + i) = Some t)
     \<and> (\<forall>i < length (ch_tabs c). \<forall>j < length (ch_tabs c). i \<noteq> j \<longrightarrow> ch_tabs c ! i \<noteq> None \<longrightarrow> ch_tabs c ! i \<noteq> ch_tabs c ! j)
     \<and> (\<forall>p \<in> P. p * page_sz m < max_bytes c) \<and> committed c = card P * page_sz m
     \<and> (\<forall>ws. page_bma c = Some ws \<longrightarrow> max_bytes c div page_sz m \<le> 32 * length ws
          \<and> (\<forall>p < max_bytes c div page_sz m. cell_free ws p \<longleftrightarrow> p \<notin> P))"

section \<open>Translation\<close>

text \<open>The address of a byte of the chunk leads to its byte of host memory, if its page is committed, and
  to nothing otherwise.\<close>

lemma chunk_tab_index:
  assumes "chunk_shape a c m" and "x < max_bytes c"
  shows "x div chunk_sz m < length (ch_tabs c)"
    "ch_base c div chunk_sz m + x div chunk_sz m < tables_per_dir (psize m)"
    "ch_base c div chunk_sz m + x div chunk_sz m < offset_mask (psize m)"
    "ch_base c div chunk_sz m + x div chunk_sz m = (ch_base c + x) div chunk_sz m"
    "ch_base c div chunk_sz m + x div chunk_sz m \<noteq> no_index"
proof -
  have s: "\<not> shared_address (mem_map_old m) (ch_base c + x)" "max_bytes c \<le> length (ch_tabs c) * chunk_sz m"
    "ch_base c mod chunk_sz m = 0" using assms by (auto simp: chunk_shape_def)
  show "x div chunk_sz m < length (ch_tabs c)"
    using assms(2) s(2) geometry(4) [of m] by (simp add: div_less_iff_less_mult)
  have d: "chunk_sz m dvd ch_base c" using s(3) by auto
  then show e: "ch_base c div chunk_sz m + x div chunk_sz m = (ch_base c + x) div chunk_sz m"
    by (simp add: div_plus_div_distrib_dvd_left)
  have "ch_base c + x < 0x40000000" using s(1) by (auto simp: shared_address_def)
  then have lim: "(ch_base c + x) div chunk_sz m < (if psize m = 20 then 16 else 1024)"
    by (auto simp: div_less_iff_less_mult chunk_sz_def table_index_shift_def)
  then show "ch_base c div chunk_sz m + x div chunk_sz m < tables_per_dir (psize m)"
    "ch_base c div chunk_sz m + x div chunk_sz m < offset_mask (psize m)"
    "ch_base c div chunk_sz m + x div chunk_sz m \<noteq> no_index"
    unfolding e by (auto simp: tables_per_dir_def offset_mask_def page_bits_def no_index_def split: if_splits)
qed

lemma chunk_translation:
  assumes "chunk_rep a c m P" and "x < max_bytes c"
  shows "get_host_pointer (int a) (ch_base c + x) m
    = Some (if x div page_sz m \<in> P then host_base c + x else 0)"
proof -
  have sh: "chunk_shape a c m" using assms(1) by (simp add: chunk_rep_def)
  note ix = chunk_tab_index [OF sh assms(2)]
  let ?i = "x div chunk_sz m" and ?S = "page_sz m" and ?N = "npages m"
  let ?d = "ch_base c div chunk_sz m"
  have g: "get_host_pointer (int a) (ch_base c + x) m = dir_get_pointer (tables m) (dir_of a m) (ch_base c + x)"
    using sh assms(2) by (auto simp: get_host_pointer_def chunk_shape_def the_dir_def dir_of_def)
  have b: "dir_psize (dir_of a m) = psize m" "length (page_tabs (dir_of a m)) = tables_per_dir (psize m)"
    using sh by (simp_all add: chunk_shape_def)
  have dc: "chunk_sz m dvd ch_base c" using sh by (auto simp: chunk_shape_def)
  then obtain q where q: "ch_base c = ?N * ?S * q" using geometry(1) [of m] by (auto simp: dvd_def)
  have pidx: "(ch_base c + x) div ?S mod ?N = x div ?S mod ?N"
  proof -
    have "(ch_base c + x) div ?S = ?N * q + x div ?S"
      using geometry(2) [of m] by (simp add: q mult.assoc mult.left_commute [of _ ?S])
    then show ?thesis by simp
  qed
  have off: "(ch_base c + x) mod ?S = x mod ?S" by (simp add: q mult.assoc mult.left_commute [of _ ?S])
  have split: "?i * ?N + x div ?S mod ?N = x div ?S"
  proof -
    have "?i = x div ?S div ?N" by (simp add: geometry(1) div_mult2_eq mult.commute [of ?N])
    then show ?thesis by simp
  qed
  have k: "x div ?S mod ?N < ?N" using geometry(3) [of m] by simp
  have p2: "2 ^ page_bits (psize m) = ?S" "2 ^ table_index_shift (psize m) = chunk_sz m"
    by (simp_all add: page_sz_def chunk_sz_def)
  show ?thesis
  proof (cases "ch_tabs c ! ?i")
    case None
    have "?i * chunk_sz m \<le> x" by simp
    then have "?i * chunk_sz m < max_bytes c" using assms(2) by (rule le_less_trans)
    then have n: "page_tabs (dir_of a m) ! (?d + ?i) = None" "\<forall>p \<in> P. p div ?N \<noteq> ?i"
      using assms(1) ix(1) None by (auto simp: chunk_rep_def split: option.splits)
    have "x div ?S div ?N = ?i" by (simp add: geometry(1) div_mult2_eq mult.commute [of ?N])
    then have "x div ?S \<notin> P" using n(2) by blast
    then show ?thesis using n(1) ix(2,4) by (simp add: g dir_get_pointer_def b p2)
  next
    case (Some t)
    then have t: "table_rep c m P ?i t" "page_tabs (dir_of a m) ! (?d + ?i) = Some t"
      using assms(1) ix(1) by (auto simp: chunk_rep_def split: option.splits)
    have "length (pages (tables m ! t)) = ?N" using sh t(1) by (auto simp: chunk_shape_def tables_ok_def table_rep_def)
    then have "dir_get_pointer (tables m) (dir_of a m) (ch_base c + x)
      = Some (if x div ?S \<in> P then host_base c + x div ?S * ?S + x mod ?S else 0)"
      using t ix k sh by (simp add: dir_get_pointer_def b p2 page_info_at_def pidx off table_rep_def split chunk_shape_def)
    then show ?thesis using g by simp
  qed
qed

section \<open>Committing pages\<close>

lemma flush_mapped_eq:
  "\<exists>r' fl ev. flush_mapped r (c, m) = (r', c\<lparr>filled := fl\<rparr>, m\<lparr>cpu_events := ev\<rparr>)"
proof (cases "run_size r \<noteq> 0 \<and> tells_cpu c m")
  case True
  then show ?thesis by (cases "is_external_host c") (auto simp: flush_mapped_def map_to_cpu_def intro: exI [of _ "filled c"])
next
  case False
  then have "flush_mapped r (c, m) = (r, c, m)" by (simp only: flush_mapped_def prod.case if_False)
  then show ?thesis by (intro exI [of _ r] exI [of _ "filled c"] exI [of _ "cpu_events m"]) simp
qed

lemma flush_unmapped_eq:
  "\<exists>r' ev. flush_unmapped r (c, m) = (r', c, m\<lparr>cpu_events := ev\<rparr>)"
proof (cases "run_size r \<noteq> 0 \<and> tells_cpu c m")
  case True
  then show ?thesis by (auto simp: flush_unmapped_def unmap_from_cpu_def)
next
  case False
  then have "flush_unmapped r (c, m) = (r, c, m)" by (simp only: flush_unmapped_def prod.case if_False)
  then show ?thesis by (intro exI [of _ r] exI [of _ "cpu_events m"]) simp
qed

text \<open>The entries of a table after the pages \<open>ps\<close> have been committed, and how many of them were not.\<close>

definition set_pages :: "mchunk \<Rightarrow> nat \<Rightarrow> nat \<Rightarrow> nat set \<Rightarrow> page_info list \<Rightarrow> page_info list \<Rightarrow> bool" where
  "set_pages c S pt_base ps pgs pgs' \<longleftrightarrow> length pgs' = length pgs \<and> (\<forall>k < length pgs. host_addr (pgs' ! k)
     = (if k \<in> ps \<and> host_addr (pgs ! k) = 0 then host_base c + k * S + pt_base else host_addr (pgs ! k)))"

definition fresh_in :: "nat set \<Rightarrow> page_info list \<Rightarrow> nat set" where
  "fresh_in ps pgs = {k \<in> ps. host_addr (pgs ! k) = 0}"

lemma commit_pages_spec:
  assumes "distinct ps" and "\<forall>k \<in> set ps. k < length (pages (tables m ! t))" and "t < length (tables m)"
    and "host_base c \<noteq> 0"
  shows "\<exists>r' pgs' fl ev. commit_pages ps pt_base t r (c, m) =
      (r', c\<lparr>committed := committed c + card (fresh_in (set ps) (pages (tables m ! t))) * page_sz m, filled := fl\<rparr>,
       m\<lparr>tables := (tables m)[t := (tables m ! t)\<lparr>pages := pgs'\<rparr>], cpu_events := ev\<rparr>)
    \<and> set_pages c (page_sz m) pt_base (set ps) (pages (tables m ! t)) pgs'"
  using assms
proof (induction ps arbitrary: r c m)
  case Nil
  have "c\<lparr>committed := committed c, filled := filled c\<rparr> = c"
    "m\<lparr>tables := (tables m)[t := (tables m ! t)\<lparr>pages := pages (tables m ! t)\<rparr>], cpu_events := cpu_events m\<rparr> = m" by simp_all
  then show ?case
    by (intro exI [of _ r] exI [of _ "pages (tables m ! t)"] exI [of _ "filled c"] exI [of _ "cpu_events m"])
      (simp add: fresh_in_def set_pages_def)
next
  case (Cons k ps)
  let ?pgs = "pages (tables m ! t)" and ?S = "page_sz m"
  have k: "k < length ?pgs" "k \<notin> set ps" "distinct ps" using Cons.prems by simp_all
  show ?case
  proof (cases "host_addr (?pgs ! k) = 0")
    case True
    let ?host = "host_base c + k * ?S + pt_base"
    define pgs1 where "pgs1 = ?pgs[k := \<lparr>host_addr = ?host, perm = permission c\<rparr>]"
    define m1 where "m1 = m\<lparr>tables := (tables m)[t := (tables m ! t)\<lparr>pages := pgs1\<rparr>]\<rparr>"
    define c1 where "c1 = c\<lparr>committed := committed c + ?S\<rparr>"
    obtain r1 where step: "commit_pages (k # ps) pt_base t r (c, m) = commit_pages ps pt_base t r1 (c1, m1)"
      using True by (simp add: m1_def c1_def pgs1_def Let_def)
    have m1: "pages (tables m1 ! t) = pgs1" "t < length (tables m1)" "page_sz m1 = ?S" "tables m1 = (tables m)[t := (tables m ! t)\<lparr>pages := pgs1\<rparr>]"
      using Cons.prems(3) by (simp_all add: m1_def page_sz_def)
    obtain r' pgs' fl ev where ih: "commit_pages ps pt_base t r1 (c1, m1) =
      (r', c1\<lparr>committed := committed c1 + card (fresh_in (set ps) pgs1) * ?S, filled := fl\<rparr>,
       m1\<lparr>tables := (tables m1)[t := (tables m1 ! t)\<lparr>pages := pgs'\<rparr>], cpu_events := ev\<rparr>)"
      "set_pages c1 ?S pt_base (set ps) pgs1 pgs'"
      using Cons.IH [of m1 c1 r1] Cons.prems m1 by (auto simp: c1_def pgs1_def)
    have other: "pgs1 ! x = ?pgs ! x" if "x \<in> set ps" for x using that k(2) by (cases "x = k") (simp_all add: pgs1_def)
    then have f1: "fresh_in (set ps) pgs1 = fresh_in (set ps) ?pgs" by (auto simp: fresh_in_def)
    have f2: "fresh_in (insert k (set ps)) ?pgs = insert k (fresh_in (set ps) ?pgs)" using True by (auto simp: fresh_in_def)
    have "finite (fresh_in (set ps) ?pgs)" "k \<notin> fresh_in (set ps) ?pgs" using k(2) by (auto simp: fresh_in_def)
    then have f: "card (fresh_in (insert k (set ps)) ?pgs) = Suc (card (fresh_in (set ps) pgs1))" by (simp add: f1 f2)
    have "set_pages c ?S pt_base (set (k # ps)) ?pgs pgs'"
      using ih(2) k True Cons.prems(4) by (auto simp: set_pages_def pgs1_def c1_def nth_list_update)
    then show ?thesis using ih(1) Cons.prems(3)
      by (intro exI [of _ r'] exI [of _ pgs'] exI [of _ fl] exI [of _ ev])
        (simp only: step, simp add: f c1_def m1_def algebra_simps)
  next
    case False
    obtain r1 fl ev where fm: "flush_mapped r (c, m) = (r1, c\<lparr>filled := fl\<rparr>, m\<lparr>cpu_events := ev\<rparr>)" using flush_mapped_eq by blast
    define c1 where "c1 = c\<lparr>filled := fl\<rparr>"
    define m1 where "m1 = m\<lparr>cpu_events := ev\<rparr>"
    have step: "commit_pages (k # ps) pt_base t r (c, m) = commit_pages ps pt_base t r1 (c1, m1)"
      using False fm by (simp add: c1_def m1_def)
    have m1: "tables m1 = tables m" "page_sz m1 = ?S" by (simp_all add: m1_def page_sz_def)
    obtain r' pgs' fl' ev' where ih: "commit_pages ps pt_base t r1 (c1, m1) =
      (r', c1\<lparr>committed := committed c1 + card (fresh_in (set ps) ?pgs) * ?S, filled := fl'\<rparr>,
       m1\<lparr>tables := (tables m)[t := (tables m ! t)\<lparr>pages := pgs'\<rparr>], cpu_events := ev'\<rparr>)"
      "set_pages c1 ?S pt_base (set ps) ?pgs pgs'"
      using Cons.IH [of m1 c1 r1] Cons.prems m1 by (auto simp: c1_def)
    have f: "fresh_in (insert k (set ps)) ?pgs = fresh_in (set ps) ?pgs" using False by (auto simp: fresh_in_def)
    have "set_pages c ?S pt_base (set (k # ps)) ?pgs pgs'"
      using ih(2) False by (auto simp: set_pages_def c1_def)
    then show ?thesis using ih(1)
      by (intro exI [of _ r'] exI [of _ pgs'] exI [of _ fl'] exI [of _ ev'])
        (simp only: step, simp add: f c1_def m1_def)
  qed
qed

lemma decommit_pages_spec:
  assumes "distinct ps" and "\<forall>k \<in> set ps. k < length (pages (tables m ! t))" and "t < length (tables m)"
  shows "\<exists>r' pgs' ev. decommit_pages ps pt_base t r (c, m) =
      (r', c\<lparr>committed := committed c - card (set ps - fresh_in (set ps) (pages (tables m ! t))) * page_sz m\<rparr>,
       m\<lparr>tables := (tables m)[t := (tables m ! t)\<lparr>pages := pgs'\<rparr>], cpu_events := ev\<rparr>)
    \<and> length pgs' = length (pages (tables m ! t))
    \<and> (\<forall>k < length (pages (tables m ! t)). host_addr (pgs' ! k)
        = (if k \<in> set ps then 0 else host_addr (pages (tables m ! t) ! k)))"
  using assms
proof (induction ps arbitrary: r c m)
  case Nil
  have "c\<lparr>committed := committed c\<rparr> = c"
    "m\<lparr>tables := (tables m)[t := (tables m ! t)\<lparr>pages := pages (tables m ! t)\<rparr>], cpu_events := cpu_events m\<rparr> = m" by simp_all
  then show ?case
    by (intro exI [of _ r] exI [of _ "pages (tables m ! t)"] exI [of _ "cpu_events m"]) (simp add: fresh_in_def)
next
  case (Cons k ps)
  let ?pgs = "pages (tables m ! t)" and ?S = "page_sz m"
  have k: "k < length ?pgs" "k \<notin> set ps" "distinct ps" using Cons.prems by simp_all
  show ?case
  proof (cases "host_addr (?pgs ! k) = 0")
    case False
    define pgs1 where "pgs1 = ?pgs[k := (?pgs ! k)\<lparr>host_addr := 0\<rparr>]"
    define m1 where "m1 = m\<lparr>tables := (tables m)[t := (tables m ! t)\<lparr>pages := pgs1\<rparr>]\<rparr>"
    define c1 where "c1 = c\<lparr>committed := committed c - ?S\<rparr>"
    obtain r1 where step: "decommit_pages (k # ps) pt_base t r (c, m) = decommit_pages ps pt_base t r1 (c1, m1)"
      using False by (simp add: m1_def c1_def pgs1_def Let_def)
    have m1: "pages (tables m1 ! t) = pgs1" "t < length (tables m1)" "page_sz m1 = ?S" "tables m1 = (tables m)[t := (tables m ! t)\<lparr>pages := pgs1\<rparr>]"
      using Cons.prems(3) by (simp_all add: m1_def page_sz_def)
    obtain r' pgs' ev where ih: "decommit_pages ps pt_base t r1 (c1, m1) =
      (r', c1\<lparr>committed := committed c1 - card (set ps - fresh_in (set ps) pgs1) * ?S\<rparr>,
       m1\<lparr>tables := (tables m1)[t := (tables m1 ! t)\<lparr>pages := pgs'\<rparr>], cpu_events := ev\<rparr>)"
      "length pgs' = length pgs1" "\<forall>j < length pgs1. host_addr (pgs' ! j) = (if j \<in> set ps then 0 else host_addr (pgs1 ! j))"
      using Cons.IH [of m1 r1 c1] Cons.prems m1 by (auto simp: pgs1_def)
    have other: "pgs1 ! x = ?pgs ! x" if "x \<in> set ps" for x using that k(2) by (cases "x = k") (simp_all add: pgs1_def)
    then have f1: "set ps - fresh_in (set ps) pgs1 = set ps - fresh_in (set ps) ?pgs" by (auto simp: fresh_in_def)
    have f2: "insert k (set ps) - fresh_in (insert k (set ps)) ?pgs = insert k (set ps - fresh_in (set ps) ?pgs)" using False by (auto simp: fresh_in_def)
    have f: "card (insert k (set ps) - fresh_in (insert k (set ps)) ?pgs) = Suc (card (set ps - fresh_in (set ps) pgs1))"
      unfolding f1 f2 using k(2) by (subst card_insert_disjoint) auto
    have "\<forall>j < length ?pgs. host_addr (pgs' ! j) = (if j \<in> set (k # ps) then 0 else host_addr (?pgs ! j))"
      using ih(2,3) k by (auto simp: pgs1_def nth_list_update)
    moreover have "length pgs' = length ?pgs" using ih(2) by (simp add: pgs1_def)
    ultimately show ?thesis using ih(1) Cons.prems(3)
      by (intro exI [of _ r'] exI [of _ pgs'] exI [of _ ev])
        (simp only: step, simp add: f c1_def m1_def)
  next
    case True
    obtain r1 ev where fm: "flush_unmapped r (c, m) = (r1, c, m\<lparr>cpu_events := ev\<rparr>)" using flush_unmapped_eq by blast
    define m1 where "m1 = m\<lparr>cpu_events := ev\<rparr>"
    have step: "decommit_pages (k # ps) pt_base t r (c, m) = decommit_pages ps pt_base t r1 (c, m1)"
      using True fm by (simp add: m1_def)
    have m1: "tables m1 = tables m" "page_sz m1 = ?S" by (simp_all add: m1_def page_sz_def)
    obtain r' pgs' ev' where ih: "decommit_pages ps pt_base t r1 (c, m1) =
      (r', c\<lparr>committed := committed c - card (set ps - fresh_in (set ps) ?pgs) * ?S\<rparr>,
       m1\<lparr>tables := (tables m)[t := (tables m ! t)\<lparr>pages := pgs'\<rparr>], cpu_events := ev'\<rparr>)"
      "length pgs' = length ?pgs" "\<forall>j < length ?pgs. host_addr (pgs' ! j) = (if j \<in> set ps then 0 else host_addr (?pgs ! j))"
      using Cons.IH [of m1 r1 c] Cons.prems m1 by auto
    have f: "insert k (set ps) - fresh_in (insert k (set ps)) ?pgs = set ps - fresh_in (set ps) ?pgs"
      using True k(2) by (auto simp: fresh_in_def)
    have "\<forall>j < length ?pgs. host_addr (pgs' ! j) = (if j \<in> set (k # ps) then 0 else host_addr (?pgs ! j))"
      using ih(3) True by auto
    then show ?thesis using ih(1,2)
      by (intro exI [of _ r'] exI [of _ pgs'] exI [of _ ev'])
        (simp only: step, simp add: f m1_def)
  qed
qed

lemma chunk_rep_step:
  assumes rep: "chunk_rep a c m P" and i: "i < length (ch_tabs c)" "i * chunk_sz m < max_bytes c"
    and tabs: "t < length (tables m')" "\<And>u. u < length (tables m) \<Longrightarrow> u \<noteq> t \<Longrightarrow> tables m' ! u = tables m ! u"
      "length (tables m) \<le> length (tables m')" "\<And>u. length (tables m) \<le> u \<Longrightarrow> u < length (tables m') \<Longrightarrow> u = t"
    and t: "pt_id (tables m' ! t) = t" "pt_idx (tables m' ! t) \<noteq> no_index" "length (pages (tables m' ! t)) = npages m"
      "\<And>k. k < npages m \<Longrightarrow> host_addr (pages (tables m' ! t) ! k)
        = (if i * npages m + k \<in> Q then host_base c + (i * npages m + k) * page_sz m else 0)"
    and used: "ch_tabs c ! i = Some t \<or> ch_tabs c ! i = None \<and> (t < length (tables m) \<longrightarrow> pt_idx (tables m ! t) = no_index)"
    and dirs: "length (dirs m') = length (dirs m)" "dir_of a m'
      = (dir_of a m)\<lparr>page_tabs := (page_tabs (dir_of a m))[ch_base c div chunk_sz m + i := Some t]\<rparr>"
    and geo: "psize m' = psize m" "mem_map_old m' = mem_map_old m"
    and c': "ch_base c' = ch_base c" "host_base c' = host_base c" "own_asid c' = own_asid c" "is_local c' = is_local c"
      "max_bytes c' = max_bytes c" "ch_tabs c' = (ch_tabs c)[i := Some t]"
    and Q: "\<And>p. p div npages m \<noteq> i \<Longrightarrow> (p \<in> Q) = (p \<in> P)" "\<And>p. p \<in> Q \<Longrightarrow> p * page_sz m < max_bytes c"
      "committed c' = card Q * page_sz m"
    and bma: "\<And>ws. page_bma c' = Some ws \<Longrightarrow> max_bytes c div page_sz m \<le> 32 * length ws
          \<and> (\<forall>p < max_bytes c div page_sz m. cell_free ws p \<longleftrightarrow> p \<notin> Q)"
  shows "chunk_rep a c' m' Q"
proof -
  have sh: "chunk_shape a c m" using rep by (simp add: chunk_rep_def)
  have sz: "page_sz m' = page_sz m" "chunk_sz m' = chunk_sz m" by (simp_all add: page_sz_def chunk_sz_def geo)
  have ok: "tables_ok m" using sh by (simp add: chunk_shape_def)
  have old: "case ch_tabs c ! j of None \<Rightarrow> (\<forall>p \<in> P. p div npages m \<noteq> j)
            \<and> (j * chunk_sz m < max_bytes c \<longrightarrow> page_tabs (dir_of a m) ! (ch_base c div chunk_sz m + j) = None)
        | Some t \<Rightarrow> table_rep c m P j t \<and> page_tabs (dir_of a m) ! (ch_base c div chunk_sz m + j) = Some t"
    if "j < length (ch_tabs c)" for j using rep that by (auto simp: chunk_rep_def)
  have dist: "ch_tabs c ! j \<noteq> ch_tabs c ! l" if "j < length (ch_tabs c)" "l < length (ch_tabs c)" "j \<noteq> l" "ch_tabs c ! j \<noteq> None" for j l
    using rep that by (auto simp: chunk_rep_def)
  have other: "u \<noteq> t" if "j < length (ch_tabs c)" "j \<noteq> i" "ch_tabs c ! j = Some u" for j u
  proof
    assume "u = t"
    then have "ch_tabs c ! i \<noteq> Some t" using dist [OF that(1) i(1) that(2)] that(3) by simp
    then have "t < length (tables m) \<longrightarrow> pt_idx (tables m ! t) = no_index" using used by simp
    then show False using old [OF that(1)] that(3) \<open>u = t\<close> by (simp add: table_rep_def)
  qed
  have ok': "tables_ok m'" unfolding tables_ok_def
  proof (intro allI impI)
    fix u assume u: "u < length (tables m')"
    show "pt_id (tables m' ! u) = u \<and> length (pages (tables m' ! u)) = npages m'
      \<and> (pt_idx (tables m' ! u) = no_index \<longrightarrow> (\<forall>k<npages m'. host_addr (pages (tables m' ! u) ! k) = 0))"
    proof (cases "u = t")
      case True
      then show ?thesis using t(1-3) by (simp add: geo)
    next
      case False
      then have "u < length (tables m)" using tabs(4) u by (metis not_le)
      then show ?thesis using tabs(2) False ok by (simp add: tables_ok_def geo)
    qed
  qed
  have shape': "chunk_shape a c' m'"
    using sh ok' dirs by (simp add: chunk_shape_def c' geo sz)
  have new: "case ch_tabs c' ! j of None \<Rightarrow> (\<forall>p \<in> Q. p div npages m' \<noteq> j)
            \<and> (j * chunk_sz m' < max_bytes c' \<longrightarrow> page_tabs (dir_of a m') ! (ch_base c' div chunk_sz m' + j) = None)
        | Some t \<Rightarrow> table_rep c' m' Q j t \<and> page_tabs (dir_of a m') ! (ch_base c' div chunk_sz m' + j) = Some t"
    if j: "j < length (ch_tabs c')" for j
  proof (cases "j = i")
    case True
    have "ch_base c div chunk_sz m + i < length (page_tabs (dir_of a m))"
      using chunk_tab_index(2) [OF sh i(2)] geometry(4) [of m] sh by (simp add: chunk_shape_def)
    then show ?thesis using True i(1) t(2,4) tabs(1) by (simp add: c' sz table_rep_def geo dirs)
  next
    case False
    have jl: "j < length (ch_tabs c)" using j by (simp add: c')
    show ?thesis
    proof (cases "ch_tabs c ! j")
      case None
      then show ?thesis using old [OF jl] False Q(1) by (auto simp: c' sz geo dirs)
    next
      case (Some u)
      then have u: "table_rep c m P j u" "page_tabs (dir_of a m) ! (ch_base c div chunk_sz m + j) = Some u"
        using old [OF jl] by simp_all
      then have ul: "u < length (tables m)" "u < length (tables m')" using tabs(3) by (auto simp: table_rep_def)
      have eq: "tables m' ! u = tables m ! u" using tabs(2) [OF ul(1)] other [OF jl False Some] by simp
      have q: "(j * npages m + k \<in> Q) = (j * npages m + k \<in> P)" if "k < npages m" for k
        using Q(1) [of "j * npages m + k"] that False by simp
      have "table_rep c' m' Q j u" using u(1) ul q by (simp add: table_rep_def eq geo sz c')
      then show ?thesis using Some False u(2) by (simp add: c' sz dirs)
    qed
  qed
  have dist': "ch_tabs c' ! j \<noteq> ch_tabs c' ! l"
    if "j < length (ch_tabs c')" "l < length (ch_tabs c')" "j \<noteq> l" "ch_tabs c' ! j \<noteq> None" for j l
    using dist [of j l] other [of j t] other [of l t] that i(1) by (auto simp: c' nth_list_update split: if_splits)
  show ?thesis unfolding chunk_rep_def
    using shape' new dist' Q(2,3) bma by (simp add: c' sz geo del: split_paired_All)
qed

text \<open>A table for the chunk's part \<open>i\<close>: the one it has, or a new one, whose pages are all empty.\<close>

lemma create_new_table_spec:
  assumes "tables_ok m" and "create_new_table (psize m) (tables m) = (t, ts)"
  shows "t < length ts" "length (tables m) \<le> length ts" "\<And>u. u < length (tables m) \<Longrightarrow> ts ! u = tables m ! u"
    "\<And>u. length (tables m) \<le> u \<Longrightarrow> u < length ts \<Longrightarrow> u = t"
    "t < length (tables m) \<longrightarrow> pt_idx (tables m ! t) = no_index"
    "pt_id (ts ! t) = t" "pt_idx (ts ! t) = no_index" "length (pages (ts ! t)) = npages m"
    "\<And>k. k < npages m \<Longrightarrow> host_addr (pages (ts ! t) ! k) = 0"
proof -
  have *: "t < length ts \<and> length (tables m) \<le> length ts \<and> (\<forall>u < length (tables m). ts ! u = tables m ! u)
    \<and> (\<forall>u. length (tables m) \<le> u \<longrightarrow> u < length ts \<longrightarrow> u = t) \<and> (t < length (tables m) \<longrightarrow> pt_idx (tables m ! t) = no_index)
    \<and> pt_id (ts ! t) = t \<and> pt_idx (ts ! t) = no_index \<and> length (pages (ts ! t)) = npages m
    \<and> (\<forall>k < npages m. host_addr (pages (ts ! t) ! k) = 0)"
  proof (cases "find_index (\<lambda>t. pt_idx t = no_index) (tables m)")
    case None
    then show ?thesis using assms(2) by (auto simp: create_new_table_def new_page_table_def nth_append)
  next
    case (Some i)
    then show ?thesis using find_index_SomeD [OF Some] assms by (auto simp: create_new_table_def tables_ok_def)
  qed
  then show "t < length ts" "length (tables m) \<le> length ts" "\<And>u. u < length (tables m) \<Longrightarrow> ts ! u = tables m ! u"
    "\<And>u. length (tables m) \<le> u \<Longrightarrow> u < length ts \<Longrightarrow> u = t"
    "t < length (tables m) \<longrightarrow> pt_idx (tables m ! t) = no_index"
    "pt_id (ts ! t) = t" "pt_idx (ts ! t) = no_index" "length (pages (ts ! t)) = npages m"
    "\<And>k. k < npages m \<Longrightarrow> host_addr (pages (ts ! t) ! k) = 0" by blast+
qed

text \<open>Assigning a new table to a local address space puts it at its index of that directory alone.\<close>

lemma assign_new_table:
  assumes "1 \<le> a" and "a \<le> length (dirs m)" and "pt_idx (tables m ! t) = no_index"
    and "x div 2 ^ table_index_shift (psize m) < offset_mask (dir_psize (dir_of a m))"
    and "x div 2 ^ table_index_shift (psize m) < length (page_tabs (dir_of a m))"
    and "x div 2 ^ table_index_shift (psize m) \<noteq> no_index"
  shows "assign_page_table (Some t) x (Assign_list [int a]) m = Some (m\<lparr>
      tables := (tables m)[t := (tables m ! t)\<lparr>pt_idx := x div 2 ^ table_index_shift (psize m)\<rparr>],
      dirs := (dirs m)[a - 1 := (dir_of a m)\<lparr>page_tabs := (page_tabs (dir_of a m))[x div 2 ^ table_index_shift (psize m) := Some t]\<rparr>]\<rparr>)"
  using assms by (simp add: assign_page_table_def switch_page_table_def set_page_table_def upd_dir_def dir_of_def Let_def)

text \<open>The pages of a table in terms of the pages of the chunk.\<close>

lemma page_split: "i * npages m \<le> p \<Longrightarrow> p < Suc i * npages m \<Longrightarrow> p div npages m = i"
  by (metis mult.commute div_nat_eqI)

lemma page_of_table:
  assumes "p div npages m = i" and "p mod npages m + n \<le> npages m" and "k < npages m"
  shows "(k \<in> {p mod npages m..<p mod npages m + n}) = (i * npages m + k \<in> {p..<p + n})"
proof -
  have "p = i * npages m + p mod npages m" using assms(1) by auto
  then show ?thesis by auto
qed

lemma pages_in_table:
  assumes "p mod npages m + n \<le> npages m" and "q \<in> {p..<p + n}"
  shows "q div npages m = p div npages m"
proof (rule page_split)
  have e: "p = p div npages m * npages m + p mod npages m" by simp
  show "p div npages m * npages m \<le> q" using assms(2) e by (metis atLeastLessThan_iff le_add1 le_trans)
  show "q < Suc (p div npages m) * npages m" using assms e by (simp only: atLeastLessThan_iff mult_Suc) linarith
qed

text \<open>What the loops keep of the chunk and its memory management unit.\<close>

definition kept :: "mchunk \<times> mmu \<Rightarrow> mchunk \<times> mmu \<Rightarrow> bool" where
  "kept s s' \<longleftrightarrow> ch_base (fst s') = ch_base (fst s) \<and> host_base (fst s') = host_base (fst s) \<and> own_asid (fst s') = own_asid (fst s)
     \<and> is_local (fst s') = is_local (fst s) \<and> max_bytes (fst s') = max_bytes (fst s) \<and> bottom (fst s') = bottom (fst s)
     \<and> top_page (fst s') = top_page (fst s) \<and> length (ch_tabs (fst s')) = length (ch_tabs (fst s))
     \<and> is_external_host (fst s') = is_external_host (fst s) \<and> psize (snd s') = psize (snd s)"

lemma kept_trans: "kept s s' \<Longrightarrow> kept s' s'' \<Longrightarrow> kept s s''"
  by (simp add: kept_def)

lemma kept_refl [simp]: "kept s s"
  by (simp add: kept_def)

lemma mark_bma_spec:
  assumes "chunk_rep a c m P" and "0 < n" and "(p + n) * page_sz m \<le> max_bytes c"
    and "\<And>q. (q \<in> Q) = (if q \<in> {p..<p + n} then \<not> om else q \<in> P)"
  shows "\<exists>b. mark_bma p n om c = Some b \<and> (\<forall>ws. b = Some ws \<longrightarrow> max_bytes c div page_sz m \<le> 32 * length ws
    \<and> (\<forall>q < max_bytes c div page_sz m. cell_free ws q \<longleftrightarrow> q \<notin> Q))"
proof (cases "page_bma c")
  case None
  then show ?thesis by (simp add: mark_bma_def)
next
  case (Some ws)
  then have b: "max_bytes c div page_sz m \<le> 32 * length ws" "\<And>q. q < max_bytes c div page_sz m \<Longrightarrow> cell_free ws q \<longleftrightarrow> q \<notin> P"
    using assms(1) by (auto simp: chunk_rep_def)
  have "p + n \<le> max_bytes c div page_sz m" using assms(3) geometry(2) [of m] by (simp add: less_eq_div_iff_mult_less_eq)
  then have "p div 32 < length ws" using b(1) assms(2) by (simp add: less_mult_imp_div_less)
  then obtain filled ws' where f: "force_fill p (int n) om ws = Some (filled, ws')" "length ws' = length ws"
    "\<And>q. q < 32 * length ws \<Longrightarrow> cell_free ws' q = (if p \<le> q \<and> int q < int p + int n then om else cell_free ws q)"
    by (rule force_fill_cells [where n = "int n" and om = om]) simp_all
  have "cell_free ws' q \<longleftrightarrow> q \<notin> Q" if "q < max_bytes c div page_sz m" for q
    using f(3) [of q] b(2) [OF that] that b(1) assms(4) [of q] by auto
  then show ?thesis using f(1,2) b(1) Some by (simp add: mark_bma_def)
qed

text \<open>One round of the commit loop: the pages \<open>p\<close> to \<open>p + n\<close>, all in one table.\<close>

lemma fresh_card:
  assumes "\<And>k. k < npages m \<Longrightarrow> host_addr (pgs ! k) = (if i * npages m + k \<in> P then host_base c + (i * npages m + k) * page_sz m else 0)"
    and "p div npages m = i" "p mod npages m + n \<le> npages m" "host_base c \<noteq> 0" "finite P"
  shows "card (fresh_in {p mod npages m..<p mod npages m + n} pgs) + card P = card (P \<union> {p..<p + n})"
proof -
  let ?o = "p mod npages m"
  have pe: "p = i * npages m + ?o" using assms(2) by auto
  have "(\<lambda>k. i * npages m + k) ` fresh_in {?o..<?o + n} pgs = {p..<p + n} - P"
  proof (intro set_eqI iffI)
    fix q assume "q \<in> (\<lambda>k. i * npages m + k) ` fresh_in {?o..<?o + n} pgs"
    then obtain k where k: "q = i * npages m + k" "k \<in> {?o..<?o + n}" "host_addr (pgs ! k) = 0" by (auto simp: fresh_in_def)
    then have "q \<notin> P" using assms(1) [of k] assms(3,4) by (auto split: if_splits)
    then show "q \<in> {p..<p + n} - P" using k pe by auto
  next
    fix q assume q: "q \<in> {p..<p + n} - P"
    define k where "k = q - i * npages m"
    have k: "q = i * npages m + k" "k \<in> {?o..<?o + n}" using q pe by (auto simp: k_def)
    then have "host_addr (pgs ! k) = 0" using assms(1) [of k] assms(3) q by auto
    then show "q \<in> (\<lambda>k. i * npages m + k) ` fresh_in {?o..<?o + n} pgs" using k by (auto simp: fresh_in_def)
  qed
  moreover have "inj_on (\<lambda>k. i * npages m + k) A" for A by (simp add: inj_on_def)
  ultimately have "card (fresh_in {?o..<?o + n} pgs) = card ({p..<p + n} - P)" by (metis card_image)
  moreover have "card (P \<union> {p..<p + n}) = card P + card ({p..<p + n} - P)"
    using assms(5) card_Un_disjoint [of P "{p..<p + n} - P"] by simp
  ultimately show ?thesis by simp
qed

text \<open>The table a round of the commit loop works on, before its pages are filled.\<close>

lemma table_for:
  assumes rep: "chunk_rep a c m P" and i: "i < length (ch_tabs c)"
    and T: "(case ch_tabs c ! i of None \<Rightarrow> create_new_table (psize m) (tables m) | Some t \<Rightarrow> (t, tables m)) = (t, ts)"
  shows "t < length ts \<and> length (tables m) \<le> length ts \<and> (\<forall>u < length (tables m). ts ! u = tables m ! u)
    \<and> (\<forall>u. length (tables m) \<le> u \<longrightarrow> u < length ts \<longrightarrow> u = t) \<and> pt_id (ts ! t) = t \<and> length (pages (ts ! t)) = npages m
    \<and> (\<forall>k < npages m. host_addr (pages (ts ! t) ! k) = (if i * npages m + k \<in> P then host_base c + (i * npages m + k) * page_sz m else 0))
    \<and> (ch_tabs c ! i = Some t \<and> pt_idx (ts ! t) \<noteq> no_index
      \<or> ch_tabs c ! i = None \<and> pt_idx (ts ! t) = no_index \<and> (t < length (tables m) \<longrightarrow> pt_idx (tables m ! t) = no_index))"
proof -
  have ok: "tables_ok m" using rep by (simp add: chunk_rep_def chunk_shape_def)
  have old: "case ch_tabs c ! i of None \<Rightarrow> (\<forall>p \<in> P. p div npages m \<noteq> i) | Some t \<Rightarrow> table_rep c m P i t"
    using rep i by (auto simp: chunk_rep_def split: option.splits)
  show ?thesis
  proof (cases "ch_tabs c ! i")
    case None
    then have "create_new_table (psize m) (tables m) = (t, ts)" using T by simp
    note c = create_new_table_spec [OF ok this]
    have "i * npages m + k \<notin> P" if "k < npages m" for k
      using old None that by force
    then show ?thesis using c None by auto
  next
    case (Some u)
    then have "u = t" "ts = tables m" using T by simp_all
    then have "table_rep c m P i t" "ch_tabs c ! i = Some t" using old Some by simp_all
    then show ?thesis using ok \<open>ts = tables m\<close> unfolding table_rep_def tables_ok_def by auto
  qed
qed

lemma commit_table_spec:
  assumes rep: "chunk_rep a c m P" and fin: "finite P" and n: "0 < n" "p mod npages m + n \<le> npages m"
    and fits: "(p + n) * page_sz m \<le> max_bytes c"
    and os: "is_external_host c \<or> (\<forall>h b. os_commit h b)"
  shows "\<exists>c' m'. commit_table os_commit (p * page_sz m) n (c, m) = Some (True, c', m')
    \<and> chunk_rep a c' m' (P \<union> {p..<p + n}) \<and> kept (c, m) (c', m')"
proof -
  define i where "i = p div npages m"
  define o' where "o' = p mod npages m"
  let ?Q = "P \<union> {p..<p + n}" and ?S = "page_sz m" and ?N = "npages m"
  have pe: "p = i * ?N + o'" by (simp add: i_def o'_def)
  have geo: "p * ?S div chunk_sz m = i" "p * ?S div ?S = p" by (simp_all only: geometry_page i_def)
  have sh: "chunk_shape a c m" using rep by (simp add: chunk_rep_def)
  have "p * ?S < max_bytes c" using fits n(1) geometry(2) [of m] by (metis add_gr_0 less_le_trans less_add_same_cancel1 mult_less_cancel2)
  note ix = chunk_tab_index [OF sh this, unfolded geo]
  have "i * chunk_sz m \<le> p * ?S" by (simp add: pe geometry(1) algebra_simps)
  then have ib: "i * chunk_sz m < max_bytes c" using \<open>p * ?S < max_bytes c\<close> by simp
  have hb: "host_base c \<noteq> 0" "tables_ok m" using sh by (simp_all add: chunk_shape_def)
  obtain b where b: "mark_bma p n False c = Some b" "\<And>ws. b = Some ws \<Longrightarrow> max_bytes c div ?S \<le> 32 * length ws
    \<and> (\<forall>q < max_bytes c div ?S. cell_free ws q \<longleftrightarrow> q \<notin> ?Q)"
  proof -
    have "\<exists>b. mark_bma p n False c = Some b \<and> (\<forall>ws. b = Some ws \<longrightarrow> max_bytes c div ?S \<le> 32 * length ws
      \<and> (\<forall>q < max_bytes c div ?S. cell_free ws q \<longleftrightarrow> q \<notin> ?Q))"
      by (rule mark_bma_spec [OF rep n(1) fits]) auto
    then show ?thesis using that by blast
  qed
  have Qmax: "q * ?S < max_bytes c" if "q \<in> ?Q" for q
  proof (cases "q \<in> P")
    case True
    then show ?thesis using rep by (simp add: chunk_rep_def)
  next
    case False
    then have "Suc q * ?S \<le> (p + n) * ?S" using that by (intro mult_le_mono1) auto
    then show ?thesis using fits geometry(2) [of m] by simp
  qed
  have Qi: "(q \<in> ?Q) = (q \<in> P)" if "q div ?N \<noteq> i" for q
    using pages_in_table [OF n(2), of q] that by (auto simp: i_def)
  define T where "T = (case ch_tabs c ! i of None \<Rightarrow> create_new_table (psize m) (tables m) | Some t \<Rightarrow> (t, tables m))"
  obtain t ts where T: "T = (t, ts)" by fastforce
  have old: "case ch_tabs c ! i of None \<Rightarrow> (\<forall>p \<in> P. p div ?N \<noteq> i) | Some t \<Rightarrow> table_rep c m P i t
      \<and> page_tabs (dir_of a m) ! (ch_base c div chunk_sz m + i) = Some t"
    using rep ix(1) by (auto simp: chunk_rep_def split: option.splits)
  have t: "t < length ts" "length (tables m) \<le> length ts" "\<And>u. u < length (tables m) \<Longrightarrow> ts ! u = tables m ! u"
    "\<And>u. length (tables m) \<le> u \<Longrightarrow> u < length ts \<Longrightarrow> u = t" "pt_id (ts ! t) = t" "length (pages (ts ! t)) = ?N"
    "\<And>k. k < ?N \<Longrightarrow> host_addr (pages (ts ! t) ! k) = (if i * ?N + k \<in> P then host_base c + (i * ?N + k) * ?S else 0)"
    "ch_tabs c ! i = Some t \<and> pt_idx (ts ! t) \<noteq> no_index
      \<or> ch_tabs c ! i = None \<and> pt_idx (ts ! t) = no_index \<and> (t < length (tables m) \<longrightarrow> pt_idx (tables m ! t) = no_index)"
    using table_for [OF rep ix(1) T [unfolded T_def]] by blast+
  define m0 where "m0 = m\<lparr>tables := ts\<rparr>"
  have m0: "tables m0 = ts" "page_sz m0 = ?S" "chunk_sz m0 = chunk_sz m" "psize m0 = psize m" "dirs m0 = dirs m"
    by (simp_all add: m0_def page_sz_def chunk_sz_def)
  obtain r pgs' fl ev where cp: "commit_pages [o'..<o' + n] (i * chunk_sz m) t no_run (c, m0) =
      (r, c\<lparr>committed := committed c + card (fresh_in {o'..<o' + n} (pages (ts ! t))) * ?S, filled := fl\<rparr>,
       m0\<lparr>tables := ts[t := (ts ! t)\<lparr>pages := pgs'\<rparr>], cpu_events := ev\<rparr>)"
    "set_pages c ?S (i * chunk_sz m) {o'..<o' + n} (pages (ts ! t)) pgs'"
    using commit_pages_spec [of "[o'..<o' + n]" m0 t c "i * chunk_sz m" no_run] hb(1) t(1,6) n(2)
    by (auto simp: m0 o'_def)
  define c1 where "c1 = c\<lparr>committed := committed c + card (fresh_in {o'..<o' + n} (pages (ts ! t))) * ?S, filled := fl\<rparr>"
  define m1 where "m1 = m0\<lparr>tables := ts[t := (ts ! t)\<lparr>pages := pgs'\<rparr>], cpu_events := ev\<rparr>"
  obtain r2 fl2 ev2 where fm: "flush_mapped r (c1, m1) = (r2, c1\<lparr>filled := fl2\<rparr>, m1\<lparr>cpu_events := ev2\<rparr>)"
    using flush_mapped_eq by blast
  define c2 where "c2 = c1\<lparr>filled := fl2\<rparr>"
  define m2 where "m2 = m1\<lparr>cpu_events := ev2\<rparr>"
  define tab where "tab = (ts ! t)\<lparr>pages := pgs'\<rparr>"
  have c2: "ch_base c2 = ch_base c" "host_base c2 = host_base c" "own_asid c2 = own_asid c" "is_local c2 = is_local c"
      "max_bytes c2 = max_bytes c" "ch_tabs c2 = ch_tabs c" "page_bma c2 = page_bma c" "is_external_host c2 = is_external_host c"
      "bottom c2 = bottom c" "top_page c2 = top_page c"
      "committed c2 = committed c + card (fresh_in {o'..<o' + n} (pages (ts ! t))) * ?S" by (simp_all add: c2_def c1_def)
  have m2: "tables m2 = ts[t := tab]" "psize m2 = psize m" "mem_map_old m2 = mem_map_old m" "dirs m2 = dirs m"
    "page_sz m2 = ?S" "chunk_sz m2 = chunk_sz m" "dir_of a m2 = dir_of a m"
    by (simp_all add: m2_def m1_def m0_def tab_def page_sz_def chunk_sz_def dir_of_def)
  have tab: "length (pages tab) = ?N" "pt_id tab = t" "pt_idx tab = pt_idx (ts ! t)"
    using cp(2) t(5,6) by (simp_all add: tab_def set_pages_def)
  have entry: "host_addr (pages tab ! k) = (if i * ?N + k \<in> ?Q then host_base c + (i * ?N + k) * ?S else 0)" if k: "k < ?N" for k
  proof -
    have "(k \<in> {o'..<o' + n}) = (i * ?N + k \<in> {p..<p + n})"
      using page_of_table [OF i_def [symmetric] n(2) k] by (simp add: o'_def)
    moreover have "host_addr (pgs' ! k) = (if k \<in> {o'..<o' + n} \<and> host_addr (pages (ts ! t) ! k) = 0
        then host_base c + k * ?S + i * chunk_sz m else host_addr (pages (ts ! t) ! k))"
      using cp(2) t(6) k by (simp add: set_pages_def)
    moreover have "host_base c + k * ?S + i * chunk_sz m = host_base c + (i * ?N + k) * ?S"
      by (simp add: geometry(1) algebra_simps)
    ultimately show ?thesis using t(7) [OF k] hb(1) unfolding tab_def by (simp only: Un_iff) auto
  qed
  have card: "committed c2 = card ?Q * ?S"
  proof -
    have "card (fresh_in {o'..<o' + n} (pages (ts ! t))) + card P = card ?Q"
      unfolding o'_def by (rule fresh_card [OF t(7) i_def [symmetric] n(2) hb(1) fin])
    moreover have "committed c = card P * ?S" using rep by (simp add: chunk_rep_def)
    ultimately show ?thesis by (simp add: c2 add_mult_distrib [symmetric] add.commute)
  qed
  note cp'' = cp(1) [folded c1_def m1_def] and fm' = fm [folded c2_def m2_def]
  have osc: "\<not> (\<not> is_external_host c \<and> \<not> os_commit h' b')" for h' b' using os by blast
  have b': "mark_bma p n False x = Some b" if "page_bma x = page_bma c" for x
    using b(1) that by (simp add: mark_bma_def)
  have tl: "t < length (tables m2)" "length (tables m) \<le> length (tables m2)" using t(1,2) by (simp_all add: m2)
  show ?thesis
  proof (cases "ch_tabs c ! i")
    case (Some t')
    then have tt: "t' = t" "ts = tables m" "pt_idx (ts ! t) \<noteq> no_index" "page_tabs (dir_of a m) ! (ch_base c div chunk_sz m + i) = Some t"
      using T t(8) old by (auto simp: T_def)
    define c3 where "c3 = c2\<lparr>page_bma := b\<rparr>"
    have m0m: "m0 = m" using tt(2) by (simp add: m0_def)
    have "table_by_id t (tables m) = Some (Some t)" using t(1) tt(2) by (simp add: table_by_id_def)
    then have "commit_table os_commit (p * ?S) n (c, m) = Some (True, c3, m2)"
      using cp'' [unfolded m0m] Some tt(1) ix(1) b' osc
      by (simp add: commit_table_def geo Let_def c2 m2 c3_def o'_def [symmetric] fm')
    moreover have "chunk_rep a c3 m2 ?Q"
    proof (rule chunk_rep_step [OF rep ix(1) ib, where t = t])
      show "dir_of a m2 = (dir_of a m)\<lparr>page_tabs := (page_tabs (dir_of a m))[ch_base c div chunk_sz m + i := Some t]\<rparr>"
        by (simp add: m2 tt(4) [symmetric])
      show "ch_tabs c3 = (ch_tabs c)[i := Some t]" using Some tt(1) by (simp add: c3_def c2) (metis list_update_id)
    qed (use t tl tab entry tt Some Qmax Qi card b(2) in \<open>simp_all add: m2 c2 c3_def nth_list_update\<close>)
    moreover have "kept (c, m) (c3, m2)" by (simp add: kept_def c2 m2 c3_def)
    ultimately show ?thesis by blast
  next
    case None
    then have fr: "pt_idx (ts ! t) = no_index" "t < length (tables m) \<longrightarrow> pt_idx (tables m ! t) = no_index"
      "create_new_table (psize m) (tables m) = (t, ts)" using T t(8) by (auto simp: T_def)
    let ?ix = "ch_base c div chunk_sz m + i"
    have lin: "(ch_base c + i * chunk_sz m) div 2 ^ table_index_shift (psize m) = ?ix"
      using geometry(4) [of m] by (simp add: chunk_sz_def [symmetric])
    define m3 where "m3 = m2\<lparr>tables := ts[t := tab\<lparr>pt_idx := ?ix\<rparr>],
      dirs := (dirs m)[a - 1 := (dir_of a m)\<lparr>page_tabs := (page_tabs (dir_of a m))[?ix := Some t]\<rparr>]\<rparr>"
    define c3 where "c3 = c2\<lparr>ch_tabs := (ch_tabs c)[i := Some t], page_bma := b\<rparr>"
    have al: "a - 1 < length (dirs m)" using sh by (auto simp: chunk_shape_def)
    have m3: "tables m3 = ts[t := tab\<lparr>pt_idx := ?ix\<rparr>]" "psize m3 = psize m" "mem_map_old m3 = mem_map_old m"
      "length (dirs m3) = length (dirs m)" "page_sz m3 = ?S"
      "dir_of a m3 = (dir_of a m)\<lparr>page_tabs := (page_tabs (dir_of a m))[?ix := Some t]\<rparr>"
      using al by (simp_all add: m3_def m2 page_sz_def dir_of_def)
    have as: "assign_page_table (Some t) (ch_base c + i * chunk_sz m) (Assign_list [int a]) m2 = Some m3"
      using assign_new_table [of a m2 t "ch_base c + i * chunk_sz m"] ix(2,3,5) sh tab(3) fr(1) tl(1) t(1)
      by (simp add: m2 lin chunk_shape_def m3_def)
    have "own_asid c = Some (int a)" "is_local c" using sh by (simp_all add: chunk_shape_def)
    then have "commit_table os_commit (p * ?S) n (c, m) = Some (True, c3, m3)"
      using cp'' None ix(1) osc as tab(2) t(1)
      by (simp add: commit_table_def geo Let_def c2 m0_def [symmetric] m0 m2 m3 c3_def o'_def [symmetric] fm' fr(3) b')
    moreover have "chunk_rep a c3 m3 ?Q"
    proof (rule chunk_rep_step [OF rep ix(1) ib, where t = t])
      show "\<And>q. q \<in> ?Q \<Longrightarrow> q * ?S < max_bytes c" by (rule Qmax)
      show "\<And>q. q div ?N \<noteq> i \<Longrightarrow> (q \<in> ?Q) = (q \<in> P)" by (rule Qi)
    qed (use t tl tab entry fr None card b(2) ix(5) in \<open>simp_all add: m3 c2 c3_def nth_list_update\<close>)
    moreover have "kept (c, m) (c3, m3)" by (simp add: kept_def c2 m3 c3_def)
    ultimately show ?thesis by blast
  qed
qed

lemma taken_card:
  assumes "\<And>k. k < npages m \<Longrightarrow> host_addr (pgs ! k) = (if i * npages m + k \<in> P then host_base c + (i * npages m + k) * page_sz m else 0)"
    and "p div npages m = i" "p mod npages m + n \<le> npages m" "host_base c \<noteq> 0" "finite P"
  shows "card (P - {p..<p + n}) = card P - card ({p mod npages m..<p mod npages m + n} - fresh_in {p mod npages m..<p mod npages m + n} pgs)"
proof -
  let ?o = "p mod npages m"
  have pe: "p = i * npages m + ?o" using assms(2) by auto
  have "(\<lambda>k. i * npages m + k) ` ({?o..<?o + n} - fresh_in {?o..<?o + n} pgs) = P \<inter> {p..<p + n}"
  proof (intro set_eqI iffI)
    fix q assume "q \<in> (\<lambda>k. i * npages m + k) ` ({?o..<?o + n} - fresh_in {?o..<?o + n} pgs)"
    then obtain k where k: "q = i * npages m + k" "k \<in> {?o..<?o + n}" "k \<notin> fresh_in {?o..<?o + n} pgs" by blast
    then have "host_addr (pgs ! k) \<noteq> 0" by (simp add: fresh_in_def)
    then have "q \<in> P" using k assms(1) [of k] assms(3) by (auto split: if_splits)
    then show "q \<in> P \<inter> {p..<p + n}" using k pe by auto
  next
    fix q assume q: "q \<in> P \<inter> {p..<p + n}"
    define k where "k = q - i * npages m"
    have k: "q = i * npages m + k" "k \<in> {?o..<?o + n}" using q pe by (auto simp: k_def)
    then have "host_addr (pgs ! k) \<noteq> 0" using assms(1) [of k] assms(3,4) q by auto
    then show "q \<in> (\<lambda>k. i * npages m + k) ` ({?o..<?o + n} - fresh_in {?o..<?o + n} pgs)" using k by (auto simp: fresh_in_def)
  qed
  moreover have "inj_on (\<lambda>k. i * npages m + k) A" for A by (simp add: inj_on_def)
  ultimately have "card ({?o..<?o + n} - fresh_in {?o..<?o + n} pgs) = card (P \<inter> {p..<p + n})" by (metis card_image)
  then show ?thesis using assms(5) by (simp add: card_Diff_subset_Int)
qed

lemma decommit_table_spec:
  assumes rep: "chunk_rep a c m P" and fin: "finite P" and n: "0 < n" "p mod npages m + n \<le> npages m"
    and fits: "(p + n) * page_sz m \<le> max_bytes c"
  shows "\<exists>c' m'. decommit_table (p * page_sz m) n (c, m) = Some (c', m')
    \<and> chunk_rep a c' m' (P - {p..<p + n}) \<and> kept (c, m) (c', m')"
proof -
  define i where "i = p div npages m"
  define o' where "o' = p mod npages m"
  let ?Q = "P - {p..<p + n}" and ?S = "page_sz m" and ?N = "npages m"
  have pe: "p = i * ?N + o'" by (simp add: i_def o'_def)
  have geo: "p * ?S div chunk_sz m = i" "p * ?S div ?S = p" by (simp_all only: geometry_page i_def)
  have sh: "chunk_shape a c m" using rep by (simp add: chunk_rep_def)
  have "p * ?S < max_bytes c" using fits n(1) geometry(2) [of m] by (metis add_gr_0 less_le_trans less_add_same_cancel1 mult_less_cancel2)
  note ix = chunk_tab_index [OF sh this, unfolded geo]
  have "i * chunk_sz m \<le> p * ?S" by (simp add: pe geometry(1) algebra_simps)
  then have ib: "i * chunk_sz m < max_bytes c" using \<open>p * ?S < max_bytes c\<close> by simp
  have hb: "host_base c \<noteq> 0" "tables_ok m" using sh by (simp_all add: chunk_shape_def)
  obtain b where b: "mark_bma p n True c = Some b" "\<And>ws. b = Some ws \<Longrightarrow> max_bytes c div ?S \<le> 32 * length ws
    \<and> (\<forall>q < max_bytes c div ?S. cell_free ws q \<longleftrightarrow> q \<notin> ?Q)"
  proof -
    have "\<exists>b. mark_bma p n True c = Some b \<and> (\<forall>ws. b = Some ws \<longrightarrow> max_bytes c div ?S \<le> 32 * length ws
      \<and> (\<forall>q < max_bytes c div ?S. cell_free ws q \<longleftrightarrow> q \<notin> ?Q))"
      by (rule mark_bma_spec [OF rep n(1) fits]) auto
    then show ?thesis using that by blast
  qed
  have Qmax: "q * ?S < max_bytes c" if "q \<in> ?Q" for q using rep that by (simp add: chunk_rep_def)
  have Qi: "(q \<in> ?Q) = (q \<in> P)" if "q div ?N \<noteq> i" for q
    using pages_in_table [OF n(2), of q] that by (auto simp: i_def)
  show ?thesis
  proof (cases "ch_tabs c ! i")
    case None
    then have "\<forall>q \<in> P. q div ?N \<noteq> i" using rep ix(1) by (auto simp: chunk_rep_def split: option.splits)
    then have "q \<notin> {p..<p + n}" if "q \<in> P" for q using pages_in_table [OF n(2), of q] that by (metis i_def)
    then have "?Q = P" by blast
    moreover have "decommit_table (p * ?S) n (c, m) = Some (c, m)"
      using None ix(1) by (simp add: decommit_table_def geo Let_def)
    ultimately show ?thesis using rep by auto
  next
    case (Some t)
    then have tr: "table_rep c m P i t" "page_tabs (dir_of a m) ! (ch_base c div chunk_sz m + i) = Some t"
      using rep ix(1) by (auto simp: chunk_rep_def split: option.splits)
    then have t: "t < length (tables m)" "pt_idx (tables m ! t) \<noteq> no_index" "pt_id (tables m ! t) = t"
      "length (pages (tables m ! t)) = ?N"
      "\<And>k. k < ?N \<Longrightarrow> host_addr (pages (tables m ! t) ! k) = (if i * ?N + k \<in> P then host_base c + (i * ?N + k) * ?S else 0)"
      using hb(2) by (auto simp: table_rep_def tables_ok_def)
    obtain r pgs' ev where dp: "decommit_pages [o'..<o' + n] (i * chunk_sz m) t no_run (c, m) =
        (r, c\<lparr>committed := committed c - card ({o'..<o' + n} - fresh_in {o'..<o' + n} (pages (tables m ! t))) * ?S\<rparr>,
         m\<lparr>tables := (tables m)[t := (tables m ! t)\<lparr>pages := pgs'\<rparr>], cpu_events := ev\<rparr>)"
      "length pgs' = ?N" "\<And>k. k < ?N \<Longrightarrow> host_addr (pgs' ! k) = (if k \<in> {o'..<o' + n} then 0 else host_addr (pages (tables m ! t) ! k))"
      using decommit_pages_spec [of "[o'..<o' + n]" m t "i * chunk_sz m" no_run c] t(1,4) n(2)
      by (auto simp: o'_def)
    define c1 where "c1 = c\<lparr>committed := committed c - card ({o'..<o' + n} - fresh_in {o'..<o' + n} (pages (tables m ! t))) * ?S\<rparr>"
    define m1 where "m1 = m\<lparr>tables := (tables m)[t := (tables m ! t)\<lparr>pages := pgs'\<rparr>], cpu_events := ev\<rparr>"
    note dp' = dp(1) [folded c1_def m1_def]
    obtain r2 ev2 where fm: "flush_unmapped r (c1, m1) = (r2, c1, m1\<lparr>cpu_events := ev2\<rparr>)"
      using flush_unmapped_eq by blast
    define m2 where "m2 = m1\<lparr>cpu_events := ev2\<rparr>"
    note fm' = fm [folded m2_def]
    define c2 where "c2 = c1\<lparr>page_bma := b\<rparr>"
    define tab where "tab = (tables m ! t)\<lparr>pages := pgs'\<rparr>"
    have c2: "ch_base c2 = ch_base c" "host_base c2 = host_base c" "own_asid c2 = own_asid c" "is_local c2 = is_local c"
      "max_bytes c2 = max_bytes c" "ch_tabs c2 = ch_tabs c" "page_bma c2 = b" "is_external_host c2 = is_external_host c"
      "bottom c2 = bottom c" "top_page c2 = top_page c" "page_bma c1 = page_bma c"
      "committed c2 = committed c - card ({o'..<o' + n} - fresh_in {o'..<o' + n} (pages (tables m ! t))) * ?S"
      by (simp_all add: c2_def c1_def)
    have m2: "tables m2 = (tables m)[t := tab]" "psize m2 = psize m" "mem_map_old m2 = mem_map_old m" "dirs m2 = dirs m"
      "page_sz m2 = ?S" "dir_of a m2 = dir_of a m"
      by (simp_all add: m2_def m1_def tab_def page_sz_def dir_of_def)
    have tab: "length (pages tab) = ?N" "pt_id tab = t" "pt_idx tab \<noteq> no_index"
      using dp(2) t(2,3) by (simp_all add: tab_def)
    have entry: "host_addr (pages tab ! k) = (if i * ?N + k \<in> ?Q then host_base c + (i * ?N + k) * ?S else 0)" if k: "k < ?N" for k
    proof -
      have "(k \<in> {o'..<o' + n}) = (i * ?N + k \<in> {p..<p + n})"
        using page_of_table [OF i_def [symmetric] n(2) k] by (simp add: o'_def)
      then show ?thesis using dp(3) [OF k] t(5) [OF k] unfolding tab_def by (simp only: Diff_iff) auto
    qed
    have card: "committed c2 = card ?Q * ?S"
    proof -
      have "committed c = card P * ?S" using rep by (simp add: chunk_rep_def)
      then show ?thesis unfolding o'_def c2 using taken_card [OF t(5) i_def [symmetric] n(2) hb(1) fin]
        by (simp add: diff_mult_distrib o'_def)
    qed
    have "table_by_id t (tables m) = Some (Some t)" using t(1) by (simp add: table_by_id_def)
    moreover have "mark_bma p n True c1 = Some b" using b(1) by (simp add: mark_bma_def c1_def)
    ultimately have "decommit_table (p * ?S) n (c, m) = Some (c2, m2)"
      using dp' Some ix(1) by (simp add: decommit_table_def geo Let_def c2_def m2 o'_def [symmetric] fm')
    moreover have "chunk_rep a c2 m2 ?Q"
    proof (rule chunk_rep_step [OF rep ix(1) ib, where t = t])
      show "dir_of a m2 = (dir_of a m)\<lparr>page_tabs := (page_tabs (dir_of a m))[ch_base c div chunk_sz m + i := Some t]\<rparr>"
        by (simp add: m2 tr(2) [symmetric])
      show "ch_tabs c2 = (ch_tabs c)[i := Some t]" using Some by (simp add: c2) (metis list_update_id)
      show "\<And>q. q \<in> ?Q \<Longrightarrow> q * ?S < max_bytes c" by (rule Qmax)
      show "\<And>q. q div ?N \<noteq> i \<Longrightarrow> (q \<in> ?Q) = (q \<in> P)" by (rule Qi)
    qed (use t tab entry Some card b(2) in \<open>simp_all add: m2 c2 nth_list_update\<close>)
    moreover have "kept (c, m) (c2, m2)" by (simp add: kept_def c2 m2)
    ultimately show ?thesis by blast
  qed
qed

text \<open>The pages of one round: as many as are left, but not beyond the end of the table.\<close>

lemma round_pages:
  assumes "p < e"
  shows "min ((e * page_sz m - p * page_sz m) div page_sz m) ((chunk_sz m - p * page_sz m mod chunk_sz m) div page_sz m)
    = min (e - p) (npages m - p mod npages m)"
    "0 < min (e - p) (npages m - p mod npages m)" "p mod npages m + min (e - p) (npages m - p mod npages m) \<le> npages m"
    "p + min (e - p) (npages m - p mod npages m) \<le> e"
proof -
  have S: "0 < page_sz m" "0 < npages m" by (simp_all add: geometry)
  have "chunk_sz m - p * page_sz m mod chunk_sz m = (npages m - p mod npages m) * page_sz m"
    by (simp only: geometry_page(2) diff_mult_distrib geometry(1) [symmetric])
  moreover have "e * page_sz m - p * page_sz m = (e - p) * page_sz m" by (simp add: diff_mult_distrib)
  ultimately show "min ((e * page_sz m - p * page_sz m) div page_sz m) ((chunk_sz m - p * page_sz m mod chunk_sz m) div page_sz m)
    = min (e - p) (npages m - p mod npages m)" using S(1) by simp
  have "p mod npages m < npages m" using S(2) by simp
  then show "0 < min (e - p) (npages m - p mod npages m)" "p mod npages m + min (e - p) (npages m - p mod npages m) \<le> npages m"
    "p + min (e - p) (npages m - p mod npages m) \<le> e" using assms by auto
qed

lemma kept_sizes: "kept (c, m) (c', m') \<Longrightarrow> page_sz m' = page_sz m \<and> chunk_sz m' = chunk_sz m \<and> max_bytes c' = max_bytes c
    \<and> is_external_host c' = is_external_host c \<and> psize m' = psize m"
  by (simp add: kept_def page_sz_def chunk_sz_def)

text \<open>With more fuel than pages the loops end, having committed or decommitted all of them.\<close>

lemma commit_loop_spec:
  assumes "chunk_rep a c m P" and "finite P" and "p \<le> e" and "e * page_sz m \<le> max_bytes c"
    and "is_external_host c \<or> (\<forall>h b. os_commit h b)" and "e - p < fuel"
  shows "\<exists>c' m'. commit_loop os_commit fuel (p * page_sz m) (e * page_sz m) (c, m) = Some (e * page_sz m, c', m')
    \<and> chunk_rep a c' m' (P \<union> {p..<e}) \<and> kept (c, m) (c', m')"
  using assms
proof (induction fuel arbitrary: p c m P)
  case 0
  then show ?case by simp
next
  case (Suc fuel)
  have S: "0 < page_sz m" by (simp add: geometry)
  show ?case
  proof (cases "p < e")
    case False
    then have "p = e" using Suc.prems(3) by simp
    then show ?thesis using Suc.prems(1) by simp
  next
    case True
    let ?n = "min (e - p) (npages m - p mod npages m)"
    note r = round_pages [OF True, of m]
    have "(p + ?n) * page_sz m \<le> e * page_sz m" using r(4) by (rule mult_le_mono1)
    then obtain c1 m1 where t: "commit_table os_commit (p * page_sz m) ?n (c, m) = Some (True, c1, m1)"
      "chunk_rep a c1 m1 (P \<union> {p..<p + ?n})" "kept (c, m) (c1, m1)"
      using commit_table_spec [OF Suc.prems(1,2) r(2,3) _ Suc.prems(5)] Suc.prems(4) by (meson le_trans)
    note k = kept_sizes [OF t(3)]
    have "\<exists>c' m'. commit_loop os_commit fuel ((p + ?n) * page_sz m1) (e * page_sz m1) (c1, m1) = Some (e * page_sz m1, c', m')
      \<and> chunk_rep a c' m' (P \<union> {p..<p + ?n} \<union> {p + ?n..<e}) \<and> kept (c1, m1) (c', m')"
    proof (rule Suc.IH [OF t(2)])
      show "e - (p + ?n) < fuel" using r(2) Suc.prems(6) True by linarith
    qed (use Suc.prems(2,4,5) r(4) k in simp_all)
    then obtain c2 m2 where ih: "commit_loop os_commit fuel ((p + ?n) * page_sz m1) (e * page_sz m1) (c1, m1) = Some (e * page_sz m1, c2, m2)"
      "chunk_rep a c2 m2 (P \<union> {p..<p + ?n} \<union> {p + ?n..<e})" "kept (c1, m1) (c2, m2)"
      by blast
    have u: "P \<union> {p..<p + ?n} \<union> {p + ?n..<e} = P \<union> {p..<e}" using r(4) by auto
    have lt: "p * page_sz m < e * page_sz m" using True S by simp
    have "commit_loop os_commit (Suc fuel) (p * page_sz m) (e * page_sz m) (c, m) = Some (e * page_sz m, c2, m2)"
      using lt t(1) ih(1) k by (simp add: r(1) Let_def add_mult_distrib)
    then show ?thesis using ih(2) [unfolded u] kept_trans [OF t(3) ih(3)] by blast
  qed
qed

lemma decommit_loop_spec:
  assumes "chunk_rep a c m P" and "finite P" and "p \<le> e" and "e * page_sz m \<le> max_bytes c" and "e - p < fuel"
  shows "\<exists>c' m'. decommit_loop fuel (p * page_sz m) (e * page_sz m) (c, m) = Some (c', m')
    \<and> chunk_rep a c' m' (P - {p..<e}) \<and> kept (c, m) (c', m')"
  using assms
proof (induction fuel arbitrary: p c m P)
  case 0
  then show ?case by simp
next
  case (Suc fuel)
  have S: "0 < page_sz m" by (simp add: geometry)
  show ?case
  proof (cases "p < e")
    case False
    then have "p = e" using Suc.prems(3) by simp
    then show ?thesis using Suc.prems(1) by simp
  next
    case True
    let ?n = "min (e - p) (npages m - p mod npages m)"
    note r = round_pages [OF True, of m]
    have "(p + ?n) * page_sz m \<le> e * page_sz m" using r(4) by (rule mult_le_mono1)
    then obtain c1 m1 where t: "decommit_table (p * page_sz m) ?n (c, m) = Some (c1, m1)"
      "chunk_rep a c1 m1 (P - {p..<p + ?n})" "kept (c, m) (c1, m1)"
      using decommit_table_spec [OF Suc.prems(1,2) r(2,3)] Suc.prems(4) by (meson le_trans)
    note k = kept_sizes [OF t(3)]
    have "\<exists>c' m'. decommit_loop fuel ((p + ?n) * page_sz m1) (e * page_sz m1) (c1, m1) = Some (c', m')
      \<and> chunk_rep a c' m' (P - {p..<p + ?n} - {p + ?n..<e}) \<and> kept (c1, m1) (c', m')"
    proof (rule Suc.IH [OF t(2)])
      show "e - (p + ?n) < fuel" using r(2) Suc.prems(5) True by linarith
    qed (use Suc.prems(2,4) r(4) k in simp_all)
    then obtain c2 m2 where ih: "decommit_loop fuel ((p + ?n) * page_sz m1) (e * page_sz m1) (c1, m1) = Some (c2, m2)"
      "chunk_rep a c2 m2 (P - {p..<p + ?n} - {p + ?n..<e})" "kept (c1, m1) (c2, m2)"
      by blast
    have u: "P - {p..<p + ?n} - {p + ?n..<e} = P - {p..<e}" using r(4) by auto
    have lt: "p * page_sz m < e * page_sz m" using True S by simp
    have "decommit_loop (Suc fuel) (p * page_sz m) (e * page_sz m) (c, m) = Some (c2, m2)"
      using lt t(1) ih(1) k by (simp add: r(1) Let_def add_mult_distrib)
    then show ?thesis using ih(2) [unfolded u] kept_trans [OF t(3) ih(3)] by blast
  qed
qed

lemma commit_spec:
  assumes "chunk_rep a c m P" and "finite P" and "(p + n) * page_sz m \<le> max_bytes c"
    and "is_external_host c \<or> (\<forall>h b. os_commit h b)" and "n < fuel"
  shows "\<exists>c' m'. commit os_commit fuel (p * page_sz m) (n * page_sz m) (c, m) = Some (n * page_sz m, c', m')
    \<and> chunk_rep a c' m' (P \<union> {p..<p + n}) \<and> kept (c, m) (c', m')"
  using commit_loop_spec [OF assms(1,2) _ assms(3,4), of p fuel] assms(3,5)
  by (auto simp: commit_def add_mult_distrib)

lemma decommit_spec:
  assumes "chunk_rep a c m P" and "finite P" and "(p + n) * page_sz m \<le> max_bytes c" and "n < fuel"
  shows "\<exists>c' m'. decommit fuel (p * page_sz m) (n * page_sz m) (c, m) = Some (c', m')
    \<and> chunk_rep a c' m' (P - {p..<p + n}) \<and> kept (c, m) (c', m')"
proof -
  have "min (p * page_sz m + max_bytes c) (p * page_sz m + n * page_sz m) = (p + n) * page_sz m"
    using assms(3) by (simp add: add_mult_distrib)
  then show ?thesis using decommit_loop_spec [OF assms(1,2) _ assms(3), of p fuel] assms(4) by (simp add: decommit_def)
qed

text \<open>The set of pages that are committed after \<open>adjust\<close>: those between the new bottom and the new top, and,
  if the bottom moves down past the new top, the ones between the new top and the old bottom as well,
  since the bottom is committed up to the old one after the top has been moved.\<close>

definition adjusted_pages :: "nat \<Rightarrow> nat \<Rightarrow> nat \<Rightarrow> nat set" where
  "adjusted_pages old_bottom b t = {b..<t} \<union> (if b < old_bottom then {t..<old_bottom} - {..<b} else {})"

lemma adjust_top:
  assumes "chunk_rep a c m {b..<t}" and "b \<le> t" and "t' * page_sz m \<le> max_bytes c" and "t * page_sz m \<le> max_bytes c"
    and "is_external_host c \<or> (\<forall>h b. os_commit h b)" and "max t t' < fuel"
  shows "\<exists>c' m'. (if t' < t then decommit fuel (t' * page_sz m) ((t - t') * page_sz m) (c, m)
      else if t' > t then map_option snd (commit os_commit fuel (t * page_sz m) ((t' - t) * page_sz m) (c, m))
      else Some (c, m)) = Some (c', m') \<and> chunk_rep a c' m' {b..<t'} \<and> kept (c, m) (c', m')"
proof (cases rule: linorder_cases [of t' t])
  case less
  have "{b..<t} - {t'..<t' + (t - t')} = {b..<t'}" using less by auto
  then show ?thesis using decommit_spec [OF assms(1), of t' "t - t'" fuel] less assms(4,6) by auto
next
  case equal
  then show ?thesis using assms(1) by auto
next
  case greater
  have "{b..<t} \<union> {t..<t + (t' - t)} = {b..<t'}" using greater assms(2) by auto
  moreover have "t' - t < fuel" "(t + (t' - t)) * page_sz m \<le> max_bytes c" using greater assms(3,6) by auto
  ultimately show ?thesis using commit_spec [OF assms(1) _ _ assms(5), of t "t' - t" fuel] greater by fastforce
qed

lemma adjust_bottom:
  assumes "chunk_rep a c m {b..<t}" and "b' \<le> t" and "b * page_sz m \<le> max_bytes c" and "b' * page_sz m \<le> max_bytes c"
    and "is_external_host c \<or> (\<forall>h b. os_commit h b)" and "max b b' < fuel"
  shows "\<exists>c' m'. (if b' > b then decommit fuel (b * page_sz m) ((b' - b) * page_sz m) (c, m)
      else if b' < b then map_option snd (commit os_commit fuel (b' * page_sz m) ((b - b') * page_sz m) (c, m))
      else Some (c, m)) = Some (c', m') \<and> chunk_rep a c' m' (adjusted_pages b b' t) \<and> kept (c, m) (c', m')"
proof (cases rule: linorder_cases [of b b'])
  case less
  have "{b..<t} - {b..<b + (b' - b)} = adjusted_pages b b' t" using less by (auto simp: adjusted_pages_def)
  then show ?thesis using decommit_spec [OF assms(1), of b "b' - b" fuel] less assms(4,6) by auto
next
  case equal
  then show ?thesis using assms(1) by (auto simp: adjusted_pages_def)
next
  case greater
  have "{b..<t} \<union> {b'..<b' + (b - b')} = adjusted_pages b b' t" using greater assms(2) by (auto simp: adjusted_pages_def)
  moreover have "b - b' < fuel" "(b' + (b - b')) * page_sz m \<le> max_bytes c" using greater assms(3,6) by auto
  ultimately show ?thesis using commit_spec [OF assms(1) _ _ assms(5), of b' "b - b'" fuel] greater by fastforce
qed

lemma chunk_rep_cong:
  assumes "chunk_rep a c m P" and "ch_base c' = ch_base c" "host_base c' = host_base c" "own_asid c' = own_asid c"
    "is_local c' = is_local c" "max_bytes c' = max_bytes c" "ch_tabs c' = ch_tabs c" "committed c' = committed c"
    "page_bma c' = page_bma c"
  shows "chunk_rep a c' m P"
proof -
  have t: "table_rep c' = table_rep c" by (intro ext) (simp add: table_rep_def assms(3))
  have sh: "chunk_shape a c' m = chunk_shape a c m" by (simp add: chunk_shape_def assms(2-7))
  show ?thesis using assms(1) unfolding chunk_rep_def assms(2-9) t sh .
qed

lemma adjust_spec:
  assumes "chunk_rep a c m {bottom c..<top_page c}" and "bottom c \<le> top_page c" and "top_page c * page_sz m \<le> max_bytes c"
    and "lo \<le> hi" and "hi \<le> max_bytes c" and "lo \<noteq> no_bottom"
    and "is_external_host c \<or> (\<forall>h b. os_commit h b)" and "max_bytes c div page_sz m < fuel"
  defines "b' \<equiv> lo div page_sz m" and "t' \<equiv> (hi + page_sz m - 1) div page_sz m"
  shows "\<exists>c' m'. adjust os_commit fuel lo hi (c, m) = Some (True, c', m')
    \<and> chunk_rep a c' m' (adjusted_pages (bottom c) b' t') \<and> bottom c' = b' \<and> top_page c' = t'
    \<and> ch_base c' = ch_base c \<and> host_base c' = host_base c \<and> max_bytes c' = max_bytes c \<and> page_sz m' = page_sz m"
proof -
  let ?S = "page_sz m"
  have S: "0 < ?S" by (simp add: geometry)
  have "max_bytes c mod ?S = 0" using assms(1) by (simp add: chunk_rep_def chunk_shape_def)
  then obtain M where M: "max_bytes c = M * ?S" by (metis mod_0_imp_dvd dvd_def mult.commute)
  have Mf: "M < fuel" using assms(8) S by (simp add: M)
  have tb: "top_page c \<le> M" "bottom c \<le> M" using assms(2,3) S by (auto simp: M)
  have "hi + ?S - 1 < Suc M * ?S" using assms(5) S by (simp add: M)
  then have t': "t' \<le> M" unfolding t'_def using S by (simp add: div_less_iff_less_mult less_Suc_eq_le [symmetric])
  have b': "b' \<le> t'" unfolding b'_def t'_def using assms(4) S by (intro div_le_mono) simp
  have le: "q * ?S \<le> max_bytes c" if "q \<le> M" for q using that by (simp add: M)
  obtain c1 m1 where top: "(if t' < top_page c then decommit fuel (t' * ?S) ((top_page c - t') * ?S) (c, m)
      else if t' > top_page c then map_option snd (commit os_commit fuel (top_page c * ?S) ((t' - top_page c) * ?S) (c, m))
      else Some (c, m)) = Some (c1, m1)" "chunk_rep a c1 m1 {bottom c..<t'}" "kept (c, m) (c1, m1)"
    using adjust_top [OF assms(1,2) le [OF t'] assms(3,7), of fuel] t' tb Mf by auto
  define c2 where "c2 = c1\<lparr>top_page := t'\<rparr>"
  have rep2: "chunk_rep a c2 m1 {bottom c..<t'}" by (rule chunk_rep_cong [OF top(2)]) (simp_all add: c2_def)
  have k: "bottom c2 = bottom c" "page_sz m1 = ?S" "max_bytes c2 = max_bytes c" "is_external_host c2 = is_external_host c"
    "ch_base c2 = ch_base c" "host_base c2 = host_base c" "top_page c2 = t'" "bottom c1 = bottom c"
    using top(3) by (simp_all add: c2_def kept_def page_sz_def)
  have "b' * page_sz m1 \<le> max_bytes c2" "bottom c * page_sz m1 \<le> max_bytes c2" using le b' t' tb by (simp_all add: k)
  then obtain c3 m3 where bot: "(if b' > bottom c then decommit fuel (bottom c * ?S) ((b' - bottom c) * ?S) (c2, m1)
      else if b' < bottom c then map_option snd (commit os_commit fuel (b' * ?S) ((bottom c - b') * ?S) (c2, m1))
      else Some (c2, m1)) = Some (c3, m3)" "chunk_rep a c3 m3 (adjusted_pages (bottom c) b' t')" "kept (c2, m1) (c3, m3)"
    using adjust_bottom [OF rep2 b', of os_commit fuel, unfolded k(2)] assms(7) k(2,4) b' t' tb Mf by auto
  define c4 where "c4 = c3\<lparr>bottom := b'\<rparr>"
  have "chunk_rep a c4 m3 (adjusted_pages (bottom c) b' t')" by (rule chunk_rep_cong [OF bot(2)]) (simp_all add: c4_def)
  moreover have "adjust os_commit fuel lo hi (c, m) = Some (True, c4, m3)"
    unfolding adjust_def Let_def prod.case t'_def [symmetric] b'_def [symmetric] top(1)
    using bot(1) assms(6) k(1,8) by (auto simp: c2_def [symmetric] c4_def split: if_splits)
  ultimately show ?thesis using bot(3) k by (auto simp: c4_def kept_def page_sz_def)
qed

text \<open>A chunk just created, none of whose parts of the directory is in use.\<close>

lemma fresh_chunk_rep:
  assumes "chunk_shape a c m" and "committed c = 0" and "\<forall>i < length (ch_tabs c). ch_tabs c ! i = None"
    and "\<forall>i < length (ch_tabs c). page_tabs (dir_of a m) ! (ch_base c div chunk_sz m + i) = None"
    and "\<forall>ws. page_bma c = Some ws \<longrightarrow> max_bytes c div page_sz m \<le> 32 * length ws
          \<and> (\<forall>p < max_bytes c div page_sz m. cell_free ws p)"
  shows "chunk_rep a c m {}"
  using assms by (auto simp: chunk_rep_def)

section \<open>Properties\<close>

text \<open>C26. Adjusting a chunk to the range from \<open>lo\<close> to \<open>hi\<close> commits the pages of the range and decommits the
  others: afterwards the address of every byte of the chunk translates to its byte of host memory if
  its page is committed, and to nothing if it is not, and the committed size is that of these pages. The one
  exception is a bottom that moves down past the new top: there the pages between the new top and the
  old bottom are committed too.\<close>

theorem adjust_commits_range:
  assumes "chunk_rep a c m {bottom c..<top_page c}" and "bottom c \<le> top_page c" and "top_page c * page_sz m \<le> max_bytes c"
    and "lo \<le> hi" and "hi \<le> max_bytes c" and "lo \<noteq> no_bottom"
    and "is_external_host c \<or> (\<forall>h b. os_commit h b)" and "max_bytes c div page_sz m < fuel"
    and Q: "Q = adjusted_pages (bottom c) (lo div page_sz m) ((hi + page_sz m - 1) div page_sz m)"
  shows "\<exists>c' m'. adjust os_commit fuel lo hi (c, m) = Some (True, c', m')
    \<and> (\<forall>x < max_bytes c. get_host_pointer (int a) (ch_base c + x) m'
        = Some (if x div page_sz m \<in> Q then host_base c + x else 0))
    \<and> committed c' = card Q * page_sz m
    \<and> (bottom c \<le> lo div page_sz m \<longrightarrow> Q = {lo div page_sz m..<(hi + page_sz m - 1) div page_sz m})"
proof -
  obtain c' m' where s: "adjust os_commit fuel lo hi (c, m) = Some (True, c', m')" "chunk_rep a c' m' Q"
    "ch_base c' = ch_base c" "host_base c' = host_base c" "max_bytes c' = max_bytes c" "page_sz m' = page_sz m"
    using adjust_spec [OF assms(1-8)] unfolding Q by blast
  have "get_host_pointer (int a) (ch_base c + x) m' = Some (if x div page_sz m \<in> Q then host_base c + x else 0)"
    if "x < max_bytes c" for x using chunk_translation [OF s(2), of x] that by (simp add: s)
  moreover have "committed c' = card Q * page_sz m" using s(2,6) by (simp add: chunk_rep_def)
  ultimately show ?thesis using s(1) by (auto simp: Q adjusted_pages_def)
qed

subsection \<open>Sizes that are not whole pages\<close>

lemma commit_pages_keeps:
  "commit_pages ps pt_base t r (c, m) = (r', c', m') \<Longrightarrow> psize m' = psize m \<and> is_external_host c' = is_external_host c"
proof (induction ps arbitrary: r c m)
  case Nil
  then show ?case by simp
next
  case (Cons k ps)
  show ?case
  proof (cases "host_addr (pages (tables m ! t) ! k) = 0")
    case True
    then show ?thesis using Cons.IH Cons.prems by (force simp: Let_def)
  next
    case False
    obtain r1 fl ev where fm: "flush_mapped r (c, m) = (r1, c\<lparr>filled := fl\<rparr>, m\<lparr>cpu_events := ev\<rparr>)" using flush_mapped_eq by blast
    show ?thesis using Cons.IH [of r1 "c\<lparr>filled := fl\<rparr>" "m\<lparr>cpu_events := ev\<rparr>"] Cons.prems False by (simp add: fm)
  qed
qed

lemma assign_list_keeps: "assign_list f is m = Some m' \<Longrightarrow> psize m' = psize m"
  by (induction f "is" m rule: assign_list.induct) (auto simp: upd_dir_def split: if_splits bind_splits)

lemma assign_page_table_keeps: "assign_page_table tab x target m = Some m' \<Longrightarrow> psize m' = psize m"
  by (cases tab; cases target) (auto simp: assign_page_table_def Let_def upd_dir_def dest: assign_list_keeps)

lemma flush_mapped_keeps:
  "flush_mapped r (c, m) = (r', c', m') \<Longrightarrow> psize m' = psize m \<and> is_external_host c' = is_external_host c"
  using flush_mapped_eq [of r c m] by auto

lemma commit_table_keeps:
  assumes "commit_table os_commit running n (c, m) = Some (ok, c', m')" and "is_external_host c \<or> (\<forall>h b. os_commit h b)"
  shows "ok \<and> psize m' = psize m \<and> is_external_host c' = is_external_host c"
proof -
  have os: "\<not> (\<not> is_external_host c \<and> \<not> os_commit h' b')" for h' b' using assms(2) by blast
  show ?thesis using assms(1) os
    by (auto simp: commit_table_def Let_def split: bind_splits option.splits if_splits prod.splits
        dest!: commit_pages_keeps assign_page_table_keeps flush_mapped_keeps)
qed

lemma commit_loop_stuck:
  assumes "is_external_host c \<or> (\<forall>h b. os_commit h b)" and "(e - running) mod page_sz m \<noteq> 0"
  shows "commit_loop os_commit fuel running e (c, m) = None"
  using assms
proof (induction fuel arbitrary: running c m)
  case 0
  then show ?case by simp
next
  case (Suc fuel)
  let ?S = "page_sz m"
  define n where "n = min ((e - running) div ?S) ((chunk_sz m - running mod chunk_sz m) div ?S)"
  have lt: "running < e" using Suc.prems(2) by (cases "running < e") simp_all
  have "n * ?S \<le> (e - running) div ?S * ?S" by (simp add: n_def)
  then have le: "n * ?S \<le> e - running" using div_times_less_eq_dividend le_trans by blast
  have md: "(e - (running + n * ?S)) mod ?S \<noteq> 0"
  proof -
    have "e - running = (e - (running + n * ?S)) + n * ?S" using le lt by simp
    then show ?thesis using Suc.prems(2) by (metis mod_mult_self1)
  qed
  show ?case
  proof (cases "commit_table os_commit running n (c, m)")
    case None
    then show ?thesis using lt by (simp add: n_def [symmetric] Let_def)
  next
    case (Some r)
    obtain ok c1 m1 where r: "r = (ok, c1, m1)" by (cases r)
    have k: "ok" "psize m1 = psize m" "is_external_host c1 = is_external_host c"
      using commit_table_keeps [OF Some [unfolded r] Suc.prems(1)] by simp_all
    then have S: "page_sz m1 = ?S" by (simp add: page_sz_def)
    have "commit_loop os_commit fuel (running + n * ?S) e (c1, m1) = None"
      by (rule Suc.IH) (use Suc.prems(1) md k S in simp_all)
    then show ?thesis using lt Some r k(1) S by (simp add: n_def [symmetric] Let_def)
  qed
qed

text \<open>A commit whose part inside the chunk is not a whole number of pages does not end: once less than a
  page is left, no page is committed and the offset is not advanced. Whatever the number of rounds
  allowed, none yields a result (given that the host gives the memory, without which the commit fails).\<close>

theorem commit_unaligned_never_returns:
  assumes "is_external_host c \<or> (\<forall>h b. os_commit h b)" and "(min (max_bytes c) (off + sz) - off) mod page_sz m \<noteq> 0"
  shows "commit os_commit fuel off sz (c, m) = None"
  using commit_loop_stuck [OF assms] by (simp add: commit_def)

section \<open>Concrete executions\<close>

definition demo_mmu :: mmu where
  "demo_mmu = snd (rollover_fresh_addr_space (new_mmu 12 False))"

definition demo_chunk :: mchunk where
  "demo_chunk = \<lparr>ch_base = 0x400000, host_base = 0x10000000, own_asid = Some 1, committed = 0, max_bytes = 0x200000,
     ch_tabs = [None, None], page_bma = None, is_local = True, is_code = False, is_external_host = False, permission = 3,
     bottom = 0, top_page = 0, filled = []\<rparr>"

lemma demo_page: "page_sz demo_mmu = 4096"
  by (simp add: demo_mmu_def rollover_fresh_addr_space_def new_mmu_def page_sz_def page_bits_def)

lemma demo_rep_bitmap:
  assumes "\<forall>ws. b = Some ws \<longrightarrow> 16 \<le> length ws \<and> (\<forall>p < 512. cell_free ws p)"
  shows "chunk_rep 1 (demo_chunk\<lparr>page_bma := b\<rparr>) demo_mmu {}"
proof (rule fresh_chunk_rep)
  let ?c = "demo_chunk\<lparr>page_bma := b\<rparr>"
  have m: "demo_mmu = (new_mmu 12 False)\<lparr>dirs := [(new_page_directory 12 1)\<lparr>occupied := True\<rparr>]\<rparr>"
    by (simp add: demo_mmu_def rollover_fresh_addr_space_def new_mmu_def)
  show "chunk_shape 1 ?c demo_mmu"
    by (simp add: chunk_shape_def m demo_chunk_def dir_of_def new_mmu_def new_page_directory_def chunk_sz_def page_sz_def
        table_index_shift_def page_bits_def shared_address_def tables_ok_def)
  show "\<forall>i<length (ch_tabs ?c). page_tabs (dir_of 1 demo_mmu) ! (ch_base ?c div chunk_sz demo_mmu + i) = None"
    by (simp add: m demo_chunk_def dir_of_def new_mmu_def new_page_directory_def chunk_sz_def table_index_shift_def tables_per_dir_def)
  show "\<forall>ws. page_bma ?c = Some ws \<longrightarrow> max_bytes ?c div page_sz demo_mmu \<le> 32 * length ws
      \<and> (\<forall>p<max_bytes ?c div page_sz demo_mmu. cell_free ws p)"
    using assms by (auto simp: demo_chunk_def demo_page)
qed (auto simp: demo_chunk_def nth_Cons')

lemma demo_rep: "chunk_rep 1 demo_chunk demo_mmu {}"
  using demo_rep_bitmap [of None] by (simp add: demo_chunk_def)

text \<open>A chunk of two megabytes with nothing committed is adjusted to the bytes from 0x1800 to 0x3001: the pages
  1 to 3.\<close>

theorem adjust_commits_range_witness:
  "\<exists>c' m'. adjust (\<lambda>_ _. True) 600 0x1800 0x3001 (demo_chunk, demo_mmu) = Some (True, c', m')
    \<and> get_host_pointer 1 0x400800 m' = Some 0 \<and> get_host_pointer 1 0x402345 m' = Some 0x10002345
    \<and> get_host_pointer 1 0x404000 m' = Some 0 \<and> committed c' = 3 * 4096"
proof -
  have Q: "adjusted_pages (bottom demo_chunk) (0x1800 div page_sz demo_mmu) ((0x3001 + page_sz demo_mmu - 1) div page_sz demo_mmu) = {1..<4}"
    by (auto simp: adjusted_pages_def demo_page demo_chunk_def)
  have r: "chunk_rep 1 demo_chunk demo_mmu {bottom demo_chunk..<top_page demo_chunk}" using demo_rep by (simp add: demo_chunk_def)
  have "\<exists>c' m'. adjust (\<lambda>_ _. True) 600 0x1800 0x3001 (demo_chunk, demo_mmu) = Some (True, c', m')
    \<and> (\<forall>x < max_bytes demo_chunk. get_host_pointer (int 1) (ch_base demo_chunk + x) m'
        = Some (if x div page_sz demo_mmu \<in> {1..<4} then host_base demo_chunk + x else 0))
    \<and> committed c' = card {1..<4::nat} * page_sz demo_mmu
    \<and> (bottom demo_chunk \<le> 0x1800 div page_sz demo_mmu \<longrightarrow>
        {1..<4} = {0x1800 div page_sz demo_mmu..<(0x3001 + page_sz demo_mmu - 1) div page_sz demo_mmu})"
    by (rule adjust_commits_range [OF r]) (simp_all only: Q, simp_all add: demo_chunk_def no_bottom_def demo_page)
  then obtain c' m' where s: "adjust (\<lambda>_ _. True) 600 0x1800 0x3001 (demo_chunk, demo_mmu) = Some (True, c', m')"
    "committed c' = 3 * 4096" "\<forall>x < 0x200000. get_host_pointer 1 (0x400000 + x) m'
        = Some (if x div 4096 \<in> {1..<4} then 0x10000000 + x else 0)" by (auto simp: demo_chunk_def demo_page)
  then show ?thesis using s(1,2) spec [OF s(3), of "0x800"] spec [OF s(3), of "0x2345"] spec [OF s(3), of "0x4000"] by auto
qed

theorem commit_unaligned_never_returns_witness:
  "commit (\<lambda>_ _. True) 1000 0 100 (demo_chunk, demo_mmu) = None"
  by (rule commit_unaligned_never_returns) (simp_all add: demo_chunk_def demo_page)

end
