(* ===== verification/Mem_Process.thy ===== *)
theory Mem_Process imports Chunk_Rep Common_Algorithm begin

text \<open>
  The address spaces of processes in the multiple memory model: the sections of the address space
  (\<open>mem/model/section.h\<close>), the creation of chunks (\<open>mem/model/multiple/chunk.cpp\<close>), the chunks of a process
  (\<open>mem/model/multiple/process.cpp\<close>), the reads and writes of the CPU (\<open>mem/mmu.cpp\<close>, \<open>mem/mem.cpp\<close>), the
  remapping at a context switch (\<open>mem/chunk.cpp\<close>) and the chunk objects of the kernel (\<open>kernel/chunk.cpp\<close>).
\<close>

section \<open>Sections\<close>

record linear_section =
  sec_beg :: nat
  sec_end :: nat
  sec_psize :: nat
  sec_alloc :: "u32 list"

definition new_section :: "nat \<Rightarrow> nat \<Rightarrow> nat \<Rightarrow> linear_section" where
  "new_section b e p = \<lparr>sec_beg = b, sec_end = e, sec_psize = p, sec_alloc = bitmap_init ((e + 2 ^ 32 - b) mod 2 ^ 32 div p)\<rparr>"

record mem_sys =
  the_mmu :: mmu
  user_global_sec :: linear_section
  user_code_sec :: linear_section
  user_rom_sec :: linear_section
  kernel_mapping_sec :: linear_section

definition new_mem_sys :: "nat \<Rightarrow> bool \<Rightarrow> mem_sys" where
  "new_mem_sys b old = (let m = new_mmu b old; p = page_sz m in \<lparr>the_mmu = m,
     user_global_sec = new_section (if old then 0x10000000 else 0x40000000) (if old then 0x30000000 else 0xA0000000) p,
     user_code_sec = new_section (if old then 0xE0000000 else 0x70000000) (if old then 0xF0000000 else 0x38000000) p,
     user_rom_sec = new_section (if old then 0x50000000 else 0x80000000) (if old then 0x60000000 else 0x90000000) p,
     kernel_mapping_sec = new_section 0xC9200000 0xFFFF0000 p\<rparr>)"

text \<open>A process; a chunk is named by its index in the vector of chunks. The address space stands for the
  process in \<^const>\<open>own_asid\<close>.\<close>

record mem_process =
  pr_asid :: int
  user_local_sec :: linear_section
  user_dll_static_data_sec :: linear_section
  chunks :: "mchunk option list"

definition new_mem_process :: "mem_sys \<Rightarrow> mem_process \<times> mem_sys" where
  "new_mem_process ms = (let (i, m) = rollover_fresh_addr_space (the_mmu ms); old = mem_map_old m; p = page_sz m in
     (\<lparr>pr_asid = i,
       user_local_sec = new_section 0x00400000 (if old then 0x10000000 else 0x40000000) p,
       user_dll_static_data_sec = new_section (if old then 0x80000000 else 0x38000000) (if old then 0x88000000 else 0x40000000) p,
       chunks = []\<rparr>, ms\<lparr>the_mmu := m\<rparr>))"

section \<open>Creating a chunk\<close>

datatype region = Region_user_global | Region_user_local | Region_user_code | Region_user_rom | Region_kernel_mapping
  | Region_dll_static_data | Type_disconnect | Type_normal | Type_double_ended

text \<open>The flags of a chunk are the set of the bits that are set.\<close>

record chunk_info =
  ci_size :: nat
  ci_flags :: "region list"
  ci_perm :: nat
  ci_addr :: nat
  ci_host_map :: nat

datatype section_id = Sec_code | Sec_global | Sec_local | Sec_dll | Sec_rom | Sec_kmap

definition get_section :: "region list \<Rightarrow> section_id option" where
  "get_section flags =
     (if Region_user_code \<in> set flags then Some Sec_code
      else if Region_user_global \<in> set flags then Some Sec_global
      else if Region_user_local \<in> set flags then Some Sec_local
      else if Region_dll_static_data \<in> set flags then Some Sec_dll
      else if Region_user_rom \<in> set flags then Some Sec_rom
      else if Region_kernel_mapping \<in> set flags then Some Sec_kmap
      else None)"

text \<open>The sections of a process can only be reached with a process.\<close>

definition section_of :: "section_id \<Rightarrow> mem_sys \<Rightarrow> mem_process option \<Rightarrow> linear_section undef" where
  "section_of i ms pr = (case i of
     Sec_code \<Rightarrow> Some (user_code_sec ms)
   | Sec_global \<Rightarrow> Some (user_global_sec ms)
   | Sec_local \<Rightarrow> map_option user_local_sec pr
   | Sec_dll \<Rightarrow> map_option user_dll_static_data_sec pr
   | Sec_rom \<Rightarrow> Some (user_rom_sec ms)
   | Sec_kmap \<Rightarrow> Some (kernel_mapping_sec ms))"

definition upd_section :: "section_id \<Rightarrow> u32 list \<Rightarrow> mem_sys \<times> mem_process option \<Rightarrow> mem_sys \<times> mem_process option" where
  "upd_section i ws s = (case s of (ms, pr) \<Rightarrow> (case i of
     Sec_code \<Rightarrow> (ms\<lparr>user_code_sec := (user_code_sec ms)\<lparr>sec_alloc := ws\<rparr>\<rparr>, pr)
   | Sec_global \<Rightarrow> (ms\<lparr>user_global_sec := (user_global_sec ms)\<lparr>sec_alloc := ws\<rparr>\<rparr>, pr)
   | Sec_local \<Rightarrow> (ms, map_option (\<lambda>p. p\<lparr>user_local_sec := (user_local_sec p)\<lparr>sec_alloc := ws\<rparr>\<rparr>) pr)
   | Sec_dll \<Rightarrow> (ms, map_option (\<lambda>p. p\<lparr>user_dll_static_data_sec := (user_dll_static_data_sec p)\<lparr>sec_alloc := ws\<rparr>\<rparr>) pr)
   | Sec_rom \<Rightarrow> (ms\<lparr>user_rom_sec := (user_rom_sec ms)\<lparr>sec_alloc := ws\<rparr>\<rparr>, pr)
   | Sec_kmap \<Rightarrow> (ms\<lparr>kernel_mapping_sec := (kernel_mapping_sec ms)\<lparr>sec_alloc := ws\<rparr>\<rparr>, pr)))"

definition new_mchunk :: "int option \<Rightarrow> mchunk" where
  "new_mchunk own = \<lparr>ch_base = 0, host_base = 0, own_asid = own, committed = 0, max_bytes = 0, ch_tabs = [],
     page_bma = None, is_local = False, is_code = False, is_external_host = False, permission = 0, bottom = 0,
     top_page = 0, filled = []\<rparr>"

text \<open>\<open>do_create\<close>: the result code, the chunk, the sections. \<open>os_map\<close> is the host's reservation of memory of a given
  size, 0 when it fails. The size the granularity gives is overwritten on every path that goes on and
  left out. Pages of the sections are counted by the shift of the page size.\<close>

definition total_pt :: "nat \<Rightarrow> mmu \<Rightarrow> nat" where
  "total_pt sz m = (sz + (chunk_sz m - 1)) div chunk_sz m"

definition max_pages :: "nat \<Rightarrow> mmu \<Rightarrow> nat" where
  "max_pages sz m = total_pt sz m * 2 ^ page_per_tab_shift (psize m)"

definition place_chunk :: "chunk_info \<Rightarrow> linear_section \<Rightarrow> mmu \<Rightarrow> ((nat \<times> nat) option \<times> u32 list) undef" where
  "place_chunk ci sec m =
     (if ci_addr ci = 0 then do {
        (offset, _, ws) \<leftarrow> allocate_from 0 (max_pages (ci_size ci) m) False (sec_alloc sec);
        if offset = -1 then Some (None, ws)
        else Some (Some (nat offset * page_sz m + sec_beg sec, max_pages (ci_size ci) m * page_sz m), ws)
      }
      else do {
        guard (sec_beg sec \<le> ci_addr ci);
        (n, ws) \<leftarrow> force_fill ((ci_addr ci - sec_beg sec) div page_sz m) (int (max_pages (ci_size ci) m)) False (sec_alloc sec);
        Some (Some (ci_addr ci, nat n * page_sz m), ws)
      })"

definition do_create :: "(nat \<Rightarrow> nat) \<Rightarrow> chunk_info \<Rightarrow> mchunk \<Rightarrow> mem_sys \<times> mem_process option
    \<Rightarrow> (int \<times> mchunk \<times> mem_sys \<times> mem_process option) undef" where
  "do_create os_map ci c s = (case get_section (ci_flags ci) of
     None \<Rightarrow> Some (-2, c, s)
   | Some i \<Rightarrow> do {
       sec \<leftarrow> section_of i (fst s) (snd s);
       let m = the_mmu (fst s);
       let c = c\<lparr>is_local := Region_user_local \<in> set (ci_flags ci), is_code := Region_user_code \<in> set (ci_flags ci)\<rparr>;
       (place, ws) \<leftarrow> place_chunk ci sec m;
       let s = upd_section i ws s;
       case place of
         None \<Rightarrow> Some (-3, c, s)
       | Some (addr, sz) \<Rightarrow>
           let host = (if ci_host_map ci \<noteq> 0 then ci_host_map ci else os_map sz);
               c = c\<lparr>ch_base := addr, max_bytes := sz, committed := 0, host_base := host, is_external_host := ci_host_map ci \<noteq> 0\<rparr>
           in if host = 0 then Some (-3, c, s)
              else Some (0, c\<lparr>ch_tabs := replicate (total_pt (ci_size ci) m) None, permission := ci_perm ci,
                page_bma := (if Type_disconnect \<in> set (ci_flags ci) then Some (bitmap_init (sz div page_sz m)) else page_bma c)\<rparr>, s)
     })"

section \<open>The chunks of a process\<close>

definition allocate_chunk_slot :: "mem_process \<Rightarrow> (nat \<times> mem_process) option" where
  "allocate_chunk_slot pr =
     (if length (chunks pr) \<ge> 512 then None
      else case find_index (\<lambda>c. c = None) (chunks pr) of
             Some i \<Rightarrow> Some (i, pr\<lparr>chunks := (chunks pr)[i := Some (new_mchunk (Some (pr_asid pr)))]\<rparr>)
           | None \<Rightarrow> Some (length (chunks pr), pr\<lparr>chunks := chunks pr @ [Some (new_mchunk (Some (pr_asid pr)))]\<rparr>))"

text \<open>The chunk stays in its slot when its creation fails.\<close>

definition create_chunk :: "(nat \<Rightarrow> nat) \<Rightarrow> chunk_info \<Rightarrow> mem_sys \<times> mem_process \<Rightarrow> (int \<times> nat option \<times> mem_sys \<times> mem_process) undef" where
  "create_chunk os_map ci s = (case s of (ms, pr) \<Rightarrow>
     case allocate_chunk_slot pr of
       None \<Rightarrow> Some (-1, None, ms, pr)
     | Some (i, pr) \<Rightarrow> do {
         c \<leftarrow> chunks pr ! i;
         (err, c, ms, pr) \<leftarrow> do_create os_map ci c (ms, Some pr);
         pr \<leftarrow> pr;
         Some (err, Some i, ms, pr\<lparr>chunks := (chunks pr)[i := Some c]\<rparr>)
       })"

text \<open>The memory is decommitted and the slot emptied. Neither the address range nor the page tables of the
  chunk are given back.\<close>

definition delete_chunk :: "nat \<Rightarrow> nat \<Rightarrow> mem_sys \<times> mem_process \<Rightarrow> (mem_sys \<times> mem_process) undef" where
  "delete_chunk fuel i s = (case s of (ms, pr) \<Rightarrow> do {
     guard (i < length (chunks pr));
     c \<leftarrow> chunks pr ! i;
     (_, m) \<leftarrow> decommit fuel 0 (max_bytes c) (c, the_mmu ms);
     Some (ms\<lparr>the_mmu := m\<rparr>, pr\<lparr>chunks := (chunks pr)[i := None]\<rparr>)
   })"

text \<open>What follows the first test of \<open>attach_chunk\<close> is never reached.\<close>

definition attach_chunk :: "mem_process \<Rightarrow> mchunk \<Rightarrow> bool" where
  "attach_chunk pr c \<longleftrightarrow> \<not> (is_local c \<and> own_asid c \<noteq> Some (pr_asid pr))"

text \<open>\<open>asids\<close> are the attached address spaces of the chunk. The tables are taken from the directory at
  addresses a page, not a table, apart.\<close>

fun unassign_tabs :: "nat \<Rightarrow> nat option list \<Rightarrow> nat \<Rightarrow> int \<Rightarrow> mmu \<Rightarrow> mmu undef" where
  "unassign_tabs i [] b a m = Some m"
| "unassign_tabs i (t # ts) b a m = do {
     m \<leftarrow> (if t \<noteq> None then assign_page_table None (b + i * page_sz m) (Assign_list [a]) m else Some m);
     unassign_tabs (Suc i) ts b a m
   }"

definition detach_chunk :: "mem_process \<Rightarrow> mchunk \<Rightarrow> int list \<Rightarrow> mmu \<Rightarrow> (bool \<times> int list \<times> mmu) undef" where
  "detach_chunk pr c asids m =
     (if pr_asid pr \<notin> set asids then Some (False, asids, m)
      else do {
        m \<leftarrow> unassign_tabs 0 (ch_tabs c) (ch_base c) (pr_asid pr) m;
        Some (True, remove1 (pr_asid pr) asids, m)
      })"

section \<open>Telling the CPU at a context switch\<close>

definition do_the_map :: "mchunk \<Rightarrow> bool \<Rightarrow> nat \<Rightarrow> nat \<Rightarrow> mmu \<Rightarrow> mmu" where
  "do_the_map c mapping start_index page_count m =
     (if mapping then map_to_cpu (ch_base c + start_index * page_sz m) (page_count * page_sz m)
           (host_base c + start_index * page_sz m) m
      else unmap_from_cpu (ch_base c + start_index * page_sz m) (page_count * page_sz m) m)"

text \<open>\<open>1 << k\<close> is undefined from 32 on.\<close>

function run_stop :: "u32 \<Rightarrow> nat \<Rightarrow> nat undef" where
  "run_stop w k = (if k < 32 then if bit w k then run_stop w (Suc k) else Some k else None)"
  by pat_completeness auto
termination by (relation "measure (\<lambda>(w, k). 32 - k)") auto

declare run_stop.simps [simp del]

fun map_word :: "nat \<Rightarrow> mchunk \<Rightarrow> bool \<Rightarrow> nat \<Rightarrow> u32 \<Rightarrow> nat \<Rightarrow> nat \<Rightarrow> mmu \<Rightarrow> mmu undef" where
  "map_word 0 c mapping i w k e m = None"
| "map_word (Suc fuel) c mapping i w k e m =
     (if k \<le> e then do {
        guard (k < 32);
        if bit w k then do {
          k' \<leftarrow> run_stop w k;
          map_word fuel c mapping i w (Suc k') e (do_the_map c mapping (i * 32 + k) (k' - k) m)
        }
        else map_word fuel c mapping i w (Suc k) e m
      }
      else Some m)"

fun map_words :: "mchunk \<Rightarrow> bool \<Rightarrow> nat \<Rightarrow> u32 list \<Rightarrow> mmu \<Rightarrow> mmu undef" where
  "map_words c mapping i [] m = Some m"
| "map_words c mapping i (w # ws) m = do {
     m \<leftarrow> (if w = 0 then Some m
           else if w = 0xFFFFFFFF then Some (do_the_map c mapping (i * 32) 32 m)
           else map_word 34 c mapping i w 0 (find_most_significant_bit_one w) m);
     map_words c mapping (Suc i) ws m
   }"

definition manipulate_cpu_map :: "mchunk \<Rightarrow> bool \<Rightarrow> mmu \<Rightarrow> mmu undef" where
  "manipulate_cpu_map c mapping m =
     (if ch_base c = 0 then Some m
      else case page_bma c of
             None \<Rightarrow> Some (do_the_map c mapping (bottom c) ((top_page c + 2 ^ 32 - bottom c) mod 2 ^ 32) m)
           | Some ws \<Rightarrow> map_words c mapping 0 ws m)"

fun manipulate_all :: "mchunk option list \<Rightarrow> bool \<Rightarrow> mmu \<Rightarrow> mmu undef" where
  "manipulate_all [] mapping m = Some m"
| "manipulate_all (c # cs) mapping m = do {
     m \<leftarrow> (case c of None \<Rightarrow> Some m
           | Some c \<Rightarrow> if is_local c \<or> is_code c then manipulate_cpu_map c mapping m else Some m);
     manipulate_all cs mapping m
   }"

text \<open>\<open>clears\<close>: whether the CPU wants old mappings removed.\<close>

definition unmap_process_from_cpu :: "bool \<Rightarrow> mem_process \<Rightarrow> mmu \<Rightarrow> mmu undef" where
  "unmap_process_from_cpu clears pr m = (if \<not> clears then Some m else manipulate_all (chunks pr) False m)"

definition remap_process_to_cpu :: "mem_process \<Rightarrow> mmu \<Rightarrow> mmu undef" where
  "remap_process_to_cpu pr m = manipulate_all (chunks pr) True m"

section \<open>Reads and writes\<close>

text \<open>Host memory, by host address. The host is little-endian.\<close>

type_synonym host_mem = "nat \<Rightarrow> u8"

fun load_le :: "nat \<Rightarrow> host_mem \<Rightarrow> nat \<Rightarrow> u64" where
  "load_le 0 h p = 0"
| "load_le (Suc n) h p = or (ucast (h p)) (push_bit 8 (load_le n h (Suc p)))"

fun store_le :: "nat \<Rightarrow> u64 \<Rightarrow> nat \<Rightarrow> host_mem \<Rightarrow> host_mem" where
  "store_le 0 v p h = h"
| "store_le (Suc n) v p h = store_le n (drop_bit 8 v) (Suc p) (h(p := ucast v))"

definition read_data :: "nat \<Rightarrow> nat \<Rightarrow> host_mem \<Rightarrow> mmu \<Rightarrow> u64 option undef" where
  "read_data n addr h m = do {
     p \<leftarrow> get_host_pointer (-1) addr m;
     Some (if p = 0 then None else Some (load_le n h p))
   }"

definition read_8bit_data :: "nat \<Rightarrow> host_mem \<Rightarrow> mmu \<Rightarrow> u8 option undef" where
  "read_8bit_data addr h m = map_option (map_option ucast) (read_data 1 addr h m)"

definition read_16bit_data :: "nat \<Rightarrow> host_mem \<Rightarrow> mmu \<Rightarrow> u16 option undef" where
  "read_16bit_data addr h m = map_option (map_option ucast) (read_data 2 addr h m)"

definition read_32bit_data :: "nat \<Rightarrow> host_mem \<Rightarrow> mmu \<Rightarrow> u32 option undef" where
  "read_32bit_data addr h m = map_option (map_option ucast) (read_data 4 addr h m)"

definition read_64bit_data :: "nat \<Rightarrow> host_mem \<Rightarrow> mmu \<Rightarrow> u64 option undef" where
  "read_64bit_data addr h m = map_option (map_option ucast) (read_data 8 addr h m)"

definition write_data :: "nat \<Rightarrow> nat \<Rightarrow> u64 \<Rightarrow> host_mem \<Rightarrow> mmu \<Rightarrow> (bool \<times> host_mem) undef" where
  "write_data n addr v h m = do {
     p \<leftarrow> get_host_pointer (-1) addr m;
     Some (if p = 0 then (False, h) else (True, store_le n v p h))
   }"

definition write_8bit_data :: "nat \<Rightarrow> u8 \<Rightarrow> host_mem \<Rightarrow> mmu \<Rightarrow> (bool \<times> host_mem) undef" where
  "write_8bit_data addr v = write_data 1 addr (ucast v)"

definition write_16bit_data :: "nat \<Rightarrow> u16 \<Rightarrow> host_mem \<Rightarrow> mmu \<Rightarrow> (bool \<times> host_mem) undef" where
  "write_16bit_data addr v = write_data 2 addr (ucast v)"

definition write_32bit_data :: "nat \<Rightarrow> u32 \<Rightarrow> host_mem \<Rightarrow> mmu \<Rightarrow> (bool \<times> host_mem) undef" where
  "write_32bit_data addr v = write_data 4 addr (ucast v)"

definition write_64bit_data :: "nat \<Rightarrow> u64 \<Rightarrow> host_mem \<Rightarrow> mmu \<Rightarrow> (bool \<times> host_mem) undef" where
  "write_64bit_data addr v = write_data 8 addr (ucast v)"

definition get_real_pointer :: "nat \<Rightarrow> int \<Rightarrow> mmu \<Rightarrow> nat undef" where
  "get_real_pointer addr i m = (if addr = 0 then Some 0 else get_host_pointer i addr m)"

definition mem_read :: "nat \<Rightarrow> nat \<Rightarrow> host_mem \<Rightarrow> mmu \<Rightarrow> u8 list option undef" where
  "mem_read addr n h m = do {
     p \<leftarrow> get_real_pointer addr (-1) m;
     Some (if p = 0 then None else Some (map h [p..<p + n]))
   }"

fun store_bytes :: "u8 list \<Rightarrow> nat \<Rightarrow> host_mem \<Rightarrow> host_mem" where
  "store_bytes [] p h = h"
| "store_bytes (b # bs) p h = store_bytes bs (Suc p) (h(p := b))"

definition mem_write :: "nat \<Rightarrow> u8 list \<Rightarrow> host_mem \<Rightarrow> mmu \<Rightarrow> (bool \<times> host_mem) undef" where
  "mem_write addr bs h m = do {
     p \<leftarrow> get_real_pointer addr (-1) m;
     Some (if p = 0 then (False, h) else (True, store_bytes bs p h))
   }"

section \<open>The chunk objects of the kernel\<close>

datatype chunk_type = Disconnected | Double_ended | Normal
datatype chunk_access = Acc_global | Acc_local | Acc_code | Acc_rom | Acc_dll_static_data | Acc_kernel_mapping

text \<open>The implementation of a chunk is one of the chunks of its process, or its own.\<close>

datatype chunk_impl = In_process nat | Unowned mchunk

record kchunk =
  ck_type :: chunk_type
  ck_is_heap :: bool
  ck_impl :: chunk_impl

definition access_flags :: "chunk_access \<Rightarrow> region list" where
  "access_flags a = (case a of Acc_global \<Rightarrow> [Region_user_global] | Acc_local \<Rightarrow> [Region_user_local] | Acc_code \<Rightarrow> [Region_user_code]
     | Acc_rom \<Rightarrow> [Region_user_rom] | Acc_kernel_mapping \<Rightarrow> [Region_kernel_mapping] | Acc_dll_static_data \<Rightarrow> [Region_dll_static_data])"

definition type_flags :: "chunk_type \<Rightarrow> region list" where
  "type_flags t = (case t of Disconnected \<Rightarrow> [Type_disconnect] | Double_ended \<Rightarrow> [Type_double_ended] | Normal \<Rightarrow> [Type_normal])"

text \<open>An operation of the memory model on the implementation of a chunk.\<close>

definition on_impl :: "(mchunk \<times> mmu \<Rightarrow> ('r \<times> mchunk \<times> mmu) undef) \<Rightarrow> kchunk \<Rightarrow> mem_sys \<times> mem_process option
    \<Rightarrow> ('r \<times> kchunk \<times> mem_sys \<times> mem_process option) undef" where
  "on_impl f k s = (case s of (ms, pr) \<Rightarrow> (case ck_impl k of
     Unowned c \<Rightarrow> do {
       (r, c, m) \<leftarrow> f (c, the_mmu ms);
       Some (r, k\<lparr>ck_impl := Unowned c\<rparr>, ms\<lparr>the_mmu := m\<rparr>, pr)
     }
   | In_process i \<Rightarrow> do {
       p \<leftarrow> pr;
       guard (i < length (chunks p));
       c \<leftarrow> chunks p ! i;
       (r, c, m) \<leftarrow> f (c, the_mmu ms);
       Some (r, k, ms\<lparr>the_mmu := m\<rparr>, Some (p\<lparr>chunks := (chunks p)[i := Some c]\<rparr>))
     }))"

text \<open>The constructor. It ignores the result of the creation and goes on with a chunk that is missing or whose
  fields are not set: undefined behaviour.\<close>

definition new_kchunk :: "(nat \<Rightarrow> nat) \<Rightarrow> (nat \<Rightarrow> nat \<Rightarrow> bool) \<Rightarrow> nat \<Rightarrow> nat \<Rightarrow> nat \<Rightarrow> nat \<Rightarrow> nat \<Rightarrow> chunk_type \<Rightarrow> chunk_access \<Rightarrow> bool
    \<Rightarrow> nat \<Rightarrow> nat \<Rightarrow> mem_sys \<times> mem_process option \<Rightarrow> (kchunk \<times> mem_sys \<times> mem_process option) undef" where
  "new_kchunk os_map os_commit fuel lo hi sz prot type acc heap force_addr host_map s = (case s of (ms, pr) \<Rightarrow>
     let ci = \<lparr>ci_size = sz, ci_flags = access_flags acc @ type_flags type, ci_perm = prot, ci_addr = force_addr,
           ci_host_map = host_map\<rparr> in do {
       (k, s) \<leftarrow> (case pr of
          Some p \<Rightarrow> do {
            (err, i, ms, p) \<leftarrow> create_chunk os_map ci (ms, p);
            guard (err = 0);
            i \<leftarrow> i;
            Some (\<lparr>ck_type = type, ck_is_heap = heap, ck_impl = In_process i\<rparr>, ms, Some p)
          }
        | None \<Rightarrow> do {
            (err, c, s) \<leftarrow> do_create os_map ci (new_mchunk None) (ms, None);
            guard (err = 0);
            Some (\<lparr>ck_type = type, ck_is_heap = heap, ck_impl = Unowned c\<rparr>, s)
          });
       (_, k, s) \<leftarrow> on_impl (adjust os_commit fuel lo hi) k s;
       Some (k, s)
     })"

definition kchunk_destroy :: "nat \<Rightarrow> kchunk \<Rightarrow> mem_sys \<times> mem_process option \<Rightarrow> (mem_sys \<times> mem_process option) undef" where
  "kchunk_destroy fuel k s = (case ck_impl k of
     Unowned c \<Rightarrow> Some s
   | In_process i \<Rightarrow> do {
       p \<leftarrow> snd s;
       (ms, p) \<leftarrow> delete_chunk fuel i (fst s, p);
       Some (ms, Some p)
     })"

definition kchunk_commit where
  "kchunk_commit os_commit fuel off sz k s =
     (if ck_type k \<noteq> Disconnected then Some (False, k, s)
      else do {
        (n, r) \<leftarrow> on_impl (commit os_commit fuel off sz) k s;
        Some (n \<noteq> 0, r)
      })"

definition kchunk_decommit where
  "kchunk_decommit fuel off sz k s =
     (if ck_type k \<noteq> Disconnected then Some (False, k, s)
      else do {
        (_, r) \<leftarrow> on_impl (\<lambda>s. map_option (Pair ()) (decommit fuel off sz s)) k s;
        Some (True, r)
      })"

definition kchunk_adjust where
  "kchunk_adjust os_commit fuel adj_size k s =
     (if ck_type k = Disconnected then Some (False, k, s)
      else on_impl (adjust os_commit fuel no_bottom adj_size) k s)"

definition kchunk_adjust_de where
  "kchunk_adjust_de os_commit fuel ntop nbottom k s =
     (if ck_type k \<noteq> Double_ended then Some (False, k, s)
      else on_impl (adjust os_commit fuel nbottom ntop) k s)"

definition kchunk_allocate where
  "kchunk_allocate os_commit fuel sz k s =
     (if ck_type k \<noteq> Disconnected then Some (False, k, s)
      else on_impl (chunk_allocate os_commit fuel sz) k s)"

section \<open>Reading back what was written\<close>

lemma store_le_outside: "q < p \<or> p + n \<le> q \<Longrightarrow> store_le n v p h q = h q"
  by (induction n arbitrary: v p h) auto

lemma load_le_store_le: "load_le n (store_le n v p h) p = take_bit (8 * n) v"
proof (induction n arbitrary: v p h)
  case 0
  then show ?case by simp
next
  case (Suc n)
  have "store_le n (drop_bit 8 v) (Suc p) (h(p := ucast v)) p = ucast v" by (simp add: store_le_outside)
  then show ?case by (auto intro!: bit_word_eqI simp: Suc bit_simps)
qed

text \<open>The current address space and its number lead to the same memory.\<close>

lemma current_pointer:
  assumes "cur_dir m = a" and "a \<le> length (dirs m)"
  shows "get_host_pointer (-1) addr m = get_host_pointer (int a) addr m"
  using assms by (simp add: get_host_pointer_def)

lemma write_then_read:
  assumes "chunk_rep a c m P" and "cur_dir m = a" and "x < max_bytes c" and "x div page_sz m \<in> P"
  shows "write_data n (ch_base c + x) v h m = Some (True, store_le n v (host_base c + x) h)"
    "read_data n (ch_base c + x) (store_le n v (host_base c + x) h) m = Some (Some (take_bit (8 * n) v))"
proof -
  have "a \<le> length (dirs m)" "host_base c \<noteq> 0" using assms(1) by (auto simp: chunk_rep_def chunk_shape_def)
  then have "get_host_pointer (-1) (ch_base c + x) m = Some (host_base c + x)" "host_base c + x \<noteq> 0"
    using current_pointer [OF assms(2)] chunk_translation [OF assms(1,3)] assms(4) by simp_all
  then show "write_data n (ch_base c + x) v h m = Some (True, store_le n v (host_base c + x) h)"
    "read_data n (ch_base c + x) (store_le n v (host_base c + x) h) m = Some (Some (take_bit (8 * n) v))"
    by (simp_all add: write_data_def read_data_def load_le_store_le)
qed

lemma write_read_width:
  fixes v :: "'a::len word"
  assumes "chunk_rep a c m P" and "cur_dir m = a" and "x < max_bytes c" and "x div page_sz m \<in> P" and "LENGTH('a) = 8 * n" and "8 * n \<le> 64"
  shows "\<exists>h'. write_data n (ch_base c + x) (ucast v) h m = Some (True, h')
    \<and> map_option (map_option ucast) (read_data n (ch_base c + x) h' m) = Some (Some v)
    \<and> (\<forall>y < max_bytes c. y < x \<or> x + n \<le> y \<longrightarrow> read_8bit_data (ch_base c + y) h' m = read_8bit_data (ch_base c + y) h m)"
proof (intro exI conjI allI impI)
  note w = write_then_read [OF assms(1-4)]
  let ?h = "store_le n (ucast v) (host_base c + x) h"
  show "write_data n (ch_base c + x) (ucast v) h m = Some (True, ?h)" by (rule w(1))
  have "ucast (take_bit (8 * n) (ucast v :: u64)) = v"
    using assms(5,6) by (intro bit_word_eqI) (auto simp: bit_simps)
  then show "map_option (map_option ucast) (read_data n (ch_base c + x) ?h m) = Some (Some v)" by (simp add: w(2))
  fix y assume y: "y < max_bytes c" "y < x \<or> x + n \<le> y"
  have al: "a \<le> length (dirs m)" using assms(1) by (auto simp: chunk_rep_def chunk_shape_def)
  show "read_8bit_data (ch_base c + y) ?h m = read_8bit_data (ch_base c + y) h m"
    using current_pointer [OF assms(2) al] chunk_translation [OF assms(1) y(1)] y(2)
    by (auto simp: read_8bit_data_def read_data_def store_le_outside)
qed

text \<open>C27. What the CPU writes to a committed page of a chunk of the current address space it reads back, at
  each of the four widths, and no other byte changes that it could read through this chunk.\<close>

theorem write_read_roundtrip:
  assumes "chunk_rep a c m P" and "cur_dir m = a" and "x < max_bytes c" and "x div page_sz m \<in> P"
  shows "(\<exists>h'. write_8bit_data (ch_base c + x) vb h m = Some (True, h') \<and> read_8bit_data (ch_base c + x) h' m = Some (Some vb)
      \<and> (\<forall>y < max_bytes c. y < x \<or> x + 1 \<le> y \<longrightarrow> read_8bit_data (ch_base c + y) h' m = read_8bit_data (ch_base c + y) h m))
    \<and> (\<exists>h'. write_16bit_data (ch_base c + x) vh h m = Some (True, h') \<and> read_16bit_data (ch_base c + x) h' m = Some (Some vh)
      \<and> (\<forall>y < max_bytes c. y < x \<or> x + 2 \<le> y \<longrightarrow> read_8bit_data (ch_base c + y) h' m = read_8bit_data (ch_base c + y) h m))
    \<and> (\<exists>h'. write_32bit_data (ch_base c + x) vw h m = Some (True, h') \<and> read_32bit_data (ch_base c + x) h' m = Some (Some vw)
      \<and> (\<forall>y < max_bytes c. y < x \<or> x + 4 \<le> y \<longrightarrow> read_8bit_data (ch_base c + y) h' m = read_8bit_data (ch_base c + y) h m))
    \<and> (\<exists>h'. write_64bit_data (ch_base c + x) vd h m = Some (True, h') \<and> read_64bit_data (ch_base c + x) h' m = Some (Some vd)
      \<and> (\<forall>y < max_bytes c. y < x \<or> x + 8 \<le> y \<longrightarrow> read_8bit_data (ch_base c + y) h' m = read_8bit_data (ch_base c + y) h m))"
proof -
  note w = write_read_width [OF assms]
  show ?thesis
  proof (intro conjI)
    show "\<exists>h'. write_8bit_data (ch_base c + x) vb h m = Some (True, h') \<and> read_8bit_data (ch_base c + x) h' m = Some (Some vb)
      \<and> (\<forall>y < max_bytes c. y < x \<or> x + 1 \<le> y \<longrightarrow> read_8bit_data (ch_base c + y) h' m = read_8bit_data (ch_base c + y) h m)"
      using w [where n = 1 and v = vb] by (simp only: write_8bit_data_def read_8bit_data_def) simp
    show "\<exists>h'. write_16bit_data (ch_base c + x) vh h m = Some (True, h') \<and> read_16bit_data (ch_base c + x) h' m = Some (Some vh)
      \<and> (\<forall>y < max_bytes c. y < x \<or> x + 2 \<le> y \<longrightarrow> read_8bit_data (ch_base c + y) h' m = read_8bit_data (ch_base c + y) h m)"
      using w [where n = 2 and v = vh] by (simp add: write_16bit_data_def read_16bit_data_def)
    show "\<exists>h'. write_32bit_data (ch_base c + x) vw h m = Some (True, h') \<and> read_32bit_data (ch_base c + x) h' m = Some (Some vw)
      \<and> (\<forall>y < max_bytes c. y < x \<or> x + 4 \<le> y \<longrightarrow> read_8bit_data (ch_base c + y) h' m = read_8bit_data (ch_base c + y) h m)"
      using w [where n = 4 and v = vw] by (simp add: write_32bit_data_def read_32bit_data_def)
    show "\<exists>h'. write_64bit_data (ch_base c + x) vd h m = Some (True, h') \<and> read_64bit_data (ch_base c + x) h' m = Some (Some vd)
      \<and> (\<forall>y < max_bytes c. y < x \<or> x + 8 \<le> y \<longrightarrow> read_8bit_data (ch_base c + y) h' m = read_8bit_data (ch_base c + y) h m)"
      using w [where n = 8 and v = vd] by (simp add: write_64bit_data_def read_64bit_data_def)
  qed
qed

section \<open>The mappings of the CPU\<close>

text \<open>Whether one of the events maps the page \<open>p\<close> of the chunk.\<close>

definition maps_page :: "mchunk \<Rightarrow> nat \<Rightarrow> nat \<Rightarrow> cpu_event list \<Rightarrow> bool" where
  "maps_page c S p evs \<longleftrightarrow> (\<exists>e \<in> set evs. case e of
     Map_cpu a n h \<Rightarrow> a \<le> ch_base c + p * S \<and> ch_base c + p * S < a + n | Unmap_cpu a n \<Rightarrow> False)"

lemma map_words_whole:
  assumes "\<forall>w \<in> set ws. w = 0 \<or> w = 0xFFFFFFFF"
  shows "map_words c True i ws m = Some (m\<lparr>cpu_events := cpu_events m @
    map (\<lambda>j. Map_cpu (ch_base c + (i + j) * 32 * page_sz m) (32 * page_sz m) (host_base c + (i + j) * 32 * page_sz m))
      (filter (\<lambda>j. ws ! j \<noteq> 0) [0..<length ws])\<rparr>)"
  using assms
proof (induction ws arbitrary: i m)
  case Nil
  then show ?case by simp
next
  case (Cons w ws)
  have u: "[0..<length (w # ws)] = 0 # map Suc [0..<length ws]" by (simp add: upt_conv_Cons map_Suc_upt del: upt_Suc)
  have ps: "page_sz (m\<lparr>cpu_events := e\<rparr>) = page_sz m" for e by (simp add: page_sz_def)
  show ?case
  proof (cases "w = 0")
    case True
    then show ?thesis using Cons.IH [of "Suc i" m] Cons.prems
      unfolding u by (simp add: filter_map comp_def del: upt_Suc)
  next
    case False
    then have "w = 0xFFFFFFFF" using Cons.prems by simp
    then show ?thesis using Cons.IH [of "Suc i" "do_the_map c True (i * 32) 32 m"] Cons.prems
      unfolding u by (simp add: filter_map comp_def do_the_map_def map_to_cpu_def ps del: upt_Suc)
  qed
qed

lemma word_pages:
  assumes "0 < S"
  shows "j * 32 * S \<le> p * S \<and> p * S < j * 32 * S + 32 * S \<longleftrightarrow> p div 32 = (j :: nat)"
proof -
  have "p * S < j * 32 * S + 32 * S \<longleftrightarrow> p * S < (j * 32 + 32) * S" by (simp add: add_mult_distrib)
  then have "j * 32 * S \<le> p * S \<and> p * S < j * 32 * S + 32 * S \<longleftrightarrow> j * 32 \<le> p \<and> p < j * 32 + 32" using assms by simp
  also have "\<dots> \<longleftrightarrow> p div 32 = j" by linarith
  finally show ?thesis .
qed

text \<open>When a process gets the CPU, the CPU is told to map the pages of its disconnected chunks that are not
  committed, and not those that are: the bits of the bitmap are set for free pages, and the code that walks
  through it takes them for committed ones (shown where each word of the bitmap is uniform).\<close>

theorem remap_maps_uncommitted:
  assumes "chunk_rep a c m P" and "page_bma c = Some ws" and "\<forall>w \<in> set ws. w = 0 \<or> w = 0xFFFFFFFF" and "ch_base c \<noteq> 0"
  shows "\<exists>m' evs. manipulate_cpu_map c True m = Some m' \<and> cpu_events m' = cpu_events m @ evs
    \<and> (\<forall>p < max_bytes c div page_sz m. maps_page c (page_sz m) p evs \<longleftrightarrow> p \<notin> P)"
proof -
  let ?S = "page_sz m"
  have S: "0 < ?S" by (simp add: geometry)
  define evs where "evs = map (\<lambda>j. Map_cpu (ch_base c + (0 + j) * 32 * ?S) (32 * ?S) (host_base c + (0 + j) * 32 * ?S))
      (filter (\<lambda>j. ws ! j \<noteq> 0) [0..<length ws])"
  have "maps_page c ?S p evs \<longleftrightarrow> p \<notin> P" if p: "p < max_bytes c div ?S" for p
  proof -
    have b: "max_bytes c div ?S \<le> 32 * length ws" "cell_free ws p \<longleftrightarrow> p \<notin> P"
      using assms(1,2) p by (auto simp: chunk_rep_def)
    then have j: "p div 32 < length ws" using p by (simp add: less_mult_imp_div_less)
    have "maps_page c ?S p evs \<longleftrightarrow> (\<exists>j < length ws. ws ! j \<noteq> 0 \<and> j * 32 * ?S \<le> p * ?S \<and> p * ?S < j * 32 * ?S + 32 * ?S)"
      by (auto simp: maps_page_def evs_def)
    also have "\<dots> \<longleftrightarrow> (\<exists>j < length ws. ws ! j \<noteq> 0 \<and> p div 32 = j)" by (simp only: word_pages [OF S])
    also have "\<dots> \<longleftrightarrow> ws ! (p div 32) \<noteq> 0" using j by auto
    also have "\<dots> \<longleftrightarrow> cell_free ws p"
    proof -
      have "ws ! (p div 32) = 0 \<or> ws ! (p div 32) = 0xFFFFFFFF" using assms(3) j by auto
      moreover have "bit (0xFFFFFFFF :: u32) (31 - p mod 32)" unfolding bit_full by linarith
      ultimately show ?thesis by (auto simp: cell_free_def)
    qed
    finally show ?thesis using b(2) by simp
  qed
  moreover have "manipulate_cpu_map c True m = Some (m\<lparr>cpu_events := cpu_events m @ evs\<rparr>)"
    using map_words_whole [OF assms(3), of c 0 m] assms(2,4) by (simp add: manipulate_cpu_map_def evs_def)
  ultimately show ?thesis by auto
qed

section \<open>Deleted chunks\<close>

text \<open>Deleting a chunk empties its slot but does not give its address range back: the range was free before the
  chunk was created, and after the deletion it is still taken. A process that creates and deletes local
  chunks runs out of addresses.\<close>

theorem deleted_chunk_keeps_range:
  assumes "create_chunk os_map ci (ms, pr) = Some (0, Some i, ms1, pr1)" and "delete_chunk fuel i (ms1, pr1) = Some (ms2, pr2)"
    and "get_section (ci_flags ci) = Some Sec_local" and "ci_addr ci = 0" and "0 < ci_size ci"
  shows "chunks pr2 ! i = None \<and> (\<exists>off n. 0 < n \<and> n = max_pages (ci_size ci) (the_mmu ms)
    \<and> (\<exists>c. chunks pr1 ! i = Some c \<and> ch_base c = off * page_sz (the_mmu ms) + sec_beg (user_local_sec pr))
    \<and> (\<forall>p. off \<le> p \<and> p < off + n \<longrightarrow> cell_free (sec_alloc (user_local_sec pr)) p \<and> \<not> cell_free (sec_alloc (user_local_sec pr2)) p))"
proof -
  obtain pr0 where sl: "allocate_chunk_slot pr = Some (i, pr0)" "user_local_sec pr0 = user_local_sec pr" "i < length (chunks pr0)"
    using assms(1) find_index_SomeD
    by (fastforce simp: create_chunk_def allocate_chunk_slot_def split: option.splits if_splits bind_splits)
  let ?m = "the_mmu ms"
  define n where "n = max_pages (ci_size ci) ?m"
  have n0: "0 < n" using assms(5) geometry(4) [of ?m] by (simp add: n_def max_pages_def total_pt_def div_greater_zero_iff)
  obtain off k ws c where al: "allocate_from 0 n False (sec_alloc (user_local_sec pr)) = Some (off, k, ws)" "off \<noteq> -1"
    and c: "chunks pr1 ! i = Some c" "ch_base c = nat off * page_sz ?m + sec_beg (user_local_sec pr)"
    and pr1: "sec_alloc (user_local_sec pr1) = ws" "i < length (chunks pr1)"
    using assms(1,3,4) sl
    by (auto simp: create_chunk_def do_create_def section_of_def upd_section_def place_chunk_def Let_def n_def
        split: bind_splits if_splits prod.splits)
  have pr2: "user_local_sec pr2 = user_local_sec pr1" "chunks pr2 ! i = None"
    using assms(2) pr1(2) by (auto simp: delete_chunk_def split: bind_splits prod.splits)
  have "cell_free (sec_alloc (user_local_sec pr)) p \<and> \<not> cell_free (sec_alloc (user_local_sec pr2)) p"
    if "nat off \<le> p" "p < nat off + n" for p
    using allocate_from_sound [OF al(1,2) n0] that by (auto simp: pr1 pr2)
  then show ?thesis using c pr2(2) n0 by (auto simp: n_def)
qed

lemma run_full: "k \<le> 31 \<Longrightarrow> w < length ws \<Longrightarrow> \<forall>x \<in> set ws. x = 0xFFFFFFFF \<Longrightarrow>
   \<exists>w' c'. run_from ws w (int k) b = (w', c', b + k + 1 + 32 * (length ws - w - 1))"
proof (induction "length ws - w" arbitrary: w k b)
  case 0 then show ?case by simp
next
  case (Suc n)
  note outer = Suc
  from Suc.prems(1) show ?case
  proof (induction k arbitrary: b)
    case 0
    have "ws ! w = 0xFFFFFFFF" using outer by auto
    then have b0: "bit (ws ! w) 0" by simp
    show ?case
    proof (cases "w + 1 < length ws")
      case True
      then have "\<exists>w' c'. run_from ws (w + 1) (int 31) (b + 1) = (w', c', (b + 1) + 31 + 1 + 32 * (length ws - (w + 1) - 1))"
        using outer by (intro outer(1)) auto
      then show ?thesis using True b0 by (subst run_from.simps) (auto simp: algebra_simps Suc_diff_Suc)
    next
      case False
      then show ?thesis using b0 outer(4) by (subst run_from.simps, subst run_from.simps) auto
    qed
  next
    case (Suc k)
    have "ws ! w = 0xFFFFFFFF" using outer by auto
    moreover have "bit (0xFFFFFFFF :: u32) (Suc k)" unfolding bit_full using Suc.prems by simp
    moreover have "nat (1 + int k) = Suc k" by simp
    ultimately show ?case using Suc.IH [of "b + 1"] Suc.prems by (subst run_from.simps) (auto simp: add.commute)
  qed
qed

lemma allocate_full:
  assumes "\<forall>x \<in> set ws. x = 0xFFFFFFFF" and "ws \<noteq> []" and "sz \<le> 32 * length ws"
  shows "\<exists>ws'. allocate_from 0 sz False ws = Some (0, int sz, ws')"
proof -
  have w0: "ws ! 0 = 0xFFFFFFFF" using assms(1,2) by simp
  have b: "bit (ws ! 0) 31" unfolding w0 bit_full by simp
  have l: "32 + 32 * (length ws - Suc 0) = 32 * length ws" using assms(2) by (cases ws) simp_all
  obtain w' c' where r: "run_from ws 0 31 0 = (w', c', 32 * length ws)"
    using run_full [of 31 0 ws 0] assms l by auto
  have "scan_word ws sz False 0 31 m = Inl 0" for m
    using r b assms(3) by (subst scan_word.simps) (simp add: cell_offset_def)
  then have "scan_words ws sz False 0 m = Inl 0" for m
    using assms(2) w0 by (subst scan_words.simps) simp
  then show ?thesis using assms(2,3) by (simp add: allocate_from_def force_fill_def Let_def)
qed

definition demo_info :: chunk_info where
  "demo_info = \<lparr>ci_size = 5000, ci_flags = [Region_user_local, Type_normal], ci_perm = 3, ci_addr = 0, ci_host_map = 0\<rparr>"

lemma demo_process:
  "new_mem_process (new_mem_sys 12 False) = (\<lparr>pr_asid = 1, user_local_sec = new_section 0x00400000 0x40000000 4096,
      user_dll_static_data_sec = new_section 0x38000000 0x40000000 4096, chunks = []\<rparr>,
     (new_mem_sys 12 False)\<lparr>the_mmu := (new_mmu 12 False)\<lparr>dirs := [(new_page_directory 12 1)\<lparr>occupied := True\<rparr>]\<rparr>\<rparr>)"
  by (simp add: new_mem_process_def new_mem_sys_def rollover_fresh_addr_space_def new_mmu_def page_sz_def page_bits_def Let_def)

lemma demo_create:
  defines "ms \<equiv> snd (new_mem_process (new_mem_sys 12 False))" and "pr \<equiv> fst (new_mem_process (new_mem_sys 12 False))"
  shows "\<exists>ms1 pr1 ms2 pr2. create_chunk (\<lambda>_. 0x10000000) demo_info (ms, pr) = Some (0, Some 0, ms1, pr1)
    \<and> delete_chunk 300 0 (ms1, pr1) = Some (ms2, pr2)"
proof -
  obtain ws' where al: "allocate_from 0 256 False (replicate 8160 (0xFFFFFFFF :: u32)) = Some (0, 256, ws')"
    using allocate_full [of "replicate 8160 0xFFFFFFFF" 256] by auto
  have m: "psize (the_mmu ms) = 12" by (simp add: ms_def demo_process new_mmu_def)
  have sec: "sec_alloc (user_local_sec pr) = replicate 8160 0xFFFFFFFF" "sec_beg (user_local_sec pr) = 0x400000" "chunks pr = []"
    by (simp_all add: pr_def demo_process new_section_def bitmap_init_def words_for_def del: replicate.simps)
  have g: "page_sz (the_mmu ms) = 4096" "chunk_sz (the_mmu ms) = 0x100000" "total_pt 5000 (the_mmu ms) = 1" "max_pages 5000 (the_mmu ms) = 256"
    by (simp_all add: page_sz_def chunk_sz_def max_pages_def total_pt_def m page_bits_def table_index_shift_def page_per_tab_shift_def)
  define c where "c = (new_mchunk (Some (pr_asid pr)))\<lparr>is_local := True, is_code := False, ch_base := 0x400000, max_bytes := 0x100000,
     committed := 0, host_base := 0x10000000, is_external_host := False, ch_tabs := [None], permission := 3\<rparr>"
  define pr1 where "pr1 = pr\<lparr>user_local_sec := (user_local_sec pr)\<lparr>sec_alloc := ws'\<rparr>, chunks := [Some c]\<rparr>"
  have "create_chunk (\<lambda>_. 0x10000000) demo_info (ms, pr) = Some (0, Some 0, ms, pr1)"
    by (simp add: create_chunk_def allocate_chunk_slot_def sec do_create_def demo_info_def get_section_def section_of_def
        place_chunk_def al g Let_def upd_section_def c_def pr1_def new_mchunk_def)
  moreover have "\<exists>ms2 pr2. delete_chunk 300 0 (ms, pr1) = Some (ms2, pr2)"
  proof -
    have "decommit_table 0 256 (c, the_mmu ms) = Some (c, the_mmu ms)" by (simp add: decommit_table_def c_def)
    then have "decommit_loop (Suc (Suc f)) 0 0x100000 (c, the_mmu ms) = Some (c, the_mmu ms)" for f
      by (simp add: g Let_def)
    from this [of 298] have "decommit_loop 300 0 0x100000 (c, the_mmu ms) = Some (c, the_mmu ms)" by simp
    then show ?thesis by (simp add: delete_chunk_def pr1_def decommit_def c_def)
  qed
  ultimately show ?thesis by blast
qed


theorem deleted_chunk_keeps_range_witness:
  "\<exists>ms pr ms1 pr1 ms2 pr2 off. create_chunk (\<lambda>_. 0x10000000) demo_info (ms, pr) = Some (0, Some 0, ms1, pr1)
    \<and> delete_chunk 300 0 (ms1, pr1) = Some (ms2, pr2) \<and> cell_free (sec_alloc (user_local_sec pr)) off
    \<and> \<not> cell_free (sec_alloc (user_local_sec pr2)) off"
proof -
  obtain ms pr ms1 pr1 ms2 pr2 where s: "create_chunk (\<lambda>_. 0x10000000) demo_info (ms, pr) = Some (0, Some 0, ms1, pr1)"
    "delete_chunk 300 0 (ms1, pr1) = Some (ms2, pr2)" using demo_create by blast
  have "get_section (ci_flags demo_info) = Some Sec_local" "ci_addr demo_info = 0" "0 < ci_size demo_info"
    by (simp_all add: demo_info_def get_section_def)
  from deleted_chunk_keeps_range [OF s this] show ?thesis using s by (metis le_refl less_add_same_cancel1)
qed

theorem remap_maps_uncommitted_witness:
  "\<exists>m' evs. manipulate_cpu_map (demo_chunk\<lparr>page_bma := Some (replicate 16 0xFFFFFFFF)\<rparr>) True demo_mmu = Some m'
    \<and> cpu_events m' = cpu_events demo_mmu @ evs
    \<and> (\<forall>p < 512. maps_page (demo_chunk\<lparr>page_bma := Some (replicate 16 0xFFFFFFFF)\<rparr>) 4096 p evs)"
proof -
  let ?c = "demo_chunk\<lparr>page_bma := Some (replicate 16 0xFFFFFFFF)\<rparr>"
  have "cell_free (replicate 16 0xFFFFFFFF) p" if "p < 512" for p
  proof -
    have "p div 32 < 16" using that by simp
    then show ?thesis unfolding cell_free_def by (simp only: nth_replicate bit_full)
  qed
  then have "chunk_rep 1 ?c demo_mmu {}"
    by (intro demo_rep_bitmap) auto
  from remap_maps_uncommitted [OF this, of "replicate 16 0xFFFFFFFF"] show ?thesis
    by (simp add: demo_page demo_chunk_def del: replicate.simps)
qed

lemma chunk_rep_cur_dir: "chunk_rep a c m P \<Longrightarrow> chunk_rep a c (m\<lparr>cur_dir := i\<rparr>) P"
proof -
  let ?m = "m\<lparr>cur_dir := i\<rparr>"
  assume r: "chunk_rep a c m P"
  have d: "dir_of a ?m = dir_of a m" "page_sz ?m = page_sz m" "chunk_sz ?m = chunk_sz m" "npages ?m = npages m"
    by (simp_all add: dir_of_def page_sz_def chunk_sz_def)
  have t: "table_rep c ?m = table_rep c m" by (intro ext) (simp add: table_rep_def page_sz_def)
  have s: "chunk_shape a c ?m = chunk_shape a c m" by (simp add: chunk_shape_def tables_ok_def dir_of_def page_sz_def chunk_sz_def)
  show "chunk_rep a c ?m P" using r unfolding chunk_rep_def d t s .
qed

theorem write_read_roundtrip_witness:
  "\<exists>m h'. write_32bit_data 0x401004 0xDEADBEEF (\<lambda>_. 0) m = Some (True, h') \<and> read_32bit_data 0x401004 h' m = Some (Some 0xDEADBEEF)"
proof -
  have "chunk_rep 1 demo_chunk demo_mmu {bottom demo_chunk..<top_page demo_chunk}" using demo_rep by (simp add: demo_chunk_def)
  from adjust_spec [OF this, of 0 "0x3000" "\<lambda>_ _. True" 600]
  obtain c m where r: "chunk_rep 1 c m (adjusted_pages 0 0 3)" "ch_base c = 0x400000" "max_bytes c = 0x200000" "page_sz m = 4096"
    by (auto simp: demo_chunk_def demo_page no_bottom_def)
  let ?m = "m\<lparr>cur_dir := 1\<rparr>"
  have "page_sz ?m = 4096" using r(4) by (simp add: page_sz_def)
  then have x: "cur_dir ?m = 1" "0x1004 < max_bytes c" "0x1004 div page_sz ?m \<in> adjusted_pages 0 0 3"
    using r(3) by (simp_all add: adjusted_pages_def)
  have "\<exists>h'. write_32bit_data (ch_base c + 0x1004) 0xDEADBEEF (\<lambda>_. 0) ?m = Some (True, h')
      \<and> read_32bit_data (ch_base c + 0x1004) h' ?m = Some (Some 0xDEADBEEF)"
    using write_read_roundtrip [OF chunk_rep_cur_dir [OF r(1)] x, THEN conjunct2, THEN conjunct2, THEN conjunct1] by blast
  then show ?thesis by (auto simp: r(2))
qed

end
