(* ===== verification/Flex.thy ===== *)
theory Flex imports Mem_Process begin

text \<open>
  The flexible memory model (\<open>mem/model/flexible\<close>): memory objects that hold host memory, mappings of a memory object
  into an address space, address spaces with their page directories, chunks and processes.

  Mappings and chunks are named by their position in a store of which nothing is ever removed; \<^const>\<open>None\<close> is an object
  that has been deleted. Address spaces are named by their position, 0 being the kernel's. Page tables and directories
  are those of the theory \<open>Mmu\<close>. A directory is created with the page size in bytes where its number of bits is
  expected, so that it is always one for pages of 4 KB.
\<close>

section \<open>State\<close>

text \<open>\<open>fm_pages\<close> is \<^const>\<open>None\<close> while it has not been set: the constructor of a mapping leaves it uninitialised.\<close>

record fmapping =
  fm_base :: nat
  fm_space :: nat
  fm_pages :: "nat option"

record mem_object =
  mo_data :: nat
  mo_pages :: nat
  mo_clear :: nat
  mo_external :: bool
  mo_maps :: "nat list"

record addr_space =
  sp_dir :: "nat option"
  sp_maps :: "nat list"
  sp_local_sec :: linear_section
  sp_shared_sec :: linear_section
  sp_ram_code_sec :: linear_section
  sp_dll_sec :: linear_section

record fchunk =
  fc_addr :: nat
  fc_flags :: "region list"
  fc_max :: nat
  fc_committed :: nat
  fc_bottom :: nat
  fc_top :: nat
  fc_perm :: nat
  fc_obj :: "mem_object option"
  fc_bma :: "u32 list option"
  fc_owned :: bool
  fc_fixed :: "nat option"

text \<open>The process's attachments: chunk and mapping.\<close>

record fprocess =
  fp_space :: nat
  fp_attachs :: "(nat \<times> nat) list"

text \<open>\<open>fl_filled\<close> records the host memory set to a clear byte: address, size and byte.\<close>

record flex =
  fl_psize :: nat
  fl_tables :: "page_table list"
  fl_dirs :: "page_directory option list"
  fl_spaces :: "addr_space list"
  fl_maps :: "fmapping option list"
  fl_chunks :: "fchunk option list"
  fl_mngr :: "nat option list"
  fl_cur :: nat
  fl_old :: bool
  fl_rom_sec :: linear_section
  fl_code_sec :: linear_section
  fl_kmap_sec :: linear_section
  fl_events :: "cpu_event list"
  fl_filled :: "(nat \<times> nat \<times> nat) list"

definition fpage :: "flex \<Rightarrow> nat" where
  "fpage s = 2 ^ fl_psize s"

definition get_map :: "nat \<Rightarrow> flex \<Rightarrow> fmapping undef" where
  "get_map i s = (if i < length (fl_maps s) then fl_maps s ! i else None)"

definition get_chunk :: "nat \<Rightarrow> flex \<Rightarrow> fchunk undef" where
  "get_chunk i s = (if i < length (fl_chunks s) then fl_chunks s ! i else None)"

definition put_chunk :: "nat \<Rightarrow> fchunk \<Rightarrow> flex \<Rightarrow> flex" where
  "put_chunk i c s = s\<lparr>fl_chunks := (fl_chunks s)[i := Some c]\<rparr>"

text \<open>The directory of an address space; a null pointer when all directories were taken.\<close>

definition space_dir :: "nat \<Rightarrow> flex \<Rightarrow> nat undef" where
  "space_dir a s = (if a < length (fl_spaces s) then sp_dir (fl_spaces s ! a) else None)"

definition the_fdir :: "nat \<Rightarrow> flex \<Rightarrow> page_directory undef" where
  "the_fdir i s = (if i < length (fl_dirs s) then fl_dirs s ! i else None)"

definition space_id :: "nat \<Rightarrow> flex \<Rightarrow> int undef" where
  "space_id a s = do { i \<leftarrow> space_dir a s; d \<leftarrow> the_fdir i s; Some (dir_id d) }"

section \<open>The directory manager\<close>

definition dir_allocate :: "flex \<Rightarrow> nat option \<times> flex" where
  "dir_allocate s =
    (case find_index (\<lambda>d. case d of None \<Rightarrow> True | Some d \<Rightarrow> \<not> occupied d) (fl_dirs s) of
       None \<Rightarrow> (None, s)
     | Some i \<Rightarrow> (let d = (case fl_dirs s ! i of None \<Rightarrow> new_page_directory (fpage s) (int i) | Some d \<Rightarrow> d)
         in (Some i, s\<lparr>fl_dirs := (fl_dirs s)[i := Some (d\<lparr>occupied := True\<rparr>)]\<rparr>)))"

definition dir_free :: "int \<Rightarrow> flex \<Rightarrow> bool \<times> flex" where
  "dir_free i s =
    (if i < 0 \<or> int (length (fl_dirs s)) \<le> i then (False, s)
     else case fl_dirs s ! nat i of
       None \<Rightarrow> (False, s)
     | Some d \<Rightarrow> if occupied d then (True, s\<lparr>fl_dirs := (fl_dirs s)[nat i := Some (d\<lparr>occupied := False\<rparr>)]\<rparr>) else (False, s))"

definition dir_get :: "int \<Rightarrow> flex \<Rightarrow> nat option" where
  "dir_get i s = find_index (\<lambda>d. case d of None \<Rightarrow> False | Some d \<Rightarrow> occupied d \<and> dir_id d = i) (fl_dirs s)"

section \<open>Address spaces and the memory management unit\<close>

definition new_space :: "flex \<Rightarrow> nat \<times> flex" where
  "new_space s = (let (d, s) = dir_allocate s; p = fpage s in
    (length (fl_spaces s), s\<lparr>fl_spaces := fl_spaces s @ [\<lparr>sp_dir = d, sp_maps = [],
       sp_local_sec = new_section 0x00400000 0x40000000 p, sp_shared_sec = new_section 0x40000000 0xA0000000 p,
       sp_ram_code_sec = new_section 0x70000000 0x78000000 p, sp_dll_sec = new_section 0x78000000 0x80000000 p\<rparr>]\<rparr>))"

definition fset_current :: "int \<Rightarrow> flex \<Rightarrow> bool \<times> flex" where
  "fset_current i s = (case dir_get i s of None \<Rightarrow> (False, s) | Some d \<Rightarrow> (True, s\<lparr>fl_cur := d\<rparr>))"

text \<open>The kernel's address space is the first one, and its directory the current one.\<close>

definition new_flex :: "nat \<Rightarrow> bool \<Rightarrow> flex undef" where
  "new_flex b old = (let p = 2 ^ b; s = \<lparr>fl_psize = b, fl_tables = [], fl_dirs = replicate 512 None, fl_spaces = [],
      fl_maps = [], fl_chunks = [], fl_mngr = [], fl_cur = 0, fl_old = old,
      fl_rom_sec = new_section (if old then 0x50000000 else 0x80000000) (if old then 0x60000000 else 0x90000000) p,
      fl_code_sec = new_section 0x70000000 0x38000000 p, fl_kmap_sec = new_section 0xC9200000 0xFFFF0000 p,
      fl_events = [], fl_filled = []\<rparr>; (a, s) = new_space s
    in do { i \<leftarrow> space_id a s; Some (snd (fset_current i s)) })"

definition frollover :: "flex \<Rightarrow> int undef \<times> flex" where
  "frollover s = (case dir_allocate s of (None, s) \<Rightarrow> (Some (-1), s) | (Some i, s) \<Rightarrow> (map_option dir_id (the_fdir i s), s))"

definition fcurrent :: "flex \<Rightarrow> int undef" where
  "fcurrent s = map_option dir_id (the_fdir (fl_cur s) s)"

definition fhost_pointer :: "int \<Rightarrow> nat \<Rightarrow> flex \<Rightarrow> nat undef" where
  "fhost_pointer i addr s =
    (if i = 0 \<or> addr \<ge> (if fl_old s then 0x50000000 else 0x80000000)
     then do { k \<leftarrow> space_dir 0 s; d \<leftarrow> the_fdir k s; dir_get_pointer (fl_tables s) d addr }
     else if i = -1 then do { d \<leftarrow> the_fdir (fl_cur s) s; dir_get_pointer (fl_tables s) d addr }
     else case dir_get i s of
       None \<Rightarrow> Some 0
     | Some k \<Rightarrow> do { d \<leftarrow> the_fdir k s; dir_get_pointer (fl_tables s) d addr })"

definition upd_fdir :: "nat \<Rightarrow> (page_directory \<Rightarrow> page_directory) \<Rightarrow> flex \<Rightarrow> flex undef" where
  "upd_fdir i f s = do { d \<leftarrow> the_fdir i s; Some (s\<lparr>fl_dirs := (fl_dirs s)[i := Some (f d)]\<rparr>) }"

fun assign_dirs :: "(page_directory \<Rightarrow> page_directory) \<Rightarrow> int list \<Rightarrow> flex \<Rightarrow> flex undef" where
  "assign_dirs f [] s = Some s"
| "assign_dirs f (i # is) s = (case dir_get i s of
     None \<Rightarrow> assign_dirs f is s
   | Some k \<Rightarrow> do { s \<leftarrow> upd_fdir k f s; assign_dirs f is s })"

text \<open>Assigning to all directories goes through the null pointers of the directories not yet created.\<close>

fun assign_all :: "(page_directory \<Rightarrow> page_directory) \<Rightarrow> page_directory option list \<Rightarrow> page_directory option list undef" where
  "assign_all f [] = Some []"
| "assign_all f (d # ds) = do { d \<leftarrow> d; ds \<leftarrow> assign_all f ds; Some (Some (f d) # ds) }"

definition fassign_page_table :: "nat option \<Rightarrow> nat \<Rightarrow> assign_to \<Rightarrow> flex \<Rightarrow> flex undef" where
  "fassign_page_table tab linear_addr target s =
    (let pde_off = linear_addr div 2 ^ table_index_shift (fl_psize s);
         last_off = (case tab of Some t \<Rightarrow> pt_idx (fl_tables s ! t) | None \<Rightarrow> 0);
         s = (case tab of Some t \<Rightarrow> s\<lparr>fl_tables := (fl_tables s)[t := (fl_tables s ! t)\<lparr>pt_idx := pde_off\<rparr>]\<rparr> | None \<Rightarrow> s);
         f = switch_page_table tab last_off pde_off
     in case target of
          Assign_list is \<Rightarrow> assign_dirs f is s
        | Assign_local_global \<Rightarrow> do { k \<leftarrow> space_dir 0 s; s \<leftarrow> upd_fdir k f s; ds \<leftarrow> assign_all f (fl_dirs s); Some (s\<lparr>fl_dirs := ds\<rparr>) }
        | Assign_global \<Rightarrow> do { k \<leftarrow> space_dir 0 s; upd_fdir k f s }
        | Assign_current \<Rightarrow> upd_fdir (fl_cur s) f s)"

section \<open>Mappings\<close>

definition fsection :: "nat \<Rightarrow> section_id \<Rightarrow> flex \<Rightarrow> linear_section" where
  "fsection a i s = (case i of
     Sec_code \<Rightarrow> fl_code_sec s
   | Sec_global \<Rightarrow> sp_shared_sec (fl_spaces s ! a)
   | Sec_local \<Rightarrow> sp_local_sec (fl_spaces s ! a)
   | Sec_dll \<Rightarrow> sp_dll_sec (fl_spaces s ! a)
   | Sec_rom \<Rightarrow> fl_rom_sec s
   | Sec_kmap \<Rightarrow> fl_kmap_sec s)"

definition put_section :: "nat \<Rightarrow> section_id \<Rightarrow> u32 list \<Rightarrow> flex \<Rightarrow> flex" where
  "put_section a i ws s = (let sec = (fsection a i s)\<lparr>sec_alloc := ws\<rparr>; sp = fl_spaces s ! a in case i of
     Sec_code \<Rightarrow> s\<lparr>fl_code_sec := sec\<rparr>
   | Sec_global \<Rightarrow> s\<lparr>fl_spaces := (fl_spaces s)[a := sp\<lparr>sp_shared_sec := sec\<rparr>]\<rparr>
   | Sec_local \<Rightarrow> s\<lparr>fl_spaces := (fl_spaces s)[a := sp\<lparr>sp_local_sec := sec\<rparr>]\<rparr>
   | Sec_dll \<Rightarrow> s\<lparr>fl_spaces := (fl_spaces s)[a := sp\<lparr>sp_dll_sec := sec\<rparr>]\<rparr>
   | Sec_rom \<Rightarrow> s\<lparr>fl_rom_sec := sec\<rparr>
   | Sec_kmap \<Rightarrow> s\<lparr>fl_kmap_sec := sec\<rparr>)"

definition new_mapping :: "nat \<Rightarrow> flex \<Rightarrow> nat \<times> flex" where
  "new_mapping a s = (length (fl_maps s), s\<lparr>fl_maps := fl_maps s @ [Some \<lparr>fm_base = 0, fm_space = a, fm_pages = None\<rparr>]\<rparr>)"

text \<open>Without a forced address the pages are allocated in the section; the number of pages found is only compared
  for a warning.\<close>

definition instantiate :: "nat \<Rightarrow> nat \<Rightarrow> region list \<Rightarrow> nat \<Rightarrow> flex \<Rightarrow> (bool \<times> flex) undef" where
  "instantiate i page_occupied flags forced s = do {
     m \<leftarrow> get_map i s;
     let a = fm_space m;
     case get_section flags of
       None \<Rightarrow> Some (False, s)
     | Some sec \<Rightarrow> do {
         (place, s) \<leftarrow>
           (if forced = 0 then do {
              (offset, total, ws) \<leftarrow> allocate_from 0 page_occupied False (sec_alloc (fsection a sec s));
              let s = put_section a sec ws s;
              Some (if offset = -1 then None else Some (sec_beg (fsection a sec s) + nat offset * fpage s, nat total), s)
            }
            else Some (Some (forced, page_occupied), s));
         case place of
           None \<Rightarrow> Some (False, s)
         | Some (b, n) \<Rightarrow>
             Some (True, s\<lparr>fl_maps := (fl_maps s)[i := Some (m\<lparr>fm_base := b, fm_pages := Some n\<rparr>)],
               fl_spaces := (fl_spaces s)[a := (fl_spaces s ! a)\<lparr>sp_maps := sp_maps (fl_spaces s ! a) @ [i]\<rparr>]\<rparr>)
       }
   }"

fun map_pages :: "nat list \<Rightarrow> nat \<Rightarrow> nat \<Rightarrow> nat \<Rightarrow> nat \<Rightarrow> page_info list \<Rightarrow> page_info list" where
  "map_pages [] host pm S n pgs = pgs"
| "map_pages (p # ps) host pm S n pgs = map_pages ps (host + S) pm S n (pgs[p mod n := \<lparr>host_addr = host, perm = pm\<rparr>])"

text \<open>The loop over the page tables of a range of addresses; \<open>2^32\<close> wraps to 0. \<^const>\<open>None\<close> is undefined behaviour or
  running out of fuel.\<close>

definition next_end :: "nat \<Rightarrow> nat \<Rightarrow> nat \<Rightarrow> nat" where
  "next_end b start_addr end_addr =
    min ((start_addr div 2 ^ table_index_shift b + 1) * 2 ^ table_index_shift b mod 2 ^ 32) end_addr"

definition table_at :: "nat \<Rightarrow> nat \<Rightarrow> flex \<Rightarrow> (nat \<times> flex) undef" where
  "table_at k addr s = do {
     d \<leftarrow> the_fdir k s;
     t \<leftarrow> dir_get_page_table d addr;
     case t of
       Some t \<Rightarrow> Some (t, s)
     | None \<Rightarrow> (let (t, ts) = create_new_table (fl_psize s) (fl_tables s); off = addr div 2 ^ table_index_shift (fl_psize s);
           s = s\<lparr>fl_tables := ts[t := (ts ! t)\<lparr>pt_idx := off\<rparr>]\<rparr>
         in do { s \<leftarrow> upd_fdir k (set_page_table off (Some t)) s; Some (t, s) })
   }"

fun map_loop :: "nat \<Rightarrow> nat \<Rightarrow> nat \<Rightarrow> nat \<Rightarrow> nat \<Rightarrow> nat \<Rightarrow> flex \<Rightarrow> flex undef" where
  "map_loop 0 k host pm start_addr end_addr s = None"
| "map_loop (Suc fuel) k host pm start_addr end_addr s =
    (if start_addr < end_addr then do {
       let e = next_end (fl_psize s) start_addr end_addr;
       let ps = [start_addr div 2 ^ page_bits (fl_psize s)..<e div 2 ^ page_bits (fl_psize s)];
       (t, s) \<leftarrow> table_at k start_addr s;
       let pgs = map_pages ps host pm (fpage s) (pages_per_table (fl_psize s)) (pages (fl_tables s ! t));
       map_loop fuel k (host + length ps * fpage s) pm e end_addr
         (s\<lparr>fl_tables := (fl_tables s)[t := (fl_tables s ! t)\<lparr>pages := pgs\<rparr>]\<rparr>)
     }
     else Some s)"

definition mapping_map :: "nat \<Rightarrow> nat \<Rightarrow> nat \<Rightarrow> nat \<Rightarrow> nat \<Rightarrow> nat \<Rightarrow> flex \<Rightarrow> (bool \<times> flex) undef" where
  "mapping_map fuel i data index cnt pm s = do {
     m \<leftarrow> get_map i s;
     n \<leftarrow> fm_pages m;
     if index + cnt > n then Some (False, s)
     else do {
       let start_offset = index * fpage s mod 2 ^ 32;
       let start_addr = (fm_base m + start_offset) mod 2 ^ 32;
       let end_addr = (start_addr + cnt * fpage s) mod 2 ^ 32;
       k \<leftarrow> space_dir (fm_space m) s;
       s \<leftarrow> map_loop fuel k (data + start_offset) pm start_addr end_addr s;
       Some (True, s)
     }
   }"

text \<open>The page indices are reduced to the table before they are compared. Without a table the loop goes on
  with the same address.\<close>

fun unmap_loop :: "nat \<Rightarrow> nat \<Rightarrow> nat \<Rightarrow> nat \<Rightarrow> flex \<Rightarrow> flex undef" where
  "unmap_loop 0 k start_addr end_addr s = None"
| "unmap_loop (Suc fuel) k start_addr end_addr s =
    (if start_addr < end_addr then do {
       let e = next_end (fl_psize s) start_addr end_addr;
       let N = pages_per_table (fl_psize s);
       let ps = [start_addr div 2 ^ page_bits (fl_psize s) mod N..<e div 2 ^ page_bits (fl_psize s) mod N];
       d \<leftarrow> the_fdir k s;
       t \<leftarrow> dir_get_page_table d start_addr;
       case t of
         None \<Rightarrow> unmap_loop fuel k start_addr end_addr s
       | Some t \<Rightarrow> (let pgs = fold (\<lambda>p pgs. pgs[p := (pgs ! p)\<lparr>host_addr := 0\<rparr>]) ps (pages (fl_tables s ! t))
           in unmap_loop fuel k e end_addr (s\<lparr>fl_tables := (fl_tables s)[t := (fl_tables s ! t)\<lparr>pages := pgs\<rparr>]\<rparr>))
     }
     else Some s)"

definition mapping_unmap :: "nat \<Rightarrow> nat \<Rightarrow> nat \<Rightarrow> nat \<Rightarrow> flex \<Rightarrow> (bool \<times> flex) undef" where
  "mapping_unmap fuel i index_start cnt s = do {
     m \<leftarrow> get_map i s;
     n \<leftarrow> fm_pages m;
     if index_start + cnt > n then Some (False, s)
     else do {
       let start_addr = (fm_base m + index_start * fpage s) mod 2 ^ 32;
       k \<leftarrow> space_dir (fm_space m) s;
       s \<leftarrow> unmap_loop fuel k start_addr ((start_addr + cnt * fpage s) mod 2 ^ 32) s;
       Some (True, s)
     }
   }"

text \<open>The destructor of a mapping.\<close>

definition delete_mapping :: "nat \<Rightarrow> nat \<Rightarrow> flex \<Rightarrow> flex undef" where
  "delete_mapping fuel i s = do {
     m \<leftarrow> get_map i s;
     n \<leftarrow> fm_pages m;
     (_, s) \<leftarrow> mapping_unmap fuel i 0 n s;
     Some (s\<lparr>fl_maps := (fl_maps s)[i := None]\<rparr>)
   }"

section \<open>Memory objects\<close>

text \<open>\<open>os_map\<close> reserves host memory of a given size, 0 if it fails.\<close>

definition new_mem_object :: "(nat \<Rightarrow> nat) \<Rightarrow> nat \<Rightarrow> nat \<Rightarrow> nat \<Rightarrow> flex \<Rightarrow> mem_object" where
  "new_mem_object os_map page_count host clear s = \<lparr>mo_data = (if host \<noteq> 0 then host else os_map (page_count * fpage s)),
     mo_pages = page_count, mo_clear = clear, mo_external = (host \<noteq> 0), mo_maps = []\<rparr>"

definition attach_mapping :: "nat \<Rightarrow> mem_object \<Rightarrow> bool \<times> mem_object" where
  "attach_mapping i ob = (if i \<in> set (mo_maps ob) then (False, ob) else (True, ob\<lparr>mo_maps := mo_maps ob @ [i]\<rparr>))"

definition detach_mapping :: "nat \<Rightarrow> mem_object \<Rightarrow> bool \<times> mem_object" where
  "detach_mapping i ob = (if i \<in> set (mo_maps ob) then (True, ob\<lparr>mo_maps := remove1 i (mo_maps ob)\<rparr>) else (False, ob))"

text \<open>A mapping that cannot be mapped is only warned of; the CPU is told if the mapping's address space is the current one.\<close>

fun map_all :: "nat \<Rightarrow> nat list \<Rightarrow> mem_object \<Rightarrow> nat \<Rightarrow> nat \<Rightarrow> nat \<Rightarrow> flex \<Rightarrow> flex undef" where
  "map_all fuel [] ob off n pm s = Some s"
| "map_all fuel (i # is) ob off n pm s = do {
     (_, s) \<leftarrow> mapping_map fuel i (mo_data ob) off n pm s;
     m \<leftarrow> get_map i s;
     own \<leftarrow> space_id (fm_space m) s;
     cur \<leftarrow> fcurrent s;
     map_all fuel is ob off n pm (if own = cur
       then s\<lparr>fl_events := fl_events s @ [Map_cpu (fm_base m + off * fpage s) (n * fpage s) (mo_data ob + off * fpage s)]\<rparr> else s)
   }"

fun unmap_all :: "nat \<Rightarrow> nat list \<Rightarrow> nat \<Rightarrow> nat \<Rightarrow> flex \<Rightarrow> flex undef" where
  "unmap_all fuel [] off n s = Some s"
| "unmap_all fuel (i # is) off n s = do {
     (_, s) \<leftarrow> mapping_unmap fuel i off n s;
     m \<leftarrow> get_map i s;
     own \<leftarrow> space_id (fm_space m) s;
     cur \<leftarrow> fcurrent s;
     unmap_all fuel is off n (if own = cur
       then s\<lparr>fl_events := fl_events s @ [Unmap_cpu (fm_base m + off * fpage s) (n * fpage s)]\<rparr> else s)
   }"

text \<open>\<open>os_commit\<close> and \<open>os_decommit\<close>: whether the host gives or takes back a range of memory.\<close>

definition object_commit :: "(nat \<Rightarrow> nat \<Rightarrow> bool) \<Rightarrow> nat \<Rightarrow> mem_object \<Rightarrow> nat \<Rightarrow> nat \<Rightarrow> nat \<Rightarrow> flex \<Rightarrow> (bool \<times> flex) undef" where
  "object_commit os_commit fuel ob off n pm s =
    (if off + n > mo_pages ob then Some (False, s)
     else if \<not> mo_external ob \<and> \<not> os_commit (mo_data ob + off * fpage s) (n * fpage s) then Some (False, s)
     else do {
       let s = (if mo_external ob then s else s\<lparr>fl_filled := fl_filled s @ [(mo_data ob + off * fpage s, n * fpage s, mo_clear ob)]\<rparr>);
       s \<leftarrow> map_all fuel (mo_maps ob) ob off n pm s;
       Some (True, s)
     })"

definition object_decommit :: "(nat \<Rightarrow> nat \<Rightarrow> bool) \<Rightarrow> nat \<Rightarrow> mem_object \<Rightarrow> nat \<Rightarrow> nat \<Rightarrow> flex \<Rightarrow> (bool \<times> flex) undef" where
  "object_decommit os_decommit fuel ob off n s =
    (if off + n > mo_pages ob then Some (False, s)
     else if \<not> mo_external ob \<and> \<not> os_decommit (mo_data ob + off * fpage s) (n * fpage s) then Some (False, s)
     else do {
       s \<leftarrow> unmap_all fuel (mo_maps ob) off n s;
       Some (True, s)
     })"

section \<open>Chunks\<close>

text \<open>The slots of the manager are never empty, as destroying a chunk removes its slot.\<close>

definition new_fchunk :: "flex \<Rightarrow> nat \<times> flex" where
  "new_fchunk s = (let i = length (fl_chunks s);
       c = \<lparr>fc_addr = 0, fc_flags = [], fc_max = 0, fc_committed = 0, fc_bottom = 0, fc_top = 0, fc_perm = 0, fc_obj = None,
         fc_bma = None, fc_owned = False, fc_fixed = None\<rparr>;
       s = s\<lparr>fl_chunks := fl_chunks s @ [Some c]\<rparr>
     in (i, case find_index (\<lambda>x. x = None) (fl_mngr s) of
          Some k \<Rightarrow> s\<lparr>fl_mngr := (fl_mngr s)[k := Some i]\<rparr>
        | None \<Rightarrow> s\<lparr>fl_mngr := fl_mngr s @ [Some i]\<rparr>))"

text \<open>The destructor of the chunk deletes its fixed mapping.\<close>

definition destroy_fchunk :: "nat \<Rightarrow> nat \<Rightarrow> flex \<Rightarrow> (bool \<times> flex) undef" where
  "destroy_fchunk fuel i s = (case find_index (\<lambda>x. x = Some i) (fl_mngr s) of
     None \<Rightarrow> Some (False, s)
   | Some k \<Rightarrow> do {
       c \<leftarrow> get_chunk i s;
       s \<leftarrow> (case fc_fixed c of None \<Rightarrow> Some s | Some m \<Rightarrow> delete_mapping fuel m s);
       Some (True, s\<lparr>fl_mngr := erase_at k (fl_mngr s), fl_chunks := (fl_chunks s)[i := None]\<rparr>)
     })"

definition fpages_of :: "nat \<Rightarrow> flex \<Rightarrow> nat" where
  "fpages_of sz s = (sz + fpage s - 1) div fpage s"

text \<open>\<open>clear\<close> is the clear byte of the creation info. A chunk without owner is mapped for the kernel; that its mapping
  could not be instantiated goes unnoticed.\<close>

definition fdo_create :: "(nat \<Rightarrow> nat) \<Rightarrow> chunk_info \<Rightarrow> nat \<Rightarrow> nat \<Rightarrow> flex \<Rightarrow> (int \<times> flex) undef" where
  "fdo_create os_map ci clear i s = do {
     c \<leftarrow> get_chunk i s;
     let n = fpages_of (ci_size ci) s;
     let c = c\<lparr>fc_addr := ci_addr ci, fc_flags := ci_flags ci, fc_max := n * fpage s mod 2 ^ 32, fc_bottom := 0, fc_top := 0,
       fc_obj := Some (new_mem_object os_map n (ci_host_map ci) clear s),
       fc_bma := (if Type_normal \<in> set (ci_flags ci) then fc_bma c else Some (bitmap_init n)), fc_perm := ci_perm ci\<rparr>;
     if fc_owned c then Some (0, put_chunk i c s)
     else do {
       let (m, s) = new_mapping 0 s;
       (_, s) \<leftarrow> instantiate m n (fc_flags c) (fc_addr c) s;
       ob \<leftarrow> fc_obj c;
       Some (0, put_chunk i (c\<lparr>fc_fixed := Some m, fc_obj := Some (snd (attach_mapping m ob))\<rparr>) s)
     }
   }"

definition fcommit :: "(nat \<Rightarrow> nat \<Rightarrow> bool) \<Rightarrow> nat \<Rightarrow> nat \<Rightarrow> nat \<Rightarrow> nat \<Rightarrow> flex \<Rightarrow> (nat \<times> flex) undef" where
  "fcommit os_commit fuel i off sz s = do {
     c \<leftarrow> get_chunk i s;
     ob \<leftarrow> fc_obj c;
     let n = fpages_of sz s;
     let p = off div fpage s;
     (ok, s) \<leftarrow> object_commit os_commit fuel ob p n (fc_perm c) s;
     if \<not> ok then Some (0, s)
     else do {
       let before = (case fc_bma c of None \<Rightarrow> 0 | Some ws \<Rightarrow> allocated_count p (p + n - 1) ws);
       let c = c\<lparr>fc_committed := nat ((int (fc_committed c) + (int n - before) * int (fpage s)) mod 2 ^ 32)\<rparr>;
       bma \<leftarrow> (case fc_bma c of None \<Rightarrow> Some None
              | Some ws \<Rightarrow> map_option (\<lambda>r. Some (snd r)) (force_fill p (int n) False ws));
       Some (n, put_chunk i (c\<lparr>fc_bma := bma\<rparr>) s)
     }
   }"

text \<open>The count of committed bytes is decreased by the whole range, committed or not.\<close>

definition fdecommit :: "(nat \<Rightarrow> nat \<Rightarrow> bool) \<Rightarrow> nat \<Rightarrow> nat \<Rightarrow> nat \<Rightarrow> nat \<Rightarrow> flex \<Rightarrow> flex undef" where
  "fdecommit os_decommit fuel i off sz s = do {
     c \<leftarrow> get_chunk i s;
     ob \<leftarrow> fc_obj c;
     let n = fpages_of sz s;
     let p = off div fpage s;
     (ok, s) \<leftarrow> object_decommit os_decommit fuel ob p n s;
     if \<not> ok then Some s
     else do {
       bma \<leftarrow> (case fc_bma c of None \<Rightarrow> Some None | Some ws \<Rightarrow> map_option Some (bitmap_free p (int n) ws));
       Some (put_chunk i (c\<lparr>fc_bma := bma, fc_committed := nat ((int (fc_committed c) - int (n * fpage s)) mod 2 ^ 32)\<rparr>) s)
     }
   }"

definition fallocate :: "(nat \<Rightarrow> nat \<Rightarrow> bool) \<Rightarrow> nat \<Rightarrow> nat \<Rightarrow> nat \<Rightarrow> flex \<Rightarrow> (bool \<times> flex) undef" where
  "fallocate os_commit fuel i sz s = do {
     c \<leftarrow> get_chunk i s;
     ws \<leftarrow> fc_bma c;
     let n = fpages_of sz s;
     (off, total, ws) \<leftarrow> allocate_from 0 n False ws;
     if total \<noteq> int n \<or> off = -1 then do {
       ws \<leftarrow> (if off = -1 then Some ws else bitmap_free (nat off) total ws);
       Some (False, put_chunk i (c\<lparr>fc_bma := Some ws\<rparr>) s)
     }
     else do {
       (_, s) \<leftarrow> fcommit os_commit fuel i (nat off * fpage s) sz (put_chunk i (c\<lparr>fc_bma := Some ws\<rparr>) s);
       Some (True, s)
     }
   }"

definition invalid_addr :: nat where
  "invalid_addr = 0xDEADBEEF"

definition fbase :: "nat \<Rightarrow> fprocess option \<Rightarrow> flex \<Rightarrow> nat undef" where
  "fbase i pr s = do {
     c \<leftarrow> get_chunk i s;
     case pr of
       None \<Rightarrow> (case fc_fixed c of Some m \<Rightarrow> map_option fm_base (get_map m s) | None \<Rightarrow> Some (fc_addr c))
     | Some pr \<Rightarrow> (case find (\<lambda>a. fst a = i) (fp_attachs pr) of
           None \<Rightarrow> Some invalid_addr
         | Some (_, m) \<Rightarrow> map_option fm_base (get_map m s))
   }"

text \<open>\<open>adjust\<close> is inherited from \<open>mem_model_chunk\<close>.\<close>

definition fadjust :: "(nat \<Rightarrow> nat \<Rightarrow> bool) \<Rightarrow> (nat \<Rightarrow> nat \<Rightarrow> bool) \<Rightarrow> nat \<Rightarrow> nat \<Rightarrow> nat \<Rightarrow> nat \<Rightarrow> flex \<Rightarrow> (bool \<times> flex) undef" where
  "fadjust os_commit os_decommit fuel i lo hi s = do {
     c \<leftarrow> get_chunk i s;
     let S = fpage s;
     let t = (hi + S - 1) div S;
     let b = lo div S;
     s \<leftarrow> (if t < fc_top c then fdecommit os_decommit fuel i (t * S) ((fc_top c - t) * S) s
          else if t > fc_top c then map_option snd (fcommit os_commit fuel i (fc_top c * S) ((t - fc_top c) * S) s)
          else Some s);
     c \<leftarrow> get_chunk i s;
     let s = put_chunk i (c\<lparr>fc_top := t\<rparr>) s;
     if lo = no_bottom then Some (True, s)
     else do {
       s \<leftarrow> (if b > fc_bottom c then fdecommit os_decommit fuel i (fc_bottom c * S) ((b - fc_bottom c) * S) s
            else if b < fc_bottom c then map_option snd (fcommit os_commit fuel i (b * S) ((fc_bottom c - b) * S) s)
            else Some s);
       c \<leftarrow> get_chunk i s;
       Some (True, put_chunk i (c\<lparr>fc_bottom := b\<rparr>) s)
     }
   }"

section \<open>Processes\<close>

definition new_fprocess :: "flex \<Rightarrow> fprocess \<times> flex" where
  "new_fprocess s = (let (a, s) = new_space s in (\<lparr>fp_space = a, fp_attachs = []\<rparr>, s))"

text \<open>The new mapping is deleted again when it cannot be instantiated.\<close>

definition fattach :: "nat \<Rightarrow> nat \<Rightarrow> fprocess \<times> flex \<Rightarrow> (bool \<times> fprocess \<times> flex) undef" where
  "fattach fuel i st = (case st of (pr, s) \<Rightarrow>
     if i \<in> fst ` set (fp_attachs pr) then Some (False, pr, s)
     else do {
       c \<leftarrow> get_chunk i s;
       let (m, s) = new_mapping (fp_space pr) s;
       (ok, s) \<leftarrow> instantiate m (fc_max c div fpage s) (fc_flags c) (fc_addr c) s;
       if \<not> ok then do { s \<leftarrow> delete_mapping fuel m s; Some (False, pr, s) }
       else do {
         ob \<leftarrow> fc_obj c;
         Some (True, pr\<lparr>fp_attachs := fp_attachs pr @ [(i, m)]\<rparr>, put_chunk i (c\<lparr>fc_obj := Some (snd (attach_mapping m ob))\<rparr>) s)
       }
     })"

definition fdetach :: "nat \<Rightarrow> nat \<Rightarrow> fprocess \<times> flex \<Rightarrow> (bool \<times> fprocess \<times> flex) undef" where
  "fdetach fuel i st = (case st of (pr, s) \<Rightarrow>
     case find_index (\<lambda>a. fst a = i) (fp_attachs pr) of
       None \<Rightarrow> Some (False, pr, s)
     | Some k \<Rightarrow> do {
         let m = snd (fp_attachs pr ! k);
         c \<leftarrow> get_chunk i s;
         ob \<leftarrow> fc_obj c;
         s \<leftarrow> delete_mapping fuel m (put_chunk i (c\<lparr>fc_obj := Some (snd (detach_mapping m ob))\<rparr>) s);
         Some (True, pr\<lparr>fp_attachs := erase_at k (fp_attachs pr)\<rparr>, s)
       })"

definition fcreate_chunk :: "(nat \<Rightarrow> nat) \<Rightarrow> nat \<Rightarrow> chunk_info \<Rightarrow> nat \<Rightarrow> fprocess \<times> flex \<Rightarrow> (int \<times> nat option \<times> fprocess \<times> flex) undef" where
  "fcreate_chunk os_map fuel ci clear st = (case st of (pr, s) \<Rightarrow> do {
     let (i, s) = new_fchunk s;
     c \<leftarrow> get_chunk i s;
     (err, s) \<leftarrow> fdo_create os_map ci clear i (put_chunk i (c\<lparr>fc_owned := True\<rparr>) s);
     if err \<noteq> 0 then do { (_, s) \<leftarrow> destroy_fchunk fuel i s; Some (err, None, pr, s) }
     else do {
       (ok, pr, s) \<leftarrow> fattach fuel i (pr, s);
       if ok then Some (0, Some i, pr, s)
       else do { (_, s) \<leftarrow> destroy_fchunk fuel i s; Some (-1, None, pr, s) }
     }
   })"

definition fdelete_chunk :: "nat \<Rightarrow> nat \<Rightarrow> fprocess \<times> flex \<Rightarrow> (fprocess \<times> flex) undef" where
  "fdelete_chunk fuel i st = do {
     (ok, pr, s) \<leftarrow> fdetach fuel i st;
     if ok then do { (_, s) \<leftarrow> destroy_fchunk fuel i s; Some (pr, s) } else Some (pr, s)
   }"

definition fget_pointer :: "nat \<Rightarrow> fprocess \<Rightarrow> flex \<Rightarrow> nat undef" where
  "fget_pointer addr pr s = do { k \<leftarrow> space_dir (fp_space pr) s; d \<leftarrow> the_fdir k s; dir_get_pointer (fl_tables s) d addr }"

definition should_do_cpu_manipulate :: "region list \<Rightarrow> bool" where
  "should_do_cpu_manipulate flags \<longleftrightarrow> Region_user_local \<in> set flags \<or> Region_user_global \<in> set flags
     \<or> Region_dll_static_data \<in> set flags \<or> Region_user_code \<in> set flags"

text \<open>What \<^const>\<open>manipulate_cpu_map\<close>, which both models inherit, sees of the chunk and of the memory management unit.\<close>

definition base_view :: "nat \<Rightarrow> fchunk \<Rightarrow> mem_object \<Rightarrow> mchunk" where
  "base_view b c ob = (new_mchunk None)\<lparr>ch_base := b, host_base := mo_data ob, page_bma := fc_bma c, bottom := fc_bottom c, top_page := fc_top c\<rparr>"

definition mmu_view :: "flex \<Rightarrow> mmu" where
  "mmu_view s = (new_mmu (fl_psize s) (fl_old s))\<lparr>cpu_events := fl_events s\<rparr>"

fun fmanipulate :: "fprocess \<Rightarrow> bool \<Rightarrow> (nat \<times> nat) list \<Rightarrow> flex \<Rightarrow> flex undef" where
  "fmanipulate pr mapping [] s = Some s"
| "fmanipulate pr mapping ((i, _) # as) s = do {
     c \<leftarrow> get_chunk i s;
     s \<leftarrow> (if should_do_cpu_manipulate (fc_flags c) then do {
            b \<leftarrow> fbase i (Some pr) s;
            ob \<leftarrow> fc_obj c;
            m \<leftarrow> manipulate_cpu_map (base_view b c ob) mapping (mmu_view s);
            Some (s\<lparr>fl_events := cpu_events m\<rparr>)
          } else Some s);
     fmanipulate pr mapping as s
   }"

definition funmap_from_cpu :: "fprocess \<Rightarrow> flex \<Rightarrow> flex undef" where
  "funmap_from_cpu pr s = fmanipulate pr False (fp_attachs pr) s"

definition fremap_to_cpu :: "fprocess \<Rightarrow> flex \<Rightarrow> flex undef" where
  "fremap_to_cpu pr s = fmanipulate pr True (fp_attachs pr) s"

end
