(* ===== verification/Flex_Rep.thy ===== *)
theory Flex_Rep imports Flex begin

text \<open>
  Correctness of the flexible memory model: what committing and decommitting a range of a chunk does to the translation of
  addresses in the processes it is attached to.
\<close>

section \<open>Address spaces as page maps\<close>

text \<open>The tables and directories are in order for pages of 4 KB, and no two entries of directories share a table.\<close>

definition flex_ok :: "flex \<Rightarrow> bool" where
  "flex_ok s \<longleftrightarrow> fl_psize s = 12
     \<and> (\<forall>k d. the_fdir k s = Some d \<longrightarrow> dir_psize d = 4096 \<and> length (page_tabs d) = 4096)
     \<and> (\<forall>k d i t. the_fdir k s = Some d \<longrightarrow> i < 4096 \<longrightarrow> page_tabs d ! i = Some t \<longrightarrow>
          t < length (fl_tables s) \<and> pt_idx (fl_tables s ! t) \<noteq> no_index
          \<and> (\<forall>k' d' i'. the_fdir k' s = Some d' \<longrightarrow> i' < 4096 \<longrightarrow> page_tabs d' ! i' = Some t \<longrightarrow> k' = k \<and> i' = i))
     \<and> (\<forall>t < length (fl_tables s). length (pages (fl_tables s ! t)) = 256
          \<and> (pt_idx (fl_tables s ! t) = no_index \<longrightarrow> (\<forall>j < 256. host_addr (pages (fl_tables s ! t) ! j) = 0)))"

text \<open>What the directory \<open>k\<close> has for the page number \<open>p\<close>: the page's host address, 0 if there is none.\<close>

definition entry :: "nat \<Rightarrow> nat \<Rightarrow> flex \<Rightarrow> nat" where
  "entry k p s = (case the_fdir k s of None \<Rightarrow> 0
     | Some d \<Rightarrow> (case page_tabs d ! (p div 256) of None \<Rightarrow> 0 | Some t \<Rightarrow> host_addr (pages (fl_tables s ! t) ! (p mod 256))))"

definition translate :: "nat \<Rightarrow> nat \<Rightarrow> flex \<Rightarrow> nat undef" where
  "translate k addr s = do { d \<leftarrow> the_fdir k s; dir_get_pointer (fl_tables s) d addr }"

lemma flex_okD:
  assumes "flex_ok s"
  shows "fl_psize s = 12" "fpage s = 4096"
    "the_fdir k s = Some d \<Longrightarrow> dir_psize d = 4096" "the_fdir k s = Some d \<Longrightarrow> length (page_tabs d) = 4096"
    "the_fdir k s = Some d \<Longrightarrow> i < 4096 \<Longrightarrow> page_tabs d ! i = Some t \<Longrightarrow> t < length (fl_tables s) \<and> pt_idx (fl_tables s ! t) \<noteq> no_index"
    "the_fdir k s = Some d \<Longrightarrow> i < 4096 \<Longrightarrow> page_tabs d ! i = Some t \<Longrightarrow>
      the_fdir k' s = Some d' \<Longrightarrow> i' < 4096 \<Longrightarrow> page_tabs d' ! i' = Some t \<Longrightarrow> k' = k \<and> i' = i"
    "t < length (fl_tables s) \<Longrightarrow> length (pages (fl_tables s ! t)) = 256"
    "t < length (fl_tables s) \<Longrightarrow> pt_idx (fl_tables s ! t) = no_index \<Longrightarrow> j < 256 \<Longrightarrow> host_addr (pages (fl_tables s ! t) ! j) = 0"
proof -
  show "fl_psize s = 12" "fpage s = 4096" using assms by (simp_all add: flex_ok_def fpage_def)
  show "the_fdir k s = Some d \<Longrightarrow> dir_psize d = 4096" "the_fdir k s = Some d \<Longrightarrow> length (page_tabs d) = 4096"
    using assms unfolding flex_ok_def by blast+
  show "the_fdir k s = Some d \<Longrightarrow> i < 4096 \<Longrightarrow> page_tabs d ! i = Some t \<Longrightarrow> t < length (fl_tables s) \<and> pt_idx (fl_tables s ! t) \<noteq> no_index"
    using assms unfolding flex_ok_def by blast
  show "the_fdir k s = Some d \<Longrightarrow> i < 4096 \<Longrightarrow> page_tabs d ! i = Some t \<Longrightarrow>
      the_fdir k' s = Some d' \<Longrightarrow> i' < 4096 \<Longrightarrow> page_tabs d' ! i' = Some t \<Longrightarrow> k' = k \<and> i' = i"
    using assms unfolding flex_ok_def by blast
  show "t < length (fl_tables s) \<Longrightarrow> length (pages (fl_tables s ! t)) = 256"
    "t < length (fl_tables s) \<Longrightarrow> pt_idx (fl_tables s ! t) = no_index \<Longrightarrow> j < 256 \<Longrightarrow> host_addr (pages (fl_tables s ! t) ! j) = 0"
    using assms unfolding flex_ok_def by blast+
qed

lemma flex_okI:
  assumes "fl_psize s = 12"
    and "\<And>k d. the_fdir k s = Some d \<Longrightarrow> dir_psize d = 4096 \<and> length (page_tabs d) = 4096"
    and "\<And>k d i t. the_fdir k s = Some d \<Longrightarrow> i < 4096 \<Longrightarrow> page_tabs d ! i = Some t \<Longrightarrow>
          t < length (fl_tables s) \<and> pt_idx (fl_tables s ! t) \<noteq> no_index"
    and "\<And>k d i t k' d' i'. the_fdir k s = Some d \<Longrightarrow> i < 4096 \<Longrightarrow> page_tabs d ! i = Some t \<Longrightarrow>
          the_fdir k' s = Some d' \<Longrightarrow> i' < 4096 \<Longrightarrow> page_tabs d' ! i' = Some t \<Longrightarrow> k' = k \<and> i' = i"
    and "\<And>t. t < length (fl_tables s) \<Longrightarrow> length (pages (fl_tables s ! t)) = 256"
    and "\<And>t j. t < length (fl_tables s) \<Longrightarrow> pt_idx (fl_tables s ! t) = no_index \<Longrightarrow> j < 256 \<Longrightarrow> host_addr (pages (fl_tables s ! t) ! j) = 0"
  shows "flex_ok s"
  unfolding flex_ok_def using assms by blast

lemma translate_entry:
  assumes "flex_ok s" and "the_fdir k s = Some d" and "addr < 2 ^ 32"
  shows "translate k addr s = Some (if entry k (addr div 4096) s = 0 then 0 else entry k (addr div 4096) s + addr mod 4096)"
proof -
  note d = flex_okD(3,4) [OF assms(1,2)]
  have i: "addr div 2 ^ 20 < 4096" using assms(3) by (simp add: div_less_iff_less_mult)
  have q: "addr div 4096 div 256 = addr div 2 ^ 20" by (simp add: div_mult2_eq [symmetric])
  show ?thesis
  proof (cases "page_tabs d ! (addr div 2 ^ 20)")
    case None
    then show ?thesis using assms(2) d i
      by (simp add: translate_def dir_get_pointer_def entry_def q [simplified] table_index_shift_def Let_def)
  next
    case (Some t)
    then have t: "t < length (fl_tables s)" using flex_okD(5) [OF assms(1,2) i] by blast
    have "\<not> 256 \<le> addr div 4096 mod 256" by (simp add: not_le)
    then show ?thesis using assms(2) d i Some flex_okD(7) [OF assms(1) t]
      by (simp add: translate_def dir_get_pointer_def entry_def q [simplified] table_index_shift_def page_bits_def pages_per_table_def
          page_info_at_def Let_def)
  qed
qed

section \<open>Mapping pages\<close>

lemma the_fdir_upd [simp]: "the_fdir k (s\<lparr>fl_tables := x\<rparr>) = the_fdir k s"
  by (simp add: the_fdir_def)

lemma the_fdir_put: "k < length (fl_dirs s) \<Longrightarrow> the_fdir k' (s\<lparr>fl_dirs := (fl_dirs s)[k := Some d]\<rparr>) = (if k' = k then Some d else the_fdir k' s)"
  by (simp add: the_fdir_def)

lemma the_fdir_bound: "the_fdir k s = Some d \<Longrightarrow> k < length (fl_dirs s)"
  by (simp add: the_fdir_def split: if_splits)

text \<open>What operations on pages leave as it is.\<close>

definition same_frame :: "flex \<Rightarrow> flex \<Rightarrow> bool" where
  "same_frame s s' \<longleftrightarrow> (\<exists>ts ds. s' = s\<lparr>fl_tables := ts, fl_dirs := ds\<rparr>) \<and> length (fl_dirs s') = length (fl_dirs s)
     \<and> (\<forall>k. map_option dir_id (the_fdir k s') = map_option dir_id (the_fdir k s))
     \<and> (\<forall>k. map_option occupied (the_fdir k s') = map_option occupied (the_fdir k s))"

lemma same_frameI:
  assumes "s' = s\<lparr>fl_tables := ts, fl_dirs := ds\<rparr>" and "length ds = length (fl_dirs s)"
    and "\<And>k. map_option dir_id (the_fdir k s') = map_option dir_id (the_fdir k s)"
    and "\<And>k. map_option occupied (the_fdir k s') = map_option occupied (the_fdir k s)"
  shows "same_frame s s'"
  unfolding same_frame_def using assms by auto

lemma same_frame_refl: "same_frame s s"
  unfolding same_frame_def by (intro conjI exI [of _ "fl_tables s"] exI [of _ "fl_dirs s"]) simp_all

lemma same_frame_trans: "same_frame s s' \<Longrightarrow> same_frame s' s'' \<Longrightarrow> same_frame s s''"
  by (force simp: same_frame_def)

lemma map_pages_spec:
  "length pgs = n \<Longrightarrow> j < n \<Longrightarrow> (\<forall>x < cnt. a + x < n) \<Longrightarrow>
    map_pages [base + a..<base + a + cnt] h pm S n pgs ! j
      = (if a \<le> j \<and> j < a + cnt then \<lparr>host_addr = h + (j - a) * S, perm = pm\<rparr> else pgs ! j)" if "base mod n = 0"
proof (induction cnt arbitrary: a h pgs)
  case (Suc cnt)
  have b: "(base + a) mod n = a" using Suc(4) that by (metis add_0_right mod_add_left_eq mod_less add_0 zero_less_Suc)
  have "map_pages [base + a..<base + a + Suc cnt] h pm S n pgs
      = map_pages [base + Suc a..<base + Suc a + cnt] (h + S) pm S n (pgs[a := \<lparr>host_addr = h, perm = pm\<rparr>])"
    by (subst upt_conv_Cons) (simp_all add: b)
  also have "\<dots> ! j = (if Suc a \<le> j \<and> j < Suc a + cnt then \<lparr>host_addr = h + S + (j - Suc a) * S, perm = pm\<rparr>
      else pgs[a := \<lparr>host_addr = h, perm = pm\<rparr>] ! j)"
    using Suc by (intro Suc.IH) auto
  also have "\<dots> = (if a \<le> j \<and> j < a + Suc cnt then \<lparr>host_addr = h + (j - a) * S, perm = pm\<rparr> else pgs ! j)"
  proof -
    have "j - a = Suc (j - Suc a)" if "Suc a \<le> j" using that by simp
    then show ?thesis using Suc(2,3) by (cases "j = a") (auto simp: Suc_le_eq)
  qed
  finally show ?case .
qed simp

lemma length_map_pages [simp]: "length (map_pages ps h pm S n pgs) = length pgs"
  by (induction ps arbitrary: h pgs) simp_all

lemma fresh_table_all:
  assumes "flex_ok s" and "create_new_table 12 (fl_tables s) = (t, ts)"
  shows "t < length ts \<and> length (fl_tables s) \<le> length ts \<and> length ts \<le> Suc (length (fl_tables s)) \<and>
    (\<forall>u<length ts. u \<noteq> t \<longrightarrow> u < length (fl_tables s) \<and> ts ! u = fl_tables s ! u) \<and>
    length (pages (ts ! t)) = 256 \<and> (\<forall>j<256. host_addr (pages (ts ! t) ! j) = 0) \<and>
    (t < length (fl_tables s) \<longrightarrow> pt_idx (fl_tables s ! t) = no_index \<and> ts = fl_tables s)"
proof (cases "find_index (\<lambda>t. pt_idx t = no_index) (fl_tables s)")
  case None
  then have "t = length (fl_tables s)" "ts = fl_tables s @ [new_page_table (length (fl_tables s)) 12]"
    using assms(2) by (auto simp: create_new_table_def)
  then show ?thesis by (auto simp: new_page_table_def pages_per_table_def nth_append)
next
  case (Some u)
  then have "t = u" "ts = fl_tables s" "t < length (fl_tables s)" "pt_idx (fl_tables s ! t) = no_index"
    using assms(2) find_index_SomeD [OF Some] by (auto simp: create_new_table_def)
  then show ?thesis using flex_okD(7,8) [OF assms(1)] by simp
qed

lemmas fresh_table = fresh_table_all [THEN conjunct1]
  fresh_table_all [THEN conjunct2, THEN conjunct1]
  fresh_table_all [THEN conjunct2, THEN conjunct2, THEN conjunct1]
  fresh_table_all [THEN conjunct2, THEN conjunct2, THEN conjunct2, THEN conjunct1]
  fresh_table_all [THEN conjunct2, THEN conjunct2, THEN conjunct2, THEN conjunct2, THEN conjunct1]
  fresh_table_all [THEN conjunct2, THEN conjunct2, THEN conjunct2, THEN conjunct2, THEN conjunct2, THEN conjunct1]
  fresh_table_all [THEN conjunct2, THEN conjunct2, THEN conjunct2, THEN conjunct2, THEN conjunct2, THEN conjunct2]

lemma table_at_spec:
  assumes "flex_ok s" and "the_fdir k s = Some d" and "addr div 2 ^ 20 < 4095"
  shows "\<exists>t s'. table_at k addr s = Some (t, s') \<and> flex_ok s' \<and> same_frame s s' \<and> (\<forall>k' p. p < 4096 * 256 \<longrightarrow> entry k' p s' = entry k' p s)
    \<and> (\<exists>d'. the_fdir k s' = Some d' \<and> page_tabs d' ! (addr div 2 ^ 20) = Some t) \<and> t < length (fl_tables s')"
proof -
  let ?off = "addr div 2 ^ 20"
  note d = flex_okD(3,4) [OF assms(1,2)]
  have sh: "table_index_shift 4096 = 20" "table_index_shift 12 = 20" by (simp_all add: table_index_shift_def)
  show ?thesis
  proof (cases "page_tabs d ! ?off")
    case (Some t)
    then have "t < length (fl_tables s)" using flex_okD(5) [OF assms(1,2), of ?off] assms(3) by simp
    moreover have "table_at k addr s = Some (t, s)"
      using assms(2,3) d Some by (simp add: table_at_def dir_get_page_table_def sh Let_def)
    ultimately show ?thesis using assms(1,2) Some same_frame_refl by blast
  next
    case None
    obtain t ts where c: "create_new_table 12 (fl_tables s) = (t, ts)" by force
    define pt where "pt = (ts ! t)\<lparr>pt_idx := ?off\<rparr>"
    define d' where "d' = d\<lparr>page_tabs := (page_tabs d)[?off := Some t]\<rparr>"
    define s' where "s' = s\<lparr>fl_dirs := (fl_dirs s)[k := Some d'], fl_tables := ts[t := pt]\<rparr>"
    have ix: "?off \<noteq> no_index" using assms(3) by (simp add: no_index_def)
    note new = fresh_table [OF assms(1) c]
    have unused: "page_tabs e ! i \<noteq> Some t" if "the_fdir j s = Some e" "i < 4096" for j e i
      using flex_okD(5) [OF assms(1) that] new(7) by auto
    have "set_page_table ?off (Some t) d = d'"
      using ix d assms(3) by (simp add: set_page_table_def d'_def offset_mask_def page_bits_def)
    then have eq: "table_at k addr s = Some (t, s')"
      using assms(2,3) d None c flex_okD(1) [OF assms(1)]
      by (simp add: table_at_def dir_get_page_table_def sh upd_fdir_def the_fdir_def s'_def pt_def Let_def split: if_splits)
    note k = the_fdir_bound [OF assms(2)]
    have fd: "the_fdir j s' = (if j = k then Some d' else the_fdir j s)" for j by (simp add: s'_def the_fdir_put [OF k])
    have tab: "fl_tables s' ! u = (if u = t then pt else fl_tables s ! u)" if "u < length ts" for u
      using that new(1,4) by (simp add: s'_def)
    have len: "length (fl_tables s') = length ts" by (simp add: s'_def)
    have d': "page_tabs d' ! i = (if i = ?off then Some t else page_tabs d ! i)" if "i < 4096" for i
      using that assms(3) d by (simp add: d'_def nth_list_update)
    have tabs: "page_tabs e ! i = Some u \<longleftrightarrow> (if j = k \<and> i = ?off then u = t else the_fdir j s \<noteq> None \<and> page_tabs (the (the_fdir j s)) ! i = Some u)"
      if "the_fdir j s' = Some e" "i < 4096" for j e i u
      using that fd [of j] d' assms(2) by (auto split: if_splits)
    have ok: "flex_ok s'"
    proof (rule flex_okI)
      show "fl_psize s' = 12" using flex_okD(1) [OF assms(1)] by (simp add: s'_def)
      show "dir_psize e = 4096 \<and> length (page_tabs e) = 4096" if "the_fdir j s' = Some e" for j e
        using that fd d flex_okD(3,4) [OF assms(1)] by (auto simp: d'_def split: if_splits)
      show "u < length (fl_tables s') \<and> pt_idx (fl_tables s' ! u) \<noteq> no_index" if "the_fdir j s' = Some e" "i < 4096" "page_tabs e ! i = Some u" for j e i u
      proof (cases "u = t")
        case True
        then show ?thesis using new(1) len tab ix by (simp add: pt_def)
      next
        case False
        then have "the_fdir j s \<noteq> None" "page_tabs (the (the_fdir j s)) ! i = Some u" using tabs [OF that(1,2)] that(3) by (auto split: if_splits)
        then have "u < length (fl_tables s) \<and> pt_idx (fl_tables s ! u) \<noteq> no_index" using flex_okD(5) [OF assms(1) _ that(2)] by fastforce
        then show ?thesis using False len tab new(2) by simp
      qed
      show "k2 = k1 \<and> i2 = i1" if "the_fdir k1 s' = Some e1" "i1 < 4096" "page_tabs e1 ! i1 = Some u"
        "the_fdir k2 s' = Some e2" "i2 < 4096" "page_tabs e2 ! i2 = Some u" for k1 e1 i1 u k2 e2 i2
      proof (cases "u = t")
        case True
        have "j = k \<and> i = ?off" if "the_fdir j s' = Some e" "i < 4096" "page_tabs e ! i = Some t" for j e i
          using that tabs [OF that(1,2), of t] unused [of j "the (the_fdir j s)" i] by (cases "j = k \<and> i = ?off") auto
        then show ?thesis using that unfolding True by blast
      next
        case False
        have "the_fdir j s = Some (the (the_fdir j s)) \<and> page_tabs (the (the_fdir j s)) ! i = Some u" if "the_fdir j s' = Some e" "i < 4096" "page_tabs e ! i = Some u" for j e i
          using that(3) tabs [OF that(1,2), of u] False by (cases "j = k \<and> i = ?off") auto
        from this [OF that(1-3)] this [OF that(4-6)] show ?thesis using flex_okD(6) [OF assms(1), of k1 _ i1 u k2 _ i2] that(2,5) by blast
      qed
      show "length (pages (fl_tables s' ! u)) = 256" if "u < length (fl_tables s')" for u
        using that tab [of u] len new(4,5) flex_okD(7) [OF assms(1), of u] by (cases "u = t") (simp_all add: pt_def)
      show "host_addr (pages (fl_tables s' ! u) ! j) = 0" if "u < length (fl_tables s')" "pt_idx (fl_tables s' ! u) = no_index" "j < 256" for u j
        using that tab [of u] len new(4) flex_okD(8) [OF assms(1), of u j] ix by (cases "u = t") (simp_all add: pt_def)
    qed
    have "entry j p s' = entry j p s" if "p < 4096 * 256" for j p
    proof -
      have p: "p div 256 < 4096" "p mod 256 < 256" using that by (simp_all add: div_less_iff_less_mult)
      have other: "host_addr (pages (fl_tables s' ! u) ! (p mod 256)) = host_addr (pages (fl_tables s ! u) ! (p mod 256))"
        if "the_fdir j s = Some e" "page_tabs e ! (p div 256) = Some u" for e u
        using flex_okD(5) [OF assms(1) that(1) p(1) that(2)] tab [of u] unused [OF that(1) p(1)] that(2) new(2) by (cases "u = t") simp_all
      show ?thesis
      proof (cases "j = k")
        case True
        have "host_addr (pages (fl_tables s' ! t) ! (p mod 256)) = 0" using tab [of t] new(1,6) p(2) by (simp add: pt_def)
        then show ?thesis using True other [of d] assms(2) None p(1)
          by (auto simp: entry_def fd d' split: option.splits)
      next
        case False
        then show ?thesis using other by (auto simp: entry_def fd split: option.splits)
      qed
    qed
    moreover have "s' = s\<lparr>fl_tables := ts[t := pt], fl_dirs := (fl_dirs s)[k := Some d']\<rparr>" by (cases s) (simp add: s'_def)
    from this have "same_frame s s'" by (rule same_frameI) (use assms(2) in \<open>simp_all add: fd d'_def\<close>)
    moreover have "the_fdir k s' = Some d' \<and> page_tabs d' ! ?off = Some t" using fd d' assms(3) by simp
    ultimately show ?thesis using eq ok new(1) len by auto
  qed
qed

text \<open>The abstract effect of mapping the pages from \<open>a\<close> to \<open>b\<close> on host memory from \<open>h\<close> on.\<close>

definition mapped :: "nat \<Rightarrow> nat \<Rightarrow> nat \<Rightarrow> nat \<Rightarrow> flex \<Rightarrow> flex \<Rightarrow> bool" where
  "mapped k h a b s s' \<longleftrightarrow> flex_ok s' \<and> same_frame s s'
     \<and> (\<forall>k' p. p < 4096 * 256 \<longrightarrow> entry k' p s' = (if k' = k \<and> a \<le> p \<and> p < b then h + (p - a) * 4096 else entry k' p s))"

lemma page_table_update:
  assumes "flex_ok s" and "the_fdir k s = Some d" and "i < 4096" and "page_tabs d ! i = Some t" and "length pgs = 256"
    and "s' = s\<lparr>fl_tables := (fl_tables s)[t := (fl_tables s ! t)\<lparr>pages := pgs\<rparr>]\<rparr>"
  shows "flex_ok s' \<and> same_frame s s' \<and> (\<forall>k' p. p < 4096 * 256 \<longrightarrow>
    entry k' p s' = (if k' = k \<and> p div 256 = i then host_addr (pgs ! (p mod 256)) else entry k' p s))"
proof -
  have t: "t < length (fl_tables s)" "pt_idx (fl_tables s ! t) \<noteq> no_index" using flex_okD(5) [OF assms(1-4)] by auto
  have fd: "the_fdir j s' = the_fdir j s" for j by (simp add: assms(6))
  have tab: "fl_tables s' ! u = (if u = t then (fl_tables s ! t)\<lparr>pages := pgs\<rparr> else fl_tables s ! u)" for u
    using t(1) by (simp add: assms(6))
  have len: "length (fl_tables s') = length (fl_tables s)" by (simp add: assms(6))
  have ok: "flex_ok s'"
  proof (rule flex_okI)
    show "fl_psize s' = 12" using flex_okD(1) [OF assms(1)] by (simp add: assms(6))
    show "dir_psize e = 4096 \<and> length (page_tabs e) = 4096" if "the_fdir j s' = Some e" for j e
      using that flex_okD(3,4) [OF assms(1)] by (simp add: fd)
    show "u < length (fl_tables s') \<and> pt_idx (fl_tables s' ! u) \<noteq> no_index"
      if "the_fdir j s' = Some e" "i < 4096" "page_tabs e ! i = Some u" for j e i u
      using flex_okD(5) [OF assms(1) that [unfolded fd]] t(2) by (simp add: tab len)
    show "k2 = k1 \<and> i2 = i1" if "the_fdir k1 s' = Some e1" "i1 < 4096" "page_tabs e1 ! i1 = Some u"
      "the_fdir k2 s' = Some e2" "i2 < 4096" "page_tabs e2 ! i2 = Some u" for k1 e1 i1 u k2 e2 i2
      using flex_okD(6) [OF assms(1) that [unfolded fd]] .
    show "length (pages (fl_tables s' ! u)) = 256" if "u < length (fl_tables s')" for u
      using that flex_okD(7) [OF assms(1), of u] assms(5) by (simp add: tab len)
    show "host_addr (pages (fl_tables s' ! u) ! j) = 0" if "u < length (fl_tables s')" "pt_idx (fl_tables s' ! u) = no_index" "j < 256" for u j
      using that flex_okD(8) [OF assms(1), of u j] t(2) by (cases "u = t") (simp_all add: tab len)
  qed
  have "entry k' p s' = (if k' = k \<and> p div 256 = i then host_addr (pgs ! (p mod 256)) else entry k' p s)" if "p < 4096 * 256" for k' p
  proof -
    have p: "p div 256 < 4096" using that by (simp add: div_less_iff_less_mult)
    have "u = t \<longleftrightarrow> k' = k \<and> p div 256 = i" if "the_fdir k' s = Some e" "page_tabs e ! (p div 256) = Some u" for e u
      using flex_okD(6) [OF assms(1-4), of k' e "p div 256"] that p assms(2,4) by auto
    then show ?thesis using assms(2,4) by (auto simp: entry_def fd tab split: option.splits)
  qed
  moreover have "s' = s\<lparr>fl_tables := (fl_tables s)[t := (fl_tables s ! t)\<lparr>pages := pgs\<rparr>], fl_dirs := fl_dirs s\<rparr>"
    by (cases s) (simp add: assms(6))
  then have "same_frame s s'" by (rule same_frameI) (simp_all add: fd)
  ultimately show ?thesis using ok by blast
qed

lemma same_frame_simps: "same_frame s s' \<Longrightarrow> fl_psize s' = fl_psize s \<and> fl_spaces s' = fl_spaces s \<and> fl_maps s' = fl_maps s
    \<and> fl_chunks s' = fl_chunks s \<and> fl_cur s' = fl_cur s \<and> fl_old s' = fl_old s \<and> fl_events s' = fl_events s \<and> fpage s' = fpage s"
  by (auto simp: same_frame_def fpage_def)

lemma next_end_pages:
  assumes "a < b" and "b \<le> 4095 * 256"
  shows "next_end 12 (a * 4096) (b * 4096) = min ((a div 256 + 1) * 256) b * 4096"
proof -
  have "a * 4096 div 2 ^ 20 = a div 256"
    using div_mult_mult2 [of 4096 a 256] by simp
  moreover have "a div 256 < 4095" using assms by (simp add: div_less_iff_less_mult)
  then have "(a div 256 + 1) * 2 ^ 20 < 2 ^ 32" by simp
  ultimately show ?thesis by (simp add: next_end_def table_index_shift_def min_def)
qed

lemma mod_in_block: "a div n = q \<Longrightarrow> a + x < (q + 1) * n \<Longrightarrow> a mod n + x < (n :: nat)"
proof -
  assume a: "a div n = q" "a + x < (q + 1) * n"
  have "q * n + a mod n = a" using a(1) div_mult_mod_eq by blast
  then show "a mod n + x < n" using a(2) by (simp add: add.assoc)
qed

lemma map_loop_spec:
  assumes "flex_ok s" and "the_fdir k s \<noteq> None" and "a \<le> b" and "b \<le> 4095 * 256" and "b - a < fuel"
  shows "\<exists>s'. map_loop fuel k h pm (a * 4096) (b * 4096) s = Some s' \<and> mapped k h a b s s'"
  using assms
proof (induction fuel arbitrary: a h s)
  case (Suc fuel)
  show ?case
  proof (cases "a < b")
    case False
    then have "a = b" using Suc.prems(3) by simp
    then show ?thesis using Suc.prems(1) same_frame_refl by (simp add: mapped_def)
  next
    case True
    let ?i = "a div 256" and ?e = "min ((a div 256 + 1) * 256) b"
    have i: "?i < 4095" using True Suc.prems(4) by (simp add: div_less_iff_less_mult)
    have off: "a * 4096 div 2 ^ 20 = ?i" using div_mult_mult2 [of 4096 a 256] by simp
    have e: "a < ?e" "?e \<le> b" "?e \<le> (?i + 1) * 256" "?i * 256 \<le> a" using True by (simp_all add: dividend_less_div_times)
    obtain d where d: "the_fdir k s = Some d" using Suc.prems(2) by blast
    obtain t s1 d1 where t: "table_at k (a * 4096) s = Some (t, s1)" "flex_ok s1" "same_frame s s1"
      "\<forall>k' p. p < 4096 * 256 \<longrightarrow> entry k' p s1 = entry k' p s" "the_fdir k s1 = Some d1" "page_tabs d1 ! ?i = Some t" "t < length (fl_tables s1)"
      using table_at_spec [OF Suc.prems(1) d, of "a * 4096"] i unfolding off by blast
    define pgs where "pgs = map_pages [a..<?e] h pm 4096 256 (pages (fl_tables s1 ! t))"
    define s2 where "s2 = s1\<lparr>fl_tables := (fl_tables s1)[t := (fl_tables s1 ! t)\<lparr>pages := pgs\<rparr>]\<rparr>"
    have len: "length (pages (fl_tables s1 ! t)) = 256" using flex_okD(7) [OF t(2,7)] .
    have "?i < 4096" using i by simp
    from page_table_update [OF t(2,5) this t(6), of pgs s2] have u: "flex_ok s2" "same_frame s1 s2"
      "\<forall>k' p. p < 4096 * 256 \<longrightarrow> entry k' p s2 = (if k' = k \<and> p div 256 = ?i then host_addr (pgs ! (p mod 256)) else entry k' p s1)"
      using len by (simp_all add: pgs_def s2_def)
    have pg: "host_addr (pgs ! (p mod 256)) = (if a \<le> p \<and> p < ?e then h + (p - a) * 4096 else entry k p s)" if "p < 4096 * 256" "p div 256 = ?i" for p
    proof -
      let ?B = "?i * 256"
      have p: "p = ?B + p mod 256" using that(2) by (metis div_mult_mod_eq)
      have a: "a = ?B + a mod 256" by (metis div_mult_mod_eq)
      have l: "[a..<?e] = [?B + a mod 256..<?B + a mod 256 + (?e - a)]" using e(1) by simp
      have "a mod 256 + x < 256" if "x < ?e - a" for x
      proof -
        have "a + x < (?i + 1) * 256" using that e(3) by linarith
        then show ?thesis by (rule mod_in_block [OF refl])
      qed
      then have "\<forall>x < ?e - a. a mod 256 + x < 256" by blast
      from map_pages_spec [of ?B 256 "pages (fl_tables s1 ! t)" "p mod 256" "?e - a" "a mod 256" h pm 4096, OF _ len _ this]
      have "pgs ! (p mod 256) = (if a mod 256 \<le> p mod 256 \<and> p mod 256 < a mod 256 + (?e - a) then \<lparr>host_addr = h + (p mod 256 - a mod 256) * 4096, perm = pm\<rparr>
          else pages (fl_tables s1 ! t) ! (p mod 256))" unfolding pgs_def l by simp
      moreover have "entry k p s = host_addr (pages (fl_tables s1 ! t) ! (p mod 256))"
        using t(4) that t(5,6) by (simp add: entry_def [of _ _ s1] flip: t(4))
      moreover have "(a mod 256 \<le> p mod 256 \<and> p mod 256 < a mod 256 + (?e - a)) = (a \<le> p \<and> p < ?e)" "p mod 256 - a mod 256 = p - a"
        using p a e(1) by linarith+
      ultimately show ?thesis by simp
    qed
    have m12: "mapped k h a ?e s s2"
    proof -
      have "entry k' p s2 = (if k' = k \<and> a \<le> p \<and> p < ?e then h + (p - a) * 4096 else entry k' p s)" if "p < 4096 * 256" for k' p
      proof (cases "k' = k \<and> p div 256 = ?i")
        case True
        then show ?thesis using u(3) pg that by simp
      next
        case False
        have "\<not> (a \<le> p \<and> p < ?e)" if "p div 256 \<noteq> ?i"
        proof
          assume ap: "a \<le> p \<and> p < ?e"
          then have "?i \<le> p div 256" "p div 256 < ?i + 1" using e(3) by (simp_all add: div_le_mono div_less_iff_less_mult)
          then show False using that by simp
        qed
        then show ?thesis using False u(3) t(4) that by auto
      qed
      then show ?thesis using u(1,2) t(3) same_frame_trans unfolding mapped_def by blast
    qed
    have ps: "fl_psize s = 12" "fl_psize s1 = 12" "fpage s1 = 4096" using flex_okD(1,2) Suc.prems(1) t(2) by auto
    have step: "map_loop (Suc fuel) k h pm (a * 4096) (b * 4096) s = map_loop fuel k (h + (?e - a) * 4096) pm (?e * 4096) (b * 4096) s2"
      using True t(1) next_end_pages [OF True Suc.prems(4)]
      by (simp add: ps page_bits_def pages_per_table_def Let_def s2_def pgs_def del: mult_Suc)
    have k2: "the_fdir k s2 \<noteq> None" using t(5) by (simp add: s2_def)
    have "b - ?e < fuel" using Suc.prems(5) e(1,2) by linarith
    from Suc.IH [OF u(1) k2 e(2) Suc.prems(4) this]
    obtain s' where s': "map_loop fuel k (h + (?e - a) * 4096) pm (?e * 4096) (b * 4096) s2 = Some s'" "mapped k (h + (?e - a) * 4096) ?e b s2 s'"
      by blast
    define E where "E = ?e"
    have E: "a < E" "E \<le> b" using e(1,2) by (simp_all add: E_def)
    have m1: "entry k' p s2 = (if k' = k \<and> a \<le> p \<and> p < E then h + (p - a) * 4096 else entry k' p s)"
      and m2: "entry k' p s' = (if k' = k \<and> E \<le> p \<and> p < b then h + (E - a) * 4096 + (p - E) * 4096 else entry k' p s2)"
      if "p < 4096 * 256" for k' p
      using m12 s'(2) that unfolding mapped_def E_def by blast+
    have "entry k' p s' = (if k' = k \<and> a \<le> p \<and> p < b then h + (p - a) * 4096 else entry k' p s)" if p: "p < 4096 * 256" for k' p
    proof (cases "E \<le> p")
      case True
      then have "h + (E - a) * 4096 + (p - E) * 4096 = h + (p - a) * 4096" using E(1) by (simp add: add.assoc flip: add_mult_distrib)
      then show ?thesis using m1 [OF p] m2 [OF p] True E by auto
    next
      case False
      then show ?thesis using m1 [OF p] m2 [OF p] E by auto
    qed
    then have "mapped k h a b s s'" using m12 s'(2) same_frame_trans unfolding mapped_def by blast
    then show ?thesis using step s'(1) by simp
  qed
qed simp

section \<open>Unmapping pages\<close>

lemma fold_clear:
  "j < length pgs \<Longrightarrow> u \<le> length pgs \<Longrightarrow>
    fold (\<lambda>p pgs. pgs[p := (pgs ! p)\<lparr>host_addr := 0\<rparr>]) [l..<u] pgs ! j
      = (if l \<le> j \<and> j < u then (pgs ! j)\<lparr>host_addr := 0\<rparr> else pgs ! j)
    \<and> length (fold (\<lambda>p pgs. pgs[p := (pgs ! p)\<lparr>host_addr := 0\<rparr>]) [l..<u] pgs) = length pgs"
proof (induction u)
  case (Suc u)
  show ?case
  proof (cases "l \<le> u")
    case True
    then show ?thesis using Suc by (auto simp: nth_list_update less_Suc_eq)
  qed (use Suc in simp)
qed simp

definition unmapped :: "nat \<Rightarrow> nat \<Rightarrow> nat \<Rightarrow> flex \<Rightarrow> flex \<Rightarrow> bool" where
  "unmapped k a b s s' \<longleftrightarrow> flex_ok s' \<and> same_frame s s'
     \<and> (\<forall>k' p. p < 4096 * 256 \<longrightarrow> entry k' p s' = (if k' = k \<and> a \<le> p \<and> p < b \<and> p div 256 = b div 256 then 0 else entry k' p s))"

lemma block_order:
  assumes "a div n = q" and "b div n = (q :: nat)"
  shows "(a mod n \<le> b mod n) = (a \<le> b)" "(a mod n < b mod n) = (a < b)"
proof -
  have a: "q * n + a mod n = a" unfolding assms(1) [symmetric] by (rule div_mult_mod_eq)
  have b: "q * n + b mod n = b" unfolding assms(2) [symmetric] by (rule div_mult_mod_eq)
  show "(a mod n \<le> b mod n) = (a \<le> b)" using add_le_cancel_left [of "q * n" "a mod n" "b mod n"] by (simp only: a b)
  show "(a mod n < b mod n) = (a < b)" using add_less_cancel_left [of "q * n" "a mod n" "b mod n"] by (simp only: a b)
qed

lemma unmap_loop_spec:
  assumes "flex_ok s" and "the_fdir k s = Some d" and "a \<le> b" and "b \<le> 4095 * 256" and "b - a < fuel"
    and "\<forall>p. a \<le> p \<longrightarrow> p < b \<longrightarrow> page_tabs d ! (p div 256) \<noteq> None"
  shows "\<exists>s'. unmap_loop fuel k (a * 4096) (b * 4096) s = Some s' \<and> unmapped k a b s s'"
  using assms
proof (induction fuel arbitrary: a s)
  case (Suc fuel)
  show ?case
  proof (cases "a < b")
    case False
    then have "a = b" using Suc.prems(3) by simp
    then show ?thesis using Suc.prems(1) same_frame_refl by (simp add: unmapped_def)
  next
    case True
    define e where "e = min ((a div 256 + 1) * 256) b"
    let ?i = "a div 256"
    have i: "?i < 4096" using True Suc.prems(4) by (simp add: div_less_iff_less_mult)
    have off: "a * 4096 div 2 ^ 20 = ?i" using div_mult_mult2 [of 4096 a 256] by simp
    have e: "a < e" "e \<le> b" "e \<le> (?i + 1) * 256" using True by (simp_all add: e_def dividend_less_div_times)
    have edge: "e = (?i + 1) * 256 \<or> e = b \<and> b div 256 = ?i"
    proof (cases "(?i + 1) * 256 \<le> b")
      case False
      then have "b div 256 = ?i" using True by (intro div_nat_eqI) (simp_all add: not_le le_less_trans [OF div_times_less_eq_dividend])
      then show ?thesis using False by (simp add: e_def)
    qed (simp add: e_def)
    obtain t where t: "page_tabs d ! ?i = Some t" using Suc.prems(6) True by blast
    have tl: "t < length (fl_tables s)" using flex_okD(5) [OF Suc.prems(1,2) i t] by simp
    have len: "length (pages (fl_tables s ! t)) = 256" using flex_okD(7) [OF Suc.prems(1) tl] .
    define pgs where "pgs = fold (\<lambda>p pgs. pgs[p := (pgs ! p)\<lparr>host_addr := 0\<rparr>]) [a mod 256..<e mod 256] (pages (fl_tables s ! t))"
    define s2 where "s2 = s\<lparr>fl_tables := (fl_tables s)[t := (fl_tables s ! t)\<lparr>pages := pgs\<rparr>]\<rparr>"
    have cl: "pgs ! j = (if a mod 256 \<le> j \<and> j < e mod 256 then (pages (fl_tables s ! t) ! j)\<lparr>host_addr := 0\<rparr> else pages (fl_tables s ! t) ! j)"
      "length pgs = 256" if "j < 256" for j
      using fold_clear [of j "pages (fl_tables s ! t)" "e mod 256" "a mod 256"] that len by (simp_all add: pgs_def)
    have lp: "length pgs = 256" by (rule cl(2) [of 0]) simp
    from page_table_update [OF Suc.prems(1,2) i t lp s2_def] have u: "flex_ok s2" "same_frame s s2"
      "\<forall>k' p. p < 4096 * 256 \<longrightarrow> entry k' p s2 = (if k' = k \<and> p div 256 = ?i then host_addr (pgs ! (p mod 256)) else entry k' p s)"
      by blast+
    have m12: "entry k' p s2 = (if k' = k \<and> a \<le> p \<and> p < e \<and> p div 256 = e div 256 then 0 else entry k' p s)" if pl: "p < 4096 * 256" for k' p
    proof (cases "k' = k \<and> p div 256 = ?i")
      case True
      have en: "entry k p s = host_addr (pages (fl_tables s ! t) ! (p mod 256))" using True t Suc.prems(2) by (simp add: entry_def)
      have cmp: "(a mod 256 \<le> p mod 256 \<and> p mod 256 < e mod 256) = (a \<le> p \<and> p < e \<and> ?i = e div 256)"
      proof (cases "e div 256 = ?i")
        case eq: True
        show ?thesis using block_order [OF refl conjunct2 [OF True]] block_order [OF conjunct2 [OF True] eq] eq by simp
      next
        case False
        then have "e = (?i + 1) * 256" using edge by auto
        then have "e mod 256 = 0" by (metis mod_mult_self2_is_0)
        then show ?thesis using False by simp
      qed
      show ?thesis using u(3) pl True cl(1) [of "p mod 256"] en cmp by (simp split: if_splits)
    next
      case False
      have "\<not> (a \<le> p \<and> p < e \<and> p div 256 = e div 256)" if "p div 256 \<noteq> ?i"
      proof
        assume ap: "a \<le> p \<and> p < e \<and> p div 256 = e div 256"
        then have "p < (?i + 1) * 256" using e(3) by linarith
        then have "p div 256 < ?i + 1" by (simp only: div_less_iff_less_mult)
        moreover have "?i \<le> p div 256" using ap by (simp add: div_le_mono)
        ultimately show False using that by simp
      qed
      then show ?thesis using False u(3) pl by auto
    qed
    have ps: "fl_psize s = 12" "dir_psize d = 4096" "length (page_tabs d) = 4096" using flex_okD(1,3,4) Suc.prems(1,2) by auto
    have S: "a * 4096 div 4096 = a" "e * 4096 div 4096 = e" by simp_all
    have ne: "next_end 12 (a * 4096) (b * 4096) = e * 4096" unfolding e_def by (rule next_end_pages [OF True Suc.prems(4)])
    have step: "unmap_loop (Suc fuel) k (a * 4096) (b * 4096) s = unmap_loop fuel k (e * 4096) (b * 4096) s2"
      using True t i Suc.prems(2) ne off
      by (simp add: ps page_bits_def pages_per_table_def table_index_shift_def dir_get_page_table_def Let_def s2_def pgs_def S del: mult_Suc)
    have "the_fdir k s2 = Some d" using Suc.prems(2) by (simp add: s2_def)
    moreover have "b - e < fuel" using Suc.prems(5) e(1,2) by linarith
    ultimately obtain s' where s': "unmap_loop fuel k (e * 4096) (b * 4096) s2 = Some s'" "unmapped k e b s2 s'"
      using Suc.IH [OF u(1) _ e(2) Suc.prems(4)] Suc.prems(6) e(1) by (meson less_imp_le le_less_trans order_trans)
    have "entry k' p s' = (if k' = k \<and> a \<le> p \<and> p < b \<and> p div 256 = b div 256 then 0 else entry k' p s)" if p: "p < 4096 * 256" for k' p
    proof -
      have m2: "entry k' p s' = (if k' = k \<and> e \<le> p \<and> p < b \<and> p div 256 = b div 256 then 0 else entry k' p s2)"
        using s'(2) p unfolding unmapped_def by blast
      have "(a \<le> p \<and> p < e \<and> p div 256 = e div 256) \<longleftrightarrow> (a \<le> p \<and> p < e \<and> p div 256 = b div 256)"
      proof (cases "e = b")
        case False
        then have eq: "e = (?i + 1) * 256" using edge by auto
        have "p div 256 < ?i + 1" if "p < e" using that eq by (simp add: div_less_iff_less_mult)
        moreover have "e div 256 = ?i + 1" using eq by (metis nonzero_mult_div_cancel_right zero_neq_numeral)
        moreover have "e div 256 \<le> b div 256" using e(2) by (rule div_le_mono)
        ultimately show ?thesis by auto
      qed simp
      then show ?thesis using m12 [OF p] m2 e(1,2) by auto
    qed
    then have "unmapped k a b s s'" using u(2) s'(2) same_frame_trans unfolding unmapped_def by blast
    then show ?thesis using step s'(1) by simp
  qed
qed simp

lemma unmap_loop_stuck:
  assumes "the_fdir k s = Some d" and "dir_get_page_table d start_addr = Some None" and "start_addr < end_addr"
  shows "unmap_loop fuel k start_addr end_addr s = None"
  using assms by (induction fuel) simp_all

section \<open>Mappings\<close>

text \<open>The mapping \<open>i\<close> covers \<open>n\<close> pages from the page \<open>a\<close> on of the address space with the directory \<open>k\<close>.\<close>

definition placed :: "nat \<Rightarrow> nat \<Rightarrow> nat \<Rightarrow> nat \<Rightarrow> flex \<Rightarrow> bool" where
  "placed i k a n s \<longleftrightarrow> (\<exists>m. get_map i s = Some m \<and> fm_base m = a * 4096 \<and> fm_pages m = Some n \<and> space_dir (fm_space m) s = Some k
     \<and> the_fdir k s \<noteq> None \<and> a + n \<le> 4095 * 256)"

lemma page_address: "x \<le> 4095 * 256 \<Longrightarrow> x * 4096 mod 2 ^ 32 = x * (4096 :: nat)"
  by simp

lemma mapping_map_spec:
  assumes "flex_ok s" and "placed i k a n s" and "off + c \<le> n" and "c < fuel"
  shows "\<exists>s'. mapping_map fuel i h off c pm s = Some (True, s') \<and> mapped k (h + off * 4096) (a + off) (a + off + c) s s'"
proof -
  obtain m where m: "get_map i s = Some m" "fm_base m = a * 4096" "fm_pages m = Some n" "space_dir (fm_space m) s = Some k"
    "the_fdir k s \<noteq> None" "a + n \<le> 4095 * 256" using assms(2) by (auto simp: placed_def)
  have p: "off \<le> 4095 * 256" "a + off \<le> 4095 * 256" "a + off + c \<le> 4095 * 256" using m(6) assms(3) by linarith+
  have "(a * 4096 + off * 4096) mod 2 ^ 32 = (a + off) * 4096" "((a + off) * 4096 + c * 4096) mod 2 ^ 32 = (a + off + c) * 4096"
    using page_address [OF p(2)] page_address [OF p(3)] by (simp_all only: add_mult_distrib [symmetric])
  then have "mapping_map fuel i h off c pm s = do { s \<leftarrow> map_loop fuel k (h + off * 4096) pm ((a + off) * 4096) ((a + off + c) * 4096) s; Some (True, s) }"
    using m assms(3) page_address [OF p(1)] flex_okD(2) [OF assms(1)] by (simp add: mapping_map_def Let_def)
  moreover obtain s' where "map_loop fuel k (h + off * 4096) pm ((a + off) * 4096) ((a + off + c) * 4096) s = Some s'"
      "mapped k (h + off * 4096) (a + off) (a + off + c) s s'"
    using map_loop_spec [OF assms(1) m(5) _ p(3), where a = "a + off" and fuel = fuel and h = "h + off * 4096" and pm = pm] assms(4) by auto
  ultimately show ?thesis by auto
qed

lemma mapping_unmap_start:
  assumes "flex_ok s" and "placed i k a n s" and "off + c \<le> n"
  shows "mapping_unmap fuel i off c s = do { s \<leftarrow> unmap_loop fuel k ((a + off) * 4096) ((a + off + c) * 4096) s; Some (True, s) }"
proof -
  obtain m where m: "get_map i s = Some m" "fm_base m = a * 4096" "fm_pages m = Some n" "space_dir (fm_space m) s = Some k"
    "a + n \<le> 4095 * 256" using assms(2) by (auto simp: placed_def)
  have p: "a + off \<le> 4095 * 256" "a + off + c \<le> 4095 * 256" using m(5) assms(3) by linarith+
  have "(a * 4096 + off * 4096) mod 2 ^ 32 = (a + off) * 4096" "((a + off) * 4096 + c * 4096) mod 2 ^ 32 = (a + off + c) * 4096"
    using page_address [OF p(1)] page_address [OF p(2)] by (simp_all only: add_mult_distrib [symmetric])
  then show ?thesis using m assms(3) flex_okD(2) [OF assms(1)] by (simp add: mapping_unmap_def Let_def)
qed

text \<open>Unmapping a range of a mapping unmaps only its pages in the page table in which the end of the range lies: the end
  page of every other table is reduced to 0 before the comparison, so that a range that ends with its table keeps all its
  pages, and decommitted memory stays accessible.\<close>

theorem unmap_only_last_table:
  assumes "flex_ok s" and "placed i k a n s" and "off + c \<le> n" and "c < fuel"
    and "\<forall>x < c. \<exists>d. the_fdir k s = Some d \<and> page_tabs d ! ((a + off + x) div 256) \<noteq> None"
  shows "\<exists>s'. mapping_unmap fuel i off c s = Some (True, s') \<and> (\<forall>k' p. p < 4096 * 256 \<longrightarrow>
    entry k' p s' = (if k' = k \<and> a + off \<le> p \<and> p < a + off + c \<and> p div 256 = (a + off + c) div 256 then 0 else entry k' p s))"
proof -
  obtain d where d: "the_fdir k s = Some d" "a + n \<le> 4095 * 256" using assms(2) by (auto simp: placed_def)
  have "page_tabs d ! (p div 256) \<noteq> None" if "a + off \<le> p" "p < a + off + c" for p
    using assms(5) [rule_format, of "p - (a + off)"] that d(1) by auto
  then obtain s' where "unmap_loop fuel k ((a + off) * 4096) ((a + off + c) * 4096) s = Some s'" "unmapped k (a + off) (a + off + c) s s'"
    using unmap_loop_spec [OF assms(1) d(1), of "a + off" "a + off + c" fuel] assms(3,4) d(2) by auto
  then show ?thesis by (simp add: mapping_unmap_start [OF assms(1-3)] unmapped_def)
qed

text \<open>C29. Detaching a chunk of whose mapping the first page table was never created, as nothing has been committed there, never
  returns: the loop that unmaps the mapping goes on with the same address.\<close>

theorem detach_uncommitted_never_returns:
  assumes "flex_ok s" and "find_index (\<lambda>x. fst x = i) (fp_attachs pr) = Some j" and "placed (snd (fp_attachs pr ! j)) k a n s" and "0 < n"
    and "the_fdir k s = Some d" and "page_tabs d ! (a div 256) = None" and "get_chunk i s = Some c" and "fc_obj c = Some ob"
  shows "fdetach fuel i (pr, s) = None"
proof -
  let ?m = "snd (fp_attachs pr ! j)"
  define s1 where "s1 = put_chunk i (c\<lparr>fc_obj := Some (snd (detach_mapping ?m ob))\<rparr>) s"
  have s1: "the_fdir k' s1 = the_fdir k' s" "get_map i' s1 = get_map i' s" "space_dir a' s1 = space_dir a' s" "fl_psize s1 = fl_psize s"
    "fl_tables s1 = fl_tables s" for k' i' a'
    by (simp_all add: s1_def put_chunk_def the_fdir_def get_map_def space_dir_def)
  have ok: "flex_ok s1" using assms(1) unfolding flex_ok_def s1 .
  have pl: "placed ?m k a n s1" using assms(3) unfolding placed_def s1 .
  have a: "a < 4096 * 256" using assms(3,4) by (auto simp: placed_def)
  have i: "a div 256 < 4096" using a by (simp add: div_less_iff_less_mult)
  have "dir_get_page_table d (a * 4096) = Some None"
    using flex_okD(3,4) [OF assms(1,5)] assms(6) i div_mult_mult2 [of 4096 a 256]
    by (simp add: dir_get_page_table_def table_index_shift_def Let_def)
  then have "unmap_loop fuel k (a * 4096) ((a + n) * 4096) s1 = None"
    using assms(4,5) by (intro unmap_loop_stuck) (simp_all add: s1)
  then have "mapping_unmap fuel ?m 0 n s1 = None" using mapping_unmap_start [OF ok pl, of 0 n] by simp
  moreover obtain m where "get_map ?m s1 = Some m" "fm_pages m = Some n" using pl by (auto simp: placed_def)
  ultimately have "delete_mapping fuel ?m s1 = None" by (simp add: delete_mapping_def)
  then show ?thesis using assms(2,7,8) by (simp add: fdetach_def Let_def s1_def)
qed

section \<open>Committing memory\<close>

lemma placed_frame: "same_frame s s' \<Longrightarrow> placed i k a n s \<Longrightarrow> placed i k a n s'"
proof -
  assume f: "same_frame s s'" and "placed i k a n s"
  have "the_fdir k s' \<noteq> None \<longleftrightarrow> the_fdir k s \<noteq> None"
    using f unfolding same_frame_def by (metis option.map_disc_iff)
  moreover have "get_map j s' = get_map j s" "space_dir j s' = space_dir j s" for j
    using same_frame_simps [OF f] by (simp_all add: get_map_def space_dir_def)
  ultimately show ?thesis using \<open>placed i k a n s\<close> by (simp add: placed_def)
qed

lemma flex_ok_events [simp]: "flex_ok (s\<lparr>fl_events := x\<rparr>) = flex_ok s" "flex_ok (s\<lparr>fl_filled := y\<rparr>) = flex_ok s"
  by (simp_all add: flex_ok_def the_fdir_def)

lemma entry_events [simp]: "entry k p (s\<lparr>fl_events := x\<rparr>) = entry k p s" "entry k p (s\<lparr>fl_filled := y\<rparr>) = entry k p s"
  "entry k p (put_chunk i c s) = entry k p s"
  by (simp_all add: entry_def the_fdir_def put_chunk_def cong: option.case_cong)

lemma placed_events [simp]: "placed i k a n (s\<lparr>fl_events := x\<rparr>) = placed i k a n s" "placed i k a n (s\<lparr>fl_filled := y\<rparr>) = placed i k a n s"
  by (simp_all add: placed_def get_map_def space_dir_def the_fdir_def)

lemma current_frame: "same_frame s s' \<Longrightarrow> fcurrent s' = fcurrent s"
  using same_frame_simps unfolding fcurrent_def same_frame_def by metis

lemma fcurrent_events [simp]: "fcurrent (s\<lparr>fl_events := x\<rparr>) = fcurrent s" "fcurrent (s\<lparr>fl_filled := y\<rparr>) = fcurrent s"
  by (simp_all add: fcurrent_def the_fdir_def)

lemma map_all_spec:
  assumes "flex_ok s" and "fcurrent s \<noteq> None" and "\<forall>i \<in> set is. placed i (K i) (A i) (N i) s \<and> off + c \<le> N i"
    and "distinct (map K is)" and "c < fuel"
  shows "\<exists>s'. map_all fuel is ob off c pm s = Some s' \<and> flex_ok s' \<and> fl_chunks s' = fl_chunks s \<and> fpage s' = fpage s
    \<and> (\<forall>i \<in> set is. the_fdir (K i) s' \<noteq> None \<and> (\<forall>x < c. entry (K i) (A i + off + x) s' = mo_data ob + (off + x) * 4096))
    \<and> (\<forall>k p. p < 4096 * 256 \<longrightarrow> k \<notin> K ` set is \<longrightarrow> entry k p s' = entry k p s) \<and> (\<forall>k. the_fdir k s \<noteq> None \<longrightarrow> the_fdir k s' \<noteq> None)"
  using assms
proof (induction "is" arbitrary: s)
  case (Cons i "is")
  have i: "placed i (K i) (A i) (N i) s" "off + c \<le> N i" using Cons.prems(3) by simp_all
  obtain s1 where s1: "mapping_map fuel i (mo_data ob) off c pm s = Some (True, s1)"
      "mapped (K i) (mo_data ob + off * 4096) (A i + off) (A i + off + c) s s1"
    using mapping_map_spec [OF Cons.prems(1) i Cons.prems(5)] by blast
  have f: "same_frame s s1" "flex_ok s1" using s1(2) by (simp_all add: mapped_def)
  have p1: "placed i (K i) (A i) (N i) s1" using placed_frame [OF f(1) i(1)] .
  then obtain m where m: "get_map i s1 = Some m" "space_dir (fm_space m) s1 = Some (K i)" "the_fdir (K i) s1 \<noteq> None" "A i + N i \<le> 4095 * 256"
    by (auto simp: placed_def)
  obtain own where own: "space_id (fm_space m) s1 = Some own" using m(2,3) by (auto simp: space_id_def)
  obtain cur where cur: "fcurrent s1 = Some cur" using Cons.prems(2) current_frame [OF f(1)] by auto
  define s2 where "s2 = (if own = cur
       then s1\<lparr>fl_events := fl_events s1 @ [Map_cpu (fm_base m + off * fpage s1) (c * fpage s1) (mo_data ob + off * fpage s1)]\<rparr> else s1)"
  have ok2: "flex_ok s2" "fcurrent s2 \<noteq> None" "fl_chunks s2 = fl_chunks s" "fpage s2 = fpage s"
    using f cur same_frame_simps [OF f(1)] by (auto simp: s2_def fpage_def)
  have fd2: "the_fdir k s2 = the_fdir k s1" for k by (simp add: s2_def the_fdir_def)
  have en2: "entry k p s2 = entry k p s1" for k p by (simp add: s2_def)
  have pl2: "\<forall>j \<in> set is. placed j (K j) (A j) (N j) s2 \<and> off + c \<le> N j"
    using Cons.prems(3) placed_frame [OF f(1)] by (auto simp: s2_def)
  from Cons.IH [OF ok2(1,2) pl2 _ Cons.prems(5)] Cons.prems(4)
  obtain s' where s': "map_all fuel is ob off c pm s2 = Some s'" "flex_ok s'" "fl_chunks s' = fl_chunks s2" "fpage s' = fpage s2"
    "\<forall>j \<in> set is. the_fdir (K j) s' \<noteq> None \<and> (\<forall>x < c. entry (K j) (A j + off + x) s' = mo_data ob + (off + x) * 4096)"
    "\<forall>k p. p < 4096 * 256 \<longrightarrow> k \<notin> K ` set is \<longrightarrow> entry k p s' = entry k p s2" "\<forall>k. the_fdir k s2 \<noteq> None \<longrightarrow> the_fdir k s' \<noteq> None"
    by auto
  have fd: "the_fdir k s \<noteq> None \<longrightarrow> the_fdir k s1 \<noteq> None" for k
    using f(1) unfolding same_frame_def by (metis option.map_disc_iff)
  have mine: "entry (K i) (A i + off + x) s' = mo_data ob + (off + x) * 4096" if "x < c" for x
  proof -
    have "A i + off + x < 4096 * 256" using m(4) i(2) that by linarith
    moreover have "K i \<notin> K ` set is" using Cons.prems(4) by simp
    ultimately have "entry (K i) (A i + off + x) s' = entry (K i) (A i + off + x) s1" using s'(6) en2 by simp
    also have "\<dots> = mo_data ob + (off + x) * 4096" using s1(2) \<open>A i + off + x < 4096 * 256\<close> that by (simp add: mapped_def)
    finally show ?thesis .
  qed
  have others: "entry k p s' = entry k p s" if "p < 4096 * 256" "k \<notin> K ` set (i # is)" for k p
    using s'(6) en2 s1(2) that by (simp add: mapped_def)
  have "map_all fuel (i # is) ob off c pm s = Some s'"
    using s1(1) m(1) own cur s'(1) by (simp add: s2_def)
  then show ?case using s'(2-5,7) mine others m(3) fd fd2 ok2(3,4) by auto
qed simp

lemma translate_put_chunk: "translate k x (put_chunk i c s) = translate k x s"
proof -
  have "the_fdir k (put_chunk i c s) = the_fdir k s" by (simp add: the_fdir_def put_chunk_def)
  then show ?thesis by (simp add: translate_def put_chunk_def)
qed

text \<open>C28. Committing a range of a chunk makes each byte of it accessible in every process the chunk is attached to, at the
  place the process has it mapped: the address leads to the byte of the chunk's host memory, whatever page tables have to be
  created.\<close>

theorem commit_reaches_mappings:
  assumes "flex_ok s" and "fcurrent s \<noteq> None" and "get_chunk i s = Some c" and "fc_obj c = Some ob" and "mo_data ob \<noteq> 0"
    and "p = off div 4096" and "n = (sz + 4095) div 4096" and "p + n \<le> mo_pages ob" and "mo_external ob \<or> (\<forall>h b. os_commit h b)"
    and "\<forall>m \<in> set (mo_maps ob). placed m (K m) (A m) (N m) s \<and> p + n \<le> N m" and "distinct (map K (mo_maps ob))" and "n < fuel"
    and "\<forall>ws. fc_bma c = Some ws \<longrightarrow> p div 32 < length ws"
  shows "\<exists>s'. fcommit os_commit fuel i off sz s = Some (n, s')
    \<and> (\<forall>m \<in> set (mo_maps ob). \<forall>x < n * 4096. translate (K m) ((A m + p) * 4096 + x) s' = Some (mo_data ob + p * 4096 + x))"
proof -
  have S: "fpage s = 4096" using flex_okD(2) [OF assms(1)] .
  define s0 where "s0 = (if mo_external ob then s else s\<lparr>fl_filled := fl_filled s @ [(mo_data ob + p * 4096, n * 4096, mo_clear ob)]\<rparr>)"
  have s0: "flex_ok s0" "fcurrent s0 \<noteq> None" "fl_chunks s0 = fl_chunks s" "fpage s0 = 4096"
    "\<forall>m \<in> set (mo_maps ob). placed m (K m) (A m) (N m) s0 \<and> p + n \<le> N m"
    using assms(1,2,10) S by (auto simp: s0_def fpage_def)
  from map_all_spec [OF s0(1,2,5) assms(11,12), of ob "fc_perm c"] obtain s1 where
    s1: "map_all fuel (mo_maps ob) ob p n (fc_perm c) s0 = Some s1" "flex_ok s1" "fl_chunks s1 = fl_chunks s" "fpage s1 = 4096"
    "\<forall>m \<in> set (mo_maps ob). the_fdir (K m) s1 \<noteq> None \<and> (\<forall>x < n. entry (K m) (A m + p + x) s1 = mo_data ob + (p + x) * 4096)"
    using s0(3,4) by auto
  have oc: "object_commit os_commit fuel ob p n (fc_perm c) s = Some (True, s1)"
    using assms(8,9) s1(1) S by (auto simp: object_commit_def s0_def Let_def)
  have pn: "fpages_of sz s = n" "off div fpage s = p" by (simp_all add: fpages_of_def S assms(6,7))
  have "\<exists>bma. (case fc_bma c of None \<Rightarrow> Some None | Some ws \<Rightarrow> map_option (\<lambda>r. Some (snd r)) (force_fill p (int n) False ws)) = Some bma"
    using assms(13) by (auto simp: force_fill_def Let_def split: option.splits)
  then obtain bma where bma:
    "(case fc_bma c of None \<Rightarrow> Some None | Some ws \<Rightarrow> map_option (\<lambda>r. Some (snd r)) (force_fill p (int n) False ws)) = Some bma" by blast
  obtain c' where "fcommit os_commit fuel i off sz s = Some (n, put_chunk i c' s1)"
    by (simp add: fcommit_def pn oc assms(3,4) Let_def bma)
  moreover have "translate (K m) ((A m + p) * 4096 + x) (put_chunk i c' s1) = Some (mo_data ob + p * 4096 + x)"
    if "m \<in> set (mo_maps ob)" "x < n * 4096" for m x
  proof -
    have dv: "((A m + p) * 4096 + x) div 4096 = A m + p + x div 4096" "((A m + p) * 4096 + x) mod 4096 = x mod 4096"
      by (simp, rule mod_mult_self3)
    have x: "x div 4096 < n" using that(2) by (simp add: div_less_iff_less_mult)
    have en: "entry (K m) (A m + p + x div 4096) s1 = mo_data ob + (p + x div 4096) * 4096" using s1(5) that(1) x by blast
    have "the_fdir (K m) s1 \<noteq> None" using s1(5) that(1) by blast
    then obtain d where d: "the_fdir (K m) s1 = Some d" by (rule not_None_eq [THEN iffD1, THEN exE])
    have "A m + N m \<le> 4095 * 256" "p + n \<le> N m" using assms(10) that(1) by (auto simp: placed_def)
    then have lt: "(A m + p) * 4096 + x < 2 ^ 32" using that(2) by simp
    have "translate (K m) ((A m + p) * 4096 + x) s1 = Some (mo_data ob + (p + x div 4096) * 4096 + x mod 4096)"
      using translate_entry [OF s1(2) d lt] assms(5) en unfolding dv by simp
    also have "mo_data ob + (p + x div 4096) * 4096 + x mod 4096 = mo_data ob + p * 4096 + x"
      by (simp add: add_mult_distrib)
    finally show ?thesis by (simp add: translate_put_chunk)
  qed
  ultimately show ?thesis by blast
qed

section \<open>Attaching\<close>

lemma map_dirs_update: "sp_dir y = sp_dir (xs ! a) \<Longrightarrow> map sp_dir (xs[a := y]) = map sp_dir xs"
  by (cases "a < length xs") (simp_all add: list_eq_iff_nth_eq nth_list_update)

lemma put_section_frame:
  "fl_tables (put_section a sec ws s) = fl_tables s" "fl_dirs (put_section a sec ws s) = fl_dirs s"
  "fl_chunks (put_section a sec ws s) = fl_chunks s" "map sp_dir (fl_spaces (put_section a sec ws s)) = map sp_dir (fl_spaces s)"
  by (cases sec; simp add: put_section_def Let_def map_dirs_update)+

lemma instantiate_frame:
  assumes "instantiate m n flags a s = Some (ok, s')"
  shows "fl_tables s' = fl_tables s \<and> fl_dirs s' = fl_dirs s \<and> fl_chunks s' = fl_chunks s
    \<and> map sp_dir (fl_spaces s') = map sp_dir (fl_spaces s)"
proof -
  obtain mm where mm: "get_map m s = Some mm" using assms by (auto simp: instantiate_def bind_eq_Some_conv)
  show ?thesis
  proof (cases "get_section flags")
    case None
    then show ?thesis using assms mm by (simp add: instantiate_def Let_def)
  next
    case (Some sec)
    show ?thesis
    proof (cases "a = 0")
      case True
      then obtain off total ws where al: "allocate_from 0 n False (sec_alloc (fsection (fm_space mm) sec s)) = Some (off, total, ws)"
        using assms mm Some by (cases "allocate_from 0 n False (sec_alloc (fsection (fm_space mm) sec s))") (auto simp: instantiate_def Let_def)
      show ?thesis using assms mm Some True al
        by (auto simp: instantiate_def Let_def put_section_frame map_dirs_update split: if_splits)
    next
      case False
      then show ?thesis using assms mm Some by (auto simp: instantiate_def Let_def map_dirs_update)
    qed
  qed
qed

lemma same_translation:
  assumes "fl_tables s' = fl_tables s" and "fl_dirs s' = fl_dirs s" and "map sp_dir (fl_spaces s') = map sp_dir (fl_spaces s)"
  shows "fget_pointer addr pr s' = fget_pointer addr pr s"
proof -
  have "space_dir a s' = space_dir a s" for a
    using assms(3) unfolding space_dir_def by (metis length_map nth_map)
  moreover have "the_fdir k s' = the_fdir k s" for k using assms(2) by (simp add: the_fdir_def)
  ultimately show ?thesis using assms(1) by (simp add: fget_pointer_def)
qed

text \<open>Attaching a chunk to a process maps nothing: every address of the process leads where it led before, also at the new
  place of the chunk. What was committed in the chunk earlier cannot be reached by the process.\<close>

theorem attach_maps_nothing:
  assumes "fattach fuel i (pr, s) = Some (True, pr', s')"
  shows "fget_pointer addr pr' s' = fget_pointer addr pr s
    \<and> (\<exists>c ob. get_chunk i s' = Some c \<and> fc_obj c = Some ob \<and> (i, length (fl_maps s)) \<in> set (fp_attachs pr') \<and> length (fl_maps s) \<in> set (mo_maps ob))"
proof -
  let ?m = "length (fl_maps s)" and ?s0 = "snd (new_mapping (fp_space pr) s)"
  obtain c ob s1 where c: "get_chunk i s = Some c" "instantiate ?m (fc_max c div fpage ?s0) (fc_flags c) (fc_addr c) ?s0 = Some (True, s1)"
    "fc_obj c = Some ob" "pr' = pr\<lparr>fp_attachs := fp_attachs pr @ [(i, ?m)]\<rparr>" "s' = put_chunk i (c\<lparr>fc_obj := Some (snd (attach_mapping ?m ob))\<rparr>) s1"
    using assms by (auto simp: fattach_def new_mapping_def Let_def bind_eq_Some_conv split: if_splits)
  have f0: "fl_tables ?s0 = fl_tables s" "fl_dirs ?s0 = fl_dirs s" "fl_spaces ?s0 = fl_spaces s" "fl_chunks ?s0 = fl_chunks s"
    by (simp_all add: new_mapping_def)
  have "fl_tables s' = fl_tables s" "fl_dirs s' = fl_dirs s" "map sp_dir (fl_spaces s') = map sp_dir (fl_spaces s)"
    using instantiate_frame [OF c(2)] f0 by (simp_all add: c(5) put_chunk_def)
  from same_translation [OF this] have "fget_pointer addr pr' s' = fget_pointer addr pr s" by (simp add: c(4) fget_pointer_def)
  moreover have "fl_chunks s1 = fl_chunks s" using instantiate_frame [OF c(2)] f0(4) by simp
  then have "get_chunk i s' = Some (c\<lparr>fc_obj := Some (snd (attach_mapping ?m ob))\<rparr>)"
    using c(1) by (auto simp: c(5) get_chunk_def put_chunk_def split: if_splits)
  ultimately show ?thesis by (auto simp: c(4) attach_mapping_def)
qed

section \<open>Concrete executions\<close>

text \<open>The kernel's address space, that of one process, and a chunk of a megabyte at 0x400000 in it.\<close>

definition demo_tables :: "page_table list" where
  "demo_tables = [\<lparr>pages = replicate 256 \<lparr>host_addr = 0x1000, perm = 3\<rparr>, pt_id = 0, pt_idx = 4\<rparr>]"

definition demo_flex :: "page_table list \<Rightarrow> nat option \<Rightarrow> flex" where
  "demo_flex ts t = (let sec = new_section 0 0 4096;
      sp = (\<lambda>k maps. \<lparr>sp_dir = Some k, sp_maps = maps, sp_local_sec = sec, sp_shared_sec = sec, sp_ram_code_sec = sec, sp_dll_sec = sec\<rparr>);
      dir = (\<lambda>k. (new_page_directory 4096 (int k))\<lparr>occupied := True\<rparr>)
    in \<lparr>fl_psize = 12, fl_tables = ts, fl_dirs = [Some (dir 0), Some ((dir 1)\<lparr>page_tabs := (replicate 4096 None)[4 := t]\<rparr>)],
      fl_spaces = [sp 0 [], sp 1 [0]], fl_maps = [Some \<lparr>fm_base = 0x400000, fm_space = 1, fm_pages = Some 256\<rparr>],
      fl_chunks = [Some \<lparr>fc_addr = 0x400000, fc_flags = [Region_user_local, Type_normal], fc_max = 0x100000, fc_committed = 0, fc_bottom = 0,
        fc_top = 0, fc_perm = 3, fc_obj = Some \<lparr>mo_data = 0x7000000, mo_pages = 256, mo_clear = 0, mo_external = False, mo_maps = [0]\<rparr>,
        fc_bma = None, fc_owned = True, fc_fixed = None\<rparr>], fl_mngr = [Some 0], fl_cur = 1, fl_old = False, fl_rom_sec = sec,
      fl_code_sec = sec, fl_kmap_sec = sec, fl_events = [], fl_filled = []\<rparr>)"

definition demo_fprocess :: fprocess where
  "demo_fprocess = \<lparr>fp_space = 1, fp_attachs = [(0, 0)]\<rparr>"

lemma demo_dir: "the_fdir k (demo_flex ts t) = (if k = 0 then Some ((new_page_directory 4096 0)\<lparr>occupied := True\<rparr>)
    else if k = 1 then Some ((new_page_directory 4096 1)\<lparr>occupied := True, page_tabs := (replicate 4096 None)[4 := t]\<rparr>) else None)"
  by (cases k rule: nat.exhaust [case_names 0 Suc]) (auto simp: the_fdir_def demo_flex_def Let_def nth_Cons' split: if_splits)

lemma demo_new_dir: "dir_psize (new_page_directory 4096 i) = 4096" "page_tabs (new_page_directory 4096 i) = replicate 4096 None"
  by (simp_all add: new_page_directory_def tables_per_dir_def)

lemma demo_fields [simp]: "fl_tables (demo_flex ts t) = ts" "fl_psize (demo_flex ts t) = 12"
  by (simp_all add: demo_flex_def Let_def)

lemma demo_ok: "ts = [] \<and> t = None \<or> ts = demo_tables \<and> t = Some 0 \<Longrightarrow> flex_ok (demo_flex ts t)"
proof (rule flex_okI)
  assume a: "ts = [] \<and> t = None \<or> ts = demo_tables \<and> t = Some 0"
  show "fl_psize (demo_flex ts t) = 12" by simp
  show "dir_psize d = 4096 \<and> length (page_tabs d) = 4096" if "the_fdir k (demo_flex ts t) = Some d" for k d
    using that by (auto simp: demo_dir new_page_directory_def tables_per_dir_def split: if_splits)
  have pt: "k = 1 \<and> i = 4 \<and> t = Some u" if "the_fdir k (demo_flex ts t) = Some d" "i < 4096" "page_tabs d ! i = Some u" for k d i u
    using that by (auto simp: demo_dir new_page_directory_def tables_per_dir_def nth_list_update split: if_splits)
  show "u < length (fl_tables (demo_flex ts t)) \<and> pt_idx (fl_tables (demo_flex ts t) ! u) \<noteq> no_index"
    if "the_fdir k (demo_flex ts t) = Some d" "i < 4096" "page_tabs d ! i = Some u" for k d i u
    using pt [OF that] a by (auto simp: demo_tables_def no_index_def)
  show "k2 = k1 \<and> i2 = i1" if "the_fdir k1 (demo_flex ts t) = Some d1" "i1 < 4096" "page_tabs d1 ! i1 = Some u"
    "the_fdir k2 (demo_flex ts t) = Some d2" "i2 < 4096" "page_tabs d2 ! i2 = Some u" for k1 d1 i1 u k2 d2 i2
    using pt [OF that(1-3)] pt [OF that(4-6)] by simp
  show "length (pages (fl_tables (demo_flex ts t) ! u)) = 256" if "u < length (fl_tables (demo_flex ts t))" for u
    using that a by (auto simp: demo_tables_def)
  show "host_addr (pages (fl_tables (demo_flex ts t) ! u) ! j) = 0"
    if "u < length (fl_tables (demo_flex ts t))" "pt_idx (fl_tables (demo_flex ts t) ! u) = no_index" "j < 256" for u j
    using that a by (auto simp: demo_tables_def no_index_def)
qed

lemma demo_placed: "placed 0 1 0x400 256 (demo_flex ts t)"
  by (simp add: placed_def demo_dir) (simp add: demo_flex_def get_map_def space_dir_def Let_def)

theorem unmap_only_last_table_witness:
  "\<exists>s'. mapping_unmap 300 0 0 256 (demo_flex demo_tables (Some 0)) = Some (True, s') \<and> entry 1 0x4AB s' = 0x1000"
proof -
  let ?s = "demo_flex demo_tables (Some 0)"
  have "\<exists>s'. mapping_unmap 300 0 0 256 ?s = Some (True, s') \<and> (\<forall>k' p. p < 4096 * 256 \<longrightarrow>
    entry k' p s' = (if k' = 1 \<and> 0x400 + 0 \<le> p \<and> p < 0x400 + 0 + 256 \<and> p div 256 = (0x400 + 0 + 256) div 256 then 0 else entry k' p ?s))"
  proof (rule unmap_only_last_table [where n = 256])
    show "flex_ok ?s" using demo_ok by blast
    show "\<forall>x<256. \<exists>d. the_fdir 1 ?s = Some d \<and> page_tabs d ! ((0x400 + 0 + x) div 256) \<noteq> None"
    proof (intro allI impI)
      fix x :: nat
      assume "x < 256"
      then have "(0x400 + 0 + x) div 256 = 4" by (intro div_nat_eqI) simp_all
      then show "\<exists>d. the_fdir 1 ?s = Some d \<and> page_tabs d ! ((0x400 + 0 + x) div 256) \<noteq> None" by (simp add: demo_dir)
    qed
    show "placed 0 1 0x400 256 ?s" by (rule demo_placed)
  qed simp_all
  then obtain s' where s': "mapping_unmap 300 0 0 256 ?s = Some (True, s')" "entry 1 0x4AB s' = entry 1 0x4AB ?s" by auto
  have "entry 1 0x4AB ?s = 0x1000" by (simp add: entry_def demo_dir) (simp add: demo_flex_def demo_tables_def Let_def)
  with s' show ?thesis by auto
qed

theorem detach_uncommitted_never_returns_witness:
  "fdetach 100000 0 (demo_fprocess, demo_flex [] None) = None"
proof (rule detach_uncommitted_never_returns [where ob = "\<lparr>mo_data = 0x7000000, mo_pages = 256, mo_clear = 0, mo_external = False, mo_maps = [0]\<rparr>"])
  show "flex_ok (demo_flex [] None)" using demo_ok by blast
  show "placed (snd (fp_attachs demo_fprocess ! 0)) 1 0x400 256 (demo_flex [] None)"
    using demo_placed by (simp add: demo_fprocess_def)
qed (simp_all add: demo_dir demo_fprocess_def, (simp_all add: demo_flex_def get_chunk_def Let_def)+)

theorem commit_reaches_mappings_witness:
  "\<exists>s'. fcommit (\<lambda>_ _. True) 100 0 0x3000 0x1800 (demo_flex [] None) = Some (2, s') \<and> translate 1 0x403ABC s' = Some 0x7003ABC"
proof -
  let ?s = "demo_flex [] None"
  let ?c = "the (get_chunk 0 ?s)"
  have c: "get_chunk 0 ?s = Some ?c" "fc_obj ?c = Some \<lparr>mo_data = 0x7000000, mo_pages = 256, mo_clear = 0, mo_external = False, mo_maps = [0]\<rparr>"
    "fc_bma ?c = None" by (simp_all add: demo_flex_def get_chunk_def Let_def)
  let ?ob = "\<lparr>mo_data = 0x7000000, mo_pages = 256, mo_clear = 0, mo_external = False, mo_maps = [0]\<rparr>"
  have "\<exists>s'. fcommit (\<lambda>_ _. True) 100 0 0x3000 0x1800 ?s = Some (2, s')
    \<and> (\<forall>m \<in> set (mo_maps ?ob). \<forall>x < 2 * 4096. translate 1 ((0x400 + 3) * 4096 + x) s' = Some (mo_data ?ob + 3 * 4096 + x))"
  proof (rule commit_reaches_mappings [OF _ _ c(1,2), where N = "\<lambda>_. 256"])
    show "flex_ok ?s" using demo_ok by blast
    show "fcurrent ?s \<noteq> None" by (simp add: fcurrent_def demo_dir) (simp add: demo_flex_def Let_def)
    show "\<forall>m\<in>set (mo_maps ?ob). placed m 1 0x400 256 ?s \<and> 3 + 2 \<le> (256 :: nat)" using demo_placed by simp
  qed (simp_all add: c(3))
  then obtain s' where s': "fcommit (\<lambda>_ _. True) 100 0 0x3000 0x1800 ?s = Some (2, s')"
    "\<forall>x < 8192. translate 1 (0x403000 + x) s' = Some (0x7003000 + x)" by auto
  from s'(2) [rule_format, of "0xABC"] s'(1) show ?thesis by simp
qed

theorem attach_maps_nothing_witness:
  "\<exists>pr' s'. fattach 10 0 (\<lparr>fp_space = 0, fp_attachs = []\<rparr>, demo_flex demo_tables (Some 0)) = Some (True, pr', s')
    \<and> fget_pointer 0x400123 pr' s' = Some 0"
proof -
  let ?s = "demo_flex demo_tables (Some 0)" and ?pr = "\<lparr>fp_space = 0, fp_attachs = []\<rparr>"
  have "\<exists>pr' s'. fattach 10 0 (?pr, ?s) = Some (True, pr', s')"
    by (simp add: fattach_def get_chunk_def new_mapping_def instantiate_def get_map_def get_section_def fpage_def demo_flex_def Let_def)
  then obtain pr' s' where a: "fattach 10 0 (?pr, ?s) = Some (True, pr', s')" by blast
  have "fget_pointer 0x400123 ?pr ?s = Some 0"
  proof -
    have "space_dir 0 ?s = Some 0" by (simp add: space_dir_def demo_flex_def Let_def)
    then show ?thesis by (simp add: fget_pointer_def demo_dir dir_get_pointer_def demo_new_dir table_index_shift_def Let_def)
  qed
  then show ?thesis using a attach_maps_nothing [OF a, of "0x400123"] by auto
qed

end
