(* ===== verification/Codeseg.thy ===== *)
theory Codeseg imports Mem_Process Common_Algorithm Kernel_State begin

text \<open>
  Code segments (\<open>kernel/codeseg.cpp\<close>), the library objects that hand them to a process (\<open>kernel/library.cpp\<close>) and
  the part of the library manager that makes a code segment of a parsed executable (\<open>kernel/libmanager.cpp\<close>).

  A code segment is named by its unique id, which also stands for its address. A chunk is named by the order of its
  creation; where the memory model places it, and what host memory it gets, is a parameter (\<open>machine\<close>), as is the
  translation of addresses of the ROM. Host memory is that of theory \<open>Mem_Process\<close>.
\<close>

section \<open>State\<close>

text \<open>\<open>chunk_base\<close>: the address of a chunk in a process; \<open>rom_bss\<close>: the chunk of a process for the data of ROM images.\<close>

record machine =
  page_size :: u32
  chunk_base :: "nat \<Rightarrow> pid option \<Rightarrow> u32"
  chunk_host :: "nat \<Rightarrow> nat"
  real_pointer :: "u32 \<Rightarrow> nat"
  rom_bss :: "pid \<Rightarrow> nat option"

datatype seg_access = Access_code | Access_local

record seg_chunk =
  sc_owner :: "pid option"
  sc_size :: u32
  sc_access :: seg_access
  sc_forced :: u32

type_synonym csid = nat

record dependency_info =
  dep_seg :: csid
  import_info :: "u64 list"

record attached_info =
  attached_process :: "pid option"
  data_chunk :: "nat option"
  code_chunk :: "nat option"

datatype codeseg_state = Cs_none | Cs_attaching | Cs_attached

record codeseg =
  code_addr :: u32
  data_addr :: u32
  code_base :: u32
  data_base :: u32
  code_size :: u32
  text_size :: u32
  data_size :: u32
  bss_size :: u32
  ep :: u32
  exception_descriptor :: u32
  export_table :: "u32 list"
  dependencies :: "dependency_info list"
  constant_data :: "u8 list"
  code_data :: "u8 list"
  cs_mark :: bool
  cs_attaches :: "attached_info list"
  premade_eps :: "u32 list"
  relocation_list :: "u64 list"
  cs_state :: codeseg_state

text \<open>\<open>cd_chunks\<close>: the chunks created, \<^const>\<open>None\<close> when destroyed again; \<open>cd_loaded\<close>: the calls of the callbacks for loaded
  code segments; \<open>cd_destroyed\<close>: the code segments destroyed.\<close>

record code_state =
  cd_segs :: "csid \<Rightarrow> codeseg"
  cd_chunks :: "seg_chunk option list"
  cd_host :: host_mem
  cd_loaded :: "(csid \<times> pid option) list"
  cd_destroyed :: "csid list"

definition upd_seg :: "csid \<Rightarrow> (codeseg \<Rightarrow> codeseg) \<Rightarrow> code_state \<Rightarrow> code_state" where
  "upd_seg c f s = s\<lparr>cd_segs := (cd_segs s)(c := f (cd_segs s c))\<rparr>"

lemma upd_seg_simps [simp]:
  "cd_segs (upd_seg c f s) = (cd_segs s)(c := f (cd_segs s c))" "cd_chunks (upd_seg c f s) = cd_chunks s"
  "cd_host (upd_seg c f s) = cd_host s" "cd_loaded (upd_seg c f s) = cd_loaded s" "cd_destroyed (upd_seg c f s) = cd_destroyed s"
  by (simp_all add: upd_seg_def)

section \<open>Creation\<close>

record codeseg_create_info =
  i_code_base :: u32
  i_data_base :: u32
  i_code_size :: u32
  i_data_size :: u32
  i_text_size :: u32
  i_bss_size :: u32
  i_exception_descriptor :: u32
  i_code_load_addr :: u32
  i_data_load_addr :: u32
  i_entry_point :: u32
  i_export_table :: "u32 list"
  i_relocation_list :: "u64 list"
  i_constant_data :: "u8 list"
  i_code_data :: "u8 list"

text \<open>The copies read as many bytes as the sizes say; the code of a ROM image is not copied.\<close>

definition new_codeseg :: "codeseg_create_info \<Rightarrow> codeseg undef" where
  "new_codeseg info = do {
     guard (i_data_size info = 0 \<or> unat (i_data_size info) \<le> length (i_constant_data info));
     guard (i_code_load_addr info \<noteq> 0 \<or> unat (i_code_size info) \<le> length (i_code_data info));
     Some \<lparr>code_addr = i_code_load_addr info, data_addr = i_data_load_addr info, code_base = i_code_base info,
       data_base = i_data_base info, code_size = i_code_size info, text_size = i_text_size info, data_size = i_data_size info,
       bss_size = i_bss_size info, ep = i_entry_point info, exception_descriptor = i_exception_descriptor info,
       export_table = i_export_table info, dependencies = [],
       constant_data = take (unat (i_data_size info)) (i_constant_data info),
       code_data = (if i_code_load_addr info = 0 then take (unat (i_code_size info)) (i_code_data info) else []),
       cs_mark = False, cs_attaches = [], premade_eps = [], relocation_list = i_relocation_list info, cs_state = Cs_none\<rparr>
   }"

definition find_attach :: "pid option \<Rightarrow> codeseg \<Rightarrow> attached_info option" where
  "find_attach pr c = find (\<lambda>a. attached_process a = pr) (cs_attaches c)"

definition add_dependency :: "csid \<Rightarrow> dependency_info \<Rightarrow> code_state \<Rightarrow> bool \<times> code_state" where
  "add_dependency c d s =
    (if find (\<lambda>x. dep_seg x = dep_seg d) (dependencies (cd_segs s c)) = None
     then (True, upd_seg c (\<lambda>x. x\<lparr>dependencies := dependencies x @ [d]\<rparr>) s) else (False, s))"

definition add_premade_entry_point :: "csid \<Rightarrow> u32 \<Rightarrow> code_state \<Rightarrow> bool \<times> code_state" where
  "add_premade_entry_point c addr s =
    (if addr \<notin> set (premade_eps (cd_segs s c))
     then (True, upd_seg c (\<lambda>x. x\<lparr>premade_eps := premade_eps x @ [addr]\<rparr>) s) else (False, s))"

section \<open>Addresses\<close>

text \<open>The entry of a ROM image is absolute. A null pointer to the code chunk is dereferenced.\<close>

definition code_run_base :: "machine \<Rightarrow> pid option \<Rightarrow> attached_info \<Rightarrow> u32 undef" where
  "code_run_base w pr a = map_option (\<lambda>k. chunk_base w k pr) (code_chunk a)"

definition get_code_run_addr :: "machine \<Rightarrow> pid option \<Rightarrow> codeseg \<Rightarrow> (u32 \<times> nat option) undef" where
  "get_code_run_addr w pr c =
    (if code_addr c \<noteq> 0 then Some (code_addr c, Some (real_pointer w (code_addr c)))
     else case find_attach pr c of
       None \<Rightarrow> Some (0, None)
     | Some a \<Rightarrow> do { k \<leftarrow> code_chunk a; Some (chunk_base w k pr, Some (chunk_host w k)) })"

definition get_data_run_addr :: "machine \<Rightarrow> pid option \<Rightarrow> codeseg \<Rightarrow> u32 \<times> nat option" where
  "get_data_run_addr w pr c =
    (if data_size c = 0 \<and> bss_size c = 0 then (0, None)
     else if data_addr c \<noteq> 0 then (data_base c, Some (real_pointer w (data_base c)))
     else case find_attach pr c of
       None \<Rightarrow> (0, None)
     | Some a \<Rightarrow> (case data_chunk a of None \<Rightarrow> (0, None) | Some k \<Rightarrow> (chunk_base w k pr, Some (chunk_host w k))))"

definition get_exception_descriptor :: "machine \<Rightarrow> pid option \<Rightarrow> codeseg \<Rightarrow> u32 undef" where
  "get_exception_descriptor w pr c = (case find_attach pr c of
     None \<Rightarrow> Some 0
   | Some a \<Rightarrow> map_option (\<lambda>b. b + exception_descriptor c) (code_run_base w pr a))"

definition get_entry_point :: "machine \<Rightarrow> pid option \<Rightarrow> codeseg \<Rightarrow> u32 undef" where
  "get_entry_point w pr c =
    (if code_addr c \<noteq> 0 then Some (ep c)
     else case find_attach pr c of
       None \<Rightarrow> Some 0
     | Some a \<Rightarrow> map_option (\<lambda>b. b + ep c) (code_run_base w pr a))"

definition lookup_no_relocate :: "u32 \<Rightarrow> codeseg \<Rightarrow> u32" where
  "lookup_no_relocate ord c =
    (if unat ord > length (export_table c) \<or> ord = 0 then 0 else export_table c ! (unat ord - 1))"

definition seg_lookup :: "machine \<Rightarrow> pid option \<Rightarrow> u32 \<Rightarrow> codeseg \<Rightarrow> u32 undef" where
  "seg_lookup w pr ord c = (let r = lookup_no_relocate ord c in
     if code_addr c \<noteq> 0 \<or> r = 0 then Some r
     else case find_attach pr c of
       None \<Rightarrow> Some 0
     | Some a \<Rightarrow> map_option (\<lambda>b. b + r - code_base c) (code_run_base w pr a))"

definition get_export_table :: "machine \<Rightarrow> pid option \<Rightarrow> codeseg \<Rightarrow> u32 list undef" where
  "get_export_table w pr c =
    (if code_addr c \<noteq> 0 then Some (export_table c)
     else case find_attach pr c of
       None \<Rightarrow> Some []
     | Some a \<Rightarrow> map_option (\<lambda>b. map (\<lambda>e. e + (b - code_base c)) (export_table c)) (code_run_base w pr a))"

text \<open>The ordinal 0 passes the test and selects what lies in front of the table.\<close>

definition set_export :: "csid \<Rightarrow> u32 \<Rightarrow> u32 \<Rightarrow> code_state \<Rightarrow> code_state undef" where
  "set_export c ordinal addr s =
    (if length (export_table (cd_segs s c)) < unat ordinal then Some s
     else if ordinal = 0 then None
     else Some (upd_seg c (\<lambda>x. x\<lparr>export_table := (export_table x)[unat ordinal - 1 := addr]\<rparr>) s))"

definition seg_relocate :: "machine \<Rightarrow> pid option \<Rightarrow> u32 \<Rightarrow> codeseg \<Rightarrow> u32 undef" where
  "seg_relocate w pr addr c = map_option (\<lambda>(r, _). addr - code_base c + r) (get_code_run_addr w pr c)"

section \<open>Attaching to a process\<close>

definition create_seg_chunk :: "pid option \<Rightarrow> u32 \<Rightarrow> seg_access \<Rightarrow> u32 \<Rightarrow> code_state \<Rightarrow> nat \<times> code_state" where
  "create_seg_chunk pr sz acc forced s =
    (length (cd_chunks s), s\<lparr>cd_chunks := cd_chunks s @ [Some \<lparr>sc_owner = pr, sc_size = sz, sc_access = acc, sc_forced = forced\<rparr>]\<rparr>)"

definition host_write :: "nat \<Rightarrow> u8 list \<Rightarrow> code_state \<Rightarrow> code_state" where
  "host_write p bs s = s\<lparr>cd_host := store_bytes bs p (cd_host s)\<rparr>"

definition host_load32 :: "nat \<Rightarrow> code_state \<Rightarrow> u32" where
  "host_load32 p s = ucast (load_le 4 (cd_host s) p)"

text \<open>Writing through a null pointer, at whatever offset, is undefined.\<close>

definition host_store32 :: "nat \<Rightarrow> u32 \<Rightarrow> u32 \<Rightarrow> code_state \<Rightarrow> code_state undef" where
  "host_store32 base off v s =
    (if base = 0 then None else Some (s\<lparr>cd_host := store_le 4 (ucast v) (base + unat off) (cd_host s)\<rparr>))"

text \<open>The code: its address, its host memory and the chunk created for it.\<close>

definition place_code :: "machine \<Rightarrow> csid \<Rightarrow> pid option \<Rightarrow> code_state \<Rightarrow> (u32 \<times> nat \<times> nat option \<times> code_state) undef" where
  "place_code w c pr s = (let x = cd_segs s c in
     if code_addr x = 0 then do {
       sz \<leftarrow> align (code_size x) (page_size w) 1;
       let (k, s) = create_seg_chunk pr sz Access_code 0 s;
       Some (chunk_base w k pr, chunk_host w k, Some k, host_write (chunk_host w k) (code_data x) s)
     }
     else Some (code_addr x, real_pointer w (code_addr x), None, s))"

text \<open>The data, followed by the uninitialised data. For a ROM image it is the chunk the process has for them, unless
  the data lie below it.\<close>

definition place_data :: "machine \<Rightarrow> csid \<Rightarrow> pid option \<Rightarrow> code_state \<Rightarrow> (u32 \<times> nat \<times> nat option \<times> code_state) undef" where
  "place_data w c pr s = (let x = cd_segs s c in do {
     sz \<leftarrow> align (data_size x + bss_size x) (page_size w) 1;
     if sz = 0 then Some (data_addr x, real_pointer w (data_addr x), None, s)
     else do {
       (k, in_region, s) \<leftarrow>
         (if data_addr x = 0 then (let (k, s) = create_seg_chunk pr sz Access_local 0 s in Some (k, False, s))
          else do {
            p \<leftarrow> pr;
            k \<leftarrow> rom_bss w p;
            if data_base x < chunk_base w k pr
            then (let (k, s) = create_seg_chunk pr sz Access_local (data_base x) s in Some (k, False, s))
            else Some (k, True, s)
          });
       let run = chunk_base w k pr;
       let p = chunk_host w k + (if in_region then unat (data_base x - run) else 0);
       Some (run, p, Some k, host_write p (take (unat (data_size x)) (constant_data x) @ replicate (unat (bss_size x)) 0) s)
     }
   })"

text \<open>The imports from one dependency: ordinal, adjustment and the place to patch.\<close>

definition import_ord :: "u64 \<Rightarrow> u16" where
  "import_ord i = ucast i"

definition import_adj :: "u64 \<Rightarrow> u16" where
  "import_adj i = ucast (drop_bit 16 i)"

definition import_offset :: "u64 \<Rightarrow> u32" where
  "import_offset i = ucast (drop_bit 32 i)"

fun patch_imports :: "machine \<Rightarrow> pid option \<Rightarrow> csid \<Rightarrow> nat \<Rightarrow> u64 list \<Rightarrow> code_state \<Rightarrow> code_state undef" where
  "patch_imports w pr d base [] s = Some s"
| "patch_imports w pr d base (i # is) s = do {
     addr \<leftarrow> seg_lookup w pr (ucast (import_ord i)) (cd_segs s d);
     s \<leftarrow> host_store32 base (import_offset i) (addr + ucast (import_adj i)) s;
     patch_imports w pr d base is s
   }"

datatype relocation_type = Rel_reserved | Rel_text | Rel_data | Rel_inferred | Rel_unknown

definition relocation_type_of :: "u16 \<Rightarrow> relocation_type" where
  "relocation_type_of t = (if t = 0 then Rel_reserved else if t = 0x1000 then Rel_text else if t = 0x2000 then Rel_data
     else if t = 0x3000 then Rel_inferred else Rel_unknown)"

text \<open>\<open>base_of\<close> is the host memory of a section; there is none for an unknown section.\<close>

definition relocate_one :: "u32 \<Rightarrow> u32 \<Rightarrow> u32 \<Rightarrow> nat \<Rightarrow> nat \<Rightarrow> u64 \<Rightarrow> code_state \<Rightarrow> code_state undef" where
  "relocate_one tsz code_delta data_delta code_ptr data_ptr info s = (
     let off = ucast info :: u32;
         sect = ucast (drop_bit 48 info) :: u16;
         base = (if sect = 0 then code_ptr else if sect = 1 then data_ptr else 0);
         apply_delta = (\<lambda>delta. host_store32 base off (host_load32 (base + unat off) s + delta) s)
     in case relocation_type_of (ucast (drop_bit 32 info)) of
          Rel_reserved \<Rightarrow> Some s
        | Rel_text \<Rightarrow> apply_delta code_delta
        | Rel_data \<Rightarrow> apply_delta data_delta
        | Rel_inferred \<Rightarrow> apply_delta (if off < tsz then code_delta else data_delta)
        | Rel_unknown \<Rightarrow> apply_delta 0)"

fun relocate_all :: "u32 \<Rightarrow> u32 \<Rightarrow> u32 \<Rightarrow> nat \<Rightarrow> nat \<Rightarrow> u64 list \<Rightarrow> code_state \<Rightarrow> code_state undef" where
  "relocate_all ts cd dd cp dp [] s = Some s"
| "relocate_all ts cd dd cp dp (i # is) s = do { s \<leftarrow> relocate_one ts cd dd cp dp i s; relocate_all ts cd dd cp dp is s }"

text \<open>Attaching a dependency that is itself being attached returns at once. The fuel bounds the depth of the recursion.\<close>

fun seg_attach :: "machine \<Rightarrow> nat \<Rightarrow> csid \<Rightarrow> pid option \<Rightarrow> bool \<Rightarrow> code_state \<Rightarrow> (bool \<times> code_state) undef"
  and attach_deps :: "machine \<Rightarrow> nat \<Rightarrow> bool \<Rightarrow> pid option \<Rightarrow> nat \<Rightarrow> dependency_info list \<Rightarrow> code_state \<Rightarrow> code_state undef" where
  "seg_attach w 0 c pr forcefully s = None"
| "seg_attach w (Suc fuel) c pr forcefully s =
    (if pr = None \<and> \<not> forcefully then Some (False, s)
     else if \<not> forcefully \<and> find_attach pr (cd_segs s c) \<noteq> None then Some (False, s)
     else if cs_state (cd_segs s c) = Cs_attaching then Some (True, s)
     else do {
       let s = upd_seg c (\<lambda>x. x\<lparr>cs_state := Cs_attaching\<rparr>) s;
       (code_run, code_ptr, cch, s) \<leftarrow> place_code w c pr s;
       (data_run, data_ptr, dch, s) \<leftarrow> place_data w c pr s;
       let s = upd_seg c (\<lambda>x. x\<lparr>cs_attaches := cs_attaches x @ [\<lparr>attached_process = pr, data_chunk = dch, code_chunk = cch\<rparr>]\<rparr>) s;
       let x = cd_segs s c;
       s \<leftarrow> attach_deps w fuel (code_addr x \<noteq> 0 \<and> forcefully \<or> code_addr x = 0) pr code_ptr (dependencies x) s;
       s \<leftarrow> relocate_all (text_size x) (code_run - code_base x) (data_run - data_base x) code_ptr data_ptr (relocation_list x) s;
       Some (True, (upd_seg c (\<lambda>x. x\<lparr>cs_state := Cs_attached\<rparr>) s)\<lparr>cd_loaded := cd_loaded s @ [(c, pr)]\<rparr>)
     })"
| "attach_deps w fuel patch pr code_ptr [] s = Some s"
| "attach_deps w fuel patch pr code_ptr (d # ds) s = do {
     (_, s) \<leftarrow> seg_attach w fuel (dep_seg d) pr False s;
     s \<leftarrow> (if patch then patch_imports w pr (dep_seg d) code_ptr (import_info d) s else Some s);
     attach_deps w fuel patch pr code_ptr ds s
   }"

text \<open>\<open>None\<close> of the chunk list is a chunk destroyed.\<close>

definition destroy_seg_chunk :: "nat option \<Rightarrow> code_state \<Rightarrow> code_state" where
  "destroy_seg_chunk k s = (case k of None \<Rightarrow> s | Some k \<Rightarrow> s\<lparr>cd_chunks := (cd_chunks s)[k := None]\<rparr>)"

text \<open>A code segment nobody is attached to any more is destroyed.\<close>

definition seg_detach :: "csid \<Rightarrow> pid option \<Rightarrow> code_state \<Rightarrow> bool \<times> code_state" where
  "seg_detach c pr s = (case find_index (\<lambda>a. attached_process a = pr) (cs_attaches (cd_segs s c)) of
     None \<Rightarrow> (False, s)
   | Some i \<Rightarrow> (let a = cs_attaches (cd_segs s c) ! i;
         s = destroy_seg_chunk (code_chunk a) (destroy_seg_chunk (data_chunk a) s);
         s = upd_seg c (\<lambda>x. x\<lparr>cs_attaches := erase_at i (cs_attaches x)\<rparr>) s
       in (True, if cs_attaches (cd_segs s c) = [] then s\<lparr>cd_destroyed := cd_destroyed s @ [c]\<rparr> else s)))"

section \<open>The call list\<close>

text \<open>The entry points to call, those of the dependencies first; the marks keep a dependency from being visited twice.\<close>

fun queries_call_list :: "machine \<Rightarrow> nat \<Rightarrow> pid option \<Rightarrow> csid \<Rightarrow> u32 list \<times> code_state \<Rightarrow> (u32 list \<times> code_state) undef"
  and queries_deps :: "machine \<Rightarrow> nat \<Rightarrow> pid option \<Rightarrow> dependency_info list \<Rightarrow> u32 list \<times> code_state \<Rightarrow> (u32 list \<times> code_state) undef" where
  "queries_call_list w 0 pr c (l, s) = None"
| "queries_call_list w (Suc fuel) pr c (l, s) = do {
     (l, s) \<leftarrow> queries_deps w fuel pr (dependencies (cd_segs s c)) (l @ premade_eps (cd_segs s c), s);
     e \<leftarrow> get_entry_point w pr (cd_segs s c);
     Some (l @ [e], s)
   }"
| "queries_deps w fuel pr [] (l, s) = Some (l, s)"
| "queries_deps w fuel pr (d # ds) (l, s) =
    (if cs_mark (cd_segs s (dep_seg d)) then queries_deps w fuel pr ds (l, s)
     else do {
       (l, s) \<leftarrow> queries_call_list w fuel pr (dep_seg d) (l, upd_seg (dep_seg d) (\<lambda>x. x\<lparr>cs_mark := True\<rparr>) s);
       queries_deps w fuel pr ds (l, s)
     })"

fun seg_unmark :: "nat \<Rightarrow> csid \<Rightarrow> code_state \<Rightarrow> code_state undef"
  and unmark_deps :: "nat \<Rightarrow> dependency_info list \<Rightarrow> code_state \<Rightarrow> code_state undef" where
  "seg_unmark 0 c s = None"
| "seg_unmark (Suc fuel) c s = unmark_deps fuel (dependencies (cd_segs s c)) s"
| "unmark_deps fuel [] s = Some s"
| "unmark_deps fuel (d # ds) s =
    (if cs_mark (cd_segs s (dep_seg d)) then do {
       s \<leftarrow> seg_unmark fuel (dep_seg d) (upd_seg (dep_seg d) (\<lambda>x. x\<lparr>cs_mark := False\<rparr>) s);
       unmark_deps fuel ds s
     }
     else unmark_deps fuel ds s)"

section \<open>Libraries\<close>

datatype library_state = Lib_loaded | Lib_attaching | Lib_attached | Lib_detach_pending | Lib_detaching

record library =
  lib_codeseg :: csid
  lib_state :: library_state

definition library_attach :: "machine \<Rightarrow> nat \<Rightarrow> pid option \<Rightarrow> library \<Rightarrow> code_state \<Rightarrow> (u32 list \<times> library \<times> code_state) undef" where
  "library_attach w fuel pr lib s =
    (if lib_state lib = Lib_loaded then do {
       (_, s) \<leftarrow> seg_attach w fuel (lib_codeseg lib) pr False s;
       (l, s) \<leftarrow> queries_call_list w fuel pr (lib_codeseg lib) ([], s);
       s \<leftarrow> seg_unmark fuel (lib_codeseg lib) s;
       Some (l, lib\<lparr>lib_state := Lib_attaching\<rparr>, s)
     }
     else Some ([], lib, s))"

definition library_detach :: "pid option \<Rightarrow> library \<Rightarrow> code_state \<Rightarrow> code_state" where
  "library_detach pr lib s = snd (seg_detach (lib_codeseg lib) pr s)"

definition library_attached :: "library \<Rightarrow> bool \<times> library" where
  "library_attached lib =
    (if lib_state lib = Lib_attached \<or> lib_state lib \<noteq> Lib_attaching then (False, lib) else (True, lib\<lparr>lib_state := Lib_attached\<rparr>))"

definition get_ordinal_address :: "machine \<Rightarrow> pid option \<Rightarrow> u32 \<Rightarrow> library \<Rightarrow> code_state \<Rightarrow> u32 undef" where
  "get_ordinal_address w pr idx lib s = seg_lookup w pr idx (cd_segs s (lib_codeseg lib))"

section \<open>Executables\<close>

text \<open>The ordinal and the adjustment are promoted to \<open>int\<close>, whose sign bit spreads over the upper half when it becomes a
  64-bit number.\<close>

definition make_import_info :: "u32 \<Rightarrow> u16 \<Rightarrow> u16 \<Rightarrow> u64" where
  "make_import_info off ord adj = or (scast (or (ucast ord) (push_bit 16 (ucast adj)) :: u32)) (push_bit 32 (ucast off))"

record e32_reloc_entry =
  rel_base :: u32
  rels_info :: "u16 list"

definition relocation_of :: "u16 \<Rightarrow> u32 \<Rightarrow> u16 \<Rightarrow> u64" where
  "relocation_of sect base rel_info =
    or (or (ucast (base + and (ucast rel_info) 0x0FFF)) (push_bit 32 (ucast (and rel_info 0xF000)))) (push_bit 48 (ucast sect))"

definition build_relocation_list :: "e32_reloc_entry list \<Rightarrow> u16 \<Rightarrow> u64 list" where
  "build_relocation_list es sect = concat (map (\<lambda>e. map (relocation_of sect (rel_base e)) (rels_info e)) es)"

record e32img_import_block =
  ib_dll_name :: string
  ib_ordinals :: "u32 list"

record e32img =
  pre_epoc93 :: bool
  img_code_base :: u32
  img_data_base :: u32
  img_code_size :: u32
  img_data_size :: u32
  img_text_size :: u32
  img_bss_size :: u32
  img_entry_point :: u32
  img_exports :: "u32 list"
  img_exception_des :: "u32 option"
  img_code :: "u8 list"
  img_data :: "u8 list"
  img_code_relocs :: "e32_reloc_entry list"
  img_data_relocs :: "e32_reloc_entry list"
  img_imports :: "e32img_import_block list"

definition image_relocations :: "e32img \<Rightarrow> u64 list" where
  "image_relocations img = build_relocation_list (img_code_relocs img) 0
     @ (if img_bss_size img \<noteq> 0 \<or> img_data_size img \<noteq> 0 then build_relocation_list (img_data_relocs img) 1 else [])"

text \<open>\<open>pre_epoc93\<close>: the version of the image is at most EKA2, the one before EPOC 9.3; its exports are relative to the code.\<close>

definition create_info_of :: "e32img \<Rightarrow> u32 \<Rightarrow> codeseg_create_info" where
  "create_info_of img force_code_addr = \<lparr>i_code_base = img_code_base img, i_data_base = img_data_base img,
     i_code_size = img_code_size img, i_data_size = img_data_size img, i_text_size = img_text_size img, i_bss_size = img_bss_size img,
     i_exception_descriptor = (case img_exception_des img of None \<Rightarrow> 0 | Some e \<Rightarrow> if and e 1 \<noteq> 0 then e - 1 else 0),
     i_code_load_addr = force_code_addr, i_data_load_addr = 0, i_entry_point = img_entry_point img,
     i_export_table = (if pre_epoc93 img then map (\<lambda>e. e + img_code_base img) (img_exports img) else img_exports img),
     i_relocation_list = image_relocations img, i_constant_data = img_data img, i_code_data = img_code img\<rparr>"

text \<open>The name of a library in an import block ends with its version in braces or brackets. \<open>last_index\<close> is
  \<open>find_last_of\<close>.\<close>

definition last_index :: "char \<Rightarrow> string \<Rightarrow> nat option" where
  "last_index ch s = map_option (\<lambda>i. length s - 1 - i) (find_index ((=) ch) (rev s))"

definition get_real_dll_name :: "string \<Rightarrow> string" where
  "get_real_dll_name n = (case find_index ((=) CHR ''{'') n of
     Some i \<Rightarrow> take i n @ ''.dll''
   | None \<Rightarrow> (case last_index CHR ''['' n of Some i \<Rightarrow> take i n @ ''.dll'' | None \<Rightarrow> n))"

text \<open>The code segment of a dependency comes from \<open>load\<close>, the library manager. The imports of older images fill a table
  behind the text one after the other; newer ones have the ordinals in the code.\<close>

fun pe_imports :: "u32 \<Rightarrow> nat \<Rightarrow> u32 list \<Rightarrow> u64 list" where
  "pe_imports iat i [] = []"
| "pe_imports iat i (o' # os) = make_import_info (iat + of_nat (4 * i)) (ucast o') 0 # pe_imports iat (Suc i) os"

definition pe_fix_up_iat :: "(string \<Rightarrow> csid option) \<Rightarrow> u32 \<Rightarrow> e32img_import_block \<Rightarrow> nat \<Rightarrow> csid \<Rightarrow> code_state \<Rightarrow> bool \<times> nat \<times> code_state" where
  "pe_fix_up_iat load iat ib i c s = (case load (get_real_dll_name (ib_dll_name ib)) of
     None \<Rightarrow> (False, i, s)
   | Some d \<Rightarrow> (case add_dependency c \<lparr>dep_seg = d, import_info = pe_imports iat i (ib_ordinals ib)\<rparr> s of
       (ok, s) \<Rightarrow> (ok, i + length (ib_ordinals ib), s)))"

fun pe_fix_up_all :: "(string \<Rightarrow> csid option) \<Rightarrow> u32 \<Rightarrow> e32img_import_block list \<Rightarrow> nat \<Rightarrow> csid \<Rightarrow> code_state \<Rightarrow> code_state" where
  "pe_fix_up_all load iat [] i c s = s"
| "pe_fix_up_all load iat (ib # ibs) i c s = (case pe_fix_up_iat load iat ib i c s of (_, i, s) \<Rightarrow> pe_fix_up_all load iat ibs i c s)"

definition code_word :: "u8 list \<Rightarrow> u32 \<Rightarrow> u32 undef" where
  "code_word bs off = (let i = unat off in
     if i + 4 \<le> length bs
     then Some (or (ucast (bs ! i)) (or (push_bit 8 (ucast (bs ! (i + 1)))) (or (push_bit 16 (ucast (bs ! (i + 2)))) (push_bit 24 (ucast (bs ! (i + 3)))))))
     else None)"

fun elf_imports :: "u8 list \<Rightarrow> u32 list \<Rightarrow> u64 list undef" where
  "elf_imports code [] = Some []"
| "elf_imports code (off # offs) = do {
     v \<leftarrow> code_word code off;
     is \<leftarrow> elf_imports code offs;
     Some (make_import_info off (ucast v) (ucast (drop_bit 16 v)) # is)
   }"

definition elf_fix_up_import_dir :: "(string \<Rightarrow> csid option) \<Rightarrow> u8 list \<Rightarrow> e32img_import_block \<Rightarrow> csid \<Rightarrow> code_state \<Rightarrow> (bool \<times> code_state) undef" where
  "elf_fix_up_import_dir load code ib c s = (case load (get_real_dll_name (ib_dll_name ib)) of
     None \<Rightarrow> Some (False, s)
   | Some d \<Rightarrow> do {
       is \<leftarrow> elf_imports code (ib_ordinals ib);
       Some (True, snd (add_dependency c \<lparr>dep_seg = d, import_info = is\<rparr> s))
     })"

fun elf_fix_up_all :: "(string \<Rightarrow> csid option) \<Rightarrow> u8 list \<Rightarrow> e32img_import_block list \<Rightarrow> csid \<Rightarrow> code_state \<Rightarrow> code_state undef" where
  "elf_fix_up_all load code [] c s = Some s"
| "elf_fix_up_all load code (ib # ibs) c s = do { (_, s) \<leftarrow> elf_fix_up_import_dir load code ib c s; elf_fix_up_all load code ibs c s }"

definition buildup_import_fixup_table :: "(string \<Rightarrow> csid option) \<Rightarrow> e32img \<Rightarrow> csid \<Rightarrow> code_state \<Rightarrow> code_state undef" where
  "buildup_import_fixup_table load img c s = (
     if pre_epoc93 img then Some (pe_fix_up_all load (img_text_size img) (img_imports img) 0 c s)
     else elf_fix_up_all load (img_code img) (img_imports img) c s)"

definition import_e32img :: "(string \<Rightarrow> csid option) \<Rightarrow> e32img \<Rightarrow> u32 \<Rightarrow> csid \<Rightarrow> code_state \<Rightarrow> code_state undef" where
  "import_e32img load img force_code_addr c s = do {
     x \<leftarrow> new_codeseg (create_info_of img force_code_addr);
     buildup_import_fixup_table load img c (upd_seg c (\<lambda>_. x) s)
   }"

end
