(* ===== verification/Codeseg_Rep.thy ===== *)
theory Codeseg_Rep imports Codeseg begin

text \<open>
  Correctness of code segments: the order of the call list, and that attaching links a segment: its imports and relocations
  are patched and its exports found.
\<close>

section \<open>Visiting a graph in depth\<close>

text \<open>The traversal both marking and unmarking carry out: \<open>V\<close> is the set of vertices not to be visited (again), the list
  gives the vertices in the order they are left.\<close>

fun visit :: "nat \<Rightarrow> ('a \<Rightarrow> 'a list) \<Rightarrow> 'a \<Rightarrow> 'a set \<Rightarrow> ('a list \<times> 'a set) option"
  and visits :: "nat \<Rightarrow> ('a \<Rightarrow> 'a list) \<Rightarrow> 'a list \<Rightarrow> 'a set \<Rightarrow> ('a list \<times> 'a set) option" where
  "visit 0 succ c V = None"
| "visit (Suc n) succ c V = do { (l, V) \<leftarrow> visits n succ (succ c) V; Some (l @ [c], V) }"
| "visits n succ [] V = Some ([], V)"
| "visits n succ (d # ds) V =
    (if d \<in> V then visits n succ ds V
     else do { (l, V) \<leftarrow> visit n succ d (insert d V); (l', V) \<leftarrow> visits n succ ds V; Some (l @ l', V) })"

text \<open>The vertices are new, and each comes after all its successors.\<close>

definition left_in_order :: "('a \<Rightarrow> 'a list) \<Rightarrow> 'a set \<Rightarrow> 'a list \<Rightarrow> bool" where
  "left_in_order succ V l \<longleftrightarrow> distinct l \<and> set l \<inter> V = {} \<and> (\<forall>i < length l. set (succ (l ! i)) \<subseteq> V \<union> set (take i l))"

lemma left_in_order_Nil [simp]: "left_in_order succ V []"
  by (simp add: left_in_order_def)

lemma left_in_order_append:
  "left_in_order succ V l \<Longrightarrow> left_in_order succ (V \<union> set l) l' \<Longrightarrow> left_in_order succ V (l @ l')"
proof -
  assume a: "left_in_order succ V l" "left_in_order succ (V \<union> set l) l'"
  have "set (succ ((l @ l') ! i)) \<subseteq> V \<union> set (take i (l @ l'))" if "i < length (l @ l')" for i
  proof (cases "i < length l")
    case True
    then show ?thesis using a(1) by (simp add: left_in_order_def nth_append)
  next
    case False
    then have "set (succ (l' ! (i - length l))) \<subseteq> V \<union> set l \<union> set (take (i - length l) l')"
      using a(2) that by (simp add: left_in_order_def)
    then show ?thesis using False by (auto simp: nth_append)
  qed
  then show ?thesis using a by (auto simp: left_in_order_def)
qed

text \<open>Vertices in \<open>V\<close> below the rank \<open>R\<close> have their successors in \<open>V\<close>.\<close>

definition closed_below :: "('a \<Rightarrow> 'a list) \<Rightarrow> ('a \<Rightarrow> nat) \<Rightarrow> 'a set \<Rightarrow> nat \<Rightarrow> 'a set \<Rightarrow> bool" where
  "closed_below succ r S R V \<longleftrightarrow> (\<forall>x \<in> V \<inter> S. r x < R \<longrightarrow> set (succ x) \<subseteq> V)"

lemma left_in_orderD:
  assumes "left_in_order succ V l" and "x \<in> set l"
  shows "set (succ x) \<subseteq> V \<union> set l"
proof -
  obtain i where "i < length l" "x = l ! i" using assms(2) by (auto simp: in_set_conv_nth)
  then have "set (succ x) \<subseteq> V \<union> set (take i l)" using assms(1) by (simp add: left_in_order_def)
  then show ?thesis using set_take_subset [of i l] by blast
qed

lemma left_in_order_snoc:
  assumes "left_in_order succ (insert d V) l" and "d \<notin> V" and "set (succ d) \<subseteq> V \<union> set l" and "\<forall>x \<in> set l. d \<notin> set (succ x)"
  shows "left_in_order succ V (l @ [d])"
proof -
  have "set (succ ((l @ [d]) ! i)) \<subseteq> V \<union> set (take i (l @ [d]))" if "i < length (l @ [d])" for i
  proof (cases "i < length l")
    case True
    then have "set (succ (l ! i)) \<subseteq> insert d V \<union> set (take i l)" "d \<notin> set (succ (l ! i))" using assms(1,4) by (auto simp: left_in_order_def)
    then show ?thesis using True by (auto simp: nth_append)
  next
    case False
    then show ?thesis using that assms(3) by (auto simp: nth_append)
  qed
  then show ?thesis using assms(1,2) by (auto simp: left_in_order_def)
qed

lemma visits_spec:
  assumes rank: "\<And>x y. x \<in> S \<Longrightarrow> y \<in> set (succ x) \<Longrightarrow> y \<in> S \<and> r y < r x"
  shows "set ds \<subseteq> S \<Longrightarrow> \<forall>d \<in> set ds. r d < R \<Longrightarrow> R \<le> n \<Longrightarrow> closed_below succ r S R V \<Longrightarrow>
    \<exists>l. visits n succ ds V = Some (l, V \<union> set l) \<and> left_in_order succ V l \<and> set ds \<subseteq> V \<union> set l \<and> set l \<subseteq> S
      \<and> (\<forall>x \<in> set l. r x < R) \<and> closed_below succ r S R (V \<union> set l)"
proof (induction n arbitrary: ds R V)
  case 0
  then show ?case by (cases ds) auto
next
  case (Suc m)
  note outer = Suc.IH
  from Suc.prems show ?case
  proof (induction ds arbitrary: V)
    case (Cons d ds)
    show ?case
    proof (cases "d \<in> V")
      case True
      then show ?thesis using Cons.IH [of V] Cons.prems by auto
    next
      case False
      let ?V = "insert d V"
      have d: "d \<in> S" "r d < R" "r d \<le> m" using Cons.prems(1-3) by auto
      have "set (succ d) \<subseteq> S" "\<forall>y \<in> set (succ d). r y < r d" using rank d(1) by blast+
      moreover have "closed_below succ r S (r d) ?V"
        unfolding closed_below_def
      proof (intro ballI impI)
        fix x
        assume x: "x \<in> ?V \<inter> S" "r x < r d"
        then have "x \<in> V \<inter> S" "r x < R" using d(2) by auto
        then have "set (succ x) \<subseteq> V" using Cons.prems(4) unfolding closed_below_def by blast
        then show "set (succ x) \<subseteq> ?V" by blast
      qed
      ultimately obtain l where l: "visits m succ (succ d) ?V = Some (l, ?V \<union> set l)" "left_in_order succ ?V l"
        "set (succ d) \<subseteq> ?V \<union> set l" "set l \<subseteq> S" "\<forall>x \<in> set l. r x < r d"
        using outer [of "succ d" "r d" ?V] d(3) by blast
      have no: "d \<notin> set (succ x)" if "x \<in> insert d (set l)" for x
      proof
        assume "d \<in> set (succ x)"
        moreover have "x \<in> S" "r x \<le> r d" using that l(4,5) d(1) by (auto intro: less_imp_le)
        ultimately show False using rank [of x d] by simp
      qed
      have succ_d: "set (succ d) \<subseteq> V \<union> set l" using l(3) no by blast
      have ord: "left_in_order succ V (l @ [d])" using left_in_order_snoc [OF l(2) False succ_d] no by blast
      let ?V2 = "V \<union> set (l @ [d])"
      have cl: "closed_below succ r S R ?V2"
        unfolding closed_below_def
      proof (intro ballI impI)
        fix x
        assume x: "x \<in> ?V2 \<inter> S" "r x < R"
        show "set (succ x) \<subseteq> ?V2"
        proof (cases "x \<in> V")
          case True
          then show ?thesis using Cons.prems(4) x by (auto simp: closed_below_def)
        next
          case False
          then show ?thesis using left_in_orderD [OF ord, of x] x(1) by simp
        qed
      qed
      obtain l' where l': "visits (Suc m) succ ds ?V2 = Some (l', ?V2 \<union> set l')" "left_in_order succ ?V2 l'" "set ds \<subseteq> ?V2 \<union> set l'"
        "set l' \<subseteq> S" "\<forall>x \<in> set l'. r x < R" "closed_below succ r S R (?V2 \<union> set l')"
        using Cons.IH [of ?V2] Cons.prems cl by auto
      have eq: "?V \<union> set l = ?V2" by auto
      have "visits (Suc m) succ (d # ds) V = Some ((l @ [d]) @ l', V \<union> set ((l @ [d]) @ l'))"
        using False l(1) l'(1) unfolding eq by (simp add: Un_assoc Un_left_commute)
      moreover have "left_in_order succ V ((l @ [d]) @ l')" by (rule left_in_order_append [OF ord l'(2)])
      moreover have "\<forall>x \<in> set l. r x < R" using l(5) d(2) by auto
      ultimately show ?thesis using l'(3-6) l(4) d by (intro exI [of _ "(l @ [d]) @ l'"]) (auto simp: Un_assoc insert_commute)
    qed
  qed simp
qed

section \<open>The call list\<close>

definition deps_of :: "code_state \<Rightarrow> csid \<Rightarrow> csid list" where
  "deps_of s c = map dep_seg (dependencies (cd_segs s c))"

definition with_marks :: "csid set \<Rightarrow> code_state \<Rightarrow> code_state" where
  "with_marks V s = s\<lparr>cd_segs := \<lambda>x. (cd_segs s x)\<lparr>cs_mark := x \<in> V\<rparr>\<rparr>"

lemma with_marks_simps [simp]:
  "cs_mark (cd_segs (with_marks V s) x) \<longleftrightarrow> x \<in> V" "dependencies (cd_segs (with_marks V s) x) = dependencies (cd_segs s x)"
  "premade_eps (cd_segs (with_marks V s) x) = premade_eps (cd_segs s x)"
  "get_entry_point w pr (cd_segs (with_marks V s) x) = get_entry_point w pr (cd_segs s x)"
  by (simp_all add: with_marks_def get_entry_point_def find_attach_def split: option.split)

lemma mark_with_marks:
  "upd_seg c (\<lambda>x. x\<lparr>cs_mark := True\<rparr>) (with_marks V s) = with_marks (insert c V) s"
  "upd_seg c (\<lambda>x. x\<lparr>cs_mark := False\<rparr>) (with_marks V s) = with_marks (V - {c}) s"
  by (auto simp: with_marks_def upd_seg_def fun_eq_iff)

lemma with_no_marks: "\<forall>x. \<not> cs_mark (cd_segs s x) \<Longrightarrow> with_marks {} s = s"
  by (cases s) (auto simp: with_marks_def fun_eq_iff codeseg.equality)

lemma queries_visit:
  assumes succ: "succ = deps_of s"
  shows "visit n succ c V = Some (ord, V') \<Longrightarrow>
      \<forall>x \<in> set ord. get_entry_point w pr (cd_segs s x) = Some (e x) \<and> premade_eps (cd_segs s x) = [] \<Longrightarrow>
      queries_call_list w n pr c (l, with_marks V s) = Some (l @ map e ord, with_marks V' s)"
    and "visits n succ ds V = Some (ord, V') \<Longrightarrow> map dep_seg infos = ds \<Longrightarrow>
      \<forall>x \<in> set ord. get_entry_point w pr (cd_segs s x) = Some (e x) \<and> premade_eps (cd_segs s x) = [] \<Longrightarrow>
      queries_deps w n pr infos (l, with_marks V s) = Some (l @ map e ord, with_marks V' s)"
  using succ
proof (induction n succ c V and n succ ds V arbitrary: l ord V' and l ord V' infos rule: visit_visits.induct)
  case (2 n succ c V)
  obtain o1 where o1: "visits n succ (succ c) V = Some (o1, V')" "ord = o1 @ [c]" using 2(2) by (auto simp: bind_eq_Some_conv)
  have m: "map dep_seg (dependencies (cd_segs s c)) = succ c" by (simp add: 2(4) deps_of_def)
  have e: "get_entry_point w pr (cd_segs s c) = Some (e c)" "premade_eps (cd_segs s c) = []" using 2(3) o1(2) by auto
  have "queries_deps w n pr (dependencies (cd_segs s c)) (l, with_marks V s) = Some (l @ map e o1, with_marks V' s)"
    by (rule 2(1) [OF o1(1) m _ 2(4)]) (use 2(3) o1(2) in auto)
  then show ?case by (simp add: e o1(2))
next
  case (4 n succ d ds V)
  obtain i infos' where i: "infos = i # infos'" "dep_seg i = d" "map dep_seg infos' = ds"
    using 4(5) by (cases infos) auto
  show ?case
  proof (cases "d \<in> V")
    case True
    then have "visits n succ ds V = Some (ord, V')" using 4(4) by simp
    from 4(1) [OF True this i(3)] 4(6-) show ?thesis using True i by simp
  next
    case False
    then obtain o1 V1 o2 where o': "visit n succ d (insert d V) = Some (o1, V1)" "visits n succ ds V1 = Some (o2, V')" "ord = o1 @ o2"
      using 4(4) by (auto simp: bind_eq_Some_conv)
    have q: "queries_call_list w n pr d (l, with_marks (insert d V) s) = Some (l @ map e o1, with_marks V1 s)"
      by (rule 4(2) [OF False o'(1) _ 4(7)]) (use 4(6) o'(3) in auto)
    have "queries_deps w n pr infos' (l @ map e o1, with_marks V1 s) = Some ((l @ map e o1) @ map e o2, with_marks V' s)"
      by (rule 4(3) [OF False o'(1) refl o'(2) i(3) _ 4(7)]) (use 4(6) o'(3) in auto)
    with q show ?thesis using False o'(3) i by (simp add: mark_with_marks)
  qed
qed auto

lemma unmark_visit:
  assumes succ: "succ = deps_of s"
  shows "visit n succ c V = Some (ord, V') \<Longrightarrow> seg_unmark n c (with_marks (- V) s) = Some (with_marks (- V') s)"
    and "visits n succ ds V = Some (ord, V') \<Longrightarrow> map dep_seg infos = ds \<Longrightarrow>
      unmark_deps n infos (with_marks (- V) s) = Some (with_marks (- V') s)"
  using succ
proof (induction n succ c V and n succ ds V arbitrary: ord V' and ord V' infos rule: visit_visits.induct)
  case (2 n succ c V)
  obtain o1 where o1: "visits n succ (succ c) V = Some (o1, V')" using 2(2) by (auto simp: bind_eq_Some_conv)
  have m: "map dep_seg (dependencies (cd_segs s c)) = succ c" by (simp add: 2(3) deps_of_def)
  show ?case using 2(1) [OF o1 m 2(3)] by simp
next
  case (4 n succ d ds V)
  obtain i infos' where i: "infos = i # infos'" "dep_seg i = d" "map dep_seg infos' = ds"
    using 4(5) by (cases infos) auto
  show ?case
  proof (cases "d \<in> V")
    case True
    then have "visits n succ ds V = Some (ord, V')" using 4(4) by simp
    from 4(1) [OF True this i(3)] 4(6-) show ?thesis using True i by simp
  next
    case False
    then obtain o1 V1 o2 where o': "visit n succ d (insert d V) = Some (o1, V1)" "visits n succ ds V1 = Some (o2, V')"
      using 4(4) by (auto simp: bind_eq_Some_conv)
    have eq: "- V - {d} = - insert d V" by auto
    have "seg_unmark n d (with_marks (- insert d V) s) = Some (with_marks (- V1) s)"
      by (rule 4(2) [OF False o'(1) 4(6)])
    moreover have "unmark_deps n infos' (with_marks (- V1) s) = Some (with_marks (- V') s)"
      by (rule 4(3) [OF False o'(1) refl o'(2) i(3) 4(6)])
    ultimately show ?thesis using False i by (simp add: mark_with_marks eq)
  qed
qed auto

text \<open>C30. The call list of a code segment whose dependencies have no cycle: every direct or indirect dependency is called
  exactly once, after everything it depends on, and the segment itself last. Unmarking afterwards leaves no mark behind.\<close>

theorem call_list_dependencies_first:
  assumes "\<forall>x y. y \<in> set (deps_of s x) \<longrightarrow> r y < r x" and "\<forall>x. \<not> cs_mark (cd_segs s x)"
    and "\<forall>x. get_entry_point w pr (cd_segs s x) = Some (e x)" and "\<forall>x. x \<noteq> c \<longrightarrow> premade_eps (cd_segs s x) = []" and "r c < n"
  shows "\<exists>ord s'. queries_call_list w n pr c (l, s) = Some (l @ premade_eps (cd_segs s c) @ map e ord @ [e c], s')
    \<and> seg_unmark n c s' = Some s
    \<and> distinct (ord @ [c]) \<and> set ord = {d. (c, d) \<in> {(x, y). y \<in> set (deps_of s x)}\<^sup>+}
    \<and> (\<forall>i < length ord. set (deps_of s (ord ! i)) \<subseteq> set (take i ord))"
proof -
  let ?succ = "deps_of s" and ?E = "{(x, y). y \<in> set (deps_of s x)}"
  obtain m where m: "n = Suc m" "r c \<le> m" using assms(5) by (cases n) auto
  let ?S = "{d. (c, d) \<in> ?E\<^sup>+}"
  have S: "y \<in> ?S \<and> r y < r x" if "x \<in> ?S" "y \<in> set (?succ x)" for x y
    using that assms(1) by (auto intro: trancl_into_trancl)
  have Sc: "set (?succ c) \<subseteq> ?S" by auto
  obtain ord where o': "visits m ?succ (?succ c) {} = Some (ord, set ord)" "left_in_order ?succ {} ord" "set (?succ c) \<subseteq> set ord"
    "set ord \<subseteq> ?S" "\<forall>x \<in> set ord. r x < r c"
    using visits_spec [of ?S ?succ r "?succ c" "r c" m "{}", OF S Sc] assms(1) m(2) by (auto simp: closed_below_def)
  have nc: "c \<notin> set ord" using o'(5) by blast
  let ?s' = "with_marks (set ord) s"
  have "queries_deps w m pr (dependencies (cd_segs s c)) (l @ premade_eps (cd_segs s c), with_marks {} s)
      = Some ((l @ premade_eps (cd_segs s c)) @ map e ord, ?s')"
  proof (rule queries_visit(2) [OF refl o'(1)])
    show "\<forall>x\<in>set ord. get_entry_point w pr (cd_segs s x) = Some (e x) \<and> premade_eps (cd_segs s x) = []" using assms(3,4) nc by metis
  qed (simp add: deps_of_def)
  then have q: "queries_call_list w n pr c (l, s) = Some (l @ premade_eps (cd_segs s c) @ map e ord @ [e c], ?s')"
    using assms(3) m(1) by (simp add: with_no_marks [OF assms(2)])
  have closed: "y \<in> set ord" if "x \<in> set ord" "y \<in> set (?succ x)" for x y using left_in_orderD [OF o'(2) that(1)] that(2) by auto
  have reach: "d \<in> set ord" if "(c, d) \<in> ?E\<^sup>+" for d
    using that by (induction rule: trancl_induct) (use o'(3) closed in auto)
  have S2: "y \<in> set ord \<and> r y < r x" if "x \<in> set ord" "y \<in> set (?succ x)" for x y using closed [OF that] assms(1) that(2) by blast
  have below: "\<forall>d \<in> set (?succ c). r d < r c" using assms(1) by blast
  have cl: "closed_below ?succ r (set ord) (r c) (- set ord)" by (simp add: closed_below_def)
  obtain l2 where l2: "visits m ?succ (?succ c) (- set ord) = Some (l2, - set ord \<union> set l2)" "set (?succ c) \<subseteq> - set ord \<union> set l2"
    "closed_below ?succ r (set ord) (r c) (- set ord \<union> set l2)"
    using visits_spec [of "set ord" ?succ r "?succ c" "r c" m "- set ord", OF S2 o'(3) below m(2) cl] by blast
  have "d \<in> - set ord \<union> set l2" if "(c, d) \<in> ?E\<^sup>+" for d
    using that
  proof (induction rule: trancl_induct)
    case (base y)
    then show ?case using l2(2) by blast
  next
    case (step y z)
    have "y \<in> set ord" using reach step.hyps(1) by blast
    then have "set (?succ y) \<subseteq> - set ord \<union> set l2" using l2(3) step.IH o'(5) unfolding closed_below_def by blast
    then show ?case using step.hyps(2) by blast
  qed
  then have all: "- set ord \<union> set l2 = UNIV" using o'(4) by blast
  have "unmark_deps m (dependencies (cd_segs s c)) (with_marks (- (- set ord)) s) = Some (with_marks (- UNIV) s)"
    using unmark_visit(2) [OF refl l2(1) [unfolded all]] by (simp add: deps_of_def)
  then have u: "seg_unmark n c ?s' = Some s" using m(1) by (simp add: with_no_marks [OF assms(2)])
  have "set ord = ?S" using reach o'(4) by blast
  with q u o'(2) nc show ?thesis by (auto simp: left_in_order_def)
qed

section \<open>Imports and relocations\<close>

lemma odd_upper_half:
  fixes u :: int
  assumes "0 \<le> u" and "u < 65536"
  shows "odd (u div 32768) \<longleftrightarrow> \<not> u < 32768"
proof (cases "u < 32768")
  case True
  then show ?thesis using assms by (simp add: div_pos_pos_trivial)
next
  case False
  then have "u div 32768 = 1" using assms int_div_pos_eq [of u 32768 1 "u - 32768"] by simp
  then show ?thesis using False by simp
qed

text \<open>The ordinal, the adjustment and the place of an import are read back as they were packed, if the adjustment is
  below 0x8000. From there on its sign bit spreads, and the place is lost.\<close>

theorem import_info_roundtrip:
  "import_ord (make_import_info off ord adj) = ord \<and> import_adj (make_import_info off ord adj) = adj
    \<and> import_offset (make_import_info off ord adj) = (if adj < 0x8000 then off else 0xFFFFFFFF)"
proof -
  have sign: "bit adj 15 \<longleftrightarrow> \<not> adj < 0x8000"
  proof -
    have "bit adj 15 \<longleftrightarrow> bit (uint adj) 15" by (simp add: bit_uint_iff)
    also have "\<dots> \<longleftrightarrow> odd (uint adj div 32768)" unfolding bit_iff_odd by simp
    finally have "bit adj 15 \<longleftrightarrow> odd (uint adj div 32768)" .
    moreover have "uint adj < 65536" "0 \<le> uint adj" using uint_lt2p [of adj] by simp_all
    ultimately have "bit adj 15 \<longleftrightarrow> \<not> uint adj < 32768" using odd_upper_half by blast
    then show ?thesis by (simp add: word_less_def)
  qed
  have "import_ord (make_import_info off ord adj) = ord"
    by (rule bit_eqI) (auto simp: import_ord_def make_import_info_def bit_simps)
  moreover have "import_adj (make_import_info off ord adj) = adj"
    by (rule bit_eqI) (auto simp: import_adj_def make_import_info_def bit_simps dest: bit_imp_le_length)
  moreover have "import_offset (make_import_info off ord adj) = (if adj < 0x8000 then off else 0xFFFFFFFF)"
  proof (cases "adj < 0x8000")
    case True
    then have "\<not> bit adj 15" using sign by simp
    then have "import_offset (make_import_info off ord adj) = off"
      by (intro bit_eqI) (auto simp: import_offset_def make_import_info_def bit_simps dest: bit_imp_le_length)
    then show ?thesis using True by simp
  next
    case False
    then have "bit adj 15" using sign by simp
    then have "import_offset (make_import_info off ord adj) = - 1"
      by (intro bit_eqI) (auto simp: import_offset_def make_import_info_def bit_simps)
    then show ?thesis using False by simp
  qed
  ultimately show ?thesis by blast
qed

text \<open>Changes of words of host memory that do not overlap take place independently.\<close>

definition word_at :: "nat \<Rightarrow> host_mem \<Rightarrow> u32" where
  "word_at p h = ucast (load_le 4 h p)"

definition apply_patch :: "nat \<times> (u32 \<Rightarrow> u32) \<Rightarrow> host_mem \<Rightarrow> host_mem" where
  "apply_patch pf h = store_le 4 (ucast (snd pf (word_at (fst pf) h))) (fst pf) h"

definition words_apart :: "nat \<Rightarrow> nat \<Rightarrow> bool" where
  "words_apart p q \<longleftrightarrow> p + 4 \<le> q \<or> q + 4 \<le> p"

lemma load_le_cong: "(\<And>i. i < n \<Longrightarrow> h (p + i) = h' (p + i)) \<Longrightarrow> load_le n h p = load_le n h' p"
proof (induction n arbitrary: p)
  case (Suc n)
  have "load_le n h (Suc p) = load_le n h' (Suc p)" by (rule Suc.IH) (use Suc.prems [of "Suc _"] in simp)
  then show ?case using Suc.prems [of 0] by simp
qed simp

lemma word_at_patch: "word_at p (apply_patch (p, f) h) = f (word_at p h)"
  by (rule bit_word_eqI) (simp add: word_at_def apply_patch_def load_le_store_le bit_simps)

lemma word_at_patch_apart: "words_apart p q \<Longrightarrow> word_at q (apply_patch (p, f) h) = word_at q h"
  by (auto simp: word_at_def apply_patch_def words_apart_def store_le_outside intro!: arg_cong [where f = ucast] load_le_cong)

lemma patches_outside: "\<forall>x \<in> set ps. words_apart (fst x) q \<Longrightarrow> word_at q (fold apply_patch ps h) = word_at q h"
proof (induction ps arbitrary: h)
  case (Cons x ps)
  then have "word_at q (fold apply_patch ps (apply_patch x h)) = word_at q (apply_patch x h)" by simp
  also have "\<dots> = word_at q h" using Cons.prems word_at_patch_apart [of "fst x" q "snd x" h] by simp
  finally show ?case by simp
qed simp

lemma patches_apply:
  "sorted_wrt (\<lambda>x y. words_apart (fst x) (fst y)) ps \<Longrightarrow> (p, f) \<in> set ps \<Longrightarrow> word_at p (fold apply_patch ps h) = f (word_at p h)"
proof (induction ps arbitrary: h)
  case (Cons x ps)
  show ?case
  proof (cases "x = (p, f)")
    case True
    have "\<forall>y \<in> set ps. words_apart (fst y) p" using Cons.prems(1) True by (auto simp: words_apart_def)
    from patches_outside [OF this] show ?thesis using True by (simp add: word_at_patch)
  next
    case False
    then have m: "(p, f) \<in> set ps" using Cons.prems(2) by auto
    then have "words_apart (fst x) p" using Cons.prems(1) by force
    then have "word_at p (apply_patch x h) = word_at p h" using word_at_patch_apart [of "fst x" p "snd x" h] by simp
    then show ?thesis using Cons.IH [of "apply_patch x h"] Cons.prems(1) m by simp
  qed
qed simp

definition import_patch :: "machine \<Rightarrow> pid option \<Rightarrow> nat \<Rightarrow> codeseg \<Rightarrow> u64 \<Rightarrow> nat \<times> (u32 \<Rightarrow> u32)" where
  "import_patch w pr base d i = (base + unat (import_offset i), \<lambda>_. the (seg_lookup w pr (ucast (import_ord i)) d) + ucast (import_adj i))"

lemma patch_imports_fold:
  assumes "base \<noteq> 0"
  shows "\<forall>i \<in> set is. seg_lookup w pr (ucast (import_ord i)) (cd_segs s d) \<noteq> None \<Longrightarrow>
    patch_imports w pr d base is s = Some (s\<lparr>cd_host := fold apply_patch (map (import_patch w pr base (cd_segs s d)) is) (cd_host s)\<rparr>)"
proof (induction "is" arbitrary: s)
  case (Cons i "is")
  then obtain a where a: "seg_lookup w pr (ucast (import_ord i)) (cd_segs s d) = Some a" by auto
  then show ?case using Cons assms
    by (simp add: host_store32_def import_patch_def apply_patch_def)
qed simp

text \<open>The section and the type of a relocation are known to the loader.\<close>

definition known_relocation :: "u64 \<Rightarrow> bool" where
  "known_relocation i \<longleftrightarrow> relocation_type_of (ucast (drop_bit 32 i)) \<in> {Rel_text, Rel_data, Rel_inferred} \<and> (ucast (drop_bit 48 i) :: u16) \<in> {0, 1}"

definition relocation_place :: "nat \<Rightarrow> nat \<Rightarrow> u64 \<Rightarrow> nat" where
  "relocation_place cp dp i = (if (ucast (drop_bit 48 i) :: u16) = 0 then cp else dp) + unat (ucast i :: u32)"

definition relocation_delta :: "u32 \<Rightarrow> u32 \<Rightarrow> u32 \<Rightarrow> u64 \<Rightarrow> u32" where
  "relocation_delta tsz cd dd i = (case relocation_type_of (ucast (drop_bit 32 i)) of
     Rel_text \<Rightarrow> cd | Rel_data \<Rightarrow> dd | _ \<Rightarrow> if ucast i < tsz then cd else dd)"

definition relocation_patch :: "u32 \<Rightarrow> u32 \<Rightarrow> u32 \<Rightarrow> nat \<Rightarrow> nat \<Rightarrow> u64 \<Rightarrow> nat \<times> (u32 \<Rightarrow> u32)" where
  "relocation_patch tsz cd dd cp dp i = (relocation_place cp dp i, \<lambda>v. v + relocation_delta tsz cd dd i)"

lemma relocate_one_patch:
  assumes "known_relocation i" and "cp \<noteq> 0" and "dp \<noteq> 0"
  shows "relocate_one tsz cd dd cp dp i s = Some (s\<lparr>cd_host := apply_patch (relocation_patch tsz cd dd cp dp i) (cd_host s)\<rparr>)"
  using assms
  by (auto simp: known_relocation_def relocate_one_def relocation_patch_def relocation_place_def relocation_delta_def apply_patch_def
      host_store32_def host_load32_def word_at_def Let_def)

lemma relocate_all_fold:
  assumes "cp \<noteq> 0" and "dp \<noteq> 0"
  shows "\<forall>i \<in> set is. known_relocation i \<Longrightarrow>
    relocate_all tsz cd dd cp dp is s = Some (s\<lparr>cd_host := fold apply_patch (map (relocation_patch tsz cd dd cp dp) is) (cd_host s)\<rparr>)"
  by (induction "is" arbitrary: s) (simp_all add: relocate_one_patch assms)

lemma attached_dependency: "find_attach (Some p) (cd_segs s d) \<noteq> None \<Longrightarrow> seg_attach w (Suc n) d (Some p) False s = Some (False, s)"
  by simp

lemma attach_deps_fold:
  assumes "base \<noteq> 0"
  shows "\<forall>d \<in> set ds. find_attach (Some p) (cd_segs s (dep_seg d)) \<noteq> None
      \<and> (\<forall>i \<in> set (import_info d). seg_lookup w (Some p) (ucast (import_ord i)) (cd_segs s (dep_seg d)) \<noteq> None) \<Longrightarrow>
    attach_deps w (Suc n) True (Some p) base ds s = Some (s\<lparr>cd_host := fold apply_patch
      (concat (map (\<lambda>d. map (import_patch w (Some p) base (cd_segs s (dep_seg d))) (import_info d)) ds)) (cd_host s)\<rparr>)"
proof (induction ds arbitrary: s)
  case (Cons d ds)
  then show ?case by (simp add: attached_dependency patch_imports_fold [OF assms] del: seg_attach.simps)
qed simp

lemma find_snoc: "find P xs = None \<Longrightarrow> P y \<Longrightarrow> find P (xs @ [y]) = Some y"
  by (induction xs) (auto split: if_splits)

text \<open>C31. A code segment that is attached to a process after its dependencies is linked: each import holds the address of the
  export with its adjustment, each relocated word of code or data the word of the image plus the distance the section it
  refers to has moved, and the exports are found where the code has been placed.\<close>

theorem attach_links_segment:
  assumes "x = cd_segs s c" and "cs_state x \<noteq> Cs_attaching" and "find_attach (Some p) x = None" and "code_addr x = 0" and "data_addr x = 0"
    and "align (code_size x) (page_size w) 1 = Some csz" and "align (data_size x + bss_size x) (page_size w) 1 = Some dsz" and "dsz \<noteq> 0"
    and "k = length (cd_chunks s)" and "cp = chunk_host w k" and "dp = chunk_host w (Suc k)" and "cp \<noteq> 0" and "dp \<noteq> 0"
    and "\<forall>d \<in> set (dependencies x). dep_seg d \<noteq> c \<and> find_attach (Some p) (cd_segs s (dep_seg d)) \<noteq> None
      \<and> (\<forall>i \<in> set (import_info d). seg_lookup w (Some p) (ucast (import_ord i)) (cd_segs s (dep_seg d)) \<noteq> None)"
    and "\<forall>i \<in> set (relocation_list x). known_relocation i"
    and "sorted_wrt words_apart (concat (map (\<lambda>d. map (\<lambda>i. cp + unat (import_offset i)) (import_info d)) (dependencies x))
      @ map (relocation_place cp dp) (relocation_list x))"
    and "img = store_bytes (take (unat (data_size x)) (constant_data x) @ replicate (unat (bss_size x)) 0) dp
      (store_bytes (code_data x) cp (cd_host s))"
  shows "\<exists>s'. seg_attach w (Suc (Suc n)) c (Some p) False s = Some (True, s')
    \<and> (\<forall>d \<in> set (dependencies x). \<forall>i \<in> set (import_info d). word_at (cp + unat (import_offset i)) (cd_host s')
         = the (seg_lookup w (Some p) (ucast (import_ord i)) (cd_segs s (dep_seg d))) + ucast (import_adj i))
    \<and> (\<forall>i \<in> set (relocation_list x). word_at (relocation_place cp dp i) (cd_host s') = word_at (relocation_place cp dp i) img
         + relocation_delta (text_size x) (chunk_base w k (Some p) - code_base x) (chunk_base w (Suc k) (Some p) - data_base x) i)
    \<and> (\<forall>ord. lookup_no_relocate ord x \<noteq> 0 \<longrightarrow>
         seg_lookup w (Some p) ord (cd_segs s' c) = Some (chunk_base w k (Some p) + lookup_no_relocate ord x - code_base x))"
proof -
  let ?cr = "chunk_base w k (Some p)" and ?dr = "chunk_base w (Suc k) (Some p)"
  define s1 where "s1 = upd_seg c (\<lambda>x. x\<lparr>cs_state := Cs_attaching\<rparr>) s"
  obtain s2 where s2: "place_code w c (Some p) s1 = Some (?cr, cp, Some k, s2)" "cd_segs s2 = cd_segs s1" "length (cd_chunks s2) = Suc k"
    "cd_host s2 = store_bytes (code_data x) cp (cd_host s)"
    using assms(1,4,6,9,10) by (simp add: place_code_def s1_def create_seg_chunk_def host_write_def Let_def)
  obtain s3 where s3: "place_data w c (Some p) s2 = Some (?dr, dp, Some (Suc k), s3)" "cd_segs s3 = cd_segs s1" "cd_host s3 = img"
    using assms(1,5,7,8,11,17) s2(2-4) by (simp add: place_data_def s1_def create_seg_chunk_def host_write_def Let_def)
  define s4 where "s4 = upd_seg c (\<lambda>x. x\<lparr>cs_attaches := cs_attaches x @ [\<lparr>attached_process = Some p, data_chunk = Some (Suc k), code_chunk = Some k\<rparr>]\<rparr>) s3"
  have seg: "cd_segs s4 c = x\<lparr>cs_state := Cs_attaching, cs_attaches := cs_attaches x @ [\<lparr>attached_process = Some p, data_chunk = Some (Suc k), code_chunk = Some k\<rparr>]\<rparr>"
    "d \<noteq> c \<Longrightarrow> cd_segs s4 d = cd_segs s d" for d
    by (simp_all add: s4_def s3(2) s1_def assms(1))
  let ?imp = "\<lambda>s. concat (map (\<lambda>d. map (import_patch w (Some p) cp (cd_segs s (dep_seg d))) (import_info d)) (dependencies x))"
  let ?rel = "map (relocation_patch (text_size x) (?cr - code_base x) (?dr - data_base x) cp dp) (relocation_list x)"
  have imp: "?imp s4 = ?imp s" using assms(14) seg(2) by (intro arg_cong [where f = concat] map_cong) auto
  have host: "cd_host s4 = img" by (simp add: s4_def s3(3))
  have "\<forall>d \<in> set (dependencies x). find_attach (Some p) (cd_segs s4 (dep_seg d)) \<noteq> None
      \<and> (\<forall>i \<in> set (import_info d). seg_lookup w (Some p) (ucast (import_ord i)) (cd_segs s4 (dep_seg d)) \<noteq> None)"
    using assms(14) seg(2) by metis
  from attach_deps_fold [OF assms(12) this, of n]
  have deps: "attach_deps w (Suc n) True (Some p) cp (dependencies x) s4 = Some (s4\<lparr>cd_host := fold apply_patch (?imp s) img\<rparr>)"
    unfolding imp host .
  have seg3: "cd_segs s3 c = x\<lparr>cs_state := Cs_attaching\<rparr>" by (simp add: s3(2) s1_def assms(1))
  define h where "h = fold apply_patch (?imp s @ ?rel) img"
  have rel: "relocate_all (text_size x) (?cr - code_base x) (?dr - data_base x) cp dp (relocation_list x) (s4\<lparr>cd_host := fold apply_patch (?imp s) img\<rparr>)
      = Some (s4\<lparr>cd_host := h\<rparr>)"
    using relocate_all_fold [OF assms(12,13)] assms(15) by (simp add: h_def)
  have att: "seg_attach w (Suc (Suc n)) c (Some p) False s
      = Some (True, (upd_seg c (\<lambda>x. x\<lparr>cs_state := Cs_attached\<rparr>) (s4\<lparr>cd_host := h\<rparr>))\<lparr>cd_loaded := cd_loaded s4 @ [(c, Some p)]\<rparr>)"
    using assms(1-4) s2(1) s3(1) deps rel seg(1) seg3
    by (simp add: Let_def s1_def [symmetric] s4_def [symmetric] del: attach_deps.simps)
  have ap: "sorted_wrt (\<lambda>a b. words_apart (fst a) (fst b)) (?imp s @ ?rel)"
  proof -
    have "map fst (?imp s @ ?rel) = concat (map (\<lambda>d. map (\<lambda>i. cp + unat (import_offset i)) (import_info d)) (dependencies x))
      @ map (relocation_place cp dp) (relocation_list x)"
      by (simp add: map_concat import_patch_def relocation_patch_def comp_def)
    with assms(16) have "sorted_wrt words_apart (map fst (?imp s @ ?rel))" by (simp only:)
    then show ?thesis unfolding sorted_wrt_map .
  qed
  have im: "word_at (cp + unat (import_offset i)) h = the (seg_lookup w (Some p) (ucast (import_ord i)) (cd_segs s (dep_seg d))) + ucast (import_adj i)"
    if "d \<in> set (dependencies x)" "i \<in> set (import_info d)" for d i
  proof -
    have "import_patch w (Some p) cp (cd_segs s (dep_seg d)) i \<in> set (?imp s @ ?rel)" using that by auto
    then show ?thesis using patches_apply [OF ap] by (simp add: h_def import_patch_def)
  qed
  have rl: "word_at (relocation_place cp dp i) h = word_at (relocation_place cp dp i) img
      + relocation_delta (text_size x) (?cr - code_base x) (?dr - data_base x) i" if "i \<in> set (relocation_list x)" for i
  proof -
    have "relocation_patch (text_size x) (?cr - code_base x) (?dr - data_base x) cp dp i \<in> set (?imp s @ ?rel)" using that by auto
    then show ?thesis using patches_apply [OF ap] by (simp add: h_def relocation_patch_def)
  qed
  have fa: "find_attach (Some p) (cd_segs s4 c) = Some \<lparr>attached_process = Some p, data_chunk = Some (Suc k), code_chunk = Some k\<rparr>"
    using assms(3) by (simp add: seg(1) find_attach_def find_snoc)
  let ?s' = "(upd_seg c (\<lambda>x. x\<lparr>cs_state := Cs_attached\<rparr>) (s4\<lparr>cd_host := h\<rparr>))\<lparr>cd_loaded := cd_loaded s4 @ [(c, Some p)]\<rparr>"
  have ex: "seg_lookup w (Some p) ord (cd_segs ?s' c) = Some (?cr + lookup_no_relocate ord x - code_base x)"
    if "lookup_no_relocate ord x \<noteq> 0" for ord
  proof -
    have "find_attach (Some p) (cd_segs ?s' c) = find_attach (Some p) (cd_segs s4 c)" by (simp add: find_attach_def)
    moreover have "lookup_no_relocate ord (cd_segs ?s' c) = lookup_no_relocate ord x" "code_addr (cd_segs ?s' c) = 0"
      "code_base (cd_segs ?s' c) = code_base x" by (simp_all add: seg(1) lookup_no_relocate_def assms(4))
    ultimately show ?thesis using that fa by (simp add: seg_lookup_def code_run_base_def Let_def)
  qed
  have hs: "cd_host ?s' = h" by simp
  show ?thesis using att im rl ex hs by (intro exI [of _ ?s']) simp
qed

section \<open>Concrete executions\<close>

text \<open>Segment 0 is a library in the ROM; the segments 1 and 2 are to be loaded, 2 needs both others, 1 needs 0.\<close>

definition demo_machine :: machine where
  "demo_machine = \<lparr>page_size = 0x1000, chunk_base = \<lambda>k _. 0x70000000 + of_nat k * 0x10000, chunk_host = \<lambda>k. (k + 1) * 0x100000,
     real_pointer = unat, rom_bss = \<lambda>_. None\<rparr>"

definition demo_rom :: codeseg where
  "demo_rom = \<lparr>code_addr = 0x80000000, data_addr = 0, code_base = 0x80000000, data_base = 0, code_size = 0x1000, text_size = 0x1000,
     data_size = 0, bss_size = 0, ep = 0x80000010, exception_descriptor = 0, export_table = [0x80000100, 0x80000200], dependencies = [],
     constant_data = [], code_data = [], cs_mark = False, cs_attaches = [\<lparr>attached_process = Some 7, data_chunk = None, code_chunk = None\<rparr>],
     premade_eps = [], relocation_list = [], cs_state = Cs_attached\<rparr>"

definition demo_exe :: "dependency_info list \<Rightarrow> codeseg" where
  "demo_exe deps = \<lparr>code_addr = 0, data_addr = 0, code_base = 0x8000, data_base = 0x400000, code_size = 16, text_size = 16,
     data_size = 4, bss_size = 4, ep = 4, exception_descriptor = 0, export_table = [0x800C], dependencies = deps,
     constant_data = [1, 2, 3, 4], code_data = [0, 0, 0, 0, 0, 0, 0, 0, 0x08, 0x80, 0, 0, 0, 0, 0, 0], cs_mark = False, cs_attaches = [],
     premade_eps = [], relocation_list = [relocation_of 0 0 0x1008], cs_state = Cs_none\<rparr>"

definition demo_code :: code_state where
  "demo_code = \<lparr>cd_segs = (\<lambda>_. demo_rom)(1 := demo_exe [\<lparr>dep_seg = 0, import_info = [make_import_info 4 2 8]\<rparr>],
       2 := demo_exe [\<lparr>dep_seg = 1, import_info = []\<rparr>, \<lparr>dep_seg = 0, import_info = []\<rparr>]),
     cd_chunks = [], cd_host = (\<lambda>_. 0), cd_loaded = [], cd_destroyed = []\<rparr>"

lemma store_bytes_at: "store_bytes bs p h q = (if p \<le> q \<and> q < p + length bs then bs ! (q - p) else h q)"
  by (induction bs arbitrary: p h) (auto simp: nth_Cons' Suc_diff_le)

lemma word_at_bytes:
  "word_at p h = ucast (or (ucast (h p)) (push_bit 8 (or (ucast (h (Suc p))) (push_bit 8 (or (ucast (h (Suc (Suc p))))
    (push_bit 8 (or (ucast (h (Suc (Suc (Suc p))))) (push_bit 8 0))))))) :: u64)"
proof -
  have four: "4 = Suc (Suc (Suc (Suc 0)))" by simp
  show ?thesis unfolding word_at_def four load_le.simps ..
qed

lemma demo_aligned: "align (16 :: u32) 0x1000 1 = Some 0x1000" "align (8 :: u32) 0x1000 1 = Some 0x1000"
  by code_simp+

lemma demo_packed: "import_ord (make_import_info 4 2 8) = 2" "import_adj (make_import_info 4 2 8) = 8" "import_offset (make_import_info 4 2 8) = 4"
  "relocation_place cp dp (relocation_of 0 0 0x1008) = cp + 8" "relocation_delta 16 cd dd (relocation_of 0 0 0x1008) = cd"
  "known_relocation (relocation_of 0 0 0x1008)"
  by code_simp+

theorem call_list_dependencies_first_witness:
  "\<exists>s'. queries_call_list demo_machine 5 (Some 7) 2 ([], demo_code) = Some ([0x80000010, 0, 0], s') \<and> seg_unmark 5 2 s' = Some demo_code"
proof -
  have deps: "deps_of demo_code 0 = []" "deps_of demo_code 1 = [0]" "deps_of demo_code 2 = [1, 0]"
    "x \<noteq> 1 \<Longrightarrow> x \<noteq> 2 \<Longrightarrow> deps_of demo_code x = []" for x
    by (simp_all add: deps_of_def demo_code_def demo_rom_def demo_exe_def)
  let ?e = "\<lambda>x :: csid. if x = 1 \<or> x = 2 then 0 else 0x80000010 :: u32"
  have "\<exists>ord s'. queries_call_list demo_machine 5 (Some 7) 2 ([], demo_code) = Some ([] @ premade_eps (cd_segs demo_code 2) @ map ?e ord @ [?e 2], s')
    \<and> seg_unmark 5 2 s' = Some demo_code
    \<and> distinct (ord @ [2]) \<and> set ord = {d. (2, d) \<in> {(x, y). y \<in> set (deps_of demo_code x)}\<^sup>+}
    \<and> (\<forall>i < length ord. set (deps_of demo_code (ord ! i)) \<subseteq> set (take i ord))"
  proof (rule call_list_dependencies_first [where r = "\<lambda>x. if x = 2 then 2 else if x = 1 then 1 else 0"])
    show "\<forall>x y. y \<in> set (deps_of demo_code x) \<longrightarrow> (if y = 2 then 2 else if y = 1 then 1 else 0) < (if x = 2 then 2 else if x = 1 then 1 else 0 :: nat)"
    proof (intro allI impI)
      fix x y
      assume "y \<in> set (deps_of demo_code x)"
      then show "(if y = 2 then 2 else if y = 1 then 1 else 0) < (if x = 2 then 2 else if x = 1 then 1 else 0 :: nat)"
        using deps by (cases "x = 1"; cases "x = 2") auto
    qed
  qed (auto simp: demo_code_def demo_rom_def demo_exe_def get_entry_point_def find_attach_def)
  then obtain ord s' where o': "queries_call_list demo_machine 5 (Some 7) 2 ([], demo_code) = Some ([] @ premade_eps (cd_segs demo_code 2) @ map ?e ord @ [?e 2], s')"
    "seg_unmark 5 2 s' = Some demo_code" "distinct (ord @ [2])" "set ord = {d. (2, d) \<in> {(x, y). y \<in> set (deps_of demo_code x)}\<^sup>+}"
    "\<forall>i < length ord. set (deps_of demo_code (ord ! i)) \<subseteq> set (take i ord)" by blast
  have "set ord = {0, 1}"
  proof -
    have "d \<in> {0, 1}" if "(2, d) \<in> {(x, y). y \<in> set (deps_of demo_code x)}\<^sup>+" for d
      using that by (induction rule: trancl_induct) (auto simp: deps simp del: One_nat_def)
    moreover have "(2, 0) \<in> {(x, y). y \<in> set (deps_of demo_code x)}\<^sup>+" "(2, 1) \<in> {(x, y). y \<in> set (deps_of demo_code x)}\<^sup>+" using deps by auto
    ultimately show ?thesis using o'(4) by blast
  qed
  moreover from this have "length ord = 2" using distinct_card [of ord] o'(3) by simp
  then obtain a b where "ord = [a, b]" by (auto simp: numeral_2_eq_2 length_Suc_conv)
  ultimately have "ord = [0, 1] \<or> ord = [1, 0]" by (auto simp: doubleton_eq_iff)
  then have "ord = [0, 1]" using o'(5) deps by (auto dest: spec [of _ 0])
  then show ?thesis using o'(1,2) by (auto simp: demo_code_def demo_exe_def)
qed

theorem attach_links_segment_witness:
  "\<exists>s'. seg_attach demo_machine 2 1 (Some 7) False demo_code = Some (True, s') \<and> word_at 0x100004 (cd_host s') = 0x80000208
    \<and> word_at 0x100008 (cd_host s') = 0x70000008"
proof -
  let ?x = "cd_segs demo_code 1"
  let ?img = "store_bytes (take (unat (data_size ?x)) (constant_data ?x) @ replicate (unat (bss_size ?x)) 0) 0x200000
      (store_bytes (code_data ?x) 0x100000 (cd_host demo_code))"
  have "\<exists>s'. seg_attach demo_machine (Suc (Suc 0)) 1 (Some 7) False demo_code = Some (True, s')
    \<and> (\<forall>d \<in> set (dependencies ?x). \<forall>i \<in> set (import_info d). word_at (0x100000 + unat (import_offset i)) (cd_host s')
         = the (seg_lookup demo_machine (Some 7) (ucast (import_ord i)) (cd_segs demo_code (dep_seg d))) + ucast (import_adj i))
    \<and> (\<forall>i \<in> set (relocation_list ?x). word_at (relocation_place 0x100000 0x200000 i) (cd_host s') = word_at (relocation_place 0x100000 0x200000 i) ?img
         + relocation_delta (text_size ?x) (chunk_base demo_machine 0 (Some 7) - code_base ?x) (chunk_base demo_machine (Suc 0) (Some 7) - data_base ?x) i)
    \<and> (\<forall>ord. lookup_no_relocate ord ?x \<noteq> 0 \<longrightarrow>
         seg_lookup demo_machine (Some 7) ord (cd_segs s' 1) = Some (chunk_base demo_machine 0 (Some 7) + lookup_no_relocate ord ?x - code_base ?x))"
    by (rule attach_links_segment [OF refl, where csz = "0x1000" and dsz = "0x1000"])
      (auto simp: demo_code_def demo_exe_def demo_rom_def demo_machine_def demo_aligned demo_packed find_attach_def seg_lookup_def lookup_no_relocate_def words_apart_def)
  then obtain s' where s': "seg_attach demo_machine 2 1 (Some 7) False demo_code = Some (True, s')"
    "\<forall>d \<in> set (dependencies ?x). \<forall>i \<in> set (import_info d). word_at (0x100000 + unat (import_offset i)) (cd_host s')
         = the (seg_lookup demo_machine (Some 7) (ucast (import_ord i)) (cd_segs demo_code (dep_seg d))) + ucast (import_adj i)"
    "\<forall>i \<in> set (relocation_list ?x). word_at (relocation_place 0x100000 0x200000 i) (cd_host s') = word_at (relocation_place 0x100000 0x200000 i) ?img
         + relocation_delta (text_size ?x) (chunk_base demo_machine 0 (Some 7) - code_base ?x) (chunk_base demo_machine (Suc 0) (Some 7) - data_base ?x) i"
    by (auto simp: numeral_2_eq_2)
  have "word_at 0x100004 (cd_host s') = 0x80000208"
    using s'(2) by (simp add: demo_code_def demo_exe_def demo_rom_def demo_packed seg_lookup_def lookup_no_relocate_def)
  moreover have "word_at 0x100008 ?img = 0x8008"
    by (simp add: word_at_bytes store_bytes_at demo_code_def demo_exe_def nth_append)
  then have "word_at 0x100008 (cd_host s') = 0x70000008"
    using s'(3) by (simp add: demo_code_def demo_exe_def demo_machine_def demo_packed)
  ultimately show ?thesis using s'(1) by blast
qed

end
