(* ===== verification/Security.thy ===== *)
theory Security imports Prelude begin

text \<open>
  Platform security: the bit array \<open>ba_t\<close> of \<open>common/bitfield.h\<close>, security policies and the identity of a program
  (\<open>utils/sec.h\<close>, \<open>utils/sec.cpp\<close>), and the checks of a process (\<open>kernel/process.cpp\<close>).

  A bit array is the list of its 8 bytes. The last four bytes of a policy are a union: the capabilities four to seven, or
  an id.
\<close>

section \<open>Bit arrays\<close>

type_synonym bit_array = "u8 list"

definition ba_clear :: bit_array where
  "ba_clear = replicate 8 0"

definition ba_set :: "nat \<Rightarrow> bit_array \<Rightarrow> bit_array" where
  "ba_set idx bs = (if idx \<ge> 64 then bs else bs[idx div 8 := or (bs ! (idx div 8)) (push_bit (idx mod 8) 1)])"

definition ba_unset :: "nat \<Rightarrow> bit_array \<Rightarrow> bit_array" where
  "ba_unset idx bs = (if idx \<ge> 64 then bs else bs[idx div 8 := and (bs ! (idx div 8)) (not (push_bit (idx mod 8) 1))])"

definition ba_unset_all :: "bit_array \<Rightarrow> bit_array \<Rightarrow> bit_array" where
  "ba_unset_all aba bs = map2 (\<lambda>b a. and b (not a)) bs aba"

definition ba_not_empty :: "bit_array \<Rightarrow> bool" where
  "ba_not_empty bs \<longleftrightarrow> foldl (\<lambda>r b. or r (ucast b)) 0 bs \<noteq> (0 :: u32)"

text \<open>Reading a bit does not look at the size.\<close>

definition ba_get :: "nat \<Rightarrow> bit_array \<Rightarrow> bool undef" where
  "ba_get idx bs = (if idx div 8 < length bs then Some (bit (bs ! (idx div 8)) (idx mod 8)) else None)"

section \<open>Identities and policies\<close>

record security_info =
  secure_id :: u32
  vendor_id :: u32
  sec_caps :: bit_array

definition no_security_info :: security_info where
  "no_security_info = \<lparr>secure_id = 0, vendor_id = 0, sec_caps = ba_clear\<rparr>"

definition new_security_info :: "nat list \<Rightarrow> security_info" where
  "new_security_info cs = no_security_info\<lparr>sec_caps := fold ba_set cs ba_clear\<rparr>"

definition info_has :: "bit_array \<Rightarrow> security_info \<Rightarrow> bool" where
  "info_has st i \<longleftrightarrow> foldr (\<lambda>(s, c) r. or r (ucast (and s (not c)))) (zip st (sec_caps i)) 0 = (0 :: u32)"

datatype sec_type = Always_fail | Always_pass | C3 | C7 | S3 | V3 | Sec_other

definition sec_type_of :: "u8 \<Rightarrow> sec_type" where
  "sec_type_of t = (if t = 0 then Always_fail else if t = 1 then Always_pass else if t = 2 then C3 else if t = 3 then C7
     else if t = 4 then S3 else if t = 5 then V3 else Sec_other)"

record security_policy =
  pol_type :: u8
  pol_caps :: "u8 list"
  pol_extra :: "u8 list"

definition sec_id :: "security_policy \<Rightarrow> u32" where
  "sec_id p = or (ucast (pol_extra p ! 0)) (or (push_bit 8 (ucast (pol_extra p ! 1)))
     (or (push_bit 16 (ucast (pol_extra p ! 2))) (push_bit 24 (ucast (pol_extra p ! 3)))))"

text \<open>Capabilities are bytes here: \<open>cap_none\<close> is 255, \<open>cap_denied\<close> 254.\<close>

definition cap_none :: u8 where "cap_none = 255"

definition cap_denied :: u8 where "cap_denied = 254"

definition new_security_policy :: "u8 list \<Rightarrow> security_policy undef" where
  "new_security_policy cs = (if 0 < length cs \<and> length cs < 8
     then Some \<lparr>pol_type = (if length cs \<le> 3 then 2 else 3), pol_caps = take 3 (take 3 cs @ replicate 3 cap_none),
       pol_extra = (if length cs \<le> 3 then replicate 4 cap_none else take 4 (drop 3 cs @ replicate 4 cap_none))\<rparr>
     else None)"

text \<open>\<open>security_policy::check\<close>: the result and what is missing.\<close>

definition policy_check :: "security_policy \<Rightarrow> security_info \<Rightarrow> bool \<times> security_info" where
  "policy_check p against = (
     let set_caps = (\<lambda>cs m. m\<lparr>sec_caps := fold (\<lambda>c. ba_set (unat c)) cs (sec_caps m)\<rparr>);
         drop_caps = (\<lambda>m. m\<lparr>sec_caps := ba_unset_all (sec_caps against) (sec_caps m)\<rparr>);
         m = drop_caps (set_caps (pol_caps p) no_security_info)
     in case sec_type_of (pol_type p) of
          Always_pass \<Rightarrow> (True, m)
        | Always_fail \<Rightarrow> (False, m)
        | C7 \<Rightarrow> (let m = drop_caps (set_caps (pol_extra p) m) in (\<not> ba_not_empty (sec_caps m), m))
        | C3 \<Rightarrow> (\<not> ba_not_empty (sec_caps m), m)
        | S3 \<Rightarrow> if \<not> ba_not_empty (sec_caps m) \<and> sec_id p = secure_id against then (True, m)
                else (False, if sec_id p \<noteq> secure_id against then m\<lparr>secure_id := sec_id p\<rparr> else m)
        | V3 \<Rightarrow> if \<not> ba_not_empty (sec_caps m) \<and> sec_id p = vendor_id against then (True, m)
                else (False, if sec_id p \<noteq> vendor_id against then m\<lparr>vendor_id := sec_id p\<rparr> else m)
        | Sec_other \<Rightarrow> (False, m))"

text \<open>The first phones have no platform security.\<close>

definition satisfy :: "bool \<Rightarrow> security_policy \<Rightarrow> security_info \<Rightarrow> bool \<times> security_info option" where
  "satisfy is_eka1 p i = (if is_eka1 then (True, None) else map_prod id Some (policy_check p i))"

definition process_has :: "bool \<Rightarrow> bit_array \<Rightarrow> security_info \<Rightarrow> bool" where
  "process_has is_eka1 st i \<longleftrightarrow> is_eka1 \<or> info_has st i"

section \<open>Bit arrays are sets\<close>

definition ba_elems :: "bit_array \<Rightarrow> nat set" where
  "ba_elems bs = {i. i < 64 \<and> bit (bs ! (i div 8)) (i mod 8)}"

lemma ba_elems_iff: "length bs = 8 \<Longrightarrow> ba_get i bs = Some b \<Longrightarrow> b \<longleftrightarrow> i \<in> ba_elems bs"
  by (auto simp: ba_get_def ba_elems_def split: if_splits)

lemma length_ba_set [simp]: "length (ba_set i bs) = length bs"
  by (simp add: ba_set_def)

lemma length_ba_set_all [simp]: "length (fold (\<lambda>c. ba_set (f c)) cs bs) = length bs"
  by (induction cs arbitrary: bs) simp_all

lemma ba_elems_clear [simp]: "ba_elems ba_clear = {}" "length ba_clear = 8"
  by (auto simp: ba_elems_def ba_clear_def)

lemma ba_elems_set: "length bs = 8 \<Longrightarrow> ba_elems (ba_set i bs) = ba_elems bs \<union> ({i} \<inter> {..<64})"
proof -
  assume l: "length bs = 8"
  have "j \<in> ba_elems (ba_set i bs) \<longleftrightarrow> j \<in> ba_elems bs \<or> j = i" if "i < 64" for j
  proof (cases "j div 8 = i div 8")
    case True
    have "j mod 8 = i mod 8 \<longleftrightarrow> j = i" using True by (metis div_mult_mod_eq)
    then show ?thesis using that True l
      by (auto simp: ba_elems_def ba_set_def bit_simps)
  next
    case False
    then show ?thesis using that by (auto simp: ba_elems_def ba_set_def)
  qed
  then show ?thesis by (cases "i < 64") (auto simp: ba_set_def)
qed

lemma ba_elems_set_all: "length bs = 8 \<Longrightarrow> ba_elems (fold (\<lambda>c. ba_set (f c)) cs bs) = ba_elems bs \<union> (f ` set cs \<inter> {..<64})"
  by (induction cs arbitrary: bs) (auto simp: ba_elems_set)

lemma ba_elems_unset_all:
  "length bs = 8 \<Longrightarrow> length as = 8 \<Longrightarrow> ba_elems (ba_unset_all as bs) = ba_elems bs - ba_elems as \<and> length (ba_unset_all as bs) = 8"
  by (auto simp: ba_elems_def ba_unset_all_def bit_simps)

lemma ucast_u8_zero: "(ucast (b :: u8) :: u32) = 0 \<longleftrightarrow> b = 0"
proof
  assume "(ucast b :: u32) = 0"
  then have "(ucast (ucast b :: u32) :: u8) = 0" by simp
  moreover have "(ucast (ucast b :: u32) :: u8) = b" by (rule bit_word_eqI) (simp add: bit_simps)
  ultimately show "b = 0" by simp
qed simp

lemma foldl_or_zero: "foldl (\<lambda>r b. or r (ucast (b :: u8))) x bs = (0 :: u32) \<longleftrightarrow> x = 0 \<and> (\<forall>b \<in> set bs. b = 0)"
proof (induction bs arbitrary: x)
  case (Cons b bs)
  have "or x (ucast b) = 0 \<longleftrightarrow> x = 0 \<and> b = 0" by (auto simp: or_eq_0_iff ucast_u8_zero)
  then show ?case using Cons.IH by auto
qed simp

lemma ba_not_empty_iff: "length bs = 8 \<Longrightarrow> ba_not_empty bs \<longleftrightarrow> ba_elems bs \<noteq> {}"
proof -
  assume l: "length bs = 8"
  have "(\<exists>b \<in> set bs. b \<noteq> 0) \<longleftrightarrow> (\<exists>i. i < 64 \<and> bit (bs ! (i div 8)) (i mod 8))"
  proof
    assume "\<exists>b \<in> set bs. b \<noteq> 0"
    then obtain j where j: "j < 8" "bs ! j \<noteq> 0" using l by (auto simp: in_set_conv_nth)
    then obtain k where k: "bit (bs ! j) k" using bit_eq_iff [of "bs ! j" 0] by auto
    then have "k < 8" using bit_imp_le_length by fastforce
    then have "(8 * j + k) div 8 = j" "(8 * j + k) mod 8 = k" "8 * j + k < 64" using j by simp_all
    with k show "\<exists>i. i < 64 \<and> bit (bs ! (i div 8)) (i mod 8)" by metis
  next
    assume "\<exists>i. i < 64 \<and> bit (bs ! (i div 8)) (i mod 8)"
    then obtain i where i: "i < 64" "bit (bs ! (i div 8)) (i mod 8)" by blast
    then have "i div 8 < length bs" "bs ! (i div 8) \<noteq> 0" using l by (auto simp: div_less_iff_less_mult)
    then show "\<exists>b \<in> set bs. b \<noteq> 0" by (meson nth_mem)
  qed
  then show ?thesis by (auto simp: ba_not_empty_def foldl_or_zero ba_elems_def)
qed

section \<open>What a policy demands\<close>

definition demanded :: "security_policy \<Rightarrow> nat set" where
  "demanded p = (unat ` set (pol_caps p) \<union> (if sec_type_of (pol_type p) = C7 then unat ` set (pol_extra p) else {})) \<inter> {..<64}"

definition id_demanded :: "security_policy \<Rightarrow> security_info \<Rightarrow> bool" where
  "id_demanded p i \<longleftrightarrow> (case sec_type_of (pol_type p) of
     Always_pass \<Rightarrow> True | C3 \<Rightarrow> True | C7 \<Rightarrow> True
   | S3 \<Rightarrow> sec_id p = secure_id i | V3 \<Rightarrow> sec_id p = vendor_id i
   | _ \<Rightarrow> False)"

text \<open>C32. A program passes a policy exactly if it has every capability below 64 that the policy names, and the id the policy
  asks for, save that a policy of the always-pass type is passed by every program and one of the always-fail or an unknown type by none;
  whatever the type, the capabilities reported as missing are those it does not have. Larger capability numbers, that of the
  denied capability among them, are ignored.\<close>

theorem policy_check_exact:
  assumes "length (sec_caps i) = 8"
  shows "(fst (policy_check p i) \<longleftrightarrow> id_demanded p i \<and> (sec_type_of (pol_type p) = Always_pass \<or> demanded p \<subseteq> ba_elems (sec_caps i)))
    \<and> ba_elems (sec_caps (snd (policy_check p i))) = demanded p - ba_elems (sec_caps i)"
proof -
  define g where "g = ba_elems (sec_caps i)"
  define m where "m = ba_unset_all (sec_caps i) (fold (\<lambda>c. ba_set (unat c)) (pol_caps p) ba_clear)"
  define m7 where "m7 = ba_unset_all (sec_caps i) (fold (\<lambda>c. ba_set (unat c)) (pol_extra p) m)"
  have m: "length m = 8" "ba_elems m = unat ` set (pol_caps p) \<inter> {..<64} - g"
    using assms by (simp_all add: m_def g_def ba_elems_unset_all ba_elems_set_all)
  then have m7: "length m7 = 8" "ba_elems m7 = (unat ` set (pol_caps p) \<union> unat ` set (pol_extra p)) \<inter> {..<64} - g"
    using assms by (auto simp: m7_def g_def ba_elems_unset_all ba_elems_set_all)
  show ?thesis
    by (cases "sec_type_of (pol_type p)")
      (auto simp: policy_check_def Let_def no_security_info_def m_def [symmetric] m7_def [symmetric] g_def [symmetric]
        ba_not_empty_iff m m7 demanded_def id_demanded_def)
qed

theorem policy_check_exact_witness:
  "fst (policy_check \<lparr>pol_type = 2, pol_caps = [1, 254, 255], pol_extra = [0, 0, 0, 0]\<rparr> (new_security_info [1, 5]))"
proof -
  let ?p = "\<lparr>pol_type = 2, pol_caps = [1, 254, 255], pol_extra = [0, 0, 0, 0]\<rparr>"
  have "length (sec_caps (new_security_info [1, 5])) = 8" by (simp add: new_security_info_def no_security_info_def)
  from policy_check_exact [OF this, of ?p] show ?thesis
    by (auto simp: demanded_def id_demanded_def sec_type_of_def new_security_info_def no_security_info_def ba_elems_set)
qed

text \<open>A policy made of a list of capabilities demands these.\<close>

lemma new_policy_demands:
  assumes "new_security_policy cs = Some p"
  shows "length (pol_caps p) = 3 \<and> length (pol_extra p) = 4 \<and> demanded p = unat ` set cs \<inter> {..<64}"
proof (cases "length cs \<le> 3")
  case True
  then have p: "p = \<lparr>pol_type = 2, pol_caps = take 3 (cs @ replicate 3 cap_none), pol_extra = replicate 4 cap_none\<rparr>"
    using assms by (auto simp: new_security_policy_def split: if_splits)
  have "unat ` set (take 3 (cs @ replicate 3 cap_none)) \<inter> {..<64} = unat ` set cs \<inter> {..<64}"
    using True by (auto simp: cap_none_def dest: in_set_takeD)
  then show ?thesis by (simp add: p demanded_def sec_type_of_def)
next
  case False
  then have p: "p = \<lparr>pol_type = 3, pol_caps = take 3 cs, pol_extra = take 4 (drop 3 cs @ replicate 4 cap_none)\<rparr>" "length cs < 8"
    using assms by (auto simp: new_security_policy_def split: if_splits)
  have cs: "set cs = set (take 3 cs) \<union> set (drop 3 cs)" by (metis append_take_drop_id set_append)
  have dr: "unat ` set (take 4 (drop 3 cs @ replicate 4 cap_none)) \<inter> {..<64} = unat ` set (drop 3 cs) \<inter> {..<64}"
    using False p(2) by (auto simp: cap_none_def dest: in_set_takeD)
  have "demanded p = (unat ` set (take 3 cs) \<inter> {..<64}) \<union> (unat ` set (drop 3 cs) \<inter> {..<64})"
    using dr by (simp only: p demanded_def sec_type_of_def) (simp add: Int_Un_distrib2)
  also have "\<dots> = unat ` set cs \<inter> {..<64}" by (simp only: cs image_Un Int_Un_distrib2)
  finally have "demanded p = unat ` set cs \<inter> {..<64}" .
  moreover have "length (pol_caps p) = 3" "length (pol_extra p) = 4" using False p(2) by (simp_all add: p(1))
  ultimately show ?thesis by blast
qed

end
