(* ===== verification/Crypt.thy ===== *)
theory Crypt imports Prelude begin

text \<open>
  Checksums and base 64 (\<open>common/crypt.cpp\<close>), and the checksum of the header of a resource archive (\<open>loader/spi.cpp\<close>).
\<close>

section \<open>The checksum\<close>

definition crc_tab :: "u16 list" where
  "crc_tab = [
    0x0000, 0x1021, 0x2042, 0x3063, 0x4084, 0x50a5, 0x60c6, 0x70e7, 0x8108, 0x9129, 0xa14a, 0xb16b, 0xc18c, 0xd1ad, 0xe1ce, 0xf1ef,
    0x1231, 0x0210, 0x3273, 0x2252, 0x52b5, 0x4294, 0x72f7, 0x62d6, 0x9339, 0x8318, 0xb37b, 0xa35a, 0xd3bd, 0xc39c, 0xf3ff, 0xe3de,
    0x2462, 0x3443, 0x0420, 0x1401, 0x64e6, 0x74c7, 0x44a4, 0x5485, 0xa56a, 0xb54b, 0x8528, 0x9509, 0xe5ee, 0xf5cf, 0xc5ac, 0xd58d,
    0x3653, 0x2672, 0x1611, 0x0630, 0x76d7, 0x66f6, 0x5695, 0x46b4, 0xb75b, 0xa77a, 0x9719, 0x8738, 0xf7df, 0xe7fe, 0xd79d, 0xc7bc,
    0x48c4, 0x58e5, 0x6886, 0x78a7, 0x0840, 0x1861, 0x2802, 0x3823, 0xc9cc, 0xd9ed, 0xe98e, 0xf9af, 0x8948, 0x9969, 0xa90a, 0xb92b,
    0x5af5, 0x4ad4, 0x7ab7, 0x6a96, 0x1a71, 0x0a50, 0x3a33, 0x2a12, 0xdbfd, 0xcbdc, 0xfbbf, 0xeb9e, 0x9b79, 0x8b58, 0xbb3b, 0xab1a,
    0x6ca6, 0x7c87, 0x4ce4, 0x5cc5, 0x2c22, 0x3c03, 0x0c60, 0x1c41, 0xedae, 0xfd8f, 0xcdec, 0xddcd, 0xad2a, 0xbd0b, 0x8d68, 0x9d49,
    0x7e97, 0x6eb6, 0x5ed5, 0x4ef4, 0x3e13, 0x2e32, 0x1e51, 0x0e70, 0xff9f, 0xefbe, 0xdfdd, 0xcffc, 0xbf1b, 0xaf3a, 0x9f59, 0x8f78,
    0x9188, 0x81a9, 0xb1ca, 0xa1eb, 0xd10c, 0xc12d, 0xf14e, 0xe16f, 0x1080, 0x00a1, 0x30c2, 0x20e3, 0x5004, 0x4025, 0x7046, 0x6067,
    0x83b9, 0x9398, 0xa3fb, 0xb3da, 0xc33d, 0xd31c, 0xe37f, 0xf35e, 0x02b1, 0x1290, 0x22f3, 0x32d2, 0x4235, 0x5214, 0x6277, 0x7256,
    0xb5ea, 0xa5cb, 0x95a8, 0x8589, 0xf56e, 0xe54f, 0xd52c, 0xc50d, 0x34e2, 0x24c3, 0x14a0, 0x0481, 0x7466, 0x6447, 0x5424, 0x4405,
    0xa7db, 0xb7fa, 0x8799, 0x97b8, 0xe75f, 0xf77e, 0xc71d, 0xd73c, 0x26d3, 0x36f2, 0x0691, 0x16b0, 0x6657, 0x7676, 0x4615, 0x5634,
    0xd94c, 0xc96d, 0xf90e, 0xe92f, 0x99c8, 0x89e9, 0xb98a, 0xa9ab, 0x5844, 0x4865, 0x7806, 0x6827, 0x18c0, 0x08e1, 0x3882, 0x28a3,
    0xcb7d, 0xdb5c, 0xeb3f, 0xfb1e, 0x8bf9, 0x9bd8, 0xabbb, 0xbb9a, 0x4a75, 0x5a54, 0x6a37, 0x7a16, 0x0af1, 0x1ad0, 0x2ab3, 0x3a92,
    0xfd2e, 0xed0f, 0xdd6c, 0xcd4d, 0xbdaa, 0xad8b, 0x9de8, 0x8dc9, 0x7c26, 0x6c07, 0x5c64, 0x4c45, 0x3ca2, 0x2c83, 0x1ce0, 0x0cc1,
    0xef1f, 0xff3e, 0xcf5d, 0xdf7c, 0xaf9b, 0xbfba, 0x8fd9, 0x9ff8, 0x6e17, 0x7e36, 0x4e55, 0x5e74, 0x2e93, 0x3eb2, 0x0ed1, 0x1ef0]"

fun crc16 :: "u16 \<Rightarrow> u8 list \<Rightarrow> u16" where
  "crc16 crc [] = crc"
| "crc16 crc (b # bs) = crc16 (xor (push_bit 8 crc) (crc_tab ! unat (and (xor (drop_bit 8 crc) (ucast b)) 0xFF))) bs"

text \<open>The reference: the remainder modulo the polynomial \<open>x^16 + x^12 + x^5 + 1\<close>, bit by bit.\<close>

definition crc_shift :: "u16 \<Rightarrow> u16" where
  "crc_shift c = (if bit c 15 then xor (push_bit 1 c) 0x1021 else push_bit 1 c)"

fun crc_bitwise :: "u16 \<Rightarrow> u8 list \<Rightarrow> u16" where
  "crc_bitwise crc [] = crc"
| "crc_bitwise crc (b # bs) = crc_bitwise ((crc_shift ^^ 8) (xor crc (push_bit 8 (ucast b)))) bs"

text \<open>Each entry determines the two of twice its index.\<close>

fun doubles :: "u16 list \<Rightarrow> u16 list \<Rightarrow> bool" where
  "doubles (x # xs) (y # z # ys) \<longleftrightarrow> y = crc_shift x \<and> z = xor y 0x1021 \<and> doubles xs ys"
| "doubles xs [] \<longleftrightarrow> True"
| "doubles xs ys \<longleftrightarrow> False"

lemma crc_tab_doubles: "doubles crc_tab crc_tab"
  unfolding crc_tab_def by (simp add: crc_shift_def)

lemma funpow_8: "(f ^^ 8) x = f (f (f (f (f (f (f (f x)))))))"
  by (simp add: eval_nat_numeral)

lemma doubles_nth:
  "doubles xs ys \<Longrightarrow> 2 * k < length ys \<Longrightarrow> ys ! (2 * k) = crc_shift (xs ! k) \<and> ys ! (Suc (2 * k)) = xor (crc_shift (xs ! k)) 0x1021"
proof (induction xs ys arbitrary: k rule: doubles.induct)
  case (1 x xs y z ys)
  then show ?case by (cases k) auto
qed simp_all

lemma crc_shift_xor: "crc_shift (xor x y) = xor (crc_shift x) (crc_shift y)"
  by (cases "bit x 15"; cases "bit y 15"; rule bit_word_eqI) (auto simp: crc_shift_def bit_simps)

lemma crc_shifts_xor: "(crc_shift ^^ n) (xor x y) = xor ((crc_shift ^^ n) x) ((crc_shift ^^ n) y)"
  by (induction n) (simp_all add: crc_shift_xor)

lemma crc_shifts_low: "\<forall>j. 16 - n \<le> j \<longrightarrow> \<not> bit x j \<Longrightarrow> (crc_shift ^^ n) x = push_bit n x"
proof (induction n)
  case (Suc n)
  then have "(crc_shift ^^ n) x = push_bit n x" by simp
  moreover have "\<not> bit (push_bit n x) 15" using Suc.prems by (auto simp: bit_simps)
  ultimately have "(crc_shift ^^ Suc n) x = push_bit 1 (push_bit n x)" by (simp add: crc_shift_def [of "push_bit n x"])
  then show ?case unfolding push_bit_push_bit by simp
qed simp

definition crc_entry :: "nat \<Rightarrow> u16" where
  "crc_entry i = (crc_shift ^^ 8) (push_bit 8 (of_nat i))"

lemma crc_entry_double:
  assumes "k < 128"
  shows "crc_entry (2 * k) = crc_shift (crc_entry k)" "crc_entry (Suc (2 * k)) = xor (crc_shift (crc_entry k)) 0x1021"
proof -
  let ?x = "push_bit 8 (of_nat k) :: u16"
  have "\<not> bit (of_nat k :: u16) j" if "7 \<le> j" for j
  proof -
    have "k < 2 ^ j" using assms power_increasing [OF that, of "2 :: nat"] by simp
    then have "k div 2 ^ j = 0" by simp
    then have "\<not> bit k j" unfolding bit_iff_odd by simp
    then show ?thesis by (simp add: bit_simps)
  qed
  then have "\<not> bit ?x 15" by (simp add: bit_simps)
  then have sh: "crc_shift ?x = push_bit 1 ?x" by (simp add: crc_shift_def)
  have x2: "push_bit 8 (of_nat (2 * k)) = push_bit 1 ?x" by (simp add: push_bit_eq_mult)
  show e: "crc_entry (2 * k) = crc_shift (crc_entry k)"
    unfolding crc_entry_def x2 sh [symmetric] by (rule funpow_swap1 [symmetric])
  have "push_bit 8 (of_nat (Suc (2 * k))) = xor (push_bit 8 (of_nat (2 * k))) (0x100 :: u16)"
  proof -
    have "of_nat (Suc (2 * k)) = xor (of_nat (2 * k)) (1 :: u16)"
    proof -
      have "even (of_nat (2 * k) :: u16)" by simp
      then have "xor (of_nat (2 * k)) (1 :: u16) = of_nat (2 * k) + 1" by (simp add: xor_one_eq)
      then show ?thesis by simp
    qed
    moreover have "push_bit 8 (1 :: u16) = 0x100" by simp
    ultimately show ?thesis by (simp only: push_bit_xor)
  qed
  moreover have "(crc_shift ^^ 8) 0x100 = 0x1021" by (simp add: funpow_8 crc_shift_def)
  ultimately have "crc_entry (Suc (2 * k)) = xor (crc_entry (2 * k)) 0x1021"
    unfolding crc_entry_def by (simp add: crc_shifts_xor)
  then show "crc_entry (Suc (2 * k)) = xor (crc_shift (crc_entry k)) 0x1021" using e by simp
qed

lemma crc_tab_entry: "i < 256 \<Longrightarrow> crc_tab ! i = crc_entry i"
proof (induction i rule: less_induct)
  case (less i)
  have len: "length crc_tab = 256" by (simp add: crc_tab_def)
  consider "i = 0" | k where "i = 2 * k" "k < i" | k where "i = Suc (2 * k)" "k < i" 
  proof (cases "i = 0")
    case False
    show thesis
    proof (cases "even i")
      case True
      then obtain k where "i = 2 * k" by blast
      then show thesis using that(2) False by auto
    next
      case False
      then obtain k where "i = Suc (2 * k)" by (auto elim: oddE)
      then show thesis using that(3) by auto
    qed
  qed (use that in blast)
  then show ?case
  proof cases
    case 1
    have "(crc_shift ^^ n) 0 = 0" for n by (induction n) (simp_all add: crc_shift_def)
    then show ?thesis using 1 by (simp add: crc_entry_def) (simp add: crc_tab_def)
  next
    case (2 k)
    then show ?thesis using doubles_nth [OF crc_tab_doubles, of k] less crc_entry_double(1) [of k] len by simp
  next
    case (3 k)
    then show ?thesis using doubles_nth [OF crc_tab_doubles, of k] less crc_entry_double(2) [of k] len by simp
  qed
qed

lemma crc_step:
  "xor (push_bit 8 crc) (crc_tab ! unat (and (xor (drop_bit 8 crc) (ucast b)) 0xFF)) = (crc_shift ^^ 8) (xor crc (push_bit 8 (ucast (b :: u8))))"
proof -
  let ?i = "and (xor (drop_bit 8 crc) (ucast b)) 0xFF :: u16"
  have i: "?i = take_bit 8 (xor (drop_bit 8 crc) (ucast b))" by (simp add: take_bit_eq_mask mask_eq_exp_minus_1)
  have "?i \<le> 0xFF" by (rule word_and_le1)
  then have "unat ?i < 256" by (simp add: word_le_nat_alt)
  then have tab: "crc_tab ! unat ?i = (crc_shift ^^ 8) (push_bit 8 ?i)" by (simp add: crc_tab_entry crc_entry_def)
  have low: "(crc_shift ^^ 8) (take_bit 8 crc) = push_bit 8 crc"
  proof -
    have "(crc_shift ^^ 8) (take_bit 8 crc) = push_bit 8 (take_bit 8 crc)" by (rule crc_shifts_low) (auto simp: bit_simps)
    also have "\<dots> = push_bit 8 crc" by (rule bit_word_eqI) (auto simp: bit_simps)
    finally show ?thesis .
  qed
  have "xor crc (push_bit 8 (ucast b)) = xor (take_bit 8 crc) (push_bit 8 ?i)"
    unfolding i by (rule bit_word_eqI) (auto simp: bit_simps)
  then show ?thesis by (simp add: crc_shifts_xor low tab)
qed

text \<open>C35. The checksum by table is the remainder of the division of polynomials, bit by bit.\<close>

theorem crc16_is_remainder: "crc16 crc bs = crc_bitwise crc bs"
  by (induction bs arbitrary: crc) (simp_all add: crc_step)

section \<open>Base 64\<close>

definition base64_ascii_map :: string where
  "base64_ascii_map = ''ABCDEFGHIJKLMNOPQRSTUVWXYZabcdefghijklmnopqrstuvwxyz0123456789+/''"

definition byte_at :: "u8 list \<Rightarrow> nat \<Rightarrow> u8 undef" where
  "byte_at bs i = (if i < length bs then Some (bs ! i) else None)"

definition b64_char :: "u8 \<Rightarrow> char" where
  "b64_char v = base64_ascii_map ! unat v"

definition b64_group :: "u8 \<Rightarrow> u8 \<Rightarrow> u8 \<Rightarrow> string" where
  "b64_group b1 b2 b3 = [b64_char (drop_bit 2 (and b1 0xFC)), b64_char (or (push_bit 4 (and b1 3)) (drop_bit 4 (and b2 0xF0))),
     b64_char (or (push_bit 2 (and b2 0xF)) (drop_bit 6 (and b3 0xC0))), b64_char (and b3 0x3F)]"

text \<open>\<open>src\<close> is the memory at the source, of which \<open>n\<close> bytes are to be encoded; the byte behind them is read when they
  end one byte into or two bytes into a group. \<open>mx\<close> is the room at the destination, if there is one. The result says
  whether the room was too small.\<close>

function encode_loop :: "u8 list \<Rightarrow> nat \<Rightarrow> nat option \<Rightarrow> nat \<Rightarrow> string \<Rightarrow> (bool \<times> string) undef" where
  "encode_loop src n mx i out =
    (if i < n then do {
       b1 \<leftarrow> byte_at src i;
       b2 \<leftarrow> (if i + 1 > n then Some 0 else byte_at src (i + 1));
       b3 \<leftarrow> (if i + 2 > n then Some 0 else byte_at src (i + 2));
       let out = out @ b64_group b1 b2 b3;
       case mx of
         Some m \<Rightarrow> if length out > m then Some (True, take m out) else encode_loop src n mx (i + 3) out
       | None \<Rightarrow> encode_loop src n mx (i + 3) out
     }
     else Some (False, out))"
  by pat_completeness auto
termination by (relation "measure (\<lambda>(src, n, mx, i, out). n - i)") auto

declare encode_loop.simps [simp del]

definition base64_encode :: "u8 list \<Rightarrow> nat \<Rightarrow> nat option \<Rightarrow> string undef" where
  "base64_encode src n mx = do {
     (full, out) \<leftarrow> encode_loop src n mx 0 [];
     Some (if full then out
           else if mx \<noteq> None \<and> n mod 3 \<noteq> 0 then take (length out - (3 - n mod 3)) out @ replicate (3 - n mod 3) CHR ''=''
           else out)
   }"

text \<open>A character that is not in the map is at the position \<open>npos\<close>, whose lowest byte is 255.\<close>

definition b64_find :: "char \<Rightarrow> u8" where
  "b64_find ch = (case find_index ((=) ch) base64_ascii_map of Some i \<Rightarrow> of_nat i | None \<Rightarrow> 255)"

definition b64_digit :: "char \<Rightarrow> u8" where
  "b64_digit ch = (if ch = CHR ''='' then 0 else b64_find ch)"

definition b64_bytes :: "u8 \<Rightarrow> u8 \<Rightarrow> u8 \<Rightarrow> u8 \<Rightarrow> u8 list" where
  "b64_bytes b0 b1 b2 b3 = [or (push_bit 2 (and b0 0x3F)) (drop_bit 4 (and b1 0x30)),
     or (push_bit 4 (and b1 0xF)) (drop_bit 2 (and b2 0x3C)), or (push_bit 6 (and b2 3)) (and b3 0x3F)]"

text \<open>The bytes written and whether decoding stopped early.\<close>

function decode_loop :: "string \<Rightarrow> nat option \<Rightarrow> nat \<Rightarrow> u8 list \<Rightarrow> bool \<times> u8 list" where
  "decode_loop src mx i out =
    (if i + 3 < length src then
       (let b0 = b64_find (src ! i); b1 = b64_find (src ! (i + 1)); b2 = b64_digit (src ! (i + 2)); b3 = b64_digit (src ! (i + 3))
        in if b0 = 255 \<or> b1 = 255 \<or> b2 = 255 \<or> b3 = 255 then (True, out)
           else let out = out @ b64_bytes b0 b1 b2 b3 in case mx of
             Some m \<Rightarrow> if length out > m then (True, take m out) else decode_loop src mx (i + 4) out
           | None \<Rightarrow> decode_loop src mx (i + 4) out)
     else (False, out))"
  by pat_completeness auto
termination by (relation "measure (\<lambda>(src, mx, i, out). length src - i)") auto

declare decode_loop.simps [simp del]

text \<open>The bytes written and their number without the padding. Of an empty source the byte in front is read.\<close>

definition base64_decode :: "string \<Rightarrow> nat option \<Rightarrow> (u8 list \<times> nat) undef" where
  "base64_decode src mx =
    (if length src mod 4 \<noteq> 0 then Some ([], 0)
     else case decode_loop src mx 0 [] of (stop, out) \<Rightarrow>
       if stop then Some (out, length out)
       else if src = [] then None
       else Some (out, length out - length (filter (\<lambda>i. src ! (length src - i - 1) = CHR ''='') [0, 1])))"

section \<open>The header of a resource archive\<close>

text \<open>\<open>uids\<close>: the 12 bytes of the three ids; every other one enters a checksum.\<close>

definition calculate_checksum :: "u8 list \<Rightarrow> u32" where
  "calculate_checksum uids = ucast (crc16 0 [uids ! 0, uids ! 2, uids ! 4, uids ! 6, uids ! 8, uids ! 10])"

definition uid_bytes :: "u32 list \<Rightarrow> u8 list" where
  "uid_bytes uids = concat (map (\<lambda>u. [ucast u, ucast (drop_bit 8 u), ucast (drop_bit 16 u), ucast (drop_bit 24 u)]) uids)"

definition calculate_checked_uid_checksum :: "u32 list \<Rightarrow> u32" where
  "calculate_checked_uid_checksum uids =
    or (push_bit 16 (calculate_checksum (drop 1 (uid_bytes uids)))) (calculate_checksum (uid_bytes uids))"

section \<open>Decoding what was encoded\<close>

lemma less8: "n < (8 :: nat) \<Longrightarrow> n = 0 \<or> n = 1 \<or> n = 2 \<or> n = 3 \<or> n = 4 \<or> n = 5 \<or> n = 6 \<or> n = 7"
  by linarith

lemma b64_find_char: "v < 64 \<Longrightarrow> b64_find (b64_char v) = v"
proof -
  assume "v < 64"
  then have "unat v < 64" by (simp add: word_less_nat_alt)
  moreover have "\<forall>i \<in> set [0..<64]. find_index ((=) (base64_ascii_map ! i)) base64_ascii_map = Some i" by code_simp
  ultimately have "find_index ((=) (base64_ascii_map ! unat v)) base64_ascii_map = Some (unat v)" by simp
  then show ?thesis by (simp add: b64_find_def b64_char_def)
qed

lemma b64_char_not_pad: "v < 64 \<Longrightarrow> b64_char v \<noteq> CHR ''=''"
proof -
  assume "v < 64"
  then have "unat v < length base64_ascii_map" by (simp add: word_less_nat_alt base64_ascii_map_def)
  then have "b64_char v \<in> set base64_ascii_map" by (simp add: b64_char_def)
  then show ?thesis by (auto simp: base64_ascii_map_def)
qed

lemma less_64_iff: "(v :: u8) < 64 \<longleftrightarrow> \<not> bit v 6 \<and> \<not> bit v 7"
proof -
  have "v < 64 \<longleftrightarrow> unat v div 2 ^ 6 = 0" by (simp add: word_less_nat_alt div_eq_0_iff)
  also have "\<dots> \<longleftrightarrow> drop_bit 6 v = 0" 
  proof -
    have "unat (drop_bit 6 v) = unat v div 2 ^ 6" unfolding unat_drop_bit_eq by (rule drop_bit_eq_div)
    then show ?thesis by (metis unat_eq_zero)
  qed
  also have "\<dots> \<longleftrightarrow> \<not> bit v 6 \<and> \<not> bit v 7"
  proof
    assume a: "\<not> bit v 6 \<and> \<not> bit v 7"
    have "\<not> bit (drop_bit 6 v) n" if "n < 8" for n
      using a that bit_imp_le_length [of v "6 + n"] by (cases "n = 0"; cases "n = 1") (auto simp: bit_simps)
    then show "drop_bit 6 v = 0" by (intro bit_word_eqI) simp
  next
    assume "drop_bit 6 v = 0"
    then have "\<not> bit (drop_bit 6 v) 0" "\<not> bit (drop_bit 6 v) 1" by simp_all
    then show "\<not> bit v 6 \<and> \<not> bit v 7" by (simp add: bit_simps)
  qed
  finally show ?thesis .
qed

lemma b64_digits_small:
  "drop_bit 2 (and b1 0xFC) < (64 :: u8)" "or (push_bit 4 (and b1 3)) (drop_bit 4 (and b2 0xF0)) < (64 :: u8)"
  "or (push_bit 2 (and b2 0xF)) (drop_bit 6 (and b3 0xC0)) < (64 :: u8)" "and b3 0x3F < (64 :: u8)"
  by (simp_all add: less_64_iff bit_simps)

lemma b64_bytes_group:
  "b64_bytes (drop_bit 2 (and b1 0xFC)) (or (push_bit 4 (and b1 3)) (drop_bit 4 (and b2 0xF0)))
     (or (push_bit 2 (and b2 0xF)) (drop_bit 6 (and b3 0xC0))) (and b3 0x3F) = [b1, b2, b3]"
  unfolding b64_bytes_def list.inject
  by (intro conjI bit_word_eqI; (simp del: One_nat_def)?; drule less8; elim disjE; simp add: bit_simps)

text \<open>A group of four characters and the bytes it stands for.\<close>

definition decode_group :: "string \<Rightarrow> u8 list" where
  "decode_group g = b64_bytes (b64_find (g ! 0)) (b64_find (g ! 1)) (b64_digit (g ! 2)) (b64_digit (g ! 3))"

definition good_group :: "string \<Rightarrow> bool" where
  "good_group g \<longleftrightarrow> length g = 4 \<and> b64_find (g ! 0) \<noteq> 255 \<and> b64_find (g ! 1) \<noteq> 255 \<and> b64_digit (g ! 2) \<noteq> 255 \<and> b64_digit (g ! 3) \<noteq> 255"

lemma decode_loop_groups:
  "\<forall>g \<in> set gs. good_group g \<Longrightarrow> length out + 3 * length gs \<le> m \<Longrightarrow>
    decode_loop (pre @ concat gs) (Some m) (length pre) out = (False, out @ concat (map decode_group gs))"
proof (induction gs arbitrary: pre out)
  case Nil
  then show ?case by (subst decode_loop.simps) simp
next
  case (Cons g gs)
  let ?src = "pre @ concat (g # gs)"
  have g: "length g = 4" "good_group g" using Cons.prems(1) by (simp_all add: good_group_def)
  have at: "?src ! (length pre + k) = g ! k" if "k < 4" for k using that g(1) by (simp add: nth_append)
  have len: "length (decode_group g) = 3" by (simp add: decode_group_def b64_bytes_def)
  have ih: "decode_loop ((pre @ g) @ concat gs) (Some m) (length (pre @ g)) (out @ decode_group g)
      = (False, (out @ decode_group g) @ concat (map decode_group gs))"
    using Cons.prems len by (intro Cons.IH) simp_all
  have "decode_loop ?src (Some m) (length pre) out = decode_loop ?src (Some m) (length pre + 4) (out @ decode_group g)"
    using g Cons.prems(2) at [of 0] at [of 1] at [of 2] at [of 3] len
    by (subst decode_loop.simps) (auto simp: Let_def good_group_def decode_group_def b64_bytes_def)
  then show ?case using ih g(1) by simp
qed

text \<open>The groups the encoder writes; a byte outside of the source is 0.\<close>

definition source_group :: "u8 list \<Rightarrow> nat \<Rightarrow> nat \<Rightarrow> string" where
  "source_group src n i = b64_group (src ! i) (if i + 1 > n then 0 else src ! (i + 1)) (if i + 2 > n then 0 else src ! (i + 2))"

lemma encode_loop_groups:
  assumes "n \<le> length src" and "n mod 3 = 0 \<or> n < length src" and "length out + 4 * (k - j) \<le> m" and "k = (n + 2) div 3" and "j \<le> k"
  shows "encode_loop src n (Some m) (3 * j) out = Some (False, out @ concat (map (\<lambda>j. source_group src n (3 * j)) [j..<k]))"
  using assms(3,5)
proof (induction "k - j" arbitrary: j out)
  case 0
  then have "j = k" by simp
  then have "n \<le> 3 * j" using assms(4) by simp
  then show ?case using \<open>j = k\<close> by (subst encode_loop.simps) simp
next
  case (Suc d)
  then have j: "j < k" by simp
  then have i: "3 * j < n" using assms(4) by simp
  have b: "byte_at src (3 * j) = Some (src ! (3 * j))" using i assms(1) by (simp add: byte_at_def)
  have b2: "(if 3 * j + 1 > n then Some 0 else byte_at src (3 * j + 1)) = Some (if 3 * j + 1 > n then 0 else src ! (3 * j + 1))"
    using i assms(1,2) by (auto simp: byte_at_def)
  have b3: "(if 3 * j + 2 > n then Some 0 else byte_at src (3 * j + 2)) = Some (if 3 * j + 2 > n then 0 else src ! (3 * j + 2))"
    using i assms(1,2) by (auto simp: byte_at_def)
  let ?g = "source_group src n (3 * j)"
  have len: "length ?g = 4" by (simp add: source_group_def b64_group_def)
  have room: "length out + 4 \<le> m" using Suc.prems(1) j by (cases "k - j") auto
  have ih: "encode_loop src n (Some m) (3 * Suc j) (out @ ?g)
      = Some (False, (out @ ?g) @ concat (map (\<lambda>j. source_group src n (3 * j)) [Suc j..<k]))"
    using Suc j len by (intro Suc.hyps(1)) simp_all
  have st: "encode_loop src n (Some m) (3 * j) out = encode_loop src n (Some m) (3 * j + 3) (out @ ?g)"
    using i room len unfolding source_group_def
    by (subst encode_loop.simps) (simp only: b b2 b3, simp add: Let_def)
  show ?case using ih st j by (simp add: upt_conv_Cons add.commute)
qed

lemma good_decoded:
  assumes "g = b64_group b1 b2 b3"
  shows "good_group g" "decode_group g = [b1, b2, b3]" "g ! 2 \<noteq> CHR ''=''" "g ! 3 \<noteq> CHR ''=''"
proof -
  note small = b64_digits_small(1) [of b1] b64_digits_small(2) [of b1 b2] b64_digits_small(3) [of b2 b3] b64_digits_small(4) [of b3]
  have ne: "v < 64 \<Longrightarrow> v \<noteq> (255 :: u8)" for v by auto
  show "g ! 2 \<noteq> CHR ''=''" "g ! 3 \<noteq> CHR ''=''" using small by (simp_all add: assms b64_group_def b64_char_not_pad)
  then have d: "b64_digit (g ! 2) = or (push_bit 2 (and b2 0xF)) (drop_bit 6 (and b3 0xC0))" "b64_digit (g ! 3) = and b3 0x3F"
    "b64_find (g ! 0) = drop_bit 2 (and b1 0xFC)" "b64_find (g ! 1) = or (push_bit 4 (and b1 3)) (drop_bit 4 (and b2 0xF0))"
    using small by (simp_all add: assms b64_digit_def b64_group_def b64_find_char)
  show "decode_group g = [b1, b2, b3]" unfolding decode_group_def d by (rule b64_bytes_group)
  have "length g = 4" by (simp add: assms b64_group_def)
  then show "good_group g" unfolding good_group_def d using ne [OF small(1)] ne [OF small(2)] ne [OF small(3)] ne [OF small(4)] by blast
qed

text \<open>The padded last group: its first bytes are those that were there.\<close>

lemma padded_group:
  assumes "g = b64_group b1 b2 b3" and "r = 1 \<or> r = 2"
  shows "good_group (take (Suc r) g @ replicate (3 - r) CHR ''='')" "take r (decode_group (take (Suc r) g @ replicate (3 - r) CHR ''='')) = take r [b1, b2, b3]"
    "length (decode_group (take (Suc r) g @ replicate (3 - r) CHR ''='')) = 3"
proof -
  note small = b64_digits_small(1) [of b1] b64_digits_small(2) [of b1 b2] b64_digits_small(3) [of b2 b3] b64_digits_small(4) [of b3]
  have ne: "v < 64 \<Longrightarrow> v \<noteq> (255 :: u8)" for v by auto
  have ok: "good_group g" "decode_group g = [b1, b2, b3]" "g ! 2 \<noteq> CHR ''=''" using good_decoded [OF assms(1)] by blast+
  obtain c0 c1 c2 c3 where g: "g = [c0, c1, c2, c3]" by (simp add: assms(1) b64_group_def)
  have p: "take (Suc 1) g @ replicate (3 - 1) CHR ''='' = [c0, c1, CHR ''='', CHR ''='']"
    "take (Suc 2) g @ replicate (3 - 2) CHR ''='' = [c0, c1, c2, CHR ''='']"
    by (simp_all add: g numeral_2_eq_2 numeral_3_eq_3)
  have pad: "b64_digit CHR ''='' = 0" by (simp add: b64_digit_def)
  show "good_group (take (Suc r) g @ replicate (3 - r) CHR ''='')"
    using assms(2) ok(1) by (elim disjE) (simp_all add: p good_group_def pad g)
  have z: "or x (drop_bit 2 (and 0 0x3C)) = (x :: u8)" for x by simp
  show "length (decode_group (take (Suc r) g @ replicate (3 - r) CHR ''='')) = 3" by (simp add: decode_group_def b64_bytes_def)
  show "take r (decode_group (take (Suc r) g @ replicate (3 - r) CHR ''='')) = take r [b1, b2, b3]"
    using assms(2) ok(2) by (elim disjE) (simp_all add: p g decode_group_def b64_bytes_def take_Cons' pad)
qed

lemma concat_triples: "3 * k \<le> length xs \<Longrightarrow> concat (map (\<lambda>j. [xs ! (3 * j), xs ! (3 * j + 1), xs ! (3 * j + 2)]) [0..<k]) = take (3 * k) xs"
proof (induction k)
  case (Suc k)
  have e: "3 * Suc k = Suc (Suc (Suc (3 * k)))" by simp
  have "take (Suc (Suc (Suc (3 * k)))) xs = take (3 * k) xs @ [xs ! (3 * k), xs ! (3 * k + 1), xs ! (3 * k + 2)]"
    using Suc.prems take_Suc_conv_app_nth [of "3 * k" xs] take_Suc_conv_app_nth [of "Suc (3 * k)" xs]
      take_Suc_conv_app_nth [of "Suc (Suc (3 * k))" xs] by simp
  then show ?case using Suc unfolding e by simp
qed simp

text \<open>Decoding what was encoded gives the bytes back, and their number, provided the byte behind a source that does not
  end with a group can be read, and the destinations have the room for whole groups.\<close>

theorem base64_roundtrip:
  assumes "0 < n" and "n \<le> length src" and "n mod 3 = 0 \<or> n < length src" and "4 * ((n + 2) div 3) \<le> m" and "3 * ((n + 2) div 3) \<le> m'"
  shows "\<exists>enc out. base64_encode src n (Some m) = Some enc \<and> base64_decode enc (Some m') = Some (out, n) \<and> take n out = take n src"
proof -
  define k where "k = (n + 2) div 3"
  define r where "r = n mod 3"
  let ?G = "\<lambda>j. source_group src n (3 * j)"
  let ?gs = "map ?G [0..<k]"
  have lG: "length (?G j) = 4" for j by (simp add: source_group_def b64_group_def)
  have enc: "encode_loop src n (Some m) 0 [] = Some (False, concat ?gs)"
    using encode_loop_groups [OF assms(2,3), of "[]" k 0 m] assms(4) by (simp add: k_def)
  have lc: "length (concat (map ?G xs)) = 4 * length xs" for xs by (induction xs) (simp_all add: lG)
  have full: "source_group src n (3 * j) = b64_group (src ! (3 * j)) (src ! (3 * j + 1)) (src ! (3 * j + 2))" if "3 * j + 2 < n" for j
    using that by (simp add: source_group_def)
  have dec: "decode_loop (concat gs) (Some m') 0 [] = (False, concat (map decode_group gs))"
    if "\<forall>g \<in> set gs. good_group g" "length gs = k" for gs
    using decode_loop_groups [of gs "[]" m' "[]"] that assms(5) by (simp add: k_def)
  show ?thesis
  proof (cases "r = 0")
    case True
    then obtain q' where q': "n = 3 * q'" by (auto simp: r_def elim!: dvdE [of 3, simplified dvd_eq_mod_eq_0])
    then have nk: "n = 3 * k" by (simp add: k_def)
    then obtain q where k: "k = Suc q" "n = 3 * k" using assms(1) by (cases k) auto
    let ?e = "concat ?gs"
    have le: "length ?e = 4 * k" using lc [of "[0..<k]"] by simp
    have gj: "?G j = b64_group (src ! (3 * j)) (src ! (3 * j + 1)) (src ! (3 * j + 2))" if "j < k" for j
      using full [of j] that k(2) by simp
    have e1: "base64_encode src n (Some m) = Some ?e" using True enc by (simp add: base64_encode_def r_def)
    have good: "\<forall>g \<in> set ?gs. good_group g" using gj good_decoded(1) by auto
    have lst: "?e = concat (map ?G [0..<q]) @ ?G q" by (simp add: k(1))
    have "?e ! (length ?e - 1) = ?G q ! 3" "?e ! (length ?e - 2) = ?G q ! 2"
      by (simp_all add: lst lc lG nth_append)
    then have np: "?e ! (length ?e - 1) \<noteq> CHR ''=''" "?e ! (length ?e - 2) \<noteq> CHR ''=''"
      using good_decoded(3,4) [OF gj [of q]] k(1) by simp_all
    have out: "concat (map decode_group ?gs) = concat (map (\<lambda>j. [src ! (3 * j), src ! (3 * j + 1), src ! (3 * j + 2)]) [0..<k])"
      using gj good_decoded(2) by (auto intro!: arg_cong [where f = concat])
    also have "\<dots> = take n src" using concat_triples [of k src] k(2) assms(2) by simp
    finally have out: "concat (map decode_group ?gs) = take n src" .
    have "base64_decode ?e (Some m') = Some (take n src, n)"
    proof -
      have "?e \<noteq> []" "length ?e mod 4 = 0" using le k(1) by (metis list.size(3) mult_is_0 nat.simps(3) zero_neq_numeral, simp add: le)
      moreover have "filter (\<lambda>i. ?e ! (length ?e - i - 1) = CHR ''='') [0, 1] = []" using np by (simp add: numeral_2_eq_2)
      moreover have "decode_loop ?e (Some m') 0 [] = (False, take n src)" using dec [OF good] out by simp
      moreover have "length (take n src) = n" using assms(2) by simp
      ultimately show ?thesis unfolding base64_decode_def by (simp del: filter.simps)
    qed
    then show ?thesis using e1 by auto
  next
    case False
    then have r: "r = 1 \<or> r = 2" by (auto simp: r_def)
    define q where "q = n div 3"
    have n: "n = 3 * q + r" by (simp add: q_def r_def)
    have k: "k = Suc q" using r unfolding k_def n by auto
    let ?p = "take (Suc r) (?G q) @ replicate (3 - r) CHR ''=''"
    let ?gs' = "map ?G [0..<q] @ [?p]"
    let ?e = "concat ?gs'"
    have lp: "length ?p = 4" using r by (auto simp: lG)
    have le: "length ?e = 4 * k" using lc [of "[0..<q]"] lp by (simp add: k)
    have gj: "?G j = b64_group (src ! (3 * j)) (src ! (3 * j + 1)) (src ! (3 * j + 2))" if "j < q" for j
      using full [of j] that n by simp
    obtain b2 b3 where gq: "?G q = b64_group (src ! (3 * q)) b2 b3" "r = 2 \<longrightarrow> b2 = src ! (3 * q + 1)"
      by (simp add: source_group_def n)
    have tk: "take (4 * k - (3 - r)) (concat ?gs) = concat (map ?G [0..<q]) @ take (Suc r) (?G q)"
      using r lc [of "[0..<q]"] by (auto simp: k lG numeral_2_eq_2 numeral_3_eq_3)
    have e1: "base64_encode src n (Some m) = Some ?e"
      using False enc lc [of "[0..<k]"] tk by (simp add: base64_encode_def r_def [symmetric])
    have good: "\<forall>g \<in> set ?gs'. good_group g" using gj good_decoded(1) padded_group(1) [OF gq(1) r] by auto
    have "?e ! (length ?e - 1) = ?p ! 3" "?e ! (length ?e - 2) = ?p ! 2"
      using lp by (simp_all add: lc nth_append del: append_assoc)
    then have np: "?e ! (length ?e - 1) = CHR ''=''" "?e ! (length ?e - 2) = CHR ''='' \<longleftrightarrow> r = 1"
      using r good_decoded(3) [OF gq(1)] by (auto simp: lG nth_append nth_Cons')
    have "concat (map decode_group (map ?G [0..<q])) = concat (map (\<lambda>j. [src ! (3 * j), src ! (3 * j + 1), src ! (3 * j + 2)]) [0..<q])"
      using gj good_decoded(2) by (auto intro!: arg_cong [where f = concat])
    also have "\<dots> = take (3 * q) src" using concat_triples [of q src] n assms(2) by simp
    finally have out: "concat (map decode_group ?gs') = take (3 * q) src @ decode_group ?p" by simp
    have lo: "length (take (3 * q) src @ decode_group ?p) = 3 * k"
      using padded_group(3) [OF gq(1) r] n assms(2) k by simp
    have "take n (take (3 * q) src @ decode_group ?p) = take (3 * q) src @ take r (decode_group ?p)"
      using n assms(2) by simp
    also have "\<dots> = take (3 * q) src @ take r [src ! (3 * q), b2, b3]" using padded_group(2) [OF gq(1) r] by simp
    also have "\<dots> = take n src"
      using r gq(2) n assms(2) by (auto simp: take_Suc_conv_app_nth)
    finally have "take n (take (3 * q) src @ decode_group ?p) = take n src" .
    moreover have "base64_decode ?e (Some m') = Some (take (3 * q) src @ decode_group ?p, n)"
    proof -
      have "length (filter (\<lambda>i. ?e ! (length ?e - i - 1) = CHR ''='') [0, 1]) = 3 - r"
        using np r by (auto simp: numeral_2_eq_2)
      moreover have "?e \<noteq> []" "length ?e mod 4 = 0" using le k by (metis list.size(3) mult_is_0 nat.simps(3) zero_neq_numeral, simp add: le)
      moreover have "decode_loop ?e (Some m') 0 [] = (False, take (3 * q) src @ decode_group ?p)"
        using dec [OF good] k unfolding out by simp
      moreover have "length (take (3 * q) src @ decode_group ?p) - (3 - r) = n" using lo k n r by auto
      ultimately show ?thesis unfolding base64_decode_def by (simp del: filter.simps)
    qed
    ultimately show ?thesis using e1 by blast
  qed
qed

theorem base64_roundtrip_witness:
  "\<exists>enc out. base64_encode [77, 97, 110, 33, 0] 4 (Some 8) = Some enc \<and> base64_decode enc (Some 6) = Some (out, 4)
    \<and> take 4 out = take 4 [77, 97, 110, 33, 0]"
  by (rule base64_roundtrip) simp_all

end
