(* ===== verification/Seri.thy ===== *)
theory Seri imports Prelude begin

text \<open>
  Serialization (\<open>common/chunkyseri.h\<close>, \<open>common/chunkyseri.cpp\<close>): one routine per object, run in three modes, measures,
  writes and reads it. With it, the strings of Symbian streams (\<open>utils/des.h\<close>, \<open>utils/cardinality.cpp\<close>), the states
  kernel objects save, resource archives (\<open>loader/spi.cpp\<close>) and the files of the central repository
  (\<open>services/src/centralrepo/cre.cpp\<close>).
\<close>

section \<open>The serializer\<close>

datatype seri_mode = Seri_read | Seri_write | Seri_measure

text \<open>The buffer as a list, whose length is the end.\<close>

record seri =
  sr_mode :: seri_mode
  sr_buf :: "u8 list"
  sr_pos :: nat

definition overwrite :: "'a list \<Rightarrow> nat \<Rightarrow> 'a list \<Rightarrow> 'a list" where
  "overwrite b p xs = take p b @ xs @ drop (p + length xs) b"

definition eos :: "seri \<Rightarrow> bool" where
  "eos s \<longleftrightarrow> sr_pos s \<ge> length (sr_buf s)"

text \<open>The result is the data and the serializer afterwards; data that do not fit are neither written nor read, and nobody
  is told.\<close>

definition absorb_impl :: "u8 list \<Rightarrow> seri \<Rightarrow> u8 list \<times> seri" where
  "absorb_impl dat s = (let n = length dat; s' = s\<lparr>sr_pos := sr_pos s + n\<rparr> in
     if sr_pos s + n > length (sr_buf s) \<and> sr_mode s \<noteq> Seri_measure then (dat, s)
     else case sr_mode s of
       Seri_measure \<Rightarrow> (dat, s')
     | Seri_write \<Rightarrow> (dat, s'\<lparr>sr_buf := overwrite (sr_buf s) (sr_pos s) dat\<rparr>)
     | Seri_read \<Rightarrow> (take n (drop (sr_pos s) (sr_buf s)), s'))"

text \<open>Unlike \<open>absorb_impl\<close>, this does not look at the end.\<close>

definition expect :: "u8 list \<Rightarrow> seri \<Rightarrow> (bool \<times> seri) undef" where
  "expect dat s = (let n = length dat; s' = s\<lparr>sr_pos := sr_pos s + n\<rparr> in
     case sr_mode s of
       Seri_measure \<Rightarrow> Some (True, s')
     | Seri_write \<Rightarrow> if sr_pos s + n \<le> length (sr_buf s) then Some (True, s'\<lparr>sr_buf := overwrite (sr_buf s) (sr_pos s) dat\<rparr>) else None
     | Seri_read \<Rightarrow> if sr_pos s + n \<le> length (sr_buf s)
         then Some (if take n (drop (sr_pos s) (sr_buf s)) = dat then (True, s') else (False, s)) else None)"

text \<open>Integers and enumerations are copied with their bytes, the lowest first.\<close>

definition word_bytes :: "'a :: len word \<Rightarrow> u8 list" where
  "word_bytes w = map (\<lambda>i. ucast (drop_bit (8 * i) w)) [0..<LENGTH('a) div 8]"

definition bytes_word :: "u8 list \<Rightarrow> 'a :: len word" where
  "bytes_word bs = foldr (\<lambda>b w. or (ucast b) (push_bit 8 w)) bs 0"

definition absorb_word :: "'a :: len word \<Rightarrow> seri \<Rightarrow> 'a word \<times> seri" where
  "absorb_word v s = (case absorb_impl (word_bytes v) s of (bs, s) \<Rightarrow> (bytes_word bs, s))"

text \<open>\<open>std::basic_string::resize\<close>, \<open>std::vector::resize\<close>.\<close>

definition resize :: "'a \<Rightarrow> nat \<Rightarrow> 'a list \<Rightarrow> 'a list" where
  "resize d n xs = take n xs @ replicate (n - length xs) d"

definition resize_read :: "'a \<Rightarrow> nat \<Rightarrow> 'a list \<Rightarrow> seri \<Rightarrow> 'a list" where
  "resize_read d n xs s = (if sr_mode s = Seri_read then resize d n xs else xs)"

text \<open>The sizes of containers are cut to 32 bits.\<close>

definition absorb_size :: "'a list \<Rightarrow> seri \<Rightarrow> nat \<times> seri" where
  "absorb_size xs s = (case absorb_word (of_nat (length xs) :: u32) s of (n, s) \<Rightarrow> (unat n, s))"

definition absorb_prefix :: "nat \<Rightarrow> u8 list \<Rightarrow> seri \<Rightarrow> u8 list \<times> seri" where
  "absorb_prefix n dat s = (case absorb_impl (take n dat) s of (d, s) \<Rightarrow> (d @ drop n dat, s))"

definition absorb_string :: "u8 list \<Rightarrow> seri \<Rightarrow> u8 list \<times> seri" where
  "absorb_string dat s = (case absorb_size dat s of (n, s) \<Rightarrow> absorb_prefix n (resize_read 0 n dat s) s)"

definition u16_bytes :: "u16 list \<Rightarrow> u8 list" where
  "u16_bytes xs = concat (map word_bytes xs)"

fun bytes_u16 :: "u8 list \<Rightarrow> u16 list" where
  "bytes_u16 (a # b # bs) = bytes_word [a, b] # bytes_u16 bs"
| "bytes_u16 _ = []"

definition absorb_u16string :: "u16 list \<Rightarrow> seri \<Rightarrow> u16 list \<times> seri" where
  "absorb_u16string dat s = (case absorb_size dat s of (n, s) \<Rightarrow>
     (case absorb_prefix (unat (of_nat n * 2 :: u32)) (u16_bytes (resize_read 0 n dat s)) s of (bs, s) \<Rightarrow> (bytes_u16 bs, s)))"

fun absorb_each :: "('a \<Rightarrow> seri \<Rightarrow> ('a \<times> seri) undef) \<Rightarrow> 'a list \<Rightarrow> seri \<Rightarrow> ('a list \<times> seri) undef" where
  "absorb_each A [] s = Some ([], s)"
| "absorb_each A (x # xs) s = do { (x, s) \<leftarrow> A x s; (xs, s) \<leftarrow> absorb_each A xs s; Some (x # xs, s) }"

text \<open>\<open>absorb_container\<close>, with the function for a member and the value of a new one. The plain variant goes through the
  first \<open>n\<close> members.\<close>

definition absorb_container :: "('a \<Rightarrow> seri \<Rightarrow> ('a \<times> seri) undef) \<Rightarrow> 'a \<Rightarrow> 'a list \<Rightarrow> seri \<Rightarrow> ('a list \<times> seri) undef" where
  "absorb_container A d xs s = (case absorb_size xs s of (n, s) \<Rightarrow> absorb_each A (resize_read d n xs s) s)"

definition plain :: "('a \<Rightarrow> seri \<Rightarrow> 'a \<times> seri) \<Rightarrow> 'a \<Rightarrow> seri \<Rightarrow> ('a \<times> seri) undef" where
  "plain f x s = Some (f x s)"

definition absorb_words :: "'a :: len word list \<Rightarrow> seri \<Rightarrow> ('a word list \<times> seri) undef" where
  "absorb_words xs s = (case absorb_size xs s of (n, s) \<Rightarrow>
     let xs = resize_read 0 n xs s in do { (ys, s) \<leftarrow> absorb_each (plain absorb_word) (take n xs) s; Some (ys @ drop n xs, s) })"

definition do_marker :: "u16 \<Rightarrow> seri \<Rightarrow> bool \<times> seri" where
  "do_marker cookie s = (case absorb_word cookie s of (ca, s) \<Rightarrow> (\<not> (sr_mode s = Seri_read \<and> ca \<noteq> cookie), s))"

text \<open>The version of a section, which is in order if it is positive.\<close>

definition open_section :: "u8 list \<Rightarrow> u16 \<Rightarrow> u16 \<Rightarrow> seri \<Rightarrow> (bool \<times> seri) undef" where
  "open_section name ver_min ver s = do {
     (ok, s) \<leftarrow> expect name s;
     if \<not> ok then Some (False, s)
     else (case absorb_word ver s of (found, s) \<Rightarrow>
       Some (\<not> (found <s ver_min \<or> ver <s found) \<and> 0 <s found, s))
   }"

section \<open>States of kernel objects\<close>

definition ascii :: "string \<Rightarrow> u8 list" where
  "ascii cs = map (\<lambda>c. of_nat (of_char c)) cs"

record saved_status =
  rs_status :: u32
  rs_flags :: u32

definition status_do_state :: "saved_status \<Rightarrow> seri \<Rightarrow> (saved_status \<times> seri) undef" where
  "status_do_state r s = (case absorb_word (rs_status r) s of (a, s) \<Rightarrow> case absorb_word (rs_flags r) s of (b, s) \<Rightarrow>
     Some (\<lparr>rs_status = a, rs_flags = b\<rparr>, s))"

record obj_state =
  os_name :: "u8 list"
  os_uid :: u64
  os_type :: u32
  os_access :: u32
  os_access_count :: u32

definition kernel_obj_do_state :: "obj_state \<Rightarrow> seri \<Rightarrow> (obj_state \<times> seri) undef" where
  "kernel_obj_do_state r s = do {
     (ok, s) \<leftarrow> open_section (ascii ''KernelObject'') 1 1 s;
     if \<not> ok then Some (r, s)
     else case absorb_string (os_name r) s of (n, s) \<Rightarrow> case absorb_word (os_uid r) s of (u, s) \<Rightarrow>
       case absorb_word (os_type r) s of (t, s) \<Rightarrow> case absorb_word (os_access r) s of (a, s) \<Rightarrow>
       case absorb_word (os_access_count r) s of (c, s) \<Rightarrow>
       Some (\<lparr>os_name = n, os_uid = u, os_type = t, os_access = a, os_access_count = c\<rparr>, s)
   }"

record pass_arg_state =
  pa_used :: u8
  pa_data :: "u8 list"

definition pass_arg_do_state :: "pass_arg_state \<Rightarrow> seri \<Rightarrow> (pass_arg_state \<times> seri) undef" where
  "pass_arg_do_state r s = do {
     (ok, s) \<leftarrow> open_section (ascii ''PassArg'') 1 1 s;
     if \<not> ok then Some (r, s)
     else case absorb_word (pa_used r) s of (u, s) \<Rightarrow> do {
       (d, s) \<leftarrow> absorb_words (pa_data r) s;
       Some (\<lparr>pa_used = u, pa_data = d\<rparr>, s)
     }
   }"

text \<open>A slot of a handle table: the id of the object, the handle and whether the slot is free. Restoring the pointer to
  the object is not written yet.\<close>

record ix_slot =
  sl_obj :: u64
  sl_handle :: u32
  sl_free :: bool

record ix_state =
  ix_uid :: u64
  ix_next_instance :: u64
  ix_owner :: u32
  ix_slots :: "ix_slot list"
  ix_handles :: "u32 list"

text \<open>The stack of the slots in use, the last one on top.\<close>

definition slots_used :: "ix_slot list \<Rightarrow> nat list" where
  "slots_used sl = rev (filter (\<lambda>i. \<not> sl_free (sl ! i)) [0..<length sl])"

fun absorb_slots :: "nat \<Rightarrow> nat list \<Rightarrow> u32 \<Rightarrow> ix_slot list \<Rightarrow> seri \<Rightarrow> (ix_slot list \<times> seri) undef" where
  "absorb_slots 0 stack nxt sl s = Some (sl, s)"
| "absorb_slots (Suc n) stack nxt sl s = do {
     guard (sr_mode s = Seri_write \<longrightarrow> stack \<noteq> []);
     let nxt = (if sr_mode s = Seri_write then of_nat (hd stack) else nxt);
     let obj = (if sr_mode s = Seri_write then sl_obj (sl ! hd stack) else 0);
     (nxt, s) \<leftarrow> Some (absorb_word nxt s);
     (_, s) \<leftarrow> Some (absorb_word obj s);
     guard (unat nxt < length sl);
     (h, s) \<leftarrow> Some (absorb_word (sl_handle (sl ! unat nxt)) s);
     let x = (sl ! unat nxt)\<lparr>sl_handle := h\<rparr>;
     absorb_slots n (tl stack) nxt (sl[unat nxt := if sr_mode s = Seri_read then x\<lparr>sl_free := False\<rparr> else x]) s
   }"

text \<open>The slots in use are only counted when writing.\<close>

definition object_ix_do_state :: "ix_state \<Rightarrow> seri \<Rightarrow> (ix_state \<times> seri) undef" where
  "object_ix_do_state r s = do {
     (ok, s) \<leftarrow> open_section (ascii ''ObjectIx'') 1 1 s;
     if \<not> ok then Some (r, s)
     else case absorb_word (ix_uid r) s of (u, s) \<Rightarrow> case absorb_word (ix_next_instance r) s of (i, s) \<Rightarrow>
       case absorb_word (ix_owner r) s of (w, s) \<Rightarrow> do {
         let stack = (if sr_mode s = Seri_write then slots_used (ix_slots r) else []);
         (cnt, s) \<leftarrow> Some (absorb_word (of_nat (length stack) :: u32) s);
         (sl, s) \<leftarrow> absorb_slots (unat cnt) stack 0 (ix_slots r) s;
         (hs, s) \<leftarrow> absorb_words (ix_handles r) s;
         Some (\<lparr>ix_uid = u, ix_next_instance = i, ix_owner = w, ix_slots = sl, ix_handles = hs\<rparr>, s)
       }
   }"

record process_state =
  ps_puid :: u32
  ps_primary_thread :: u64
  ps_thread_count :: u32
  ps_flags :: u32
  ps_priority :: u32
  ps_exit_reason :: u32
  ps_exit_type :: u32
  ps_name :: "u8 list"
  ps_exe_path :: "u16 list"
  ps_cmd_args :: "u16 list"
  ps_handles :: ix_state

text \<open>The primary thread is looked up by its id when reading.\<close>

definition process_do_state :: "process_state \<Rightarrow> seri \<Rightarrow> (process_state \<times> seri) undef" where
  "process_do_state r s = do {
     (ok, s) \<leftarrow> open_section (ascii ''Process'') 1 1 s;
     if \<not> ok then Some (r, s)
     else case absorb_word (ps_puid r) s of (u, s) \<Rightarrow> case absorb_word (ps_primary_thread r) s of (t, s) \<Rightarrow>
       case absorb_word (ps_thread_count r) s of (c, s) \<Rightarrow> case absorb_word (ps_flags r) s of (f, s) \<Rightarrow>
       case absorb_word (ps_priority r) s of (p, s) \<Rightarrow> case absorb_word (ps_exit_reason r) s of (e, s) \<Rightarrow>
       case absorb_word (ps_exit_type r) s of (x, s) \<Rightarrow> case absorb_string (ps_name r) s of (n, s) \<Rightarrow>
       case absorb_u16string (ps_exe_path r) s of (q, s) \<Rightarrow> case absorb_u16string (ps_cmd_args r) s of (g, s) \<Rightarrow> do {
         (h, s) \<leftarrow> object_ix_do_state (ps_handles r) s;
         Some (\<lparr>ps_puid = u, ps_primary_thread = t, ps_thread_count = c, ps_flags = f, ps_priority = p, ps_exit_reason = e,
           ps_exit_type = x, ps_name = n, ps_exe_path = q, ps_cmd_args = g, ps_handles = h\<rparr>, s)
       }
   }"

section \<open>Strings of Symbian streams\<close>

text \<open>The number in front of a string, twice its length plus one for a string of bytes: one, two or four bytes with the lowest
  bits telling which.\<close>

definition absorb_length :: "u32 \<Rightarrow> seri \<Rightarrow> seri" where
  "absorb_length len s =
    (if unat len \<le> 0x7F then snd (absorb_word (ucast (push_bit 1 len) :: u8) s)
     else if unat len \<le> 0x3FFF then snd (absorb_word (ucast (push_bit 2 len) + 1 :: u16) s)
     else snd (absorb_word (push_bit 3 len + 3) s))"

text \<open>Reading it back. Of the four-byte form only three are read, and with the wrong shift; the other combination leaves
  the length as it was.\<close>

definition read_length :: "u32 \<Rightarrow> seri \<Rightarrow> u32 \<times> seri" where
  "read_length len s = (case absorb_word (0 :: u8) s of (b1, s) \<Rightarrow>
     if \<not> bit b1 0 then (ucast (drop_bit 1 b1), s)
     else if \<not> bit b1 1 then (case absorb_word b1 s of (b2, s) \<Rightarrow> (drop_bit 2 (ucast b1 + push_bit 8 (ucast b2)), s))
     else if \<not> bit b1 2 then (case absorb_word (0 :: u16) s of (b2, s) \<Rightarrow> (drop_bit 4 (ucast b1 + push_bit 8 (ucast b2)), s))
     else (len, s))"

text \<open>\<open>absorb_des_string\<close> for strings of bytes that are not compressed.\<close>

definition absorb_des_string :: "u8 list \<Rightarrow> seri \<Rightarrow> u8 list \<times> seri" where
  "absorb_des_string str s = (let len = of_nat (length str) :: u32 in
     if sr_mode s \<noteq> Seri_read then
       (let s = absorb_length (len * 2 + 1) s; raw = take (unat (of_nat (length str) :: u32)) str
        in (str, snd (absorb_impl raw s)))
     else (case read_length len s of (len, s) \<Rightarrow> absorb_impl (resize 0 (unat (drop_bit 1 len)) str) s))"

text \<open>\<open>absorb_des\<close>: the bytes of an object. When writing, the object is overwritten with the empty string to be written;
  when reading, it is not assigned.\<close>

definition absorb_des :: "u8 list \<Rightarrow> seri \<Rightarrow> u8 list \<times> seri" where
  "absorb_des dat s = (let str = replicate (length dat) 0 in
     case absorb_des_string str s of (str', s') \<Rightarrow> (if sr_mode s \<noteq> Seri_read then (str', s') else (dat, s')))"

text \<open>\<open>cardinality::internalize\<close> on the rest of a stream: the value and the rest, or failure at its end. \<^const>\<open>None\<close> of
  the option type is failure.\<close>

fun internalize :: "u8 list \<Rightarrow> (u32 \<times> u8 list) option" where
  "internalize [] = None"
| "internalize (b1 # bs) =
    (if \<not> bit b1 0 then Some (ucast (drop_bit 1 b1), bs)
     else if \<not> bit b1 1 then (case bs of [] \<Rightarrow> None | b2 # bs \<Rightarrow> Some (drop_bit 2 (ucast b1 + push_bit 8 (ucast b2)), bs))
     else if \<not> bit b1 2 then (case bs of b2 # b3 # bs \<Rightarrow> Some (drop_bit 4 (ucast b1 + push_bit 8 (ucast (bytes_word [b2, b3] :: u16))), bs)
       | _ \<Rightarrow> None)
     else Some (0, bs))"

section \<open>Repositories\<close>

record cre_policy =
  cp_low_key :: u32
  cp_high_key :: u32
  cp_key_mask :: u32
  cp_read_access :: "u8 list"
  cp_write_access :: "u8 list"

record cre_meta =
  cm_low_key :: u32
  cm_high_key :: u32
  cm_key_mask :: u32
  cm_default_meta_data :: u32

datatype cre_type = Cre_none | Cre_integer | Cre_real | Cre_string

text \<open>Reals are the bits of a \<open>double\<close>.\<close>

record cre_entry =
  ce_key :: u32
  ce_type :: cre_type
  ce_int :: u64
  ce_real :: u64
  ce_str :: "u8 list"
  ce_metadata_val :: u32

record cre_repo =
  cr_ver :: u8
  cr_keyspace_type :: u8
  cr_uid :: u32
  cr_owner_uid :: u32
  cr_entries :: "cre_entry list"
  cr_default_policy :: cre_policy
  cr_single_policies :: "cre_policy list"
  cr_policies_range :: "cre_policy list"
  cr_default_meta :: u32
  cr_meta_range :: "cre_meta list"
  cr_time_stamp :: u64
  cr_deleted_settings :: "u32 list"

definition new_policy :: cre_policy where
  "new_policy = \<lparr>cp_low_key = 0, cp_high_key = 0, cp_key_mask = 0, cp_read_access = replicate 8 0, cp_write_access = replicate 8 0\<rparr>"

definition new_meta :: cre_meta where
  "new_meta = \<lparr>cm_low_key = 0, cm_high_key = 0, cm_key_mask = 0, cm_default_meta_data = 0\<rparr>"

definition new_entry :: cre_entry where
  "new_entry = \<lparr>ce_key = 0, ce_type = Cre_none, ce_int = 0, ce_real = 0, ce_str = [], ce_metadata_val = 0\<rparr>"

definition state_for_a_policy :: "cre_policy \<Rightarrow> seri \<Rightarrow> (cre_policy \<times> seri) undef" where
  "state_for_a_policy p s = (case absorb_word (cp_low_key p) s of (l, s) \<Rightarrow> case absorb_word (cp_high_key p) s of (h, s) \<Rightarrow>
     case absorb_word (cp_key_mask p) s of (m, s) \<Rightarrow> case absorb_des (cp_read_access p) s of (r, s) \<Rightarrow>
     case absorb_des (cp_write_access p) s of (w, s) \<Rightarrow>
     Some (\<lparr>cp_low_key = l, cp_high_key = h, cp_key_mask = m, cp_read_access = r, cp_write_access = w\<rparr>, s))"

definition do_state_for_a_metadata_entry :: "cre_meta \<Rightarrow> seri \<Rightarrow> (cre_meta \<times> seri) undef" where
  "do_state_for_a_metadata_entry m s = (case absorb_word (cm_low_key m) s of (l, s) \<Rightarrow> case absorb_word (cm_high_key m) s of (h, s) \<Rightarrow>
     case absorb_word (cm_key_mask m) s of (k, s) \<Rightarrow> case absorb_word (cm_default_meta_data m) s of (d, s) \<Rightarrow>
     Some (\<lparr>cm_low_key = l, cm_high_key = h, cm_key_mask = k, cm_default_meta_data = d\<rparr>, s))"

text \<open>\<open>narrow\<close> and \<open>widen\<close>: the conversions between \<open>double\<close> and \<open>float\<close>.\<close>

definition type_code :: "cre_type \<Rightarrow> u8" where
  "type_code t = (case t of Cre_none \<Rightarrow> 0 | Cre_integer \<Rightarrow> 0 | Cre_real \<Rightarrow> 1 | Cre_string \<Rightarrow> 2)"

definition code_type :: "u8 \<Rightarrow> cre_type" where
  "code_type c = (if c = 0 then Cre_integer else if c = 1 then Cre_real else if c = 2 \<or> c = 3 then Cre_string else Cre_none)"

definition state_for_entry :: "(u64 \<Rightarrow> u32) \<Rightarrow> (u32 \<Rightarrow> u64) \<Rightarrow> cre_entry \<Rightarrow> seri \<Rightarrow> (cre_entry \<times> seri) undef" where
  "state_for_entry narrow widen e s = (case absorb_word (ce_key e) s of (k, s) \<Rightarrow> case absorb_word (ce_metadata_val e) s of (m, s) \<Rightarrow>
     let code = (if sr_mode s \<noteq> Seri_read then type_code (ce_type e) else 0) in
     case absorb_word code s of (code, s) \<Rightarrow>
     let e = e\<lparr>ce_key := k, ce_metadata_val := m, ce_type := code_type code\<rparr> in
     Some (case ce_type e of
       Cre_integer \<Rightarrow> (case absorb_word (ucast (ce_int e) :: u32) s of (d, s) \<Rightarrow> (e\<lparr>ce_int := ucast d\<rparr>, s))
     | Cre_real \<Rightarrow> (case absorb_word (narrow (ce_real e)) s of (d, s) \<Rightarrow> (e\<lparr>ce_real := widen d\<rparr>, s))
     | Cre_string \<Rightarrow> (case absorb_des_string (ce_str e) s of (d, s) \<Rightarrow> (e\<lparr>ce_str := d\<rparr>, s))
     | Cre_none \<Rightarrow> (e, s)))"

text \<open>The parts of a file in their order; the result is 0, or -1 for a file of another kind.\<close>

definition cre_head :: "cre_repo \<Rightarrow> seri \<Rightarrow> bool \<times> cre_repo \<times> seri" where
  "cre_head r s = (case absorb_word (0x10000037 :: u32) s of (u1, s) \<Rightarrow> case absorb_word (0 :: u32) s of (u2, s) \<Rightarrow>
     case absorb_word (0x10202BE9 :: u32) s of (u3, s) \<Rightarrow>
     if u1 \<noteq> 0x10000037 \<or> u3 \<noteq> 0x10202BE9 then (False, r, s)
     else case absorb_word (0xCC776985 :: u32) s of (_, s) \<Rightarrow> case absorb_word (0x14 :: u32) s of (_, s) \<Rightarrow>
     case absorb_word (cr_ver r) s of (v, s) \<Rightarrow> case absorb_word (cr_uid r) s of (u, s) \<Rightarrow>
     case (if unat v \<ge> 3 then absorb_word (cr_keyspace_type r) s else (cr_keyspace_type r, s)) of (k, s) \<Rightarrow>
     case absorb_word (cr_owner_uid r) s of (w, s) \<Rightarrow>
     (True, r\<lparr>cr_ver := v, cr_uid := u, cr_keyspace_type := k, cr_owner_uid := w\<rparr>, s))"

definition cre_policies :: "cre_repo \<Rightarrow> seri \<Rightarrow> (cre_repo \<times> seri) undef" where
  "cre_policies r s = do {
     (sp, s) \<leftarrow> absorb_container state_for_a_policy new_policy (cr_single_policies r) s;
     (rp, s) \<leftarrow> absorb_container state_for_a_policy new_policy (cr_policies_range r) s;
     let d = cr_default_policy r;
     case absorb_des (cp_read_access d) s of (ra, s) \<Rightarrow> case absorb_des (cp_write_access d) s of (wa, s) \<Rightarrow>
     case (if unat (cr_ver r) \<ge> 2 then (case absorb_word (cp_high_key d) s of (h, s) \<Rightarrow> case absorb_word (cp_key_mask d) s of (m, s) \<Rightarrow> (h, m, s))
       else (cp_high_key d, cp_key_mask d, s)) of (h, m, s) \<Rightarrow>
     Some (r\<lparr>cr_single_policies := sp, cr_policies_range := rp,
       cr_default_policy := d\<lparr>cp_read_access := ra, cp_write_access := wa, cp_high_key := h, cp_key_mask := m\<rparr>\<rparr>, s)
   }"

definition cre_metas :: "cre_repo \<Rightarrow> seri \<Rightarrow> (cre_repo \<times> seri) undef" where
  "cre_metas r s = (case absorb_word (cr_default_meta r) s of (d, s) \<Rightarrow> do {
     (m, s) \<leftarrow> absorb_container do_state_for_a_metadata_entry new_meta (cr_meta_range r) s;
     (t, s) \<leftarrow> Some (absorb_word (cr_time_stamp r) s);
     Some (r\<lparr>cr_default_meta := d, cr_meta_range := m, cr_time_stamp := t\<rparr>, s)
   })"

definition cre_values :: "(u64 \<Rightarrow> u32) \<Rightarrow> (u32 \<Rightarrow> u64) \<Rightarrow> cre_repo \<Rightarrow> seri \<Rightarrow> (cre_repo \<times> seri) undef" where
  "cre_values narrow widen r s = do {
     (es, s) \<leftarrow> absorb_container (state_for_entry narrow widen) new_entry (cr_entries r) s;
     (ds, s) \<leftarrow> (if unat (cr_ver r) \<ge> 1 then absorb_container (plain absorb_word) 0 (cr_deleted_settings r) s
                 else Some (cr_deleted_settings r, s));
     Some (r\<lparr>cr_entries := es, cr_deleted_settings := ds\<rparr>, s)
   }"

definition do_state_for_cre :: "(u64 \<Rightarrow> u32) \<Rightarrow> (u32 \<Rightarrow> u64) \<Rightarrow> cre_repo \<Rightarrow> seri \<Rightarrow> (int \<times> cre_repo \<times> seri) undef" where
  "do_state_for_cre narrow widen r s = (case cre_head r s of (ok, r, s) \<Rightarrow>
     if \<not> ok then Some (-1, r, s)
     else do {
       (r, s) \<leftarrow> cre_policies r s;
       (r, s) \<leftarrow> cre_metas r s;
       (r, s) \<leftarrow> cre_values narrow widen r s;
       Some (0, r, s)
     })"

text \<open>The bytes of a repository's file; the repository changes.\<close>

definition cre_bytes :: "(u64 \<Rightarrow> u32) \<Rightarrow> (u32 \<Rightarrow> u64) \<Rightarrow> cre_repo \<Rightarrow> (u8 list \<times> cre_repo) undef" where
  "cre_bytes narrow widen r = do {
     (_, r, s) \<leftarrow> do_state_for_cre narrow widen r \<lparr>sr_mode = Seri_measure, sr_buf = [], sr_pos = 0\<rparr>;
     (_, r, s) \<leftarrow> do_state_for_cre narrow widen r \<lparr>sr_mode = Seri_write, sr_buf = replicate (sr_pos s) 0, sr_pos = 0\<rparr>;
     Some (sr_buf s, r)
   }"

definition cre_load :: "(u64 \<Rightarrow> u32) \<Rightarrow> (u32 \<Rightarrow> u64) \<Rightarrow> u8 list \<Rightarrow> cre_repo \<Rightarrow> (int \<times> cre_repo) undef" where
  "cre_load narrow widen bs r = map_option (\<lambda>(e, r, s). (e, r)) (do_state_for_cre narrow widen r \<lparr>sr_mode = Seri_read, sr_buf = bs, sr_pos = 0\<rparr>)"

end
