(* ===== verification/Seri_Rep.thy ===== *)
theory Seri_Rep
  imports Seri
begin

text \<open>
  The contract of the routines of \<open>Seri\<close> as a locale, how routines that keep it are put together, and the words, strings and
  lists that keep it.
\<close>

section \<open>The contract of a serialization routine\<close>

text \<open>Routines that agree in the three modes: the bytes \<open>enc x\<close> of a value \<open>x\<close> that is \<open>ok\<close> are counted, written and read
  back. Writing may change the value (\<open>post\<close>), and reading into \<open>y\<close> what was written of \<open>x\<close> gives \<open>merge x y\<close>, which is
  \<open>x\<close> unless parts of it are not stored; \<open>fits x y\<close> is what it needs of \<open>y\<close>.\<close>

abbreviation measuring :: "u8 list \<Rightarrow> nat \<Rightarrow> seri" where
  "measuring b p \<equiv> \<lparr>sr_mode = Seri_measure, sr_buf = b, sr_pos = p\<rparr>"

abbreviation writing :: "u8 list \<Rightarrow> nat \<Rightarrow> seri" where
  "writing b p \<equiv> \<lparr>sr_mode = Seri_write, sr_buf = b, sr_pos = p\<rparr>"

abbreviation reading :: "u8 list \<Rightarrow> nat \<Rightarrow> seri" where
  "reading b p \<equiv> \<lparr>sr_mode = Seri_read, sr_buf = b, sr_pos = p\<rparr>"

locale absorber =
  fixes A :: "'a \<Rightarrow> seri \<Rightarrow> ('a \<times> seri) undef" and enc :: "'a \<Rightarrow> u8 list" and ok :: "'a \<Rightarrow> bool"
    and post :: "'a \<Rightarrow> 'a" and merge :: "'a \<Rightarrow> 'a \<Rightarrow> 'a" and fits :: "'a \<Rightarrow> 'a \<Rightarrow> bool"
  assumes measures: "ok x \<Longrightarrow> A x (measuring b p) = Some (post x, measuring b (p + length (enc x)))"
    and writes: "ok x \<Longrightarrow> p + length (enc x) \<le> length b \<Longrightarrow>
      A x (writing b p) = Some (post x, writing (overwrite b p (enc x)) (p + length (enc x)))"
    and reads: "ok x \<Longrightarrow> fits x y \<Longrightarrow> drop p b = enc x @ rest \<Longrightarrow>
      A y (reading b p) = Some (merge x y, reading b (p + length (enc x)))"
begin

text \<open>What was written into a buffer of the size measured is read back.\<close>

lemma save:
  assumes "ok x"
  shows "A x (measuring [] 0) = Some (post x, measuring [] (length (enc x)))"
    and "A x (writing (replicate (length (enc x)) 0) 0) = Some (post x, writing (enc x) (length (enc x)))"
  using measures [OF assms, of "[]" 0] writes [OF assms, of 0 "replicate (length (enc x)) 0"] by (simp_all add: overwrite_def)

lemma load:
  assumes "ok x" and "fits x y"
  shows "A y (reading (enc x) 0) = Some (merge x y, reading (enc x) (length (enc x)))"
  using reads [OF assms, of 0 "enc x" "[]"] by simp

end

lemma overwrite_overwrite:
  "p + length xs + length ys \<le> length b \<Longrightarrow> overwrite (overwrite b p xs) (p + length xs) ys = overwrite b p (xs @ ys)"
  by (simp add: overwrite_def ac_simps)

lemma length_overwrite [simp]: "p + length xs \<le> length b \<Longrightarrow> length (overwrite b p xs) = length b"
  by (simp add: overwrite_def)

definition in_sequence :: "('a \<Rightarrow> seri \<Rightarrow> ('a \<times> seri) undef) \<Rightarrow> ('a \<Rightarrow> seri \<Rightarrow> ('a \<times> seri) undef) \<Rightarrow> 'a \<Rightarrow> seri \<Rightarrow> ('a \<times> seri) undef" where
  "in_sequence F G x s = do { (x, s) \<leftarrow> F x s; G x s }"

lemma absorber_sequence:
  assumes "absorber F eF okF pF mF fF" and "absorber G eG okG pG mG fG"
    and "\<And>x. okF x \<Longrightarrow> okG x \<Longrightarrow> okG (pF x) \<and> eG (pF x) = eG x"
    and "\<And>x y. ok x \<Longrightarrow> okF x \<and> okG x" and "\<And>x y. ok x \<Longrightarrow> fits x y \<Longrightarrow> fF x y \<and> fG x (mF x y)"
  shows "absorber (in_sequence F G) (\<lambda>x. eF x @ eG x) ok (\<lambda>x. pG (pF x)) (\<lambda>x y. mG x (mF x y)) fits"
proof
  note F = absorber.measures [OF assms(1)] absorber.writes [OF assms(1)] absorber.reads [OF assms(1)]
  note G = absorber.measures [OF assms(2)] absorber.writes [OF assms(2)] absorber.reads [OF assms(2)]
  fix x y :: 'a and b rest :: "u8 list" and p :: nat
  assume ok: "ok x"
  then have o': "okF x" "okG x" "okG (pF x)" "eG (pF x) = eG x" using assms(3,4) by blast+
  show "in_sequence F G x (measuring b p) = Some (pG (pF x), measuring b (p + length (eF x @ eG x)))"
    using F(1) [OF o'(1)] G(1) [OF o'(3)] o'(4) by (simp add: in_sequence_def add.assoc)
  show "in_sequence F G x (writing b p) = Some (pG (pF x), writing (overwrite b p (eF x @ eG x)) (p + length (eF x @ eG x)))"
    if "p + length (eF x @ eG x) \<le> length b"
    using that F(2) [OF o'(1), of p b] G(2) [OF o'(3), of "p + length (eF x)" "overwrite b p (eF x)"] o'(4)
    by (simp add: in_sequence_def overwrite_overwrite add.assoc)
  show "in_sequence F G y (reading b p) = Some (mG x (mF x y), reading b (p + length (eF x @ eG x)))"
    if "fits x y" "drop p b = (eF x @ eG x) @ rest"
  proof -
    have "F y (reading b p) = Some (mF x y, reading b (p + length (eF x)))"
      using F(3) [OF o'(1), of y p b "eG x @ rest"] that assms(5) [OF ok that(1)] by simp
    moreover have "drop (p + length (eF x)) b = eG x @ rest" using that(2) by (metis add.commute append_assoc append_eq_conv_conj drop_drop)
    then have "G (mF x y) (reading b (p + length (eF x))) = Some (mG x (mF x y), reading b (p + length (eF x) + length (eG x)))"
      using G(3) [OF o'(2)] assms(5) [OF ok that(1)] by blast
    ultimately show ?thesis by (simp add: in_sequence_def add.assoc)
  qed
qed

section \<open>Routines that keep the contract\<close>

lemma absorber_weaken:
  assumes "absorber A e ok p m f"
    and "\<And>x. ok' x \<Longrightarrow> ok x \<and> e' x = e x \<and> p' x = p x" and "\<And>x y. ok' x \<Longrightarrow> f' x y \<Longrightarrow> f x y \<and> m' x y = m x y"
  shows "absorber A e' ok' p' m' f'"
  using absorber.measures [OF assms(1)] absorber.writes [OF assms(1)] absorber.reads [OF assms(1)] assms(2,3)
  by unfold_locales (metis)+

lemma bytes_word_take:
  "bytes_word (map (\<lambda>i. ucast (drop_bit (8 * i) w)) [k..<k + n]) = take_bit (8 * n) (drop_bit (8 * k) (w :: 'a :: len word))"
proof (induction n arbitrary: k)
  case 0
  then show ?case by (simp add: bytes_word_def)
next
  case (Suc n)
  have "bytes_word (map (\<lambda>i. ucast (drop_bit (8 * i) w)) [k..<k + Suc n])
      = or (ucast (ucast (drop_bit (8 * k) w) :: u8)) (push_bit 8 (bytes_word (map (\<lambda>i. ucast (drop_bit (8 * i) w)) [Suc k..<Suc k + n])))"
    by (simp add: bytes_word_def upt_conv_Cons del: upt_Suc)
  also have "\<dots> = or (ucast (ucast (drop_bit (8 * k) w) :: u8)) (push_bit 8 (take_bit (8 * n) (drop_bit (8 * Suc k) w)))"
    by (simp only: Suc.IH)
  also have "\<dots> = take_bit (8 * Suc n) (drop_bit (8 * k) w)"
    by (rule bit_word_eqI) (auto simp: bit_simps)
  finally show ?case .
qed

lemma bytes_word_bytes [simp]: "8 dvd LENGTH('a) \<Longrightarrow> bytes_word (word_bytes (w :: 'a :: len word)) = w"
  using bytes_word_take [of w 0 "LENGTH('a) div 8"] by (simp add: word_bytes_def)

lemma length_word_bytes [simp]: "length (word_bytes (w :: 'a :: len word)) = LENGTH('a) div 8"
  by (simp add: word_bytes_def)

lemma absorber_word:
  assumes "8 dvd LENGTH('a :: len)"
  shows "absorber (plain (absorb_word :: 'a word \<Rightarrow> _)) word_bytes (\<lambda>_. True) (\<lambda>x. x) (\<lambda>x y. x) (\<lambda>_ _. True)"
proof
  fix x y :: "'a word" and b rest :: "u8 list" and p
  show "plain absorb_word x (measuring b p) = Some (x, measuring b (p + length (word_bytes x)))"
    using assms by (simp add: plain_def absorb_word_def absorb_impl_def)
  show "plain absorb_word x (writing b p) = Some (x, writing (overwrite b p (word_bytes x)) (p + length (word_bytes x)))"
    if "p + length (word_bytes x) \<le> length b"
    using assms that by (simp add: plain_def absorb_word_def absorb_impl_def)
  show "plain absorb_word y (reading b p) = Some (x, reading b (p + length (word_bytes x)))" if "drop p b = word_bytes x @ rest"
  proof -
    have "p + LENGTH('a) div 8 \<le> length b"
    proof -
      have "length (drop p b) \<ge> LENGTH('a) div 8" using that by simp
      moreover have "0 < LENGTH('a) div 8" using assms by (metis dvd_div_eq_0_iff len_not_eq_0 not_gr_zero)
      ultimately show ?thesis by simp
    qed
    then show ?thesis using assms that by (simp add: plain_def absorb_word_def absorb_impl_def)
  qed
qed

interpretation word8: absorber "plain (absorb_word :: u8 \<Rightarrow> _)" word_bytes "\<lambda>_. True" "\<lambda>x. x" "\<lambda>x y. x" "\<lambda>_ _. True"
  by (rule absorber_word, simp)

interpretation word32: absorber "plain (absorb_word :: u32 \<Rightarrow> _)" word_bytes "\<lambda>_. True" "\<lambda>x. x" "\<lambda>x y. x" "\<lambda>_ _. True"
  by (rule absorber_word, simp)

interpretation word64: absorber "plain (absorb_word :: u64 \<Rightarrow> _)" word_bytes "\<lambda>_. True" "\<lambda>x. x" "\<lambda>x y. x" "\<lambda>_ _. True"
  by (rule absorber_word, simp)

text \<open>A field of a record.\<close>

definition on_field :: "('r \<Rightarrow> 'v) \<Rightarrow> (('v \<Rightarrow> 'v) \<Rightarrow> 'r \<Rightarrow> 'r) \<Rightarrow> ('v \<Rightarrow> seri \<Rightarrow> ('v \<times> seri) undef) \<Rightarrow> 'r \<Rightarrow> seri \<Rightarrow> ('r \<times> seri) undef" where
  "on_field f upd A r s = do { (v, s) \<leftarrow> A (f r) s; Some (upd (\<lambda>_. v) r, s) }"

lemma absorber_field:
  assumes "absorber A e ok p m fi"
  shows "absorber (on_field f upd A) (\<lambda>r. e (f r)) (\<lambda>r. ok (f r)) (\<lambda>r. upd (\<lambda>_. p (f r)) r)
    (\<lambda>x y. upd (\<lambda>_. m (f x) (f y)) y) (\<lambda>x y. fi (f x) (f y))"
  using absorber.measures [OF assms] absorber.writes [OF assms] absorber.reads [OF assms]
  by unfold_locales (simp_all add: on_field_def)

definition on_condition :: "('a \<Rightarrow> bool) \<Rightarrow> ('a \<Rightarrow> seri \<Rightarrow> ('a \<times> seri) undef) \<Rightarrow> 'a \<Rightarrow> seri \<Rightarrow> ('a \<times> seri) undef" where
  "on_condition P F x s = (if P x then F x s else Some (x, s))"

lemma absorber_condition:
  assumes "absorber F e ok p m fi"
  shows "absorber (on_condition P F) (\<lambda>x. if P x then e x else []) (\<lambda>x. P x \<longrightarrow> ok x) (\<lambda>x. if P x then p x else x)
    (\<lambda>x y. if P x then m x y else y) (\<lambda>x y. P x = P y \<and> (P x \<longrightarrow> fi x y))"
  using absorber.measures [OF assms] absorber.writes [OF assms] absorber.reads [OF assms]
  by unfold_locales (auto simp: on_condition_def overwrite_def)

lemma absorber_each:
  assumes "absorber A e ok p m fi"
  shows "absorber (absorb_each A) (\<lambda>xs. concat (map e xs)) (\<lambda>xs. \<forall>x \<in> set xs. ok x) (map p) (\<lambda>xs ys. map2 m xs ys) (list_all2 fi)"
proof
  note A = absorber.measures [OF assms] absorber.writes [OF assms] absorber.reads [OF assms]
  fix xs ys :: "'a list" and b rest :: "u8 list" and q
  assume ok: "\<forall>x \<in> set xs. ok x"
  show "absorb_each A xs (measuring b q) = Some (map p xs, measuring b (q + length (concat (map e xs))))"
    using ok by (induction xs arbitrary: q) (simp_all add: A(1) add.assoc)
  show "absorb_each A xs (writing b q) = Some (map p xs, writing (overwrite b q (concat (map e xs))) (q + length (concat (map e xs))))"
    if "q + length (concat (map e xs)) \<le> length b"
    using ok that
  proof (induction xs arbitrary: b q)
    case Nil
    then show ?case by (simp add: overwrite_def)
  next
    case (Cons x xs)
    then have "A x (writing b q) = Some (p x, writing (overwrite b q (e x)) (q + length (e x)))" by (simp add: A(2))
    moreover have "absorb_each A xs (writing (overwrite b q (e x)) (q + length (e x)))
        = Some (map p xs, writing (overwrite (overwrite b q (e x)) (q + length (e x)) (concat (map e xs))) (q + length (e x) + length (concat (map e xs))))"
      using Cons.prems by (intro Cons.IH) simp_all
    ultimately show ?case using Cons.prems by (simp add: overwrite_overwrite add.assoc)
  qed
  show "absorb_each A ys (reading b q) = Some (map2 m xs ys, reading b (q + length (concat (map e xs))))"
    if "list_all2 fi xs ys" "drop q b = concat (map e xs) @ rest"
    using that ok
  proof (induction xs ys arbitrary: q rule: list_all2_induct)
    case (Cons x xs y ys)
    have d: "drop q b = e x @ concat (map e xs) @ rest" using Cons.prems(1) by simp
    then have "A y (reading b q) = Some (m x y, reading b (q + length (e x)))"
      using Cons.hyps(1) Cons.prems(2) A(3) [of x y q b "concat (map e xs) @ rest"] by simp
    moreover have "drop (q + length (e x)) b = concat (map e xs) @ rest" using d by (metis add.commute append_eq_conv_conj drop_drop)
    then have "absorb_each A ys (reading b (q + length (e x))) = Some (map2 m xs ys, reading b (q + length (e x) + length (concat (map e xs))))"
      using Cons.IH [of "q + length (e x)"] Cons.prems(2) by simp
    ultimately show ?case by (simp add: add.assoc)
  qed simp
qed

lemma absorb_size_laws:
  assumes "length xs < 2 ^ 32"
  shows "absorb_size xs (measuring b p) = (length xs, measuring b (p + 4))"
    and "p + 4 \<le> length b \<Longrightarrow> absorb_size xs (writing b p) = (length xs, writing (overwrite b p (word_bytes (of_nat (length xs) :: u32))) (p + 4))"
    and "drop p b = word_bytes (of_nat (length xs) :: u32) @ rest \<Longrightarrow> absorb_size ys (reading b p) = (length xs, reading b (p + 4))"
proof -
  have u: "unat (of_nat (length xs) :: u32) = length xs" using assms by (simp add: unat_of_nat take_bit_eq_mod)
  show "absorb_size xs (measuring b p) = (length xs, measuring b (p + 4))"
    using word32.measures [of "of_nat (length xs)" b p] u by (simp add: absorb_size_def plain_def)
  show "absorb_size xs (writing b p) = (length xs, writing (overwrite b p (word_bytes (of_nat (length xs) :: u32))) (p + 4))" if "p + 4 \<le> length b"
    using word32.writes [of p "of_nat (length xs)" b] that u by (simp add: absorb_size_def plain_def)
  show "absorb_size ys (reading b p) = (length xs, reading b (p + 4))" if "drop p b = word_bytes (of_nat (length xs) :: u32) @ rest"
    using word32.reads [OF _ _ that, of "of_nat (length ys)"] u by (simp add: absorb_size_def plain_def)
qed

lemma absorber_container:
  assumes "absorber A e ok p m fi"
  shows "absorber (absorb_container A d) (\<lambda>xs. word_bytes (of_nat (length xs) :: u32) @ concat (map e xs))
    (\<lambda>xs. length xs < 2 ^ 32 \<and> (\<forall>x \<in> set xs. ok x)) (map p) (\<lambda>xs ys. map2 m xs (resize d (length xs) ys))
    (\<lambda>xs ys. list_all2 fi xs (resize d (length xs) ys))"
proof
  note E = absorber.measures [OF absorber_each [OF assms]] absorber.writes [OF absorber_each [OF assms]] absorber.reads [OF absorber_each [OF assms]]
  fix xs ys :: "'a list" and b rest :: "u8 list" and q
  assume ok: "length xs < 2 ^ 32 \<and> (\<forall>x \<in> set xs. ok x)"
  let ?e = "\<lambda>xs. word_bytes (of_nat (length xs) :: u32) @ concat (map e xs)"
  show "absorb_container A d xs (measuring b q) = Some (map p xs, measuring b (q + length (?e xs)))"
    using ok absorb_size_laws(1) [of xs b q] E(1) [of xs b "q + 4"] by (simp add: absorb_container_def resize_read_def add.assoc)
  show "absorb_container A d xs (writing b q) = Some (map p xs, writing (overwrite b q (?e xs)) (q + length (?e xs)))"
    if "q + length (?e xs) \<le> length b"
  proof -
    let ?h = "word_bytes (of_nat (length xs) :: u32)"
    have "absorb_size xs (writing b q) = (length xs, writing (overwrite b q ?h) (q + 4))" using absorb_size_laws(2) [of xs q b] ok that by simp
    moreover have "absorb_each A xs (writing (overwrite b q ?h) (q + 4))
      = Some (map p xs, writing (overwrite (overwrite b q ?h) (q + 4) (concat (map e xs))) (q + 4 + length (concat (map e xs))))"
      using ok that by (intro E(2)) simp_all
    moreover have "overwrite (overwrite b q ?h) (q + 4) (concat (map e xs)) = overwrite b q (?e xs)"
      using overwrite_overwrite [of q ?h "concat (map e xs)" b] that by simp
    ultimately show ?thesis by (simp add: absorb_container_def resize_read_def add.assoc)
  qed
  show "absorb_container A d ys (reading b q) = Some (map2 m xs (resize d (length xs) ys), reading b (q + length (?e xs)))"
    if "list_all2 fi xs (resize d (length xs) ys)" "drop q b = ?e xs @ rest"
  proof -
    have "absorb_size ys (reading b q) = (length xs, reading b (q + 4))" using absorb_size_laws(3) [of xs q b "concat (map e xs) @ rest" ys] ok that(2) by simp
    moreover have "drop (q + 4) b = concat (map e xs) @ rest"
    proof -
      have "drop (q + 4) b = drop 4 (drop q b)" by (simp add: add.commute)
      also have "\<dots> = concat (map e xs) @ rest" unfolding that(2) by simp
      finally show ?thesis .
    qed
    then have "absorb_each A (resize d (length xs) ys) (reading b (q + 4))
      = Some (map2 m xs (resize d (length xs) ys), reading b (q + 4 + length (concat (map e xs))))"
      using ok that(1) by (intro E(3)) simp_all
    ultimately show ?thesis by (simp add: absorb_container_def resize_read_def add.assoc)
  qed
qed

section \<open>Strings\<close>

definition length_bytes :: "nat \<Rightarrow> u8 list" where
  "length_bytes L = (if L \<le> 0x7F then word_bytes (of_nat (2 * L) :: u8) else word_bytes (of_nat (4 * L + 1) :: u16))"

definition des_bytes :: "u8 list \<Rightarrow> u8 list" where
  "des_bytes str = length_bytes (2 * length str + 1) @ str"

lemma word_bytes_8: "word_bytes (w :: u8) = [w]"
  by (simp add: word_bytes_def)

lemma word_bytes_16: "word_bytes (w :: u16) = [ucast w, ucast (drop_bit 8 w)]"
  by (simp add: word_bytes_def upt_conv_Cons)

lemma unat_small: "n < 2 ^ LENGTH('a) \<Longrightarrow> unat (of_nat n :: 'a :: len word) = n"
  by (simp add: unat_of_nat take_bit_eq_mod)

interpretation word16: absorber "plain (absorb_word :: u16 \<Rightarrow> _)" word_bytes "\<lambda>_. True" "\<lambda>x. x" "\<lambda>x y. x" "\<lambda>_ _. True"
  by (rule absorber_word, simp)

lemma ucast_of_nat_small: "n < 2 ^ LENGTH('a) \<Longrightarrow> ucast (of_nat n :: 'a :: len word) = (of_nat n :: 'b :: len word)"
  by (simp add: unsigned_of_nat take_bit_eq_mod)

lemma length_word_forms:
  assumes "L \<le> 0x3FFF"
  shows "unat (of_nat L :: u32) = L"
    and "ucast (push_bit 1 (of_nat L :: u32)) = (of_nat (2 * L) :: u8)"
    and "ucast (push_bit 2 (of_nat L :: u32)) + 1 = (of_nat (4 * L + 1) :: u16)"
proof -
  show "unat (of_nat L :: u32) = L" using assms by (intro unat_small) simp
  have "push_bit 1 (of_nat L :: u32) = of_nat (2 * L)" "push_bit 2 (of_nat L :: u32) = of_nat (4 * L)"
    by (simp_all add: push_bit_eq_mult)
  moreover have "ucast (of_nat (2 * L) :: u32) = (of_nat (2 * L) :: u8)" "ucast (of_nat (4 * L) :: u32) = (of_nat (4 * L) :: u16)"
    using assms by (intro ucast_of_nat_small; simp)+
  ultimately show "ucast (push_bit 1 (of_nat L :: u32)) = (of_nat (2 * L) :: u8)"
    "ucast (push_bit 2 (of_nat L :: u32)) + 1 = (of_nat (4 * L + 1) :: u16)" by (simp_all only: of_nat_add of_nat_1)
qed

lemma absorb_length_laws:
  assumes "L \<le> 0x3FFF"
  shows "absorb_length (of_nat L) (measuring b p) = measuring b (p + length (length_bytes L))"
    and "p + length (length_bytes L) \<le> length b \<Longrightarrow>
      absorb_length (of_nat L) (writing b p) = writing (overwrite b p (length_bytes L)) (p + length (length_bytes L))"
proof -
  note f = length_word_forms [OF assms]
  show "absorb_length (of_nat L) (measuring b p) = measuring b (p + length (length_bytes L))"
    using assms word8.measures [of "of_nat (2 * L)" b p] word16.measures [of "of_nat (4 * L + 1)" b p]
    unfolding absorb_length_def length_bytes_def plain_def f by (simp del: of_nat_mult of_nat_add)
  show "absorb_length (of_nat L) (writing b p) = writing (overwrite b p (length_bytes L)) (p + length (length_bytes L))"
    if "p + length (length_bytes L) \<le> length b"
    using assms that word8.writes [of p "of_nat (2 * L)" b] word16.writes [of p "of_nat (4 * L + 1)" b]
    unfolding absorb_length_def length_bytes_def plain_def f by (simp del: of_nat_mult of_nat_add split: if_splits)
qed

lemma split_u16: "ucast (ucast w :: u8) + push_bit 8 (ucast (ucast (drop_bit 8 w) :: u8)) = (ucast (w :: u16) :: u32)"
proof -
  have "ucast (ucast w :: u8) + push_bit 8 (ucast (ucast (drop_bit 8 w) :: u8)) = or (ucast (ucast w :: u8)) (push_bit 8 (ucast (ucast (drop_bit 8 w) :: u8)) :: u32)"
    by (rule disjunctive_add_eq_or, rule bit_word_eqI) (auto simp: bit_simps)
  also have "\<dots> = ucast w"
  proof (rule bit_word_eqI)
    fix n
    assume "n < LENGTH(32)"
    then show "bit (or (ucast (ucast w :: u8)) (push_bit 8 (ucast (ucast (drop_bit 8 w) :: u8)) :: u32)) n = bit (ucast w :: u32) n"
      using bit_imp_le_length [of w n] by (cases "n < 8") (auto simp: bit_simps)
  qed
  finally show ?thesis .
qed

lemma read_length_law:
  assumes "L \<le> 0x3FFF" and "drop p b = length_bytes L @ rest"
  shows "read_length y (reading b p) = (of_nat L, reading b (p + length (length_bytes L)))"
proof (cases "L \<le> 0x7F")
  case True
  have u: "unat (of_nat (2 * L) :: u8) = 2 * L" using True by (intro unat_small) simp
  then have "drop_bit 1 (of_nat (2 * L) :: u8) = of_nat L" using True
    by (intro word_unat_eq_iff [THEN iffD2]) (simp only: drop_bit_eq_div unat_div u, simp add: unat_small)
  moreover have "ucast (of_nat L :: u8) = (of_nat L :: u32)" using True by (intro ucast_of_nat_small) simp
  moreover have "\<not> bit (of_nat (2 * L) :: u8) 0" by (simp add: bit_0)
  ultimately show ?thesis
    using True assms(2) word8.reads [of p b "of_nat (2 * L)" rest 0]
    by (simp add: read_length_def length_bytes_def plain_def del: of_nat_mult)
next
  case False
  let ?w = "of_nat (4 * L + 1) :: u16"
  have u: "unat ?w = 4 * L + 1" using assms(1) by (intro unat_small) simp
  have d: "drop p b = word_bytes (ucast ?w :: u8) @ ucast (drop_bit 8 ?w) # rest" "drop p b = [ucast ?w, ucast (drop_bit 8 ?w)] @ rest"
    using assms(2) False by (simp_all add: length_bytes_def word_bytes_8 word_bytes_16)
  have d2: "drop (p + 1) b = word_bytes (ucast (drop_bit 8 ?w) :: u8) @ rest"
    using d(2) by (simp add: word_bytes_8) (metis drop_Suc list.sel(3) tl_drop)
  have "bit ?w n = bit (4 * L + 1) n" for n by (subst u [symmetric]) (simp only: bit_unsigned_iff, simp)
  moreover have "(4 * L + 1) div 2 = 2 * L" by simp
  then have "bit (4 * L + 1) 0" "\<not> bit (4 * L + 1) 1" by (simp_all only: bit_iff_odd) simp_all
  ultimately have "bit ?w 0" "\<not> bit ?w 1" by simp_all
  then have c: "bit (ucast ?w :: u8) 0" "\<not> bit (ucast ?w :: u8) 1" by (simp_all add: bit_simps)
  have "drop_bit 2 (ucast ?w :: u32) = of_nat L"
    using u assms(1) by (intro word_unat_eq_iff [THEN iffD2]) (simp only: drop_bit_eq_div unat_div unsigned_ucast_eq, simp add: u unat_small take_bit_nat_eq_self del: of_nat_mult of_nat_add)
  then show ?thesis
    using False c word8.reads [OF _ _ d(1), of 0] word8.reads [OF _ _ d2, of "ucast ?w"] split_u16 [of ?w]
    by (simp add: read_length_def length_bytes_def plain_def del: of_nat_mult of_nat_add)
qed

lemma absorber_des_string:
  "absorber (plain absorb_des_string) des_bytes (\<lambda>str. length str < 0x2000) (\<lambda>x. x) (\<lambda>x y. x) (\<lambda>_ _. True)"
proof
  fix x y :: "u8 list" and b rest :: "u8 list" and p
  assume ok: "length x < 0x2000"
  let ?L = "2 * length x + 1"
  have L: "?L \<le> 0x3FFF" using ok by simp
  have len: "of_nat (length x) * 2 + 1 = (of_nat ?L :: u32)" by simp
  have tk: "take (unat (of_nat (length x) :: u32)) x = x" using ok by (simp add: unat_small)
  show "plain absorb_des_string x (measuring b p) = Some (x, measuring b (p + length (des_bytes x)))"
    unfolding plain_def absorb_des_string_def Let_def len tk
    using absorb_length_laws(1) [OF L, of b p] by (simp add: absorb_impl_def des_bytes_def add.assoc)
  show "plain absorb_des_string x (writing b p) = Some (x, writing (overwrite b p (des_bytes x)) (p + length (des_bytes x)))"
    if "p + length (des_bytes x) \<le> length b"
    unfolding plain_def absorb_des_string_def Let_def len tk
    using absorb_length_laws(2) [OF L, of p b] that by (simp add: Let_def absorb_impl_def des_bytes_def overwrite_overwrite add.assoc)
  show "plain absorb_des_string y (reading b p) = Some (x, reading b (p + length (des_bytes x)))" if d: "drop p b = des_bytes x @ rest"
  proof -
    have "read_length (of_nat (length y)) (reading b p) = (of_nat ?L, reading b (p + length (length_bytes ?L)))"
      using read_length_law [OF L] d by (simp add: des_bytes_def)
    moreover have "unat (drop_bit 1 (of_nat ?L :: u32)) = length x"
    proof -
      have "unat (of_nat ?L :: u32) = ?L" using ok by (intro unat_small) simp
      then show ?thesis by (simp only: drop_bit_eq_div unat_div) simp
    qed
    moreover have d2: "drop (p + length (length_bytes ?L)) b = x @ rest"
      using d by (simp add: des_bytes_def) (metis add.commute append_assoc append_eq_conv_conj drop_drop)
    moreover have "p + length (length_bytes ?L) + length x \<le> length b"
    proof -
      have "length (drop p b) \<ge> length (length_bytes ?L) + length x" "0 < length (length_bytes ?L)"
        by (simp_all add: d des_bytes_def) (simp add: length_bytes_def word_bytes_8 word_bytes_16)
      then show ?thesis by (cases "length b \<le> p") auto
    qed
    moreover have "length (resize 0 (length x) y) = length x" by (simp add: resize_def min_def)
    ultimately show ?thesis
      by (simp add: plain_def absorb_des_string_def Let_def absorb_impl_def des_bytes_def add.assoc)
  qed
qed

lemma absorber_des:
  "absorber (plain absorb_des) (\<lambda>x. des_bytes (replicate (length x) 0)) (\<lambda>x. length x = n) (\<lambda>x. replicate (length x) 0) (\<lambda>x y. y) (\<lambda>x y. length y = n)"
  if "n < 0x2000"
proof
  note D = absorber.measures [OF absorber_des_string] absorber.writes [OF absorber_des_string] absorber.reads [OF absorber_des_string]
  fix x y :: "u8 list" and b rest :: "u8 list" and p
  assume ok: "length x = n"
  let ?z = "replicate n 0 :: u8 list"
  show "plain absorb_des x (measuring b p) = Some (replicate (length x) 0, measuring b (p + length (des_bytes (replicate (length x) 0))))"
    using D(1) [of ?z b p] that ok by (simp add: plain_def absorb_des_def)
  show "plain absorb_des x (writing b p) = Some (replicate (length x) 0, writing (overwrite b p (des_bytes (replicate (length x) 0))) (p + length (des_bytes (replicate (length x) 0))))"
    if "p + length (des_bytes (replicate (length x) 0)) \<le> length b"
    using D(2) [of ?z p b] that ok \<open>n < 0x2000\<close> by (simp add: plain_def absorb_des_def)
  show "plain absorb_des y (reading b p) = Some (y, reading b (p + length (des_bytes (replicate (length x) 0))))"
    if "length y = n" "drop p b = des_bytes (replicate (length x) 0) @ rest"
    using D(3) [of ?z p b rest ?z] that ok \<open>n < 0x2000\<close> by (simp add: plain_def absorb_des_def)
qed

end
