(* ===== verification/Cre_Rep.thy ===== *)
theory Cre_Rep
  imports Seri_Rep
begin

text \<open>
  What files of the central repository and the saved states of kernel objects keep, from the contract of \<open>Seri_Rep\<close>.
\<close>

section \<open>The records of a repository\<close>

abbreviation absorb_of :: "('r \<Rightarrow> 'a :: len word) \<Rightarrow> (('a word \<Rightarrow> 'a word) \<Rightarrow> 'r \<Rightarrow> 'r) \<Rightarrow> 'r \<Rightarrow> seri \<Rightarrow> ('r \<times> seri) undef" where
  "absorb_of f upd \<equiv> on_field f upd (plain absorb_word)"

definition meta_bytes :: "cre_meta \<Rightarrow> u8 list" where
  "meta_bytes m = word_bytes (cm_low_key m) @ word_bytes (cm_high_key m) @ word_bytes (cm_key_mask m) @ word_bytes (cm_default_meta_data m)"

lemma absorber_meta: "absorber do_state_for_a_metadata_entry meta_bytes (\<lambda>_. True) (\<lambda>x. x) (\<lambda>x y. x) (\<lambda>_ _. True)"
proof -
  have f: "do_state_for_a_metadata_entry = in_sequence (absorb_of cm_low_key cm_low_key_update) (in_sequence (absorb_of cm_high_key cm_high_key_update)
     (in_sequence (absorb_of cm_key_mask cm_key_mask_update) (absorb_of cm_default_meta_data cm_default_meta_data_update)))"
    by (intro ext) (simp add: do_state_for_a_metadata_entry_def in_sequence_def on_field_def plain_def split: prod.splits)
  show ?thesis
    unfolding f
    by (rule absorber_weaken, (rule absorber_sequence absorber_field word32.absorber_axioms | simp add: meta_bytes_def)+)
qed

definition wipe :: "cre_policy \<Rightarrow> cre_policy" where
  "wipe p = p\<lparr>cp_read_access := replicate 8 0, cp_write_access := replicate 8 0\<rparr>"

definition policy_ok :: "cre_policy \<Rightarrow> bool" where
  "policy_ok p \<longleftrightarrow> length (cp_read_access p) = 8 \<and> length (cp_write_access p) = 8"

definition policy_bytes :: "cre_policy \<Rightarrow> u8 list" where
  "policy_bytes p = word_bytes (cp_low_key p) @ word_bytes (cp_high_key p) @ word_bytes (cp_key_mask p)
     @ des_bytes (replicate 8 0) @ des_bytes (replicate 8 0)"

definition with_access_of :: "cre_policy \<Rightarrow> cre_policy \<Rightarrow> cre_policy" where
  "with_access_of x y = x\<lparr>cp_read_access := cp_read_access y, cp_write_access := cp_write_access y\<rparr>"

lemma absorber_des_8: "absorber (plain absorb_des) (\<lambda>_. des_bytes (replicate 8 0)) (\<lambda>x. length x = 8) (\<lambda>_. replicate 8 0) (\<lambda>x y. y) (\<lambda>x y. length y = 8)"
  by (rule absorber_weaken [OF absorber_des [of 8]]) simp_all

lemma absorber_policy: "absorber state_for_a_policy policy_bytes policy_ok wipe with_access_of (\<lambda>x y. policy_ok y)"
proof -
  have f: "state_for_a_policy = in_sequence (absorb_of cp_low_key cp_low_key_update) (in_sequence (absorb_of cp_high_key cp_high_key_update)
     (in_sequence (absorb_of cp_key_mask cp_key_mask_update) (in_sequence (on_field cp_read_access cp_read_access_update (plain absorb_des))
       (on_field cp_write_access cp_write_access_update (plain absorb_des)))))"
    by (intro ext) (simp add: state_for_a_policy_def in_sequence_def on_field_def plain_def split: prod.splits)
  have a: "absorber (in_sequence (on_field cp_read_access cp_read_access_update (plain absorb_des)) (on_field cp_write_access cp_write_access_update (plain absorb_des)))
      (\<lambda>_. des_bytes (replicate 8 0) @ des_bytes (replicate 8 0)) policy_ok wipe (\<lambda>_ y. y) (\<lambda>x y. policy_ok y)"
    by (rule absorber_weaken [OF absorber_sequence [OF absorber_field [OF absorber_des_8] absorber_field [OF absorber_des_8], where ok = policy_ok
        and fits = "\<lambda>_ y. policy_ok y"]]) (auto simp: policy_ok_def wipe_def)
  note w = absorber_field [OF word32.absorber_axioms]
  have b: "absorber (in_sequence (absorb_of cp_key_mask cp_key_mask_update) (in_sequence (on_field cp_read_access cp_read_access_update (plain absorb_des))
       (on_field cp_write_access cp_write_access_update (plain absorb_des)))) (\<lambda>x. word_bytes (cp_key_mask x) @ des_bytes (replicate 8 0) @ des_bytes (replicate 8 0))
     policy_ok wipe (\<lambda>x y. y\<lparr>cp_key_mask := cp_key_mask x\<rparr>) (\<lambda>x y. policy_ok y)"
    by (rule absorber_weaken [OF absorber_sequence [OF w a, where ok = policy_ok and fits = "\<lambda>_ y. policy_ok y"]]) (auto simp: policy_ok_def wipe_def)
  have c: "absorber (in_sequence (absorb_of cp_high_key cp_high_key_update) (in_sequence (absorb_of cp_key_mask cp_key_mask_update) (in_sequence (on_field cp_read_access cp_read_access_update (plain absorb_des))
       (on_field cp_write_access cp_write_access_update (plain absorb_des))))) (\<lambda>x. word_bytes (cp_high_key x) @ word_bytes (cp_key_mask x) @ des_bytes (replicate 8 0) @ des_bytes (replicate 8 0))
     policy_ok wipe (\<lambda>x y. y\<lparr>cp_high_key := cp_high_key x, cp_key_mask := cp_key_mask x\<rparr>) (\<lambda>x y. policy_ok y)"
    by (rule absorber_weaken [OF absorber_sequence [OF w b, where ok = policy_ok and fits = "\<lambda>_ y. policy_ok y"]]) (auto simp: policy_ok_def wipe_def)
  show ?thesis
    unfolding f
    by (rule absorber_weaken [OF absorber_sequence [OF w c, where ok = policy_ok and fits = "\<lambda>_ y. policy_ok y"]])
      (auto simp: policy_ok_def wipe_def policy_bytes_def with_access_of_def)
qed

text \<open>Values kept in another form.\<close>

definition converted :: "('v \<Rightarrow> 'w) \<Rightarrow> ('w \<Rightarrow> 'v) \<Rightarrow> ('w \<Rightarrow> seri \<Rightarrow> ('w \<times> seri) undef) \<Rightarrow> 'v \<Rightarrow> seri \<Rightarrow> ('v \<times> seri) undef" where
  "converted f g A v s = do { (w, s) \<leftarrow> A (f v) s; Some (g w, s) }"

lemma absorber_converted:
  assumes "absorber A e ok (\<lambda>x. x) (\<lambda>x y. x) (\<lambda>_ _. True)"
  shows "absorber (converted f g A) (\<lambda>v. e (f v)) (\<lambda>v. ok (f v) \<and> g (f v) = v) (\<lambda>x. x) (\<lambda>x y. x) (\<lambda>_ _. True)"
proof
  note A = absorber.measures [OF assms] absorber.writes [OF assms] absorber.reads [OF assms]
  fix x y and b rest :: "u8 list" and p
  assume ok: "ok (f x) \<and> g (f x) = x"
  show "converted f g A x (measuring b p) = Some (x, measuring b (p + length (e (f x))))"
    using ok A(1) [of "f x" b p] by (simp add: converted_def)
  show "converted f g A x (writing b p) = Some (x, writing (overwrite b p (e (f x))) (p + length (e (f x))))" if "p + length (e (f x)) \<le> length b"
    using that ok A(2) [of "f x" p b] by (simp add: converted_def)
  show "converted f g A y (reading b p) = Some (x, reading b (p + length (e (f x))))" if "drop p b = e (f x) @ rest"
    using that ok A(3) [OF _ _ that, of "f y"] by (simp add: converted_def)
qed

definition absorb_type :: "cre_type \<Rightarrow> seri \<Rightarrow> (cre_type \<times> seri) undef" where
  "absorb_type t s = do { (c, s) \<leftarrow> plain absorb_word (if sr_mode s \<noteq> Seri_read then type_code t else 0) s; Some (code_type c, s) }"

lemma absorber_type: "absorber absorb_type (\<lambda>t. [type_code t]) (\<lambda>t. t \<noteq> Cre_none) (\<lambda>x. x) (\<lambda>x y. x) (\<lambda>_ _. True)"
proof -
  have c: "code_type (type_code t) = t" if "t \<noteq> Cre_none" for t
    using that by (cases t) (simp_all add: code_type_def type_code_def)
  show ?thesis
    using word8.measures word8.writes word8.reads by unfold_locales (simp_all add: absorb_type_def word_bytes_8 c)
qed

definition entry_ok :: "(u64 \<Rightarrow> u32) \<Rightarrow> (u32 \<Rightarrow> u64) \<Rightarrow> cre_entry \<Rightarrow> bool" where
  "entry_ok narrow widen e = (case ce_type e of Cre_none \<Rightarrow> False | Cre_integer \<Rightarrow> unat (ce_int e) < 2 ^ 32
     | Cre_real \<Rightarrow> widen (narrow (ce_real e)) = ce_real e | Cre_string \<Rightarrow> length (ce_str e) < 0x2000)"

definition value_bytes :: "(u64 \<Rightarrow> u32) \<Rightarrow> cre_entry \<Rightarrow> u8 list" where
  "value_bytes narrow e = (case ce_type e of Cre_none \<Rightarrow> [] | Cre_integer \<Rightarrow> word_bytes (ucast (ce_int e) :: u32)
     | Cre_real \<Rightarrow> word_bytes (narrow (ce_real e)) | Cre_string \<Rightarrow> des_bytes (ce_str e))"

definition entry_bytes :: "(u64 \<Rightarrow> u32) \<Rightarrow> cre_entry \<Rightarrow> u8 list" where
  "entry_bytes narrow e = word_bytes (ce_key e) @ word_bytes (ce_metadata_val e) @ type_code (ce_type e) # value_bytes narrow e"

text \<open>The value of an entry is that of its type; the others are not kept.\<close>

definition value_into :: "cre_entry \<Rightarrow> cre_entry \<Rightarrow> cre_entry" where
  "value_into x y = (case ce_type x of Cre_none \<Rightarrow> y | Cre_integer \<Rightarrow> y\<lparr>ce_int := ce_int x\<rparr> | Cre_real \<Rightarrow> y\<lparr>ce_real := ce_real x\<rparr>
     | Cre_string \<Rightarrow> y\<lparr>ce_str := ce_str x\<rparr>)"

definition entry_into :: "cre_entry \<Rightarrow> cre_entry \<Rightarrow> cre_entry" where
  "entry_into x y = value_into x (y\<lparr>ce_key := ce_key x, ce_metadata_val := ce_metadata_val x, ce_type := ce_type x\<rparr>)"

definition absorb_value :: "(u64 \<Rightarrow> u32) \<Rightarrow> (u32 \<Rightarrow> u64) \<Rightarrow> cre_entry \<Rightarrow> seri \<Rightarrow> (cre_entry \<times> seri) undef" where
  "absorb_value narrow widen e s = (case ce_type e of
       Cre_integer \<Rightarrow> on_field ce_int ce_int_update (converted ucast ucast (plain (absorb_word :: u32 \<Rightarrow> _))) e s
     | Cre_real \<Rightarrow> on_field ce_real ce_real_update (converted narrow widen (plain absorb_word)) e s
     | Cre_string \<Rightarrow> on_field ce_str ce_str_update (plain absorb_des_string) e s
     | Cre_none \<Rightarrow> Some (e, s))"

lemma ucast_ucast_small: "unat (w :: u64) < 2 ^ 32 \<Longrightarrow> ucast (ucast w :: u32) = w"
  by (intro word_unat_eq_iff [THEN iffD2]) (simp add: unsigned_ucast_eq unsigned_take_bit_eq take_bit_nat_eq_self)

lemma absorber_value:
  "absorber (absorb_value narrow widen) (value_bytes narrow) (entry_ok narrow widen) (\<lambda>x. x) value_into (\<lambda>x y. ce_type x = ce_type y)"
proof -
  note i = absorber_field [OF absorber_converted [OF word32.absorber_axioms], of ce_int ce_int_update ucast ucast]
  note r = absorber_field [OF absorber_converted [OF word32.absorber_axioms], of ce_real ce_real_update narrow widen]
  note s = absorber_field [OF absorber_des_string, of ce_str ce_str_update]
  show ?thesis
  proof
    fix x y :: cre_entry and b rest :: "u8 list" and p
    assume ok: "entry_ok narrow widen x"
    show "absorb_value narrow widen x (measuring b p) = Some (x, measuring b (p + length (value_bytes narrow x)))"
      using ok absorber.measures [OF i, of x b p] absorber.measures [OF r, of x b p] absorber.measures [OF s, of x b p]
      by (cases "ce_type x") (simp_all add: entry_ok_def absorb_value_def value_bytes_def ucast_ucast_small)
    show "absorb_value narrow widen x (writing b p) = Some (x, writing (overwrite b p (value_bytes narrow x)) (p + length (value_bytes narrow x)))"
      if "p + length (value_bytes narrow x) \<le> length b"
      using that ok absorber.writes [OF i, of x p b] absorber.writes [OF r, of x p b] absorber.writes [OF s, of x p b]
      by (cases "ce_type x") (simp_all add: entry_ok_def absorb_value_def value_bytes_def ucast_ucast_small)
    show "absorb_value narrow widen y (reading b p) = Some (value_into x y, reading b (p + length (value_bytes narrow x)))"
      if "ce_type x = ce_type y" "drop p b = value_bytes narrow x @ rest"
      using that ok absorber.reads [OF i, where x = x and y = y and p = p and b = b and rest = rest] absorber.reads [OF r, where x = x and y = y and p = p and b = b and rest = rest]
        absorber.reads [OF s, where x = x and y = y and p = p and b = b and rest = rest]
      by (cases "ce_type x") (simp_all add: entry_ok_def absorb_value_def value_bytes_def value_into_def ucast_ucast_small)
  qed
qed

lemma absorber_entry:
  "absorber (state_for_entry narrow widen) (entry_bytes narrow) (entry_ok narrow widen) (\<lambda>x. x) entry_into (\<lambda>_ _. True)"
proof -
  have f: "state_for_entry narrow widen = in_sequence (absorb_of ce_key ce_key_update) (in_sequence (absorb_of ce_metadata_val ce_metadata_val_update)
     (in_sequence (on_field ce_type ce_type_update absorb_type) (absorb_value narrow widen)))"
    by (intro ext) (simp add: state_for_entry_def in_sequence_def on_field_def plain_def absorb_type_def absorb_value_def converted_def Let_def
        split: prod.splits cre_type.splits)
  let ?ok = "entry_ok narrow widen"
  note w = absorber_field [OF word32.absorber_axioms]
  have a: "absorber (in_sequence (on_field ce_type ce_type_update absorb_type) (absorb_value narrow widen)) (\<lambda>x. type_code (ce_type x) # value_bytes narrow x) ?ok (\<lambda>x. x)
      (\<lambda>x y. value_into x (y\<lparr>ce_type := ce_type x\<rparr>)) (\<lambda>_ _. True)"
    by (rule absorber_weaken [OF absorber_sequence [OF absorber_field [OF absorber_type] absorber_value, where ok = ?ok and fits = "\<lambda>_ _. True"]])
      (auto simp: entry_ok_def)
  have b: "absorber (in_sequence (absorb_of ce_metadata_val ce_metadata_val_update) (in_sequence (on_field ce_type ce_type_update absorb_type) (absorb_value narrow widen)))
      (\<lambda>x. word_bytes (ce_metadata_val x) @ type_code (ce_type x) # value_bytes narrow x) ?ok (\<lambda>x. x)
      (\<lambda>x y. value_into x (y\<lparr>ce_metadata_val := ce_metadata_val x, ce_type := ce_type x\<rparr>)) (\<lambda>_ _. True)"
    by (rule absorber_weaken [OF absorber_sequence [OF w a, where ok = ?ok and fits = "\<lambda>_ _. True"]]) auto
  show ?thesis
    unfolding f
    by (rule absorber_weaken [OF absorber_sequence [OF w b, where ok = ?ok and fits = "\<lambda>_ _. True"]]) (auto simp: entry_into_def entry_bytes_def)
qed

section \<open>Files of repositories\<close>

definition check :: "u32 \<Rightarrow> 'r \<Rightarrow> seri \<Rightarrow> ('r \<times> seri) undef" where
  "check c r s = do { (u, s) \<leftarrow> plain absorb_word c s; guard (u = c); Some (r, s) }"

lemma absorber_check: "absorber (check c) (\<lambda>_. word_bytes c) (\<lambda>_. True) (\<lambda>x. x) (\<lambda>x y. y) (\<lambda>_ _. True)"
proof
  fix x y :: 'a and b rest :: "u8 list" and p
  show "check c x (measuring b p) = Some (x, measuring b (p + length (word_bytes c)))"
    using word32.measures [of c b p] by (simp add: check_def)
  show "check c x (writing b p) = Some (x, writing (overwrite b p (word_bytes c)) (p + length (word_bytes c)))" if "p + length (word_bytes c) \<le> length b"
    using word32.writes [of p c b] that by (simp add: check_def)
  show "check c y (reading b p) = Some (y, reading b (p + length (word_bytes c)))" if "drop p b = word_bytes c @ rest"
    using word32.reads [OF _ _ that, of c] by (simp add: check_def)
qed

lemma resize_all: "\<lbrakk>\<forall>y \<in> set ys. P y; P d; n = length xs\<rbrakk> \<Longrightarrow> list_all2 (\<lambda>_. P) xs (resize d n ys)"
  by (auto simp: list_all2_conv_all_nth resize_def nth_append min_def)

definition policies_bytes :: "cre_policy list \<Rightarrow> u8 list" where
  "policies_bytes ps = word_bytes (of_nat (length ps) :: u32) @ concat (map policy_bytes ps)"

definition policies_ok :: "cre_policy list \<Rightarrow> bool" where
  "policies_ok ps \<longleftrightarrow> length ps < 2 ^ 32 \<and> list_all policy_ok ps"

definition policies_into :: "cre_policy list \<Rightarrow> cre_policy list \<Rightarrow> cre_policy list" where
  "policies_into xs ys = map2 with_access_of xs (resize new_policy (length xs) ys)"

lemma absorber_policies:
  "absorber (absorb_container state_for_a_policy new_policy) policies_bytes policies_ok (map wipe) policies_into (\<lambda>_ ys. list_all policy_ok ys)"
  by (rule absorber_weaken [OF absorber_container [OF absorber_policy, of new_policy]])
    (auto simp: policies_bytes_def policies_ok_def policies_into_def list_all_iff policy_ok_def new_policy_def intro!: resize_all)

definition repo_head :: "cre_repo \<Rightarrow> u8 list" where
  "repo_head r = word_bytes (0x10000037 :: u32) @ word_bytes (0 :: u32) @ word_bytes (0x10202BE9 :: u32) @ word_bytes (0xCC776985 :: u32)
     @ word_bytes (0x14 :: u32) @ word_bytes (cr_ver r) @ word_bytes (cr_uid r)
     @ (if unat (cr_ver r) \<ge> 3 then word_bytes (cr_keyspace_type r) else []) @ word_bytes (cr_owner_uid r)"

definition head_into :: "cre_repo \<Rightarrow> cre_repo \<Rightarrow> cre_repo" where
  "head_into x y = y\<lparr>cr_ver := cr_ver x, cr_uid := cr_uid x, cr_owner_uid := cr_owner_uid x,
     cr_keyspace_type := (if unat (cr_ver x) \<ge> 3 then cr_keyspace_type x else cr_keyspace_type y)\<rparr>"

abbreviation head_sequence :: "cre_repo \<Rightarrow> seri \<Rightarrow> (cre_repo \<times> seri) undef" where
  "head_sequence \<equiv> in_sequence (check 0x10000037) (in_sequence (check 0) (in_sequence (check 0x10202BE9) (in_sequence (check 0xCC776985)
     (in_sequence (check 0x14) (in_sequence (absorb_of cr_ver cr_ver_update) (in_sequence (absorb_of cr_uid cr_uid_update)
     (in_sequence (on_condition (\<lambda>r. unat (cr_ver r) \<ge> 3) (absorb_of cr_keyspace_type cr_keyspace_type_update)) (absorb_of cr_owner_uid cr_owner_uid_update))))))))"

lemma head_of_sequence: "head_sequence r s = Some (r', s') \<Longrightarrow> cre_head r s = (True, r', s')"
  by (auto simp: in_sequence_def check_def on_condition_def on_field_def plain_def cre_head_def guard_def
      split: prod.splits if_splits bind_splits)

lemma absorber_head: "absorber head_sequence repo_head (\<lambda>_. True) (\<lambda>x. x) head_into (\<lambda>_ _. True)"
proof -
  let ?ok = "\<lambda>_. True" and ?fi = "\<lambda>_ _. True"
  note k = absorber_check
  note seq = absorber_sequence [where ok = ?ok and fits = ?fi]
  have a: "absorber (in_sequence (on_condition (\<lambda>r. unat (cr_ver r) \<ge> 3) (absorb_of cr_keyspace_type cr_keyspace_type_update)) (absorb_of cr_owner_uid cr_owner_uid_update))
     (\<lambda>r. (if unat (cr_ver r) \<ge> 3 then word_bytes (cr_keyspace_type r) else []) @ word_bytes (cr_owner_uid r)) ?ok (\<lambda>x. x)
     (\<lambda>x y. y\<lparr>cr_keyspace_type := (if unat (cr_ver x) \<ge> 3 then cr_keyspace_type x else cr_keyspace_type y), cr_owner_uid := cr_owner_uid x\<rparr>)
     (\<lambda>x y. cr_ver x = cr_ver y)"
    by (rule absorber_weaken [OF absorber_sequence [OF absorber_condition [OF absorber_field [OF word8.absorber_axioms]] absorber_field [OF word32.absorber_axioms],
          where ok = ?ok and fits = "\<lambda>x y. cr_ver x = cr_ver y"]]) auto
  have b: "absorber (in_sequence (absorb_of cr_uid cr_uid_update) (in_sequence (on_condition (\<lambda>r. unat (cr_ver r) \<ge> 3)
     (absorb_of cr_keyspace_type cr_keyspace_type_update)) (absorb_of cr_owner_uid cr_owner_uid_update)))
     (\<lambda>r. word_bytes (cr_uid r) @ (if unat (cr_ver r) \<ge> 3 then word_bytes (cr_keyspace_type r) else []) @ word_bytes (cr_owner_uid r)) ?ok (\<lambda>x. x)
     (\<lambda>x y. y\<lparr>cr_uid := cr_uid x, cr_keyspace_type := (if unat (cr_ver x) \<ge> 3 then cr_keyspace_type x else cr_keyspace_type y), cr_owner_uid := cr_owner_uid x\<rparr>)
     (\<lambda>x y. cr_ver x = cr_ver y)"
    by (rule absorber_weaken [OF absorber_sequence [OF absorber_field [OF word32.absorber_axioms] a, where ok = ?ok and fits = "\<lambda>x y. cr_ver x = cr_ver y"]]) auto
  have c: "absorber (in_sequence (absorb_of cr_ver cr_ver_update) (in_sequence (absorb_of cr_uid cr_uid_update) (in_sequence (on_condition (\<lambda>r. unat (cr_ver r) \<ge> 3)
     (absorb_of cr_keyspace_type cr_keyspace_type_update)) (absorb_of cr_owner_uid cr_owner_uid_update))))
     (\<lambda>r. word_bytes (cr_ver r) @ word_bytes (cr_uid r) @ (if unat (cr_ver r) \<ge> 3 then word_bytes (cr_keyspace_type r) else []) @ word_bytes (cr_owner_uid r)) ?ok (\<lambda>x. x)
     head_into ?fi"
    by (rule absorber_weaken [OF seq [OF absorber_field [OF word8.absorber_axioms] b]]) (auto simp: head_into_def)
  show ?thesis
    by (rule absorber_weaken [OF seq [OF k seq [OF k seq [OF k seq [OF k seq [OF k c]]]]]]) (simp_all add: repo_head_def)
qed

definition access_bytes :: "u8 list" where
  "access_bytes = des_bytes (replicate 8 0) @ des_bytes (replicate 8 0)"

definition repo_policies :: "cre_repo \<Rightarrow> u8 list" where
  "repo_policies r = policies_bytes (cr_single_policies r) @ policies_bytes (cr_policies_range r) @ access_bytes
     @ (if unat (cr_ver r) \<ge> 2 then word_bytes (cp_high_key (cr_default_policy r)) @ word_bytes (cp_key_mask (cr_default_policy r)) else [])"

definition repo_policies_ok :: "cre_repo \<Rightarrow> bool" where
  "repo_policies_ok r \<longleftrightarrow> policies_ok (cr_single_policies r) \<and> policies_ok (cr_policies_range r) \<and> policy_ok (cr_default_policy r)"

definition repo_wipe :: "cre_repo \<Rightarrow> cre_repo" where
  "repo_wipe r = r\<lparr>cr_single_policies := map wipe (cr_single_policies r), cr_policies_range := map wipe (cr_policies_range r),
     cr_default_policy := wipe (cr_default_policy r)\<rparr>"

definition default_into :: "bool \<Rightarrow> cre_policy \<Rightarrow> cre_policy \<Rightarrow> cre_policy" where
  "default_into b x y = (if b then y\<lparr>cp_high_key := cp_high_key x, cp_key_mask := cp_key_mask x\<rparr> else y)"

definition repo_policies_into :: "cre_repo \<Rightarrow> cre_repo \<Rightarrow> cre_repo" where
  "repo_policies_into x y = y\<lparr>cr_single_policies := policies_into (cr_single_policies x) (cr_single_policies y),
     cr_policies_range := policies_into (cr_policies_range x) (cr_policies_range y),
     cr_default_policy := default_into (unat (cr_ver x) \<ge> 2) (cr_default_policy x) (cr_default_policy y)\<rparr>"

definition policies_fit :: "cre_repo \<Rightarrow> bool" where
  "policies_fit r \<longleftrightarrow> list_all policy_ok (cr_single_policies r) \<and> list_all policy_ok (cr_policies_range r) \<and> policy_ok (cr_default_policy r)"

lemma absorber_access:
  "absorber (in_sequence (on_field cp_read_access cp_read_access_update (plain absorb_des)) (on_field cp_write_access cp_write_access_update (plain absorb_des)))
      (\<lambda>_. access_bytes) policy_ok wipe (\<lambda>_ y. y) (\<lambda>x y. policy_ok y)"
  by (rule absorber_weaken [OF absorber_sequence [OF absorber_field [OF absorber_des_8] absorber_field [OF absorber_des_8], where ok = policy_ok
        and fits = "\<lambda>_ y. policy_ok y"]]) (auto simp: policy_ok_def wipe_def access_bytes_def)

abbreviation policies_sequence :: "cre_repo \<Rightarrow> seri \<Rightarrow> (cre_repo \<times> seri) undef" where
  "policies_sequence \<equiv> in_sequence (on_field cr_single_policies cr_single_policies_update (absorb_container state_for_a_policy new_policy))
     (in_sequence (on_field cr_policies_range cr_policies_range_update (absorb_container state_for_a_policy new_policy))
     (in_sequence (on_field cr_default_policy cr_default_policy_update (in_sequence (on_field cp_read_access cp_read_access_update (plain absorb_des))
       (on_field cp_write_access cp_write_access_update (plain absorb_des))))
     (on_condition (\<lambda>r. unat (cr_ver r) \<ge> 2) (on_field cr_default_policy cr_default_policy_update
       (in_sequence (absorb_of cp_high_key cp_high_key_update) (absorb_of cp_key_mask cp_key_mask_update))))))"

lemma cre_policies_sequence: "cre_policies = policies_sequence"
  by (intro ext) (simp add: cre_policies_def in_sequence_def on_field_def on_condition_def plain_def Let_def split: prod.splits bind_splits)

lemma absorber_default_keys:
  "absorber (on_condition (\<lambda>r. unat (cr_ver r) \<ge> 2) (on_field cr_default_policy cr_default_policy_update
       (in_sequence (absorb_of cp_high_key cp_high_key_update) (absorb_of cp_key_mask cp_key_mask_update))))
     (\<lambda>r. if unat (cr_ver r) \<ge> 2 then word_bytes (cp_high_key (cr_default_policy r)) @ word_bytes (cp_key_mask (cr_default_policy r)) else [])
     (\<lambda>_. True) (\<lambda>x. x) (\<lambda>x y. y\<lparr>cr_default_policy := default_into (unat (cr_ver x) \<ge> 2) (cr_default_policy x) (cr_default_policy y)\<rparr>)
     (\<lambda>x y. cr_ver x = cr_ver y)"
proof -
  note w = absorber_field [OF word32.absorber_axioms]
  have a: "absorber (in_sequence (absorb_of cp_high_key cp_high_key_update) (absorb_of cp_key_mask cp_key_mask_update))
     (\<lambda>p. word_bytes (cp_high_key p) @ word_bytes (cp_key_mask p)) (\<lambda>_. True) (\<lambda>x. x) (default_into True) (\<lambda>_ _. True)"
    by (rule absorber_weaken [OF absorber_sequence [OF w w, where ok = "\<lambda>_. True" and fits = "\<lambda>_ _. True"]]) (auto simp: default_into_def)
  show ?thesis
    by (rule absorber_weaken [OF absorber_condition [OF absorber_field [OF a]]]) (auto simp: default_into_def)
qed

lemma absorber_repo_policies:
  "absorber cre_policies repo_policies repo_policies_ok repo_wipe repo_policies_into (\<lambda>x y. cr_ver x = cr_ver y \<and> policies_fit y)"
proof -
  let ?f1 = "\<lambda>x y. cr_ver x = cr_ver y \<and> policy_ok (cr_default_policy y)"
  let ?f2 = "\<lambda>x y. cr_ver x = cr_ver y \<and> policy_ok (cr_default_policy y) \<and> list_all policy_ok (cr_policies_range y)"
  let ?keys = "\<lambda>r. if unat (cr_ver r) \<ge> 2 then word_bytes (cp_high_key (cr_default_policy r)) @ word_bytes (cp_key_mask (cr_default_policy r)) else []"
  let ?d = "\<lambda>x y. default_into (unat (cr_ver x) \<ge> 2) (cr_default_policy x) (cr_default_policy y)"
  note seq = absorber_sequence [where ok = repo_policies_ok]
  note c = absorber_field [OF absorber_policies]
  note a = absorber_weaken [OF seq [OF absorber_field [OF absorber_access] absorber_default_keys, where fits = ?f1],
      where ok' = repo_policies_ok and f' = ?f1 and e' = "\<lambda>r. access_bytes @ ?keys r" and p' = "\<lambda>r. r\<lparr>cr_default_policy := wipe (cr_default_policy r)\<rparr>"
      and m' = "\<lambda>x y. y\<lparr>cr_default_policy := ?d x y\<rparr>"]
  note b = absorber_weaken [OF seq [OF c a, where fits = ?f2], where ok' = repo_policies_ok and f' = ?f2
      and e' = "\<lambda>r. policies_bytes (cr_policies_range r) @ access_bytes @ ?keys r"
      and p' = "\<lambda>r. r\<lparr>cr_policies_range := map wipe (cr_policies_range r), cr_default_policy := wipe (cr_default_policy r)\<rparr>"
      and m' = "\<lambda>x y. y\<lparr>cr_policies_range := policies_into (cr_policies_range x) (cr_policies_range y), cr_default_policy := ?d x y\<rparr>"]
  show ?thesis
    unfolding cre_policies_sequence
    by (rule absorber_weaken [OF seq [OF c b, where fits = "\<lambda>x y. cr_ver x = cr_ver y \<and> policies_fit y"]])
      (auto simp: repo_policies_ok_def policies_fit_def wipe_def policy_ok_def repo_policies_def repo_wipe_def repo_policies_into_def policies_ok_def list_all_iff)
qed

definition repo_metas :: "cre_repo \<Rightarrow> u8 list" where
  "repo_metas r = word_bytes (cr_default_meta r) @ (word_bytes (of_nat (length (cr_meta_range r)) :: u32) @ concat (map meta_bytes (cr_meta_range r)))
     @ word_bytes (cr_time_stamp r)"

definition repo_metas_ok :: "cre_repo \<Rightarrow> bool" where
  "repo_metas_ok r \<longleftrightarrow> length (cr_meta_range r) < 2 ^ 32"

definition repo_metas_into :: "cre_repo \<Rightarrow> cre_repo \<Rightarrow> cre_repo" where
  "repo_metas_into x y = y\<lparr>cr_default_meta := cr_default_meta x, cr_meta_range := cr_meta_range x, cr_time_stamp := cr_time_stamp x\<rparr>"

lemma length_resize [simp]: "length (resize d n xs) = n"
  by (simp add: resize_def)

lemma map2_first: "length xs = length ys \<Longrightarrow> map2 (\<lambda>x y. x) xs ys = xs"
  by (induction xs ys rule: list_induct2) simp_all

lemma absorber_whole_container:
  assumes "absorber A e ok (\<lambda>x. x) (\<lambda>x y. x) (\<lambda>_ _. True)"
  shows "absorber (absorb_container A d) (\<lambda>xs. word_bytes (of_nat (length xs) :: u32) @ concat (map e xs))
    (\<lambda>xs. length xs < 2 ^ 32 \<and> (\<forall>x \<in> set xs. ok x)) (\<lambda>xs. xs) (\<lambda>xs ys. xs) (\<lambda>_ _. True)"
  by (rule absorber_weaken [OF absorber_container [OF assms, of d]]) (simp_all add: map2_first list_all2_conv_all_nth)

lemma absorber_repo_metas: "absorber cre_metas repo_metas repo_metas_ok (\<lambda>x. x) repo_metas_into (\<lambda>_ _. True)"
proof -
  have f: "cre_metas = in_sequence (absorb_of cr_default_meta cr_default_meta_update)
     (in_sequence (on_field cr_meta_range cr_meta_range_update (absorb_container do_state_for_a_metadata_entry new_meta)) (absorb_of cr_time_stamp cr_time_stamp_update))"
    by (intro ext) (simp add: cre_metas_def in_sequence_def on_field_def plain_def split: prod.splits bind_splits)
  note seq = absorber_sequence [where ok = repo_metas_ok and fits = "\<lambda>_ _. True"]
  note m = absorber_field [OF absorber_whole_container [OF absorber_meta]]
  show ?thesis
    unfolding f
    by (rule absorber_weaken [OF seq [OF absorber_field [OF word32.absorber_axioms] seq [OF m absorber_field [OF word64.absorber_axioms]]]])
      (auto simp: repo_metas_ok_def repo_metas_def repo_metas_into_def)
qed

definition repo_values :: "(u64 \<Rightarrow> u32) \<Rightarrow> cre_repo \<Rightarrow> u8 list" where
  "repo_values narrow r = (word_bytes (of_nat (length (cr_entries r)) :: u32) @ concat (map (entry_bytes narrow) (cr_entries r)))
     @ (if unat (cr_ver r) \<ge> 1 then word_bytes (of_nat (length (cr_deleted_settings r)) :: u32) @ concat (map word_bytes (cr_deleted_settings r)) else [])"

definition repo_values_ok :: "(u64 \<Rightarrow> u32) \<Rightarrow> (u32 \<Rightarrow> u64) \<Rightarrow> cre_repo \<Rightarrow> bool" where
  "repo_values_ok narrow widen r \<longleftrightarrow> length (cr_entries r) < 2 ^ 32 \<and> list_all (entry_ok narrow widen) (cr_entries r) \<and> length (cr_deleted_settings r) < 2 ^ 32"

definition entries_into :: "cre_entry list \<Rightarrow> cre_entry list \<Rightarrow> cre_entry list" where
  "entries_into xs ys = map2 entry_into xs (resize new_entry (length xs) ys)"

definition repo_values_into :: "cre_repo \<Rightarrow> cre_repo \<Rightarrow> cre_repo" where
  "repo_values_into x y = y\<lparr>cr_entries := entries_into (cr_entries x) (cr_entries y),
     cr_deleted_settings := (if unat (cr_ver x) \<ge> 1 then cr_deleted_settings x else cr_deleted_settings y)\<rparr>"

lemma absorber_entries:
  "absorber (absorb_container (state_for_entry narrow widen) new_entry)
    (\<lambda>xs. word_bytes (of_nat (length xs) :: u32) @ concat (map (entry_bytes narrow) xs))
    (\<lambda>xs. length xs < 2 ^ 32 \<and> list_all (entry_ok narrow widen) xs) (\<lambda>xs. xs) entries_into (\<lambda>_ _. True)"
  by (rule absorber_weaken [OF absorber_container [OF absorber_entry, where d = new_entry]])
    (auto simp: list_all_iff entries_into_def list_all2_conv_all_nth)

lemma absorber_repo_values:
  "absorber (cre_values narrow widen) (repo_values narrow) (repo_values_ok narrow widen) (\<lambda>x. x) repo_values_into (\<lambda>x y. cr_ver x = cr_ver y)"
proof -
  have f: "cre_values narrow widen = in_sequence (on_field cr_entries cr_entries_update (absorb_container (state_for_entry narrow widen) new_entry))
     (on_condition (\<lambda>r. unat (cr_ver r) \<ge> 1) (on_field cr_deleted_settings cr_deleted_settings_update (absorb_container (plain absorb_word) 0)))"
    by (intro ext) (simp add: cre_values_def in_sequence_def on_field_def on_condition_def split: prod.splits bind_splits)
  show ?thesis
    unfolding f
    by (rule absorber_weaken [OF absorber_sequence [OF absorber_field [OF absorber_entries]
          absorber_condition [OF absorber_field [OF absorber_whole_container [OF word32.absorber_axioms]]],
          where ok = "repo_values_ok narrow widen" and fits = "\<lambda>x y. cr_ver x = cr_ver y"]])
      (auto simp: repo_values_ok_def repo_values_def repo_values_into_def)
qed

text \<open>A repository that can be kept, the bytes of its file, and what reading the file makes of another repository.\<close>

definition repo_ok :: "(u64 \<Rightarrow> u32) \<Rightarrow> (u32 \<Rightarrow> u64) \<Rightarrow> cre_repo \<Rightarrow> bool" where
  "repo_ok narrow widen r \<longleftrightarrow> repo_policies_ok r \<and> repo_metas_ok r \<and> repo_values_ok narrow widen r"

definition repo_bytes :: "(u64 \<Rightarrow> u32) \<Rightarrow> cre_repo \<Rightarrow> u8 list" where
  "repo_bytes narrow r = repo_head r @ repo_policies r @ repo_metas r @ repo_values narrow r"

definition repo_into :: "cre_repo \<Rightarrow> cre_repo \<Rightarrow> cre_repo" where
  "repo_into x y = repo_values_into x (repo_metas_into x (repo_policies_into x (head_into x y)))"

definition repo_sequence :: "(u64 \<Rightarrow> u32) \<Rightarrow> (u32 \<Rightarrow> u64) \<Rightarrow> cre_repo \<Rightarrow> seri \<Rightarrow> (cre_repo \<times> seri) undef" where
  "repo_sequence narrow widen = in_sequence head_sequence (in_sequence cre_policies (in_sequence cre_metas (cre_values narrow widen)))"

lemma repo_policies_ok_wipe: "repo_policies_ok r \<Longrightarrow> repo_policies_ok (repo_wipe r)"
  by (simp add: repo_policies_ok_def policies_ok_def repo_wipe_def wipe_def policy_ok_def list_all_iff)

lemma absorber_repo:
  "absorber (repo_sequence narrow widen) (repo_bytes narrow) (repo_ok narrow widen) repo_wipe repo_into (\<lambda>_. policies_fit)"
proof -
  let ?ok = "repo_ok narrow widen" and ?f = "\<lambda>x y. cr_ver x = cr_ver y"
  note seq = absorber_sequence [where ok = ?ok]
  note a = absorber_weaken [OF seq [OF absorber_repo_metas absorber_repo_values [of narrow widen], where fits = ?f],
      where ok' = ?ok and f' = ?f and e' = "\<lambda>r. repo_metas r @ repo_values narrow r" and p' = "\<lambda>r. r" and m' = "\<lambda>x y. repo_values_into x (repo_metas_into x y)"]
  note b = absorber_weaken [OF seq [OF absorber_repo_policies a, where fits = "\<lambda>x y. cr_ver x = cr_ver y \<and> policies_fit y"],
      where ok' = ?ok and f' = "\<lambda>x y. cr_ver x = cr_ver y \<and> policies_fit y"
      and e' = "\<lambda>r. repo_policies r @ repo_metas r @ repo_values narrow r" and p' = repo_wipe and m' = "\<lambda>x y. repo_values_into x (repo_metas_into x (repo_policies_into x y))"]
  show ?thesis
    unfolding repo_sequence_def
    by (rule absorber_weaken [OF seq [OF absorber_head b, where fits = "\<lambda>_. policies_fit"]])
      (auto simp: repo_ok_def repo_metas_ok_def repo_values_ok_def repo_wipe_def repo_policies_ok_wipe [unfolded repo_wipe_def] repo_metas_def repo_values_def repo_bytes_def repo_into_def
        head_into_def policies_fit_def repo_policies_into_def repo_metas_into_def)
qed

interpretation repository: absorber "repo_sequence narrow widen" "repo_bytes narrow" "repo_ok narrow widen" repo_wipe repo_into "\<lambda>_. policies_fit"
  for narrow widen
  by (rule absorber_repo)

lemma do_state_of_sequence: "repo_sequence narrow widen r s = Some (r', s') \<Longrightarrow> do_state_for_cre narrow widen r s = Some (0, r', s')"
proof -
  assume h: "repo_sequence narrow widen r s = Some (r', s')"
  then obtain r1 s1 where 1: "head_sequence r s = Some (r1, s1)"
      and 2: "in_sequence cre_policies (in_sequence cre_metas (cre_values narrow widen)) r1 s1 = Some (r', s')"
    unfolding repo_sequence_def in_sequence_def [of head_sequence] by (auto split: bind_splits)
  from 2 show ?thesis
    by (auto simp: do_state_for_cre_def head_of_sequence [OF 1] in_sequence_def split: bind_splits)
qed

lemma repo_wipe_wipe [simp]: "repo_wipe (repo_wipe r) = repo_wipe r"
  by (simp add: repo_wipe_def wipe_def)

lemma policy_bytes_wipe [simp]: "policy_bytes (wipe p) = policy_bytes p"
  by (simp add: policy_bytes_def wipe_def)

lemma repo_bytes_wipe [simp]: "repo_bytes narrow (repo_wipe r) = repo_bytes narrow r"
  by (simp add: repo_bytes_def repo_head_def repo_policies_def repo_metas_def repo_values_def repo_wipe_def policies_bytes_def comp_def) (simp add: wipe_def)

lemma repo_ok_wipe: "repo_ok narrow widen r \<Longrightarrow> repo_ok narrow widen (repo_wipe r)"
  by (simp add: repo_ok_def repo_policies_ok_wipe) (simp add: repo_metas_ok_def repo_values_ok_def repo_wipe_def)

lemma cre_saves:
  assumes "repo_ok narrow widen r"
  shows "cre_bytes narrow widen r = Some (repo_bytes narrow r, repo_wipe r)"
  using do_state_of_sequence [OF repository.save(1) [OF assms]] do_state_of_sequence [OF repository.save(2) [OF repo_ok_wipe [OF assms]]]
  by (simp add: cre_bytes_def)

lemma cre_loads:
  assumes "repo_ok narrow widen r" and "policies_fit y"
  shows "cre_load narrow widen (repo_bytes narrow r) y = Some (0, repo_into r y)"
  using do_state_of_sequence [OF repository.load [OF assms]] by (simp add: cre_load_def)

definition new_repo :: cre_repo where
  "new_repo = \<lparr>cr_ver = 0, cr_keyspace_type = 0, cr_uid = 0, cr_owner_uid = 0, cr_entries = [], cr_default_policy = new_policy,
     cr_single_policies = [], cr_policies_range = [], cr_default_meta = 0, cr_meta_range = [], cr_time_stamp = 0, cr_deleted_settings = []\<rparr>"

text \<open>What a file keeps of a repository: all but the access rights of the policies, the low key of the default policy, the
  values of an entry not of its type, and what its version has no place for.\<close>

definition stored :: "cre_repo \<Rightarrow> cre_repo" where
  "stored r = r\<lparr>cr_keyspace_type := (if unat (cr_ver r) \<ge> 3 then cr_keyspace_type r else 0),
     cr_entries := map (\<lambda>e. entry_into e new_entry) (cr_entries r),
     cr_default_policy := (if unat (cr_ver r) \<ge> 2
       then new_policy\<lparr>cp_high_key := cp_high_key (cr_default_policy r), cp_key_mask := cp_key_mask (cr_default_policy r)\<rparr> else new_policy),
     cr_single_policies := map wipe (cr_single_policies r), cr_policies_range := map wipe (cr_policies_range r),
     cr_deleted_settings := (if unat (cr_ver r) \<ge> 1 then cr_deleted_settings r else [])\<rparr>"

lemma map2_replicate: "map2 f xs (replicate (length xs) d) = map (\<lambda>x. f x d) xs"
  by (induction xs) simp_all

lemma with_access_of_new: "with_access_of p new_policy = wipe p"
  by (simp add: with_access_of_def new_policy_def wipe_def)

lemma repo_into_new: "repo_into r new_repo = stored r"
  by (simp add: repo_into_def repo_values_into_def repo_metas_into_def repo_policies_into_def head_into_def new_repo_def stored_def
      policies_into_def entries_into_def resize_def map2_replicate with_access_of_new default_into_def)

lemma policies_fit_new: "policies_fit new_repo"
  by (simp add: policies_fit_def new_repo_def policy_ok_def new_policy_def)

text \<open>C33. A repository within the bounds of the format (policies with access rights of 8 bytes, integers below \<open>2 ^ 32\<close>,
  reals that a \<open>float\<close> holds, strings of less than 0x2000 bytes, every entry of a type) is written to a file, and reading the file
  into a new repository gives \<^const>\<open>stored\<close> of it; writing zeroes the access rights of the policies, in the file and in the
  repository that is written.\<close>

theorem cre_roundtrip:
  assumes "repo_ok narrow widen r"
  shows "\<exists>bs. cre_bytes narrow widen r = Some (bs, repo_wipe r) \<and> cre_load narrow widen bs new_repo = Some (0, stored r)"
  using cre_saves [OF assms] cre_loads [OF assms policies_fit_new] by (simp add: repo_into_new)

definition sample_repo :: cre_repo where
  "sample_repo = new_repo\<lparr>cr_ver := 2, cr_uid := 7, cr_entries := [new_entry\<lparr>ce_key := 1, ce_type := Cre_string, ce_str := [65, 66]\<rparr>],
     cr_single_policies := [new_policy\<lparr>cp_read_access := replicate 8 3\<rparr>], cr_deleted_settings := [9]\<rparr>"

theorem cre_roundtrip_witness:
  "\<exists>bs. cre_bytes (\<lambda>_. 0) (\<lambda>_. 0) sample_repo = Some (bs, repo_wipe sample_repo) \<and> cre_load (\<lambda>_. 0) (\<lambda>_. 0) bs new_repo = Some (0, stored sample_repo)"
  by (rule cre_roundtrip) (simp add: sample_repo_def repo_ok_def repo_policies_ok_def repo_metas_ok_def repo_values_ok_def policies_ok_def policy_ok_def
      entry_ok_def new_repo_def new_policy_def new_entry_def)

text \<open>A file that does not start with the kind of a repository is refused with -1, and the repository keeps its values.\<close>

theorem foreign_file_refused:
  assumes "4 \<le> length bs" and "bytes_word (take 4 bs) \<noteq> (0x10000037 :: u32)"
  shows "cre_load narrow widen bs r = Some (-1, r)"
  using assms by (simp add: cre_load_def do_state_for_cre_def cre_head_def absorb_word_def absorb_impl_def Let_def split: prod.splits if_splits)

theorem foreign_file_refused_witness: "cre_load (\<lambda>_. 0) (\<lambda>_. 0) [1, 2, 3, 4] new_repo = Some (-1, new_repo)"
  by (rule foreign_file_refused) (simp_all add: bytes_word_def)

text \<open>At the end of the data, reading leaves everything as it was.\<close>

lemma absorb_word_empty: "8 dvd LENGTH('a) \<Longrightarrow> absorb_word (w :: 'a :: len word) (reading [] 0) = (w, reading [] 0)"
  by (auto simp: absorb_word_def absorb_impl_def Let_def elim!: dvdE)

lemma absorb_des_empty: "absorb_des d (reading [] 0) = (d, reading [] 0)"
  by (simp add: absorb_des_def absorb_des_string_def read_length_def absorb_word_empty absorb_impl_def resize_def)

lemma absorb_container_empty: "absorb_container A d [] (reading [] 0) = Some ([], reading [] 0)"
  by (simp add: absorb_container_def absorb_size_def absorb_word_empty resize_read_def resize_def)

theorem empty_file_accepted: "cre_load narrow widen [] new_repo = Some (0, new_repo)"
  by (simp add: cre_load_def do_state_for_cre_def cre_head_def cre_policies_def cre_metas_def cre_values_def new_repo_def absorb_word_empty
      absorb_des_empty absorb_container_empty)

section \<open>Kernel objects\<close>

lemma absorber_string:
  "absorber (plain absorb_string) (\<lambda>x. word_bytes (of_nat (length x) :: u32) @ x) (\<lambda>x. length x < 2 ^ 32) (\<lambda>x. x) (\<lambda>x y. x) (\<lambda>_ _. True)"
proof
  fix x y :: "u8 list" and b rest :: "u8 list" and p
  assume ok: "length x < 2 ^ 32"
  let ?h = "word_bytes (of_nat (length x) :: u32)"
  show "plain absorb_string x (measuring b p) = Some (x, measuring b (p + length (?h @ x)))"
    using absorb_size_laws(1) [OF ok, of b p] by (simp add: plain_def absorb_string_def resize_read_def absorb_prefix_def absorb_impl_def add.assoc)
  show "plain absorb_string x (writing b p) = Some (x, writing (overwrite b p (?h @ x)) (p + length (?h @ x)))" if "p + length (?h @ x) \<le> length b"
    using absorb_size_laws(2) [OF ok, of p b] that overwrite_overwrite [of p ?h x b]
    by (simp add: plain_def absorb_string_def resize_read_def absorb_prefix_def absorb_impl_def Let_def add.assoc)
  show "plain absorb_string y (reading b p) = Some (x, reading b (p + length (?h @ x)))" if d: "drop p b = (?h @ x) @ rest"
  proof -
    have "absorb_size y (reading b p) = (length x, reading b (p + 4))" using absorb_size_laws(3) [OF ok] d by simp
    moreover have "drop (p + 4) b = drop 4 (drop p b)" by (simp add: add.commute)
    then have "drop (p + 4) b = x @ rest" unfolding d by simp
    moreover have "p + 4 + length x \<le> length b"
    proof -
      have "length (drop p b) \<ge> 4 + length x" unfolding d by simp
      then show ?thesis by (cases "length b \<le> p") simp_all
    qed
    ultimately show ?thesis
      by (simp add: plain_def absorb_string_def resize_read_def absorb_prefix_def absorb_impl_def Let_def)
  qed
qed

lemma version_one [simp]: "(0 :: u16) <s 1" "\<not> (1 :: u16) <s 1"
  by (simp_all add: word_sless_alt)

definition in_section :: "u8 list \<Rightarrow> 'r \<Rightarrow> seri \<Rightarrow> ('r \<times> seri) undef" where
  "in_section name r s = do { (ok, s) \<leftarrow> open_section name 1 1 s; guard ok; Some (r, s) }"

lemma absorber_section: "absorber (in_section name) (\<lambda>_. name @ word_bytes (1 :: u16)) (\<lambda>_. True) (\<lambda>x. x) (\<lambda>x y. y) (\<lambda>_ _. True)"
proof
  note w = word16.measures [unfolded plain_def] word16.writes [unfolded plain_def] word16.reads [unfolded plain_def]
  fix x y :: 'a and b rest :: "u8 list" and p
  show "in_section name x (measuring b p) = Some (x, measuring b (p + length (name @ word_bytes (1 :: u16))))"
    using w(1) [of 1 b "p + length name"] by (simp add: in_section_def open_section_def expect_def add.assoc)
  show "in_section name x (writing b p) = Some (x, writing (overwrite b p (name @ word_bytes (1 :: u16))) (p + length (name @ word_bytes (1 :: u16))))"
    if "p + length (name @ word_bytes (1 :: u16)) \<le> length b"
    using w(2) [of "p + length name" 1 "overwrite b p name"] that
    by (simp add: in_section_def open_section_def expect_def Let_def overwrite_overwrite add.assoc)
  show "in_section name y (reading b p) = Some (y, reading b (p + length (name @ word_bytes (1 :: u16))))" if d: "drop p b = (name @ word_bytes (1 :: u16)) @ rest"
  proof -
    have "drop (p + length name) b = drop (length name) (drop p b)" by (simp add: add.commute)
    then have "drop (p + length name) b = word_bytes (1 :: u16) @ rest" unfolding d by simp
    moreover have "p + length name \<le> length b"
    proof -
      have "length (drop p b) \<ge> length name + 2" unfolding d by simp
      then show ?thesis by (cases "length b \<le> p") simp_all
    qed
    ultimately show ?thesis
      using w(3) [of "p + length name" b 1 rest 1] d by (simp add: in_section_def open_section_def expect_def Let_def add.assoc)
  qed
qed

definition obj_bytes :: "obj_state \<Rightarrow> u8 list" where
  "obj_bytes r = ascii ''KernelObject'' @ word_bytes (1 :: u16) @ (word_bytes (of_nat (length (os_name r)) :: u32) @ os_name r) @ word_bytes (os_uid r)
     @ word_bytes (os_type r) @ word_bytes (os_access r) @ word_bytes (os_access_count r)"

abbreviation obj_sequence :: "obj_state \<Rightarrow> seri \<Rightarrow> (obj_state \<times> seri) undef" where
  "obj_sequence \<equiv> in_sequence (in_section (ascii ''KernelObject'')) (in_sequence (on_field os_name os_name_update (plain absorb_string))
     (in_sequence (absorb_of os_uid os_uid_update) (in_sequence (absorb_of os_type os_type_update)
     (in_sequence (absorb_of os_access os_access_update) (absorb_of os_access_count os_access_count_update)))))"

lemma kernel_obj_of_sequence: "obj_sequence r s = Some (r', s') \<Longrightarrow> kernel_obj_do_state r s = Some (r', s')"
  by (auto simp: in_sequence_def in_section_def on_field_def plain_def kernel_obj_do_state_def guard_def split: prod.splits if_splits bind_splits)

lemma absorber_obj: "absorber obj_sequence obj_bytes (\<lambda>r. length (os_name r) < 2 ^ 32) (\<lambda>x. x) (\<lambda>x y. x) (\<lambda>_ _. True)"
proof -
  note seq = absorber_sequence [where ok = "\<lambda>r. length (os_name r) < 2 ^ 32" and fits = "\<lambda>_ _. True"]
  note w = absorber_field [OF word32.absorber_axioms] absorber_field [OF word64.absorber_axioms]
  show ?thesis
    by (rule absorber_weaken [OF seq [OF absorber_section seq [OF absorber_field [OF absorber_string] seq [OF w(2) seq [OF w(1) seq [OF w(1) w(1)]]]]]])
      (simp_all add: obj_bytes_def)
qed

interpretation object_state: absorber obj_sequence obj_bytes "\<lambda>r. length (os_name r) < 2 ^ 32" "\<lambda>x. x" "\<lambda>x y. x" "\<lambda>_ _. True"
  by (rule absorber_obj)

text \<open>The state of a kernel object is written to as many bytes as were measured, and reading them restores it in any
  object of the kernel.\<close>

theorem kernel_obj_roundtrip:
  assumes "length (os_name r) < 2 ^ 32"
  shows "\<exists>n bs. kernel_obj_do_state r (measuring [] 0) = Some (r, measuring [] n)
    \<and> kernel_obj_do_state r (writing (replicate n 0) 0) = Some (r, writing bs n)
    \<and> kernel_obj_do_state y (reading bs 0) = Some (r, reading bs n)"
  using kernel_obj_of_sequence [OF object_state.save(1) [OF assms]] kernel_obj_of_sequence [OF object_state.save(2) [OF assms]]
    kernel_obj_of_sequence [OF object_state.load [OF assms]] by blast

definition sample_obj :: obj_state where
  "sample_obj = \<lparr>os_name = [72, 105], os_uid = 5, os_type = 1, os_access = 2, os_access_count = 3\<rparr>"

theorem kernel_obj_roundtrip_witness:
  "\<exists>n bs. kernel_obj_do_state sample_obj (measuring [] 0) = Some (sample_obj, measuring [] n)
    \<and> kernel_obj_do_state sample_obj (writing (replicate n 0) 0) = Some (sample_obj, writing bs n)
    \<and> kernel_obj_do_state \<lparr>os_name = [], os_uid = 0, os_type = 0, os_access = 0, os_access_count = 0\<rparr> (reading bs 0) = Some (sample_obj, reading bs n)"
  by (rule kernel_obj_roundtrip) (simp add: sample_obj_def)

end
