(* ===== verification/Descriptor.thy ===== *)
theory Descriptor imports Seri_Rep begin

text \<open>
  Descriptors (\<open>utils/des.h\<close>, \<open>utils/des.cpp\<close>): the strings and buffers of the guest, in the memory of a process. The memory
  is a function from addresses to bytes, and \<open>ok\<close> tells for which addresses \<open>ptr::get\<close> gives a pointer that is not null.
\<close>

section \<open>Memory\<close>

type_synonym gmem = "u32 \<Rightarrow> u8"

definition load_bytes :: "gmem \<Rightarrow> u32 \<Rightarrow> nat \<Rightarrow> u8 list" where
  "load_bytes m a n = map (\<lambda>i. m (a + of_nat i)) [0..<n]"

fun store_bytes :: "u32 \<Rightarrow> u8 list \<Rightarrow> gmem \<Rightarrow> gmem" where
  "store_bytes a [] m = m"
| "store_bytes a (b # bs) m = store_bytes (a + 1) bs (m(a := b))"

definition load32 :: "gmem \<Rightarrow> u32 \<Rightarrow> u32" where
  "load32 m a = bytes_word (load_bytes m a 4)"

definition store32 :: "u32 \<Rightarrow> u32 \<Rightarrow> gmem \<Rightarrow> gmem" where
  "store32 a w m = store_bytes a (word_bytes w) m"

section \<open>Descriptors\<close>

datatype des_type = Buf_const | Ptr_const | Des_ptr | Des_buf | Ptr_to_buf | Des_type_other u32

text \<open>\<open>info\<close> is the first word, with the type in the upper four bits.\<close>

definition des_get_length :: "gmem \<Rightarrow> u32 \<Rightarrow> u32" where
  "des_get_length m a = and (load32 m a) 0xFFFFFF"

definition get_descriptor_type :: "gmem \<Rightarrow> u32 \<Rightarrow> des_type" where
  "get_descriptor_type m a = (let t = drop_bit 28 (load32 m a) in
     if t = 0 then Buf_const else if t = 1 then Ptr_const else if t = 2 then Des_ptr else if t = 3 then Des_buf
     else if t = 4 then Ptr_to_buf else Des_type_other t)"

definition is_valid_descriptor :: "gmem \<Rightarrow> u32 \<Rightarrow> bool" where
  "is_valid_descriptor m a = (case get_descriptor_type m a of Des_type_other _ \<Rightarrow> False | _ \<Rightarrow> True)"

definition type_number :: "des_type \<Rightarrow> u32" where
  "type_number t = (case t of Buf_const \<Rightarrow> 0 | Ptr_const \<Rightarrow> 1 | Des_ptr \<Rightarrow> 2 | Des_buf \<Rightarrow> 3 | Ptr_to_buf \<Rightarrow> 4 | Des_type_other n \<Rightarrow> n)"

definition set_descriptor_type :: "u32 \<Rightarrow> des_type \<Rightarrow> gmem \<Rightarrow> gmem" where
  "set_descriptor_type a t m = store32 a (or (and (load32 m a) 0x00FFFFFF) (push_bit 28 (type_number t))) m"

definition modifiable :: "des_type \<Rightarrow> bool" where
  "modifiable t \<longleftrightarrow> t = Des_buf \<or> t = Des_ptr \<or> t = Ptr_to_buf"

definition get_max_length :: "gmem \<Rightarrow> u32 \<Rightarrow> u32" where
  "get_max_length m a = (case get_descriptor_type m a of
     Buf_const \<Rightarrow> des_get_length m a | Ptr_const \<Rightarrow> des_get_length m a
   | Des_type_other _ \<Rightarrow> 0
   | _ \<Rightarrow> load32 m (a + 4))"

definition set_max_length :: "u32 \<Rightarrow> u32 \<Rightarrow> gmem \<Rightarrow> gmem" where
  "set_max_length a n m = store32 (a + 4) n m"

text \<open>A length above the maximum is only logged. Of a pointer to a buffer, the length inside is set too; \<^const>\<open>None\<close> when the
  buffer cannot be reached, or when buffers that point to each other keep the function from returning.\<close>

partial_function (option) des_set_length :: "(u32 \<Rightarrow> bool) \<Rightarrow> u32 \<Rightarrow> u32 \<Rightarrow> gmem \<Rightarrow> gmem option" where
  "des_set_length ok a n m = (let t = get_descriptor_type m a; m = store32 a (or (and (load32 m a) (not 0xFFFFFF)) n) m in
     if t = Ptr_to_buf then
       (let h = load32 m (a + 8) in if ok h then des_set_length ok h n m else None)
     else Some m)"

text \<open>The pointer may be null, which is the inner \<^const>\<open>None\<close>.\<close>

definition get_pointer_raw :: "(u32 \<Rightarrow> bool) \<Rightarrow> gmem \<Rightarrow> u32 \<Rightarrow> u32 option undef" where
  "get_pointer_raw ok m a = (let get = (\<lambda>p. if ok p then Some p else None) in
     case get_descriptor_type m a of
       Ptr_const \<Rightarrow> Some (get (load32 m (a + 4)))
     | Des_ptr \<Rightarrow> Some (get (load32 m (a + 8)))
     | Buf_const \<Rightarrow> Some (Some (a + 4))
     | Des_buf \<Rightarrow> Some (Some (a + 8))
     | Ptr_to_buf \<Rightarrow> (let h = load32 m (a + 8) in if ok h then Some (Some (h + 4)) else None)
     | Des_type_other _ \<Rightarrow> Some None)"

text \<open>\<open>w\<close> is the width of a character in bytes, 1 or 2; texts are lists of bytes here.\<close>

definition to_std_string :: "(u32 \<Rightarrow> bool) \<Rightarrow> nat \<Rightarrow> gmem \<Rightarrow> u32 \<Rightarrow> u8 list undef" where
  "to_std_string ok w m a = do {
     guard (is_valid_descriptor m a);
     p \<leftarrow> get_pointer_raw ok m a;
     let n = w * unat (des_get_length m a);
     case p of Some p \<Rightarrow> Some (load_bytes m p n) | None \<Rightarrow> if n = 0 then Some [] else None
   }"

definition des_assign :: "(u32 \<Rightarrow> bool) \<Rightarrow> nat \<Rightarrow> u32 \<Rightarrow> u8 list \<Rightarrow> gmem \<Rightarrow> (int \<times> gmem) undef" where
  "des_assign ok w a dat m = do {
     p \<leftarrow> get_pointer_raw ok m a;
     let t = get_descriptor_type m a;
     let size = length dat;
     let real_len = size div w;
     if size > 0 \<and> modifiable t \<and> real_len > unat (get_max_length m a) then Some (-1, m)
     else do {
       m \<leftarrow> (if size > 0 then (case p of Some p \<Rightarrow> Some (store_bytes p dat m) | None \<Rightarrow> None) else Some m);
       m \<leftarrow> des_set_length ok a (of_nat real_len) m;
       Some (0, m)
     }
   }"

text \<open>The constructors of static buffers: without a text, and with one. Neither sets what the other does.\<close>

definition new_bufc_static :: "(u32 \<Rightarrow> bool) \<Rightarrow> u32 \<Rightarrow> nat \<Rightarrow> gmem \<Rightarrow> gmem undef" where
  "new_bufc_static ok a max_elem m = map_option (set_descriptor_type a Buf_const) (des_set_length ok a (of_nat max_elem) (store32 a 0 m))"

definition bufc_static_of :: "(u32 \<Rightarrow> bool) \<Rightarrow> nat \<Rightarrow> u32 \<Rightarrow> u8 list \<Rightarrow> gmem \<Rightarrow> gmem undef" where
  "bufc_static_of ok w a str m = map_option snd (des_assign ok w a str (store32 a 0 m))"

definition new_buf_static :: "u32 \<Rightarrow> nat \<Rightarrow> gmem \<Rightarrow> gmem" where
  "new_buf_static a max_elem m = set_descriptor_type a Des_buf (set_max_length a (of_nat max_elem) (store32 a 0 m))"

definition buf_static_of :: "(u32 \<Rightarrow> bool) \<Rightarrow> nat \<Rightarrow> u32 \<Rightarrow> u8 list \<Rightarrow> gmem \<Rightarrow> gmem undef" where
  "buf_static_of ok w a str m = map_option snd (des_assign ok w a str (store32 a 0 m))"

section \<open>Memory regions\<close>

definition region :: "u32 \<Rightarrow> nat \<Rightarrow> u32 set" where
  "region a n = (\<lambda>i. a + of_nat i) ` {..<n}"

lemma region_simps [simp]: "region a 0 = {}" "region a (Suc n) = insert a (region (a + 1) n)"
proof -
  show "region a (Suc n) = insert a (region (a + 1) n)"
    by (simp add: region_def lessThan_Suc_eq_insert_0 image_image ac_simps)
qed (simp add: region_def)

lemma region_append: "region a (m + n) = region a m \<union> region (a + of_nat m) n"
  by (induction m arbitrary: a) (auto simp: ac_simps)

lemma region_first: "a \<notin> region (a + 1) n" if "n < 2 ^ 32"
proof
  assume "a \<in> region (a + 1) n"
  then obtain i where i: "i < n" "a = a + 1 + of_nat i" by (auto simp: region_def)
  then have "of_nat (Suc i) = (0 :: u32)" by (simp add: add.assoc)
  moreover have "unat (of_nat (Suc i) :: u32) = Suc i" using i that by (intro unat_small) simp
  ultimately show False by simp
qed

lemma store_bytes_outside [simp]: "x \<notin> region a (length bs) \<Longrightarrow> store_bytes a bs m x = m x"
  by (induction bs arbitrary: a m) auto

lemma load_bytes_simps [simp]: "load_bytes m a 0 = []" "load_bytes m a (Suc n) = m a # load_bytes m (a + 1) n"
  by (simp_all add: load_bytes_def upt_conv_Cons map_Suc_upt [symmetric] comp_def ac_simps del: upt_Suc)

lemma length_load_bytes [simp]: "length (load_bytes m a n) = n"
  by (simp add: load_bytes_def)

lemma load_bytes_cong: "(\<And>x. x \<in> region a n \<Longrightarrow> m x = m' x) \<Longrightarrow> load_bytes m a n = load_bytes m' a n"
  by (simp add: load_bytes_def region_def)

lemma load_store_same: "length bs \<le> 2 ^ 32 \<Longrightarrow> load_bytes (store_bytes a bs m) a (length bs) = bs"
  by (induction bs arbitrary: a m) (simp_all add: region_first)

lemma load_store_other: "region a n \<inter> region p (length bs) = {} \<Longrightarrow> load_bytes (store_bytes p bs m) a n = load_bytes m a n"
  by (rule load_bytes_cong) (simp add: disjoint_iff)

lemma load32_store32 [simp]: "load32 (store32 a w m) a = w"
  using load_store_same [of "word_bytes w" a m] by (simp add: load32_def store32_def)

lemma load32_store32_other: "region a 4 \<inter> region p 4 = {} \<Longrightarrow> load32 (store32 p w m) a = load32 m a"
  by (simp add: load32_def store32_def load_store_other)

lemma load32_store_bytes_other: "region a 4 \<inter> region p (length bs) = {} \<Longrightarrow> load32 (store_bytes p bs m) a = load32 m a"
  by (simp add: load32_def load_store_other)

lemma store32_outside: "x \<notin> region a 4 \<Longrightarrow> store32 a w m x = m x"
  by (simp add: store32_def)

section \<open>The word of type and length\<close>

definition info_with :: "u32 \<Rightarrow> u32 \<Rightarrow> u32" where
  "info_with i n = or (and i (not 0xFFFFFF)) n"

lemma small_bits:
  assumes "unat (n :: u32) < 2 ^ 24" and "bit n k"
  shows "k < 24"
proof (rule ccontr)
  assume "\<not> k < 24"
  then have "(2 :: nat) ^ 24 \<le> 2 ^ k" by (intro power_increasing) simp_all
  then have "unat n div 2 ^ k = 0" using assms(1) by simp
  moreover have "bit (unat n) k" using assms(2) by (simp add: bit_unsigned_iff)
  ultimately show False by (simp add: bit_iff_odd)
qed

lemma mask_24: "(0xFFFFFF :: u32) = mask 24"
  by (simp add: mask_eq_exp_minus_1)

lemma info_with_length: "unat n < 2 ^ 24 \<Longrightarrow> and (info_with i n) 0xFFFFFF = n"
  unfolding info_with_def mask_24
  by (rule bit_word_eqI) (use small_bits [of n] in \<open>auto simp: bit_simps\<close>)

lemma info_with_type: "unat n < 2 ^ 24 \<Longrightarrow> drop_bit 28 (info_with i n) = drop_bit 28 i"
  unfolding info_with_def mask_24
proof (rule bit_word_eqI)
  fix k
  assume "unat n < 2 ^ 24" "k < LENGTH(32)"
  then show "bit (drop_bit 28 (or (and i (not (mask 24))) n)) k = bit (drop_bit 28 i) k"
    using small_bits [of n "28 + k"] bit_imp_le_length [of i "28 + k"] by (auto simp: bit_simps)
qed

section \<open>Assigning a text\<close>

text \<open>A descriptor a text can be assigned to: \<open>p\<close> is where its \<open>cap\<close> bytes are, and \<open>ws\<close> the words in front, which do not
  overlap them.\<close>

definition des_layout :: "(u32 \<Rightarrow> bool) \<Rightarrow> gmem \<Rightarrow> u32 \<Rightarrow> u32 \<times> u32 set \<Rightarrow> bool" where
  "des_layout ok m a l = (case get_descriptor_type m a of
     Des_buf \<Rightarrow> l = (a + 8, region a 8)
   | Des_ptr \<Rightarrow> l = (load32 m (a + 8), region a 12) \<and> ok (load32 m (a + 8))
   | Ptr_to_buf \<Rightarrow> (let h = load32 m (a + 8) in l = (h + 4, region a 12 \<union> region h 4) \<and> ok h \<and> region a 12 \<inter> region h 4 = {}
       \<and> get_descriptor_type m h = Buf_const)
   | _ \<Rightarrow> False)"

definition des_wf :: "(u32 \<Rightarrow> bool) \<Rightarrow> nat \<Rightarrow> gmem \<Rightarrow> u32 \<Rightarrow> u32 \<times> u32 set \<Rightarrow> bool" where
  "des_wf ok w m a l \<longleftrightarrow> des_layout ok m a l \<and> unat (get_max_length m a) < 2 ^ 24 \<and> w \<in> {1, 2}
     \<and> snd l \<inter> region (fst l) (w * unat (get_max_length m a)) = {}"

lemma region_sub: "m \<le> n \<Longrightarrow> region a m \<subseteq> region a n"
  by (auto simp: region_def)

lemma region_words: "region a 8 = region a 4 \<union> region (a + 4) 4" "region a 12 = region a 4 \<union> region (a + 4) 4 \<union> region (a + 8) 4"
  using region_append [of a 4 4] region_append [of a 8 4] by simp_all

lemma region_4: "region a 4 = {a, a + 1, a + 2, a + 3}"
proof -
  have "region a 4 = region a (Suc (Suc (Suc (Suc 0))))" by (simp add: eval_nat_numeral)
  then show ?thesis by (simp add: add.assoc)
qed

lemma word_regions [simp]: "region a 4 \<inter> region (a + 4) 4 = {}" "region a 4 \<inter> region (a + 8) 4 = {}"
  by (simp_all add: region_4 add.assoc)

lemma type_by_info: "drop_bit 28 (load32 m a) = drop_bit 28 (load32 m' a') \<Longrightarrow> get_descriptor_type m a = get_descriptor_type m' a'"
  by (simp add: get_descriptor_type_def)

text \<open>Setting the length.\<close>

definition info_set :: "u32 \<Rightarrow> u32 \<Rightarrow> gmem \<Rightarrow> gmem" where
  "info_set a n m = store32 a (info_with (load32 m a) n) m"

lemma info_set_simps:
  assumes "unat n < 2 ^ 24"
  shows "get_descriptor_type (info_set a n m) a = get_descriptor_type m a" "des_get_length (info_set a n m) a = n"
  using assms by (auto simp: info_set_def des_get_length_def info_with_length info_with_type intro: type_by_info)

lemma set_length_plain:
  "get_descriptor_type m a \<noteq> Ptr_to_buf \<Longrightarrow> des_set_length ok a n m = Some (info_set a n m)"
  by (subst des_set_length.simps) (simp add: Let_def info_set_def info_with_def)

lemma set_length_ptr_to_buf:
  assumes "get_descriptor_type m a = Ptr_to_buf" and "h = load32 m (a + 8)" and "ok h" and "get_descriptor_type m h = Buf_const"
    and "region a 12 \<inter> region h 4 = {}"
  shows "des_set_length ok a n m = Some (info_set h n (info_set a n m))"
proof -
  have r: "region h 4 \<inter> region a 4 = {}" using assms(5) by (auto simp: region_words)
  have "load32 (info_set a n m) (a + 8) = h" using assms(2) by (simp add: info_set_def load32_store32_other Int_commute)
  moreover have "get_descriptor_type (info_set a n m) h = Buf_const"
    using assms(4) r by (simp add: get_descriptor_type_def info_set_def load32_store32_other)
  then have "des_set_length ok h n (info_set a n m) = Some (info_set h n (info_set a n m))" by (intro set_length_plain) simp
  ultimately show ?thesis using assms(1,3) by (subst des_set_length.simps) (simp add: Let_def info_set_def info_with_def)
qed

lemma load_bytes_info_set: "region q k \<inter> region a 4 = {} \<Longrightarrow> load_bytes (info_set a n m) q k = load_bytes m q k"
  by (simp add: info_set_def store32_def load_store_other)

lemma load32_info_set: "region q 4 \<inter> region a 4 = {} \<Longrightarrow> load32 (info_set a n m) q = load32 m q"
  by (simp add: info_set_def load32_store32_other)

lemma type_info_set: "region q 4 \<inter> region a 4 = {} \<Longrightarrow> get_descriptor_type (info_set a n m) q = get_descriptor_type m q"
  by (simp add: get_descriptor_type_def load32_info_set)

lemma type_store_bytes: "region q 4 \<inter> region p (length bs) = {} \<Longrightarrow> get_descriptor_type (store_bytes p bs m) q = get_descriptor_type m q"
  by (simp add: get_descriptor_type_def load32_store_bytes_other)

lemma info_set_outside: "x \<notin> region a 4 \<Longrightarrow> info_set a n m x = m x"
  by (simp add: info_set_def store32_outside)

text \<open>The head of a descriptor, before and after: its type, its length, its maximum and its pointer.\<close>

lemma layout_pointer: "des_layout ok m a (p, ws) \<Longrightarrow> get_pointer_raw ok m a = Some (Some p)"
  by (auto simp: des_layout_def get_pointer_raw_def Let_def split: des_type.splits)

lemma layout_modifiable: "des_layout ok m a (p, ws) \<Longrightarrow> modifiable (get_descriptor_type m a) \<and> is_valid_descriptor m a"
  by (auto simp: des_layout_def modifiable_def is_valid_descriptor_def split: des_type.splits)

lemma layout_set_length:
  assumes "des_layout ok m a (p, ws)" and "unat n < 2 ^ 24"
  shows "\<exists>m'. des_set_length ok a n m = Some m' \<and> des_layout ok m' a (p, ws) \<and> des_get_length m' a = n
    \<and> get_max_length m' a = get_max_length m a \<and> (\<forall>x. x \<notin> ws \<longrightarrow> m' x = m x)"
proof (cases "get_descriptor_type m a = Ptr_to_buf")
  case False
  let ?m = "info_set a n m"
  have w: "load32 ?m (a + 4) = load32 m (a + 4)" "load32 ?m (a + 8) = load32 m (a + 8)" by (simp_all add: load32_info_set Int_commute)
  have t: "get_descriptor_type ?m a = get_descriptor_type m a" "des_get_length ?m a = n" using assms(2) by (simp_all add: info_set_simps)
  show ?thesis
    using assms(1) False set_length_plain [OF False, of ok n] t w
    by (intro exI [of _ ?m]) (auto simp: des_layout_def get_max_length_def region_words info_set_outside split: des_type.splits)
next
  case True
  let ?h = "load32 m (a + 8)"
  let ?m1 = "info_set a n m"
  let ?m = "info_set ?h n ?m1"
  have l: "ws = region a 12 \<union> region ?h 4" "p = ?h + 4" "ok ?h" "region a 12 \<inter> region ?h 4 = {}" "get_descriptor_type m ?h = Buf_const"
    using assms(1) True by (simp_all add: des_layout_def Let_def)
  have d: "region a 4 \<inter> region ?h 4 = {}" "region (a + 4) 4 \<inter> region ?h 4 = {}" "region (a + 8) 4 \<inter> region ?h 4 = {}" "region ?h 4 \<inter> region a 4 = {}"
    using l(4) by (auto simp: region_words)
  have w: "load32 ?m (a + 4) = load32 m (a + 4)" "load32 ?m (a + 8) = ?h" using d by (simp_all add: load32_info_set Int_commute)
  have t: "get_descriptor_type ?m a = Ptr_to_buf" "des_get_length ?m a = n" "get_descriptor_type ?m ?h = Buf_const"
    using assms(2) d True l(5) info_set_simps [OF assms(2)] by (simp_all add: type_info_set des_get_length_def load32_info_set)
  show ?thesis
    using set_length_ptr_to_buf [of m a ?h ok n, OF True] l t w True
    by (intro exI [of _ ?m]) (auto simp: des_layout_def get_max_length_def region_words info_set_outside)
qed

lemma layout_store:
  assumes "des_layout ok m a (p, ws)" and "ws \<inter> region q (length bs) = {}"
  shows "des_layout ok (store_bytes q bs m) a (p, ws)" "get_max_length (store_bytes q bs m) a = get_max_length m a"
proof -
  have "region a 8 \<subseteq> ws" using assms(1) region_sub [of 8 12 a] by (auto simp: des_layout_def Let_def split: des_type.splits)
  then have d: "region a 4 \<inter> region q (length bs) = {}" "region (a + 4) 4 \<inter> region q (length bs) = {}" using assms(2) by (auto simp: region_words)
  have e: "region (a + 8) 4 \<inter> region q (length bs) = {}" if "get_descriptor_type m a \<in> {Des_ptr, Ptr_to_buf}"
    using that assms by (auto simp: des_layout_def Let_def region_words split: des_type.splits)
  have f: "region (load32 m (a + 8)) 4 \<inter> region q (length bs) = {}" if "get_descriptor_type m a = Ptr_to_buf"
    using that assms by (auto simp: des_layout_def Let_def split: des_type.splits)
  show "des_layout ok (store_bytes q bs m) a (p, ws)" "get_max_length (store_bytes q bs m) a = get_max_length m a"
    using assms(1) d e f
    by (auto simp: des_layout_def get_max_length_def Let_def type_store_bytes load32_store_bytes_other split: des_type.splits)
qed

lemma assign_roundtrip:
  assumes "des_wf ok w m a (p, ws)" and "length dat = w * n" and "n \<le> unat (get_max_length m a)"
  shows "\<exists>m'. des_assign ok w a dat m = Some (0, m') \<and> to_std_string ok w m' a = Some dat \<and> des_wf ok w m' a (p, ws)
    \<and> get_max_length m' a = get_max_length m a \<and> (\<forall>x. x \<notin> ws \<union> region p (length dat) \<longrightarrow> m' x = m x)"
proof -
  note wf = assms(1) [unfolded des_wf_def]
  let ?max = "unat (get_max_length m a)"
  let ?m1 = "store_bytes p dat m"
  have l: "des_layout ok m a (p, ws)" and max: "?max < 2 ^ 24" and w: "w \<in> {1, 2}" and dis: "ws \<inter> region p (w * ?max) = {}" using wf by simp_all
  have "region p (length dat) \<subseteq> region p (w * ?max)" using assms(2,3) by (intro region_sub) simp
  then have d: "ws \<inter> region p (length dat) = {}" using dis by blast
  have n: "unat (of_nat n :: u32) = n" using assms(3) max by (intro unat_small) simp
  note l1 = layout_store [OF l d]
  obtain m2 where 2: "des_set_length ok a (of_nat n) ?m1 = Some m2" "des_layout ok m2 a (p, ws)" "des_get_length m2 a = of_nat n"
      "get_max_length m2 a = get_max_length ?m1 a" "\<forall>x. x \<notin> ws \<longrightarrow> m2 x = ?m1 x"
    using layout_set_length [OF l1(1), of "of_nat n"] n assms(3) max by auto
  have "length dat div w = n" using assms(2) w by auto
  then have "des_assign ok w a dat m = Some (0, m2)"
    using layout_pointer [OF l] layout_modifiable [OF l] assms(3) 2(1) by (auto simp: des_assign_def Let_def)
  moreover have "load_bytes m2 p (length dat) = load_bytes ?m1 p (length dat)" using 2(5) d by (intro load_bytes_cong) blast
  then have "to_std_string ok w m2 a = Some dat"
    using layout_pointer [OF 2(2)] layout_modifiable [OF 2(2)] 2(3) n assms(2) max assms(3) w load_store_same [of dat p m]
    by (auto simp: to_std_string_def Let_def)
  moreover have "des_wf ok w m2 a (p, ws)" using 2(2,4) l1(2) wf by (simp add: des_wf_def)
  moreover have "\<forall>x. x \<notin> ws \<union> region p (length dat) \<longrightarrow> m2 x = m x" using 2(5) by simp
  ultimately show ?thesis using 2(4) l1(2) by (intro exI [of _ m2]) simp
qed

text \<open>C34. Assigning a text that fits to a modifiable descriptor (a buffer, a pointer, a pointer to a buffer whose words do not
  overlap the text) succeeds: the descriptor then holds that text, keeps its maximal length and its form, and no memory but
  its head and the bytes of the text changes.\<close>

theorem assign_read_roundtrip:
  assumes "des_wf ok w m a (p, ws)" and "length dat = w * n" and "n \<le> unat (get_max_length m a)"
  shows "\<exists>m'. des_assign ok w a dat m = Some (0, m') \<and> to_std_string ok w m' a = Some dat \<and> des_wf ok w m' a (p, ws)
    \<and> get_max_length m' a = get_max_length m a \<and> (\<forall>x. x \<notin> ws \<union> region p (length dat) \<longrightarrow> m' x = m x)"
  using assms by (rule assign_roundtrip)

definition sample_mem :: gmem where
  "sample_mem = store32 0x1004 4 (store32 0x1000 0x30000000 (\<lambda>_. 0))"

lemma sample_mem_wf: "des_wf (\<lambda>_. True) 1 sample_mem 0x1000 (0x1008, region 0x1000 8)"
proof -
  have "load32 sample_mem 0x1004 = 4" "load32 sample_mem 0x1000 = 0x30000000"
    by (simp_all add: sample_mem_def load32_store32_other region_4)
  then have "get_descriptor_type sample_mem 0x1000 = Des_buf" "get_max_length sample_mem 0x1000 = 4"
    by (simp_all add: get_descriptor_type_def get_max_length_def)
  then show ?thesis by (simp add: des_wf_def des_layout_def region_words region_4)
qed

theorem assign_read_roundtrip_witness:
  "\<exists>m'. des_assign (\<lambda>_. True) 1 0x1000 [72, 105] sample_mem = Some (0, m') \<and> to_std_string (\<lambda>_. True) 1 m' 0x1000 = Some [72, 105]
    \<and> des_wf (\<lambda>_. True) 1 m' 0x1000 (0x1008, region 0x1000 8) \<and> get_max_length m' 0x1000 = get_max_length sample_mem 0x1000
    \<and> (\<forall>x. x \<notin> region 0x1000 8 \<union> region 0x1008 (length [72, 105 :: u8]) \<longrightarrow> m' x = sample_mem x)"
proof (rule assign_read_roundtrip [OF sample_mem_wf, of _ 2])
  have "load32 sample_mem 0x1004 = 4" "load32 sample_mem 0x1000 = 0x30000000"
    by (simp_all add: sample_mem_def load32_store32_other region_4)
  then show "2 \<le> unat (get_max_length sample_mem 0x1000)" by (simp add: get_descriptor_type_def get_max_length_def)
qed simp

text \<open>A text that does not fit changes nothing.\<close>

theorem assign_too_long:
  assumes "get_pointer_raw ok m a = Some p" and "modifiable (get_descriptor_type m a)" and "dat \<noteq> []"
    and "unat (get_max_length m a) < length dat div w"
  shows "des_assign ok w a dat m = Some (-1, m)"
  using assms by (simp add: des_assign_def)

text \<open>A modifiable buffer made from a text has the type of a constant one, and its text begins where the maximal length is.\<close>

theorem buf_static_of_overwrites_maximum:
  assumes "4 \<le> length str" and "length str < 2 ^ 24"
  shows "\<exists>m'. buf_static_of ok 1 a str m = Some m' \<and> get_descriptor_type m' a = Buf_const \<and> load32 m' (a + 4) = bytes_word (take 4 str)"
proof -
  let ?m = "store32 a 0 m"
  let ?m1 = "store_bytes (a + 4) str ?m"
  have t: "get_descriptor_type ?m a = Buf_const" by (simp add: get_descriptor_type_def)
  have "a \<notin> region (a + 4) (length str)" "a + 1 \<notin> region (a + 4) (length str)" "a + 2 \<notin> region (a + 4) (length str)" "a + 3 \<notin> region (a + 4) (length str)"
  proof -
    have "region (a + 4) (length str) \<inter> region a 4 = {}"
    proof (rule ccontr)
      assume "\<not> ?thesis"
      then obtain i j where ij: "i < length str" "j < 4" "a + 4 + of_nat i = a + of_nat j" by (auto simp: region_def)
      then have "(of_nat (4 + i) :: u32) = of_nat j" by (simp add: add.assoc)
      moreover have "unat (of_nat (4 + i) :: u32) = 4 + i" "unat (of_nat j :: u32) = j" using ij(1,2) assms(2) by (intro unat_small; simp)+
      ultimately show False using ij(2) by simp
    qed
    then show "a \<notin> region (a + 4) (length str)" "a + 1 \<notin> region (a + 4) (length str)" "a + 2 \<notin> region (a + 4) (length str)" "a + 3 \<notin> region (a + 4) (length str)"
      by (auto simp: region_4)
  qed
  then have d: "region a 4 \<inter> region (a + 4) (length str) = {}" by (auto simp: region_4)
  then have t1: "get_descriptor_type ?m1 a = Buf_const" using t by (simp add: type_store_bytes)
  let ?m2 = "info_set a (of_nat (length str)) ?m1"
  have n: "unat (of_nat (length str) :: u32) = length str" using assms(2) by (intro unat_small) simp
  have "buf_static_of ok 1 a str m = Some ?m2"
    using assms(1) t t1 set_length_plain [of ?m1 a ok] by (auto simp: buf_static_of_def des_assign_def get_pointer_raw_def modifiable_def)
  moreover have "get_descriptor_type ?m2 a = Buf_const" using t1 info_set_simps(1) [of "of_nat (length str)"] n assms(2) by simp
  moreover have "load32 ?m2 (a + 4) = load32 ?m1 (a + 4)" by (simp add: load32_info_set Int_commute)
  moreover have "load32 ?m1 (a + 4) = bytes_word (take 4 str)"
  proof -
    have "load_bytes ?m1 (a + 4) (length str) = str" using assms(2) by (intro load_store_same) simp
    moreover have "take 4 (load_bytes ?m1 (a + 4) (length str)) = load_bytes ?m1 (a + 4) 4"
      using assms(1) by (simp add: load_bytes_def take_map)
    ultimately have "load_bytes ?m1 (a + 4) 4 = take 4 str" by (simp only:)
    then show ?thesis by (simp add: load32_def)
  qed
  ultimately show ?thesis by auto
qed

end
