(* ===== verification/Context.thy ===== *)
theory Context
  imports Ipc Security Descriptor begin

text \<open>
  The context of a request to a service of the emulator (\<open>services/context.cpp\<close>): access to the arguments of a message,
  which are integers or descriptors in the memory of the client, and its completion.
\<close>

section \<open>The world of a service\<close>

text \<open>The kernel; the memory of the processes, and for which addresses they have any; whether the system is one of the
  first generation; the event that signals requests late.\<close>

record world =
  w_kern :: kern
  w_mem :: "pid \<Rightarrow> gmem"
  w_mapped :: "pid \<Rightarrow> u32 \<Rightarrow> bool"
  w_eka1 :: bool
  w_realtime_evt :: int

record ipc_context =
  cx_msg :: ipc_msg
  cx_signaled :: bool
  cx_accurate_timing :: bool

definition own_process :: "ipc_context \<Rightarrow> world \<Rightarrow> pid undef" where
  "own_process c w = map_option (\<lambda>t. owner (thr (w_kern w) t)) (own_thr (cx_msg c))"

definition set_mem :: "pid \<Rightarrow> gmem \<Rightarrow> world \<Rightarrow> world" where
  "set_mem p m w = w\<lparr>w_mem := (w_mem w)(p := m)\<rparr>"

definition arg_word :: "nat \<Rightarrow> ipc_context \<Rightarrow> u32" where
  "arg_word i c = args (msg_args (cx_msg c)) ! i"

text \<open>The three bits that tell the type of an argument: 16-bit (or a handle), constant, descriptor.\<close>

definition arg_bit :: "nat \<Rightarrow> nat \<Rightarrow> ipc_context \<Rightarrow> bool" where
  "arg_bit b i c = bit (ipc_arg.flag (msg_args (cx_msg c))) (3 * i + b)"

abbreviation flag_16b :: "nat \<Rightarrow> ipc_context \<Rightarrow> bool" where
  "flag_16b \<equiv> arg_bit 0"

abbreviation flag_des :: "nat \<Rightarrow> ipc_context \<Rightarrow> bool" where
  "flag_des \<equiv> arg_bit 2"

definition is_handle :: "nat \<Rightarrow> ipc_context \<Rightarrow> bool" where
  "is_handle i c \<longleftrightarrow> get_arg_type i (msg_args (cx_msg c)) = Ty_handle"

section \<open>Reading arguments\<close>

text \<open>The outer \<^const>\<open>None\<close> is undefined, the inner one \<open>std::nullopt\<close>. Integers of all widths; a \<open>float\<close> is its bits.\<close>

definition get_argument_value :: "nat \<Rightarrow> ipc_context \<Rightarrow> 'a :: len word option" where
  "get_argument_value idx c = (if 4 \<le> idx then None else Some (ucast (arg_word idx c)))"

definition descriptor_of :: "nat \<Rightarrow> pid \<Rightarrow> ipc_context \<Rightarrow> world \<Rightarrow> u32 option" where
  "descriptor_of idx p c w = (if w_mapped w p (arg_word idx c) then Some (arg_word idx c) else None)"

text \<open>Texts of characters of \<open>n\<close> bytes.\<close>

definition get_argument_string :: "nat \<Rightarrow> nat \<Rightarrow> ipc_context \<Rightarrow> world \<Rightarrow> u8 list option undef" where
  "get_argument_string n idx c w = (if 4 \<le> idx then Some None
     else if w_eka1 w \<or> (flag_des idx c \<and> (flag_16b idx c \<longleftrightarrow> n = 2)) then do {
       p \<leftarrow> own_process c w;
       case descriptor_of idx p c w of None \<Rightarrow> Some None
       | Some d \<Rightarrow> map_option Some (to_std_string (w_mapped w p) n (w_mem w p) d)
     }
     else Some None)"

text \<open>A null pointer is the inner \<^const>\<open>None\<close>.\<close>

definition get_descriptor_argument_ptr :: "nat \<Rightarrow> ipc_context \<Rightarrow> world \<Rightarrow> u32 option undef" where
  "get_descriptor_argument_ptr idx c w =
     (if w_eka1 w \<or> flag_des idx c then do {
       guard (idx < 4);
       p \<leftarrow> own_process c w;
       case descriptor_of idx p c w of None \<Rightarrow> Some None | Some d \<Rightarrow> get_pointer_raw (w_mapped w p) (w_mem w p) d
     } else Some None)"

text \<open>The masks of both size functions are the number of an unspecified argument, which is 0, and that of a handle, which is
  the bit for 16-bit characters.\<close>

definition size_of_argument :: "(gmem \<Rightarrow> u32 \<Rightarrow> u32) \<Rightarrow> nat \<Rightarrow> ipc_context \<Rightarrow> world \<Rightarrow> u64 undef" where
  "size_of_argument f idx c w = (if 4 \<le> idx then Some (-1)
     else if \<not> w_eka1 w \<and> flag_16b idx c then Some 4
     else do {
       p \<leftarrow> own_process c w;
       d \<leftarrow> descriptor_of idx p c w;
       Some (if \<not> w_eka1 w \<and> flag_16b idx c then ucast (f (w_mem w p) d * 2) else ucast (f (w_mem w p) d))
     })"

definition get_argument_max_data_size :: "nat \<Rightarrow> ipc_context \<Rightarrow> world \<Rightarrow> u64 undef" where
  "get_argument_max_data_size = size_of_argument get_max_length"

definition get_argument_data_size :: "nat \<Rightarrow> ipc_context \<Rightarrow> world \<Rightarrow> u64 undef" where
  "get_argument_data_size = size_of_argument des_get_length"

text \<open>A structure of \<open>n\<close> bytes; bytes that are not there stay as they happen to be, and are missing in the list.\<close>

definition get_argument_data_from_descriptor :: "nat \<Rightarrow> nat \<Rightarrow> ipc_context \<Rightarrow> world \<Rightarrow> u8 list option undef" where
  "get_argument_data_from_descriptor n idx c w = do {
     q \<leftarrow> get_descriptor_argument_ptr idx c w;
     case q of None \<Rightarrow> Some None
     | Some q \<Rightarrow> do {
         p \<leftarrow> own_process c w;
         size \<leftarrow> get_argument_data_size idx c w;
         Some (Some (load_bytes (w_mem w p) q (min (unat size) n)))
       }
   }"

section \<open>Writing arguments\<close>

definition write_arg :: "nat \<Rightarrow> u32 \<Rightarrow> ipc_context \<Rightarrow> world \<Rightarrow> bool \<times> ipc_context" where
  "write_arg idx dat c w = (if idx < 4 \<and> (w_eka1 w \<or> is_handle idx c)
     then (True, c\<lparr>cx_msg := (cx_msg c)\<lparr>msg_args := (msg_args (cx_msg c))\<lparr>args := (args (msg_args (cx_msg c)))[idx := dat]\<rparr>\<rparr>\<rparr>)
     else (False, c))"

text \<open>A text of 16-bit characters; whether it fits is not looked at.\<close>

definition write_arg_string :: "nat \<Rightarrow> u8 list \<Rightarrow> ipc_context \<Rightarrow> world \<Rightarrow> (bool \<times> world) undef" where
  "write_arg_string idx dat c w = (if 4 \<le> idx then Some (False, w)
     else if w_eka1 w \<or> flag_des idx c \<or> flag_16b idx c then do {
       p \<leftarrow> own_process c w;
       d \<leftarrow> descriptor_of idx p c w;
       (_, m) \<leftarrow> des_assign (w_mapped w p) 2 d dat (w_mem w p);
       Some (True, set_mem p m w)
     } else Some (False, w))"

text \<open>The result is success, the error code (0 when it is not set), and the world.\<close>

definition write_data_to_descriptor_argument :: "nat \<Rightarrow> u8 list \<Rightarrow> bool \<Rightarrow> ipc_context \<Rightarrow> world \<Rightarrow> (bool \<times> int \<times> world) undef" where
  "write_data_to_descriptor_argument idx dat shrink c w = (if 4 \<le> idx then Some (False, 0, w)
     else if w_eka1 w \<or> flag_des idx c then
       (let width = (if \<not> w_eka1 w \<and> flag_16b idx c then 2 else 1) in do {
         p \<leftarrow> own_process c w;
         d \<leftarrow> descriptor_of idx p c w;
         guard (length dat mod width = 0);
         let max_size = unat (get_max_length (w_mem w p) d);
         let write_size = (if shrink then min (length dat div width) max_size else length dat div width);
         if \<not> shrink \<and> max_size < write_size then Some (False, -2, w)
         else do {
           (_, m) \<leftarrow> des_assign (w_mapped w p) width d (take (write_size * width) dat) (w_mem w p);
           Some (True, 0, set_mem p m w)
         }
       })
     else Some (False, -1, w))"

definition set_descriptor_argument_length :: "nat \<Rightarrow> u32 \<Rightarrow> ipc_context \<Rightarrow> world \<Rightarrow> (bool \<times> world) undef" where
  "set_descriptor_argument_length idx len c w =
     (if w_eka1 w \<or> flag_des idx c then do {
       guard (idx < 4);
       p \<leftarrow> own_process c w;
       d \<leftarrow> descriptor_of idx p c w;
       m \<leftarrow> des_set_length (w_mapped w p) d len (w_mem w p);
       Some (True, set_mem p m w)
     } else Some (False, w))"

section \<open>Completion\<close>

text \<open>The status is written every time, the client signalled once, at once or by an event in 200 microseconds.\<close>

definition cx_complete :: "int \<Rightarrow> ipc_context \<Rightarrow> world \<Rightarrow> (ipc_context \<times> world) undef" where
  "cx_complete res c w = (if request_sts (cx_msg c) = 0 then Some (c, w)
     else do {
       t \<leftarrow> own_thr (cx_msg c);
       k \<leftarrow> write_status (owner (thr (w_kern w) t)) (request_sts (cx_msg c)) res (w_kern w);
       if cx_signaled c then Some (c, w\<lparr>w_kern := k\<rparr>)
       else do {
         k \<leftarrow> (if cx_accurate_timing c then Some (k\<lparr>timing := fst (schedule_event 200 (w_realtime_evt w) t (timing k))\<rparr>)
               else signal_request t 1 k);
         Some (c\<lparr>cx_signaled := True\<rparr>, w\<lparr>w_kern := k\<rparr>)
       }
     })"

definition cx_satisfy :: "(pid \<Rightarrow> security_info) \<Rightarrow> security_policy \<Rightarrow> ipc_context \<Rightarrow> world \<Rightarrow> (bool \<times> security_info option) undef" where
  "cx_satisfy info policy c w = map_option (\<lambda>p. satisfy (w_eka1 w) policy (info p)) (own_process c w)"

section \<open>Arguments are written and read back\<close>

lemma set_mem_simps [simp]:
  "own_process c (set_mem p m w) = own_process c w" "w_mem (set_mem p m w) = (w_mem w)(p := m)" "w_mapped (set_mem p m w) = w_mapped w"
  "w_eka1 (set_mem p m w) = w_eka1 w" "w_kern (set_mem p m w) = w_kern w"
  by (simp_all add: own_process_def set_mem_def)

text \<open>Writing bytes to an argument that is a descriptor of 8-bit characters and large enough succeeds, and the argument
  is then read as exactly these bytes; nothing else of the world changes but the memory of the client.\<close>

theorem argument_write_read:
  assumes "idx < 4" and "own_process c w = Some p" and "flag_des idx c" and "\<not> flag_16b idx c"
    and "w_mapped w p (arg_word idx c)" and "des_wf (w_mapped w p) 1 (w_mem w p) (arg_word idx c) (q, ws)"
    and "length dat \<le> unat (get_max_length (w_mem w p) (arg_word idx c))"
  shows "\<exists>m. write_data_to_descriptor_argument idx dat shrink c w = Some (True, 0, set_mem p m w)
    \<and> get_argument_string 1 idx c (set_mem p m w) = Some (Some dat)"
proof -
  let ?d = "arg_word idx c"
  obtain m where m: "des_assign (w_mapped w p) 1 ?d dat (w_mem w p) = Some (0, m)" "to_std_string (w_mapped w p) 1 m ?d = Some dat"
    using assign_read_roundtrip [OF assms(6), of dat "length dat"] assms(7) by auto
  have "write_data_to_descriptor_argument idx dat shrink c w = Some (True, 0, set_mem p m w)"
    using assms m(1) by (simp add: write_data_to_descriptor_argument_def descriptor_of_def Let_def)
  moreover have "get_argument_string 1 idx c (set_mem p m w) = Some (Some dat)"
    using assms m(2) by (simp add: get_argument_string_def descriptor_of_def)
  ultimately show ?thesis by blast
qed

lemma completed_twice:
  assumes "own_thr (cx_msg c) = Some t" and "request_sts (cx_msg c) = a" and "a \<noteq> 0" and "\<not> cx_signaled c" and "\<not> cx_accurate_timing c"
    and "user_mem (w_kern w) (owner (thr (w_kern w) t)) a \<noteq> None" and "can_notify t (w_kern w)"
  shows "\<exists>c' w1 w2. cx_complete r1 c w = Some (c', w1) \<and> cx_complete r2 c' w1 = Some (c', w2)
    \<and> avail_count (sema (w_kern w2) (request_sema (thr (w_kern w) t))) = avail_count (sema (w_kern w) (request_sema (thr (w_kern w) t))) + 1
    \<and> map_option status (user_mem (w_kern w2) (owner (thr (w_kern w) t)) a) = Some r2
    \<and> thr (w_kern w2) = thr (w_kern w)"
proof -
  let ?k = "w_kern w" and ?p = "owner (thr (w_kern w) t)"
  let ?k1 = "notified t (status_written ?p a r1 ?k)"
  let ?c = "c\<lparr>cx_signaled := True\<rparr>"
  have 1: "cx_complete r1 c w = Some (?c, w\<lparr>w_kern := ?k1\<rparr>)"
    using assms write_and_signal [OF assms(6,7), of r1] by (simp add: cx_complete_def)
  have "cx_complete r2 ?c (w\<lparr>w_kern := ?k1\<rparr>) = Some (?c, w\<lparr>w_kern := status_written ?p a r2 ?k1\<rparr>)"
    using assms by (simp add: cx_complete_def write_status_def status_written_def notified_def)
  with 1 show ?thesis
    by (intro exI [of _ ?c] exI [of _ "w\<lparr>w_kern := ?k1\<rparr>"] exI [of _ "w\<lparr>w_kern := status_written ?p a r2 ?k1\<rparr>"])
      (simp add: status_written_def notified_def assign_status_def)
qed

text \<open>Completing a request twice leaves the second result in the status of the client, whose request semaphore is
  signalled only once.\<close>

theorem completed_twice_signals_once:
  assumes "own_thr (cx_msg c) = Some t" and "request_sts (cx_msg c) = a" and "a \<noteq> 0" and "\<not> cx_signaled c" and "\<not> cx_accurate_timing c"
    and "user_mem (w_kern w) (owner (thr (w_kern w) t)) a \<noteq> None" and "can_notify t (w_kern w)"
  shows "\<exists>c' w1 w2. cx_complete r1 c w = Some (c', w1) \<and> cx_complete r2 c' w1 = Some (c', w2)
    \<and> avail_count (sema (w_kern w2) (request_sema (thr (w_kern w) t))) = avail_count (sema (w_kern w) (request_sema (thr (w_kern w) t))) + 1
    \<and> map_option status (user_mem (w_kern w2) (owner (thr (w_kern w) t)) a) = Some r2"
  using completed_twice [OF assms] by blast

text \<open>A client with one descriptor at 0x1000 and its status at 8.\<close>

definition sample_world :: world where
  "sample_world = \<lparr>w_kern = (fresh_kern (\<lambda>_. fresh_thread 5))\<lparr>user_mem := (\<lambda>_ _. Some \<lparr>status = 0, flags = 0\<rparr>)\<rparr>,
     w_mem = (\<lambda>_. sample_mem), w_mapped = (\<lambda>_ a. a \<noteq> 0), w_eka1 = False, w_realtime_evt = 0\<rparr>"

definition sample_context :: ipc_context where
  "sample_context = \<lparr>cx_msg = \<lparr>own_thr = Some 1, msg_function = 0, msg_args = \<lparr>args = [0x1000, 0, 0, 0], flag = 4\<rparr>, msg_session = None,
     session_ptr_lle = 0, request_sts = 8, msg_status = Msg_accepted, msg_id = 0, msg_locked = False, msg_free = False\<rparr>,
     cx_signaled = False, cx_accurate_timing = False\<rparr>"

theorem argument_write_read_witness:
  "\<exists>m. write_data_to_descriptor_argument 0 [72, 105] False sample_context sample_world = Some (True, 0, set_mem 0 m sample_world)
    \<and> get_argument_string 1 0 sample_context (set_mem 0 m sample_world) = Some (Some [72, 105])"
proof (rule argument_write_read)
  have "load32 sample_mem 0x1004 = 4" "load32 sample_mem 0x1000 = 0x30000000"
    by (simp_all add: sample_mem_def load32_store32_other region_4)
  then show "length [72, 105 :: u8] \<le> unat (get_max_length (w_mem sample_world 0) (arg_word 0 sample_context))"
    by (simp add: sample_world_def sample_context_def arg_word_def get_descriptor_type_def get_max_length_def)
  show "des_wf (w_mapped sample_world 0) 1 (w_mem sample_world 0) (arg_word 0 sample_context) (0x1008, region 0x1000 8)"
  proof -
    have "load32 sample_mem 0x1004 = 4" "load32 sample_mem 0x1000 = 0x30000000"
      by (simp_all add: sample_mem_def load32_store32_other region_4)
    then have "get_descriptor_type sample_mem 0x1000 = Des_buf" by (simp add: get_descriptor_type_def)
    then show ?thesis using sample_mem_wf by (simp add: sample_world_def sample_context_def arg_word_def des_wf_def des_layout_def)
  qed
qed (simp_all add: sample_world_def sample_context_def own_process_def arg_bit_def arg_word_def)

theorem completed_twice_signals_once_witness:
  "\<exists>c' w1 w2. cx_complete (-6) sample_context sample_world = Some (c', w1) \<and> cx_complete 0 c' w1 = Some (c', w2)
    \<and> avail_count (sema (w_kern w2) (request_sema (thr (w_kern sample_world) 1))) = avail_count (sema (w_kern sample_world) (request_sema (thr (w_kern sample_world) 1))) + 1
    \<and> map_option status (user_mem (w_kern w2) (owner (thr (w_kern sample_world) 1)) 8) = Some 0"
  by (rule completed_twice_signals_once) (simp_all add: sample_world_def sample_context_def can_notify_def)

end
