(* ===== verification/Ini.thy ===== *)
theory Ini
  imports Common_Algorithm
begin

text \<open>
  The reader of INI files (\<open>common/ini.cpp\<close>, \<open>ini.h\<close>) and of the text files below it (\<open>common/dynamicfile.cpp\<close>): lines are cut
  into tokens, tokens become a tree of sections, pairs and values.
\<close>

section \<open>Texts\<close>

abbreviation c_tab :: char where "c_tab \<equiv> CHR 0x09"

text \<open>What \<open>c_str\<close> shows of a string to whoever stops at the first zero.\<close>

definition c_str :: "string \<Rightarrow> string" where
  "c_str = takeWhile (\<lambda>c. c \<noteq> CHR 0x00)"

definition lower_char :: "char \<Rightarrow> char" where
  "lower_char c = (if 65 \<le> (of_char c :: nat) \<and> (of_char c :: nat) \<le> 90 then char_of (of_char c + 32 :: nat) else c)"

text \<open>The value of a character as a digit, up to base 16.\<close>

definition digit_val :: "char \<Rightarrow> nat option" where
  "digit_val c = (let n = of_char c :: nat in
     if 48 \<le> n \<and> n \<le> 57 then Some (n - 48) else if 65 \<le> n \<and> n \<le> 70 then Some (n - 55)
     else if 97 \<le> n \<and> n \<le> 102 then Some (n - 87) else None)"

definition is_digit :: "nat \<Rightarrow> char \<Rightarrow> bool" where
  "is_digit b c \<longleftrightarrow> (case digit_val c of Some d \<Rightarrow> d < b | None \<Rightarrow> False)"

definition digits_val :: "nat \<Rightarrow> string \<Rightarrow> nat" where
  "digits_val b = foldl (\<lambda>n c. b * n + the (digit_val c)) 0"

definition is_space :: "char \<Rightarrow> bool" where
  "is_space c \<longleftrightarrow> c \<in> {CHR '' '', CHR 0x09, CHR 0x0A, CHR 0x0B, CHR 0x0C, CHR 0x0D}"

text \<open>The number a text begins with, as the C library reads it: white space, a sign, in base 16 the prefix \<open>0x\<close> if a digit
  follows, and digits; 0 without digits.\<close>

definition unsigned_part :: "nat \<Rightarrow> string \<Rightarrow> nat" where
  "unsigned_part b s = digits_val b (takeWhile (is_digit b)
     (if b = 16 \<and> length s > 2 \<and> s ! 0 = CHR ''0'' \<and> lower_char (s ! 1) = CHR ''x'' \<and> is_digit 16 (s ! 2) then drop 2 s else s))"

definition c_number :: "nat \<Rightarrow> string \<Rightarrow> int" where
  "c_number b s = (case dropWhile is_space s of
     [] \<Rightarrow> 0
   | c # cs \<Rightarrow> if c = CHR ''-'' then - int (unsigned_part b cs) else if c = CHR ''+'' then int (unsigned_part b cs)
       else int (unsigned_part b (c # cs)))"

text \<open>\<open>strtoll\<close> stays within the range of \<open>long long\<close>; for a number out of the range, \<open>atoll\<close> and \<open>atoi\<close> are undefined.\<close>

definition strtoll :: "nat \<Rightarrow> string \<Rightarrow> int" where
  "strtoll b s = max (- (2 ^ 63)) (min (2 ^ 63 - 1) (c_number b (c_str s)))"

definition ato :: "nat \<Rightarrow> string \<Rightarrow> int undef" where
  "ato w s = (let n = c_number 10 (c_str s) in if - (2 ^ (w - 1)) \<le> n \<and> n < 2 ^ (w - 1) then Some n else None)"

text \<open>\<open>std::to_string\<close>\<close>

definition digit_char :: "nat \<Rightarrow> char" where
  "digit_char d = (if d < 10 then char_of (48 + d) else char_of (87 + d))"

fun number_string :: "nat \<Rightarrow> string" where
  "number_string n = (if n < 10 then [digit_char n] else number_string (n div 10) @ [digit_char (n mod 10)])"

declare number_string.simps [simp del]

section \<open>Nodes\<close>

text \<open>A value of a pair can be a null pointer. No node is of the type \<open>INI_NODE_KEY\<close>.\<close>

datatype ini_node = Ini_value string | Ini_pair string "ini_node option list" | Ini_section string "ini_node list"

fun node_name :: "ini_node \<Rightarrow> string" where
  "node_name (Ini_value v) = c_str v"
| "node_name (Ini_pair k vs) = c_str k"
| "node_name (Ini_section k ns) = c_str k"

text \<open>Names are compared up to the length of the one that is asked for.\<close>

definition named :: "string \<Rightarrow> ini_node \<Rightarrow> bool" where
  "named name n \<longleftrightarrow> take (length name) (node_name n) = name"

definition ini_find :: "string \<Rightarrow> ini_node list \<Rightarrow> ini_node option" where
  "ini_find name = find (named name)"

definition ini_find_ignore_case :: "string \<Rightarrow> ini_node list \<Rightarrow> ini_node option" where
  "ini_find_ignore_case name = find (\<lambda>n. map lower_char name = map lower_char (node_name n))"

definition node_exists :: "string \<Rightarrow> ini_node list \<Rightarrow> bool" where
  "node_exists name ns \<longleftrightarrow> (\<exists>n \<in> set ns. named name n)"

text \<open>The new nodes are at the end; the result tells whether there is one.\<close>

definition create_node :: "string \<Rightarrow> ini_node \<Rightarrow> ini_node list \<Rightarrow> bool \<times> ini_node list" where
  "create_node name n ns = (if node_exists name ns then (False, ns) else (True, ns @ [n]))"

definition create_section :: "string \<Rightarrow> ini_node list \<Rightarrow> bool \<times> ini_node list" where
  "create_section name = create_node name (Ini_section name [])"

definition create_pair :: "string \<Rightarrow> ini_node list \<Rightarrow> bool \<times> ini_node list" where
  "create_pair key = create_node key (Ini_pair key [])"

definition create_value :: "string \<Rightarrow> ini_node list \<Rightarrow> bool \<times> ini_node list" where
  "create_value val = create_node val (Ini_value val)"

text \<open>Numbers in values and keys.\<close>

definition native :: "string \<Rightarrow> int undef" where
  "native v = (if length v > 2 \<and> v ! 0 = CHR ''0'' \<and> v ! 1 \<in> {CHR ''x'', CHR ''X''} then Some (strtoll 16 (drop 2 v)) else ato 64 v)"

text \<open>The values of a pair. Reading puts them into a list of the caller's, which \<open>old\<close> is; before that the list of values is
  resized, with null pointers, which are dereferenced.\<close>

definition pair_set_words :: "u32 list \<Rightarrow> ini_node option list \<Rightarrow> bool \<times> ini_node option list" where
  "pair_set_words xs vs = (if xs = [] then (False, vs) else (True, map (\<lambda>x. Some (Ini_value (number_string (unat x)))) xs))"

definition pair_set_bools :: "bool list \<Rightarrow> ini_node option list \<Rightarrow> bool \<times> ini_node option list" where
  "pair_set_bools xs vs = (if xs = [] then (False, vs) else (True, map (\<lambda>x. Some (Ini_value (if x then ''1'' else ''0''))) xs))"

definition pair_set_strings :: "string list \<Rightarrow> ini_node option list \<Rightarrow> bool \<times> ini_node option list" where
  "pair_set_strings xs vs = (True, map (\<lambda>x. Some (Ini_value x)) xs)"

definition resized :: "nat \<Rightarrow> 'a list \<Rightarrow> 'a \<Rightarrow> 'a list" where
  "resized n xs x = take n xs @ replicate (n - length xs) x"

fun read_words :: "ini_node option list \<Rightarrow> u32 list \<Rightarrow> (nat \<times> u32 list) undef" where
  "read_words (Some (Ini_value v) # vs) (_ # old) = do {
     x \<leftarrow> native v;
     (n, xs) \<leftarrow> read_words vs old;
     Some (Suc n, word_of_int x # xs)
   }"
| "read_words (Some _ # vs) (x # old) = map_option (\<lambda>(n, xs). (n, x # xs)) (read_words vs old)"
| "read_words (None # vs) (x # old) = None"
| "read_words [] old = Some (0, old)"
| "read_words vs [] = Some (0, [])"

definition pair_get_words :: "u32 list \<Rightarrow> ini_node option list \<Rightarrow> ((nat \<times> u32 list) \<times> ini_node option list) undef" where
  "pair_get_words old vs = (let vs = resized (length old) vs None in map_option (\<lambda>r. (r, vs)) (read_words vs old))"

fun read_bools :: "ini_node option list \<Rightarrow> bool list \<Rightarrow> (nat \<times> bool list) undef" where
  "read_bools (Some (Ini_value v) # vs) (x # old) = map_option (\<lambda>(n, xs).
     if v = ''true'' then (Suc n, True # xs) else if v = ''false'' then (Suc n, False # xs) else (n, x # xs)) (read_bools vs old)"
| "read_bools (Some _ # vs) (x # old) = map_option (\<lambda>(n, xs). (n, x # xs)) (read_bools vs old)"
| "read_bools (None # vs) (x # old) = None"
| "read_bools [] old = Some (0, old)"
| "read_bools vs [] = Some (0, [])"

definition pair_get_bools :: "bool list \<Rightarrow> ini_node option list \<Rightarrow> ((nat \<times> bool list) \<times> ini_node option list) undef" where
  "pair_get_bools old vs = (let vs = resized (length old) vs None in map_option (\<lambda>r. (r, vs)) (read_bools vs old))"

fun read_strings :: "ini_node option list \<Rightarrow> string list \<Rightarrow> string list undef" where
  "read_strings vs [] = Some []"
| "read_strings (Some (Ini_value v) # vs) (_ # old) = map_option ((#) v) (read_strings vs old)"
| "read_strings _ (_ # _) = None"

definition pair_get_strings :: "string list \<Rightarrow> ini_node option list \<Rightarrow> (nat \<times> string list) undef" where
  "pair_get_strings old vs = map_option (Pair (length vs)) (read_strings vs old)"

text \<open>The same by the key of a pair in a section: the number of values read, the list, the error code.\<close>

definition section_get :: "(ini_node option list \<Rightarrow> ((nat \<times> 'a list) \<times> ini_node option list) undef) \<Rightarrow> 'a list \<Rightarrow> string \<Rightarrow> ini_node list
    \<Rightarrow> ((nat \<times> 'a list \<times> int) \<times> ini_node list) undef" where
  "section_get get old key ns = (case find_index (named key) ns of
     None \<Rightarrow> Some ((0, old, -1), ns)
   | Some i \<Rightarrow> (case ns ! i of
       Ini_pair k vs \<Rightarrow> do { ((n, xs), vs) \<leftarrow> get vs; Some ((n, xs, 0), ns[i := Ini_pair k vs]) }
     | _ \<Rightarrow> None))"

definition section_get_words :: "u32 list \<Rightarrow> string \<Rightarrow> ini_node list \<Rightarrow> ((nat \<times> u32 list \<times> int) \<times> ini_node list) undef" where
  "section_get_words old = section_get (pair_get_words old) old"

definition section_get_bools :: "bool list \<Rightarrow> string \<Rightarrow> ini_node list \<Rightarrow> ((nat \<times> bool list \<times> int) \<times> ini_node list) undef" where
  "section_get_bools old = section_get (pair_get_bools old) old"

definition section_get_strings :: "string list \<Rightarrow> string \<Rightarrow> ini_node list \<Rightarrow> ((nat \<times> string list \<times> int) \<times> ini_node list) undef" where
  "section_get_strings old = section_get (\<lambda>vs. map_option (\<lambda>r. (r, vs)) (pair_get_strings old vs)) old"

section \<open>Lines of text files\<close>

text \<open>A file of 16-bit characters starts with a mark for the order of its bytes. The bytes of a character are of the signed type
  \<open>char\<close>: from 0x80 on the lower one covers the upper one.\<close>

fun ucs2_line :: "bool \<Rightarrow> u8 list \<Rightarrow> u16 list \<times> u8 list option" where
  "ucs2_line big (a # b # bs) = (let hi = (if big then a else b); lo = (if big then b else a);
      x = or (push_bit 8 (scast hi)) (scast lo) :: u16 in
     if x = 0x0A then ([], Some bs) else (case ucs2_line big bs of (l, rest) \<Rightarrow> (x # l, rest)))"
| "ucs2_line big _ = ([], None)"

lemma ucs2_line_length: "ucs2_line big bs = (l, Some rest) \<Longrightarrow> length rest < length bs"
proof (induction big bs arbitrary: l rest rule: ucs2_line.induct)
  case (1 big a b bs)
  show ?case
  proof (cases "or (push_bit 8 (scast (if big then a else b))) (scast (if big then b else a)) = (0x0A :: u16)")
    case True
    then show ?thesis using 1(2) by (simp add: Let_def)
  next
    case False
    then have "length rest < length bs" using 1(2) 1(1) [OF refl refl refl False] by (auto simp: Let_def split: prod.splits)
    then show ?thesis by simp
  qed
qed simp_all

function ucs2_lines :: "bool \<Rightarrow> u8 list \<Rightarrow> u16 list list" where
  "ucs2_lines big bs = (case ucs2_line big bs of (l, None) \<Rightarrow> [l] | (l, Some rest) \<Rightarrow> l # ucs2_lines big rest)"
  by auto
termination
  by (relation "measure (\<lambda>(big, bs). length bs)") (auto dest: ucs2_line_length [OF sym])

text \<open>\<open>std::getline\<close>: there is no line after the last end of a line.\<close>

fun byte_lines :: "string \<Rightarrow> string \<Rightarrow> string list" where
  "byte_lines l [] = (if l = [] then [] else [rev l])"
| "byte_lines l (c # cs) = (if c = CHR 0x0A then rev l # byte_lines [] cs else byte_lines (c # l) cs)"

text \<open>The lines of a file; \<open>utf8\<close> is the conversion of the library. Too short a file counts as missing.\<close>

definition file_lines :: "(u16 list \<Rightarrow> string) \<Rightarrow> u8 list \<Rightarrow> string list option" where
  "file_lines utf8 bs = (case bs of
     a # b # rest \<Rightarrow> Some (if a = 0xFF \<and> b = 0xFE then map utf8 (ucs2_lines False rest)
       else if a = 0xFE \<and> b = 0xFF then map utf8 (ucs2_lines True rest)
       else byte_lines [] (map (\<lambda>w. char_of (unat w)) bs))
   | _ \<Rightarrow> None)"

section \<open>Tokens\<close>

text \<open>What is left of a line, and the tokens put back.\<close>

record linestream =
  ls_rest :: string
  ls_waits :: "string list"

definition new_linestream :: "string \<Rightarrow> linestream" where
  "new_linestream l = \<lparr>ls_rest = (if l \<noteq> [] \<and> last l = CHR 0x0D then butlast l else l), ls_waits = []\<rparr>"

definition ls_eof :: "linestream \<Rightarrow> bool" where
  "ls_eof s \<longleftrightarrow> ls_rest s = [] \<and> ls_waits s = []"

text \<open>A token from the line: its text, and what is left. A quoted one ends before its quotation mark, a bracketed one is one
  character longer than what was passed over.\<close>

definition raw_token :: "bool \<Rightarrow> string \<Rightarrow> string \<times> string" where
  "raw_token ig r =
    (let stop = (if hd r = CHR 0x22 then CHR 0x22 else if hd r = CHR ''['' then CHR '']'' else if ig then CHR '' '' else CHR 0x00);
       body = (if hd r = CHR 0x22 then tl r else r);
       goes_on = (\<lambda>c. c \<noteq> stop \<and> c \<noteq> CHR '','' \<and> c \<noteq> c_tab);
       tok = takeWhile goes_on body
     in (if stop = CHR '']'' then take (Suc (length tok)) body else tok, dropWhile goes_on body))"

text \<open>An equals sign splits a token, into up to three.\<close>

definition split_equals :: "string \<Rightarrow> string \<times> string list" where
  "split_equals t = (let a = takeWhile (\<lambda>c. c \<noteq> CHR ''='') t; b = dropWhile (\<lambda>c. c \<noteq> CHR ''='') t in
     if t \<noteq> ''='' \<and> b \<noteq> [] then
       (if a \<noteq> [] then a else ''='', (if a \<noteq> [] then [''=''] else []) @ (if tl b \<noteq> [] then [tl b] else []))
     else (t, []))"

definition skip_blanks :: "string \<Rightarrow> string" where
  "skip_blanks = dropWhile (\<lambda>c. c = CHR '' '' \<or> c = c_tab)"

definition next_string :: "bool \<Rightarrow> linestream \<Rightarrow> string \<times> linestream" where
  "next_string ig s = (case ls_waits s of
     t # ts \<Rightarrow> (t, s\<lparr>ls_waits := ts\<rparr>)
   | [] \<Rightarrow> (let r = (if ig then skip_blanks (ls_rest s) else ls_rest s) in
       if r = [] then ([], s\<lparr>ls_rest := []\<rparr>)
       else if hd r = CHR '','' then ('','', s\<lparr>ls_rest := tl r\<rparr>)
       else (case raw_token ig r of (t, rest) \<Rightarrow> (case split_equals t of (t, ws) \<Rightarrow> (t, s\<lparr>ls_rest := rest, ls_waits := ws\<rparr>)))))"

definition peek_string :: "bool \<Rightarrow> linestream \<Rightarrow> string option \<times> linestream" where
  "peek_string ig s = (if ls_eof s then (None, s)
     else (case next_string ig s of (t, s) \<Rightarrow> if t = [] then (None, s) else (Some t, s\<lparr>ls_waits := t # ls_waits s\<rparr>)))"

section \<open>Loading\<close>

text \<open>Where a pair is: the index of a node of the section, then indices of values. Values are appended to it.\<close>

fun push_to_node :: "nat list \<Rightarrow> ini_node \<Rightarrow> ini_node \<Rightarrow> ini_node undef" where
  "push_to_node [] v (Ini_pair k vs) = Some (Ini_pair k (vs @ [Some v]))"
| "push_to_node (i # p) v (Ini_pair k vs) = (if i < length vs then do {
     n \<leftarrow> vs ! i;
     n \<leftarrow> push_to_node p v n;
     Some (Ini_pair k (vs[i := Some n]))
   } else None)"
| "push_to_node _ _ _ = None"

fun pushed_index :: "nat list \<Rightarrow> ini_node \<Rightarrow> nat" where
  "pushed_index [] (Ini_pair k vs) = length vs"
| "pushed_index (i # p) (Ini_pair k vs) = (case vs ! i of Some n \<Rightarrow> pushed_index p n | None \<Rightarrow> 0)"
| "pushed_index _ _ = 0"

definition push_value :: "nat list option \<Rightarrow> ini_node \<Rightarrow> ini_node list \<Rightarrow> ini_node list undef" where
  "push_value pr v ns = do {
     p \<leftarrow> pr;
     (case p of [] \<Rightarrow> None
      | i # p \<Rightarrow> if i < length ns then do { n \<leftarrow> push_to_node p v (ns ! i); Some (ns[i := n]) } else None)
   }"

text \<open>Reading a line can stop at a null pointer, or not at all.\<close>

datatype line_stop = Null_pointer | Endless

text \<open>Values separated by commas, after an equals sign.\<close>

fun comma_values :: "bool \<Rightarrow> nat \<Rightarrow> nat list option \<Rightarrow> linestream \<Rightarrow> ini_node list \<Rightarrow> line_stop + linestream \<times> ini_node list" where
  "comma_values ig 0 pr s ns = Inl Endless"
| "comma_values ig (Suc n) pr s ns = (case next_string ig s of (tok, s) \<Rightarrow> (case push_value pr (Ini_value tok) ns of
     None \<Rightarrow> Inl Null_pointer
   | Some ns \<Rightarrow> (case peek_string ig s of (t, s) \<Rightarrow>
       if t = Some '','' then comma_values ig n pr (snd (next_string ig s)) ns else Inr (s, ns))))"

text \<open>Values up to the end of the line, or up to a token that an equals sign follows, which is returned.\<close>

fun blank_values :: "bool \<Rightarrow> nat \<Rightarrow> nat list option \<Rightarrow> linestream \<Rightarrow> ini_node list \<Rightarrow> line_stop + string option \<times> linestream \<times> ini_node list" where
  "blank_values ig 0 pr s ns = Inl Endless"
| "blank_values ig (Suc n) pr s ns = (case next_string ig s of (tok, s) \<Rightarrow> (case peek_string ig s of (t, s) \<Rightarrow>
     if t = Some ''='' then Inr (Some tok, s, ns)
     else (case push_value pr (Ini_value (c_str tok)) ns of
       None \<Rightarrow> Inl Null_pointer
     | Some ns \<Rightarrow> if ls_eof s then Inr (None, s, ns) else blank_values ig n pr s ns)))"

text \<open>The pair to be filled: the one there is, a new one of the section, which is null if the name is taken, or a new one in the
  values of the parent.\<close>

definition current_pair :: "string \<Rightarrow> nat list option \<Rightarrow> nat list option \<Rightarrow> ini_node list \<Rightarrow> (nat list option \<times> ini_node list) undef" where
  "current_pair first_token parent pr ns = (case pr of
     Some _ \<Rightarrow> Some (pr, ns)
   | None \<Rightarrow> (case parent of
       None \<Rightarrow> (case create_pair (c_str first_token) ns of (ok, ns') \<Rightarrow> Some (if ok then Some [length ns] else None, ns'))
     | Some q \<Rightarrow> do {
         ns' \<leftarrow> push_value parent (Ini_pair first_token []) ns;
         Some (Some (q @ [pushed_index (tl q) (ns ! hd q)]), ns')
       }))"

fun pair_loop :: "bool \<Rightarrow> nat \<Rightarrow> string \<Rightarrow> nat list option \<Rightarrow> nat list option \<Rightarrow> linestream \<Rightarrow> ini_node list \<Rightarrow> line_stop + ini_node list" where
  "pair_loop ig 0 first_token parent pr s ns = (if ls_eof s then Inr ns else Inl Endless)"
| "pair_loop ig (Suc n) first_token parent pr s ns = (if ls_eof s then Inr ns
     else (case current_pair first_token parent pr ns of
       None \<Rightarrow> Inl Null_pointer
     | Some (pr, ns) \<Rightarrow> (case peek_string ig s of (t, s) \<Rightarrow>
         if t = Some ''='' then (case comma_values ig n pr (snd (next_string ig s)) ns of
           Inl e \<Rightarrow> Inl e
         | Inr (s, ns) \<Rightarrow> pair_loop ig n first_token None parent s ns)
         else (case blank_values ig n pr s ns of
           Inl e \<Rightarrow> Inl e
         | Inr (tok, s, ns) \<Rightarrow> (case tok of Some tok \<Rightarrow> pair_loop ig n tok pr None s ns | None \<Rightarrow> Inr ns)))))"

text \<open>The section that is filled: the file itself, a section of it, or a null pointer, because the name was taken.\<close>

datatype section_ptr = At_file | At_section nat | At_null

definition in_section :: "section_ptr \<Rightarrow> (ini_node list \<Rightarrow> ini_node list undef) \<Rightarrow> ini_node list \<Rightarrow> ini_node list undef" where
  "in_section p f ns = (case p of
     At_file \<Rightarrow> f ns
   | At_section i \<Rightarrow> (if i < length ns then (case ns ! i of
         Ini_section k xs \<Rightarrow> map_option (\<lambda>xs. ns[i := Ini_section k xs]) (f xs)
       | _ \<Rightarrow> None) else None)
   | At_null \<Rightarrow> None)"

text \<open>A bound for the tokens of a line.\<close>

definition line_fuel :: "linestream \<Rightarrow> nat" where
  "line_fuel s = 4 * length (ls_rest s) + length (ls_waits s) + 4"

definition stopped :: "line_stop + 'a \<Rightarrow> 'a undef" where
  "stopped x = (case x of Inl e \<Rightarrow> None | Inr y \<Rightarrow> Some y)"

text \<open>A line is read, or makes the file invalid.\<close>

definition load_line :: "bool \<Rightarrow> string \<Rightarrow> section_ptr \<times> ini_node list \<Rightarrow> (bool \<times> section_ptr \<times> ini_node list) undef" where
  "load_line ig line x = (case x of (sec, ns) \<Rightarrow> (case next_string ig (new_linestream line) of (first_token, s) \<Rightarrow>
     if first_token = [] \<or> hd first_token = CHR '';'' \<or> take 2 first_token = ''//'' then Some (True, sec, ns)
     else if hd first_token = CHR ''['' then (let name = take (length first_token - 2) (tl first_token) in
       if name = [] then Some (False, sec, ns)
       else (case create_section (c_str name) ns of (ok, ns') \<Rightarrow> Some (True, if ok then At_section (length ns) else At_null, ns')))
     else (let next_tok = c_str first_token in
       if next_tok \<noteq> [] \<and> hd next_tok = CHR ''#'' then Some (True, sec, ns)
       else map_option (\<lambda>ns. (True, sec, ns))
         (if ls_eof s then in_section sec (\<lambda>xs. Some (snd (create_value next_tok xs))) ns
          else in_section sec (\<lambda>xs. stopped (pair_loop ig (line_fuel s) first_token None None s xs)) ns))))"

fun load_lines :: "bool \<Rightarrow> string list \<Rightarrow> section_ptr \<times> ini_node list \<Rightarrow> (int \<times> ini_node list) undef" where
  "load_lines ig [] x = Some (0, snd x)"
| "load_lines ig (l # ls) x = do {
     (ok, x) \<leftarrow> load_line ig l x;
     if ok then load_lines ig ls x else Some (-2, snd x)
   }"

text \<open>\<open>file\<close> is what the file holds, if there is one.\<close>

definition ini_load :: "(u16 list \<Rightarrow> string) \<Rightarrow> bool \<Rightarrow> u8 list option \<Rightarrow> (int \<times> ini_node list) undef" where
  "ini_load utf8 ig file = (case file of
     None \<Rightarrow> Some (-1, [])
   | Some bs \<Rightarrow> (case file_lines utf8 bs of None \<Rightarrow> Some (-1, []) | Some ls \<Rightarrow> load_lines ig ls (At_file, [])))"

end
