(* ===== verification/Ini_Rep.thy ===== *)
theory Ini_Rep
  imports Ini
begin

text \<open>
  What the reader of INI files does with a line: where blanks are ignored it always ends, plain and quoted tokens become the
  values of a pair, numbers are read as they were written, and the keys and tabs that it does not survive.
\<close>

section \<open>The reader ends\<close>

text \<open>Every token taken makes the stream smaller, also when it is split, and no token is put back more often than it was taken.\<close>

definition ls_size :: "linestream \<Rightarrow> nat" where
  "ls_size s = 4 * length (ls_rest s) + length (ls_waits s)"

definition ls_ok :: "linestream \<Rightarrow> bool" where
  "ls_ok s \<longleftrightarrow> [] \<notin> set (ls_waits s)"

lemma ls_eof_size: "ls_eof s \<longleftrightarrow> ls_size s = 0"
  by (auto simp: ls_eof_def ls_size_def)

lemma raw_token_rest:
  assumes "r \<noteq> []" and "hd r \<noteq> CHR '' ''" and "hd r \<noteq> c_tab" and "hd r \<noteq> CHR '',''"
  shows "length (snd (raw_token True r)) < length r"
proof -
  obtain c cs where r: "r = c # cs" using assms(1) by (cases r) auto
  show ?thesis
    using assms(2-) length_dropWhile_le [of _ cs] by (auto simp: raw_token_def r Let_def less_Suc_eq_le)
qed

lemma split_equals_ok: "split_equals t = (a, ws) \<Longrightarrow> length ws \<le> 2 \<and> [] \<notin> set ws"
  by (auto simp: split_equals_def Let_def split: if_splits)

lemma skip_blanks_hd: "skip_blanks r \<noteq> [] \<Longrightarrow> hd (skip_blanks r) \<noteq> CHR '' '' \<and> hd (skip_blanks r) \<noteq> c_tab"
  unfolding skip_blanks_def by (drule hd_dropWhile) simp

lemma skip_blanks_length: "length (skip_blanks r) \<le> length r"
  by (simp add: skip_blanks_def length_dropWhile_le)

lemma next_string_line:
  assumes "ls_waits s = []" and "ls_rest s \<noteq> []" and "next_string True s = (t, s')"
  shows "ls_size s' + 2 \<le> ls_size s \<and> ls_ok s'"
proof -
  let ?r = "skip_blanks (ls_rest s)"
  consider "?r = []" | "?r \<noteq> []" "hd ?r = CHR '',''" | "?r \<noteq> []" "hd ?r \<noteq> CHR '',''" by blast
  then show ?thesis
  proof cases
    case 1
    then show ?thesis using assms by (cases "ls_rest s") (auto simp: next_string_def ls_size_def ls_ok_def)
  next
    case 2
    then have "length (tl ?r) < length (ls_rest s)" using skip_blanks_length [of "ls_rest s"] by (cases ?r) auto
    then show ?thesis using assms 2 by (auto simp: next_string_def ls_size_def ls_ok_def)
  next
    case 3
    obtain u rest a ws where t: "raw_token True ?r = (u, rest)" "split_equals u = (a, ws)" by (meson surj_pair)
    have "length rest < length (ls_rest s)"
      using raw_token_rest [OF 3(1) _ _ 3(2)] skip_blanks_hd [OF 3(1)] skip_blanks_length [of "ls_rest s"] t(1) by auto
    then show ?thesis using assms 3 t split_equals_ok [OF t(2)] by (auto simp: next_string_def ls_size_def ls_ok_def)
  qed
qed

lemma next_string_size:
  assumes "ls_ok s" and "next_string True s = (t, s')"
  shows "ls_ok s' \<and> ls_size s' \<le> ls_size s \<and> (\<not> ls_eof s \<longrightarrow> ls_size s' < ls_size s)"
proof (cases "ls_waits s")
  case (Cons w ws)
  then show ?thesis using assms by (auto simp: next_string_def ls_size_def ls_ok_def)
next
  case Nil
  show ?thesis
  proof (cases "ls_rest s = []")
    case True
    then show ?thesis using Nil assms(2) by (auto simp: next_string_def ls_size_def ls_ok_def ls_eof_def skip_blanks_def)
  next
    case False
    then show ?thesis using next_string_line [OF Nil False assms(2)] by linarith
  qed
qed

lemma peek_string_size:
  assumes "ls_ok s" and "peek_string True s = (t, s')"
  shows "ls_ok s' \<and> ls_size s' \<le> ls_size s \<and> (t \<noteq> None \<longrightarrow> \<not> ls_eof s \<and> \<not> ls_eof s')"
proof (cases "ls_eof s")
  case True
  then show ?thesis using assms by (auto simp: peek_string_def)
next
  case False
  obtain u s1 where n: "next_string True s = (u, s1)" by (meson surj_pair)
  have "ls_size (s1\<lparr>ls_waits := u # ls_waits s1\<rparr>) = ls_size s1 + 1" by (simp add: ls_size_def)
  moreover have "ls_ok (s1\<lparr>ls_waits := u # ls_waits s1\<rparr>) \<longleftrightarrow> u \<noteq> [] \<and> ls_ok s1" by (auto simp: ls_ok_def)
  ultimately show ?thesis
    using assms False n next_string_size [OF assms(1) n]
    by (cases "u = []") (auto simp: peek_string_def, auto simp: ls_eof_def)
qed

lemma comma_values_size:
  "comma_values True n pr s ns = Inr (s', ns') \<Longrightarrow> ls_ok s \<Longrightarrow> ls_ok s' \<and> ls_size s' \<le> ls_size s"
proof (induction n arbitrary: s ns)
  case 0
  then show ?case by simp
next
  case (Suc n)
  obtain tok s1 t s2 where 1: "next_string True s = (tok, s1)" "peek_string True s1 = (t, s2)" by (meson surj_pair)
  note n = next_string_size [OF Suc.prems(2) 1(1)]
  note p = peek_string_size [OF conjunct1 [OF n] 1(2)]
  show ?case
  proof (cases "t = Some '',''")
    case True
    obtain u s3 where 3: "next_string True s2 = (u, s3)" by (meson surj_pair)
    note m = next_string_size [OF conjunct1 [OF p] 3]
    obtain ns1 where "comma_values True n pr s3 ns1 = Inr (s', ns')" using Suc.prems(1) 1 3 True by (auto split: option.splits)
    then show ?thesis using Suc.IH m n p by (meson le_trans)
  next
    case False
    then have "s' = s2" using Suc.prems(1) 1 by (auto split: option.splits)
    then show ?thesis using n p by simp
  qed
qed

lemma comma_values_fuel:
  "ls_ok s \<Longrightarrow> ls_size s < n \<Longrightarrow> ls_size s < m \<Longrightarrow>
    comma_values True n pr s ns = comma_values True m pr s ns \<and> comma_values True n pr s ns \<noteq> Inl Endless"
proof (induction n arbitrary: s ns m)
  case 0
  then show ?case by simp
next
  case (Suc n)
  obtain m' where m: "m = Suc m'" using Suc.prems(3) by (cases m) auto
  obtain tok s1 t s2 u s3 where 1: "next_string True s = (tok, s1)" "peek_string True s1 = (t, s2)" "next_string True s2 = (u, s3)"
    by (meson surj_pair)
  note n = next_string_size [OF Suc.prems(1) 1(1)]
  note p = peek_string_size [OF conjunct1 [OF n] 1(2)]
  note q = next_string_size [OF conjunct1 [OF p] 1(3)]
  have "comma_values True n pr s3 ns1 = comma_values True m' pr s3 ns1 \<and> comma_values True n pr s3 ns1 \<noteq> Inl Endless" if "t = Some '',''" for ns1
    using that Suc.IH [of s3 m' ns1] Suc.prems n p q m by auto
  then show ?case using 1 m by (cases "push_value pr (Ini_value tok) ns"; cases "t = Some '',''") auto
qed

lemma blank_values_size:
  "blank_values True n pr s ns = Inr (tok, s', ns') \<Longrightarrow> ls_ok s \<Longrightarrow>
    ls_ok s' \<and> ls_size s' \<le> ls_size s \<and> (tok \<noteq> None \<longrightarrow> ls_size s' < ls_size s)"
proof (induction n arbitrary: s ns)
  case 0
  then show ?case by simp
next
  case (Suc n)
  obtain v s1 t s2 where 1: "next_string True s = (v, s1)" "peek_string True s1 = (t, s2)" by (meson surj_pair)
  note n = next_string_size [OF Suc.prems(2) 1(1)]
  note p = peek_string_size [OF conjunct1 [OF n] 1(2)]
  show ?case
  proof (cases "t = Some ''=''")
    case True
    then have "s' = s2" using Suc.prems(1) 1 by simp
    moreover have "\<not> ls_eof s" using p True n by (auto simp: ls_eof_size)
    ultimately show ?thesis using n p by auto
  next
    case False
    show ?thesis
    proof (cases "ls_eof s2")
      case True
      then have "s' = s2" "tok = None" using Suc.prems(1) 1 False by (auto split: option.splits)
      then show ?thesis using n p by auto
    next
      case eof: False
      obtain ns1 where "blank_values True n pr s2 ns1 = Inr (tok, s', ns')" using Suc.prems(1) 1 False eof by (auto split: option.splits)
      from Suc.IH [OF this] show ?thesis using n p by auto
    qed
  qed
qed

lemma blank_values_fuel:
  "ls_ok s \<Longrightarrow> ls_size s < n \<Longrightarrow> ls_size s < m \<Longrightarrow>
    blank_values True n pr s ns = blank_values True m pr s ns \<and> blank_values True n pr s ns \<noteq> Inl Endless"
proof (induction n arbitrary: s ns m)
  case 0
  then show ?case by simp
next
  case (Suc n)
  obtain m' where m: "m = Suc m'" using Suc.prems(3) by (cases m) auto
  obtain v s1 t s2 where 1: "next_string True s = (v, s1)" "peek_string True s1 = (t, s2)" by (meson surj_pair)
  note n = next_string_size [OF Suc.prems(1) 1(1)]
  note p = peek_string_size [OF conjunct1 [OF n] 1(2)]
  have "blank_values True n pr s2 ns1 = blank_values True m' pr s2 ns1 \<and> blank_values True n pr s2 ns1 \<noteq> Inl Endless" if "\<not> ls_eof s2" for ns1
  proof -
    have "\<not> ls_eof s" using that n p by (auto simp: ls_eof_size)
    then show ?thesis using Suc.IH [of s2 m' ns1] Suc.prems n p m by auto
  qed
  then show ?case using 1 m by (cases "push_value pr (Ini_value (c_str v)) ns"; cases "t = Some ''=''"; cases "ls_eof s2") auto
qed

lemma pair_loop_fuel:
  "ls_ok s \<Longrightarrow> ls_size s + 2 \<le> n \<Longrightarrow> ls_size s + 2 \<le> m \<Longrightarrow>
    pair_loop True n first_token parent pr s ns = pair_loop True m first_token parent pr s ns
    \<and> pair_loop True n first_token parent pr s ns \<noteq> Inl Endless"
proof (induction n arbitrary: s ns m first_token parent pr)
  case 0
  then show ?case by simp
next
  case (Suc n)
  obtain m' where m: "m = Suc m'" using Suc.prems(3) by (cases m) auto
  obtain t s1 u s2 where 1: "peek_string True s = (t, s1)" "next_string True s1 = (u, s2)" by (meson surj_pair)
  note p = peek_string_size [OF Suc.prems(1) 1(1)]
  note q = next_string_size [OF conjunct1 [OF p] 1(2)]
  have comma: "comma_values True n pr' s2 ns1 = comma_values True m' pr' s2 ns1 \<and> comma_values True n pr' s2 ns1 \<noteq> Inl Endless"
    "comma_values True n pr' s2 ns1 = Inr (s3, ns3) \<Longrightarrow> pair_loop True n first_token None parent s3 ns3 = pair_loop True m' first_token None parent s3 ns3
      \<and> pair_loop True n first_token None parent s3 ns3 \<noteq> Inl Endless" if "t = Some ''=''" for pr' ns1 s3 ns3
  proof -
    show "comma_values True n pr' s2 ns1 = comma_values True m' pr' s2 ns1 \<and> comma_values True n pr' s2 ns1 \<noteq> Inl Endless"
      using that Suc.prems p q m by (intro comma_values_fuel) auto
    assume "comma_values True n pr' s2 ns1 = Inr (s3, ns3)"
    from comma_values_size [OF this] show "pair_loop True n first_token None parent s3 ns3 = pair_loop True m' first_token None parent s3 ns3
      \<and> pair_loop True n first_token None parent s3 ns3 \<noteq> Inl Endless"
      using that Suc.prems p q m by (intro Suc.IH) auto
  qed
  have blank: "blank_values True n pr' s1 ns1 = blank_values True m' pr' s1 ns1 \<and> blank_values True n pr' s1 ns1 \<noteq> Inl Endless"
    "blank_values True n pr' s1 ns1 = Inr (Some tk, s3, ns3) \<Longrightarrow> pair_loop True n tk pr' None s3 ns3 = pair_loop True m' tk pr' None s3 ns3
      \<and> pair_loop True n tk pr' None s3 ns3 \<noteq> Inl Endless" for pr' ns1 tk s3 ns3
  proof -
    show "blank_values True n pr' s1 ns1 = blank_values True m' pr' s1 ns1 \<and> blank_values True n pr' s1 ns1 \<noteq> Inl Endless"
      using Suc.prems p m by (intro blank_values_fuel) auto
    assume "blank_values True n pr' s1 ns1 = Inr (Some tk, s3, ns3)"
    from blank_values_size [OF this] show "pair_loop True n tk pr' None s3 ns3 = pair_loop True m' tk pr' None s3 ns3
      \<and> pair_loop True n tk pr' None s3 ns3 \<noteq> Inl Endless"
      using Suc.prems p m by (intro Suc.IH) auto
  qed
  show ?case
  proof (cases "current_pair first_token parent pr ns")
    case (Some x)
    obtain pr' ns1 where x: "x = (pr', ns1)" by (cases x)
    show ?thesis
    proof (cases "t = Some ''=''")
      case True
      then show ?thesis using Some x 1 m comma(1) [OF True, of pr' ns1] comma(2) [OF True, of pr' ns1] by (auto split: sum.splits)
    next
      case False
      then show ?thesis using Some x 1 m blank(1) [of pr' ns1] blank(2) [of pr' ns1] by (auto split: sum.splits option.splits)
    qed
  qed (simp add: m)
qed

section \<open>Lines of plain tokens\<close>

text \<open>A token that is not split nor cut.\<close>

definition plain_char :: "char \<Rightarrow> bool" where
  "plain_char c \<longleftrightarrow> c \<notin> {CHR '' '', c_tab, CHR '','', CHR 0x22, CHR ''['', CHR ''='', CHR '';'', CHR ''/'', CHR ''#'', CHR 0x00, CHR 0x0D, CHR 0x0A}"

definition plain_token :: "string \<Rightarrow> bool" where
  "plain_token t \<longleftrightarrow> t \<noteq> [] \<and> (\<forall>c \<in> set t. plain_char c)"

text \<open>The tokens a stream yields, none of them empty or an equals sign, up to its end.\<close>

inductive ls_reads :: "linestream \<Rightarrow> string list \<Rightarrow> bool" where
  at_end: "ls_eof s \<Longrightarrow> ls_reads s []"
| waiting: "ls_waits s = [t] \<Longrightarrow> t \<noteq> [] \<Longrightarrow> t \<noteq> ''='' \<Longrightarrow> ls_reads (s\<lparr>ls_waits := []\<rparr>) ts \<Longrightarrow> ls_reads s (t # ts)"
| token: "ls_waits s = [] \<Longrightarrow> ls_rest s \<noteq> [] \<Longrightarrow> next_string True s = (t, s') \<Longrightarrow> t \<noteq> [] \<Longrightarrow> t \<noteq> ''='' \<Longrightarrow> ls_waits s' = [] \<Longrightarrow> ls_reads s' ts
    \<Longrightarrow> ls_reads s (t # ts)"

inductive_cases ls_reads_NilE: "ls_reads s []"
inductive_cases ls_reads_ConsE: "ls_reads s (t # ts)"

lemma ls_reads_next:
  assumes "ls_reads s (t # ts)"
  shows "\<exists>s'. next_string True s = (t, s') \<and> ls_reads s' ts \<and> ls_waits s' = [] \<and> t \<noteq> [] \<and> t \<noteq> ''='' \<and> \<not> ls_eof s"
  using assms by (rule ls_reads_ConsE) (auto simp: next_string_def ls_eof_def)

lemma ls_reads_peek:
  assumes "ls_reads s ts" and "ls_waits s = []"
  shows "\<exists>s'. peek_string True s = (case ts of [] \<Rightarrow> None | t # _ \<Rightarrow> Some t, s') \<and> ls_reads s' ts"
proof (cases ts)
  case Nil
  then show ?thesis using assms by (auto simp: peek_string_def elim: ls_reads_NilE)
next
  case (Cons t us)
  from assms(1) [unfolded Cons] ls_reads_next obtain s' where s': "next_string True s = (t, s')" "ls_reads s' us" "ls_waits s' = []" "t \<noteq> []" "t \<noteq> ''=''" "\<not> ls_eof s"
    by blast
  have w: "s'\<lparr>ls_waits := []\<rparr> = s'" using s'(3) by (cases s') simp
  have "ls_reads (s'\<lparr>ls_waits := []\<rparr>) us" unfolding w by (rule s'(2))
  then have "ls_reads (s'\<lparr>ls_waits := [t]\<rparr>) (t # us)" using s'(4,5) by (intro ls_reads.waiting) simp_all
  then show ?thesis using s' Cons by (simp add: peek_string_def)
qed

lemma ls_reads_size: "ls_reads s ts \<Longrightarrow> length ts \<le> ls_size s"
proof (induction rule: ls_reads.induct)
  case (waiting s t ts)
  then show ?case by (simp add: ls_size_def)
next
  case (token s t s' ts)
  then show ?case using next_string_line by fastforce
qed simp

lemma push_value_top:
  "i < length ns \<Longrightarrow> ns ! i = Ini_pair k vs \<Longrightarrow> push_value (Some [i]) v ns = Some (ns[i := Ini_pair k (vs @ [Some v])])"
  by (simp add: push_value_def)

lemma blank_values_reads:
  "ls_reads s (t # ts) \<Longrightarrow> length ts < n \<Longrightarrow> i < length ns \<Longrightarrow> ns ! i = Ini_pair k vs \<Longrightarrow>
    \<exists>s'. blank_values True n (Some [i]) s ns = Inr (None, s', ns[i := Ini_pair k (vs @ map (\<lambda>t. Some (Ini_value (c_str t))) (t # ts))])"
proof (induction ts arbitrary: s t n ns vs)
  case Nil
  then obtain m where n: "n = Suc m" by (cases n) auto
  obtain s1 where 1: "next_string True s = (t, s1)" "ls_reads s1 []" "ls_waits s1 = []" using ls_reads_next [OF Nil.prems(1)] by blast
  then have "ls_eof s1" by (auto elim: ls_reads_NilE)
  then show ?case using n 1 Nil.prems(3,4) by (simp add: peek_string_def push_value_top)
next
  case (Cons u us)
  then obtain m where n: "n = Suc m" by (cases n) auto
  obtain s1 where 1: "next_string True s = (t, s1)" "ls_reads s1 (u # us)" "ls_waits s1 = []" using ls_reads_next [OF Cons.prems(1)] by blast
  obtain s2 where 2: "peek_string True s1 = (Some u, s2)" "ls_reads s2 (u # us)" using ls_reads_peek [OF 1(2,3)] by auto
  have u: "u \<noteq> ''=''" "\<not> ls_eof s2" using ls_reads_next [OF 2(2)] by auto
  let ?ns = "ns[i := Ini_pair k (vs @ [Some (Ini_value (c_str t))])]"
  have "\<exists>s'. blank_values True m (Some [i]) s2 ?ns = Inr (None, s', ?ns[i := Ini_pair k ((vs @ [Some (Ini_value (c_str t))]) @ map (\<lambda>t. Some (Ini_value (c_str t))) (u # us))])"
    using Cons.prems n by (intro Cons.IH 2(2)) simp_all
  then show ?case using n 1 2(1) u Cons.prems(3,4) by (simp add: push_value_top)
qed

text \<open>The parts of a line that matter to the reader: it does not begin like a comment or a section.\<close>

definition key_token :: "string \<Rightarrow> bool" where
  "key_token k \<longleftrightarrow> hd k \<notin> {CHR '';'', CHR ''['', CHR ''#'', CHR 0x00} \<and> take 2 k \<noteq> ''//''"

lemma key_token_c_str:
  assumes "k \<noteq> []" and "key_token k"
  shows "c_str k \<noteq> []" and "hd (c_str k) \<noteq> CHR ''#''"
proof -
  obtain c cs where "k = c # cs" using assms(1) by (cases k) auto
  then show "c_str k \<noteq> []" "hd (c_str k) \<noteq> CHR ''#''" using assms(2) by (auto simp: key_token_def c_str_def)
qed

lemma load_pair_line:
  assumes "ls_reads (new_linestream line) (k # t # ts)" and "key_token k"
  shows "load_line True line (sec, ns) = map_option (\<lambda>ns. (True, sec, ns)) (in_section sec (\<lambda>xs.
      if node_exists (c_str k) xs then None
      else Some (xs @ [Ini_pair (c_str k) (map (\<lambda>t. Some (Ini_value (c_str t))) (t # ts))])) ns)"
proof -
  obtain s where s: "next_string True (new_linestream line) = (k, s)" "ls_reads s (t # ts)" "ls_waits s = []" "k \<noteq> []"
    using ls_reads_next [OF assms(1)] by blast
  obtain s1 where 1: "peek_string True s = (Some t, s1)" "ls_reads s1 (t # ts)" using ls_reads_peek [OF s(2,3)] by auto
  have t: "t \<noteq> ''=''" "\<not> ls_eof s" using ls_reads_next [OF s(2)] by auto
  obtain n where n: "line_fuel s = Suc n" "length ts < n" using ls_reads_size [OF s(2)] by (cases "line_fuel s") (auto simp: line_fuel_def ls_size_def)
  have loop: "pair_loop True (line_fuel s) k None None s xs = (if node_exists (c_str k) xs then Inl Null_pointer
      else Inr (xs @ [Ini_pair (c_str k) (map (\<lambda>t. Some (Ini_value (c_str t))) (t # ts))]))" for xs
  proof (cases "node_exists (c_str k) xs")
    case True
    obtain n' where n': "n = Suc n'" using n(2) by (cases n) auto
    obtain s2 where 2: "next_string True s1 = (t, s2)" "ls_reads s2 ts" "ls_waits s2 = []" using ls_reads_next [OF 1(2)] by blast
    obtain s3 where 3: "peek_string True s2 = (case ts of [] \<Rightarrow> None | t # _ \<Rightarrow> Some t, s3)" "ls_reads s3 ts" using ls_reads_peek [OF 2(2,3)] by auto
    have "(case ts of [] \<Rightarrow> None | t # _ \<Rightarrow> Some t) \<noteq> Some ''=''"
      using ls_reads_next [of s2] 2(2) by (cases ts) auto
    then show ?thesis
      using True n(1) n' t 1(1) 2(1) 3(1) by (simp add: current_pair_def create_pair_def create_node_def push_value_def)
  next
    case False
    then have c: "current_pair k None None xs = Some (Some [length xs], xs @ [Ini_pair (c_str k) []])"
      by (simp add: current_pair_def create_pair_def create_node_def)
    obtain s' where "blank_values True n (Some [length xs]) s1 (xs @ [Ini_pair (c_str k) []])
        = Inr (None, s', xs @ [Ini_pair (c_str k) (map (\<lambda>t. Some (Ini_value (c_str t))) (t # ts))])"
      using blank_values_reads [OF 1(2) n(2), of "length xs" "xs @ [Ini_pair (c_str k) []]" "c_str k" "[]"] by auto
    then show ?thesis using False n(1) t 1(1) c by simp
  qed
  have "load_line True line (sec, ns) = map_option (\<lambda>ns. (True, sec, ns)) (in_section sec (\<lambda>xs. stopped (pair_loop True (line_fuel s) k None None s xs)) ns)"
    using s assms(2) key_token_c_str [OF s(4) assms(2)] t(2) by (auto simp: load_line_def key_token_def)
  then show ?thesis unfolding loop by (simp add: stopped_def if_distrib cong: if_cong)
qed

lemma load_value_line:
  assumes "ls_reads (new_linestream line) [k]" and "key_token k"
  shows "load_line True line (sec, ns) = map_option (\<lambda>ns. (True, sec, ns)) (in_section sec (\<lambda>xs. Some (snd (create_value (c_str k) xs))) ns)"
proof -
  obtain s where s: "next_string True (new_linestream line) = (k, s)" "ls_reads s []" "k \<noteq> []"
    using ls_reads_next [OF assms(1)] by blast
  then have "ls_eof s" by (auto elim: ls_reads_NilE)
  then show ?thesis using s assms(2) key_token_c_str [OF s(3) assms(2)] by (auto simp: load_line_def key_token_def)
qed

section \<open>Numbers written and read\<close>

lemma digit_char_numerals:
  "map digit_char [0..<16] = ''0123456789abcdef''"
  by (simp add: upt_rec digit_char_def char_of_def bit_0)

lemma digit_char_cases:
  assumes "d < 16"
  shows "(d, digit_char d) \<in> set (zip [0..<16] ''0123456789abcdef'')"
  unfolding digit_char_numerals [symmetric] using assms by (simp add: set_zip) (metis add_0 diff_zero nth_map_upt nth_upt)

lemma digit_chars:
  assumes "d < 16"
  shows "digit_val (digit_char d) = Some d" "plain_char (digit_char d)" "\<not> is_space (digit_char d)" "lower_char (digit_char d) \<noteq> CHR ''x''"
    "digit_char d \<noteq> CHR ''-''" "digit_char d \<noteq> CHR ''+''" "digit_char d \<noteq> CHR ''x''" "digit_char d \<noteq> CHR ''X''"
proof -
  have v: "list_all (\<lambda>(d, c). digit_val c = Some d) (zip [0..<16] ''0123456789abcdef'')" by (simp add: upt_rec digit_val_def)
  have p: "list_all (\<lambda>(d, c). plain_char c \<and> \<not> is_space c \<and> c \<notin> {CHR ''-'', CHR ''+'', CHR ''x'', CHR ''X''}) (zip [0..<16] ''0123456789abcdef'')"
    by (simp add: upt_rec plain_char_def is_space_def)
  have l: "list_all (\<lambda>(d, c). lower_char c \<noteq> CHR ''x'') (zip [0..<16] ''0123456789abcdef'')" by (simp add: upt_rec lower_char_def)
  show "digit_val (digit_char d) = Some d" "plain_char (digit_char d)" "\<not> is_space (digit_char d)" "lower_char (digit_char d) \<noteq> CHR ''x''"
    "digit_char d \<noteq> CHR ''-''" "digit_char d \<noteq> CHR ''+''" "digit_char d \<noteq> CHR ''x''" "digit_char d \<noteq> CHR ''X''"
    using v p l bspec [OF _ digit_char_cases [OF assms]] by (auto simp: list_all_iff)
qed

text \<open>Digits of a base up to 16, the highest first.\<close>

definition digit_string :: "nat \<Rightarrow> string \<Rightarrow> bool" where
  "digit_string b s \<longleftrightarrow> s \<noteq> [] \<and> (\<forall>c \<in> set s. \<exists>d < b. c = digit_char d)"

lemma digit_string_plain: "digit_string b s \<Longrightarrow> b \<le> 16 \<Longrightarrow> plain_token s"
  unfolding digit_string_def plain_token_def using digit_chars(2) by (metis order_less_le_trans)

lemma digit_string_takeWhile:
  assumes "digit_string b s" and "b \<le> 16"
  shows "takeWhile (is_digit b) s = s" "takeWhile (\<lambda>c. c \<noteq> CHR 0x00) s = s"
proof -
  have "is_digit b c \<and> c \<noteq> CHR 0x00" if m: "c \<in> set s" for c
  proof -
    obtain d where d: "d < b" "c = digit_char d" using m assms(1) unfolding digit_string_def by blast
    then show ?thesis using digit_chars(1,2) [of d] assms(2) by (auto simp: is_digit_def plain_char_def)
  qed
  then show "takeWhile (is_digit b) s = s" "takeWhile (\<lambda>c. c \<noteq> CHR 0x00) s = s" by (simp_all add: takeWhile_eq_all_conv)
qed

lemma c_number_digits:
  assumes "digit_string b s" and "b \<le> 16" and "\<forall>c \<in> set l. c = CHR '' ''"
  shows "c_number b (c_str (l @ s)) = int (digits_val b s)"
proof -
  have l: "c_str (l @ s) = l @ s" unfolding c_str_def
  proof (subst takeWhile_append2)
    show "c \<noteq> CHR 0x00" if "c \<in> set l" for c unfolding bspec [OF assms(3) that] by simp
  qed (simp only: digit_string_takeWhile(2) [OF assms(1,2)])
  obtain c cs where s: "s = c # cs" using assms(1) by (cases s) (auto simp: digit_string_def)
  have dig: "\<exists>d < 16. x = digit_char d" if "x \<in> set s" for x
    using that assms(1,2) unfolding digit_string_def by (meson order_less_le_trans)
  obtain d where "d < 16" "c = digit_char d" using dig [of c] s by auto
  then have c: "\<not> is_space c" "c \<noteq> CHR ''-''" "c \<noteq> CHR ''+''" using digit_chars by simp_all
  have "dropWhile is_space (l @ s) = s" 
  proof (subst dropWhile_append2)
    show "is_space c" if "c \<in> set l" for c unfolding bspec [OF assms(3) that] by (simp add: is_space_def)
  qed (simp add: s c(1))
  moreover have "unsigned_part b s = digits_val b s"
  proof -
    have "lower_char (s ! 1) \<noteq> CHR ''x''" if g: "length s > 2"
    proof -
      have "s ! 1 \<in> set s" using g by (intro nth_mem) simp
      from dig [OF this] show ?thesis using digit_chars(4) by (elim exE conjE) simp
    qed
    then have "unsigned_part b s = digits_val b (takeWhile (is_digit b) s)" by (auto simp: unsigned_part_def)
    then show ?thesis unfolding digit_string_takeWhile(1) [OF assms(1,2)] .
  qed
  ultimately show ?thesis using c s l by (simp add: c_number_def)
qed

fun hex_digits :: "nat \<Rightarrow> nat \<Rightarrow> string" where
  "hex_digits 0 n = []"
| "hex_digits (Suc k) n = hex_digits k (n div 16) @ [digit_char (n mod 16)]"

definition hex_number :: "nat \<Rightarrow> nat \<Rightarrow> string" where
  "hex_number k n = CHR ''0'' # CHR ''x'' # hex_digits k n"

lemma hex_digits_string: "0 < k \<Longrightarrow> digit_string 16 (hex_digits k n)"
proof (induction k arbitrary: n)
  case (Suc k)
  then show ?case by (cases k) (auto simp: digit_string_def intro: exI [of _ "n mod 16"])
qed simp

lemma hex_digits_length [simp]: "length (hex_digits k n) = k"
  by (induction k arbitrary: n) simp_all

lemma hex_digits_val: "digits_val 16 (hex_digits k n) = n mod 16 ^ k"
proof (induction k arbitrary: n)
  case (Suc k)
  have "n mod (16 * 16 ^ k) = 16 * (n div 16 mod 16 ^ k) + n mod 16" by (rule mod_mult2_eq)
  then show ?case using Suc [of "n div 16"] digit_chars(1) [of "n mod 16"] by (simp add: digits_val_def)
qed (simp add: digits_val_def)

lemma native_hex:
  assumes "0 < k" and "n < 16 ^ k" and "n < 2 ^ 63"
  shows "native (hex_number k n) = Some (int n)"
proof -
  have "c_number 16 (c_str (hex_digits k n)) = int n"
    using c_number_digits [OF hex_digits_string [OF assms(1)], of "[]" n] hex_digits_val assms(2) by simp
  then show ?thesis using assms by (simp add: native_def hex_number_def strtoll_def)
qed

lemma number_string_digits: "digit_string 10 (number_string n) \<and> digits_val 10 (number_string n) = n"
proof (induction n rule: number_string.induct)
  case (1 n)
  show ?case
  proof (cases "n < 10")
    case True
    then show ?thesis using digit_chars(1) [of n] by (auto simp: number_string.simps [of n] digit_string_def digits_val_def)
  next
    case False
    then have "digit_string 10 (number_string (n div 10))" "digits_val 10 (number_string (n div 10)) = n div 10" using 1 by auto
    then show ?thesis using False digit_chars(1) [of "n mod 10"]
      by (auto simp: number_string.simps [of n] digit_string_def digits_val_def intro: exI [of _ "n mod 10"])
  qed
qed

lemma native_decimal:
  assumes "n < 2 ^ 63" and "\<forall>c \<in> set l. c = CHR '' ''"
  shows "native (l @ number_string n) = Some (int n)"
proof -
  let ?v = "l @ number_string n"
  note d = number_string_digits [of n]
  have no: "c \<noteq> CHR ''x'' \<and> c \<noteq> CHR ''X''" if m: "c \<in> set ?v" for c
  proof (cases "c \<in> set l")
    case False
    then obtain e where "e < 10" "c = digit_char e" using m d unfolding digit_string_def by auto
    then show ?thesis using digit_chars(7,8) [of e] by simp
  next
    case True
    then have "c = CHR '' ''" using assms(2) by blast
    then show ?thesis by simp
  qed
  then have "\<not> (length ?v > 2 \<and> ?v ! 0 = CHR ''0'' \<and> ?v ! 1 \<in> {CHR ''x'', CHR ''X''})"
    using nth_mem [of 1 ?v] by auto
  moreover have "c_number 10 (c_str ?v) = int n" using c_number_digits [of 10 "number_string n" l] d assms(2) by simp
  ultimately show ?thesis using assms(1) by (auto simp: native_def ato_def)
qed

text \<open>The numbers put into a pair are the numbers read from it.\<close>

theorem pair_words_roundtrip:
  assumes "xs \<noteq> []" and "length old = length xs"
  shows "pair_get_words old (snd (pair_set_words xs vs)) = Some ((length xs, xs), snd (pair_set_words xs vs))"
proof -
  have "read_words (map (\<lambda>x. Some (Ini_value (number_string (unat x)))) xs) old = Some (length xs, xs)" if "length old = length xs"
    for xs :: "u32 list" and old
    using that
  proof (induction xs arbitrary: old)
    case (Cons x xs)
    obtain y ys where "old = y # ys" "length ys = length xs" using Cons.prems by (cases old) auto
    moreover have "native (number_string (unat x)) = Some (int (unat x))"
    proof -
      have "unat x < 2 ^ 32" using unsigned_less [of x] by simp
      then show ?thesis using native_decimal [of "unat x" "[]"] by simp
    qed
    ultimately show ?case using Cons.IH [of ys] by simp
  qed simp
  then show ?thesis using assms by (simp add: pair_get_words_def pair_set_words_def resized_def)
qed

text \<open>The booleans put into a pair are not read from it: they are written as numbers and read as words.\<close>

theorem pair_bools_not_read:
  assumes "xs \<noteq> []" and "length old = length xs"
  shows "pair_get_bools old (snd (pair_set_bools xs vs)) = Some ((0, old), snd (pair_set_bools xs vs))"
proof -
  have "read_bools (map (\<lambda>x. Some (Ini_value (if x then ''1'' else ''0''))) xs) old = Some (0, old)" if "length old = length xs" for xs old
    using that
  proof (induction xs arbitrary: old)
    case (Cons x xs)
    obtain y ys where "old = y # ys" "length ys = length xs" using Cons.prems by (cases old) auto
    then show ?case using Cons.IH [of ys] by simp
  qed simp
  then show ?thesis using assms by (simp add: pair_get_bools_def pair_set_bools_def resized_def)
qed

section \<open>Plain and quoted tokens\<close>

abbreviation stream :: "string \<Rightarrow> linestream" where
  "stream r \<equiv> \<lparr>ls_rest = r, ls_waits = []\<rparr>"

lemma takeWhile_stop: "\<forall>c \<in> set t. P c \<Longrightarrow> r = [] \<or> \<not> P (hd r) \<Longrightarrow> takeWhile P (t @ r) = t \<and> dropWhile P (t @ r) = r"
  by (cases r) auto

lemma split_equals_none: "CHR ''='' \<notin> set t \<Longrightarrow> split_equals t = (t, [])"
proof -
  assume a: "CHR ''='' \<notin> set t"
  then have "dropWhile (\<lambda>c. c \<noteq> CHR ''='') t = []" by auto
  then show ?thesis by (simp add: split_equals_def)
qed

text \<open>The end of a plain token.\<close>

definition token_end :: "string \<Rightarrow> bool" where
  "token_end r \<longleftrightarrow> r = [] \<or> hd r = CHR '' ''"

lemma token_end_simps [simp]: "token_end []" "token_end (CHR '' '' # r)"
  by (simp_all add: token_end_def)

lemma plain_hd: "plain_token t \<Longrightarrow> t \<noteq> [] \<and> plain_char (hd t)"
  by (simp add: plain_token_def)

lemma next_string_token:
  assumes "r \<noteq> []" and "ig \<longrightarrow> hd r \<noteq> CHR '' '' \<and> hd r \<noteq> c_tab" and "hd r \<noteq> CHR '',''" and "raw_token ig r = (t, r')" and "CHR ''='' \<notin> set t"
  shows "next_string ig (stream r) = (t, stream r')"
proof -
  have "skip_blanks r = r" if ig using assms(1,2) that by (cases r) (simp_all add: skip_blanks_def)
  then show ?thesis using assms(1,3,4) split_equals_none [OF assms(5)] by (cases ig) (simp_all add: next_string_def)
qed

lemma raw_token_plain:
  assumes "plain_token t" and "r = [] \<or> hd r = (if ig then CHR '' '' else c_tab)"
  shows "raw_token ig (t @ r) = (t, r)"
proof -
  have hd: "hd (t @ r) = hd t" and c: "hd t \<noteq> CHR 0x22" "hd t \<noteq> CHR ''[''" using plain_hd [OF assms(1)] by (auto simp: plain_char_def)
  let ?P = "\<lambda>c. c \<noteq> (if ig then CHR '' '' else CHR 0x00) \<and> c \<noteq> CHR '','' \<and> c \<noteq> c_tab"
  have "takeWhile ?P (t @ r) = t \<and> dropWhile ?P (t @ r) = r"
    using assms by (intro takeWhile_stop) (auto simp: plain_token_def plain_char_def split: if_splits)
  then show ?thesis unfolding raw_token_def Let_def hd using c by simp
qed

lemma plain_start:
  assumes "plain_token t"
  shows "t @ r \<noteq> []" "hd (t @ r) \<noteq> CHR '' ''" "hd (t @ r) \<noteq> c_tab" "hd (t @ r) \<noteq> CHR '',''"
  using plain_hd [OF assms] by (auto simp: plain_char_def)

lemma plain_no_equals: "plain_token t \<Longrightarrow> CHR ''='' \<notin> set t"
  by (auto simp: plain_token_def plain_char_def)

lemma next_plain:
  assumes "plain_token t" and "token_end r"
  shows "next_string True (stream (t @ r)) = (t, stream r)"
  using plain_start [OF assms(1), of r] plain_no_equals [OF assms(1)] raw_token_plain [OF assms(1), of r True] assms(2)
  by (intro next_string_token) (simp_all add: token_end_def)

lemma reads_plain: "plain_token t \<Longrightarrow> token_end r \<Longrightarrow> ls_reads (stream r) ts \<Longrightarrow> ls_reads (stream (t @ r)) (t # ts)"
  using plain_hd [of t] plain_no_equals [of t] by (intro ls_reads.token [OF _ _ next_plain]) auto

lemma skip_blanks_Cons: "skip_blanks (CHR '' '' # r) = skip_blanks r"
  by (simp add: skip_blanks_def)

lemma reads_blank:
  assumes "ls_reads (stream r) (t # ts)"
  shows "ls_reads (stream (CHR '' '' # r)) (t # ts)"
proof -
  obtain s' where s': "next_string True (stream r) = (t, s')" "ls_reads s' ts" "ls_waits s' = []" "t \<noteq> []" "t \<noteq> ''=''"
    using ls_reads_next [OF assms] by blast
  moreover have "next_string True (stream (CHR '' '' # r)) = next_string True (stream r)" by (simp add: next_string_def skip_blanks_Cons Let_def)
  ultimately show ?thesis by (intro ls_reads.token [of _ t s']) simp_all
qed

lemma reads_end: "ls_reads (stream []) []"
  by (rule ls_reads.at_end) (simp add: ls_eof_def)

text \<open>What can be quoted without being split or cut.\<close>

definition quotable :: "string \<Rightarrow> bool" where
  "quotable q \<longleftrightarrow> q \<noteq> [] \<and> (\<forall>c \<in> set q. c \<notin> {CHR 0x22, CHR '','', c_tab, CHR ''=''})"

lemma reads_quoted:
  assumes "quotable q" and "r = [] \<or> hd r = CHR 0x22" and "ls_reads (stream r) ts"
  shows "ls_reads (stream (CHR 0x22 # q @ r)) (q # ts)"
proof -
  let ?P = "\<lambda>c. c \<noteq> CHR 0x22 \<and> c \<noteq> CHR '','' \<and> c \<noteq> c_tab"
  have "takeWhile ?P (q @ r) = q \<and> dropWhile ?P (q @ r) = r"
    using assms(1,2) by (intro takeWhile_stop) (auto simp: quotable_def)
  then have t: "raw_token True (CHR 0x22 # q @ r) = (q, r)" by (simp add: raw_token_def)
  have e: "CHR ''='' \<notin> set q" "q \<noteq> []" using assms(1) by (auto simp: quotable_def)
  then have n: "next_string True (stream (CHR 0x22 # q @ r)) = (q, stream r)"
    by (intro next_string_token [OF _ _ _ t]) simp_all
  have "q \<noteq> ''=''" using e(1) by auto
  then show ?thesis using e(2) assms(3) by (intro ls_reads.token [OF _ _ n]) simp_all
qed

lemma new_linestream_plain: "l \<noteq> [] \<Longrightarrow> last l \<noteq> CHR 0x0D \<Longrightarrow> new_linestream l = stream l"
  by (simp add: new_linestream_def)

lemma plain_c_str: "plain_token t \<Longrightarrow> c_str t = t"
  by (auto simp: c_str_def plain_token_def plain_char_def takeWhile_eq_all_conv)

lemma plain_key_token: "plain_token t \<Longrightarrow> key_token t"
  by (cases t) (auto simp: key_token_def plain_token_def plain_char_def)

section \<open>How the reader ends, or not\<close>

text \<open>C19. Where blanks are ignored, reading a line ends within the fuel of the model, whatever the line, if not at a null pointer
  then with what was read; more fuel changes nothing.\<close>

theorem line_fuel_suffices:
  assumes "next_string True (new_linestream line) = (t, s)" and "line_fuel s \<le> n"
  shows "pair_loop True n t None None s ns \<noteq> Inl Endless \<and> pair_loop True n t None None s ns = pair_loop True (line_fuel s) t None None s ns"
proof -
  have "ls_ok (new_linestream line)" by (simp add: ls_ok_def new_linestream_def)
  then have "ls_ok s" using next_string_size [OF _ assms(1)] by blast
  then show ?thesis using assms(2) pair_loop_fuel [of s n "line_fuel s" t None None ns] by (auto simp: line_fuel_def ls_size_def)
qed

theorem line_fuel_suffices_witness:
  "let s = stream '' = 5'' in pair_loop True 100 ''A'' None None s [] \<noteq> Inl Endless
    \<and> pair_loop True 100 ''A'' None None s [] = pair_loop True (line_fuel s) ''A'' None None s []"
  unfolding Let_def
proof (rule line_fuel_suffices [of "''A = 5''"])
  show "next_string True (new_linestream ''A = 5'') = (''A'', stream '' = 5'')"
    using next_plain [of "''A''" "'' = 5''"] new_linestream_plain [of "''A = 5''"] by (simp add: plain_token_def plain_char_def)
qed (simp add: line_fuel_def)

lemma next_at_tab: "next_string False (stream (c_tab # r)) = ([], stream (c_tab # r))"
  by (simp add: next_string_def raw_token_def split_equals_def)

lemma blank_values_at_tab:
  "i < length ns \<Longrightarrow> ns ! i = Ini_pair key vs \<Longrightarrow> blank_values False n (Some [i]) (stream (c_tab # r)) ns = Inl Endless"
proof (induction n arbitrary: ns vs)
  case (Suc n)
  have "peek_string False (stream (c_tab # r)) = (None, stream (c_tab # r))" by (simp add: peek_string_def ls_eof_def next_at_tab)
  then show ?case using Suc by (simp add: next_at_tab ls_eof_def push_value_top)
qed simp

text \<open>Where blanks are not ignored, a tab after the key of a line is never passed: the reader appends empty values for ever.\<close>

theorem tab_line_never_ends:
  assumes "plain_token k" and "v \<noteq> [] \<longrightarrow> last v \<noteq> CHR 0x0D" and "\<not> node_exists k ns"
  shows "next_string False (new_linestream (k @ c_tab # v)) = (k, stream (c_tab # v))
    \<and> pair_loop False n k None None (stream (c_tab # v)) ns = Inl Endless"
proof
  have "new_linestream (k @ c_tab # v) = stream (k @ c_tab # v)" using assms(2) by (intro new_linestream_plain) auto
  moreover have "next_string False (stream (k @ c_tab # v)) = (k, stream (c_tab # v))"
    using plain_start [OF assms(1), of "c_tab # v"] plain_no_equals [OF assms(1)] raw_token_plain [OF assms(1), of "c_tab # v" False]
    by (intro next_string_token) simp_all
  ultimately show "next_string False (new_linestream (k @ c_tab # v)) = (k, stream (c_tab # v))" by simp
  have "peek_string False (stream (c_tab # v)) = (None, stream (c_tab # v))" by (simp add: peek_string_def ls_eof_def next_at_tab)
  then show "pair_loop False n k None None (stream (c_tab # v)) ns = Inl Endless"
    using assms(3) plain_c_str [OF assms(1)] blank_values_at_tab [of "length ns" "ns @ [Ini_pair k []]" k "[]"]
    by (cases n) (simp_all add: ls_eof_def current_pair_def create_pair_def create_node_def)
qed

theorem tab_line_never_ends_witness:
  "next_string False (new_linestream (''Id'' @ c_tab # ''5'')) = (''Id'', stream (c_tab # ''5''))
    \<and> pair_loop False 1000 ''Id'' None None (stream (c_tab # ''5'')) [] = Inl Endless"
  by (rule tab_line_never_ends) (simp_all add: plain_token_def plain_char_def node_exists_def)

text \<open>The tokens of a line of plain words with a blank before each but the first.\<close>

lemma reads_blank_separated:
  "plain_token k \<Longrightarrow> \<forall>v \<in> set vs. plain_token v \<Longrightarrow> ls_reads (stream (k @ concat (map (\<lambda>v. CHR '' '' # v) vs))) (k # vs)"
proof (induction vs arbitrary: k)
  case Nil
  then show ?case using reads_plain [OF Nil.prems(1) _ reads_end] by simp
next
  case (Cons v vs)
  then have "ls_reads (stream (v @ concat (map (\<lambda>v. CHR '' '' # v) vs))) (v # vs)" by simp
  from reads_plain [OF Cons.prems(1) _ reads_blank [OF this]] show ?case by simp
qed

lemma last_blank_separated:
  "plain_token k \<Longrightarrow> \<forall>v \<in> set vs. plain_token v \<Longrightarrow> last (k @ concat (map (\<lambda>v. CHR '' '' # v) vs)) \<noteq> CHR 0x0D"
proof (induction vs arbitrary: k)
  case Nil
  then show ?case using last_in_set [of k] by (auto simp: plain_token_def plain_char_def)
next
  case (Cons v vs)
  then have "last (v @ concat (map (\<lambda>v. CHR '' '' # v) vs)) \<noteq> CHR 0x0D" by simp
  moreover have "v \<noteq> []" using Cons.prems(2) by (simp add: plain_token_def)
  ultimately show ?case by simp
qed

text \<open>C20. Names count as equal when the one asked for is a prefix of the other. So a line of a section (read with blanks
  ignored) that consists of a plain key and one or more plain values, each with a blank before it and no equals sign among them,
  makes the reader dereference a null pointer when its key is the beginning of, or the same as, a plain key that a line above it
  gave to the same section. Plain words hold no blank, tab, comma, quote, bracket, equals sign, semicolon, slash or hash.\<close>

theorem prefix_key_undefined:
  assumes "plain_token k" and "\<forall>v \<in> set (v # ws). plain_token v" and "Ini_pair (k @ e) vs \<in> set xs" and "plain_token (k @ e)"
    and "i < length ns"
  shows "load_line True (k @ concat (map (\<lambda>v. CHR '' '' # v) (v # ws))) (At_section i, ns[i := Ini_section name xs]) = None"
proof -
  let ?line = "k @ concat (map (\<lambda>v. CHR '' '' # v) (v # ws))"
  have "k \<noteq> []" using assms(1) by (simp add: plain_token_def)
  then have "new_linestream ?line = stream ?line" using last_blank_separated [OF assms(1,2)] by (intro new_linestream_plain) simp_all
  then have "ls_reads (new_linestream ?line) (k # v # ws)" using reads_blank_separated [OF assms(1,2)] by simp
  moreover have "node_exists (c_str k) xs"
    unfolding node_exists_def named_def using assms(1,4)
    by (intro bexI [OF _ assms(3)]) (simp add: plain_c_str)
  ultimately show ?thesis
    using load_pair_line [of ?line k v ws] plain_key_token [OF assms(1)] assms(5)
    by (simp add: in_section_def)
qed

theorem prefix_key_undefined_witness:
  "load_line True (''0x1'' @ concat (map (\<lambda>v. CHR '' '' # v) [''int'', ''5''])) (At_section 0, [Ini_value ''''][0 := Ini_section ''Main'' [Ini_pair (''0x1'' @ ''0'') []]]) = None"
  by (rule prefix_key_undefined [of "''0x1''" "''int''" "[''5'']" "''0''" "[]"]) (simp_all add: plain_token_def plain_char_def)
end
