(* ===== verification/Cenrep.thy ===== *)
theory Cenrep
  imports Context Cre_Rep Msg_Queue Ini "HOL-Library.AList"
begin

text \<open>
  The central repository (\<open>services/src/centralrepo/repo.cpp\<close>, \<open>centralrepo.cpp\<close>, the end of \<open>cre.cpp\<close>): the service that
  keeps the settings of the programs. Repositories are loaded from files and written back; sessions of clients have
  subsessions, one for each repository they opened, which read and write entries, search them and are notified of changes.
\<close>

section \<open>Repositories\<close>

text \<open>A repository in memory, with the subsessions attached to it as pairs of session and subsession.\<close>

record central_repo =
  rm_repo :: cre_repo
  rm_reside_place :: nat
  rm_access_count :: u32
  rm_attached :: "(u64 \<times> u32) list"

text \<open>A range without a high key matches by its mask.\<close>

definition get_default_meta_for_new_key :: "u32 \<Rightarrow> cre_repo \<Rightarrow> u32" where
  "get_default_meta_for_new_key key r =
     (case find (\<lambda>m. if cm_high_key m \<noteq> 0 then cm_low_key m \<le> key \<and> key \<le> cm_high_key m
         else and (cm_key_mask m) key = and (cm_low_key m) key) (cr_meta_range r) of
       Some m \<Rightarrow> cm_default_meta_data m | None \<Rightarrow> cr_default_meta r)"

definition find_entry :: "u32 \<Rightarrow> cre_repo \<Rightarrow> nat option" where
  "find_entry key r = find_index (\<lambda>e. ce_key e = key) (cr_entries r)"

text \<open>\<open>var\<close> gives the type and the values; the meta data are those given, or the default.\<close>

definition add_new_entry :: "u32 \<Rightarrow> cre_entry \<Rightarrow> u32 option \<Rightarrow> cre_repo \<Rightarrow> bool \<times> cre_repo" where
  "add_new_entry key var meta r = (if find_entry key r \<noteq> None then (False, r)
     else let m = (case meta of Some m \<Rightarrow> m | None \<Rightarrow> get_default_meta_for_new_key key r)
       in (True, r\<lparr>cr_entries := cr_entries r @ [var\<lparr>ce_key := key, ce_metadata_val := m\<rparr>]\<rparr>))"

definition query_entries :: "u32 \<Rightarrow> u32 \<Rightarrow> cre_type \<Rightarrow> cre_repo \<Rightarrow> cre_entry list" where
  "query_entries partial_key msk etype r =
     filter (\<lambda>e. and (ce_key e) (and msk partial_key) \<noteq> 0 \<and> ce_type e = etype) (cr_entries r)"

section \<open>Subsessions\<close>

record notify_request =
  nq_info :: notify_info
  nq_mask :: u32
  nq_match :: u32

text \<open>The low half of the flags is the mode of transactions, bit 16 whether one is active.\<close>

record subsession =
  ss_repo :: u32
  ss_flags :: u32
  ss_changes :: "u32 \<Rightarrow> cre_entry option"
  ss_found :: "u32 list"
  ss_notifies :: "notify_request list"

definition is_active :: "subsession \<Rightarrow> bool" where
  "is_active ss \<longleftrightarrow> bit (ss_flags ss) 16"

definition set_active :: "bool \<Rightarrow> subsession \<Rightarrow> subsession" where
  "set_active b ss = (let aflags = and (ucast (drop_bit 16 (ss_flags ss)) :: u16) (not 1); aflags = (if b then or aflags 1 else aflags)
     in ss\<lparr>ss_flags := or (and (ss_flags ss) 0x0000FFFF) (push_bit 16 (ucast aflags))\<rparr>)"

definition set_transaction_mode :: "u16 \<Rightarrow> subsession \<Rightarrow> subsession" where
  "set_transaction_mode mode ss = ss\<lparr>ss_flags := or (and (ss_flags ss) 0xFFFF0000) (ucast mode)\<rparr>"

definition get_transaction_mode :: "subsession \<Rightarrow> u16" where
  "get_transaction_mode ss = ucast (ss_flags ss)"

definition new_subsession :: "u32 \<Rightarrow> subsession" where
  "new_subsession key = set_transaction_mode 1 \<lparr>ss_repo = key, ss_flags = 0, ss_changes = (\<lambda>_. None), ss_found = [], ss_notifies = []\<rparr>"

text \<open>Requests that share a bit with the key are completed and erased; the one after an erased request is passed over.\<close>

fun modification_success :: "u32 \<Rightarrow> notify_request list \<Rightarrow> kern \<Rightarrow> (notify_request list \<times> kern) undef" where
  "modification_success key [] k = Some ([], k)"
| "modification_success key (n # ns) k =
    (if and key (and (nq_match n) (nq_mask n)) \<noteq> 0 then do {
       (_, k) \<leftarrow> complete_kept 0 (nq_info n) k;
       (case ns of [] \<Rightarrow> Some ([], k)
        | m # ns \<Rightarrow> do { (ns, k) \<leftarrow> modification_success key ns k; Some (m # ns, k) })
     } else do { (ns, k) \<leftarrow> modification_success key ns k; Some (n # ns, k) })"

definition add_notify_request :: "notify_info \<Rightarrow> u32 \<Rightarrow> u32 \<Rightarrow> subsession \<Rightarrow> int \<times> subsession" where
  "add_notify_request info msk match ss =
     (if \<exists>n \<in> set (ss_notifies ss). nq_mask n = msk \<and> nq_match n = match then (-1, ss)
      else if sts info = 0 then (0, ss)
      else (0, ss\<lparr>ss_notifies := ss_notifies ss @ [\<lparr>nq_info = info, nq_mask = msk, nq_match = match\<rparr>]\<rparr>))"

fun cancel_matching :: "(notify_request \<Rightarrow> bool) \<Rightarrow> notify_request list \<Rightarrow> kern \<Rightarrow> (notify_request list \<times> kern) undef" where
  "cancel_matching P [] k = Some ([], k)"
| "cancel_matching P (n # ns) k =
    (if P n then do { (_, k) \<leftarrow> complete_kept (-3) (nq_info n) k; cancel_matching P ns k }
     else do { (ns, k) \<leftarrow> cancel_matching P ns k; Some (n # ns, k) })"

definition cancel_all_notify_requests :: "notify_request list \<Rightarrow> kern \<Rightarrow> (notify_request list \<times> kern) undef" where
  "cancel_all_notify_requests = cancel_matching (\<lambda>_. True)"

definition cancel_notify_request :: "u32 \<Rightarrow> u32 \<Rightarrow> notify_request list \<Rightarrow> kern \<Rightarrow> (notify_request list \<times> kern) undef" where
  "cancel_notify_request match_key msk = cancel_matching (\<lambda>n. nq_match n = match_key \<and> nq_mask n = msk)"

text \<open>Where an entry is: among the changes of the transaction, or in the repository.\<close>

datatype entry_place = In_changes u32 | In_repo nat

definition get_entry :: "u32 \<Rightarrow> bool \<Rightarrow> subsession \<Rightarrow> cre_repo \<Rightarrow> entry_place option \<times> subsession" where
  "get_entry key wr ss r =
    (if wr \<and> get_transaction_mode ss = 0 then (None, ss)
     else if is_active ss \<and> ss_changes ss key \<noteq> None then (Some (In_changes key), ss)
     else if \<not> is_active ss \<or> \<not> wr then (map_option In_repo (find_entry key r), ss)
     else (Some (In_changes key), ss\<lparr>ss_changes := (ss_changes ss)(key \<mapsto> new_entry)\<rparr>))"

definition entry_at :: "entry_place \<Rightarrow> subsession \<Rightarrow> cre_repo \<Rightarrow> cre_entry" where
  "entry_at p ss r = (case p of In_changes key \<Rightarrow> the (ss_changes ss key) | In_repo i \<Rightarrow> cr_entries r ! i)"

definition set_entry_at :: "entry_place \<Rightarrow> cre_entry \<Rightarrow> subsession \<Rightarrow> cre_repo \<Rightarrow> subsession \<times> cre_repo" where
  "set_entry_at p e ss r = (case p of In_changes key \<Rightarrow> (ss\<lparr>ss_changes := (ss_changes ss)(key \<mapsto> e)\<rparr>, r)
     | In_repo i \<Rightarrow> (ss, r\<lparr>cr_entries := (cr_entries r)[i := e]\<rparr>))"

text \<open>The initial repository may be missing, which is dereferenced after the entry was found.\<close>

definition reset_key :: "central_repo option \<Rightarrow> u32 \<Rightarrow> subsession \<Rightarrow> cre_repo \<Rightarrow> (int \<times> cre_repo) undef" where
  "reset_key init_repo key ss r =
    (if is_active ss then Some (-1, r)
     else case find_entry key r of
       None \<Rightarrow> Some (-2, r)
     | Some i \<Rightarrow> do {
         src \<leftarrow> init_repo;
         (case find_entry key (rm_repo src) of
           None \<Rightarrow> Some (-2, r)
         | Some j \<Rightarrow> Some (0, r\<lparr>cr_entries := (cr_entries r)[i := (cr_entries (rm_repo src) ! j)\<lparr>ce_key := key\<rparr>]\<rparr>))
       })"

section \<open>The cache of initial repositories\<close>

text \<open>In the order in which the hash table is gone through.\<close>

record cache_entry =
  ca_last_access :: u64
  ca_repo :: central_repo

type_synonym cacher = "(u32 \<times> cache_entry) list"

definition max_repo_cache_entries :: nat where
  "max_repo_cache_entries = 35"

definition oldest_unused :: "cacher \<Rightarrow> u32 \<times> u64" where
  "oldest_unused es = fold (\<lambda>(key, e) (rk, old). if ca_last_access e < old \<and> rm_access_count (ca_repo e) = 0 then (key, ca_last_access e) else (rk, old))
     es (0xFFFFFFFF, 0xFFFFFFFFFFFFFFFF)"

definition free_oldest :: "cacher \<Rightarrow> bool \<times> cacher" where
  "free_oldest es = (let rk = fst (oldest_unused es) in
     if rk \<noteq> 0xFFFFFFFF then (True, filter (\<lambda>(key, _). key \<noteq> rk) es) else (False, es))"

definition add_repo :: "u64 \<Rightarrow> u32 \<Rightarrow> central_repo \<Rightarrow> cacher \<Rightarrow> central_repo option \<times> cacher" where
  "add_repo now key repo es =
    (case (if length es = max_repo_cache_entries then free_oldest es else (True, es)) of
       (False, es) \<Rightarrow> (None, es)
     | (True, es) \<Rightarrow>
         if map_of es key \<noteq> None then (None, es)
         else let r = repo\<lparr>rm_access_count := 1\<rparr> in (Some r, es @ [(key, \<lparr>ca_last_access = now, ca_repo = r\<rparr>)]))"

definition remove_repo :: "u32 \<Rightarrow> cacher \<Rightarrow> bool \<times> cacher" where
  "remove_repo key es = (map_of es key \<noteq> None, filter (\<lambda>(k, _). k \<noteq> key) es)"

definition get_cached_repo :: "u64 \<Rightarrow> u32 \<Rightarrow> cacher \<Rightarrow> central_repo option \<times> cacher" where
  "get_cached_repo now key es = (case map_of es key of
       None \<Rightarrow> (None, es)
     | Some e \<Rightarrow> (let r = (ca_repo e)\<lparr>rm_access_count := rm_access_count (ca_repo e) + 1\<rparr>
         in (Some r, map (\<lambda>(k, x). if k = key then (k, \<lparr>ca_last_access = now, ca_repo = r\<rparr>) else (k, x)) es)))"

section \<open>Storage\<close>

text \<open>What the service uses of the virtual file system and the device: the files by their paths, whose letters have no case;
  the directories; the files that cannot be opened; the drives; the firmware code.\<close>

record drive_info =
  dr_rom :: bool
  dr_internal :: bool
  dr_write_protected :: bool

record storage =
  st_files :: "string \<Rightarrow> u8 list option"
  st_dirs :: "string \<Rightarrow> bool"
  st_locked :: "string \<Rightarrow> bool"
  st_drives :: "nat \<Rightarrow> drive_info option"
  st_firmware :: string

definition lowercase :: "string \<Rightarrow> string" where
  "lowercase = map lower_char"

definition io_exist :: "string \<Rightarrow> storage \<Rightarrow> bool" where
  "io_exist p st \<longleftrightarrow> st_files st (lowercase p) \<noteq> None \<or> st_dirs st (lowercase p)"

definition io_read :: "string \<Rightarrow> storage \<Rightarrow> u8 list option" where
  "io_read p st = (if st_locked st (lowercase p) then None else st_files st (lowercase p))"

definition io_create_directories :: "string \<Rightarrow> storage \<Rightarrow> storage" where
  "io_create_directories p st = st\<lparr>st_dirs := (st_dirs st)(lowercase p := True)\<rparr>"

definition io_write :: "string \<Rightarrow> u8 list \<Rightarrow> storage \<Rightarrow> storage" where
  "io_write p bs st = (if st_locked st (lowercase p) then st else st\<lparr>st_files := (st_files st)(lowercase p \<mapsto> bs)\<rparr>)"

definition hex_digit :: "nat \<Rightarrow> char" where
  "hex_digit d = (if d < 10 then char_of (48 + d) else char_of (87 + d))"

fun hex_string :: "nat \<Rightarrow> string" where
  "hex_string n = (if n < 16 then [hex_digit n] else hex_string (n div 16) @ [hex_digit (n mod 16)])"

declare hex_string.simps [simp del]

definition drive_letter :: "nat \<Rightarrow> char" where
  "drive_letter d = char_of (65 + d)"

definition dir_path :: "string list \<Rightarrow> string" where
  "dir_path parts = CHR '':'' # CHR 0x5C # concat (map (\<lambda>p. p @ [CHR 0x5C]) parts)"

definition private_dir_persists :: string where
  "private_dir_persists = dir_path [''Private'', ''10202be9'']"

definition persists_folder :: "nat \<Rightarrow> storage \<Rightarrow> string" where
  "persists_folder d st = drive_letter d # dir_path [''Private'', ''10202be9'', ''persists'', lowercase (st_firmware st)]"

section \<open>The server\<close>

record cenrep_session =
  se_idcounter :: u32
  se_subs :: "(u32 \<times> subsession) list"

record cenrep =
  cn_repos :: "u32 \<Rightarrow> central_repo option"
  cn_sessions :: "u64 \<Rightarrow> cenrep_session option"
  cn_cacher :: cacher
  cn_rom_drv :: nat
  cn_avail :: "nat list"
  cn_first :: bool

text \<open>All a request works on; \<open>now\<close> is the clock, \<open>raw\<close> gives the path on the host,
  \<open>ini\<close> is the reader of initial repositories, text files of the host, which tells whether the file could be read, and what
  became of the repository; \<open>narrow\<close> and \<open>widen\<close> are the conversions between \<open>double\<close> and \<open>float\<close>.\<close>

record cenrep_env =
  ev_now :: u64
  ev_raw :: "string \<Rightarrow> string option"
  ev_ini :: "string \<Rightarrow> cre_repo \<Rightarrow> (bool \<times> cre_repo) undef"
  ev_narrow :: "u64 \<Rightarrow> u32"
  ev_widen :: "u32 \<Rightarrow> u64"

record service =
  sv_world :: world
  sv_cenrep :: cenrep
  sv_storage :: storage

definition upd_cenrep :: "(cenrep \<Rightarrow> cenrep) \<Rightarrow> service \<Rightarrow> service" where
  "upd_cenrep f s = s\<lparr>sv_cenrep := f (sv_cenrep s)\<rparr>"

definition upd_kern :: "(kern \<Rightarrow> kern) \<Rightarrow> service \<Rightarrow> service" where
  "upd_kern f s = s\<lparr>sv_world := (sv_world s)\<lparr>w_kern := f (w_kern (sv_world s))\<rparr>\<rparr>"

definition set_repo :: "u32 \<Rightarrow> central_repo \<Rightarrow> service \<Rightarrow> service" where
  "set_repo key r = upd_cenrep (\<lambda>c. c\<lparr>cn_repos := (cn_repos c)(key \<mapsto> r)\<rparr>)"

definition upd_session :: "u64 \<Rightarrow> (cenrep_session \<Rightarrow> cenrep_session) \<Rightarrow> service \<Rightarrow> service" where
  "upd_session i f = upd_cenrep (\<lambda>c. c\<lparr>cn_sessions := (cn_sessions c)(i := map_option f (cn_sessions c i))\<rparr>)"

definition set_sub :: "u64 \<Rightarrow> u32 \<Rightarrow> subsession \<Rightarrow> service \<Rightarrow> service" where
  "set_sub i j ss = upd_session i (\<lambda>x. x\<lparr>se_subs := AList.update j ss (se_subs x)\<rparr>)"

definition get_session :: "u64 \<Rightarrow> service \<Rightarrow> cenrep_session undef" where
  "get_session i s = cn_sessions (sv_cenrep s) i"

definition get_repo :: "u32 \<Rightarrow> service \<Rightarrow> central_repo undef" where
  "get_repo key s = cn_repos (sv_cenrep s) key"

text \<open>A request is completed in the world of the service.\<close>

definition finish :: "int \<Rightarrow> ipc_context \<Rightarrow> service \<Rightarrow> (ipc_context \<times> service) undef" where
  "finish err c s = map_option (\<lambda>(c, w). (c, s\<lparr>sv_world := w\<rparr>)) (cx_complete err c (sv_world s))"

definition reply_data :: "nat \<Rightarrow> u8 list \<Rightarrow> ipc_context \<Rightarrow> service \<Rightarrow> service undef" where
  "reply_data idx dat c s = map_option (\<lambda>(_, _, w). s\<lparr>sv_world := w\<rparr>) (write_data_to_descriptor_argument idx dat False c (sv_world s))"

definition in_kernel :: "(kern \<Rightarrow> ('a \<times> kern) undef) \<Rightarrow> service \<Rightarrow> ('a \<times> service) undef" where
  "in_kernel f s = map_option (\<lambda>(x, k). (x, upd_kern (\<lambda>_. k) s)) (f (w_kern (sv_world s)))"

section \<open>Drives\<close>

definition rescan_drives :: "storage \<Rightarrow> cenrep \<Rightarrow> cenrep" where
  "rescan_drives st c = fold (\<lambda>d c. case st_drives st d of None \<Rightarrow> c
     | Some i \<Rightarrow> (let c = (if dr_rom i then c\<lparr>cn_rom_drv := d\<rparr> else c)
         in if dr_internal i \<and> \<not> dr_write_protected i then c\<lparr>cn_avail := cn_avail c @ [d]\<rparr> else c)) (rev [0..<26]) c"

text \<open>26 is the number that stands for no drive.\<close>

definition callback_on_drive_change :: "storage \<Rightarrow> nat \<Rightarrow> int \<Rightarrow> cenrep \<Rightarrow> cenrep undef" where
  "callback_on_drive_change st d act c = do {
     let c = (if act = 0 then (if cn_rom_drv c = d then c\<lparr>cn_rom_drv := 26\<rparr> else c\<lparr>cn_avail := remove1 d (cn_avail c)\<rparr>) else c);
     if act \<noteq> 1 then Some c
     else do {
       i \<leftarrow> st_drives st d;
       let c = (if dr_rom i then c\<lparr>cn_rom_drv := d\<rparr> else c);
       Some (if \<not> dr_write_protected i then c\<lparr>cn_avail := cn_avail c @ [d]\<rparr> else c)
     }
   }"

section \<open>Loading and writing\<close>

text \<open>One drive after the other. The result of a drive is to go on, or the return value.\<close>

fun load_from_drives :: "cenrep_env \<Rightarrow> bool \<Rightarrow> nat \<Rightarrow> nat \<Rightarrow> u32 \<Rightarrow> nat list \<Rightarrow> central_repo \<Rightarrow> storage \<Rightarrow> (int \<times> central_repo \<times> storage) undef" where
  "load_from_drives ev is_first rom first_drv key [] r st = Some (-1, r, st)"
| "load_from_drives ev is_first rom first_drv key (d # ds) r st = (let keystr = hex_string (unat key);
       folder = (if d = rom then drive_letter d # private_dir_persists else persists_folder d st);
       folder_txt = drive_letter d # private_dir_persists;
       found = (\<lambda>r. r\<lparr>rm_reside_place := first_drv, rm_access_count := 1\<rparr>) in
     if is_first \<and> \<not> io_exist folder st then load_from_drives ev is_first rom first_drv key ds r (io_create_directories folder st)
     else if io_exist (folder @ keystr @ ''.CRE'') st then
       (case io_read (folder @ keystr @ ''.CRE'') st of None \<Rightarrow> Some (-1, r, st)
        | Some bs \<Rightarrow> do {
            guard (bs \<noteq> []);
            (err, repo) \<leftarrow> cre_load (ev_narrow ev) (ev_widen ev) bs (rm_repo r);
            Some (if err \<noteq> 0 then (-1, r\<lparr>rm_repo := repo\<rparr>, st) else (0, found (r\<lparr>rm_repo := repo\<rparr>), st))
          })
     else (case ev_raw ev (folder_txt @ keystr @ ''.TXT'') of None \<Rightarrow> Some (-1, r, st)
     | Some path \<Rightarrow> do {
         (ok, repo) \<leftarrow> ev_ini ev path ((rm_repo r)\<lparr>cr_uid := key\<rparr>);
         if ok then Some (0, found (r\<lparr>rm_repo := repo\<rparr>), st)
         else load_from_drives ev is_first rom first_drv key ds (r\<lparr>rm_repo := repo\<rparr>) st
       }))"

definition fresh_repo :: central_repo where
  "fresh_repo = \<lparr>rm_repo = new_repo, rm_reside_place = 0, rm_access_count = 0, rm_attached = []\<rparr>"

text \<open>Whether only the original is wanted makes no difference.\<close>

definition load_repo_adv :: "cenrep_env \<Rightarrow> u32 \<Rightarrow> bool \<Rightarrow> service \<Rightarrow> (int \<times> central_repo \<times> service) undef" where
  "load_repo_adv ev key scan_org_only s = (let c = sv_cenrep s; is_first = cn_first c;
       c = c\<lparr>cn_first := False\<rparr>; c = (if is_first then rescan_drives (sv_storage s) c else c);
       drives = cn_avail c @ [cn_rom_drv c] in
     map_option (\<lambda>(err, r, st). (err, r, s\<lparr>sv_cenrep := c, sv_storage := st\<rparr>))
       (load_from_drives ev is_first (cn_rom_drv c) (hd drives) key drives fresh_repo (sv_storage s)))"

definition load_repo_with_lookup :: "cenrep_env \<Rightarrow> u32 \<Rightarrow> service \<Rightarrow> (bool \<times> service) undef" where
  "load_repo_with_lookup ev key s = (case get_repo key s of
       Some r \<Rightarrow> Some (True, set_repo key (r\<lparr>rm_access_count := rm_access_count r + 1\<rparr>) s)
     | None \<Rightarrow> do {
         (err, r, s) \<leftarrow> load_repo_adv ev key False s;
         Some (if err \<noteq> 0 then (False, s) else (True, set_repo key r s))
       })"

definition get_initial_repo :: "cenrep_env \<Rightarrow> u32 \<Rightarrow> service \<Rightarrow> (central_repo option \<times> service) undef" where
  "get_initial_repo ev key s = (case get_cached_repo (ev_now ev) key (cn_cacher (sv_cenrep s)) of
       (Some r, es) \<Rightarrow> Some (Some r, upd_cenrep (\<lambda>c. c\<lparr>cn_cacher := es\<rparr>) s)
     | (None, _) \<Rightarrow> do {
         (err, r, s) \<leftarrow> load_repo_adv ev key True s;
         if err \<noteq> 0 then Some (None, s)
         else (case add_repo (ev_now ev) key r (cn_cacher (sv_cenrep s)) of (r, es) \<Rightarrow>
           Some (r, upd_cenrep (\<lambda>c. c\<lparr>cn_cacher := es\<rparr>) s))
       })"

text \<open>The file is named after the identifier in the repository, not the one it was asked for with.\<close>

definition cre_path :: "central_repo \<Rightarrow> storage \<Rightarrow> string" where
  "cre_path r st = drive_letter (rm_reside_place r) # dir_path [''Private'', ''10202BE9'', ''persists'', lowercase (st_firmware st)]
     @ hex_string (unat (cr_uid (rm_repo r))) @ ''.cre''"

definition write_changes :: "cenrep_env \<Rightarrow> u32 \<Rightarrow> service \<Rightarrow> service undef" where
  "write_changes ev key s = do {
     r \<leftarrow> get_repo key s;
     (bs, repo) \<leftarrow> cre_bytes (ev_narrow ev) (ev_widen ev) (rm_repo r);
     let r = r\<lparr>rm_repo := repo\<rparr>;
     let s = set_repo key r s;
     Some (s\<lparr>sv_storage := io_write (cre_path r (sv_storage s)) bs (sv_storage s)\<rparr>)
   }"

section \<open>Requests to a subsession\<close>

datatype cen_request = Cen_init | Cen_create_int | Cen_create_real | Cen_create_string | Cen_delete | Cen_get_int | Cen_set_int
  | Cen_get_real | Cen_set_real | Cen_get_string | Cen_set_string | Cen_find | Cen_find_eq_int | Cen_find_eq_real | Cen_find_eq_string
  | Cen_find_neq_int | Cen_find_neq_real | Cen_find_neq_string | Cen_get_find_res | Cen_notify_req_check | Cen_notify_req
  | Cen_notify_cancel | Cen_notify_cancel_all | Cen_group_nof_req | Cen_group_nof_cancel | Cen_reset | Cen_reset_all
  | Cen_transaction_start | Cen_transaction_commit | Cen_transaction_cancel | Cen_move | Cen_transaction_state
  | Cen_transaction_fail | Cen_delete_range | Cen_get_meta | Cen_close

definition cen_requests :: "cen_request list" where
  "cen_requests = [Cen_init, Cen_create_int, Cen_create_real, Cen_create_string, Cen_delete, Cen_get_int, Cen_set_int,
     Cen_get_real, Cen_set_real, Cen_get_string, Cen_set_string, Cen_find, Cen_find_eq_int, Cen_find_eq_real, Cen_find_eq_string,
     Cen_find_neq_int, Cen_find_neq_real, Cen_find_neq_string, Cen_get_find_res, Cen_notify_req_check, Cen_notify_req,
     Cen_notify_cancel, Cen_notify_cancel_all, Cen_group_nof_req, Cen_group_nof_cancel, Cen_reset, Cen_reset_all,
     Cen_transaction_start, Cen_transaction_commit, Cen_transaction_cancel, Cen_move, Cen_transaction_state,
     Cen_transaction_fail, Cen_delete_range, Cen_get_meta, Cen_close]"

definition request_of :: "ipc_context \<Rightarrow> cen_request option" where
  "request_of c = (let n = unat (msg_function (cx_msg c)) in if n < length cen_requests then Some (cen_requests ! n) else None)"

text \<open>\<open>i\<close> and \<open>j\<close> are the session and the subsession. A changed entry tells those that wait for it.\<close>

definition notify_changed :: "u64 \<Rightarrow> u32 \<Rightarrow> u32 \<Rightarrow> subsession \<Rightarrow> service \<Rightarrow> service undef" where
  "notify_changed i j key ss s = do {
     (ns, s) \<leftarrow> in_kernel (modification_success key (ss_notifies ss)) s;
     Some (set_sub i j (ss\<lparr>ss_notifies := ns\<rparr>) s)
   }"

definition handle_reset :: "cenrep_env \<Rightarrow> u64 \<Rightarrow> u32 \<Rightarrow> subsession \<Rightarrow> ipc_context \<Rightarrow> service \<Rightarrow> (ipc_context \<times> service) undef" where
  "handle_reset ev i j ss c s = do {
     r \<leftarrow> get_repo (ss_repo ss) s;
     (init_repo, s) \<leftarrow> get_initial_repo ev (cr_uid (rm_repo r)) s;
     key \<leftarrow> get_argument_value 0 c;
     (err, repo) \<leftarrow> reset_key init_repo key ss (rm_repo r);
     let s = set_repo (ss_repo ss) (r\<lparr>rm_repo := repo\<rparr>) s;
     if err = -1 then finish (-5) c s
     else if err = -2 then finish (-1) c s
     else do {
       s \<leftarrow> write_changes ev (ss_repo ss) s;
       s \<leftarrow> notify_changed i j key ss s;
       finish 0 c s
     }
   }"

text \<open>The new value of an entry of the right type. For a wrong type there is none, and the request is completed with an error;
  what follows completes it again.\<close>

definition new_value :: "cenrep_env \<Rightarrow> cen_request \<Rightarrow> cre_entry \<Rightarrow> ipc_context \<Rightarrow> service \<Rightarrow> cre_entry option undef" where
  "new_value ev q e c s = (case q of
     Cen_set_int \<Rightarrow> if ce_type e \<noteq> Cre_integer then Some None
       else do { v \<leftarrow> (get_argument_value 1 c :: u32 option); Some (Some (e\<lparr>ce_int := ucast v\<rparr>)) }
   | Cen_set_real \<Rightarrow> if ce_type e \<noteq> Cre_real then Some None
       else do { v \<leftarrow> (get_argument_value 1 c :: u32 option); Some (Some (e\<lparr>ce_real := ev_widen ev v\<rparr>)) }
   | Cen_set_string \<Rightarrow> if ce_type e \<noteq> Cre_string then Some None
       else do { v \<leftarrow> get_argument_string 1 1 c (sv_world s); v \<leftarrow> v; Some (Some (e\<lparr>ce_str := v\<rparr>)) }
   | _ \<Rightarrow> None)"

definition handle_set_value :: "cenrep_env \<Rightarrow> cen_request \<Rightarrow> u64 \<Rightarrow> u32 \<Rightarrow> subsession \<Rightarrow> ipc_context \<Rightarrow> service \<Rightarrow> (ipc_context \<times> service) undef" where
  "handle_set_value ev q i j ss c s = do {
     key \<leftarrow> get_argument_value 0 c;
     r \<leftarrow> get_repo (ss_repo ss) s;
     (case get_entry key True ss (rm_repo r) of
       (None, ss) \<Rightarrow> finish (-1) c s
     | (Some p, ss) \<Rightarrow> do {
         let e = entry_at p ss (rm_repo r);
         v \<leftarrow> new_value ev q e c s;
         (c, ss, repo, s) \<leftarrow> (case v of
            None \<Rightarrow> do { (c, s) \<leftarrow> finish (-6) c s; Some (c, ss, rm_repo r, s) }
          | Some e' \<Rightarrow> (case set_entry_at p e' ss (rm_repo r) of (ss, repo) \<Rightarrow> Some (c, ss, repo, s)));
         s \<leftarrow> notify_changed i j (ce_key e) ss (set_repo (ss_repo ss) (r\<lparr>rm_repo := repo\<rparr>) s);
         finish 0 c s
       })
   }"

text \<open>The bytes a reader of an entry gets.\<close>

definition value_of :: "cenrep_env \<Rightarrow> cen_request \<Rightarrow> cre_entry \<Rightarrow> u8 list option" where
  "value_of ev q e = (case q of
     Cen_get_int \<Rightarrow> if ce_type e \<noteq> Cre_integer then None else Some (word_bytes (ucast (ce_int e) :: u32))
   | Cen_get_real \<Rightarrow> if ce_type e \<noteq> Cre_real then None else Some (word_bytes (ev_narrow ev (ce_real e)))
   | Cen_get_string \<Rightarrow> if ce_type e \<noteq> Cre_string then None else Some (ce_str e)
   | _ \<Rightarrow> None)"

definition handle_get_value :: "cenrep_env \<Rightarrow> cen_request \<Rightarrow> subsession \<Rightarrow> ipc_context \<Rightarrow> service \<Rightarrow> (ipc_context \<times> service) undef" where
  "handle_get_value ev q ss c s = do {
     key \<leftarrow> get_argument_value 0 c;
     r \<leftarrow> get_repo (ss_repo ss) s;
     (case get_entry key False ss (rm_repo r) of
       (None, _) \<Rightarrow> finish (-1) c s
     | (Some p, _) \<Rightarrow> (case value_of ev q (entry_at p ss (rm_repo r)) of
         None \<Rightarrow> finish (-6) c s
       | Some bs \<Rightarrow> do { s \<leftarrow> reply_data 1 bs c s; finish 0 c s }))
   }"

section \<open>Searching\<close>

text \<open>The array of the client: the number of keys found, then the keys. Those that do not fit are kept for another request.\<close>

definition append_new_key :: "u32 \<Rightarrow> u32 \<Rightarrow> u32 \<Rightarrow> gmem \<times> u32 list \<Rightarrow> gmem \<times> u32 list" where
  "append_new_key p key max_uids x = (case x of (m, found) \<Rightarrow> let n = load32 m p + 1; m = store32 p n m in
     if n \<le> max_uids then (store32 (p + 4 * n) key m, found) else (m, found @ [key]))"

text \<open>The key an entry is found by, 0 for none.\<close>

definition find_matches :: "cen_request \<Rightarrow> u32 \<Rightarrow> u32 \<Rightarrow> ipc_context \<Rightarrow> world \<Rightarrow> cre_entry \<Rightarrow> u32 undef" where
  "find_matches q partial_key id_mask c w e =
    (if and (ce_key e) id_mask \<noteq> and partial_key id_mask then Some 0
     else case q of
       Cen_find_eq_int \<Rightarrow> if ce_type e \<noteq> Cre_integer then Some 0
         else map_option (\<lambda>v :: u32. if ucast (ce_int e) = v then ce_key e else 0) (get_argument_value 1 c)
     | Cen_find_neq_int \<Rightarrow> if ce_type e \<noteq> Cre_integer then Some 0
         else map_option (\<lambda>v :: u32. if ucast (ce_int e) \<noteq> v then ce_key e else 0) (get_argument_value 1 c)
     | Cen_find_eq_string \<Rightarrow> if ce_type e \<noteq> Cre_string then Some 0
         else map_option (\<lambda>v. if Some (ce_str e) = v then ce_key e else 0) (get_argument_string 1 1 c w)
     | Cen_find_neq_string \<Rightarrow> if ce_type e \<noteq> Cre_string then Some 0
         else map_option (\<lambda>v. if Some (ce_str e) \<noteq> v then ce_key e else 0) (get_argument_string 1 1 c w)
     | Cen_find \<Rightarrow> Some (ce_key e)
     | _ \<Rightarrow> Some 0)"

fun find_entries :: "(world \<Rightarrow> cre_entry \<Rightarrow> u32 undef) \<Rightarrow> pid \<Rightarrow> u32 \<Rightarrow> u32 \<Rightarrow> cre_entry list \<Rightarrow> world \<times> u32 list \<Rightarrow> (world \<times> u32 list) undef" where
  "find_entries f pr p max_uids [] x = Some x"
| "find_entries f pr p max_uids (e # es) (w, found) = do {
     key \<leftarrow> f w e;
     find_entries f pr p max_uids es (if key = 0 then (w, found)
       else (case append_new_key p key max_uids (w_mem w pr, found) of (m, found) \<Rightarrow> (set_mem pr m w, found)))
   }"

text \<open>The number of keys that fit is computed before the array is tested. A filter of less than 8 bytes is undefined.\<close>

definition handle_find :: "cen_request \<Rightarrow> u64 \<Rightarrow> u32 \<Rightarrow> subsession \<Rightarrow> ipc_context \<Rightarrow> service \<Rightarrow> (ipc_context \<times> service) undef" where
  "handle_find q i j ss c s = do {
     r \<leftarrow> get_repo (ss_repo ss) s;
     let s = set_sub i j (ss\<lparr>ss_found := []\<rparr>) s;
     let w = sv_world s;
     filter \<leftarrow> get_argument_data_from_descriptor 8 0 c w;
     p \<leftarrow> get_descriptor_argument_ptr 2 c w;
     size \<leftarrow> get_argument_max_data_size 2 c w;
     (case (filter, p) of
       (Some bs, Some p) \<Rightarrow> do {
         guard (length bs = 8);
         pr \<leftarrow> own_process c w;
         let max_uids = ucast (size div 4 - 1);
         let w = set_mem pr (store32 p 0 (w_mem w pr)) w;
         (w, found) \<leftarrow> find_entries (find_matches q (bytes_word (take 4 bs)) (bytes_word (drop 4 bs)) c) pr p max_uids (cr_entries (rm_repo r)) (w, []);
         let s = set_sub i j (ss\<lparr>ss_found := found\<rparr>) (s\<lparr>sv_world := w\<rparr>);
         if load32 (w_mem w pr) p = 0 then finish (-1) c s else finish 0 c s
       }
     | _ \<Rightarrow> finish (-6) c s)
   }"

definition handle_get_find_result :: "subsession \<Rightarrow> ipc_context \<Rightarrow> service \<Rightarrow> (ipc_context \<times> service) undef" where
  "handle_get_find_result ss c s = do {
     _ \<leftarrow> get_descriptor_argument_ptr 0 c (sv_world s);
     size \<leftarrow> get_argument_max_data_size 0 c (sv_world s);
     guard (ss_found ss \<noteq> []);
     s \<leftarrow> reply_data 0 (concat (map word_bytes (take (min (unat size div 4) (length (ss_found ss))) (ss_found ss)))) c s;
     finish 0 c s
   }"

section \<open>Notifications\<close>

definition handle_notify_check :: "subsession \<Rightarrow> ipc_context \<Rightarrow> service \<Rightarrow> (ipc_context \<times> service) undef" where
  "handle_notify_check ss c s = do {
     key \<leftarrow> get_argument_value 0 c;
     if fst (add_notify_request \<lparr>sts = 0, requester = None\<rparr> 0xFFFFFFFF key ss) = 0 then finish 0 c s else finish (-11) c s
   }"

definition handle_notify :: "cen_request \<Rightarrow> u64 \<Rightarrow> u32 \<Rightarrow> subsession \<Rightarrow> ipc_context \<Rightarrow> service \<Rightarrow> (ipc_context \<times> service) undef" where
  "handle_notify q i j ss c s = do {
     msk \<leftarrow> (if q = Cen_notify_req then Some 0xFFFFFFFF else get_argument_value 1 c);
     key \<leftarrow> get_argument_value 0 c;
     (case add_notify_request \<lparr>sts = request_sts (cx_msg c), requester = own_thr (cx_msg c)\<rparr> msk key ss of (err, ss) \<Rightarrow>
       let s = set_sub i j ss s in if err = -1 then finish (-11) c s else Some (c, s))
   }"

definition handle_notify_cancel :: "cen_request \<Rightarrow> u64 \<Rightarrow> u32 \<Rightarrow> subsession \<Rightarrow> ipc_context \<Rightarrow> service \<Rightarrow> (ipc_context \<times> service) undef" where
  "handle_notify_cancel q i j ss c s =
     (let cancel = (\<lambda>key msk. do {
        (ns, s) \<leftarrow> in_kernel (cancel_notify_request key msk (ss_notifies ss)) s;
        finish 0 c (set_sub i j (ss\<lparr>ss_notifies := ns\<rparr>) s)
      }) in
      if q = Cen_notify_cancel then do { key \<leftarrow> get_argument_value 0 c; cancel key 0xFFFFFFFF }
      else do {
        filter \<leftarrow> get_argument_data_from_descriptor 8 0 c (sv_world s);
        (case filter of None \<Rightarrow> finish (-6) c s
         | Some bs \<Rightarrow> do { guard (length bs = 8); cancel (bytes_word (take 4 bs)) (bytes_word (drop 4 bs)) })
      })"

text \<open>Requests without a case are not answered.\<close>

definition sub_handle_message :: "cenrep_env \<Rightarrow> u64 \<Rightarrow> u32 \<Rightarrow> subsession \<Rightarrow> ipc_context \<Rightarrow> service \<Rightarrow> (ipc_context \<times> service) undef" where
  "sub_handle_message ev i j ss c s = (case request_of c of
     Some Cen_notify_req_check \<Rightarrow> handle_notify_check ss c s
   | Some Cen_group_nof_cancel \<Rightarrow> handle_notify_cancel Cen_group_nof_cancel i j ss c s
   | Some Cen_notify_cancel \<Rightarrow> handle_notify_cancel Cen_notify_cancel i j ss c s
   | Some Cen_notify_cancel_all \<Rightarrow> do {
       (ns, s) \<leftarrow> in_kernel (cancel_all_notify_requests (ss_notifies ss)) s;
       finish 0 c (set_sub i j (ss\<lparr>ss_notifies := ns\<rparr>) s)
     }
   | Some Cen_group_nof_req \<Rightarrow> handle_notify Cen_group_nof_req i j ss c s
   | Some Cen_notify_req \<Rightarrow> handle_notify Cen_notify_req i j ss c s
   | Some Cen_get_int \<Rightarrow> handle_get_value ev Cen_get_int ss c s
   | Some Cen_get_real \<Rightarrow> handle_get_value ev Cen_get_real ss c s
   | Some Cen_get_string \<Rightarrow> handle_get_value ev Cen_get_string ss c s
   | Some Cen_set_int \<Rightarrow> handle_set_value ev Cen_set_int i j ss c s
   | Some Cen_set_string \<Rightarrow> handle_set_value ev Cen_set_string i j ss c s
   | Some Cen_set_real \<Rightarrow> handle_set_value ev Cen_set_real i j ss c s
   | Some Cen_reset \<Rightarrow> handle_reset ev i j ss c s
   | Some Cen_transaction_start \<Rightarrow> finish 0 c s
   | Some Cen_transaction_cancel \<Rightarrow> finish 0 c s
   | Some Cen_get_find_res \<Rightarrow> handle_get_find_result ss c s
   | Some q \<Rightarrow> if q \<in> {Cen_find_eq_int, Cen_find_eq_real, Cen_find_eq_string, Cen_find_neq_int, Cen_find_neq_real, Cen_find_neq_string, Cen_find}
       then handle_find q i j ss c s else Some (c, s)
   | None \<Rightarrow> Some (c, s))"

section \<open>Sessions\<close>

definition new_session :: cenrep_session where
  "new_session = \<lparr>se_idcounter = 0, se_subs = []\<rparr>"

text \<open>Opening a repository makes a subsession with the next number. An occupied number leaves the session as it is.\<close>

definition session_init :: "cenrep_env \<Rightarrow> u64 \<Rightarrow> ipc_context \<Rightarrow> service \<Rightarrow> (ipc_context \<times> service) undef" where
  "session_init ev i c s = do {
     key \<leftarrow> get_argument_value 0 c;
     (ok, s) \<leftarrow> load_repo_with_lookup ev key s;
     if \<not> ok then finish (-1) c s
     else do {
       x \<leftarrow> get_session i s;
       let j = se_idcounter x + 1;
       let s = upd_session i (\<lambda>x. x\<lparr>se_idcounter := j\<rparr>) s;
       if map_of (se_subs x) j \<noteq> None then finish (-4) c s
       else do {
         r \<leftarrow> get_repo key s;
         let s = set_repo key (r\<lparr>rm_attached := rm_attached r @ [(i, j)]\<rparr>) (set_sub i j (new_subsession key) s);
         s \<leftarrow> reply_data 3 (word_bytes j) c s;
         finish 0 c s
       }
     }
   }"

text \<open>\<open>closerep\<close>; 0 for \<open>repo_id\<close> stands for any repository.\<close>

definition closerep :: "cenrep_env \<Rightarrow> u64 \<Rightarrow> u32 \<Rightarrow> u32 \<Rightarrow> service \<Rightarrow> (int \<times> service) undef" where
  "closerep ev i repo_id j s = do {
     x \<leftarrow> get_session i s;
     (case map_of (se_subs x) j of None \<Rightarrow> Some (-1, s)
      | Some ss \<Rightarrow> do {
          r \<leftarrow> get_repo (ss_repo ss) s;
          if repo_id \<noteq> 0 \<and> cr_uid (rm_repo r) \<noteq> repo_id then Some (-2, s)
          else do {
            s \<leftarrow> write_changes ev (ss_repo ss) s;
            r \<leftarrow> get_repo (ss_repo ss) s;
            let r = r\<lparr>rm_attached := remove1 (i, j) (rm_attached r),
              rm_access_count := (if rm_access_count r > 0 then rm_access_count r - 1 else rm_access_count r)\<rparr>;
            Some (0, upd_session i (\<lambda>x. x\<lparr>se_subs := AList.delete j (se_subs x)\<rparr>) (set_repo (ss_repo ss) r s))
          }
        })
   }"

definition session_close :: "cenrep_env \<Rightarrow> u64 \<Rightarrow> ipc_context \<Rightarrow> service \<Rightarrow> (ipc_context \<times> service) undef" where
  "session_close ev i c s = do {
     j \<leftarrow> get_argument_value 3 c;
     (err, s) \<leftarrow> closerep ev i 0 j s;
     if err = 0 then finish 0 c s else if err = -1 then finish (-1) c s else if err = -2 then finish (-6) c s else Some (c, s)
   }"

definition session_handle_message :: "cenrep_env \<Rightarrow> u64 \<Rightarrow> ipc_context \<Rightarrow> service \<Rightarrow> (ipc_context \<times> service) undef" where
  "session_handle_message ev i c s = (case request_of c of
     Some Cen_init \<Rightarrow> session_init ev i c s
   | Some Cen_close \<Rightarrow> session_close ev i c s
   | _ \<Rightarrow> do {
       j \<leftarrow> get_argument_value 3 c;
       x \<leftarrow> get_session i s;
       (case map_of (se_subs x) j of None \<Rightarrow> finish (-6) c s | Some ss \<Rightarrow> sub_handle_message ev i j ss c s)
     })"

section \<open>The server\<close>

text \<open>The sessions are found by the unique number of the kernel's session; a new one is entered under its lower half.\<close>

definition redirect_msg_to_session :: "cenrep_env \<Rightarrow> u64 \<Rightarrow> ipc_context \<Rightarrow> service \<Rightarrow> (ipc_context \<times> service) undef" where
  "redirect_msg_to_session ev uid c s = (case get_session uid s of
     None \<Rightarrow> finish (-6) c s | Some _ \<Rightarrow> session_handle_message ev uid c s)"

definition connect :: "u64 \<Rightarrow> ipc_context \<Rightarrow> service \<Rightarrow> (ipc_context \<times> service) undef" where
  "connect uid c s = (let i = ucast (ucast uid :: u32) in
     finish 0 c (upd_cenrep (\<lambda>x. if cn_sessions x i = None then x\<lparr>cn_sessions := (cn_sessions x)(i \<mapsto> new_session)\<rparr> else x) s))"

text \<open>Closing a subsession erases it from the table that is being gone through: with a subsession left, the next step is
  undefined.\<close>

definition disconnect :: "cenrep_env \<Rightarrow> u64 \<Rightarrow> ipc_context \<Rightarrow> service \<Rightarrow> (ipc_context \<times> service) undef" where
  "disconnect ev uid c s = (case get_session uid s of
     None \<Rightarrow> finish 0 c s
   | Some x \<Rightarrow> do {
       guard (se_subs x = []);
       finish 0 c (upd_cenrep (\<lambda>y. y\<lparr>cn_sessions := (cn_sessions y)(uid := None)\<rparr>) s)
     })"

end
