(* ===== verification/Cenrep_Rep.thy ===== *)
theory Cenrep_Rep
  imports Cenrep
begin

text \<open>
  What the central repository keeps and promises: the cache of initial repositories stays within its limit, values written are
  read back, over closing and reopening a repository too, errors leave the settings alone, everyone who asked for it is notified
  once, and the tables of sessions, subsessions and repositories fit together whatever the clients send (\<open>cenrep_ok\<close>).
\<close>

section \<open>Drives leave the rest of the server alone\<close>

lemma rescan_drives_keeps [simp]:
  "cn_cacher (rescan_drives st c) = cn_cacher c" "cn_repos (rescan_drives st c) = cn_repos c"
  "cn_sessions (rescan_drives st c) = cn_sessions c" "cn_first (rescan_drives st c) = cn_first c"
proof -
  let ?g = "\<lambda>c. (cn_cacher c, cn_repos c, cn_sessions c, cn_first c)"
  have "?g (rescan_drives st c) = ?g c"
    unfolding rescan_drives_def
    by (rule fold_invariant [where Q = "\<lambda>_. True" and P = "\<lambda>x. ?g x = ?g c"]) (auto simp: Let_def split: option.splits)
  then show "cn_cacher (rescan_drives st c) = cn_cacher c" "cn_repos (rescan_drives st c) = cn_repos c"
    "cn_sessions (rescan_drives st c) = cn_sessions c" "cn_first (rescan_drives st c) = cn_first c" by simp_all
qed

lemma load_repo_adv_keeps:
  assumes "load_repo_adv ev key b s = Some (err, r, s')"
  shows "cn_cacher (sv_cenrep s') = cn_cacher (sv_cenrep s)" "cn_repos (sv_cenrep s') = cn_repos (sv_cenrep s)"
    "cn_sessions (sv_cenrep s') = cn_sessions (sv_cenrep s)" "sv_world s' = sv_world s" "\<not> cn_first (sv_cenrep s')"
  using assms by (cases "cn_first (sv_cenrep s)"; auto simp: load_repo_adv_def Let_def)+

section \<open>The cache of initial repositories\<close>

text \<open>What every operation keeps: no key twice, and no more entries than the limit.\<close>

definition cacher_ok :: "cacher \<Rightarrow> bool" where
  "cacher_ok es \<longleftrightarrow> distinct (map fst es) \<and> length es \<le> max_repo_cache_entries"

lemma distinct_fst_filter: "distinct (map fst xs) \<Longrightarrow> distinct (map fst (filter P xs))"
  by (simp add: distinct_map_filter)

lemma fst_map_repo: "map fst (map (\<lambda>(k, x). if k = key then (k, e) else (k, x)) es) = map fst es"
  by (induction es) auto

text \<open>The entry that is the oldest of those not in use.\<close>

lemma oldest_unused_in:
  assumes "fst (fold (\<lambda>(key, e) (rk, old). if ca_last_access e < old \<and> rm_access_count (ca_repo e) = 0 then (key, ca_last_access e) else (rk, old)) es z) = k"
    and "k \<noteq> fst z"
  shows "\<exists>e. (k, e) \<in> set es \<and> rm_access_count (ca_repo e) = 0"
  using assms
proof (induction es arbitrary: z)
  case (Cons x es)
  let ?f = "\<lambda>(key, e) (rk, old). if ca_last_access e < old \<and> rm_access_count (ca_repo e) = 0 then (key, ca_last_access e) else (rk, old)"
  show ?case
  proof (cases "k = fst (?f x z)")
    case True
    then show ?thesis using Cons.prems(2) by (cases x; cases z) (auto split: if_splits)
  next
    case False
    then show ?thesis using Cons.IH [of "?f x z"] Cons.prems(1) by auto
  qed
qed simp

lemma free_oldest_shorter:
  assumes "free_oldest es = (True, es')"
  shows "length es' < length es"
proof -
  let ?k = "fst (oldest_unused es)"
  have k: "?k \<noteq> 0xFFFFFFFF" "es' = filter (\<lambda>(key, _). key \<noteq> ?k) es" using assms by (auto simp: free_oldest_def Let_def split: if_splits)
  then obtain e where "(?k, e) \<in> set es"
    using oldest_unused_in [of es "(0xFFFFFFFF, 0xFFFFFFFFFFFFFFFF)" ?k] unfolding oldest_unused_def by auto
  then show ?thesis using length_filter_less [of "(?k, e)" es "\<lambda>(key, _). key \<noteq> ?k"] k(2) by simp
qed

lemma free_oldest_ok: "cacher_ok es \<Longrightarrow> cacher_ok (snd (free_oldest es))"
  by (auto simp: cacher_ok_def free_oldest_def Let_def distinct_fst_filter intro: order_trans [OF length_filter_le])

lemma free_oldest_full: "\<forall>(key, e) \<in> set es. rm_access_count (ca_repo e) \<noteq> 0 \<Longrightarrow> free_oldest es = (False, es)"
  using oldest_unused_in [of es "(0xFFFFFFFF, 0xFFFFFFFFFFFFFFFF)" "fst (oldest_unused es)"]
  by (auto simp: free_oldest_def Let_def oldest_unused_def)

lemma add_repo_ok:
  assumes "cacher_ok es"
  shows "cacher_ok (snd (add_repo now key r es))"
proof -
  obtain b es' where f: "(if length es = max_repo_cache_entries then free_oldest es else (True, es)) = (b, es')" by fastforce
  have ok: "cacher_ok es'" using f free_oldest_ok [OF assms] assms by (auto split: if_splits)
  moreover have "length es' < max_repo_cache_entries" if b
    using that f assms free_oldest_shorter [of es es'] by (auto simp: cacher_ok_def split: if_splits)
  ultimately show ?thesis
    using f by (cases b) (auto simp: add_repo_def Let_def cacher_ok_def map_of_eq_None_iff)
qed

lemma get_cached_repo_ok: "cacher_ok es \<Longrightarrow> cacher_ok (snd (get_cached_repo now key es))"
  by (auto simp: get_cached_repo_def cacher_ok_def Let_def fst_map_repo simp del: map_map split: option.splits)

lemma remove_repo_ok: "cacher_ok es \<Longrightarrow> cacher_ok (snd (remove_repo key es))"
  by (auto simp: remove_repo_def cacher_ok_def distinct_fst_filter intro: order_trans [OF length_filter_le])

text \<open>The cache of initial repositories never has a repository twice, nor more than 35: asking for a repository, adding one,
  freeing the oldest and removing one keep it so.\<close>

theorem cacher_stays_bounded:
  assumes "cacher_ok es"
  shows "cacher_ok (snd (get_cached_repo now key es)) \<and> cacher_ok (snd (add_repo now key r es))
    \<and> cacher_ok (snd (free_oldest es)) \<and> cacher_ok (snd (remove_repo key es))"
  using assms by (simp_all add: get_cached_repo_ok add_repo_ok free_oldest_ok remove_repo_ok)

theorem cacher_stays_bounded_witness:
  "cacher_ok (snd (get_cached_repo 1 7 [])) \<and> cacher_ok (snd (add_repo 1 7 fresh_repo []))
    \<and> cacher_ok (snd (free_oldest [])) \<and> cacher_ok (snd (remove_repo 7 []))"
  by (rule cacher_stays_bounded) (simp add: cacher_ok_def max_repo_cache_entries_def)

section \<open>Resetting a key when the cache is full\<close>

text \<open>A repository in the cache counts as used from the first time it was asked for, so a full cache has none to free: the
  initial repository of a 36th is loaded but not returned, and resetting one of its keys dereferences the null pointer.\<close>

theorem reset_with_full_cache_undefined:
  assumes "length (cn_cacher (sv_cenrep s)) = max_repo_cache_entries"
    and "\<forall>(key, e) \<in> set (cn_cacher (sv_cenrep s)). rm_access_count (ca_repo e) \<noteq> 0"
    and "get_repo (ss_repo ss) s = Some r" and "map_of (cn_cacher (sv_cenrep s)) (cr_uid (rm_repo r)) = None"
    and "get_argument_value 0 c = Some key" and "find_entry key (rm_repo r) \<noteq> None" and "\<not> is_active ss"
  shows "handle_reset ev i j ss c s = None"
proof (cases "load_repo_adv ev (cr_uid (rm_repo r)) True s")
  case None
  then show ?thesis using assms by (simp add: handle_reset_def get_initial_repo_def get_cached_repo_def)
next
  case (Some x)
  obtain err r' s' where x: "x = (err, r', s')" by (cases x)
  have "cn_cacher (sv_cenrep s') = cn_cacher (sv_cenrep s)"
    using load_repo_adv_keeps(1) Some by (simp add: x)
  then have "\<exists>s''. get_initial_repo ev (cr_uid (rm_repo r)) s = Some (None, s'')"
    using Some assms free_oldest_full [OF assms(2)]
    by (auto simp: get_initial_repo_def get_cached_repo_def x add_repo_def)
  then show ?thesis using assms by (auto simp: handle_reset_def reset_key_def split: option.splits)
qed

definition full_cacher :: cacher where
  "full_cacher = map (\<lambda>n. (of_nat n, \<lparr>ca_last_access = 0, ca_repo = fresh_repo\<lparr>rm_access_count := 1\<rparr>\<rparr>)) [0..<35]"

text \<open>A service with one repository, 0x100, whose entry 5 is an integer; the session 1 opened it.\<close>

definition sample_entry :: cre_entry where
  "sample_entry = new_entry\<lparr>ce_key := 5, ce_type := Cre_integer, ce_int := 1\<rparr>"

definition sample_cenrep :: cenrep where
  "sample_cenrep = \<lparr>cn_repos = [0x100 \<mapsto> fresh_repo\<lparr>rm_repo := new_repo\<lparr>cr_uid := 0x100, cr_entries := [sample_entry]\<rparr>,
       rm_reside_place := 2, rm_access_count := 1, rm_attached := [(1, 1)]\<rparr>],
     cn_sessions = [1 \<mapsto> \<lparr>se_idcounter = 1, se_subs = [(1, new_subsession 0x100)]\<rparr>], cn_cacher = full_cacher, cn_rom_drv = 25,
     cn_avail = [2], cn_first = False\<rparr>"

definition sample_storage :: storage where
  "sample_storage = \<lparr>st_files = (\<lambda>_. None), st_dirs = (\<lambda>_. True), st_locked = (\<lambda>_. False), st_drives = (\<lambda>_. None), st_firmware = ''rm-1''\<rparr>"

definition sample_service :: service where
  "sample_service = \<lparr>sv_world = sample_world, sv_cenrep = sample_cenrep, sv_storage = sample_storage\<rparr>"

definition sample_env :: cenrep_env where
  "sample_env = \<lparr>ev_now = 9, ev_raw = (\<lambda>_. None), ev_ini = (\<lambda>_ _. None), ev_narrow = ucast, ev_widen = ucast\<rparr>"

text \<open>The request \<open>f\<close> with the arguments \<open>xs\<close>, whose types are in \<open>fl\<close>.\<close>

definition sample_request :: "u32 \<Rightarrow> u32 list \<Rightarrow> u32 \<Rightarrow> ipc_context" where
  "sample_request f xs fl = sample_context\<lparr>cx_msg := (cx_msg sample_context)\<lparr>msg_function := f, msg_args := \<lparr>args = xs, flag = fl\<rparr>\<rparr>\<rparr>"

lemma sample_request_simps [simp]:
  "msg_function (cx_msg (sample_request f xs fl)) = f" "args (msg_args (cx_msg (sample_request f xs fl))) = xs"
  "ipc_arg.flag (msg_args (cx_msg (sample_request f xs fl))) = fl" "own_thr (cx_msg (sample_request f xs fl)) = Some 1"
  "request_sts (cx_msg (sample_request f xs fl)) = 8" "\<not> cx_signaled (sample_request f xs fl)" "\<not> cx_accurate_timing (sample_request f xs fl)"
  by (simp_all add: sample_request_def sample_context_def)

lemma not_active_new [simp]: "\<not> is_active (new_subsession key)" "get_transaction_mode (new_subsession key) = 1" "ss_repo (new_subsession key) = key"
  "ss_notifies (new_subsession key) = []" "ss_changes (new_subsession key) k = None"
  by (simp_all add: is_active_def new_subsession_def set_transaction_mode_def get_transaction_mode_def bit_simps)

theorem reset_with_full_cache_undefined_witness:
  "handle_reset sample_env 1 1 (new_subsession 0x100) (sample_request 25 [5, 0, 0, 1] 0) sample_service = None"
proof (rule reset_with_full_cache_undefined)
  show "get_repo (ss_repo (new_subsession 0x100)) sample_service = Some (fresh_repo\<lparr>rm_repo := new_repo\<lparr>cr_uid := 0x100, cr_entries := [sample_entry]\<rparr>,
       rm_reside_place := 2, rm_access_count := 1, rm_attached := [(1, 1)]\<rparr>)"
    by (simp add: get_repo_def sample_service_def sample_cenrep_def)
  show "map_of (cn_cacher (sv_cenrep sample_service)) (cr_uid (rm_repo (fresh_repo\<lparr>rm_repo := new_repo\<lparr>cr_uid := 0x100, cr_entries := [sample_entry]\<rparr>,
       rm_reside_place := 2, rm_access_count := 1, rm_attached := [(1, 1)]\<rparr>))) = None"
    by (simp add: sample_service_def sample_cenrep_def full_cacher_def upt_conv_Cons)
qed (simp_all add: sample_service_def sample_cenrep_def full_cacher_def max_repo_cache_entries_def get_argument_value_def arg_word_def
    find_entry_def sample_entry_def)

section \<open>Completing a request\<close>

text \<open>The client can be told: it gave no status to write, or one in its memory and a semaphore that can be signalled.\<close>

definition can_finish :: "ipc_context \<Rightarrow> service \<Rightarrow> bool" where
  "can_finish c s \<longleftrightarrow> request_sts (cx_msg c) = 0 \<or> (let k = w_kern (sv_world s) in
     \<exists>t. own_thr (cx_msg c) = Some t \<and> user_mem k (owner (thr k t)) (request_sts (cx_msg c)) \<noteq> None \<and> can_notify t k)"

definition client_status :: "ipc_context \<Rightarrow> service \<Rightarrow> int option" where
  "client_status c s = (let k = w_kern (sv_world s) in
     Option.bind (own_thr (cx_msg c)) (\<lambda>t. map_option status (user_mem k (owner (thr k t)) (request_sts (cx_msg c)))))"

lemma upd_kern_simps [simp]:
  "sv_cenrep (upd_kern f s) = sv_cenrep s" "sv_storage (upd_kern f s) = sv_storage s" "w_kern (sv_world (upd_kern f s)) = f (w_kern (sv_world s))"
  "w_mem (sv_world (upd_kern f s)) = w_mem (sv_world s)" "w_mapped (sv_world (upd_kern f s)) = w_mapped (sv_world s)"
  "w_eka1 (sv_world (upd_kern f s)) = w_eka1 (sv_world s)"
  by (simp_all add: upd_kern_def)

lemma upd_cenrep_simps [simp]:
  "sv_world (upd_cenrep f s) = sv_world s" "sv_storage (upd_cenrep f s) = sv_storage s" "sv_cenrep (upd_cenrep f s) = f (sv_cenrep s)"
  by (simp_all add: upd_cenrep_def)

lemma finish_ok:
  assumes "can_finish c s"
  shows "\<exists>c' k. finish err c s = Some (c', upd_kern (\<lambda>_. k) s) \<and> thr k = thr (w_kern (sv_world s))
    \<and> cx_msg c' = cx_msg c \<and> (request_sts (cx_msg c) \<noteq> 0 \<longrightarrow> client_status c (upd_kern (\<lambda>_. k) s) = Some err)"
proof (cases "request_sts (cx_msg c) = 0")
  case True
  then show ?thesis by (intro exI [of _ c] exI [of _ "w_kern (sv_world s)"]) (simp add: finish_def cx_complete_def upd_kern_def)
next
  case False
  let ?k = "w_kern (sv_world s)" and ?a = "request_sts (cx_msg c)"
  obtain t where t: "own_thr (cx_msg c) = Some t" "user_mem ?k (owner (thr ?k t)) ?a \<noteq> None" "can_notify t ?k"
    using assms False by (auto simp: can_finish_def Let_def)
  let ?p = "owner (thr ?k t)"
  let ?k1 = "status_written ?p ?a err ?k"
  note w = write_and_signal [OF t(2,3), of err]
  have s1: "thr ?k1 = thr ?k" "\<And>k. user_mem ?k1 ?p ?a = Some (assign_status err (the (user_mem ?k ?p ?a)))" by (simp_all add: status_written_def)
  have st: "status (assign_status err r) = err" for r by (simp add: assign_status_def)
  consider "cx_signaled c" | "\<not> cx_signaled c" "cx_accurate_timing c" | "\<not> cx_signaled c" "\<not> cx_accurate_timing c" by blast
  then show ?thesis
  proof cases
    case 1
    then show ?thesis using False t w s1 st
      by (intro exI [of _ c] exI [of _ ?k1]) (simp add: finish_def cx_complete_def upd_kern_def client_status_def)
  next
    case 2
    let ?k2 = "?k1\<lparr>timing := fst (schedule_event 200 (w_realtime_evt (sv_world s)) t (timing ?k1))\<rparr>"
    show ?thesis using 2 False t w s1 st
      by (intro exI [of _ "c\<lparr>cx_signaled := True\<rparr>"] exI [of _ ?k2]) (simp add: finish_def cx_complete_def upd_kern_def client_status_def)
  next
    case 3
    let ?k2 = "notified t ?k1"
    have "thr ?k2 = thr ?k" "user_mem ?k2 = user_mem ?k1" by (simp_all add: notified_def status_written_def)
    then show ?thesis using 3 False t w s1 st
      by (intro exI [of _ "c\<lparr>cx_signaled := True\<rparr>"] exI [of _ ?k2]) (simp add: finish_def cx_complete_def upd_kern_def client_status_def)
  qed
qed

section \<open>The entries of an open repository\<close>

text \<open>The session \<open>i\<close> has the subsession \<open>j\<close> on a repository that is loaded.\<close>

definition opened :: "u64 \<Rightarrow> u32 \<Rightarrow> subsession \<Rightarrow> central_repo \<Rightarrow> service \<Rightarrow> bool" where
  "opened i j ss r s \<longleftrightarrow> (\<exists>x. get_session i s = Some x \<and> map_of (se_subs x) j = Some ss) \<and> get_repo (ss_repo ss) s = Some r"

lemma opened_redirect:
  assumes "opened i j ss r s" and "get_argument_value 3 c = Some j" and "request_of c = Some q" and "q \<noteq> Cen_init" and "q \<noteq> Cen_close"
  shows "redirect_msg_to_session ev i c s = sub_handle_message ev i j ss c s"
  using assms by (cases q) (auto simp: opened_def redirect_msg_to_session_def session_handle_message_def)

lemma set_repo_simps [simp]:
  "get_repo key (set_repo key' r s) = (if key = key' then Some r else get_repo key s)" "get_session i (set_repo key r s) = get_session i s"
  "sv_world (set_repo key r s) = sv_world s" "sv_storage (set_repo key r s) = sv_storage s"
  by (simp_all add: set_repo_def get_repo_def get_session_def)

lemma upd_session_simps [simp]:
  "get_repo key (upd_session i f s) = get_repo key s"
  "get_session i' (upd_session i f s) = (if i' = i then map_option f (get_session i s) else get_session i' s)"
  "sv_world (upd_session i f s) = sv_world s" "sv_storage (upd_session i f s) = sv_storage s"
  by (simp_all add: upd_session_def get_repo_def get_session_def)

lemma set_sub_simps [simp]:
  "get_repo key (set_sub i j ss s) = get_repo key s"
  "get_session i' (set_sub i j ss s) = (if i' = i then map_option (\<lambda>x. x\<lparr>se_subs := AList.update j ss (se_subs x)\<rparr>) (get_session i s) else get_session i' s)"
  "sv_world (set_sub i j ss s) = sv_world s" "sv_storage (set_sub i j ss s) = sv_storage s"
  by (simp_all add: set_sub_def)

lemma upd_kern_parts [simp]: "get_repo key (upd_kern f s) = get_repo key s" "get_session i (upd_kern f s) = get_session i s"
  by (simp_all add: get_repo_def get_session_def)

lemma world_parts [simp]: "get_repo key (s\<lparr>sv_world := w\<rparr>) = get_repo key s" "get_session i (s\<lparr>sv_world := w\<rparr>) = get_session i s"
  by (simp_all add: get_repo_def get_session_def)

lemma can_finish_cong: "w_kern (sv_world s) = w_kern (sv_world s') \<Longrightarrow> can_finish c s = can_finish c s'"
  by (simp add: can_finish_def)

definition can_write :: "subsession \<Rightarrow> bool" where
  "can_write ss \<longleftrightarrow> \<not> is_active ss \<and> get_transaction_mode ss \<noteq> 0"

lemma get_entry_direct: "can_write ss \<Longrightarrow> get_entry key b ss r = (map_option In_repo (find_entry key r), ss)"
  by (auto simp: can_write_def get_entry_def)

lemma notify_nobody: "ss_notifies ss = [] \<Longrightarrow> notify_changed i j key ss s = Some (set_sub i j ss s)"
  by (cases ss) (simp add: notify_changed_def in_kernel_def upd_kern_def)

section \<open>Setting and getting a value\<close>

text \<open>The entry \<open>n\<close> of the repository is replaced.\<close>

definition with_entry :: "nat \<Rightarrow> cre_entry \<Rightarrow> central_repo \<Rightarrow> central_repo" where
  "with_entry n e r = r\<lparr>rm_repo := (rm_repo r)\<lparr>cr_entries := (cr_entries (rm_repo r))[n := e]\<rparr>\<rparr>"

lemma set_int_request:
  assumes o: "opened i j ss r s" and req: "request_of c = Some Cen_set_int"
    and args: "get_argument_value 3 c = Some j" "get_argument_value 0 c = Some key" "get_argument_value 1 c = Some (v :: u32)"
    and ss: "can_write ss" "ss_notifies ss = []"
    and e: "find_entry key (rm_repo r) = Some n" "ce_type (cr_entries (rm_repo r) ! n) = Cre_integer"
    and fin: "can_finish c s"
  defines "e' \<equiv> (cr_entries (rm_repo r) ! n)\<lparr>ce_int := ucast v\<rparr>"
  shows "\<exists>c' s'. redirect_msg_to_session ev i c s = Some (c', s') \<and> opened i j ss (with_entry n e' r) s'
    \<and> (request_sts (cx_msg c) \<noteq> 0 \<longrightarrow> client_status c s' = Some 0) \<and> thr (w_kern (sv_world s')) = thr (w_kern (sv_world s))
    \<and> w_mem (sv_world s') = w_mem (sv_world s) \<and> w_mapped (sv_world s') = w_mapped (sv_world s) \<and> sv_storage s' = sv_storage s"
proof -
  have rd: "redirect_msg_to_session ev i c s = handle_set_value ev Cen_set_int i j ss c s"
    using opened_redirect [OF o args(1) req] req by (simp add: sub_handle_message_def)
  have rp: "get_repo (ss_repo ss) s = Some r" using o by (simp add: opened_def)
  let ?s1 = "set_sub i j ss (set_repo (ss_repo ss) (with_entry n e' r) s)"
  have nv: "new_value ev Cen_set_int (cr_entries (rm_repo r) ! n) c s = Some (Some e')"
    using e args(3) by (simp add: new_value_def e'_def)
  have h: "handle_set_value ev Cen_set_int i j ss c s = finish 0 c ?s1"
    using args(2) rp e(1) get_entry_direct [OF ss(1)] nv notify_nobody [OF ss(2)]
    by (simp add: handle_set_value_def entry_at_def set_entry_at_def with_entry_def)
  have "can_finish c ?s1" using fin by (simp add: can_finish_def)
  from finish_ok [OF this, of 0] obtain c' k where f: "finish 0 c ?s1 = Some (c', upd_kern (\<lambda>_. k) ?s1)" "thr k = thr (w_kern (sv_world s))"
      "request_sts (cx_msg c) \<noteq> 0 \<longrightarrow> client_status c (upd_kern (\<lambda>_. k) ?s1) = Some 0" by auto
  have "opened i j ss (with_entry n e' r) (upd_kern (\<lambda>_. k) ?s1)" using o by (auto simp: opened_def update_conv')
  then show ?thesis using f rd h
    by (intro exI [of _ c'] exI [of _ "upd_kern (\<lambda>_. k) ?s1"]) simp
qed

lemma get_argument_string_cong:
  assumes "w_mem w = w_mem w'" and "w_mapped w = w_mapped w'" and "w_eka1 w = w_eka1 w'" and "thr (w_kern w) = thr (w_kern w')"
  shows "get_argument_string n idx c w = get_argument_string n idx c w'"
  using assms by (simp only: get_argument_string_def own_process_def descriptor_of_def)

text \<open>A descriptor of 8-bit characters with place for four bytes.\<close>

definition int_buffer :: "nat \<Rightarrow> ipc_context \<Rightarrow> world \<Rightarrow> bool" where
  "int_buffer idx c w \<longleftrightarrow> idx < 4 \<and> flag_des idx c \<and> \<not> flag_16b idx c \<and>
     (\<exists>p q ws. own_process c w = Some p \<and> w_mapped w p (arg_word idx c) \<and> des_wf (w_mapped w p) 1 (w_mem w p) (arg_word idx c) (q, ws)
       \<and> 4 \<le> unat (get_max_length (w_mem w p) (arg_word idx c)))"

lemma get_int_request:
  assumes o: "opened i j ss r s" and req: "request_of c = Some Cen_get_int"
    and args: "get_argument_value 3 c = Some j" "get_argument_value 0 c = Some key" and buf: "int_buffer 1 c (sv_world s)"
    and ss: "can_write ss"
    and e: "find_entry key (rm_repo r) = Some n" "ce_type (cr_entries (rm_repo r) ! n) = Cre_integer"
    and fin: "can_finish c s"
  shows "\<exists>c' s'. redirect_msg_to_session ev i c s = Some (c', s')
    \<and> get_argument_string 1 1 c (sv_world s') = Some (Some (word_bytes (ucast (ce_int (cr_entries (rm_repo r) ! n)) :: u32)))
    \<and> (request_sts (cx_msg c) \<noteq> 0 \<longrightarrow> client_status c s' = Some 0)"
proof -
  let ?bs = "word_bytes (ucast (ce_int (cr_entries (rm_repo r) ! n)) :: u32)"
  have rd: "redirect_msg_to_session ev i c s = handle_get_value ev Cen_get_int ss c s"
    using opened_redirect [OF o args(1) req] req by (simp add: sub_handle_message_def)
  obtain p q ws where p: "own_process c (sv_world s) = Some p" "w_mapped (sv_world s) p (arg_word 1 c)"
      "des_wf (w_mapped (sv_world s) p) 1 (w_mem (sv_world s) p) (arg_word 1 c) (q, ws)" "4 \<le> unat (get_max_length (w_mem (sv_world s) p) (arg_word 1 c))"
    using buf by (auto simp: int_buffer_def)
  obtain m where m: "write_data_to_descriptor_argument 1 ?bs False c (sv_world s) = Some (True, 0, set_mem p m (sv_world s))"
      "get_argument_string 1 1 c (set_mem p m (sv_world s)) = Some (Some ?bs)"
    using argument_write_read [OF _ p(1) _ _ p(2,3), of ?bs False] buf p(4) by (auto simp: int_buffer_def)
  let ?s1 = "s\<lparr>sv_world := set_mem p m (sv_world s)\<rparr>"
  have h: "handle_get_value ev Cen_get_int ss c s = finish 0 c ?s1"
    using args(2) o e get_entry_direct [OF ss] m(1) by (simp add: handle_get_value_def opened_def entry_at_def value_of_def reply_data_def)
  have "can_finish c ?s1" using fin by (simp add: can_finish_def)
  from finish_ok [OF this, of 0] obtain c' k where f: "finish 0 c ?s1 = Some (c', upd_kern (\<lambda>_. k) ?s1)" "thr k = thr (w_kern (sv_world s))"
      "request_sts (cx_msg c) \<noteq> 0 \<longrightarrow> client_status c (upd_kern (\<lambda>_. k) ?s1) = Some 0" by auto
  have "get_argument_string 1 1 c (sv_world (upd_kern (\<lambda>_. k) ?s1)) = get_argument_string 1 1 c (set_mem p m (sv_world s))"
    using f(2) by (intro get_argument_string_cong) simp_all
  then show ?thesis using f rd h m(2) by (intro exI [of _ c'] exI [of _ "upd_kern (\<lambda>_. k) ?s1"]) simp
qed

lemma find_entry_with_entry:
  assumes "find_entry key (rm_repo r) = Some n" and "ce_key e = ce_key (cr_entries (rm_repo r) ! n)"
  shows "find_entry key (rm_repo (with_entry n e r)) = Some n" "cr_entries (rm_repo (with_entry n e r)) ! n = e"
  using assms by (auto simp: find_entry_def with_entry_def find_index_Some_iff nth_list_update)

text \<open>C14. Setting an integer in an opened repository (no transaction, nobody to be notified) completes with success and changes
  only that entry; whoever asks for it afterwards through the same subsession, with a buffer of four bytes, gets the number.\<close>

theorem set_then_get_int:
  assumes "opened i j ss r s" and "request_of c = Some Cen_set_int"
    and "get_argument_value 3 c = Some j" and "get_argument_value 0 c = Some key" and "get_argument_value 1 c = Some v"
    and "can_write ss" and "ss_notifies ss = []"
    and "find_entry key (rm_repo r) = Some n" and "ce_type (cr_entries (rm_repo r) ! n) = Cre_integer" and "can_finish c s"
  shows "\<exists>c' s'. redirect_msg_to_session ev i c s = Some (c', s')
    \<and> opened i j ss (with_entry n ((cr_entries (rm_repo r) ! n)\<lparr>ce_int := ucast v\<rparr>) r) s'
    \<and> (request_sts (cx_msg c) \<noteq> 0 \<longrightarrow> client_status c s' = Some 0)
    \<and> thr (w_kern (sv_world s')) = thr (w_kern (sv_world s)) \<and> w_mem (sv_world s') = w_mem (sv_world s) \<and> w_mapped (sv_world s') = w_mapped (sv_world s)
    \<and> (\<forall>d. request_of d = Some Cen_get_int \<longrightarrow> get_argument_value 3 d = Some j \<longrightarrow> get_argument_value 0 d = Some key
        \<longrightarrow> int_buffer 1 d (sv_world s') \<longrightarrow> can_finish d s' \<longrightarrow>
        (\<exists>d' s''. redirect_msg_to_session ev i d s' = Some (d', s'') \<and> get_argument_string 1 1 d (sv_world s'') = Some (Some (word_bytes (v :: u32)))))"
proof -
  let ?e = "(cr_entries (rm_repo r) ! n)\<lparr>ce_int := ucast v\<rparr>"
  obtain c' s' where 1: "redirect_msg_to_session ev i c s = Some (c', s')" "opened i j ss (with_entry n ?e r) s'"
      "request_sts (cx_msg c) \<noteq> 0 \<longrightarrow> client_status c s' = Some 0"
      "thr (w_kern (sv_world s')) = thr (w_kern (sv_world s))" "w_mem (sv_world s') = w_mem (sv_world s)" "w_mapped (sv_world s') = w_mapped (sv_world s)"
    using set_int_request [OF assms] by blast
  note fe = find_entry_with_entry [OF assms(8), of ?e]
  have "\<exists>d' s''. redirect_msg_to_session ev i d s' = Some (d', s'') \<and> get_argument_string 1 1 d (sv_world s'') = Some (Some (word_bytes v))"
    if "request_of d = Some Cen_get_int" "get_argument_value 3 d = Some j" "get_argument_value 0 d = Some key"
      "int_buffer 1 d (sv_world s')" "can_finish d s'" for d
  proof -
    have u: "ucast (ucast v :: u64) = v" by (rule bit_word_eqI) (simp add: bit_simps)
    show ?thesis
      using get_int_request [OF 1(2) that(1-4) assms(6) fe(1)] fe(2) assms(9) that(5) u by fastforce
  qed
  then show ?thesis using 1 by blast
qed

definition sample_loaded :: central_repo where
  "sample_loaded = fresh_repo\<lparr>rm_repo := new_repo\<lparr>cr_uid := 0x100, cr_entries := [sample_entry]\<rparr>,
       rm_reside_place := 2, rm_access_count := 1, rm_attached := [(1, 1)]\<rparr>"

lemma sample_opened: "opened 1 1 (new_subsession 0x100) sample_loaded sample_service"
  by (simp add: opened_def get_session_def get_repo_def sample_service_def sample_cenrep_def sample_loaded_def)

lemma can_write_new: "can_write (new_subsession key)"
  by (simp add: can_write_def)

lemma sample_can_finish: "can_finish (sample_request f xs fl) sample_service"
  by (simp add: can_finish_def sample_service_def sample_world_def can_notify_def)

lemma sample_found: "find_entry 5 (rm_repo sample_loaded) = Some 0" "cr_entries (rm_repo sample_loaded) ! 0 = sample_entry"
  by (simp_all add: find_entry_def sample_loaded_def sample_entry_def)

text \<open>A request without a status, whose second argument is the descriptor at 0x1000.\<close>

definition sample_reader :: ipc_context where
  "sample_reader = (sample_request 5 [5, 0x1000, 0, 1] 32)\<lparr>cx_msg := (cx_msg (sample_request 5 [5, 0x1000, 0, 1] 32))\<lparr>request_sts := 0\<rparr>\<rparr>"

lemma sample_reader_simps [simp]:
  "msg_function (cx_msg sample_reader) = 5" "args (msg_args (cx_msg sample_reader)) = [5, 0x1000, 0, 1]"
  "ipc_arg.flag (msg_args (cx_msg sample_reader)) = 32" "own_thr (cx_msg sample_reader) = Some 1" "request_sts (cx_msg sample_reader) = 0"
  by (simp_all add: sample_reader_def)

lemma sample_buffer:
  assumes "thr (w_kern w) = thr (w_kern sample_world)" and "w_mem w = w_mem sample_world" and "w_mapped w = w_mapped sample_world"
  shows "int_buffer 1 sample_reader w"
proof -
  have l: "load32 sample_mem 0x1004 = 4" "load32 sample_mem 0x1000 = 0x30000000"
    by (simp_all add: sample_mem_def load32_store32_other region_4)
  then have d: "get_descriptor_type sample_mem 0x1000 = Des_buf" by (simp add: get_descriptor_type_def)
  have "own_process sample_reader w = Some 0" using assms(1) by (simp add: own_process_def sample_world_def)
  moreover have "des_wf (w_mapped sample_world 0) 1 (w_mem sample_world 0) 0x1000 (0x1008, region 0x1000 8)"
    using sample_mem_wf d by (simp add: sample_world_def des_wf_def des_layout_def)
  moreover have "get_max_length (w_mem sample_world 0) 0x1000 = 4" using l d by (simp add: sample_world_def get_max_length_def)
  ultimately show ?thesis using assms(2,3)
    by (auto simp: int_buffer_def arg_bit_def arg_word_def sample_world_def intro!: exI [of _ "0x1008"] exI [of _ "region 0x1000 8"])
qed

theorem set_then_get_int_witness:
  "\<exists>c' s' d' s''. redirect_msg_to_session sample_env 1 (sample_request 6 [5, 77, 0, 1] 0) sample_service = Some (c', s')
    \<and> opened 1 1 (new_subsession 0x100) (with_entry 0 (sample_entry\<lparr>ce_int := 77\<rparr>) sample_loaded) s'
    \<and> redirect_msg_to_session sample_env 1 sample_reader s' = Some (d', s'')
    \<and> get_argument_string 1 1 sample_reader (sv_world s'') = Some (Some [77, 0, 0, 0])"
proof -
  let ?c = "sample_request 6 [5, 77, 0, 1] 0"
  obtain c' s' where 1: "redirect_msg_to_session sample_env 1 ?c sample_service = Some (c', s')"
      "opened 1 1 (new_subsession 0x100) (with_entry 0 ((cr_entries (rm_repo sample_loaded) ! 0)\<lparr>ce_int := ucast (77 :: u32)\<rparr>) sample_loaded) s'"
      "thr (w_kern (sv_world s')) = thr (w_kern (sv_world sample_service))" "w_mem (sv_world s') = w_mem (sv_world sample_service)"
      "w_mapped (sv_world s') = w_mapped (sv_world sample_service)"
    and 2: "\<forall>d. request_of d = Some Cen_get_int \<longrightarrow> get_argument_value 3 d = Some (1 :: u32) \<longrightarrow> get_argument_value 0 d = Some (5 :: u32)
        \<longrightarrow> int_buffer 1 d (sv_world s') \<longrightarrow> can_finish d s' \<longrightarrow>
        (\<exists>d' s''. redirect_msg_to_session sample_env 1 d s' = Some (d', s'') \<and> get_argument_string 1 1 d (sv_world s'') = Some (Some (word_bytes (77 :: u32))))"
    using set_then_get_int [OF sample_opened, of ?c 5 77 0 sample_env]
    by (auto simp: request_of_def cen_requests_def get_argument_value_def arg_word_def can_write_new sample_found sample_can_finish sample_entry_def)
  have "int_buffer 1 sample_reader (sv_world s')" using 1(3-5) by (intro sample_buffer) (simp_all add: sample_service_def)
  then obtain d' s'' where "redirect_msg_to_session sample_env 1 sample_reader s' = Some (d', s'')"
      "get_argument_string 1 1 sample_reader (sv_world s'') = Some (Some (word_bytes (77 :: u32)))"
    using 2 [rule_format, of sample_reader] by (auto simp: request_of_def cen_requests_def get_argument_value_def arg_word_def can_finish_def)
  moreover have "word_bytes (77 :: u32) = [77, 0, 0, 0]" by (simp add: word_bytes_def upt_conv_Cons)
  ultimately show ?thesis using 1(1,2) by (auto simp: sample_found)
qed

section \<open>Errors\<close>

text \<open>C39. Asking for an integer that is not there completes with -1, and for an entry of another type with -6; the repositories, the
  sessions and the memory of the client stay as they were.\<close>

theorem get_int_errors:
  assumes "opened i j ss r s" and "request_of c = Some Cen_get_int" and "get_argument_value 3 c = Some j" and "get_argument_value 0 c = Some key"
    and "can_write ss" and "can_finish c s" and "request_sts (cx_msg c) \<noteq> 0"
    and "find_entry key (rm_repo r) = None \<or> (\<exists>n. find_entry key (rm_repo r) = Some n \<and> ce_type (cr_entries (rm_repo r) ! n) \<noteq> Cre_integer)"
  shows "\<exists>c' s'. redirect_msg_to_session ev i c s = Some (c', s') \<and> sv_cenrep s' = sv_cenrep s \<and> w_mem (sv_world s') = w_mem (sv_world s)
    \<and> client_status c s' = Some (if find_entry key (rm_repo r) = None then -1 else -6)"
proof -
  let ?err = "if find_entry key (rm_repo r) = None then -1 else -6 :: int"
  have "redirect_msg_to_session ev i c s = handle_get_value ev Cen_get_int ss c s"
    using opened_redirect [OF assms(1,3,2)] assms(2) by (simp add: sub_handle_message_def)
  also have "\<dots> = finish ?err c s"
    using assms(1,4,8) get_entry_direct [OF assms(5)] by (auto simp: handle_get_value_def opened_def entry_at_def value_of_def)
  finally show ?thesis using finish_ok [OF assms(6), of ?err] assms(7) by auto
qed

theorem get_int_errors_witness:
  "\<exists>c' s'. redirect_msg_to_session sample_env 1 (sample_request 5 [6, 0, 0, 1] 0) sample_service = Some (c', s') \<and> sv_cenrep s' = sv_cenrep sample_service
    \<and> w_mem (sv_world s') = w_mem (sv_world sample_service)
    \<and> client_status (sample_request 5 [6, 0, 0, 1] 0) s' = Some (if find_entry 6 (rm_repo sample_loaded) = None then -1 else -6)"
  by (rule get_int_errors [OF sample_opened])
    (simp_all add: request_of_def cen_requests_def get_argument_value_def arg_word_def can_write_new sample_can_finish find_entry_def sample_loaded_def sample_entry_def)

text \<open>Setting an integer where the entry has another type changes no entry, but tells the client that it succeeded: the error is
  overwritten by the success that is reported in any case.\<close>

theorem set_wrong_type_reports_success:
  assumes "opened i j ss r s" and "request_of c = Some Cen_set_int" and "get_argument_value 3 c = Some j" and "get_argument_value 0 c = Some key"
    and "can_write ss" and "ss_notifies ss = []" and "request_sts (cx_msg c) \<noteq> 0" and "own_thr (cx_msg c) = Some t" and "\<not> cx_signaled c" and "\<not> cx_accurate_timing c"
    and "user_mem (w_kern (sv_world s)) (owner (thr (w_kern (sv_world s)) t)) (request_sts (cx_msg c)) \<noteq> None" and "can_notify t (w_kern (sv_world s))"
    and "find_entry key (rm_repo r) = Some n" and "ce_type (cr_entries (rm_repo r) ! n) \<noteq> Cre_integer"
  shows "\<exists>c' s'. redirect_msg_to_session ev i c s = Some (c', s') \<and> opened i j ss r s' \<and> client_status c s' = Some 0"
proof -
  have "redirect_msg_to_session ev i c s = handle_set_value ev Cen_set_int i j ss c s"
    using opened_redirect [OF assms(1,3,2)] assms(2) by (simp add: sub_handle_message_def)
  moreover obtain c1 w1 w2 where w: "cx_complete (-6) c (sv_world s) = Some (c1, w1)" "cx_complete 0 c1 w1 = Some (c1, w2)"
      "map_option status (user_mem (w_kern w2) (owner (thr (w_kern (sv_world s)) t)) (request_sts (cx_msg c))) = Some 0"
      "thr (w_kern w2) = thr (w_kern (sv_world s))"
    using completed_twice [OF assms(8) refl assms(7,9,10,11,12), of "-6" 0] by blast
  let ?s1 = "s\<lparr>sv_world := w1\<rparr>" and ?s2 = "set_sub i j ss (set_repo (ss_repo ss) r (s\<lparr>sv_world := w2\<rparr>))"
  have "handle_set_value ev Cen_set_int i j ss c s = Some (c1, ?s2)"
    using assms(1,4,13,14) get_entry_direct [OF assms(5)] w notify_nobody [OF assms(6)]
    by (simp add: handle_set_value_def opened_def entry_at_def new_value_def finish_def set_sub_def upd_session_def upd_cenrep_def set_repo_def)
  moreover have "opened i j ss r ?s2" using assms(1) by (auto simp: opened_def update_conv')
  moreover have "client_status c ?s2 = Some 0" using w(3,4) assms(8) by (simp add: client_status_def)
  ultimately show ?thesis by simp
qed

theorem set_wrong_type_reports_success_witness:
  "\<exists>c' s'. redirect_msg_to_session sample_env 1 (sample_request 6 [7, 77, 0, 1] 0)
      (set_repo 0x100 (with_entry 0 (sample_entry\<lparr>ce_key := 7, ce_type := Cre_string\<rparr>) sample_loaded) sample_service) = Some (c', s')
    \<and> opened 1 1 (new_subsession 0x100) (with_entry 0 (sample_entry\<lparr>ce_key := 7, ce_type := Cre_string\<rparr>) sample_loaded) s'
    \<and> client_status (sample_request 6 [7, 77, 0, 1] 0) s' = Some 0"
proof (rule set_wrong_type_reports_success [where t = 1 and n = 0 and key = 7])
  show "opened 1 1 (new_subsession 0x100) (with_entry 0 (sample_entry\<lparr>ce_key := 7, ce_type := Cre_string\<rparr>) sample_loaded)
      (set_repo 0x100 (with_entry 0 (sample_entry\<lparr>ce_key := 7, ce_type := Cre_string\<rparr>) sample_loaded) sample_service)"
    using sample_opened by (auto simp: opened_def)
qed (simp_all add: request_of_def cen_requests_def get_argument_value_def arg_word_def can_write_new sample_service_def sample_world_def can_notify_def
    find_entry_def with_entry_def sample_loaded_def sample_entry_def set_repo_def)

section \<open>Closing and opening again\<close>

lemma lowercase_append [simp]: "lowercase (xs @ ys) = lowercase xs @ lowercase ys" "lowercase (x # xs) = lower_char x # lowercase xs" "lowercase [] = []"
  by (simp_all add: lowercase_def)

lemma lower_literals:
  "lower_char CHR ''B'' = CHR ''b''" "lower_char CHR ''E'' = CHR ''e''" "lower_char CHR ''C'' = CHR ''c''" "lower_char CHR ''R'' = CHR ''r''"
  "lower_char CHR ''b'' = CHR ''b''" "lower_char CHR ''e'' = CHR ''e''" "lower_char CHR ''c'' = CHR ''c''" "lower_char CHR ''r'' = CHR ''r''"
  by code_simp+

lemma lowercase_dir_path: "lowercase (dir_path ps) = dir_path (map lowercase ps)"
proof -
  have "lowercase (concat (map (\<lambda>p. p @ [CHR 0x5C]) ps)) = concat (map (\<lambda>p. p @ [CHR 0x5C]) (map lowercase ps))"
    by (induction ps) (simp_all add: lower_char_def)
  then show ?thesis by (simp add: dir_path_def lower_char_def)
qed

lemma cre_path_found:
  "lowercase (cre_path r st) = lowercase (persists_folder (rm_reside_place r) st @ hex_string (unat (cr_uid (rm_repo r))) @ ''.CRE'')"
  by (simp only: cre_path_def persists_folder_def append_Cons lowercase_append lowercase_dir_path list.map lower_literals)

lemma repo_bytes_not_empty: "repo_bytes narrow r \<noteq> []"
proof -
  have "length (repo_bytes narrow r) \<ge> 4" by (simp add: repo_bytes_def repo_head_def)
  then show ?thesis by auto
qed

lemma write_changes_ok:
  assumes "get_repo key s = Some r" and "repo_ok (ev_narrow ev) (ev_widen ev) (rm_repo r)" and "\<not> st_locked (sv_storage s) (lowercase (cre_path r (sv_storage s)))"
  shows "\<exists>s'. write_changes ev key s = Some s' \<and> get_repo key s' = Some (r\<lparr>rm_repo := repo_wipe (rm_repo r)\<rparr>)
    \<and> sv_storage s' = io_write (cre_path r (sv_storage s)) (repo_bytes (ev_narrow ev) (rm_repo r)) (sv_storage s)
    \<and> sv_world s' = sv_world s \<and> (\<forall>i. get_session i s' = get_session i s)"
proof -
  have "cre_path (r\<lparr>rm_repo := repo_wipe (rm_repo r)\<rparr>) st = cre_path r st" for st by (simp add: cre_path_def repo_wipe_def)
  then show ?thesis using assms cre_saves [OF assms(2)]
    by (simp add: write_changes_def set_repo_def get_repo_def get_session_def)
qed

text \<open>The drives in the order in which a repository is looked for.\<close>

definition scanned :: "service \<Rightarrow> cenrep" where
  "scanned s = (let c = (sv_cenrep s)\<lparr>cn_first := False\<rparr> in if cn_first (sv_cenrep s) then rescan_drives (sv_storage s) c else c)"

lemma load_from_first_drive:
  assumes "io_exist (persists_folder d st) st" and "d \<noteq> rom" and "io_read (persists_folder d st @ hex_string (unat key) @ ''.CRE'') st = Some (repo_bytes (ev_narrow ev) x)"
    and "repo_ok (ev_narrow ev) (ev_widen ev) x"
  shows "load_from_drives ev is_first rom f key (d # ds) fresh_repo st
    = Some (0, fresh_repo\<lparr>rm_repo := stored x, rm_reside_place := f, rm_access_count := 1\<rparr>, st)"
proof -
  have "io_exist (persists_folder d st @ hex_string (unat key) @ ''.CRE'') st" using assms(3) by (auto simp: io_read_def io_exist_def split: if_splits)
  then show ?thesis
    using assms cre_loads [OF assms(4) policies_fit_new] repo_bytes_not_empty
    by (simp add: Let_def fresh_repo_def repo_into_new)
qed

text \<open>C16. Closing a subsession writes its repository to the file from which, after a restart of the server too, it is loaded again,
  with what the format stores of it (\<open>stored\<close>), if the repository is of the bounds of the format, its file can be
  written, and the drive it was written to is the first that is searched.\<close>

theorem closed_repository_reopens:
  assumes "opened i j ss r s" and "request_of c = Some Cen_close" and "get_argument_value 3 c = Some j" and "can_finish c s"
    and "repo_ok (ev_narrow ev) (ev_widen ev) (rm_repo r)" and "cr_uid (rm_repo r) = ss_repo ss"
    and "\<not> st_locked (sv_storage s) (lowercase (cre_path r (sv_storage s)))"
  shows "\<exists>c' s'. redirect_msg_to_session ev i c s = Some (c', s') \<and> (request_sts (cx_msg c) \<noteq> 0 \<longrightarrow> client_status c s' = Some 0)
    \<and> st_firmware (sv_storage s') = st_firmware (sv_storage s) \<and> st_dirs (sv_storage s') = st_dirs (sv_storage s)
    \<and> (\<forall>s2 ds. sv_storage s2 = sv_storage s' \<longrightarrow> get_repo (ss_repo ss) s2 = None
        \<longrightarrow> io_exist (persists_folder (rm_reside_place r) (sv_storage s2)) (sv_storage s2)
        \<longrightarrow> cn_avail (scanned s2) = rm_reside_place r # ds \<longrightarrow> cn_rom_drv (scanned s2) \<noteq> rm_reside_place r
        \<longrightarrow> (\<exists>s3 r3. load_repo_with_lookup ev (ss_repo ss) s2 = Some (True, s3) \<and> get_repo (ss_repo ss) s3 = Some r3 \<and> rm_repo r3 = stored (rm_repo r)))"
proof -
  let ?key = "ss_repo ss" and ?bs = "repo_bytes (ev_narrow ev) (rm_repo r)"
  obtain x where x: "get_session i s = Some x" "map_of (se_subs x) j = Some ss" and rp: "get_repo ?key s = Some r" using assms(1) by (auto simp: opened_def)
  obtain s1 where w: "write_changes ev ?key s = Some s1" "get_repo ?key s1 = Some (r\<lparr>rm_repo := repo_wipe (rm_repo r)\<rparr>)"
      "sv_storage s1 = io_write (cre_path r (sv_storage s)) ?bs (sv_storage s)" "sv_world s1 = sv_world s" "get_session i s1 = get_session i s"
    using write_changes_ok [OF rp assms(5,7)] by blast
  obtain s2 where cl: "closerep ev i 0 j s = Some (0, s2)" "sv_storage s2 = sv_storage s1" "sv_world s2 = sv_world s"
    using x rp w by (auto simp: closerep_def Let_def)
  have "can_finish c s2" using assms(4) cl(3) by (simp add: can_finish_def)
  from finish_ok [OF this, of 0] obtain c' k where f: "finish 0 c s2 = Some (c', upd_kern (\<lambda>_. k) s2)"
      "request_sts (cx_msg c) \<noteq> 0 \<longrightarrow> client_status c (upd_kern (\<lambda>_. k) s2) = Some 0" by blast
  let ?s' = "upd_kern (\<lambda>_. k) s2"
  have rd: "redirect_msg_to_session ev i c s = Some (c', ?s')"
    using x assms(2,3) cl(1) f by (simp add: redirect_msg_to_session_def session_handle_message_def session_close_def)
  have "\<exists>s3 r3. load_repo_with_lookup ev ?key t = Some (True, s3) \<and> get_repo ?key s3 = Some r3 \<and> rm_repo r3 = stored (rm_repo r)"
    if t: "sv_storage t = sv_storage ?s'" "get_repo ?key t = None" "io_exist (persists_folder (rm_reside_place r) (sv_storage t)) (sv_storage t)"
      "cn_avail (scanned t) = rm_reside_place r # ds" "cn_rom_drv (scanned t) \<noteq> rm_reside_place r" for t ds
  proof -
    have st: "sv_storage t = io_write (cre_path r (sv_storage s)) ?bs (sv_storage s)" using t(1) cl(2) w(3) by simp
    then have "io_read (persists_folder (rm_reside_place r) (sv_storage t) @ hex_string (unat ?key) @ ''.CRE'') (sv_storage t) = Some ?bs"
      using assms(6,7) cre_path_found [of r "sv_storage s"] by (simp add: io_read_def io_write_def persists_folder_def)
    note ld = load_from_first_drive [OF t(3) not_sym [OF t(5)] this assms(5)]
    have "load_repo_adv ev ?key False t = Some (0, fresh_repo\<lparr>rm_repo := stored (rm_repo r), rm_reside_place := rm_reside_place r, rm_access_count := 1\<rparr>, t\<lparr>sv_cenrep := scanned t\<rparr>)"
      using t(4) ld by (simp add: load_repo_adv_def scanned_def Let_def)
    then show ?thesis using t(2) by (simp add: load_repo_with_lookup_def)
  qed
  moreover have "st_firmware (sv_storage ?s') = st_firmware (sv_storage s)" "st_dirs (sv_storage ?s') = st_dirs (sv_storage s)"
    using cl(2) w(3) by (simp_all add: io_write_def)
  ultimately show ?thesis using rd f(2) by blast
qed

definition restarted :: "service \<Rightarrow> service" where
  "restarted s = s\<lparr>sv_cenrep := \<lparr>cn_repos = (\<lambda>_. None), cn_sessions = (\<lambda>_. None), cn_cacher = [], cn_rom_drv = 25, cn_avail = [2], cn_first = False\<rparr>\<rparr>"

theorem closed_repository_reopens_witness:
  "\<exists>c' s' s3 r3. redirect_msg_to_session sample_env 1 (sample_request 35 [0, 0, 0, 1] 0) sample_service = Some (c', s')
    \<and> load_repo_with_lookup sample_env 0x100 (restarted s') = Some (True, s3) \<and> get_repo 0x100 s3 = Some r3 \<and> rm_repo r3 = stored (rm_repo sample_loaded)"
proof -
  let ?c = "sample_request 35 [0, 0, 0, 1] 0"
  have ok: "repo_ok (ev_narrow sample_env) (ev_widen sample_env) (rm_repo sample_loaded)"
    by (simp add: sample_loaded_def sample_entry_def repo_ok_def repo_policies_ok_def repo_metas_ok_def repo_values_ok_def policies_ok_def policy_ok_def
        entry_ok_def new_repo_def new_policy_def new_entry_def)
  have q: "request_of ?c = Some Cen_close" "get_argument_value 3 ?c = Some (1 :: u32)"
    by (simp_all add: request_of_def cen_requests_def get_argument_value_def arg_word_def)
  have f: "st_dirs (sv_storage sample_service) = (\<lambda>_. True)" "st_locked (sv_storage sample_service) = (\<lambda>_. False)"
    "cr_uid (rm_repo sample_loaded) = 0x100" "rm_reside_place sample_loaded = 2"
    by (simp_all add: sample_service_def sample_storage_def sample_loaded_def)
  obtain c' s' where 1: "redirect_msg_to_session sample_env 1 ?c sample_service = Some (c', s')" "st_dirs (sv_storage s') = (\<lambda>_. True)"
    and 2: "\<forall>s2 ds. sv_storage s2 = sv_storage s' \<longrightarrow> get_repo 0x100 s2 = None
        \<longrightarrow> io_exist (persists_folder 2 (sv_storage s2)) (sv_storage s2)
        \<longrightarrow> cn_avail (scanned s2) = 2 # ds \<longrightarrow> cn_rom_drv (scanned s2) \<noteq> 2
        \<longrightarrow> (\<exists>s3 r3. load_repo_with_lookup sample_env 0x100 s2 = Some (True, s3) \<and> get_repo 0x100 s3 = Some r3 \<and> rm_repo r3 = stored (rm_repo sample_loaded))"
    using closed_repository_reopens [OF sample_opened q sample_can_finish ok] f by auto
  have "\<exists>s3 r3. load_repo_with_lookup sample_env 0x100 (restarted s') = Some (True, s3) \<and> get_repo 0x100 s3 = Some r3 \<and> rm_repo r3 = stored (rm_repo sample_loaded)"
    by (rule 2 [rule_format]) (simp_all add: restarted_def get_repo_def scanned_def io_exist_def 1(2))
  then show ?thesis using 1(1) by blast
qed

section \<open>The initial repository\<close>

text \<open>C40. The first time the initial repository of a key is asked for, with none of that key in the cache and the cache not
  full, \<open>get_initial_repo\<close> returns the one last saved and not the original, although it asks for the original only: when the first
  drive that is searched is not the ROM drive and its folder holds the file written for a repository within the bounds of the format,
  that repository, with what the format stores of it (\<open>stored\<close>), is what it returns. (Later calls return the copy then cached, and with a full cache nothing is returned.)\<close>

theorem initial_repository_is_the_saved_one:
  assumes "map_of (cn_cacher (sv_cenrep s)) key = None" and "length (cn_cacher (sv_cenrep s)) < max_repo_cache_entries"
    and "cn_avail (scanned s) = d # ds" and "cn_rom_drv (scanned s) \<noteq> d"
    and "io_exist (persists_folder d (sv_storage s)) (sv_storage s)"
    and "io_read (persists_folder d (sv_storage s) @ hex_string (unat key) @ ''.CRE'') (sv_storage s) = Some (repo_bytes (ev_narrow ev) x)"
    and "repo_ok (ev_narrow ev) (ev_widen ev) x"
  shows "\<exists>r s'. get_initial_repo ev key s = Some (Some r, s') \<and> rm_repo r = stored x"
proof -
  have c: "cn_cacher (scanned s) = cn_cacher (sv_cenrep s)" by (simp add: scanned_def Let_def)
  have "load_repo_adv ev key True s = Some (0, fresh_repo\<lparr>rm_repo := stored x, rm_reside_place := d, rm_access_count := 1\<rparr>, s\<lparr>sv_cenrep := scanned s\<rparr>)"
    using assms(3) load_from_first_drive [OF assms(5) not_sym [OF assms(4)] assms(6,7)] by (simp add: load_repo_adv_def scanned_def Let_def)
  then show ?thesis using assms(1,2) c by (simp add: get_initial_repo_def get_cached_repo_def add_repo_def Let_def)
qed

definition sample_saved :: service where
  "sample_saved = (restarted sample_service)\<lparr>sv_storage := sample_storage\<lparr>st_files := [lowercase (persists_folder 2 sample_storage @ hex_string 0x100 @ ''.CRE'')
     \<mapsto> repo_bytes ucast (rm_repo sample_loaded)]\<rparr>\<rparr>"

theorem initial_repository_is_the_saved_one_witness:
  "\<exists>r s'. get_initial_repo sample_env 0x100 sample_saved = Some (Some r, s') \<and> rm_repo r = stored (rm_repo sample_loaded)"
proof (rule initial_repository_is_the_saved_one [where d = 2 and ds = "[]"])
  show "repo_ok (ev_narrow sample_env) (ev_widen sample_env) (rm_repo sample_loaded)"
    by (simp add: sample_loaded_def sample_entry_def repo_ok_def repo_policies_ok_def repo_metas_ok_def repo_values_ok_def policies_ok_def policy_ok_def
        entry_ok_def new_repo_def new_policy_def new_entry_def)
qed (simp_all add: sample_saved_def restarted_def max_repo_cache_entries_def scanned_def sample_storage_def io_exist_def io_read_def persists_folder_def sample_env_def)

section \<open>Notifications\<close>

text \<open>All requests have a client that can be told, even if all of them are completed.\<close>

definition nofs_ok :: "notify_request list \<Rightarrow> nat \<Rightarrow> kern \<Rightarrow> bool" where
  "nofs_ok ns b k \<longleftrightarrow> (\<forall>n \<in> set ns. \<exists>t. requester (nq_info n) = Some t \<and> user_mem k (owner (thr k t)) (sts (nq_info n)) \<noteq> None
     \<and> 0 \<le> avail_count (sema k (request_sema (thr k t))) \<and> avail_count (sema k (request_sema (thr k t))) + int b < 2 ^ 31 - 2)"

lemma complete_nof:
  assumes "nofs_ok (n # ns) (Suc b) k"
  shows "\<exists>i k'. complete_kept err (nq_info n) k = Some (i, k') \<and> nofs_ok ns b k'"
proof (cases "sts (nq_info n) = 0")
  case True
  then have "complete_kept err (nq_info n) k = Some ((nq_info n)\<lparr>sts := 0\<rparr>, k)" by (simp add: complete_kept_def complete_def)
  moreover have "nofs_ok ns b k" using assms by (fastforce simp: nofs_ok_def)
  ultimately show ?thesis by blast
next
  case False
  obtain t where t: "requester (nq_info n) = Some t" "user_mem k (owner (thr k t)) (sts (nq_info n)) \<noteq> None" "can_notify t k"
    using assms by (auto simp: nofs_ok_def can_notify_def)
  let ?k1 = "status_written (owner (thr k t)) (sts (nq_info n)) err k"
  note w = write_and_signal [OF t(2,3), of err]
  have "complete_kept err (nq_info n) k = Some ((nq_info n)\<lparr>sts := 0\<rparr>, notified t ?k1)"
    using t False w by (simp add: complete_kept_def complete_def)
  moreover have "nofs_ok ns b (notified t ?k1)"
    unfolding nofs_ok_def
  proof
    fix n'
    assume "n' \<in> set ns"
    then obtain t' where t': "requester (nq_info n') = Some t'" "user_mem k (owner (thr k t')) (sts (nq_info n')) \<noteq> None"
        "0 \<le> avail_count (sema k (request_sema (thr k t')))" "avail_count (sema k (request_sema (thr k t'))) + int (Suc b) < 2 ^ 31 - 2"
      using assms by (auto simp: nofs_ok_def)
    then show "\<exists>t'. requester (nq_info n') = Some t' \<and> user_mem (notified t ?k1) (owner (thr (notified t ?k1) t')) (sts (nq_info n')) \<noteq> None
      \<and> 0 \<le> avail_count (sema (notified t ?k1) (request_sema (thr (notified t ?k1) t')))
      \<and> avail_count (sema (notified t ?k1) (request_sema (thr (notified t ?k1) t'))) + int b < 2 ^ 31 - 2"
      by (intro exI [of _ t']) (auto simp: notified_def status_written_def)
  qed
  ultimately show ?thesis by blast
qed

lemma nofs_ok_sub: "nofs_ok ns b k \<Longrightarrow> set ns' \<subseteq> set ns \<Longrightarrow> b' \<le> b \<Longrightarrow> nofs_ok ns' b' k"
  by (fastforce simp: nofs_ok_def)

lemma modification_success_bound:
  assumes "nofs_ok ns (length ns) k"
  shows "\<exists>ns' k'. modification_success key ns k = Some (ns', k') \<and> length ns div 2 \<le> length ns' \<and> set ns' \<subseteq> set ns \<and> (key = 0 \<longrightarrow> ns' = ns \<and> k' = k)"
  using assms
proof (induction key ns k rule: modification_success.induct)
  case (2 key n ns k)
  show ?case
  proof (cases "and key (and (nq_match n) (nq_mask n)) = 0")
    case True
    have "nofs_ok ns (length ns) k" using "2.prems" by (rule nofs_ok_sub) auto
    then obtain ns' k' where "modification_success key ns k = Some (ns', k')" "length ns div 2 \<le> length ns'" "set ns' \<subseteq> set ns" "key = 0 \<longrightarrow> ns' = ns \<and> k' = k"
      using "2.IH"(2) True by auto
    then show ?thesis using True by auto
  next
    case False
    obtain i k1 where c: "complete_kept 0 (nq_info n) k = Some (i, k1)" "nofs_ok ns (length ns) k1"
      using complete_nof [of n ns "length ns" k 0] "2.prems" by auto
    show ?thesis
    proof (cases ns)
      case Nil
      then show ?thesis using False c(1) by auto
    next
      case (Cons m ms)
      have "nofs_ok ms (length ms) k1" using c(2) by (rule nofs_ok_sub) (auto simp: Cons)
      then obtain ns' k' where "modification_success key ms k1 = Some (ns', k')" "length ms div 2 \<le> length ns'" "set ns' \<subseteq> set ms"
        using "2.IH"(1) [OF False c(1) refl Cons] by auto
      then show ?thesis using False c(1) Cons by auto
    qed
  qed
qed simp

text \<open>A changed entry completes at most every other of the notification requests of the subsession, whatever they ask for,
  because the request behind a completed one is never looked at; no request is invented, and a change of the entry with key 0
  tells nobody.\<close>

theorem notifies_every_other_at_most:
  assumes "nofs_ok ns (length ns) k"
  shows "\<exists>ns' k'. modification_success key ns k = Some (ns', k') \<and> length ns div 2 \<le> length ns' \<and> set ns' \<subseteq> set ns \<and> (key = 0 \<longrightarrow> ns' = ns \<and> k' = k)"
  using assms by (rule modification_success_bound)

theorem notifies_every_other_at_most_witness:
  "let n = \<lparr>nq_info = \<lparr>sts = 8, requester = Some 1\<rparr>, nq_mask = 0xFFFFFFFF, nq_match = 5\<rparr> in
    \<exists>ns' k'. modification_success 5 [n, n] (w_kern sample_world) = Some (ns', k') \<and> length [n, n] div 2 \<le> length ns' \<and> set ns' \<subseteq> set [n, n]
      \<and> (5 = (0 :: u32) \<longrightarrow> ns' = [n, n] \<and> k' = w_kern sample_world)"
  unfolding Let_def by (rule notifies_every_other_at_most) (simp add: nofs_ok_def sample_world_def)

section \<open>Sessions, subsessions and repositories fit together\<close>

text \<open>The part of the server that decides it: the subsessions of a session with the repositories they are on, and the subsessions
  attached to a repository.\<close>

definition subs_view :: "(u32 \<times> subsession) list \<Rightarrow> (u32 \<times> u32) list" where
  "subs_view = map (map_prod id ss_repo)"

definition sview :: "service \<Rightarrow> (u64 \<Rightarrow> (u32 \<times> u32) list option) \<times> (u32 \<Rightarrow> (u64 \<times> u32) list option)" where
  "sview s = ((\<lambda>i. map_option (\<lambda>x. subs_view (se_subs x)) (get_session i s)), (\<lambda>key. map_option rm_attached (get_repo key s)))"

text \<open>The numbers of the subsessions are unique; every subsession is on a repository that is loaded; every subsession attached to a
  repository exists and is on that repository, and it is attached once.\<close>

definition cenrep_ok :: "service \<Rightarrow> bool" where
  "cenrep_ok s \<longleftrightarrow> (case sview s of (ses, rep) \<Rightarrow>
     (\<forall>i xs. ses i = Some xs \<longrightarrow> distinct (map fst xs) \<and> (\<forall>(j, key) \<in> set xs. rep key \<noteq> None))
     \<and> (\<forall>key as. rep key = Some as \<longrightarrow> distinct as \<and> (\<forall>(i, j) \<in> set as. \<exists>xs. ses i = Some xs \<and> (j, key) \<in> set xs)))"

lemma cenrep_ok_cong: "sview s' = sview s \<Longrightarrow> cenrep_ok s' = cenrep_ok s"
  by (simp add: cenrep_ok_def)

definition sub_at :: "u64 \<Rightarrow> u32 \<Rightarrow> u32 \<Rightarrow> service \<Rightarrow> bool" where
  "sub_at i j key s \<longleftrightarrow> (\<exists>xs. fst (sview s) i = Some xs \<and> map_of xs j = Some key)"

lemma sub_at_cong: "sview s' = sview s \<Longrightarrow> sub_at i j key s' = sub_at i j key s"
  by (simp add: sub_at_def)

lemma map_of_subs_view: "map_of (subs_view xs) j = map_option ss_repo (map_of xs j)"
  by (induction xs) (auto simp: subs_view_def)

lemma sub_at_session: "get_session i s = Some x \<Longrightarrow> map_of (se_subs x) j = Some ss \<Longrightarrow> sub_at i j (ss_repo ss) s"
  by (simp add: sub_at_def sview_def map_of_subs_view)

lemma subs_view_update: "map_of xs j = Some ss0 \<Longrightarrow> ss_repo ss0 = ss_repo ss \<Longrightarrow> subs_view (AList.update j ss xs) = subs_view xs"
  by (induction xs) (auto simp: subs_view_def)

lemma sview_set_sub: "sub_at i j (ss_repo ss) s \<Longrightarrow> sview (set_sub i j ss s) = sview s"
  by (auto simp: sview_def sub_at_def map_of_subs_view fun_eq_iff subs_view_update)

lemma sview_set_repo: "get_repo key s = Some r0 \<Longrightarrow> rm_attached r = rm_attached r0 \<Longrightarrow> sview (set_repo key r s) = sview s"
  by (auto simp: sview_def fun_eq_iff)

lemma sview_by_cenrep: "cn_sessions (sv_cenrep s') = cn_sessions (sv_cenrep s) \<Longrightarrow> cn_repos (sv_cenrep s') = cn_repos (sv_cenrep s) \<Longrightarrow> sview s' = sview s"
  by (simp add: sview_def get_session_def get_repo_def)

lemma sview_finish: "finish err c s = Some (c', s') \<Longrightarrow> sview s' = sview s"
  by (rule sview_by_cenrep) (auto simp: finish_def)

lemma sview_reply: "reply_data idx dat c s = Some s' \<Longrightarrow> sview s' = sview s"
  by (rule sview_by_cenrep) (auto simp: reply_data_def)

lemma sview_in_kernel: "in_kernel f s = Some (y, s') \<Longrightarrow> sview s' = sview s"
  by (rule sview_by_cenrep) (auto simp: in_kernel_def)

lemma sview_world [simp]: "sview (s\<lparr>sv_world := w\<rparr>) = sview s"
  by (rule sview_by_cenrep) simp_all

lemma sview_notify_changed:
  assumes "notify_changed i j key ss s = Some s'" and "sub_at i j (ss_repo ss) s"
  shows "sview s' = sview s"
proof -
  obtain ns s1 where s1: "in_kernel (modification_success key (ss_notifies ss)) s = Some (ns, s1)" and s': "s' = set_sub i j (ss\<lparr>ss_notifies := ns\<rparr>) s1"
    using assms(1) by (auto simp: notify_changed_def split: bind_splits)
  note v = sview_in_kernel [OF s1]
  have "sub_at i j (ss_repo (ss\<lparr>ss_notifies := ns\<rparr>)) s1" using assms(2) sub_at_cong [OF v] by simp
  then show ?thesis unfolding s' v [symmetric] by (rule sview_set_sub)
qed

lemma storage_parts [simp]: "get_repo key (s\<lparr>sv_storage := st\<rparr>) = get_repo key s" "get_session i (s\<lparr>sv_storage := st\<rparr>) = get_session i s"
  by (simp_all add: get_repo_def get_session_def)

lemma sview_write_changes: "write_changes ev key s = Some s' \<Longrightarrow> sview s' = sview s"
  by (auto simp: write_changes_def Let_def sview_def fun_eq_iff split: bind_splits)

lemma sview_get_initial: "get_initial_repo ev key s = Some (r, s') \<Longrightarrow> sview s' = sview s"
  by (rule sview_by_cenrep) (auto simp: get_initial_repo_def load_repo_adv_keeps dest: load_repo_adv_keeps(2,3) split: option.splits prod.splits if_splits bind_splits)

lemmas sviews = sview_finish sview_reply sview_in_kernel sview_notify_changed sview_write_changes sview_get_initial

text \<open>Every request to a subsession leaves this part alone.\<close>

lemma get_entry_repo: "get_entry key b ss r = (p, ss') \<Longrightarrow> ss_repo ss' = ss_repo ss"
  by (auto simp: get_entry_def split: if_splits)

lemma sview_set_value:
  assumes "handle_set_value ev q i j ss c s = Some (c', s')" and at: "sub_at i j (ss_repo ss) s"
  shows "sview s' = sview s"
proof -
  obtain key :: u32 and r where kr: "get_argument_value 0 c = Some key" "get_repo (ss_repo ss) s = Some r"
    using assms(1) by (auto simp: handle_set_value_def split: bind_splits)
  obtain p ss1 where e: "get_entry key True ss (rm_repo r) = (p, ss1)" by (cases "get_entry key True ss (rm_repo r)")
  note rp = get_entry_repo [OF e]
  show ?thesis
  proof (cases p)
    case None
    then have "finish (-1) c s = Some (c', s')" using assms(1) kr e by (simp add: handle_set_value_def)
    then show ?thesis by (rule sview_finish)
  next
    case (Some pl)
    let ?e = "entry_at pl ss1 (rm_repo r)"
    obtain v where v: "new_value ev q ?e c s = Some v" using assms(1) kr e Some by (auto simp: handle_set_value_def Let_def split: bind_splits)
    have "\<exists>c1 ss2 repo s1 s2. sview s1 = sview s \<and> ss_repo ss2 = ss_repo ss \<and> get_repo (ss_repo ss) s1 = Some r
        \<and> notify_changed i j (ce_key ?e) ss2 (set_repo (ss_repo ss2) (r\<lparr>rm_repo := repo\<rparr>) s1) = Some s2 \<and> finish 0 c1 s2 = Some (c', s')"
    proof (cases v)
      case None
      then obtain c1 s1 where f: "finish (-6) c s = Some (c1, s1)" using assms(1) kr e Some v by (auto simp: handle_set_value_def Let_def split: bind_splits)
      then have "get_repo (ss_repo ss) s1 = Some r" using kr(2) by (auto simp: finish_def)
      moreover obtain s2 where "notify_changed i j (ce_key ?e) ss1 (set_repo (ss_repo ss1) (r\<lparr>rm_repo := rm_repo r\<rparr>) s1) = Some s2" "finish 0 c1 s2 = Some (c', s')"
        using assms(1) kr e Some v None f by (auto simp: handle_set_value_def Let_def split: bind_splits)
      ultimately show ?thesis using rp sview_finish [OF f] by blast
    next
      case (Some e')
      obtain ss2 repo where se: "set_entry_at pl e' ss1 (rm_repo r) = (ss2, repo)" by (cases "set_entry_at pl e' ss1 (rm_repo r)")
      then have "ss_repo ss2 = ss_repo ss" using rp by (auto simp: set_entry_at_def split: entry_place.splits)
      moreover obtain s2 where "notify_changed i j (ce_key ?e) ss2 (set_repo (ss_repo ss2) (r\<lparr>rm_repo := repo\<rparr>) s) = Some s2" "finish 0 c s2 = Some (c', s')"
        using assms(1) kr e \<open>p = Some pl\<close> v Some se by (auto simp: handle_set_value_def Let_def split: bind_splits)
      ultimately show ?thesis using kr(2) by blast
    qed
    then obtain c1 ss2 repo s1 s2 where x: "sview s1 = sview s" "ss_repo ss2 = ss_repo ss" "get_repo (ss_repo ss) s1 = Some r"
        "notify_changed i j (ce_key ?e) ss2 (set_repo (ss_repo ss2) (r\<lparr>rm_repo := repo\<rparr>) s1) = Some s2" "finish 0 c1 s2 = Some (c', s')"
      by blast
    let ?s1 = "set_repo (ss_repo ss2) (r\<lparr>rm_repo := repo\<rparr>) s1"
    have v1: "sview ?s1 = sview s" using sview_set_repo [of "ss_repo ss2" s1 r "r\<lparr>rm_repo := repo\<rparr>"] x by simp
    then have "sub_at i j (ss_repo ss2) ?s1" using at x(2) sub_at_cong [OF v1] by simp
    then show ?thesis using sview_notify_changed [OF x(4)] sview_finish [OF x(5)] v1 by simp
  qed
qed

lemma sview_reset:
  assumes "handle_reset ev i j ss c s = Some (c', s')" and at: "sub_at i j (ss_repo ss) s"
  shows "sview s' = sview s"
proof -
  obtain r init_repo s1 err repo and key :: u32 where x: "get_repo (ss_repo ss) s = Some r" "get_initial_repo ev (cr_uid (rm_repo r)) s = Some (init_repo, s1)"
      "get_argument_value 0 c = Some key" "reset_key init_repo key ss (rm_repo r) = Some (err, repo)"
    using assms(1) by (auto simp: handle_reset_def split: bind_splits)
  note v = sview_get_initial [OF x(2)]
  let ?s2 = "set_repo (ss_repo ss) (r\<lparr>rm_repo := repo\<rparr>) s1"
  have "snd (sview s1) (ss_repo ss) = Some (rm_attached r)" unfolding v using x(1) by (simp add: sview_def)
  then obtain r1 where "get_repo (ss_repo ss) s1 = Some r1" "rm_attached r1 = rm_attached r" by (auto simp: sview_def)
  then have v2: "sview ?s2 = sview s" using sview_set_repo [of "ss_repo ss" s1 r1 "r\<lparr>rm_repo := repo\<rparr>"] v by simp
  consider "finish (-5) c ?s2 = Some (c', s')" | "finish (-1) c ?s2 = Some (c', s')"
    | s3 s4 where "write_changes ev (ss_repo ss) ?s2 = Some s3" "notify_changed i j key ss s3 = Some s4" "finish 0 c s4 = Some (c', s')"
    using assms(1) x by (auto simp: handle_reset_def Let_def split: bind_splits if_splits)
  then show ?thesis
  proof cases
    case 3
    note v3 = sview_write_changes [OF 3(1)]
    have "sub_at i j (ss_repo ss) s3" using at sub_at_cong [of s3 s] v2 v3 by simp
    then show ?thesis using sview_notify_changed [OF 3(2)] sview_finish [OF 3(3)] v2 v3 by simp
  qed (use v2 sview_finish in auto)
qed

lemma sview_get_value: "handle_get_value ev q ss c s = Some (c', s') \<Longrightarrow> sview s' = sview s"
  by (auto simp: handle_get_value_def split: bind_splits option.splits prod.splits dest!: sview_finish sview_reply)

lemma sview_find:
  assumes "handle_find q i j ss c s = Some (c', s')" and at: "sub_at i j (ss_repo ss) s"
  shows "sview s' = sview s"
proof -
  let ?s1 = "set_sub i j (ss\<lparr>ss_found := []\<rparr>) s"
  have v1: "sview ?s1 = sview s" using at sview_set_sub [of i j "ss\<lparr>ss_found := []\<rparr>" s] by simp
  have w: "sview (set_sub i j (ss\<lparr>ss_found := f\<rparr>) (?s1\<lparr>sv_world := w\<rparr>)) = sview s" for f w
  proof -
    have "sub_at i j (ss_repo (ss\<lparr>ss_found := f\<rparr>)) (?s1\<lparr>sv_world := w\<rparr>)" using at sub_at_cong [of "?s1\<lparr>sv_world := w\<rparr>" s] v1 by simp
    then show ?thesis using sview_set_sub v1 by fastforce
  qed
  show ?thesis
    using assms(1) v1 w
    by (auto simp: handle_find_def Let_def split: bind_splits option.splits prod.splits if_splits dest!: sview_finish)
qed

lemma sview_notify_cancel:
  assumes "handle_notify_cancel q i j ss c s = Some (c', s')" and at: "sub_at i j (ss_repo ss) s"
  shows "sview s' = sview s"
proof -
  consider (a) P ns s1 where "in_kernel (cancel_matching P (ss_notifies ss)) s = Some (ns, s1)" "finish 0 c (set_sub i j (ss\<lparr>ss_notifies := ns\<rparr>) s1) = Some (c', s')"
    | (b) "finish (-6) c s = Some (c', s')"
    using assms(1) by (auto simp: handle_notify_cancel_def cancel_notify_request_def Let_def split: bind_splits option.splits if_splits)
  then show ?thesis
  proof cases
    case a
    note v = sview_in_kernel [OF a(1)]
    have "sub_at i j (ss_repo (ss\<lparr>ss_notifies := ns\<rparr>)) s1" using at sub_at_cong [OF v] by simp
    then show ?thesis using sview_set_sub sview_finish [OF a(2)] v by fastforce
  qed (rule sview_finish)
qed

lemma sview_notify:
  assumes "handle_notify q i j ss c s = Some (c', s')" and at: "sub_at i j (ss_repo ss) s"
  shows "sview s' = sview s"
proof -
  have "ss_repo (snd (add_notify_request info m k ss)) = ss_repo ss" for info m k by (simp add: add_notify_request_def)
  then have v: "sview (set_sub i j (snd (add_notify_request info m k ss)) s) = sview s" for info m k using at by (intro sview_set_sub) simp
  show ?thesis
    using assms(1) v
    by (auto simp: handle_notify_def Let_def split_beta split: bind_splits if_splits dest!: sview_finish)
qed

lemma sview_sub_handle_message:
  assumes "sub_handle_message ev i j ss c s = Some (c', s')" and at: "sub_at i j (ss_repo ss) s"
  shows "sview s' = sview s"
proof (cases "request_of c")
  case (Some q)
  have all: "sview s' = sview s" if "in_kernel (cancel_all_notify_requests (ss_notifies ss)) s = Some (ns, s1)"
    "finish 0 c (set_sub i j (ss\<lparr>ss_notifies := ns\<rparr>) s1) = Some (c', s')" for ns s1
  proof -
    note v = sview_in_kernel [OF that(1)]
    have "sub_at i j (ss_repo (ss\<lparr>ss_notifies := ns\<rparr>)) s1" using at sub_at_cong [OF v] by simp
    then show ?thesis using sview_set_sub sview_finish [OF that(2)] v by fastforce
  qed
  have chk: "handle_notify_check ss c s = Some (c', s') \<Longrightarrow> sview s' = sview s"
    by (auto simp: handle_notify_check_def split: bind_splits if_splits dest!: sview_finish)
  have res: "handle_get_find_result ss c s = Some (c', s') \<Longrightarrow> sview s' = sview s"
    by (auto simp: handle_get_find_result_def Let_def split: bind_splits dest!: sview_finish sview_reply)
  show ?thesis
    using assms Some all chk res sview_set_value sview_reset sview_get_value sview_find sview_notify_cancel sview_notify sview_finish
    by (cases q) (auto simp: sub_handle_message_def split: bind_splits)
qed (use assms in \<open>simp add: sub_handle_message_def\<close>)

lemma in_subs_view: "(j, ss) \<in> set xs \<Longrightarrow> (j, ss_repo ss) \<in> set (subs_view xs)"
  by (induction xs) (auto simp: subs_view_def)

lemma cenrep_okD:
  assumes "cenrep_ok s"
  shows "get_session i s = Some x \<Longrightarrow> distinct (map fst (se_subs x))"
    "get_session i s = Some x \<Longrightarrow> (j, ss) \<in> set (se_subs x) \<Longrightarrow> get_repo (ss_repo ss) s \<noteq> None"
    "get_repo key s = Some r \<Longrightarrow> distinct (rm_attached r)"
    "get_repo key s = Some r \<Longrightarrow> (i, j) \<in> set (rm_attached r) \<Longrightarrow> \<exists>x ss. get_session i s = Some x \<and> (j, ss) \<in> set (se_subs x) \<and> ss_repo ss = key"
proof -
  have d: "map fst (subs_view xs) = map fst xs" for xs by (simp add: subs_view_def)
  note ok = assms [unfolded cenrep_ok_def sview_def prod.case]
  note ses = conjunct1 [OF ok, THEN spec, THEN spec, THEN mp] and rep = conjunct2 [OF ok, THEN spec, THEN spec, THEN mp]
  show "distinct (map fst (se_subs x))" if "get_session i s = Some x"
    using ses [of i "subs_view (se_subs x)"] that d by simp
  show "get_repo (ss_repo ss) s \<noteq> None" if "get_session i s = Some x" "(j, ss) \<in> set (se_subs x)"
    using ses [of i "subs_view (se_subs x)"] that(1) in_subs_view [OF that(2)] by (auto dest!: bspec)
  show "distinct (rm_attached r)" if "get_repo key s = Some r" using rep [of key "rm_attached r"] that by simp
  show "\<exists>x ss. get_session i s = Some x \<and> (j, ss) \<in> set (se_subs x) \<and> ss_repo ss = key" if g: "get_repo key s = Some r" and a: "(i, j) \<in> set (rm_attached r)"
  proof -
    obtain xs where "map_option (\<lambda>x. subs_view (se_subs x)) (get_session i s) = Some xs" "(j, key) \<in> set xs"
      using bspec [OF conjunct2 [OF rep [of key "rm_attached r"]] a] g by auto
    then show ?thesis by (fastforce simp: subs_view_def)
  qed
qed

lemma cenrep_okI:
  assumes "\<And>i x. get_session i s = Some x \<Longrightarrow> distinct (map fst (se_subs x))"
    and "\<And>i x j ss. get_session i s = Some x \<Longrightarrow> (j, ss) \<in> set (se_subs x) \<Longrightarrow> get_repo (ss_repo ss) s \<noteq> None"
    and "\<And>key r. get_repo key s = Some r \<Longrightarrow> distinct (rm_attached r)"
    and "\<And>key r i j. get_repo key s = Some r \<Longrightarrow> (i, j) \<in> set (rm_attached r) \<Longrightarrow> \<exists>x ss. get_session i s = Some x \<and> (j, ss) \<in> set (se_subs x) \<and> ss_repo ss = key"
  shows "cenrep_ok s"
proof -
  have d: "map fst (subs_view xs) = map fst xs" for xs by (simp add: subs_view_def)
  show ?thesis
    unfolding cenrep_ok_def sview_def prod.case
  proof (intro conjI allI impI)
    fix i xs
    assume "map_option (\<lambda>x. subs_view (se_subs x)) (get_session i s) = Some xs"
    then obtain x where x: "get_session i s = Some x" "xs = subs_view (se_subs x)" by auto
    then show "distinct (map fst xs)" using assms(1) d by simp
    show "\<forall>(j, key) \<in> set xs. map_option rm_attached (get_repo key s) \<noteq> None"
      using assms(2) [OF x(1)] x(2) by (auto simp: subs_view_def)
  next
    fix key as
    assume "map_option rm_attached (get_repo key s) = Some as"
    then obtain r where r: "get_repo key s = Some r" "as = rm_attached r" by auto
    then show "distinct as" using assms(3) by simp
    show "\<forall>(i, j) \<in> set as. \<exists>xs. map_option (\<lambda>x. subs_view (se_subs x)) (get_session i s) = Some xs \<and> (j, key) \<in> set xs"
    proof clarify
      fix i j
      assume "(i, j) \<in> set as"
      then obtain x ss where "get_session i s = Some x" "(j, ss) \<in> set (se_subs x)" "ss_repo ss = key" using assms(4) r by blast
      then show "\<exists>xs. map_option (\<lambda>x. subs_view (se_subs x)) (get_session i s) = Some xs \<and> (j, key) \<in> set xs"
        using in_subs_view [of j ss "se_subs x"] by auto
    qed
  qed
qed

lemma load_from_drives_attached:
  "load_from_drives ev b rom f key ds r st = Some (err, r', st') \<Longrightarrow> rm_attached r' = rm_attached r"
  by (induction ev b rom f key ds r st rule: load_from_drives.induct)
    (auto simp: Let_def split: if_splits option.splits prod.splits bind_splits)

lemma load_repo_keeps:
  assumes "load_repo_with_lookup ev key s = Some (b, s')"
  shows "get_session i s' = get_session i s"
    "get_repo k s \<noteq> None \<Longrightarrow> map_option rm_attached (get_repo k s') = map_option rm_attached (get_repo k s)"
    "get_repo k s = None \<Longrightarrow> get_repo k s' = None \<or> map_option rm_attached (get_repo k s') = Some []"
    "b \<Longrightarrow> get_repo key s' \<noteq> None"
proof -
  show "get_session i s' = get_session i s" "b \<Longrightarrow> get_repo key s' \<noteq> None"
    using assms by (auto simp: load_repo_with_lookup_def get_session_def set_repo_def get_repo_def load_repo_adv_keeps dest!: load_repo_adv_keeps(3)
        split: option.splits bind_splits if_splits)
  have k: "get_repo k s1 = get_repo k s \<and> rm_attached r = []" if "load_repo_adv ev key False s = Some (err, r, s1)" for err r s1
    using that load_repo_adv_keeps(2) [OF that]
    by (auto simp: load_repo_adv_def Let_def get_repo_def fresh_repo_def dest!: load_from_drives_attached)
  show "get_repo k s \<noteq> None \<Longrightarrow> map_option rm_attached (get_repo k s') = map_option rm_attached (get_repo k s)"
    "get_repo k s = None \<Longrightarrow> get_repo k s' = None \<or> map_option rm_attached (get_repo k s') = Some []"
    using assms by (auto simp: load_repo_with_lookup_def split: option.splits bind_splits if_splits dest!: k)
qed

lemma load_repo_ok:
  assumes ok: "cenrep_ok s" and ld: "load_repo_with_lookup ev key s = Some (b, s')"
  shows "cenrep_ok s'"
proof (rule cenrep_okI)
  note l = load_repo_keeps [OF ld]
  fix i x j ss k r
  show "get_session i s' = Some x \<Longrightarrow> distinct (map fst (se_subs x))" using cenrep_okD(1) [OF ok] l(1) by simp
  show "get_session i s' = Some x \<Longrightarrow> (j, ss) \<in> set (se_subs x) \<Longrightarrow> get_repo (ss_repo ss) s' \<noteq> None"
    using cenrep_okD(2) [OF ok] l(1,2) by (metis option.map_disc_iff)
  assume r: "get_repo k s' = Some r"
  then have a: "get_repo k s = None \<and> rm_attached r = [] \<or> (\<exists>r0. get_repo k s = Some r0 \<and> rm_attached r0 = rm_attached r)"
    using l(2,3) [of k] by (cases "get_repo k s") auto
  then show "distinct (rm_attached r)" using cenrep_okD(3) [OF ok, of k] by fastforce
  show "(i, j) \<in> set (rm_attached r) \<Longrightarrow> \<exists>x ss. get_session i s' = Some x \<and> (j, ss) \<in> set (se_subs x) \<and> ss_repo ss = k"
    using a cenrep_okD(4) [OF ok] l(1) by fastforce
qed

lemma update_new: "k \<notin> fst ` set xs \<Longrightarrow> AList.update k v xs = xs @ [(k, v)]"
  by (induction xs) auto

lemma cenrep_ok_attach:
  assumes ok: "cenrep_ok s" and x: "get_session i s = Some x" "map_of (se_subs x) j = None" and r: "get_repo key s = Some r"
  shows "cenrep_ok (set_repo key (r\<lparr>rm_attached := rm_attached r @ [(i, j)]\<rparr>) (set_sub i j (new_subsession key) s))" (is "cenrep_ok ?s")
proof (rule cenrep_okI)
  have nj: "j \<notin> fst ` set (se_subs x)" using x(2) by (simp add: map_of_eq_None_iff)
  then have up: "AList.update j (new_subsession key) (se_subs x) = se_subs x @ [(j, new_subsession key)]"
    by (rule update_new)
  have gs: "get_session i' ?s = (if i' = i then Some (x\<lparr>se_subs := se_subs x @ [(j, new_subsession key)]\<rparr>) else get_session i' s)" for i'
    using x(1) up by simp
  have gr: "get_repo k ?s = (if k = key then Some (r\<lparr>rm_attached := rm_attached r @ [(i, j)]\<rparr>) else get_repo k s)" for k by simp
  fix i' x' j' ss k r'
  show "get_session i' ?s = Some x' \<Longrightarrow> distinct (map fst (se_subs x'))"
    using gs cenrep_okD(1) [OF ok] x(1) nj by (auto split: if_splits)
  show "get_session i' ?s = Some x' \<Longrightarrow> (j', ss) \<in> set (se_subs x') \<Longrightarrow> get_repo (ss_repo ss) ?s \<noteq> None"
    using gs gr cenrep_okD(2) [OF ok] x(1) by (auto split: if_splits)
  have new: "(i, j) \<notin> set (rm_attached r)" using cenrep_okD(4) [OF ok r, of i j] x(1) nj by force
  assume r': "get_repo k ?s = Some r'"
  then show "distinct (rm_attached r')" using gr cenrep_okD(3) [OF ok] r new by (auto split: if_splits)
  show "(i', j') \<in> set (rm_attached r') \<Longrightarrow> \<exists>x ss. get_session i' ?s = Some x \<and> (j', ss) \<in> set (se_subs x) \<and> ss_repo ss = k"
  proof -
    assume a: "(i', j') \<in> set (rm_attached r')"
    show ?thesis
    proof (cases "k = key \<and> (i', j') = (i, j)")
      case True
      then show ?thesis
        by (intro exI [of _ "x\<lparr>se_subs := se_subs x @ [(j, new_subsession key)]\<rparr>"] exI [of _ "new_subsession key"]) (simp add: x(1) up)
    next
      case False
      then obtain r0 where r0: "get_repo k s = Some r0" "(i', j') \<in> set (rm_attached r0)" using r' gr r a by (auto split: if_splits)
      obtain y sj where y: "get_session i' s = Some y" "(j', sj) \<in> set (se_subs y)" "ss_repo sj = k" using cenrep_okD(4) [OF ok r0] by blast
      show ?thesis
      proof (cases "i' = i")
        case True
        then show ?thesis using y x(1) gs [of i'] by (intro exI [of _ "x\<lparr>se_subs := se_subs x @ [(j, new_subsession key)]\<rparr>"] exI [of _ sj]) (simp only: gs, simp)
      next
        case False
        then show ?thesis using y by auto
      qed
    qed
  qed
qed

lemma cenrep_ok_detach:
  assumes ok: "cenrep_ok s" and x: "get_session i s = Some x" "map_of (se_subs x) j = Some ss" and r: "get_repo (ss_repo ss) s = Some r"
    and r1: "rm_attached r1 = remove1 (i, j) (rm_attached r)"
  shows "cenrep_ok (upd_session i (\<lambda>x. x\<lparr>se_subs := AList.delete j (se_subs x)\<rparr>) (set_repo (ss_repo ss) r1 s))" (is "cenrep_ok ?s")
proof (rule cenrep_okI)
  have gs: "get_session i' ?s = (if i' = i then Some (x\<lparr>se_subs := AList.delete j (se_subs x)\<rparr>) else get_session i' s)" for i' using x(1) by simp
  have gr: "get_repo k ?s = (if k = ss_repo ss then Some r1 else get_repo k s)" for k by simp
  have del: "set (AList.delete j xs) = {p \<in> set xs. fst p \<noteq> j}" "distinct (map fst xs) \<Longrightarrow> distinct (map fst (AList.delete j xs))" for xs :: "(u32 \<times> subsession) list"
    by (auto simp: AList.delete_eq distinct_fst_filter split_beta)
  fix i' x' j' ss' k r'
  show "get_session i' ?s = Some x' \<Longrightarrow> distinct (map fst (se_subs x'))"
    using gs cenrep_okD(1) [OF ok] x(1) del(2) by (auto split: if_splits)
  show "get_session i' ?s = Some x' \<Longrightarrow> (j', ss') \<in> set (se_subs x') \<Longrightarrow> get_repo (ss_repo ss') ?s \<noteq> None"
    using gs gr cenrep_okD(2) [OF ok] x(1) del(1) by (auto split: if_splits)
  assume r': "get_repo k ?s = Some r'"
  then show "distinct (rm_attached r')" using gr cenrep_okD(3) [OF ok] r r1 by (auto split: if_splits)
  show "\<exists>x ss. get_session i' ?s = Some x \<and> (j', ss) \<in> set (se_subs x) \<and> ss_repo ss = k" if a: "(i', j') \<in> set (rm_attached r')"
  proof -
    obtain r0 where r0: "get_repo k s = Some r0" "(i', j') \<in> set (rm_attached r0)" using r' gr r a r1 by (auto split: if_splits dest: notin_set_remove1)
    obtain y sj where y: "get_session i' s = Some y" "(j', sj) \<in> set (se_subs y)" "ss_repo sj = k" using cenrep_okD(4) [OF ok r0] by blast
    have "(i', j') \<noteq> (i, j)"
    proof
      assume e: "(i', j') = (i, j)"
      then have "map_of (se_subs x) j = Some sj" using y x(1) cenrep_okD(1) [OF ok x(1)] by simp
      then have "k = ss_repo ss" using x(2) y(3) by simp
      then have "r' = r1" "r0 = r" using r' gr r r0 by auto
      then show False using a e r1 cenrep_okD(3) [OF ok r] by (simp add: set_remove1_eq)
    qed
    then show ?thesis using y gs x(1) del(1) by (cases "i' = i") auto
  qed
qed

lemma session_init_ok:
  assumes ok: "cenrep_ok s" and h: "session_init ev i c s = Some (c', s')"
  shows "cenrep_ok s'"
proof -
  obtain key b s1 where l: "get_argument_value 0 c = Some key" "load_repo_with_lookup ev key s = Some (b, s1)"
    using h by (auto simp: session_init_def split: bind_splits)
  note ok1 = load_repo_ok [OF ok l(2)]
  show ?thesis
  proof (cases b)
    case False
    then have "finish (-1) c s1 = Some (c', s')" using h l by (simp add: session_init_def)
    then show ?thesis using ok1 cenrep_ok_cong sview_finish by blast
  next
    case True
    obtain x where x: "get_session i s1 = Some x" using h l True by (auto simp: session_init_def split: bind_splits)
    let ?j = "se_idcounter x + 1"
    let ?s2 = "upd_session i (\<lambda>x. x\<lparr>se_idcounter := ?j\<rparr>) s1"
    have "sview ?s2 = sview s1" using x by (auto simp: sview_def fun_eq_iff)
    then have ok2: "cenrep_ok ?s2" using ok1 cenrep_ok_cong by blast
    show ?thesis
    proof (cases "map_of (se_subs x) ?j")
      case (Some y)
      then have "finish (-4) c ?s2 = Some (c', s')" using h l True x by (simp add: session_init_def Let_def)
      then show ?thesis using ok2 cenrep_ok_cong sview_finish by blast
    next
      case None
      obtain r where r: "get_repo key s1 = Some r" using load_repo_keeps(4) [OF l(2) True] by blast
      let ?s3 = "set_repo key (r\<lparr>rm_attached := rm_attached r @ [(i, ?j)]\<rparr>) (set_sub i ?j (new_subsession key) ?s2)"
      obtain s4 where s4: "reply_data 3 (word_bytes ?j) c ?s3 = Some s4" "finish 0 c s4 = Some (c', s')"
        using h l True x None r by (auto simp: session_init_def Let_def split: bind_splits)
      have "cenrep_ok ?s3" using cenrep_ok_attach [OF ok2, of i "x\<lparr>se_idcounter := ?j\<rparr>" ?j key r] x None r by simp
      then show ?thesis using s4 cenrep_ok_cong sview_finish sview_reply by metis
    qed
  qed
qed

lemma closerep_ok:
  assumes ok: "cenrep_ok s" and h: "closerep ev i rid j s = Some (err, s')"
  shows "cenrep_ok s'"
proof -
  obtain x where x: "get_session i s = Some x" using h by (auto simp: closerep_def split: bind_splits)
  show ?thesis
  proof (cases "map_of (se_subs x) j")
    case None
    then show ?thesis using h x ok by (simp add: closerep_def)
  next
    case sub: (Some ss)
    note Some = sub
    obtain r where r: "get_repo (ss_repo ss) s = Some r" using h x Some by (auto simp: closerep_def split: bind_splits)
    show ?thesis
    proof (cases "rid \<noteq> 0 \<and> cr_uid (rm_repo r) \<noteq> rid")
      case True
      then show ?thesis using h x Some r ok by (simp add: closerep_def)
    next
      case False
      obtain s1 r1 where s1: "write_changes ev (ss_repo ss) s = Some s1" "get_repo (ss_repo ss) s1 = Some r1"
        using h x Some r False by (auto simp: closerep_def split: bind_splits if_splits)
      let ?r = "r1\<lparr>rm_attached := remove1 (i, j) (rm_attached r1), rm_access_count := (if rm_access_count r1 > 0 then rm_access_count r1 - 1 else rm_access_count r1)\<rparr>"
      have "Some (0, upd_session i (\<lambda>x. x\<lparr>se_subs := AList.delete j (se_subs x)\<rparr>) (set_repo (ss_repo ss) ?r s1)) = Some (err, s')"
        unfolding h [symmetric] using x Some r False s1 by (simp add: closerep_def Let_def)
      then have s': "s' = upd_session i (\<lambda>x. x\<lparr>se_subs := AList.delete j (se_subs x)\<rparr>) (set_repo (ss_repo ss) ?r s1)"
        by simp
      have "get_session i s1 = get_session i s" using s1(1) by (auto simp: write_changes_def Let_def split: bind_splits)
      then have "get_session i s1 = Some x" using x by simp
      moreover have "cenrep_ok s1" using ok cenrep_ok_cong [OF sview_write_changes [OF s1(1)]] by simp
      ultimately show ?thesis unfolding s' using cenrep_ok_detach [OF _ _ sub s1(2)] by simp
    qed
  qed
qed

text \<open>What the service does from one message to the next: it serves a request, opens or closes a session, and in between the clients,
  the kernel and the file system go on.\<close>

inductive served :: "cenrep_env \<Rightarrow> service \<Rightarrow> service \<Rightarrow> bool" for ev s0 where
  init: "served ev s0 s0"
| request: "served ev s0 s \<Longrightarrow> redirect_msg_to_session ev uid c s = Some (c', s') \<Longrightarrow> served ev s0 s'"
| connects: "served ev s0 s \<Longrightarrow> connect uid c s = Some (c', s') \<Longrightarrow> served ev s0 s'"
| disconnects: "served ev s0 s \<Longrightarrow> disconnect ev uid c s = Some (c', s') \<Longrightarrow> served ev s0 s'"
| rest: "served ev s0 s \<Longrightarrow> served ev s0 (s\<lparr>sv_world := w, sv_storage := st\<rparr>)"

lemma request_keeps_ok:
  assumes ok: "cenrep_ok s" and h: "redirect_msg_to_session ev uid c s = Some (c', s')"
  shows "cenrep_ok s'"
proof -
  note fin = sview_finish [THEN cenrep_ok_cong]
  have other: "cenrep_ok s'" if "get_argument_value 3 c = Some (j :: u32)" "map_of (se_subs y) j = Some ss" "get_session uid s = Some y"
    "sub_handle_message ev uid j ss c s = Some (c', s')" for j ss y
    using sview_sub_handle_message [OF that(4) sub_at_session [OF that(3,2)]] ok cenrep_ok_cong by blast
  show ?thesis
  proof (cases "get_session uid s")
    case None
    then show ?thesis using h ok fin by (auto simp: redirect_msg_to_session_def)
  next
    case (Some y)
    then have m: "session_handle_message ev uid c s = Some (c', s')" using h by (simp add: redirect_msg_to_session_def)
    consider "request_of c = Some Cen_init" | "request_of c = Some Cen_close" | "request_of c \<noteq> Some Cen_init" "request_of c \<noteq> Some Cen_close" by blast
    then show ?thesis
    proof cases
      case 1
      then show ?thesis using m session_init_ok [OF ok] by (simp add: session_handle_message_def)
    next
      case 2
      then have "session_close ev uid c s = Some (c', s')" using m by (simp add: session_handle_message_def)
      then show ?thesis using ok fin by (auto simp: session_close_def split: bind_splits if_splits dest!: closerep_ok [OF ok])
    next
      case 3
      then obtain j where "get_argument_value 3 c = Some (j :: u32)"
          "(case map_of (se_subs y) j of None \<Rightarrow> finish (-6) c s | Some ss \<Rightarrow> sub_handle_message ev uid j ss c s) = Some (c', s')"
        using m Some by (auto simp: session_handle_message_def split: option.splits cen_request.splits bind_splits)
      then show ?thesis using other [of j y] Some fin ok by (cases "map_of (se_subs y) j") auto
    qed
  qed
qed

lemma connect_keeps_ok:
  assumes ok: "cenrep_ok s" and h: "connect uid c s = Some (c', s')"
  shows "cenrep_ok s'"
proof -
  let ?i = "ucast (ucast uid :: u32) :: u64"
  let ?s = "upd_cenrep (\<lambda>x. if cn_sessions x ?i = None then x\<lparr>cn_sessions := (cn_sessions x)(?i \<mapsto> new_session)\<rparr> else x) s"
  have gs: "get_session i ?s = (if i = ?i \<and> get_session i s = None then Some new_session else get_session i s)"
    and gr: "get_repo key ?s = get_repo key s" for i key
    by (auto simp: get_session_def get_repo_def upd_cenrep_def)
  have "cenrep_ok ?s"
  proof (rule cenrep_okI)
    fix i x j ss key r
    show "get_session i ?s = Some x \<Longrightarrow> distinct (map fst (se_subs x))"
      unfolding gs using cenrep_okD(1) [OF ok] by (auto simp: new_session_def split: if_splits)
    show "get_session i ?s = Some x \<Longrightarrow> (j, ss) \<in> set (se_subs x) \<Longrightarrow> get_repo (ss_repo ss) ?s \<noteq> None"
      unfolding gs gr using cenrep_okD(2) [OF ok, of i x j ss] by (simp add: new_session_def split: if_splits) fastforce
    show "get_repo key ?s = Some r \<Longrightarrow> distinct (rm_attached r)" unfolding gr by (rule cenrep_okD(3) [OF ok])
    show "get_repo key ?s = Some r \<Longrightarrow> (i, j) \<in> set (rm_attached r) \<Longrightarrow>
        \<exists>x ss. get_session i ?s = Some x \<and> (j, ss) \<in> set (se_subs x) \<and> ss_repo ss = key"
      unfolding gs gr using cenrep_okD(4) [OF ok, of key r i j] by auto
  qed
  moreover have "finish 0 c ?s = Some (c', s')" using h by (simp add: connect_def Let_def)
  ultimately show ?thesis using sview_finish cenrep_ok_cong by blast
qed

lemma disconnect_keeps_ok:
  assumes ok: "cenrep_ok s" and h: "disconnect ev uid c s = Some (c', s')"
  shows "cenrep_ok s'"
proof (cases "get_session uid s")
  case None
  then have "finish 0 c s = Some (c', s')" using h by (simp add: disconnect_def)
  then show ?thesis using ok sview_finish cenrep_ok_cong by blast
next
  case (Some x)
  let ?s = "upd_cenrep (\<lambda>y. y\<lparr>cn_sessions := (cn_sessions y)(uid := None)\<rparr>) s"
  have h': "se_subs x = []" "finish 0 c ?s = Some (c', s')" using h Some by (auto simp: disconnect_def guard_def split: bind_splits if_splits)
  have gs: "get_session i ?s = (if i = uid then None else get_session i s)" and gr: "get_repo key ?s = get_repo key s" for i key
    by (simp_all add: get_session_def get_repo_def upd_cenrep_def)
  have "cenrep_ok ?s"
  proof (rule cenrep_okI)
    fix i x' j ss key r
    show "get_session i ?s = Some x' \<Longrightarrow> distinct (map fst (se_subs x'))"
      unfolding gs using cenrep_okD(1) [OF ok] by (auto split: if_splits)
    show "get_session i ?s = Some x' \<Longrightarrow> (j, ss) \<in> set (se_subs x') \<Longrightarrow> get_repo (ss_repo ss) ?s \<noteq> None"
      unfolding gs gr using cenrep_okD(2) [OF ok, of i x' j ss] by (simp split: if_splits)
    show "get_repo key ?s = Some r \<Longrightarrow> distinct (rm_attached r)" unfolding gr by (rule cenrep_okD(3) [OF ok])
    show "get_repo key ?s = Some r \<Longrightarrow> (i, j) \<in> set (rm_attached r) \<Longrightarrow>
        \<exists>x ss. get_session i ?s = Some x \<and> (j, ss) \<in> set (se_subs x) \<and> ss_repo ss = key"
      unfolding gs gr using cenrep_okD(4) [OF ok, of key r i j] Some h'(1) by auto
  qed
  then show ?thesis using h'(2) sview_finish cenrep_ok_cong by blast
qed

text \<open>C15. Whatever the clients send, in whatever order: if sessions, subsessions and repositories fit together at first, they fit
  together after any number of messages, so that no message finds its subsession on a repository that is not loaded, and nobody who
  is gone is attached to one.\<close>

theorem served_keeps_cenrep_ok:
  assumes "served ev s0 s" and "cenrep_ok s0"
  shows "cenrep_ok s"
  using assms
proof (induction rule: served.induct)
  case (rest s st w)
  have "sview (s\<lparr>sv_world := w, sv_storage := st\<rparr>) = sview s" by (rule sview_by_cenrep) simp_all
  then show ?case using rest cenrep_ok_cong by blast
qed (auto dest: request_keeps_ok connect_keeps_ok disconnect_keeps_ok)

lemma sample_service_ok: "cenrep_ok sample_service"
  by (rule cenrep_okI)
    (auto simp: get_session_def get_repo_def sample_service_def sample_cenrep_def split: if_splits)

theorem served_keeps_cenrep_ok_witness:
  "\<exists>c' s'. redirect_msg_to_session sample_env 1 (sample_request 6 [5, 77, 0, 1] 0) sample_service = Some (c', s') \<and> cenrep_ok s'"
proof -
  obtain c' s' where "redirect_msg_to_session sample_env 1 (sample_request 6 [5, 77, 0, 1] 0) sample_service = Some (c', s')"
    using set_int_request [OF sample_opened, of "sample_request 6 [5, 77, 0, 1] 0" 5 77 0 sample_env]
    by (auto simp: request_of_def cen_requests_def get_argument_value_def arg_word_def can_write_new sample_found sample_can_finish sample_entry_def)
  moreover from this have "cenrep_ok s'"
    by (rule served_keeps_cenrep_ok [OF served.request [OF served.init] sample_service_ok])
  ultimately show ?thesis by blast
qed

end
