(* ===== verification/Cenrep_Ini.thy ===== *)
theory Cenrep_Ini
  imports Cenrep_Rep Ini_Rep
begin

text \<open>
  Initial repositories (\<open>parse_new_centrep_ini\<close> in \<open>services/src/centralrepo/centralrepo.cpp\<close>): text files of the host, read as INI
  files. A section gives the owner, another the default meta data, the section \<open>Main\<close> the entries. What is written as such a file
  is read back, and the server opens it.
\<close>

section \<open>Reading a repository\<close>

text \<open>What the reader is given: the conversion of 16-bit texts, the reading of real numbers, which can throw an exception nobody
  catches, and what the variables hold that it does not initialise: an entry, and the mask of a range.\<close>

record ini_env =
  ie_utf8 :: "u16 list \<Rightarrow> string"
  ie_stod :: "string \<Rightarrow> u64 option"
  ie_entry :: cre_entry
  ie_mask :: u32

definition identify_type :: "string \<Rightarrow> cre_type option" where
  "identify_type tok = (if tok = ''int'' then Some Cre_integer
     else if tok = ''string8'' then Some Cre_string else if tok = ''string'' then Some Cre_string
     else if tok = ''real'' then Some Cre_real else if tok = ''binary'' then Some Cre_string else None)"

text \<open>A node taken for a type it does not have is undefined; a null pointer stays one as long as it is not used.\<close>

fun the_value :: "ini_node option \<Rightarrow> string undef" where
  "the_value (Some (Ini_value v)) = Some v"
| "the_value _ = None"

definition value_at :: "nat \<Rightarrow> ini_node option list \<Rightarrow> string undef" where
  "value_at i vs = (if i < length vs then the_value (vs ! i) else None)"

definition native_at :: "nat \<Rightarrow> ini_node option list \<Rightarrow> int undef" where
  "native_at i vs = do { v \<leftarrow> value_at i vs; native v }"

fun version_of :: "ini_node option \<Rightarrow> int undef" where
  "version_of (Some (Ini_pair k vs)) = native_at 0 vs"
| "version_of _ = None"

fun owner_of :: "u32 \<Rightarrow> ini_node option \<Rightarrow> u32 undef" where
  "owner_of uid None = Some uid"
| "owner_of uid (Some (Ini_section k ns)) = (case ns of n # _ \<Rightarrow> do { v \<leftarrow> the_value (Some n); x \<leftarrow> native v; Some (word_of_int x) } | [] \<Rightarrow> None)"
| "owner_of uid _ = None"

text \<open>The branch for masks needs a node of a type that no node has.\<close>

fun read_metas :: "u32 \<Rightarrow> ini_node list \<Rightarrow> cre_repo \<Rightarrow> (bool \<times> cre_repo) undef" where
  "read_metas msk [] r = Some (True, r)"
| "read_metas msk (Ini_value v # ns) r = do { x \<leftarrow> native v; read_metas msk ns (r\<lparr>cr_default_meta := word_of_int x\<rparr>) }"
| "read_metas msk (Ini_pair k vs # ns) r = do {
     low \<leftarrow> native k;
     high \<leftarrow> native_at 0 vs;
     m \<leftarrow> native_at 1 vs;
     read_metas msk ns (r\<lparr>cr_meta_range := cr_meta_range r @ [\<lparr>cm_low_key = word_of_int low, cm_high_key = word_of_int high, cm_key_mask = msk,
       cm_default_meta_data = word_of_int m\<rparr>]\<rparr>)
   }"
| "read_metas msk (Ini_section k xs # ns) r = Some (False, r)"

text \<open>Keys are read with the range of \<open>int\<close> in base 10.\<close>

definition entry_key :: "string \<Rightarrow> u32 undef" where
  "entry_key k = (if length k > 2 \<and> k ! 0 = CHR ''0'' \<and> k ! 1 \<in> {CHR ''x'', CHR ''X''} then Some (word_of_int (strtoll 16 (drop 2 k)))
     else do { x \<leftarrow> ato 32 k; Some (word_of_int x) })"

definition bytes_of :: "string \<Rightarrow> u8 list" where
  "bytes_of = map (\<lambda>c. of_nat (of_char c))"

definition entry_value :: "ini_env \<Rightarrow> cre_type \<Rightarrow> ini_node option list \<Rightarrow> cre_entry undef" where
  "entry_value ie t vs = (let e = (ie_entry ie)\<lparr>ce_type := t, ce_str := []\<rparr> in case t of
     Cre_integer \<Rightarrow> do { x \<leftarrow> native_at 1 vs; Some (e\<lparr>ce_int := word_of_int x\<rparr>) }
   | Cre_string \<Rightarrow> do { v \<leftarrow> value_at 1 vs; Some (e\<lparr>ce_str := bytes_of v\<rparr>) }
   | Cre_real \<Rightarrow> do { v \<leftarrow> value_at 1 vs; d \<leftarrow> ie_stod ie v; Some (e\<lparr>ce_real := d\<rparr>) }
   | Cre_none \<Rightarrow> None)"

fun read_entries :: "ini_env \<Rightarrow> ini_node list \<Rightarrow> cre_repo \<Rightarrow> (bool \<times> cre_repo) undef" where
  "read_entries ie [] r = Some (True, r)"
| "read_entries ie (Ini_pair k vs # ns) r = do {
     key \<leftarrow> entry_key (c_str k);
     tok \<leftarrow> value_at 0 vs;
     (case identify_type tok of
       None \<Rightarrow> Some (False, r)
     | Some t \<Rightarrow> do {
         e \<leftarrow> entry_value ie t vs;
         meta \<leftarrow> (if length vs \<ge> 3 then map_option (\<lambda>x. Some (word_of_int x)) (native_at 2 vs) else Some None);
         read_entries ie ns (snd (add_new_entry key e meta r))
       })
   }"
| "read_entries ie (_ # ns) r = None"

text \<open>What became of the repository counts even when the result is false: it is what the next drive starts from.\<close>

definition parse_new_centrep_ini :: "ini_env \<Rightarrow> u8 list option \<Rightarrow> cre_repo \<Rightarrow> (bool \<times> cre_repo) undef" where
  "parse_new_centrep_ini ie file r = do {
     (err, ini) \<leftarrow> ini_load (ie_utf8 ie) True file;
     if err < 0 \<or> ini_find ''cenrep'' ini = None then Some (False, r)
     else do {
       ver \<leftarrow> version_of (ini_find ''version'' ini);
       owner \<leftarrow> owner_of (cr_uid r) (ini_find ''owner'' ini);
       let r = r\<lparr>cr_ver := word_of_int ver, cr_owner_uid := owner\<rparr>;
       (ok, r) \<leftarrow> (case ini_find ''defaultmeta'' ini of
          None \<Rightarrow> Some (True, r)
        | Some (Ini_section k ns) \<Rightarrow> read_metas (ie_mask ie) ns r
        | _ \<Rightarrow> None);
       if \<not> ok then Some (False, r)
       else (case ini_find_ignore_case ''Main'' ini of
          None \<Rightarrow> Some (False, r)
        | Some (Ini_section k ns) \<Rightarrow> read_entries ie ns r
        | _ \<Rightarrow> None)
     }
   }"

text \<open>The reader the server is built with: \<open>files\<close> are the files of the host.\<close>

definition text_reader :: "ini_env \<Rightarrow> (string \<Rightarrow> u8 list option) \<Rightarrow> string \<Rightarrow> cre_repo \<Rightarrow> (bool \<times> cre_repo) undef" where
  "text_reader ie files path r = parse_new_centrep_ini ie (files path) r"

section \<open>Files written and read\<close>

text \<open>A writer of such files: numbers in base 16 with all their digits, except where the reader takes base 10 only, after a text.
  \<open>sr\<close> writes real numbers.\<close>

definition string_of :: "u8 list \<Rightarrow> string" where
  "string_of = map (\<lambda>w. char_of (unat w))"

definition hex_word :: "u32 \<Rightarrow> string" where
  "hex_word w = hex_number 8 (unat w)"

abbreviation blank :: char where "blank \<equiv> CHR '' ''"

definition entry_line :: "(u64 \<Rightarrow> string) \<Rightarrow> cre_entry \<Rightarrow> string" where
  "entry_line sr e = hex_word (ce_key e) @ blank # (case ce_type e of
     Cre_integer \<Rightarrow> ''int'' @ blank # hex_number 16 (unat (ce_int e))
   | Cre_real \<Rightarrow> ''real'' @ blank # sr (ce_real e)
   | Cre_string \<Rightarrow> ''string'' @ blank # CHR 0x22 # string_of (ce_str e) @ [CHR 0x22]
   | Cre_none \<Rightarrow> []) @ blank # number_string (unat (ce_metadata_val e))"

definition entry_tokens :: "(u64 \<Rightarrow> string) \<Rightarrow> cre_entry \<Rightarrow> string list" where
  "entry_tokens sr e = (let m = number_string (unat (ce_metadata_val e)) in case ce_type e of
     Cre_integer \<Rightarrow> [''int'', hex_number 16 (unat (ce_int e)), m]
   | Cre_real \<Rightarrow> [''real'', sr (ce_real e), m]
   | Cre_string \<Rightarrow> [''string'', string_of (ce_str e), blank # m]
   | Cre_none \<Rightarrow> [m])"

definition meta_line :: "cre_meta \<Rightarrow> string" where
  "meta_line m = hex_word (cm_low_key m) @ blank # hex_word (cm_high_key m) @ blank # hex_word (cm_default_meta_data m)"

definition text_lines :: "(u64 \<Rightarrow> string) \<Rightarrow> cre_repo \<Rightarrow> string list" where
  "text_lines sr r = [''cenrep'', ''version '' @ number_string (unat (cr_ver r)), ''[owner]'', hex_word (cr_owner_uid r),
     ''[defaultmeta]'', number_string (unat (cr_default_meta r))] @ map meta_line (cr_meta_range r) @ [''[Main]''] @ map (entry_line sr) (cr_entries r)"

definition text_file :: "(u64 \<Rightarrow> string) \<Rightarrow> cre_repo \<Rightarrow> u8 list" where
  "text_file sr r = bytes_of (concat (map (\<lambda>l. l @ [CHR 0x0A]) (text_lines sr r)))"

text \<open>What can be written: texts are not empty and hold nothing that splits or cuts a token.\<close>

definition entry_writable :: "(u64 \<Rightarrow> string) \<Rightarrow> (string \<Rightarrow> u64 option) \<Rightarrow> cre_entry \<Rightarrow> bool" where
  "entry_writable sr stod e \<longleftrightarrow> (case ce_type e of
     Cre_integer \<Rightarrow> unat (ce_int e) < 2 ^ 63
   | Cre_real \<Rightarrow> plain_token (sr (ce_real e)) \<and> stod (sr (ce_real e)) = Some (ce_real e)
   | Cre_string \<Rightarrow> ce_str e \<noteq> [] \<and> (\<forall>w \<in> set (ce_str e). w \<notin> {0x22, 0x2C, 0x09, 0x3D, 0, 0x0A})
   | Cre_none \<Rightarrow> False)"

definition text_writable :: "(u64 \<Rightarrow> string) \<Rightarrow> (string \<Rightarrow> u64 option) \<Rightarrow> cre_repo \<Rightarrow> bool" where
  "text_writable sr stod r \<longleftrightarrow> (\<forall>e \<in> set (cr_entries r). entry_writable sr stod e)
     \<and> distinct (map ce_key (cr_entries r)) \<and> distinct (map cm_low_key (cr_meta_range r))"

lemma hex_number_plain: "0 < k \<Longrightarrow> plain_token (hex_number k n)"
  using digit_string_plain [OF hex_digits_string] by (auto simp: hex_number_def plain_token_def plain_char_def)

lemma number_string_plain: "plain_token (number_string n)"
  using digit_string_plain [of 10 "number_string n"] number_string_digits [of n] by simp

lemma hex_word_plain: "plain_token (hex_word w)"
  by (simp add: hex_word_def hex_number_plain)

lemma hex_word_length [simp]: "length (hex_word w) = 10"
  by (simp add: hex_word_def hex_number_def)

lemma word_less: "unat (w :: u32) < 2 ^ 32" "unat (v :: u8) < 2 ^ 8"
  using unsigned_less [of w] unsigned_less [of v] by simp_all

lemma native_hex_word: "native (hex_word w) = Some (int (unat w))"
  using native_hex [of 8 "unat w"] word_less(1) [of w] by (simp add: hex_word_def)

lemma native_number: "n < 2 ^ 32 \<Longrightarrow> native (number_string n) = Some (int n)" "n < 2 ^ 32 \<Longrightarrow> native (blank # number_string n) = Some (int n)"
  using native_decimal [of n "[]"] native_decimal [of n "[blank]"] by simp_all

lemma hex_word_inject: "hex_word v = hex_word w \<longleftrightarrow> v = w"
  using native_hex_word [of v] native_hex_word [of w] by (metis option.inject of_nat_eq_iff unsigned_word_eqI)

lemma string_of_chars: "c \<in> set (string_of bs) \<longleftrightarrow> (\<exists>w \<in> set bs. c = char_of (unat w))"
  by (auto simp: string_of_def)

lemma char_of_byte_eq: "(char_of (unat (w :: u8)) = c) \<longleftrightarrow> w = of_nat (of_char c)"
proof -
  have w: "unat w < 256" using word_less(2) [of w] by simp
  have c: "(of_char c :: nat) < 256" by simp
  have "char_of (unat w) = c \<longleftrightarrow> unat w = of_char c"
    by (metis char_of_char mod_less of_char_of w)
  also have "\<dots> \<longleftrightarrow> w = of_nat (of_char c)"
  proof
    show "unat w = of_char c \<Longrightarrow> w = of_nat (of_char c)" by (metis of_nat_unat ucast_id)
    show "w = of_nat (of_char c) \<Longrightarrow> unat w = of_char c" using c by (simp add: unsigned_of_nat take_bit_nat_eq_self)
  qed
  finally show ?thesis .
qed

lemma plain_last: "plain_token t \<Longrightarrow> last (s @ t) \<noteq> CHR 0x0D"
  using last_in_set [of t] by (auto simp: plain_token_def plain_char_def)

lemma last_blank_number: "last (l @ blank # number_string n) \<noteq> CHR 0x0D"
  using plain_last [OF number_string_plain, of "l @ [blank]" n] by simp

lemma new_stream: "l @ t \<noteq> [] \<Longrightarrow> plain_token t \<Longrightarrow> new_linestream (l @ t) = stream (l @ t)"
  using plain_last [of t l] by (intro new_linestream_plain) auto

lemma reads_one: "plain_token t \<Longrightarrow> ls_reads (new_linestream t) [t]"
  using reads_plain [of t "[]" "[]"] reads_end new_stream [of "[]" t] by (auto simp: plain_token_def)

lemma reads_then:
  "plain_token t \<Longrightarrow> ls_reads (stream r) (u # us) \<Longrightarrow> ls_reads (stream (t @ blank # r)) (t # u # us)"
  by (intro reads_plain reads_blank) simp_all

lemma reads_last: "plain_token t \<Longrightarrow> ls_reads (stream t) [t]"
  using reads_plain [of t "[]" "[]"] reads_end by simp

lemma meta_line_reads: "ls_reads (new_linestream (meta_line m)) [hex_word (cm_low_key m), hex_word (cm_high_key m), hex_word (cm_default_meta_data m)]"
proof -
  have "new_linestream (meta_line m) = stream (meta_line m)"
    using new_stream [of "hex_word (cm_low_key m) @ blank # hex_word (cm_high_key m) @ [blank]" "hex_word (cm_default_meta_data m)"]
    by (simp add: meta_line_def hex_word_plain)
  then show ?thesis by (simp add: meta_line_def reads_then reads_last hex_word_plain)
qed

lemma quoted_reads:
  assumes "quotable q"
  shows "ls_reads (stream (CHR 0x22 # q @ CHR 0x22 # blank # number_string n)) [q, blank # number_string n]"
proof (rule reads_quoted [OF assms])
  have p: "plain_token (number_string n)" by (rule number_string_plain)
  then have "quotable (blank # number_string n)" by (auto simp: quotable_def plain_token_def plain_char_def)
  from reads_quoted [OF this, of "[]" "[]"] reads_end
  show "ls_reads (stream (CHR 0x22 # blank # number_string n)) [blank # number_string n]" by simp
qed simp

lemma writable_text:
  assumes "entry_writable sr stod e" and "ce_type e = Cre_string"
  shows "quotable (string_of (ce_str e))" "c_str (string_of (ce_str e)) = string_of (ce_str e)" "CHR 0x0A \<notin> set (string_of (ce_str e))"
    "bytes_of (string_of (ce_str e)) = ce_str e"
proof -
  have w: "\<forall>w \<in> set (ce_str e). w \<notin> {0x22, 0x2C, 0x09, 0x3D, 0, 0x0A}" and ne: "ce_str e \<noteq> []" using assms by (simp_all add: entry_writable_def)
  have c: "c \<notin> {CHR 0x22, CHR '','', c_tab, CHR ''='', CHR 0x00, CHR 0x0A}" if "c \<in> set (string_of (ce_str e))" for c
  proof -
    from that [unfolded string_of_chars] obtain v where v: "v \<in> set (ce_str e)" "c = char_of (unat v)" by blast
    then show ?thesis using bspec [OF w v(1)] by (auto simp: char_of_byte_eq)
  qed
  then show "quotable (string_of (ce_str e))" "CHR 0x0A \<notin> set (string_of (ce_str e))"
    using ne by (auto simp: quotable_def string_of_def)
  show "c_str (string_of (ce_str e)) = string_of (ce_str e)" using c by (auto simp: c_str_def takeWhile_eq_all_conv)
  show "bytes_of (string_of (ce_str e)) = ce_str e"
  proof -
    have "((\<lambda>c. of_nat (of_char c)) \<circ> (\<lambda>w. char_of (unat w))) w = w" for w :: u8
      unfolding o_def using char_of_byte_eq by metis
    then show ?thesis unfolding bytes_of_def string_of_def map_map by (rule map_idI)
  qed
qed

lemma entry_line_reads:
  assumes "entry_writable sr stod e"
  shows "ls_reads (new_linestream (entry_line sr e)) (hex_word (ce_key e) # entry_tokens sr e)"
proof -
  let ?m = "number_string (unat (ce_metadata_val e))"
  have m: "plain_token ?m" by (rule number_string_plain)
  have "new_linestream (entry_line sr e) = stream (entry_line sr e)"
    unfolding entry_line_def append_Cons [symmetric] using last_blank_number
    by (intro new_linestream_plain) auto
  moreover have "ls_reads (stream (entry_line sr e)) (hex_word (ce_key e) # entry_tokens sr e)"
  proof (cases "ce_type e")
    case Cre_integer
    have p: "plain_token ''int''" "plain_token (hex_number 16 (unat (ce_int e)))" by (simp_all add: plain_token_def [of "''int''"] plain_char_def hex_number_plain)
    from reads_then [OF hex_word_plain reads_then [OF p(1) reads_then [OF p(2) reads_last [OF m]]], of "ce_key e"]
    show ?thesis using Cre_integer by (simp add: entry_line_def entry_tokens_def)
  next
    case Cre_real
    have p: "plain_token ''real''" "plain_token (sr (ce_real e))" using assms Cre_real by (simp_all add: entry_writable_def plain_token_def [of "''real''"] plain_char_def)
    from reads_then [OF hex_word_plain reads_then [OF p(1) reads_then [OF p(2) reads_last [OF m]]], of "ce_key e"]
    show ?thesis using Cre_real by (simp add: entry_line_def entry_tokens_def)
  next
    case Cre_string
    have "plain_token ''string''" by (simp add: plain_token_def plain_char_def)
    from reads_then [OF hex_word_plain reads_then [OF this quoted_reads [OF writable_text(1) [OF assms Cre_string]]], of "ce_key e"]
    show ?thesis using Cre_string by (simp add: entry_line_def entry_tokens_def)
  next
    case Cre_none
    then show ?thesis using assms by (simp add: entry_writable_def)
  qed
  ultimately show ?thesis by simp
qed

section \<open>The lines loaded\<close>

definition values_of :: "string list \<Rightarrow> ini_node option list" where
  "values_of = map (\<lambda>t. Some (Ini_value (c_str t)))"

definition hex_pair :: "u32 \<Rightarrow> string list \<Rightarrow> ini_node" where
  "hex_pair key ts = Ini_pair (hex_word key) (values_of ts)"

lemma named_hex_pair: "named (hex_word k) (hex_pair key ts) \<longleftrightarrow> key = k"
  by (simp add: named_def hex_pair_def plain_c_str hex_word_plain hex_word_inject)

lemma load_lines_step: "load_line True l x = Some (True, y) \<Longrightarrow> load_lines True (l # ls) x = load_lines True ls y"
  by simp

lemma load_hex_pair:
  assumes "ls_reads (new_linestream l) (hex_word key # ts)" and "ts \<noteq> []" and "i < length ns" and "ns ! i = Ini_section nm ys"
    and "\<not> node_exists (hex_word key) ys"
  shows "load_line True l (At_section i, ns) = Some (True, At_section i, ns[i := Ini_section nm (ys @ [hex_pair key ts])])"
proof -
  obtain u us where "ts = u # us" using assms(2) by (cases ts) auto
  then show ?thesis
    using load_pair_line [of l "hex_word key" u us "At_section i" ns] assms
    by (simp add: plain_key_token hex_word_plain in_section_def plain_c_str hex_pair_def values_of_def)
qed

lemma load_hex_pairs:
  assumes "\<forall>x \<in> set xs. ls_reads (new_linestream (line x)) (hex_word (key x) # toks x) \<and> toks x \<noteq> []" and "distinct (map key xs)"
    and "\<forall>x \<in> set xs. \<not> node_exists (hex_word (key x)) ys" and "i < length ns" and "ns ! i = Ini_section nm ys"
  shows "load_lines True (map line xs @ rest) (At_section i, ns)
    = load_lines True rest (At_section i, ns[i := Ini_section nm (ys @ map (\<lambda>x. hex_pair (key x) (toks x)) xs)])"
  using assms
proof (induction xs arbitrary: ns ys)
  case Nil
  then show ?case using list_update_id [of ns i] by simp
next
  case (Cons x xs)
  let ?ys = "ys @ [hex_pair (key x) (toks x)]"
  have "load_line True (line x) (At_section i, ns) = Some (True, At_section i, ns[i := Ini_section nm ?ys])"
    using Cons.prems by (intro load_hex_pair) simp_all
  moreover have "load_lines True (map line xs @ rest) (At_section i, ns[i := Ini_section nm ?ys])
      = load_lines True rest (At_section i, (ns[i := Ini_section nm ?ys])[i := Ini_section nm (?ys @ map (\<lambda>x. hex_pair (key x) (toks x)) xs)])"
    using Cons.prems by (intro Cons.IH) (auto simp: node_exists_def named_hex_pair)
  ultimately show ?case by simp
qed

lemma load_value:
  assumes "plain_token t" and "i < length ns" and "ns ! i = Ini_section nm []"
  shows "load_line True t (At_section i, ns) = Some (True, At_section i, ns[i := Ini_section nm [Ini_value t]])"
  using load_value_line [OF reads_one [OF assms(1)] plain_key_token [OF assms(1)]] assms
  by (simp add: in_section_def create_value_def create_node_def node_exists_def plain_c_str)

lemma load_section:
  assumes "plain_token t" and "CHR '']'' \<notin> set t" and "\<not> node_exists t ns"
  shows "load_line True (CHR ''['' # t @ [CHR '']'']) (sec, ns) = Some (True, At_section (length ns), ns @ [Ini_section t []])"
proof -
  let ?l = "CHR ''['' # t @ [CHR '']'']"
  let ?P = "\<lambda>c. c \<noteq> CHR '']'' \<and> c \<noteq> CHR '','' \<and> c \<noteq> c_tab"
  have "takeWhile ?P ((CHR ''['' # t) @ [CHR '']'']) = CHR ''['' # t \<and> dropWhile ?P ((CHR ''['' # t) @ [CHR '']'']) = [CHR '']'']"
    using assms(1,2) by (intro takeWhile_stop) (auto simp: plain_token_def plain_char_def)
  then have r: "raw_token True ?l = (?l, [CHR '']''])" by (simp add: raw_token_def Let_def)
  have "CHR ''='' \<notin> set ?l" using plain_no_equals [OF assms(1)] by simp
  then have "next_string True (stream ?l) = (?l, stream [CHR '']''])" by (intro next_string_token [OF _ _ _ r]) simp_all
  moreover have "new_linestream ?l = stream ?l" by (intro new_linestream_plain) simp_all
  moreover have "t \<noteq> []" using assms(1) by (simp add: plain_token_def)
  ultimately show ?thesis using assms(3) plain_c_str [OF assms(1)]
    by (simp add: load_line_def create_section_def create_node_def)
qed

definition text_nodes :: "(u64 \<Rightarrow> string) \<Rightarrow> cre_repo \<Rightarrow> ini_node list" where
  "text_nodes sr r = [Ini_value ''cenrep'', Ini_pair ''version'' [Some (Ini_value (number_string (unat (cr_ver r))))],
     Ini_section ''owner'' [Ini_value (hex_word (cr_owner_uid r))],
     Ini_section ''defaultmeta'' (Ini_value (number_string (unat (cr_default_meta r)))
       # map (\<lambda>m. hex_pair (cm_low_key m) [hex_word (cm_high_key m), hex_word (cm_default_meta_data m)]) (cr_meta_range r)),
     Ini_section ''Main'' (map (\<lambda>e. hex_pair (ce_key e) (entry_tokens sr e)) (cr_entries r))]"

lemma names_plain: "plain_token ''cenrep''" "plain_token ''version''" "plain_token ''owner''" "plain_token ''defaultmeta''" "plain_token ''Main''"
  by (simp_all add: plain_token_def plain_char_def)

lemma number_no_hex: "\<not> node_exists (hex_word k) [Ini_value (number_string n)]"
proof
  assume "node_exists (hex_word k) [Ini_value (number_string n)]"
  then have "take 10 (number_string n) = hex_word k" by (simp add: node_exists_def named_def plain_c_str number_string_plain)
  moreover have "CHR ''x'' \<in> set (hex_word k)" by (simp add: hex_word_def hex_number_def)
  ultimately have "CHR ''x'' \<in> set (number_string n)" by (metis in_set_takeD)
  then obtain d where "d < 10" "digit_char d = CHR ''x''" using number_string_digits [of n] unfolding digit_string_def by metis
  then show False using digit_chars(7) [of d] by simp
qed

lemma load_text_lines:
  assumes "text_writable sr stod r"
  shows "load_lines True (text_lines sr r) (At_file, []) = Some (0, text_nodes sr r)"
proof -
  let ?ver = "number_string (unat (cr_ver r))" and ?own = "hex_word (cr_owner_uid r)" and ?dm = "number_string (unat (cr_default_meta r))"
  let ?n0 = "[Ini_value ''cenrep'']" let ?n1 = "?n0 @ [Ini_pair ''version'' [Some (Ini_value ?ver)]]"
  let ?n2 = "?n1 @ [Ini_section ''owner'' [Ini_value ?own]]"
  let ?mp = "map (\<lambda>m. hex_pair (cm_low_key m) [hex_word (cm_high_key m), hex_word (cm_default_meta_data m)]) (cr_meta_range r)"
  have 1: "load_line True ''cenrep'' (At_file, []) = Some (True, At_file, ?n0)"
    using load_value_line [OF reads_one [OF names_plain(1)] plain_key_token [OF names_plain(1)]]
    by (simp add: in_section_def create_value_def create_node_def node_exists_def plain_c_str names_plain)
  have 2: "load_line True (''version'' @ blank # ?ver) (At_file, ?n0) = Some (True, At_file, ?n1)"
  proof -
    have "ls_reads (new_linestream (''version'' @ blank # ?ver)) [''version'', ?ver]"
      using reads_then [OF names_plain(2) reads_last [OF number_string_plain]] new_stream [of "''version'' @ [blank]", OF _ number_string_plain] by simp
    from load_pair_line [OF this plain_key_token [OF names_plain(2)]] show ?thesis
      by (simp add: in_section_def node_exists_def named_def plain_c_str names_plain number_string_plain)
  qed
  have 3: "load_line True ''[owner]'' (At_file, ?n1) = Some (True, At_section 2, ?n1 @ [Ini_section ''owner'' []])"
    using load_section [OF names_plain(3), of ?n1 At_file] by (simp add: node_exists_def named_def plain_c_str names_plain)
  have 4: "load_line True ?own (At_section 2, ?n1 @ [Ini_section ''owner'' []]) = Some (True, At_section 2, ?n2)"
    using load_value [OF hex_word_plain, of 2 "?n1 @ [Ini_section ''owner'' []]"] by simp
  have 5: "load_line True ''[defaultmeta]'' (At_section 2, ?n2) = Some (True, At_section 3, ?n2 @ [Ini_section ''defaultmeta'' []])"
    using load_section [OF names_plain(4), of ?n2 "At_section 2"] by (simp add: node_exists_def named_def plain_c_str names_plain)
  have 6: "load_line True ?dm (At_section 3, ?n2 @ [Ini_section ''defaultmeta'' []])
      = Some (True, At_section 3, ?n2 @ [Ini_section ''defaultmeta'' [Ini_value ?dm]])"
    using load_value [OF number_string_plain, of 3 "?n2 @ [Ini_section ''defaultmeta'' []]"] by simp
  have 7: "load_lines True (map meta_line (cr_meta_range r) @ rest) (At_section 3, ?n2 @ [Ini_section ''defaultmeta'' [Ini_value ?dm]])
      = load_lines True rest (At_section 3, ?n2 @ [Ini_section ''defaultmeta'' ([Ini_value ?dm] @ ?mp)])" for rest
    using load_hex_pairs [of "cr_meta_range r" meta_line cm_low_key "\<lambda>m. [hex_word (cm_high_key m), hex_word (cm_default_meta_data m)]"
        "[Ini_value ?dm]" 3 "?n2 @ [Ini_section ''defaultmeta'' [Ini_value ?dm]]" "''defaultmeta''" rest] assms
    by (simp add: meta_line_reads number_no_hex text_writable_def)
  let ?n3 = "?n2 @ [Ini_section ''defaultmeta'' ([Ini_value ?dm] @ ?mp)]"
  have 8: "load_line True ''[Main]'' (At_section 3, ?n3) = Some (True, At_section 4, ?n3 @ [Ini_section ''Main'' []])"
    using load_section [OF names_plain(5), of ?n3 "At_section 3"] by (simp add: node_exists_def named_def plain_c_str names_plain)
  have 9: "load_lines True (map (entry_line sr) (cr_entries r) @ []) (At_section 4, ?n3 @ [Ini_section ''Main'' []])
      = load_lines True [] (At_section 4, ?n3 @ [Ini_section ''Main'' ([] @ map (\<lambda>e. hex_pair (ce_key e) (entry_tokens sr e)) (cr_entries r))])"
  proof -
    have "entry_tokens sr e \<noteq> []" for e by (simp add: entry_tokens_def Let_def split: cre_type.splits)
    moreover have "\<forall>e \<in> set (cr_entries r). ls_reads (new_linestream (entry_line sr e)) (hex_word (ce_key e) # entry_tokens sr e)"
      using assms by (auto simp: text_writable_def intro: entry_line_reads)
    ultimately show ?thesis
      using load_hex_pairs [of "cr_entries r" "entry_line sr" ce_key "entry_tokens sr" "[]" 4 "?n3 @ [Ini_section ''Main'' []]" "''Main''" "[]"] assms
      by (simp add: node_exists_def text_writable_def)
  qed
  show ?thesis
    unfolding text_lines_def append_Cons append_Nil
    using 9 7 load_lines_step [OF 1] load_lines_step [OF 2] load_lines_step [OF 3] load_lines_step [OF 4] load_lines_step [OF 5] load_lines_step [OF 6] load_lines_step [OF 8]
    by (simp del: load_lines.simps(2) add: text_nodes_def)
qed

section \<open>The text of the file\<close>

lemma byte_lines_line: "CHR 0x0A \<notin> set l \<Longrightarrow> byte_lines acc (l @ CHR 0x0A # r) = (rev acc @ l) # byte_lines [] r"
  by (induction l arbitrary: acc) auto

lemma byte_lines_concat: "\<forall>l \<in> set ls. CHR 0x0A \<notin> set l \<Longrightarrow> byte_lines [] (concat (map (\<lambda>l. l @ [CHR 0x0A]) ls)) = ls"
  by (induction ls) (simp_all add: byte_lines_line)

lemma string_bytes: "map (\<lambda>w. char_of (unat w)) (bytes_of s) = s"
proof -
  have "((\<lambda>w. char_of (unat w)) \<circ> (\<lambda>c. of_nat (of_char c) :: u8)) c = c" for c :: char
    unfolding o_def char_of_byte_eq ..
  then show ?thesis unfolding bytes_of_def map_map by (rule map_idI)
qed

lemma plain_no_newline: "plain_token t \<Longrightarrow> CHR 0x0A \<notin> set t"
  by (auto simp: plain_token_def plain_char_def)

lemma entry_line_no_newline:
  assumes "entry_writable sr stod e"
  shows "CHR 0x0A \<notin> set (entry_line sr e)"
proof -
  note p = plain_no_newline [OF hex_word_plain] plain_no_newline [OF number_string_plain] plain_no_newline [OF hex_number_plain]
  show ?thesis
    using assms p writable_text(3) [OF assms] plain_no_newline [of "sr (ce_real e)"]
    by (cases "ce_type e") (simp_all add: entry_line_def entry_writable_def)
qed

lemma text_lines_no_newline:
  assumes "text_writable sr stod r"
  shows "\<forall>l \<in> set (text_lines sr r). CHR 0x0A \<notin> set l"
proof -
  note p = plain_no_newline [OF hex_word_plain] plain_no_newline [OF number_string_plain]
  have "\<forall>e \<in> set (cr_entries r). CHR 0x0A \<notin> set (entry_line sr e)"
    using assms entry_line_no_newline by (simp add: text_writable_def) blast
  then show ?thesis using p by (auto simp: text_lines_def meta_line_def)
qed

lemma text_file_lines:
  assumes "text_writable sr stod r"
  shows "file_lines utf8 (text_file sr r) = Some (text_lines sr r)"
proof -
  let ?s = "concat (map (\<lambda>l. l @ [CHR 0x0A]) (text_lines sr r))"
  obtain s where s: "?s = CHR ''c'' # CHR ''e'' # s" by (simp add: text_lines_def)
  have b: "bytes_of ?s = 0x63 # 0x65 # bytes_of s" unfolding s by (simp add: bytes_of_def)
  have "file_lines utf8 (bytes_of ?s) = Some (byte_lines [] (map (\<lambda>w. char_of (unat w)) (bytes_of ?s)))"
    unfolding file_lines_def b by simp
  then show ?thesis unfolding text_file_def string_bytes byte_lines_concat [OF text_lines_no_newline [OF assms]] .
qed

section \<open>The repository read\<close>

lemma native_values: "i < length ts \<Longrightarrow> native_at i (values_of ts) = native (c_str (ts ! i))"
  and value_values: "i < length ts \<Longrightarrow> value_at i (values_of ts) = Some (c_str (ts ! i))"
  by (simp_all add: native_at_def value_at_def values_of_def)

lemma values_length: "length (values_of ts) = length ts"
  by (simp add: values_of_def)

lemma word_of_unat: "word_of_int (int (unat w)) = (w :: 'a::len word)"
  by simp

lemma read_metas_written:
  "read_metas msk (map (\<lambda>m. hex_pair (cm_low_key m) [hex_word (cm_high_key m), hex_word (cm_default_meta_data m)]) ms) r
    = Some (True, r\<lparr>cr_meta_range := cr_meta_range r @ map (\<lambda>m. m\<lparr>cm_key_mask := msk\<rparr>) ms\<rparr>)"
proof (induction ms arbitrary: r)
  case (Cons m ms)
  have "m\<lparr>cm_key_mask := msk\<rparr> = \<lparr>cm_low_key = cm_low_key m, cm_high_key = cm_high_key m, cm_key_mask = msk, cm_default_meta_data = cm_default_meta_data m\<rparr>"
    by (cases m) simp
  then show ?case
    using Cons.IH by (simp add: hex_pair_def native_hex_word native_values plain_c_str hex_word_plain)
qed simp

text \<open>What is read of an entry: the value its type asks for, and what happened to be in the rest.\<close>

definition entry_read :: "ini_env \<Rightarrow> cre_entry \<Rightarrow> cre_entry" where
  "entry_read ie e = (let x = (ie_entry ie)\<lparr>ce_key := ce_key e, ce_type := ce_type e, ce_str := [], ce_metadata_val := ce_metadata_val e\<rparr> in
     case ce_type e of Cre_integer \<Rightarrow> x\<lparr>ce_int := ce_int e\<rparr> | Cre_real \<Rightarrow> x\<lparr>ce_real := ce_real e\<rparr> | Cre_string \<Rightarrow> x\<lparr>ce_str := ce_str e\<rparr> | Cre_none \<Rightarrow> x)"

lemma entry_key_written: "entry_key (c_str (hex_word k)) = Some k"
proof -
  have "native (hex_word k) = Some (strtoll 16 (hex_digits 8 (unat k)))" by (simp add: native_def hex_word_def hex_number_def)
  then have "strtoll 16 (hex_digits 8 (unat k)) = int (unat k)" using native_hex_word [of k] by simp
  then show ?thesis by (simp add: entry_key_def plain_c_str hex_word_plain hex_word_def hex_number_def
      plain_c_str [OF hex_word_plain, unfolded hex_word_def hex_number_def])
qed

lemma type_names: "c_str ''int'' = ''int''" "c_str ''real'' = ''real''" "c_str ''string'' = ''string''"
  by (simp_all add: c_str_def)

lemma entry_value_written:
  assumes "entry_writable sr (ie_stod ie) e"
  shows "\<exists>tok x. value_at 0 (values_of (entry_tokens sr e)) = Some tok \<and> identify_type tok = Some (ce_type e)
    \<and> entry_value ie (ce_type e) (values_of (entry_tokens sr e)) = Some x
    \<and> length (entry_tokens sr e) = 3 \<and> native_at 2 (values_of (entry_tokens sr e)) = Some (int (unat (ce_metadata_val e)))
    \<and> x\<lparr>ce_key := ce_key e, ce_metadata_val := ce_metadata_val e\<rparr> = entry_read ie e"
proof (cases "ce_type e")
  case Cre_integer
  have "native (hex_number 16 (unat (ce_int e))) = Some (int (unat (ce_int e)))"
    using assms Cre_integer by (intro native_hex) (simp_all add: entry_writable_def)
  then show ?thesis using Cre_integer native_number(1) [OF word_less(1)]
    by (simp add: entry_tokens_def value_values native_values plain_c_str hex_number_plain number_string_plain identify_type_def entry_value_def
        entry_read_def type_names)
next
  case Cre_real
  then show ?thesis using assms native_number(1) [OF word_less(1)]
    by (simp add: entry_tokens_def value_values native_values plain_c_str number_string_plain identify_type_def entry_value_def entry_read_def
        type_names entry_writable_def)
next
  case Cre_string
  have "c_str (blank # number_string n) = blank # number_string n" for n
    using plain_c_str [OF number_string_plain, of n] by (simp add: c_str_def)
  then show ?thesis using assms Cre_string native_number(2) [OF word_less(1)] writable_text(2,4) [OF assms Cre_string]
    by (simp add: entry_tokens_def value_values native_values identify_type_def entry_value_def entry_read_def type_names)
next
  case Cre_none
  then show ?thesis using assms by (simp add: entry_writable_def)
qed

lemma read_entries_written:
  assumes "\<forall>e \<in> set es. entry_writable sr (ie_stod ie) e" and "distinct (map ce_key es)" and "\<forall>e \<in> set es. find_entry (ce_key e) r = None"
  shows "read_entries ie (map (\<lambda>e. hex_pair (ce_key e) (entry_tokens sr e)) es) r = Some (True, r\<lparr>cr_entries := cr_entries r @ map (entry_read ie) es\<rparr>)"
  using assms
proof (induction es arbitrary: r)
  case (Cons e es)
  obtain tok x where e: "value_at 0 (values_of (entry_tokens sr e)) = Some tok" "identify_type tok = Some (ce_type e)"
    "entry_value ie (ce_type e) (values_of (entry_tokens sr e)) = Some x" "length (entry_tokens sr e) = 3"
    "native_at 2 (values_of (entry_tokens sr e)) = Some (int (unat (ce_metadata_val e)))"
    "x\<lparr>ce_key := ce_key e, ce_metadata_val := ce_metadata_val e\<rparr> = entry_read ie e"
    using entry_value_written [of sr ie e] Cons.prems(1) by auto
  let ?r = "r\<lparr>cr_entries := cr_entries r @ [entry_read ie e]\<rparr>"
  have a: "snd (add_new_entry (ce_key e) x (Some (ce_metadata_val e)) r) = ?r" using Cons.prems(3) e(6) by (simp add: add_new_entry_def)
  have k: "ce_key (entry_read ie e) = ce_key e" unfolding e(6) [symmetric] by simp
  have "\<forall>y \<in> set es. find_entry (ce_key y) ?r = None"
    using Cons.prems(2,3) k by (auto simp: find_entry_def find_index_None_iff image_iff)
  then have "read_entries ie (map (\<lambda>e. hex_pair (ce_key e) (entry_tokens sr e)) es) ?r = Some (True, ?r\<lparr>cr_entries := cr_entries ?r @ map (entry_read ie) es\<rparr>)"
    using Cons.prems by (intro Cons.IH) simp_all
  then show ?case using e(1-5) a by (simp add: hex_pair_def entry_key_written values_length)
qed simp

lemma text_file_read:
  assumes "text_writable sr (ie_stod ie) x" and "\<forall>e \<in> set (cr_entries x). find_entry (ce_key e) r = None"
  shows "parse_new_centrep_ini ie (Some (text_file sr x)) r = Some (True, r\<lparr>cr_ver := cr_ver x, cr_owner_uid := cr_owner_uid x,
    cr_default_meta := cr_default_meta x, cr_meta_range := cr_meta_range r @ map (\<lambda>m. m\<lparr>cm_key_mask := ie_mask ie\<rparr>) (cr_meta_range x),
    cr_entries := cr_entries r @ map (entry_read ie) (cr_entries x)\<rparr>)"
proof -
  have ini: "ini_load (ie_utf8 ie) True (Some (text_file sr x)) = Some (0, text_nodes sr x)"
    using text_file_lines [OF assms(1)] load_text_lines [OF assms(1)] by (simp add: ini_load_def)
  note named = named_def plain_c_str names_plain
  have find: "ini_find ''cenrep'' (text_nodes sr x) \<noteq> None"
    "ini_find ''version'' (text_nodes sr x) = Some (Ini_pair ''version'' [Some (Ini_value (number_string (unat (cr_ver x))))])"
    "ini_find ''owner'' (text_nodes sr x) = Some (Ini_section ''owner'' [Ini_value (hex_word (cr_owner_uid x))])"
    "ini_find ''defaultmeta'' (text_nodes sr x) = Some (Ini_section ''defaultmeta'' (Ini_value (number_string (unat (cr_default_meta x)))
       # map (\<lambda>m. hex_pair (cm_low_key m) [hex_word (cm_high_key m), hex_word (cm_default_meta_data m)]) (cr_meta_range x)))"
    by (simp_all add: ini_find_def text_nodes_def named)
  have main: "ini_find_ignore_case ''Main'' (text_nodes sr x) = Some (Ini_section ''Main'' (map (\<lambda>e. hex_pair (ce_key e) (entry_tokens sr e)) (cr_entries x)))"
    by (simp add: ini_find_ignore_case_def text_nodes_def plain_c_str names_plain)
  have "unat (cr_ver x) < 2 ^ 32" using word_less(2) [of "cr_ver x"] by simp
  note ver = native_number(1) [OF this] and dm = native_number(1) [OF word_less(1) [of "cr_default_meta x"]]
  let ?r = "r\<lparr>cr_ver := cr_ver x, cr_owner_uid := cr_owner_uid x, cr_default_meta := cr_default_meta x,
    cr_meta_range := cr_meta_range r @ map (\<lambda>m. m\<lparr>cm_key_mask := ie_mask ie\<rparr>) (cr_meta_range x)\<rparr>"
  have "find_entry k ?r = find_entry k r" for k by (simp add: find_entry_def)
  then have "read_entries ie (map (\<lambda>e. hex_pair (ce_key e) (entry_tokens sr e)) (cr_entries x)) ?r
      = Some (True, ?r\<lparr>cr_entries := cr_entries r @ map (entry_read ie) (cr_entries x)\<rparr>)"
    using read_entries_written [of "cr_entries x" sr ie ?r] assms by (simp add: text_writable_def)
  then show ?thesis
    using find main ver dm
    by (simp add: parse_new_centrep_ini_def ini native_at_def value_at_def native_hex_word read_metas_written)
qed

text \<open>C17. Reading a repository written as a text file succeeds and gives its version, owner and default meta data, and appends its
  ranges and entries to those of the repository it is read into. Each range has its low key, high key and default meta data, but its
  mask is the value the uninitialised variable held; each entry has its key, type, meta data and the value of its type, the texts of
  other types are empty and its other fields are those of the uninitialised variable. Assumed of the repository that is written: every
  entry is an integer below 2 to the 63, a real whose printed form is a plain word that the number parser given reads back, or a text that is not
  empty and holds no quote, comma, tab, equals sign, line feed or zero; no two entries have the same key and no two ranges the same low key.
  Assumed of the other: it has no entry with one of these keys.\<close>

theorem text_repository_roundtrip:
  assumes "text_writable sr (ie_stod ie) x" and "\<forall>e \<in> set (cr_entries x). find_entry (ce_key e) r = None"
  shows "parse_new_centrep_ini ie (Some (text_file sr x)) r = Some (True, r\<lparr>cr_ver := cr_ver x, cr_owner_uid := cr_owner_uid x,
    cr_default_meta := cr_default_meta x, cr_meta_range := cr_meta_range r @ map (\<lambda>m. m\<lparr>cm_key_mask := ie_mask ie\<rparr>) (cr_meta_range x),
    cr_entries := cr_entries r @ map (entry_read ie) (cr_entries x)\<rparr>)"
  using assms by (rule text_file_read)

definition sample_ini :: ini_env where
  "sample_ini = \<lparr>ie_utf8 = (\<lambda>_. []), ie_stod = (\<lambda>_. None), ie_entry = new_entry, ie_mask = 0\<rparr>"

definition sample_text :: cre_repo where
  "sample_text = new_repo\<lparr>cr_ver := 1, cr_owner_uid := 0x20004C4D, cr_default_meta := 10, cr_meta_range := [new_meta\<lparr>cm_low_key := 0x40, cm_high_key := 0x400\<rparr>],
     cr_entries := [new_entry\<lparr>ce_key := 12, ce_type := Cre_integer, ce_int := 15\<rparr>, new_entry\<lparr>ce_key := 78, ce_type := Cre_string, ce_str := [0x70, 0x65, 0x77]\<rparr>]\<rparr>"

lemma sample_text_writable: "text_writable sr stod sample_text"
  by (simp add: text_writable_def entry_writable_def sample_text_def new_entry_def)

theorem text_repository_roundtrip_witness:
  "parse_new_centrep_ini sample_ini (Some (text_file (\<lambda>_. []) sample_text)) new_repo = Some (True, new_repo\<lparr>cr_ver := cr_ver sample_text,
    cr_owner_uid := cr_owner_uid sample_text, cr_default_meta := cr_default_meta sample_text,
    cr_meta_range := cr_meta_range new_repo @ map (\<lambda>m. m\<lparr>cm_key_mask := ie_mask sample_ini\<rparr>) (cr_meta_range sample_text),
    cr_entries := cr_entries new_repo @ map (entry_read sample_ini) (cr_entries sample_text)\<rparr>)"
  by (rule text_repository_roundtrip [OF sample_text_writable]) (simp add: find_entry_def new_repo_def)

section \<open>The server opens it\<close>

text \<open>C18. A repository whose text file has the form the writer above gives it (its entries as for the round trip: integers below 2 to
  the 63, reals the parser reads back, unquoted nonempty texts, distinct keys) is opened from that file when it is not loaded yet, the first drive
  that is searched is not the ROM drive, has the folder of saved repositories but no saved file of this key in it, and the path of the
  text file on that drive is known to the host. The server then has the entries of the file as they are read (uninitialised fields
  included), under the identifier that was asked for, with an access count of one, and will save them on that drive. Text files of
  another form are not covered.\<close>

theorem text_repository_opens:
  assumes "ev_ini ev = text_reader ie files" and "text_writable sr (ie_stod ie) x" and "files p = Some (text_file sr x)"
    and "ev_raw ev (drive_letter d # private_dir_persists @ hex_string (unat key) @ ''.TXT'') = Some p"
    and "get_repo key s = None" and "cn_avail (scanned s) = d # ds" and "cn_rom_drv (scanned s) \<noteq> d"
    and "io_exist (persists_folder d (sv_storage s)) (sv_storage s)"
    and "\<not> io_exist (persists_folder d (sv_storage s) @ hex_string (unat key) @ ''.CRE'') (sv_storage s)"
  shows "\<exists>s' r. load_repo_with_lookup ev key s = Some (True, s') \<and> get_repo key s' = Some r \<and> cr_uid (rm_repo r) = key
    \<and> cr_entries (rm_repo r) = map (entry_read ie) (cr_entries x) \<and> rm_reside_place r = d \<and> rm_access_count r = 1"
proof -
  let ?r = "(rm_repo fresh_repo)\<lparr>cr_uid := key\<rparr>"
  have "\<forall>e \<in> set (cr_entries x). find_entry (ce_key e) ?r = None" by (simp add: find_entry_def fresh_repo_def new_repo_def)
  note rd = text_file_read [OF assms(2) this]
  then obtain repo where repo: "text_reader ie files p ?r = Some (True, repo)" "cr_uid repo = key" "cr_entries repo = map (entry_read ie) (cr_entries x)"
    using assms(3) by (auto simp: text_reader_def fresh_repo_def new_repo_def)
  have "load_repo_adv ev key False s = Some (0, fresh_repo\<lparr>rm_repo := repo, rm_reside_place := d, rm_access_count := 1\<rparr>, s\<lparr>sv_cenrep := scanned s\<rparr>)"
    using assms(1,4,6-9) repo(1) by (simp add: load_repo_adv_def scanned_def Let_def not_sym)
  then show ?thesis using assms(5) repo(2,3) by (simp add: load_repo_with_lookup_def)
qed

definition text_env :: cenrep_env where
  "text_env = sample_env\<lparr>ev_raw := Some, ev_ini := text_reader sample_ini (\<lambda>_. Some (text_file (\<lambda>_. []) sample_text))\<rparr>"

definition text_service :: service where
  "text_service = (restarted sample_service)\<lparr>sv_storage := sample_storage\<lparr>st_dirs := (\<lambda>p. p = lowercase (persists_folder 2 sample_storage))\<rparr>\<rparr>"

theorem text_repository_opens_witness:
  "\<exists>s' r. load_repo_with_lookup text_env 0x100 text_service = Some (True, s') \<and> get_repo 0x100 s' = Some r \<and> cr_uid (rm_repo r) = 0x100
    \<and> cr_entries (rm_repo r) = map (entry_read sample_ini) (cr_entries sample_text) \<and> rm_reside_place r = 2 \<and> rm_access_count r = 1"
proof (rule text_repository_opens [OF _ sample_text_writable])
  have f: "persists_folder 2 (sv_storage text_service) = persists_folder 2 sample_storage"
    by (simp add: text_service_def persists_folder_def)
  show "io_exist (persists_folder 2 (sv_storage text_service)) (sv_storage text_service)"
    unfolding f by (simp add: text_service_def io_exist_def)
  show "\<not> io_exist (persists_folder 2 (sv_storage text_service) @ hex_string (unat (0x100 :: u32)) @ ''.CRE'') (sv_storage text_service)"
    unfolding f by (simp add: text_service_def io_exist_def lowercase_def sample_storage_def)
qed (simp_all add: text_service_def text_env_def restarted_def scanned_def get_repo_def)

end
