(* ===== verification/Scsu.thy ===== *)
theory Scsu imports Prelude begin

text \<open>
  The compression scheme for Unicode of \<open>common/unicode.cpp\<close>: bytes select and quote windows of 128
  characters. The compressor groups characters with the same treatment and chooses a window for each
  group; the expander follows the tags.

  Bytes and 16-bit codes are naturals; where the code truncates a value to a byte, \<open>mod 256\<close> is written. The
  buffer for the result is the room left in it and what has been written to it.
\<close>

section \<open>Windows\<close>

definition static_windows :: "nat list" where
  "static_windows = [0x0000, 0x0080, 0x0100, 0x0300, 0x2000, 0x2080, 0x2100, 0x3000]"

definition special_bases :: "nat list" where
  "special_bases = [0x00C0, 0x0250, 0x0370, 0x0530, 0x3040, 0x30A0, 0xFF60]"

definition dyn_window_default :: "nat list" where
  "dyn_window_default = [0x0080, 0x00C0, 0x0400, 0x0600, 0x0900, 0x3040, 0x30A0, 0xFF00]"

definition encode_as_is :: "nat \<Rightarrow> bool" where
  "encode_as_is code \<longleftrightarrow> code = 0 \<or> code = 9 \<or> code = 0xA \<or> code = 0xD \<or> (0x20 \<le> code \<and> code \<le> 0x7F)"

definition dynamic_window_base :: "nat \<Rightarrow> nat" where
  "dynamic_window_base i =
     (if 0xF9 \<le> i \<and> i \<le> 0xFF then special_bases ! (i - 0xF9)
      else if 1 \<le> i \<and> i \<le> 0x67 then i * 0x80
      else if 0x68 \<le> i \<and> i \<le> 0xA7 then i * 0x80 + 0xAC00
      else 0)"

definition in_window :: "nat \<Rightarrow> nat \<Rightarrow> bool" where
  "in_window code w \<longleftrightarrow> w \<le> code \<and> code < w + 128"

definition dynamic_window_offset_index :: "nat \<Rightarrow> int" where
  "dynamic_window_offset_index code =
     (if code < 0x80 then -1
      else if 0x3400 \<le> code \<and> code \<le> 0xDFFF then -1
      else case find_index (in_window code) special_bases of
             Some i \<Rightarrow> 0xF9 + int i
           | None \<Rightarrow> int ((if 0xE000 \<le> code then code - 0xAC00 else code) div 0x80))"

definition static_window_index :: "nat \<Rightarrow> int" where
  "static_window_index code = (case find_index (in_window code) static_windows of Some i \<Rightarrow> int i | None \<Rightarrow> -1)"

section \<open>The stream\<close>

record uni =
  umode :: bool
  active_base :: nat
  dyn :: "nat list"
  src :: "nat list"
  room :: nat
  out :: "nat list"

definition new_uni :: uni where
  "new_uni = \<lparr>umode = False, active_base = 0x80, dyn = dyn_window_default, src = [], room = 0, out = []\<rparr>"

definition read_byte :: "uni \<Rightarrow> (nat \<times> uni) option" where
  "read_byte s = (case src s of [] \<Rightarrow> None | b # bs \<Rightarrow> Some (b, s\<lparr>src := bs\<rparr>))"

text \<open>The first byte of a pair is consumed even if there is no second one.\<close>

definition read_byte16 :: "uni \<Rightarrow> nat option \<times> uni" where
  "read_byte16 s = (case read_byte s of
     None \<Rightarrow> (None, s)
   | Some (b1, s) \<Rightarrow> (case read_byte s of None \<Rightarrow> (None, s) | Some (b2, s) \<Rightarrow> (Some (b2 * 256 + b1), s)))"

definition write_byte8 :: "nat \<Rightarrow> uni \<Rightarrow> bool \<times> uni" where
  "write_byte8 b s = (if room s = 0 then (False, s) else (True, s\<lparr>room := room s - 1, out := out s @ [b mod 256]\<rparr>))"

text \<open>A sequence of writes that stops at the first one that fails.\<close>

definition and_then :: "bool \<times> uni \<Rightarrow> (uni \<Rightarrow> bool \<times> uni) \<Rightarrow> bool \<times> uni" where
  "and_then r f = (if fst r then f (snd r) else r)"

definition write_byte :: "nat \<Rightarrow> uni \<Rightarrow> bool \<times> uni" where
  "write_byte b s = and_then (write_byte8 b s) (write_byte8 (b div 256))"

definition write_byte_be :: "nat \<Rightarrow> uni \<Rightarrow> bool \<times> uni" where
  "write_byte_be b s = and_then (write_byte8 (b div 256) s) (write_byte8 (b mod 256))"

definition write_byte32 :: "nat \<Rightarrow> uni \<Rightarrow> bool \<times> uni" where
  "write_byte32 b s =
     (if b \<le> 0xFFFF then write_byte b s
      else if b \<le> 0x10FFFF
      then and_then (write_byte (0xD800 + (b - 0x10000) div 1024) s) (write_byte (0xDC00 + (b - 0x10000) mod 1024))
      else (False, s))"

section \<open>The expander\<close>

definition define_window :: "nat \<Rightarrow> uni \<Rightarrow> bool \<times> uni" where
  "define_window i s = (case read_byte s of
     None \<Rightarrow> (False, s)
   | Some (w, s) \<Rightarrow> (True, s\<lparr>umode := False, active_base := dynamic_window_base w, dyn := (dyn s)[i := dynamic_window_base w]\<rparr>))"

definition define_expansion_window :: "uni \<Rightarrow> bool \<times> uni" where
  "define_expansion_window s = (case read_byte s of
     None \<Rightarrow> (False, s)
   | Some (hi, s) \<Rightarrow> (case read_byte s of
       None \<Rightarrow> (False, s)
     | Some (lo, s) \<Rightarrow>
         let base = 0x1000 + 0x80 * (hi mod 32 * 0x100 + lo)
         in (True, s\<lparr>umode := False, active_base := base, dyn := (dyn s)[hi div 32 := base]\<rparr>)))"

definition quote_unicode :: "uni \<Rightarrow> bool \<times> uni" where
  "quote_unicode s = (case read_byte s of
     None \<Rightarrow> (False, s)
   | Some (high, s) \<Rightarrow> (case read_byte s of
       None \<Rightarrow> (False, s)
     | Some (low, s) \<Rightarrow> write_byte (high * 256 + low) s))"

definition handle_ubyte :: "nat \<Rightarrow> uni \<Rightarrow> bool \<times> uni" where
  "handle_ubyte b s =
     (if b \<le> 0xDF \<or> 0xF3 \<le> b
      then (case read_byte s of None \<Rightarrow> (False, s) | Some (low, s) \<Rightarrow> write_byte (b * 256 + low) s)
      else if b = 0xF0 then quote_unicode s
      else if 0xE0 \<le> b \<and> b \<le> 0xE7 then (True, s\<lparr>active_base := dyn s ! (b - 0xE0), umode := False\<rparr>)
      else if 0xE8 \<le> b \<and> b \<le> 0xEF then define_window (b - 0xE8) s
      else if b = 0xF1 then define_expansion_window s
      else (False, s))"

text \<open>A quoted character of a dynamic window whose base and offset give less than zero wraps around at
  32 bits; the bases of windows are never that small, and the difference is taken last.\<close>

definition handle_sbyte :: "nat \<Rightarrow> uni \<Rightarrow> bool \<times> uni" where
  "handle_sbyte b s =
     (if encode_as_is b then write_byte b s
      else if 0x80 \<le> b then write_byte32 (active_base s + b - 0x80) s
      else if b = 0xE then quote_unicode s
      else if b = 0xF then (True, s\<lparr>umode := True\<rparr>)
      else if 1 \<le> b \<and> b \<le> 8
      then (case read_byte s of
              None \<Rightarrow> (False, s)
            | Some (c, s) \<Rightarrow>
                write_byte32 (if c \<le> 0x7F then c + static_windows ! (b - 1) else c + dyn s ! (b - 1) - 0x80) s)
      else if 0x10 \<le> b \<and> b \<le> 0x17 then (True, s\<lparr>active_base := dyn s ! (b - 0x10)\<rparr>)
      else if 0x18 \<le> b \<and> b \<le> 0x1F then define_window (b - 0x18) s
      else if b = 0xB then define_expansion_window s
      else (False, s))"

lemmas stream_defs = read_byte_def write_byte8_def and_then_def write_byte_def write_byte_be_def write_byte32_def

lemma write_src [simp]: "src (snd (write_byte8 b s)) = src (s :: uni)" "src (snd (write_byte b s)) = src s" "src (snd (write_byte32 b s)) = src s"
  by (simp_all add: stream_defs)

lemma handle_src: "length (src (snd (handle_ubyte b s))) \<le> length (src s)" "length (src (snd (handle_sbyte b s))) \<le> length (src s)"
  by (auto simp: handle_ubyte_def handle_sbyte_def quote_unicode_def define_window_def define_expansion_window_def read_byte_def
      Let_def split: list.splits)

function expand_loop :: "uni \<Rightarrow> uni" where
  "expand_loop s =
     (if room s = 0 then s
      else case src s of
             [] \<Rightarrow> s
           | b # bs \<Rightarrow>
               let r = (if umode s then handle_ubyte b (s\<lparr>src := bs\<rparr>) else handle_sbyte b (s\<lparr>src := bs\<rparr>))
               in if fst r then expand_loop (snd r) else snd r)"
  by pat_completeness auto
termination
proof (relation "measure (\<lambda>s. length (src s))", simp_all split: if_splits)
  fix s :: uni and b bs assume "src s = b # bs" and "umode s"
  then show "length (src (snd (handle_ubyte b (s\<lparr>src := bs\<rparr>)))) < Suc (length bs)"
    using handle_src(1) [of b "s\<lparr>src := bs\<rparr>"] by simp
next
  fix s :: uni and b bs assume "src s = b # bs" and "\<not> umode s"
  then show "length (src (snd (handle_sbyte b (s\<lparr>src := bs\<rparr>)))) < Suc (length bs)"
    using handle_src(2) [of b "s\<lparr>src := bs\<rparr>"] by simp
qed

declare expand_loop.simps [simp del]

text \<open>What is written, how much of the source was used, and the state.\<close>

definition expand :: "nat list \<Rightarrow> nat \<Rightarrow> uni \<Rightarrow> nat list \<times> nat \<times> uni" where
  "expand source dest_size s = (let s = expand_loop (s\<lparr>src := source, room := dest_size, out := [], umode := False\<rparr>)
     in (out s, length source - length (src s), s))"

section \<open>The compressor\<close>

text \<open>The treatment of a character: -2 plain ASCII, -1 plain Unicode, 0 to 255 the offset of a dynamic window,
  256 to 263 a static window.\<close>

definition char_treatment :: "nat \<Rightarrow> int" where
  "char_treatment code =
     (if encode_as_is code then -2
      else if dynamic_window_offset_index code = -1
      then if static_window_index code = -1 then -1 else static_window_index code + 256
      else dynamic_window_offset_index code)"

record comp =
  cu :: uni
  win_idx :: nat
  actions :: "(nat \<times> int) list"

definition new_comp :: comp where
  "new_comp = \<lparr>cu = new_uni, win_idx = 0, actions = []\<rparr>"

definition write_uchar :: "nat \<Rightarrow> uni \<Rightarrow> bool \<times> uni" where
  "write_uchar c s = (if 0xE000 \<le> c \<and> c \<le> 0xF2FF then and_then (write_byte8 0xF0 s) (write_byte_be c) else write_byte_be c s)"

definition write_schar :: "nat \<times> int \<Rightarrow> uni \<Rightarrow> bool \<times> uni" where
  "write_schar a s = (case a of (code, t) \<Rightarrow>
     if t = -2 then write_byte8 (code mod 256) s
     else if 256 \<le> t \<and> t \<le> 263 then and_then (write_byte8 (1 + nat (t - 256)) s) (write_byte8 code)
     else if in_window code (active_base s) then write_byte8 (code - active_base s + 0x80) s
     else (case find_index (in_window code) (dyn s) of
             Some i \<Rightarrow> and_then (write_byte8 (1 + i) s) (write_byte8 (code - dyn s ! i + 0x80))
           | None \<Rightarrow> and_then (write_byte8 0xE s) (write_byte_be code)))"

definition write_char :: "nat \<times> int \<Rightarrow> uni \<Rightarrow> bool \<times> uni" where
  "write_char a s = (if umode s then write_uchar (fst a) s else write_schar a s)"

definition write_treatment_selection :: "int \<Rightarrow> comp \<Rightarrow> bool \<times> comp" where
  "write_treatment_selection t c = (let s = cu c in
     if t = -1 then (let (ok, s) = write_byte8 0xF s in (ok, c\<lparr>cu := if ok then s\<lparr>umode := True\<rparr> else s\<rparr>))
     else if t = -2 then
       (if umode s then (let (ok, s) = write_byte8 (0xE0 + win_idx c) s in (ok, c\<lparr>cu := if ok then s\<lparr>umode := False\<rparr> else s\<rparr>))
        else (True, c))
     else if 0 \<le> t \<and> t \<le> 255 then
       let base = dynamic_window_base (nat t) in
       (case find_index ((=) base) (dyn s) of
          Some i \<Rightarrow>
            let (ok, s) = (if umode s then write_byte8 (0xE0 + i) s
                           else if i \<noteq> win_idx c then write_byte8 (0x10 + i) s else (True, s))
            in if ok then (True, c\<lparr>cu := s\<lparr>umode := False, active_base := base\<rparr>, win_idx := i\<rparr>) else (False, c\<lparr>cu := s\<rparr>)
        | None \<Rightarrow>
            let (ok, s) = and_then (write_byte8 (if umode s then 0xE8 + 4 else 0x18 + 4) s) (write_byte8 (nat t))
            in if ok then (True, c\<lparr>cu := s\<lparr>umode := False, dyn := (dyn s)[4 := base], active_base := base\<rparr>, win_idx := 4\<rparr>)
               else (False, c\<lparr>cu := s\<rparr>))
     else (True, c))"

text \<open>The first part of \<open>write_run\<close>: what fits into the current window is written as it comes.\<close>

fun write_leading :: "(nat \<times> int) list \<Rightarrow> uni \<Rightarrow> bool \<times> (nat \<times> int) list \<times> uni" where
  "write_leading [] s = (True, [], s)"
| "write_leading (a # acts) s =
     (if snd a = -2 \<or> in_window (fst a) (active_base s)
      then let (ok, s) = write_char a s in if ok then write_leading acts s else (False, a # acts, s)
      else (True, a # acts, s))"

fun write_chars :: "(nat \<times> int) list \<Rightarrow> uni \<Rightarrow> bool \<times> uni" where
  "write_chars [] s = (True, s)"
| "write_chars (a # acts) s = and_then (write_char a s) (write_chars acts)"

text \<open>The second part: groups of characters with the same treatment. A group is removed once it is written.\<close>

function write_groups :: "(nat \<times> int) list \<Rightarrow> comp \<Rightarrow> comp" where
  "write_groups acts c = (case acts of
     [] \<Rightarrow> c\<lparr>actions := []\<rparr>
   | a # rest \<Rightarrow>
       let group = a # takeWhile (\<lambda>b. snd b = snd a) rest;
           (ok, c) = (if 1 < length group then write_treatment_selection (snd a) c else (True, c))
       in if \<not> ok then c\<lparr>actions := acts\<rparr>
          else let (ok, s) = write_chars group (cu c)
               in if \<not> ok then c\<lparr>cu := s, actions := acts\<rparr>
                  else write_groups (drop (length group) acts) (c\<lparr>cu := s\<rparr>))"
  by pat_completeness auto
termination by (relation "measure (\<lambda>(acts, c). length acts)") auto

declare write_groups.simps [simp del]

definition write_run :: "comp \<Rightarrow> comp" where
  "write_run c =
     (if \<not> umode (cu c)
      then let (ok, acts, s) = write_leading (actions c) (cu c)
           in if ok then write_groups acts (c\<lparr>cu := s\<rparr>) else c\<lparr>cu := s, actions := acts\<rparr>
      else write_groups (actions c) c)"

text \<open>Characters are collected and written four at a time.\<close>

definition take_action :: "nat \<Rightarrow> comp \<Rightarrow> comp" where
  "take_action code c = (let c = c\<lparr>actions := actions c @ [(code, char_treatment code)]\<rparr>
     in if length (actions c) = 4 then write_run c else c)"

text \<open>\<open>rounds\<close> bounds the number of the last runs; one run writes everything that is left unless the buffer is
  full.\<close>

function compress_loop :: "nat list \<Rightarrow> comp \<Rightarrow> comp" where
  "compress_loop bs c =
     (if room (cu c) = 0 then c
      else case bs of b1 # b2 # bs \<Rightarrow> compress_loop bs (take_action (b2 * 256 + b1) c) | _ \<Rightarrow> c)"
  by pat_completeness auto
termination by (relation "measure (\<lambda>(bs, c). length bs)") auto

declare compress_loop.simps [simp del]

fun last_runs :: "nat \<Rightarrow> comp \<Rightarrow> comp undef" where
  "last_runs 0 c = None"
| "last_runs (Suc n) c = (if actions c \<noteq> [] \<and> 0 < room (cu c) then last_runs n (write_run c) else Some c)"

definition compress :: "nat \<Rightarrow> nat list \<Rightarrow> nat \<Rightarrow> comp \<Rightarrow> (nat list \<times> comp) undef" where
  "compress rounds source dest_size c = do {
     c \<leftarrow> last_runs rounds (compress_loop source (c\<lparr>cu := (cu c)\<lparr>room := dest_size, out := [], umode := False\<rparr>\<rparr>));
     Some (out (cu c), c)
   }"

section \<open>What is compressed expands to itself\<close>

text \<open>The characters that have a window or are ASCII; the others, from 0x3400 to 0xDFFF, are written in Unicode
  mode.\<close>

definition windowed :: "nat \<Rightarrow> bool" where
  "windowed code \<longleftrightarrow> code < 0x10000 \<and> \<not> (0x3400 \<le> code \<and> code \<le> 0xDFFF)"

definition le16 :: "nat \<Rightarrow> nat list" where
  "le16 c = [c mod 256, c div 256]"

lemma dynamic_offset_range:
  assumes "windowed code" and "0x80 \<le> code"
  shows "0 \<le> dynamic_window_offset_index code" "dynamic_window_offset_index code \<le> 255"
proof -
  have "i < 7" if "find_index (in_window code) special_bases = Some i" for i
    using find_index_SomeD(1) [OF that] by (simp add: special_bases_def)
  then have "0 \<le> dynamic_window_offset_index code \<and> dynamic_window_offset_index code \<le> 255"
    using assms by (force simp: dynamic_window_offset_index_def windowed_def split: option.splits)
  then show "0 \<le> dynamic_window_offset_index code" "dynamic_window_offset_index code \<le> 255" by simp_all
qed

lemma treatment_cases:
  assumes "windowed code"
  obtains (ascii) "encode_as_is code" "char_treatment code = -2"
    | (static) "\<not> encode_as_is code" "code < 0x80" "char_treatment code = 256"
    | (dynamic) "\<not> encode_as_is code" "0x80 \<le> code" "0 \<le> char_treatment code" "char_treatment code \<le> 255"
      "char_treatment code = dynamic_window_offset_index code"
proof (cases "encode_as_is code")
  case True
  then show thesis using ascii by (simp add: char_treatment_def)
next
  case no: False
  show thesis
  proof (cases "code < 0x80")
    case True
    then have "dynamic_window_offset_index code = -1" "static_window_index code = 0"
      by (simp_all add: dynamic_window_offset_index_def static_window_index_def static_windows_def in_window_def)
    then show thesis using static no True by (simp add: char_treatment_def)
  next
    case False
    then show thesis using dynamic no dynamic_offset_range [OF assms] by (simp add: char_treatment_def)
  qed
qed

lemma expand_loop_byte:
  assumes "room s \<noteq> 0" and "\<not> umode s"
  shows "expand_loop (s\<lparr>src := b # bs\<rparr>) = (let r = handle_sbyte b (s\<lparr>src := bs\<rparr>) in if fst r then expand_loop (snd r) else snd r)"
  using assms by (subst expand_loop.simps) simp

lemma write_byte_ok:
  assumes "1 < room s" and "c < 0x10000"
  shows "write_byte c s = (True, s\<lparr>room := room s - 2, out := out s @ le16 c\<rparr>)" "write_byte32 c s = (True, s\<lparr>room := room s - 2, out := out s @ le16 c\<rparr>)"
  using assms by (auto simp: stream_defs le16_def)

lemma not_as_is: "1 \<le> b \<Longrightarrow> b \<le> 8 \<Longrightarrow> \<not> encode_as_is b" "0x80 \<le> b \<Longrightarrow> \<not> encode_as_is b" "0xE \<le> b \<Longrightarrow> b \<le> 0x1F \<Longrightarrow> \<not> encode_as_is b"
  by (auto simp: encode_as_is_def)

text \<open>The expander is at the same windows as the compressor after the characters \<open>cs\<close> have been written.\<close>

definition synced :: "uni \<Rightarrow> nat list \<Rightarrow> uni \<Rightarrow> bool" where
  "synced d cs u \<longleftrightarrow> \<not> umode u \<and> length (dyn u) = 8 \<and> (\<forall>rest. 2 * length cs < room d \<longrightarrow>
     expand_loop (d\<lparr>src := out u @ rest\<rparr>) = expand_loop (d\<lparr>src := rest, room := room d - 2 * length cs,
       out := out d @ concat (map le16 cs), active_base := active_base u, dyn := dyn u, umode := False\<rparr>))"

text \<open>Bytes that the expander takes for one character, or for a change of window.\<close>

lemma synced_char:
  assumes "synced d cs u" and "u' = u\<lparr>room := r, out := out u @ bs\<rparr>"
    and "\<And>s rest. \<not> umode s \<Longrightarrow> 2 < room s \<Longrightarrow> active_base s = active_base u \<Longrightarrow> dyn s = dyn u
      \<Longrightarrow> expand_loop (s\<lparr>src := bs @ rest\<rparr>) = expand_loop (s\<lparr>src := rest, room := room s - 2, out := out s @ le16 code\<rparr>)"
  shows "synced d (cs @ [code]) u'"
  unfolding synced_def
proof (intro conjI allI impI)
  show "\<not> umode u'" "length (dyn u') = 8" using assms(1,2) by (simp_all add: synced_def)
  fix rest assume r: "2 * length (cs @ [code]) < room d"
  let ?s = "d\<lparr>src := bs @ rest, room := room d - 2 * length cs, out := out d @ concat (map le16 cs), active_base := active_base u,
      dyn := dyn u, umode := False\<rparr>"
  have "expand_loop (d\<lparr>src := out u' @ rest\<rparr>) = expand_loop ?s"
    using assms(1) r by (simp add: assms(2) synced_def)
  also have "?s = ?s\<lparr>src := bs @ rest\<rparr>" by simp
  also have "expand_loop (?s\<lparr>src := bs @ rest\<rparr>) = expand_loop (?s\<lparr>src := rest, room := room ?s - 2, out := out ?s @ le16 code\<rparr>)"
    by (rule assms(3)) (use r in simp_all)
  finally show "expand_loop (d\<lparr>src := out u' @ rest\<rparr>) = expand_loop (d\<lparr>src := rest, room := room d - 2 * length (cs @ [code]),
       out := out d @ concat (map le16 (cs @ [code])), active_base := active_base u', dyn := dyn u', umode := False\<rparr>)"
    by (cases d) (simp add: assms(2))
qed

lemma synced_window:
  assumes "synced d cs u" and "u' = u\<lparr>room := r, out := out u @ bs, active_base := b, dyn := ds\<rparr>" and "length ds = 8"
    and "\<And>s rest. \<not> umode s \<Longrightarrow> 0 < room s \<Longrightarrow> active_base s = active_base u \<Longrightarrow> dyn s = dyn u
      \<Longrightarrow> expand_loop (s\<lparr>src := bs @ rest\<rparr>) = expand_loop (s\<lparr>src := rest, active_base := b, dyn := ds\<rparr>)"
  shows "synced d cs u'"
  unfolding synced_def
proof (intro conjI allI impI)
  show "\<not> umode u'" "length (dyn u') = 8" using assms(1,2,3) by (simp_all add: synced_def)
  fix rest assume r: "2 * length cs < room d"
  let ?s = "d\<lparr>src := bs @ rest, room := room d - 2 * length cs, out := out d @ concat (map le16 cs), active_base := active_base u,
      dyn := dyn u, umode := False\<rparr>"
  have "expand_loop (d\<lparr>src := out u' @ rest\<rparr>) = expand_loop ?s"
    using assms(1) r by (simp add: assms(2) synced_def)
  also have "?s = ?s\<lparr>src := bs @ rest\<rparr>" by simp
  also have "expand_loop (?s\<lparr>src := bs @ rest\<rparr>) = expand_loop (?s\<lparr>src := rest, active_base := b, dyn := ds\<rparr>)"
    by (rule assms(4)) (use r in simp_all)
  finally show "expand_loop (d\<lparr>src := out u' @ rest\<rparr>) = expand_loop (d\<lparr>src := rest, room := room d - 2 * length cs,
       out := out d @ concat (map le16 cs), active_base := active_base u', dyn := dyn u', umode := False\<rparr>)"
    by (cases d) (simp add: assms(2))
qed

lemma write_char_synced:
  assumes "synced d cs u" and "windowed code" and "2 < room u"
  obtains u' where "write_char (code, char_treatment code) u = (True, u')" "synced d (cs @ [code]) u'"
    "room u - 3 \<le> room u'" "active_base u' = active_base u" "dyn u' = dyn u"
proof -
  have m: "\<not> umode u" "length (dyn u) = 8" using assms(1) by (simp_all add: synced_def)
  have c: "code < 0x10000" using assms(2) by (simp add: windowed_def)
  have "\<exists>bs. write_char (code, char_treatment code) u = (True, u\<lparr>room := room u - length bs, out := out u @ bs\<rparr>) \<and> length bs \<le> 3
    \<and> (\<forall>s rest. \<not> umode s \<longrightarrow> 2 < room s \<longrightarrow> active_base s = active_base u \<longrightarrow> dyn s = dyn u
      \<longrightarrow> expand_loop (s\<lparr>src := bs @ rest\<rparr>) = expand_loop (s\<lparr>src := rest, room := room s - 2, out := out s @ le16 code\<rparr>))"
    using assms(2)
  proof (cases rule: treatment_cases)
    case ascii
    then have "code mod 256 = code" by (auto simp: encode_as_is_def)
    then show ?thesis using ascii m(1) assms(3) c
      by (intro exI [of _ "[code]"]) (auto simp: write_char_def write_schar_def write_byte8_def expand_loop_byte handle_sbyte_def
          write_byte_ok)
  next
    case static
    then show ?thesis using m(1) assms(3) c
      by (intro exI [of _ "[1, code]"]) (auto simp: write_char_def write_schar_def write_byte8_def and_then_def expand_loop_byte
          handle_sbyte_def write_byte_ok not_as_is read_byte_def static_windows_def)
  next
    case dynamic
    then have t: "char_treatment code \<noteq> -2" "\<not> (256 \<le> char_treatment code)" by simp_all
    show ?thesis
    proof (cases "in_window code (active_base u)")
      case True
      then have "code - active_base u + 0x80 < 256" "0x80 \<le> code - active_base u + 0x80" "active_base u \<le> code" by (auto simp: in_window_def)
      then show ?thesis using t True m(1) assms(3) c
        by (intro exI [of _ "[code - active_base u + 0x80]"])
          (auto simp: write_char_def write_schar_def write_byte8_def expand_loop_byte handle_sbyte_def write_byte_ok not_as_is)
    next
      case no: False
      show ?thesis
      proof (cases "find_index (in_window code) (dyn u)")
        case None
        have "code div 256 < 256" using c by (simp add: div_less_iff_less_mult)
        then show ?thesis using None t no m(1) assms(3) c
          by (intro exI [of _ "[0xE, code div 256, code mod 256]"])
            (auto simp: write_char_def write_schar_def write_byte8_def write_byte_be_def and_then_def expand_loop_byte handle_sbyte_def
              write_byte_ok not_as_is quote_unicode_def read_byte_def)
      next
        case (Some i)
        then have i: "i < 8" "in_window code (dyn u ! i)" using find_index_SomeD m(2) by metis+
        then have "code - dyn u ! i + 0x80 < 256" "0x80 \<le> code - dyn u ! i + 0x80" "dyn u ! i \<le> code" by (auto simp: in_window_def)
        then show ?thesis using Some t no m(1) assms(3) c i
          by (intro exI [of _ "[1 + i, code - dyn u ! i + 0x80]"])
            (auto simp: write_char_def write_schar_def write_byte8_def and_then_def expand_loop_byte handle_sbyte_def
              write_byte_ok not_as_is read_byte_def)
      qed
    qed
  qed
  then obtain bs where b: "write_char (code, char_treatment code) u = (True, u\<lparr>room := room u - length bs, out := out u @ bs\<rparr>)" "length bs \<le> 3"
    "\<And>s rest. \<not> umode s \<Longrightarrow> 2 < room s \<Longrightarrow> active_base s = active_base u \<Longrightarrow> dyn s = dyn u
      \<Longrightarrow> expand_loop (s\<lparr>src := bs @ rest\<rparr>) = expand_loop (s\<lparr>src := rest, room := room s - 2, out := out s @ le16 code\<rparr>)" by blast
  show thesis
    by (rule that [OF b(1) synced_char [OF assms(1) refl b(3)]]) (use b(2) in simp_all)
qed

definition csynced :: "uni \<Rightarrow> nat list \<Rightarrow> comp \<Rightarrow> bool" where
  "csynced d cs c \<longleftrightarrow> synced d cs (cu c) \<and> win_idx c < 8 \<and> dyn (cu c) ! win_idx c = active_base (cu c)"

lemma nat_le16: "nat t mod 256 = nat t" if "t \<le> 255" for t :: int
  using that by simp

lemma selection_synced:
  assumes "csynced d cs c" and "t \<noteq> -1" and "1 < room (cu c)"
  obtains c' where "write_treatment_selection t c = (True, c')" "csynced d cs c'" "room (cu c) - 2 \<le> room (cu c')"
proof (cases "0 \<le> t \<and> t \<le> 255")
  case False
  have m: "\<not> umode (cu c)" using assms(1) by (simp add: csynced_def synced_def)
  show thesis
    by (rule that [of c]) (use False assms(1,2) m in \<open>auto simp: write_treatment_selection_def Let_def\<close>)
next
  case t: True
  let ?u = "cu c" and ?base = "dynamic_window_base (nat t)"
  have s: "synced d cs ?u" "\<not> umode ?u" "length (dyn ?u) = 8" "win_idx c < 8" "dyn ?u ! win_idx c = active_base ?u"
    using assms(1) by (simp_all add: csynced_def synced_def)
  show thesis
  proof (cases "find_index ((=) ?base) (dyn ?u)")
    case None
    let ?u' = "?u\<lparr>room := room ?u - 2, out := out ?u @ [0x1C, nat t], active_base := ?base, dyn := (dyn ?u)[4 := ?base]\<rparr>"
    have sy: "synced d cs ?u'"
    proof (rule synced_window [OF s(1) refl])
      show "length ((dyn ?u)[4 := ?base]) = 8" using s(3) by simp
      fix s :: uni and rest assume a: "\<not> umode s" "0 < room s" "active_base s = active_base ?u" "dyn s = dyn ?u"
      then have eq: "s\<lparr>src := rest, umode := False, active_base := ?base, dyn := (dyn ?u)[4 := ?base]\<rparr>
        = s\<lparr>src := rest, active_base := ?base, dyn := (dyn ?u)[4 := ?base]\<rparr>" by (cases s) simp
      show "expand_loop (s\<lparr>src := [0x1C, nat t] @ rest\<rparr>) = expand_loop (s\<lparr>src := rest, active_base := ?base, dyn := (dyn ?u)[4 := ?base]\<rparr>)"
        using a by (simp add: expand_loop_byte handle_sbyte_def not_as_is define_window_def read_byte_def eq)
    qed
    let ?c' = "c\<lparr>cu := ?u', win_idx := 4\<rparr>"
    have u: "?u' = ?u\<lparr>room := room ?u - 2, out := out ?u @ [0x1C, nat t], umode := False, dyn := (dyn ?u)[4 := ?base], active_base := ?base\<rparr>"
      using s(2) by (cases "?u") simp
    have w: "write_treatment_selection t c = (True, ?c')"
      unfolding u using None t s(2) assms(3) nat_le16 [of t] by (simp add: numeral_2_eq_2 write_treatment_selection_def Let_def write_byte8_def and_then_def)
    have "csynced d cs ?c'" using sy s(3) by (simp add: csynced_def)
    then show thesis using that [OF w] by simp
  next
    case (Some i)
    then have i: "i < 8" "?base = dyn ?u ! i" using find_index_SomeD(1,2) s(3) by metis+
    define bs where "bs = (if i = win_idx c then [] else [0x10 + i])"
    let ?u' = "?u\<lparr>room := room ?u - length bs, out := out ?u @ bs, active_base := ?base, dyn := dyn ?u\<rparr>"
    have e: "s\<lparr>src := rest\<rparr> = s\<lparr>src := rest, active_base := active_base ?u, dyn := dyn ?u\<rparr>"
      if "active_base s = active_base ?u" "dyn s = dyn ?u" for s :: uni and rest using that by (cases s) simp
    have sy: "synced d cs ?u'"
    proof (rule synced_window [OF s(1) refl s(3)])
      fix s :: uni and rest assume a: "\<not> umode s" "0 < room s" "active_base s = active_base ?u" "dyn s = dyn ?u"
      show "expand_loop (s\<lparr>src := bs @ rest\<rparr>) = expand_loop (s\<lparr>src := rest, active_base := ?base, dyn := dyn ?u\<rparr>)"
      proof (cases "i = win_idx c")
        case True
        then show ?thesis using e [OF a(3,4)] i(2) s(5) by (simp add: bs_def)
      next
        case False
        have eq: "s\<lparr>src := rest, active_base := b\<rparr> = s\<lparr>src := rest, active_base := b, dyn := dyn ?u\<rparr>" for b
          using a(4) by (cases s) simp
        then show ?thesis using False a i
          by (simp add: bs_def expand_loop_byte handle_sbyte_def not_as_is eq [symmetric])
      qed
    qed
    let ?c' = "c\<lparr>cu := ?u', win_idx := i\<rparr>"
    have u: "?u' = ?u\<lparr>room := room ?u - length bs, out := out ?u @ bs, umode := False, active_base := ?base\<rparr>"
      using s(2) by (cases "?u") simp
    have w: "write_treatment_selection t c = (True, ?c')"
      unfolding u using Some t s(2) assms(3) i(1)
      by (simp add: write_treatment_selection_def Let_def write_byte8_def and_then_def bs_def)
    have "csynced d cs ?c'" using sy i by (simp add: csynced_def)
    then show thesis by (rule that [OF w]) (auto simp: bs_def)
  qed
qed

definition acts_ok :: "(nat \<times> int) list \<Rightarrow> bool" where
  "acts_ok acts \<longleftrightarrow> (\<forall>a \<in> set acts. windowed (fst a) \<and> snd a = char_treatment (fst a))"

lemma treatment_not_plain: "windowed code \<Longrightarrow> char_treatment code \<noteq> -1"
  by (erule treatment_cases) auto

lemma write_chars_synced:
  assumes "synced d cs u" and "acts_ok acts" and "3 * length acts \<le> room u"
  obtains u' where "write_chars acts u = (True, u')" "synced d (cs @ map fst acts) u'"
    "room u - 3 * length acts \<le> room u'" "active_base u' = active_base u" "dyn u' = dyn u"
  using assms
proof (induction acts arbitrary: cs u thesis)
  case Nil
  then show ?case by simp
next
  case (Cons a acts)
  have a: "windowed (fst a)" "a = (fst a, char_treatment (fst a))" "acts_ok acts"
    using Cons.prems(3) by (auto simp: acts_ok_def prod_eq_iff)
  have room: "2 < room u" using Cons.prems(4) by simp
  obtain u1 where u1': "write_char (fst a, char_treatment (fst a)) u = (True, u1)" "synced d (cs @ [fst a]) u1" "room u - 3 \<le> room u1"
    "active_base u1 = active_base u" "dyn u1 = dyn u"
    by (rule write_char_synced [OF Cons.prems(2) a(1) room])
  note u1 = u1'(1) [folded a(2)] u1'(2-)
  show ?case
    by (rule Cons.IH [OF _ u1(2) a(3)]) (use Cons.prems(1,4) u1 in \<open>auto simp: and_then_def\<close>)
qed

lemma write_groups_synced:
  assumes "csynced d cs c" and "acts_ok acts" and "5 * length acts \<le> room (cu c)"
  shows "csynced d (cs @ map fst acts) (write_groups acts c) \<and> actions (write_groups acts c) = []
    \<and> room (cu c) - 5 * length acts \<le> room (cu (write_groups acts c))"
  using assms
proof (induction acts c arbitrary: cs rule: write_groups.induct)
  case (1 acts c)
  show ?case
  proof (cases acts)
    case Nil
    then show ?thesis using 1(2) by (subst (1 2 3) write_groups.simps) (simp add: csynced_def)
  next
    case (Cons a rest)
    define g where "g = a # takeWhile (\<lambda>b. snd b = snd a) rest"
    have split: "g @ drop (length g) acts = acts" unfolding g_def Cons by (simp add: dropWhile_eq_drop [symmetric])
    have gl: "length g \<le> length acts" "0 < length g" using split by (metis length_append le_add1) (simp add: g_def)
    have ga: "acts_ok g" "acts_ok (drop (length g) acts)" "windowed (fst a)" "snd a = char_treatment (fst a)"
      using 1(3) split Cons unfolding acts_ok_def by (metis Un_iff set_append, metis Un_iff set_append, auto)
    define sel where "sel = (if 1 < length g then write_treatment_selection (snd a) c else (True, c))"
    have room: "5 * length acts \<le> room (cu c)" by (rule 1(4))
    obtain c1 where c1: "sel = (True, c1)" "csynced d cs c1" "room (cu c) - (if 1 < length g then 2 else 0) \<le> room (cu c1)"
    proof (cases "1 < length g")
      case True
      have "1 < room (cu c)" using room gl True by linarith
      then obtain c1 where "write_treatment_selection (snd a) c = (True, c1)" "csynced d cs c1" "room (cu c) - 2 \<le> room (cu c1)"
        using selection_synced [OF 1(2) treatment_not_plain [OF ga(3), folded ga(4)]] by blast
      then show ?thesis using that True by (simp add: sel_def)
    next
      case False
      then show ?thesis using that 1(2) by (simp add: sel_def)
    qed
    have r3: "3 * length g \<le> room (cu c1)" using c1(3) room gl by (auto split: if_splits)
    have sy: "synced d cs (cu c1)" using c1(2) by (simp add: csynced_def)
    obtain u where u: "write_chars g (cu c1) = (True, u)" "synced d (cs @ map fst g) u" "room (cu c1) - 3 * length g \<le> room u"
      "active_base u = active_base (cu c1)" "dyn u = dyn (cu c1)"
      by (rule write_chars_synced [OF sy ga(1) r3])
    let ?rest = "drop (length g) acts" and ?c2 = "c1\<lparr>cu := u\<rparr>"
    have c2: "csynced d (cs @ map fst g) ?c2" using c1(2) u by (simp add: csynced_def)
    have la: "length acts = length g + length ?rest" using gl by simp
    have r2: "room (cu c) - 5 * length g \<le> room u" using u(3) c1(3) gl(2) by (auto split: if_splits)
    have rc: "room (cu ?c2) = room u" by simp
    have r: "5 * length ?rest \<le> room (cu ?c2)" unfolding rc using r2 room la by linarith
    have "write_groups (a # rest) c = (case sel of (ok, c) \<Rightarrow> if \<not> ok then c\<lparr>actions := a # rest\<rparr>
        else case write_chars g (cu c) of (ok, s) \<Rightarrow> if \<not> ok then c\<lparr>cu := s, actions := a # rest\<rparr>
          else write_groups (drop (length g) (a # rest)) (c\<lparr>cu := s\<rparr>))"
      unfolding sel_def g_def by (subst write_groups.simps) (simp only: list.case Let_def)
    then have eq: "write_groups acts c = write_groups ?rest ?c2"
      unfolding Cons [symmetric] c1(1) by (simp only: prod.case u(1) not_True_eq_False if_False)
    have m: "(cs @ map fst g) @ map fst ?rest = cs @ map fst acts" using split by (metis append_assoc map_append)
    have ih: "csynced d ((cs @ map fst g) @ map fst ?rest) (write_groups ?rest ?c2) \<and> actions (write_groups ?rest ?c2) = []
      \<and> room (cu ?c2) - 5 * length ?rest \<le> room (cu (write_groups ?rest ?c2))"
      by (rule 1(1) [OF Cons g_def sel_def c1(1) [symmetric] _ refl u(1) [symmetric] _ c2 ga(2) r]) simp_all
    have le: "room (cu c) - 5 * length acts \<le> room u - 5 * length ?rest" using r2 la by linarith
    show ?thesis unfolding eq using ih [unfolded m rc] le le_trans by blast
  qed
qed

lemma write_leading_synced:
  assumes "synced d cs u" and "acts_ok acts" and "3 * length acts \<le> room u"
  shows "\<exists>done acts' u'. write_leading acts u = (True, acts', u') \<and> acts = done @ acts' \<and> synced d (cs @ map fst done) u'
    \<and> room u - 3 * length done \<le> room u' \<and> active_base u' = active_base u \<and> dyn u' = dyn u"
  using assms
proof (induction acts arbitrary: cs u)
  case Nil
  then show ?case by simp
next
  case (Cons a acts)
  have a: "windowed (fst a)" "a = (fst a, char_treatment (fst a))" "acts_ok acts"
    using Cons.prems(2) by (auto simp: acts_ok_def prod_eq_iff)
  show ?case
  proof (cases "snd a = -2 \<or> in_window (fst a) (active_base u)")
    case True
    have room: "2 < room u" using Cons.prems(3) by simp
    obtain u1 where u1': "write_char (fst a, char_treatment (fst a)) u = (True, u1)" "synced d (cs @ [fst a]) u1" "room u - 3 \<le> room u1"
      "active_base u1 = active_base u" "dyn u1 = dyn u"
      by (rule write_char_synced [OF Cons.prems(1) a(1) room])
    note u1 = u1'(1) [folded a(2)] u1'(2-)
    have "3 * length acts \<le> room u1" using Cons.prems(3) u1(3) by simp
    from Cons.IH [OF u1(2) a(3) this] obtain dn acts' u' where ih: "write_leading acts u1 = (True, acts', u')" "acts = dn @ acts'"
      "synced d ((cs @ [fst a]) @ map fst dn) u'" "room u1 - 3 * length dn \<le> room u'" "active_base u' = active_base u1" "dyn u' = dyn u1"
      by blast
    have "write_leading (a # acts) u = (True, acts', u')" using True u1(1) ih(1) by (simp only: write_leading.simps Let_def prod.case if_True)
    moreover have "synced d (cs @ map fst (a # dn)) u'" using ih(3) by simp
    moreover have "room u - 3 * length (a # dn) \<le> room u'" using u1(3) ih(4) by simp
    ultimately show ?thesis using ih(2,5,6) u1(4,5) by (metis append_Cons)
  next
    case False
    then have "write_leading (a # acts) u = (True, a # acts, u)" by simp
    then show ?thesis using Cons.prems(1) by (intro exI [of _ "[]"] exI [of _ "a # acts"] exI [of _ u]) simp
  qed
qed

lemma write_run_synced:
  assumes "csynced d cs c" and "acts_ok (actions c)" and "5 * length (actions c) \<le> room (cu c)"
  shows "csynced d (cs @ map fst (actions c)) (write_run c)" "actions (write_run c) = []"
    "room (cu c) - 5 * length (actions c) \<le> room (cu (write_run c))"
proof -
  have s: "synced d cs (cu c)" "\<not> umode (cu c)" using assms(1) by (simp_all add: csynced_def synced_def)
  have "3 * length (actions c) \<le> room (cu c)" using assms(3) by simp
  from write_leading_synced [OF s(1) assms(2) this] obtain dn acts' u'
    where w: "write_leading (actions c) (cu c) = (True, acts', u')" "actions c = dn @ acts'" "synced d (cs @ map fst dn) u'"
      "room (cu c) - 3 * length dn \<le> room u'" "active_base u' = active_base (cu c)" "dyn u' = dyn (cu c)" by blast
  have eq: "write_run c = write_groups acts' (c\<lparr>cu := u'\<rparr>)" using w(1) s(2) by (simp add: write_run_def)
  have c1: "csynced d (cs @ map fst dn) (c\<lparr>cu := u'\<rparr>)" using assms(1) w by (simp add: csynced_def)
  have ok: "acts_ok acts'" using assms(2) w(2) by (auto simp: acts_ok_def)
  have l: "length (actions c) = length dn + length acts'" using w(2) by simp
  have r: "5 * length acts' \<le> room (cu (c\<lparr>cu := u'\<rparr>))" using assms(3) w(4) l by simp
  have m: "(cs @ map fst dn) @ map fst acts' = cs @ map fst (actions c)" using w(2) by simp
  note g = write_groups_synced [OF c1 ok r, unfolded m]
  then show "csynced d (cs @ map fst (actions c)) (write_run c)" "actions (write_run c) = []" unfolding eq by blast+
  have "room (cu c) - 5 * length (actions c) \<le> room (cu (c\<lparr>cu := u'\<rparr>)) - 5 * length acts'" using w(4) l by simp
  then show "room (cu c) - 5 * length (actions c) \<le> room (cu (write_run c))" unfolding eq using g le_trans by blast
qed

lemma expand_loop_empty: "src s = [] \<Longrightarrow> expand_loop s = s"
  by (subst expand_loop.simps) simp

text \<open>The characters written and those still waiting.\<close>

definition progress :: "uni \<Rightarrow> nat list \<Rightarrow> nat \<Rightarrow> comp \<Rightarrow> bool" where
  "progress d cs n c \<longleftrightarrow> (\<exists>cs0. csynced d cs0 c \<and> cs = cs0 @ map fst (actions c)) \<and> acts_ok (actions c)
     \<and> 5 * (n + length (actions c)) < room (cu c)"

lemma take_action_progress:
  assumes "progress d cs (Suc n) c" and "windowed code"
  shows "progress d (cs @ [code]) n (take_action code c)"
proof -
  define c1 where "c1 = c\<lparr>actions := actions c @ [(code, char_treatment code)]\<rparr>"
  obtain cs0 where p: "csynced d cs0 c" "cs = cs0 @ map fst (actions c)" "acts_ok (actions c)" "5 * (Suc n + length (actions c)) < room (cu c)"
    using assms(1) by (auto simp: progress_def)
  have c1: "csynced d cs0 c1" "cs @ [code] = cs0 @ map fst (actions c1)" "acts_ok (actions c1)" "5 * (n + length (actions c1)) < room (cu c1)"
    using p assms(2) by (auto simp: c1_def csynced_def acts_ok_def)
  have r: "5 * length (actions c1) \<le> room (cu c1)" using c1(4) by simp
  note w = write_run_synced [OF c1(1,3) r]
  have "progress d (cs @ [code]) n (write_run c1)"
    unfolding progress_def using w c1(2,4) by (auto simp: acts_ok_def)
  moreover have "progress d (cs @ [code]) n c1" unfolding progress_def using c1 by blast
  moreover have "take_action code c = (if length (actions c1) = 4 then write_run c1 else c1)"
    by (simp add: take_action_def c1_def Let_def)
  ultimately show ?thesis by simp
qed

lemma compress_loop_progress:
  assumes "progress d cs (length codes) c" and "\<forall>x \<in> set codes. windowed x"
  shows "progress d (cs @ codes) 0 (compress_loop (concat (map le16 codes)) c)"
  using assms
proof (induction codes arbitrary: cs c)
  case Nil
  then show ?case by (subst compress_loop.simps) simp
next
  case (Cons x codes)
  have r: "room (cu c) \<noteq> 0" using Cons.prems(1) by (simp add: progress_def)
  have "x div 256 * 256 + x mod 256 = x" by simp
  then have "compress_loop (concat (map le16 (x # codes))) c = compress_loop (concat (map le16 codes)) (take_action x c)"
    using r by (subst compress_loop.simps) (simp add: le16_def)
  moreover have "progress d (cs @ [x]) (length codes) (take_action x c)"
    using take_action_progress [of d cs "length codes" c x] Cons.prems by simp
  ultimately show ?case using Cons.IH [of "cs @ [x]" "take_action x c"] Cons.prems(2) by simp
qed

lemma last_runs_synced:
  assumes "progress d cs 0 c"
  obtains c' where "last_runs (Suc (Suc n)) c = Some c'" "synced d cs (cu c')"
proof -
  obtain cs0 where p: "csynced d cs0 c" "cs = cs0 @ map fst (actions c)" "acts_ok (actions c)" "5 * length (actions c) < room (cu c)"
    using assms by (auto simp: progress_def)
  have r: "5 * length (actions c) \<le> room (cu c)" using p(4) by simp
  note w = write_run_synced [OF p(1,3) r]
  show thesis
  proof (cases "actions c = []")
    case True
    then show thesis using that [of c] p(1,2) by (simp add: csynced_def)
  next
    case False
    then show thesis using that [of "write_run c"] w p(2,4) by (simp add: csynced_def)
  qed
qed

text \<open>C36. Text without characters from 0x3400 to 0xDFFF comes back unchanged when it is compressed and
  expanded again, whatever windows the compressor chooses and defines: given five bytes of room for
  each character while compressing and one byte to spare while expanding.\<close>

theorem compress_expand_roundtrip:
  assumes "\<forall>x \<in> set codes. windowed x" and "5 * length codes < room1" and "2 * length codes < room2" and "2 \<le> rounds"
  shows "\<exists>packed c. compress rounds (concat (map le16 codes)) room1 new_comp = Some (packed, c)
    \<and> fst (expand packed room2 new_uni) = concat (map le16 codes)"
proof -
  let ?d = "new_uni\<lparr>room := room2\<rparr>"
  let ?c = "new_comp\<lparr>cu := new_uni\<lparr>room := room1\<rparr>\<rparr>"
  have "synced ?d [] (new_uni\<lparr>room := room1\<rparr>)"
    by (simp add: synced_def new_uni_def dyn_window_default_def)
  then have "progress ?d [] (length codes) ?c"
    using assms(2) by (auto simp: progress_def csynced_def acts_ok_def new_comp_def new_uni_def dyn_window_default_def)
  then have "progress ?d codes 0 (compress_loop (concat (map le16 codes)) ?c)"
    using compress_loop_progress [of ?d "[]"] assms(1) by force
  moreover obtain n where n: "rounds = Suc (Suc n)" using assms(4) by (metis Suc_le_D numeral_2_eq_2 Suc_le_mono)
  ultimately obtain c' where c': "last_runs rounds (compress_loop (concat (map le16 codes)) ?c) = Some c'" "synced ?d codes (cu c')"
    using last_runs_synced by blast
  have "expand_loop (?d\<lparr>src := out (cu c') @ []\<rparr>) = expand_loop (?d\<lparr>src := [], room := room ?d - 2 * length codes,
      out := out ?d @ concat (map le16 codes), active_base := active_base (cu c'), dyn := dyn (cu c'), umode := False\<rparr>)"
    using c'(2) assms(3) unfolding synced_def by (elim conjE allE [of _ "[]"]) simp
  then have "out (expand_loop (?d\<lparr>src := out (cu c')\<rparr>)) = concat (map le16 codes)"
    by (simp add: new_uni_def expand_loop_empty)
  moreover have "compress rounds (concat (map le16 codes)) room1 new_comp = Some (out (cu c'), c')"
    using c'(1) by (simp add: compress_def new_comp_def new_uni_def)
  moreover have "expand (out (cu c')) room2 new_uni = (out (expand_loop (?d\<lparr>src := out (cu c')\<rparr>)),
      length (out (cu c')) - length (src (expand_loop (?d\<lparr>src := out (cu c')\<rparr>))), expand_loop (?d\<lparr>src := out (cu c')\<rparr>))"
    by (simp add: expand_def new_uni_def Let_def)
  ultimately show ?thesis by auto
qed

lemma plain_treatment:
  assumes "0x3400 \<le> x" and "x \<le> 0xDFFF"
  shows "char_treatment x = -1" "\<not> in_window x 0x80"
  using assms by (auto simp: char_treatment_def encode_as_is_def dynamic_window_offset_index_def static_window_index_def
      static_windows_def in_window_def)

lemma write_uchar_ok:
  assumes "x \<le> 0xDFFF" and "1 < room s"
  shows "write_uchar x s = (True, s\<lparr>room := room s - 2, out := out s @ [x div 256, x mod 256]\<rparr>)"
proof -
  have "x div 256 < 256" using assms(1) by (simp add: div_less_iff_less_mult)
  then show ?thesis using assms by (simp add: write_uchar_def write_byte_be_def write_byte8_def and_then_def numeral_2_eq_2)
qed

lemma expand_pair:
  assumes "1 < r" and "hi \<le> 0xDF" and "lo < 256"
  shows "expand_loop \<lparr>umode = True, active_base = ab, dyn = ws, src = hi # lo # bs, room = r, out = os\<rparr>
    = expand_loop \<lparr>umode = True, active_base = ab, dyn = ws, src = bs, room = r - 2, out = os @ [lo, hi]\<rparr>"
proof -
  have "(hi * 256 + lo) mod 256 = lo" "(hi * 256 + lo) div 256 = hi" "hi * 256 + lo < 0x10000" using assms(2,3) by simp_all
  then show ?thesis using assms
    by (subst expand_loop.simps) (simp add: handle_ubyte_def read_byte_def write_byte_ok le16_def Let_def)
qed

text \<open>Text that stays in Unicode mode is corrupted: every four characters the compressor selects Unicode mode
  once more, and the expander, which is in that mode already, takes the tag for the first half of a
  character. Of six characters from 0x3400 to 0xDFFF the fifth comes back as another one.\<close>

theorem unicode_mode_corrupts:
  assumes "\<forall>x \<in> {a, b, c, d, e, f}. 0x3400 \<le> x \<and> x \<le> 0xDFFF"
  shows "\<exists>packed k. compress 2 (concat (map le16 [a, b, c, d, e, f])) 64 new_comp = Some (packed, k)
    \<and> fst (expand packed 10 new_uni) = concat (map le16 [a, b, c, d, 0xF00 + e div 256]) \<and> e \<noteq> 0xF00 + e div 256"
proof -
  have t: "char_treatment x = -1" "\<not> in_window x 0x80" "x \<le> 0xDFFF" if "x \<in> {a, b, c, d, e, f}" for x
    using assms that plain_treatment by blast+
  note ts = t [of a, simplified] t [of b, simplified] t [of c, simplified] t [of d, simplified] t [of e, simplified] t [of f, simplified]
  have sum: "x div 256 * 256 + x mod 256 = x" for x :: nat by simp
  let ?be = "\<lambda>x. [x div 256, x mod 256]"
  let ?u4 = "new_uni\<lparr>umode := True, room := 55, out := [0xF] @ concat (map ?be [a, b, c, d])\<rparr>"
  let ?u6 = "new_uni\<lparr>umode := True, room := 50, out := [0xF] @ concat (map ?be [a, b, c, d]) @ [0xF] @ concat (map ?be [e, f])\<rparr>"
  have r4: "write_run (new_comp\<lparr>cu := new_uni\<lparr>room := 64\<rparr>, actions := [(a, -1), (b, -1), (c, -1), (d, -1)]\<rparr>) = new_comp\<lparr>cu := ?u4\<rparr>"
    by (simp add: write_run_def new_comp_def new_uni_def ts write_groups.simps write_treatment_selection_def write_byte8_def Let_def
        write_char_def write_uchar_ok and_then_def)
  have r6: "write_run (new_comp\<lparr>cu := ?u4, actions := [(e, -1), (f, -1)]\<rparr>) = new_comp\<lparr>cu := ?u6\<rparr>"
    by (simp add: write_run_def new_comp_def new_uni_def ts write_groups.simps write_treatment_selection_def write_byte8_def Let_def
        write_char_def write_uchar_ok and_then_def)
  have "compress_loop (concat (map le16 [a, b, c, d, e, f])) (new_comp\<lparr>cu := new_uni\<lparr>room := 64\<rparr>\<rparr>)
    = new_comp\<lparr>cu := ?u4, actions := [(e, -1), (f, -1)]\<rparr>"
    using r4 by (simp add: compress_loop.simps le16_def sum take_action_def ts new_comp_def new_uni_def Let_def)
  then have "compress 2 (concat (map le16 [a, b, c, d, e, f])) 64 new_comp = Some (out ?u6, new_comp\<lparr>cu := ?u6\<rparr>)"
    using r6 by (simp add: compress_def numeral_2_eq_2 new_comp_def new_uni_def)
  moreover have "fst (expand (out ?u6) 10 new_uni) = concat (map le16 [a, b, c, d, 0xF00 + e div 256])"
  proof -
    have h: "x div 256 \<le> 0xDF" if "x \<le> 0xDFFF" for x :: nat using that by simp
    have hs: "a div 256 \<le> 0xDF" "b div 256 \<le> 0xDF" "c div 256 \<le> 0xDF" "d div 256 \<le> 0xDF" "e div 256 < 256"
      using ts h by (simp_all add: div_less_iff_less_mult)
    have 0: "room s = 0 \<Longrightarrow> expand_loop s = s" for s by (subst expand_loop.simps) simp
    let ?s = "new_uni\<lparr>room := 10, umode := True\<rparr>"
    have "expand_loop (new_uni\<lparr>room := 10, src := out ?u6\<rparr>) = expand_loop (?s\<lparr>src := tl (out ?u6)\<rparr>)"
      by (subst expand_loop.simps) (simp add: new_uni_def handle_sbyte_def encode_as_is_def)
    also have "tl (out ?u6) = concat (map ?be [a, b, c, d]) @ [0xF] @ concat (map ?be [e, f])" by simp
    finally have "out (expand_loop (new_uni\<lparr>room := 10, src := out ?u6\<rparr>))
      = concat (map le16 [a, b, c, d]) @ [e div 256, 0xF]"
      using hs by (simp add: new_uni_def expand_pair 0 le16_def)
    moreover have "(0xF00 + y) mod 256 = y" "(0xF00 + y) div 256 = 0xF" if "y < 256" for y :: nat
    proof -
      show d: "(0xF00 + y) div 256 = 0xF" using that by (intro div_nat_eqI) simp_all
      show "(0xF00 + y) mod 256 = y" using d minus_div_mult_eq_mod [of "0xF00 + y" 256] by simp
    qed
    ultimately show ?thesis using hs(5) by (simp add: expand_def new_uni_def Let_def le16_def)
  qed
  moreover have "e \<noteq> 0xF00 + e div 256" using assms by auto
  ultimately show ?thesis by blast
qed

section \<open>Concrete executions\<close>

theorem compress_expand_roundtrip_witness:
  "\<exists>packed c. compress 2 (concat (map le16 [0x41, 0x416, 0x417, 0x3042, 0x20AC, 0x7, 0xFF21])) 40 new_comp = Some (packed, c)
    \<and> fst (expand packed 15 new_uni) = concat (map le16 [0x41, 0x416, 0x417, 0x3042, 0x20AC, 0x7, 0xFF21])"
  by (rule compress_expand_roundtrip) (simp_all add: windowed_def)

theorem unicode_mode_corrupts_witness:
  "\<exists>packed k. compress 2 (concat (map le16 [0x4E00, 0x4E01, 0x4E02, 0x4E03, 0x4E04, 0x4E05])) 64 new_comp = Some (packed, k)
    \<and> fst (expand packed 10 new_uni) = concat (map le16 [0x4E00, 0x4E01, 0x4E02, 0x4E03, 0x0F4E])"
proof -
  have "\<forall>x \<in> {0x4E00, 0x4E01, 0x4E02, 0x4E03, 0x4E04, 0x4E05::nat}. 0x3400 \<le> x \<and> x \<le> 0xDFFF" by simp
  from unicode_mode_corrupts [OF this] show ?thesis by simp
qed

end
