(* ===== verification/Runlen.thy ===== *)
theory Runlen imports Prelude begin

text \<open>
  Buffer streams of \<open>common/buffer.h\<close> and the run-length coding of bitmaps of \<open>common/runlen.cpp\<close>.

  Bytes are naturals. A read-only stream is its data and a position, which the code here keeps within the data.
  A write-only stream is what has been written and the end of its buffer; writing does not look at the end, so
  that more bytes than the end allows are memory overwritten behind the buffer. \<open>None\<close> is the value of undefined
  behaviour (bytes of an array that were never read).
\<close>

section \<open>Buffer streams\<close>

record ro =
  rdata :: "nat list"
  rpos :: nat

definition ro_valid :: "ro \<Rightarrow> bool" where
  "ro_valid s \<longleftrightarrow> rpos s < length (rdata s)"

definition ro_left :: "ro \<Rightarrow> nat" where
  "ro_left s = length (rdata s) - rpos s"

definition ro_seek_beg :: "nat \<Rightarrow> ro \<Rightarrow> ro" where
  "ro_seek_beg n s = s\<lparr>rpos := n\<rparr>"

definition ro_seek_back :: "nat \<Rightarrow> ro \<Rightarrow> ro" where
  "ro_seek_back n s = s\<lparr>rpos := rpos s - n\<rparr>"

definition ro_read :: "nat \<Rightarrow> ro \<Rightarrow> nat list \<times> ro" where
  "ro_read n s = (let k = min n (ro_left s) in (take k (drop (rpos s) (rdata s)), s\<lparr>rpos := rpos s + k\<rparr>))"

record wo =
  wdata :: "nat list"
  wend :: nat

definition wo_valid :: "wo \<Rightarrow> bool" where
  "wo_valid d \<longleftrightarrow> length (wdata d) < wend d"

definition wo_left :: "wo \<Rightarrow> nat" where
  "wo_left d = wend d - length (wdata d)"

definition wo_write :: "nat list \<Rightarrow> wo \<Rightarrow> wo" where
  "wo_write bs d = d\<lparr>wdata := wdata d @ bs, wend := max (wend d) (length (wdata d))\<rparr>"

section \<open>Compression\<close>

text \<open>The widths the template is instantiated with.\<close>

datatype width = W8 | W16 | W24 | W32

fun byte_count :: "width \<Rightarrow> nat" where
  "byte_count W8 = 1" | "byte_count W16 = 2" | "byte_count W24 = 3" | "byte_count W32 = 4"

lemma byte_count_pos [simp]: "0 < byte_count w" "byte_count w \<noteq> 0"
  by (cases w; simp)+

text \<open>Reading into an array: bytes that are not read keep their value.\<close>

definition read_into :: "width \<Rightarrow> nat list \<Rightarrow> ro \<Rightarrow> nat list \<times> ro" where
  "read_into w temp s = (case ro_read (byte_count w) s of (got, s) \<Rightarrow> (got @ drop (length got) temp, s))"

lemma ro_read_progress: "ro_valid (snd (read_into w t s)) \<Longrightarrow> rpos (snd (read_into w t s)) = rpos s + byte_count w
    \<and> rpos s + byte_count w < length (rdata s)"
  by (auto simp: read_into_def ro_read_def ro_valid_def ro_left_def Let_def min_def split: if_splits)

lemma rdata_read_into [simp]: "rdata (snd (read_into w t s)) = rdata s"
  by (simp add: read_into_def ro_read_def Let_def)

lemma read_into_measure:
  "ro_valid (snd (read_into w t s)) \<Longrightarrow> length (rdata s) - rpos (snd (read_into w t s)) < length (rdata s) - rpos s"
  using ro_read_progress [of w t s] byte_count_pos(1) [of w] by linarith

function run_loop :: "width \<Rightarrow> nat list \<Rightarrow> nat list \<Rightarrow> ro \<Rightarrow> nat list \<times> ro" where
  "run_loop w bytes temp s = (let r = read_into w temp s in
     if ro_valid (snd r) \<and> fst r = bytes then run_loop w bytes (fst r) (snd r) else r)"
  by pat_completeness auto
termination
  by (relation "measure (\<lambda>(w, bytes, temp, s). length (rdata s) - rpos s)") (simp_all add: read_into_measure)

function literal_loop :: "width \<Rightarrow> nat list \<Rightarrow> nat list \<Rightarrow> bool \<Rightarrow> ro \<Rightarrow> ro" where
  "literal_loop w bytes temp should_copy s =
     (let bytes = (if should_copy then temp else bytes); r = read_into w temp s in
      if ro_valid (snd r) \<and> fst r \<noteq> bytes then literal_loop w bytes (fst r) True (snd r) else snd r)"
  by pat_completeness auto
termination
  by (relation "measure (\<lambda>(w, bytes, temp, c, s). length (rdata s) - rpos s)") (simp_all add: read_into_measure)

declare run_loop.simps [simp del] literal_loop.simps [simp del]

text \<open>The seek back over the element that ended the loop, unless the data are finished.\<close>

definition step_back :: "width \<Rightarrow> ro \<Rightarrow> ro" where
  "step_back w s = (if ro_valid s then ro_seek_back (byte_count w) s else s)"

fun write_runs :: "nat \<Rightarrow> nat list \<Rightarrow> wo option \<times> nat \<Rightarrow> wo option \<times> nat" where
  "write_runs pairs bytes (dest, dest_size) =
    (if pairs = 0 then (dest, dest_size)
     else let session = (if pairs > 128 then 127 else pairs - 1) in
       write_runs (pairs - (session + 1)) bytes
         (map_option (\<lambda>d. wo_write bytes (wo_write [session] d)) dest, dest_size + length bytes + 1))"

text \<open>The count of a literal is a negative byte.\<close>

fun write_literals :: "width \<Rightarrow> nat \<Rightarrow> ro \<Rightarrow> wo option \<Rightarrow> nat \<Rightarrow> ro \<times> wo option \<times> nat" where
  "write_literals w pairs s dest dest_size =
    (if pairs = 0 then (s, dest, dest_size)
     else let session = min pairs 128 in
       case dest of
         None \<Rightarrow> write_literals w (pairs - session) s None (dest_size + 1 + session * byte_count w)
       | Some d \<Rightarrow> (case ro_read (session * byte_count w) s of (bs, s) \<Rightarrow>
           write_literals w (pairs - session) s (Some (wo_write bs (wo_write [256 - session] d)))
             (dest_size + 1 + session * byte_count w)))"

declare write_runs.simps [simp del] write_literals.simps [simp del]

text \<open>One round of the loop of \<open>compress_rle\<close>; \<open>None\<close> when fewer bytes than an element are left.\<close>

definition rle_round :: "width \<Rightarrow> ro \<times> wo option \<times> nat \<Rightarrow> (ro \<times> wo option \<times> nat) option" where
  "rle_round w st = (case st of (s, dest, dest_size) \<Rightarrow>
    let last_position = rpos s; first = ro_read (byte_count w) s; bytes = fst first
    in if length bytes \<noteq> byte_count w then None
    else let second = ro_read (byte_count w) (snd first); temp = fst second; s = ro_seek_back (byte_count w) (snd second)
    in if length temp = byte_count w \<and> bytes = temp then
        let s = step_back w (snd (run_loop w bytes temp s))
        in Some (s, write_runs ((rpos s - last_position) div byte_count w) bytes (dest, dest_size))
      else
        let s = step_back w (literal_loop w bytes temp False s);
            total_pair = (rpos s - last_position) div byte_count w
        in Some (write_literals w total_pair (if dest = None then s else ro_seek_beg last_position s) dest dest_size))"

lemma rle_round_iff:
  assumes "ro_read (byte_count w) s = (bytes, s1)" and "ro_read (byte_count w) s1 = (temp, s2)"
    and "s0 = ro_seek_back (byte_count w) s2"
  shows "rle_round w (s, d, z) =
    (if length bytes \<noteq> byte_count w then None
     else if length temp = byte_count w \<and> bytes = temp then
       (let t = step_back w (snd (run_loop w bytes temp s0))
        in Some (t, write_runs ((rpos t - rpos s) div byte_count w) bytes (d, z)))
     else (let t = step_back w (literal_loop w bytes temp False s0)
        in Some (write_literals w ((rpos t - rpos s) div byte_count w) (if d = None then t else ro_seek_beg (rpos s) t) d z)))"
  by (simp only: rle_round_def assms Let_def prod.case fst_conv snd_conv)

lemma run_loop_pos:
  "rdata (snd (run_loop w b t s)) = rdata s
   \<and> (ro_valid (snd (run_loop w b t s)) \<longrightarrow> rpos s + byte_count w \<le> rpos (snd (run_loop w b t s)))"
proof (induction w b t s rule: run_loop.induct)
  case (1 w b t s)
  then show ?case using ro_read_progress [of w t s] by (subst (1 2 3) run_loop.simps) (auto simp: Let_def)
qed

lemma literal_loop_pos:
  "rdata (literal_loop w b t c s) = rdata s
   \<and> (ro_valid (literal_loop w b t c s) \<longrightarrow> rpos s + byte_count w \<le> rpos (literal_loop w b t c s))"
proof (induction w b t c s rule: literal_loop.induct)
  case (1 w b t c s)
  let ?b = "if c then t else b" and ?r = "read_into w t s"
  show ?case
  proof (cases "ro_valid (snd ?r) \<and> fst ?r \<noteq> ?b")
    case True
    then have "literal_loop w b t c s = literal_loop w ?b (fst ?r) True (snd ?r)"
      by (subst literal_loop.simps) (simp add: Let_def)
    then show ?thesis using 1 [OF refl refl True] True ro_read_progress [of w t s] by (auto split del: if_split)
  next
    case False
    have "literal_loop w b t c s = snd ?r" by (simp only: literal_loop.simps [of w b t c s] Let_def False if_False)
    then show ?thesis using ro_read_progress [of w t s] by simp
  qed
qed

lemma step_back_pos: "rpos (step_back w s) \<ge> min (rpos s - byte_count w) (length (rdata s))"
  by (auto simp: step_back_def ro_seek_back_def ro_valid_def)

lemma rdata_step_back [simp]: "rdata (step_back w s) = rdata s"
  by (simp add: step_back_def ro_seek_back_def)

lemma write_literals_some:
  "0 < n \<Longrightarrow> write_literals w n s (Some d) z =
    (let m = min n 128; r = ro_read (m * byte_count w) s
     in write_literals w (n - m) (snd r) (Some (wo_write (fst r) (wo_write [256 - m] d))) (z + 1 + m * byte_count w))"
  by (subst write_literals.simps) (simp add: Let_def split: prod.split)

lemma write_literals_none:
  "0 < n \<Longrightarrow> write_literals w n s None z = write_literals w (n - min n 128) s None (z + 1 + min n 128 * byte_count w)"
  by (subst write_literals.simps) (simp add: Let_def)

lemma write_literals_0 [simp]: "write_literals w 0 s d z = (s, d, z)"
  by (subst write_literals.simps) simp

lemma ro_read_pos: "rdata (snd (ro_read n s)) = rdata s" "rpos s \<le> rpos (snd (ro_read n s))"
  "0 < n \<Longrightarrow> ro_valid s \<Longrightarrow> rpos s < rpos (snd (ro_read n s))"
  by (simp_all add: ro_read_def Let_def ro_valid_def ro_left_def)

lemma write_literals_none_pos [simp]: "fst (write_literals w n s None z) = s"
proof (induction n arbitrary: z rule: less_induct)
  case (less n)
  then show ?case by (cases "n = 0") (simp_all add: write_literals_none)
qed

lemma write_literals_pos:
  "rdata (fst (write_literals w n s (Some d) z)) = rdata s \<and> rpos s \<le> rpos (fst (write_literals w n s (Some d) z))
   \<and> (0 < n \<longrightarrow> ro_valid s \<longrightarrow> rpos s < rpos (fst (write_literals w n s (Some d) z)))"
proof (induction n arbitrary: s d z rule: less_induct)
  case (less n)
  show ?case
  proof (cases "n = 0")
    case False
    let ?r = "ro_read (min n 128 * byte_count w) s"
    have "n - min n 128 < n" "0 < min n 128 * byte_count w" using False by simp_all
    from less.IH [OF this(1), of "snd ?r"] ro_read_pos [where n = "min n 128 * byte_count w" and s = s] this(2)
    show ?thesis using False by (simp add: write_literals_some Let_def) (meson le_trans less_le_trans)
  qed simp
qed

lemma rle_round_progress:
  assumes "ro_valid s" and "rle_round w (s, d, z) = Some (s', d', z')"
  shows "rdata s' = rdata s \<and> rpos s < rpos s'"
proof -
  obtain bytes s1 where r1: "ro_read (byte_count w) s = (bytes, s1)" by force
  obtain temp s2 where r2: "ro_read (byte_count w) s1 = (temp, s2)" by force
  define b where "b = byte_count w"
  define s0 where "s0 = ro_seek_back (byte_count w) s2"
  note round = rle_round_iff [OF r1 r2 s0_def, of d z, folded b_def]
  have b: "0 < b" by (simp add: b_def)
  have l: "length bytes = b" using assms(2) round by (auto split: if_splits)
  then have p1: "rpos s1 = rpos s + b" "rpos s + b \<le> length (rdata s)" "rdata s1 = rdata s"
    using assms(1) r1 by (auto simp: b_def ro_read_def Let_def ro_left_def ro_valid_def min_def split: if_splits)
  have p2: "rpos s2 = rpos s + b + length temp" "length temp = min b (length (rdata s) - rpos s - b)" "rdata s2 = rdata s"
    using p1 r2 by (auto simp: b_def ro_read_def [of _ s1] Let_def ro_left_def)
  have p0: "rdata s0 = rdata s" "rpos s0 = rpos s + length temp" using p2 by (auto simp: s0_def ro_seek_back_def b_def)
  have after: "rpos s + b \<le> rpos (step_back w t)" if "rdata t = rdata s" "ro_valid t \<longrightarrow> rpos s0 + b \<le> rpos t" for t
    using that p0(2) p1(2) p2(2) by (auto simp: b_def step_back_def ro_seek_back_def ro_valid_def)
  show ?thesis
  proof (cases "length temp = b \<and> bytes = temp")
    case True
    define t where "t = step_back w (snd (run_loop w bytes temp s0))"
    have "s' = t" using assms(2) round l True by (simp add: Let_def t_def)
    moreover have "rdata t = rdata s" "rpos s + b \<le> rpos t"
      unfolding t_def using run_loop_pos [of w bytes temp s0] p0(1) after by (simp_all add: b_def)
    ultimately show ?thesis using b by simp
  next
    case False
    define t where "t = step_back w (literal_loop w bytes temp False s0)"
    have t: "rdata t = rdata s" "rpos s + b \<le> rpos t"
      unfolding t_def using literal_loop_pos [of w bytes temp False s0] p0(1) after by (simp_all add: b_def)
    then have n: "0 < (rpos t - rpos s) div b" using b by (simp add: div_greater_zero_iff)
    have s': "(s', d', z') = write_literals w ((rpos t - rpos s) div b) (if d = None then t else ro_seek_beg (rpos s) t) d z"
      using assms(2) unfolding round if_not_P [OF False] t_def [symmetric] Let_def using l by simp
    show ?thesis
    proof (cases d)
      case None
      then have "s' = t" using s' by (metis fst_conv write_literals_none_pos)
      then show ?thesis using t b by simp
    next
      case (Some d0)
      have "ro_valid (ro_seek_beg (rpos s) t)" "rdata (ro_seek_beg (rpos s) t) = rdata s" "rpos (ro_seek_beg (rpos s) t) = rpos s"
        using assms(1) t(1) by (simp_all add: ro_seek_beg_def ro_valid_def)
      then show ?thesis using write_literals_pos [of w "(rpos t - rpos s) div b" "ro_seek_beg (rpos s) t" d0 z] n s' Some
        by (metis fst_conv option.discI)
    qed
  qed
qed

function compress_loop :: "width \<Rightarrow> ro \<times> wo option \<times> nat \<Rightarrow> bool \<times> wo option \<times> nat" where
  "compress_loop w (s, dest, dest_size) =
    (if ro_valid s \<and> (case dest of None \<Rightarrow> True | Some d \<Rightarrow> wo_valid d)
     then (case rle_round w (s, dest, dest_size) of None \<Rightarrow> (False, dest, dest_size) | Some st \<Rightarrow> compress_loop w st)
     else (True, dest, dest_size))"
  by pat_completeness auto
termination
proof (relation "measure (\<lambda>(w, s, d, z). length (rdata s) - rpos s)")
  fix w s d z st
  assume a: "ro_valid s \<and> (case d of None \<Rightarrow> True | Some d \<Rightarrow> wo_valid d)" "rle_round w (s, d, z) = Some st"
  obtain s' d' z' where "st = (s', d', z')" by (cases st)
  with a rle_round_progress have "rdata s' = rdata s" "rpos s < rpos s'" "rpos s < length (rdata s)" by (auto simp: ro_valid_def)
  then show "((w, st), (w, s, d, z)) \<in> measure (\<lambda>(w, s, d, z). length (rdata s) - rpos s)"
    using \<open>st = _\<close> by (simp add: diff_less_mono2)
qed simp

declare compress_loop.simps [simp del]

definition compress_rle :: "width \<Rightarrow> ro \<Rightarrow> wo option \<Rightarrow> bool \<times> wo option \<times> nat" where
  "compress_rle w source dest = compress_loop w (source, dest, 0)"

section \<open>Decompression\<close>

definition signed_byte :: "nat \<Rightarrow> int" where
  "signed_byte b = (if b < 128 then int b else int b - 256)"

definition decompress_round :: "width \<Rightarrow> ro \<times> wo \<Rightarrow> (ro \<times> wo) undef" where
  "decompress_round w st = (case st of (s, d) \<Rightarrow>
    let (b, s) = ro_read 1 s; count = signed_byte (hd b) in
    if count \<ge> 0 then
      let count = min count (int (wo_left d div byte_count w)); (comp, s) = ro_read (byte_count w) s in
      if length comp < byte_count w then None
      else Some (s, ((wo_write comp) ^^ (nat (count + 1))) d)
    else
      let num_bytes_to_copy = min (nat (count * - int (byte_count w))) (wo_left d); (bs, s) = ro_read num_bytes_to_copy s
      in Some (s, wo_write (bs @ replicate (num_bytes_to_copy - length bs) 0) d))"

function decompress_rle :: "width \<Rightarrow> ro \<times> wo \<Rightarrow> wo undef" where
  "decompress_rle w (s, d) = (if ro_valid s \<and> wo_valid d
     then (case decompress_round w (s, d) of None \<Rightarrow> None | Some st \<Rightarrow> decompress_rle w st)
     else Some d)"
  by pat_completeness auto
termination
proof (relation "measure (\<lambda>(w, s, d). length (rdata s) - rpos s)")
  fix w s d st
  assume a: "ro_valid s \<and> wo_valid d" "decompress_round w (s, d) = Some st"
  have "rdata (fst st) = rdata s \<and> rpos (snd (ro_read 1 s)) \<le> rpos (fst st)"
    using a(2) ro_read_pos(1,2) by (auto simp: decompress_round_def Let_def split: prod.splits if_splits) (metis snd_conv)+
  moreover have "rpos s < rpos (snd (ro_read 1 s))" using a(1) ro_read_pos(3) by simp
  ultimately show "((w, st), (w, s, d)) \<in> measure (\<lambda>(w, s, d). length (rdata s) - rpos s)"
    using a(1) by (cases st) (simp add: ro_valid_def diff_less_mono2)
qed simp

declare decompress_rle.simps [simp del]

text \<open>The 12-bit form keeps the count in the upper four bits of each element.\<close>

function decompress_rle12 :: "ro \<times> wo \<Rightarrow> wo" where
  "decompress_rle12 (s, d) = (if ro_valid s \<and> wo_valid d
     then (case ro_read 2 s of (bs, s) \<Rightarrow>
       if length bs \<noteq> 2 then d
       else let val = bs ! 0 + 256 * bs ! 1; repeat_count = min (val div 4096 mod 16) (wo_left d div 2); val = val mod 4096
         in decompress_rle12 (s, ((wo_write [val mod 256, val div 256]) ^^ (repeat_count + 1)) d))
     else d)"
  by pat_completeness auto
termination
proof (relation "measure (\<lambda>(s, d). length (rdata s) - rpos s)")
  fix s :: ro and d :: wo and bs :: "nat list" and s' :: ro and val repeat_count val' :: nat
  assume a: "ro_valid s \<and> wo_valid d" "(bs, s') = ro_read 2 s"
  have "s' = snd (ro_read 2 s)" using a(2) by (metis snd_conv)
  then have "rdata s' = rdata s" "rpos s < rpos s'" "rpos s < length (rdata s)"
    using ro_read_pos [where n = 2 and s = s] a(1) by (simp_all add: ro_valid_def)
  then show "((s', (wo_write [val' mod 256, val' div 256] ^^ (repeat_count + 1)) d), (s, d)) \<in> measure (\<lambda>(s, d). length (rdata s) - rpos s)"
    by (simp add: diff_less_mono2)
qed simp

declare decompress_rle12.simps [simp del]

section \<open>Streams of elements\<close>

text \<open>The rest of a stream is the elements \<open>es\<close>.\<close>

definition at :: "width \<Rightarrow> ro \<Rightarrow> nat list list \<Rightarrow> bool" where
  "at w s es \<longleftrightarrow> rpos s \<le> length (rdata s) \<and> drop (rpos s) (rdata s) = concat es \<and> (\<forall>e \<in> set es. length e = byte_count w)"

lemma concat_length: "\<forall>e \<in> set es. length e = n \<Longrightarrow> length (concat es) = n * length es"
  by (induction es) simp_all

lemma at_left: "at w s es \<Longrightarrow> ro_left s = byte_count w * length es"
  unfolding at_def ro_left_def by (metis concat_length length_drop)

lemma at_valid: "at w s es \<Longrightarrow> ro_valid s \<longleftrightarrow> es \<noteq> []"
proof -
  assume a: "at w s es"
  have "0 < ro_left s \<longleftrightarrow> es \<noteq> []" using at_left [OF a] by simp
  then show ?thesis by (simp add: ro_left_def ro_valid_def)
qed

lemma take_concat: "\<forall>e \<in> set es. length e = n \<Longrightarrow> k \<le> length es \<Longrightarrow> take (k * n) (concat es) = concat (take k es) \<and> drop (k * n) (concat es) = concat (drop k es)"
proof (induction es arbitrary: k)
  case (Cons e es)
  then show ?case by (cases k) simp_all
qed simp

lemma at_read_many:
  assumes "at w s es" and "k \<le> length es"
  shows "ro_read (k * byte_count w) s = (concat (take k es), s\<lparr>rpos := rpos s + k * byte_count w\<rparr>)
    \<and> at w (s\<lparr>rpos := rpos s + k * byte_count w\<rparr>) (drop k es)"
proof -
  have l: "k * byte_count w \<le> ro_left s" using at_left [OF assms(1)] assms(2) by (simp add: mult.commute)
  have t: "take (k * byte_count w) (drop (rpos s) (rdata s)) = concat (take k es)"
    "drop (k * byte_count w) (drop (rpos s) (rdata s)) = concat (drop k es)"
    using take_concat [of es "byte_count w" k] assms by (simp_all add: at_def)
  have "rpos s + k * byte_count w \<le> length (rdata s)" using l assms(1) unfolding ro_left_def at_def by linarith
  then show ?thesis using t l assms(1) by (auto simp: ro_read_def Let_def at_def min_def add.commute dest: in_set_dropD)
qed

lemma at_read: "at w s (e # es) \<Longrightarrow> ro_read (byte_count w) s = (e, s\<lparr>rpos := rpos s + byte_count w\<rparr>)
    \<and> at w (s\<lparr>rpos := rpos s + byte_count w\<rparr>) es \<and> length e = byte_count w"
  using at_read_many [of w s "e # es" 1] by (simp add: at_def)

lemma at_read_none: "at w s [] \<Longrightarrow> ro_read n s = ([], s)"
  by (simp add: at_def ro_read_def ro_left_def)

lemma at_seek_back: "ro_seek_back (byte_count w) (s\<lparr>rpos := rpos s + byte_count w\<rparr>) = s"
  by (cases s) (simp add: ro_seek_back_def)

section \<open>Lengths of runs and literals\<close>

text \<open>How many elements the loops read.\<close>

fun run_len :: "'a \<Rightarrow> 'a list \<Rightarrow> nat" where
  "run_len a [] = 0" | "run_len a [e] = 1" | "run_len a (e # e' # es) = (if e = a then Suc (run_len a (e' # es)) else 1)"

fun literal_len :: "'a \<Rightarrow> 'a list \<Rightarrow> nat" where
  "literal_len a [] = 0" | "literal_len a [e] = 1" | "literal_len a (e # e' # es) = (if e \<noteq> a then Suc (literal_len e (e' # es)) else 1)"

lemma read_into_at: "at w s (e # es) \<Longrightarrow> read_into w t s = (e @ drop (byte_count w) t, s\<lparr>rpos := rpos s + byte_count w\<rparr>)"
  using at_read [of w s e es] by (simp add: read_into_def)

lemma run_loop_at:
  "at w s es \<Longrightarrow> es \<noteq> [] \<Longrightarrow> length t \<le> byte_count w \<Longrightarrow>
    snd (run_loop w a t s) = s\<lparr>rpos := rpos s + byte_count w * run_len a es\<rparr>"
proof (induction a es arbitrary: s t rule: run_len.induct)
  case (2 a e)
  then show ?case using at_read [of w s e "[]"] at_valid [of w "s\<lparr>rpos := rpos s + byte_count w\<rparr>" "[]"]
    by (subst run_loop.simps) (simp add: read_into_at Let_def)
next
  case (3 a e e' es)
  let ?s = "s\<lparr>rpos := rpos s + byte_count w\<rparr>"
  have r: "at w ?s (e' # es)" "ro_valid ?s" "length e = byte_count w" using at_read [OF 3(2)] at_valid by auto
  have "snd (run_loop w a t s) = (if e = a then snd (run_loop w a e ?s) else ?s)"
    using r(2) 3(2,4) by (subst run_loop.simps) (simp add: read_into_at Let_def)
  moreover have "snd (run_loop w a e ?s) = ?s\<lparr>rpos := rpos ?s + byte_count w * run_len a (e' # es)\<rparr>" if "e = a"
    using 3(1) [OF that r(1)] r(3) by simp
  ultimately show ?case by (cases "e = a") (simp_all add: algebra_simps)
qed simp

lemma literal_loop_at:
  "at w s es \<Longrightarrow> es \<noteq> [] \<Longrightarrow> length t \<le> byte_count w \<Longrightarrow>
    literal_loop w b t c s = s\<lparr>rpos := rpos s + byte_count w * literal_len (if c then t else b) es\<rparr>"
proof (induction "if c then t else b" es arbitrary: s t b c rule: literal_len.induct)
  case (2 e)
  then show ?case using at_read [of w s e "[]"] at_valid [of w "s\<lparr>rpos := rpos s + byte_count w\<rparr>" "[]"]
    by (subst literal_loop.simps) (simp add: read_into_at Let_def)
next
  case (3 e e' es)
  let ?s = "s\<lparr>rpos := rpos s + byte_count w\<rparr>" and ?b = "if c then t else b"
  have r: "at w ?s (e' # es)" "ro_valid ?s" "length e = byte_count w" using at_read [OF 3(2)] at_valid by auto
  have "literal_loop w b t c s = (if e \<noteq> ?b then literal_loop w ?b e True ?s else ?s)"
    using r(2) 3(2,4) by (subst literal_loop.simps) (simp add: read_into_at Let_def)
  moreover have "literal_loop w ?b e True ?s = ?s\<lparr>rpos := rpos ?s + byte_count w * literal_len e (e' # es)\<rparr>" if "e \<noteq> ?b"
    using 3(1) [of True e ?b ?s] that r by simp
  ultimately show ?case by (cases "e = ?b") (simp_all add: algebra_simps del: if_split)
qed simp

lemma run_len_bounds: "es \<noteq> [] \<Longrightarrow> 1 \<le> run_len a es \<and> run_len a es \<le> length es"
  by (induction a es rule: run_len.induct) auto

lemma literal_len_bounds: "es \<noteq> [] \<Longrightarrow> 1 \<le> literal_len a es \<and> literal_len a es \<le> length es"
  by (induction a es rule: literal_len.induct) auto

text \<open>How many elements a round takes.\<close>

definition taken :: "nat \<Rightarrow> 'a list \<Rightarrow> nat" where
  "taken n es = (if n < length es then n - 1 else n)"

lemma step_back_at:
  assumes "at w s es" and "1 \<le> n" and "n \<le> length es"
  shows "step_back w (s\<lparr>rpos := rpos s + byte_count w * n\<rparr>) = s\<lparr>rpos := rpos s + byte_count w * taken n es\<rparr>"
proof -
  have "at w (s\<lparr>rpos := rpos s + byte_count w * n\<rparr>) (drop n es)" using at_read_many [OF assms(1,3)] by (simp add: mult.commute)
  from at_valid [OF this] assms show ?thesis
    by (auto simp: step_back_def taken_def ro_seek_back_def diff_mult_distrib2)
qed

section \<open>The code of a list of elements\<close>

fun is_run :: "'a list \<Rightarrow> bool" where
  "is_run (a # b # es) \<longleftrightarrow> a = b" | "is_run es \<longleftrightarrow> False"

fun round_len :: "'a list \<Rightarrow> nat" where
  "round_len [] = 0" | "round_len [a] = 1"
| "round_len (a # b # es) = Suc (taken (if a = b then run_len a (b # es) else literal_len a (b # es)) (b # es))"

lemma round_len_bounds: "es \<noteq> [] \<Longrightarrow> 1 \<le> round_len es \<and> round_len es \<le> length es"
proof (cases es rule: round_len.cases)
  case (3 a b xs)
  then show ?thesis using run_len_bounds [of "b # xs" a] literal_len_bounds [of "b # xs" a] by (auto simp: taken_def)
qed auto

fun enc_runs :: "nat \<Rightarrow> nat list \<Rightarrow> nat list" where
  "enc_runs m a = (if m = 0 then [] else (min m 128 - 1) # a @ enc_runs (m - min m 128) a)"

function enc_literals :: "nat list list \<Rightarrow> nat list" where
  "enc_literals es = (if es = [] then [] else let k = min (length es) 128 in (256 - k) # concat (take k es) @ enc_literals (drop k es))"
  by pat_completeness auto
termination by (relation "measure length") auto

declare enc_runs.simps [simp del] enc_literals.simps [simp del]

definition enc_round :: "nat list list \<Rightarrow> nat list" where
  "enc_round es = (if is_run es then enc_runs (round_len es) (hd es) else enc_literals (take (round_len es) es))"

function encoded :: "nat list list \<Rightarrow> nat list" where
  "encoded es = (if es = [] then [] else enc_round es @ encoded (drop (round_len es) es))"
  by pat_completeness auto
termination
proof (relation "measure length")
  fix es :: "nat list list"
  assume "es \<noteq> []"
  then show "(drop (round_len es) es, es) \<in> measure length" using round_len_bounds [of es] by simp
qed simp

declare encoded.simps [simp del]

definition put :: "nat list \<Rightarrow> wo \<Rightarrow> wo" where
  "put bs d = d\<lparr>wdata := wdata d @ bs\<rparr>"

lemma put_simps [simp]: "wdata (put bs d) = wdata d @ bs" "wend (put bs d) = wend d" "put bs (put as d) = put (as @ bs) d" "put [] d = d"
  by (simp_all add: put_def)

lemma wo_write_put: "length (wdata d) \<le> wend d \<Longrightarrow> wo_write bs d = put bs d"
  by (simp add: wo_write_def put_def max_def)

lemma write_runs_none: "length a = n \<Longrightarrow> write_runs m a (None, z) = (None, z + length (enc_runs m a))"
proof (induction m arbitrary: z rule: less_induct)
  case (less m)
  show ?case
  proof (cases "m = 0")
    case False
    have e: "min m 128 = Suc (if m > 128 then 127 else m - 1)" using False by simp
    show ?thesis using False less(1) [of "m - min m 128"] less(2) unfolding e
      by (subst write_runs.simps, subst enc_runs.simps) (simp add: Let_def e)
  qed (simp add: write_runs.simps enc_runs.simps)
qed

lemma write_runs_some:
  "length (wdata d) + length (enc_runs m a) \<le> wend d \<Longrightarrow>
    write_runs m a (Some d, z) = (Some (put (enc_runs m a) d), z + length (enc_runs m a))"
proof (induction m arbitrary: z d rule: less_induct)
  case (less m)
  show ?case
  proof (cases "m = 0")
    case False
    let ?k = "min m 128"
    have e: "Suc (if m > 128 then 127 else m - 1) = ?k" "(if m > 128 then 127 else m - 1) = ?k - 1" using False by auto
    have u: "enc_runs m a = (?k - 1) # a @ enc_runs (m - ?k) a" using False by (subst enc_runs.simps) simp
    have "write_runs m a (Some d, z) = write_runs (m - ?k) a (Some (wo_write a (wo_write [?k - 1] d)), z + length a + 1)"
      using False e by (subst write_runs.simps) (simp add: Let_def)
    also have "wo_write a (wo_write [?k - 1] d) = put ((?k - 1) # a) d" using less(2) u by (simp add: wo_write_put)
    finally show ?thesis using less(1) [of "m - ?k" "put ((?k - 1) # a) d"] False less(2) u by simp
  qed (simp add: write_runs.simps enc_runs.simps)
qed

lemma write_literals_none_size:
  "\<forall>e \<in> set es. length e = byte_count w \<Longrightarrow> write_literals w (length es) s None z = (s, None, z + length (enc_literals es))"
proof (induction es arbitrary: z rule: enc_literals.induct)
  case (1 es)
  show ?case
  proof (cases "es = []")
    case False
    let ?k = "min (length es) 128"
    have u: "enc_literals es = (256 - ?k) # concat (take ?k es) @ enc_literals (drop ?k es)" using False by (subst enc_literals.simps) (simp add: Let_def)
    have "length (concat (take ?k es)) = byte_count w * ?k" using concat_length [of "take ?k es" "byte_count w"] 1(2) by (auto dest: in_set_takeD)
    moreover have "\<forall>e \<in> set (drop ?k es). length e = byte_count w" using 1(2) by (auto dest: in_set_dropD)
    ultimately show ?thesis using 1(1) [OF False refl] False u by (simp add: write_literals_none ac_simps)
  qed (simp add: enc_literals.simps)
qed

lemma write_literals_some_put:
  assumes "at w s (es @ fs)" and "length (wdata d) + length (enc_literals es) \<le> wend d"
  shows "write_literals w (length es) s (Some d) z =
    (s\<lparr>rpos := rpos s + length es * byte_count w\<rparr>, Some (put (enc_literals es) d), z + length (enc_literals es))"
  using assms
proof (induction es arbitrary: s d z rule: enc_literals.induct)
  case (1 es)
  show ?case
  proof (cases "es = []")
    case False
    let ?k = "min (length es) 128" and ?s = "s\<lparr>rpos := rpos s + min (length es) 128 * byte_count w\<rparr>"
    have u: "enc_literals es = (256 - ?k) # concat (take ?k es) @ enc_literals (drop ?k es)" using False by (subst enc_literals.simps) (simp add: Let_def)
    have l: "length (concat (take ?k es)) = byte_count w * ?k"
      using concat_length [of "take ?k es" "byte_count w"] 1(2) by (auto simp: at_def dest: in_set_takeD)
    have r: "ro_read (?k * byte_count w) s = (concat (take ?k es), ?s)" "at w ?s (drop ?k es @ fs)"
      using at_read_many [OF 1(2), of ?k] by simp_all
    let ?d = "put ((256 - ?k) # concat (take ?k es)) d"
    have p: "wo_write (concat (take ?k es)) (wo_write [256 - ?k] d) = ?d" using 1(3) u by (simp add: wo_write_put)
    have "write_literals w (length (drop ?k es)) ?s (Some ?d) (z + 1 + ?k * byte_count w) =
        (?s\<lparr>rpos := rpos ?s + length (drop ?k es) * byte_count w\<rparr>, Some (put (enc_literals (drop ?k es)) ?d),
         z + 1 + ?k * byte_count w + length (enc_literals (drop ?k es)))"
      using 1(3) u by (intro 1(1) [OF False refl r(2)]) simp
    moreover have "write_literals w (length es) s (Some d) z = write_literals w (length (drop ?k es)) ?s (Some ?d) (z + 1 + ?k * byte_count w)"
      using False r(1) p by (simp add: write_literals_some Let_def)
    moreover have "length es = ?k + length (drop ?k es)" by simp
    then have "length es * byte_count w = ?k * byte_count w + length (drop ?k es) * byte_count w" by (metis add_mult_distrib)
    ultimately show ?thesis using l by (simp add: u ac_simps)
  qed (simp add: enc_literals.simps)
qed

lemma rle_round_at:
  assumes "at w s es" and "es \<noteq> []" and "m = round_len es" and "t = s\<lparr>rpos := rpos s + m * byte_count w\<rparr>"
  shows "rle_round w (s, d, z) = Some (if is_run es then (t, write_runs m (hd es) (d, z))
    else write_literals w m (if d = None then t else s) d z)"
proof -
  obtain a es' where es: "es = a # es'" using assms(2) by (cases es) auto
  let ?s1 = "s\<lparr>rpos := rpos s + byte_count w\<rparr>"
  have r1: "ro_read (byte_count w) s = (a, ?s1)" "at w ?s1 es'" "length a = byte_count w" using at_read assms(1) es by auto
  have seek0: "ro_seek_beg (rpos s) t = s" by (simp add: assms(4) ro_seek_beg_def)
  show ?thesis
  proof (cases es')
    case Nil
    have r2: "ro_read (byte_count w) ?s1 = ([], ?s1)" using r1(2) Nil at_read_none by blast
    have "literal_loop w a [] False s = s\<lparr>rpos := rpos s + byte_count w\<rparr>" using literal_loop_at [of w s es "[]" a False] assms(1) es Nil by simp
    moreover have "step_back w (s\<lparr>rpos := rpos s + byte_count w\<rparr>) = t"
      using step_back_at [of w s es 1] assms(1,3,4) es Nil by (simp add: taken_def)
    ultimately show ?thesis using r1(3) es Nil assms(3,4) seek0 byte_count_pos(1) [of w]
      by (subst rle_round_iff [OF r1(1) r2 refl]) (simp add: at_seek_back Let_def)
  next
    case (Cons b fs)
    let ?s2 = "?s1\<lparr>rpos := rpos ?s1 + byte_count w\<rparr>"
    have r2: "ro_read (byte_count w) ?s1 = (b, ?s2)" "length b = byte_count w" using at_read r1(2) Cons by auto
    have t: "step_back w (?s1\<lparr>rpos := rpos ?s1 + byte_count w * n\<rparr>) = t"
      if "m = Suc (taken n es')" "1 \<le> n" "n \<le> length es'" for n
      using step_back_at [OF r1(2) that(2,3)] that(1) by (simp add: assms(4) ac_simps)
    have run: "step_back w (snd (run_loop w a b ?s1)) = t" if "a = b"
      using that run_loop_at [OF r1(2), of b a] run_len_bounds [of es' a] t [of "run_len a es'"] assms(3) es Cons r2(2) by simp
    have lit: "step_back w (literal_loop w a b False ?s1) = t" if "a \<noteq> b"
      using that literal_loop_at [OF r1(2), of b a False] literal_len_bounds [of es' a] t [of "literal_len a es'"] assms(3) es Cons r2(2) by simp
    have m: "(rpos t - rpos s) div byte_count w = m" by (simp add: assms(4))
    show ?thesis using r1(3) r2(2) run lit m seek0 es Cons
      by (subst rle_round_iff [OF r1(1) r2(1) at_seek_back [symmetric]]) (simp add: Let_def)
  qed
qed

lemma compress_loop_estimate:
  "at w s es \<Longrightarrow> compress_loop w (s, None, z) = (True, None, z + length (encoded es))"
proof (induction es arbitrary: s z rule: encoded.induct)
  case (1 es)
  show ?case
  proof (cases "es = []")
    case True
    then show ?thesis using at_valid [OF 1(2)] by (simp add: compress_loop.simps [of w s] encoded.simps)
  next
    case False
    let ?m = "round_len es" and ?t = "s\<lparr>rpos := rpos s + round_len es * byte_count w\<rparr>"
    have m: "?m \<le> length es" "1 \<le> ?m" using round_len_bounds [OF False] by simp_all
    have a: "at w ?t (drop ?m es)" using at_read_many [OF 1(2) m(1)] by simp
    have l: "\<forall>e \<in> set es. length e = byte_count w" using 1(2) by (simp add: at_def)
    have "length (hd es) = byte_count w" using l False by simp
    moreover have "\<forall>e \<in> set (take ?m es). length e = byte_count w" using l by (auto dest: in_set_takeD)
    moreover have "length (take ?m es) = ?m" using m by simp
    ultimately have "rle_round w (s, None, z) = Some (?t, None, z + length (enc_round es))"
      using m write_runs_none [of "hd es" _ ?m] write_literals_none_size [of "take ?m es" w ?t z]
      unfolding rle_round_at [OF 1(2) False refl refl] enc_round_def by simp
    then show ?thesis using 1(1) [OF False a] at_valid [OF 1(2)] False
      by (subst compress_loop.simps) (simp add: encoded.simps [of es])
  qed
qed

lemma enc_round_nonempty: "es \<noteq> [] \<Longrightarrow> enc_round es \<noteq> []"
  using round_len_bounds [of es] by (auto simp: enc_round_def enc_runs.simps [of "round_len es"] enc_literals.simps [of "take (round_len es) es"] Let_def)

lemma compress_loop_put:
  "at w s es \<Longrightarrow> length (wdata d) + length (encoded es) \<le> wend d \<Longrightarrow>
    compress_loop w (s, Some d, z) = (True, Some (put (encoded es) d), z + length (encoded es))"
proof (induction es arbitrary: s d z rule: encoded.induct)
  case (1 es)
  show ?case
  proof (cases "es = []")
    case True
    then show ?thesis using at_valid [OF 1(2)] by (simp add: compress_loop.simps [of w s] encoded.simps)
  next
    case False
    let ?m = "round_len es" and ?t = "s\<lparr>rpos := rpos s + round_len es * byte_count w\<rparr>" and ?d = "put (enc_round es) d"
    have m: "?m \<le> length es" "1 \<le> ?m" using round_len_bounds [OF False] by simp_all
    have a: "at w ?t (drop ?m es)" using at_read_many [OF 1(2) m(1)] by simp
    have u: "encoded es = enc_round es @ encoded (drop ?m es)" using False by (simp add: encoded.simps [of es])
    have fits: "length (wdata d) + length (enc_round es) \<le> wend d" "length (wdata d) + length (encoded es) \<le> wend d"
      using 1(3) u by simp_all
    have "at w s (take ?m es @ drop ?m es)" using 1(2) by simp
    note lit = write_literals_some_put [OF this, of d z]
    have "length (take ?m es) = ?m" using m by simp
    note lit = lit [unfolded this]
    have "rle_round w (s, Some d, z) = Some (?t, Some ?d, z + length (enc_round es))"
      using m fits(1) write_runs_some [of d ?m "hd es" z]
      unfolding rle_round_at [OF 1(2) False refl refl] using lit by (cases "is_run es") (simp_all add: enc_round_def)
    moreover have "wo_valid d" using fits(1) enc_round_nonempty [OF False] by (cases "enc_round es") (auto simp: wo_valid_def)
    ultimately show ?thesis using 1(1) [OF False a, of ?d] at_valid [OF 1(2)] False fits(2)
      by (subst compress_loop.simps) (simp add: u)
  qed
qed

section \<open>Decompression of the code\<close>

definition rest :: "ro \<Rightarrow> nat list \<Rightarrow> bool" where
  "rest s bs \<longleftrightarrow> rpos s \<le> length (rdata s) \<and> drop (rpos s) (rdata s) = bs"

lemma rest_read:
  assumes "rest s (as @ bs)" and "n = length as"
  shows "ro_read n s = (as, s\<lparr>rpos := rpos s + length as\<rparr>)" "rest (s\<lparr>rpos := rpos s + length as\<rparr>) bs"
proof -
  have l: "length (rdata s) = rpos s + (length as + length bs)"
    using assms(1) unfolding rest_def by (metis le_add_diff_inverse length_append length_drop)
  then show "ro_read n s = (as, s\<lparr>rpos := rpos s + length as\<rparr>)"
    using assms by (simp add: ro_read_def Let_def ro_left_def rest_def)
  have "drop (length as) (drop (rpos s) (rdata s)) = bs" using assms(1) by (simp add: rest_def)
  then show "rest (s\<lparr>rpos := rpos s + length as\<rparr>) bs" using l by (simp add: rest_def add.commute)
qed

lemma rest_valid: "rest s bs \<Longrightarrow> ro_valid s \<longleftrightarrow> bs \<noteq> []"
  by (auto simp: rest_def ro_valid_def)

lemma wo_write_power:
  "length (wdata d) + n * length bs \<le> wend d \<Longrightarrow> (wo_write bs ^^ n) d = put (concat (replicate n bs)) d"
proof (induction n)
  case (Suc n)
  have c: "concat (replicate n bs) @ bs = bs @ concat (replicate n bs)" by (induction n) simp_all
  have "(wo_write bs ^^ Suc n) d = wo_write bs (put (concat (replicate n bs)) d)" using Suc by simp
  also have "\<dots> = put (concat (replicate n bs) @ bs) d"
    using Suc(2) by (subst wo_write_put) (simp_all add: length_concat sum_list_replicate)
  finally show ?case using c by simp
qed simp

lemma decompress_run:
  assumes "rest s ((k - 1) # a @ bs)" and "1 \<le> k" and "k \<le> 128" and "length a = byte_count w" and "length (wdata d) + k * byte_count w \<le> wend d"
  shows "decompress_rle w (s, d) = decompress_rle w (s\<lparr>rpos := rpos s + 1 + length a\<rparr>, put (concat (replicate k a)) d)"
proof -
  let ?s = "s\<lparr>rpos := rpos s + 1\<rparr>"
  have r1: "ro_read 1 s = ([k - 1], ?s)" "rest ?s (a @ bs)" using rest_read [of s "[k - 1]" "a @ bs" 1] assms(1) by simp_all
  have r2: "ro_read (byte_count w) ?s = (a, ?s\<lparr>rpos := rpos ?s + length a\<rparr>)" using rest_read(1) [OF r1(2)] assms(4) by simp
  have left: "k * byte_count w \<le> wo_left d" using assms(5) by (simp add: wo_left_def)
  then have "k \<le> wo_left d div byte_count w" by (simp add: less_eq_div_iff_mult_less_eq)
  then have "min (signed_byte (k - 1)) (int (wo_left d div byte_count w)) = int (k - 1)" "signed_byte (k - 1) \<ge> 0"
    using assms(2,3) by (auto simp: signed_byte_def)
  moreover have "nat (int (k - 1) + 1) = k" using assms(2) by simp
  ultimately have "decompress_round w (s, d) = Some (?s\<lparr>rpos := rpos ?s + length a\<rparr>, (wo_write a ^^ k) d)"
    using r1(1) r2 assms(4) by (simp add: decompress_round_def Let_def)
  moreover have "ro_valid s" using rest_valid [OF assms(1)] by simp
  moreover have "0 < k * byte_count w" using assms(2) by simp
  then have "wo_valid d" using left unfolding wo_left_def wo_valid_def by linarith
  ultimately show ?thesis using wo_write_power [of d k a] assms(4,5) by (subst decompress_rle.simps) simp
qed

lemma decompress_literal:
  assumes "rest s ((256 - k) # cs @ bs)" and "1 \<le> k" and "k \<le> 128" and "length cs = k * byte_count w" and "length (wdata d) + length cs \<le> wend d"
  shows "decompress_rle w (s, d) = decompress_rle w (s\<lparr>rpos := rpos s + 1 + length cs\<rparr>, put cs d)"
proof -
  let ?s = "s\<lparr>rpos := rpos s + 1\<rparr>"
  have r1: "ro_read 1 s = ([256 - k], ?s)" "rest ?s (cs @ bs)" using rest_read [of s "[256 - k]" "cs @ bs" 1] assms(1) by simp_all
  have r2: "ro_read (length cs) ?s = (cs, ?s\<lparr>rpos := rpos ?s + length cs\<rparr>)" using rest_read(1) [OF r1(2)] by simp
  have c: "signed_byte (256 - k) = - int k" using assms(2,3) by (simp add: signed_byte_def of_nat_diff)
  have n: "min (nat (- int k * - int (byte_count w))) (wo_left d) = length cs"
    using assms(4,5) by (simp add: wo_left_def nat_mult_distrib)
  have "decompress_round w (s, d) = Some (?s\<lparr>rpos := rpos ?s + length cs\<rparr>, wo_write cs d)"
    using r1(1) r2 n c assms(2) by (simp add: decompress_round_def Let_def)
  moreover have "ro_valid s" using rest_valid [OF assms(1)] by simp
  moreover have "0 < length cs" using assms(2,4) by simp
  then have "wo_valid d" using assms(5) unfolding wo_valid_def by linarith
  ultimately show ?thesis using wo_write_put [of d cs] assms(5) by (subst decompress_rle.simps) simp
qed

lemma decompress_enc_runs:
  assumes "rest s (enc_runs m a @ bs)" and "length a = byte_count w" and "length (wdata d) + m * byte_count w \<le> wend d"
  shows "\<exists>t. rest t bs \<and> decompress_rle w (s, d) = decompress_rle w (t, put (concat (replicate m a)) d)"
  using assms
proof (induction m arbitrary: s d rule: less_induct)
  case (less m)
  show ?case
  proof (cases "m = 0")
    case True
    then show ?thesis using less(2) by (auto simp: enc_runs.simps)
  next
    case False
    let ?k = "min m 128" and ?t = "s\<lparr>rpos := rpos s + 1 + length a\<rparr>"
    have u: "enc_runs m a = (?k - 1) # a @ enc_runs (m - ?k) a" using False by (subst enc_runs.simps) simp
    have k: "1 \<le> ?k" "?k \<le> 128" "m - ?k < m" "?k + (m - ?k) = m" using False by simp_all
    have r: "rest s ((?k - 1) # a @ enc_runs (m - ?k) a @ bs)" using less(2) u by simp
    have t: "rest ?t (enc_runs (m - ?k) a @ bs)"
      using rest_read(2) [of s "(?k - 1) # a" "enc_runs (m - ?k) a @ bs"] r by simp
    have m: "m * byte_count w = ?k * byte_count w + (m - ?k) * byte_count w" using k(4) by (metis add_mult_distrib)
    have lc: "length (concat (replicate ?k a)) = ?k * byte_count w" using less(3) by (simp add: length_concat sum_list_replicate)
    have "length (wdata d) + ?k * byte_count w \<le> wend d" using less(4) m by linarith
    from decompress_run [OF r k(1,2) less(3) this]
    have "decompress_rle w (s, d) = decompress_rle w (?t, put (concat (replicate ?k a)) d)" .
    moreover have "length (wdata (put (concat (replicate ?k a)) d)) + (m - ?k) * byte_count w \<le> wend (put (concat (replicate ?k a)) d)"
      using less(4) m lc by simp
    note less(1) [OF k(3) t less(3) this]
    moreover have "concat (replicate ?k a) @ concat (replicate (m - ?k) a) = concat (replicate m a)"
      using k(4) by (metis concat_append replicate_add)
    ultimately show ?thesis by auto
  qed
qed

lemma decompress_enc_literals:
  assumes "rest s (enc_literals es @ bs)" and "\<forall>e \<in> set es. length e = byte_count w" and "length (wdata d) + length es * byte_count w \<le> wend d"
  shows "\<exists>t. rest t bs \<and> decompress_rle w (s, d) = decompress_rle w (t, put (concat es) d)"
  using assms
proof (induction es arbitrary: s d rule: enc_literals.induct)
  case (1 es)
  show ?case
  proof (cases "es = []")
    case True
    then show ?thesis using 1(2) by (auto simp: enc_literals.simps)
  next
    case False
    let ?k = "min (length es) 128" and ?cs = "concat (take (min (length es) 128) es)"
    let ?t = "s\<lparr>rpos := rpos s + 1 + length ?cs\<rparr>"
    have u: "enc_literals es = (256 - ?k) # ?cs @ enc_literals (drop ?k es)" using False by (subst enc_literals.simps) (simp add: Let_def)
    have k: "1 \<le> ?k" "?k \<le> 128" using False by (cases es; simp)+
    have "\<forall>e \<in> set (take ?k es). length e = byte_count w" using 1(3) by (auto dest: in_set_takeD)
    from concat_length [OF this] have l: "length ?cs = ?k * byte_count w" by simp
    have r: "rest s ((256 - ?k) # ?cs @ enc_literals (drop ?k es) @ bs)" using 1(2) u by simp
    have t: "rest ?t (enc_literals (drop ?k es) @ bs)"
      using rest_read(2) [of s "(256 - ?k) # ?cs" "enc_literals (drop ?k es) @ bs"] r by simp
    have "?k + length (drop ?k es) = length es" by simp
    then have m: "length es * byte_count w = ?k * byte_count w + length (drop ?k es) * byte_count w" by (metis add_mult_distrib)
    have "length (wdata d) + length ?cs \<le> wend d" using 1(4) m l by linarith
    from decompress_literal [OF r k l this] have "decompress_rle w (s, d) = decompress_rle w (?t, put ?cs d)" .
    moreover have fit: "length (wdata (put ?cs d)) + length (drop ?k es) * byte_count w \<le> wend (put ?cs d)"
      using 1(4) m l by simp
    have "\<forall>e \<in> set (drop ?k es). length e = byte_count w" using 1(3) by (auto dest: in_set_dropD)
    note 1(1) [OF False refl t this fit]
    moreover have "?cs @ concat (drop ?k es) = concat es" by (metis append_take_drop_id concat_append)
    ultimately show ?thesis by auto
  qed
qed

section \<open>The round trip\<close>

text \<open>The data do not end in a run of at least two elements and one more.\<close>

definition tail_ok :: "'a list \<Rightarrow> bool" where
  "tail_ok es \<longleftrightarrow> (let n = length es in 3 \<le> n \<and> es ! (n - 3) = es ! (n - 2) \<longrightarrow> es ! (n - 2) = es ! (n - 1))"

lemma tail_ok_drop: "tail_ok es \<Longrightarrow> tail_ok (drop k es)"
  by (auto simp: tail_ok_def Let_def)

lemma run_len_prefix: "i < run_len a es - 1 \<Longrightarrow> es ! i = a"
proof (induction a es arbitrary: i rule: run_len.induct)
  case (3 a e e' es)
  then show ?case by (cases i) (auto split: if_splits)
qed simp_all

lemma run_taken:
  assumes "is_run es" and "tail_ok es"
  shows "take (round_len es) es = replicate (round_len es) (hd es)"
proof -
  obtain a fs where es: "es = a # a # fs" using assms(1) by (cases es rule: is_run.cases) auto
  let ?n = "run_len a (a # fs)"
  have n: "1 \<le> ?n" "?n \<le> Suc (length fs)" using run_len_bounds [of "a # fs" a] by simp_all
  have p: "(a # fs) ! i = a" if "i < ?n - 1" for i using that run_len_prefix by fast
  have m: "round_len es = Suc (taken ?n (a # fs))" using es by simp
  have "(a # fs) ! i = a" if i: "i < taken ?n (a # fs)" for i
  proof (cases "?n < Suc (length fs) \<or> i < ?n - 1")
    case True
    then show ?thesis using i p by (auto simp: taken_def)
  next
    case False
    then have l: "?n = Suc (length fs)" "i = length fs" using i n by (auto simp: taken_def)
    have q: "es ! k = a" if "k < Suc (length fs)" for k using that p [of "k - 1"] l(1) es by (cases k) auto
    have "length es - 1 = Suc (length fs)" "length es - 2 = length fs" "length es - 3 = length fs - 1" using es by simp_all
    then have "es ! Suc (length fs) = a" if "fs \<noteq> []"
      using assms(2) q [of "length fs"] q [of "length fs - 1"] that es by (cases fs) (auto simp: tail_ok_def Let_def)
    then show ?thesis using l(2) es by (cases fs) auto
  qed
  then have "take (round_len es) es ! i = a" if "i < round_len es" for i
    using that m es by (cases i) auto
  moreover have "round_len es \<le> length es" using round_len_bounds [of es] es by simp
  ultimately have "take (round_len es) es = replicate (round_len es) a"
    by (intro nth_equalityI) (simp_all add: min_def del: round_len.simps split: if_splits)
  then show ?thesis using es by (metis list.sel(1))
qed

lemma decompress_encoded:
  assumes "rest s (encoded es)" and "tail_ok es" and "\<forall>e \<in> set es. length e = byte_count w" and "wend d = length (wdata d) + length es * byte_count w"
  shows "decompress_rle w (s, d) = Some (put (concat es) d)"
  using assms
proof (induction es arbitrary: s d rule: encoded.induct)
  case (1 es)
  show ?case
  proof (cases "es = []")
    case True
    then show ?thesis using 1(5) by (subst decompress_rle.simps) (simp add: wo_valid_def)
  next
    case False
    let ?m = "round_len es"
    have m: "?m \<le> length es" using round_len_bounds [OF False] by simp
    have r: "rest s (enc_round es @ encoded (drop ?m es))" using 1(2) False by (simp add: encoded.simps [of es])
    have l: "\<forall>e \<in> set (take ?m es). length e = byte_count w" "\<forall>e \<in> set (drop ?m es). length e = byte_count w"
      using 1(4) by (auto dest: in_set_takeD in_set_dropD)
    have lm: "length (take ?m es) = ?m" using m by simp
    have "length es * byte_count w = ?m * byte_count w + length (drop ?m es) * byte_count w" using m by (simp flip: add_mult_distrib)
    then have fit: "length (wdata d) + ?m * byte_count w + length (drop ?m es) * byte_count w = wend d" using 1(5) by simp
    have "\<exists>t. rest t (encoded (drop ?m es)) \<and> decompress_rle w (s, d) = decompress_rle w (t, put (concat (take ?m es)) d)"
    proof (cases "is_run es")
      case True
      have "length (hd es) = byte_count w" using 1(4) False by simp
      then show ?thesis using decompress_enc_runs [of s ?m "hd es" _ w d] r True fit run_taken [OF True 1(3)] by (simp add: enc_round_def)
    next
      case False
      then show ?thesis using decompress_enc_literals [of s "take ?m es" _ w d] r fit l(1) unfolding lm by (simp add: enc_round_def)
    qed
    then obtain t where t: "rest t (encoded (drop ?m es))" "decompress_rle w (s, d) = decompress_rle w (t, put (concat (take ?m es)) d)" by blast
    have "length (concat (take ?m es)) = ?m * byte_count w" using concat_length [OF l(1)] lm by simp
    then have "decompress_rle w (t, put (concat (take ?m es)) d) = Some (put (concat (drop ?m es)) (put (concat (take ?m es)) d))"
      using fit by (intro 1(1) [OF False t(1) tail_ok_drop [OF 1(3)] l(2)]) simp
    then show ?thesis using t(2) by (simp flip: concat_append)
  qed
qed

definition source_of :: "nat list \<Rightarrow> ro" where
  "source_of bs = \<lparr>rdata = bs, rpos = 0\<rparr>"

definition dest_of :: "nat \<Rightarrow> wo" where
  "dest_of n = \<lparr>wdata = [], wend = n\<rparr>"

text \<open>C37. Compressing into a buffer of the size that compressing without a destination estimates writes exactly that
  many bytes, and decompressing them into a buffer of the original size gives the original data, for
  data of whole elements that do not end in a run and one more element.\<close>

theorem rle_roundtrip:
  assumes "\<forall>e \<in> set es. length e = byte_count w" and "tail_ok es"
  shows "\<exists>estimate out. compress_rle w (source_of (concat es)) None = (True, None, estimate)
    \<and> compress_rle w (source_of (concat es)) (Some (dest_of estimate)) = (True, Some out, estimate)
    \<and> length (wdata out) = estimate
    \<and> map_option wdata (decompress_rle w (source_of (wdata out), dest_of (length (concat es)))) = Some (concat es)"
proof -
  have a: "at w (source_of (concat es)) es" using assms(1) by (simp add: at_def source_of_def)
  let ?n = "length (encoded es)"
  have "compress_rle w (source_of (concat es)) None = (True, None, ?n)"
    using compress_loop_estimate [OF a] by (simp add: compress_rle_def)
  moreover have "compress_rle w (source_of (concat es)) (Some (dest_of ?n)) = (True, Some (put (encoded es) (dest_of ?n)), ?n)"
    using compress_loop_put [OF a, of "dest_of ?n" 0] by (simp add: compress_rle_def dest_of_def)
  moreover have "rest (source_of (encoded es)) (encoded es)" by (simp add: rest_def source_of_def)
  then have "decompress_rle w (source_of (encoded es), dest_of (length (concat es))) = Some (put (concat es) (dest_of (length (concat es))))"
    using concat_length [OF assms(1)] assms by (intro decompress_encoded) (simp_all add: dest_of_def)
  ultimately show ?thesis by (simp add: dest_of_def)
qed

lemma run_len_replicate: "a \<noteq> b \<Longrightarrow> run_len a (replicate n a @ [b]) = Suc n"
proof (induction n)
  case (Suc n)
  then show ?case by (cases n) simp_all
qed simp

text \<open>A run that is followed by exactly one more element swallows it: the last element read is counted as another one of the
  run, so that it comes back as a copy of the run's element.\<close>

theorem rle_swallows_last:
  assumes "length a = byte_count w" and "length b = byte_count w" and "a \<noteq> b" and "2 \<le> n"
  shows "\<exists>estimate out. compress_rle w (source_of (concat (replicate n a @ [b]))) None = (True, None, estimate)
    \<and> compress_rle w (source_of (concat (replicate n a @ [b]))) (Some (dest_of estimate)) = (True, Some out, estimate)
    \<and> map_option wdata (decompress_rle w (source_of (wdata out), dest_of (length (concat (replicate n a @ [b])))))
      = Some (concat (replicate (Suc n) a))"
proof -
  let ?es = "replicate n a @ [b]" and ?as = "replicate (Suc n) a"
  obtain k where k: "n = Suc (Suc k)" using assms(4) by (metis Suc_le_D numeral_2_eq_2 Suc_le_mono)
  have at: "at w (source_of (concat ?es)) ?es" using assms(1,2) by (simp add: at_def source_of_def)
  have r: "round_len ?es = Suc n" "is_run ?es" "hd ?es = a"
    using run_len_replicate [OF assms(3), of "Suc k"] by (simp_all add: k taken_def)
  have as: "run_len a (a # replicate j a) = Suc j" for j by (induction j) simp_all
  have q: "round_len ?as = Suc n" "is_run ?as" "hd ?as = a" using as [of "Suc k"] by (simp_all add: k taken_def)
  have "encoded xs = enc_runs (Suc n) a" if "round_len xs = Suc n" "is_run xs" "hd xs = a" "length xs = Suc n" for xs
    using that by (subst encoded.simps) (auto simp: encoded.simps [of "[]"] enc_round_def)
  then have e: "encoded ?es = encoded ?as" using r q by (metis length_append_singleton length_replicate)
  let ?n = "length (encoded ?es)"
  have "compress_rle w (source_of (concat ?es)) None = (True, None, ?n)"
    using compress_loop_estimate [OF at] by (simp add: compress_rle_def)
  moreover have "compress_rle w (source_of (concat ?es)) (Some (dest_of ?n)) = (True, Some (put (encoded ?es) (dest_of ?n)), ?n)"
    using compress_loop_put [OF at, of "dest_of ?n" 0] by (simp add: compress_rle_def dest_of_def)
  moreover have "rest (source_of (encoded ?as)) (encoded ?as)" by (simp add: rest_def source_of_def)
  then have "decompress_rle w (source_of (encoded ?as), dest_of (length (concat ?es))) = Some (put (concat ?as) (dest_of (length (concat ?es))))"
    using assms(1,2) by (intro decompress_encoded) (simp_all add: dest_of_def tail_ok_def Let_def nth_Cons' length_concat sum_list_replicate)
  ultimately show ?thesis unfolding e by (simp add: dest_of_def del: replicate_Suc concat.simps)
qed

text \<open>Decompressing a run whose count is not less than the number of elements that fit writes one element more than fit:
  the bytes behind the buffer are overwritten.\<close>

theorem run_overflows_buffer:
  assumes "length a = byte_count w" and "0 < n" and "n \<le> cnt" and "cnt < 128"
  shows "map_option wdata (decompress_rle w (source_of (cnt # a), dest_of (n * byte_count w))) = Some (concat (replicate (Suc n) a))"
proof -
  let ?d = "dest_of (n * byte_count w)" and ?s = "source_of (cnt # a)"
  let ?t = "?s\<lparr>rpos := 1 + byte_count w\<rparr>"
  have c: "nat (min (signed_byte cnt) (int (wo_left ?d div byte_count w)) + 1) = Suc n"
    using assms by (simp add: signed_byte_def wo_left_def dest_of_def)
  have r: "ro_read 1 ?s = ([cnt], ?s\<lparr>rpos := 1\<rparr>)" "ro_read (byte_count w) (?s\<lparr>rpos := 1\<rparr>) = (a, ?t)"
    using assms(1) by (simp_all add: ro_read_def Let_def ro_left_def source_of_def)
  have "decompress_round w (?s, ?d) = Some (?t, (wo_write a ^^ Suc n) ?d)"
    using r c assms(1,3,4) by (simp add: decompress_round_def Let_def signed_byte_def)
  moreover have "ro_valid ?s" "wo_valid ?d" "\<not> ro_valid ?t"
    using assms(1,2) by (simp_all add: ro_valid_def wo_valid_def source_of_def dest_of_def)
  moreover have "decompress_rle w (t, d) = Some d" if "\<not> ro_valid t" for t d using that by (subst decompress_rle.simps) simp
  ultimately have "decompress_rle w (?s, ?d) = Some ((wo_write a ^^ Suc n) ?d)"
    by (subst decompress_rle.simps) (simp del: funpow.simps)
  moreover have "wdata ((wo_write a ^^ j) ?d) = concat (replicate j a)" for j
  proof (induction j)
    case (Suc j)
    have "concat (replicate j a) @ a = a @ concat (replicate j a)" by (induction j) simp_all
    with Suc show ?case by (simp add: wo_write_def)
  qed (simp add: dest_of_def)
  ultimately show ?thesis by (simp only: option.map)
qed

section \<open>Concrete bitmaps\<close>

theorem rle_roundtrip_witness:
  "\<exists>estimate out. compress_rle W16 (source_of (concat [[1, 2], [1, 2], [1, 2], [3, 4], [5, 6]])) None = (True, None, estimate)
    \<and> compress_rle W16 (source_of (concat [[1, 2], [1, 2], [1, 2], [3, 4], [5, 6]])) (Some (dest_of estimate)) = (True, Some out, estimate)
    \<and> length (wdata out) = estimate
    \<and> map_option wdata (decompress_rle W16 (source_of (wdata out), dest_of (length (concat [[1::nat, 2], [1, 2], [1, 2], [3, 4], [5, 6]]))))
      = Some (concat [[1, 2], [1, 2], [1, 2], [3, 4], [5, 6]])"
  by (rule rle_roundtrip) (simp_all add: tail_ok_def)

theorem rle_swallows_last_witness:
  "\<exists>estimate out. compress_rle W8 (source_of (concat (replicate 2 [7] @ [[9]]))) None = (True, None, estimate)
    \<and> compress_rle W8 (source_of (concat (replicate 2 [7] @ [[9]]))) (Some (dest_of estimate)) = (True, Some out, estimate)
    \<and> map_option wdata (decompress_rle W8 (source_of (wdata out), dest_of (length (concat (replicate 2 [7::nat] @ [[9]])))))
      = Some (concat (replicate (Suc 2) [7]))"
  by (rule rle_swallows_last) simp_all

theorem run_overflows_buffer_witness:
  "map_option wdata (decompress_rle W24 (source_of (9 # [1, 2, 3]), dest_of (2 * byte_count W24))) = Some (concat (replicate (Suc 2) [1, 2, 3]))"
  by (rule run_overflows_buffer) simp_all

end
