(* ===== verification/Region.thy ===== *)
theory Region imports Prelude begin

text \<open>
  Rectangles and regions: \<open>rect\<close> of \<open>common/vecx.h\<close> and \<open>common/region.cpp\<close>. A region is a vector of rectangles,
  in the order of the vector.

  Coordinates are unbounded integers: an overflow of \<open>int\<close> is undefined behaviour of the program.
\<close>

section \<open>Rectangles\<close>

record vec2 =
  vx :: int
  vy :: int

record rect =
  top :: vec2
  rsize :: vec2

definition vec_add :: "vec2 \<Rightarrow> vec2 \<Rightarrow> vec2" where
  "vec_add a b = \<lparr>vx = vx a + vx b, vy = vy a + vy b\<rparr>"

definition vec_sub :: "vec2 \<Rightarrow> vec2 \<Rightarrow> vec2" where
  "vec_sub a b = \<lparr>vx = vx a - vx b, vy = vy a - vy b\<rparr>"

text \<open>\<open>rect({x, y}, {w, h})\<close>.\<close>

definition mk_rect :: "int \<Rightarrow> int \<Rightarrow> int \<Rightarrow> int \<Rightarrow> rect" where
  "mk_rect x y w h = \<lparr>top = \<lparr>vx = x, vy = y\<rparr>, rsize = \<lparr>vx = w, vy = h\<rparr>\<rparr>"

definition rect_empty :: "rect \<Rightarrow> bool" where
  "rect_empty r \<longleftrightarrow> vx (rsize r) = 0 \<and> vy (rsize r) = 0"

definition rect_valid :: "rect \<Rightarrow> bool" where
  "rect_valid r \<longleftrightarrow> vx (rsize r) > 0 \<and> vy (rsize r) > 0 \<and> vx (top r) \<ge> 0 \<and> vy (top r) \<ge> 0"

definition bottom_right :: "rect \<Rightarrow> vec2" where
  "bottom_right r = vec_add (top r) (rsize r)"

text \<open>A point on the lower or the right edge counts as contained.\<close>

definition contains_point :: "rect \<Rightarrow> vec2 \<Rightarrow> bool" where
  "contains_point r p \<longleftrightarrow> vx (top r) \<le> vx p \<and> vy (top r) \<le> vy p
     \<and> vx (top r) + vx (rsize r) \<ge> vx p \<and> vy (top r) + vy (rsize r) \<ge> vy p"

definition rect_contains :: "rect \<Rightarrow> rect \<Rightarrow> bool" where
  "rect_contains a b \<longleftrightarrow> vx (top a) + vx (rsize a) \<ge> vx (top b) + vx (rsize b)
     \<and> vy (top a) + vy (rsize a) \<ge> vy (top b) + vy (rsize b) \<and> vx (top a) \<le> vx (top b) \<and> vy (top a) \<le> vy (top b)"

definition rect_merge :: "rect \<Rightarrow> rect \<Rightarrow> rect" where
  "rect_merge a b = (if rect_contains a b then a
     else let newx = min (vx (top a)) (vx (top b)); newy = min (vy (top a)) (vy (top b))
       in mk_rect newx newy
            (max (vx (top a) + vx (rsize a)) (vx (top b) + vx (rsize b)) - newx)
            (max (vy (top a) + vy (rsize a)) (vy (top b) + vy (rsize b)) - newy))"

definition rect_intersect :: "rect \<Rightarrow> rect \<Rightarrow> rect" where
  "rect_intersect a b =
    (if rect_empty a \<or> rect_empty b \<or> vx (top a) + vx (rsize a) \<le> vx (top b) \<or> vy (top a) + vy (rsize a) \<le> vy (top b)
        \<or> vx (top a) \<ge> vx (top b) + vx (rsize b) \<or> vy (top a) \<ge> vy (top b) + vy (rsize b)
     then mk_rect 0 0 0 0
     else let tx = (if vx (top a) < vx (top b) then vx (top b) else vx (top a));
              ty = (if vy (top a) < vy (top b) then vy (top b) else vy (top a));
              bx = (if vx (top a) + vx (rsize a) > vx (top b) + vx (rsize b) then vx (top b) + vx (rsize b)
                    else vx (top a) + vx (rsize a));
              by = (if vy (top a) + vy (rsize a) > vy (top b) + vy (rsize b) then vy (top b) + vy (rsize b)
                    else vy (top a) + vy (rsize a))
          in mk_rect tx ty (bx - tx) (by - ty))"

text \<open>The size of a guest's rectangle is its lower right corner.\<close>

definition transform_from_symbian :: "rect \<Rightarrow> rect" where
  "transform_from_symbian r = r\<lparr>rsize := vec_sub (rsize r) (top r)\<rparr>"

definition transform_to_symbian :: "rect \<Rightarrow> rect" where
  "transform_to_symbian r = r\<lparr>rsize := vec_add (rsize r) (top r)\<rparr>"

section \<open>Regions\<close>

type_synonym region = "rect list"

definition bounding_rect :: "region \<Rightarrow> rect" where
  "bounding_rect rs =
    (let tl = foldl (\<lambda>v r. \<lparr>vx = min (vx v) (vx (top r)), vy = min (vy v) (vy (top r))\<rparr>)
           \<lparr>vx = 2147483647, vy = 2147483647\<rparr> rs;
         br = foldl (\<lambda>v r. \<lparr>vx = max (vx v) (vx (top r) + vx (rsize r)), vy = max (vy v) (vy (top r) + vy (rsize r))\<rparr>)
           \<lparr>vx = -2147483648, vy = -2147483648\<rparr> rs
     in \<lparr>top = tl, rsize = vec_sub br tl\<rparr>)"

definition apart :: "rect \<Rightarrow> rect \<Rightarrow> bool" where
  "apart s r \<longleftrightarrow> vx (top s) + vx (rsize s) \<le> vx (top r) \<or> vx (top s) \<ge> vx (top r) + vx (rsize r)
     \<or> vy (top s) + vy (rsize s) \<le> vy (top r) \<or> vy (top s) \<ge> vy (top r) + vy (rsize r)"

text \<open>The pieces of a new rectangle that are pushed for its overlap \<open>i\<close> with an old one.\<close>

definition add_pieces :: "rect \<Rightarrow> rect \<Rightarrow> rect list" where
  "add_pieces r i =
     (if vy (top i) + vy (rsize i) \<noteq> vy (top r) + vy (rsize r)
      then [mk_rect (vx (top r)) (vy (top i)) (vx (rsize r)) (vy (rsize r) + vy (top r) - vy (top i))] else [])
   @ (if vy (top i) \<noteq> vy (top r)
      then [mk_rect (vx (top r)) (vy (top r)) (vx (rsize r)) (vy (top i) - vy (top r))] else [])
   @ (if vx (top i) + vx (rsize i) \<noteq> vx (top r) + vx (rsize r)
      then [mk_rect (vx (top i) + vx (rsize i)) (vy (top i)) (vx (top r) + vx (rsize r) - vx (top i) - vx (rsize i)) (vy (rsize i))] else [])
   @ (if vx (top i) \<noteq> vx (top r)
      then [mk_rect (vx (top r)) (vy (top i)) (vx (top i) - vx (top r)) (vy (rsize i))] else [])"

fun add_scan :: "rect \<Rightarrow> region \<Rightarrow> region \<Rightarrow> bool \<times> region" where
  "add_scan r done [] = (True, done @ [r])"
| "add_scan r done (s # rs) =
    (if apart s r then add_scan r (done @ [s]) rs
     else if rect_contains s r then (False, done @ s # rs)
     else (True, done @ rs @ add_pieces r (rect_intersect r s)))"

definition add_rect :: "rect \<Rightarrow> region \<Rightarrow> bool \<times> region" where
  "add_rect r rs = (if rect_empty r then (True, rs)
     else if rs = [] then (True, [r])
     else if rect_contains r (bounding_rect rs) then (True, [r])
     else add_scan r [] rs)"

text \<open>What is left of \<open>s\<close> without its overlap \<open>i\<close>.\<close>

definition remaining :: "rect \<Rightarrow> rect \<Rightarrow> rect list" where
  "remaining s i =
    (let ib = bottom_right i; sb = bottom_right s in
     map transform_from_symbian
      ((if vy sb \<noteq> vy ib then [mk_rect (vx (top s)) (vy ib) (vx sb) (vy sb)] else [])
     @ (if vx sb \<noteq> vx ib then [mk_rect (vx ib) (vy (top i)) (vx sb) (vy ib)] else [])
     @ (if vx (top i) \<noteq> vx (top s) then [mk_rect (vx (top s)) (vy (top i)) (vx (top i)) (vy ib)] else [])
     @ (if vy (top i) \<noteq> vy (top s) then [mk_rect (vx (top s)) (vy (top s)) (vx sb) (vy (top i))] else [])))"

text \<open>The loop of \<open>eliminate\<close>: an erased rectangle moves the later ones forward, and the index still advances.\<close>

function eliminate_loop :: "rect \<Rightarrow> nat \<Rightarrow> nat \<Rightarrow> region \<Rightarrow> region" where
  "eliminate_loop r i limit rs =
    (if i \<ge> limit then rs
     else if r = rs ! i then take i rs @ drop (Suc i) rs
     else let x = rect_intersect r (rs ! i) in
       if rect_empty x then eliminate_loop r (Suc i) limit rs
       else eliminate_loop r (Suc i) (limit - 1) (take i rs @ drop (Suc i) rs @ remaining (rs ! i) x))"
  by pat_completeness auto
termination by (relation "measure (\<lambda>(r, i, limit, rs). limit - i)") auto

declare eliminate_loop.simps [simp del]

definition eliminate :: "rect \<Rightarrow> region \<Rightarrow> region" where
  "eliminate r rs = (if rect_empty r then rs else eliminate_loop r 0 (length rs) rs)"

definition eliminate_region :: "region \<Rightarrow> region \<Rightarrow> region" where
  "eliminate_region reg rs = foldl (\<lambda>rs r. eliminate r rs) rs reg"

definition region_intersect :: "region \<Rightarrow> region \<Rightarrow> region" where
  "region_intersect rs target = concat (map (\<lambda>s. filter (\<lambda>x. \<not> rect_empty x) (map (\<lambda>t. rect_intersect t s) target)) rs)"

section \<open>The points of a region\<close>

definition inside :: "rect \<Rightarrow> int \<times> int \<Rightarrow> bool" where
  "inside r p \<longleftrightarrow> vx (top r) \<le> fst p \<and> fst p < vx (top r) + vx (rsize r) \<and> vy (top r) \<le> snd p \<and> snd p < vy (top r) + vy (rsize r)"

definition covers :: "region \<Rightarrow> int \<times> int \<Rightarrow> bool" where
  "covers rs p \<longleftrightarrow> list_ex (\<lambda>r. inside r p) rs"

lemma covers_simps [simp]: "covers [] p = False" "covers (r # rs) p \<longleftrightarrow> inside r p \<or> covers rs p"
  "covers (xs @ ys) p \<longleftrightarrow> covers xs p \<or> covers ys p"
  by (simp_all add: covers_def)

lemma covers_iff: "covers rs p \<longleftrightarrow> (\<exists>r \<in> set rs. inside r p)"
  by (simp add: covers_def list_ex_iff)

lemma rect_intersect_overlap:
  assumes "\<not> rect_empty a" and "\<not> rect_empty b" and "\<not> apart a b"
  shows "rect_intersect a b = (let tx = max (vx (top a)) (vx (top b)); ty = max (vy (top a)) (vy (top b))
    in mk_rect tx ty (min (vx (top a) + vx (rsize a)) (vx (top b) + vx (rsize b)) - tx)
        (min (vy (top a) + vy (rsize a)) (vy (top b) + vy (rsize b)) - ty))"
  using assms by (simp add: rect_intersect_def apart_def max_def min_def not_le not_less Let_def)

lemma rect_intersect_apart: "apart a b \<Longrightarrow> rect_intersect a b = mk_rect 0 0 0 0"
  by (auto simp: rect_intersect_def apart_def)

lemma rect_intersect_none: "rect_empty a \<or> rect_empty b \<Longrightarrow> rect_intersect a b = mk_rect 0 0 0 0"
  by (auto simp: rect_intersect_def)

lemma inside_empty [simp]: "rect_empty r \<Longrightarrow> \<not> inside r p"
  by (simp add: inside_def rect_empty_def)

lemma inside_mk [simp]: "inside (mk_rect x y w h) p \<longleftrightarrow> x \<le> fst p \<and> fst p < x + w \<and> y \<le> snd p \<and> snd p < y + h"
  by (simp add: inside_def mk_rect_def)

lemma apart_iff: "apart s r \<Longrightarrow> \<not> (inside s p \<and> inside r p)"
  by (auto simp: apart_def inside_def)

lemma inside_intersect [simp]: "inside (rect_intersect a b) p \<longleftrightarrow> inside a p \<and> inside b p"
proof (cases "rect_empty a \<or> rect_empty b \<or> apart a b")
  case True
  then have "rect_intersect a b = mk_rect 0 0 0 0" using rect_intersect_apart rect_intersect_none by blast
  then show ?thesis using True by (auto dest: apart_iff)
next
  case False
  then show ?thesis by (simp add: rect_intersect_overlap Let_def) (auto simp: inside_def)
qed

lemma inside_from_symbian [simp]:
  "inside (transform_from_symbian (mk_rect l t r b)) p \<longleftrightarrow> l \<le> fst p \<and> fst p < r \<and> t \<le> snd p \<and> snd p < b"
  by (simp add: inside_def mk_rect_def transform_from_symbian_def vec_sub_def)

lemma symbian_roundtrip: "transform_from_symbian (transform_to_symbian r) = r"
  by (cases r) (simp add: transform_from_symbian_def transform_to_symbian_def vec_sub_def vec_add_def)

lemma inside_merge: "inside a p \<or> inside b p \<Longrightarrow> inside (rect_merge a b) p"
  by (auto simp: rect_merge_def rect_contains_def inside_def mk_rect_def Let_def)

lemma inside_contains: "rect_contains a b \<Longrightarrow> inside b p \<Longrightarrow> inside a p"
  by (auto simp: rect_contains_def inside_def)

text \<open>The intersection of two regions covers exactly the points that both cover, for rectangles of any size,
  negative ones included.\<close>

theorem region_intersect_exact: "covers (region_intersect a b) p \<longleftrightarrow> covers a p \<and> covers b p"
proof -
  have "covers (region_intersect a b) p \<longleftrightarrow> (\<exists>s \<in> set a. \<exists>t \<in> set b. \<not> rect_empty (rect_intersect t s) \<and> inside (rect_intersect t s) p)"
    unfolding covers_iff region_intersect_def by fastforce
  also have "\<dots> \<longleftrightarrow> (\<exists>s \<in> set a. \<exists>t \<in> set b. inside t p \<and> inside s p)"
    using inside_empty inside_intersect by metis
  finally show ?thesis by (auto simp: covers_iff)
qed

lemma covers_remaining_iff:
  "covers (remaining s x) p \<longleftrightarrow>
    (vx (top s) \<le> fst p \<and> fst p < vx (bottom_right s) \<and> (vy (bottom_right x) \<le> snd p \<and> snd p < vy (bottom_right s)
      \<or> vy (top s) \<le> snd p \<and> snd p < vy (top x)))
    \<or> (vy (top x) \<le> snd p \<and> snd p < vy (bottom_right x) \<and> (vx (bottom_right x) \<le> fst p \<and> fst p < vx (bottom_right s)
      \<or> vx (top s) \<le> fst p \<and> fst p < vx (top x)))"
  by (simp add: remaining_def Let_def) linarith

lemma covers_remaining:
  assumes "x = rect_intersect r s" and "\<not> rect_empty x"
  shows "covers (remaining s x) p \<longleftrightarrow> inside s p \<and> \<not> inside r p"
proof -
  have o: "\<not> rect_empty r" "\<not> rect_empty s" "\<not> apart r s"
    using assms rect_intersect_apart rect_intersect_none by (auto simp: rect_empty_def mk_rect_def)
  have x: "top x = \<lparr>vx = max (vx (top r)) (vx (top s)), vy = max (vy (top r)) (vy (top s))\<rparr>"
    "bottom_right x = \<lparr>vx = min (vx (bottom_right r)) (vx (bottom_right s)), vy = min (vy (bottom_right r)) (vy (bottom_right s))\<rparr>"
    by (simp_all add: assms(1) rect_intersect_overlap [OF o] Let_def mk_rect_def bottom_right_def vec_add_def)
  have b: "inside q p \<longleftrightarrow> vx (top q) \<le> fst p \<and> fst p < vx (bottom_right q) \<and> vy (top q) \<le> snd p \<and> snd p < vy (bottom_right q)" for q
    by (simp add: inside_def bottom_right_def vec_add_def)
  have a: "vx (top r) < vx (bottom_right s)" "vx (top s) < vx (bottom_right r)" "vy (top r) < vy (bottom_right s)" "vy (top s) < vy (bottom_right r)"
    using o(3) by (auto simp: apart_def bottom_right_def vec_add_def)
  show ?thesis using a unfolding b covers_remaining_iff x by (simp add: min_le_iff_disj less_max_iff_disj) linarith
qed

section \<open>Removing a rectangle\<close>

lemma covers_erase: "i < length rs \<Longrightarrow> covers rs p \<longleftrightarrow> covers (take i rs) p \<or> inside (rs ! i) p \<or> covers (drop (Suc i) rs) p"
  by (subst id_take_nth_drop [of i rs]) simp_all

lemma eliminate_loop_sound:
  "limit \<le> length rs \<Longrightarrow> (covers rs p \<and> \<not> inside r p \<longrightarrow> covers (eliminate_loop r i limit rs) p)
    \<and> (covers (eliminate_loop r i limit rs) p \<longrightarrow> covers rs p)"
proof (induction r i limit rs rule: eliminate_loop.induct)
  case (1 r i limit rs)
  show ?case
  proof (cases "i \<ge> limit \<or> r = rs ! i")
    case True
    then show ?thesis using 1(3) covers_erase [of i rs p] by (subst (1 2) eliminate_loop.simps) auto
  next
    case False
    let ?x = "rect_intersect r (rs ! i)"
    let ?next = "take i rs @ drop (Suc i) rs @ remaining (rs ! i) ?x"
    have i: "i < length rs" using False 1(3) by simp
    show ?thesis
    proof (cases "rect_empty ?x")
      case True
      then have "eliminate_loop r i limit rs = eliminate_loop r (Suc i) limit rs"
        using False by (subst eliminate_loop.simps) (simp add: Let_def)
      then show ?thesis using 1(1) [OF _ _ refl True 1(3)] False by auto
    next
      case n: False
      have l: "limit - 1 \<le> length ?next" using 1(3) i by simp
      have c: "covers ?next p \<longleftrightarrow> covers (take i rs) p \<or> covers (drop (Suc i) rs) p \<or> (inside (rs ! i) p \<and> \<not> inside r p)"
        using covers_remaining [OF refl n] by simp
      have "eliminate_loop r i limit rs = eliminate_loop r (Suc i) (limit - 1) ?next"
        using False n by (subst eliminate_loop.simps) (simp add: Let_def)
      then show ?thesis using 1(2) [OF _ _ refl n l] False c covers_erase [OF i, of p] by (auto simp: not_le)
    qed
  qed
qed

lemma eliminate_sound: "covers rs p \<and> \<not> inside r p \<Longrightarrow> covers (eliminate r rs) p" "covers (eliminate r rs) p \<Longrightarrow> covers rs p"
  using eliminate_loop_sound [of "length rs" rs p r 0] by (auto simp: eliminate_def split: if_splits)

lemma eliminate_region_sound:
  "(covers rs p \<and> \<not> covers reg p \<longrightarrow> covers (eliminate_region reg rs) p) \<and> (covers (eliminate_region reg rs) p \<longrightarrow> covers rs p)"
proof (induction reg arbitrary: rs)
  case (Cons r reg)
  have "eliminate_region (r # reg) rs = eliminate_region reg (eliminate r rs)" by (simp add: eliminate_region_def)
  then show ?case using Cons [of "eliminate r rs"] eliminate_sound(1) [of rs p r] eliminate_sound(2) [of r rs p]
    unfolding covers_simps by metis
qed (simp add: eliminate_region_def)

definition proper :: "rect \<Rightarrow> bool" where
  "proper r \<longleftrightarrow> vx (rsize r) > 0 \<and> vy (rsize r) > 0"

lemma proper_simps: "proper r \<Longrightarrow> \<not> rect_empty r" "proper r \<Longrightarrow> \<not> apart r r"
  by (auto simp: proper_def rect_empty_def apart_def)

lemma inside_not_apart: "inside r p \<Longrightarrow> inside s p \<Longrightarrow> \<not> rect_empty (rect_intersect r s) \<and> \<not> rect_empty r"
  using inside_empty inside_intersect by blast

lemma eliminate_loop_step:
  assumes "i < limit" and "apart r (rs ! i)" and "proper r"
  shows "eliminate_loop r i limit rs = eliminate_loop r (Suc i) limit rs"
  using assms rect_intersect_apart [of r "rs ! i"] proper_simps [of r]
  by (subst eliminate_loop.simps) (auto simp: Let_def rect_empty_def mk_rect_def)

lemma eliminate_loop_skip:
  assumes "\<And>j. i \<le> j \<Longrightarrow> j < k \<Longrightarrow> apart r (rs ! j)" and "proper r" and "i \<le> k" and "k \<le> limit"
  shows "eliminate_loop r i limit rs = eliminate_loop r k limit rs"
  using assms
proof (induction "k - i" arbitrary: i)
  case (Suc n)
  then have "eliminate_loop r i limit rs = eliminate_loop r (Suc i) limit rs" by (intro eliminate_loop_step) auto
  then show ?case using Suc by simp
qed simp

lemma eliminate_loop_done: "eliminate_loop r limit limit rs = rs"
  by (subst eliminate_loop.simps) simp

lemma eliminate_loop_keeps:
  "j < i \<Longrightarrow> j < length rs \<Longrightarrow> limit \<le> length rs \<Longrightarrow>
    j < length (eliminate_loop r i limit rs) \<and> eliminate_loop r i limit rs ! j = rs ! j"
proof (induction r i limit rs rule: eliminate_loop.induct)
  case (1 r i limit rs)
  show ?case
  proof (cases "i \<ge> limit \<or> r = rs ! i")
    case True
    then show ?thesis using 1(3-5) by (subst (1 2) eliminate_loop.simps) (auto simp: nth_append)
  next
    case False
    let ?x = "rect_intersect r (rs ! i)"
    let ?next = "take i rs @ drop (Suc i) rs @ remaining (rs ! i) ?x"
    show ?thesis
    proof (cases "rect_empty ?x")
      case True
      then have "eliminate_loop r i limit rs = eliminate_loop r (Suc i) limit rs"
        using False by (subst eliminate_loop.simps) (simp add: Let_def)
      then show ?thesis using 1(1) [OF _ _ refl True] 1(3-5) False by auto
    next
      case n: False
      have "eliminate_loop r i limit rs = eliminate_loop r (Suc i) (limit - 1) ?next"
        using False n by (subst eliminate_loop.simps) (simp add: Let_def)
      moreover have "j < length ?next" "?next ! j = rs ! j" "limit - 1 \<le> length ?next"
        using 1(3-5) False by (auto simp: nth_append)
      ultimately show ?thesis using 1(2) [OF _ _ refl n] 1(3) False by auto
    qed
  qed
qed

lemma eliminate_reaches:
  assumes "proper r" and "\<forall>t \<in> set xs. apart r t"
  shows "eliminate r (xs @ s # ys) = eliminate_loop r (length xs) (Suc (length xs + length ys)) (xs @ s # ys)"
  using assms eliminate_loop_skip [of 0 "length xs" r "xs @ s # ys" "Suc (length xs + length ys)"]
  by (auto simp: eliminate_def proper_simps nth_append)

lemma eliminate_at:
  "eliminate_loop r (length xs) (Suc (length xs + length ys)) (xs @ s # ys)
    = (if r = s then xs @ ys
       else if rect_empty (rect_intersect r s) then eliminate_loop r (Suc (length xs)) (Suc (length xs + length ys)) (xs @ s # ys)
       else eliminate_loop r (Suc (length xs)) (length xs + length ys) (xs @ ys @ remaining s (rect_intersect r s)))"
  by (subst eliminate_loop.simps) (simp add: Let_def)

text \<open>C38. Removing a rectangle of positive size that overlaps at most one rectangle of the region leaves exactly the points of the
  region that are not in it: the pieces pushed for the overlapped one are its difference.\<close>

theorem eliminate_exact:
  assumes "proper r" and "\<forall>t \<in> set xs \<union> set ys. apart r t"
  shows "covers (eliminate r (xs @ s # ys)) p \<longleftrightarrow> covers (xs @ s # ys) p \<and> \<not> inside r p"
proof -
  let ?x = "rect_intersect r s"
  have other: "\<not> (covers (xs @ ys) p \<and> inside r p)"
    using assms(2) by (auto simp: covers_iff dest: apart_iff)
  have ys: "apart r (ys ! j)" if "j < length ys" for j using that assms(2) by simp
  have "covers (eliminate r (xs @ s # ys)) p \<longleftrightarrow> covers (xs @ ys) p \<or> (inside s p \<and> \<not> inside r p)"
  proof (cases "r = s \<or> rect_empty ?x")
    case True
    have "eliminate_loop r (Suc (length xs)) (Suc (length xs + length ys)) (xs @ s # ys) = xs @ s # ys"
      using ys by (subst eliminate_loop_skip [where k = "Suc (length xs + length ys)"])
        (auto simp: assms(1) eliminate_loop_done nth_append nth_Cons')
    moreover have "\<not> (inside s p \<and> inside r p)" if "r \<noteq> s" using that True inside_not_apart by blast
    ultimately show ?thesis using True assms by (auto simp: eliminate_reaches eliminate_at)
  next
    case False
    have "eliminate_loop r (Suc (length xs)) (length xs + length ys) (xs @ ys @ remaining s ?x) = xs @ ys @ remaining s ?x"
    proof (cases ys)
      case (Cons y zs)
      then have "apart r (zs ! j)" if "j < length zs" for j using that assms(2) by simp
      with Cons show ?thesis by (subst eliminate_loop_skip [where k = "length xs + length ys"])
        (auto simp: assms(1) eliminate_loop_done nth_append)
    qed (subst eliminate_loop.simps, simp)
    then show ?thesis using False assms covers_remaining [OF refl, of r s] by (simp add: eliminate_reaches eliminate_at)
  qed
  then show ?thesis using other by auto
qed

text \<open>Removing a rectangle from a region leaves the one that follows the first overlapped rectangle as it is,
  however much it overlaps too: erasing moved it to the index that is already done.\<close>

theorem eliminate_skips_next:
  assumes "proper r" and "\<forall>u \<in> set xs. apart r u" and "\<not> apart r s" and "\<not> rect_empty s" and "inside t p"
  shows "covers (eliminate r (xs @ s # t # ys)) p"
proof -
  let ?x = "rect_intersect r s"
  have n: "\<not> rect_empty ?x"
    using assms(3,4) proper_simps [OF assms(1)] by (auto simp: rect_intersect_overlap Let_def mk_rect_def rect_empty_def apart_def)
  let ?next = "xs @ t # ys @ remaining s ?x"
  have "covers (eliminate_loop r (Suc (length xs)) (Suc (length xs + length ys)) ?next) p"
  proof -
    have "length xs < length (eliminate_loop r (Suc (length xs)) (Suc (length xs + length ys)) ?next)"
      "eliminate_loop r (Suc (length xs)) (Suc (length xs + length ys)) ?next ! length xs = t"
      using eliminate_loop_keeps [of "length xs" "Suc (length xs)" ?next "Suc (length xs + length ys)" r] by simp_all
    then show ?thesis using assms(5) unfolding covers_iff by (metis nth_mem)
  qed
  then show ?thesis using assms n eliminate_at [of r xs "t # ys" s] by (simp add: eliminate_reaches)
qed

section \<open>Adding a rectangle\<close>

lemma foldl_min_le: "foldl (\<lambda>v r. \<lparr>vx = min (vx v) (vx (top r)), vy = min (vy v) (vy (top r))\<rparr>) v rs = w \<Longrightarrow>
    vx w \<le> vx v \<and> vy w \<le> vy v \<and> (\<forall>r \<in> set rs. vx w \<le> vx (top r) \<and> vy w \<le> vy (top r))"
proof (induction rs arbitrary: v)
  case (Cons r rs)
  from Cons.IH [of "\<lparr>vx = min (vx v) (vx (top r)), vy = min (vy v) (vy (top r))\<rparr>"] Cons.prems show ?case by simp
qed simp

lemma foldl_max_ge: "foldl (\<lambda>v r. \<lparr>vx = max (vx v) (vx (top r) + vx (rsize r)), vy = max (vy v) (vy (top r) + vy (rsize r))\<rparr>) v rs = w \<Longrightarrow>
    vx w \<ge> vx v \<and> vy w \<ge> vy v \<and> (\<forall>r \<in> set rs. vx w \<ge> vx (top r) + vx (rsize r) \<and> vy w \<ge> vy (top r) + vy (rsize r))"
proof (induction rs arbitrary: v)
  case (Cons r rs)
  from Cons.IH [of "\<lparr>vx = max (vx v) (vx (top r) + vx (rsize r)), vy = max (vy v) (vy (top r) + vy (rsize r))\<rparr>"] Cons.prems
  show ?case by simp
qed simp

lemma bounding_rect_contains: "s \<in> set rs \<Longrightarrow> rect_contains (bounding_rect rs) s"
  using foldl_min_le [OF refl, of "\<lparr>vx = 2147483647, vy = 2147483647\<rparr>" rs]
    foldl_max_ge [OF refl, of "\<lparr>vx = -2147483648, vy = -2147483648\<rparr>" rs]
  by (simp add: rect_contains_def bounding_rect_def vec_sub_def Let_def)

lemma rect_contains_trans: "rect_contains a b \<Longrightarrow> rect_contains b c \<Longrightarrow> rect_contains a c"
  by (auto simp: rect_contains_def)

lemma add_scan_skip: "\<forall>s \<in> set xs. apart s r \<Longrightarrow> add_scan r ds (xs @ ys) = add_scan r (ds @ xs) ys"
  by (induction xs arbitrary: ds) simp_all

lemma add_scan_union:
  "\<forall>s \<in> set rs. apart s r \<or> rect_contains s r \<Longrightarrow>
    covers (snd (add_scan r ds rs)) p \<longleftrightarrow> covers ds p \<or> covers rs p \<or> inside r p"
  by (induction rs arbitrary: ds) (auto dest: inside_contains)

text \<open>Adding a rectangle to a region whose rectangles do not overlap it or contain it, or to a region that lies in it,
  covers exactly the points of both.\<close>

theorem add_rect_union:
  assumes "\<forall>s \<in> set rs. apart s r \<or> rect_contains s r \<or> rect_contains r (bounding_rect rs)"
  shows "covers (snd (add_rect r rs)) p \<longleftrightarrow> covers rs p \<or> inside r p"
proof (cases "rect_contains r (bounding_rect rs)")
  case True
  then have "covers rs p \<Longrightarrow> inside r p"
    using bounding_rect_contains rect_contains_trans inside_contains unfolding covers_iff by blast
  then show ?thesis using True by (auto simp: add_rect_def)
next
  case False
  then have "\<forall>s \<in> set rs. apart s r \<or> rect_contains s r" using assms by blast
  from add_scan_union [OF this, of "[]" p] False show ?thesis by (simp add: add_rect_def)
qed

lemma covers_add_pieces:
  assumes "proper r" and "proper s" and "\<not> apart r s" and "covers (add_pieces r (rect_intersect r s)) p"
  shows "inside r p"
proof -
  let ?i = "rect_intersect r s"
  have i: "vx (top r) \<le> vx (top ?i)" "vy (top r) \<le> vy (top ?i)"
    "vx (top ?i) + vx (rsize ?i) \<le> vx (top r) + vx (rsize r)" "vy (top ?i) + vy (rsize ?i) \<le> vy (top r) + vy (rsize r)"
    "vy (top ?i) < vy (top r) + vy (rsize r)" "vx (top ?i) < vx (top r) + vx (rsize r)" "vx (top r) < vx (top ?i) + vx (rsize ?i)"
    using assms(1,3) by (simp_all add: rect_intersect_overlap [OF proper_simps(1) [OF assms(1)] proper_simps(1) [OF assms(2)] assms(3)]
      Let_def mk_rect_def proper_def apart_def)
  have "\<exists>q \<in> set (add_pieces r ?i). inside q p" using assms(4) by (simp add: covers_iff)
  then show ?thesis using i unfolding add_pieces_def inside_def mk_rect_def by (auto split: if_splits)
qed

text \<open>Adding a rectangle that overlaps part of a rectangle of the region loses the rest of the old one: it is
  erased, and only pieces of the new one are pushed.\<close>

theorem add_rect_loses_old:
  assumes "proper r" and "proper s" and "\<not> apart s r" and "\<not> rect_contains s r" and "\<not> rect_contains r (bounding_rect (xs @ s # ys))"
    and "\<forall>t \<in> set xs. apart t r" and "\<forall>t \<in> set xs \<union> set ys. apart t s"
    and "inside s p" and "\<not> inside r p"
  shows "\<not> covers (snd (add_rect r (xs @ s # ys))) p"
proof -
  have a: "\<not> apart r s" using assms(3) by (auto simp: apart_def)
  have "snd (add_rect r (xs @ s # ys)) = xs @ ys @ add_pieces r (rect_intersect r s)"
    using assms(3-6) proper_simps [OF assms(1)] by (simp add: add_rect_def add_scan_skip)
  moreover have "\<not> covers xs p" "\<not> covers ys p" using assms(7,8) apart_iff unfolding covers_iff by blast+
  moreover have "\<not> covers (add_pieces r (rect_intersect r s)) p"
    using covers_add_pieces [OF assms(1,2) a] assms(9) by blast
  ultimately show ?thesis by simp
qed

section \<open>Concrete regions\<close>

theorem eliminate_exact_witness:
  "covers (eliminate (mk_rect 2 2 4 4) ([mk_rect 0 10 5 5] @ mk_rect 0 0 10 10 # [mk_rect 20 0 5 5])) (3, 8)
   \<longleftrightarrow> covers ([mk_rect 0 10 5 5] @ mk_rect 0 0 10 10 # [mk_rect 20 0 5 5]) (3, 8) \<and> \<not> inside (mk_rect 2 2 4 4) (3, 8)"
  by (rule eliminate_exact) (simp_all add: proper_def apart_def mk_rect_def)

theorem eliminate_skips_next_witness:
  "inside (mk_rect 0 0 20 10) (12, 5) \<and> covers (eliminate (mk_rect 0 0 20 10) ([] @ mk_rect 0 0 10 10 # mk_rect 10 0 10 10 # [])) (12, 5)"
  using eliminate_skips_next [of "mk_rect 0 0 20 10" "[]" "mk_rect 0 0 10 10" "mk_rect 10 0 10 10" "(12, 5)" "[]"]
  by (simp add: proper_def apart_def rect_empty_def mk_rect_def inside_def)

theorem add_rect_union_witness:
  "covers (snd (add_rect (mk_rect 10 0 5 5) [mk_rect 0 0 10 10])) (12, 3) \<longleftrightarrow> covers [mk_rect 0 0 10 10] (12, 3) \<or> inside (mk_rect 10 0 5 5) (12, 3)"
  by (rule add_rect_union) (simp add: apart_def mk_rect_def)

theorem add_rect_loses_old_witness:
  "\<not> covers (snd (add_rect (mk_rect 5 5 10 10) ([] @ mk_rect 0 0 10 10 # [mk_rect 30 30 4 4]))) (1, 1)"
  by (rule add_rect_loses_old)
    (simp_all add: proper_def apart_def rect_contains_def bounding_rect_def vec_sub_def mk_rect_def inside_def)

end
