(* ===== verification/Spec2Isabelle.thy ===== *)
theory Spec2Isabelle imports
  Linked Prio_Queue NTimer Common_Algorithm Scheduler Semaphore Mutex Thread_Process Object_Ix Ipc Msg_Queue
  Property Timer_Obj Allocator Mmu Chunk Chunk_Rep Mem_Process Flex Flex_Rep Codeseg Codeseg_Rep Security Crypt Seri Seri_Rep Cre_Rep Descriptor Context Ini Ini_Rep Cenrep Cenrep_Rep Cenrep_Ini Scsu Runlen Region
begin

text \<open>
  EKA2L1 runs programs of the Symbian operating system: it interprets their ARM code and answers their
  supervisor calls with a reimplementation of the Symbian kernel. This development models that kernel
  (\<open>src/emu/kernel\<close>), the memory management below it (\<open>src/emu/mem\<close>), the parts of the common library both
  stand on (\<open>src/emu/common\<close>), the descriptors and policies of the guest (\<open>src/emu/utils\<close>) and, of the services
  above, the central repository (\<open>src/emu/services\<close>). It proves what makes each of them correct, or shows by a theorem
  where it is not.

  Parts of the program and how they interact. A guest thread runs until its time slice is over, a timer
  event is due or a supervisor call blocks it. The scheduler keeps the threads that can run in ready queues; the
  synchronisation objects (semaphores, mutexes) keep the waiting ones in wait queues and hand them back to the
  scheduler. Every asynchronous service ends in the same way: the client's request status is written and its request
  semaphore signalled, which is what timers, properties, message queues, logons and the messages between clients and
  servers do. Time comes from the nanokernel timer. Objects are named by handles. Memory of a guest process
  consists of chunks, which the memory model of the device (multiple or flexible) places in its address space. Services
  are servers that run in the emulator: they get a request as a context, read its arguments, often descriptors, from the
  memory of the client, answer into it and complete the request.

  Conventions. The model follows the C++ code operation by operation. Integers whose wrap-around can be observed are
  words of their width; sizes, addresses and counters that an invariant keeps in range are natural numbers, with the
  truncation written out where the code truncates. The result type \<open>undef\<close> of theory \<open>Prelude\<close> is an option type:
  \<open>None\<close> is undefined behaviour of C++ (a null pointer, an index out of bounds, a violated assertion) and, in a loop
  with fuel, a run that does not end. Errors the program reports are ordinary results. Objects reached by several
  pointers live in stores, and a pointer is a name of a store.

  Theories, in the order of their imports.

  \<^item> \<open>Prelude\<close>: the type \<open>undef\<close>, the searching algorithms of the standard library, chains of doubly linked elements.
  \<^item> \<open>Linked\<close> (\<open>common/linked.h\<close>): the intrusive ring, pointer by pointer; the locale \<open>intrusive_queue\<close> is the queue the
    kernel takes it for, \<open>roundabout_fifo\<close> its correctness.
  \<^item> \<open>Prio_Queue\<close> (\<open>common/queue.h\<close>): the priority queue over the binary heap algorithms, with removal and re-sorting; the
    locale \<open>priority_queue\<close> is what the wait queues of the kernel rely on.
  \<^item> \<open>NTimer\<close> (\<open>kernel/timing.cpp\<close>, \<open>common/time.cpp\<close>): events ordered by time; advancing runs exactly the due ones.
  \<^item> \<open>Common_Algorithm\<close> (\<open>common/algorithm.h\<close>, \<open>algorithm.cpp\<close>): bit scanning, powers of two, alignment, comparison of containers.
  \<^item> \<open>Kernel_State\<close>: the records of threads, processes, semaphores and mutexes and the state \<open>kern\<close> of them all.
  \<^item> \<open>Scheduler\<close> (\<open>kernel/scheduler.cpp\<close>): ready queues as rings through the threads and two mask words. \<open>sched_rep\<close> relates
    them to a list of threads per priority; every operation refines one on these lists, the thread chosen is a first one of
    the highest priority, and threads of equal priority are served in turn.
  \<^item> \<open>Semaphore\<close>, \<open>Mutex\<close> (\<open>kernel/sema.cpp\<close>, \<open>mutex.cpp\<close>, \<open>thread.cpp\<close>): the waiting thread of highest priority is woken and
    made the holder; what goes wrong with recursive locks and with the last pending thread.
  \<^item> \<open>Thread_Process\<close> (\<open>kernel/thread.cpp\<close>, \<open>process.cpp\<close>): priorities and their bounds, the ready queue or the wait queue of a
    semaphore on a change of priority,
    killing, logons and rendezvous, arguments, trap frames.
  \<^item> \<open>Object_Ix\<close> (\<open>kernel/object_ix.cpp\<close>, \<open>kernel_obj.cpp\<close>, \<open>kernel.cpp\<close>): handle tables, the coding of handles, reference counts.
  \<^item> \<open>Ipc\<close> (\<open>kernel/session.cpp\<close>, \<open>server.cpp\<close>, \<open>svc.cpp\<close>): the message table, a request and its reply in every interleaving of
    sending and receiving.
  \<^item> \<open>Msg_Queue\<close>, \<open>Property\<close>, \<open>Timer_Obj\<close> (\<open>kernel/msgqueue.cpp\<close>, \<open>property.cpp\<close>, \<open>timer.cpp\<close>): the data and the requests of
    these objects; messages leave in the order they came, a subscriber is told once, a timer request completes once.
  \<^item> \<open>Allocator\<close> (\<open>common/allocator.cpp\<close>): the block allocator (blocks stay disjoint) and the bitmap allocator (what is
    allocated was free and is free again after freeing).
  \<^item> \<open>Mmu\<close>, \<open>Chunk\<close>, \<open>Chunk_Rep\<close>, \<open>Mem_Process\<close> (\<open>mem/page.cpp\<close>, \<open>mem/mmu.cpp\<close>, \<open>mem/chunk.cpp\<close>,
    \<open>mem/model/multiple\<close>, \<open>kernel/chunk.cpp\<close>): page tables, directories and translation; committing, decommitting and
    adjusting a chunk as operations on the set of its committed pages; chunks of processes, context switches, reads and
    writes of the CPU.
  \<^item> \<open>Flex\<close>, \<open>Flex_Rep\<close> (\<open>mem/model/flexible\<close>): memory objects, mappings, address spaces, and what committing and
    decommitting does to the translation of addresses in every process a chunk is attached to.
  \<^item> \<open>Scsu\<close>, \<open>Runlen\<close>, \<open>Region\<close> (\<open>common/unicode.cpp\<close>, \<open>runlen.cpp\<close>, \<open>buffer.h\<close>, \<open>region.cpp\<close>, \<open>vecx.h\<close>): the compression scheme for
    Unicode, the run-length coding of bitmaps, regions as sets of points.
  \<^item> \<open>Codeseg\<close>, \<open>Codeseg_Rep\<close> (\<open>kernel/codeseg.cpp\<close>, \<open>library.cpp\<close>, parts of \<open>libmanager.cpp\<close>): code segments with their
    dependencies, their places in each process, relocation and the patching of imports; libraries. Attaching links the
    segment; the list of entry points has every dependency before what depends on it.
  \<^item> \<open>Security\<close> (\<open>utils/sec.cpp\<close>, \<open>common/bitfield.h\<close>): policies and their checks, against the sets of capabilities they mean.
  \<^item> \<open>Seri\<close>, \<open>Seri_Rep\<close>, \<open>Cre_Rep\<close> (\<open>common/chunkyseri.cpp\<close>, \<open>utils/cardinality.cpp\<close>, \<open>services/src/centralrepo/cre.cpp\<close>,
    the saved states of kernel objects): what is written is read back, and the measured size is the size written.
  \<^item> \<open>Crypt\<close> (\<open>common/crypt.cpp\<close>): the checksums, as remainders of polynomials, and base 64.
  \<^item> \<open>Descriptor\<close> (\<open>utils/des.h\<close>, \<open>des.cpp\<close>): the descriptors in the memory of the guest, of all types and both widths of
    characters; a text assigned is the text read, and nothing else changes.
  \<^item> \<open>Context\<close> (\<open>services/context.cpp\<close>): arguments of a request, answers through descriptors, completion.
  \<^item> \<open>Ini\<close>, \<open>Ini_Rep\<close> (\<open>common/ini.cpp\<close>, \<open>dynamicfile.cpp\<close>): lines, tokens and the tree they become, the reader as written:
    a null pointer is a pair that could not be made. Reading ends where blanks are ignored, does not end at a tab where
    they are not, and does not survive a key that is the beginning of another.
  \<^item> \<open>Cenrep\<close>, \<open>Cenrep_Rep\<close>, \<open>Cenrep_Ini\<close> (\<open>services/src/centralrepo\<close>): the central repository, from the message that arrives to the file
    that is written: repositories and the cache of initial ones, sessions with their subsessions, values, searches,
    notifications. \<open>cenrep_ok\<close> says that sessions, subsessions and repositories fit together; every message keeps it. A number
    set is the number got, a closed repository is loaded as it was, errors leave the settings alone; a repository written as a text
    file is read back and opened from it; and theorems on resets, on notifications and on values of the wrong type, where the
    service does not do what it says.

  Fuel. Committing, decommitting and mapping loops run once per page table, so that a fuel above the number of
  pages is enough (\<open>commit_reaches_mappings\<close> states it as \<open>n < fuel\<close>); the unmapping loop of the flexible model
  does not end for any fuel where a page table is missing, which is a theorem. The search for a compression window takes at
  most two rounds per character, a word of a bitmap 34 steps. Code segments are attached and listed with a fuel that bounds
  the depth of their dependencies; the dependencies are acyclic in \<open>call_list_dependencies_first\<close>, which then needs no more than
  that depth. Reading a line of an INI file takes at most four rounds per character and two more; \<open>Endless\<close> is then never the
  result, which is \<open>line_fuel_suffices\<close>. The other recursions are structural or have a termination proof.

  Not modelled. The CPU back ends and the disassembler are vendored or glue to vendored code; the drivers, the user
  interface, scripting and the debugger depend on the host; the file system layers wrap the host's. What the host does
  with memory, files and time is a parameter of the definitions that use it. The locks that order the timer thread and the
  emulation thread are not modelled: each operation is one step, and interleavings are sequences of steps.
  The central repository sees a file system as a map from paths to contents, with files that cannot be opened; reading and
  converting real numbers is a parameter, and so is what a variable holds that the code does not initialise. Creation of threads
  and processes (host memory, stacks and the CPU are set up there) and most supervisor calls, which unpack the guest's
  arguments and call the operations modelled here, are not modelled, and neither are the other services, most of which are
  graphics, audio and windows of the host. Of the save states, those of the kernel objects that are more than a stub are.
\<close>

end
